(* ===== verification/Fazle_Prelude.thy ===== *)
theory Fazle_Prelude
  imports Main
begin

text \<open>
  The prelude of the development: the clock and the call environment every
  operation of the coordination layer runs in, the relational tables the code
  keeps in PostgreSQL (a table is the list of its rows in insertion order) with
  the statement forms the code issues on them, the few string operations of
  Python the code uses, and a generic notion of reachability with its invariant
  rule.

  Conventions used by every component.
  \<^item> Time is counted in microseconds, the resolution of a PostgreSQL timestamp;
    \<open>secs n\<close> is \<open>n\<close> seconds.
  \<^item> A call runs in an environment: the host clock (\<open>time.time()\<close>), the
    database clock (\<open>NOW()\<close>), whether a pool could be resolved, and, for every
    statement the call issues, whether that statement raises. The statements of
    a call are numbered from 0 along the path the call takes.
  \<^item> A Python string is a list of characters; slices count characters.
  \<^item> Log lines are not modelled.
\<close>

subsection \<open>Fact collections\<close>

named_theorems table_simps \<open>evaluation of the SQL statement forms\<close>
named_theorems table_keys \<open>what the statement forms keep of a key column\<close>

subsection \<open>Clock and call environment\<close>

type_synonym time = int

definition secs :: "int \<Rightarrow> time" where
  "secs n = 1000000 * n"

lemma secs_mono [simp]: "secs a \<le> secs b \<longleftrightarrow> a \<le> b"
  by (simp add: secs_def)

lemma secs_less [simp]: "secs a < secs b \<longleftrightarrow> a < b"
  by (simp add: secs_def)

record env =
  py_now :: time
  db_now :: time
  has_pool :: bool
  raises :: "nat \<Rightarrow> bool"

definition db_ok :: "env \<Rightarrow> bool" where
  "db_ok e \<longleftrightarrow> has_pool e \<and> raises e = (\<lambda>_. False)"

definition env_at :: "time \<Rightarrow> env" where
  "env_at t = \<lparr>py_now = t, db_now = t, has_pool = True, raises = (\<lambda>_. False)\<rparr>"

lemma env_at_simps [simp]:
  "py_now (env_at t) = t" "db_now (env_at t) = t" "has_pool (env_at t)"
  "raises (env_at t) n = False"
  by (simp_all add: env_at_def)

lemma db_ok_env_at [simp]: "db_ok (env_at t)"
  by (simp add: db_ok_def env_at_def)

lemma db_ok_pool [dest]: "db_ok e \<Longrightarrow> has_pool e"
  by (simp add: db_ok_def)

lemma db_ok_raises: "db_ok e \<Longrightarrow> raises e n = False"
  by (simp add: db_ok_def)

subsection \<open>SQL statement forms on a table\<close>

definition update_where :: "('r \<Rightarrow> bool) \<Rightarrow> ('r \<Rightarrow> 'r) \<Rightarrow> 'r list \<Rightarrow> 'r list" where
  "update_where P f t = map (\<lambda>r. if P r then f r else r) t"

definition delete_where :: "('r \<Rightarrow> bool) \<Rightarrow> 'r list \<Rightarrow> 'r list" where
  "delete_where P t = filter (\<lambda>r. \<not> P r) t"

definition count_where :: "('r \<Rightarrow> bool) \<Rightarrow> 'r list \<Rightarrow> nat" where
  "count_where P t = length (filter P t)"

definition has_row :: "('r \<Rightarrow> bool) \<Rightarrow> 'r list \<Rightarrow> bool" where
  "has_row P t = list_ex P t"

lemma has_row_iff: "has_row P t \<longleftrightarrow> (\<exists>r\<in>set t. P r)"
  by (simp add: has_row_def list_ex_iff)

lemma update_where_Nil [simp]: "update_where P f [] = []"
  by (simp add: update_where_def)

lemma update_where_Cons [simp]:
  "update_where P f (r # t) = (if P r then f r else r) # update_where P f t"
  by (simp add: update_where_def)

lemma update_where_append [simp]:
  "update_where P f (s @ t) = update_where P f s @ update_where P f t"
  by (simp add: update_where_def)

lemma length_update_where [simp]: "length (update_where P f t) = length t"
  by (simp add: update_where_def)

lemma set_update_where: "set (update_where P f t) = (\<lambda>r. if P r then f r else r) ` set t"
  by (simp add: update_where_def)

lemma mem_update_where:
  "r \<in> set (update_where P f t) \<longleftrightarrow> (r \<in> set t \<and> \<not> P r) \<or> (\<exists>s\<in>set t. P s \<and> r = f s)"
  by (auto simp: set_update_where)

lemma ball_update_where:
  "(\<forall>r\<in>set (update_where P f t). Q r) \<longleftrightarrow> (\<forall>r\<in>set t. if P r then Q (f r) else Q r)"
  by (auto simp: set_update_where)

lemma bex_update_where:
  "(\<exists>r\<in>set (update_where P f t). Q r) \<longleftrightarrow> (\<exists>r\<in>set t. if P r then Q (f r) else Q r)"
  by (auto simp: set_update_where)

lemma sorted_take_drop_le:
  assumes "sorted (map f xs)" "x \<in> set (take n xs)" "y \<in> set (drop n xs)"
  shows "(f x :: 'b :: linorder) \<le> f y"
proof -
  have "sorted (map f (take n xs) @ map f (drop n xs))"
    using assms(1) by (simp flip: map_append)
  with assms(2,3) show ?thesis by (simp add: sorted_append)
qed

lemma update_where_none: "(\<And>r. r \<in> set t \<Longrightarrow> \<not> P r) \<Longrightarrow> update_where P f t = t"
  by (auto simp: update_where_def map_idI)

lemma map_key_update_where [table_keys]:
  "(\<And>r. key (f r) = key r) \<Longrightarrow> map key (update_where P f t) = map key t"
  by (simp add: update_where_def)

lemma map_key_update_where_on:
  "(\<And>r. r \<in> set t \<Longrightarrow> P r \<Longrightarrow> key (f r) = key r) \<Longrightarrow> map key (update_where P f t) = map key t"
  by (induction t) (auto simp: update_where_def)

lemma sum_update_where_key:
  fixes g :: "'r \<Rightarrow> int"
  assumes "distinct (map key t)" "r \<in> set t"
  shows "sum_list (map g (update_where (\<lambda>x. key x = key r) f t)) = sum_list (map g t) - g r + g (f r)"
  using assms
proof (induction t)
  case (Cons x t)
  show ?case
  proof (cases "key x = key r")
    case True
    then have "x = r" "update_where (\<lambda>x. key x = key r) f t = t"
      using Cons.prems by (auto intro!: update_where_none) (metis image_eqI)
    then show ?thesis by simp
  next
    case False
    then have "x \<noteq> r" by auto
    with False Cons show ?thesis by simp
  qed
qed simp

lemma sum_list_zeros: "(\<And>x. x \<in> set t \<Longrightarrow> g x = (0 :: int)) \<Longrightarrow> sum_list (map g t) = 0"
  by (induction t) auto

lemma sum_except_key:
  fixes g :: "'r \<Rightarrow> int"
  assumes "distinct (map key t)" "r \<in> set t"
  shows "sum_list (map (\<lambda>x. if key x = key r then 0 else g x) t) = sum_list (map g t) - g r"
  using assms
proof (induction t)
  case (Cons x t)
  show ?case
  proof (cases "x = r")
    case True
    then have "map (\<lambda>x. if key x = key r then 0 else g x) t = map g t" using Cons.prems by (intro map_cong) (auto, metis image_eqI)
    from arg_cong [OF this, of sum_list] True show ?thesis by simp
  next
    case False
    moreover from this have "r \<in> set t" "key x \<noteq> key r" using Cons.prems by auto
    ultimately show ?thesis using Cons by simp
  qed
qed simp

lemma filter_update_where_disjoint:
  "(\<And>r. P r \<Longrightarrow> \<not> Q r \<and> \<not> Q (f r)) \<Longrightarrow> filter Q (update_where P f t) = filter Q t"
  by (induction t) auto

lemma delete_where_Nil [simp]: "delete_where P [] = []"
  by (simp add: delete_where_def)

lemma delete_where_Cons [simp]:
  "delete_where P (r # t) = (if P r then delete_where P t else r # delete_where P t)"
  by (simp add: delete_where_def)

lemma delete_where_append [simp]: "delete_where P (s @ t) = delete_where P s @ delete_where P t"
  by (simp add: delete_where_def)

lemma set_delete_where [simp]: "set (delete_where P t) = {r \<in> set t. \<not> P r}"
  by (simp add: delete_where_def)

lemma distinct_key_delete_where [table_keys]:
  "distinct (map key t) \<Longrightarrow> distinct (map key (delete_where P t))"
  by (induction t) auto

lemma length_delete_where: "length (delete_where P t) + count_where P t = length t"
  by (induction t) (auto simp: count_where_def)

lemma find_Some_mem: "find P t = Some r \<Longrightarrow> r \<in> set t \<and> P r"
  by (induction t) (auto split: if_splits)

lemma find_None_iff_all: "find P t = None \<longleftrightarrow> (\<forall>r\<in>set t. \<not> P r)"
  by (auto simp: find_None_iff)

lemma find_append: "find P (s @ t) = (case find P s of None \<Rightarrow> find P t | Some r \<Rightarrow> Some r)"
  by (induction s) auto

lemma find_key_unique:
  assumes "distinct (map key t)" "r \<in> set t"
  shows "find (\<lambda>s. key s = key r) t = Some r"
  using assms by (induction t) (auto simp: image_iff)

lemma find_update_where_key:
  assumes "\<And>r. key (f r) = key r"
  shows "find (\<lambda>r. key r = k) (update_where P f t) =
    map_option (\<lambda>r. if P r then f r else r) (find (\<lambda>r. key r = k) t)"
  using assms by (induction t) auto

lemma find_update_where_same:
  assumes "\<And>r. P (f r) = P r"
  shows "find P (update_where Q f t) = map_option (\<lambda>r. if Q r then f r else r) (find P t)"
  using assms by (induction t) auto

lemma find_delete_where_key:
  "find (\<lambda>r. key r = k) (delete_where (\<lambda>r. key r = k') t) =
    (if k = k' then None else find (\<lambda>r. key r = k) t)"
  by (induction t) auto

lemma distinct_key_unique:
  "distinct (map key t) \<Longrightarrow> r \<in> set t \<Longrightarrow> s \<in> set t \<Longrightarrow> key r = key s \<Longrightarrow> r = s"
  by (induction t) (auto simp: image_iff)

lemma filter_key_absent: "k \<notin> key ` set t \<Longrightarrow> filter (\<lambda>r. key r \<noteq> k) t = t"
  by (induction t) auto

lemma count_key_unique:
  assumes "distinct (map key t)" "r \<in> set t"
  shows "count_where (\<lambda>s. key s = key r) t = 1"
proof -
  have "filter (\<lambda>s. key s = key r) t = [r]"
    using assms by (induction t) (auto simp: image_iff filter_empty_conv)
  then show ?thesis by (simp add: count_where_def)
qed

subsection \<open>Python strings and decimal numerals\<close>

definition digit_char :: "nat \<Rightarrow> char" where
  "digit_char d = char_of (48 + d)"

definition char_digit :: "char \<Rightarrow> nat" where
  "char_digit c = of_char c - 48"

definition is_digit :: "char \<Rightarrow> bool" where
  "is_digit c \<longleftrightarrow> 48 \<le> (of_char c :: nat) \<and> (of_char c :: nat) \<le> 57"

fun show_nat :: "nat \<Rightarrow> string" where
  "show_nat n = (if n < 10 then [digit_char n] else show_nat (n div 10) @ [digit_char (n mod 10)])"

declare show_nat.simps [simp del]

definition show_int :: "int \<Rightarrow> string" where
  "show_int i = (if i < 0 then ''-'' @ show_nat (nat (- i)) else show_nat (nat i))"

definition read_nat :: "string \<Rightarrow> nat" where
  "read_nat s = foldl (\<lambda>a c. 10 * a + char_digit c) 0 s"

lemma char_digit_digit_char [simp]: "d < 10 \<Longrightarrow> char_digit (digit_char d) = d"
  by (simp add: char_digit_def digit_char_def)

lemma is_digit_digit_char [simp]: "d < 10 \<Longrightarrow> is_digit (digit_char d)"
  by (simp add: is_digit_def digit_char_def)

lemma read_nat_snoc [simp]: "read_nat (s @ [c]) = 10 * read_nat s + char_digit c"
  by (simp add: read_nat_def)

lemma read_show_nat [simp]: "read_nat (show_nat n) = n"
proof (induction n rule: show_nat.induct)
  case (1 n)
  show ?case
  proof (cases "n < 10")
    case True
    then show ?thesis by (simp add: show_nat.simps [of n] read_nat_def)
  next
    case False
    with 1 show ?thesis by (simp add: show_nat.simps [of n])
  qed
qed

lemma show_nat_inj [simp]: "show_nat m = show_nat n \<longleftrightarrow> m = n"
  by (metis read_show_nat)

lemma show_nat_digits: "\<forall>c\<in>set (show_nat n). is_digit c"
proof (induction n rule: show_nat.induct)
  case (1 n)
  then show ?case
    by (cases "n < 10") (auto simp: show_nat.simps [of n])
qed

lemma show_nat_nonempty [simp]: "show_nat n \<noteq> []"
  by (simp add: show_nat.simps [of n])

lemma not_is_digit_minus: "\<not> is_digit (CHR ''-'')"
  by (simp add: is_digit_def)

lemma show_int_inj [simp]: "show_int i = show_int j \<longleftrightarrow> i = j"
proof -
  have nm: "show_nat m \<noteq> CHR ''-'' # s" for m s
    using show_nat_digits [of m] not_is_digit_minus by (cases "show_nat m") auto
  show ?thesis
    by (auto simp: show_int_def nm not_sym [OF nm])
qed

definition lower_char :: "char \<Rightarrow> char" where
  "lower_char c = (let n = of_char c :: nat in if 65 \<le> n \<and> n \<le> 90 then char_of (n + 32) else c)"

definition py_lower :: "string \<Rightarrow> string" where
  \<comment> \<open>\<open>s.lower()\<close> on ASCII text\<close>
  "py_lower s = map lower_char s"

definition upper_char :: "char \<Rightarrow> char" where
  "upper_char c = (let n = of_char c :: nat in if 97 \<le> n \<and> n \<le> 122 then char_of (n - 32) else c)"

definition py_upper :: "string \<Rightarrow> string" where
  \<comment> \<open>\<open>s.upper()\<close> on ASCII text\<close>
  "py_upper s = map upper_char s"

definition py_suffix :: "nat \<Rightarrow> 'a list \<Rightarrow> 'a list" where
  \<comment> \<open>the slice \<open>xs[-n:]\<close> for a positive \<open>n\<close>\<close>
  "py_suffix n xs = drop (length xs - n) xs"

lemma length_py_suffix [simp]: "length (py_suffix n xs) = min n (length xs)"
  by (simp add: py_suffix_def)

definition is_space :: "char \<Rightarrow> bool" where
  \<comment> \<open>the ASCII characters Python and its regular expressions take as white space\<close>
  "is_space c \<longleftrightarrow> (let n = of_char c :: nat in n = 32 \<or> 9 \<le> n \<and> n \<le> 13 \<or> 28 \<le> n \<and> n \<le> 31)"

definition py_strip :: "string \<Rightarrow> string" where
  \<comment> \<open>\<open>s.strip()\<close> on ASCII text\<close>
  "py_strip s = rev (dropWhile is_space (rev (dropWhile is_space s)))"

lemma py_strip_id: "s = '''' \<or> \<not> is_space (hd s) \<and> \<not> is_space (last s) \<Longrightarrow> py_strip s = s"
proof -
  assume "s = '''' \<or> \<not> is_space (hd s) \<and> \<not> is_space (last s)"
  then have "dropWhile is_space s = s" "dropWhile is_space (rev s) = rev s"
    by (auto simp: dropWhile_eq_self_iff hd_rev)
  then show ?thesis by (simp add: py_strip_def)
qed

lemma py_strip_idem [simp]: "py_strip (py_strip s) = py_strip s"
proof -
  define t where "t = dropWhile is_space s"
  define r where "r = rev (dropWhile is_space (rev t))"
  have "t = r @ rev (takeWhile is_space (rev t))"
    unfolding r_def by (metis rev_append rev_rev_ident takeWhile_dropWhile_id)
  then have "r = [] \<or> hd r = hd t \<and> t \<noteq> []" by (metis Nil_is_append_conv hd_append)
  then have "dropWhile is_space r = r"
    using hd_dropWhile [of is_space s] by (cases r) (auto simp: t_def)
  then show ?thesis by (simp add: py_strip_def flip: t_def r_def) (simp add: r_def)
qed

definition py_or :: "string option \<Rightarrow> string option \<Rightarrow> string option" where
  \<comment> \<open>\<open>a or b\<close> on text that may be missing\<close>
  "py_or a b = (if a = None \<or> a = Some '''' then b else a)"

fun split_runs :: "(char \<Rightarrow> bool) \<Rightarrow> string \<Rightarrow> string \<Rightarrow> string list" where
  \<comment> \<open>\<open>re.split(r"[...]+", s)\<close>, less the empty pieces, which every caller skips; the second
    string holds the piece read so far, reversed\<close>
  "split_runs sep [] acc = (if acc = [] then [] else [rev acc])"
| "split_runs sep (c # s) acc =
     (if sep c then (if acc = [] then split_runs sep s [] else rev acc # split_runs sep s [])
      else split_runs sep s (c # acc))"

lemma split_runs_piece: "list_all (\<lambda>c. \<not> sep c) w \<Longrightarrow> split_runs sep (w @ s) acc = split_runs sep s (rev w @ acc)"
  by (induction w arbitrary: acc) auto

lemma split_at_colon_unique:
  assumes "CHR '':'' \<notin> set a" "CHR '':'' \<notin> set b" "a @ CHR '':'' # x = b @ CHR '':'' # y"
  shows "a = b \<and> x = y"
  using assms
proof (induction a arbitrary: b)
  case Nil
  then show ?case by (cases b) auto
next
  case (Cons c a)
  then show ?case by (cases b) auto
qed

subsection \<open>Python dictionaries in insertion order\<close>

fun dict_set :: "'k \<Rightarrow> 'v \<Rightarrow> ('k \<times> 'v) list \<Rightarrow> ('k \<times> 'v) list" where
  "dict_set k v [] = [(k, v)]"
| "dict_set k v ((k', v') # d) = (if k' = k then (k, v) # d else (k', v') # dict_set k v d)"

definition dict_get :: "'v \<Rightarrow> ('k \<times> 'v) list \<Rightarrow> 'k \<Rightarrow> 'v" where
  "dict_get dflt d k = (case map_of d k of None \<Rightarrow> dflt | Some v \<Rightarrow> v)"

definition dict_setdefault :: "'k \<Rightarrow> 'v \<Rightarrow> ('k \<times> 'v) list \<Rightarrow> ('k \<times> 'v) list" where
  "dict_setdefault k v d = (if map_of d k = None then d @ [(k, v)] else d)"

lemma map_of_dict_set [simp]: "map_of (dict_set k v d) = (map_of d)(k \<mapsto> v)"
  by (induction d) (auto simp: fun_eq_iff)

lemma dict_get_dict_set [simp]: "dict_get z (dict_set k v d) k' = (if k' = k then v else dict_get z d k')"
  by (simp add: dict_get_def)

lemma map_of_dict_setdefault:
  "map_of (dict_setdefault k v d) =
    (if map_of d k = None then (map_of d)(k \<mapsto> v) else map_of d)"
  by (auto simp: dict_setdefault_def map_add_def fun_eq_iff split: option.splits)

subsection \<open>Reachable states and invariants\<close>

inductive reach :: "('s \<Rightarrow> bool) \<Rightarrow> ('s \<Rightarrow> 's \<Rightarrow> bool) \<Rightarrow> 's \<Rightarrow> bool"
  for start :: "'s \<Rightarrow> bool" and step :: "'s \<Rightarrow> 's \<Rightarrow> bool" where
  reach_start: "start s \<Longrightarrow> reach start step s"
| reach_step: "reach start step s \<Longrightarrow> step s t \<Longrightarrow> reach start step t"

locale invariant_system =
  fixes start :: "'s \<Rightarrow> bool"
    and step :: "'s \<Rightarrow> 's \<Rightarrow> bool"
    and inv :: "'s \<Rightarrow> bool"
  assumes start_inv: "start s \<Longrightarrow> inv s"
    and step_inv: "step s t \<Longrightarrow> inv s \<Longrightarrow> inv t"
begin

lemma reach_inv: "reach start step s \<Longrightarrow> inv s"
  by (induction rule: reach.induct) (auto intro: start_inv step_inv)

lemma steps_inv: "step\<^sup>*\<^sup>* s t \<Longrightarrow> inv s \<Longrightarrow> inv t"
  by (induction rule: rtranclp_induct) (auto intro: step_inv)

end

subsection \<open>Status columns with absorbing values\<close>

text \<open>
  Several tables carry a status column that only some statements may change and
  in which certain values are final. The contract: a step of the component either
  keeps the status of a key or moves it along an allowed edge, and no edge leaves
  a final value. The client's lemma: a final value stays, along any run.
\<close>

locale status_machine =
  fixes status_of :: "'s \<Rightarrow> 'k \<Rightarrow> 'v option"
    and step :: "'s \<Rightarrow> 's \<Rightarrow> bool"
    and edge :: "'v \<Rightarrow> 'v \<Rightarrow> bool"
    and final :: "'v \<Rightarrow> bool"
  assumes step_edge: "step s t \<Longrightarrow> status_of s k = Some v \<Longrightarrow>
      \<exists>w. status_of t k = Some w \<and> (w = v \<or> edge v w)"
    and final_no_edge: "final v \<Longrightarrow> \<not> edge v w"
begin

lemma step_final: "step s t \<Longrightarrow> status_of s k = Some v \<Longrightarrow> final v \<Longrightarrow> status_of t k = Some v"
  using step_edge final_no_edge by blast

lemma final_stays:
  "step\<^sup>*\<^sup>* s t \<Longrightarrow> status_of s k = Some v \<Longrightarrow> final v \<Longrightarrow> status_of t k = Some v"
  by (induction rule: rtranclp_induct) (auto intro: step_final)

lemma run_edges:
  "step\<^sup>*\<^sup>* s t \<Longrightarrow> status_of s k = Some v \<Longrightarrow> \<exists>w. status_of t k = Some w \<and> edge\<^sup>*\<^sup>* v w"
proof (induction rule: rtranclp_induct)
  case base
  then show ?case by auto
next
  case (step t u)
  then obtain w where w: "status_of t k = Some w" "edge\<^sup>*\<^sup>* v w" by blast
  with step.hyps(2) step_edge obtain x where "status_of u k = Some x" "x = w \<or> edge w x" by blast
  with w show ?case by (metis rtranclp.rtrancl_into_rtrancl)
qed

end

subsection \<open>Refinement of answering machines\<close>

text \<open>
  A component that answers calls from a state it keeps refines an abstract one when the
  two give the same answer to every admissible call and stay related. The client's
  lemma: they give the same answers along any run of admissible calls.
\<close>

fun answers :: "('i \<Rightarrow> 's \<Rightarrow> 'o \<times> 's) \<Rightarrow> 'i list \<Rightarrow> 's \<Rightarrow> 'o list \<times> 's" where
  "answers step [] s = ([], s)"
| "answers step (i # is) s = (let (x, s1) = step i s; (xs, s2) = answers step is s1 in (x # xs, s2))"

fun admissible_run :: "('i \<Rightarrow> 's \<Rightarrow> bool) \<Rightarrow> ('i \<Rightarrow> 's \<Rightarrow> 'o \<times> 's) \<Rightarrow> 'i list \<Rightarrow> 's \<Rightarrow> bool" where
  "admissible_run ok step [] s = True"
| "admissible_run ok step (i # is) s = (ok i s \<and> admissible_run ok step is (snd (step i s)))"

locale machine_refinement =
  fixes astep :: "'i \<Rightarrow> 'a \<Rightarrow> 'o \<times> 'a"
    and cstep :: "'i \<Rightarrow> 'c \<Rightarrow> 'o \<times> 'c"
    and ok :: "'i \<Rightarrow> 'a \<Rightarrow> bool"
    and rel :: "'a \<Rightarrow> 'c \<Rightarrow> bool"
  assumes same_answer: "rel a c \<Longrightarrow> ok i a \<Longrightarrow> fst (cstep i c) = fst (astep i a)"
    and stay_related: "rel a c \<Longrightarrow> ok i a \<Longrightarrow> rel (snd (astep i a)) (snd (cstep i c))"
begin

lemma run_refines:
  "rel a c \<Longrightarrow> admissible_run ok astep is a \<Longrightarrow>
    fst (answers cstep is c) = fst (answers astep is a) \<and> rel (snd (answers astep is a)) (snd (answers cstep is c))"
proof (induction "is" arbitrary: a c)
  case Nil
  then show ?case by simp
next
  case (Cons i "is")
  then show ?case
    using same_answer [of a c i] stay_related [of a c i] by (simp add: Let_def split_def)
qed

end

end
