(* ===== verification/Event_Bus.thy ===== *)
theory Event_Bus
  imports Fazle_Prelude "HOL-Library.Multiset"
begin

text \<open>
  The domain event bus, \<open>shared/events.py\<close>. The bus is the dictionary of
  subscribed handlers, the list of background tasks that were created and have
  not finished, and the three counters. A handler is known by its identity.
  \<open>emit\<close> creates one task per matching handler; \<open>safe_call\<close> is the end of one
  task, with the handler returning or raising.
\<close>

type_synonym handler = nat

datatype jval = JInt int | JStr string | JBool bool | JNull

type_synonym payload = "(string \<times> jval) list"

record envelope =
  ev_type :: string
  ev_payload :: payload
  ev_timestamp :: time
  ev_by :: string

record bus =
  subscribers :: "(string \<times> handler list) list"
  pending_tasks :: "(handler \<times> envelope) list"
  n_emitted :: nat
  n_handled :: nat
  n_failed :: nat

definition empty_bus :: bus where
  "empty_bus = \<lparr>subscribers = [], pending_tasks = [], n_emitted = 0, n_handled = 0, n_failed = 0\<rparr>"

definition subscribe :: "string \<Rightarrow> handler \<Rightarrow> bus \<Rightarrow> bus" where
  "subscribe et h b =
     (let bucket = dict_get [] (subscribers b) et
      in b\<lparr>subscribers := dict_set et (if h \<in> set bucket then bucket else bucket @ [h]) (subscribers b)\<rparr>)"

definition unsubscribe :: "string \<Rightarrow> handler \<Rightarrow> bus \<Rightarrow> bus" where
  "unsubscribe et h b =
     (case map_of (subscribers b) et of
        None \<Rightarrow> b
      | Some hs \<Rightarrow> b\<lparr>subscribers := dict_set et (filter (\<lambda>g. g \<noteq> h) hs) (subscribers b)\<rparr>)"

definition matching :: "string \<Rightarrow> bus \<Rightarrow> handler list" where
  "matching et b = dict_get [] (subscribers b) et @ dict_get [] (subscribers b) ''*''"

definition emit :: "env \<Rightarrow> string \<Rightarrow> payload \<Rightarrow> string \<Rightarrow> bus \<Rightarrow> bus" where
  "emit e et pl by_whom b =
     (let ev = \<lparr>ev_type = et, ev_payload = pl, ev_timestamp = py_now e, ev_by = by_whom\<rparr>
      in b\<lparr>n_emitted := n_emitted b + 1,
           pending_tasks := pending_tasks b @ map (\<lambda>h. (h, ev)) (matching et b)\<rparr>)"

definition safe_call :: "(handler \<Rightarrow> envelope \<Rightarrow> bool) \<Rightarrow> handler \<times> envelope \<Rightarrow> bus \<Rightarrow> bus" where
  "safe_call returns tk b =
     (let b' = b\<lparr>pending_tasks := remove1 tk (pending_tasks b)\<rparr>
      in if returns (fst tk) (snd tk) then b'\<lparr>n_handled := n_handled b + 1\<rparr>
         else b'\<lparr>n_failed := n_failed b + 1\<rparr>)"

definition run_tasks ::
  "(handler \<Rightarrow> envelope \<Rightarrow> bool) \<Rightarrow> (handler \<times> envelope) list \<Rightarrow> bus \<Rightarrow> bus" where
  "run_tasks returns tks b = fold (safe_call returns) tks b"

definition event_metrics :: "bus \<Rightarrow> nat \<times> nat \<times> nat" where
  "event_metrics b = (n_emitted b, n_handled b, n_failed b)"

definition subscriber_counts :: "bus \<Rightarrow> (string \<times> nat) list" where
  "subscriber_counts b = map (\<lambda>(k, v). (k, length v)) (subscribers b)"

definition clear_all_subscribers :: "bus \<Rightarrow> bus" where
  "clear_all_subscribers b = b\<lparr>subscribers := []\<rparr>"

subsection \<open>Well-formedness: no handler twice in a bucket\<close>

definition bus_wf :: "bus \<Rightarrow> bool" where
  "bus_wf b \<longleftrightarrow> (\<forall>et. distinct (dict_get [] (subscribers b) et))"

lemma dict_get_some: "map_of d k = Some v \<Longrightarrow> dict_get z d k = v"
  by (simp add: dict_get_def)

lemma bus_wf_ops:
  "bus_wf b \<Longrightarrow> bus_wf (subscribe et h b)"
  "bus_wf b \<Longrightarrow> bus_wf (unsubscribe et h b)"
  "bus_wf b \<Longrightarrow> bus_wf (emit e et pl w b)"
  "bus_wf b \<Longrightarrow> bus_wf (safe_call r tk b)"
  "bus_wf (clear_all_subscribers b)"
  by (auto simp: bus_wf_def subscribe_def unsubscribe_def emit_def safe_call_def
      clear_all_subscribers_def Let_def dict_get_def split: option.splits)

lemma emit_frame [simp]:
  "subscribers (emit e et pl w b) = subscribers b"
  "n_handled (emit e et pl w b) = n_handled b"
  "n_failed (emit e et pl w b) = n_failed b"
  "n_emitted (emit e et pl w b) = Suc (n_emitted b)"
  by (simp_all add: emit_def Let_def)

lemma safe_call_counts:
  "tk \<in> set (pending_tasks b) \<Longrightarrow>
    n_handled (safe_call r tk b) + n_failed (safe_call r tk b) + length (pending_tasks (safe_call r tk b))
      = n_handled b + n_failed b + length (pending_tasks b)"
  by (auto simp: safe_call_def Let_def length_remove1 dest: length_pos_if_in_set)

lemma safe_call_pending [simp]: "pending_tasks (safe_call r tk b) = remove1 tk (pending_tasks b)"
  by (simp add: safe_call_def Let_def)

lemma run_tasks_accounts:
  "mset tks \<subseteq># mset (pending_tasks b) \<Longrightarrow>
     mset (pending_tasks (run_tasks r tks b)) = mset (pending_tasks b) - mset tks \<and>
     n_handled (run_tasks r tks b) + n_failed (run_tasks r tks b) = n_handled b + n_failed b + length tks"
proof (induction tks arbitrary: b)
  case Nil
  then show ?case by (simp add: run_tasks_def)
next
  case (Cons tk tks)
  let ?b = "safe_call r tk b"
  have tk: "tk \<in> set (pending_tasks b)" using Cons.prems by (simp add: insert_subset_eq_iff)
  have sub: "mset tks \<subseteq># mset (pending_tasks ?b)"
    using Cons.prems by (simp add: insert_subset_eq_iff)
  have counts: "n_handled ?b + n_failed ?b = n_handled b + n_failed b + 1"
    by (simp add: safe_call_def Let_def)
  show ?case using Cons.IH [OF sub] counts tk by (simp add: run_tasks_def)
qed

lemma run_tasks_frame:
  "subscribers (run_tasks r tks b) = subscribers b \<and> n_emitted (run_tasks r tks b) = n_emitted b
   \<and> n_handled (run_tasks r tks b) = n_handled b + length (filter (\<lambda>t. r (fst t) (snd t)) tks)
   \<and> n_failed (run_tasks r tks b) = n_failed b + length (filter (\<lambda>t. \<not> r (fst t) (snd t)) tks)"
  by (induction tks arbitrary: b) (simp_all add: run_tasks_def safe_call_def Let_def)

text \<open>
  Every subscriber of an event runs exactly once and none can stop another.
  From a bus with no task under way, emitting schedules one task per handler of the
  event's type followed by one per wildcard handler; finishing those tasks in any
  order, each handler returning or raising, leaves no task, changes no subscription,
  and the two counters together grow by the number of matching handlers, the failed
  one by exactly the handlers that raised.
\<close>

theorem emit_runs_every_handler:
  assumes "pending_tasks b = []" and "mset tks = mset (pending_tasks (emit e et pl w b))"
  shows "let b' = run_tasks returns tks (emit e et pl w b);
             ev = \<lparr>ev_type = et, ev_payload = pl, ev_timestamp = py_now e, ev_by = w\<rparr>
         in pending_tasks (emit e et pl w b) = map (\<lambda>h. (h, ev)) (matching et b)
          \<and> pending_tasks b' = [] \<and> subscribers b' = subscribers b
          \<and> n_emitted b' = n_emitted b + 1
          \<and> n_failed b' = n_failed b + length (filter (\<lambda>h. \<not> returns h ev) (matching et b))
          \<and> n_handled b' = n_handled b + length (filter (\<lambda>h. returns h ev) (matching et b))"
proof -
  let ?ev = "\<lparr>ev_type = et, ev_payload = pl, ev_timestamp = py_now e, ev_by = w\<rparr>"
  let ?b1 = "emit e et pl w b" and ?ts = "map (\<lambda>h. (h, ?ev)) (matching et b)"
  have p: "pending_tasks ?b1 = ?ts" using assms(1) by (simp add: emit_def Let_def)
  have "pending_tasks (run_tasks returns tks ?b1) = []"
    using run_tasks_accounts [of tks ?b1 returns] assms(2) by simp
  moreover have perm: "mset tks = mset ?ts" by (simp only: assms(2) p)
  have "length (filter Q tks) = length (filter Q ?ts)" for Q
    by (metis perm mset_filter size_mset)
  then have "length (filter (\<lambda>t. P (fst t) (snd t)) tks) = length (filter (\<lambda>h. P h ?ev) (matching et b))" for P
    by (simp add: filter_map comp_def)
  from this [of returns] this [of "\<lambda>h ev. \<not> returns h ev"] run_tasks_frame [of returns tks ?b1] p calculation
  show ?thesis by (simp add: Let_def)
qed

theorem emit_runs_every_handler_witness:
  "let b = subscribe ''*'' 7 (subscribe ''payment_created'' 3 empty_bus);
       b1 = emit (env_at 5) ''payment_created'' [] ''x'' b
   in n_failed (run_tasks (\<lambda>h ev. h = 3) (rev (pending_tasks b1)) b1) = 1"
proof -
  let ?b = "subscribe ''*'' 7 (subscribe ''payment_created'' 3 empty_bus)"
  have p: "pending_tasks ?b = []" by (simp add: subscribe_def Let_def empty_bus_def)
  have m: "matching ''payment_created'' ?b = [3, 7]"
    by (simp add: matching_def subscribe_def Let_def empty_bus_def dict_get_def)
  have f: "n_failed ?b = 0" by (simp add: subscribe_def Let_def empty_bus_def)
  let ?b1 = "emit (env_at 5) ''payment_created'' [] ''x'' ?b"
  have "n_failed (run_tasks (\<lambda>h ev. h = 3) (rev (pending_tasks ?b1)) ?b1) =
      n_failed ?b + length (filter (\<lambda>h. h \<noteq> 3) (matching ''payment_created'' ?b))"
    using emit_runs_every_handler [OF p mset_rev, where returns = "\<lambda>h ev. h = 3"] unfolding Let_def by blast
  then show ?thesis unfolding Let_def m f by (rule trans) simp
qed

end
