(* ===== verification/State_Version.thy ===== *)
theory State_Version
  imports Fazle_Prelude
begin

text \<open>
  The global state version, \<open>shared/state_version.py\<close>: a Redis counter with a
  PostgreSQL fallback. The store holds both back ends, the value of the Redis key
  (\<open>None\<close>: no such key) and the rows of \<open>fazle_state_version\<close>. Whether Redis
  answers is an argument of each call; statement 0 of the environment is the
  fallback's SQL statement.
\<close>

record version_store =
  redis_key :: "int option"
  pg_versions :: "int list"

definition redis_get :: "bool \<Rightarrow> version_store \<Rightarrow> int option" where
  "redis_get up s = (if up then Some (case redis_key s of None \<Rightarrow> 0 | Some v \<Rightarrow> v) else None)"

definition redis_bump :: "bool \<Rightarrow> version_store \<Rightarrow> int option \<times> version_store" where
  "redis_bump up s =
     (if up then let v = (case redis_key s of None \<Rightarrow> 0 | Some v \<Rightarrow> v) + 1
                 in (Some v, s\<lparr>redis_key := Some v\<rparr>)
      else (None, s))"

definition max_version :: "int list \<Rightarrow> int" where
  \<comment> \<open>\<open>COALESCE(MAX(version), 0)\<close>\<close>
  "max_version vs = (case vs of [] \<Rightarrow> 0 | v # rest \<Rightarrow> fold max rest v)"

definition pg_get :: "env \<Rightarrow> version_store \<Rightarrow> int" where
  "pg_get e s = (if raises e 0 then 0 else max_version (pg_versions s))"

definition pg_bump :: "env \<Rightarrow> version_store \<Rightarrow> int \<times> version_store" where
  "pg_bump e s =
     (if raises e 0 then (0, s)
      else let v = max_version (pg_versions s) + 1
           in ((if v = 0 then 1 else v), s\<lparr>pg_versions := pg_versions s @ [v]\<rparr>))"

definition get_state_version :: "bool \<Rightarrow> env \<Rightarrow> version_store \<Rightarrow> int" where
  "get_state_version up e s = (case redis_get up s of Some v \<Rightarrow> v | None \<Rightarrow> pg_get e s)"

definition bump_state_version :: "bool \<Rightarrow> env \<Rightarrow> version_store \<Rightarrow> int \<times> version_store" where
  "bump_state_version up e s =
     (case redis_bump up s of
        (Some v, s') \<Rightarrow> (v, s')
      | (None, s') \<Rightarrow> pg_bump e s')"

subsection \<open>The contract of a version counter\<close>

text \<open>
  What the pollers of the counter rely on: reading after a bump gives the bumped
  value, and every bump adds one. The contract is that of one back end; which back
  end answers is fixed while it is assumed.
\<close>

locale version_counter =
  fixes get :: "'s \<Rightarrow> int"
    and bump :: "'s \<Rightarrow> int \<times> 's"
    and ok :: "'s \<Rightarrow> bool"
  assumes bump_value: "ok s \<Longrightarrow> fst (bump s) = get s + 1"
    and get_bump: "ok s \<Longrightarrow> get (snd (bump s)) = get s + 1"
    and ok_bump: "ok s \<Longrightarrow> ok (snd (bump s))"
begin

lemma bumps_ok: "ok s \<Longrightarrow> ok (((\<lambda>x. snd (bump x)) ^^ n) s)"
  by (induction n) (auto intro: ok_bump)

lemma get_bumps: "ok s \<Longrightarrow> get (((\<lambda>x. snd (bump x)) ^^ n) s) = get s + int n"
  by (induction n) (auto simp: get_bump bumps_ok)

end

lemma fold_max_eq: "fold max xs (v :: int) = Max (insert v (set xs))"
  by (metis List.finite_set Max.set_eq_fold list.simps(15))

lemma max_version_snoc:
  assumes "\<forall>v\<in>set vs. v \<le> x" "0 \<le> x"
  shows "max_version (vs @ [x]) = x"
proof (cases vs)
  case Nil
  then show ?thesis by (simp add: max_version_def)
next
  case (Cons v rest)
  then have "fold max (rest @ [x]) v = Max (insert v (set rest \<union> {x}))"
    by (simp only: fold_max_eq set_append list.set)
  moreover have "Max (insert v (set rest \<union> {x})) = x"
    using assms Cons by (intro Max_eqI) auto
  ultimately show ?thesis using Cons by (simp add: max_version_def)
qed

lemma max_version_ge: "v \<in> set vs \<Longrightarrow> v \<le> max_version vs"
  by (cases vs) (auto simp: max_version_def fold_max_eq)

definition pg_nonneg :: "version_store \<Rightarrow> bool" where
  "pg_nonneg s \<longleftrightarrow> (\<forall>v\<in>set (pg_versions s). 0 \<le> v)"

lemma max_version_nonneg: "\<forall>v\<in>set vs. 0 \<le> v \<Longrightarrow> 0 \<le> max_version vs"
  using max_version_ge [of "hd vs" vs]
  by (cases vs) (auto simp: max_version_def intro: order_trans)

lemma max_version_bump:
  "\<forall>v\<in>set vs. 0 \<le> v \<Longrightarrow> max_version (vs @ [max_version vs + 1]) = max_version vs + 1"
  by (intro max_version_snoc) (auto dest!: max_version_ge max_version_nonneg)

interpretation redis_counter: version_counter
  "get_state_version True e" "bump_state_version True e" "\<lambda>_. True" for e
  by unfold_locales
    (auto simp: get_state_version_def bump_state_version_def redis_get_def redis_bump_def Let_def)

interpretation pg_counter: version_counter
  "get_state_version False (env_at t)" "bump_state_version False (env_at t)" pg_nonneg for t
  by unfold_locales
    (auto simp: get_state_version_def bump_state_version_def redis_get_def redis_bump_def
      pg_get_def pg_bump_def Let_def pg_nonneg_def max_version_bump dest: max_version_nonneg)

subsection \<open>Properties\<close>

text \<open>
  while one back end answers every call, the state version is a strictly increasing
  counter: after \<open>n\<close> bumps the value read is exactly \<open>n\<close> above the value read before,
  for Redis and for the PostgreSQL fallback alike.
\<close>

theorem state_version_counts_bumps:
  assumes "pg_nonneg s"
  shows "get_state_version True e (((\<lambda>x. snd (bump_state_version True e x)) ^^ n) s)
           = get_state_version True e s + int n
       \<and> get_state_version False (env_at t) (((\<lambda>x. snd (bump_state_version False (env_at t) x)) ^^ n) s)
           = get_state_version False (env_at t) s + int n"
  using redis_counter.get_bumps [where s = s and n = n and e = e] pg_counter.get_bumps [OF assms, where n = n and t = t] by blast

theorem state_version_counts_bumps_witness:
  "pg_nonneg \<lparr>redis_key = Some 7, pg_versions = [0, 3]\<rparr>
   \<and> get_state_version True (env_at 0)
       (((\<lambda>x. snd (bump_state_version True (env_at 0) x)) ^^ 2) \<lparr>redis_key = Some 7, pg_versions = [0, 3]\<rparr>) = 9"
proof -
  let ?s = "\<lparr>redis_key = Some 7, pg_versions = [0, 3 :: int]\<rparr>"
  have nn: "pg_nonneg ?s" by (simp add: pg_nonneg_def)
  have "get_state_version True (env_at 0) ?s = 7" by (simp add: get_state_version_def redis_get_def)
  with state_version_counts_bumps [OF nn, of "env_at 0" 2 0] nn show ?thesis by simp
qed

text \<open>
  across a change of back end the version is not monotone. Every bump served by
  Redis leaves the fallback table untouched, so when Redis stops answering after the
  version has passed what the fallback recorded, the next bump returns a smaller
  version than the one already announced.
\<close>

theorem version_falls_back_below:
  assumes "pg_nonneg s" and "max_version (pg_versions s) + 1 < int n" and "redis_key s = None"
  shows "fst (bump_state_version False (env_at t) (((\<lambda>x. snd (bump_state_version True e x)) ^^ n) s))
       < get_state_version True e (((\<lambda>x. snd (bump_state_version True e x)) ^^ n) s)"
proof -
  let ?s = "((\<lambda>x. snd (bump_state_version True e x)) ^^ n) s"
  have pg: "pg_versions (((\<lambda>x. snd (bump_state_version True e x)) ^^ m) s) = pg_versions s" for m
    by (induction m) (simp_all add: bump_state_version_def redis_bump_def Let_def)
  have "get_state_version True e ?s = int n"
    using redis_counter.get_bumps [where s = s and n = n and e = e] assms(3)
    by (simp add: get_state_version_def redis_get_def)
  moreover have "fst (bump_state_version False (env_at t) ?s) = max_version (pg_versions s) + 1"
    using max_version_nonneg [of "pg_versions s"] assms(1) pg [of n]
    by (auto simp: bump_state_version_def redis_bump_def pg_bump_def Let_def pg_nonneg_def)
  ultimately show ?thesis using assms(2) by simp
qed

theorem version_falls_back_below_witness:
  "pg_nonneg \<lparr>redis_key = None, pg_versions = [0]\<rparr> \<and>
   fst (bump_state_version False (env_at 0)
     (((\<lambda>x. snd (bump_state_version True (env_at 0) x)) ^^ 5) \<lparr>redis_key = None, pg_versions = [0]\<rparr>))
   < get_state_version True (env_at 0)
     (((\<lambda>x. snd (bump_state_version True (env_at 0) x)) ^^ 5) \<lparr>redis_key = None, pg_versions = [0]\<rparr>)"
proof -
  let ?s = "\<lparr>redis_key = None, pg_versions = [0 :: int]\<rparr>"
  have "pg_nonneg ?s" by (simp add: pg_nonneg_def)
  moreover have "max_version (pg_versions ?s) + 1 < int 5" by (simp add: max_version_def)
  ultimately show ?thesis using version_falls_back_below [of ?s 5 0 "env_at 0"] by simp
qed

end
