(* ===== verification/Processing_Locks.thy ===== *)
theory Processing_Locks
  imports Fazle_Prelude
begin

text \<open>
  The processing locks, \<open>shared/locks.py\<close>, over the table
  \<open>fazle_processing_locks\<close> with its unique \<open>lock_key\<close>: acquisition (delete the
  expired row of the key, insert unless a row is there), unconditional release,
  the sweep of expired rows, the context manager \<open>locked\<close> and the per-entity
  variants, and the ingestion fingerprint. The hash function is an argument.
\<close>

record lock_row =
  lock_key :: string
  locked_by :: string
  lock_expires :: time

definition expired_lock :: "time \<Rightarrow> lock_row \<Rightarrow> bool" where
  "expired_lock now r \<longleftrightarrow> lock_expires r < now"

definition acquire_lock ::
  "env \<Rightarrow> string \<Rightarrow> string \<Rightarrow> int \<Rightarrow> lock_row list \<Rightarrow> bool \<times> lock_row list" where
  "acquire_lock e k w ttl t =
     (if raises e 0 then (False, t)
      else let t1 = delete_where (\<lambda>r. lock_key r = k \<and> expired_lock (db_now e) r) t
           in if raises e 1 then (False, t1)
              else if has_row (\<lambda>r. lock_key r = k) t1 then (False, t1)
              else (True, t1 @ [\<lparr>lock_key = k, locked_by = w, lock_expires = db_now e + secs ttl\<rparr>]))"

definition release_lock :: "env \<Rightarrow> string \<Rightarrow> lock_row list \<Rightarrow> lock_row list" where
  "release_lock e k t = (if raises e 0 then t else delete_where (\<lambda>r. lock_key r = k) t)"

definition cleanup_expired_locks :: "env \<Rightarrow> lock_row list \<Rightarrow> nat \<times> lock_row list" where
  "cleanup_expired_locks e t =
     (if raises e 0 then (0, t)
      else (count_where (expired_lock (db_now e)) t, delete_where (expired_lock (db_now e)) t))"

definition locked ::
  "env \<Rightarrow> env \<Rightarrow> string \<Rightarrow> string \<Rightarrow> int \<Rightarrow> (bool \<Rightarrow> 's \<Rightarrow> 'r \<times> 's)
    \<Rightarrow> lock_row list \<times> 's \<Rightarrow> 'r \<times> lock_row list \<times> 's" where
  "locked e e' k w ttl body = (\<lambda>(t, s).
     (let (got, t1) = acquire_lock e k w ttl t;
          (r, s1) = body got s
      in (r, (if got then release_lock e' k t1 else t1), s1)))"

definition employee_lock_key :: "string \<Rightarrow> string" where
  "employee_lock_key employee_id = ''entity:employee:'' @ employee_id"

definition program_lock_key :: "string \<Rightarrow> string" where
  "program_lock_key program_id = ''entity:program:'' @ program_id"

definition transaction_lock_key :: "string \<Rightarrow> string" where
  "transaction_lock_key txn_ref = ''entity:txn:'' @ txn_ref"

definition per_employee_lock where
  "per_employee_lock e e' employee_id w ttl body =
     locked e e' (employee_lock_key employee_id) w ttl body"

definition per_program_lock where
  "per_program_lock e e' program_id w ttl body =
     locked e e' (program_lock_key program_id) w ttl body"

definition per_transaction_lock where
  "per_transaction_lock e e' txn_ref w ttl body =
     locked e e' (transaction_lock_key txn_ref) w ttl body"

fun join_with :: "string \<Rightarrow> string list \<Rightarrow> string" where
  "join_with sep [] = []"
| "join_with sep [s] = s"
| "join_with sep (s # ss) = s @ sep @ join_with sep ss"

definition ingestion_fingerprint ::
  "(string \<Rightarrow> string) \<Rightarrow> string \<Rightarrow> string \<Rightarrow> int option \<Rightarrow> int option \<Rightarrow> string" where
  "ingestion_fingerprint sha wa_id source employee_id amount_cents =
     take 16 (sha (join_with ''|''
       ([wa_id, source] @ (case employee_id of None \<Rightarrow> [] | Some i \<Rightarrow> [show_int i])
          @ (case amount_cents of None \<Rightarrow> [] | Some c \<Rightarrow> [show_int c]))))"

subsection \<open>The table\<close>

definition locks_wf :: "lock_row list \<Rightarrow> bool" where
  "locks_wf t \<longleftrightarrow> distinct (map lock_key t)"

definition live_lock :: "time \<Rightarrow> string \<Rightarrow> lock_row list \<Rightarrow> bool" where
  "live_lock now k t \<longleftrightarrow> has_row (\<lambda>r. lock_key r = k \<and> \<not> expired_lock now r) t"

definition lock_held :: "string \<Rightarrow> lock_row list \<Rightarrow> bool" where
  "lock_held k t \<longleftrightarrow> has_row (\<lambda>r. lock_key r = k) t"

lemma acquire_lock_wf: "locks_wf t \<Longrightarrow> locks_wf (snd (acquire_lock e k w ttl t))"
  by (auto simp: locks_wf_def acquire_lock_def Let_def has_row_iff table_keys)

lemma release_lock_wf: "locks_wf t \<Longrightarrow> locks_wf (release_lock e k t)"
  by (auto simp: locks_wf_def release_lock_def table_keys)

lemma cleanup_wf: "locks_wf t \<Longrightarrow> locks_wf (snd (cleanup_expired_locks e t))"
  by (auto simp: locks_wf_def cleanup_expired_locks_def table_keys)

lemma acquire_live_fails: "live_lock (db_now e) k t \<Longrightarrow> fst (acquire_lock e k w ttl t) = False"
  by (auto simp: acquire_lock_def live_lock_def Let_def has_row_iff)

lemma acquire_free_succeeds:
  "db_ok e \<Longrightarrow> \<not> live_lock (db_now e) k t \<Longrightarrow> fst (acquire_lock e k w ttl t)"
  by (auto simp: acquire_lock_def live_lock_def Let_def has_row_iff db_ok_raises)

lemma acquire_keeps_live: "live_lock (db_now e) k' t \<Longrightarrow>
    live_lock (db_now e) k' (snd (acquire_lock e k w ttl t))"
  by (auto simp: acquire_lock_def live_lock_def Let_def has_row_iff)

lemma acquire_held: "fst (acquire_lock e k w ttl t) \<Longrightarrow> lock_held k (snd (acquire_lock e k w ttl t))"
  by (auto simp: acquire_lock_def lock_held_def Let_def has_row_iff split: if_splits)

lemma acquire_other: "k' \<noteq> k \<Longrightarrow> lock_held k' (snd (acquire_lock e k w ttl t)) = lock_held k' t"
  by (auto simp: acquire_lock_def lock_held_def Let_def has_row_iff)

lemma release_free: "db_ok e \<Longrightarrow> \<not> lock_held k (release_lock e k t)"
  by (auto simp: release_lock_def lock_held_def has_row_iff db_ok_raises)

lemma release_other: "k' \<noteq> k \<Longrightarrow> lock_held k' (release_lock e k t) = lock_held k' t"
  by (auto simp: release_lock_def lock_held_def has_row_iff)

lemma cleanup_keeps_live:
  "live_lock (db_now e) k t \<Longrightarrow> live_lock (db_now e) k (snd (cleanup_expired_locks e t))"
  by (auto simp: cleanup_expired_locks_def live_lock_def has_row_iff)

subsection \<open>The contract a client of the locks relies on\<close>

text \<open>
  A lock service: acquiring a key whose lock is live fails, a successful
  acquisition leaves the key held, releasing frees it, and neither operation
  touches another key. The clients bracket a piece of work with both calls; the
  bracket is defined once for any service and its lemmas are proved from the
  contract alone.
\<close>

definition lock_bracket ::
  "('t \<Rightarrow> bool \<times> 't) \<Rightarrow> ('t \<Rightarrow> 't) \<Rightarrow> (bool \<Rightarrow> 's \<Rightarrow> 'r \<times> 's) \<Rightarrow> 't \<times> 's \<Rightarrow> 'r \<times> 't \<times> 's" where
  "lock_bracket acq rel body = (\<lambda>(t, s).
     (let (got, t1) = acq t; (r, s1) = body got s
      in (r, (if got then rel t1 else t1), s1)))"

locale lock_service =
  fixes acquire :: "env \<Rightarrow> string \<Rightarrow> string \<Rightarrow> int \<Rightarrow> 't \<Rightarrow> bool \<times> 't"
    and release :: "env \<Rightarrow> string \<Rightarrow> 't \<Rightarrow> 't"
    and held :: "string \<Rightarrow> 't \<Rightarrow> bool"
    and live :: "time \<Rightarrow> string \<Rightarrow> 't \<Rightarrow> bool"
  assumes live_blocks: "live (db_now e) k t \<Longrightarrow> \<not> fst (acquire e k w ttl t)"
    and free_grants: "db_ok e \<Longrightarrow> \<not> live (db_now e) k t \<Longrightarrow> fst (acquire e k w ttl t)"
    and live_kept: "live (db_now e) k' t \<Longrightarrow> live (db_now e) k' (snd (acquire e k w ttl t))"
    and granted_held: "fst (acquire e k w ttl t) \<Longrightarrow> held k (snd (acquire e k w ttl t))"
    and acquire_others: "k' \<noteq> k \<Longrightarrow> held k' (snd (acquire e k w ttl t)) = held k' t"
    and released: "db_ok e \<Longrightarrow> \<not> held k (release e k t)"
    and release_others: "k' \<noteq> k \<Longrightarrow> held k' (release e k t) = held k' t"
begin

lemma bracket_frees:
  assumes "db_ok e'" and "\<not> live (db_now e) k t" and "db_ok e"
  shows "\<not> held k (fst (snd (lock_bracket (acquire e k w ttl) (release e' k) body (t, s))))"
  using free_grants [OF assms(3,2), of w ttl] released [OF assms(1)]
  by (auto simp: lock_bracket_def split: prod.splits)

lemma bracket_others:
  assumes "k' \<noteq> k"
  shows "held k' (fst (snd (lock_bracket (acquire e k w ttl) (release e' k) body (t, s)))) = held k' t"
  using acquire_others [OF assms, of e w ttl t] release_others [OF assms]
  by (auto simp: lock_bracket_def split: prod.splits)

lemma bracket_blocked:
  assumes "live (db_now e) k t"
  shows "live (db_now e) k (fst (snd (lock_bracket (acquire e k w ttl) (release e' k) body (t, s))))"
    and "fst (lock_bracket (acquire e k w ttl) (release e' k) body (t, s)) = fst (body False s)"
    and "snd (snd (lock_bracket (acquire e k w ttl) (release e' k) body (t, s))) = snd (body False s)"
  using live_blocks [OF assms, of w ttl] live_kept [OF assms, of k w ttl]
  by (auto simp: lock_bracket_def split: prod.splits)

lemma bracket_granted:
  assumes "db_ok e" and "\<not> live (db_now e) k t"
  shows "fst (lock_bracket (acquire e k w ttl) (release e' k) body (t, s)) = fst (body True s)"
    and "snd (snd (lock_bracket (acquire e k w ttl) (release e' k) body (t, s))) = snd (body True s)"
  using free_grants [OF assms, of w ttl]
  by (auto simp: lock_bracket_def split: prod.splits)

end

interpretation pl: lock_service acquire_lock release_lock lock_held live_lock
  by unfold_locales
    (simp_all add: acquire_live_fails acquire_free_succeeds acquire_keeps_live acquire_held
      acquire_other release_free release_other)

lemma locked_bracket:
  "locked e e' k w ttl body = lock_bracket (acquire_lock e k w ttl) (release_lock e' k) body"
  by (simp add: locked_def lock_bracket_def fun_eq_iff)

lemma filter_key_unique:
  "distinct (map key t) \<Longrightarrow> r \<in> set t \<Longrightarrow> key r = k \<Longrightarrow> filter (\<lambda>x. key x = k) t = [r]"
proof (induction t)
  case (Cons y t)
  then show ?case by (cases "y = r") (auto simp: filter_empty_conv image_iff)
qed simp

subsection \<open>Workers sharing the table\<close>

text \<open>
  A system of workers: the lock table, the database clock and the claims of the
  workers that were granted a lock and have not given it up. A worker gives a claim
  up by calling \<open>release_lock\<close> (the rule requires it to do so before its deadline)
  or by crashing, which leaves the row behind. Any worker may try to acquire any key,
  the scheduler may sweep at any time, and the clock may advance at any time.
\<close>

record claim =
  c_key :: string
  c_worker :: string
  c_deadline :: time

record lock_sys =
  ls_table :: "lock_row list"
  ls_clock :: time
  ls_claims :: "claim list"

inductive lock_step :: "lock_sys \<Rightarrow> lock_sys \<Rightarrow> bool" where
  tick: "ls_clock s \<le> now \<Longrightarrow> lock_step s (s\<lparr>ls_clock := now\<rparr>)"
| granted: "acquire_lock (env_at (ls_clock s)) k w ttl (ls_table s) = (True, t) \<Longrightarrow>
    lock_step s (s\<lparr>ls_table := t,
      ls_claims := \<lparr>c_key = k, c_worker = w, c_deadline = ls_clock s + secs ttl\<rparr> # ls_claims s\<rparr>)"
| refused: "acquire_lock (env_at (ls_clock s)) k w ttl (ls_table s) = (False, t) \<Longrightarrow>
    lock_step s (s\<lparr>ls_table := t\<rparr>)"
| timely_release: "c \<in> set (ls_claims s) \<Longrightarrow> ls_clock s \<le> c_deadline c \<Longrightarrow>
    lock_step s (s\<lparr>ls_table := release_lock (env_at (ls_clock s)) (c_key c) (ls_table s),
      ls_claims := remove1 c (ls_claims s)\<rparr>)"
| crash: "c \<in> set (ls_claims s) \<Longrightarrow> lock_step s (s\<lparr>ls_claims := remove1 c (ls_claims s)\<rparr>)"
| sweep: "lock_step s (s\<lparr>ls_table := snd (cleanup_expired_locks (env_at (ls_clock s)) (ls_table s))\<rparr>)"

definition live_claims :: "string \<Rightarrow> lock_sys \<Rightarrow> claim list" where
  "live_claims k s = filter (\<lambda>c. c_key c = k \<and> ls_clock s \<le> c_deadline c) (ls_claims s)"

definition claim_row :: "claim \<Rightarrow> lock_row" where
  "claim_row c = \<lparr>lock_key = c_key c, locked_by = c_worker c, lock_expires = c_deadline c\<rparr>"

definition lock_inv :: "lock_sys \<Rightarrow> bool" where
  "lock_inv s \<longleftrightarrow> locks_wf (ls_table s)
     \<and> (\<forall>c\<in>set (ls_claims s). ls_clock s \<le> c_deadline c \<longrightarrow> claim_row c \<in> set (ls_table s))
     \<and> (\<forall>k. length (live_claims k s) \<le> 1)"

definition lock_start :: "lock_sys \<Rightarrow> bool" where
  "lock_start s \<longleftrightarrow> ls_table s = [] \<and> ls_claims s = []"

lemma filter_le_length: "(\<And>x. x \<in> set xs \<Longrightarrow> P x \<Longrightarrow> Q x) \<Longrightarrow> length (filter P xs) \<le> length (filter Q xs)"
  by (induction xs) auto

lemma filter_remove1_length: "length (filter P (remove1 x xs)) \<le> length (filter P xs)"
  by (induction xs) auto

lemma acquire_granted_table:
  assumes "acquire_lock (env_at now) k w ttl t = (True, t')"
  shows "t' = delete_where (\<lambda>r. lock_key r = k) t
            @ [\<lparr>lock_key = k, locked_by = w, lock_expires = now + secs ttl\<rparr>]"
    and "\<forall>r\<in>set t. lock_key r = k \<longrightarrow> lock_expires r < now"
proof -
  have e: "\<forall>r\<in>set t. lock_key r = k \<longrightarrow> expired_lock now r"
    using assms by (auto simp: acquire_lock_def Let_def has_row_iff split: if_splits)
  then have "delete_where (\<lambda>r. lock_key r = k \<and> expired_lock now r) t = delete_where (\<lambda>r. lock_key r = k) t"
    by (auto simp: delete_where_def intro: filter_cong)
  with assms e show "t' = delete_where (\<lambda>r. lock_key r = k) t
            @ [\<lparr>lock_key = k, locked_by = w, lock_expires = now + secs ttl\<rparr>]"
    and "\<forall>r\<in>set t. lock_key r = k \<longrightarrow> lock_expires r < now"
    by (auto simp: acquire_lock_def Let_def expired_lock_def split: if_splits)
qed

lemma live_claims_le1_iff:
  "(\<forall>k. length (live_claims k s) \<le> 1) \<Longrightarrow> c \<in> set (ls_claims s) \<Longrightarrow> ls_clock s \<le> c_deadline c \<Longrightarrow>
    d \<in> set (ls_claims s) \<Longrightarrow> ls_clock s \<le> c_deadline d \<Longrightarrow> c_key c = c_key d \<Longrightarrow> c = d"
proof -
  assume a: "\<forall>k. length (live_claims k s) \<le> 1" and cd: "c \<in> set (ls_claims s)"
    "ls_clock s \<le> c_deadline c" "d \<in> set (ls_claims s)" "ls_clock s \<le> c_deadline d" "c_key c = c_key d"
  then have "{c, d} \<subseteq> set (live_claims (c_key d) s)" by (auto simp: live_claims_def)
  moreover have "length (live_claims (c_key d) s) \<le> 1" using a by blast
  ultimately show "c = d" by (cases "live_claims (c_key d) s") auto
qed

lemma lock_inv_row:
  assumes "lock_inv s" "c \<in> set (ls_claims s)" "ls_clock s \<le> c_deadline c"
  obtains r where "r \<in> set (ls_table s)" "lock_key r = c_key c" "lock_expires r = c_deadline c"
proof
  show "claim_row c \<in> set (ls_table s)" using assms by (simp add: lock_inv_def)
qed (simp_all add: claim_row_def)

lemma granted_inv:
  assumes acq: "acquire_lock (env_at (ls_clock s)) k w ttl (ls_table s) = (True, t)" and inv: "lock_inv s"
  shows "lock_inv (s\<lparr>ls_table := t,
      ls_claims := \<lparr>c_key = k, c_worker = w, c_deadline = ls_clock s + secs ttl\<rparr> # ls_claims s\<rparr>)"
proof -
  note t = acquire_granted_table [OF acq]
  have none: "live_claims k s = []"
    using t(2) by (fastforce simp: live_claims_def filter_empty_conv elim: lock_inv_row [OF inv])
  have "locks_wf t" using acquire_lock_wf [of "ls_table s" "env_at (ls_clock s)" k w ttl] acq inv
    by (simp add: lock_inv_def)
  moreover have "claim_row c \<in> set t"
    if "c \<in> set (ls_claims s)" "ls_clock s \<le> c_deadline c" for c
  proof -
    have "c_key c \<noteq> k" using none that by (auto simp: live_claims_def filter_empty_conv)
    then show ?thesis using inv that t(1) by (auto simp: lock_inv_def claim_row_def)
  qed
  ultimately show ?thesis
    using inv none t(1)
    by (auto simp: lock_inv_def live_claims_def claim_row_def)
qed

lemma refused_inv:
  assumes acq: "acquire_lock (env_at (ls_clock s)) k w ttl (ls_table s) = (False, t)" and inv: "lock_inv s"
  shows "lock_inv (s\<lparr>ls_table := t\<rparr>)"
proof -
  have t: "t = delete_where (\<lambda>r. lock_key r = k \<and> expired_lock (ls_clock s) r) (ls_table s)"
    using acq by (auto simp: acquire_lock_def Let_def split: if_splits)
  then show ?thesis
    using inv by (auto simp: lock_inv_def live_claims_def locks_wf_def table_keys claim_row_def expired_lock_def)
qed

lemma release_inv:
  assumes c: "c \<in> set (ls_claims s)" "ls_clock s \<le> c_deadline c" and inv: "lock_inv s"
  shows "lock_inv (s\<lparr>ls_table := release_lock (env_at (ls_clock s)) (c_key c) (ls_table s),
      ls_claims := remove1 c (ls_claims s)\<rparr>)"
proof -
  have one: "length (live_claims (c_key c) s) \<le> 1" and le1: "\<forall>k. length (live_claims k s) \<le> 1"
    using inv by (auto simp: lock_inv_def)
  have gone: "d \<notin> set (remove1 c (ls_claims s)) \<or> ls_clock s > c_deadline d" if "c_key d = c_key c" for d
  proof (rule ccontr)
    assume "\<not> ?thesis"
    then have d: "d \<in> set (remove1 c (ls_claims s))" "ls_clock s \<le> c_deadline d" by auto
    have "c = d" using live_claims_le1_iff [OF le1 c, of d] d that notin_set_remove1 by fastforce
    moreover have "length (filter (\<lambda>x. c_key x = c_key c \<and> ls_clock s \<le> c_deadline x) (remove1 c (ls_claims s)))
        = length (live_claims (c_key c) s) - 1"
      using c by (simp add: live_claims_def filter_remove1 length_remove1)
    ultimately show False using one d
      by (auto simp: filter_empty_conv)
  qed
  have "length (live_claims k (s\<lparr>ls_table := x, ls_claims := remove1 c (ls_claims s)\<rparr>)) \<le> 1" for k x
    using le1 filter_remove1_length [of "\<lambda>d. c_key d = k \<and> ls_clock s \<le> c_deadline d" c "ls_claims s"]
    by (auto simp: live_claims_def intro: order_trans)
  moreover have "locks_wf (release_lock (env_at (ls_clock s)) (c_key c) (ls_table s))"
    using inv by (simp add: release_lock_wf lock_inv_def)
  ultimately show ?thesis
    using inv gone notin_set_remove1
    by (fastforce simp: lock_inv_def release_lock_def claim_row_def)
qed

lemma lock_step_inv: "lock_step s s' \<Longrightarrow> lock_inv s \<Longrightarrow> lock_inv s'"
proof (induction rule: lock_step.induct)
  case (tick s now)
  have "length (live_claims k (s\<lparr>ls_clock := now\<rparr>)) \<le> length (live_claims k s)" for k
    using tick by (auto simp: live_claims_def intro: filter_le_length)
  moreover have "\<forall>k. length (live_claims k s) \<le> 1" using tick by (simp add: lock_inv_def)
  ultimately have "\<forall>k. length (live_claims k (s\<lparr>ls_clock := now\<rparr>)) \<le> 1" by (meson order_trans)
  with tick show ?case by (auto simp: lock_inv_def)
next
  case (crash c s)
  have "length (live_claims k (s\<lparr>ls_claims := remove1 c (ls_claims s)\<rparr>)) \<le> length (live_claims k s)" for k
    using filter_remove1_length [of "\<lambda>d. c_key d = k \<and> ls_clock s \<le> c_deadline d" c "ls_claims s"]
    by (simp add: live_claims_def)
  moreover have "\<forall>k. length (live_claims k s) \<le> 1" using crash by (simp add: lock_inv_def)
  ultimately have "\<forall>k. length (live_claims k (s\<lparr>ls_claims := remove1 c (ls_claims s)\<rparr>)) \<le> 1"
    by (meson order_trans)
  with crash show ?case using notin_set_remove1 by (fastforce simp: lock_inv_def)
next
  case (sweep s)
  then show ?case
    by (auto simp: lock_inv_def live_claims_def cleanup_expired_locks_def locks_wf_def table_keys
        claim_row_def expired_lock_def)
qed (auto intro: granted_inv refused_inv release_inv)

interpretation lock_system: invariant_system lock_start lock_step lock_inv
proof unfold_locales
  show "lock_start s \<Longrightarrow> lock_inv s" for s
    by (simp add: lock_start_def lock_inv_def locks_wf_def live_claims_def)
  show "lock_step s t \<Longrightarrow> lock_inv s \<Longrightarrow> lock_inv t" for s t
    by (rule lock_step_inv)
qed

subsection \<open>Properties\<close>

text \<open>
  C1: mutual exclusion of the processing locks. In every state the workers can reach,
  when each worker releases a lock only while its own time to live has not passed (or
  crashes without releasing), at most one claim on a key is within its deadline,
  whatever acquisitions, sweeps and clock advances are interleaved; and as long as it is,
  the row stored for the key is that of the claim, and it is the only one of the key.
\<close>

theorem lock_mutual_exclusion:
  assumes "reach lock_start lock_step s"
  shows "length (live_claims k s) \<le> 1
    \<and> (\<forall>c\<in>set (live_claims k s). filter (\<lambda>r. lock_key r = k) (ls_table s) =
         [\<lparr>lock_key = k, locked_by = c_worker c, lock_expires = c_deadline c\<rparr>])"
proof -
  have inv: "lock_inv s" by (rule lock_system.reach_inv [OF assms])
  have "filter (\<lambda>r. lock_key r = k) (ls_table s) = [claim_row c]" if "c \<in> set (live_claims k s)" for c
  proof (rule filter_key_unique [where key = lock_key])
    show "distinct (map lock_key (ls_table s))" using inv by (simp add: lock_inv_def locks_wf_def)
    show "claim_row c \<in> set (ls_table s)" "lock_key (claim_row c) = k"
      using inv that by (auto simp: lock_inv_def live_claims_def claim_row_def)
  qed
  then show ?thesis using inv by (auto simp: lock_inv_def claim_row_def live_claims_def)
qed

theorem lock_mutual_exclusion_witness:
  "\<exists>s c. reach lock_start lock_step s \<and> live_claims ''job'' s = [c] \<and> c_worker c = ''w1''
     \<and> filter (\<lambda>r. lock_key r = ''job'') (ls_table s) = [\<lparr>lock_key = ''job'', locked_by = ''w1'', lock_expires = secs 30\<rparr>]"
proof -
  let ?s0 = "\<lparr>ls_table = [], ls_clock = 0, ls_claims = []\<rparr>"
  let ?r = "\<lparr>lock_key = ''job'', locked_by = ''w1'', lock_expires = secs 30\<rparr>"
  let ?s1 = "\<lparr>ls_table = [?r], ls_clock = 0,
      ls_claims = [\<lparr>c_key = ''job'', c_worker = ''w1'', c_deadline = secs 30\<rparr>]\<rparr>"
  have "lock_step ?s0 ?s1"
    using granted [of ?s0 "''job''" "''w1''" 30 "[?r]"]
    by (simp add: acquire_lock_def has_row_iff)
  then have r: "reach lock_start lock_step ?s1"
    by (rule reach_step [rotated]) (rule reach_start, simp add: lock_start_def)
  have c: "live_claims ''job'' ?s1 = [\<lparr>c_key = ''job'', c_worker = ''w1'', c_deadline = secs 30\<rparr>]"
    by (simp add: live_claims_def secs_def)
  with lock_mutual_exclusion [OF r, of "''job''"]
  have "filter (\<lambda>r. lock_key r = ''job'') (ls_table ?s1) = [\<lparr>lock_key = ''job'', locked_by = ''w1'', lock_expires = secs 30\<rparr>]"
    by (simp only: list.set) simp
  with r c show ?thesis by (intro exI [of _ ?s1] exI [of _ "\<lparr>c_key = ''job'', c_worker = ''w1'', c_deadline = secs 30\<rparr>"]) simp
qed

text \<open>
  the time to live is essential, because \<open>release_lock\<close> deletes the row of a key
  whoever holds it. A worker that runs past its own time to live and then releases
  removes the lock of the worker that took over, and a third worker is granted the key
  while the second one's lock has not expired.
\<close>

theorem late_release_breaks_exclusion:
  assumes "0 < ttl" and "\<not> live_lock t0 k t"
    and "acquire_lock (env_at t0) k w1 ttl t = (b1, ta)"
    and "acquire_lock (env_at (t0 + secs (ttl + 1))) k w2 ttl ta = (b2, tb)"
    and "release_lock (env_at (t0 + secs (ttl + 1))) k tb = tc"
    and "acquire_lock (env_at (t0 + secs (ttl + 1))) k w3 ttl tc = (b3, td)"
  shows "b1 \<and> b2 \<and> b3 \<and> live_lock (t0 + secs (ttl + 1)) k tb"
proof -
  let ?t1 = "t0 + secs (ttl + 1)"
  have b1: b1 using acquire_free_succeeds [of "env_at t0" k t w1 ttl] assms(2,3) by simp
  have ta: "ta = delete_where (\<lambda>r. lock_key r = k) t
      @ [\<lparr>lock_key = k, locked_by = w1, lock_expires = t0 + secs ttl\<rparr>]"
    using acquire_granted_table(1) [of t0 k w1 ttl t ta] assms(3) b1 by simp
  have dead: "\<not> live_lock ?t1 k ta"
    using ta by (auto simp: live_lock_def has_row_iff expired_lock_def secs_def)
  have b2: b2 using acquire_free_succeeds [of "env_at ?t1" k ta w2 ttl] assms(4) dead by simp
  have tb: "live_lock ?t1 k tb"
    using acquire_granted_table(1) [of ?t1 k w2 ttl ta tb] assms(1,4) b2
    by (auto simp: live_lock_def has_row_iff expired_lock_def secs_def)
  have "\<not> live_lock ?t1 k tc"
    using assms(5) by (auto simp: release_lock_def live_lock_def has_row_iff)
  then have b3 using acquire_free_succeeds [of "env_at ?t1" k tc w3 ttl] assms(6) by simp
  with b1 b2 tb show ?thesis by blast
qed

theorem late_release_breaks_exclusion_witness:
  "let r = \<lambda>w t. \<lparr>lock_key = ''job'', locked_by = w, lock_expires = t\<rparr>
   in acquire_lock (env_at 0) ''job'' ''a'' 30 [] = (True, [r ''a'' (secs 30)])
    \<and> acquire_lock (env_at (0 + secs (30 + 1))) ''job'' ''b'' 30 [r ''a'' (secs 30)]
        = (True, [r ''b'' (0 + secs (30 + 1) + secs 30)])
    \<and> live_lock (0 + secs (30 + 1)) ''job'' [r ''b'' (0 + secs (30 + 1) + secs 30)]"
proof -
  let ?r = "\<lambda>w t. \<lparr>lock_key = ''job'', locked_by = w, lock_expires = t\<rparr>"
  have 1: "acquire_lock (env_at 0) ''job'' ''a'' 30 [] = (True, [?r ''a'' (secs 30)])"
    by (simp add: acquire_lock_def has_row_iff)
  have 2: "acquire_lock (env_at (0 + secs (30 + 1))) ''job'' ''b'' 30 [?r ''a'' (secs 30)]
      = (True, [?r ''b'' (0 + secs (30 + 1) + secs 30)])"
    by (simp add: acquire_lock_def has_row_iff expired_lock_def secs_def)
  have 3: "acquire_lock (env_at (0 + secs (30 + 1))) ''job'' ''c'' 30
      (release_lock (env_at (0 + secs (30 + 1))) ''job'' [?r ''b'' (0 + secs (30 + 1) + secs 30)])
      = (True, [?r ''c'' (0 + secs (30 + 1) + secs 30)])"
    by (simp add: acquire_lock_def release_lock_def has_row_iff)
  have 0: "\<not> live_lock 0 ''job'' []" by (simp add: live_lock_def has_row_iff)
  show ?thesis
    using late_release_breaks_exclusion [OF _ 0 1 2 refl 3] 1 2 by (simp add: Let_def)
qed

text \<open>
  the context manager \<open>locked\<close> with a working database. On a free key it runs its
  body with \<open>True\<close> and leaves the key free, whether the body returns or raises (the
  body's result type is arbitrary); on a key with a live lock it runs its body with
  \<open>False\<close> and leaves that lock in place; it never touches another key.
\<close>

theorem locked_block_correct:
  assumes "db_ok e" and "db_ok e'" and "locked e e' k w ttl body (t, s) = (r, t', s')"
  shows "(r, s') = body (\<not> live_lock (db_now e) k t) s
    \<and> (if live_lock (db_now e) k t then live_lock (db_now e) k t' else \<not> lock_held k t')
    \<and> (\<forall>k'. k' \<noteq> k \<longrightarrow> lock_held k' t' = lock_held k' t)"
proof (intro conjI)
  have eq: "lock_bracket (acquire_lock e k w ttl) (release_lock e' k) body (t, s) = (r, t', s')"
    using assms(3) by (simp add: locked_bracket)
  show "(r, s') = body (\<not> live_lock (db_now e) k t) s"
    using pl.bracket_granted [OF assms(1), of k t w ttl e' body s]
      pl.bracket_blocked(2,3) [of e k t w ttl e' body s] eq by (cases "live_lock (db_now e) k t") auto
  show "if live_lock (db_now e) k t then live_lock (db_now e) k t' else \<not> lock_held k t'"
    using pl.bracket_frees [OF assms(2) _ assms(1), of k t w ttl body s]
      pl.bracket_blocked(1) [of e k t w ttl e' body s] eq by auto
  show "\<forall>k'. k' \<noteq> k \<longrightarrow> lock_held k' t' = lock_held k' t"
    using pl.bracket_others [of _ k e w ttl e' body t s] eq by auto
qed

theorem locked_block_correct_witness:
  "db_ok (env_at 0) \<and> locked (env_at 0) (env_at 5) ''job'' ''w'' 30 (\<lambda>got n. (got, n + 1)) ([], 7 :: int)
      = (True, [], 8) \<and> (True, 8) = (\<lambda>got n. (got, n + 1 :: int)) (\<not> live_lock 0 ''job'' []) 7"
proof -
  have l: "locked (env_at 0) (env_at 5) ''job'' ''w'' 30 (\<lambda>got n. (got, n + 1)) ([], 7 :: int) = (True, [], 8)"
    by (simp add: locked_def acquire_lock_def release_lock_def has_row_iff)
  show ?thesis using locked_block_correct [OF db_ok_env_at db_ok_env_at l] l by simp
qed

end
