(* ===== verification/Write_Router.thy ===== *)
theory Write_Router
  imports Processing_Locks State_Version Event_Bus
begin

text \<open>
  The canonical write path, \<open>shared/write_router.py\<close>. \<open>routed_write\<close> registers the
  in-process lock of the key, takes the distributed lock, runs the writer inside a
  transaction, emits the domain event, bumps the state version and releases the lock
  on every path that acquired it. The business tables are an arbitrary state \<open>'d\<close>
  and the writer callback is an argument: it returns a value with the new tables or
  raises (a message). The transaction is rolled back when the writer raises and when
  the connection fails (\<open>re_conn\<close>, the message of that exception).
\<close>

record write_context =
  wc_resource :: string
  wc_resource_id :: string
  wc_caller :: string
  wc_lock_key :: string
  wc_meta :: payload

record 'a write_result =
  wr_ok :: bool
  wr_data :: "'a option"
  wr_error :: "string option"
  wr_lock_key :: "string option"
  wr_event_emitted :: bool

record 'd router =
  rt_db :: 'd
  rt_bus :: bus
  rt_ver :: version_store
  rt_local :: "string list"

record router_env =
  re_acquire :: env
  re_release :: env
  re_bump :: env
  re_redis :: bool
  re_conn :: "string option"

type_synonym ('d, 'a) writer = "write_context \<Rightarrow> 'd \<Rightarrow> (string + 'a) \<times> 'd"

definition write_key :: "string \<Rightarrow> string \<Rightarrow> string" where
  "write_key resource resource_id = ''write:'' @ resource @ '':'' @ resource_id"

definition get_local_lock :: "string \<Rightarrow> 'd router \<Rightarrow> 'd router" where
  "get_local_lock k s = (if k \<in> set (rt_local s) then s else s\<lparr>rt_local := rt_local s @ [k]\<rparr>)"

definition run_writer ::
  "string option \<Rightarrow> ('d, 'a) writer \<Rightarrow> write_context \<Rightarrow> 'd \<Rightarrow> (string + 'a) \<times> 'd" where
  "run_writer conn_error wr ctx d =
     (case conn_error of
        Some msg \<Rightarrow> (Inl msg, d)
      | None \<Rightarrow> (case wr ctx d of (Inl msg, _) \<Rightarrow> (Inl msg, d) | (Inr x, d') \<Rightarrow> (Inr x, d')))"

definition event_data :: "payload option \<Rightarrow> string \<Rightarrow> string \<Rightarrow> string \<Rightarrow> payload" where
  "event_data event_payload resource resource_id caller =
     dict_setdefault ''caller'' (JStr caller)
       (dict_setdefault ''resource_id'' (JStr resource_id)
         (dict_setdefault ''resource'' (JStr resource)
           (case event_payload of None \<Rightarrow> [] | Some p \<Rightarrow> p)))"

definition write_body ::
  "router_env \<Rightarrow> string \<Rightarrow> string \<Rightarrow> ('d, 'a) writer \<Rightarrow> string option \<Rightarrow> payload option \<Rightarrow> string
    \<Rightarrow> payload \<Rightarrow> bool \<Rightarrow> 'd router \<Rightarrow> 'a write_result \<times> 'd router" where
  "write_body re resource resource_id wr event_type event_payload caller meta acquired s =
     (let k = write_key resource resource_id;
          failed = \<lambda>msg. \<lparr>wr_ok = False, wr_data = None, wr_error = Some msg, wr_lock_key = Some k,
                          wr_event_emitted = False\<rparr>
      in if \<not> acquired then (failed ''lock_contention'', s)
         else let ctx = \<lparr>wc_resource = resource, wc_resource_id = resource_id, wc_caller = caller,
                         wc_lock_key = k, wc_meta = meta\<rparr>
              in case run_writer (re_conn re) wr ctx (rt_db s) of
                   (Inl msg, d) \<Rightarrow> (failed msg, s\<lparr>rt_db := d\<rparr>)
                 | (Inr x, d) \<Rightarrow>
                     (let emits = (case event_type of None \<Rightarrow> False | Some et \<Rightarrow> et \<noteq> '''');
                          bus' = (if emits
                                  then emit (re_acquire re) (the event_type)
                                         (event_data event_payload resource resource_id caller)
                                         ''unknown'' (rt_bus s)
                                  else rt_bus s);
                          ver' = snd (bump_state_version (re_redis re) (re_bump re) (rt_ver s))
                      in (\<lparr>wr_ok = True, wr_data = Some x, wr_error = None, wr_lock_key = Some k,
                           wr_event_emitted = emits\<rparr>,
                          s\<lparr>rt_db := d, rt_bus := bus', rt_ver := ver'\<rparr>)))"

definition routed_write ::
  "router_env \<Rightarrow> string \<Rightarrow> string \<Rightarrow> ('d, 'a) writer \<Rightarrow> string option \<Rightarrow> payload option \<Rightarrow> string
    \<Rightarrow> int \<Rightarrow> payload \<Rightarrow> lock_row list \<times> 'd router \<Rightarrow> 'a write_result \<times> lock_row list \<times> 'd router" where
  "routed_write re resource resource_id wr event_type event_payload caller ttl meta = (\<lambda>(t, s).
     (let k = write_key resource resource_id;
          s0 = get_local_lock k s;
          (acquired, t1) = acquire_lock (re_acquire re) k caller ttl t;
          (result, s1) = write_body re resource resource_id wr event_type event_payload caller meta acquired s0
      in (result, (if acquired then release_lock (re_release re) k t1 else t1), s1)))"

definition ident_str :: "jval \<Rightarrow> string" where
  "ident_str v = (case v of JInt i \<Rightarrow> show_int i | JStr s \<Rightarrow> s
     | JBool b \<Rightarrow> (if b then ''True'' else ''False'') | JNull \<Rightarrow> ''None'')"

definition or_default :: "payload option \<Rightarrow> payload \<Rightarrow> payload option" where
  \<comment> \<open>\<open>event_payload or {...}\<close>: the default replaces \<open>None\<close> and the empty dictionary\<close>
  "or_default p d = (case p of None \<Rightarrow> Some d | Some q \<Rightarrow> if q = [] then Some d else Some q)"

definition write_employee where
  "write_employee re employee_id wr caller p =
     routed_write re ''employee'' (ident_str employee_id) wr (Some ''employee_updated'')
       (or_default p [(''employee_id'', employee_id)]) caller 30 []"

definition write_payment where
  "write_payment re txn_ref wr caller p =
     routed_write re ''payment'' txn_ref wr (Some ''payment_created'')
       (or_default p [(''txn_ref'', JStr txn_ref)]) caller 30 []"

definition write_escort where
  "write_escort re program_id wr caller p =
     routed_write re ''escort'' (ident_str program_id) wr (Some ''escort_assigned'')
       (or_default p [(''program_id'', program_id)]) caller 30 []"

definition write_transaction where
  "write_transaction re txn_id wr caller p =
     routed_write re ''txn'' (ident_str txn_id) wr (Some ''payment_corrected'')
       (or_default p [(''txn_id'', txn_id)]) caller 30 []"

definition get_local_lock_stats :: "'d router \<Rightarrow> nat \<times> string list" where
  "get_local_lock_stats s = (length (rt_local s), take 50 (rt_local s))"

subsection \<open>The write path as a client of the lock service\<close>

lemma get_local_lock_frame [simp]:
  "rt_db (get_local_lock k s) = rt_db s" "rt_bus (get_local_lock k s) = rt_bus s"
  "rt_ver (get_local_lock k s) = rt_ver s"
  by (simp_all add: get_local_lock_def)

lemma get_local_lock_distinct: "distinct (rt_local s) \<Longrightarrow> distinct (rt_local (get_local_lock k s))"
  by (simp add: get_local_lock_def)

lemma routed_write_bracket:
  "routed_write re resource rid wr et p caller ttl meta (t, s) =
     lock_bracket (acquire_lock (re_acquire re) (write_key resource rid) caller ttl)
       (release_lock (re_release re) (write_key resource rid))
       (write_body re resource rid wr et p caller meta) (t, get_local_lock (write_key resource rid) s)"
  by (simp add: routed_write_def lock_bracket_def Let_def)

lemma run_writer_error: "run_writer c wr ctx d = (Inl msg, d') \<Longrightarrow> d' = d"
  by (auto simp: run_writer_def split: option.splits prod.splits sum.splits)

abbreviation write_ctx :: "string \<Rightarrow> string \<Rightarrow> string \<Rightarrow> payload \<Rightarrow> write_context" where
  "write_ctx resource rid caller meta \<equiv> \<lparr>wc_resource = resource, wc_resource_id = rid, wc_caller = caller,
     wc_lock_key = write_key resource rid, wc_meta = meta\<rparr>"

lemma write_body_ok_iff:
  "wr_ok (fst (write_body re resource rid wr et p caller meta True s))
     \<longleftrightarrow> re_conn re = None \<and> (\<exists>x d. wr (write_ctx resource rid caller meta) (rt_db s) = (Inr x, d))"
  by (auto simp: write_body_def Let_def run_writer_def split: option.splits prod.splits sum.splits)

lemma write_body_ok:
  assumes "write_body re resource rid wr et p caller meta True s = (res, s')" and "wr_ok res"
  shows "\<exists>x. wr (write_ctx resource rid caller meta) (rt_db s) = (Inr x, rt_db s') \<and> wr_data res = Some x"
    "rt_ver s' = snd (bump_state_version (re_redis re) (re_bump re) (rt_ver s))"
    "wr_event_emitted res \<longleftrightarrow> et \<notin> {None, Some ''''}"
    "rt_bus s' = (if et \<notin> {None, Some ''''}
       then emit (re_acquire re) (the et) (event_data p resource rid caller) ''unknown'' (rt_bus s) else rt_bus s)"
  using assms
  by (auto simp: write_body_def Let_def run_writer_def split: option.splits prod.splits sum.splits if_splits)

lemma write_body_failed:
  assumes "write_body re resource rid wr et p caller meta acq s = (res, s')" and "\<not> wr_ok res"
  shows "s' = s \<and> wr_data res = None \<and> \<not> wr_event_emitted res"
  using assms
  by (auto simp: write_body_def Let_def run_writer_def split: option.splits prod.splits sum.splits if_splits)

lemma write_body_events:
  assumes "write_body re resource rid wr et p caller meta acq s = (res, s')"
  shows "n_emitted (rt_bus s') = n_emitted (rt_bus s) + (if wr_event_emitted res then 1 else 0)"
  using assms
  by (auto simp: write_body_def Let_def run_writer_def split: option.splits prod.splits sum.splits if_splits)

subsection \<open>Properties\<close>

text \<open>
  a routed write is refused by a live lock. When another worker's lock on the
  resource has not expired, the write reports \<open>lock_contention\<close>, the writer is not
  run, no event is emitted, the version stays, and the other worker's lock is still in
  place afterwards.
\<close>

theorem routed_write_contention:
  assumes "live_lock (db_now (re_acquire re)) (write_key resource rid) t"
    and "routed_write re resource rid wr et p caller ttl meta (t, s) = (res, t', s')"
  shows "wr_ok res = False \<and> wr_error res = Some ''lock_contention'' \<and> rt_db s' = rt_db s
       \<and> rt_bus s' = rt_bus s \<and> rt_ver s' = rt_ver s
       \<and> live_lock (db_now (re_acquire re)) (write_key resource rid) t'"
proof -
  let ?k = "write_key resource rid"
  note b = pl.bracket_blocked [OF assms(1), of caller ttl "re_release re"
      "write_body re resource rid wr et p caller meta" "get_local_lock ?k s"]
  have "write_body re resource rid wr et p caller meta False (get_local_lock ?k s) = (res, s')"
    using assms(2) b(2,3) by (simp add: routed_write_bracket prod_eq_iff)
  with b(1) assms(2) show ?thesis
    by (auto simp: routed_write_bracket write_body_def Let_def)
qed

theorem routed_write_contention_witness:
  "let re = \<lparr>re_acquire = env_at 0, re_release = env_at 1, re_bump = env_at 1, re_redis = True, re_conn = None\<rparr>;
       row = \<lparr>lock_key = ''write:txn:7'', locked_by = ''other'', lock_expires = secs 30\<rparr>;
       s = \<lparr>rt_db = (5 :: int), rt_bus = empty_bus, rt_ver = \<lparr>redis_key = None, pg_versions = []\<rparr>, rt_local = []\<rparr>;
       out = routed_write re ''txn'' ''7'' (\<lambda>_ d. (Inr (), d + 1)) None None ''me'' 30 [] ([row], s)
   in live_lock 0 (write_key ''txn'' ''7'') [row] \<and> rt_db (snd (snd out)) = 5 \<and> wr_ok (fst out) = False"
proof -
  let ?re = "\<lparr>re_acquire = env_at 0, re_release = env_at 1, re_bump = env_at 1, re_redis = True, re_conn = None\<rparr>"
  let ?row = "\<lparr>lock_key = ''write:txn:7'', locked_by = ''other'', lock_expires = secs 30\<rparr>"
  let ?s = "\<lparr>rt_db = (5 :: int), rt_bus = empty_bus, rt_ver = \<lparr>redis_key = None, pg_versions = []\<rparr>, rt_local = []\<rparr>"
  let ?w = "\<lambda>_ d. (Inr () :: string + unit, d + 1 :: int)"
  have live: "live_lock (db_now (re_acquire ?re)) (write_key ''txn'' ''7'') [?row]"
    by (simp add: live_lock_def has_row_iff write_key_def expired_lock_def secs_def)
  obtain r t' s' where out: "routed_write ?re ''txn'' ''7'' ?w None None ''me'' 30 [] ([?row], ?s) = (r, t', s')"
    by (metis prod.exhaust)
  show ?thesis using routed_write_contention [OF live out] live out by (simp add: Let_def)
qed

text \<open>
  C16: a routed write is atomic. With the lock free and the lock table reachable, the
  result is ok exactly when the connection works and the writer, called with the context of
  the resource and the caller, returns; then the tables are the writer's, the data its value, the state
  version is the bumped one, and the event is emitted, with the data of the resource and the
  caller, exactly when the caller named an event type, as the result says. Otherwise tables, bus and
  version are unchanged. In both cases the lock is free again and locks on other resources are as
  they were.
\<close>

theorem routed_write_atomic:
  assumes "db_ok (re_acquire re)" and "db_ok (re_release re)"
    and "\<not> live_lock (db_now (re_acquire re)) (write_key resource rid) t"
    and "routed_write re resource rid wr et p caller ttl meta (t, s) = (res, t', s')"
  shows "\<not> lock_held (write_key resource rid) t'
       \<and> (\<forall>k. k \<noteq> write_key resource rid \<longrightarrow> lock_held k t' = lock_held k t)
       \<and> n_emitted (rt_bus s') = n_emitted (rt_bus s) + (if wr_event_emitted res then 1 else 0)
       \<and> (wr_ok res \<longleftrightarrow> re_conn re = None
            \<and> (\<exists>x d. wr (write_ctx resource rid caller meta) (rt_db s) = (Inr x, d)))
       \<and> (if wr_ok res
          then (\<exists>x. wr (write_ctx resource rid caller meta) (rt_db s) = (Inr x, rt_db s') \<and> wr_data res = Some x)
             \<and> rt_ver s' = snd (bump_state_version (re_redis re) (re_bump re) (rt_ver s))
             \<and> (wr_event_emitted res \<longleftrightarrow> et \<notin> {None, Some ''''})
             \<and> rt_bus s' = (if et \<notin> {None, Some ''''}
                  then emit (re_acquire re) (the et) (event_data p resource rid caller) ''unknown'' (rt_bus s) else rt_bus s)
          else rt_db s' = rt_db s \<and> rt_bus s' = rt_bus s \<and> rt_ver s' = rt_ver s \<and> \<not> wr_event_emitted res)"
proof -
  let ?k = "write_key resource rid"
  let ?body = "write_body re resource rid wr et p caller meta"
  let ?s = "get_local_lock ?k s"
  note g = pl.bracket_granted [OF assms(1,3), of caller ttl "re_release re" ?body ?s]
  have body: "?body True ?s = (res, s')"
    using assms(4) g by (simp add: routed_write_bracket prod_eq_iff)
  have free: "\<not> lock_held ?k t'"
    using pl.bracket_frees [OF assms(2,3,1), of caller ttl ?body ?s] assms(4)
    by (simp add: routed_write_bracket)
  have others: "\<forall>k. k \<noteq> ?k \<longrightarrow> lock_held k t' = lock_held k t"
    using pl.bracket_others [of _ ?k "re_acquire re" caller ttl "re_release re" ?body t ?s] assms(4)
    by (simp add: routed_write_bracket)
  have ev: "n_emitted (rt_bus s') = n_emitted (rt_bus s) + (if wr_event_emitted res then 1 else 0)"
    using write_body_events [OF body] by simp
  have iff: "wr_ok res \<longleftrightarrow> re_conn re = None
      \<and> (\<exists>x d. wr (write_ctx resource rid caller meta) (rt_db s) = (Inr x, d))"
    using write_body_ok_iff [of re resource rid wr et p caller meta ?s] body by simp
  show ?thesis
  proof (cases "wr_ok res")
    case True
    from write_body_ok [OF body True] show ?thesis using True free others ev iff unfolding get_local_lock_frame by meson
  next
    case False
    with write_body_failed [OF body False] free others ev iff show ?thesis by simp
  qed
qed

theorem routed_write_atomic_witness:
  "let re = \<lparr>re_acquire = env_at 0, re_release = env_at 1, re_bump = env_at 1, re_redis = True, re_conn = None\<rparr>;
       s = \<lparr>rt_db = (5 :: int), rt_bus = empty_bus, rt_ver = \<lparr>redis_key = None, pg_versions = []\<rparr>, rt_local = []\<rparr>;
       out = routed_write re ''txn'' ''7'' (\<lambda>_ d. (Inr d, d + 1)) (Some ''payment_corrected'') None ''me'' 30 [] ([], s)
   in \<not> lock_held (write_key ''txn'' ''7'') (fst (snd out)) \<and> rt_db (snd (snd out)) = 6 \<and> wr_ok (fst out)
      \<and> n_emitted (rt_bus (snd (snd out))) = n_emitted empty_bus + 1"
proof -
  let ?re = "\<lparr>re_acquire = env_at 0, re_release = env_at 1, re_bump = env_at 1, re_redis = True, re_conn = None\<rparr>"
  let ?s = "\<lparr>rt_db = (5 :: int), rt_bus = empty_bus, rt_ver = \<lparr>redis_key = None, pg_versions = []\<rparr>, rt_local = []\<rparr>"
  let ?w = "\<lambda>_ d. (Inr d :: string + int, d + 1 :: int)"
  let ?out = "routed_write ?re ''txn'' ''7'' ?w (Some ''payment_corrected'') None ''me'' 30 [] ([], ?s)"
  have ok: "wr_ok (fst ?out) \<and> rt_db (snd (snd ?out)) = 6"
    by (simp add: routed_write_def acquire_lock_def has_row_iff write_body_def run_writer_def Let_def)
  obtain r t' s' where out: "?out = (r, t', s')" by (cases ?out rule: prod_cases3)
  have nolive: "\<not> live_lock (db_now (re_acquire ?re)) (write_key ''txn'' ''7'') []"
    by (simp add: live_lock_def has_row_iff)
  from ok out have r: "wr_ok r" by simp
  have "\<not> lock_held (write_key ''txn'' ''7'') t' \<and> n_emitted (rt_bus s') = n_emitted empty_bus + 1"
    using routed_write_atomic [OF _ _ nolive out] r by simp
  with ok show ?thesis unfolding Let_def out by simp
qed

text \<open>
  lock keys identify resources. Two writes share a lock key exactly when they are
  for the same resource domain and the same resource id, as long as domain names hold
  no colon (those of the wrappers do not); in particular two integer ids of one domain
  are serialised on the same key only when they are equal.
\<close>

theorem write_key_identifies:
  assumes "CHR '':'' \<notin> set r" and "CHR '':'' \<notin> set r'"
  shows "write_key r i = write_key r' i' \<longleftrightarrow> r = r' \<and> i = i'"
  using assms split_at_colon_unique [OF assms, of i i'] by (auto simp: write_key_def)

theorem write_key_identifies_witness:
  "write_key ''employee'' (show_int 42) = write_key ''payment'' (show_int 42) \<longleftrightarrow>
     ''employee'' = ''payment'' \<and> show_int 42 = show_int 42"
  by (rule write_key_identifies) simp_all

end
