(* ===== verification/Message_Queue.thy ===== *)
theory Message_Queue
  imports Event_Bus
begin

text \<open>
  The central ingestion queue, \<open>shared/queue.py\<close>, over the tables
  \<open>fazle_message_queue\<close> (unique \<open>id\<close> from a sequence, unique
  \<open>idempotency_key\<close>) and \<open>fazle_bridge_heartbeats\<close>. A statement that raises
  makes the operation return its default and leaves the tables unchanged. The
  \<open>SKIP LOCKED\<close> clause of the claim is a parameter: the ids of the rows another
  session holds locked. The hash function is an argument.
\<close>

datatype qstatus = Q_pending | Q_processing | Q_done | Q_failed

record qmsg =
  q_id :: int
  q_enqueued_at :: time
  q_source :: string
  q_sender_phone :: string
  q_direction :: string
  q_message_type :: string
  q_content_text :: "string option"
  q_media_url :: "string option"
  q_media_id :: "string option"
  q_idem :: string
  q_status :: qstatus
  q_attempts :: int
  q_last_error :: "string option"
  q_processed_at :: "time option"
  q_processor_id :: "string option"
  q_extra :: "payload option"

record heartbeat_row =
  hb_bridge_id :: string
  hb_label :: string
  hb_last_seen :: time
  hb_last_msg :: "string option"
  hb_status :: string
  hb_extra :: "payload option"

record queue_db =
  mq_rows :: "qmsg list"
  mq_next :: int
  hb_rows :: "heartbeat_row list"

definition QUEUE_MAX_ATTEMPTS :: int where
  "QUEUE_MAX_ATTEMPTS = 3"

definition or_empty :: "string option \<Rightarrow> string" where
  "or_empty s = (case s of None \<Rightarrow> '''' | Some x \<Rightarrow> x)"

definition json_or_none :: "payload option \<Rightarrow> payload option" where
  "json_or_none x = (case x of None \<Rightarrow> None | Some d \<Rightarrow> if d = [] then None else Some d)"

definition idempotency_key ::
  "(string \<Rightarrow> string) \<Rightarrow> string option \<Rightarrow> string \<Rightarrow> string \<Rightarrow> string option \<Rightarrow> string option \<Rightarrow> string" where
  "idempotency_key sha given source sender text media_id =
     (if or_empty given \<noteq> '''' then or_empty given
      else take 32 (sha (source @ ''|'' @ sender @ ''|'' @ or_empty text @ ''|'' @ or_empty media_id)))"

definition enqueue_message ::
  "(string \<Rightarrow> string) \<Rightarrow> env \<Rightarrow> string \<Rightarrow> string \<Rightarrow> string \<Rightarrow> string option \<Rightarrow> string option \<Rightarrow> string option
    \<Rightarrow> string \<Rightarrow> string option \<Rightarrow> payload option \<Rightarrow> queue_db \<Rightarrow> int option \<times> queue_db" where
  "enqueue_message sha e source sender mtype text media_url media_id direction given extra db =
     (let key = idempotency_key sha given source sender text media_id
      in if raises e 0 then (None, db)
         else if has_row (\<lambda>m. q_idem m = key) (mq_rows db)
         then (None, db\<lparr>mq_next := mq_next db + 1\<rparr>)
         else (Some (mq_next db),
               db\<lparr>mq_next := mq_next db + 1,
                  mq_rows := mq_rows db @
                    [\<lparr>q_id = mq_next db, q_enqueued_at = db_now e, q_source = source,
                      q_sender_phone = sender, q_direction = direction, q_message_type = mtype,
                      q_content_text = text, q_media_url = media_url, q_media_id = media_id,
                      q_idem = key, q_status = Q_pending, q_attempts = 0, q_last_error = None,
                      q_processed_at = None, q_processor_id = None, q_extra = json_or_none extra\<rparr>]\<rparr>))"

definition eligible :: "int list \<Rightarrow> int \<Rightarrow> qmsg \<Rightarrow> bool" where
  "eligible locked_ids max_attempts m \<longleftrightarrow>
     q_status m = Q_pending \<and> q_attempts m < max_attempts \<and> q_id m \<notin> set locked_ids"

definition claim_msg :: "string \<Rightarrow> qmsg \<Rightarrow> qmsg" where
  "claim_msg processor m =
     m\<lparr>q_status := Q_processing, q_attempts := q_attempts m + 1, q_processor_id := Some processor\<rparr>"

definition dequeue_batch ::
  "env \<Rightarrow> int list \<Rightarrow> nat \<Rightarrow> string \<Rightarrow> int \<Rightarrow> queue_db \<Rightarrow> qmsg list \<times> queue_db" where
  "dequeue_batch e locked_ids limit processor max_attempts db =
     (if raises e 0 then ([], db)
      else let claimed = take limit (sort_key q_enqueued_at
                           (filter (eligible locked_ids max_attempts) (mq_rows db)));
               ids = map q_id claimed
           in (map (claim_msg processor) claimed,
               db\<lparr>mq_rows := update_where (\<lambda>m. q_id m \<in> set ids) (claim_msg processor) (mq_rows db)\<rparr>))"

definition ack_message :: "env \<Rightarrow> int \<Rightarrow> queue_db \<Rightarrow> bool \<times> queue_db" where
  "ack_message e i db =
     (if raises e 0 then (False, db)
      else (True, db\<lparr>mq_rows := update_where (\<lambda>m. q_id m = i)
              (\<lambda>m. m\<lparr>q_status := Q_done, q_processed_at := Some (db_now e)\<rparr>) (mq_rows db)\<rparr>))"

definition fail_message :: "env \<Rightarrow> int \<Rightarrow> string \<Rightarrow> queue_db \<Rightarrow> bool \<times> queue_db" where
  "fail_message e i err db =
     (if raises e 0 then (False, db)
      else (True, db\<lparr>mq_rows := update_where (\<lambda>m. q_id m = i)
              (\<lambda>m. m\<lparr>q_status := Q_pending, q_last_error := Some (take 500 err)\<rparr>) (mq_rows db)\<rparr>))"

definition dead_letter :: "env \<Rightarrow> int \<Rightarrow> string \<Rightarrow> queue_db \<Rightarrow> bool \<times> queue_db" where
  "dead_letter e i reason db =
     (if raises e 0 then (False, db)
      else (True, db\<lparr>mq_rows := update_where (\<lambda>m. q_id m = i)
              (\<lambda>m. m\<lparr>q_status := Q_failed, q_last_error := Some (take 500 reason),
                     q_processed_at := Some (db_now e)\<rparr>) (mq_rows db)\<rparr>))"

definition coalesce :: "'a option \<Rightarrow> 'a option \<Rightarrow> 'a option" where
  "coalesce x y = (case x of None \<Rightarrow> y | Some _ \<Rightarrow> x)"

definition record_heartbeat ::
  "env \<Rightarrow> string \<Rightarrow> string \<Rightarrow> string option \<Rightarrow> payload option \<Rightarrow> queue_db \<Rightarrow> bool \<times> queue_db" where
  "record_heartbeat e bridge label last_msg extra db =
     (if raises e 0 then (False, db)
      else let x = json_or_none extra
           in (True, db\<lparr>hb_rows :=
                (if has_row (\<lambda>h. hb_bridge_id h = bridge) (hb_rows db)
                 then update_where (\<lambda>h. hb_bridge_id h = bridge)
                        (\<lambda>h. h\<lparr>hb_last_seen := db_now e, hb_last_msg := coalesce last_msg (hb_last_msg h),
                               hb_status := ''ok'', hb_extra := coalesce x (hb_extra h)\<rparr>) (hb_rows db)
                 else hb_rows db @
                        [\<lparr>hb_bridge_id = bridge, hb_label = (if label = '''' then bridge else label),
                          hb_last_seen = db_now e, hb_last_msg = last_msg, hb_status = ''ok'', hb_extra = x\<rparr>])\<rparr>))"

definition seconds_ago :: "time \<Rightarrow> time \<Rightarrow> int" where
  \<comment> \<open>\<open>EXTRACT(EPOCH FROM (now - seen))::INT\<close>, which rounds to the nearest second\<close>
  "seconds_ago now seen = (now - seen + 500000) div 1000000"

definition get_stale_bridges :: "env \<Rightarrow> int \<Rightarrow> queue_db \<Rightarrow> (heartbeat_row \<times> int) list" where
  "get_stale_bridges e stale_minutes db =
     (if raises e 0 then []
      else map (\<lambda>h. (h, seconds_ago (db_now e) (hb_last_seen h)))
             (sort_key hb_last_seen
               (filter (\<lambda>h. hb_last_seen h < db_now e - secs (60 * stale_minutes)) (hb_rows db))))"

subsection \<open>Well-formed queues\<close>

definition queue_wf :: "queue_db \<Rightarrow> bool" where
  "queue_wf db \<longleftrightarrow> distinct (map q_id (mq_rows db)) \<and> distinct (map q_idem (mq_rows db))
     \<and> (\<forall>m\<in>set (mq_rows db). q_id m < mq_next db \<and> 0 \<le> q_attempts m)"

lemma claim_msg_simps [simp]:
  "q_id (claim_msg p m) = q_id m" "q_idem (claim_msg p m) = q_idem m"
  "q_status (claim_msg p m) = Q_processing" "q_attempts (claim_msg p m) = q_attempts m + 1"
  "q_processor_id (claim_msg p m) = Some p" "q_enqueued_at (claim_msg p m) = q_enqueued_at m"
  by (simp_all add: claim_msg_def)

lemma enqueue_wf:
  "queue_wf db \<Longrightarrow> queue_wf (snd (enqueue_message sha e src ph mt tx mu mi dir given ex db))"
  by (auto simp: queue_wf_def enqueue_message_def Let_def has_row_iff)

lemma dequeue_wf: "queue_wf db \<Longrightarrow> queue_wf (snd (dequeue_batch e lk n p mx db))"
  by (auto simp: queue_wf_def dequeue_batch_def Let_def table_keys ball_update_where)

lemma ack_wf: "queue_wf db \<Longrightarrow> queue_wf (snd (ack_message e i db))"
  by (auto simp: queue_wf_def ack_message_def table_keys ball_update_where)

lemma fail_wf: "queue_wf db \<Longrightarrow> queue_wf (snd (fail_message e i err db))"
  by (auto simp: queue_wf_def fail_message_def table_keys ball_update_where)

lemma dead_letter_wf: "queue_wf db \<Longrightarrow> queue_wf (snd (dead_letter e i err db))"
  by (auto simp: queue_wf_def dead_letter_def table_keys ball_update_where)

lemma heartbeat_rows: "mq_rows (snd (record_heartbeat e b l m x db)) = mq_rows db"
  by (simp add: record_heartbeat_def Let_def)

lemma set_take_sorted_eligible:
  "m \<in> set (take n (sort_key q_enqueued_at (filter (eligible lk mx) rows))) \<Longrightarrow>
     m \<in> set rows \<and> eligible lk mx m"
  by (auto dest!: in_set_takeD)

lemma id_in_claimed:
  assumes "distinct (map q_id rows)" and "m \<in> set rows"
  shows "q_id m \<in> q_id ` set (take n (sort_key q_enqueued_at (filter P rows))) \<longleftrightarrow>
         m \<in> set (take n (sort_key q_enqueued_at (filter P rows)))"
proof
  assume "q_id m \<in> q_id ` set (take n (sort_key q_enqueued_at (filter P rows)))"
  then obtain m' where m': "m' \<in> set (take n (sort_key q_enqueued_at (filter P rows)))" "q_id m' = q_id m"
    by (metis imageE)
  then have "m' \<in> set rows" by (auto dest!: in_set_takeD)
  with assms m' show "m \<in> set (take n (sort_key q_enqueued_at (filter P rows)))"
    by (metis distinct_key_unique)
qed simp

subsection \<open>Steps of the workers\<close>

inductive queue_step :: "queue_db \<Rightarrow> queue_db \<Rightarrow> bool" where
  enqueue: "queue_step db (snd (enqueue_message sha e src ph mt tx mu mi dir given ex db))"
| dequeue: "queue_step db (snd (dequeue_batch e lk n p QUEUE_MAX_ATTEMPTS db))"
| fail: "queue_step db (snd (fail_message e i err db))"
| heartbeat: "queue_step db (snd (record_heartbeat e b l m x db))"
| finish: "queue_step db (snd (ack_message e i db))"
| park: "queue_step db (snd (dead_letter e i reason db))"

definition attempts_bounded :: "queue_db \<Rightarrow> bool" where
  "attempts_bounded db \<longleftrightarrow> queue_wf db \<and> (\<forall>m\<in>set (mq_rows db). q_attempts m \<le> QUEUE_MAX_ATTEMPTS)"

lemma dequeue_attempts_bounded:
  assumes "attempts_bounded db"
  shows "attempts_bounded (snd (dequeue_batch e lk n p QUEUE_MAX_ATTEMPTS db))"
proof -
  let ?c = "take n (sort_key q_enqueued_at (filter (eligible lk QUEUE_MAX_ATTEMPTS) (mq_rows db)))"
  have wf: "queue_wf db" using assms by (simp add: attempts_bounded_def)
  have "q_attempts m + 1 \<le> QUEUE_MAX_ATTEMPTS" if "m \<in> set (mq_rows db)" "q_id m \<in> q_id ` set ?c" for m
    using set_take_sorted_eligible [of m n lk QUEUE_MAX_ATTEMPTS "mq_rows db"] that wf
    by (simp add: id_in_claimed queue_wf_def eligible_def)
  then show ?thesis
    using assms dequeue_wf [OF wf, of e lk n p QUEUE_MAX_ATTEMPTS]
    by (auto simp: attempts_bounded_def dequeue_batch_def Let_def ball_update_where)
qed

lemma queue_step_bounded: "queue_step db db' \<Longrightarrow> attempts_bounded db \<Longrightarrow> attempts_bounded db'"
proof (induction rule: queue_step.induct)
  case (enqueue db sha e src ph mt tx mu mi dir given ex)
  then show ?case using enqueue_wf [of db]
    by (auto simp: attempts_bounded_def enqueue_message_def Let_def QUEUE_MAX_ATTEMPTS_def)
next
  case (dequeue db e lk n p)
  then show ?case by (rule dequeue_attempts_bounded)
next
  case (fail db e i err)
  then show ?case using fail_wf [of db e i err]
    by (auto simp: attempts_bounded_def fail_message_def ball_update_where)
next
  case (heartbeat db e b l m x)
  then show ?case
    by (auto simp: attempts_bounded_def queue_wf_def record_heartbeat_def Let_def)
next
  case (finish db e i)
  then show ?case using ack_wf [of db e i]
    by (auto simp: attempts_bounded_def ack_message_def ball_update_where)
next
  case (park db e i reason)
  then show ?case using dead_letter_wf [of db e i reason]
    by (auto simp: attempts_bounded_def dead_letter_def ball_update_where)
qed

definition queue_start :: "queue_db \<Rightarrow> bool" where
  "queue_start db \<longleftrightarrow> mq_rows db = []"

interpretation queue_system: invariant_system queue_start queue_step attempts_bounded
proof unfold_locales
  show "queue_start s \<Longrightarrow> attempts_bounded s" for s
    by (simp add: queue_start_def attempts_bounded_def queue_wf_def)
  show "queue_step s t \<Longrightarrow> attempts_bounded s \<Longrightarrow> attempts_bounded t" for s t
    by (rule queue_step_bounded)
qed

subsection \<open>Claiming\<close>

definition claim_set :: "int list \<Rightarrow> nat \<Rightarrow> int \<Rightarrow> qmsg list \<Rightarrow> qmsg list" where
  "claim_set locked_ids limit max_attempts rows =
     take limit (sort_key q_enqueued_at (filter (eligible locked_ids max_attempts) rows))"

lemma claim_set_mem: "m \<in> set (claim_set lk n mx rows) \<Longrightarrow> m \<in> set rows \<and> eligible lk mx m"
  unfolding claim_set_def by (rule set_take_sorted_eligible)

lemma dequeue_claims:
  assumes "\<not> raises e 0"
  shows "dequeue_batch e lk n p mx db =
    (map (claim_msg p) (claim_set lk n mx (mq_rows db)),
     db\<lparr>mq_rows := update_where (\<lambda>m. q_id m \<in> q_id ` set (claim_set lk n mx (mq_rows db)))
        (claim_msg p) (mq_rows db)\<rparr>)"
  using assms by (simp add: dequeue_batch_def claim_set_def Let_def)

lemma claim_set_oldest:
  assumes "m \<in> set (claim_set lk n mx rows)" "m' \<in> set rows" "eligible lk mx m'"
    and "m' \<notin> set (claim_set lk n mx rows)"
  shows "q_enqueued_at m \<le> q_enqueued_at m'"
proof -
  let ?s = "sort_key q_enqueued_at (filter (eligible lk mx) rows)"
  have "m' \<in> set ?s" using assms(2,3) by simp
  moreover have "set ?s = set (take n ?s) \<union> set (drop n ?s)"
    by (metis append_take_drop_id set_append)
  ultimately have "m' \<in> set (drop n ?s)" using assms(4) by (auto simp: claim_set_def)
  then show ?thesis
    using assms(1) sorted_take_drop_le [of q_enqueued_at ?s m n m'] by (simp add: claim_set_def)
qed

lemma dequeued_row:
  assumes "queue_wf db" "\<not> raises e 0" "m \<in> set (claim_set lk n mx (mq_rows db))"
  shows "find (\<lambda>r. q_id r = q_id m) (mq_rows (snd (dequeue_batch e lk n p mx db))) = Some (claim_msg p m)"
  using assms find_key_unique [of q_id "mq_rows db" m] claim_set_mem [OF assms(3)]
  by (simp add: dequeue_claims find_update_where_key queue_wf_def)

lemma undequeued_row:
  assumes "queue_wf db" "\<not> raises e 0" "m \<in> set (mq_rows db)"
    and "m \<notin> set (claim_set lk n mx (mq_rows db))"
  shows "find (\<lambda>r. q_id r = q_id m) (mq_rows (snd (dequeue_batch e lk n p mx db))) = Some m"
  using assms find_key_unique [of q_id "mq_rows db" m]
    id_in_claimed [of "mq_rows db" m n "eligible lk mx"]
  by (simp add: dequeue_claims find_update_where_key queue_wf_def claim_set_def)

text \<open>
  A batch is claimed correctly. With a statement that does not raise,
  \<open>dequeue_batch\<close> returns at most \<open>limit\<close> messages; each was pending below the
  attempt limit, is returned and stored as processing under the caller's
  processor id with one more attempt; no unclaimed eligible message is older
  than a claimed one; fewer than \<open>limit\<close> are returned only when nothing eligible
  is left; and every row that was not claimed is unchanged.
\<close>

theorem dequeue_claims_oldest:
  assumes "queue_wf db" and "\<not> raises e 0"
  shows "let (batch, db') = dequeue_batch e lk limit p mx db;
             claimed = (\<lambda>m. \<exists>b\<in>set batch. q_id b = q_id m)
         in length batch = min limit (count_where (eligible lk mx) (mq_rows db))
          \<and> (\<forall>b\<in>set batch. \<exists>m\<in>set (mq_rows db). eligible lk mx m \<and> b = claim_msg p m
                \<and> find (\<lambda>r. q_id r = q_id m) (mq_rows db') = Some b)
          \<and> (\<forall>m\<in>set (mq_rows db). \<not> claimed m \<longrightarrow>
                find (\<lambda>r. q_id r = q_id m) (mq_rows db') = Some m
                \<and> (eligible lk mx m \<longrightarrow> (\<forall>b\<in>set batch. q_enqueued_at b \<le> q_enqueued_at m)))"
proof -
  let ?c = "claim_set lk limit mx (mq_rows db)"
  have batch: "fst (dequeue_batch e lk limit p mx db) = map (claim_msg p) ?c"
    using assms by (simp add: dequeue_claims)
  have "length ?c = min limit (count_where (eligible lk mx) (mq_rows db))"
    by (simp add: claim_set_def count_where_def)
  moreover have "\<exists>m\<in>set (mq_rows db). eligible lk mx m \<and> claim_msg p c = claim_msg p m
      \<and> find (\<lambda>r. q_id r = q_id m) (mq_rows (snd (dequeue_batch e lk limit p mx db))) = Some (claim_msg p c)"
    if "c \<in> set ?c" for c
    using claim_set_mem [OF that] dequeued_row [OF assms that, of p] by blast
  moreover have "find (\<lambda>r. q_id r = q_id m) (mq_rows (snd (dequeue_batch e lk limit p mx db))) = Some m
      \<and> (eligible lk mx m \<longrightarrow> (\<forall>c\<in>set ?c. q_enqueued_at c \<le> q_enqueued_at m))"
    if "m \<in> set (mq_rows db)" "\<forall>c\<in>set ?c. q_id c \<noteq> q_id m" for m
  proof -
    have "m \<notin> set ?c" using that(2) by blast
    then show ?thesis
      using undequeued_row [OF assms that(1)] claim_set_oldest [OF _ that(1)] by blast
  qed
  ultimately show ?thesis
    by (simp add: split_def Let_def batch)
qed

definition sample_msg :: "int \<Rightarrow> time \<Rightarrow> int \<Rightarrow> qmsg" where
  "sample_msg i t n =
     \<lparr>q_id = i, q_enqueued_at = t, q_source = ''bridge1'', q_sender_phone = ''8801'', q_direction = ''inbound'',
      q_message_type = ''text'', q_content_text = Some ''hi'', q_media_url = None, q_media_id = None,
      q_idem = show_int i, q_status = Q_pending, q_attempts = n, q_last_error = None,
      q_processed_at = None, q_processor_id = None, q_extra = None\<rparr>"

definition sample_queue :: queue_db where
  "sample_queue = \<lparr>mq_rows = [sample_msg 1 30 0, sample_msg 2 10 2, sample_msg 3 20 3],
                   mq_next = 4, hb_rows = []\<rparr>"

lemma sample_queue_wf: "queue_wf sample_queue"
  by (simp add: queue_wf_def sample_queue_def sample_msg_def)

theorem dequeue_claims_oldest_witness:
  "length (fst (dequeue_batch (env_at 50) [] 1 ''w1'' QUEUE_MAX_ATTEMPTS sample_queue)) = 1"
proof -
  have c: "count_where (eligible [] QUEUE_MAX_ATTEMPTS) (mq_rows sample_queue) = 2"
    by (simp add: count_where_def sample_queue_def sample_msg_def eligible_def QUEUE_MAX_ATTEMPTS_def)
  show ?thesis
    using dequeue_claims_oldest [OF sample_queue_wf, of "env_at 50" "[]" 1 "''w1''" QUEUE_MAX_ATTEMPTS]
    by (simp add: c Let_def split_def)
qed

text \<open>
  No message is handed to two workers. Whatever rows two successive claims
  skip as locked, and whichever workers make them, the second batch holds none of
  the messages of the first.
\<close>

theorem dequeues_disjoint:
  assumes "queue_wf db"
  shows "let (b1, db1) = dequeue_batch e1 lk1 n1 p1 mx1 db;
             (b2, db2) = dequeue_batch e2 lk2 n2 p2 mx2 db1
         in q_id ` set b1 \<inter> q_id ` set b2 = {}"
proof (cases "raises e1 0 \<or> raises e2 0")
  case True
  then show ?thesis by (auto simp: dequeue_batch_def Let_def)
next
  case False
  let ?db1 = "snd (dequeue_batch e1 lk1 n1 p1 mx1 db)"
  let ?c1 = "claim_set lk1 n1 mx1 (mq_rows db)" and ?c2 = "claim_set lk2 n2 mx2 (mq_rows ?db1)"
  have wf1: "queue_wf ?db1" using assms by (rule dequeue_wf)
  have "q_id a \<noteq> q_id b" if a: "a \<in> set ?c1" and b: "b \<in> set ?c2" for a b
  proof
    assume eq: "q_id a = q_id b"
    have "find (\<lambda>r. q_id r = q_id b) (mq_rows ?db1) = Some (claim_msg p1 a)"
      using dequeued_row [OF assms _ a, of e1 p1] False eq by simp
    moreover have "find (\<lambda>r. q_id r = q_id b) (mq_rows ?db1) = Some b"
      using find_key_unique [of q_id "mq_rows ?db1" b] wf1 claim_set_mem [OF b] by (simp add: queue_wf_def)
    ultimately have "q_status b = Q_processing" by auto
    with claim_set_mem [OF b] show False by (simp add: eligible_def)
  qed
  then show ?thesis
    using False by (auto simp: Let_def dequeue_claims split_def)
qed

theorem dequeues_disjoint_witness:
  "let (b1, db1) = dequeue_batch (env_at 50) [] 1 ''w1'' 3 sample_queue;
       (b2, db2) = dequeue_batch (env_at 50) [] 5 ''w2'' 3 db1
   in q_id ` set b1 \<inter> q_id ` set b2 = {}"
  by (rule dequeues_disjoint [OF sample_queue_wf])

lemma enqueue_duplicate:
  "has_row (\<lambda>m. q_idem m = idempotency_key sha given src ph tx mi) (mq_rows db) \<Longrightarrow>
    fst (enqueue_message sha e src ph mt tx mu mi dir given ex db) = None
    \<and> mq_rows (snd (enqueue_message sha e src ph mt tx mu mi dir given ex db)) = mq_rows db"
  by (simp add: enqueue_message_def Let_def)

lemma enqueue_new:
  assumes "\<not> raises e 0"
  shows "if has_row (\<lambda>m. q_idem m = idempotency_key sha given src ph tx mi) (mq_rows db)
    then fst (enqueue_message sha e src ph mt tx mu mi dir given ex db) = None
      \<and> mq_rows (snd (enqueue_message sha e src ph mt tx mu mi dir given ex db)) = mq_rows db
    else fst (enqueue_message sha e src ph mt tx mu mi dir given ex db) = Some (mq_next db)
      \<and> (\<exists>m. mq_rows (snd (enqueue_message sha e src ph mt tx mu mi dir given ex db)) = mq_rows db @ [m]
          \<and> q_id m = mq_next db \<and> q_idem m = idempotency_key sha given src ph tx mi
          \<and> q_status m = Q_pending \<and> q_attempts m = 0 \<and> q_content_text m = tx \<and> q_sender_phone m = ph)"
  using assms by (simp add: enqueue_message_def Let_def)

text \<open>
  Redelivery by a bridge is absorbed. An enqueue whose idempotency key is
  already stored returns nothing and leaves the messages as they are; any other
  enqueue that does not raise returns the id of one new pending message with no
  attempts at the end of the table; and a repeated enqueue of the same arguments,
  at any later time, is such a duplicate.
\<close>

theorem enqueue_exactly_once:
  assumes "queue_wf db" and "\<not> raises e 0"
  shows "let key = idempotency_key sha given src ph tx mi;
             (r, db') = enqueue_message sha e src ph mt tx mu mi dir given ex db;
             (r2, db2) = enqueue_message sha e2 src ph mt tx mu mi dir given ex db'
         in (if has_row (\<lambda>m. q_idem m = key) (mq_rows db)
             then r = None \<and> mq_rows db' = mq_rows db
             else r = Some (mq_next db) \<and> (\<exists>m. mq_rows db' = mq_rows db @ [m] \<and> q_id m = mq_next db
                    \<and> q_idem m = key \<and> q_status m = Q_pending \<and> q_attempts m = 0
                    \<and> q_content_text m = tx \<and> q_sender_phone m = ph))
          \<and> queue_wf db' \<and> count_where (\<lambda>m. q_idem m = key) (mq_rows db') = 1
          \<and> r2 = None \<and> mq_rows db2 = mq_rows db'"
proof -
  let ?key = "idempotency_key sha given src ph tx mi"
  let ?db' = "snd (enqueue_message sha e src ph mt tx mu mi dir given ex db)"
  have wf: "queue_wf ?db'" using assms(1) by (rule enqueue_wf)
  have row: "has_row (\<lambda>m. q_idem m = ?key) (mq_rows ?db')"
    using assms(2) by (simp add: enqueue_message_def Let_def has_row_def)
  then obtain m where m: "m \<in> set (mq_rows ?db')" "q_idem m = ?key" by (auto simp: has_row_iff)
  have "count_where (\<lambda>m. q_idem m = ?key) (mq_rows ?db') = 1"
    using count_key_unique [of q_idem "mq_rows ?db'" m] wf m by (simp add: queue_wf_def)
  with wf row show ?thesis
    using enqueue_new [OF assms(2)] enqueue_duplicate [OF row]
    by (simp add: Let_def split_def)
qed

theorem enqueue_exactly_once_witness:
  "let (r, db') = enqueue_message (\<lambda>s. s) (env_at 60) ''bridge1'' ''8801'' ''text'' (Some ''hello'')
        None None ''inbound'' None None sample_queue
   in queue_wf db' \<and> count_where (\<lambda>m. q_idem m = ''bridge1|8801|hello|'') (mq_rows db') = 1"
  using enqueue_exactly_once [OF sample_queue_wf, of "env_at 60" "\<lambda>s. s" None "''bridge1''" "''8801''"
      "Some ''hello''" None "''text''" None "''inbound''" None]
  by (simp add: Let_def split_def idempotency_key_def or_empty_def)

text \<open>
  The retry budget is kept. In every state the workers can reach from an
  empty queue, under any interleaving of enqueues, claims, acknowledgements,
  failures and dead-letterings, message ids and idempotency keys are unique and no
  message has been claimed more than \<open>MAX_ATTEMPTS\<close> times.
\<close>

theorem attempts_never_exceed:
  assumes "reach queue_start queue_step db"
  shows "queue_wf db \<and> (\<forall>m\<in>set (mq_rows db). 0 \<le> q_attempts m \<and> q_attempts m \<le> QUEUE_MAX_ATTEMPTS)"
  using queue_system.reach_inv [OF assms] by (auto simp: attempts_bounded_def queue_wf_def)

theorem attempts_never_exceed_witness:
  "\<exists>db. length (mq_rows db) = 1 \<and> queue_wf db"
proof -
  let ?db0 = "\<lparr>mq_rows = [], mq_next = 1, hb_rows = []\<rparr>"
  let ?db1 = "snd (enqueue_message (\<lambda>s. s) (env_at 5) ''meta'' ''8801'' ''text'' None None None ''inbound'' None None ?db0)"
  let ?db2 = "snd (dequeue_batch (env_at 6) [] 10 ''w1'' QUEUE_MAX_ATTEMPTS ?db1)"
  have "reach queue_start queue_step ?db0"
    by (rule reach_start) (simp add: queue_start_def)
  then have "reach queue_start queue_step ?db1"
    by (rule reach_step) (rule queue_step.enqueue)
  then have "reach queue_start queue_step ?db2"
    by (rule reach_step) (rule queue_step.dequeue)
  from attempts_never_exceed [OF this]
  have "queue_wf ?db2" by (rule conjunct1)
  moreover have "length (mq_rows ?db2) = 1"
    by (simp add: dequeue_batch_def Let_def enqueue_message_def has_row_def)
  ultimately show ?thesis by blast
qed

text \<open>
  A message whose attempts are used up is never dead-lettered by a claim.
  After the last allowed attempt \<open>fail_message\<close> puts the message back to pending,
  and from there no later claim, enqueue, failure report or heartbeat changes its
  status: it stays pending, never to be processed and never marked failed, although
  the docstring of \<open>fail_message\<close> says it is dead-lettered on the next dequeue.
\<close>

theorem exhausted_stays_pending:
  assumes "queue_wf db" and "find (\<lambda>r. q_id r = i) (mq_rows db) = Some m"
    and "QUEUE_MAX_ATTEMPTS \<le> q_attempts m" and "\<not> raises e 0"
  shows "let db1 = snd (fail_message e i err db);
             (batch, db2) = dequeue_batch e2 lk n p QUEUE_MAX_ATTEMPTS db1
         in (\<forall>b\<in>set batch. q_id b \<noteq> i)
          \<and> find (\<lambda>r. q_id r = i) (mq_rows db2) = Some (m\<lparr>q_status := Q_pending, q_last_error := Some (take 500 err)\<rparr>)"
proof -
  let ?db1 = "snd (fail_message e i err db)" and ?m1 = "m\<lparr>q_status := Q_pending, q_last_error := Some (take 500 err)\<rparr>"
  have wf1: "queue_wf ?db1" using assms(1) by (rule fail_wf)
  have mi: "q_id m = i" using find_Some_mem [OF assms(2)] by simp
  have f1: "find (\<lambda>r. q_id r = i) (mq_rows ?db1) = Some ?m1"
    using assms(2,4) by (simp add: fail_message_def find_update_where_key mi)
  have ne: "q_id c \<noteq> i" if "c \<in> set (claim_set lk n QUEUE_MAX_ATTEMPTS (mq_rows ?db1))" for c
  proof
    assume "q_id c = i"
    moreover have "find (\<lambda>r. q_id r = q_id c) (mq_rows ?db1) = Some c"
      using find_key_unique [of q_id "mq_rows ?db1" c] wf1 claim_set_mem [OF that] by (simp add: queue_wf_def)
    ultimately have "c = ?m1" using f1 by simp
    with claim_set_mem [OF that] assms(3) show False by (simp add: eligible_def)
  qed
  then have "?m1 \<notin> set (claim_set lk n QUEUE_MAX_ATTEMPTS (mq_rows ?db1))" using mi by fastforce
  with undequeued_row [OF wf1, of e2 ?m1] find_Some_mem [OF f1]
  have "find (\<lambda>r. q_id r = i) (mq_rows (snd (dequeue_batch e2 lk n p QUEUE_MAX_ATTEMPTS ?db1))) = Some ?m1"
    using f1 by (cases "raises e2 0") (simp_all add: mi dequeue_batch_def)
  moreover have "\<forall>b\<in>set (fst (dequeue_batch e2 lk n p QUEUE_MAX_ATTEMPTS ?db1)). q_id b \<noteq> i"
  proof (cases "raises e2 0")
    case True
    then show ?thesis by (simp add: dequeue_batch_def)
  next
    case False
    with ne show ?thesis by (auto simp: dequeue_claims)
  qed
  ultimately show ?thesis by (simp add: Let_def split_def)
qed

theorem exhausted_stays_pending_witness:
  "find (\<lambda>r. q_id r = 3) (mq_rows (snd (dequeue_batch (env_at 70) [] 10 ''w1'' QUEUE_MAX_ATTEMPTS
      (snd (fail_message (env_at 60) 3 ''timeout'' sample_queue)))))
    = Some ((sample_msg 3 20 3)\<lparr>q_status := Q_pending, q_last_error := Some ''timeout''\<rparr>)"
proof -
  have "find (\<lambda>r. q_id r = 3) (mq_rows sample_queue) = Some (sample_msg 3 20 3)"
    by (simp add: sample_queue_def sample_msg_def)
  from exhausted_stays_pending [OF sample_queue_wf this, of "env_at 60" "''timeout''" "env_at 70" "[]" 10 "''w1''"]
  show ?thesis
    by (simp add: Let_def split_def QUEUE_MAX_ATTEMPTS_def sample_msg_def)
qed

end
