(* ===== verification/Queue_Arbiter.thy ===== *)
theory Queue_Arbiter
  imports Message_Queue
begin

text \<open>
  The lease layer over the message queue, \<open>shared/queue_arbiter.py\<close>, on the table
  \<open>fazle_queue_leases\<close> (unique pair \<open>(message_id, intent)\<close>, sequence
  \<open>lease_id\<close>, foreign key into \<open>fazle_message_queue\<close>). \<open>acquire_lease\<close> is a
  \<open>SELECT\<close> followed by one write on the same connection but outside a
  transaction: \<open>lease_lookup\<close> is the read and \<open>acquire_commit\<close> the rest, so that
  the interleaving of two workers between the two can be expressed. Latency
  samples are counted in microseconds; the final rounding of the percentiles for
  display is not modelled.
\<close>

datatype lease_status = LS_LEASED | LS_PROCESSING | LS_COMPLETED | LS_FAILED | LS_DEAD_LETTER

record lease_row =
  l_id :: int
  l_message :: int
  l_intent :: string
  l_worker :: string
  l_status :: lease_status
  l_attempts :: int
  l_leased_at :: time
  l_expires_at :: time
  l_completed_at :: "time option"
  l_retry_after :: "time option"
  l_updated_at :: time
  l_last_error :: "string option"
  l_metadata :: payload

record arbiter_metrics =
  m_leases_acquired :: nat
  m_lease_conflicts :: nat
  m_completions :: nat
  m_failures :: nat
  m_retries :: nat
  m_dead_letters :: nat
  m_recoveries :: nat
  m_deduplication_hits :: nat
  m_queue_starvation :: nat
  m_latency_samples :: "int list"

record queue_lease =
  ql_lease_id :: int
  ql_message_id :: int
  ql_intent :: string
  ql_worker_id :: string
  ql_status :: lease_status
  ql_attempts :: int
  ql_leased_at :: time
  ql_metadata :: payload

record arb_state =
  ar_leases :: "lease_row list"
  ar_next :: int
  ar_queue :: queue_db
  ar_metrics :: arbiter_metrics
  ar_bus :: bus

definition LEASE_TTL_S :: int where "LEASE_TTL_S = 120"
definition ARBITER_MAX_ATTEMPTS :: int where "ARBITER_MAX_ATTEMPTS = 5"
definition MAX_BACKOFF_S :: int where "MAX_BACKOFF_S = 3600"

definition arbiter_enabled :: "string option \<Rightarrow> bool" where
  "arbiter_enabled var \<longleftrightarrow>
     py_lower (case var of None \<Rightarrow> ''true'' | Some v \<Rightarrow> v) \<notin> {''0'', ''false'', ''no''}"

definition record_latency :: "int \<Rightarrow> arbiter_metrics \<Rightarrow> arbiter_metrics" where
  "record_latency us m =
     (let s = m_latency_samples m @ [us]
      in m\<lparr>m_latency_samples := if length s > 1000 then py_suffix 1000 s else s\<rparr>)"

definition latency_p50_p95 :: "arbiter_metrics \<Rightarrow> (int \<times> int) option" where
  "latency_p50_p95 m =
     (let s = sort (m_latency_samples m)
      in if s = [] then None
         else Some (s ! (length s div 2), s ! (95 * length s div 100)))"

definition get_arbiter_metrics :: "arbiter_metrics \<Rightarrow> nat list \<times> (int \<times> int) option \<times> nat" where
  "get_arbiter_metrics m =
     ([m_leases_acquired m, m_lease_conflicts m, m_completions m, m_failures m, m_retries m,
       m_dead_letters m, m_recoveries m, m_deduplication_hits m, m_queue_starvation m],
      latency_p50_p95 m, length (m_latency_samples m))"

subsection \<open>Lease operations\<close>

definition metric :: "(arbiter_metrics \<Rightarrow> arbiter_metrics) \<Rightarrow> arb_state \<Rightarrow> arb_state" where
  "metric f s = s\<lparr>ar_metrics := f (ar_metrics s)\<rparr>"

definition lease_emit :: "env \<Rightarrow> string \<Rightarrow> payload \<Rightarrow> arb_state \<Rightarrow> arb_state" where
  "lease_emit e et pl s = s\<lparr>ar_bus := emit e et pl ''queue_arbiter'' (ar_bus s)\<rparr>"

definition for_pair :: "int \<Rightarrow> string \<Rightarrow> lease_row \<Rightarrow> bool" where
  "for_pair msg_id intent l \<longleftrightarrow> l_message l = msg_id \<and> l_intent l = intent"

definition lease_lookup :: "int \<Rightarrow> string \<Rightarrow> arb_state \<Rightarrow> lease_row option" where
  "lease_lookup msg_id intent s = find (for_pair msg_id intent) (ar_leases s)"

definition lease_active :: "time \<Rightarrow> lease_row \<Rightarrow> bool" where
  "lease_active now l \<longleftrightarrow> l_status l \<in> {LS_LEASED, LS_PROCESSING} \<and> l_expires_at l > now"

definition mk_lease :: "env \<Rightarrow> int \<Rightarrow> int \<Rightarrow> string \<Rightarrow> string \<Rightarrow> int \<Rightarrow> payload \<Rightarrow> queue_lease" where
  "mk_lease e lid msg_id intent worker attempts md =
     \<lparr>ql_lease_id = lid, ql_message_id = msg_id, ql_intent = intent, ql_worker_id = worker,
      ql_status = LS_LEASED, ql_attempts = attempts, ql_leased_at = py_now e, ql_metadata = md\<rparr>"

definition exhausted_row :: "env \<Rightarrow> lease_row \<Rightarrow> lease_row" where
  "exhausted_row e l = l\<lparr>l_status := LS_DEAD_LETTER, l_last_error := Some ''max_attempts_exceeded'',
                        l_updated_at := db_now e\<rparr>"

definition reclaimed_row :: "env \<Rightarrow> string \<Rightarrow> int \<Rightarrow> int \<Rightarrow> payload \<Rightarrow> lease_row \<Rightarrow> lease_row" where
  "reclaimed_row e worker new_attempts ttl_s md l =
     l\<lparr>l_worker := worker, l_status := LS_LEASED, l_attempts := new_attempts, l_leased_at := db_now e,
       l_expires_at := db_now e + secs ttl_s, l_updated_at := db_now e, l_metadata := md\<rparr>"

definition reclaim_lease ::
  "env \<Rightarrow> int \<Rightarrow> string \<Rightarrow> string \<Rightarrow> int \<Rightarrow> payload \<Rightarrow> lease_row \<Rightarrow> arb_state \<Rightarrow> queue_lease option \<times> arb_state" where
  "reclaim_lease e msg_id intent worker ttl_s md existing s =
     (let new_attempts = l_attempts existing + 1
      in if new_attempts > ARBITER_MAX_ATTEMPTS
         then if raises e 1 then (None, s)
              else (None, metric (\<lambda>m. m\<lparr>m_dead_letters := m_dead_letters m + 1\<rparr>)
                     (s\<lparr>ar_leases := update_where (for_pair msg_id intent)
                        (exhausted_row e) (ar_leases s)\<rparr>))
         else if raises e 1 then (None, s)
         else let s' = s\<lparr>ar_leases := update_where (for_pair msg_id intent)
                          (reclaimed_row e worker new_attempts ttl_s md) (ar_leases s)\<rparr>
              in case lease_lookup msg_id intent s' of
                   None \<Rightarrow> (None, s')
                 | Some l \<Rightarrow>
                     (Some (mk_lease e (l_id l) msg_id intent worker (l_attempts l) md),
                      metric (\<lambda>m. m\<lparr>m_leases_acquired := m_leases_acquired m + 1,
                                    m_retries := m_retries m + 1\<rparr>) s'))"

definition insert_lease ::
  "env \<Rightarrow> int \<Rightarrow> string \<Rightarrow> string \<Rightarrow> int \<Rightarrow> payload \<Rightarrow> arb_state \<Rightarrow> queue_lease option \<times> arb_state" where
  "insert_lease e msg_id intent worker ttl_s md s =
     (let s0 = s\<lparr>ar_next := ar_next s + 1\<rparr>
      in if raises e 1 then (None, s)
         else if has_row (for_pair msg_id intent) (ar_leases s)
         then (None, metric (\<lambda>m. m\<lparr>m_lease_conflicts := m_lease_conflicts m + 1\<rparr>) s0)
         else if \<not> has_row (\<lambda>m. q_id m = msg_id) (mq_rows (ar_queue s)) then (None, s0)
         else (Some (mk_lease e (ar_next s) msg_id intent worker 1 md),
               metric (\<lambda>m. m\<lparr>m_leases_acquired := m_leases_acquired m + 1\<rparr>)
                (s0\<lparr>ar_leases := ar_leases s @
                   [\<lparr>l_id = ar_next s, l_message = msg_id, l_intent = intent, l_worker = worker,
                     l_status = LS_LEASED, l_attempts = 1, l_leased_at = db_now e,
                     l_expires_at = db_now e + secs ttl_s, l_completed_at = None, l_retry_after = None,
                     l_updated_at = db_now e, l_last_error = None, l_metadata = md\<rparr>]\<rparr>)))"

definition acquire_commit ::
  "env \<Rightarrow> int \<Rightarrow> string \<Rightarrow> string \<Rightarrow> int \<Rightarrow> payload \<Rightarrow> lease_row option \<Rightarrow> arb_state
    \<Rightarrow> queue_lease option \<times> arb_state" where
  "acquire_commit e msg_id intent worker ttl_s md existing s =
     (case existing of
        None \<Rightarrow> insert_lease e msg_id intent worker ttl_s md s
      | Some x \<Rightarrow>
          if l_status x = LS_COMPLETED
          then (None, lease_emit e ''duplicate_write''
                  [(''message_id'', JInt msg_id), (''intent'', JStr intent), (''worker_id'', JStr worker),
                   (''reason'', JStr ''already_completed'')]
                  (metric (\<lambda>m. m\<lparr>m_deduplication_hits := m_deduplication_hits m + 1\<rparr>) s))
          else if l_status x = LS_DEAD_LETTER
          then (None, metric (\<lambda>m. m\<lparr>m_deduplication_hits := m_deduplication_hits m + 1\<rparr>) s)
          else if lease_active (py_now e) x
          then (None, lease_emit e ''lock_contention''
                  [(''message_id'', JInt msg_id), (''intent'', JStr intent),
                   (''held_by'', JStr (l_worker x)), (''contender'', JStr worker)]
                  (metric (\<lambda>m. m\<lparr>m_lease_conflicts := m_lease_conflicts m + 1\<rparr>) s))
          else reclaim_lease e msg_id intent worker ttl_s md x s)"

definition acquire_lease ::
  "env \<Rightarrow> int \<Rightarrow> string \<Rightarrow> string \<Rightarrow> int \<Rightarrow> payload \<Rightarrow> arb_state \<Rightarrow> queue_lease option \<times> arb_state" where
  "acquire_lease e msg_id intent worker ttl_s md s =
     (if \<not> has_pool e \<or> raises e 0 then (None, s)
      else acquire_commit e msg_id intent worker ttl_s md (lease_lookup msg_id intent s) s)"

definition complete_lease :: "env \<Rightarrow> int \<Rightarrow> arb_state \<Rightarrow> bool \<times> arb_state" where
  "complete_lease e lid s =
     (if \<not> has_pool e \<or> raises e 0 then (False, s)
      else (True, metric (\<lambda>m. m\<lparr>m_completions := m_completions m + 1\<rparr>)
             (s\<lparr>ar_leases := update_where (\<lambda>l. l_id l = lid)
                (\<lambda>l. l\<lparr>l_status := LS_COMPLETED, l_completed_at := Some (db_now e), l_updated_at := db_now e\<rparr>)
                (ar_leases s)\<rparr>)))"

definition fail_lease :: "env \<Rightarrow> int \<Rightarrow> string \<Rightarrow> arb_state \<Rightarrow> bool \<times> arb_state" where
  "fail_lease e lid err s =
     (if \<not> has_pool e \<or> raises e 0 then (False, s)
      else case find (\<lambda>l. l_id l = lid) (ar_leases s) of
        None \<Rightarrow> (False, s)
      | Some row \<Rightarrow>
          let attempts = l_attempts row;
              backoff_s = min (2 ^ nat (attempts - 1)) MAX_BACKOFF_S;
              next_status = (if attempts \<ge> ARBITER_MAX_ATTEMPTS then LS_DEAD_LETTER else LS_FAILED)
          in if raises e 1 then (False, s)
             else (True, metric (\<lambda>m. m\<lparr>m_failures := m_failures m + 1,
                        m_dead_letters := m_dead_letters m + (if next_status = LS_DEAD_LETTER then 1 else 0)\<rparr>)
                    (s\<lparr>ar_leases := update_where (\<lambda>l. l_id l = lid)
                       (\<lambda>l. l\<lparr>l_status := next_status, l_last_error := Some (take 1000 err),
                              l_retry_after := Some (db_now e + secs backoff_s),
                              l_updated_at := db_now e\<rparr>) (ar_leases s)\<rparr>)))"

definition dead_letter_lease :: "env \<Rightarrow> int \<Rightarrow> string \<Rightarrow> arb_state \<Rightarrow> bool \<times> arb_state" where
  "dead_letter_lease e lid reason s =
     (if \<not> has_pool e \<or> raises e 0 then (False, s)
      else (True, metric (\<lambda>m. m\<lparr>m_dead_letters := m_dead_letters m + 1\<rparr>)
             (s\<lparr>ar_leases := update_where (\<lambda>l. l_id l = lid)
                (\<lambda>l. l\<lparr>l_status := LS_DEAD_LETTER, l_last_error := Some (take 1000 reason),
                       l_updated_at := db_now e\<rparr>) (ar_leases s)\<rparr>)))"

definition stale_lease :: "env \<Rightarrow> int \<Rightarrow> lease_row \<Rightarrow> bool" where
  "stale_lease e stale_after_s l \<longleftrightarrow>
     l_status l \<in> {LS_LEASED, LS_PROCESSING} \<and> l_expires_at l < db_now e - secs stale_after_s"

definition recover_stale_leases :: "env \<Rightarrow> int \<Rightarrow> arb_state \<Rightarrow> nat \<times> arb_state" where
  "recover_stale_leases e stale_after_s s =
     (if \<not> has_pool e \<or> raises e 0 then (0, s)
      else let n = count_where (stale_lease e stale_after_s) (ar_leases s);
               s' = s\<lparr>ar_leases := update_where (stale_lease e stale_after_s)
                       (\<lambda>l. l\<lparr>l_status := LS_FAILED, l_last_error := Some ''lease_expired_recovered'',
                              l_updated_at := db_now e\<rparr>) (ar_leases s)\<rparr>
           in (n, if n = 0 then s'
                  else lease_emit e ''queue_pressure''
                         [(''recovered_leases'', JInt (int n)), (''reason'', JStr ''lease_expiry'')]
                         (metric (\<lambda>m. m\<lparr>m_recoveries := m_recoveries m + n\<rparr>) s')))"

definition get_dead_letters :: "env \<Rightarrow> nat \<Rightarrow> nat \<Rightarrow> arb_state \<Rightarrow> (lease_row \<times> qmsg option) list" where
  "get_dead_letters e limit offset s =
     (if \<not> has_pool e \<or> raises e 0 then []
      else map (\<lambda>l. (l, find (\<lambda>q. q_id q = l_message l) (mq_rows (ar_queue s))))
             (take limit (drop offset
               (sort_key (\<lambda>l. - l_updated_at l) (filter (\<lambda>l. l_status l = LS_DEAD_LETTER) (ar_leases s))))))"

definition get_dead_letter_count :: "env \<Rightarrow> arb_state \<Rightarrow> nat" where
  "get_dead_letter_count e s =
     (if \<not> has_pool e \<or> raises e 0 then 0
      else count_where (\<lambda>l. l_status l = LS_DEAD_LETTER) (ar_leases s))"

definition unworked :: "env \<Rightarrow> lease_row list \<Rightarrow> qmsg \<Rightarrow> bool" where
  "unworked e leases q \<longleftrightarrow> q_status q = Q_pending \<and> q_attempts q < ARBITER_MAX_ATTEMPTS
     \<and> \<not> has_row (\<lambda>l. l_message l = q_id q \<and> lease_active (db_now e) l) leases"

definition detect_starvation :: "env \<Rightarrow> arb_state \<Rightarrow> nat \<times> arb_state" where
  "detect_starvation e s =
     (if \<not> has_pool e \<or> raises e 0 then (0, s)
      else let n = count_where (unworked e (ar_leases s)) (mq_rows (ar_queue s))
           in (n, if n = 0 then s
                  else lease_emit e ''queue_pressure''
                         [(''pending_unworked'', JInt (int n)), (''reason'', JStr ''starvation'')]
                         (metric (\<lambda>m. m\<lparr>m_queue_starvation := m_queue_starvation m + 1\<rparr>) s)))"

subsection \<open>Arbitrated dequeue and processing\<close>

fun lease_candidates ::
  "(int \<Rightarrow> env) \<Rightarrow> (int \<Rightarrow> env) \<Rightarrow> nat \<Rightarrow> string \<Rightarrow> string \<Rightarrow> qmsg list \<Rightarrow> arb_state
    \<Rightarrow> (qmsg \<times> queue_lease) list \<times> arb_state" where
  "lease_candidates ea ef limit worker intent [] s = ([], s)"
| "lease_candidates ea ef limit worker intent (msg # msgs) s =
     (case acquire_lease (ea (q_id msg)) (q_id msg) intent worker LEASE_TTL_S [] s of
        (None, s1) \<Rightarrow>
          lease_candidates ea ef limit worker intent msgs
            (s1\<lparr>ar_queue := snd (fail_message (ef (q_id msg)) (q_id msg) ''lease_conflict'' (ar_queue s1))\<rparr>)
      | (Some lease, s1) \<Rightarrow>
          if limit \<le> 1 then ([(msg, lease)], s1)
          else let (rest, s2) = lease_candidates ea ef (limit - 1) worker intent msgs s1
               in ((msg, lease) # rest, s2))"

definition arbitrated_dequeue ::
  "string option \<Rightarrow> env \<Rightarrow> (int \<Rightarrow> env) \<Rightarrow> (int \<Rightarrow> env) \<Rightarrow> int list \<Rightarrow> nat \<Rightarrow> string \<Rightarrow> string \<Rightarrow> arb_state
    \<Rightarrow> (qmsg \<times> queue_lease option) list \<times> arb_state" where
  "arbitrated_dequeue flag e ea ef lk limit worker intent s =
     (if \<not> arbiter_enabled flag
      then let (batch, q) = dequeue_batch e lk limit worker QUEUE_MAX_ATTEMPTS (ar_queue s)
           in (map (\<lambda>m. (m, None)) batch, s\<lparr>ar_queue := q\<rparr>)
      else let (cands, q) = dequeue_batch e lk (limit * 2) worker QUEUE_MAX_ATTEMPTS (ar_queue s);
               (got, s1) = lease_candidates ea ef limit worker intent cands (s\<lparr>ar_queue := q\<rparr>);
               s2 = (if got = [] \<and> cands \<noteq> []
                     then metric (\<lambda>m. m\<lparr>m_queue_starvation := m_queue_starvation m + 1\<rparr>) s1 else s1)
           in (map (\<lambda>(m, l). (m, Some l)) got, s2))"

definition arbitrated_process ::
  "env \<Rightarrow> env \<Rightarrow> int \<Rightarrow> int \<Rightarrow> string \<Rightarrow> string \<Rightarrow> (queue_lease \<Rightarrow> arb_state \<Rightarrow> (string + 'r) \<times> arb_state)
    \<Rightarrow> int \<Rightarrow> payload \<Rightarrow> arb_state \<Rightarrow> 'r option \<times> arb_state" where
  "arbitrated_process e1 e2 latency msg_id intent worker handler ttl_s md s =
     (case acquire_lease e1 msg_id intent worker ttl_s md s of
        (None, s1) \<Rightarrow> (None, s1)
      | (Some lease, s1) \<Rightarrow>
          (case handler lease s1 of
             (Inr r, s2) \<Rightarrow>
               (Some r, metric (record_latency latency) (snd (complete_lease e2 (ql_lease_id lease) s2)))
           | (Inl err, s2) \<Rightarrow> (None, snd (fail_lease e2 (ql_lease_id lease) (take 500 err) s2))))"

definition recovery_tick :: "env \<Rightarrow> env \<Rightarrow> arb_state \<Rightarrow> arb_state" where
  "recovery_tick e1 e2 s = snd (detect_starvation e2 (snd (recover_stale_leases e1 LEASE_TTL_S s)))"

subsection \<open>The lease table\<close>

definition l_pair :: "lease_row \<Rightarrow> int \<times> string" where
  "l_pair l = (l_message l, l_intent l)"

lemma for_pair_iff: "for_pair m i = (\<lambda>l. l_pair l = (m, i))"
  by (auto simp: for_pair_def l_pair_def)

lemma l_pair_update [simp]:
  "l_pair (l\<lparr>l_status := a\<rparr>) = l_pair l" "l_pair (l\<lparr>l_updated_at := t\<rparr>) = l_pair l"
  "l_pair (l\<lparr>l_last_error := x\<rparr>) = l_pair l" "l_pair (l\<lparr>l_completed_at := y\<rparr>) = l_pair l"
  "l_pair (l\<lparr>l_retry_after := y\<rparr>) = l_pair l" "l_pair (l\<lparr>l_worker := w\<rparr>) = l_pair l"
  "l_pair (l\<lparr>l_attempts := n\<rparr>) = l_pair l" "l_pair (l\<lparr>l_leased_at := t\<rparr>) = l_pair l"
  "l_pair (l\<lparr>l_expires_at := t\<rparr>) = l_pair l" "l_pair (l\<lparr>l_metadata := md\<rparr>) = l_pair l"
  by (simp_all add: l_pair_def)

definition leases_wf :: "arb_state \<Rightarrow> bool" where
  "leases_wf s \<longleftrightarrow> distinct (map l_id (ar_leases s)) \<and> distinct (map l_pair (ar_leases s))
     \<and> (\<forall>l\<in>set (ar_leases s). l_id l < ar_next s \<and> 1 \<le> l_attempts l \<and> l_attempts l \<le> ARBITER_MAX_ATTEMPTS)"

lemma metric_frame [simp]:
  "ar_leases (metric f s) = ar_leases s" "ar_next (metric f s) = ar_next s" "ar_queue (metric f s) = ar_queue s"
  "ar_bus (metric f s) = ar_bus s"
  by (simp_all add: metric_def)

lemma lease_emit_frame [simp]:
  "ar_leases (lease_emit e t p s) = ar_leases s" "ar_next (lease_emit e t p s) = ar_next s"
  "ar_queue (lease_emit e t p s) = ar_queue s" "ar_metrics (lease_emit e t p s) = ar_metrics s"
  by (simp_all add: lease_emit_def)

lemma leases_wf_frame [simp]:
  "leases_wf (metric f s) = leases_wf s" "leases_wf (lease_emit e t p s) = leases_wf s"
  by (simp_all add: leases_wf_def)

lemma row_simps [simp]:
  "l_pair (exhausted_row e l) = l_pair l" "l_id (exhausted_row e l) = l_id l"
  "l_attempts (exhausted_row e l) = l_attempts l" "l_status (exhausted_row e l) = LS_DEAD_LETTER"
  "l_pair (reclaimed_row e w n ttl md l) = l_pair l" "l_id (reclaimed_row e w n ttl md l) = l_id l"
  "l_attempts (reclaimed_row e w n ttl md l) = n" "l_status (reclaimed_row e w n ttl md l) = LS_LEASED"
  "l_worker (reclaimed_row e w n ttl md l) = w" "l_expires_at (reclaimed_row e w n ttl md l) = db_now e + secs ttl"
  by (simp_all add: exhausted_row_def reclaimed_row_def)

lemma reclaim_leases:
  "ar_next (snd (reclaim_lease e m i w ttl md x s)) = ar_next s"
  "ar_leases (snd (reclaim_lease e m i w ttl md x s)) =
    update_where (\<lambda>l. \<not> raises e 1 \<and> for_pair m i l)
      (if l_attempts x + 1 > ARBITER_MAX_ATTEMPTS then exhausted_row e
       else reclaimed_row e w (l_attempts x + 1) ttl md) (ar_leases s)"
  by (simp_all add: reclaim_lease_def Let_def update_where_none split: option.split)

lemma reclaim_wf:
  assumes "leases_wf s" "1 \<le> l_attempts x"
  shows "leases_wf (snd (reclaim_lease e m i w ttl md x s))"
  using assms unfolding leases_wf_def reclaim_leases by (simp add: table_keys ball_update_where)

lemma insert_wf: "leases_wf s \<Longrightarrow> leases_wf (snd (insert_lease e m i w ttl md s))"
  by (auto simp: insert_lease_def Let_def leases_wf_def has_row_iff for_pair_iff l_pair_def
      ARBITER_MAX_ATTEMPTS_def image_iff)

lemma acquire_commit_wf:
  assumes "leases_wf s" "\<And>x. existing = Some x \<Longrightarrow> 1 \<le> l_attempts x"
  shows "leases_wf (snd (acquire_commit e m i w ttl md existing s))"
  using assms by (simp add: acquire_commit_def reclaim_wf insert_wf split: option.split)

lemma lease_lookup_mem: "lease_lookup m i s = Some l \<Longrightarrow> l \<in> set (ar_leases s) \<and> l_pair l = (m, i)"
  unfolding lease_lookup_def for_pair_iff by (rule find_Some_mem)

lemma acquire_wf: "leases_wf s \<Longrightarrow> leases_wf (snd (acquire_lease e m i w ttl md s))"
  by (auto simp: acquire_lease_def leases_wf_def dest!: lease_lookup_mem
      intro!: acquire_commit_wf [unfolded leases_wf_def])

lemma complete_wf: "leases_wf s \<Longrightarrow> leases_wf (snd (complete_lease e lid s))"
  by (auto simp: complete_lease_def leases_wf_def table_keys ball_update_where l_pair_def)

lemma fail_lease_wf: "leases_wf s \<Longrightarrow> leases_wf (snd (fail_lease e lid err s))"
  by (auto simp: fail_lease_def Let_def leases_wf_def table_keys ball_update_where l_pair_def
      split: option.splits)

lemma dead_letter_lease_wf: "leases_wf s \<Longrightarrow> leases_wf (snd (dead_letter_lease e lid r s))"
  by (auto simp: dead_letter_lease_def leases_wf_def table_keys ball_update_where l_pair_def)

lemma recover_wf: "leases_wf s \<Longrightarrow> leases_wf (snd (recover_stale_leases e t s))"
  by (auto simp: recover_stale_leases_def Let_def leases_wf_def table_keys ball_update_where l_pair_def)

subsection \<open>Lease states along a run\<close>

definition lease_state :: "arb_state \<Rightarrow> int \<times> string \<Rightarrow> lease_status option" where
  "lease_state s k = map_option l_status (find (\<lambda>l. l_pair l = k) (ar_leases s))"

definition lease_edge :: "lease_status \<Rightarrow> lease_status \<Rightarrow> bool" where
  "lease_edge v w = (case v of
      LS_COMPLETED \<Rightarrow> False
    | LS_DEAD_LETTER \<Rightarrow> w = LS_COMPLETED
    | LS_FAILED \<Rightarrow> w \<in> {LS_LEASED, LS_COMPLETED, LS_DEAD_LETTER}
    | _ \<Rightarrow> w \<in> {LS_LEASED, LS_FAILED, LS_COMPLETED, LS_DEAD_LETTER})"

lemma lease_state_frame [simp]:
  "lease_state (metric f s) k = lease_state s k" "lease_state (lease_emit e t p s) k = lease_state s k"
  "lease_state (s\<lparr>ar_queue := q\<rparr>) k = lease_state s k" "lease_state (s\<lparr>ar_next := n\<rparr>) k = lease_state s k"
  by (simp_all add: lease_state_def)

lemma lease_state_updated:
  assumes "ar_leases t = update_where P f (ar_leases s)" "\<And>l. l_pair (f l) = l_pair l"
    and "lease_state s k = Some v"
    and "\<And>l. find (\<lambda>l. l_pair l = k) (ar_leases s) = Some l \<Longrightarrow> l_pair l = k \<Longrightarrow> P l \<Longrightarrow> l_status l = v \<Longrightarrow>
        l_status (f l) = v \<or> E (l_status (f l))"
  shows "\<exists>w. lease_state t k = Some w \<and> (w = v \<or> E w)"
proof -
  obtain l where l: "find (\<lambda>l. l_pair l = k) (ar_leases s) = Some l" "l_status l = v"
    using assms(3) by (auto simp: lease_state_def)
  then have "lease_state t k = Some (l_status (if P l then f l else l))"
    using assms(1,2) by (simp add: lease_state_def find_update_where_key)
  with l assms(4) find_Some_mem [OF l(1)] show ?thesis by auto
qed

lemma update_where_never [simp]: "update_where (\<lambda>_. False) f t = t"
  by (simp add: update_where_none)

lemma complete_leases:
  "ar_leases (snd (complete_lease e lid s)) =
    update_where (\<lambda>l. has_pool e \<and> \<not> raises e 0 \<and> l_id l = lid)
      (\<lambda>l. l\<lparr>l_status := LS_COMPLETED, l_completed_at := Some (db_now e), l_updated_at := db_now e\<rparr>) (ar_leases s)"
  by (cases "has_pool e"; cases "raises e 0") (simp_all add: complete_lease_def)

lemma fail_leases:
  assumes "find (\<lambda>l. l_id l = lid) (ar_leases s) = Some row"
  shows "ar_leases (snd (fail_lease e lid err s)) =
    update_where (\<lambda>l. has_pool e \<and> \<not> raises e 0 \<and> \<not> raises e 1 \<and> l_id l = lid)
      (\<lambda>l. l\<lparr>l_status := (if l_attempts row \<ge> ARBITER_MAX_ATTEMPTS then LS_DEAD_LETTER else LS_FAILED),
             l_last_error := Some (take 1000 err),
             l_retry_after := Some (db_now e + secs (min (2 ^ nat (l_attempts row - 1)) MAX_BACKOFF_S)),
             l_updated_at := db_now e\<rparr>) (ar_leases s)"
  using assms by (cases "has_pool e"; cases "raises e 0") (simp_all add: fail_lease_def Let_def)

lemma park_leases:
  "ar_leases (snd (dead_letter_lease e lid r s)) =
    update_where (\<lambda>l. has_pool e \<and> \<not> raises e 0 \<and> l_id l = lid)
      (\<lambda>l. l\<lparr>l_status := LS_DEAD_LETTER, l_last_error := Some (take 1000 r), l_updated_at := db_now e\<rparr>) (ar_leases s)"
  by (cases "has_pool e"; cases "raises e 0") (simp_all add: dead_letter_lease_def)

lemma recover_leases:
  "ar_leases (snd (recover_stale_leases e t s)) =
    update_where (\<lambda>l. has_pool e \<and> \<not> raises e 0 \<and> stale_lease e t l)
      (\<lambda>l. l\<lparr>l_status := LS_FAILED, l_last_error := Some ''lease_expired_recovered'', l_updated_at := db_now e\<rparr>)
      (ar_leases s)"
  by (cases "has_pool e"; cases "raises e 0") (simp_all add: recover_stale_leases_def Let_def)

lemma lease_state_append:
  "lease_state s k = Some v \<Longrightarrow> lease_state (s\<lparr>ar_leases := ar_leases s @ ls\<rparr>) k = Some v"
  by (auto simp: lease_state_def find_append split: option.splits)

lemma lease_state_lookup: "lease_state s (m, i) = map_option l_status (lease_lookup m i s)"
  by (simp add: lease_state_def lease_lookup_def for_pair_iff)

lemma reclaim_state:
  assumes "lease_state s k = Some v"
  shows "\<exists>w. lease_state (snd (reclaim_lease e m i wk ttl md x s)) k = Some w
    \<and> (w = v \<or> k = (m, i) \<and> w \<in> {LS_LEASED, LS_DEAD_LETTER})"
  by (rule lease_state_updated [OF reclaim_leases(2) _ assms]) (auto simp: for_pair_iff)

lemma insert_state:
  "lease_state s k = Some v \<Longrightarrow> lease_state (snd (insert_lease e m i w ttl md s)) k = Some v"
  using lease_state_append [of s k v] by (simp add: insert_lease_def Let_def lease_state_def)

lemma acquire_state:
  assumes "lease_state s k = Some v"
  shows "\<exists>w. lease_state (snd (acquire_lease e m i wk ttl md s)) k = Some w \<and> (w = v \<or> lease_edge v w)"
proof (cases "lease_lookup m i s")
  case None
  then show ?thesis
    using assms insert_state [OF assms] by (auto simp: acquire_lease_def acquire_commit_def)
next
  case (Some x)
  have edge: "lease_edge v w"
    if "v \<noteq> LS_COMPLETED" "v \<noteq> LS_DEAD_LETTER" "w \<in> {LS_LEASED, LS_DEAD_LETTER}" for w
    using that by (auto simp: lease_edge_def split: lease_status.split)
  have v: "l_status x = v" if "k = (m, i)"
    using assms that Some by (simp add: lease_state_lookup)
  obtain w where w: "lease_state (snd (reclaim_lease e m i wk ttl md x s)) k = Some w"
      "w = v \<or> k = (m, i) \<and> w \<in> {LS_LEASED, LS_DEAD_LETTER}"
    using reclaim_state [OF assms] by blast
  then show ?thesis
    using assms edge [of w] v Some by (cases "k = (m, i)") (auto simp: acquire_lease_def acquire_commit_def)
qed

inductive lease_step :: "arb_state \<Rightarrow> arb_state \<Rightarrow> bool" where
  acquire: "lease_step s (snd (acquire_lease e m i w ttl md s))"
| complete: "lease_step s (snd (complete_lease e lid s))"
| fail_held: "find (\<lambda>l. l_id l = lid) (ar_leases s) = Some l \<Longrightarrow> l_status l \<in> {LS_LEASED, LS_PROCESSING} \<Longrightarrow>
    lease_step s (snd (fail_lease e lid err s))"
| park_held: "find (\<lambda>l. l_id l = lid) (ar_leases s) = Some l \<Longrightarrow> l_status l \<in> {LS_LEASED, LS_PROCESSING} \<Longrightarrow>
    lease_step s (snd (dead_letter_lease e lid r s))"
| recover: "lease_step s (snd (recover_stale_leases e t s))"
| starvation: "lease_step s (snd (detect_starvation e s))"
| queue: "lease_step s (s\<lparr>ar_queue := q\<rparr>)"

lemma lease_step_wf: "lease_step s t \<Longrightarrow> leases_wf s \<Longrightarrow> leases_wf t"
proof (induction rule: lease_step.induct)
  case (starvation s e)
  then show ?case by (simp add: detect_starvation_def Let_def)
next
  case (queue s q)
  then show ?case by (simp add: leases_wf_def)
qed (simp_all add: acquire_wf complete_wf fail_lease_wf dead_letter_lease_wf recover_wf)

definition wf_lease_step :: "arb_state \<Rightarrow> arb_state \<Rightarrow> bool" where
  "wf_lease_step s t \<longleftrightarrow> leases_wf s \<and> lease_step s t"

lemma held_state:
  assumes "leases_wf s" "find (\<lambda>l. l_id l = lid) (ar_leases s) = Some l"
    and "find (\<lambda>r. l_pair r = k) (ar_leases s) = Some r" "l_id r = lid"
  shows "r = l"
  using assms find_Some_mem [OF assms(2)] find_Some_mem [OF assms(3)] distinct_key_unique [of l_id "ar_leases s" r l]
  by (simp add: leases_wf_def)

lemma lease_step_edge:
  "lease_step s t \<Longrightarrow> leases_wf s \<Longrightarrow> lease_state s k = Some v \<Longrightarrow>
    \<exists>w. lease_state t k = Some w \<and> (w = v \<or> lease_edge v w)"
proof (induction rule: lease_step.induct)
  case (acquire s e m i w ttl md)
  then show ?case by (intro acquire_state)
next
  case (complete s e lid)
  show ?case
    by (rule lease_state_updated [OF complete_leases _ complete.prems(2)])
      (auto simp: lease_edge_def split: lease_status.split)
next
  case (fail_held lid s l e err)
  show ?case
    by (rule lease_state_updated [OF fail_leases [OF fail_held.hyps(1)] _ fail_held.prems(2)])
      (use held_state [OF fail_held.prems(1) fail_held.hyps(1)] fail_held.hyps(2) in \<open>auto simp: lease_edge_def\<close>)
next
  case (park_held lid s l e r)
  show ?case
    by (rule lease_state_updated [OF park_leases _ park_held.prems(2)])
      (use held_state [OF park_held.prems(1) park_held.hyps(1)] park_held.hyps(2) in \<open>auto simp: lease_edge_def\<close>)
next
  case (recover s e t)
  show ?case
    by (rule lease_state_updated [OF recover_leases _ recover.prems(2)])
      (auto simp: lease_edge_def stale_lease_def)
next
  case (starvation s e)
  then show ?case by (simp add: detect_starvation_def Let_def)
qed auto

interpretation lease_machine: status_machine lease_state wf_lease_step lease_edge "\<lambda>v. v = LS_COMPLETED"
  by unfold_locales (auto simp: wf_lease_step_def lease_edge_def dest: lease_step_edge)

lemma wf_run: "lease_step\<^sup>*\<^sup>* s t \<Longrightarrow> leases_wf s \<Longrightarrow> wf_lease_step\<^sup>*\<^sup>* s t \<and> leases_wf t"
proof (induction rule: rtranclp_induct)
  case (step t u)
  then show ?case
    by (auto simp: wf_lease_step_def intro: lease_step_wf rtranclp.rtrancl_into_rtrancl)
qed simp

subsection \<open>Exclusive leases\<close>

lemma acquire_row:
  assumes "leases_wf s" "acquire_lease e m i w ttl md s = (Some q, s')"
  shows "\<exists>l. lease_lookup m i s' = Some l \<and> l_id l = ql_lease_id q \<and> l_worker l = w \<and> l_status l = LS_LEASED
    \<and> l_attempts l = ql_attempts q \<and> l_expires_at l = db_now e + secs ttl"
proof (cases "lease_lookup m i s")
  case None
  then have nr: "\<not> has_row (for_pair m i) (ar_leases s)"
    by (simp add: lease_lookup_def find_None_iff_all has_row_iff)
  have "find (for_pair m i) (ar_leases s) = None" using None by (simp add: lease_lookup_def)
  with assms(2) None nr show ?thesis
    by (auto simp: acquire_lease_def acquire_commit_def insert_lease_def Let_def lease_lookup_def find_append
        mk_lease_def for_pair_def split: if_splits)
next
  case (Some x)
  have "find (\<lambda>l. l_pair l = (m, i)) (ar_leases s) = Some x"
    using Some by (simp add: lease_lookup_def for_pair_iff)
  with assms(2) Some lease_lookup_mem [OF Some] show ?thesis
    by (auto simp: acquire_lease_def acquire_commit_def reclaim_lease_def Let_def lease_lookup_def for_pair_iff
        find_update_where_key mk_lease_def split: if_splits option.splits)
qed

lemma acquire_active:
  assumes "lease_lookup m i s = Some l" "lease_active (py_now e) l"
  shows "fst (acquire_lease e m i w ttl md s) = None \<and> ar_leases (snd (acquire_lease e m i w ttl md s)) = ar_leases s"
  using assms by (auto simp: acquire_lease_def acquire_commit_def lease_active_def)

lemma acquire_closed:
  assumes "lease_state s (m, i) \<in> {Some LS_COMPLETED, Some LS_DEAD_LETTER}"
  shows "fst (acquire_lease e m i w ttl md s) = None \<and> ar_leases (snd (acquire_lease e m i w ttl md s)) = ar_leases s"
  using assms by (auto simp: lease_state_lookup acquire_lease_def acquire_commit_def)

text \<open>
  Workers at work while a lease is held. A read of the lease row that has not been followed by its
  write yet is in flight, so the two halves of an acquisition are steps of their own. The steps are
  those of workers that leave the lease of id \<open>lid\<close> alone, with clocks before \<open>until\<close>.
\<close>

type_synonym pending_read = "int \<times> string \<times> lease_row option"

inductive flight_step :: "int \<Rightarrow> time \<Rightarrow> arb_state \<times> pending_read list \<Rightarrow> arb_state \<times> pending_read list \<Rightarrow> bool"
  for lid until where
  read_row: "flight_step lid until (s, rs) (s, (m, i, lease_lookup m i s) # rs)"
| write_row: "(m, i, x) \<in> set rs \<Longrightarrow> py_now e < until \<Longrightarrow>
    flight_step lid until (s, rs) (snd (acquire_commit e m i w ttl md x s), remove1 (m, i, x) rs)"
| complete_other: "k \<noteq> lid \<Longrightarrow> flight_step lid until (s, rs) (snd (complete_lease e k s), rs)"
| fail_other: "k \<noteq> lid \<Longrightarrow> flight_step lid until (s, rs) (snd (fail_lease e k err s), rs)"
| park_other: "k \<noteq> lid \<Longrightarrow> flight_step lid until (s, rs) (snd (dead_letter_lease e k why s), rs)"
| recover_early: "db_now e - secs t \<le> until \<Longrightarrow> flight_step lid until (s, rs) (snd (recover_stale_leases e t s), rs)"
| starving: "flight_step lid until (s, rs) (snd (detect_starvation e s), rs)"
| queued: "flight_step lid until (s, rs) (s\<lparr>ar_queue := q\<rparr>, rs)"

definition holds_lease :: "int \<Rightarrow> string \<Rightarrow> lease_row \<Rightarrow> arb_state \<times> pending_read list \<Rightarrow> bool" where
  "holds_lease m i l sr \<longleftrightarrow> lease_lookup m i (fst sr) = Some l \<and> (\<forall>x. (m, i, x) \<in> set (snd sr) \<longrightarrow> x = Some l)"

lemma lookup_other_row:
  assumes "ar_leases t = update_where P f (ar_leases s)" "\<And>r. l_pair (f r) = l_pair r"
    and "lease_lookup m i s = Some l" "\<not> P l"
  shows "lease_lookup m i t = Some l"
  using assms by (simp add: lease_lookup_def for_pair_iff find_update_where_key)

lemma commit_active:
  "lease_active (py_now e) l \<Longrightarrow> fst (acquire_commit e m i w ttl md (Some l) s) = None
    \<and> ar_leases (snd (acquire_commit e m i w ttl md (Some l) s)) = ar_leases s"
  by (auto simp: acquire_commit_def lease_active_def)

lemma commit_other:
  assumes "lease_lookup m i s = Some l" "(m', i') \<noteq> (m, i)"
  shows "lease_lookup m i (snd (acquire_commit e m' i' w ttl md x s)) = Some l"
proof (cases x)
  case None
  have n: "for_pair m i \<lparr>l_id = n, l_message = m', l_intent = i', l_worker = a, l_status = b, l_attempts = c, l_leased_at = d,
      l_expires_at = f, l_completed_at = g, l_retry_after = h, l_updated_at = j, l_last_error = k, l_metadata = md\<rparr> = False" for n a b c d f g h j k
    using assms(2) by (auto simp: for_pair_def)
  show ?thesis using assms(1) None by (simp add: acquire_commit_def insert_lease_def Let_def lease_lookup_def find_append n)
next
  case (Some y)
  have "\<not> (\<not> raises e 1 \<and> for_pair m' i' l)" using assms lease_lookup_mem [OF assms(1)] by (auto simp: for_pair_iff)
  then have "lease_lookup m i (snd (reclaim_lease e m' i' w ttl md y s)) = Some l"
    by (intro lookup_other_row [OF reclaim_leases(2) _ assms(1)]) auto
  then show ?thesis using assms(1) Some by (simp add: acquire_commit_def lease_lookup_def)
qed

lemma flight_holds:
  assumes "flight_step lid until sr sr'" "holds_lease m i l sr"
    and l: "l_id l = lid" "l_status l = LS_LEASED" "l_expires_at l = until"
  shows "holds_lease m i l sr'"
  using assms(1,2)
proof (induction rule: flight_step.induct)
  case (write_row m' i' x rs e s w ttl md)
  have look: "lease_lookup m i s = Some l" and rs: "\<And>x. (m, i, x) \<in> set rs \<Longrightarrow> x = Some l"
    using write_row.prems by (auto simp: holds_lease_def)
  have "lease_lookup m i (snd (acquire_commit e m' i' w ttl md x s)) = Some l"
  proof (cases "(m', i') = (m, i)")
    case True
    then have "x = Some l" using rs write_row.hyps(1) by simp
    moreover have "lease_active (py_now e) l" using l write_row.hyps(2) by (simp add: lease_active_def)
    ultimately show ?thesis using commit_active [of e l m' i' w ttl md s] look by (simp add: lease_lookup_def)
  qed (rule commit_other [OF look])
  then show ?case using rs by (auto simp: holds_lease_def dest: notin_set_remove1 set_remove1_subset [THEN subsetD])
next
  case (complete_other k s rs e)
  then show ?case using l by (auto simp: holds_lease_def intro!: lookup_other_row [OF complete_leases])
next
  case (fail_other k s rs e err)
  have "lease_lookup m i (snd (fail_lease e k err s)) = Some l"
  proof (cases "find (\<lambda>l. l_id l = k) (ar_leases s)")
    case None
    then show ?thesis using fail_other.prems by (simp add: fail_lease_def holds_lease_def)
  next
    case (Some row)
    show ?thesis
      by (rule lookup_other_row [OF fail_leases [OF Some]]) (use fail_other l in \<open>auto simp: holds_lease_def\<close>)
  qed
  then show ?case using fail_other.prems by (simp add: holds_lease_def)
next
  case (park_other k s rs e why)
  then show ?case using l by (auto simp: holds_lease_def intro!: lookup_other_row [OF park_leases])
next
  case (recover_early e t s rs)
  then show ?case using l by (auto simp: holds_lease_def stale_lease_def intro!: lookup_other_row [OF recover_leases])
qed (auto simp: holds_lease_def detect_starvation_def Let_def lease_lookup_def)

text \<open>
  C2: A granted lease is exclusive. When \<open>acquire_lease\<close> returns a lease, the stored row for the
  pair is leased by the caller until the database time of the grant plus the time to live, with at
  most \<open>MAX_ATTEMPTS\<close> attempts. The row stays exactly so along any later steps of workers with clocks
  before that expiry that do not report on this lease, reads and writes of acquisitions interleaved
  at will; and at every such point a new acquisition of the pair, and the write of every acquisition
  begun since, returns nothing and changes no lease. One thing is required: at the time of the grant no other
  acquisition of the pair is between its read and its write (\<open>acquire_race\<close> shows what happens then).
\<close>

theorem lease_exclusive:
  assumes "leases_wf s" and "acquire_lease e m i w ttl md s = (Some q, s')"
    and "\<forall>(m', i', x)\<in>set rs. (m', i') \<noteq> (m, i)"
    and "(flight_step (ql_lease_id q) (db_now e + secs ttl))\<^sup>*\<^sup>* (s', rs) (t, rs')"
    and "py_now e2 < db_now e + secs ttl"
  shows "leases_wf s'
    \<and> (\<exists>l. lease_lookup m i s' = Some l \<and> lease_lookup m i t = Some l \<and> l_id l = ql_lease_id q \<and> l_worker l = w
          \<and> l_status l = LS_LEASED \<and> l_expires_at l = db_now e + secs ttl \<and> l_attempts l = ql_attempts q
          \<and> l_attempts l \<le> ARBITER_MAX_ATTEMPTS)
    \<and> fst (acquire_lease e2 m i w2 ttl2 md2 t) = None
    \<and> ar_leases (snd (acquire_lease e2 m i w2 ttl2 md2 t)) = ar_leases t
    \<and> (\<forall>x. (m, i, x) \<in> set rs' \<longrightarrow> fst (acquire_commit e2 m i w2 ttl2 md2 x t) = None
         \<and> ar_leases (snd (acquire_commit e2 m i w2 ttl2 md2 x t)) = ar_leases t)"
proof -
  have wf: "leases_wf s'" using acquire_wf [OF assms(1), of e m i w ttl md] assms(2) by simp
  obtain l where l: "lease_lookup m i s' = Some l" "l_id l = ql_lease_id q" "l_worker l = w"
      "l_status l = LS_LEASED" "l_attempts l = ql_attempts q" "l_expires_at l = db_now e + secs ttl"
    using acquire_row [OF assms(1,2)] by blast
  have "holds_lease m i l (s', rs)" using l(1) assms(3) by (auto simp: holds_lease_def)
  with assms(4) have "holds_lease m i l (t, rs')"
    by (induction rule: rtranclp_induct) (auto intro: flight_holds [OF _ _ l(2,4,6)])
  then have t: "lease_lookup m i t = Some l" "\<And>x. (m, i, x) \<in> set rs' \<Longrightarrow> x = Some l" by (auto simp: holds_lease_def)
  have act: "lease_active (py_now e2) l" using l assms(5) by (simp add: lease_active_def)
  have "l_attempts l \<le> ARBITER_MAX_ATTEMPTS" using wf lease_lookup_mem [OF l(1)] by (simp add: leases_wf_def)
  then show ?thesis
    using wf l t acquire_active [OF t(1) act, of w2 ttl2 md2] commit_active [OF act, of m i w2 ttl2 md2 t] by auto
qed

definition zero_metrics :: arbiter_metrics where
  "zero_metrics = \<lparr>m_leases_acquired = 0, m_lease_conflicts = 0, m_completions = 0, m_failures = 0,
     m_retries = 0, m_dead_letters = 0, m_recoveries = 0, m_deduplication_hits = 0,
     m_queue_starvation = 0, m_latency_samples = []\<rparr>"

definition sample_lease :: "lease_status \<Rightarrow> int \<Rightarrow> time \<Rightarrow> lease_row" where
  "sample_lease st n t =
     \<lparr>l_id = 7, l_message = 1, l_intent = ''payment'', l_worker = ''w0'', l_status = st, l_attempts = n,
      l_leased_at = 0, l_expires_at = t, l_completed_at = None, l_retry_after = None, l_updated_at = 0,
      l_last_error = None, l_metadata = []\<rparr>"

definition sample_arbiter :: "lease_row list \<Rightarrow> arb_state" where
  "sample_arbiter ls = \<lparr>ar_leases = ls, ar_next = 8, ar_queue = sample_queue,
     ar_metrics = zero_metrics, ar_bus = empty_bus\<rparr>"

lemma sample_arbiter_wf: "1 \<le> n \<Longrightarrow> n \<le> 5 \<Longrightarrow> leases_wf (sample_arbiter [sample_lease st n t])"
  by (simp add: leases_wf_def sample_arbiter_def sample_lease_def ARBITER_MAX_ATTEMPTS_def)

lemma sample_acquire:
  "acquire_lease (env_at 100) 1 ''payment'' ''w1'' 120 [] (sample_arbiter []) =
    (Some (mk_lease (env_at 100) 8 1 ''payment'' ''w1'' 1 []),
     snd (acquire_lease (env_at 100) 1 ''payment'' ''w1'' 120 [] (sample_arbiter [])))"
  by (simp add: acquire_lease_def acquire_commit_def lease_lookup_def sample_arbiter_def insert_lease_def
      has_row_def sample_queue_def sample_msg_def)

theorem lease_exclusive_witness:
  "let s' = snd (acquire_lease (env_at 100) 1 ''payment'' ''w1'' 120 [] (sample_arbiter []));
       t = snd (acquire_commit (env_at 150) 1 ''payment'' ''w3'' 120 [] (lease_lookup 1 ''payment'' s') s')
   in fst (acquire_lease (env_at 200) 1 ''payment'' ''w2'' 120 [] t) = None"
proof -
  let ?s' = "snd (acquire_lease (env_at 100) 1 ''payment'' ''w1'' 120 [] (sample_arbiter []))"
  let ?x = "lease_lookup 1 ''payment'' ?s'"
  let ?t = "snd (acquire_commit (env_at 150) 1 ''payment'' ''w3'' 120 [] ?x ?s')"
  let ?step = "flight_step (ql_lease_id (mk_lease (env_at 100) 8 1 ''payment'' ''w1'' 1 [])) (db_now (env_at 100) + secs 120)"
  have wf: "leases_wf (sample_arbiter [])" by (simp add: leases_wf_def sample_arbiter_def)
  have "?step (?s', []) (?s', [(1, ''payment'', ?x)])" by (rule read_row)
  moreover have "?step (?s', [(1, ''payment'', ?x)]) (?t, remove1 (1, ''payment'', ?x) [(1, ''payment'', ?x)])"
    by (rule write_row) (simp_all add: secs_def)
  ultimately have "?step\<^sup>*\<^sup>* (?s', []) (?t, remove1 (1, ''payment'', ?x) [(1, ''payment'', ?x)])" by (rule converse_rtranclp_into_rtranclp [OF _ r_into_rtranclp])
  from lease_exclusive [OF wf sample_acquire _ this, of "env_at 200" "''w2''" 120 "[]"]
  show ?thesis by (simp add: secs_def Let_def)
qed

text \<open>
  A completed pair is never leased again, as long as only a lease that is
  still held is reported failed or dead. Along any sequence of acquisitions,
  completions, recoveries, starvation checks, queue changes and failure reports of
  held leases, a completed lease stays completed, and afterwards \<open>acquire_lease\<close>
  for the pair returns nothing and changes no lease.
\<close>

theorem completed_never_releases:
  assumes "leases_wf s" and "lease_state s (m, i) = Some LS_COMPLETED" and "lease_step\<^sup>*\<^sup>* s t"
  shows "lease_state t (m, i) = Some LS_COMPLETED
    \<and> fst (acquire_lease e m i w ttl md t) = None
    \<and> ar_leases (snd (acquire_lease e m i w ttl md t)) = ar_leases t"
proof -
  have "wf_lease_step\<^sup>*\<^sup>* s t" using wf_run [OF assms(3,1)] by simp
  from lease_machine.final_stays [OF this assms(2)]
  have "lease_state t (m, i) = Some LS_COMPLETED" by simp
  with acquire_closed [of t m i] show ?thesis by simp
qed

theorem completed_never_releases_witness:
  "fst (acquire_lease (env_at 900) 1 ''payment'' ''w2'' 120 []
     (snd (recover_stale_leases (env_at 800) 120 (sample_arbiter [sample_lease LS_COMPLETED 2 500])))) = None"
proof -
  let ?s = "sample_arbiter [sample_lease LS_COMPLETED 2 500]"
  have c: "lease_state ?s (1, ''payment'') = Some LS_COMPLETED"
    by (simp add: lease_state_def sample_arbiter_def sample_lease_def l_pair_def)
  have "lease_step\<^sup>*\<^sup>* ?s (snd (recover_stale_leases (env_at 800) 120 ?s))"
    by (rule r_into_rtranclp) (rule lease_step.recover)
  from completed_never_releases [OF sample_arbiter_wf c this, of "env_at 900" "''w2''" 120 "[]"]
  show ?thesis by simp
qed

lemma reclaim_grants:
  assumes "lease_lookup m i s = Some l" "l_attempts x < ARBITER_MAX_ATTEMPTS" "\<not> raises e 1"
  shows "\<exists>q s'. reclaim_lease e m i w ttl md x s = (Some q, s') \<and> ql_lease_id q = l_id l
    \<and> lease_lookup m i s' = Some (reclaimed_row e w (l_attempts x + 1) ttl md l)"
  using assms lease_lookup_mem [OF assms(1)]
  by (simp add: reclaim_lease_def Let_def lease_lookup_def for_pair_iff find_update_where_key mk_lease_def)

lemma acquire_commit_expired:
  "l_status x \<notin> {LS_COMPLETED, LS_DEAD_LETTER} \<Longrightarrow> \<not> lease_active (py_now e) x \<Longrightarrow>
    acquire_commit e m i w ttl md (Some x) s = reclaim_lease e m i w ttl md x s"
  by (auto simp: acquire_commit_def)

lemma insert_race:
  "fst (insert_lease e1 m i w1 ttl1 md1 s) \<noteq> None \<Longrightarrow>
    fst (insert_lease e2 m i w2 ttl2 md2 (snd (insert_lease e1 m i w1 ttl1 md1 s))) = None"
  by (auto simp: insert_lease_def Let_def has_row_def for_pair_def split: if_splits)

text \<open>
  What the interleaving of two acquisitions gives. Two workers read the lease
  row of a pair before either writes. If there is no row, at most one of the two
  inserts is granted. If the row is an expired or failed lease below the attempt
  limit, both updates are granted, under the same lease id: the reclaim path does
  not repeat its check in the update.
\<close>

theorem acquire_race:
  assumes "\<not> raises e1 1" and "\<not> raises e2 1"
  shows "let x = lease_lookup m i s;
             (r1, s1) = acquire_commit e1 m i w1 ttl1 md1 x s;
             (r2, s2) = acquire_commit e2 m i w2 ttl2 md2 x s1
         in (x = None \<longrightarrow> r1 = None \<or> r2 = None)
          \<and> (\<forall>l. x = Some l \<and> l_status l \<notin> {LS_COMPLETED, LS_DEAD_LETTER} \<and> \<not> lease_active (py_now e1) l
                \<and> \<not> lease_active (py_now e2) l \<and> l_attempts l < ARBITER_MAX_ATTEMPTS \<longrightarrow>
                (\<exists>q1 q2. r1 = Some q1 \<and> r2 = Some q2 \<and> ql_lease_id q1 = l_id l \<and> ql_lease_id q2 = l_id l))"
proof (cases "lease_lookup m i s")
  case None
  moreover have "fst (insert_lease e1 m i w1 ttl1 md1 s) = None \<or>
      fst (insert_lease e2 m i w2 ttl2 md2 (snd (insert_lease e1 m i w1 ttl1 md1 s))) = None"
    by (cases "fst (insert_lease e1 m i w1 ttl1 md1 s) = None", simp, rule disjI2, rule insert_race, assumption)
  ultimately show ?thesis by (simp add: Let_def split_def acquire_commit_def)
next
  case (Some l)
  show ?thesis
  proof (cases "l_status l \<notin> {LS_COMPLETED, LS_DEAD_LETTER} \<and> \<not> lease_active (py_now e1) l
                \<and> \<not> lease_active (py_now e2) l \<and> l_attempts l < ARBITER_MAX_ATTEMPTS")
    case True
    obtain q1 s1 where 1: "acquire_commit e1 m i w1 ttl1 md1 (Some l) s = (Some q1, s1)" "ql_lease_id q1 = l_id l"
        "lease_lookup m i s1 = Some (reclaimed_row e1 w1 (l_attempts l + 1) ttl1 md1 l)"
      using reclaim_grants [OF Some _ assms(1), of l w1 ttl1 md1] acquire_commit_expired [of l e1] True by auto
    obtain q2 s2 where 2: "acquire_commit e2 m i w2 ttl2 md2 (Some l) s1 = (Some q2, s2)" "ql_lease_id q2 = l_id l"
      using reclaim_grants [OF 1(3) _ assms(2), of l w2 ttl2 md2] acquire_commit_expired [of l e2] True by auto
    show ?thesis using Some 1 2 by simp
  qed (use Some in \<open>auto simp: Let_def split_def\<close>)
qed

theorem acquire_race_witness:
  "let s = sample_arbiter [sample_lease LS_LEASED 1 500];
       (r1, s1) = acquire_commit (env_at 600) 1 ''payment'' ''w1'' 120 [] (lease_lookup 1 ''payment'' s) s;
       (r2, s2) = acquire_commit (env_at 600) 1 ''payment'' ''w2'' 120 [] (lease_lookup 1 ''payment'' s) s1
   in \<exists>q1 q2. r1 = Some q1 \<and> r2 = Some q2 \<and> ql_lease_id q1 = ql_lease_id q2"
proof -
  let ?s = "sample_arbiter [sample_lease LS_LEASED 1 500]"
  have l: "lease_lookup 1 ''payment'' ?s = Some (sample_lease LS_LEASED 1 500)"
    by (simp add: lease_lookup_def sample_arbiter_def sample_lease_def for_pair_def)
  note r = acquire_race [of "env_at 600" "env_at 600" 1 "''payment''" ?s "''w1''" 120 "[]" "''w2''" 120 "[]"]
  have g: "l_status (sample_lease LS_LEASED 1 500) \<notin> {LS_COMPLETED, LS_DEAD_LETTER}
      \<and> \<not> lease_active (py_now (env_at 600)) (sample_lease LS_LEASED 1 500)
      \<and> l_attempts (sample_lease LS_LEASED 1 500) < ARBITER_MAX_ATTEMPTS"
    by (simp add: lease_active_def sample_lease_def ARBITER_MAX_ATTEMPTS_def)
  show ?thesis
    using r g unfolding l Let_def split_def by fastforce
qed

text \<open>
  A late failure report reopens a completed lease. \<open>fail_lease\<close> looks neither
  at the status of the lease nor at its holder: called on a completed lease with
  attempts left, for instance by a worker whose lease expired and was reclaimed and
  completed by another, it makes the pair available again and the next acquisition
  is granted, although a completed lease is documented as a permanent guard.
\<close>

theorem late_failure_reopens:
  assumes "leases_wf s" and "lease_lookup m i s = Some l" and "l_status l = LS_COMPLETED"
    and "l_attempts l < ARBITER_MAX_ATTEMPTS" and "db_ok e" and "db_ok e2"
  shows "lease_state (snd (fail_lease e (l_id l) err s)) (m, i) = Some LS_FAILED
    \<and> fst (acquire_lease e2 m i w ttl md (snd (fail_lease e (l_id l) err s))) \<noteq> None"
proof -
  let ?t = "snd (fail_lease e (l_id l) err s)"
  have lm: "l \<in> set (ar_leases s)" "l_pair l = (m, i)" using lease_lookup_mem [OF assms(2)] by simp_all
  have byid: "find (\<lambda>r. l_id r = l_id l) (ar_leases s) = Some l"
    using find_key_unique [of l_id "ar_leases s" l] assms(1) lm(1) by (simp add: leases_wf_def)
  obtain l' where l': "lease_lookup m i ?t = Some l'" "l_status l' = LS_FAILED" "l_attempts l' = l_attempts l"
    using assms(2,4,5) lm(2)
    by (simp add: fail_leases [OF byid] lease_lookup_def for_pair_iff find_update_where_key db_ok_raises db_ok_pool)
  then have "acquire_lease e2 m i w ttl md ?t = reclaim_lease e2 m i w ttl md l' ?t"
    using assms(6) by (simp add: acquire_lease_def acquire_commit_expired lease_active_def db_ok_raises db_ok_pool)
  moreover have "fst (reclaim_lease e2 m i w ttl md l' ?t) \<noteq> None"
    using reclaim_grants [OF l'(1), of l' e2 w ttl md] l'(3) assms(4,6) by (auto simp: db_ok_raises)
  ultimately show ?thesis using l' by (simp add: lease_state_lookup)
qed

theorem late_failure_reopens_witness:
  "fst (acquire_lease (env_at 900) 1 ''payment'' ''w3'' 120 []
     (snd (fail_lease (env_at 800) 7 ''late'' (sample_arbiter [sample_lease LS_COMPLETED 2 500])))) \<noteq> None"
proof -
  let ?s = "sample_arbiter [sample_lease LS_COMPLETED 2 500]"
  have l: "lease_lookup 1 ''payment'' ?s = Some (sample_lease LS_COMPLETED 2 500)"
    by (simp add: lease_lookup_def sample_arbiter_def sample_lease_def for_pair_def)
  have f: "l_status (sample_lease LS_COMPLETED 2 500) = LS_COMPLETED" "l_attempts (sample_lease LS_COMPLETED 2 500) = 2"
      "l_id (sample_lease LS_COMPLETED 2 500) = 7"
    by (simp_all add: sample_lease_def)
  from late_failure_reopens [OF sample_arbiter_wf l f(1), of "env_at 800" "env_at 900" "''late''" "''w3''" 120 "[]"]
  show ?thesis by (simp add: f ARBITER_MAX_ATTEMPTS_def)
qed

text \<open>
  A message is processed once per intent. If \<open>arbitrated_process\<close> returns the
  handler's value, the handler leaves the lease table alone and the completion is
  stored, then the pair is completed and every later call for it returns nothing
  without running its handler, whichever handler it is given.
\<close>

theorem processed_once:
  assumes "leases_wf s"
    and "arbitrated_process e1 e2 lat m i w h ttl md s = (Some r, s')"
    and "\<And>q t. ar_leases (snd (h q t)) = ar_leases t" and "db_ok e2"
  shows "lease_state s' (m, i) = Some LS_COMPLETED
    \<and> arbitrated_process e3 e4 lat2 m i w2 h2 ttl2 md2 s' = (None, snd (acquire_lease e3 m i w2 ttl2 md2 s'))"
proof -
  obtain q s1 where a: "acquire_lease e1 m i w ttl md s = (Some q, s1)"
    using assms(2) by (auto simp: arbitrated_process_def split: prod.splits option.splits)
  obtain s2 where h: "h q s1 = (Inr r, s2)"
      and s': "s' = metric (record_latency lat) (snd (complete_lease e2 (ql_lease_id q) s2))"
    using assms(2) a by (auto simp: arbitrated_process_def split: prod.splits option.splits sum.splits)
  obtain l where l: "lease_lookup m i s1 = Some l" "l_id l = ql_lease_id q"
    using acquire_row [OF assms(1) a] by blast
  have "ar_leases s2 = ar_leases s1" using assms(3) [of q s1] h by simp
  then have "find (\<lambda>l. l_pair l = (m, i)) (ar_leases s2) = Some l"
    using l(1) by (simp add: lease_lookup_def for_pair_iff)
  then have c: "lease_state s' (m, i) = Some LS_COMPLETED"
    using assms(4) l(2)
    by (simp add: s' lease_state_def complete_leases find_update_where_key db_ok_raises db_ok_pool)
  then have "fst (acquire_lease e3 m i w2 ttl2 md2 s') = None" using acquire_closed [of s' m i] by blast
  then have "acquire_lease e3 m i w2 ttl2 md2 s' = (None, snd (acquire_lease e3 m i w2 ttl2 md2 s'))"
    by (metis prod.collapse)
  then have "arbitrated_process e3 e4 lat2 m i w2 h2 ttl2 md2 s' = (None, snd (acquire_lease e3 m i w2 ttl2 md2 s'))"
    unfolding arbitrated_process_def by (rule ssubst) simp
  with c show ?thesis by blast
qed

theorem processed_once_witness:
  "\<exists>s'. arbitrated_process (env_at 100) (env_at 150) 50 1 ''payment'' ''w1'' (\<lambda>q t. (Inr (5 :: int), t)) 120 []
        (sample_arbiter []) = (Some 5, s')
    \<and> fst (arbitrated_process (env_at 900) (env_at 950) 50 1 ''payment'' ''w2'' (\<lambda>q t. (Inr (6 :: int), t)) 120 [] s') = None"
proof -
  have wf: "leases_wf (sample_arbiter [])" by (simp add: leases_wf_def sample_arbiter_def)
  let ?h = "\<lambda>q t. (Inr (5 :: int), t) :: (string + int) \<times> arb_state"
  let ?p = "arbitrated_process (env_at 100) (env_at 150) 50 1 ''payment'' ''w1'' ?h 120 [] (sample_arbiter [])"
  have "fst ?p = Some 5"
    by (subst arbitrated_process_def, subst sample_acquire) simp
  then have p: "?p = (Some 5, snd ?p)" by (metis prod.collapse)
  from processed_once [OF wf p, of "env_at 900" "env_at 950" 50 "''w2''" "\<lambda>q t. (Inr (6 :: int), t)" 120 "[]"]
  have "fst (arbitrated_process (env_at 900) (env_at 950) 50 1 ''payment'' ''w2'' (\<lambda>q t. (Inr (6 :: int), t)) 120 [] (snd ?p)) = None"
    by simp
  with p show ?thesis by blast
qed

end
