(* ===== verification/Runtime_Gateway.thy ===== *)
theory Runtime_Gateway
  imports Message_Queue
begin

text \<open>
  The registry of running processes, \<open>shared/runtime_gateway.py\<close>, over the table
  \<open>fazle_runtime_nodes\<close> (primary key \<open>node_id\<close>) and, for the release of a dead
  node's work, the message queue. The host name and process id are arguments. One
  turn of the heartbeat loop is \<open>heartbeat_cycle\<close>; sleeping, and creating and
  cancelling the task, are not modelled.
\<close>

datatype node_status = N_online | N_offline | N_degraded

record node_row =
  nd_id :: string
  nd_app :: string
  nd_role :: string
  nd_status :: node_status
  nd_last_seen :: time
  nd_registered_at :: time
  nd_version :: string
  nd_active :: int
  nd_depth :: int
  nd_metadata :: payload

record gateway =
  gw_nodes :: "node_row list"
  gw_queue :: queue_db
  gw_bus :: bus
  gw_active :: "string option"

definition STALE_THRESHOLD_S :: int where "STALE_THRESHOLD_S = 90"
definition STALE_SWEEP_EVERY :: nat where "STALE_SWEEP_EVERY = 3"

definition make_node_id :: "string \<Rightarrow> int \<Rightarrow> string \<Rightarrow> string" where
  "make_node_id hostname pid app =
     app @ ''-'' @ take 20 (takeWhile (\<lambda>c. c \<noteq> CHR ''.'') hostname) @ ''-'' @ show_int pid"

definition gw_emit :: "env \<Rightarrow> string \<Rightarrow> payload \<Rightarrow> gateway \<Rightarrow> gateway" where
  "gw_emit e et pl g = g\<lparr>gw_bus := emit e et pl ''runtime_gateway'' (gw_bus g)\<rparr>"

definition register_node ::
  "env \<Rightarrow> string \<Rightarrow> int \<Rightarrow> string \<Rightarrow> string \<Rightarrow> string \<Rightarrow> payload \<Rightarrow> gateway \<Rightarrow> string \<times> gateway" where
  "register_node e hostname pid app role version md g =
     (let i = make_node_id hostname pid app
      in (i, if \<not> has_pool e \<or> raises e 0 then g
             else gw_emit e ''node_online''
                    [(''node_id'', JStr i), (''app_name'', JStr app), (''role'', JStr role), (''version'', JStr version)]
                    (g\<lparr>gw_nodes :=
                       (if has_row (\<lambda>n. nd_id n = i) (gw_nodes g)
                        then update_where (\<lambda>n. nd_id n = i)
                               (\<lambda>n. n\<lparr>nd_status := N_online, nd_last_seen := db_now e, nd_version := version,
                                      nd_role := role, nd_metadata := md\<rparr>) (gw_nodes g)
                        else gw_nodes g @
                               [\<lparr>nd_id = i, nd_app = app, nd_role = role, nd_status = N_online,
                                 nd_last_seen = db_now e, nd_registered_at = db_now e, nd_version = version,
                                 nd_active = 0, nd_depth = 0, nd_metadata = md\<rparr>])\<rparr>)))"

definition heartbeat :: "env \<Rightarrow> string \<Rightarrow> int \<Rightarrow> int \<Rightarrow> gateway \<Rightarrow> bool \<times> gateway" where
  "heartbeat e i active depth g =
     (if \<not> has_pool e \<or> raises e 0 then (False, g)
      else (has_row (\<lambda>n. nd_id n = i) (gw_nodes g),
            g\<lparr>gw_nodes := update_where (\<lambda>n. nd_id n = i)
                (\<lambda>n. n\<lparr>nd_last_seen := db_now e, nd_status := N_online, nd_active := active, nd_depth := depth\<rparr>)
                (gw_nodes g)\<rparr>))"

definition deregister_node :: "env \<Rightarrow> string \<Rightarrow> gateway \<Rightarrow> gateway" where
  "deregister_node e i g =
     (if \<not> has_pool e \<or> raises e 0 then g
      else gw_emit e ''node_offline'' [(''node_id'', JStr i), (''reason'', JStr ''clean_shutdown'')]
             (g\<lparr>gw_nodes := update_where (\<lambda>n. nd_id n = i) (\<lambda>n. n\<lparr>nd_status := N_offline\<rparr>) (gw_nodes g)\<rparr>))"

definition claimed_by :: "string \<Rightarrow> qmsg \<Rightarrow> bool" where
  "claimed_by i m \<longleftrightarrow> q_processor_id m = Some i \<and> q_status m \<in> {Q_processing, Q_pending}"

definition released_msg :: "qmsg \<Rightarrow> qmsg" where
  "released_msg m = m\<lparr>q_status := Q_pending, q_processor_id := None, q_attempts := min (q_attempts m) 2\<rparr>"

definition release_claimed_queue_items :: "env \<Rightarrow> string \<Rightarrow> gateway \<Rightarrow> gateway" where
  "release_claimed_queue_items e i g =
     (if raises e 0 then g
      else let n = count_where (claimed_by i) (mq_rows (gw_queue g));
               g1 = g\<lparr>gw_queue := (gw_queue g)\<lparr>mq_rows :=
                       update_where (claimed_by i) released_msg (mq_rows (gw_queue g))\<rparr>\<rparr>
           in if n > 0 then gw_emit e ''queue_pressure''
                              [(''node_id'', JStr i), (''released_items'', JInt (int n)), (''reason'', JStr ''node_offline'')] g1
              else g1)"

definition stale_node :: "env \<Rightarrow> int \<Rightarrow> node_row \<Rightarrow> bool" where
  "stale_node e stale_after n \<longleftrightarrow> nd_status n = N_online \<and> nd_last_seen n < db_now e - secs stale_after"

definition retire_node :: "env \<Rightarrow> (string \<Rightarrow> env) \<Rightarrow> node_row \<Rightarrow> gateway \<Rightarrow> gateway" where
  "retire_node e er n g =
     release_claimed_queue_items (er (nd_id n)) (nd_id n)
       (gw_emit e ''node_offline''
          [(''node_id'', JStr (nd_id n)), (''app_name'', JStr (nd_app n)), (''reason'', JStr ''stale_heartbeat''),
           (''queue_depth_at_offline'', JInt (nd_depth n))] g)"

definition mark_stale_nodes :: "env \<Rightarrow> (string \<Rightarrow> env) \<Rightarrow> int \<Rightarrow> gateway \<Rightarrow> string list \<times> gateway" where
  "mark_stale_nodes e er stale_after g =
     (if \<not> has_pool e \<or> raises e 0 then ([], g)
      else let rows = filter (stale_node e stale_after) (gw_nodes g);
               g1 = g\<lparr>gw_nodes := update_where (stale_node e stale_after) (\<lambda>n. n\<lparr>nd_status := N_offline\<rparr>) (gw_nodes g)\<rparr>
           in (map nd_id rows, fold (retire_node e er) rows g1))"

definition get_active_nodes :: "env \<Rightarrow> (node_row list \<Rightarrow> node_row list) \<Rightarrow> gateway \<Rightarrow> (node_row \<times> time) list" where
  \<comment> \<open>\<open>order_rows\<close> is the database's \<open>ORDER BY app_name, node_id\<close>, whose collation is the server's\<close>
  "get_active_nodes e order_rows g =
     (if \<not> has_pool e \<or> raises e 0 then []
      else map (\<lambda>n. (n, py_now e - nd_last_seen n)) (order_rows (gw_nodes g)))"

record loop_state =
  lp_cycle :: nat
  lp_failures :: nat

definition heartbeat_cycle ::
  "env \<Rightarrow> env \<Rightarrow> (string \<Rightarrow> env) \<Rightarrow> string \<Rightarrow> int \<Rightarrow> int \<Rightarrow> loop_state \<Rightarrow> gateway \<Rightarrow> loop_state \<times> gateway" where
  "heartbeat_cycle e es er i active depth l g =
     (let c = lp_cycle l + 1;
          (ok, g1) = heartbeat e i active depth g;
          f = (if ok then 0 else lp_failures l + 1);
          g2 = (if ok
                then if lp_failures l > 0
                     then gw_emit e ''ws_recovered'' [(''node_id'', JStr i), (''after_failures'', JInt (int (lp_failures l)))] g1
                     else g1
                else if f \<ge> 3
                     then gw_emit e ''reconnecting'' [(''node_id'', JStr i), (''consecutive_failures'', JInt (int f))] g1
                     else g1);
          g3 = (if c mod STALE_SWEEP_EVERY = 0 then snd (mark_stale_nodes es er STALE_THRESHOLD_S g2) else g2)
      in (\<lparr>lp_cycle = c, lp_failures = f\<rparr>, g3))"

definition start_gateway ::
  "env \<Rightarrow> string \<Rightarrow> int \<Rightarrow> string \<Rightarrow> string \<Rightarrow> string \<Rightarrow> payload \<Rightarrow> gateway \<Rightarrow> string \<times> loop_state \<times> gateway" where
  "start_gateway e hostname pid app role version md g =
     (let (i, g1) = register_node e hostname pid app role version md g
      in (i, \<lparr>lp_cycle = 0, lp_failures = 0\<rparr>, g1\<lparr>gw_active := Some i\<rparr>))"

definition stop_gateway :: "env \<Rightarrow> gateway \<Rightarrow> gateway" where
  "stop_gateway e g = (case gw_active g of None \<Rightarrow> g
     | Some i \<Rightarrow> if i = '''' then g else (deregister_node e i g)\<lparr>gw_active := None\<rparr>)"

subsection \<open>Release of a dead node's work\<close>

lemma gw_emit_frame [simp]:
  "gw_nodes (gw_emit e t p g) = gw_nodes g" "gw_queue (gw_emit e t p g) = gw_queue g"
  "gw_active (gw_emit e t p g) = gw_active g"
  by (simp_all add: gw_emit_def)

lemma release_queue:
  "\<not> raises e 0 \<Longrightarrow> mq_rows (gw_queue (release_claimed_queue_items e i g)) =
     update_where (claimed_by i) released_msg (mq_rows (gw_queue g))"
  "gw_nodes (release_claimed_queue_items e i g) = gw_nodes g"
  by (simp_all add: release_claimed_queue_items_def Let_def)

lemma released_msg_simps [simp]:
  "q_id (released_msg m) = q_id m" "\<not> claimed_by i (released_msg m)"
  by (simp_all add: released_msg_def claimed_by_def)

lemma retire_node_frame:
  "\<not> raises (er (nd_id n)) 0 \<Longrightarrow> mq_rows (gw_queue (retire_node e er n g)) =
     update_where (claimed_by (nd_id n)) released_msg (mq_rows (gw_queue g))"
  "gw_nodes (retire_node e er n g) = gw_nodes g"
  by (simp_all add: retire_node_def release_queue)

lemma retire_all_queue:
  assumes "\<And>i. \<not> raises (er i) 0"
  shows "mq_rows (gw_queue (fold (retire_node e er) rows g)) =
    update_where (\<lambda>m. \<exists>n\<in>set rows. claimed_by (nd_id n) m) released_msg (mq_rows (gw_queue g))"
proof (induction rows arbitrary: g)
  case Nil
  show ?case by (simp add: update_where_none)
next
  case (Cons n rows)
  have "update_where (\<lambda>m. \<exists>n\<in>set rows. claimed_by (nd_id n) m) released_msg (update_where (claimed_by (nd_id n)) released_msg t)
      = update_where (\<lambda>m. \<exists>k\<in>set (n # rows). claimed_by (nd_id k) m) released_msg t" for t
    by (induction t) auto
  then show ?case by (simp only: fold_simps o_apply Cons.IH retire_node_frame(1) [OF assms])
qed

lemma retire_all_nodes: "gw_nodes (fold (retire_node e er) rows g) = gw_nodes g"
  by (induction rows arbitrary: g) (simp_all add: retire_node_frame)

text \<open>
  A silent node is retired and its work becomes available again. When the
  statements of the sweep succeed, \<open>mark_stale_nodes\<close> returns the online nodes not
  heard of for the given time and marks exactly these offline; every queue message
  they had claimed is pending, unassigned and below the attempt limit, so a later
  claim can take it; and every other message is unchanged.
\<close>

theorem stale_work_released:
  assumes "distinct (map nd_id (gw_nodes g))" and "queue_wf (gw_queue g)"
    and "db_ok e" and "\<And>i. \<not> raises (er i) 0"
  shows "let (ids, g') = mark_stale_nodes e er stale_after g;
             dead = (\<lambda>m. \<exists>i\<in>set ids. claimed_by i m)
         in ids = map nd_id (filter (stale_node e stale_after) (gw_nodes g))
          \<and> (\<forall>n\<in>set (gw_nodes g). find (\<lambda>k. nd_id k = nd_id n) (gw_nodes g') =
                Some (if stale_node e stale_after n then n\<lparr>nd_status := N_offline\<rparr> else n))
          \<and> (\<forall>m\<in>set (mq_rows (gw_queue g)). find (\<lambda>k. q_id k = q_id m) (mq_rows (gw_queue g')) =
                Some (if dead m then released_msg m else m))
          \<and> (\<forall>m\<in>set (mq_rows (gw_queue g)). dead m \<longrightarrow> eligible [] QUEUE_MAX_ATTEMPTS (released_msg m))"
proof -
  let ?rows = "filter (stale_node e stale_after) (gw_nodes g)"
  let ?g' = "snd (mark_stale_nodes e er stale_after g)"
  have ids: "fst (mark_stale_nodes e er stale_after g) = map nd_id ?rows"
    using assms(3) by (simp add: mark_stale_nodes_def Let_def db_ok_raises db_ok_pool)
  have nodes: "gw_nodes ?g' = update_where (stale_node e stale_after) (\<lambda>n. n\<lparr>nd_status := N_offline\<rparr>) (gw_nodes g)"
    using assms(3) by (simp add: mark_stale_nodes_def Let_def db_ok_raises db_ok_pool retire_all_nodes)
  have queue: "mq_rows (gw_queue ?g') =
      update_where (\<lambda>m. \<exists>n\<in>set ?rows. claimed_by (nd_id n) m) released_msg (mq_rows (gw_queue g))"
    using assms(3) by (simp add: mark_stale_nodes_def Let_def db_ok_raises db_ok_pool retire_all_queue [OF assms(4)])
  have n: "find (\<lambda>k. nd_id k = nd_id n) (gw_nodes g) = Some n" if "n \<in> set (gw_nodes g)" for n
    using find_key_unique [OF assms(1) that] .
  have m: "find (\<lambda>k. q_id k = q_id m) (mq_rows (gw_queue g)) = Some m" if "m \<in> set (mq_rows (gw_queue g))" for m
    using find_key_unique [of q_id "mq_rows (gw_queue g)" m] assms(2) that by (simp add: queue_wf_def)
  have "eligible [] QUEUE_MAX_ATTEMPTS (released_msg m)" for m
    by (simp add: eligible_def released_msg_def QUEUE_MAX_ATTEMPTS_def)
  then show ?thesis
    by (simp add: Let_def split_def ids nodes queue find_update_where_key n m)
qed

definition sample_node :: "string \<Rightarrow> time \<Rightarrow> node_row" where
  "sample_node i t = \<lparr>nd_id = i, nd_app = ''core'', nd_role = ''worker'', nd_status = N_online, nd_last_seen = t,
     nd_registered_at = 0, nd_version = ''1'', nd_active = 0, nd_depth = 0, nd_metadata = []\<rparr>"

definition sample_gateway :: gateway where
  "sample_gateway = \<lparr>gw_nodes = [sample_node ''a'' 0, sample_node ''b'' (secs 200)], gw_queue = sample_queue,
     gw_bus = empty_bus, gw_active = Some ''b''\<rparr>"

theorem stale_work_released_witness:
  "fst (mark_stale_nodes (env_at (secs 210)) (\<lambda>_. env_at (secs 210)) 90 sample_gateway) = [''a'']"
proof -
  have d: "distinct (map nd_id (gw_nodes sample_gateway))" by (simp add: sample_gateway_def sample_node_def)
  have q: "queue_wf (gw_queue sample_gateway)" using sample_queue_wf by (simp add: sample_gateway_def)
  have f: "filter (stale_node (env_at (secs 210)) 90) (gw_nodes sample_gateway) = [sample_node ''a'' 0]"
    by (simp add: sample_gateway_def sample_node_def stale_node_def secs_def)
  show ?thesis
    using stale_work_released [OF d q db_ok_env_at, of "\<lambda>_. env_at (secs 210)" "secs 210" 90] unfolding f
    by (simp add: Let_def split_def sample_node_def)
qed

subsection \<open>A heartbeat without a row\<close>

fun heartbeat_cycles ::
  "(env \<times> env \<times> (string \<Rightarrow> env) \<times> int \<times> int) list \<Rightarrow> string \<Rightarrow> loop_state \<times> gateway \<Rightarrow> loop_state \<times> gateway" where
  "heartbeat_cycles [] i lg = lg"
| "heartbeat_cycles ((e, es, er, active, depth) # turns) i lg =
     heartbeat_cycles turns i (heartbeat_cycle e es er i active depth (fst lg) (snd lg))"

lemma heartbeat_ids: "map nd_id (gw_nodes (snd (heartbeat e i a d g))) = map nd_id (gw_nodes g)"
  by (simp add: heartbeat_def map_key_update_where)

lemma mark_stale_ids: "map nd_id (gw_nodes (snd (mark_stale_nodes e er s g))) = map nd_id (gw_nodes g)"
  by (simp add: mark_stale_nodes_def Let_def retire_all_nodes map_key_update_where)

lemma cycle_ids: "map nd_id (gw_nodes (snd (heartbeat_cycle e es er i a d l g))) = map nd_id (gw_nodes g)"
  using heartbeat_ids [of e i a d g]
  by (simp add: heartbeat_cycle_def Let_def split_def mark_stale_ids)

lemma no_row_ids: "has_row (\<lambda>n. nd_id n = i) ns \<longleftrightarrow> i \<in> set (map nd_id ns)"
  by (auto simp: has_row_def list_ex_iff)

lemma cycle_no_row:
  assumes "\<not> has_row (\<lambda>n. nd_id n = i) (gw_nodes g)"
  shows "lp_failures (fst (heartbeat_cycle e es er i a d l g)) = lp_failures l + 1"
proof -
  have "\<not> fst (heartbeat e i a d g)" using assms by (simp add: heartbeat_def)
  then show ?thesis by (simp add: heartbeat_cycle_def Let_def split_def)
qed

text \<open>
  A heartbeat never registers a node. If a node has no row (its registration was
  deferred or failed, or the row is gone), every turn of the loop counts one more
  failure and no sequence of turns, whatever their environments, gives the node a row.
  A comment in \<open>register_node\<close> says that the loop will retry, and the log message of
  \<open>heartbeat\<close> that it is registering the node again.
\<close>

theorem heartbeat_never_registers:
  assumes "\<not> has_row (\<lambda>n. nd_id n = i) (gw_nodes g)"
  shows "let (l', g') = heartbeat_cycles turns i (l, g)
         in \<not> has_row (\<lambda>n. nd_id n = i) (gw_nodes g') \<and> lp_failures l' = lp_failures l + length turns"
  using assms
proof (induction turns arbitrary: l g)
  case Nil
  then show ?case by simp
next
  case (Cons t turns)
  obtain e es er a d where t: "t = (e, es, er, a, d)" by (cases t) auto
  let ?lg = "heartbeat_cycle e es er i a d l g"
  have n: "\<not> has_row (\<lambda>n. nd_id n = i) (gw_nodes (snd ?lg))"
    using Cons.prems unfolding no_row_ids cycle_ids .
  show ?case
    using Cons.IH [OF n, of "fst ?lg"] by (simp add: t split_def cycle_no_row [OF Cons.prems])
qed

theorem heartbeat_never_registers_witness:
  "lp_failures (fst (heartbeat_cycles (replicate 4 (env_at 0, env_at 0, \<lambda>_. env_at 0, 0, 0)) ''c''
     (\<lparr>lp_cycle = 0, lp_failures = 0\<rparr>, sample_gateway))) = 4"
proof -
  have n: "\<not> has_row (\<lambda>n. nd_id n = ''c'') (gw_nodes sample_gateway)"
    by (simp add: sample_gateway_def sample_node_def has_row_def)
  show ?thesis
    using heartbeat_never_registers [OF n, of "replicate 4 (env_at 0, env_at 0, \<lambda>_. env_at 0, 0, 0)" "\<lparr>lp_cycle = 0, lp_failures = 0\<rparr>"]
    by (simp add: Let_def split_def)
qed

end
