(* ===== verification/Bridge_Client.thy ===== *)
theory Bridge_Client
  imports Fazle_Prelude Event_Bus
begin

text \<open>
  The client of a WhatsApp bridge, \<open>app/bridge.py\<close>: the circuit breaker, the
  normalisation of the recipient, the marker appended to automated messages, and the
  requests a send makes. Text is its UTF-8 encoding. What the HTTP service answers is
  an argument. Times of the breaker are read from the host clock.
\<close>

subsection \<open>Circuit breaker\<close>

record breaker =
  br_threshold :: nat
  br_window :: int
  br_open_seconds :: int
  br_failures :: "time list"
  br_opened_at :: "time option"
  br_in_flight :: bool

datatype breaker_mode = B_closed | B_open | B_half_open

definition new_breaker :: breaker where
  "new_breaker = \<lparr>br_threshold = 5, br_window = 60, br_open_seconds = 60, br_failures = [],
                  br_opened_at = None, br_in_flight = False\<rparr>"

definition breaker_state :: "time \<Rightarrow> breaker \<Rightarrow> breaker_mode" where
  "breaker_state now b = (case br_opened_at b of None \<Rightarrow> B_closed
     | Some t \<Rightarrow> if now - t \<ge> secs (br_open_seconds b) then B_half_open else B_open)"

definition breaker_allow :: "time \<Rightarrow> breaker \<Rightarrow> bool \<times> breaker" where
  "breaker_allow now b = (case breaker_state now b of
       B_closed \<Rightarrow> (True, b)
     | B_open \<Rightarrow> (False, b)
     | B_half_open \<Rightarrow> if br_in_flight b then (False, b) else (True, b\<lparr>br_in_flight := True\<rparr>))"

definition record_success :: "breaker \<Rightarrow> breaker" where
  "record_success b = b\<lparr>br_failures := [], br_opened_at := None, br_in_flight := False\<rparr>"

definition record_failure :: "time \<Rightarrow> breaker \<Rightarrow> bool \<times> breaker" where
  "record_failure now b =
     (case br_opened_at b of
        Some _ \<Rightarrow> (False, b\<lparr>br_opened_at := Some now, br_in_flight := False\<rparr>)
      | None \<Rightarrow>
          let fs = filter (\<lambda>t. now - t < secs (br_window b)) (br_failures b) @ [now];
              b1 = b\<lparr>br_failures := fs\<rparr>
          in if length fs \<ge> br_threshold b then (True, b1\<lparr>br_opened_at := Some now\<rparr>) else (False, b1))"

subsection \<open>Messages\<close>

definition ends_with :: "string \<Rightarrow> string \<Rightarrow> bool" where
  "ends_with s t \<longleftrightarrow> length t \<le> length s \<and> py_suffix (length t) s = t"

fun contains :: "string \<Rightarrow> string \<Rightarrow> bool" where
  "contains pat [] = (pat = [])"
| "contains pat (c # s) = (take (length pat) (c # s) = pat \<or> contains pat s)"

definition AUTOMATED_SUFFIX_ANCHOR :: string where
  "AUTOMATED_SUFFIX_ANCHOR = map (char_of :: nat \<Rightarrow> char)
    [
     240, 159, 164, 150, 32, 65, 117, 116, 111, 109, 97, 116, 101, 100, 32, 82, 101, 112, 108, 121, 32, 83,
     121, 115, 116, 101, 109]"

definition AUTOMATED_SUFFIX :: string where
  "AUTOMATED_SUFFIX = map (char_of :: nat \<Rightarrow> char)
    [
     10, 10, 226, 148, 128, 226, 148, 128, 226, 148, 128, 226, 148, 128, 226, 148, 128, 226, 148, 128, 226,
     148, 128, 226, 148, 128, 226, 148, 128, 226, 148, 128, 226, 148, 128, 226, 148, 128, 226, 148, 128,
     226, 148, 128, 226, 148, 128, 226, 148, 128, 226, 148, 128, 10] @ AUTOMATED_SUFFIX_ANCHOR @ map (char_of :: nat \<Rightarrow> char)
    [
     10, 224, 166, 143, 224, 166, 135, 32, 224, 166, 172, 224, 166, 190, 224, 166, 176, 224, 167, 141, 224,
     166, 164, 224, 166, 190, 224, 166, 159, 224, 166, 191, 32, 224, 166, 184, 224, 167, 141, 224, 166,
     172, 224, 166, 175, 224, 166, 188, 224, 166, 130, 224, 166, 149, 224, 167, 141, 224, 166, 176, 224,
     166, 191, 224, 166, 175, 224, 166, 188, 224, 166, 173, 224, 166, 190, 224, 166, 172, 224, 167, 135,
     32, 224, 166, 164, 224, 167, 136, 224, 166, 176, 224, 166, 191, 32, 224, 166, 185, 224, 166, 175, 224,
     166, 188, 224, 167, 135, 224, 166, 155, 224, 167, 135, 224, 165, 164, 32, 224, 166, 173, 224, 167,
     129, 224, 166, 178, 32, 224, 166, 185, 224, 166, 164, 224, 167, 135, 32, 224, 166, 170, 224, 166, 190,
     224, 166, 176, 224, 167, 135, 224, 165, 164]"

definition full_jid :: "string \<Rightarrow> string" where
  "full_jid jid = (if \<not> ends_with jid ''@s.whatsapp.net'' \<and> \<not> ends_with jid ''@g.us''
     then jid @ ''@s.whatsapp.net'' else jid)"

definition mark_text :: "string \<Rightarrow> string" where
  "mark_text s = (if contains AUTOMATED_SUFFIX_ANCHOR s then s else s @ AUTOMATED_SUFFIX)"

datatype bridge_request = Send_control bool | Api_send string string | Send_status

datatype http_answer = Http_status nat | Transport_error | Other_exception

datatype send_outcome = Sent | Bridge_send_error | Send_exception

definition send_strict :: "http_answer \<Rightarrow> string \<Rightarrow> string \<Rightarrow> send_outcome \<times> bridge_request list" where
  "send_strict answer jid s =
     ((case answer of Http_status c \<Rightarrow> if c \<noteq> 200 then Bridge_send_error else Sent
         | Transport_error \<Rightarrow> Bridge_send_error | Other_exception \<Rightarrow> Send_exception),
      [Send_control True, Api_send (full_jid jid) (mark_text s), Send_control False])"

definition bridge_send :: "http_answer \<Rightarrow> string \<Rightarrow> string \<Rightarrow> bool option \<times> bridge_request list" where
  \<comment> \<open>\<open>None\<close> when an exception other than \<open>BridgeSendError\<close> leaves the method\<close>
  "bridge_send answer jid s =
     (let (r, reqs) = send_strict answer jid s
      in (case r of Sent \<Rightarrow> Some True | Bridge_send_error \<Rightarrow> Some False | Send_exception \<Rightarrow> None, reqs))"

definition send_multi :: "bool list \<Rightarrow> string \<Rightarrow> string list \<Rightarrow> bool \<times> bridge_request list" where
  \<comment> \<open>\<open>fails\<close> tells for each post whether it raises; the loop ends at the first that does\<close>
  "send_multi fails jid msgs =
     (let j = full_jid jid;
          ms = (if msgs \<noteq> [] \<and> \<not> contains AUTOMATED_SUFFIX_ANCHOR (last msgs)
                then butlast msgs @ [last msgs @ AUTOMATED_SUFFIX] else msgs);
          n = length (takeWhile (\<lambda>f. \<not> f) (take (length ms) fails));
          stopped = n < length (take (length ms) fails)
      in (\<not> stopped,
          Send_control True # map (Api_send j) (take (if stopped then n + 1 else length ms) ms) @ [Send_control False]))"

definition ensure_enabled :: "bool \<Rightarrow> (string + bool option) \<Rightarrow> bool \<times> bridge_request list" where
  \<comment> \<open>\<open>post_fails\<close>: the first request raises; \<open>net\<close>: the truth value of the reply's key \<open>allowed\<close>, if it has one\<close>
  "ensure_enabled post_fails net =
     (if post_fails then (False, [Send_control True])
      else (case net of Inl _ \<Rightarrow> False | Inr a \<Rightarrow> (case a of None \<Rightarrow> False | Some v \<Rightarrow> v),
            [Send_control True, Send_status]))"

definition client_status :: "(string + payload) \<Rightarrow> string + payload" where
  "client_status net = Inr (case net of Inl _ \<Rightarrow> [(''allowed'', JBool False), (''error'', JStr ''unreachable'')]
     | Inr j \<Rightarrow> j)"

subsection \<open>What the breaker guarantees\<close>

definition breaker_wf :: "time \<Rightarrow> breaker \<Rightarrow> bool" where
  "breaker_wf now b \<longleftrightarrow> (\<forall>t\<in>set (br_failures b). t \<le> now)"

lemma allow_open: "br_opened_at b = Some t \<Longrightarrow> now < t + secs (br_open_seconds b) \<Longrightarrow> breaker_allow now b = (False, b)"
  by (simp add: breaker_allow_def breaker_state_def)

lemma allow_half_open:
  "br_opened_at b = Some t \<Longrightarrow> t + secs (br_open_seconds b) \<le> now \<Longrightarrow>
    breaker_allow now b = (\<not> br_in_flight b, b\<lparr>br_in_flight := True\<rparr>)"
  by (cases "br_in_flight b") (simp_all add: breaker_allow_def breaker_state_def)

text \<open>
  The breaker opens on repeated failure and lets one probe through. A failure
  reported while closed opens the breaker exactly when it is at least the
  threshold-th within the window; then no send is allowed for the opening time;
  after it the first request for permission is granted and every further one refused
  until the probe's outcome is recorded; a success closes the breaker and a failure
  starts the opening time again.
\<close>

theorem breaker_correct:
  assumes "br_opened_at b = None" and "\<not> br_in_flight b"
    and "record_failure now b = (opened, b')"
  shows "(opened \<longleftrightarrow> br_threshold b \<le> Suc (count_where (\<lambda>t. now - t < secs (br_window b)) (br_failures b)))
    \<and> (\<not> opened \<longrightarrow> fst (breaker_allow later b'))
    \<and> (opened \<longrightarrow>
        (later < now + secs (br_open_seconds b) \<longrightarrow> breaker_allow later b' = (False, b'))
      \<and> (now + secs (br_open_seconds b) \<le> later \<and> later \<le> later2 \<longrightarrow>
          (let (granted, b1) = breaker_allow later b'
           in granted \<and> \<not> fst (breaker_allow later2 b1)
            \<and> fst (breaker_allow later2 (record_success b1))
            \<and> \<not> fst (breaker_allow later2 (snd (record_failure later b1))) = (later2 < later + secs (br_open_seconds b)))))"
proof -
  let ?fs = "filter (\<lambda>t. now - t < secs (br_window b)) (br_failures b)"
  have iff: "opened \<longleftrightarrow> br_threshold b \<le> Suc (length ?fs)"
    and b': "b' = b\<lparr>br_failures := ?fs @ [now], br_opened_at := (if opened then Some now else None)\<rparr>"
    using assms(1,3) by (auto simp: record_failure_def Let_def split: if_splits)
  show ?thesis
  proof (cases opened)
    case False
    then show ?thesis using iff by (simp add: b' count_where_def breaker_allow_def breaker_state_def)
  next
    case True
    have o: "br_opened_at b' = Some now" "br_open_seconds b' = br_open_seconds b" "\<not> br_in_flight b'"
      using True assms(2) by (simp_all add: b')
    have closed: "fst (breaker_allow later2 (record_success b'))" for b'
      by (simp add: record_success_def breaker_allow_def breaker_state_def)
    have probe: "let (granted, b1) = breaker_allow later b'
           in granted \<and> \<not> fst (breaker_allow later2 b1) \<and> fst (breaker_allow later2 (record_success b1))
            \<and> \<not> fst (breaker_allow later2 (snd (record_failure later b1))) = (later2 < later + secs (br_open_seconds b))"
      if "now + secs (br_open_seconds b) \<le> later" "later \<le> later2"
      using that o closed
      by (simp add: allow_half_open) (simp add: record_failure_def breaker_allow_def breaker_state_def)
    show ?thesis
      using True iff o allow_open [of b' now later] probe by (simp add: count_where_def)
  qed
qed

theorem breaker_correct_witness:
  "let b = new_breaker\<lparr>br_failures := [secs 1, secs 2, secs 3, secs 4]\<rparr>
   in fst (record_failure (secs 5) b) \<and> \<not> fst (breaker_allow (secs 30) (snd (record_failure (secs 5) b)))"
proof -
  let ?b = "new_breaker\<lparr>br_failures := [secs 1, secs 2, secs 3, secs 4]\<rparr>"
  have n: "br_opened_at ?b = None" "\<not> br_in_flight ?b" by (simp_all add: new_breaker_def)
  have c: "br_threshold ?b \<le> Suc (count_where (\<lambda>t. secs 5 - t < secs (br_window ?b)) (br_failures ?b))"
    by (simp add: new_breaker_def count_where_def secs_def)
  have w: "secs 30 < secs 5 + secs (br_open_seconds ?b)" by (simp add: new_breaker_def secs_def)
  show ?thesis
    using breaker_correct [OF n, of "secs 5" "fst (record_failure (secs 5) ?b)" "snd (record_failure (secs 5) ?b)"
        "secs 30" "secs 30"] c w
    unfolding Let_def by simp
qed

end
