(* ===== verification/Bridge_Orchestrator.thy ===== *)
theory Bridge_Orchestrator
  imports Bridge_Client Complex_Main
begin

text \<open>
  The multi-bridge orchestrator, \<open>shared/bridge_orchestrator.py\<close>: cross-bridge
  deduplication, health records, sending with failover, the retry queue and the
  probes. The host clock of a call is \<open>py_now\<close> of its environment; latencies are
  counted in microseconds and their average is exact. What a bridge answers is an
  argument: the outcome of \<open>send_strict\<close> per bridge, and the reply or transport error
  behind \<open>status\<close>. A retry item carries its object identity; the code removes items
  by field equality, which its creation time makes the same thing.
\<close>

definition ADMIN_BRIDGE_NAME :: string where "ADMIN_BRIDGE_NAME = ''bridge2''"
definition ADMIN_SELF_JID :: string where "ADMIN_SELF_JID = ''8801880446111@s.whatsapp.net''"
definition BRIDGE_PRIORITY :: "(string \<times> int) list" where "BRIDGE_PRIORITY = [(''bridge2'', 0), (''bridge1'', 1)]"
definition DEDUP_TTL_S :: int where "DEDUP_TTL_S = 120"
definition LAG_DEGRADED_US :: int where "LAG_DEGRADED_US = 5000 * 1000"
definition OUTAGE_THRESHOLD_S :: int where "OUTAGE_THRESHOLD_S = 120"
definition RETRY_MAX_ATTEMPTS :: nat where "RETRY_MAX_ATTEMPTS = 5"
definition RETRY_BACKOFF_S :: "int list" where "RETRY_BACKOFF_S = [5, 10, 30, 60, 120]"
definition LAG_SAMPLE_WINDOW :: nat where "LAG_SAMPLE_WINDOW = 20"
definition HISTORICAL_CUTOFF_S :: int where "HISTORICAL_CUTOFF_S = 300"

datatype health_state = H_healthy | H_degraded | H_outage

record bridge_health =
  h_label :: string
  h_number :: string
  h_state :: health_state
  h_last_healthy :: time
  h_failures :: nat
  h_last_lag :: int
  h_avg_lag :: rat
  h_messages :: nat
  h_rejected :: nat
  h_retry_depth :: nat
  h_reconnects :: nat

record retry_item =
  rt_key :: nat
  rt_bridge :: string
  rt_jid :: string
  rt_text :: string
  rt_attempt :: nat
  rt_next :: time
  rt_created :: time

record orchestrator =
  oc_health :: "(string \<times> bridge_health) list"
  oc_samples :: "(string \<times> int list) list"
  oc_dedup :: "(string \<times> time) list"
  oc_hits :: nat
  oc_retry :: "retry_item list"
  oc_fresh :: nat
  oc_bus :: bus

definition new_health :: "time \<Rightarrow> string \<Rightarrow> string \<Rightarrow> bridge_health" where
  "new_health now label number =
     \<lparr>h_label = label, h_number = number, h_state = H_healthy, h_last_healthy = now, h_failures = 0,
      h_last_lag = 0, h_avg_lag = 0, h_messages = 0, h_rejected = 0, h_retry_depth = 0, h_reconnects = 0\<rparr>"

definition new_orchestrator :: "time \<Rightarrow> string \<Rightarrow> string \<Rightarrow> bus \<Rightarrow> orchestrator" where
  "new_orchestrator now number1 number2 b =
     \<lparr>oc_health = [(''bridge1'', new_health now ''BR1'' number1), (''bridge2'', new_health now ''BR2'' number2)],
      oc_samples = [(''bridge1'', []), (''bridge2'', [])], oc_dedup = [], oc_hits = 0, oc_retry = [],
      oc_fresh = 0, oc_bus = b\<rparr>"

definition update_health :: "string \<Rightarrow> (bridge_health \<Rightarrow> bridge_health) \<Rightarrow> orchestrator \<Rightarrow> orchestrator" where
  "update_health name f o' =
     (case map_of (oc_health o') name of
        None \<Rightarrow> o'
      | Some h \<Rightarrow> o'\<lparr>oc_health := dict_set name (f h) (oc_health o')\<rparr>)"

definition orch_emit :: "env \<Rightarrow> string \<Rightarrow> payload \<Rightarrow> orchestrator \<Rightarrow> orchestrator" where
  "orch_emit e et pl o' = o'\<lparr>oc_bus := emit e et pl ''bridge_orchestrator'' (oc_bus o')\<rparr>"

subsection \<open>Cross-bridge deduplication\<close>

definition dedup_key :: "(string \<Rightarrow> string) \<Rightarrow> string \<Rightarrow> string \<Rightarrow> time \<Rightarrow> string" where
  "dedup_key sha sender content msg_ts =
     take 32 (sha (sender @ ''|'' @ take 200 content @ ''|'' @ show_int (msg_ts div secs 300 * 300)))"

definition dedup_sweep :: "time \<Rightarrow> orchestrator \<Rightarrow> orchestrator" where
  "dedup_sweep now o' = o'\<lparr>oc_dedup := filter (\<lambda>(k, x). \<not> x \<le> now) (oc_dedup o')\<rparr>"

definition is_duplicate_local :: "time \<Rightarrow> string \<Rightarrow> orchestrator \<Rightarrow> bool" where
  "is_duplicate_local now key o' = (case map_of (oc_dedup o') key of None \<Rightarrow> False | Some x \<Rightarrow> \<not> x \<le> now)"

definition mark_seen_local :: "time \<Rightarrow> string \<Rightarrow> orchestrator \<Rightarrow> orchestrator" where
  "mark_seen_local now key o' = o'\<lparr>oc_dedup := dict_set key (now + secs DEDUP_TTL_S) (oc_dedup o')\<rparr>"

definition register_message ::
  "(string \<Rightarrow> string) \<Rightarrow> env \<Rightarrow> string \<Rightarrow> string \<Rightarrow> string \<Rightarrow> time \<Rightarrow> orchestrator \<Rightarrow> bool \<times> orchestrator" where
  "register_message sha e bridge sender content msg_ts o' =
     (let o1 = update_health bridge (\<lambda>h. h\<lparr>h_messages := h_messages h + 1\<rparr>) o';
          o2 = (if length (oc_dedup o1) > 5000 then dedup_sweep (py_now e) o1 else o1);
          key = dedup_key sha sender content msg_ts
      in if is_duplicate_local (py_now e) key o2
         then (True, orch_emit e ''cross_bridge_duplicate''
                 [(''bridge'', JStr bridge), (''sender_jid'', JStr sender), (''dedup_key'', JStr key)]
                 (update_health bridge (\<lambda>h. h\<lparr>h_rejected := h_rejected h + 1\<rparr>) (o2\<lparr>oc_hits := oc_hits o2 + 1\<rparr>)))
         else (False, mark_seen_local (py_now e) key o2))"

definition is_historical :: "env \<Rightarrow> time \<Rightarrow> bool" where
  "is_historical e msg_ts \<longleftrightarrow> py_now e - msg_ts > secs HISTORICAL_CUTOFF_S"

subsection \<open>Health\<close>

definition health_name :: "health_state \<Rightarrow> string" where
  "health_name s = (case s of H_healthy \<Rightarrow> ''healthy'' | H_degraded \<Rightarrow> ''degraded'' | H_outage \<Rightarrow> ''outage'')"

definition probe_ok :: "time \<Rightarrow> int \<Rightarrow> int list \<Rightarrow> bridge_health \<Rightarrow> bridge_health" where
  "probe_ok now lag samples h =
     (let h1 = h\<lparr>h_failures := 0, h_last_healthy := now, h_last_lag := lag,
                 h_avg_lag := of_int (sum_list samples) / of_nat (length samples)\<rparr>
      in if lag > LAG_DEGRADED_US then h1\<lparr>h_state := H_degraded\<rparr>
         else h1\<lparr>h_state := H_healthy,
                 h_reconnects := (if h_state h = H_outage then h_reconnects h + 1 else h_reconnects h)\<rparr>)"

definition probe_failed :: "time \<Rightarrow> bridge_health \<Rightarrow> bridge_health" where
  "probe_failed now h =
     h\<lparr>h_failures := h_failures h + 1,
       h_state := (if now - h_last_healthy h > secs OUTAGE_THRESHOLD_S then H_outage else H_degraded)\<rparr>"

definition record_probe_result :: "env \<Rightarrow> string \<Rightarrow> int option \<Rightarrow> orchestrator \<Rightarrow> orchestrator" where
  "record_probe_result e name lag o' =
     (case map_of (oc_health o') name of
        None \<Rightarrow> o'
      | Some h \<Rightarrow>
          let old = dict_get [] (oc_samples o') name;
              samples = (case lag of None \<Rightarrow> old
                | Some l \<Rightarrow> (let s = old @ [l] in if length s > LAG_SAMPLE_WINDOW then tl s else s));
              h' = (case lag of Some l \<Rightarrow> probe_ok (py_now e) l samples h | None \<Rightarrow> probe_failed (py_now e) h);
              o1 = o'\<lparr>oc_health := dict_set name h' (oc_health o'),
                      oc_samples := dict_set name samples (oc_samples o')\<rparr>
          in if h_state h' \<noteq> h_state h
             then orch_emit e ''bridge_health_changed''
                    [(''bridge'', JStr name), (''prev_state'', JStr (health_name (h_state h))),
                     (''state'', JStr (health_name (h_state h'))),
                     (''consecutive_failures'', JInt (int (h_failures h'))),
                     (''lag_ms'', case lag of None \<Rightarrow> JNull | Some l \<Rightarrow> JInt l)] o1
             else o1)"

subsection \<open>Sending\<close>

definition bridge_order :: "string \<Rightarrow> string set \<Rightarrow> string list" where
  "bridge_order preferred exclude =
     map fst (sort_key (\<lambda>(n, p). 2 * (if n = preferred then 0 else 1) + p)
       (filter (\<lambda>(n, p). n \<notin> exclude) BRIDGE_PRIORITY))"

definition retry_depth :: "string \<Rightarrow> orchestrator \<Rightarrow> nat" where
  "retry_depth name o' = count_where (\<lambda>r. rt_bridge r = name) (oc_retry o')"

definition enqueue_retry :: "env \<Rightarrow> string \<Rightarrow> string \<Rightarrow> string \<Rightarrow> orchestrator \<Rightarrow> orchestrator" where
  "enqueue_retry e name jid s o' =
     (let o1 = o'\<lparr>oc_retry := oc_retry o' @
                 [\<lparr>rt_key = oc_fresh o', rt_bridge = name, rt_jid = jid, rt_text = s, rt_attempt = 0,
                   rt_next = py_now e + secs (RETRY_BACKOFF_S ! 0), rt_created = py_now e\<rparr>],
                 oc_fresh := oc_fresh o' + 1\<rparr>
      in update_health name (\<lambda>h. h\<lparr>h_retry_depth := retry_depth name o1\<rparr>) o1)"

definition in_outage :: "string \<Rightarrow> orchestrator \<Rightarrow> bool" where
  "in_outage name o' = (case map_of (oc_health o') name of None \<Rightarrow> False | Some h \<Rightarrow> h_state h = H_outage)"

fun try_bridges :: "(string \<Rightarrow> send_outcome) \<Rightarrow> orchestrator \<Rightarrow> string list \<Rightarrow> (unit + string) option" where
  \<comment> \<open>\<open>Some (Inr b)\<close>: sent over \<open>b\<close>; \<open>Some (Inl ())\<close>: an exception that is not a
    \<open>BridgeSendError\<close> left the loop; \<open>None\<close>: every bridge was skipped or failed\<close>
  "try_bridges outcome o' [] = None"
| "try_bridges outcome o' (b # bs) =
     (if in_outage b o' then try_bridges outcome o' bs
      else case outcome b of
             Sent \<Rightarrow> Some (Inr b)
           | Bridge_send_error \<Rightarrow> try_bridges outcome o' bs
           | Send_exception \<Rightarrow> Some (Inl ()))"

definition send_with_failover ::
  "env \<Rightarrow> (string \<Rightarrow> send_outcome) \<Rightarrow> string \<Rightarrow> string \<Rightarrow> string \<Rightarrow> string set \<Rightarrow> orchestrator
    \<Rightarrow> (unit + bool \<times> string) \<times> orchestrator" where
  "send_with_failover e outcome jid s preferred exclude o' =
     (case try_bridges outcome o' (bridge_order preferred exclude) of
        Some (Inl ()) \<Rightarrow> (Inl (), o')
      | Some (Inr b) \<Rightarrow>
          (Inr (True, b),
           if b \<noteq> preferred
           then orch_emit e ''bridge_failover''
                  [(''preferred'', JStr preferred), (''used'', JStr b), (''jid'', JStr jid)] o'
           else o')
      | None \<Rightarrow> (Inr (False, ''queued''), enqueue_retry e preferred jid s o'))"

definition send_to_admin ::
  "env \<Rightarrow> (string \<Rightarrow> send_outcome) \<Rightarrow> string \<Rightarrow> payload \<Rightarrow> orchestrator \<Rightarrow> (unit + bool) \<times> orchestrator" where
  "send_to_admin e outcome s context' o' =
     (case send_with_failover e outcome ADMIN_SELF_JID s ADMIN_BRIDGE_NAME {} o' of
        (Inl (), o1) \<Rightarrow> (Inl (), o1)
      | (Inr (ok, used), o1) \<Rightarrow>
          (Inr ok,
           if ok then orch_emit e ''draft_approval_sent''
                        (fold (\<lambda>(k, v). dict_set k v) context'
                          [(''jid'', JStr ADMIN_SELF_JID), (''bridge_used'', JStr used)]) o1
           else o1))"

subsection \<open>Retry queue\<close>

definition remove_item :: "nat \<Rightarrow> retry_item list \<Rightarrow> retry_item list" where
  "remove_item k q = filter (\<lambda>r. rt_key r \<noteq> k) q"

fun drain_items ::
  "(retry_item \<Rightarrow> send_outcome) \<Rightarrow> retry_item list \<Rightarrow> retry_item list \<Rightarrow> bool \<times> nat \<times> retry_item list" where
  \<comment> \<open>\<open>False\<close>: an exception that is not a \<open>BridgeSendError\<close> left the loop\<close>
  "drain_items sent [] q = (True, 0, q)"
| "drain_items sent (i # is) q =
     (case sent i of
        Sent \<Rightarrow> (let (ok, n, q') = drain_items sent is (remove_item (rt_key i) q) in (ok, n + 1, q'))
      | Bridge_send_error \<Rightarrow>
          if rt_attempt i + 1 \<ge> RETRY_MAX_ATTEMPTS then drain_items sent is (remove_item (rt_key i) q)
          else drain_items sent is
                 (update_where (\<lambda>r. rt_key r = rt_key i) (\<lambda>r. r\<lparr>rt_attempt := rt_attempt r + 1\<rparr>) q)
      | Send_exception \<Rightarrow> (False, 0, q))"

definition drain_retry_for_bridge ::
  "env \<Rightarrow> (retry_item \<Rightarrow> send_outcome) \<Rightarrow> string \<Rightarrow> orchestrator \<Rightarrow> orchestrator" where
  "drain_retry_for_bridge e sent name o' =
     (let due = filter (\<lambda>r. rt_bridge r = name) (oc_retry o')
      in if due = [] then o'
         else let (ok, n, q) = drain_items sent due (oc_retry o'); o1 = o'\<lparr>oc_retry := q\<rparr>
              in if ok \<and> n > 0 then orch_emit e ''bridge_reconnected''
                                 [(''bridge'', JStr name), (''replayed'', JInt (int n))] o1
                 else o1)"

definition backoff_after :: "nat \<Rightarrow> int" where
  "backoff_after attempt =
     (if attempt - 1 < length RETRY_BACKOFF_S then RETRY_BACKOFF_S ! (attempt - 1) else last RETRY_BACKOFF_S)"

fun retry_items ::
  "time \<Rightarrow> (retry_item \<Rightarrow> send_outcome) \<Rightarrow> retry_item list \<Rightarrow> retry_item list \<Rightarrow> bool \<times> retry_item list" where
  "retry_items now sent [] q = (True, q)"
| "retry_items now sent (i # is) q =
     (if rt_attempt i \<ge> RETRY_MAX_ATTEMPTS then retry_items now sent is (remove_item (rt_key i) q)
      else case sent i of
        Sent \<Rightarrow> retry_items now sent is (remove_item (rt_key i) q)
      | Bridge_send_error \<Rightarrow> retry_items now sent is
             (update_where (\<lambda>r. rt_key r = rt_key i)
               (\<lambda>r. r\<lparr>rt_attempt := rt_attempt r + 1, rt_next := now + secs (backoff_after (rt_attempt i + 1))\<rparr>) q)
      | Send_exception \<Rightarrow> (False, q))"

definition retry_tick :: "env \<Rightarrow> (retry_item \<Rightarrow> send_outcome) \<Rightarrow> orchestrator \<Rightarrow> bool \<times> orchestrator" where
  \<comment> \<open>\<open>False\<close>: the exception ends the loop's task\<close>
  "retry_tick e sent o' =
     (let due = filter (\<lambda>r. rt_next r \<le> py_now e) (oc_retry o');
          (ok, q) = retry_items (py_now e) sent due (oc_retry o');
          o1 = o'\<lparr>oc_retry := q\<rparr>
      in (ok, if ok then o1\<lparr>oc_health := map (\<lambda>(n, h). (n, h\<lparr>h_retry_depth := retry_depth n o1\<rparr>)) (oc_health o1)\<rparr>
              else o1))"

subsection \<open>Probes\<close>

definition probe_bridge ::
  "env \<Rightarrow> (string + payload) \<Rightarrow> int \<Rightarrow> (retry_item \<Rightarrow> send_outcome) \<Rightarrow> string \<Rightarrow> orchestrator \<Rightarrow> orchestrator" where
  "probe_bridge e net duration sent name o' =
     (let o1 = record_probe_result e name (case client_status net of Inr _ \<Rightarrow> Some duration | Inl _ \<Rightarrow> None) o';
          healthy = (case map_of (oc_health o1) name of None \<Rightarrow> True | Some h \<Rightarrow> h_state h = H_healthy)
      in if in_outage name o' \<and> healthy then drain_retry_for_bridge e sent name o1 else o1)"

definition probe_all ::
  "env \<Rightarrow> (string \<Rightarrow> string + payload) \<Rightarrow> (string \<Rightarrow> int) \<Rightarrow> (retry_item \<Rightarrow> send_outcome) \<Rightarrow> orchestrator \<Rightarrow> orchestrator" where
  "probe_all e net duration sent o' =
     probe_bridge e (net ''bridge2'') (duration ''bridge2'') sent ''bridge2''
       (probe_bridge e (net ''bridge1'') (duration ''bridge1'') sent ''bridge1'' o')"

subsection \<open>Deduplication window\<close>

definition dedup_wf :: "orchestrator \<Rightarrow> bool" where
  "dedup_wf o' \<longleftrightarrow> distinct (map fst (oc_dedup o'))"

lemma update_health_frame [simp]:
  "oc_dedup (update_health n f o') = oc_dedup o'" "oc_retry (update_health n f o') = oc_retry o'"
  "oc_samples (update_health n f o') = oc_samples o'"
  by (simp_all add: update_health_def split: option.split)

lemma orch_emit_frame [simp]:
  "oc_dedup (orch_emit e t p o') = oc_dedup o'" "oc_retry (orch_emit e t p o') = oc_retry o'"
  "oc_health (orch_emit e t p o') = oc_health o'"
  by (simp_all add: orch_emit_def)

lemma set_dict_set: "set (dict_set k v d) \<subseteq> insert (k, v) (set d)"
  by (induction d) (auto split: if_splits)

lemma dict_set_keys: "distinct (map fst d) \<Longrightarrow> distinct (map fst (dict_set k v d))"
proof (induction d)
  case (Cons x d)
  then show ?case using set_dict_set [of k v d] by (cases x) fastforce
qed simp

lemma map_of_filter_distinct:
  "distinct (map fst d) \<Longrightarrow> map_of (filter P d) k = (case map_of d k of None \<Rightarrow> None | Some x \<Rightarrow> if P (k, x) then Some x else None)"
  by (induction d) (auto split: option.splits simp: map_of_eq_None_iff)

definition swept :: "time \<Rightarrow> (string \<times> time) list \<Rightarrow> (string \<times> time) list" where
  "swept now d = (if length d > 5000 then filter (\<lambda>(k, x). \<not> x \<le> now) d else d)"

lemma live_after_sweep:
  assumes "distinct (map fst d)"
  shows "(case map_of (swept now d) k of None \<Rightarrow> False | Some x \<Rightarrow> \<not> x \<le> now) =
    (case map_of d k of None \<Rightarrow> False | Some x \<Rightarrow> \<not> x \<le> now)"
  using assms by (auto simp: swept_def map_of_filter_distinct split: option.splits)

lemma register_fst:
  assumes "dedup_wf o'"
  shows "fst (register_message sha e b sender content ts o') =
    is_duplicate_local (py_now e) (dedup_key sha sender content ts) o'"
proof -
  have "oc_dedup (if length (oc_dedup o1) > 5000 then dedup_sweep (py_now e) o1 else o1) = swept (py_now e) (oc_dedup o1)" for o1
    by (simp add: dedup_sweep_def swept_def)
  then show ?thesis
    using live_after_sweep [of "oc_dedup o'" "py_now e" "dedup_key sha sender content ts"] assms
    by (simp add: register_message_def Let_def is_duplicate_local_def dedup_wf_def)
qed

lemma register_new:
  assumes "register_message sha e b sender content ts o' = (False, o1)"
  shows "oc_dedup o1 = dict_set (dedup_key sha sender content ts) (py_now e + secs DEDUP_TTL_S) (swept (py_now e) (oc_dedup o'))"
  using assms
  by (auto simp: register_message_def Let_def mark_seen_local_def dedup_sweep_def swept_def split: if_splits)

lemma dedup_key_cong:
  "take 200 content = take 200 content' \<Longrightarrow> ts div secs 300 = ts' div secs 300 \<Longrightarrow>
    dedup_key sha sender content ts = dedup_key sha sender content' ts'"
  by (simp add: dedup_key_def)

fun register_all ::
  "(string \<Rightarrow> string) \<Rightarrow> (env \<times> string \<times> string \<times> string \<times> time) list \<Rightarrow> orchestrator \<Rightarrow> orchestrator" where
  "register_all sha [] o' = o'"
| "register_all sha ((e, b, sender, content, ts) # rs) o' =
     register_all sha rs (snd (register_message sha e b sender content ts o'))"

lemma swept_keys: "distinct (map fst d) \<Longrightarrow> distinct (map fst (swept now d))"
  by (auto simp: swept_def distinct_map inj_on_def)

lemma register_dedup:
  "oc_dedup (snd (register_message sha e b sender content ts o')) =
    (let d = swept (py_now e) (oc_dedup o'); k = dedup_key sha sender content ts
     in if (case map_of d k of None \<Rightarrow> False | Some x \<Rightarrow> \<not> x \<le> py_now e) then d
        else dict_set k (py_now e + secs DEDUP_TTL_S) d)"
  by (simp add: register_message_def Let_def mark_seen_local_def dedup_sweep_def swept_def is_duplicate_local_def)

lemma register_keeps:
  assumes "dedup_wf o'" "map_of (oc_dedup o') k = Some x" "py_now e < x"
  shows "dedup_wf (snd (register_message sha e b sender content ts o'))
    \<and> map_of (oc_dedup (snd (register_message sha e b sender content ts o'))) k = Some x"
proof -
  have d: "distinct (map fst (oc_dedup o'))" using assms(1) by (simp add: dedup_wf_def)
  have k: "map_of (swept (py_now e) (oc_dedup o')) k = Some x"
    using assms(2,3) by (simp add: swept_def map_of_filter_distinct [OF d])
  then have "map_of (oc_dedup (snd (register_message sha e b sender content ts o'))) k = Some x"
    using assms(3) by (cases "k = dedup_key sha sender content ts") (simp_all add: register_dedup Let_def)
  moreover have "dedup_wf (snd (register_message sha e b sender content ts o'))"
    using swept_keys [OF d] by (simp add: dedup_wf_def register_dedup Let_def dict_set_keys)
  ultimately show ?thesis by simp
qed

lemma register_all_keeps:
  assumes "dedup_wf o'" "map_of (oc_dedup o') k = Some x" "\<forall>(e, _) \<in> set rs. py_now e < x"
  shows "dedup_wf (register_all sha rs o') \<and> map_of (oc_dedup (register_all sha rs o')) k = Some x"
  using assms
proof (induction rs arbitrary: o')
  case (Cons r rs)
  obtain e b sender content ts where r: "r = (e, b, sender, content, ts)" by (cases r) auto
  have "py_now e < x" using Cons.prems(3) by (simp add: r)
  note k = register_keeps [OF Cons.prems(1,2) this, of sha b sender content ts]
  show ?case
    using Cons.IH [OF conjunct1 [OF k] conjunct2 [OF k]] Cons.prems(3) by (simp add: r)
qed simp

text \<open>
  The same message from a second bridge is recognised for two minutes. After a
  message was let through, and any further messages were registered within the
  deduplication time, a message of the same sender with the same first 200 characters
  and a timestamp in the same five-minute bucket, arriving on any bridge, is reported
  as a duplicate exactly while less than the deduplication time has passed since the
  first one: repetitions do not extend the time, and other traffic does not evict the
  entry.
\<close>

theorem dedup_window:
  assumes "dedup_wf o'" and "register_message sha e b sender content ts o' = (False, o1)"
    and "\<forall>(e1, _) \<in> set rs. py_now e1 < py_now e + secs DEDUP_TTL_S"
    and "take 200 content' = take 200 content" and "ts' div secs 300 = ts div secs 300"
  shows "fst (register_message sha e2 b2 sender content' ts' (register_all sha rs o1)) \<longleftrightarrow>
    py_now e2 < py_now e + secs DEDUP_TTL_S"
proof -
  let ?k = "dedup_key sha sender content ts"
  have d: "oc_dedup o1 = dict_set ?k (py_now e + secs DEDUP_TTL_S) (swept (py_now e) (oc_dedup o'))"
    by (rule register_new [OF assms(2)])
  have "dedup_wf o1" "map_of (oc_dedup o1) ?k = Some (py_now e + secs DEDUP_TTL_S)"
    using assms(1) by (simp_all add: dedup_wf_def d dict_set_keys swept_keys)
  note r = register_all_keeps [OF this assms(3), of sha]
  have "dedup_key sha sender content' ts' = ?k" using dedup_key_cong [OF assms(4,5)] .
  then show ?thesis
    using r by (auto simp: register_fst [OF conjunct1 [OF r]] is_duplicate_local_def)
qed

theorem dedup_window_witness:
  "let o0 = new_orchestrator 0 ''n1'' ''n2'' empty_bus;
       o1 = snd (register_message (\<lambda>s. s) (env_at (secs 10)) ''bridge1'' ''8801'' ''hello'' (secs 9) o0);
       o2 = register_all (\<lambda>s. s) [(env_at (secs 60), ''bridge1'', ''8802'', ''hi'', secs 59)] o1
   in fst (register_message (\<lambda>s. s) (env_at (secs 100)) ''bridge2'' ''8801'' ''hello'' (secs 11) o2)"
proof -
  let ?o = "new_orchestrator 0 ''n1'' ''n2'' empty_bus"
  have wf: "dedup_wf ?o" by (simp add: dedup_wf_def new_orchestrator_def)
  have "\<not> fst (register_message (\<lambda>s. s) (env_at (secs 10)) ''bridge1'' ''8801'' ''hello'' (secs 9) ?o)"
    unfolding register_fst [OF wf] by (simp add: is_duplicate_local_def new_orchestrator_def)
  then have r: "register_message (\<lambda>s. s) (env_at (secs 10)) ''bridge1'' ''8801'' ''hello'' (secs 9) ?o =
      (False, snd (register_message (\<lambda>s. s) (env_at (secs 10)) ''bridge1'' ''8801'' ''hello'' (secs 9) ?o))"
    by (simp add: prod_eq_iff)
  have rs: "\<forall>(e1, _) \<in> set [(env_at (secs 60), ''bridge1'', ''8802'', ''hi'', secs 59)].
      py_now e1 < py_now (env_at (secs 10)) + secs DEDUP_TTL_S"
    by (simp add: secs_def DEDUP_TTL_S_def)
  show ?thesis
    using dedup_window [OF wf r rs refl, of "secs 11" "env_at (secs 100)" "''bridge2''"]
    unfolding Let_def by (simp add: secs_def DEDUP_TTL_S_def)
qed

subsection \<open>Failover\<close>

lemma try_bridges_find:
  assumes "\<And>b. outcome b \<noteq> Send_exception"
  shows "try_bridges outcome o' bs = map_option Inr (find (\<lambda>b. \<not> in_outage b o' \<and> outcome b = Sent) bs)"
proof (induction bs)
  case (Cons b bs)
  then show ?case using assms [of b] by (cases "outcome b") simp_all
qed simp

lemma bridge_order_set: "set (bridge_order preferred exclude) = {''bridge1'', ''bridge2''} - exclude"
  by (auto simp: bridge_order_def BRIDGE_PRIORITY_def)

lemma bridge_order_hd:
  assumes "preferred \<in> {''bridge1'', ''bridge2''} - exclude"
  shows "hd (bridge_order preferred exclude) = preferred"
  using assms by (auto simp: bridge_order_def BRIDGE_PRIORITY_def)

text \<open>
  A message goes out over the first usable bridge or is kept for retry. When
  sends succeed or fail with a bridge error, \<open>send_with_failover\<close> tries the
  non-excluded bridges, the preferred one first, skips those in outage, reports the
  first over which the send succeeds and leaves the retry queue alone; if there is
  none it appends exactly one retry item for the preferred bridge, with the message
  unchanged and no attempt counted, and reports that it was queued.
\<close>

theorem failover_or_queue:
  assumes "\<And>b. outcome b \<noteq> Send_exception"
  shows "let order = bridge_order preferred exclude;
             (r, o1) = send_with_failover e outcome jid s preferred exclude o'
         in set order = {''bridge1'', ''bridge2''} - exclude
          \<and> (preferred \<in> set order \<longrightarrow> hd order = preferred)
          \<and> (case find (\<lambda>b. \<not> in_outage b o' \<and> outcome b = Sent) order of
               Some b \<Rightarrow> r = Inr (True, b) \<and> oc_retry o1 = oc_retry o'
             | None \<Rightarrow> r = Inr (False, ''queued'') \<and>
                 (\<exists>i. oc_retry o1 = oc_retry o' @ [i] \<and> rt_bridge i = preferred \<and> rt_jid i = jid
                    \<and> rt_text i = s \<and> rt_attempt i = 0 \<and> rt_next i = py_now e + secs 5))"
proof -
  have "hd (bridge_order preferred exclude) = preferred" if "preferred \<in> set (bridge_order preferred exclude)"
    using bridge_order_hd that unfolding bridge_order_set by blast
  moreover have "case find (\<lambda>b. \<not> in_outage b o' \<and> outcome b = Sent) (bridge_order preferred exclude) of
               Some b \<Rightarrow> fst (send_with_failover e outcome jid s preferred exclude o') = Inr (True, b)
                 \<and> oc_retry (snd (send_with_failover e outcome jid s preferred exclude o')) = oc_retry o'
             | None \<Rightarrow> fst (send_with_failover e outcome jid s preferred exclude o') = Inr (False, ''queued'') \<and>
                 (\<exists>i. oc_retry (snd (send_with_failover e outcome jid s preferred exclude o')) = oc_retry o' @ [i]
                    \<and> rt_bridge i = preferred \<and> rt_jid i = jid
                    \<and> rt_text i = s \<and> rt_attempt i = 0 \<and> rt_next i = py_now e + secs 5)"
    by (simp add: send_with_failover_def try_bridges_find [OF assms] enqueue_retry_def Let_def RETRY_BACKOFF_S_def
        split: option.split)
  ultimately show ?thesis by (simp add: Let_def split_def bridge_order_set split: option.splits)
qed

theorem failover_or_queue_witness:
  "fst (send_with_failover (env_at 5) (\<lambda>b. if b = ''bridge1'' then Sent else Bridge_send_error) ''j'' ''hi'' ''bridge2'' {}
     (new_orchestrator 0 ''n1'' ''n2'' empty_bus)) = Inr (True, ''bridge1'')"
proof -
  let ?o = "new_orchestrator 0 ''n1'' ''n2'' empty_bus"
  let ?f = "\<lambda>b. if b = ''bridge1'' then Sent else Bridge_send_error"
  have "find (\<lambda>b. \<not> in_outage b ?o \<and> ?f b = Sent) (bridge_order ''bridge2'' {}) = Some ''bridge1''"
    by (simp add: bridge_order_def BRIDGE_PRIORITY_def in_outage_def new_orchestrator_def new_health_def)
  moreover have "?f b \<noteq> Send_exception" for b by simp
  ultimately show ?thesis
    using failover_or_queue [of ?f "''bridge2''" "{}" "env_at 5" "''j''" "''hi''" ?o] by (simp add: Let_def split_def)
qed

subsection \<open>Outage\<close>

definition no_outage :: "orchestrator \<Rightarrow> bool" where
  "no_outage o' \<longleftrightarrow> (\<forall>(n, h)\<in>set (oc_health o'). h_state h \<noteq> H_outage)"

lemma no_outage_update:
  assumes "no_outage o'" "\<And>h. h_state h \<noteq> H_outage \<Longrightarrow> h_state (f h) \<noteq> H_outage"
  shows "no_outage (update_health n f o')"
proof (cases "map_of (oc_health o') n")
  case (Some h)
  then have "(n, h) \<in> set (oc_health o')" by (rule map_of_SomeD)
  with assms have "h_state (f h) \<noteq> H_outage" by (auto simp: no_outage_def)
  with assms(1) set_dict_set [of n "f h" "oc_health o'"] show ?thesis
    by (auto simp: no_outage_def update_health_def Some)
qed (use assms in \<open>simp add: update_health_def\<close>)

lemma no_outage_frame [simp]:
  "no_outage (orch_emit e t p o') = no_outage o'" "no_outage (o'\<lparr>oc_dedup := d\<rparr>) = no_outage o'"
  "no_outage (o'\<lparr>oc_hits := n\<rparr>) = no_outage o'" "no_outage (o'\<lparr>oc_retry := q, oc_fresh := n\<rparr>) = no_outage o'"
  by (simp_all add: no_outage_def)

lemma probe_no_outage:
  assumes "no_outage o'"
  shows "no_outage (probe_bridge e net dur sent n o')"
proof -
  have "no_outage (record_probe_result e n (Some dur) o')"
    using assms set_dict_set [of n _ "oc_health o'"]
    by (fastforce simp: record_probe_result_def no_outage_def probe_ok_def Let_def split: option.splits)
  moreover have "\<not> in_outage n o'"
    using assms by (auto simp: in_outage_def no_outage_def dest: map_of_SomeD split: option.splits)
  ultimately show ?thesis by (simp add: probe_bridge_def client_status_def Let_def)
qed

inductive orch_step :: "orchestrator \<Rightarrow> orchestrator \<Rightarrow> bool" where
  register: "orch_step o' (snd (register_message sha e b sender content ts o'))"
| probe: "orch_step o' (probe_all e net dur sent o')"
| send: "orch_step o' (snd (send_with_failover e outcome jid s preferred exclude o'))"
| retry: "orch_step o' (snd (retry_tick e sent o'))"

definition orch_start :: "orchestrator \<Rightarrow> bool" where
  "orch_start o' \<longleftrightarrow> (\<exists>now n1 n2 b. o' = new_orchestrator now n1 n2 b)"

interpretation orch_system: invariant_system orch_start orch_step no_outage
proof unfold_locales
  show "orch_start s \<Longrightarrow> no_outage s" for s
    by (auto simp: orch_start_def no_outage_def new_orchestrator_def new_health_def)
  show "orch_step s t \<Longrightarrow> no_outage s \<Longrightarrow> no_outage t" for s t
  proof (induction rule: orch_step.induct)
    case (register o' sha e b sender content ts)
    then show ?case
      by (simp add: register_message_def Let_def mark_seen_local_def dedup_sweep_def no_outage_update)
  next
    case (probe o' e net dur sent)
    then show ?case by (simp add: probe_all_def probe_no_outage)
  next
    case (send o' e outcome jid s preferred exclude)
    then show ?case
      by (auto simp: send_with_failover_def enqueue_retry_def Let_def no_outage_update split: option.split sum.split unit.split)
  next
    case (retry o' e sent)
    then show ?case by (auto simp: retry_tick_def Let_def split_def no_outage_def)
  qed
qed

text \<open>
  A bridge is never found in outage. \<open>BridgeClient.status\<close> turns every
  transport error into a reply, so a probe always counts as successful; from the
  initial state no sequence of probes (whatever the bridges answer), registrations,
  sends and retries puts a bridge into the outage state, and the paths that depend on
  it (skipping the bridge in failover, replay on recovery) are never taken.
\<close>

theorem outage_unreachable:
  assumes "reach orch_start orch_step o'"
  shows "\<not> in_outage n o' \<and> probe_bridge e net dur sent n o' = record_probe_result e n (Some dur) o'"
proof -
  have "no_outage o'" using orch_system.reach_inv [OF assms] .
  then have "\<not> in_outage n o'"
    by (auto simp: in_outage_def no_outage_def dest: map_of_SomeD split: option.splits)
  then show ?thesis by (simp add: probe_bridge_def client_status_def Let_def)
qed

theorem outage_unreachable_witness:
  "\<not> in_outage ''bridge2'' (probe_all (env_at (secs 900)) (\<lambda>_. Inl ''refused'') (\<lambda>_. 40) (\<lambda>_. Bridge_send_error)
      (new_orchestrator 0 ''n1'' ''n2'' empty_bus))"
proof -
  have "reach orch_start orch_step (new_orchestrator 0 ''n1'' ''n2'' empty_bus)"
    by (rule reach_start) (auto simp: orch_start_def)
  then have "reach orch_start orch_step (probe_all (env_at (secs 900)) (\<lambda>_. Inl ''refused'') (\<lambda>_. 40) (\<lambda>_. Bridge_send_error)
      (new_orchestrator 0 ''n1'' ''n2'' empty_bus))"
    by (rule reach_step) (rule orch_step.probe)
  from outage_unreachable [OF this] show ?thesis by blast
qed

end
