(* ===== verification/Outbound_Queue.thy ===== *)
theory Outbound_Queue
  imports Bridge_Client
begin

text \<open>
  The persistent outbound queue, \<open>modules/outbound/__init__.py\<close>, over the table
  \<open>fazle_outbound_queue\<close> and the circuit breakers of the two bridge clients. The
  schema of the table is not part of the repository: a new row is pending, without
  attempts and due at once, as the module's tests rely on, and the default of
  \<open>max_attempts\<close> is an argument. The settings read from the environment, the text of
  an error, the minute stamp of the clock and what the bridge answers are arguments
  too. For every row of a sweep it is given which of its own statements raise. Calls of
  \<open>record_error\<close>, which never raises, are collected. Starting and cancelling the
  worker task is not modelled; a turn of its loop is \<open>worker_turn\<close>.
\<close>

datatype out_status = O_pending | O_sending | O_sent | O_failed | O_dlq

record out_row =
  or_id :: int
  or_recipient :: string
  or_body :: string
  or_bridge :: string
  or_purpose :: "string option"
  or_key :: "string option"
  or_meta :: payload
  or_status :: out_status
  or_attempts :: nat
  or_max :: nat
  or_next :: time
  or_sent_at :: "time option"
  or_error :: "string option"

record outbound =
  ob_rows :: "out_row list"
  ob_next :: int
  ob_br1 :: breaker
  ob_br2 :: breaker
  ob_errors :: "(string \<times> string) list"

record out_config =
  cf_enabled :: string
  cf_admins :: string
  cf_max :: nat
  cf_minute :: "time \<Rightarrow> string"
  cf_error_text :: "http_answer \<Rightarrow> string"
  cf_db_error :: string

definition outbound_enabled :: "out_config \<Rightarrow> bool" where
  "outbound_enabled cfg \<longleftrightarrow> py_lower (cf_enabled cfg) \<in> {''1'', ''true'', ''yes''}"

definition admin_number :: "out_config \<Rightarrow> string option" where
  "admin_number cfg =
     (let raw = py_strip (cf_admins cfg)
      in if raw = '''' then None
         else let a = py_strip (takeWhile (\<lambda>c. c \<noteq> CHR '','') raw) in if a = '''' then None else Some a)"

definition enqueue ::
  "out_config \<Rightarrow> env \<Rightarrow> string \<Rightarrow> string \<Rightarrow> string \<Rightarrow> string option \<Rightarrow> string option \<Rightarrow> payload \<Rightarrow> outbound
    \<Rightarrow> (unit + int option) \<times> outbound" where
  \<comment> \<open>\<open>Inl ()\<close>: the statement raised; a missing key never conflicts; an id is drawn before the conflict is found\<close>
  "enqueue cfg e recipient body bridge purpose key meta ob =
     (if raises e 0 then (Inl (), ob)
      else if key \<noteq> None \<and> has_row (\<lambda>r. or_key r = key) (ob_rows ob)
      then (Inr None, ob\<lparr>ob_next := ob_next ob + 1\<rparr>)
      else (Inr (Some (ob_next ob)),
            ob\<lparr>ob_next := ob_next ob + 1,
               ob_rows := ob_rows ob @
                 [\<lparr>or_id = ob_next ob, or_recipient = recipient, or_body = body, or_bridge = bridge,
                   or_purpose = purpose, or_key = key, or_meta = meta, or_status = O_pending, or_attempts = 0,
                   or_max = cf_max cfg, or_next = db_now e, or_sent_at = None, or_error = None\<rparr>]\<rparr>))"

definition pending_count :: "outbound \<Rightarrow> nat" where
  "pending_count ob = count_where (\<lambda>r. or_status r \<in> {O_pending, O_failed}) (ob_rows ob)"

definition dlq_count :: "outbound \<Rightarrow> nat" where
  "dlq_count ob = count_where (\<lambda>r. or_status r = O_dlq) (ob_rows ob)"

definition get_breaker :: "string \<Rightarrow> outbound \<Rightarrow> breaker" where
  "get_breaker bridge ob = (if bridge = ''bridge2'' then ob_br2 ob else ob_br1 ob)"

definition set_breaker :: "string \<Rightarrow> breaker \<Rightarrow> outbound \<Rightarrow> outbound" where
  "set_breaker bridge b ob = (if bridge = ''bridge2'' then ob\<lparr>ob_br2 := b\<rparr> else ob\<lparr>ob_br1 := b\<rparr>)"

definition ALERT_SIGN :: string where
  "ALERT_SIGN = map (char_of :: nat \<Rightarrow> char) [226, 154, 160, 239, 184, 143]"

definition alert_circuit_open :: "out_config \<Rightarrow> env \<Rightarrow> string \<Rightarrow> outbound \<Rightarrow> outbound" where
  "alert_circuit_open cfg e bridge ob =
     (case admin_number cfg of
        None \<Rightarrow> ob
      | Some admin \<Rightarrow>
          snd (enqueue cfg e admin
                 (ALERT_SIGN @ '' ALERT: '' @ bridge @ '' circuit OPEN. Outbound paused 60s. Investigate.'')
                 (if bridge = ''bridge2'' then ''bridge1'' else ''bridge2'') (Some ''circuit-alert'')
                 (Some (''circuit-open-'' @ bridge @ ''-'' @ cf_minute cfg (py_now e))) [] ob))"

definition send_with_bridge ::
  "out_config \<Rightarrow> env \<Rightarrow> http_answer \<Rightarrow> string \<Rightarrow> string \<Rightarrow> string \<Rightarrow> outbound \<Rightarrow> string option \<times> outbound" where
  \<comment> \<open>\<open>None\<close>: sent, or stubbed; \<open>Some text\<close>: the text of the exception that is raised\<close>
  "send_with_bridge cfg e answer bridge recipient body ob =
     (let (ok, b) = breaker_allow (py_now e) (get_breaker bridge ob);
          ob1 = set_breaker bridge b ob
      in if \<not> ok then (Some (''circuit_open:'' @ bridge), ob1)
         else if \<not> outbound_enabled cfg then (None, set_breaker bridge (record_success b) ob1)
         else case fst (send_strict answer recipient body) of
                Sent \<Rightarrow> (None, set_breaker bridge (record_success b) ob1)
              | Bridge_send_error \<Rightarrow>
                  (let (opened, b2) = record_failure (py_now e) b;
                       ob2 = set_breaker bridge b2 ob1
                   in (Some (cf_error_text cfg answer), if opened then alert_circuit_open cfg e bridge ob2 else ob2))
              | Send_exception \<Rightarrow> (Some (cf_error_text cfg answer), ob1))"

subsection \<open>The sweep\<close>

record row_turn =
  tn_env :: env
  tn_answer :: http_answer
  tn_fail_sent :: bool
  tn_fail_error :: bool

datatype turn_result = T_sent | T_failed | T_dlq | T_raised

definition due :: "env \<Rightarrow> int list \<Rightarrow> out_row \<Rightarrow> bool" where
  "due e held r \<longleftrightarrow> or_status r \<in> {O_pending, O_failed} \<and> or_next r \<le> db_now e \<and> or_id r \<notin> set held"

definition claim_rows :: "env \<Rightarrow> int list \<Rightarrow> nat \<Rightarrow> outbound \<Rightarrow> out_row list \<times> outbound" where
  \<comment> \<open>\<open>held\<close>: rows another session has locked (\<open>SKIP LOCKED\<close>); the rows returned are the ones read\<close>
  "claim_rows e held limit ob =
     (let rows = take limit (sort_key or_next (filter (due e held) (ob_rows ob)))
      in (rows, ob\<lparr>ob_rows := update_where (\<lambda>r. or_id r \<in> set (map or_id rows)) (\<lambda>r. r\<lparr>or_status := O_sending\<rparr>)
                                 (ob_rows ob)\<rparr>))"

definition sent_row :: "time \<Rightarrow> nat \<Rightarrow> out_row \<Rightarrow> out_row" where
  "sent_row now n r = r\<lparr>or_status := O_sent, or_attempts := n, or_sent_at := Some now, or_error := None\<rparr>"

definition dlq_row :: "nat \<Rightarrow> string \<Rightarrow> out_row \<Rightarrow> out_row" where
  "dlq_row n err r = r\<lparr>or_status := O_dlq, or_attempts := n, or_error := Some err\<rparr>"

definition failed_row :: "time \<Rightarrow> nat \<Rightarrow> string \<Rightarrow> out_row \<Rightarrow> out_row" where
  "failed_row now n err r = r\<lparr>or_status := O_failed, or_attempts := n, or_error := Some err,
                              or_next := now + secs (60 * 2 ^ n)\<rparr>"

definition update_row :: "int \<Rightarrow> (out_row \<Rightarrow> out_row) \<Rightarrow> outbound \<Rightarrow> outbound" where
  "update_row i f ob = ob\<lparr>ob_rows := update_where (\<lambda>r. or_id r = i) f (ob_rows ob)\<rparr>"

definition record_failed ::
  "row_turn \<Rightarrow> out_row \<Rightarrow> string \<Rightarrow> outbound \<Rightarrow> turn_result \<times> outbound" where
  "record_failed t r msg ob =
     (let n = or_attempts r + 1; err = take 500 msg
      in if tn_fail_error t then (T_raised, ob)
         else if n \<ge> or_max r
         then (T_dlq, (update_row (or_id r) (dlq_row n err) ob)\<lparr>ob_errors := ob_errors ob @ [(''outbound.dlq'', msg)]\<rparr>)
         else (T_failed, update_row (or_id r) (failed_row (db_now (tn_env t)) n err) ob))"

definition process_row :: "out_config \<Rightarrow> row_turn \<Rightarrow> out_row \<Rightarrow> outbound \<Rightarrow> turn_result \<times> outbound" where
  "process_row cfg t r ob =
     (let (err, ob1) = send_with_bridge cfg (tn_env t) (tn_answer t) (or_bridge r) (or_recipient r) (or_body r) ob
      in case err of
           Some msg \<Rightarrow> record_failed t r msg ob1
         | None \<Rightarrow>
             if tn_fail_sent t then record_failed t r (cf_db_error cfg) ob1
             else (T_sent, update_row (or_id r) (sent_row (db_now (tn_env t)) (or_attempts r + 1)) ob1))"

fun process_rows ::
  "out_config \<Rightarrow> (int \<Rightarrow> row_turn) \<Rightarrow> out_row list \<Rightarrow> outbound \<Rightarrow> turn_result list \<times> outbound" where
  \<comment> \<open>the loop ends at the first \<open>T_raised\<close>, which leaves the remaining rows as they are\<close>
  "process_rows cfg turns [] ob = ([], ob)"
| "process_rows cfg turns (r # rs) ob =
     (let (k, ob1) = process_row cfg (turns (or_id r)) r ob
      in if k = T_raised then ([k], ob1)
         else let (ks, ob2) = process_rows cfg turns rs ob1 in (k # ks, ob2))"

record sweep_counts =
  sc_picked :: nat
  sc_sent :: nat
  sc_failed :: nat
  sc_dlq :: nat

definition sweep_once ::
  "out_config \<Rightarrow> env \<Rightarrow> int list \<Rightarrow> (int \<Rightarrow> row_turn) \<Rightarrow> nat \<Rightarrow> outbound \<Rightarrow> (unit + sweep_counts) \<times> outbound" where
  "sweep_once cfg e held turns limit ob =
     (if \<not> has_pool e \<or> raises e 0 then (Inl (), ob)
      else let (rows, ob1) = claim_rows e held limit ob
           in if rows \<noteq> [] \<and> raises e 1 then (Inl (), ob)
              else let (ks, ob2) = process_rows cfg turns rows ob1
                   in (if T_raised \<in> set ks then Inl ()
                       else Inr \<lparr>sc_picked = length rows, sc_sent = count_list ks T_sent,
                                 sc_failed = count_list ks T_failed, sc_dlq = count_list ks T_dlq\<rparr>, ob2))"

definition worker_turn ::
  "out_config \<Rightarrow> env \<Rightarrow> int list \<Rightarrow> (int \<Rightarrow> row_turn) \<Rightarrow> outbound \<Rightarrow> outbound" where
  "worker_turn cfg e held turns ob =
     (case sweep_once cfg e held turns 20 ob of
        (Inr _, ob1) \<Rightarrow> ob1
      | (Inl _, ob1) \<Rightarrow> ob1\<lparr>ob_errors := ob_errors ob1 @ [(''outbound.sweep'', cf_db_error cfg)]\<rparr>)"

subsection \<open>Lookups\<close>

definition look :: "int \<Rightarrow> outbound \<Rightarrow> out_row option" where
  "look i ob = find (\<lambda>r. or_id r = i) (ob_rows ob)"

lemma look_enqueue: "look i ob = Some x \<Longrightarrow> look i (snd (enqueue cfg e rc bd br pu k m ob)) = Some x"
  by (simp add: look_def enqueue_def find_append)

lemma set_breaker_frame [simp]:
  "ob_rows (set_breaker br b ob) = ob_rows ob" "ob_next (set_breaker br b ob) = ob_next ob"
  "look i (set_breaker br b ob) = look i ob"
  by (simp_all add: set_breaker_def look_def)

lemma send_preserves:
  assumes breaker: "\<And>b ob. Q (set_breaker br b ob) = Q ob"
    and enq: "\<And>rc bd br pu k ob. Q ob \<Longrightarrow> Q (snd (enqueue cfg e rc bd br pu k [] ob))"
    and "Q ob"
  shows "Q (snd (send_with_bridge cfg e answer br rc bd ob))"
proof -
  have alert: "Q (alert_circuit_open cfg e br ob)" if "Q ob" for ob
    using enq [OF that] that by (simp only: alert_circuit_open_def split: option.split) blast
  obtain ok b where a: "breaker_allow (py_now e) (get_breaker br ob) = (ok, b)" by fastforce
  obtain opened b2 where f: "record_failure (py_now e) b = (opened, b2)" by fastforce
  show ?thesis
    using assms(3) by (auto simp: send_with_bridge_def Let_def a f breaker alert split: send_outcome.split)
qed

lemma look_send: "look i ob = Some x \<Longrightarrow> look i (snd (send_with_bridge cfg e answer br rc bd ob)) = Some x"
  by (rule send_preserves [where Q = "\<lambda>ob. look i ob = Some x"]) (simp_all add: look_enqueue)

lemma look_update_row:
  assumes "\<And>x. or_id (f x) = or_id x"
  shows "look i (update_row j f ob) = map_option (\<lambda>x. if or_id x = j then f x else x) (look i ob)"
  using assms by (simp add: look_def update_row_def find_update_where_key)

lemma look_errors [simp]: "look i (ob\<lparr>ob_errors := es\<rparr>) = look i ob"
  by (simp add: look_def)

lemma row_update_ids [simp]:
  "or_id (sent_row now n r) = or_id r" "or_id (dlq_row n err r) = or_id r" "or_id (failed_row now n err r) = or_id r"
  by (simp_all add: sent_row_def dlq_row_def failed_row_def)

subsection \<open>What a sweep does\<close>

definition settles :: "row_turn \<Rightarrow> out_row \<Rightarrow> turn_result \<Rightarrow> out_row \<Rightarrow> bool" where
  "settles t r k y \<longleftrightarrow>
     (let n = or_attempts r + 1; now = db_now (tn_env t)
      in (k = T_sent \<and> y = sent_row now n r)
       \<or> (k = T_dlq \<and> or_max r \<le> n \<and> (\<exists>err. y = dlq_row n err r))
       \<or> (k = T_failed \<and> n < or_max r \<and> (\<exists>err. y = failed_row now n err r)))"

lemma process_row_look:
  assumes "look (or_id r) ob = Some (r\<lparr>or_status := O_sending\<rparr>)" "\<not> tn_fail_sent t" "\<not> tn_fail_error t"
  shows "\<exists>y. look (or_id r) (snd (process_row cfg t r ob)) = Some y \<and> settles t r (fst (process_row cfg t r ob)) y"
proof -
  obtain err ob1 where s: "send_with_bridge cfg (tn_env t) (tn_answer t) (or_bridge r) (or_recipient r) (or_body r) ob = (err, ob1)"
    by fastforce
  have l: "look (or_id r) ob1 = Some (r\<lparr>or_status := O_sending\<rparr>)"
    using look_send [OF assms(1), of cfg "tn_env t" "tn_answer t" "or_bridge r" "or_recipient r" "or_body r"] by (simp add: s)
  show ?thesis
  proof (cases err)
    case None
    then show ?thesis using assms(2) l
      by (simp add: process_row_def s look_update_row settles_def Let_def sent_row_def)
  next
    case (Some msg)
    have "\<exists>y. look (or_id r) (snd (record_failed t r msg ob1)) = Some y \<and> settles t r (fst (record_failed t r msg ob1)) y"
      using assms(3) l
      by (auto simp: record_failed_def look_update_row settles_def Let_def dlq_row_def failed_row_def)
    then show ?thesis by (simp add: process_row_def s Some)
  qed
qed

lemma record_failed_other:
  "i \<noteq> or_id r \<Longrightarrow> look i ob = Some x \<Longrightarrow> look i (snd (record_failed t r msg ob)) = Some x"
  using find_Some_mem [of "\<lambda>r. or_id r = i" "ob_rows ob" x]
  by (auto simp: record_failed_def Let_def look_update_row look_def [of i ob])

lemma process_row_other:
  assumes "i \<noteq> or_id r" "look i ob = Some x"
  shows "look i (snd (process_row cfg t r ob)) = Some x"
proof -
  obtain err ob1 where s: "send_with_bridge cfg (tn_env t) (tn_answer t) (or_bridge r) (or_recipient r) (or_body r) ob = (err, ob1)"
    by fastforce
  have l: "look i ob1 = Some x"
    using look_send [OF assms(2), of cfg "tn_env t" "tn_answer t" "or_bridge r" "or_recipient r" "or_body r"] by (simp add: s)
  moreover have "or_id x = i"
    using find_Some_mem [of "\<lambda>r. or_id r = i" "ob_rows ob" x] assms(2) by (simp add: look_def)
  ultimately show ?thesis
    using assms(1) by (simp add: process_row_def s record_failed_other look_update_row split: option.split)
qed

lemma process_rows_other:
  "i \<notin> or_id ` set rs \<Longrightarrow> look i ob = Some x \<Longrightarrow> look i (snd (process_rows cfg turns rs ob)) = Some x"
  by (induction rs arbitrary: ob) (auto simp: Let_def split_def process_row_other)

lemma process_rows_look:
  assumes "distinct (map or_id rs)"
    and "\<And>r. r \<in> set rs \<Longrightarrow> look (or_id r) ob = Some (r\<lparr>or_status := O_sending\<rparr>)"
    and "\<And>i. \<not> tn_fail_sent (turns i) \<and> \<not> tn_fail_error (turns i)"
  shows "\<exists>ks. fst (process_rows cfg turns rs ob) = ks \<and> length ks = length rs \<and> T_raised \<notin> set ks
    \<and> (\<forall>j<length rs. \<exists>y. look (or_id (rs ! j)) (snd (process_rows cfg turns rs ob)) = Some y
          \<and> settles (turns (or_id (rs ! j))) (rs ! j) (ks ! j) y)"
  using assms(1,2)
proof (induction rs arbitrary: ob)
  case Nil
  then show ?case by simp
next
  case (Cons r rs)
  let ?t = "turns (or_id r)"
  obtain k ob1 where p: "process_row cfg ?t r ob = (k, ob1)" by fastforce
  have r: "look (or_id r) ob = Some (r\<lparr>or_status := O_sending\<rparr>)" using Cons.prems(2) by simp
  obtain y where y: "look (or_id r) ob1 = Some y" "settles ?t r k y"
    using process_row_look [OF r, of ?t cfg] assms(3) by (auto simp: p)
  then have k: "k \<noteq> T_raised" by (auto simp: settles_def Let_def)
  have d: "or_id r \<notin> or_id ` set rs" "distinct (map or_id rs)" using Cons.prems(1) by auto
  have "look (or_id s) ob1 = Some (s\<lparr>or_status := O_sending\<rparr>)" if "s \<in> set rs" for s
  proof -
    have "or_id s \<noteq> or_id r" using d(1) that by (metis image_eqI)
    then show ?thesis
      using process_row_other [of "or_id s" r ob "s\<lparr>or_status := O_sending\<rparr>" cfg ?t] Cons.prems(2) that by (simp add: p)
  qed
  note IH = Cons.IH [OF d(2) this]
  have y': "look (or_id r) (snd (process_rows cfg turns rs ob1)) = Some y"
    by (rule process_rows_other [OF d(1) y(1)])
  have step: "process_rows cfg turns (r # rs) ob =
      (k # fst (process_rows cfg turns rs ob1), snd (process_rows cfg turns rs ob1))"
    by (simp add: p k Let_def split_def)
  show ?case
    unfolding step using IH y' y(2) k by (auto simp: nth_Cons split: nat.split)
qed

lemma claim_rows_simps:
  fixes e held limit ob
  defines "rows \<equiv> take limit (sort_key or_next (filter (due e held) (ob_rows ob)))"
  assumes "distinct (map or_id (ob_rows ob))"
  shows "fst (claim_rows e held limit ob) = rows"
    and "set rows \<subseteq> set (ob_rows ob)" and "r \<in> set rows \<Longrightarrow> due e held r"
    and "distinct (map or_id rows)"
    and "x \<in> set (ob_rows ob) \<Longrightarrow> look (or_id x) (snd (claim_rows e held limit ob)) =
      Some (if x \<in> set rows then x\<lparr>or_status := O_sending\<rparr> else x)"
proof -
  show f: "fst (claim_rows e held limit ob) = rows" by (simp add: claim_rows_def rows_def Let_def)
  show sub: "set rows \<subseteq> set (ob_rows ob)" by (auto simp: rows_def dest: in_set_takeD)
  show "r \<in> set rows \<Longrightarrow> due e held r" by (auto simp: rows_def dest: in_set_takeD)
  have "distinct (map or_id (sort_key or_next (filter (due e held) (ob_rows ob))))"
    using assms(2) by (simp add: distinct_map inj_on_def)
  then show "distinct (map or_id rows)" by (simp add: rows_def take_map [symmetric])
  assume x: "x \<in> set (ob_rows ob)"
  have "or_id x \<in> or_id ` set rows \<longleftrightarrow> x \<in> set rows"
    using distinct_key_unique [OF assms(2) x] sub by (auto simp: image_iff)
  then show "look (or_id x) (snd (claim_rows e held limit ob)) = Some (if x \<in> set rows then x\<lparr>or_status := O_sending\<rparr> else x)"
    using find_key_unique [OF assms(2) x]
    by (simp add: look_def claim_rows_def Let_def find_update_where_key flip: rows_def)
qed

lemma count_turns: "T_raised \<notin> set ks \<Longrightarrow> count_list ks T_sent + count_list ks T_failed + count_list ks T_dlq = length ks"
proof (induction ks)
  case (Cons k ks)
  then show ?case by (cases k) auto
qed simp

lemma sweep_once_ok:
  assumes "db_ok e"
  shows "sweep_once cfg e held turns limit ob =
    (let (rows, ob1) = claim_rows e held limit ob; (ks, ob2) = process_rows cfg turns rows ob1
     in (if T_raised \<in> set ks then Inl ()
         else Inr \<lparr>sc_picked = length rows, sc_sent = count_list ks T_sent,
                   sc_failed = count_list ks T_failed, sc_dlq = count_list ks T_dlq\<rparr>, ob2))"
  using assms by (simp add: sweep_once_def db_ok_pool db_ok_raises Let_def split_def)

text \<open>
  What a sweep does. When its statements succeed, \<open>sweep_once\<close> picks up to the
  limit of the due rows, those with the earliest retry time first; it tries each of
  them once, so that the row ends as sent, or as failed with its next retry
  \<open>2 ^ attempts\<close> minutes away while attempts remain, or in the dead-letter state at the
  limit, with exactly one more attempt counted; the counts it returns add up to the
  rows picked; and every other row stays as it was.
\<close>

theorem sweep_outcomes:
  assumes "distinct (map or_id (ob_rows ob))" and "db_ok e"
    and "\<And>i. \<not> tn_fail_sent (turns i) \<and> \<not> tn_fail_error (turns i)"
  shows "let rows = fst (claim_rows e held limit ob); (res, ob') = sweep_once cfg e held turns limit ob
    in (\<exists>c. res = Inr c \<and> sc_picked c = length rows \<and> sc_sent c + sc_failed c + sc_dlq c = length rows)
     \<and> length rows = min limit (count_where (due e held) (ob_rows ob))
     \<and> (\<forall>r\<in>set rows. due e held r \<and> (\<exists>k y. look (or_id r) ob' = Some y \<and> settles (turns (or_id r)) r k y))
     \<and> (\<forall>r\<in>set (ob_rows ob) - set rows. look (or_id r) ob' = Some r
          \<and> (due e held r \<longrightarrow> (\<forall>p\<in>set rows. or_next p \<le> or_next r)))"
proof -
  let ?sorted = "sort_key or_next (filter (due e held) (ob_rows ob))"
  let ?rows = "take limit ?sorted"
  obtain ob1 where c: "claim_rows e held limit ob = (?rows, ob1)"
    by (simp add: claim_rows_def Let_def)
  note cr = claim_rows_simps [OF assms(1), where e = e and held = held and limit = limit]
  have l: "look (or_id x) ob1 = Some (if x \<in> set ?rows then x\<lparr>or_status := O_sending\<rparr> else x)" if "x \<in> set (ob_rows ob)" for x
    using cr(5) [OF that] by (simp add: c)
  obtain ks ob2 where p: "process_rows cfg turns ?rows ob1 = (ks, ob2)" by fastforce
  have "look (or_id r) ob1 = Some (r\<lparr>or_status := O_sending\<rparr>)" if "r \<in> set ?rows" for r
    using l [of r] cr(2) that by auto
  from process_rows_look [where turns = turns and cfg = cfg, OF cr(4) this assms(3)]
  have ks: "length ks = length ?rows" "T_raised \<notin> set ks"
    and all: "\<And>j. j < length ?rows \<Longrightarrow>
      \<exists>y. look (or_id (?rows ! j)) ob2 = Some y \<and> settles (turns (or_id (?rows ! j))) (?rows ! j) (ks ! j) y"
    by (auto simp: p)
  have one: "\<exists>k y. look (or_id r) ob2 = Some y \<and> settles (turns (or_id r)) r k y" if "r \<in> set ?rows" for r
    using all that by (metis in_set_conv_nth)
  have rest: "look (or_id r) ob2 = Some r" if r: "r \<in> set (ob_rows ob)" "r \<notin> set ?rows" for r
  proof -
    have "or_id r \<notin> or_id ` set ?rows"
      using distinct_key_unique [OF assms(1) r(1)] cr(2) r(2) by (auto simp: image_iff)
    then show ?thesis
      using process_rows_other [of "or_id r" ?rows ob1 r cfg turns] l [OF r(1)] r(2) by (simp add: p)
  qed
  have later: "or_next q \<le> or_next r" if r: "r \<in> set (ob_rows ob)" "r \<notin> set ?rows" "due e held r" "q \<in> set ?rows" for q r
  proof -
    have "r \<in> set (take limit ?sorted @ drop limit ?sorted)" using r(1,3) by simp
    then have "r \<in> set (drop limit ?sorted)" using r(2) by (simp only: set_append) blast
    then show ?thesis using sorted_take_drop_le [of or_next ?sorted q limit r] r(4) by simp
  qed
  have len: "length ?rows = min limit (count_where (due e held) (ob_rows ob))"
    by (simp add: count_where_def min.commute)
  have s: "sweep_once cfg e held turns limit ob = (Inr \<lparr>sc_picked = length ?rows, sc_sent = count_list ks T_sent,
      sc_failed = count_list ks T_failed, sc_dlq = count_list ks T_dlq\<rparr>, ob2)"
    unfolding sweep_once_ok [OF assms(2)] c using ks(2) by (simp only: Let_def prod.case p if_False)
  show ?thesis
    unfolding s c Let_def prod.case fst_conv
  proof (intro conjI)
    show "\<exists>c. Inr \<lparr>sc_picked = length ?rows, sc_sent = count_list ks T_sent, sc_failed = count_list ks T_failed,
        sc_dlq = count_list ks T_dlq\<rparr> = Inr c \<and> sc_picked c = length ?rows \<and> sc_sent c + sc_failed c + sc_dlq c = length ?rows"
      unfolding sum.inject using count_turns [OF ks(2)] ks(1) by auto
    show "length ?rows = min limit (count_where (due e held) (ob_rows ob))" by (rule len)
    show "\<forall>r\<in>set ?rows. due e held r \<and> (\<exists>k y. look (or_id r) ob2 = Some y \<and> settles (turns (or_id r)) r k y)"
      using cr(3) one by blast
    show "\<forall>r\<in>set (ob_rows ob) - set ?rows. look (or_id r) ob2 = Some r
          \<and> (due e held r \<longrightarrow> (\<forall>p\<in>set ?rows. or_next p \<le> or_next r))"
      using rest later by blast
  qed
qed

definition sample_config :: out_config where
  "sample_config = \<lparr>cf_enabled = ''true'', cf_admins = ''8801'', cf_max = 3, cf_minute = (\<lambda>_. ''202601010000''),
     cf_error_text = (\<lambda>_. ''http 500''), cf_db_error = ''db''\<rparr>"

definition empty_outbound :: outbound where
  "empty_outbound = \<lparr>ob_rows = [], ob_next = 1, ob_br1 = new_breaker, ob_br2 = new_breaker, ob_errors = []\<rparr>"

definition sample_outbound :: outbound where
  "sample_outbound = snd (enqueue sample_config (env_at 0) ''8801'' ''hi'' ''bridge2'' None (Some ''k'') [] empty_outbound)"

definition sample_turn :: "http_answer \<Rightarrow> row_turn" where
  "sample_turn a = \<lparr>tn_env = env_at (secs 10), tn_answer = a, tn_fail_sent = False, tn_fail_error = False\<rparr>"

lemma sample_outbound_rows:
  "ob_rows sample_outbound = [\<lparr>or_id = 1, or_recipient = ''8801'', or_body = ''hi'', or_bridge = ''bridge2'', or_purpose = None,
     or_key = Some ''k'', or_meta = [], or_status = O_pending, or_attempts = 0, or_max = 3, or_next = 0,
     or_sent_at = None, or_error = None\<rparr>]"
  by (simp add: sample_outbound_def enqueue_def empty_outbound_def sample_config_def has_row_def)

theorem sweep_outcomes_witness:
  "\<exists>y. look 1 (snd (sweep_once sample_config (env_at (secs 10)) [] (\<lambda>_. sample_turn (Http_status 500)) 20 sample_outbound)) = Some y
     \<and> or_attempts y = 1"
proof -
  have d: "distinct (map or_id (ob_rows sample_outbound))" by (simp add: sample_outbound_rows)
  have t: "\<not> tn_fail_sent (sample_turn (Http_status 500)) \<and> \<not> tn_fail_error (sample_turn (Http_status 500))"
    by (simp add: sample_turn_def)
  have "fst (claim_rows (env_at (secs 10)) [] 20 sample_outbound) = ob_rows sample_outbound"
    by (simp add: claim_rows_def sample_outbound_rows due_def secs_def)
  then show ?thesis
    using sweep_outcomes [where turns = "\<lambda>_. sample_turn (Http_status 500)", OF d db_ok_env_at [of "secs 10"] t, of "[]" 20 sample_config]
    by (auto simp: Let_def split_def sample_outbound_rows settles_def sent_row_def dlq_row_def failed_row_def)
qed

subsection \<open>Interleaved workers\<close>

text \<open>
  A state of the system is the queue and the rows that running sweeps have claimed and
  not yet processed. Sweeps of several processes interleave: a claim and the processing
  of one claimed row are the atomic steps, and a worker may die with rows in hand.
\<close>

definition row_ok :: "out_row \<Rightarrow> bool" where
  "row_ok r \<longleftrightarrow> or_attempts r \<le> or_max r \<and> (or_status r \<in> {O_pending, O_sending, O_failed} \<longrightarrow> or_attempts r < or_max r)"

definition out_inv :: "outbound \<times> out_row list \<Rightarrow> bool" where
  "out_inv s \<longleftrightarrow> (case s of (ob, claimed) \<Rightarrow>
     distinct (map or_id (ob_rows ob)) \<and> (\<forall>r\<in>set (ob_rows ob). or_id r < ob_next ob \<and> row_ok r)
     \<and> distinct (filter (\<lambda>k. k \<noteq> None) (map or_key (ob_rows ob)))
     \<and> distinct (map or_id claimed) \<and> (\<forall>r\<in>set claimed. r\<lparr>or_status := O_sending\<rparr> \<in> set (ob_rows ob)))"

definition out_start :: "outbound \<times> out_row list \<Rightarrow> bool" where
  "out_start s \<longleftrightarrow> ob_rows (fst s) = [] \<and> snd s = []"

inductive out_step :: "outbound \<times> out_row list \<Rightarrow> outbound \<times> out_row list \<Rightarrow> bool" where
  enqueue: "0 < cf_max cfg \<Longrightarrow> out_step (ob, cl) (snd (enqueue cfg e rc bd br pu k m ob), cl)"
| claim: "claim_rows e held limit ob = (rows, ob') \<Longrightarrow> out_step (ob, cl) (ob', cl @ rows)"
| process: "0 < cf_max cfg \<Longrightarrow> r \<in> set cl \<Longrightarrow>
    out_step (ob, cl) (snd (process_row cfg t r ob), filter (\<lambda>s. or_id s \<noteq> or_id r) cl)"
| die: "set cl' \<subseteq> set cl \<Longrightarrow> distinct (map or_id cl') \<Longrightarrow> out_step (ob, cl) (ob, cl')"
| log: "out_step (ob, cl) (ob\<lparr>ob_errors := es\<rparr>, cl)"

lemma enqueue_inv: "0 < cf_max cfg \<Longrightarrow> out_inv (ob, cl) \<Longrightarrow> out_inv (snd (enqueue cfg e rc bd br pu k m ob), cl)"
  by (auto simp: out_inv_def enqueue_def has_row_iff row_ok_def)

lemma set_breaker_inv: "out_inv (set_breaker br b ob, cl) = out_inv (ob, cl)"
  by (simp add: out_inv_def)

lemma send_inv:
  "0 < cf_max cfg \<Longrightarrow> out_inv (ob, cl) \<Longrightarrow> out_inv (snd (send_with_bridge cfg e a br rc bd ob), cl)"
  by (rule send_preserves [where Q = "\<lambda>ob. out_inv (ob, cl)"]) (simp_all add: set_breaker_inv enqueue_inv)

lemma claim_inv:
  assumes "out_inv (ob, cl)"
  shows "out_inv (snd (claim_rows e held limit ob), cl @ fst (claim_rows e held limit ob))"
proof -
  let ?rows = "fst (claim_rows e held limit ob)"
  let ?ob = "snd (claim_rows e held limit ob)"
  have d: "distinct (map or_id (ob_rows ob))" and ids: "\<And>r. r \<in> set (ob_rows ob) \<Longrightarrow> or_id r < ob_next ob \<and> row_ok r"
    and k: "distinct (filter (\<lambda>k. k \<noteq> None) (map or_key (ob_rows ob)))" and dc: "distinct (map or_id cl)"
    and c: "\<And>r. r \<in> set cl \<Longrightarrow> r\<lparr>or_status := O_sending\<rparr> \<in> set (ob_rows ob)"
    using assms by (auto simp: out_inv_def)
  note cr = claim_rows_simps [OF d, where e = e and held = held and limit = limit, folded claim_rows_simps(1) [OF d]]
  have rows: "ob_rows ?ob = update_where (\<lambda>r. or_id r \<in> or_id ` set ?rows) (\<lambda>r. r\<lparr>or_status := O_sending\<rparr>) (ob_rows ob)"
    "ob_next ?ob = ob_next ob"
    by (simp_all add: claim_rows_def Let_def)
  have pick: "x \<in> set ?rows" if x: "or_id x \<in> or_id ` set ?rows" "x \<in> set (ob_rows ob)" for x
  proof -
    obtain y where y: "y \<in> set ?rows" "or_id x = or_id y" using x(1) by auto
    then have "x = y" using distinct_key_unique [OF d x(2), of y] cr(2) by auto
    with y show ?thesis by simp
  qed
  have due: "or_status x \<in> {O_pending, O_failed}" if "x \<in> set ?rows" for x
    using cr(3) [OF that] by (simp add: due_def)
  have ok: "row_ok (x\<lparr>or_status := O_sending\<rparr>)" if "x \<in> set ?rows" for x
    using ids [of x] due [OF that] cr(2) that by (auto simp: row_ok_def)
  have disj: "or_id r \<notin> or_id ` set ?rows" if "r \<in> set cl" for r
    using pick [of "r\<lparr>or_status := O_sending\<rparr>"] due [of "r\<lparr>or_status := O_sending\<rparr>"] c [OF that] by auto
  have "distinct (map or_id (ob_rows ?ob))" using d by (simp add: rows table_keys)
  moreover have "map or_key (ob_rows ?ob) = map or_key (ob_rows ob)" by (simp add: rows table_keys)
  moreover have "\<forall>r\<in>set (ob_rows ?ob). or_id r < ob_next ?ob \<and> row_ok r"
    unfolding rows ball_update_where
  proof
    fix r
    assume r: "r \<in> set (ob_rows ob)"
    show "if or_id r \<in> or_id ` set ?rows then or_id (r\<lparr>or_status := O_sending\<rparr>) < ob_next ob \<and> row_ok (r\<lparr>or_status := O_sending\<rparr>)
      else or_id r < ob_next ob \<and> row_ok r"
      using ids [OF r] ok [OF pick [OF _ r]] by simp
  qed
  moreover have "distinct (map or_id (cl @ ?rows))" using dc cr(4) disj by auto
  moreover have "r\<lparr>or_status := O_sending\<rparr> \<in> set (ob_rows ?ob)" if "r \<in> set cl" for r
    using c [OF that] disj [OF that] unfolding rows mem_update_where by simp
  moreover have "r\<lparr>or_status := O_sending\<rparr> \<in> set (ob_rows ?ob)" if "r \<in> set ?rows" for r
    using cr(2) that unfolding rows mem_update_where by blast
  ultimately show ?thesis using k by (auto simp: out_inv_def)
qed

lemma update_row_inv:
  assumes "out_inv (ob, cl)" "r \<in> set cl"
    and "\<And>x. or_id (f x) = or_id x" "\<And>x. or_key (f x) = or_key x" "row_ok (f (r\<lparr>or_status := O_sending\<rparr>))"
  shows "out_inv (update_row (or_id r) f ob, filter (\<lambda>s. or_id s \<noteq> or_id r) cl)"
proof -
  have d: "distinct (map or_id (ob_rows ob))" and r: "r\<lparr>or_status := O_sending\<rparr> \<in> set (ob_rows ob)"
    using assms(1,2) by (auto simp: out_inv_def)
  have "x = r\<lparr>or_status := O_sending\<rparr>" if "x \<in> set (ob_rows ob)" "or_id x = or_id r" for x
    using distinct_key_unique [OF d that(1) r] that(2) by simp
  then show ?thesis
    using assms(1,3-5)
    by (auto simp: out_inv_def update_row_def table_keys ball_update_where mem_update_where distinct_map_filter)
qed

lemma inv_filter: "out_inv (ob, cl) \<Longrightarrow> out_inv (ob, filter P cl)"
  by (auto simp: out_inv_def distinct_map_filter)

lemma inv_errors: "out_inv (ob\<lparr>ob_errors := es\<rparr>, cl) = out_inv (ob, cl)"
  by (simp add: out_inv_def)

lemma claimed_ok: "out_inv (ob, cl) \<Longrightarrow> r \<in> set cl \<Longrightarrow> or_attempts r < or_max r"
  by (fastforce simp: out_inv_def row_ok_def)

lemma record_failed_inv:
  assumes "out_inv (ob, cl)" "r \<in> set cl"
  shows "out_inv (snd (record_failed t r msg ob), filter (\<lambda>s. or_id s \<noteq> or_id r) cl)"
proof -
  have a: "or_attempts r < or_max r" using claimed_ok [OF assms] .
  have k: "or_key (dlq_row n err x) = or_key x" "or_key (failed_row now n err x) = or_key x" for n err x now
    by (simp_all add: dlq_row_def failed_row_def)
  have "row_ok (dlq_row (or_attempts r + 1) (take 500 msg) (r\<lparr>or_status := O_sending\<rparr>))"
    using a by (simp add: row_ok_def dlq_row_def)
  note dlq = update_row_inv [OF assms, where f = "dlq_row (or_attempts r + 1) (take 500 msg)", OF row_update_ids(2) k(1) this]
  have "row_ok (failed_row now (or_attempts r + 1) (take 500 msg) (r\<lparr>or_status := O_sending\<rparr>))"
    if "or_attempts r + 1 < or_max r" for now
    using that by (simp add: row_ok_def failed_row_def)
  note failed = update_row_inv [OF assms, where f = "failed_row (db_now (tn_env t)) (or_attempts r + 1) (take 500 msg)",
      OF row_update_ids(3) k(2) this]
  show ?thesis
    using dlq failed inv_filter [OF assms(1)] by (simp add: record_failed_def Let_def inv_errors)
qed

lemma process_inv:
  assumes "0 < cf_max cfg" "out_inv (ob, cl)" "r \<in> set cl"
  shows "out_inv (snd (process_row cfg t r ob), filter (\<lambda>s. or_id s \<noteq> or_id r) cl)"
proof -
  obtain err ob1 where s: "send_with_bridge cfg (tn_env t) (tn_answer t) (or_bridge r) (or_recipient r) (or_body r) ob = (err, ob1)"
    by fastforce
  have i: "out_inv (ob1, cl)"
    using send_inv [OF assms(1,2), of "tn_env t" "tn_answer t" "or_bridge r" "or_recipient r" "or_body r"] by (simp add: s)
  have k: "or_key (sent_row now n x) = or_key x" for now n x by (simp add: sent_row_def)
  have "row_ok (sent_row (db_now (tn_env t)) (or_attempts r + 1) (r\<lparr>or_status := O_sending\<rparr>))"
    using claimed_ok [OF i assms(3)] by (simp add: row_ok_def sent_row_def)
  note sent = update_row_inv [OF i assms(3), where f = "sent_row (db_now (tn_env t)) (or_attempts r + 1)",
      OF row_update_ids(1) k this]
  show ?thesis
    using sent record_failed_inv [OF i assms(3)] by (simp add: process_row_def s split: option.split)
qed

interpretation out_system: invariant_system out_start out_step out_inv
proof unfold_locales
  show "out_start s \<Longrightarrow> out_inv s" for s by (auto simp: out_start_def out_inv_def split: prod.split)
  show "out_step s t \<Longrightarrow> out_inv s \<Longrightarrow> out_inv t" for s t
  proof (induction rule: out_step.induct)
    case (claim e held limit ob rows ob' cl)
    then show ?case using claim_inv [of ob cl e held limit] by simp
  next
    case (die cl' cl ob)
    then show ?case by (auto simp: out_inv_def)
  qed (simp_all add: enqueue_inv process_inv inv_errors)
qed

lemma process_row_keeps:
  assumes "look i ob = Some x"
  shows "\<exists>y. look i (snd (process_row cfg t r ob)) = Some y"
proof -
  obtain err ob1 where s: "send_with_bridge cfg (tn_env t) (tn_answer t) (or_bridge r) (or_recipient r) (or_body r) ob = (err, ob1)"
    by fastforce
  have "look i ob1 = Some x"
    using look_send [OF assms, of cfg "tn_env t" "tn_answer t" "or_bridge r" "or_recipient r" "or_body r"] by (simp add: s)
  then show ?thesis
    by (simp add: process_row_def s record_failed_def Let_def look_update_row split: option.split)
qed

definition out_final :: "out_row \<Rightarrow> bool" where
  "out_final r \<longleftrightarrow> or_status r \<in> {O_sent, O_dlq}"

lemma look_iff: "distinct (map or_id (ob_rows ob)) \<Longrightarrow> look i ob = Some x \<longleftrightarrow> x \<in> set (ob_rows ob) \<and> or_id x = i"
  using find_key_unique [of or_id "ob_rows ob" x] find_Some_mem [of "\<lambda>r. or_id r = i" "ob_rows ob"]
  by (auto simp: look_def)

lemma step_final_row:
  assumes "out_step s t" "out_inv s" "look i (fst s) = Some x"
  shows "\<exists>y. look i (fst t) = Some y \<and> (y = x \<or> \<not> out_final x)"
  using assms
proof (induction rule: out_step.induct)
  case (enqueue cfg ob cl e rc bd br pu k m)
  then show ?case by (simp add: look_enqueue)
next
  case (claim e held limit ob rows ob' cl)
  have d: "distinct (map or_id (ob_rows ob))" using claim.prems(1) by (simp add: out_inv_def)
  have x: "x \<in> set (ob_rows ob)" "or_id x = i" using claim.prems(2) look_iff [OF d] by auto
  note cr = claim_rows_simps [OF d, where e = e and held = held and limit = limit, folded claim_rows_simps(1) [OF d]]
  show ?case using cr(3) [of x] cr(5) [OF x(1)] x(2) claim.hyps by (auto simp: due_def out_final_def)
next
  case (process cfg r cl ob t)
  have d: "distinct (map or_id (ob_rows ob))" and r: "r\<lparr>or_status := O_sending\<rparr> \<in> set (ob_rows ob)"
    using process.prems(1) process.hyps(2) by (auto simp: out_inv_def)
  show ?case
  proof (cases "i = or_id r")
    case False
    then show ?thesis using process_row_other [OF False] process.prems(2) by simp
  next
    case True
    have "x \<in> set (ob_rows ob)" "or_id x = or_id (r\<lparr>or_status := O_sending\<rparr>)"
      using process.prems(2) True unfolding fst_conv look_iff [OF d] by simp_all
    then have "x = r\<lparr>or_status := O_sending\<rparr>" by (rule distinct_key_unique [OF d _ r])
    moreover have "\<exists>y. look i (snd (process_row cfg t r ob)) = Some y"
      using process_row_keeps process.prems(2) by simp
    ultimately show ?thesis by (auto simp: out_final_def)
  qed
next
  case (die cl' cl ob)
  then show ?case by simp
next
  case (log ob cl es)
  then show ?case by simp
qed

definition wf_out_step :: "outbound \<times> out_row list \<Rightarrow> outbound \<times> out_row list \<Rightarrow> bool" where
  "wf_out_step s t \<longleftrightarrow> out_inv s \<and> out_step s t"

interpretation out_machine: status_machine "\<lambda>s i. look i (fst s)" wf_out_step "\<lambda>x y. \<not> out_final x" out_final
proof unfold_locales
  show "wf_out_step s t \<Longrightarrow> look i (fst s) = Some v \<Longrightarrow> \<exists>w. look i (fst t) = Some w \<and> (w = v \<or> \<not> out_final v)" for s t i v
    unfolding wf_out_step_def using step_final_row [of s t i v] by blast
qed simp

lemma out_steps_wf: "out_step\<^sup>*\<^sup>* s t \<Longrightarrow> out_inv s \<Longrightarrow> wf_out_step\<^sup>*\<^sup>* s t"
proof (induction rule: rtranclp_induct)
  case (step t u)
  have "out_inv t" using out_system.steps_inv [OF step.hyps(1) step.prems] .
  then show ?case using step by (auto simp: wf_out_step_def intro: rtranclp.rtrancl_into_rtrancl)
qed simp

lemma process_rows_reach:
  assumes "0 < cf_max cfg" "reach out_start out_step (ob, cl @ rs)"
  shows "reach out_start out_step (snd (process_rows cfg turns rs ob), cl)"
  using assms(2)
proof (induction rs arbitrary: ob)
  case Nil
  then show ?case by simp
next
  case (Cons r rs)
  let ?p = "process_row cfg (turns (or_id r)) r ob"
  have d: "distinct (map or_id (cl @ r # rs))"
    using out_system.reach_inv [OF Cons.prems] by (simp add: out_inv_def)
  then have "filter (\<lambda>s. or_id s \<noteq> or_id r) (cl @ r # rs) = cl @ rs"
    by (simp add: filter_key_absent)
  then have step: "reach out_start out_step (snd ?p, cl @ rs)"
    using reach_step [OF Cons.prems out_step.process [OF assms(1), of r "cl @ r # rs" ob "turns (or_id r)"]] by simp
  have "reach out_start out_step (snd ?p, cl)"
    by (rule reach_step [OF step out_step.die]) (use d in auto)
  then show ?case using Cons.IH [OF step] by (simp add: Let_def split_def)
qed

lemma worker_turn_reach:
  assumes "0 < cf_max cfg" "reach out_start out_step (ob, cl)"
  shows "reach out_start out_step (worker_turn cfg e held turns ob, cl)"
proof -
  obtain rows ob1 where c: "claim_rows e held 20 ob = (rows, ob1)" by fastforce
  have "reach out_start out_step (ob1, cl @ rows)" by (rule reach_step [OF assms(2) out_step.claim [OF c]])
  note p = process_rows_reach [OF assms(1) this, of turns]
  have s: "snd (sweep_once cfg e held turns 20 ob) \<in> {ob, snd (process_rows cfg turns rows ob1)}"
    by (simp add: sweep_once_def c Let_def split_def)
  then have "reach out_start out_step (snd (sweep_once cfg e held turns 20 ob), cl)"
    using p assms(2) by auto
  moreover from reach_step [OF this out_step.log]
  have "reach out_start out_step ((snd (sweep_once cfg e held turns 20 ob))\<lparr>ob_errors := es\<rparr>, cl)" for es .
  ultimately show ?thesis by (simp add: worker_turn_def split_def split: sum.split)
qed

text \<open>
  C38: What holds of every reachable outbound queue. Starting from an empty table, with
  a positive attempt limit, after any interleaving of enqueues, claims and processing
  by any number of workers (whose statements may raise, and which may die with rows in
  hand): ids and idempotency keys are unique; no row has more attempts than its limit;
  no row is claimed by two sweeps at once, and a claimed row is stored as being sent
  with the attempts its sweep read; a row once sent or in the dead-letter state never
  changes again; and every turn of the worker, raising or not, is such a sequence of
  steps.
\<close>

theorem outbound_reachable:
  assumes "reach out_start out_step (ob, claimed)"
  shows "distinct (map or_id (ob_rows ob)) \<and> distinct (filter (\<lambda>k. k \<noteq> None) (map or_key (ob_rows ob)))
    \<and> (\<forall>r\<in>set (ob_rows ob). or_attempts r \<le> or_max r)
    \<and> distinct (map or_id claimed) \<and> (\<forall>r\<in>set claimed. look (or_id r) ob = Some (r\<lparr>or_status := O_sending\<rparr>))
    \<and> (\<forall>i x ob' claimed'. look i ob = Some x \<and> or_status x \<in> {O_sent, O_dlq}
          \<and> out_step\<^sup>*\<^sup>* (ob, claimed) (ob', claimed') \<longrightarrow> look i ob' = Some x)
    \<and> (\<forall>cfg e held turns. 0 < cf_max cfg \<longrightarrow> reach out_start out_step (worker_turn cfg e held turns ob, claimed))"
proof -
  have inv: "out_inv (ob, claimed)" using out_system.reach_inv [OF assms] .
  then have d: "distinct (map or_id (ob_rows ob))" by (simp add: out_inv_def)
  have f: "look i ob' = Some x"
    if "look i ob = Some x" "or_status x \<in> {O_sent, O_dlq}" "out_step\<^sup>*\<^sup>* (ob, claimed) (ob', claimed')" for i x ob' claimed'
    using out_machine.final_stays [OF out_steps_wf [OF that(3) inv], of i x] that(1,2) by (simp add: out_final_def)
  have c: "look (or_id r) ob = Some (r\<lparr>or_status := O_sending\<rparr>)" if "r \<in> set claimed" for r
    using inv that by (simp add: look_iff [OF d] out_inv_def)
  have "\<forall>r\<in>set (ob_rows ob). or_attempts r \<le> or_max r" using inv by (auto simp: out_inv_def row_ok_def)
  moreover have "distinct (filter (\<lambda>k. k \<noteq> None) (map or_key (ob_rows ob)))" "distinct (map or_id claimed)"
    using inv by (simp_all add: out_inv_def)
  ultimately show ?thesis using d f c worker_turn_reach [OF _ assms] by blast
qed

theorem outbound_reachable_witness:
  "list_all (\<lambda>r. or_attempts r \<le> or_max r)
     (ob_rows (worker_turn sample_config (env_at (secs 10)) [] (\<lambda>_. sample_turn (Http_status 500)) sample_outbound))"
proof -
  have e: "reach out_start out_step (empty_outbound, [])"
    by (rule reach_start) (simp add: out_start_def empty_outbound_def)
  have m: "0 < cf_max sample_config" by (simp add: sample_config_def)
  have "reach out_start out_step (sample_outbound, [])"
    unfolding sample_outbound_def by (rule reach_step [OF e]) (rule out_step.enqueue [OF m])
  from outbound_reachable [OF worker_turn_reach [OF m this]] show ?thesis unfolding list_all_iff by blast
qed

end
