(* ===== verification/Phone_Numbers.thy ===== *)
theory Phone_Numbers
  imports Fazle_Prelude
begin

text \<open>
  Phone numbers: \<open>app/critical_numbers.py\<close> (\<open>normalize_phone_880\<close>),
  \<open>modules/number_identity\<close> (canonical form and last ten digits),
  \<open>modules/fazle_payroll_engine/normalizer.py\<close> (\<open>normalize_bd_phone\<close>, \<open>jid_to_phone\<close>)
  and \<open>shared/phone.py\<close>. Text is the list of its Unicode code points, since the code
  translates Bengali digits. Which code points are decimal digits (\<open>\d\<close> of a regular
  expression), digits (\<open>str.isdigit\<close>) and white space (\<open>\s\<close>) is an argument, as the
  Unicode tables are not part of the program.
\<close>

type_synonym ustring = "nat list"

definition cp :: "string \<Rightarrow> ustring" where
  "cp s = map of_char s"

definition starts :: "'a list \<Rightarrow> 'a list \<Rightarrow> bool" where
  "starts p s \<longleftrightarrow> take (length p) s = p"

definition ascii_digit :: "nat \<Rightarrow> bool" where
  "ascii_digit c \<longleftrightarrow> 48 \<le> c \<and> c \<le> 57"

definition bengali_digit :: "nat \<Rightarrow> bool" where
  "bengali_digit c \<longleftrightarrow> 2534 \<le> c \<and> c \<le> 2543"

definition BENGALI_DIGITS :: "nat \<Rightarrow> nat" where
  "BENGALI_DIGITS c = (if bengali_digit c then c - 2534 + 48 else c)"

definition phone_digits :: "(nat \<Rightarrow> bool) \<Rightarrow> ustring \<Rightarrow> ustring" where
  "phone_digits nd raw = filter nd (map BENGALI_DIGITS raw)"

definition strip_country :: "ustring \<Rightarrow> ustring" where
  "strip_country d =
     (if starts [56, 56, 48] d \<and> length d \<ge> 13 then drop 3 d
      else if starts [56, 56] d \<and> length d \<ge> 12 then drop 2 d else d)"

definition add_zero :: "ustring \<Rightarrow> ustring" where
  "add_zero d = (if length d = 10 \<and> starts [49] d then 48 # d else d)"

definition normalize_bd_phone :: "(nat \<Rightarrow> bool) \<Rightarrow> ustring option \<Rightarrow> ustring option" where
  "normalize_bd_phone nd raw =
     (case raw of
        None \<Rightarrow> None
      | Some s \<Rightarrow>
          (let d = phone_digits nd s
           in if d = [] then None
              else let d2 = add_zero (strip_country d)
                   in if length d2 \<noteq> 11 \<or> \<not> starts [48, 49] d2 then None else Some d2))"

definition normalize_phone_880 :: "(nat \<Rightarrow> bool) \<Rightarrow> ustring \<Rightarrow> ustring" where
  "normalize_phone_880 isd raw =
     (let d = filter isd raw
      in if d = [] then []
         else if starts [56, 56, 48] d \<and> length d = 13 then d
         else if starts [48] d \<and> length d = 11 then [56, 56] @ d
         else if starts [49] d \<and> length d = 10 then [56, 56, 48] @ d
         else if length d > 13 \<and> py_suffix 2 d = [48, 49] then []
         else if length d = 13 \<and> starts [56, 56, 48] d then d else [])"

definition canonical_phone :: "(nat \<Rightarrow> bool) \<Rightarrow> ustring \<Rightarrow> ustring" where
  "canonical_phone isd raw =
     (if raw = [] then [] else if starts (cp ''unresolved:'') raw then raw else normalize_phone_880 isd raw)"

definition phone_last10 :: "(nat \<Rightarrow> bool) \<Rightarrow> ustring \<Rightarrow> ustring" where
  "phone_last10 isd raw = (let d = filter isd raw in if length d \<ge> 10 then py_suffix 10 d else d)"

definition normalize_phone :: "(nat \<Rightarrow> bool) \<Rightarrow> ustring option \<Rightarrow> ustring" where
  "normalize_phone isd raw = (case raw of None \<Rightarrow> [] | Some s \<Rightarrow> if s = [] then [] else canonical_phone isd s)"

definition phones_match :: "(nat \<Rightarrow> bool) \<Rightarrow> ustring option \<Rightarrow> ustring option \<Rightarrow> bool" where
  "phones_match isd a b \<longleftrightarrow>
     (case (a, b) of
        (Some x, Some y) \<Rightarrow> x \<noteq> [] \<and> y \<noteq> [] \<and>
          (let s = phone_last10 isd x; t = phone_last10 isd y in s \<noteq> [] \<and> t \<noteq> [] \<and> s = t)
      | _ \<Rightarrow> False)"

fun has_infix :: "'a list \<Rightarrow> 'a list \<Rightarrow> bool" where
  "has_infix p [] = (p = [])"
| "has_infix p (c # s) = (starts p (c # s) \<or> has_infix p s)"

definition jid_to_phone :: "(nat \<Rightarrow> bool) \<Rightarrow> ustring \<Rightarrow> ustring option" where
  "jid_to_phone nd jid =
     (if has_infix (cp ''@s.whatsapp.net'') jid
      then normalize_bd_phone nd (Some (takeWhile (\<lambda>c. c \<noteq> 64) jid)) else None)"

subsection \<open>Candidates in free text\<close>

fun drop_noise :: "(nat \<Rightarrow> bool) \<Rightarrow> (nat \<Rightarrow> bool) \<Rightarrow> ustring \<Rightarrow> ustring" where
  \<comment> \<open>removes each white space or hyphen that stands between two digits\<close>
  "drop_noise nd ws (a # b # c # s) =
     (if nd a \<and> (ws b \<or> b = 45) \<and> nd c then a # drop_noise nd ws (c # s) else a # drop_noise nd ws (b # c # s))"
| "drop_noise nd ws s = s"

definition bd_core :: "ustring \<Rightarrow> bool" where
  "bd_core s \<longleftrightarrow> length s \<ge> 11 \<and> s ! 0 = 48 \<and> 49 \<le> s ! 1 \<and> s ! 1 \<le> 57 \<and> list_all ascii_digit (take 9 (drop 2 s))"

definition bd_match :: "ustring \<Rightarrow> nat option" where
  \<comment> \<open>the length of the match of the loose pattern at the start of \<open>s\<close>, its optional prefix tried first\<close>
  "bd_match s =
     (if starts [43, 56, 56, 48] s \<and> bd_core (drop 4 s) then Some 15
      else if starts [56, 56, 48] s \<and> bd_core (drop 3 s) then Some 14
      else if bd_core s then Some 11 else None)"

function find_phones :: "ustring \<Rightarrow> ustring list" where
  "find_phones [] = []"
| "find_phones (c # s) = (case bd_match (c # s) of
     Some n \<Rightarrow> take n (c # s) # find_phones (drop n (c # s)) | None \<Rightarrow> find_phones s)"
  by pat_completeness auto
termination
  by (relation "measure length") (auto simp: bd_match_def split: if_splits)

fun add_candidates :: "(nat \<Rightarrow> bool) \<Rightarrow> ustring list \<Rightarrow> ustring list \<Rightarrow> ustring list" where
  "add_candidates nd [] result = result"
| "add_candidates nd (p # ps) result =
     (case normalize_bd_phone nd (Some p) of
        Some c \<Rightarrow> add_candidates nd ps (if c \<in> set result then result else result @ [c])
      | None \<Rightarrow> add_candidates nd ps result)"

definition extract_phone_candidates :: "(nat \<Rightarrow> bool) \<Rightarrow> (nat \<Rightarrow> bool) \<Rightarrow> ustring option \<Rightarrow> ustring list" where
  "extract_phone_candidates nd ws txt =
     (case txt of None \<Rightarrow> [] | Some s \<Rightarrow> if s = [] then [] else add_candidates nd (find_phones (drop_noise nd ws s)) [])"

subsection \<open>Normal forms\<close>

definition digit_table :: "(nat \<Rightarrow> bool) \<Rightarrow> bool" where
  \<comment> \<open>documented of \<open>\d\<close> and \<open>str.isdigit\<close>: they accept 0 to 9 and no other ASCII character\<close>
  "digit_table nd \<longleftrightarrow> (\<forall>c. ascii_digit c \<longrightarrow> nd c) \<and> (\<forall>c<128. nd c \<longrightarrow> ascii_digit c)"

definition canonical_bd :: "ustring \<Rightarrow> bool" where
  "canonical_bd p \<longleftrightarrow> length p = 11 \<and> starts [48, 49] p \<and> list_all ascii_digit p"

definition plain :: "(nat \<Rightarrow> bool) \<Rightarrow> ustring \<Rightarrow> bool" where
  "plain nd s \<longleftrightarrow> (\<forall>c\<in>set s. nd c \<longrightarrow> ascii_digit c \<or> bengali_digit c)"

lemma translate_digit: "nd (BENGALI_DIGITS c) \<Longrightarrow> nd c \<longrightarrow> ascii_digit c \<or> bengali_digit c \<Longrightarrow> ascii_digit (BENGALI_DIGITS c)"
  by (auto simp: BENGALI_DIGITS_def ascii_digit_def bengali_digit_def split: if_splits)

lemma phone_digits_ascii: "plain nd s \<Longrightarrow> list_all ascii_digit (phone_digits nd s)"
  by (auto simp: phone_digits_def plain_def list_all_iff dest: translate_digit)

lemma strip_add_ascii: "list_all ascii_digit d \<Longrightarrow> list_all ascii_digit (add_zero (strip_country d))"
  by (auto simp: strip_country_def add_zero_def list_all_iff ascii_digit_def dest: in_set_dropD)

lemma normalize_Some:
  "normalize_bd_phone nd (Some s) = Some p \<longleftrightarrow>
    phone_digits nd s \<noteq> [] \<and> p = add_zero (strip_country (phone_digits nd s)) \<and> length p = 11 \<and> starts [48, 49] p"
  by (auto simp: normalize_bd_phone_def Let_def)

lemma normalize_canonical: "plain nd s \<Longrightarrow> normalize_bd_phone nd (Some s) = Some p \<Longrightarrow> canonical_bd p"
  by (auto simp: normalize_Some canonical_bd_def intro: strip_add_ascii phone_digits_ascii)

lemma ascii_phone_digits:
  assumes "digit_table nd" "\<forall>c\<in>set s. c < 128"
  shows "phone_digits nd s = filter ascii_digit s" "filter nd s = filter ascii_digit s"
proof -
  have "map BENGALI_DIGITS s = s"
    using assms(2) by (intro map_idI) (auto simp: BENGALI_DIGITS_def bengali_digit_def)
  moreover show "filter nd s = filter ascii_digit s"
    using assms by (intro filter_cong) (auto simp: digit_table_def)
  ultimately show "phone_digits nd s = filter ascii_digit s" by (simp add: phone_digits_def)
qed

lemma ascii_digits_small: "list_all ascii_digit p \<Longrightarrow> \<forall>c\<in>set p. c < 128"
  by (auto simp: list_all_iff ascii_digit_def)

lemma filter_ascii_id: "list_all ascii_digit p \<Longrightarrow> filter ascii_digit p = p"
  by (simp add: list_all_iff filter_id_conv)

lemma normalize_idem:
  assumes "digit_table nd" "canonical_bd p"
  shows "normalize_bd_phone nd (Some p) = Some p"
proof -
  have "phone_digits nd p = p"
    using assms ascii_phone_digits(1) [OF assms(1) ascii_digits_small, of p]
    by (simp add: canonical_bd_def filter_ascii_id)
  moreover have "add_zero (strip_country p) = p"
    using assms(2) by (auto simp: canonical_bd_def add_zero_def strip_country_def)
  ultimately show ?thesis using assms(2) by (auto simp: normalize_Some canonical_bd_def)
qed

lemma spelling_normal:
  assumes "length n = 10" "starts [49] n" "d \<in> {n, 48 # n, [56, 56] @ n, [56, 56, 48] @ n, [56, 56, 48, 48] @ n}"
  shows "add_zero (strip_country d) = 48 # n"
proof -
  obtain m where "n = 49 # m" "length m = 9" using assms(1,2) by (cases n) (auto simp: starts_def)
  then show ?thesis using assms(3) by (auto simp: add_zero_def strip_country_def starts_def)
qed

lemma py_suffix_drop: "n + k \<le> length d \<Longrightarrow> py_suffix n (drop k d) = py_suffix n d"
  by (simp add: py_suffix_def add.commute)

lemma strip_country_suffix: "length (strip_country d) \<ge> 10 \<Longrightarrow> py_suffix 10 (strip_country d) = py_suffix 10 d \<and> length d \<ge> 10"
  by (auto simp: strip_country_def py_suffix_drop split: if_splits)

lemma canonical_last10:
  assumes "length (add_zero d) = 11" "starts [48, 49] (add_zero d)"
  shows "length d \<ge> 10 \<and> add_zero d = 48 # py_suffix 10 d"
proof (cases "length d = 10")
  case True
  then show ?thesis using assms by (auto simp: add_zero_def py_suffix_def split: if_splits)
next
  case False
  then have "add_zero d = d" "length d = 11" using assms by (auto simp: add_zero_def split: if_splits)
  then show ?thesis using assms(2) by (cases d) (auto simp: starts_def py_suffix_def)
qed

lemma last10_canonical:
  assumes "digit_table nd" "digit_table isd" "\<forall>c\<in>set s. c < 128" "normalize_bd_phone nd (Some s) = Some p"
  shows "p = 48 # phone_last10 isd s \<and> phone_last10 isd s \<noteq> [] \<and> s \<noteq> []"
proof -
  let ?d = "filter ascii_digit s"
  have p: "p = add_zero (strip_country ?d)" "length p = 11" "starts [48, 49] p"
    using assms(4) by (auto simp: normalize_Some ascii_phone_digits(1) [OF assms(1,3)])
  have c: "length (strip_country ?d) \<ge> 10 \<and> p = 48 # py_suffix 10 (strip_country ?d)"
    using canonical_last10 [of "strip_country ?d"] p by simp
  with strip_country_suffix [of ?d] have "py_suffix 10 (strip_country ?d) = py_suffix 10 ?d" "length ?d \<ge> 10" by auto
  then have "phone_last10 isd s = py_suffix 10 ?d" "p = 48 # py_suffix 10 ?d" "s \<noteq> []"
    using c by (auto simp: phone_last10_def ascii_phone_digits(2) [OF assms(2,3)])
  moreover have "py_suffix 10 ?d \<noteq> []" using \<open>length ?d \<ge> 10\<close> by (auto simp: py_suffix_def)
  ultimately show ?thesis by simp
qed

subsection \<open>Candidates\<close>

lemma bd_core_chars: "bd_core s \<Longrightarrow> list_all ascii_digit (take 11 s)"
proof -
  assume c: "bd_core s"
  then obtain a b t where s: "s = a # b # t" by (cases s rule: list.exhaust [case_names Nil Cons]) (auto simp: bd_core_def Suc_le_length_iff numeral_eq_Suc)
  with c show "list_all ascii_digit (take 11 s)" by (auto simp: bd_core_def ascii_digit_def numeral_eq_Suc)
qed

lemma find_phones_chars: "p \<in> set (find_phones s) \<Longrightarrow> \<forall>c\<in>set p. c < 128"
proof (induction s rule: find_phones.induct)
  case (2 c s)
  have core: "\<forall>c\<in>set (take 11 t). c < 128" if "bd_core t" for t
    using ascii_digits_small [OF bd_core_chars [OF that]] .
  have "\<forall>x\<in>set (take n (c # s)). x < 128" if m: "bd_match (c # s) = Some n" for n
  proof -
    have "take 15 (c # s) = [43, 56, 56, 48] @ take 11 (drop 4 (c # s))" if "starts [43, 56, 56, 48] (c # s)"
      using that take_add [of 4 11 "c # s"] by (simp add: starts_def numeral_eq_Suc)
    moreover have "take 14 (c # s) = [56, 56, 48] @ take 11 (drop 3 (c # s))" if "starts [56, 56, 48] (c # s)"
      using that take_add [of 3 11 "c # s"] by (simp add: starts_def numeral_eq_Suc)
    moreover have "\<forall>x\<in>set [43, 56, 56, 48 :: nat]. x < 128" "\<forall>x\<in>set [56, 56, 48 :: nat]. x < 128" by simp_all
    ultimately show ?thesis
      using m core by (auto simp only: bd_match_def set_append split: if_splits)
  qed
  then show ?case using 2 by (auto split: option.splits)
qed simp

lemma plain_ascii: "digit_table nd \<Longrightarrow> \<forall>c\<in>set p. c < 128 \<Longrightarrow> plain nd p"
  by (auto simp: plain_def digit_table_def)

lemma add_candidates_canonical:
  "digit_table nd \<Longrightarrow> \<forall>p\<in>set ps. \<forall>c\<in>set p. c < 128 \<Longrightarrow> distinct result \<Longrightarrow> \<forall>p\<in>set result. canonical_bd p \<Longrightarrow>
    distinct (add_candidates nd ps result) \<and> (\<forall>p\<in>set (add_candidates nd ps result). canonical_bd p)"
proof (induction ps arbitrary: result)
  case (Cons p ps)
  show ?case
  proof (cases "normalize_bd_phone nd (Some p)")
    case (Some c)
    let ?r = "if c \<in> set result then result else result @ [c]"
    have "canonical_bd c" using Some normalize_canonical [OF plain_ascii, of nd p c] Cons.prems(1,2) by simp
    then have r: "distinct ?r" "\<forall>p\<in>set ?r. canonical_bd p" using Cons.prems(3,4) by auto
    have "\<forall>p\<in>set ps. \<forall>c\<in>set p. c < 128" using Cons.prems(2) by simp
    from Cons.IH [OF Cons.prems(1) this r] show ?thesis using Some by simp
  qed (use Cons in simp)
qed simp

text \<open>
  Phone numbers have one normal form. For digit tables that agree with ASCII:
  \<open>normalize_bd_phone\<close> maps text whose digits are ASCII or Bengali to nothing or to a
  canonical number (eleven ASCII digits starting with 01), which it maps to itself;
  with or without the prefixes 0, 88, 880 and 8800, and whatever else stands between the
  digits, a ten-digit number starting with 1 has the same normal form; for ASCII
  spellings \<open>phones_match\<close> holds exactly when the normal forms are equal;
  \<open>extract_phone_candidates\<close> returns distinct canonical numbers; and \<open>normalize_phone\<close> of
  a canonical number is that number with 88 in front, not the number itself.
\<close>

theorem phone_normal_form:
  assumes nd: "digit_table nd" and isd: "digit_table isd"
  shows "(plain nd s \<and> normalize_bd_phone nd (Some s) = Some p \<longrightarrow> canonical_bd p \<and> normalize_bd_phone nd (Some p) = Some p)
    \<and> (length n = 10 \<and> starts [49] n
        \<and> phone_digits nd s \<in> {n, 48 # n, [56, 56] @ n, [56, 56, 48] @ n, [56, 56, 48, 48] @ n}
        \<longrightarrow> normalize_bd_phone nd (Some s) = Some (48 # n))
    \<and> ((\<forall>c\<in>set s \<union> set t. c < 128) \<and> normalize_bd_phone nd (Some s) = Some p \<and> normalize_bd_phone nd (Some t) = Some q
        \<longrightarrow> (phones_match isd (Some s) (Some t) \<longleftrightarrow> p = q))
    \<and> distinct (extract_phone_candidates nd ws txt) \<and> (\<forall>p\<in>set (extract_phone_candidates nd ws txt). canonical_bd p)
    \<and> (canonical_bd p \<longrightarrow> normalize_phone isd (Some p) = [56, 56] @ p)"
proof (intro conjI impI)
  assume h: "plain nd s \<and> normalize_bd_phone nd (Some s) = Some p"
  show "canonical_bd p" using normalize_canonical h by blast
  then show "normalize_bd_phone nd (Some p) = Some p" by (rule normalize_idem [OF nd])
next
  assume h: "length n = 10 \<and> starts [49] n
        \<and> phone_digits nd s \<in> {n, 48 # n, [56, 56] @ n, [56, 56, 48] @ n, [56, 56, 48, 48] @ n}"
  have "add_zero (strip_country (phone_digits nd s)) = 48 # n" by (rule spelling_normal) (use h in blast)+
  then show "normalize_bd_phone nd (Some s) = Some (48 # n)"
    using h by (auto simp: normalize_Some starts_def)
next
  assume h: "(\<forall>c\<in>set s \<union> set t. c < 128) \<and> normalize_bd_phone nd (Some s) = Some p \<and> normalize_bd_phone nd (Some t) = Some q"
  show "phones_match isd (Some s) (Some t) \<longleftrightarrow> p = q"
    using last10_canonical [OF nd isd, of s p] last10_canonical [OF nd isd, of t q] h
    by (auto simp: phones_match_def Let_def)
next
  show "distinct (extract_phone_candidates nd ws txt)" "\<forall>p\<in>set (extract_phone_candidates nd ws txt). canonical_bd p"
    using add_candidates_canonical [OF nd, of "find_phones (drop_noise nd ws s)" "[]" for s] find_phones_chars
    by (auto simp: extract_phone_candidates_def split: option.split)
next
  assume p: "canonical_bd p"
  then have "filter isd p = p"
    using ascii_phone_digits(2) [OF isd ascii_digits_small, of p] by (simp add: canonical_bd_def filter_ascii_id)
  moreover obtain m where "p = 48 # 49 # m" "length m = 9"
    using p by (cases p; cases "tl p") (auto simp: canonical_bd_def starts_def)
  ultimately show "normalize_phone isd (Some p) = [56, 56] @ p"
    by (simp add: normalize_phone_def canonical_phone_def normalize_phone_880_def starts_def cp_def Let_def)
qed

theorem phone_normal_form_witness:
  "normalize_bd_phone ascii_digit (Some (cp ''+880 1849-258074'')) = Some (cp ''01849258074'')
    \<and> normalize_phone ascii_digit (Some (cp ''01849258074'')) = cp ''8801849258074''"
proof -
  have t: "digit_table ascii_digit" by (simp add: digit_table_def)
  have d: "phone_digits ascii_digit (cp ''+880 1849-258074'') = [56, 56, 48] @ cp ''1849258074''"
    by (simp add: phone_digits_def cp_def BENGALI_DIGITS_def bengali_digit_def ascii_digit_def)
  have "canonical_bd (cp ''01849258074'')" by (simp add: canonical_bd_def starts_def cp_def ascii_digit_def)
  then show ?thesis
    using phone_normal_form [OF t t, of "cp ''+880 1849-258074''" "cp ''01849258074''" "cp ''1849258074''"] d
    by (simp add: cp_def starts_def)
qed

end
