(* ===== verification/Calendar.thy ===== *)
theory Calendar
  imports Fazle_Prelude
begin

text \<open>
  The part of Python's \<open>datetime.date\<close> and \<open>calendar.monthrange\<close> the payroll code
  uses: the constructor with its range checks, comparison, the next day
  (\<open>+ timedelta(days=1)\<close>), the proleptic Gregorian ordinal and the \<open>%Y-%m\<close>
  format. The ordinal is shown to be strictly monotone and to advance by one with
  the next day, which is what the loops over dates rest on.
\<close>

datatype date = Date (d_year: int) (d_month: int) (d_day: int)

definition is_leap :: "int \<Rightarrow> bool" where
  "is_leap y \<longleftrightarrow> y mod 4 = 0 \<and> (y mod 100 \<noteq> 0 \<or> y mod 400 = 0)"

definition days_in_month :: "int \<Rightarrow> int \<Rightarrow> int" where
  "days_in_month y m =
     (if m = 2 then (if is_leap y then 29 else 28) else if m \<in> {4, 6, 9, 11} then 30 else 31)"

definition valid_date :: "date \<Rightarrow> bool" where
  "valid_date d \<longleftrightarrow> 1 \<le> d_year d \<and> 1 \<le> d_month d \<and> d_month d \<le> 12
     \<and> 1 \<le> d_day d \<and> d_day d \<le> days_in_month (d_year d) (d_month d)"

definition mk_date :: "int \<Rightarrow> int \<Rightarrow> int \<Rightarrow> date option" where
  "mk_date y m d = (if y \<le> 9999 \<and> valid_date (Date y m d) then Some (Date y m d) else None)"

definition date_less :: "date \<Rightarrow> date \<Rightarrow> bool" where
  "date_less a b \<longleftrightarrow> d_year a < d_year b \<or> d_year a = d_year b \<and>
     (d_month a < d_month b \<or> d_month a = d_month b \<and> d_day a < d_day b)"

definition date_le :: "date \<Rightarrow> date \<Rightarrow> bool" where
  "date_le a b \<longleftrightarrow> a = b \<or> date_less a b"

definition next_day :: "date \<Rightarrow> date" where
  "next_day d =
     (if d_day d < days_in_month (d_year d) (d_month d) then Date (d_year d) (d_month d) (d_day d + 1)
      else if d_month d < 12 then Date (d_year d) (d_month d + 1) 1
      else Date (d_year d + 1) 1 1)"

definition days_before_year :: "int \<Rightarrow> int" where
  "days_before_year y = (let z = y - 1 in z * 365 + z div 4 - z div 100 + z div 400)"

definition days_before_month :: "int \<Rightarrow> int \<Rightarrow> int" where
  "days_before_month y m =
     (if m \<le> 1 then 0 else if m = 2 then 31 else
      (if is_leap y then 1 else 0) +
      (if m = 3 then 59 else if m = 4 then 90 else if m = 5 then 120 else if m = 6 then 151
       else if m = 7 then 181 else if m = 8 then 212 else if m = 9 then 243 else if m = 10 then 273
       else if m = 11 then 304 else if m = 12 then 334 else 365))"

definition toordinal :: "date \<Rightarrow> int" where
  "toordinal d = days_before_year (d_year d) + days_before_month (d_year d) (d_month d) + d_day d"

definition pad2 :: "int \<Rightarrow> string" where
  "pad2 n = (if n < 10 then ''0'' @ show_int n else show_int n)"

definition period_from_date :: "date \<Rightarrow> string" where
  "period_from_date d = show_int (d_year d) @ ''-'' @ pad2 (d_month d)"

definition pad4 :: "int \<Rightarrow> string" where
  "pad4 n = (if n < 10 then ''000'' else if n < 100 then ''00'' else if n < 1000 then ''0'' else []) @ show_int n"

definition isoformat :: "date \<Rightarrow> string" where
  "isoformat d = pad4 (d_year d) @ ''-'' @ pad2 (d_month d) @ ''-'' @ pad2 (d_day d)"

subsection \<open>The ordinal\<close>

lemma div_pred:
  assumes "0 < (k :: int)"
  shows "y div k = (y - 1) div k + (if k dvd y then 1 else 0)"
proof (cases "k dvd y")
  case True
  then obtain q where q: "y = k * q" by (rule dvdE)
  then have "y - 1 = k * (q - 1) + (k - 1)" by (simp add: right_diff_distrib)
  then have "(y - 1) div k = q - 1" by (rule int_div_pos_eq) (use assms in simp_all)
  moreover have "y div k = q" using q assms by simp
  ultimately show ?thesis using True by simp
next
  case False
  then have "y mod k \<noteq> 0" by (simp add: mod_eq_0_iff_dvd)
  moreover have "0 \<le> y mod k" "y mod k < k" using assms by simp_all
  ultimately have r: "0 \<le> y mod k - 1" "y mod k - 1 < k" by linarith+
  have "y - 1 = k * (y div k) + (y mod k - 1)" using mult_div_mod_eq [of k y] by linarith
  then have "(y - 1) div k = y div k" by (rule int_div_pos_eq) (rule r)+
  with False show ?thesis by simp
qed

lemma leap_dvd: "is_leap y \<longleftrightarrow> 4 dvd y \<and> (\<not> 100 dvd y \<or> 400 dvd y)"
  by (simp add: is_leap_def mod_eq_0_iff_dvd)

lemma leap_year_step: "days_before_year (y + 1) = days_before_year y + 365 + (if is_leap y then 1 else 0)"
proof -
  have "(100 :: int) dvd 400" "(4 :: int) dvd 100" by simp_all
  then have dvds: "400 dvd y \<Longrightarrow> 100 dvd y" "100 dvd y \<Longrightarrow> 4 dvd y" by (blast intro: dvd_trans)+
  then have leap: "(if 4 dvd y then 1 else 0) - (if 100 dvd y then 1 else 0) + (if 400 dvd y then 1 else 0)
      = (if is_leap y then 1 else (0 :: int))"
    unfolding leap_dvd by (cases "400 dvd y"; cases "100 dvd y"; cases "4 dvd y") simp_all
  have following: "days_before_year (y + 1) = y * 365 + y div 4 - y div 100 + y div 400"
    by (simp only: days_before_year_def Let_def add_diff_cancel_right')
  have current: "days_before_year y = (y - 1) * 365 + (y - 1) div 4 - (y - 1) div 100 + (y - 1) div 400"
    by (simp only: days_before_year_def Let_def)
  have d: "y div 4 = (y - 1) div 4 + (if 4 dvd y then 1 else 0)"
      "y div 100 = (y - 1) div 100 + (if 100 dvd y then 1 else 0)"
      "y div 400 = (y - 1) div 400 + (if 400 dvd y then 1 else 0)"
    by (rule div_pred, simp)+
  have sum: "y * 365 + A - B + C = (y - 1) * 365 + A' - B' + C' + 365 + l"
    if "A = A' + a" "B = B' + b" "C = C' + c" "a - b + c = l" for A B C A' B' C' a b c l :: int
    using that by (simp add: algebra_simps)
  show ?thesis unfolding following current by (rule sum [OF d leap])
qed

lemma month_cases:
  assumes "1 \<le> m" "m \<le> (12 :: int)"
  obtains "m = 1" | "m = 2" | "m = 3" | "m = 4" | "m = 5" | "m = 6" | "m = 7" | "m = 8" | "m = 9"
    | "m = 10" | "m = 11" | "m = 12"
proof -
  have "m = 1 \<or> m = 2 \<or> m = 3 \<or> m = 4 \<or> m = 5 \<or> m = 6 \<or> m = 7 \<or> m = 8 \<or> m = 9 \<or> m = 10 \<or> m = 11 \<or> m = 12"
    using assms by presburger
  with that show thesis by blast
qed

lemma month_step:
  "1 \<le> m \<Longrightarrow> m \<le> 12 \<Longrightarrow> days_before_month y (m + 1) = days_before_month y m + days_in_month y m"
  by (erule (1) month_cases) (simp_all add: days_before_month_def days_in_month_def)

lemma days_in_month_pos: "1 \<le> m \<Longrightarrow> m \<le> 12 \<Longrightarrow> 28 \<le> days_in_month y m \<and> days_in_month y m \<le> 31"
  by (simp add: days_in_month_def)

lemma valid_next_day: "valid_date d \<Longrightarrow> valid_date (next_day d)"
  using days_in_month_pos [of "d_month d + 1" "d_year d"]
  by (auto simp: valid_date_def next_day_def days_in_month_def)

lemma toordinal_next_day:
  assumes "valid_date d"
  shows "toordinal (next_day d) = toordinal d + 1"
proof -
  have "days_before_month (d_year d) 13 = 365 + (if is_leap (d_year d) then 1 else 0)"
    by (simp add: days_before_month_def)
  then show ?thesis
    using assms month_step [of "d_month d" "d_year d"] leap_year_step [of "d_year d"]
    by (cases "d_month d = 12")
      (auto simp: toordinal_def next_day_def valid_date_def days_before_month_def days_in_month_def)
qed

lemma days_before_month_mono:
  assumes "1 \<le> m" "m < n" "n \<le> 12"
  shows "days_before_month y m + days_in_month y m \<le> days_before_month y n"
proof -
  have m: "1 \<le> m" "m \<le> 12" and n: "1 \<le> n" "n \<le> 12" using assms by simp_all
  from m show ?thesis
    by (rule month_cases; use n in \<open>rule month_cases\<close>)
      (use assms in \<open>simp_all add: days_before_month_def days_in_month_def\<close>)
qed

lemma year_span:
  assumes "y < z"
  shows "days_before_year y + 365 + (if is_leap y then 1 else 0) \<le> days_before_year z"
proof -
  have mono: "days_before_year (y + 1) \<le> days_before_year (y + 1 + int n)" for n
  proof (induction n)
    case (Suc n)
    then show ?case
      using leap_year_step [of "y + 1 + int n"] by (auto simp: algebra_simps split: if_splits)
  qed simp
  from mono [of "nat (z - y - 1)"] assms show ?thesis by (simp add: leap_year_step)
qed

lemma month_end_in_year:
  assumes "1 \<le> m" "m \<le> 12"
  shows "days_before_month y m + days_in_month y m \<le> 365 + (if is_leap y then 1 else 0)"
  using assms by (rule month_cases) (simp_all add: days_before_month_def days_in_month_def)

lemma days_before_month_nonneg: "0 \<le> days_before_month y m"
  by (simp add: days_before_month_def)

lemma date_less_toordinal:
  assumes "valid_date a" "valid_date b" "date_less a b"
  shows "toordinal a < toordinal b"
proof -
  consider "d_year a < d_year b" | "d_year a = d_year b" "d_month a < d_month b"
    | "d_year a = d_year b" "d_month a = d_month b" "d_day a < d_day b"
    using assms(3) by (auto simp: date_less_def)
  then show ?thesis
  proof cases
    case 1
    then show ?thesis
      using year_span [OF 1] month_end_in_year [of "d_month a" "d_year a"] assms(1,2)
        days_before_month_nonneg [of "d_year b" "d_month b"]
      by (auto simp: toordinal_def valid_date_def)
  next
    case 2
    then show ?thesis
      using days_before_month_mono [of "d_month a" "d_month b" "d_year a"] assms(1,2)
      by (auto simp: toordinal_def valid_date_def)
  next
    case 3
    then show ?thesis by (simp add: toordinal_def)
  qed
qed

lemma date_less_linear: "date_less a b \<or> a = b \<or> date_less b a"
  by (cases a; cases b) (auto simp: date_less_def)

lemma date_less_irrefl [simp]: "\<not> date_less a a"
  by (simp add: date_less_def)

lemma date_less_iff:
  assumes "valid_date a" "valid_date b"
  shows "date_less a b \<longleftrightarrow> toordinal a < toordinal b"
  using date_less_toordinal [OF assms] date_less_toordinal [OF assms(2,1)] date_less_linear [of a b]
  by fastforce

lemma toordinal_inj:
  assumes "valid_date a" "valid_date b" "toordinal a = toordinal b"
  shows "a = b"
  using date_less_iff [OF assms(1,2)] date_less_iff [OF assms(2,1)] assms(3) date_less_linear [of a b] by simp

end
