(* ===== verification/Roster_Calc.thy ===== *)
theory Roster_Calc
  imports Calendar Complex_Main
begin

text \<open>
  Shift counting and pay of the escort roster,
  \<open>modules/escort_roster/calculations.py\<close>. A day has a day shift and a night
  shift; a duty is counted inclusively from its first to its last shift. Amounts
  are exact rationals (the code computes with \<open>Decimal\<close> and converts to
  \<open>float\<close> only for display). Python dates are always valid, so the loop over the
  days between is stated with that as a guard.
\<close>

definition shift_default :: "string \<Rightarrow> string \<Rightarrow> string" where
  "shift_default dflt s = (let t = take 1 (py_upper s) in if t \<in> {''D'', ''N''} then t else dflt)"

definition shift_index :: "string \<Rightarrow> int" where
  "shift_index t = (if t = ''D'' then 0 else 1)"

function middle_shifts :: "date \<Rightarrow> date \<Rightarrow> int" where
  "middle_shifts cur stop =
     (if valid_date cur \<and> valid_date stop \<and> date_less cur stop then 2 + middle_shifts (next_day cur) stop else 0)"
  by pat_completeness auto
termination
  by (relation "measure (\<lambda>(a, b). nat (toordinal b - toordinal a))")
    (auto simp: toordinal_next_day date_less_iff)

declare middle_shifts.simps [simp del]

definition count_shifts :: "date \<Rightarrow> string \<Rightarrow> date \<Rightarrow> string \<Rightarrow> int" where
  "count_shifts start_date start_s end_date end_s =
     (let si = shift_index (shift_default ''D'' start_s);
          ei = shift_index (shift_default ''N'' end_s)
      in if date_less end_date start_date then 0
         else if start_date = end_date then (if ei < si then 0 else ei - si + 1)
         else (2 - si) + middle_shifts (next_day start_date) end_date + (ei + 1))"

definition shifts_to_days :: "int \<Rightarrow> rat" where
  "shifts_to_days n = of_int n * (1 / 2)"

definition calculate_salary :: "int \<Rightarrow> rat \<Rightarrow> rat" where
  "calculate_salary n shift_rate = of_int n * shift_rate"

definition calculate_total :: "rat \<Rightarrow> rat \<Rightarrow> rat" where
  "calculate_total salary conveyance = salary + conveyance"

record pay_result =
  pay_shifts :: int
  pay_days :: rat
  pay_salary :: rat
  pay_conveyance :: rat
  pay_total :: rat

definition calculate_pay :: "date \<Rightarrow> string \<Rightarrow> date \<Rightarrow> string \<Rightarrow> rat \<Rightarrow> rat \<Rightarrow> pay_result" where
  "calculate_pay start_date start_s end_date end_s conveyance shift_rate =
     (let n = count_shifts start_date start_s end_date end_s;
          salary = calculate_salary n shift_rate
      in \<lparr>pay_shifts = n, pay_days = shifts_to_days n, pay_salary = salary,
          pay_conveyance = conveyance, pay_total = calculate_total salary conveyance\<rparr>)"

subsection \<open>The shift line\<close>

text \<open>
  The specification: shifts are numbered consecutively, two per calendar day, and
  the duty from one shift to another has as many shifts as the inclusive interval
  of their numbers.
\<close>

definition shift_number :: "date \<Rightarrow> string \<Rightarrow> int" where
  "shift_number d t = 2 * toordinal d + shift_index t"

lemma shift_index_range: "0 \<le> shift_index t \<and> shift_index t \<le> 1"
  by (simp add: shift_index_def)

lemma middle_shifts_closed:
  assumes "valid_date a" "valid_date b"
  shows "middle_shifts a b = 2 * max 0 (toordinal b - toordinal a)"
  using assms
proof (induction a b rule: middle_shifts.induct)
  case (1 a b)
  show ?case
  proof (cases "date_less a b")
    case True
    then have lt: "toordinal a < toordinal b" using 1 by (simp add: date_less_iff)
    have "middle_shifts (next_day a) b = 2 * max 0 (toordinal b - toordinal (next_day a))"
      using 1 True by (simp add: valid_next_day)
    with True 1 lt show ?thesis
      by (simp add: middle_shifts.simps [of a b] toordinal_next_day)
  next
    case False
    with 1 show ?thesis by (simp add: middle_shifts.simps [of a b] date_less_iff)
  qed
qed

lemma count_shifts_interval:
  assumes "valid_date a" "valid_date b"
  shows "count_shifts a s b t = int (card {shift_number a (shift_default ''D'' s) .. shift_number b (shift_default ''N'' t)})"
proof -
  let ?si = "shift_index (shift_default ''D'' s)" and ?ei = "shift_index (shift_default ''N'' t)"
  have r: "0 \<le> ?si" "?si \<le> 1" "0 \<le> ?ei" "?ei \<le> 1" using shift_index_range by simp_all
  consider "date_less b a" | "a = b" | "date_less a b" using date_less_linear by blast
  then show ?thesis
  proof cases
    case 1
    then have "toordinal b < toordinal a" using assms by (simp add: date_less_iff)
    with 1 r show ?thesis by (simp add: count_shifts_def Let_def shift_number_def)
  next
    case 2
    with r show ?thesis by (simp add: count_shifts_def Let_def shift_number_def)
  next
    case 3
    then have lt: "toordinal a < toordinal b" "\<not> date_less b a" "a \<noteq> b"
      using assms by (auto simp: date_less_iff)
    have "middle_shifts (next_day a) b = 2 * (toordinal b - toordinal a - 1)"
      using lt assms by (simp add: middle_shifts_closed valid_next_day toordinal_next_day)
    with lt r show ?thesis by (simp add: count_shifts_def Let_def shift_number_def)
  qed
qed

text \<open>
  Shifts are counted correctly. For valid dates \<open>count_shifts\<close> returns the
  number of shifts in the inclusive interval from the first to the last shift on
  the line of consecutive shifts, two per calendar day (none when the end is before
  the start); an unreadable shift letter counts as day at the start and night at
  the end.
\<close>

theorem count_shifts_correct:
  assumes "valid_date a" and "valid_date b"
  shows "count_shifts a s b t =
    int (card {shift_number a (shift_default ''D'' s) .. shift_number b (shift_default ''N'' t)})
    \<and> 0 \<le> count_shifts a s b t"
  using count_shifts_interval [OF assms, of s t] by simp

theorem count_shifts_correct_witness:
  "count_shifts (Date 2026 5 13) ''N'' (Date 2026 5 18) ''D'' =
    int (card {shift_number (Date 2026 5 13) ''N'' .. shift_number (Date 2026 5 18) ''D''})"
proof -
  have v: "valid_date (Date 2026 5 13)" "valid_date (Date 2026 5 18)"
    by (simp_all add: valid_date_def days_in_month_def)
  have s: "shift_default ''D'' ''N'' = ''N''" "shift_default ''N'' ''D'' = ''D''"
    by (simp_all add: shift_default_def py_upper_def upper_char_def)
  show ?thesis using count_shifts_correct [OF v, of "''N''" "''D''"] s by simp
qed

text \<open>
  Pay adds up over a split duty. For valid dates, splitting a duty at the end
  of a day into two consecutive duties (the second from the next day's first shift)
  gives the same number of shifts and days and the same salary; the total is the
  salary plus the conveyance, and the salary is the rate for every shift.
\<close>

theorem pay_splits:
  assumes "valid_date a" and "valid_date m" and "valid_date b" and "date_le a m" and "date_less m b"
  shows "let whole = calculate_pay a s b t conv rate;
             p1 = calculate_pay a s m ''N'' conv1 rate;
             p2 = calculate_pay (next_day m) ''D'' b t conv2 rate
         in pay_shifts whole = pay_shifts p1 + pay_shifts p2
          \<and> pay_days whole = pay_days p1 + pay_days p2
          \<and> pay_salary whole = pay_salary p1 + pay_salary p2
          \<and> pay_total whole = of_int (pay_shifts whole) * rate + conv"
proof -
  let ?i = "\<lambda>d x. shift_number d x"
  have letters: "shift_default ''N'' ''N'' = ''N''" "shift_default ''D'' ''D'' = ''D''"
    by (simp_all add: shift_default_def py_upper_def upper_char_def)
  have ord: "toordinal a \<le> toordinal m" "toordinal m < toordinal b"
    using assms by (auto simp: date_le_def date_less_iff)
  have r: "0 \<le> shift_index (shift_default ''D'' s)" "shift_index (shift_default ''D'' s) \<le> 1"
      "0 \<le> shift_index (shift_default ''N'' t)" "shift_index (shift_default ''N'' t) \<le> 1"
    using shift_index_range by simp_all
  have "count_shifts a s b t = count_shifts a s m ''N'' + count_shifts (next_day m) ''D'' b t"
    using ord r assms letters
    by (simp add: count_shifts_interval valid_next_day shift_number_def toordinal_next_day shift_index_def
        split: if_splits)
  then show ?thesis
    by (simp add: Let_def calculate_pay_def shifts_to_days_def calculate_salary_def calculate_total_def algebra_simps)
qed

theorem pay_splits_witness:
  "pay_shifts (calculate_pay (Date 2026 5 13) ''D'' (Date 2026 5 15) ''N'' 0 200) =
   pay_shifts (calculate_pay (Date 2026 5 13) ''D'' (Date 2026 5 13) ''N'' 0 200)
   + pay_shifts (calculate_pay (next_day (Date 2026 5 13)) ''D'' (Date 2026 5 15) ''N'' 0 200)"
proof -
  have v: "valid_date (Date 2026 5 13)" "valid_date (Date 2026 5 15)"
    by (simp_all add: valid_date_def days_in_month_def)
  have o: "date_le (Date 2026 5 13) (Date 2026 5 13)" "date_less (Date 2026 5 13) (Date 2026 5 15)"
    by (simp_all add: date_le_def date_less_def)
  show ?thesis
    using pay_splits [OF v(1) v(1) v(2) o, of "''D''" "''N''" 0 200 0 0] unfolding Let_def by blast
qed

end
