(* ===== verification/Roster_Store.thy ===== *)
theory Roster_Store
  imports Roster_Calc Phone_Numbers Money "HOL-Library.Multiset"
begin

text \<open>
  The storage of the escort roster, \<open>modules/escort_roster/db.py\<close>, and the routes of
  \<open>modules/escort_roster/routes.py\<close> that combine its operations. A roster entry mirrors an escort
  program with its pay; entries are synchronised, edited, created by hand, listed, and removed while
  they are drafts. Amounts are rationals; a column \<open>NUMERIC(_,2)\<close> rounds what it stores. The order of
  the database for a sort column, the similarity of two names and the words of a pattern are
  arguments where the code leaves them to PostgreSQL or to \<open>difflib\<close>. Statements that may raise are
  numbered in the environment of a call; a value that a column refuses raises as well. An audit row
  is written best-effort.
\<close>

subsection \<open>Tables\<close>

record program =
  gp_id :: int
  gp_mother :: "string option"
  gp_lighter :: "string option"
  gp_master :: "string option"
  gp_escort :: "string option"
  gp_mobile :: "string option"
  gp_employee_name :: "string option"
  gp_destination :: "string option"
  gp_start :: "date option"
  gp_date :: "date option"
  gp_shift :: "string option"
  gp_end :: "date option"
  gp_end_shift :: "string option"
  gp_payment :: "rat option"
  gp_days :: "rat option"
  gp_day_count :: "rat option"
  gp_conveyance :: "rat option"
  gp_release_point :: "string option"
  gp_release_location :: "string option"
  gp_status :: "string option"
  gp_assigned :: "time option"

record pay_cols =
  pc_shifts :: "int option"
  pc_days :: "rat option"
  pc_salary :: "rat option"
  pc_conveyance :: "rat option"
  pc_total :: "rat option"

record roster_entry =
  re_program :: int
  re_mother :: "string option"
  re_lighter :: "string option"
  re_master :: "string option"
  re_escort :: "string option"
  re_mobile :: "string option"
  re_destination :: "string option"
  re_start :: "date option"
  re_start_shift :: string
  re_end :: "date option"
  re_end_shift :: string
  re_pay :: pay_cols
  re_release :: "string option"
  re_status :: string
  re_version :: int
  re_notes :: "string option"
  re_created :: time
  re_expires :: "time option"

record rate_row =
  rt_id :: int
  rt_destination :: string
  rt_key :: string
  rt_conveyance :: rat
  rt_rate :: rat
  rt_by :: "string option"

record roster_db =
  ro_programs :: "program list"
  ro_entries :: "roster_entry list"
  ro_rates :: "rate_row list"
  ro_rate_next :: int
  ro_audit :: "(int \<times> string \<times> string) list"

datatype roster_error = Program_not_found int | Entry_not_found int | No_fields | Roster_exception

definition column2 :: "rat \<Rightarrow> rat" where
  \<comment> \<open>a column with two places rounds halves away from zero\<close>
  "column2 x = of_int (if 0 \<le> x then \<lfloor>100 * x + 1 / 2\<rfloor> else - \<lfloor>1 / 2 - 100 * x\<rfloor>) / 100"

definition store_pay :: "pay_cols \<Rightarrow> pay_cols" where
  "store_pay c = c\<lparr>pc_days := map_option column2 (pc_days c), pc_salary := map_option column2 (pc_salary c),
     pc_conveyance := map_option column2 (pc_conveyance c), pc_total := map_option column2 (pc_total c)\<rparr>"

definition no_pay :: pay_cols where
  "no_pay = \<lparr>pc_shifts = None, pc_days = None, pc_salary = None, pc_conveyance = None, pc_total = None\<rparr>"

definition pay_cols_of :: "pay_result \<Rightarrow> pay_cols" where
  "pay_cols_of p = \<lparr>pc_shifts = Some (pay_shifts p), pc_days = Some (pay_days p), pc_salary = Some (pay_salary p),
     pc_conveyance = Some (pay_conveyance p), pc_total = Some (pay_total p)\<rparr>"

definition shift_allowed :: "string \<Rightarrow> bool" where
  \<comment> \<open>the CHECK of the two shift columns\<close>
  "shift_allowed s \<longleftrightarrow> s \<in> {''D'', ''N''}"

subsection \<open>Conveyance and rates\<close>

function sql_like :: "string \<Rightarrow> string \<Rightarrow> bool" where
  \<comment> \<open>\<open>s LIKE p\<close>; a trailing escape character matches nothing here\<close>
  "sql_like [] s \<longleftrightarrow> s = []"
| "sql_like (p # ps) s \<longleftrightarrow>
     (if p = CHR ''%'' then sql_like ps s \<or> (if s = [] then False else sql_like (p # ps) (tl s))
      else if s = [] then False
      else if p = CHR ''_'' then sql_like ps (tl s)
      else if p = CHR 0x5C then (if ps = [] then False else hd s = hd ps \<and> sql_like (tl ps) (tl s))
      else hd s = p \<and> sql_like ps (tl s))"
  by pat_completeness auto
termination
  by (relation "measure (\<lambda>(p, s). length p + length s)") (auto simp: length_greater_0_conv [symmetric] simp del: length_greater_0_conv)

declare sql_like.simps(2) [simp del]

definition sql_ilike :: "string \<Rightarrow> string \<Rightarrow> bool" where
  "sql_ilike p s \<longleftrightarrow> sql_like (py_lower p) (py_lower s)"

definition get_conveyance_for_destination :: "rate_row list \<Rightarrow> string option \<Rightarrow> rat" where
  "get_conveyance_for_destination rates dest =
     (case py_or dest None of
        None \<Rightarrow> 0
      | Some d \<Rightarrow>
          (let key = py_lower (py_strip d)
           in case find (\<lambda>r. rt_key r = key) rates of
                Some r \<Rightarrow> rt_conveyance r
              | None \<Rightarrow>
                  (case sort_key (\<lambda>r. - int (length (rt_key r)))
                     (filter (\<lambda>r. sql_ilike (''%'' @ rt_key r @ ''%'') key \<or> sql_ilike (''%'' @ key @ ''%'') (rt_key r)) rates) of
                     [] \<Rightarrow> 0 | r # _ \<Rightarrow> rt_conveyance r)))"

definition get_shift_rate :: "rate_row list \<Rightarrow> rat" where
  "get_shift_rate rates =
     (case sort_key rt_id rates of [] \<Rightarrow> 200 | r # _ \<Rightarrow> if rt_rate r = 0 then 200 else rt_rate r)"

definition lookup_raises :: "env \<Rightarrow> nat \<Rightarrow> rate_row list \<Rightarrow> string option \<Rightarrow> bool" where
  \<comment> \<open>the statements of the two lookups: the exact key, the partial match when it is missing, the rate\<close>
  "lookup_raises e k rates dest \<longleftrightarrow>
     (case py_or dest None of
        None \<Rightarrow> False
      | Some d \<Rightarrow> raises e k \<or> (\<not> has_row (\<lambda>r. rt_key r = py_lower (py_strip d)) rates \<and> raises e (k + 1)))
     \<or> raises e (k + 2)"

definition upsert_conveyance_config :: "env \<Rightarrow> string \<Rightarrow> rat \<Rightarrow> rat \<Rightarrow> string \<Rightarrow> roster_db \<Rightarrow> (roster_error + rate_row option) \<times> roster_db" where
  "upsert_conveyance_config e dest amount rate actor db =
     (let key = py_lower (py_strip dest);
          db1 = (if has_row (\<lambda>r. rt_key r = key) (ro_rates db)
                 then db\<lparr>ro_rate_next := ro_rate_next db + 1, ro_rates := update_where (\<lambda>r. rt_key r = key)
                        (\<lambda>r. r\<lparr>rt_conveyance := column2 amount, rt_rate := column2 rate, rt_by := Some actor\<rparr>) (ro_rates db)\<rparr>
                 else db\<lparr>ro_rate_next := ro_rate_next db + 1,
                        ro_rates := ro_rates db @ [\<lparr>rt_id = ro_rate_next db, rt_destination = py_strip dest, rt_key = key,
                          rt_conveyance = column2 amount, rt_rate = column2 rate, rt_by = Some actor\<rparr>]\<rparr>)
      in if raises e 0 then (Inl Roster_exception, db)
         else if raises e 1 then (Inl Roster_exception, db1)
         else (Inr (find (\<lambda>r. rt_key r = key) (ro_rates db1)), db1))"

subsection \<open>Synchronisation\<close>

definition log_audit :: "env \<Rightarrow> nat \<Rightarrow> int \<Rightarrow> string \<Rightarrow> string \<Rightarrow> roster_db \<Rightarrow> roster_db" where
  "log_audit e k i action actor db = (if raises e k then db else db\<lparr>ro_audit := ro_audit db @ [(i, action, actor)]\<rparr>)"

definition or_date :: "date option \<Rightarrow> date option \<Rightarrow> date option" where
  "or_date a b = (case a of None \<Rightarrow> b | Some d \<Rightarrow> Some d)"

definition start_letter :: "string option \<Rightarrow> string \<Rightarrow> string" where
  \<comment> \<open>\<open>(x or dflt).upper()[:1] or dflt\<close>\<close>
  "start_letter x dflt = take 1 (py_upper (case py_or x None of None \<Rightarrow> dflt | Some s \<Rightarrow> s))"

definition or_zero :: "rat option \<Rightarrow> rat" where
  "or_zero x = (case x of None \<Rightarrow> 0 | Some r \<Rightarrow> r)"

definition legacy_pay :: "rat \<Rightarrow> program \<Rightarrow> pay_cols" where
  "legacy_pay paid p =
     \<lparr>pc_shifts = None,
      pc_days = Some (if or_zero (gp_days p) \<noteq> 0 then or_zero (gp_days p) else or_zero (gp_day_count p)),
      pc_salary = Some (paid - or_zero (gp_conveyance p)), pc_conveyance = Some (or_zero (gp_conveyance p)),
      pc_total = Some paid\<rparr>"

definition program_pay :: "rate_row list \<Rightarrow> program \<Rightarrow> pay_cols" where
  "program_pay rates p =
     (case (or_date (gp_start p) (gp_date p), gp_end p) of
        (Some s, Some t) \<Rightarrow>
          pay_cols_of (calculate_pay s (start_letter (gp_shift p) ''D'') t (start_letter (gp_end_shift p) ''N'')
            (get_conveyance_for_destination rates (gp_destination p)) (get_shift_rate rates))
      | _ \<Rightarrow> if or_zero (gp_payment p) \<noteq> 0 then legacy_pay (or_zero (gp_payment p)) p else no_pay)"

definition roster_status_of :: "string option \<Rightarrow> string" where
  "roster_status_of st =
     dict_get ''draft''
       [(''draft'', ''draft''), (''assigned'', ''active''), (''running'', ''active''), (''completed'', ''completed''),
        (''cancelled'', ''cancelled'')]
       (py_lower (py_strip (case py_or st None of None \<Rightarrow> ''draft'' | Some s \<Rightarrow> s)))"

definition blank_entry :: "int \<Rightarrow> time \<Rightarrow> roster_entry" where
  "blank_entry i t =
     \<lparr>re_program = i, re_mother = None, re_lighter = None, re_master = None, re_escort = None, re_mobile = None,
      re_destination = None, re_start = None, re_start_shift = ''D'', re_end = None, re_end_shift = ''N'', re_pay = no_pay,
      re_release = None, re_status = ''draft'', re_version = 1, re_notes = None, re_created = t, re_expires = None\<rparr>"

definition mirrored :: "rate_row list \<Rightarrow> program \<Rightarrow> roster_entry \<Rightarrow> roster_entry" where
  \<comment> \<open>the columns a synchronisation writes\<close>
  "mirrored rates p r =
     r\<lparr>re_mother := gp_mother p, re_lighter := gp_lighter p, re_master := gp_master p,
       re_escort := py_or (gp_escort p) (gp_employee_name p), re_mobile := gp_mobile p, re_destination := gp_destination p,
       re_start := or_date (gp_start p) (gp_date p), re_start_shift := start_letter (gp_shift p) ''D'',
       re_end := gp_end p, re_end_shift := start_letter (gp_end_shift p) ''N'',
       re_pay := store_pay (program_pay rates p),
       re_release := py_or (gp_release_point p) (gp_release_location p), re_status := roster_status_of (gp_status p)\<rparr>"

definition mirrorable :: "program \<Rightarrow> bool" where
  "mirrorable p \<longleftrightarrow> shift_allowed (start_letter (gp_shift p) ''D'') \<and> shift_allowed (start_letter (gp_end_shift p) ''N'')"

definition dated :: "program \<Rightarrow> bool" where
  "dated p \<longleftrightarrow> or_date (gp_start p) (gp_date p) \<noteq> None \<and> gp_end p \<noteq> None"

definition write_mirror :: "env \<Rightarrow> program \<Rightarrow> roster_db \<Rightarrow> string \<times> roster_db" where
  "write_mirror e p db =
     (case find (\<lambda>r. re_program r = gp_id p) (ro_entries db) of
        Some x \<Rightarrow> (''sync_update'', db\<lparr>ro_entries := update_where (\<lambda>r. re_program r = gp_id p)
            (\<lambda>r. (mirrored (ro_rates db) p r)\<lparr>re_version := re_version x + 1\<rparr>) (ro_entries db)\<rparr>)
      | None \<Rightarrow> (''sync_insert'', db\<lparr>ro_entries := ro_entries db @ [mirrored (ro_rates db) p (blank_entry (gp_id p) (db_now e))]\<rparr>))"

definition sync_program_to_roster ::
  "env \<Rightarrow> int \<Rightarrow> string \<Rightarrow> roster_db \<Rightarrow> (roster_error + roster_entry option) \<times> roster_db" where
  \<comment> \<open>statement 0 reads the program, 1 to 3 the rates, 4 looks for the entry, 5 writes it, 6 is the
    audit row, 7 reads the entry back\<close>
  "sync_program_to_roster e i actor db =
     (if raises e 0 then (Inl Roster_exception, db)
      else case find (\<lambda>p. gp_id p = i) (ro_programs db) of
        None \<Rightarrow> (Inl (Program_not_found i), db)
      | Some p \<Rightarrow>
          if dated p \<and> lookup_raises e 1 (ro_rates db) (gp_destination p) \<or> raises e 4 \<or> raises e 5 \<or> \<not> mirrorable p
          then (Inl Roster_exception, db)
          else (case write_mirror e p db of
                  (action, db1) \<Rightarrow>
                    (let db2 = log_audit e 6 i action actor db1
                     in if raises e 7 then (Inl Roster_exception, db2)
                        else (Inr (find (\<lambda>r. re_program r = i) (ro_entries db2)), db2))))"

fun sync_programs :: "(int \<Rightarrow> env) \<Rightarrow> string \<Rightarrow> int list \<Rightarrow> nat \<times> (int \<times> roster_error) list \<Rightarrow> roster_db
    \<Rightarrow> (nat \<times> (int \<times> roster_error) list) \<times> roster_db" where
  "sync_programs es actor [] acc db = (acc, db)"
| "sync_programs es actor (i # is) (n, errs) db =
     (case sync_program_to_roster (es i) i actor db of
        (Inr _, db1) \<Rightarrow> sync_programs es actor is (n + 1, errs) db1
      | (Inl x, db1) \<Rightarrow> sync_programs es actor is (n, errs @ [(i, x)]) db1)"

definition sync_all_programs ::
  "env \<Rightarrow> (int \<Rightarrow> env) \<Rightarrow> string \<Rightarrow> roster_db \<Rightarrow> (roster_error + nat \<times> (int \<times> roster_error) list) \<times> roster_db" where
  "sync_all_programs e es actor db =
     (if raises e 0 then (Inl Roster_exception, db)
      else case sync_programs es actor (sort (map gp_id (ro_programs db))) (0, []) db of (x, db1) \<Rightarrow> (Inr x, db1))"

definition recalculate_entry :: "env \<Rightarrow> int \<Rightarrow> string \<Rightarrow> roster_db \<Rightarrow> (roster_error + roster_entry option) \<times> roster_db" where
  "recalculate_entry e i actor db = sync_program_to_roster e i actor db"

subsection \<open>Edits and manual entries\<close>

record entry_patch =
  pt_notes :: "string option"
  pt_release :: "string option"
  pt_status :: "string option"
  pt_conveyance :: "rat option"
  pt_end :: "date option"
  pt_end_shift :: "string option"
  pt_start :: "date option"
  pt_start_shift :: "string option"
  pt_mother :: "string option"
  pt_lighter :: "string option"
  pt_master :: "string option"
  pt_escort :: "string option"
  pt_mobile :: "string option"

definition no_patch :: entry_patch where
  "no_patch = \<lparr>pt_notes = None, pt_release = None, pt_status = None, pt_conveyance = None, pt_end = None, pt_end_shift = None,
     pt_start = None, pt_start_shift = None, pt_mother = None, pt_lighter = None, pt_master = None, pt_escort = None, pt_mobile = None\<rparr>"

definition keep :: "'a option \<Rightarrow> 'a \<Rightarrow> 'a" where
  "keep x old = (case x of None \<Rightarrow> old | Some v \<Rightarrow> v)"

definition patched_entry :: "entry_patch \<Rightarrow> roster_entry \<Rightarrow> roster_entry" where
  "patched_entry u r =
     r\<lparr>re_notes := keep (map_option Some (pt_notes u)) (re_notes r), re_release := keep (map_option Some (pt_release u)) (re_release r),
       re_status := keep (pt_status u) (re_status r),
       re_pay := (re_pay r)\<lparr>pc_conveyance := keep (map_option (\<lambda>c. Some (column2 c)) (pt_conveyance u)) (pc_conveyance (re_pay r))\<rparr>,
       re_end := keep (map_option Some (pt_end u)) (re_end r), re_end_shift := keep (pt_end_shift u) (re_end_shift r),
       re_start := keep (map_option Some (pt_start u)) (re_start r), re_start_shift := keep (pt_start_shift u) (re_start_shift r),
       re_mother := keep (map_option Some (pt_mother u)) (re_mother r), re_lighter := keep (map_option Some (pt_lighter u)) (re_lighter r),
       re_master := keep (map_option Some (pt_master u)) (re_master r), re_escort := keep (map_option Some (pt_escort u)) (re_escort r),
       re_mobile := keep (map_option Some (pt_mobile u)) (re_mobile r)\<rparr>"

definition moves_dates :: "entry_patch \<Rightarrow> bool" where
  "moves_dates u \<longleftrightarrow> pt_start u \<noteq> None \<or> pt_start_shift u \<noteq> None \<or> pt_end u \<noteq> None \<or> pt_end_shift u \<noteq> None"

definition entry_pay :: "rate_row list \<Rightarrow> rat option \<Rightarrow> roster_entry \<Rightarrow> pay_cols option" where
  \<comment> \<open>the pay of an entry with both dates, with a given conveyance or the one of its destination\<close>
  "entry_pay rates conv r =
     (case (re_start r, re_end r) of
        (Some s, Some t) \<Rightarrow>
          Some (pay_cols_of (calculate_pay s (start_letter (Some (re_start_shift r)) ''D'') t (start_letter (Some (re_end_shift r)) ''N'')
            (case conv of Some c \<Rightarrow> c | None \<Rightarrow> get_conveyance_for_destination rates (re_destination r)) (get_shift_rate rates)))
      | _ \<Rightarrow> None)"

definition repaid :: "rate_row list \<Rightarrow> entry_patch \<Rightarrow> roster_entry \<Rightarrow> roster_entry" where
  "repaid rates u r =
     (if moves_dates u then (case entry_pay rates (pt_conveyance u) r of None \<Rightarrow> r | Some c \<Rightarrow> r\<lparr>re_pay := store_pay c\<rparr>) else r)"

definition patch_shifts_ok :: "entry_patch \<Rightarrow> bool" where
  "patch_shifts_ok u \<longleftrightarrow> (case pt_start_shift u of None \<Rightarrow> True | Some s \<Rightarrow> shift_allowed s)
     \<and> (case pt_end_shift u of None \<Rightarrow> True | Some s \<Rightarrow> shift_allowed s)"

definition update_roster_entry ::
  "env \<Rightarrow> int \<Rightarrow> entry_patch \<Rightarrow> string \<Rightarrow> roster_db \<Rightarrow> (roster_error + roster_entry option) \<times> roster_db" where
  \<comment> \<open>statement 0 reads the entry, 1 writes the fields, 2 reads them back, 3 to 5 are the rates, 6
    writes the pay, 7 is the audit row, 8 reads the result\<close>
  "update_roster_entry e i u actor db =
     (if u = no_patch then (Inl No_fields, db)
      else if raises e 0 then (Inl Roster_exception, db)
      else case find (\<lambda>r. re_program r = i) (ro_entries db) of
        None \<Rightarrow> (Inl (Entry_not_found i), db)
      | Some r \<Rightarrow>
          if raises e 1 \<or> \<not> patch_shifts_ok u then (Inl Roster_exception, db)
          else let db1 = db\<lparr>ro_entries := update_where (\<lambda>r. re_program r = i) (patched_entry u) (ro_entries db)\<rparr>;
                   r1 = patched_entry u r;
                   dates = (moves_dates u \<and> re_start r1 \<noteq> None \<and> re_end r1 \<noteq> None)
               in if moves_dates u \<and> raises e 2 \<or> dates \<and> (lookup_raises e 3 (ro_rates db) (re_destination r1) \<or> raises e 6)
                  then (Inl Roster_exception, db1)
                  else let db2 = log_audit e 7 i ''edit'' actor
                             (db\<lparr>ro_entries := update_where (\<lambda>r. re_program r = i) (\<lambda>r. repaid (ro_rates db) u (patched_entry u r)) (ro_entries db)\<rparr>)
                       in if raises e 8 then (Inl Roster_exception, db2)
                          else (Inr (find (\<lambda>r. re_program r = i) (ro_entries db2)), db2))"

record entry_body =
  bd_mother :: string
  bd_lighter :: "string option"
  bd_master :: "string option"
  bd_escort :: "string option"
  bd_mobile :: "string option"
  bd_destination :: "string option"
  bd_start :: "date option"
  bd_start_shift :: "string option"
  bd_end :: "date option"
  bd_end_shift :: "string option"
  bd_release :: "string option"
  bd_conveyance :: "rat option"
  bd_notes :: "string option"
  bd_status :: "string option"

definition next_program_id :: "roster_db \<Rightarrow> int" where
  "next_program_id db = Max (insert 900000 (re_program ` set (ro_entries db) \<union> gp_id ` set (ro_programs db))) + 1"

definition manual_entry :: "rate_row list \<Rightarrow> int \<Rightarrow> time \<Rightarrow> entry_body \<Rightarrow> roster_entry" where
  "manual_entry rates i t b =
     (let shift = (\<lambda>x d. case py_or x None of None \<Rightarrow> d | Some s \<Rightarrow> s);
          r = (blank_entry i t)\<lparr>re_mother := Some (bd_mother b), re_lighter := bd_lighter b, re_master := bd_master b,
                re_escort := bd_escort b, re_mobile := bd_mobile b, re_destination := bd_destination b,
                re_start := bd_start b, re_start_shift := shift (bd_start_shift b) ''D'', re_end := bd_end b,
                re_end_shift := shift (bd_end_shift b) ''N'', re_release := bd_release b,
                re_status := (case py_or (bd_status b) None of None \<Rightarrow> ''draft'' | Some s \<Rightarrow> s), re_notes := bd_notes b\<rparr>
      in r\<lparr>re_pay := store_pay (case entry_pay rates (bd_conveyance b) r of
                                  Some c \<Rightarrow> c | None \<Rightarrow> no_pay\<lparr>pc_conveyance := bd_conveyance b\<rparr>)\<rparr>)"

definition create_roster_entry ::
  "env \<Rightarrow> entry_body \<Rightarrow> string \<Rightarrow> roster_db \<Rightarrow> (roster_error + roster_entry option) \<times> roster_db" where
  \<comment> \<open>statement 0 reads the largest id, 1 to 3 the rates, 4 writes, 5 is the audit row, 6 reads back\<close>
  "create_roster_entry e b actor db =
     (let i = next_program_id db; r = manual_entry (ro_rates db) i (db_now e) b;
          dates = (bd_start b \<noteq> None \<and> bd_end b \<noteq> None)
      in if raises e 0 \<or> dates \<and> (if bd_conveyance b = None then lookup_raises e 1 (ro_rates db) (bd_destination b) else raises e 3)
            \<or> raises e 4 \<or> \<not> shift_allowed (re_start_shift r) \<or> \<not> shift_allowed (re_end_shift r)
         then (Inl Roster_exception, db)
         else let db1 = log_audit e 5 i ''create'' actor (db\<lparr>ro_entries := ro_entries db @ [r]\<rparr>)
              in if raises e 6 then (Inl Roster_exception, db1)
                 else (Inr (find (\<lambda>r. re_program r = i) (ro_entries db1)), db1))"

subsection \<open>Listing\<close>

record roster_query =
  rq_page :: int
  rq_size :: int
  rq_search :: "string option"
  rq_state :: "string option"
  rq_from :: "string option"
  rq_to :: "string option"
  rq_sort :: string
  rq_dir :: string

definition sort_columns :: "string list" where
  "sort_columns = [''start_date'', ''end_date'', ''total'', ''total_shifts'', ''total_days'', ''mother_vessel'',
     ''lighter_vessel'', ''escort_name'', ''program_id'', ''created_at'']"

definition sort_column :: "roster_query \<Rightarrow> string \<times> bool" where
  "sort_column q = (if rq_sort q \<in> set sort_columns then rq_sort q else ''start_date'', py_lower (rq_dir q) = ''desc'')"

definition refused_query :: "roster_query \<Rightarrow> bool" where
  \<comment> \<open>the search names columns that both joined tables have; the dates are passed as text\<close>
  "refused_query q \<longleftrightarrow> py_or (rq_search q) None \<noteq> None \<or> py_or (rq_from q) None \<noteq> None \<or> py_or (rq_to q) None \<noteq> None"

definition program_of :: "roster_db \<Rightarrow> roster_entry \<Rightarrow> program option" where
  "program_of db r = find (\<lambda>p. gp_id p = re_program r) (ro_programs db)"

definition listed :: "roster_query \<Rightarrow> roster_db \<Rightarrow> roster_entry \<Rightarrow> bool" where
  \<comment> \<open>the filter is on the status of the program\<close>
  "listed q db r \<longleftrightarrow>
     (case py_or (rq_state q) None of
        None \<Rightarrow> True
      | Some st \<Rightarrow> (case program_of db r of None \<Rightarrow> False | Some p \<Rightarrow> gp_status p = Some st))"

record roster_list =
  rl_items :: "roster_entry list"
  rl_total :: int
  rl_pages :: int

definition get_roster_list ::
  "(string \<times> bool \<Rightarrow> roster_entry list \<Rightarrow> roster_entry list) \<Rightarrow> env \<Rightarrow> roster_query \<Rightarrow> roster_db \<Rightarrow> roster_error + roster_list" where
  \<comment> \<open>\<open>LIMIT\<close> and \<open>OFFSET\<close> below zero are refused\<close>
  "get_roster_list order e q db =
     (let rows = filter (listed q db) (ro_entries db); off = (rq_page q - 1) * rq_size q
      in if refused_query q \<or> raises e 0 \<or> raises e 1 \<or> rq_size q \<le> 0 \<or> off < 0 then Inl Roster_exception
         else Inr \<lparr>rl_items = take (nat (rq_size q)) (drop (nat off) (order (sort_column q) rows)),
                   rl_total = int (length rows), rl_pages = max 1 (- ((- int (length rows)) div rq_size q))\<rparr>)"

definition api_roster_active ::
  "(string \<times> bool \<Rightarrow> roster_entry list \<Rightarrow> roster_entry list) \<Rightarrow> env \<Rightarrow> int \<Rightarrow> int \<Rightarrow> string option \<Rightarrow> roster_db
    \<Rightarrow> roster_error + roster_list" where
  "api_roster_active order e page n search db =
     get_roster_list order e \<lparr>rq_page = page, rq_size = n, rq_search = search, rq_state = Some ''active'', rq_from = None,
       rq_to = None, rq_sort = ''start_date'', rq_dir = ''desc''\<rparr> db"

definition api_sync_all_get :: "env \<Rightarrow> roster_db \<Rightarrow> roster_error + int \<times> int \<times> int" where
  "api_sync_all_get e db =
     (if raises e 0 \<or> raises e 1 then Inl Roster_exception
      else Inr (int (length (ro_programs db)), int (length (ro_entries db)), int (length (ro_programs db)) - int (length (ro_entries db))))"

record roster_summary =
  rs_by :: "(string \<times> nat \<times> rat) list"
  rs_count :: nat
  rs_amount :: rat
  rs_active :: nat
  rs_drafts :: nat

definition entry_total :: "roster_entry \<Rightarrow> rat" where
  "entry_total r = or_zero (pc_total (re_pay r))"

definition get_roster_summary :: "roster_db \<Rightarrow> roster_summary" where
  "get_roster_summary db =
     (let groups = map (\<lambda>st. (st, let t = filter (\<lambda>r. re_status r = st) (ro_entries db)
                                 in (length t, sum_list (map entry_total t)))) (remdups (map re_status (ro_entries db)))
      in \<lparr>rs_by = groups, rs_count = sum_list (map (\<lambda>g. fst (snd g)) groups),
          rs_amount = round2 (sum_list (map (\<lambda>g. snd (snd g)) groups)),
          rs_active = count_where (\<lambda>p. gp_status p \<in> {Some ''Assigned'', Some ''Running''}) (ro_programs db),
          rs_drafts = count_where (\<lambda>p. gp_status p = Some ''draft'') (ro_programs db)\<rparr>)"

subsection \<open>Drafts\<close>

definition draft_entry :: "roster_entry \<Rightarrow> bool" where
  "draft_entry r \<longleftrightarrow> re_status r = ''draft''"

definition draft_program :: "program \<Rightarrow> bool" where
  "draft_program p \<longleftrightarrow> gp_status p = Some ''draft''"

definition get_draft_entries :: "env \<Rightarrow> int \<Rightarrow> int \<Rightarrow> roster_db \<Rightarrow> roster_error + int \<times> roster_entry list" where
  "get_draft_entries e page n db =
     (let rows = filter draft_entry (ro_entries db); off = (page - 1) * n
      in if raises e 0 \<or> raises e 1 \<or> n < 0 \<or> off < 0 then Inl Roster_exception
         else Inr (int (length rows), take (nat n) (drop (nat off) (sort_key (\<lambda>r. - re_created r) rows))))"

fun audit_all :: "(int \<Rightarrow> env) \<Rightarrow> int list \<Rightarrow> string \<Rightarrow> string \<Rightarrow> roster_db \<Rightarrow> roster_db" where
  "audit_all es [] action actor db = db"
| "audit_all es (i # is) action actor db = audit_all es is action actor (log_audit (es i) 0 i action actor db)"

definition cleanup_draft_entries :: "env \<Rightarrow> (int \<Rightarrow> env) \<Rightarrow> string \<Rightarrow> roster_db \<Rightarrow> (roster_error + nat) \<times> roster_db" where
  "cleanup_draft_entries e es actor db =
     (let drafts = filter draft_entry (ro_entries db)
      in if raises e 0 then (Inl Roster_exception, db)
         else if drafts = [] then (Inr 0, db)
         else let db1 = audit_all es (map re_program drafts) ''draft_cleanup'' actor db
              in if raises e 1 then (Inl Roster_exception, db1)
                 else (Inr (length drafts), db1\<lparr>ro_entries := delete_where draft_entry (ro_entries db1)\<rparr>))"

definition stale_entry :: "time \<Rightarrow> int \<Rightarrow> roster_entry \<Rightarrow> bool" where
  "stale_entry now hours r \<longleftrightarrow> draft_entry r
     \<and> (case re_expires r of Some x \<Rightarrow> x < now | None \<Rightarrow> re_created r < now - secs (3600 * hours))"

definition expire_stale_drafts ::
  "env \<Rightarrow> time \<Rightarrow> (int \<Rightarrow> env) \<Rightarrow> int \<Rightarrow> string \<Rightarrow> roster_db \<Rightarrow> (roster_error + nat) \<times> roster_db" where
  \<comment> \<open>the deletion asks again, with its own clock\<close>
  "expire_stale_drafts e later es hours actor db =
     (let stale = filter (stale_entry (db_now e) hours) (ro_entries db)
      in if raises e 0 then (Inl Roster_exception, db)
         else if stale = [] then (Inr 0, db)
         else let db1 = audit_all es (map re_program stale) ''draft_expired'' actor db
              in if raises e 1 then (Inl Roster_exception, db1)
                 else (Inr (length stale), db1\<lparr>ro_entries := delete_where (stale_entry later hours) (ro_entries db1)\<rparr>))"

definition drop_entries :: "int list \<Rightarrow> roster_db \<Rightarrow> roster_db" where
  "drop_entries ids db = db\<lparr>ro_entries := delete_where (\<lambda>r. re_program r \<in> set ids) (ro_entries db)\<rparr>"

definition drop_draft_programs :: "int list \<Rightarrow> roster_db \<Rightarrow> roster_db" where
  "drop_draft_programs ids db =
     db\<lparr>ro_programs := delete_where (\<lambda>p. gp_id p \<in> set ids \<and> draft_program p) (ro_programs db)\<rparr>"

definition filled :: "string option \<Rightarrow> bool" where
  \<comment> \<open>not null and not blank after \<open>TRIM\<close>, which takes off spaces\<close>
  "filled x \<longleftrightarrow> (case x of None \<Rightarrow> False | Some s \<Rightarrow> list_ex (\<lambda>c. c \<noteq> CHR '' '') s)"

definition empty_draft :: "time \<Rightarrow> int \<Rightarrow> program \<Rightarrow> bool" where
  "empty_draft now hours p \<longleftrightarrow> draft_program p \<and> \<not> filled (gp_mother p) \<and> \<not> filled (gp_lighter p) \<and> \<not> filled (gp_escort p)
     \<and> (case gp_assigned p of None \<Rightarrow> False | Some t \<Rightarrow> t < now - secs (3600 * hours))"

definition cleanup_empty_drafts :: "env \<Rightarrow> int \<Rightarrow> roster_db \<Rightarrow> (roster_error + nat) \<times> roster_db" where
  "cleanup_empty_drafts e hours db =
     (let ids = sort (map gp_id (filter (empty_draft (db_now e) hours) (ro_programs db)))
      in if raises e 0 then (Inl Roster_exception, db)
         else if ids = [] then (Inr 0, db)
         else if raises e 1 then (Inl Roster_exception, db)
         else let db1 = drop_entries ids db
              in if raises e 2 then (Inl Roster_exception, db1) else (Inr (length ids), drop_draft_programs ids db1))"

definition numbered_line :: "string \<Rightarrow> bool" where
  \<comment> \<open>\<open>^[0-9]+\.\s\<close>\<close>
  "numbered_line s \<longleftrightarrow>
     (let rest = dropWhile is_digit s
      in rest \<noteq> s \<and> (case rest of a # b # _ \<Rightarrow> a = CHR ''.'' \<and> of_char b \<in> {9, 10, 11, 12, 13, 32 :: nat} | _ \<Rightarrow> False))"

definition junk_patterns :: "string list" where
  "junk_patterns = [''%CAPACITY:%'', ''%PHONE:%'', ''%Contact number%'', ''%S/N:%'', ''SI. No%'', ''@BR-%'']"

definition junk_draft :: "program \<Rightarrow> bool" where
  "junk_draft p \<longleftrightarrow> draft_program p \<and> filled (gp_lighter p)
     \<and> (case gp_lighter p of None \<Rightarrow> False | Some s \<Rightarrow> numbered_line s \<or> list_ex (\<lambda>k. sql_ilike k s) junk_patterns)"

definition cleanup_junk_drafts :: "env \<Rightarrow> (int \<Rightarrow> env) \<Rightarrow> string \<Rightarrow> roster_db \<Rightarrow> (roster_error + nat) \<times> roster_db" where
  "cleanup_junk_drafts e es actor db =
     (let ids = sort (map gp_id (filter junk_draft (ro_programs db)))
      in if raises e 0 then (Inl Roster_exception, db)
         else if ids = [] then (Inr 0, db)
         else if raises e 1 then (Inl Roster_exception, db)
         else let db1 = drop_entries ids db
              in if raises e 2 then (Inl Roster_exception, db1)
                 else (Inr (length ids), audit_all es ids ''junk_draft_cleanup'' actor (drop_draft_programs ids db1)))"

definition strip_mv :: "string \<Rightarrow> string" where
  \<comment> \<open>\<open>^mv\.?\s+\<close> taken off, then stripped\<close>
  "strip_mv s =
     (let rest = (if starts ''mv.'' s then drop 3 s else if starts ''mv'' s then drop 2 s else []);
          cut = dropWhile is_space rest
      in py_strip (if starts ''mv'' s \<and> cut \<noteq> rest then cut else s))"

definition text_or_empty :: "string option \<Rightarrow> string" where
  "text_or_empty x = (case x of None \<Rightarrow> '''' | Some s \<Rightarrow> s)"

definition same_vessels :: "(string \<Rightarrow> string \<Rightarrow> rat) \<Rightarrow> string \<Rightarrow> string \<Rightarrow> program \<Rightarrow> bool" where
  "same_vessels ratio lv mv p \<longleftrightarrow>
     \<not> ratio lv (py_lower (py_strip (text_or_empty (gp_lighter p)))) < 3 / 4
     \<and> (mv = '''' \<or> (let m = strip_mv (py_lower (text_or_empty (gp_mother p))) in m = '''' \<or> \<not> ratio mv m < 3 / 5))"

definition draft_candidates :: "roster_db \<Rightarrow> program list" where
  "draft_candidates db =
     take 300 (sort_key (\<lambda>p. - gp_id p) (filter (\<lambda>p. draft_program p \<and> py_or (gp_lighter p) None \<noteq> None) (ro_programs db)))"

definition reconcile_drafts_for_confirmation ::
  "(string \<Rightarrow> string \<Rightarrow> rat) \<Rightarrow> env \<Rightarrow> (int \<Rightarrow> env) \<Rightarrow> string option \<Rightarrow> string option \<Rightarrow> string \<Rightarrow> roster_db
    \<Rightarrow> (roster_error + nat) \<times> roster_db" where
  "reconcile_drafts_for_confirmation ratio e es lighter mother actor db =
     (let lv = py_lower (py_strip (text_or_empty lighter)); mv = strip_mv (py_lower (text_or_empty mother));
          ids = map gp_id (filter (same_vessels ratio lv mv) (draft_candidates db))
      in if py_strip (text_or_empty lighter) = '''' then (Inr 0, db)
         else if raises e 0 then (Inl Roster_exception, db)
         else if ids = [] then (Inr 0, db)
         else if raises e 1 then (Inl Roster_exception, db)
         else let db1 = audit_all es ids ''draft_reconciled'' actor (drop_entries ids db)
              in if raises e 2 then (Inl Roster_exception, db1) else (Inr (length ids), drop_draft_programs ids db1))"

definition delete_draft_program :: "env \<Rightarrow> int \<Rightarrow> roster_db \<Rightarrow> (roster_error + bool) \<times> roster_db" where
  \<comment> \<open>false stands for the two answers with an error text\<close>
  "delete_draft_program e i db =
     (if raises e 0 then (Inl Roster_exception, db)
      else case find (\<lambda>p. gp_id p = i) (ro_programs db) of
        None \<Rightarrow> (Inr False, db)
      | Some p \<Rightarrow>
          if \<not> draft_program p then (Inr False, db)
          else if raises e 1 then (Inl Roster_exception, db)
          else let db1 = drop_entries [i] db
               in if raises e 2 then (Inl Roster_exception, db1) else (Inr True, drop_draft_programs [i] db1))"

definition confirmed_programs :: "roster_db \<Rightarrow> program list" where
  "confirmed_programs db =
     sort_key (\<lambda>p. - gp_id p)
       (filter (\<lambda>p. gp_status p \<in> {Some ''confirmed'', Some ''Assigned'', Some ''Running'', Some ''Completed''}
          \<and> filled (gp_lighter p)) (ro_programs db))"

fun reconcile_each ::
  "(string \<Rightarrow> string \<Rightarrow> rat) \<Rightarrow> (int \<Rightarrow> env) \<Rightarrow> (int \<Rightarrow> env) \<Rightarrow> program list \<Rightarrow> nat \<Rightarrow> roster_db \<Rightarrow> (roster_error + nat) \<times> roster_db" where
  "reconcile_each ratio es as [] n db = (Inr n, db)"
| "reconcile_each ratio es as (p # ps) n db =
     (case reconcile_drafts_for_confirmation ratio (es (gp_id p)) as (gp_lighter p) (gp_mother p) ''bulk_reconcile'' db of
        (Inl x, db1) \<Rightarrow> (Inl x, db1)
      | (Inr k, db1) \<Rightarrow> reconcile_each ratio es as ps (n + k) db1)"

definition api_reconcile_drafts ::
  "(string \<Rightarrow> string \<Rightarrow> rat) \<Rightarrow> env \<Rightarrow> (int \<Rightarrow> env) \<Rightarrow> (int \<Rightarrow> env) \<Rightarrow> roster_db \<Rightarrow> (roster_error + nat \<times> nat) \<times> roster_db" where
  "api_reconcile_drafts ratio e es as db =
     (if raises e 0 then (Inl Roster_exception, db)
      else case reconcile_each ratio es as (confirmed_programs db) 0 db of
             (Inl x, db1) \<Rightarrow> (Inl x, db1)
           | (Inr n, db1) \<Rightarrow> (Inr (length (confirmed_programs db), n), db1))"

subsection \<open>The roster mirrors the programs\<close>

definition entry_of :: "roster_db \<Rightarrow> int \<Rightarrow> roster_entry option" where
  "entry_of db i = find (\<lambda>r. re_program r = i) (ro_entries db)"

definition mirror_entry :: "time \<Rightarrow> rate_row list \<Rightarrow> program \<Rightarrow> roster_entry option \<Rightarrow> roster_entry" where
  \<comment> \<open>the specification: what a synchronisation makes of a program and the entry it had\<close>
  "mirror_entry t rates p old =
     (case old of
        None \<Rightarrow> mirrored rates p (blank_entry (gp_id p) t)
      | Some x \<Rightarrow> (mirrored rates p x)\<lparr>re_version := re_version x + 1\<rparr>)"

lemma mirrored_simps [simp]:
  "re_program (mirrored rates p r) = re_program r" "re_notes (mirrored rates p r) = re_notes r"
  "re_created (mirrored rates p r) = re_created r" "re_expires (mirrored rates p r) = re_expires r"
  by (simp_all add: mirrored_def)

lemma log_audit_frame [simp]:
  "ro_entries (log_audit e k i a w db) = ro_entries db" "ro_programs (log_audit e k i a w db) = ro_programs db"
  "ro_rates (log_audit e k i a w db) = ro_rates db" "entry_of (log_audit e k i a w db) j = entry_of db j"
  by (simp_all add: log_audit_def entry_of_def)

lemma write_mirror_frame [simp]:
  "ro_programs (snd (write_mirror e p db)) = ro_programs db" "ro_rates (snd (write_mirror e p db)) = ro_rates db"
  by (simp_all add: write_mirror_def split: option.split)

lemma write_mirror_entry:
  "entry_of (snd (write_mirror e p db)) k =
     (if k = gp_id p then Some (mirror_entry (db_now e) (ro_rates db) p (entry_of db (gp_id p))) else entry_of db k)"
proof (cases "entry_of db (gp_id p)")
  case None
  then show ?thesis
    by (auto simp: write_mirror_def entry_of_def mirror_entry_def find_append blank_entry_def split: option.split)
next
  case (Some x)
  then have x: "re_program x = gp_id p" using find_Some_mem by (fastforce simp: entry_of_def)
  have "find (\<lambda>r. re_program r = k) (update_where (\<lambda>r. re_program r = gp_id p)
      (\<lambda>r. (mirrored (ro_rates db) p r)\<lparr>re_version := re_version x + 1\<rparr>) (ro_entries db)) =
    map_option (\<lambda>r. if re_program r = gp_id p then (mirrored (ro_rates db) p r)\<lparr>re_version := re_version x + 1\<rparr> else r)
      (find (\<lambda>r. re_program r = k) (ro_entries db))"
    by (rule find_update_where_key [where key = re_program]) simp
  with Some x show ?thesis
    by (cases "entry_of db k") (auto simp: write_mirror_def entry_of_def mirror_entry_def dest: find_Some_mem)
qed

lemma sync_one:
  assumes "db_ok e" "find (\<lambda>p. gp_id p = i) (ro_programs db) = Some p"
  shows "ro_programs (snd (sync_program_to_roster e i w db)) = ro_programs db
    \<and> ro_rates (snd (sync_program_to_roster e i w db)) = ro_rates db
    \<and> fst (sync_program_to_roster e i w db) =
        (if mirrorable p then Inr (Some (mirror_entry (db_now e) (ro_rates db) p (entry_of db i))) else Inl Roster_exception)
    \<and> entry_of (snd (sync_program_to_roster e i w db)) k =
        (if k = i \<and> mirrorable p then Some (mirror_entry (db_now e) (ro_rates db) p (entry_of db i)) else entry_of db k)"
proof -
  have p: "gp_id p = i" using find_Some_mem [OF assms(2)] by simp
  have "\<not> lookup_raises e 1 (ro_rates db) (gp_destination p)"
    using assms(1) by (simp add: lookup_raises_def db_ok_raises split: option.split)
  then show ?thesis
    using assms p write_mirror_entry [of e p db] log_audit_frame(4) [unfolded entry_of_def]
    by (auto simp: sync_program_to_roster_def db_ok_raises case_prod_beta Let_def entry_of_def)
qed

definition good_id :: "program list \<Rightarrow> int \<Rightarrow> bool" where
  "good_id ps i \<longleftrightarrow> (case find (\<lambda>p. gp_id p = i) ps of None \<Rightarrow> False | Some p \<Rightarrow> mirrorable p)"

lemma sync_loop:
  assumes "\<And>i. db_ok (es i)" "\<And>i. i \<in> set is \<Longrightarrow> find (\<lambda>p. gp_id p = i) (ro_programs db) \<noteq> None" "distinct is"
  shows "fst (sync_programs es w is (n, errs) db) =
      (n + length (filter (good_id (ro_programs db)) is),
       errs @ map (\<lambda>i. (i, Roster_exception)) (filter (\<lambda>i. \<not> good_id (ro_programs db) i) is))
    \<and> ro_programs (snd (sync_programs es w is (n, errs) db)) = ro_programs db
    \<and> ro_rates (snd (sync_programs es w is (n, errs) db)) = ro_rates db
    \<and> entry_of (snd (sync_programs es w is (n, errs) db)) k =
       (if k \<in> set is \<and> good_id (ro_programs db) k
        then Some (mirror_entry (db_now (es k)) (ro_rates db) (the (find (\<lambda>p. gp_id p = k) (ro_programs db))) (entry_of db k))
        else entry_of db k)"
  using assms(2,3)
proof (induction "is" arbitrary: n errs db)
  case Nil
  then show ?case by simp
next
  case (Cons i "is")
  let ?db1 = "snd (sync_program_to_roster (es i) i w db)"
  obtain p where p: "find (\<lambda>p. gp_id p = i) (ro_programs db) = Some p" using Cons.prems(1) by auto
  have good: "good_id (ro_programs db) i = mirrorable p" by (simp add: good_id_def p)
  have step: "sync_programs es w (i # is) (n, errs) db =
      sync_programs es w is (if mirrorable p then (n + 1, errs) else (n, errs @ [(i, Roster_exception)])) ?db1"
    using sync_one [OF assms(1) p, of i w]
    by (cases "sync_program_to_roster (es i) i w db") (auto split: if_splits)
  have progs: "ro_programs ?db1 = ro_programs db" "ro_rates ?db1 = ro_rates db"
    using sync_one [OF assms(1) p, of i w] by simp_all
  have ent: "entry_of ?db1 k = (if k = i \<and> mirrorable p
      then Some (mirror_entry (db_now (es i)) (ro_rates db) p (entry_of db i)) else entry_of db k)"
    using sync_one [OF assms(1) p, of i w] by blast
  note IH = Cons.IH [of ?db1, unfolded progs]
  have pre: "\<And>j. j \<in> set is \<Longrightarrow> find (\<lambda>p. gp_id p = j) (ro_programs db) \<noteq> None" "distinct is" "i \<notin> set is"
    using Cons.prems by auto
  show ?case
    using IH [OF pre(1,2)] good p pre(3) unfolding step ent by (cases "mirrorable p") auto
qed

definition two_places :: "rat \<Rightarrow> bool" where
  "two_places x \<longleftrightarrow> x = of_int \<lfloor>100 * x\<rfloor> / 100"

lemma two_placesI: "100 * x = of_int n \<Longrightarrow> two_places x"
  by (simp add: two_places_def field_simps)

lemma two_placesE: "two_places x \<Longrightarrow> \<exists>n. 100 * x = of_int n"
  unfolding two_places_def by (intro exI [of _ "\<lfloor>100 * x\<rfloor>"]) (simp add: field_simps)

lemma column2_id: "two_places x \<Longrightarrow> column2 x = x"
proof -
  assume "two_places x"
  then obtain n where n: "100 * x = of_int n" using two_placesE by blast
  have "\<lfloor>of_int n + (1 / 2 :: rat)\<rfloor> = n" "\<lfloor>1 / 2 - (of_int n :: rat)\<rfloor> = - n" by linarith+
  then have "column2 x = of_int n / 100" by (simp add: column2_def n)
  with n show ?thesis by (simp add: field_simps)
qed

lemma two_places_column2 [simp]: "two_places (column2 x)"
  by (rule two_placesI) (simp add: column2_def)

lemma two_places_add: "two_places x \<Longrightarrow> two_places y \<Longrightarrow> two_places (x + y)"
  using two_placesE [of x] two_placesE [of y] two_placesI [of "x + y"] by (metis distrib_left of_int_add)

lemma two_places_diff: "two_places x \<Longrightarrow> two_places y \<Longrightarrow> two_places (x - y)"
  using two_placesE [of x] two_placesE [of y] two_placesI [of "x - y"] by (metis right_diff_distrib of_int_diff)

lemma two_places_times: "two_places x \<Longrightarrow> two_places (of_int k * x)"
  using two_placesE [of x] two_placesI [of "of_int k * x"] by (metis mult.left_commute of_int_mult)

lemma two_places_int [simp]: "two_places (numeral k)" "two_places 0"
  by (rule two_placesI [of _ "100 * numeral k"], simp) (rule two_placesI [of _ 0], simp)

text \<open>
  C33: The roster is the image of the programs. A synchronisation of all programs without failing
  statements leaves, for every program whose shift letters the columns accept, exactly one set of
  columns: those the mirror computes from the program and the rates, with the notes, the creation
  and the expiry of an entry that was there and its version advanced, so that another run would
  change the version only. All other entries stay as they are, also those made by hand; the answer
  counts the mirrored programs and lists the others in order.
\<close>

theorem roster_mirrors_programs:
  assumes "db_ok e" and "\<And>i. db_ok (es i)" and "distinct (map gp_id (ro_programs db))"
  shows "\<exists>n errs db'. sync_all_programs e es w db = (Inr (n, errs), db')
    \<and> n = length (filter mirrorable (ro_programs db))
    \<and> map fst errs = sort (map gp_id (filter (\<lambda>p. \<not> mirrorable p) (ro_programs db)))
    \<and> ro_programs db' = ro_programs db \<and> ro_rates db' = ro_rates db
    \<and> (\<forall>p\<in>set (ro_programs db). mirrorable p \<longrightarrow>
         entry_of db' (gp_id p) = Some (mirror_entry (db_now (es (gp_id p))) (ro_rates db) p (entry_of db (gp_id p)))
         \<and> mirrored (ro_rates db) p (the (entry_of db' (gp_id p))) = the (entry_of db' (gp_id p)))
    \<and> (\<forall>k. \<not> (\<exists>p\<in>set (ro_programs db). gp_id p = k \<and> mirrorable p) \<longrightarrow> entry_of db' k = entry_of db k)"
proof -
  let ?ps = "ro_programs db" and ?ids = "sort (map gp_id (ro_programs db))"
  let ?out = "sync_programs es w ?ids (0, []) db"
  have found: "find (\<lambda>p. gp_id p = i) ?ps \<noteq> None" if "i \<in> set ?ids" for i
    using that by (auto simp: find_None_iff_all)
  have loop: "fst ?out = (length (filter (good_id ?ps) ?ids), map (\<lambda>i. (i, Roster_exception)) (filter (\<lambda>i. \<not> good_id ?ps i) ?ids))"
      "ro_programs (snd ?out) = ?ps" "ro_rates (snd ?out) = ro_rates db"
      "entry_of (snd ?out) k = (if k \<in> set ?ids \<and> good_id ?ps k
        then Some (mirror_entry (db_now (es k)) (ro_rates db) (the (find (\<lambda>p. gp_id p = k) ?ps)) (entry_of db k)) else entry_of db k)" for k
    using sync_loop [of es ?ids db w 0 "[]" k, OF assms(2) found] assms(3) by simp_all
  have find: "find (\<lambda>q. gp_id q = gp_id p) ?ps = Some p" if "p \<in> set ?ps" for p
    using find_key_unique [OF assms(3) that] .
  have good: "good_id ?ps (gp_id p) = mirrorable p" if "p \<in> set ?ps" for p
    by (simp add: good_id_def find [OF that])
  have counts: "filter (\<lambda>i. good_id ?ps i = b) ?ids = sort (map gp_id (filter (\<lambda>p. mirrorable p = b) ?ps))" for b
    using good by (simp add: filter_sort filter_map comp_def cong: filter_cong)
  have fixed: "mirrored rates p (mirror_entry t rates p old) = mirror_entry t rates p old" for rates p t old
    by (simp add: mirror_entry_def mirrored_def split: option.split)
  have "sync_all_programs e es w db = (Inr (fst ?out), snd ?out)"
    using assms(1) by (simp add: sync_all_programs_def db_ok_raises case_prod_beta)
  moreover have "length (filter (good_id ?ps) ?ids) = length (filter mirrorable ?ps)"
    using counts [of True] by simp
  moreover have "map fst (map (\<lambda>i. (i, Roster_exception)) (filter (\<lambda>i. \<not> good_id ?ps i) ?ids))
      = sort (map gp_id (filter (\<lambda>p. \<not> mirrorable p) ?ps))"
    using counts [of False] by (simp add: comp_def)
  moreover have "entry_of (snd ?out) (gp_id p) = Some (mirror_entry (db_now (es (gp_id p))) (ro_rates db) p (entry_of db (gp_id p)))"
    if "p \<in> set ?ps" "mirrorable p" for p
    using that good [OF that(1)] find [OF that(1)] by (simp add: loop(4))
  moreover have "entry_of (snd ?out) k = entry_of db k" if "\<not> (\<exists>p\<in>set ?ps. gp_id p = k \<and> mirrorable p)" for k
    using that good by (auto simp: loop(4))
  ultimately show ?thesis
    using loop(1-3) fixed by (intro exI [of _ "fst (fst ?out)"] exI [of _ "snd (fst ?out)"] exI [of _ "snd ?out"]) simp
qed

definition sample_program :: "int \<Rightarrow> string \<Rightarrow> program" where
  "sample_program i st =
     \<lparr>gp_id = i, gp_mother = Some ''MV Star'', gp_lighter = Some ''Jahan 5'', gp_master = None, gp_escort = Some ''Karim'',
      gp_mobile = None, gp_employee_name = None, gp_destination = Some ''Mongla'', gp_start = None,
      gp_date = Some (Date 2026 5 4), gp_shift = Some ''D'', gp_end = Some (Date 2026 5 6), gp_end_shift = Some ''N'',
      gp_payment = None, gp_days = None, gp_day_count = None, gp_conveyance = None, gp_release_point = None,
      gp_release_location = None, gp_status = Some st, gp_assigned = Some 0\<rparr>"

definition sample_roster :: roster_db where
  "sample_roster =
     \<lparr>ro_programs = [sample_program 1 ''Running'', sample_program 2 ''confirmed''], ro_entries = [],
      ro_rates = [\<lparr>rt_id = 1, rt_destination = ''Mongla'', rt_key = ''mongla'', rt_conveyance = 1500, rt_rate = 200, rt_by = None\<rparr>],
      ro_rate_next = 2, ro_audit = []\<rparr>"

lemma sample_pay: "program_pay (ro_rates sample_roster) (sample_program 1 ''Running'')
    = \<lparr>pc_shifts = Some 6, pc_days = Some 3, pc_salary = Some 1200, pc_conveyance = Some 1500, pc_total = Some 2700\<rparr>"
  by code_simp

lemma sample_mirrorable: "mirrorable (sample_program i st)"
  by (simp add: mirrorable_def sample_program_def start_letter_def py_or_def shift_allowed_def) code_simp

theorem roster_mirrors_programs_witness:
  "\<exists>n errs db' r. sync_all_programs (env_at 9) (\<lambda>_. env_at 9) ''api'' sample_roster = (Inr (n, errs), db') \<and> n = 2 \<and> errs = []
     \<and> entry_of db' 1 = Some r \<and> re_status r = ''active'' \<and> pc_total (re_pay r) = Some 2700"
proof -
  have d: "distinct (map gp_id (ro_programs sample_roster))" by (simp add: sample_roster_def sample_program_def)
  obtain n errs db' where o: "sync_all_programs (env_at 9) (\<lambda>_. env_at 9) ''api'' sample_roster = (Inr (n, errs), db')"
      "n = length (filter mirrorable (ro_programs sample_roster))"
      "map fst errs = sort (map gp_id (filter (\<lambda>p. \<not> mirrorable p) (ro_programs sample_roster)))"
    and m: "\<forall>p\<in>set (ro_programs sample_roster). mirrorable p \<longrightarrow>
         entry_of db' (gp_id p) = Some (mirror_entry (db_now (env_at 9)) (ro_rates sample_roster) p (entry_of sample_roster (gp_id p)))
         \<and> mirrored (ro_rates sample_roster) p (the (entry_of db' (gp_id p))) = the (entry_of db' (gp_id p))"
    using roster_mirrors_programs [of "env_at 9" "\<lambda>_. env_at 9" sample_roster "''api''", OF db_ok_env_at db_ok_env_at d] by blast
  have all: "\<forall>p\<in>set (ro_programs sample_roster). mirrorable p"
    using sample_mirrorable by (simp add: sample_roster_def)
  have p: "sample_program 1 ''Running'' \<in> set (ro_programs sample_roster)" by (simp add: sample_roster_def)
  have "n = 2 \<and> errs = []" using o(2,3) all by (simp add: sample_roster_def filter_False)
  moreover have "entry_of db' 1 = Some (mirrored (ro_rates sample_roster) (sample_program 1 ''Running'') (blank_entry 1 9))"
    using m p sample_mirrorable by (fastforce simp: sample_program_def mirror_entry_def entry_of_def sample_roster_def)
  moreover have "re_status (mirrored (ro_rates sample_roster) (sample_program 1 ''Running'') (blank_entry 1 9)) = ''active''"
    by (simp add: mirrored_def sample_program_def roster_status_of_def py_or_def) code_simp
  moreover have "pc_total (re_pay (mirrored (ro_rates sample_roster) (sample_program 1 ''Running'') (blank_entry 1 9))) = Some 2700"
    by (simp add: mirrored_def sample_pay store_pay_def column2_id)
  ultimately show ?thesis using o(1) by blast
qed

subsection \<open>What the removals may take\<close>

definition keeps_live :: "roster_db \<Rightarrow> roster_db \<Rightarrow> bool" where
  "keeps_live db db' \<longleftrightarrow>
     ro_rates db' = ro_rates db \<and> set (ro_programs db') \<subseteq> set (ro_programs db)
     \<and> (\<exists>P. ro_entries db' = filter P (ro_entries db))
     \<and> (\<forall>p\<in>set (ro_programs db). \<not> draft_program p \<longrightarrow> p \<in> set (ro_programs db'))
     \<and> (\<forall>r\<in>set (ro_entries db). \<not> draft_entry r \<and> \<not> (\<exists>p\<in>set (ro_programs db). gp_id p = re_program r \<and> draft_program p)
          \<longrightarrow> r \<in> set (ro_entries db'))"

lemma keeps_live_refl [simp]: "keeps_live db db"
  by (auto simp: keeps_live_def intro: exI [of _ "\<lambda>_. True"])

lemma keeps_live_trans: "keeps_live a b \<Longrightarrow> keeps_live b c \<Longrightarrow> keeps_live a c"
  unfolding keeps_live_def by (intro conjI; (elim conjE)?) (simp, blast, metis filter_filter, blast, meson subsetD)

lemma audit_all_frame [simp]:
  "ro_entries (audit_all es is a w db) = ro_entries db" "ro_programs (audit_all es is a w db) = ro_programs db"
  "ro_rates (audit_all es is a w db) = ro_rates db"
  by (induction "is" arbitrary: db) simp_all

lemma keeps_live_dropped:
  assumes "\<forall>i\<in>set ids. \<exists>p\<in>set (ro_programs db). gp_id p = i \<and> draft_program p"
    and "ro_programs db' \<in> {ro_programs db, ro_programs (drop_draft_programs ids db)}" "ro_entries db' = ro_entries (drop_entries ids db)"
    and "ro_rates db' = ro_rates db"
  shows "keeps_live db db'"
proof -
  have "\<exists>P. ro_entries db' = filter P (ro_entries db)" using assms(3) by (auto simp: drop_entries_def delete_where_def)
  then show ?thesis
    unfolding keeps_live_def using assms
    by (intro conjI) (simp, fastforce simp: drop_draft_programs_def, simp, fastforce simp: drop_draft_programs_def,
      fastforce simp: drop_entries_def)
qed

lemma drop_frame [simp]:
  "ro_programs (drop_entries ids db) = ro_programs db" "ro_entries (drop_draft_programs ids db) = ro_entries db"
  "ro_programs (drop_draft_programs ids (drop_entries ids' db)) = ro_programs (drop_draft_programs ids db)"
  "ro_rates (drop_entries ids db) = ro_rates db" "ro_rates (drop_draft_programs ids db) = ro_rates db"
  by (simp_all add: drop_entries_def drop_draft_programs_def)

lemma drop_audited [simp]:
  "ro_programs (drop_draft_programs ids (audit_all es is a w db)) = ro_programs (drop_draft_programs ids db)"
  by (simp add: drop_draft_programs_def)

lemma keeps_live_entries:
  assumes "ro_programs db' = ro_programs db" "ro_rates db' = ro_rates db" "ro_entries db' = delete_where P (ro_entries db)"
    and "\<And>r. P r \<Longrightarrow> draft_entry r"
  shows "keeps_live db db'"
  using assms by (auto simp: keeps_live_def delete_where_def)

lemma keeps_live_audited: "keeps_live db (audit_all es is a w db)"
  using keeps_live_entries [of "audit_all es is a w db" db "\<lambda>_. False"] by (simp add: delete_where_def)

lemma cleanup_keeps: "keeps_live db (snd (cleanup_draft_entries e es w db))"
  by (auto simp: cleanup_draft_entries_def Let_def intro: keeps_live_entries keeps_live_audited)

lemma expire_keeps: "keeps_live db (snd (expire_stale_drafts e later es hours w db))"
  by (auto simp: expire_stale_drafts_def Let_def stale_entry_def intro: keeps_live_entries keeps_live_audited)

lemma cleanup_empty_keeps: "keeps_live db (snd (cleanup_empty_drafts e hours db))"
proof -
  let ?ids = "sort (map gp_id (filter (empty_draft (db_now e) hours) (ro_programs db)))"
  have "\<forall>i\<in>set ?ids. \<exists>p\<in>set (ro_programs db). gp_id p = i \<and> draft_program p" by (auto simp: empty_draft_def)
  from keeps_live_dropped [OF this] show ?thesis by (simp add: cleanup_empty_drafts_def Let_def)
qed

lemma cleanup_junk_keeps: "keeps_live db (snd (cleanup_junk_drafts e es w db))"
proof -
  let ?ids = "sort (map gp_id (filter junk_draft (ro_programs db)))"
  have "\<forall>i\<in>set ?ids. \<exists>p\<in>set (ro_programs db). gp_id p = i \<and> draft_program p" by (auto simp: junk_draft_def)
  from keeps_live_dropped [OF this] show ?thesis by (simp add: cleanup_junk_drafts_def Let_def)
qed

lemma reconcile_keeps: "keeps_live db (snd (reconcile_drafts_for_confirmation ratio e es lighter mother w db))"
proof -
  let ?ids = "map gp_id (filter (same_vessels ratio (py_lower (py_strip (text_or_empty lighter))) (strip_mv (py_lower (text_or_empty mother))))
      (draft_candidates db))"
  have "\<forall>i\<in>set ?ids. \<exists>p\<in>set (ro_programs db). gp_id p = i \<and> draft_program p"
    by (auto simp: draft_candidates_def dest!: in_set_takeD)
  from keeps_live_dropped [OF this] show ?thesis by (simp add: reconcile_drafts_for_confirmation_def Let_def)
qed

lemma delete_keeps: "keeps_live db (snd (delete_draft_program e i db))"
proof (cases "find (\<lambda>p. gp_id p = i) (ro_programs db)")
  case (Some p)
  have "keeps_live db db'" if "draft_program p" "ro_entries db' = ro_entries (drop_entries [i] db)"
      "ro_programs db' \<in> {ro_programs db, ro_programs (drop_draft_programs [i] db)}" "ro_rates db' = ro_rates db" for db'
    using find_Some_mem [OF Some] that by (intro keeps_live_dropped) auto
  then show ?thesis using Some by (simp add: delete_draft_program_def Let_def)
qed (simp add: delete_draft_program_def)

lemma reconcile_each_keeps: "keeps_live db (snd (reconcile_each ratio es as ps n db))"
proof (induction ps arbitrary: n db)
  case (Cons p ps)
  let ?out = "reconcile_drafts_for_confirmation ratio (es (gp_id p)) as (gp_lighter p) (gp_mother p) ''bulk_reconcile'' db"
  have "keeps_live db (snd ?out)" by (rule reconcile_keeps)
  then show ?case
    using Cons keeps_live_trans by (cases ?out; cases "fst ?out") fastforce+
qed simp

inductive removal :: "(string \<Rightarrow> string \<Rightarrow> rat) \<Rightarrow> roster_db \<Rightarrow> roster_db \<Rightarrow> bool" for ratio where
  all_drafts: "removal ratio db (snd (cleanup_draft_entries e es w db))"
| expired: "removal ratio db (snd (expire_stale_drafts e later es hours w db))"
| empties: "removal ratio db (snd (cleanup_empty_drafts e hours db))"
| junk: "removal ratio db (snd (cleanup_junk_drafts e es w db))"
| reconciled: "removal ratio db (snd (reconcile_drafts_for_confirmation ratio e es lighter mother w db))"
| bulk: "removal ratio db (snd (api_reconcile_drafts ratio e es as db))"
| deleted: "removal ratio db (snd (delete_draft_program e i db))"

lemma removal_keeps: "removal ratio db db' \<Longrightarrow> keeps_live db db'"
proof (induction rule: removal.induct)
  case (bulk db e es as)
  then show ?case
    using reconcile_each_keeps [of db ratio es as "confirmed_programs db" 0]
    by (auto simp: api_reconcile_drafts_def split: prod.split sum.split)
qed (simp_all add: cleanup_keeps expire_keeps cleanup_empty_keeps cleanup_junk_keeps reconcile_keeps delete_keeps)

text \<open>
  C34: Removals take drafts only. Whatever cleanups, expiries, reconciliations and deletions run, in
  any order, with any similarity of names and whichever statement fails, nothing is added or changed,
  every program that is not a draft stays, and so does every roster entry that is neither a draft
  itself nor the entry of a draft program.
\<close>

theorem only_drafts_removed:
  assumes "(removal ratio)\<^sup>*\<^sup>* db db'"
  shows "set (ro_programs db') \<subseteq> set (ro_programs db) \<and> set (ro_entries db') \<subseteq> set (ro_entries db)
    \<and> (\<forall>p\<in>set (ro_programs db). gp_status p \<noteq> Some ''draft'' \<longrightarrow> p \<in> set (ro_programs db'))
    \<and> (\<forall>r\<in>set (ro_entries db). re_status r \<noteq> ''draft''
         \<and> (\<forall>p\<in>set (ro_programs db). gp_id p = re_program r \<longrightarrow> gp_status p \<noteq> Some ''draft'') \<longrightarrow> r \<in> set (ro_entries db'))"
proof -
  have "keeps_live db db'"
    using assms by (induction rule: rtranclp_induct) (auto intro: keeps_live_trans dest: removal_keeps)
  then show ?thesis by (auto simp: keeps_live_def draft_program_def draft_entry_def)
qed

lemma sample_status: "gp_status (sample_program i st) = Some st" "gp_id (sample_program i st) = i"
  by (simp_all add: sample_program_def)

theorem only_drafts_removed_witness:
  "\<exists>db'. ro_programs db' \<noteq> [] \<and> sample_program 1 ''Running'' \<in> set (ro_programs db')
     \<and> (removal (\<lambda>a b. 1))\<^sup>*\<^sup>* (sample_roster\<lparr>ro_programs := [sample_program 1 ''Running'', sample_program 2 ''draft'']\<rparr>) db'"
proof -
  let ?db = "sample_roster\<lparr>ro_programs := [sample_program 1 ''Running'', sample_program 2 ''draft'']\<rparr>"
  let ?out = "snd (api_reconcile_drafts (\<lambda>a b. 1) (env_at 0) (\<lambda>_. env_at 0) (\<lambda>_. env_at 0) ?db)"
  have run: "(removal (\<lambda>a b. 1))\<^sup>*\<^sup>* ?db ?out" by (rule r_into_rtranclp) (rule removal.bulk)
  have "sample_program 1 ''Running'' \<in> set (ro_programs ?out)"
    using only_drafts_removed [OF run] by (simp add: sample_status)
  with run show ?thesis by (metis empty_iff list.set(1))
qed

subsection \<open>What every entry satisfies\<close>

definition balanced :: "pay_cols \<Rightarrow> bool" where
  "balanced c \<longleftrightarrow> (case pc_total c of None \<Rightarrow> True | Some t \<Rightarrow> pc_salary c = Some (t - or_zero (pc_conveyance c)) \<and> pc_conveyance c \<noteq> None)"

definition exact_pay :: "pay_cols \<Rightarrow> bool" where
  "exact_pay c \<longleftrightarrow> list_all (\<lambda>x. x = None \<or> two_places (the x)) [pc_days c, pc_salary c, pc_conveyance c, pc_total c]"

definition entry_ok :: "int set \<Rightarrow> roster_entry \<Rightarrow> bool" where
  \<comment> \<open>the programs of the set are excused from a balanced total\<close>
  "entry_ok S r \<longleftrightarrow> shift_allowed (re_start_shift r) \<and> shift_allowed (re_end_shift r) \<and> (re_program r \<notin> S \<longrightarrow> balanced (re_pay r))"

definition program_exact :: "program \<Rightarrow> bool" where
  "program_exact p \<longleftrightarrow> two_places (or_zero (gp_payment p)) \<and> two_places (or_zero (gp_conveyance p))"

definition roster_inv :: "int set \<Rightarrow> roster_db \<Rightarrow> bool" where
  "roster_inv S db \<longleftrightarrow> distinct (map re_program (ro_entries db)) \<and> (\<forall>r\<in>set (ro_entries db). entry_ok S r)
     \<and> (\<forall>p\<in>set (ro_programs db). program_exact p)
     \<and> distinct (map rt_key (ro_rates db)) \<and> (\<forall>r\<in>set (ro_rates db). two_places (rt_conveyance r) \<and> two_places (rt_rate r))"

lemma sort_head: "sort_key f t = r # rs \<Longrightarrow> r \<in> set t"
  by (metis list.set_intros(1) set_sort)

lemma conveyance_exact:
  "\<forall>r\<in>set rates. two_places (rt_conveyance r) \<and> two_places (rt_rate r) \<Longrightarrow> two_places (get_conveyance_for_destination rates dest)"
  by (auto simp: get_conveyance_for_destination_def Let_def dest!: sort_head dest: find_Some_mem split: option.split list.split)

lemma rate_exact:
  "\<forall>r\<in>set rates. two_places (rt_conveyance r) \<and> two_places (rt_rate r) \<Longrightarrow> two_places (get_shift_rate rates)"
  by (auto simp: get_shift_rate_def dest!: sort_head split: list.split)

lemma store_balanced: "balanced c \<Longrightarrow> pc_total c = None \<or> two_places (the (pc_salary c)) \<and> two_places (the (pc_conveyance c)) \<Longrightarrow> balanced (store_pay c)"
proof (cases "pc_total c")
  case (Some t)
  assume "balanced c" "pc_total c = None \<or> two_places (the (pc_salary c)) \<and> two_places (the (pc_conveyance c))"
  with Some obtain k where "pc_conveyance c = Some k" "pc_salary c = Some (t - k)" "two_places (t - k)" "two_places k"
    by (auto simp: balanced_def or_zero_def)
  moreover from this have "two_places t" using two_places_add [of "t - k" k] by simp
  ultimately show ?thesis using Some by (simp add: balanced_def store_pay_def column2_id or_zero_def)
qed (simp add: balanced_def store_pay_def)

lemma calculated_balanced:
  "two_places conv \<Longrightarrow> two_places rate \<Longrightarrow> balanced (store_pay (pay_cols_of (calculate_pay s a t b conv rate)))"
  by (rule store_balanced)
    (simp_all add: balanced_def pay_cols_of_def calculate_pay_def Let_def calculate_total_def calculate_salary_def or_zero_def two_places_times)

lemma program_pay_balanced:
  assumes "roster_inv S db" "program_exact p"
  shows "balanced (store_pay (program_pay (ro_rates db) p))"
proof -
  have r: "\<forall>r\<in>set (ro_rates db). two_places (rt_conveyance r) \<and> two_places (rt_rate r)" using assms(1) by (simp add: roster_inv_def)
  have "balanced (store_pay (legacy_pay (or_zero (gp_payment p)) p))"
    by (rule store_balanced) (use assms(2) in \<open>simp_all add: balanced_def legacy_pay_def or_zero_def program_exact_def two_places_diff\<close>)
  moreover have "balanced (store_pay no_pay)" by (simp add: balanced_def store_pay_def no_pay_def)
  ultimately show ?thesis
    using calculated_balanced [OF conveyance_exact [OF r] rate_exact [OF r]]
    by (simp add: program_pay_def split: option.split)
qed

lemma entry_pay_balanced:
  assumes "roster_inv S db" "case conv of None \<Rightarrow> True | Some c \<Rightarrow> two_places c" "entry_pay (ro_rates db) conv r = Some c"
  shows "balanced (store_pay c)"
proof -
  have r: "\<forall>r\<in>set (ro_rates db). two_places (rt_conveyance r) \<and> two_places (rt_rate r)" using assms(1) by (simp add: roster_inv_def)
  have "two_places (case conv of Some c \<Rightarrow> c | None \<Rightarrow> get_conveyance_for_destination (ro_rates db) (re_destination r))"
    using assms(2) conveyance_exact [OF r] by (simp split: option.splits)
  from calculated_balanced [OF this rate_exact [OF r]] show ?thesis
    using assms(3) by (auto simp: entry_pay_def split: option.splits)
qed

definition roster_frame :: "roster_db \<Rightarrow> roster_db \<Rightarrow> bool" where
  "roster_frame db db' \<longleftrightarrow> ro_programs db' = ro_programs db \<and> ro_rates db' = ro_rates db"

lemma roster_inv_entries:
  assumes "roster_inv S db" "roster_frame db db'" "distinct (map re_program (ro_entries db'))" "\<forall>r\<in>set (ro_entries db'). entry_ok S r"
  shows "roster_inv S db'"
  using assms by (simp add: roster_inv_def roster_frame_def)

lemma mirrored_ok: "roster_inv S db \<Longrightarrow> program_exact p \<Longrightarrow> mirrorable p \<Longrightarrow> entry_ok S (mirrored (ro_rates db) p r)"
  using program_pay_balanced by (simp add: entry_ok_def mirrored_def mirrorable_def)

lemma entry_ok_version [simp]: "entry_ok S (r\<lparr>re_version := v\<rparr>) = entry_ok S r"
  by (simp add: entry_ok_def)

lemma write_mirror_inv:
  assumes "roster_inv S db" "p \<in> set (ro_programs db)" "mirrorable p"
  shows "roster_inv S (snd (write_mirror e p db))"
proof -
  have ok: "entry_ok S (mirrored (ro_rates db) p r)" for r
    using assms mirrored_ok by (simp add: roster_inv_def)
  show ?thesis
  proof (cases "find (\<lambda>r. re_program r = gp_id p) (ro_entries db)")
    case None
    then have "\<forall>r\<in>set (ro_entries db). re_program r \<noteq> gp_id p" by (simp add: find_None_iff_all)
    then show ?thesis
      using assms(1) ok by (auto simp: write_mirror_def None roster_inv_def blank_entry_def)
  next
    case (Some x)
    have "map re_program (update_where (\<lambda>r. re_program r = gp_id p)
        (\<lambda>r. (mirrored (ro_rates db) p r)\<lparr>re_version := re_version x + 1\<rparr>) (ro_entries db)) = map re_program (ro_entries db)"
      by (rule map_key_update_where) simp
    then show ?thesis
      using assms(1) ok Some by (auto simp: write_mirror_def roster_inv_def mem_update_where)
  qed
qed

lemma log_audit_inv [simp]: "roster_inv S (log_audit e k i a w db) = roster_inv S db"
  by (simp add: roster_inv_def)

lemma sync_inv_roster: "roster_inv S db \<Longrightarrow> roster_inv S (snd (sync_program_to_roster e i w db))"
  using write_mirror_inv [of S db _ e]
  by (auto simp: sync_program_to_roster_def case_prod_beta Let_def dest: find_Some_mem split: option.split)

lemma sync_programs_inv: "roster_inv S db \<Longrightarrow> roster_inv S (snd (sync_programs es w is acc db))"
proof (induction "is" arbitrary: acc db)
  case (Cons i "is")
  then show ?case
    using sync_inv_roster [of S db "es i" i w]
    by (cases acc; cases "sync_program_to_roster (es i) i w db"; cases "fst (sync_program_to_roster (es i) i w db)") auto
qed (simp add: case_prod_beta; cases acc; simp)

lemma roster_inv_mono: "roster_inv S db \<Longrightarrow> S \<subseteq> T \<Longrightarrow> roster_inv T db"
  unfolding roster_inv_def entry_ok_def by blast

definition edit_ok :: "env \<Rightarrow> int \<Rightarrow> entry_patch \<Rightarrow> roster_db \<Rightarrow> bool" where
  \<comment> \<open>a conveyance is edited together with a date, of an entry that then has both, and no statement fails\<close>
  "edit_ok e i u db \<longleftrightarrow>
     (case pt_conveyance u of
        None \<Rightarrow> True
      | Some c \<Rightarrow> two_places c \<and> moves_dates u \<and> db_ok e
          \<and> (case entry_of db i of None \<Rightarrow> True | Some r \<Rightarrow> re_start (patched_entry u r) \<noteq> None \<and> re_end (patched_entry u r) \<noteq> None))"

lemma patched_program [simp]: "re_program (patched_entry u r) = re_program r" "re_program (repaid rates u r) = re_program r"
  by (simp_all add: patched_entry_def repaid_def split: option.split)

lemma patched_pay: "pt_conveyance u = None \<Longrightarrow> re_pay (patched_entry u r) = re_pay r"
  by (simp add: patched_entry_def keep_def)

lemma patched_shifts:
  "patch_shifts_ok u \<Longrightarrow> entry_ok S r \<Longrightarrow> shift_allowed (re_start_shift (patched_entry u r)) \<and> shift_allowed (re_end_shift (patched_entry u r))"
  by (auto simp: patch_shifts_ok_def entry_ok_def patched_entry_def keep_def split: option.splits)

lemma repaid_ok:
  assumes "roster_inv S db" "patch_shifts_ok u" "r \<in> set (ro_entries db)" "re_program r = i" "edit_ok e i u db"
  shows "entry_ok S (repaid (ro_rates db) u (patched_entry u r))"
proof -
  have d: "distinct (map re_program (ro_entries db))" and ok: "entry_ok S r" using assms(1,3) by (simp_all add: roster_inv_def)
  have e: "entry_of db i = Some r"
    using find_key_unique [OF d assms(3)] assms(4) by (simp add: entry_of_def)
  have sh: "shift_allowed (re_start_shift (repaid (ro_rates db) u (patched_entry u r)))"
      "shift_allowed (re_end_shift (repaid (ro_rates db) u (patched_entry u r)))"
    using patched_shifts [OF assms(2) ok] by (simp_all add: repaid_def split: option.split)
  have pay: "balanced (store_pay c)" if "entry_pay (ro_rates db) (pt_conveyance u) (patched_entry u r) = Some c" for c
    using entry_pay_balanced [OF assms(1) _ that] assms(5) by (simp add: edit_ok_def split: option.splits)
  have "balanced (re_pay (repaid (ro_rates db) u (patched_entry u r)))" if "re_program r \<notin> S"
  proof (cases "pt_conveyance u")
    case None
    then show ?thesis using pay ok patched_pay that by (simp add: repaid_def entry_ok_def split: option.split)
  next
    case (Some c)
    then have "moves_dates u" "entry_pay (ro_rates db) (pt_conveyance u) (patched_entry u r) \<noteq> None"
      using assms(5) e by (auto simp: edit_ok_def entry_pay_def)
    then show ?thesis using pay by (auto simp: repaid_def)
  qed
  with sh show ?thesis by (simp add: entry_ok_def)
qed

lemma entries_updated_inv:
  assumes "roster_inv S db" "roster_frame db db'" "ro_entries db' = update_where (\<lambda>r. re_program r = i) f (ro_entries db)"
    and "\<And>r. re_program (f r) = re_program r" "\<And>r. r \<in> set (ro_entries db) \<Longrightarrow> re_program r = i \<Longrightarrow> entry_ok S (f r)"
  shows "roster_inv S db'"
proof (rule roster_inv_entries [OF assms(1,2)])
  show "distinct (map re_program (ro_entries db'))"
    using assms(1) by (simp add: assms(3) map_key_update_where [where key = re_program] assms(4) roster_inv_def)
  show "\<forall>r\<in>set (ro_entries db'). entry_ok S r"
    using assms(1,5) by (simp add: assms(3) ball_update_where roster_inv_def)
qed

lemma update_entry_inv:
  assumes "roster_inv S db" "edit_ok e i u db"
  shows "roster_inv S (snd (update_roster_entry e i u w db))"
proof -
  have full: "roster_inv S (db\<lparr>ro_entries := update_where (\<lambda>r. re_program r = i) (\<lambda>r. repaid (ro_rates db) u (patched_entry u r)) (ro_entries db)\<rparr>)"
    if "patch_shifts_ok u"
    by (rule entries_updated_inv [OF assms(1), where i = i and f = "\<lambda>r. repaid (ro_rates db) u (patched_entry u r)"])
      (use repaid_ok [OF assms(1) that _ _ assms(2)] in \<open>simp_all add: roster_frame_def\<close>)
  have half: "roster_inv S (db\<lparr>ro_entries := update_where (\<lambda>r. re_program r = i) (patched_entry u) (ro_entries db)\<rparr>)"
    if "patch_shifts_ok u" "pt_conveyance u = None"
    by (rule entries_updated_inv [OF assms(1), where i = i and f = "patched_entry u"])
      (use patched_shifts [OF that(1)] assms(1) patched_pay [OF that(2)] in \<open>auto simp: roster_frame_def entry_ok_def roster_inv_def\<close>)
  have calm: "pt_conveyance u = None" if "raises e k \<or> lookup_raises e k rates dest" for k rates dest
    using that assms(2) by (auto simp: edit_ok_def lookup_raises_def db_ok_raises split: option.splits)
  note halted = half [OF _ calm [OF disjI1]] half [OF _ calm [OF disjI2]]
  show ?thesis
    using assms(1) full by (auto simp: update_roster_entry_def Let_def intro: halted split: option.split)
qed

lemma repaid_shifts [simp]:
  "re_start_shift (repaid rates u r) = re_start_shift r" "re_end_shift (repaid rates u r) = re_end_shift r"
  by (simp_all add: repaid_def split: option.split)

lemma update_entry_loose:
  assumes "roster_inv S db"
  shows "roster_inv (insert i S) (snd (update_roster_entry e i u w db))"
proof -
  have inv: "roster_inv (insert i S) db" using roster_inv_mono [OF assms] by blast
  then have ok: "entry_ok (insert i S) r" if "r \<in> set (ro_entries db)" for r using that by (simp add: roster_inv_def)
  have upd: "roster_inv (insert i S) (db\<lparr>ro_entries := update_where (\<lambda>r. re_program r = i) f (ro_entries db)\<rparr>)"
    if "patch_shifts_ok u" "f = patched_entry u \<or> f = (\<lambda>r. repaid (ro_rates db) u (patched_entry u r))" for f
  proof (rule entries_updated_inv [OF inv, where i = i and f = f])
    show "entry_ok (insert i S) (f r)" if "r \<in> set (ro_entries db)" "re_program r = i" for r
      using patched_shifts [OF \<open>patch_shifts_ok u\<close> ok [OF that(1)]] that(2) \<open>f = _ \<or> _\<close> by (auto simp: entry_ok_def)
  qed (use that(2) in \<open>auto simp: roster_frame_def\<close>)
  show ?thesis
    using inv upd by (auto simp: update_roster_entry_def Let_def split: option.split)
qed

lemma create_entry_inv:
  assumes "roster_inv S db" "case bd_conveyance b of None \<Rightarrow> True | Some c \<Rightarrow> two_places c"
  shows "roster_inv S (snd (create_roster_entry e b w db))"
proof -
  let ?i = "next_program_id db" and ?r = "manual_entry (ro_rates db) (next_program_id db) (db_now e) b"
  have fin: "finite (insert 900000 (re_program ` set (ro_entries db) \<union> gp_id ` set (ro_programs db)))" by simp
  have new: "re_program r \<noteq> ?i" if "r \<in> set (ro_entries db)" for r
  proof -
    have "re_program r \<le> Max (insert 900000 (re_program ` set (ro_entries db) \<union> gp_id ` set (ro_programs db)))"
      by (rule Max_ge [OF fin]) (use that in simp)
    then show ?thesis unfolding next_program_id_def by linarith
  qed
  have id: "re_program ?r = ?i" by (simp add: manual_entry_def blank_entry_def Let_def)
  have empty: "balanced (store_pay (no_pay\<lparr>pc_conveyance := c\<rparr>))" for c by (simp add: balanced_def store_pay_def no_pay_def)
  have "balanced (re_pay ?r)"
    using entry_pay_balanced [OF assms] empty by (simp add: manual_entry_def Let_def split: option.split)
  then have ok: "entry_ok S ?r" if "shift_allowed (re_start_shift ?r)" "shift_allowed (re_end_shift ?r)"
    using that by (simp add: entry_ok_def)
  have "roster_inv S (db\<lparr>ro_entries := ro_entries db @ [?r]\<rparr>)"
    if "shift_allowed (re_start_shift ?r)" "shift_allowed (re_end_shift ?r)"
  proof (rule roster_inv_entries [OF assms(1)])
    show "distinct (map re_program (ro_entries (db\<lparr>ro_entries := ro_entries db @ [?r]\<rparr>)))"
      using assms(1) new id by (fastforce simp: roster_inv_def)
  qed (use assms(1) ok [OF that] in \<open>simp_all add: roster_inv_def roster_frame_def\<close>)
  with assms(1) show ?thesis by (simp add: create_roster_entry_def Let_def)
qed

lemma upsert_rate_inv: "roster_inv S db \<Longrightarrow> roster_inv S (snd (upsert_conveyance_config e dest a r w db))"
  by (auto simp: upsert_conveyance_config_def Let_def roster_inv_def has_row_iff mem_update_where map_key_update_where [where key = rt_key])

lemma removal_inv: "roster_inv S db \<Longrightarrow> removal ratio db db' \<Longrightarrow> roster_inv S db'"
  using removal_keeps [of ratio db db'] by (auto simp: roster_inv_def keeps_live_def distinct_map_filter)

text \<open>
  A step carries along the set of programs whose conveyance was edited in a way that is not \<open>edit_ok\<close>: without a
  date, or in an edit that stopped half way. Only for them the total may be off.
\<close>

inductive roster_step :: "(string \<Rightarrow> string \<Rightarrow> rat) \<Rightarrow> roster_db \<times> int set \<Rightarrow> roster_db \<times> int set \<Rightarrow> bool" for ratio where
  synced: "roster_step ratio (db, S) (snd (sync_program_to_roster e i w db), S)"
| synced_all: "roster_step ratio (db, S) (snd (sync_all_programs e es w db), S)"
| edited: "roster_step ratio (db, S) (snd (update_roster_entry e i u w db), if edit_ok e i u db then S else insert i S)"
| created: "(case bd_conveyance b of None \<Rightarrow> True | Some c \<Rightarrow> two_places c) \<Longrightarrow>
    roster_step ratio (db, S) (snd (create_roster_entry e b w db), S)"
| configured: "roster_step ratio (db, S) (snd (upsert_conveyance_config e dest a r w db), S)"
| removed: "removal ratio db db' \<Longrightarrow> roster_step ratio (db, S) (db', S)"
| programs: "\<forall>p\<in>set ps. program_exact p \<Longrightarrow> roster_step ratio (db, S) (db\<lparr>ro_programs := ps\<rparr>, S)"
  \<comment> \<open>the rest of the program changes the programs\<close>

definition roster_start :: "roster_db \<times> int set \<Rightarrow> bool" where
  "roster_start s \<longleftrightarrow> ro_entries (fst s) = [] \<and> (\<forall>p\<in>set (ro_programs (fst s)). program_exact p) \<and> distinct (map rt_key (ro_rates (fst s)))
     \<and> (\<forall>r\<in>set (ro_rates (fst s)). two_places (rt_conveyance r) \<and> two_places (rt_rate r)) \<and> snd s = {}"

interpretation roster_system: invariant_system roster_start "roster_step ratio" "\<lambda>s. roster_inv (snd s) (fst s)" for ratio
proof unfold_locales
  show "roster_start s \<Longrightarrow> roster_inv (snd s) (fst s)" for s by (simp add: roster_start_def roster_inv_def)
  show "roster_step ratio s t \<Longrightarrow> roster_inv (snd s) (fst s) \<Longrightarrow> roster_inv (snd t) (fst t)" for s t
  proof (induction rule: roster_step.induct)
    case (synced_all db S e es w)
    then show ?case
      using sync_programs_inv [of S db es w "sort (map gp_id (ro_programs db))" "(0, [])"]
      by (simp add: sync_all_programs_def case_prod_beta)
  next
    case (edited db S e i u w)
    then show ?case by (simp add: update_entry_inv update_entry_loose)
  next
    case (programs ps db S)
    then show ?case by (simp add: roster_inv_def)
  qed (simp_all add: sync_inv_roster create_entry_inv upsert_rate_inv removal_inv)
qed

text \<open>
  C35: One entry for a program, and its total is the sum of its parts. Along any synchronisations,
  edits, manual entries, changes of the rates, removals and changes of the programs by the rest of
  the system, with failing statements, no two entries share a program, both shift letters are valid,
  and the total of an entry, when it has one, is its salary plus its conveyance, unless the entry is one of the set
  \<open>S\<close>: those whose conveyance was ever edited and the pay not computed again (no date in the edit, no dates in the entry, a
  failing statement), or edited to a fraction of a hundredth; the theorem
  \<open>conveyance_edit_unbalances\<close> shows such an entry. Amounts of programs and of manual entries have two
  decimal places, as their columns do.
\<close>

theorem roster_totals:
  assumes "reach roster_start (roster_step ratio) (db, S)"
  shows "distinct (map re_program (ro_entries db))
    \<and> (\<forall>r\<in>set (ro_entries db). shift_allowed (re_start_shift r) \<and> shift_allowed (re_end_shift r)
         \<and> (\<forall>t. re_program r \<notin> S \<longrightarrow> pc_total (re_pay r) = Some t \<longrightarrow>
              (\<exists>s c. pc_salary (re_pay r) = Some s \<and> pc_conveyance (re_pay r) = Some c \<and> t = s + c)))"
proof -
  have "roster_inv S db" using roster_system.reach_inv [OF assms] by simp
  then show ?thesis by (fastforce simp: roster_inv_def entry_ok_def balanced_def or_zero_def)
qed

theorem roster_totals_witness:
  "\<exists>db r s c. reach roster_start (roster_step (\<lambda>a b. 1)) (db, {}) \<and> entry_of db 1 = Some r \<and> pc_total (re_pay r) = Some 2700
     \<and> pc_salary (re_pay r) = Some s \<and> pc_conveyance (re_pay r) = Some c \<and> 2700 = s + c"
proof -
  let ?db = "snd (sync_program_to_roster (env_at 9) 1 ''api'' sample_roster)"
  have "reach roster_start (roster_step (\<lambda>a b. 1)) (sample_roster, {})"
    by (rule reach_start) (simp add: roster_start_def sample_roster_def program_exact_def sample_program_def or_zero_def)
  then have re: "reach roster_start (roster_step (\<lambda>a b. 1)) (?db, {})" by (rule reach_step) (rule roster_step.synced)
  have f: "find (\<lambda>p. gp_id p = 1) (ro_programs sample_roster) = Some (sample_program 1 ''Running'')"
    by (simp add: sample_roster_def sample_status)
  let ?r = "mirrored (ro_rates sample_roster) (sample_program 1 ''Running'') (blank_entry 1 9)"
  have e: "entry_of ?db 1 = Some ?r"
    using sync_one [OF db_ok_env_at f, of 9 "''api''" 1] sample_mirrorable
    by (simp add: mirror_entry_def entry_of_def sample_roster_def sample_status)
  then have "?r \<in> set (ro_entries ?db)" using find_Some_mem by (fastforce simp: entry_of_def)
  moreover have t: "pc_total (re_pay ?r) = Some 2700"
    by (simp add: mirrored_def sample_pay store_pay_def column2_id)
  ultimately obtain s c where "pc_salary (re_pay ?r) = Some s" "pc_conveyance (re_pay ?r) = Some c" "2700 = s + c"
    using roster_totals [OF re] by blast
  with re e t show ?thesis by blast
qed

subsection \<open>Pages\<close>

lemma pages_concat:
  assumes "0 < k"
  shows "concat (map (\<lambda>i. take k (drop (i * k) xs)) [0..<n]) = take (n * k) xs"
proof (induction n)
  case (Suc n)
  then show ?case using take_add [of "n * k" k xs] by (simp add: add.commute)
qed simp

lemma page_count: "0 < k \<Longrightarrow> length xs \<le> nat (max 1 (- ((- int (length xs)) div int k))) * k"
proof -
  assume k: "0 < k"
  let ?q = "- ((- int (length xs)) div int k)"
  have "int (length xs) \<le> ?q * int k"
    using minus_mod_eq_mult_div [of "- int (length xs)" "int k"] k by (simp add: minus_mult_commute) (smt (verit) mult.commute pos_mod_sign of_nat_0_less_iff)
  also have "\<dots> \<le> max 1 ?q * int k" by (rule mult_right_mono) simp_all
  finally have "int (length xs) \<le> max 1 ?q * int k" .
  moreover have "0 \<le> max 1 ?q" by (simp add: le_max_iff_disj)
  ultimately have "int (length xs) \<le> int (nat (max 1 ?q) * k)" by simp
  then show ?thesis by (simp only: of_nat_le_iff)
qed

text \<open>
  The pages are the list. When the query is one the database accepts, its pages one after the
  other, as many as the answer says, are the matching entries in the order of the sort column, each
  of them once, and no page is longer than its size.
\<close>

theorem pages_partition:
  assumes "\<And>c xs. mset (order c xs) = mset xs" and "db_ok e" and "\<not> refused_query q" and "0 < rq_size q"
  shows "\<exists>total pages. let page = (\<lambda>i. get_roster_list order e (q\<lparr>rq_page := int i + 1\<rparr>) db)
    in (\<forall>i. \<exists>items. page i = Inr \<lparr>rl_items = items, rl_total = int total, rl_pages = int pages\<rparr> \<and> int (length items) \<le> rq_size q)
     \<and> total = length (filter (listed q db) (ro_entries db))
     \<and> concat (map (\<lambda>i. rl_items (projr (page i))) [0..<pages]) = order (sort_column q) (filter (listed q db) (ro_entries db))
     \<and> mset (concat (map (\<lambda>i. rl_items (projr (page i))) [0..<pages])) = mset (filter (listed q db) (ro_entries db))"
proof -
  let ?rows = "filter (listed q db) (ro_entries db)" and ?k = "nat (rq_size q)"
  let ?all = "order (sort_column q) ?rows" and ?pages = "nat (max 1 (- ((- int (length ?rows)) div rq_size q)))"
  have k: "0 < ?k" "rq_size q = int ?k" using assms(4) by simp_all
  have same: "listed (q\<lparr>rq_page := j\<rparr>) db = listed q db" "sort_column (q\<lparr>rq_page := j\<rparr>) = sort_column q"
      "refused_query (q\<lparr>rq_page := j\<rparr>) = refused_query q" for j
    by (simp_all add: listed_def sort_column_def refused_query_def fun_eq_iff)
  obtain n where n: "n = ?pages" by simp
  have page: "get_roster_list order e (q\<lparr>rq_page := int i + 1\<rparr>) db =
      Inr \<lparr>rl_items = take ?k (drop (i * ?k) ?all), rl_total = int (length ?rows), rl_pages = int n\<rparr>" for i
    using assms(2-4) by (simp add: n get_roster_list_def same Let_def db_ok_raises nat_mult_distrib le_max_iff_disj not_less)
  have len: "length ?all = length ?rows" using arg_cong [OF assms(1), of size] by simp
  have "length ?all \<le> n * ?k" using page_count [OF k(1), of ?rows] k(2) len n by simp
  then have cc: "concat (map (\<lambda>i. take ?k (drop (i * ?k) ?all)) [0..<n]) = ?all"
    by (simp add: pages_concat [OF k(1)])
  have small: "int (min m ?k) \<le> rq_size q" for m
    using k(2) by (metis min.cobounded2 of_nat_le_iff)
  show ?thesis
    by (rule exI [of _ "length ?rows"], rule exI [of _ n]) (use cc assms(1) small in \<open>simp add: page Let_def\<close>)
qed

definition sample_listing :: roster_query where
  "sample_listing = \<lparr>rq_page = 1, rq_size = 1, rq_search = None, rq_state = None, rq_from = None, rq_to = None,
     rq_sort = ''total'', rq_dir = ''asc''\<rparr>"

theorem pages_partition_witness:
  "\<exists>pages. concat (map (\<lambda>i. rl_items (projr (get_roster_list (\<lambda>c xs. xs) (env_at 0) (sample_listing\<lparr>rq_page := int i + 1\<rparr>)
      (sample_roster\<lparr>ro_entries := [blank_entry 1 0, blank_entry 2 0]\<rparr>)))) [0..<pages]) = [blank_entry 1 0, blank_entry 2 0]"
proof -
  let ?db = "sample_roster\<lparr>ro_entries := [blank_entry 1 0, blank_entry 2 0]\<rparr>"
  have q: "\<not> refused_query sample_listing" "0 < rq_size sample_listing"
    by (simp_all add: sample_listing_def refused_query_def py_or_def)
  have "listed sample_listing ?db = (\<lambda>_. True)"
    by (simp add: listed_def sample_listing_def py_or_def fun_eq_iff)
  with pages_partition [of "\<lambda>c xs. xs" "env_at 0", OF refl db_ok_env_at q, of ?db] show ?thesis
    by (auto simp: Let_def)
qed

subsection \<open>Gaps of the roster\<close>

text \<open>
  An edit of the conveyance alone leaves the total of the old one. A status set to paid is overwritten
  by the next synchronisation. A confirmed program has no status of its own in the map: its entry is a
  draft, and the cleanup of drafts removes it while the program stays. The list of active programs
  asks for a program status that no part of the system writes.
\<close>

definition synced_sample :: roster_db where
  "synced_sample = snd (sync_program_to_roster (env_at 9) 1 ''api'' (sample_roster\<lparr>ro_programs := [sample_program 1 ''Running'']\<rparr>))"

theorem conveyance_edit_unbalances:
  "map (\<lambda>r. (pc_salary (re_pay r), pc_conveyance (re_pay r), pc_total (re_pay r)))
     (ro_entries (snd (update_roster_entry (env_at 10) 1 (no_patch\<lparr>pt_conveyance := Some 1000\<rparr>) ''api'' synced_sample)))
   = [(Some 1200, Some 1000, Some 2700)]"
  by code_simp

theorem paid_status_overwritten:
  "map re_status (ro_entries (snd (update_roster_entry (env_at 10) 1 (no_patch\<lparr>pt_status := Some ''paid''\<rparr>) ''api'' synced_sample))) = [''paid'']
   \<and> map re_status (ro_entries (snd (sync_program_to_roster (env_at 11) 1 ''api''
        (snd (update_roster_entry (env_at 10) 1 (no_patch\<lparr>pt_status := Some ''paid''\<rparr>) ''api'' synced_sample))))) = [''active'']"
  by (rule conjI) code_simp+

theorem lower_case_shift_refused:
  "fst (update_roster_entry (env_at 10) 1 (no_patch\<lparr>pt_end_shift := Some ''n''\<rparr>) ''api'' synced_sample) = Inl Roster_exception"
  by code_simp

theorem confirmed_swept:
  assumes "reach roster_start (roster_step ratio) (db, S)" and "db_ok e" and "db_ok e2"
    and "find (\<lambda>p. gp_id p = i) (ro_programs db) = Some p" and "mirrorable p" and "gp_status p = Some ''confirmed''"
  shows "entry_of (snd (sync_program_to_roster e i w db)) i \<noteq> None
    \<and> entry_of (snd (cleanup_draft_entries e2 es w (snd (sync_program_to_roster e i w db)))) i = None
    \<and> p \<in> set (ro_programs (snd (cleanup_draft_entries e2 es w (snd (sync_program_to_roster e i w db)))))"
proof -
  let ?s = "snd (sync_program_to_roster e i w db)" and ?m = "mirror_entry (db_now e) (ro_rates db) p (entry_of db i)"
  have one: "ro_programs ?s = ro_programs db" "entry_of ?s i = Some ?m"
    using sync_one [OF assms(2,4), of w i] assms(5) by simp_all
  have "roster_status_of (Some ''confirmed'') = ''draft''" by code_simp
  then have d: "draft_entry ?m"
    using assms(6) by (simp add: draft_entry_def mirror_entry_def mirrored_def split: option.split)
  have m: "?m \<in> set (ro_entries ?s)" "re_program ?m = i"
    using one(2) find_Some_mem by (fastforce simp: entry_of_def)+
  have "roster_inv S ?s" by (rule sync_inv_roster) (use roster_system.reach_inv [OF assms(1)] in simp)
  then have only: "r = ?m" if "r \<in> set (ro_entries ?s)" "re_program r = i" for r
    using distinct_key_unique [of re_program "ro_entries ?s" r ?m] that m by (simp add: roster_inv_def)
  have "filter draft_entry (ro_entries ?s) \<noteq> []" using m(1) d by (auto simp: filter_empty_conv)
  then have "ro_entries (snd (cleanup_draft_entries e2 es w ?s)) = delete_where draft_entry (ro_entries ?s)"
      "ro_programs (snd (cleanup_draft_entries e2 es w ?s)) = ro_programs db"
    using assms(3) one(1) by (simp_all add: cleanup_draft_entries_def Let_def db_ok_raises)
  then show ?thesis
    using one(2) only d find_Some_mem [OF assms(4)] by (auto simp: entry_of_def find_None_iff_all)
qed

theorem active_list_empty:
  assumes "db_ok e" and "\<forall>p\<in>set (ro_programs db). gp_status p \<noteq> Some ''active''" and "0 < n" and "0 < page"
    and "\<And>c xs. mset (order c xs) = mset xs"
  shows "\<exists>l. api_roster_active order e page n None db = Inr l \<and> rl_items l = [] \<and> rl_total l = 0"
proof -
  have "filter (listed (rq :: roster_query) db) (ro_entries db) = []" if "rq_state rq = Some ''active''" for rq
    using that assms(2) by (auto simp: listed_def py_or_def program_of_def filter_empty_conv dest: find_Some_mem split: option.splits)
  moreover have "order c [] = []" for c using assms(5) [of c "[]"] by simp
  moreover have "\<not> (page - 1) * n < 0" using assms(3,4) by (simp add: not_less)
  ultimately show ?thesis
    using assms(1,3,4) by (simp add: api_roster_active_def get_roster_list_def refused_query_def py_or_def db_ok_raises Let_def)
qed

end
