(* ===== verification/Payroll_Runs.thy ===== *)
theory Payroll_Runs
  imports Calendar Event_Bus Money
begin

text \<open>
  Monthly payroll runs, \<open>modules/payroll/__init__.py\<close>: the computation of a run
  from basic salary, completed escort programs and advances, its status machine and
  the approval log. Amounts are exact rationals; \<open>round(x, 2)\<close> rounds to hundredths,
  half to even. The binary representation of floats is not modelled. The label of a
  run item is kept as structured data. A statement that raises ends the call with the
  exception; the writes of \<open>compute_run\<close> are one transaction, those of
  \<open>_transition\<close> are two statements of their own.
\<close>

datatype run_status = R_draft | R_reviewed | R_approved | R_locked | R_paid | R_cancelled

datatype payroll_error =
    Invalid_month | Invalid_period | Employee_not_found int | Run_not_found int
  | Not_allowed run_status run_status | Idempotency_conflict | Db_exception

record wbom_employee =
  we_id :: int
  we_name :: string
  we_basic :: "rat option"
  we_status :: "string option"

record wbom_program =
  wp_id :: int
  wp_employee :: int
  wp_status :: string
  wp_date :: date
  wp_end :: "date option"
  wp_days :: "rat option"
  wp_vessel :: string

record wbom_cash =
  wx_employee :: int
  wx_type :: string
  wx_amount :: rat
  wx_date :: date

record payroll_run =
  pr_id :: int
  pr_employee :: int
  pr_year :: int
  pr_month :: int
  pr_status :: run_status
  pr_basic :: rat
  pr_total_programs :: nat
  pr_rate :: rat
  pr_program_allowance :: rat
  pr_other_allowance :: rat
  pr_total_advances :: rat
  pr_total_deductions :: rat
  pr_gross :: rat
  pr_net :: rat
  pr_computed_by :: string
  pr_submitted_by :: "string option"
  pr_approved_by :: "string option"
  pr_locked_by :: "string option"
  pr_paid_by :: "string option"
  pr_paid_at :: "time option"
  pr_method :: "string option"
  pr_reference :: "string option"
  pr_idem :: "string option"
  pr_reason :: "string option"
  pr_updated_at :: time

datatype item_label = L_basic | L_program rat rat | L_advances

record run_item =
  ri_run :: int
  ri_label :: item_label
  ri_amount :: rat
  ri_plus :: bool
  ri_source :: "int option"
  ri_notes :: string

record approval_entry =
  ap_run :: int
  ap_action :: string
  ap_actor :: string
  ap_from :: "run_status option"
  ap_to :: run_status
  ap_reason :: "string option"
  ap_ref :: "string option"
  ap_method :: "string option"
  ap_amount :: "rat option"

record payroll_db =
  pd_employees :: "wbom_employee list"
  pd_programs :: "wbom_program list"
  pd_cash :: "wbom_cash list"
  pd_runs :: "payroll_run list"
  pd_next :: int
  pd_items :: "run_item list"
  pd_log :: "approval_entry list"

definition DEFAULT_PER_PROGRAM_RATE :: rat where
  "DEFAULT_PER_PROGRAM_RATE = 800"

fun ALLOWED_TRANSITIONS :: "run_status \<Rightarrow> run_status set" where
  "ALLOWED_TRANSITIONS R_draft = {R_reviewed, R_cancelled}"
| "ALLOWED_TRANSITIONS R_reviewed = {R_approved, R_draft, R_cancelled}"
| "ALLOWED_TRANSITIONS R_approved = {R_locked, R_reviewed, R_cancelled}"
| "ALLOWED_TRANSITIONS R_locked = {R_paid, R_approved, R_cancelled}"
| "ALLOWED_TRANSITIONS R_paid = {}"
| "ALLOWED_TRANSITIONS R_cancelled = {}"

subsection \<open>Computing a run\<close>

definition active_for :: "int \<Rightarrow> int \<Rightarrow> int \<Rightarrow> payroll_run \<Rightarrow> bool" where
  "active_for emp y m r \<longleftrightarrow> pr_employee r = emp \<and> pr_year r = y \<and> pr_month r = m \<and> pr_status r \<noteq> R_cancelled"

definition effective_date :: "wbom_program \<Rightarrow> date" where
  "effective_date p = (case wp_end p of None \<Rightarrow> wp_date p | Some d \<Rightarrow> d)"

definition in_period :: "int \<Rightarrow> int \<Rightarrow> date \<Rightarrow> bool" where
  "in_period y m d \<longleftrightarrow> date_le (Date y m 1) d \<and> date_le d (Date y m (days_in_month y m))"

definition program_days :: "wbom_program \<Rightarrow> rat" where
  "program_days p = (case wp_days p of None \<Rightarrow> 1 | Some n \<Rightarrow> n)"

definition period_programs :: "int \<Rightarrow> int \<Rightarrow> int \<Rightarrow> payroll_db \<Rightarrow> wbom_program list" where
  "period_programs emp y m db =
     filter (\<lambda>p. wp_employee p = emp \<and> wp_status p = ''Completed'' \<and> in_period y m (effective_date p)) (pd_programs db)"

definition period_advances :: "int \<Rightarrow> int \<Rightarrow> int \<Rightarrow> payroll_db \<Rightarrow> rat" where
  "period_advances emp y m db =
     sum_list (map wx_amount (filter (\<lambda>c. wx_employee c = emp \<and> wx_type c = ''advance'' \<and> in_period y m (wx_date c))
       (pd_cash db)))"

definition mk_run ::
  "env \<Rightarrow> int \<Rightarrow> int \<Rightarrow> int \<Rightarrow> string \<Rightarrow> rat \<Rightarrow> rat \<Rightarrow> wbom_program list \<Rightarrow> rat \<Rightarrow> int \<Rightarrow> payroll_run" where
  "mk_run e emp y m by_whom basic rate progs advances rid =
     (let total_days = sum_list (map program_days progs);
          allowance = round2 (total_days * rate);
          gross = round2 (basic + allowance + 0);
          net = round2 (max (gross - advances - 0) 0)
      in \<lparr>pr_id = rid, pr_employee = emp, pr_year = y, pr_month = m, pr_status = R_draft, pr_basic = basic,
          pr_total_programs = length progs, pr_rate = rate, pr_program_allowance = allowance,
          pr_other_allowance = 0, pr_total_advances = advances, pr_total_deductions = 0,
          pr_gross = gross, pr_net = net, pr_computed_by = by_whom, pr_submitted_by = None,
          pr_approved_by = None, pr_locked_by = None, pr_paid_by = None, pr_paid_at = None,
          pr_method = None, pr_reference = None, pr_idem = None, pr_reason = None, pr_updated_at = db_now e\<rparr>)"

definition mk_items :: "int \<Rightarrow> int \<Rightarrow> rat \<Rightarrow> rat \<Rightarrow> wbom_program list \<Rightarrow> rat \<Rightarrow> run_item list" where
  "mk_items rid emp basic rate progs advances =
     [\<lparr>ri_run = rid, ri_label = L_basic, ri_amount = basic, ri_plus = True, ri_source = None,
       ri_notes = ''emp:'' @ show_int emp\<rparr>]
     @ map (\<lambda>p. \<lparr>ri_run = rid, ri_label = L_program rate (program_days p), ri_amount = round2 (program_days p * rate),
                 ri_plus = True, ri_source = Some (wp_id p), ri_notes = wp_vessel p\<rparr>) progs
     @ (if advances > 0
        then [\<lparr>ri_run = rid, ri_label = L_advances, ri_amount = advances, ri_plus = False, ri_source = None,
               ri_notes = ''sum within period''\<rparr>]
        else [])"

definition compute_run ::
  "env \<Rightarrow> int \<Rightarrow> int \<Rightarrow> int \<Rightarrow> string \<Rightarrow> rat option \<Rightarrow> payroll_db
    \<Rightarrow> (payroll_error + bool \<times> payroll_run) \<times> payroll_db" where
  "compute_run e emp y m by_whom per_program_rate db =
     (if \<not> (1 \<le> m \<and> m \<le> 12) then (Inl Invalid_month, db)
      else if raises e 0 then (Inl Db_exception, db)
      else case find (active_for emp y m) (pd_runs db) of
        Some r \<Rightarrow> (Inr (True, r), db)
      | None \<Rightarrow>
          if raises e 1 then (Inl Db_exception, db)
          else case find (\<lambda>w. we_id w = emp) (pd_employees db) of
            None \<Rightarrow> (Inl (Employee_not_found emp), db)
          | Some w \<Rightarrow>
              let basic = (case we_basic w of None \<Rightarrow> 0 | Some b \<Rightarrow> b);
                  rate = (case per_program_rate of None \<Rightarrow> DEFAULT_PER_PROGRAM_RATE | Some r \<Rightarrow> r)
              in if \<not> (1 \<le> y \<and> y \<le> 9999) then (Inl Invalid_period, db)
                 else if raises e 2 \<or> raises e 3 \<or> raises e 4 then (Inl Db_exception, db)
                 else let progs = period_programs emp y m db;
                          advances = period_advances emp y m db;
                          rid = pd_next db;
                          r = mk_run e emp y m by_whom basic rate progs advances rid
                      in (Inr (False, r),
                          db\<lparr>pd_next := rid + 1, pd_runs := pd_runs db @ [r],
                             pd_items := pd_items db @ mk_items rid emp basic rate progs advances,
                             pd_log := pd_log db @
                               [\<lparr>ap_run = rid, ap_action = ''compute'', ap_actor = by_whom, ap_from = None,
                                 ap_to = R_draft, ap_reason = None, ap_ref = None, ap_method = None,
                                 ap_amount = Some (pr_net r)\<rparr>]\<rparr>))"

record period_summary =
  ps_created :: nat
  ps_existing :: nat
  ps_failed :: nat
  ps_run_ids :: "int list"

fun compute_each ::
  "(int \<Rightarrow> env) \<Rightarrow> int \<Rightarrow> int \<Rightarrow> string \<Rightarrow> int list \<Rightarrow> period_summary \<Rightarrow> payroll_db
    \<Rightarrow> (payroll_error + period_summary) \<times> payroll_db" where
  "compute_each ef y m by_whom [] acc db = (Inr acc, db)"
| "compute_each ef y m by_whom (i # is) acc db =
     (case compute_run (ef i) i y m by_whom None db of
        (Inl err, db') \<Rightarrow>
          if err = Db_exception \<or> err = Invalid_period then (Inl err, db')
          else compute_each ef y m by_whom is (acc\<lparr>ps_failed := ps_failed acc + 1\<rparr>) db'
      | (Inr (already, r), db') \<Rightarrow>
          compute_each ef y m by_whom is
            ((if already then acc\<lparr>ps_existing := ps_existing acc + 1\<rparr>
              else acc\<lparr>ps_created := ps_created acc + 1\<rparr>)\<lparr>ps_run_ids := ps_run_ids acc @ [pr_id r]\<rparr>) db')"

definition active_employees :: "payroll_db \<Rightarrow> int list" where
  "active_employees db = sort (map we_id
     (filter (\<lambda>w. case we_status w of None \<Rightarrow> True | Some s \<Rightarrow> s = ''Active'') (pd_employees db)))"

definition compute_all_for_period ::
  "env \<Rightarrow> (int \<Rightarrow> env) \<Rightarrow> int \<Rightarrow> int \<Rightarrow> string \<Rightarrow> payroll_db \<Rightarrow> (payroll_error + period_summary) \<times> payroll_db" where
  "compute_all_for_period e ef y m by_whom db =
     (if raises e 0 then (Inl Db_exception, db)
      else compute_each ef y m by_whom (active_employees db)
             \<lparr>ps_created = 0, ps_existing = 0, ps_failed = 0, ps_run_ids = []\<rparr> db)"

subsection \<open>Transitions\<close>

definition given :: "string option \<Rightarrow> string option" where
  \<comment> \<open>a parameter that counts only when it is neither \<open>None\<close> nor empty\<close>
  "given s = (case s of None \<Rightarrow> None | Some x \<Rightarrow> if x = '''' then None else Some x)"

definition payout_key :: "payroll_run \<Rightarrow> string option \<Rightarrow> string" where
  "payout_key r reference =
     ''pr-'' @ show_int (pr_employee r) @ ''-'' @ show_int (pr_year r) @ ''-'' @ pad2 (pr_month r)
     @ (case given reference of None \<Rightarrow> '''' | Some x \<Rightarrow> ''-'' @ take 30 x)"

definition set_status ::
  "env \<Rightarrow> run_status \<Rightarrow> string \<Rightarrow> string option \<Rightarrow> string option \<Rightarrow> string option \<Rightarrow> payroll_run \<Rightarrow> payroll_run" where
  "set_status e target actor reason method reference r =
     (let r1 = r\<lparr>pr_status := target, pr_updated_at := db_now e\<rparr>
      in case target of
           R_reviewed \<Rightarrow> r1\<lparr>pr_submitted_by := Some actor\<rparr>
         | R_approved \<Rightarrow> r1\<lparr>pr_approved_by := Some actor\<rparr>
         | R_locked \<Rightarrow> r1\<lparr>pr_locked_by := Some actor\<rparr>
         | R_paid \<Rightarrow> r1\<lparr>pr_paid_by := Some actor, pr_paid_at := Some (db_now e),
                       pr_method := (case given method of None \<Rightarrow> pr_method r | Some x \<Rightarrow> Some x),
                       pr_reference := (case given reference of None \<Rightarrow> pr_reference r | Some x \<Rightarrow> Some x),
                       pr_idem := Some (payout_key r reference)\<rparr>
         | R_cancelled \<Rightarrow> r1\<lparr>pr_reason := (case given reason of None \<Rightarrow> pr_reason r | Some x \<Rightarrow> Some x)\<rparr>
         | R_draft \<Rightarrow> r1)"

definition status_name :: "run_status \<Rightarrow> string" where
  "status_name s = (case s of R_draft \<Rightarrow> ''draft'' | R_reviewed \<Rightarrow> ''reviewed'' | R_approved \<Rightarrow> ''approved''
     | R_locked \<Rightarrow> ''locked'' | R_paid \<Rightarrow> ''paid'' | R_cancelled \<Rightarrow> ''cancelled'')"

definition run_transition ::
  "env \<Rightarrow> int \<Rightarrow> run_status \<Rightarrow> string \<Rightarrow> string option \<Rightarrow> string option \<Rightarrow> string option \<Rightarrow> rat option
    \<Rightarrow> payroll_db \<Rightarrow> (payroll_error + run_status \<times> run_status \<times> rat) \<times> payroll_db" where
  "run_transition e rid target actor reason method reference amount db =
     (if raises e 0 then (Inl Db_exception, db)
      else case find (\<lambda>r. pr_id r = rid) (pd_runs db) of
        None \<Rightarrow> (Inl (Run_not_found rid), db)
      | Some cur \<Rightarrow>
          if target \<notin> ALLOWED_TRANSITIONS (pr_status cur)
          then (Inl (Not_allowed (pr_status cur) target), db)
          else if raises e 1 then (Inl Db_exception, db)
          else if target = R_paid \<and>
                  has_row (\<lambda>r. pr_id r \<noteq> rid \<and> pr_idem r = Some (payout_key cur reference)) (pd_runs db)
          then (Inl Idempotency_conflict, db)
          else let db1 = db\<lparr>pd_runs := update_where (\<lambda>r. pr_id r = rid)
                             (set_status e target actor reason method reference) (pd_runs db)\<rparr>
               in if raises e 2 then (Inl Db_exception, db1)
                  else (Inr (pr_status cur, target, pr_net cur),
                        db1\<lparr>pd_log := pd_log db @
                          [\<lparr>ap_run = rid, ap_action = status_name target, ap_actor = actor,
                            ap_from = Some (pr_status cur), ap_to = target, ap_reason = reason,
                            ap_ref = given reference, ap_method = given method, ap_amount = amount\<rparr>]\<rparr>))"

definition submit_run where
  "submit_run e rid actor = run_transition e rid R_reviewed actor None None None None"

definition approve_run where
  "approve_run e rid actor = run_transition e rid R_approved actor None None None None"

definition lock_run where
  "lock_run e rid actor = run_transition e rid R_locked actor None None None None"

definition mark_paid where
  "mark_paid e rid actor amount method reference =
     run_transition e rid R_paid actor None (Some method) reference (Some amount)"

definition cancel_run where
  "cancel_run e rid actor reason = run_transition e rid R_cancelled actor (Some reason) None None None"

definition get_run :: "int \<Rightarrow> payroll_db \<Rightarrow> (payroll_run \<times> wbom_employee) option" where
  "get_run rid db =
     (case find (\<lambda>r. pr_id r = rid) (pd_runs db) of
        None \<Rightarrow> None
      | Some r \<Rightarrow> map_option (Pair r) (find (\<lambda>w. we_id w = pr_employee r) (pd_employees db)))"

definition list_runs :: "int \<Rightarrow> int \<Rightarrow> run_status option \<Rightarrow> payroll_db \<Rightarrow> payroll_run list" where
  "list_runs y m status db =
     sort_key pr_id (filter (\<lambda>r. pr_year r = y \<and> pr_month r = m
         \<and> (case status of None \<Rightarrow> True | Some s \<Rightarrow> pr_status r = s)
         \<and> has_row (\<lambda>w. we_id w = pr_employee r) (pd_employees db)) (pd_runs db))"

subsection \<open>Amounts\<close>

definition whole_cents :: "rat \<Rightarrow> bool" where
  "whole_cents x \<longleftrightarrow> (\<exists>n :: int. 100 * x = of_int n)"

lemma round2_whole: "whole_cents x \<Longrightarrow> round2 x = x"
  by (auto simp: whole_cents_def round2_def round_half_even_def Let_def)

lemma whole_cents_sum: "\<forall>p\<in>set ps. whole_cents (f p) \<Longrightarrow> whole_cents (sum_list (map f ps))"
proof (induction ps)
  case Nil
  show ?case by (simp add: whole_cents_def)
next
  case (Cons p ps)
  then obtain a b where "100 * f p = of_int a" "100 * sum_list (map f ps) = of_int b"
    by (auto simp: whole_cents_def)
  then have "100 * sum_list (map f (p # ps)) = of_int (a + b)" by (simp add: distrib_left)
  then show ?case unfolding whole_cents_def by blast
qed

lemma whole_cents_add: "whole_cents x \<Longrightarrow> whole_cents y \<Longrightarrow> whole_cents (x + y)"
  using whole_cents_sum [of "[x, y]" "\<lambda>z. z"] by simp

definition item_balance :: "run_item list \<Rightarrow> rat" where
  "item_balance items = sum_list (map (\<lambda>i. if ri_plus i then ri_amount i else - ri_amount i) items)"

lemma item_balance_append [simp]: "item_balance (xs @ ys) = item_balance xs + item_balance ys"
  by (simp add: item_balance_def)

lemma mk_items_balance:
  "item_balance (mk_items rid emp basic rate progs adv) =
    basic + sum_list (map (\<lambda>p. round2 (program_days p * rate)) progs) - (if adv > 0 then adv else 0)"
  by (simp add: mk_items_def item_balance_def comp_def)

lemma mk_run_amounts:
  "pr_gross (mk_run e emp y m w basic rate progs adv rid) =
     round2 (basic + round2 (sum_list (map program_days progs) * rate))"
  "pr_net (mk_run e emp y m w basic rate progs adv rid) =
     round2 (max (pr_gross (mk_run e emp y m w basic rate progs adv rid) - adv) 0)"
  by (simp_all add: mk_run_def Let_def)

lemma mk_run_simps [simp]:
  "pr_id (mk_run e emp y m w basic rate progs adv rid) = rid"
  "pr_employee (mk_run e emp y m w basic rate progs adv rid) = emp"
  "pr_year (mk_run e emp y m w basic rate progs adv rid) = y"
  "pr_month (mk_run e emp y m w basic rate progs adv rid) = m"
  "pr_status (mk_run e emp y m w basic rate progs adv rid) = R_draft"
  "pr_total_advances (mk_run e emp y m w basic rate progs adv rid) = adv"
  "pr_basic (mk_run e emp y m w basic rate progs adv rid) = basic"
  "pr_rate (mk_run e emp y m w basic rate progs adv rid) = rate"
  by (simp_all add: mk_run_def Let_def)

lemma compute_created:
  assumes "compute_run e emp y m w rate db = (Inr (False, r), db')"
  obtains b rt where "r = mk_run e emp y m w b rt (period_programs emp y m db) (period_advances emp y m db) (pd_next db)"
    and "db' = db\<lparr>pd_next := pd_next db + 1, pd_runs := pd_runs db @ [r],
        pd_items := pd_items db @ mk_items (pd_next db) emp b rt (period_programs emp y m db) (period_advances emp y m db),
        pd_log := pd_log db @ [\<lparr>ap_run = pd_next db, ap_action = ''compute'', ap_actor = w, ap_from = None,
          ap_to = R_draft, ap_reason = None, ap_ref = None, ap_method = None, ap_amount = Some (pr_net r)\<rparr>]\<rparr>"
    and "find (active_for emp y m) (pd_runs db) = None" and "1 \<le> m" and "m \<le> 12"
proof -
  from assms have "1 \<le> m" "m \<le> 12" "find (active_for emp y m) (pd_runs db) = None"
    by (auto simp: compute_run_def split: if_splits option.splits)
  with assms that show thesis
    by (auto simp: compute_run_def Let_def split: if_splits option.splits)
qed

lemma period_total:
  "sum_list (map (\<lambda>p. program_days p * rate) progs) = sum_list (map program_days progs) * rate"
  by (induction progs) (simp_all add: distrib_right)

text \<open>
  A new run's figures. When \<open>compute_run\<close> creates a run, the run is a draft
  for the employee and month; gross is the basic salary plus the rounded allowance
  for the days of the month's completed programs; net is gross less the month's
  advances, never negative; and the stored items add up to gross less advances
  whenever every amount involved is in whole hundredths and advances are not
  negative.
\<close>

theorem compute_run_figures:
  assumes "compute_run e emp y m w rate db = (Inr (False, r), db')"
  shows "pd_runs db' = pd_runs db @ [r] \<and> pr_status r = R_draft
    \<and> pr_employee r = emp \<and> pr_year r = y \<and> pr_month r = m
    \<and> pr_total_advances r = period_advances emp y m db
    \<and> pr_gross r = round2 (pr_basic r + round2 (sum_list (map program_days (period_programs emp y m db)) * pr_rate r))
    \<and> pr_net r = round2 (max (pr_gross r - period_advances emp y m db) 0) \<and> 0 \<le> pr_net r
    \<and> (whole_cents (pr_basic r) \<and> 0 \<le> period_advances emp y m db
        \<and> (\<forall>p\<in>set (period_programs emp y m db). whole_cents (program_days p * pr_rate r))
        \<longrightarrow> item_balance (drop (length (pd_items db)) (pd_items db')) = pr_gross r - period_advances emp y m db)"
proof -
  obtain b rt where r: "r = mk_run e emp y m w b rt (period_programs emp y m db) (period_advances emp y m db) (pd_next db)"
    and db': "db' = db\<lparr>pd_next := pd_next db + 1, pd_runs := pd_runs db @ [r],
        pd_items := pd_items db @ mk_items (pd_next db) emp b rt (period_programs emp y m db) (period_advances emp y m db),
        pd_log := pd_log db @ [\<lparr>ap_run = pd_next db, ap_action = ''compute'', ap_actor = w, ap_from = None,
          ap_to = R_draft, ap_reason = None, ap_ref = None, ap_method = None, ap_amount = Some (pr_net r)\<rparr>]\<rparr>"
    using compute_created [OF assms] by blast
  let ?ps = "period_programs emp y m db" and ?adv = "period_advances emp y m db"
  have nonneg: "0 \<le> round2 x" if "0 \<le> x" for x
    using that by (simp add: round2_def round_half_even_def Let_def)
  have bal: "item_balance (mk_items (pd_next db) emp b rt ?ps ?adv) = pr_gross r - ?adv"
    if "whole_cents b" "0 \<le> ?adv" "\<forall>p\<in>set ?ps. whole_cents (program_days p * rt)"
  proof -
    have "sum_list (map (\<lambda>p. round2 (program_days p * rt)) ?ps) = sum_list (map program_days ?ps) * rt"
      using that(3) by (simp add: round2_whole period_total cong: map_cong)
    moreover have tot: "whole_cents (sum_list (map program_days ?ps) * rt)"
      using whole_cents_sum [OF that(3)] by (simp add: period_total)
    ultimately show ?thesis
      using that(2) by (simp add: mk_items_balance r mk_run_amounts round2_whole whole_cents_add [OF that(1) tot])
  qed
  show ?thesis
    using bal nonneg [of "max (pr_gross r - ?adv) 0"]
    by (simp add: db' r mk_run_amounts)
qed

definition sample_payroll :: payroll_db where
  "sample_payroll =
     \<lparr>pd_employees = [\<lparr>we_id = 4, we_name = ''Karim'', we_basic = Some 9000, we_status = Some ''Active''\<rparr>],
      pd_programs = [\<lparr>wp_id = 11, wp_employee = 4, wp_status = ''Completed'', wp_date = Date 2026 5 3,
                      wp_end = Some (Date 2026 5 5), wp_days = Some (5 / 2), wp_vessel = ''MV A''\<rparr>],
      pd_cash = [\<lparr>wx_employee = 4, wx_type = ''advance'', wx_amount = 1500, wx_date = Date 2026 5 20\<rparr>],
      pd_runs = [], pd_next = 1, pd_items = [], pd_log = []\<rparr>"

lemma sample_compute:
  "compute_run (env_at 10) 4 2026 5 ''admin'' None sample_payroll =
    (Inr (False, mk_run (env_at 10) 4 2026 5 ''admin'' 9000 800 (pd_programs sample_payroll) 1500 1),
     snd (compute_run (env_at 10) 4 2026 5 ''admin'' None sample_payroll))"
  by (simp add: compute_run_def sample_payroll_def period_programs_def period_advances_def in_period_def
      effective_date_def date_le_def date_less_def days_in_month_def DEFAULT_PER_PROGRAM_RATE_def Let_def)

theorem compute_run_figures_witness:
  "0 \<le> pr_net (mk_run (env_at 10) 4 2026 5 ''admin'' 9000 800 (pd_programs sample_payroll) 1500 1)
   \<and> pr_total_advances (mk_run (env_at 10) 4 2026 5 ''admin'' 9000 800 (pd_programs sample_payroll) 1500 1)
       = period_advances 4 2026 5 sample_payroll"
  using compute_run_figures [OF sample_compute] by (intro conjI) (elim conjE, assumption)+

subsection \<open>Runs along the life of the tables\<close>

lemma set_status_simps [simp]:
  "pr_id (set_status e t a rs mt rf r) = pr_id r" "pr_status (set_status e t a rs mt rf r) = t"
  "pr_employee (set_status e t a rs mt rf r) = pr_employee r" "pr_year (set_status e t a rs mt rf r) = pr_year r"
  "pr_month (set_status e t a rs mt rf r) = pr_month r" "pr_net (set_status e t a rs mt rf r) = pr_net r"
  "pr_gross (set_status e t a rs mt rf r) = pr_gross r"
  by (simp_all add: set_status_def Let_def split: run_status.split)

lemma transition_cases:
  assumes "run_transition e rid t a rs mt rf am db = (res, db')"
  shows "(db' = db \<and> (\<exists>x. res = Inl x)) \<or>
    (\<exists>cur. find (\<lambda>r. pr_id r = rid) (pd_runs db) = Some cur \<and> t \<in> ALLOWED_TRANSITIONS (pr_status cur)
      \<and> pd_runs db' = update_where (\<lambda>r. pr_id r = rid) (set_status e t a rs mt rf) (pd_runs db)
      \<and> pd_next db' = pd_next db
      \<and> (raises e 2 \<and> res = Inl Db_exception \<and> pd_log db' = pd_log db
         \<or> \<not> raises e 2 \<and> res = Inr (pr_status cur, t, pr_net cur)
           \<and> (\<exists>x. pd_log db' = pd_log db @ [x] \<and> ap_run x = rid \<and> ap_to x = t
                \<and> ap_from x = Some (pr_status cur) \<and> ap_actor x = a)))"
  using assms by (auto simp: run_transition_def Let_def split: if_splits option.splits)

definition approvals_ok :: "payroll_run \<Rightarrow> bool" where
  "approvals_ok r \<longleftrightarrow>
     (pr_status r \<in> {R_reviewed, R_approved, R_locked, R_paid} \<longrightarrow> pr_submitted_by r \<noteq> None)
     \<and> (pr_status r \<in> {R_approved, R_locked, R_paid} \<longrightarrow> pr_approved_by r \<noteq> None)
     \<and> (pr_status r \<in> {R_locked, R_paid} \<longrightarrow> pr_locked_by r \<noteq> None)
     \<and> (pr_status r = R_paid \<longrightarrow> pr_paid_by r \<noteq> None \<and> pr_paid_at r \<noteq> None \<and> pr_idem r \<noteq> None)"

definition last_logged :: "payroll_db \<Rightarrow> int \<Rightarrow> run_status option" where
  "last_logged db rid = map_option ap_to (find (\<lambda>x. ap_run x = rid) (rev (pd_log db)))"

definition one_active :: "payroll_run list \<Rightarrow> bool" where
  "one_active rs \<longleftrightarrow> (\<forall>r\<in>set rs. \<forall>q\<in>set rs. pr_status r \<noteq> R_cancelled \<longrightarrow> pr_status q \<noteq> R_cancelled \<longrightarrow>
     pr_employee r = pr_employee q \<longrightarrow> pr_year r = pr_year q \<longrightarrow> pr_month r = pr_month q \<longrightarrow> r = q)"

definition log_behind :: "payroll_db \<Rightarrow> payroll_run \<Rightarrow> bool" where
  \<comment> \<open>the log names a status from which the run came to its own by allowed transitions\<close>
  "log_behind db r \<longleftrightarrow> (\<exists>s. last_logged db (pr_id r) = Some s \<and> (\<lambda>v w. w \<in> ALLOWED_TRANSITIONS v)\<^sup>*\<^sup>* s (pr_status r))"

definition all_logged :: "payroll_db \<Rightarrow> bool" where
  "all_logged db \<longleftrightarrow> (\<forall>r\<in>set (pd_runs db). last_logged db (pr_id r) = Some (pr_status r))"

definition payroll_inv :: "payroll_db \<Rightarrow> bool" where
  "payroll_inv db \<longleftrightarrow> distinct (map pr_id (pd_runs db)) \<and> one_active (pd_runs db)
     \<and> (\<forall>r\<in>set (pd_runs db). pr_id r < pd_next db \<and> approvals_ok r \<and> log_behind db r)"

text \<open>
  The steps are whole calls, one after the other. The update of a transition and the insertion of its audit entry are two
  statements: in a \<open>payroll_step\<close> either may fail, in a \<open>logged_step\<close> the second does not.
\<close>

inductive payroll_step :: "payroll_db \<Rightarrow> payroll_db \<Rightarrow> bool" where
  compute: "payroll_step db (snd (compute_run e emp y m w rate db))"
| transition: "payroll_step db (snd (run_transition e rid t a rs mt rf am db))"
| business: "payroll_step db (db\<lparr>pd_employees := es, pd_programs := ps, pd_cash := cs\<rparr>)"

inductive logged_step :: "payroll_db \<Rightarrow> payroll_db \<Rightarrow> bool" where
  computed: "logged_step db (snd (compute_run e emp y m w rate db))"
| moved: "\<not> raises e 2 \<Longrightarrow> logged_step db (snd (run_transition e rid t a rs mt rf am db))"
| changed: "logged_step db (db\<lparr>pd_employees := es, pd_programs := ps, pd_cash := cs\<rparr>)"

lemma last_logged_snoc:
  "pd_log db' = pd_log db @ [x] \<Longrightarrow> last_logged db' rid = (if ap_run x = rid then Some (ap_to x) else last_logged db rid)"
  by (simp add: last_logged_def)

lemma approvals_step:
  "approvals_ok r \<Longrightarrow> t \<in> ALLOWED_TRANSITIONS (pr_status r) \<Longrightarrow> approvals_ok (set_status e t a rs mt rf r)"
  by (cases t; cases "pr_status r") (simp_all add: approvals_ok_def set_status_def)

lemma allowed_not_cancelled: "t \<in> ALLOWED_TRANSITIONS s \<Longrightarrow> s \<noteq> R_cancelled \<and> s \<noteq> R_paid"
  by (cases s) auto

lemma one_active_append:
  "one_active rs \<Longrightarrow> find (active_for (pr_employee r) (pr_year r) (pr_month r)) rs = None \<Longrightarrow> one_active (rs @ [r])"
  by (auto simp: one_active_def find_None_iff_all active_for_def)

lemma one_active_update:
  assumes "one_active rs" "distinct (map pr_id rs)" "find (\<lambda>r. pr_id r = rid) rs = Some cur"
    and "pr_status cur \<noteq> R_cancelled"
    and "\<And>r. pr_employee (f r) = pr_employee r \<and> pr_year (f r) = pr_year r \<and> pr_month (f r) = pr_month r"
  shows "one_active (update_where (\<lambda>r. pr_id r = rid) f rs)"
proof -
  have uniq: "r = cur" if "r \<in> set rs" "pr_id r = rid" for r
    using find_Some_mem [OF assms(3)] distinct_key_unique [OF assms(2) that(1), of cur] that(2) by simp
  let ?g = "\<lambda>r. if pr_id r = rid then f r else r"
  have act: "pr_status r \<noteq> R_cancelled" if "r \<in> set rs" "pr_status (?g r) \<noteq> R_cancelled" for r
    using that uniq [of r] assms(4) by (cases "pr_id r = rid") auto
  have keys: "pr_employee (?g r) = pr_employee r" "pr_year (?g r) = pr_year r" "pr_month (?g r) = pr_month r" for r
    using assms(5) by simp_all
  have "?g r = ?g q" if "r \<in> set rs" "q \<in> set rs" "pr_status (?g r) \<noteq> R_cancelled" "pr_status (?g q) \<noteq> R_cancelled"
      "pr_employee (?g r) = pr_employee (?g q)" "pr_year (?g r) = pr_year (?g q)" "pr_month (?g r) = pr_month (?g q)" for r q
  proof -
    have "r = q"
      using assms(1) act [OF that(1,3)] act [OF that(2,4)] that(1,2,5,6,7) unfolding keys one_active_def by blast
    then show ?thesis by simp
  qed
  then show ?thesis unfolding one_active_def set_update_where by blast
qed

lemma compute_shape:
  "snd (compute_run e emp y m w rate db) = db
   \<or> (\<exists>r x. pr_id r = pd_next db \<and> pr_employee r = emp \<and> pr_year r = y \<and> pr_month r = m \<and> pr_status r = R_draft
        \<and> approvals_ok r \<and> ap_run x = pd_next db \<and> ap_to x = R_draft \<and> find (active_for emp y m) (pd_runs db) = None
        \<and> pd_runs (snd (compute_run e emp y m w rate db)) = pd_runs db @ [r]
        \<and> pd_next (snd (compute_run e emp y m w rate db)) = pd_next db + 1
        \<and> pd_log (snd (compute_run e emp y m w rate db)) = pd_log db @ [x])"
proof (cases "\<exists>r. fst (compute_run e emp y m w rate db) = Inr (False, r)")
  case True
  then obtain r where "compute_run e emp y m w rate db = (Inr (False, r), snd (compute_run e emp y m w rate db))"
    by (metis prod.collapse)
  then obtain b rt where r: "r = mk_run e emp y m w b rt (period_programs emp y m db) (period_advances emp y m db) (pd_next db)"
    and db': "snd (compute_run e emp y m w rate db) = db\<lparr>pd_next := pd_next db + 1, pd_runs := pd_runs db @ [r],
        pd_items := pd_items db @ mk_items (pd_next db) emp b rt (period_programs emp y m db) (period_advances emp y m db),
        pd_log := pd_log db @ [\<lparr>ap_run = pd_next db, ap_action = ''compute'', ap_actor = w, ap_from = None,
          ap_to = R_draft, ap_reason = None, ap_ref = None, ap_method = None, ap_amount = Some (pr_net r)\<rparr>]\<rparr>"
    and none: "find (active_for emp y m) (pd_runs db) = None"
    by (rule compute_created)
  show ?thesis unfolding db' by (rule disjI2) (simp add: none r approvals_ok_def)
next
  case False
  then have "snd (compute_run e emp y m w rate db) = db"
    by (auto simp: compute_run_def Let_def split: if_splits option.splits)
  then show ?thesis by simp
qed

lemma compute_inv:
  assumes "payroll_inv db"
  shows "payroll_inv (snd (compute_run e emp y m w rate db))"
  using compute_shape [of e emp y m w rate db]
proof (elim disjE exE conjE)
  fix r x
  let ?db' = "snd (compute_run e emp y m w rate db)"
  assume r: "pr_id r = pd_next db" "pr_employee r = emp" "pr_year r = y" "pr_month r = m" "pr_status r = R_draft" "approvals_ok r"
    and x: "ap_run x = pd_next db" "ap_to x = R_draft" and none: "find (active_for emp y m) (pd_runs db) = None"
    and out: "pd_runs ?db' = pd_runs db @ [r]" "pd_next ?db' = pd_next db + 1" "pd_log ?db' = pd_log db @ [x]"
  have "one_active (pd_runs db @ [r])"
    using one_active_append [of "pd_runs db" r] assms none by (simp add: payroll_inv_def r)
  moreover have "log_behind ?db' r" by (simp add: log_behind_def last_logged_snoc [OF out(3)] r x)
  moreover have "log_behind ?db' q" if "q \<in> set (pd_runs db)" for q
    using that assms by (auto simp: log_behind_def last_logged_snoc [OF out(3)] x payroll_inv_def)
  ultimately show ?thesis
    using assms r by (auto simp: payroll_inv_def out)
qed (use assms in simp)

lemma compute_logged:
  assumes "payroll_inv db" "all_logged db"
  shows "all_logged (snd (compute_run e emp y m w rate db))"
  using compute_shape [of e emp y m w rate db]
proof (elim disjE exE conjE)
  fix r x
  let ?db' = "snd (compute_run e emp y m w rate db)"
  assume r: "pr_id r = pd_next db" "pr_status r = R_draft" and x: "ap_run x = pd_next db" "ap_to x = R_draft"
    and out: "pd_runs ?db' = pd_runs db @ [r]" "pd_log ?db' = pd_log db @ [x]"
  show ?thesis
    using assms r x by (auto simp: all_logged_def out(1) last_logged_snoc [OF out(2)] payroll_inv_def)
qed (use assms in simp)

lemma transition_inv:
  assumes "payroll_inv db"
  shows "payroll_inv (snd (run_transition e rid t a rs mt rf am db))"
    and "\<not> raises e 2 \<Longrightarrow> all_logged db \<Longrightarrow> all_logged (snd (run_transition e rid t a rs mt rf am db))"
proof -
  let ?db' = "snd (run_transition e rid t a rs mt rf am db)"
  have "run_transition e rid t a rs mt rf am db = (fst (run_transition e rid t a rs mt rf am db), ?db')" by simp
  from transition_cases [OF this] consider "?db' = db"
    | cur where "find (\<lambda>r. pr_id r = rid) (pd_runs db) = Some cur" "t \<in> ALLOWED_TRANSITIONS (pr_status cur)"
      "pd_runs ?db' = update_where (\<lambda>r. pr_id r = rid) (set_status e t a rs mt rf) (pd_runs db)"
      "pd_next ?db' = pd_next db"
      "raises e 2 \<and> pd_log ?db' = pd_log db \<or> (\<exists>x. pd_log ?db' = pd_log db @ [x] \<and> ap_run x = rid \<and> ap_to x = t)"
      "\<not> raises e 2 \<longrightarrow> (\<exists>x. pd_log ?db' = pd_log db @ [x] \<and> ap_run x = rid \<and> ap_to x = t)"
    by blast
  then have "payroll_inv ?db' \<and> (\<not> raises e 2 \<longrightarrow> all_logged db \<longrightarrow> all_logged ?db')"
  proof cases
    case 2
    have inv: "distinct (map pr_id (pd_runs db))" "one_active (pd_runs db)"
        "\<And>r. r \<in> set (pd_runs db) \<Longrightarrow> pr_id r < pd_next db \<and> approvals_ok r \<and> log_behind db r"
      using assms(1) by (auto simp: payroll_inv_def)
    have cur: "r = cur" if "r \<in> set (pd_runs db)" "pr_id r = rid" for r
      using find_Some_mem [OF 2(1)] distinct_key_unique [OF inv(1) that(1), of cur] that(2) by simp
    have "one_active (pd_runs ?db')" unfolding 2(3)
      by (rule one_active_update [OF inv(2,1) 2(1)]) (use allowed_not_cancelled [OF 2(2)] in simp_all)
    moreover have "distinct (map pr_id (pd_runs ?db'))" using inv(1) by (simp add: 2(3) table_keys)
    moreover have "pr_id r < pd_next ?db' \<and> approvals_ok r" if "r \<in> set (pd_runs ?db')" for r
      using that inv(3) cur 2(2) approvals_step unfolding 2(3,4) set_update_where by fastforce
    moreover have "log_behind ?db' r" if r: "r \<in> set (pd_runs ?db')" for r
    proof -
      obtain q where q: "q \<in> set (pd_runs db)" "r = (if pr_id q = rid then set_status e t a rs mt rf q else q)"
        using r unfolding 2(3) set_update_where image_iff by blast
      then obtain s where s: "last_logged db (pr_id q) = Some s" "(\<lambda>v w. w \<in> ALLOWED_TRANSITIONS v)\<^sup>*\<^sup>* s (pr_status q)"
        using inv(3) by (auto simp: log_behind_def)
      have "pr_id q = rid \<Longrightarrow> (\<lambda>v w. w \<in> ALLOWED_TRANSITIONS v)\<^sup>*\<^sup>* s t"
        using rtranclp.rtrancl_into_rtrancl [OF s(2), of t] cur [OF q(1)] 2(2) by simp
      with 2(5) q(2) s show ?thesis
        by (auto simp: log_behind_def last_logged_snoc last_logged_def [of ?db'] last_logged_def [of db])
    qed
    moreover have "all_logged ?db'" if "\<not> raises e 2" "all_logged db"
      using 2(6) that by (auto simp: all_logged_def 2(3) set_update_where last_logged_snoc)
    ultimately show ?thesis by (simp add: payroll_inv_def)
  qed (use assms(1) in simp)
  then show "payroll_inv ?db'" "\<not> raises e 2 \<Longrightarrow> all_logged db \<Longrightarrow> all_logged ?db'" by blast+
qed

definition payroll_start :: "payroll_db \<Rightarrow> bool" where
  "payroll_start db \<longleftrightarrow> pd_runs db = [] \<and> pd_log db = []"

interpretation payroll_system: invariant_system payroll_start payroll_step payroll_inv
proof unfold_locales
  show "payroll_start s \<Longrightarrow> payroll_inv s" for s
    by (simp add: payroll_start_def payroll_inv_def one_active_def)
  show "payroll_step s t \<Longrightarrow> payroll_inv s \<Longrightarrow> payroll_inv t" for s t
  proof (induction rule: payroll_step.induct)
    case (business db es ps cs)
    then show ?case by (simp add: payroll_inv_def log_behind_def last_logged_def)
  qed (simp_all add: compute_inv transition_inv)
qed

interpretation logged_system: invariant_system payroll_start logged_step "\<lambda>db. payroll_inv db \<and> all_logged db"
proof unfold_locales
  show "payroll_start s \<Longrightarrow> payroll_inv s \<and> all_logged s" for s
    by (simp add: payroll_start_def payroll_inv_def one_active_def all_logged_def)
  show "logged_step s t \<Longrightarrow> payroll_inv s \<and> all_logged s \<Longrightarrow> payroll_inv t \<and> all_logged t" for s t
  proof (induction rule: logged_step.induct)
    case (changed db es ps cs)
    then show ?case by (simp add: payroll_inv_def log_behind_def all_logged_def last_logged_def)
  qed (simp_all add: compute_inv transition_inv compute_logged)
qed

text \<open>
  C24: What holds of every reachable payroll database. Starting from no runs, after
  any sequence of computations, transitions with failing statements (that of the audit entry included), and changes
  of employees, programs and cash, one call after the other: run ids are unique, an employee has at most one
  run that is not cancelled for a month, no run is reviewed, approved, locked or paid
  without the actor of every earlier stage recorded, a paid run carries its payer,
  time and payout key, and the last approval-log entry of each run states a status from which the run came
  to its own by allowed transitions. As long as no audit entry was lost it states the run's status; and after
  a transition that returns without an exception it states the new one.
\<close>

theorem payroll_reachable:
  assumes "reach payroll_start payroll_step db"
  shows "distinct (map pr_id (pd_runs db)) \<and> one_active (pd_runs db)
    \<and> (\<forall>r\<in>set (pd_runs db). approvals_ok r \<and> log_behind db r)
    \<and> (reach payroll_start logged_step db \<longrightarrow> (\<forall>r\<in>set (pd_runs db). last_logged db (pr_id r) = Some (pr_status r)))
    \<and> (\<forall>e rid t a rs mt rf am x db'. run_transition e rid t a rs mt rf am db = (Inr x, db') \<longrightarrow>
         last_logged db' rid = Some t \<and> (\<forall>r\<in>set (pd_runs db'). pr_id r = rid \<longrightarrow> pr_status r = t))"
proof -
  have "last_logged db' rid = Some t \<and> (\<forall>r\<in>set (pd_runs db'). pr_id r = rid \<longrightarrow> pr_status r = t)"
    if "run_transition e rid t a rs mt rf am db = (Inr x, db')" for e rid t a rs mt rf am x db'
    using transition_cases [OF that] by (auto simp: last_logged_snoc set_update_where)
  then show ?thesis
    using payroll_system.reach_inv [OF assms] logged_system.reach_inv by (auto simp: payroll_inv_def all_logged_def)
qed

lemma lost_audit_entry:
  "let db = snd (submit_run ((env_at 20)\<lparr>raises := \<lambda>n. n = 2\<rparr>) 1 ''clerk'' (snd (compute_run (env_at 10) 4 2026 5 ''admin'' None sample_payroll)))
   in last_logged db 1 = Some R_draft \<and> map pr_status (pd_runs db) = [R_reviewed]"
  by code_simp

theorem payroll_reachable_witness:
  "one_active (pd_runs (snd (submit_run (env_at 20) 1 ''clerk''
      (snd (compute_run (env_at 10) 4 2026 5 ''admin'' None sample_payroll)))))"
proof -
  have "reach payroll_start payroll_step sample_payroll"
    by (rule reach_start) (simp add: payroll_start_def sample_payroll_def)
  then have "reach payroll_start payroll_step (snd (compute_run (env_at 10) 4 2026 5 ''admin'' None sample_payroll))"
    by (rule reach_step) (rule payroll_step.compute)
  then have "reach payroll_start payroll_step (snd (submit_run (env_at 20) 1 ''clerk''
      (snd (compute_run (env_at 10) 4 2026 5 ''admin'' None sample_payroll))))"
    unfolding submit_run_def by (rule reach_step) (rule payroll_step.transition)
  from payroll_reachable [OF this] show ?thesis by blast
qed

subsection \<open>The status machine\<close>

definition run_status_of :: "payroll_db \<Rightarrow> int \<Rightarrow> run_status option" where
  "run_status_of db rid = map_option pr_status (find (\<lambda>r. pr_id r = rid) (pd_runs db))"

definition same_figures :: "payroll_run \<Rightarrow> payroll_run \<Rightarrow> bool" where
  "same_figures r q \<longleftrightarrow> pr_employee q = pr_employee r \<and> pr_year q = pr_year r \<and> pr_month q = pr_month r
     \<and> pr_gross q = pr_gross r \<and> pr_net q = pr_net r"

lemma payroll_step_run:
  "payroll_step db db' \<Longrightarrow> find (\<lambda>r. pr_id r = k) (pd_runs db) = Some r \<Longrightarrow>
    \<exists>q. find (\<lambda>r. pr_id r = k) (pd_runs db') = Some q \<and> same_figures r q
      \<and> (pr_status q = pr_status r \<or> pr_status q \<in> ALLOWED_TRANSITIONS (pr_status r))"
proof (induction rule: payroll_step.induct)
  case (compute db e emp y m w rate)
  then show ?case
    by (auto simp: compute_run_def Let_def find_append same_figures_def split: if_splits option.splits)
next
  case (transition db e rid t a rs mt rf am)
  let ?db' = "snd (run_transition e rid t a rs mt rf am db)"
  have "run_transition e rid t a rs mt rf am db = (fst (run_transition e rid t a rs mt rf am db), ?db')" by simp
  from transition_cases [OF this] consider "?db' = db"
    | cur where "find (\<lambda>r. pr_id r = rid) (pd_runs db) = Some cur" "t \<in> ALLOWED_TRANSITIONS (pr_status cur)"
      "pd_runs ?db' = update_where (\<lambda>r. pr_id r = rid) (set_status e t a rs mt rf) (pd_runs db)"
    by blast
  then show ?case
  proof cases
    case 1
    with transition.prems show ?thesis by (simp add: same_figures_def)
  next
    case 2
    have "pr_id r = k" using find_Some_mem [OF transition.prems] by simp
    with 2 transition.prems show ?thesis
      by (cases "k = rid") (simp_all add: find_update_where_key same_figures_def)
  qed
next
  case (business db es ps cs)
  then show ?case by (simp add: same_figures_def)
qed

interpretation run_machine: status_machine run_status_of payroll_step
  "\<lambda>v w. w \<in> ALLOWED_TRANSITIONS v" "\<lambda>v. v \<in> {R_paid, R_cancelled}"
proof unfold_locales
  show "\<exists>w. run_status_of t k = Some w \<and> (w = v \<or> w \<in> ALLOWED_TRANSITIONS v)"
    if "payroll_step s t" "run_status_of s k = Some v" for s t k v
    using that payroll_step_run [OF that(1)] by (fastforce simp: run_status_of_def)
  show "v \<in> {R_paid, R_cancelled} \<Longrightarrow> w \<notin> ALLOWED_TRANSITIONS v" for v w
    by auto
qed

lemma payroll_run_figures:
  assumes "payroll_step\<^sup>*\<^sup>* db db'" "find (\<lambda>r. pr_id r = k) (pd_runs db) = Some r"
  shows "\<exists>q. find (\<lambda>r. pr_id r = k) (pd_runs db') = Some q \<and> same_figures r q"
  using assms
proof (induction rule: rtranclp_induct)
  case base
  then show ?case by (simp add: same_figures_def)
next
  case (step d1 d2)
  then obtain q where q: "find (\<lambda>r. pr_id r = k) (pd_runs d1) = Some q" "same_figures r q" by blast
  with payroll_step_run [OF step.hyps(2) q(1)] show ?case by (auto simp: same_figures_def)
qed

text \<open>
  A computed run keeps its figures and a settled one its status. Along any
  sequence of steps a run stays in the table with the same employee, month, gross and
  net; its status moves only along the allowed transitions; and once paid or
  cancelled it never changes again.
\<close>

theorem run_life:
  assumes "payroll_step\<^sup>*\<^sup>* db db'" and "find (\<lambda>r. pr_id r = k) (pd_runs db) = Some r"
  shows "\<exists>q. find (\<lambda>r. pr_id r = k) (pd_runs db') = Some q \<and> same_figures r q
    \<and> (\<lambda>v w. w \<in> ALLOWED_TRANSITIONS v)\<^sup>*\<^sup>* (pr_status r) (pr_status q)
    \<and> (pr_status r \<in> {R_paid, R_cancelled} \<longrightarrow> pr_status q = pr_status r)"
proof -
  obtain q where q: "find (\<lambda>r. pr_id r = k) (pd_runs db') = Some q" "same_figures r q"
    using payroll_run_figures [OF assms] by blast
  have s: "run_status_of db k = Some (pr_status r)" "run_status_of db' k = Some (pr_status q)"
    using assms(2) q(1) by (simp_all add: run_status_of_def)
  have "(\<lambda>v w. w \<in> ALLOWED_TRANSITIONS v)\<^sup>*\<^sup>* (pr_status r) (pr_status q)"
    using run_machine.run_edges [OF assms(1) s(1)] s(2) by simp
  moreover have "pr_status r \<in> {R_paid, R_cancelled} \<Longrightarrow> pr_status q = pr_status r"
    using run_machine.final_stays [OF assms(1) s(1)] s(2) by simp
  ultimately show ?thesis using q by blast
qed

definition sample_paid :: payroll_db where
  "sample_paid = sample_payroll\<lparr>pd_runs := [(mk_run (env_at 10) 4 2026 5 ''admin'' 9000 800 [] 1500 1)\<lparr>pr_status := R_paid\<rparr>]\<rparr>"

theorem run_life_witness:
  "\<exists>q. find (\<lambda>r. pr_id r = 1) (pd_runs (snd (cancel_run (env_at 90) 1 ''clerk'' ''error'' sample_paid))) = Some q
     \<and> pr_status q = R_paid"
proof -
  let ?r = "(mk_run (env_at 10) 4 2026 5 ''admin'' 9000 800 [] 1500 1)\<lparr>pr_status := R_paid\<rparr>"
  have f: "find (\<lambda>r. pr_id r = 1) (pd_runs sample_paid) = Some ?r" by (simp add: sample_paid_def)
  have "payroll_step\<^sup>*\<^sup>* sample_paid (snd (cancel_run (env_at 90) 1 ''clerk'' ''error'' sample_paid))"
    unfolding cancel_run_def by (rule r_into_rtranclp) (rule payroll_step.transition)
  from run_life [OF this f] show ?thesis by auto
qed

lemma one_activeD:
  "one_active rs \<Longrightarrow> q \<in> set rs \<Longrightarrow> r \<in> set rs \<Longrightarrow> active_for emp y m q \<Longrightarrow> active_for emp y m r \<Longrightarrow> q = r"
  by (auto simp: one_active_def active_for_def)

lemma compute_found:
  assumes "compute_run e emp y m w rate db = (Inr (b, r), db')"
  shows "1 \<le> m \<and> m \<le> 12 \<and> find (active_for emp y m) (pd_runs db') = Some r"
proof (cases b)
  case True
  then show ?thesis using assms by (auto simp: compute_run_def Let_def split: if_splits option.splits)
next
  case False
  with assms have c: "compute_run e emp y m w rate db = (Inr (False, r), db')" by simp
  show ?thesis
  proof (rule compute_created [OF c])
    fix bs rt
    assume r: "r = mk_run e emp y m w bs rt (period_programs emp y m db) (period_advances emp y m db) (pd_next db)"
      and db': "db' = db\<lparr>pd_next := pd_next db + 1, pd_runs := pd_runs db @ [r],
        pd_items := pd_items db @ mk_items (pd_next db) emp bs rt (period_programs emp y m db) (period_advances emp y m db),
        pd_log := pd_log db @ [\<lparr>ap_run = pd_next db, ap_action = ''compute'', ap_actor = w, ap_from = None,
          ap_to = R_draft, ap_reason = None, ap_ref = None, ap_method = None, ap_amount = Some (pr_net r)\<rparr>]\<rparr>"
      and "find (active_for emp y m) (pd_runs db) = None" "1 \<le> m" "m \<le> 12"
    moreover have "active_for emp y m r" by (simp add: r active_for_def)
    ultimately show ?thesis by (simp add: find_append)
  qed
qed

lemma cancel_clears:
  assumes "payroll_inv db" "r \<in> set (pd_runs db)" "active_for emp y m r" "pr_status r \<noteq> R_paid" "db_ok e"
    and "q \<in> set (pd_runs (snd (cancel_run e (pr_id r) w reason db)))"
  shows "\<not> active_for emp y m q"
proof -
  have byid: "find (\<lambda>q. pr_id q = pr_id r) (pd_runs db) = Some r"
    using find_key_unique [of pr_id "pd_runs db" r] assms(1,2) by (simp add: payroll_inv_def)
  have "R_cancelled \<in> ALLOWED_TRANSITIONS (pr_status r)"
    using assms(3,4) by (cases "pr_status r") (auto simp: active_for_def)
  then have runs: "pd_runs (snd (cancel_run e (pr_id r) w reason db)) =
      update_where (\<lambda>q. pr_id q = pr_id r) (set_status e R_cancelled w (Some reason) None None) (pd_runs db)"
    using byid assms(5) by (simp add: cancel_run_def run_transition_def db_ok_raises Let_def)
  have only: "q' = r" if "q' \<in> set (pd_runs db)" "active_for emp y m q'" for q'
    using one_activeD [OF _ that(1) assms(2) that(2) assms(3)] assms(1) by (simp add: payroll_inv_def)
  from assms(6) [unfolded runs mem_update_where] show ?thesis
  proof (elim disjE bexE conjE)
    assume "q \<in> set (pd_runs db)" "pr_id q \<noteq> pr_id r"
    then show ?thesis using only by blast
  next
    fix s
    assume "q = set_status e R_cancelled w (Some reason) None None s"
    then show ?thesis by (simp add: active_for_def)
  qed
qed

text \<open>
  Computing is idempotent. After a call that returned a run, computing the same
  employee and month again, by anyone, at any rate and time, returns the stored run
  marked as already existing and changes nothing, for as long as the run is not
  cancelled; after \<open>cancel_run\<close> the month can be computed afresh.
\<close>

theorem compute_idempotent:
  assumes "payroll_inv db" and "compute_run e emp y m w rate db = (Inr (b, r), db')"
    and "\<not> raises e2 0"
  shows "compute_run e2 emp y m w2 rate2 db' = (Inr (True, r), db')
    \<and> (pr_status r \<noteq> R_paid \<and> db_ok e3 \<longrightarrow>
        (\<forall>q\<in>set (pd_runs (snd (cancel_run e3 (pr_id r) w reason db'))). \<not> active_for emp y m q))"
proof -
  have f: "1 \<le> m" "m \<le> 12" "find (active_for emp y m) (pd_runs db') = Some r"
    using compute_found [OF assms(2)] by simp_all
  have inv': "payroll_inv db'" using compute_inv [OF assms(1), of e emp y m w rate] assms(2) by simp
  have r: "r \<in> set (pd_runs db')" "active_for emp y m r" using find_Some_mem [OF f(3)] by simp_all
  have "compute_run e2 emp y m w2 rate2 db' = (Inr (True, r), db')"
    using f assms(3) by (simp add: compute_run_def)
  with cancel_clears [OF inv' r] show ?thesis by blast
qed

theorem compute_idempotent_witness:
  "\<exists>r db'. compute_run (env_at 10) 4 2026 5 ''admin'' None sample_payroll = (Inr (False, r), db')
     \<and> compute_run (env_at 99) 4 2026 5 ''other'' (Some 900) db' = (Inr (True, r), db')"
proof -
  have "payroll_start sample_payroll" by (simp add: payroll_start_def sample_payroll_def)
  then have inv: "payroll_inv sample_payroll" by (rule payroll_system.start_inv)
  have ok: "\<not> raises (env_at 99) 0" by simp
  show ?thesis
    by (intro exI conjI) (rule sample_compute, rule conjunct1 [OF compute_idempotent [OF inv sample_compute ok]])
qed

end
