(* ===== verification/FPE_Accounting.thy ===== *)
theory FPE_Accounting
  imports Calendar Event_Bus
begin

text \<open>
  The accounting engine of the payroll engine,
  \<open>modules/fazle_payroll_engine/accounting.py\<close>: immutable cash transactions with a
  derived reference, reversals, the per-employee monthly ledger, the audit log and the
  income table. A request carries a \<open>Decimal\<close> (an integer and a scale); a stored
  amount is an integer number of hundredths, the value after PostgreSQL's rounding to
  \<open>NUMERIC(12,2)\<close>. The statements of a call commit one by one, so a call that is
  cut short by an exception keeps the statements before it. The hash is an argument.
\<close>

datatype txn_category = T_salary | T_advance | T_bonus | T_deduction | T_correction | T_income | T_other
  \<comment> \<open>the last one is no member of \<open>TxnCategory\<close>: the column is text, and the admin routes store it\<close>

datatype decimal = Dec int nat

datatype fpe_error = Txn_not_found int | Already_reversal int | Reversal_exists int | Invalid_category | Fpe_db_exception

record txn_request =
  rq_msg :: "int option"
  rq_employee :: "int option"
  rq_name :: "string option"
  rq_amount :: decimal
  rq_phone :: "string option"
  rq_method :: string
  rq_date :: date
  rq_category :: txn_category
  rq_text :: "string option"
  rq_period :: "string option"
  rq_by :: string

record cash_txn =
  tx_id :: int
  tx_ref :: string
  tx_msg :: "int option"
  tx_employee :: "int option"
  tx_name :: "string option"
  tx_amount :: int
  tx_phone :: "string option"
  tx_method :: string
  tx_date :: date
  tx_category :: txn_category
  tx_text :: "string option"
  tx_is_reversal :: bool
  tx_reversed :: "int option"
  tx_period :: string
  tx_created_at :: time
  tx_by :: string

record transaction_row =
  tr_id :: int
  tr_ref :: string
  tr_employee :: "int option"
  tr_name :: "string option"
  tr_amount :: int
  tr_phone :: "string option"
  tr_method :: string
  tr_date :: date
  tr_category :: txn_category
  tr_period :: string
  tr_is_reversal :: bool
  tr_created_at :: time

record ledger_row =
  lg_employee :: int
  lg_period :: string
  lg_opening :: int
  lg_earned :: int
  lg_paid :: int
  lg_advance :: int
  lg_closing :: int
  lg_count :: nat
  lg_updated :: time

record audit_row =
  au_entity :: int
  au_action :: string
  au_before :: payload
  au_after :: payload
  au_by :: string
  au_reason :: "string option"

record income_txn =
  in_id :: int
  in_ref :: string
  in_msg :: "int option"
  in_employee :: "int option"
  in_name :: "string option"
  in_amount :: int
  in_date :: date
  in_period :: string
  in_phone :: "string option"
  in_text :: "string option"

record fpe_db =
  fp_txns :: "cash_txn list"
  fp_next :: int
  fp_ledger :: "ledger_row list"
  fp_audit :: "audit_row list"
  fp_income :: "income_txn list"
  fp_income_next :: int

definition cents :: "decimal \<Rightarrow> int" where
  "cents d = (case d of Dec u s \<Rightarrow>
     if s \<le> 2 then u * 10 ^ (2 - s)
     else sgn u * ((2 * \<bar>u\<bar> + 10 ^ (s - 2)) div (2 * 10 ^ (s - 2))))"

definition dec_str :: "decimal \<Rightarrow> string" where
  \<comment> \<open>\<open>str(d)\<close> of a decimal with at most six places; Python writes some longer ones with an exponent\<close>
  "dec_str d = (case d of Dec u s \<Rightarrow>
     let digits = show_nat (nat \<bar>u\<bar>);
         padded = replicate (Suc s - length digits) (CHR ''0'') @ digits;
         k = length padded - s
     in (if u < 0 then ''-'' else '''') @
        (if s = 0 then digits else take k padded @ ''.'' @ drop k padded))"

definition id_str :: "int option \<Rightarrow> string" where
  \<comment> \<open>\<open>str(x or "")\<close> for an optional id\<close>
  "id_str x = (case x of None \<Rightarrow> '''' | Some i \<Rightarrow> if i = 0 then '''' else show_int i)"

definition category_name :: "txn_category \<Rightarrow> string" where
  "category_name c = (case c of T_salary \<Rightarrow> ''salary'' | T_advance \<Rightarrow> ''advance'' | T_bonus \<Rightarrow> ''bonus''
     | T_deduction \<Rightarrow> ''deduction'' | T_correction \<Rightarrow> ''correction'' | T_income \<Rightarrow> ''income'' | T_other \<Rightarrow> ''other'')"

fun join_bar :: "string list \<Rightarrow> string" where
  "join_bar [] = ''''"
| "join_bar [s] = s"
| "join_bar (s # t # ss) = s @ ''|'' @ join_bar (t # ss)"

definition request_period :: "txn_request \<Rightarrow> string" where
  "request_period req = (case rq_period req of None \<Rightarrow> period_from_date (rq_date req)
     | Some p \<Rightarrow> if p = '''' then period_from_date (rq_date req) else p)"

definition txn_ref_text :: "txn_request \<Rightarrow> string \<Rightarrow> string" where
  "txn_ref_text req period =
     join_bar [id_str (rq_msg req), id_str (rq_employee req), dec_str (rq_amount req), period, rq_method req]"

definition build_txn_ref :: "(string \<Rightarrow> string) \<Rightarrow> txn_request \<Rightarrow> string \<Rightarrow> string" where
  "build_txn_ref sha req period = ''fpe-'' @ take 16 (sha (txn_ref_text req period))"

definition txn_to_audit_json :: "txn_request \<Rightarrow> string \<Rightarrow> string \<Rightarrow> payload" where
  "txn_to_audit_json req ref period =
     [(''txn_ref'', JStr ref),
      (''employee_id'', case rq_employee req of None \<Rightarrow> JNull | Some i \<Rightarrow> JInt i),
      (''amount'', JStr (dec_str (rq_amount req))),
      (''payout_method'', JStr (rq_method req)),
      (''txn_date'', JStr (isoformat (rq_date req))),
      (''accounting_period'', JStr period),
      (''txn_category'', JStr (category_name (rq_category req)))]"

subsection \<open>The ledger\<close>

definition bump_bucket :: "txn_category \<Rightarrow> int \<Rightarrow> ledger_row \<Rightarrow> ledger_row" where
  "bump_bucket cat amount l =
     (if cat = T_advance then l\<lparr>lg_advance := lg_advance l + amount\<rparr>
      else l\<lparr>lg_paid := lg_paid l + amount\<rparr>)"

definition upsert_ledger :: "env \<Rightarrow> int \<Rightarrow> string \<Rightarrow> int \<Rightarrow> txn_category \<Rightarrow> ledger_row list \<Rightarrow> ledger_row list" where
  "upsert_ledger e emp period amount cat t =
     (if has_row (\<lambda>l. lg_employee l = emp \<and> lg_period l = period) t
      then update_where (\<lambda>l. lg_employee l = emp \<and> lg_period l = period)
             (\<lambda>l. (bump_bucket cat amount l)\<lparr>lg_count := lg_count l + 1,
                     lg_closing := lg_opening l + lg_earned l - lg_paid l - lg_advance l - amount,
                     lg_updated := db_now e\<rparr>) t
      else t @ [bump_bucket cat amount
                  \<lparr>lg_employee = emp, lg_period = period, lg_opening = 0, lg_earned = 0, lg_paid = 0,
                   lg_advance = 0, lg_closing = 0, lg_count = 1, lg_updated = db_now e\<rparr>])"

definition post_ledger ::
  "env \<Rightarrow> int option \<Rightarrow> string \<Rightarrow> int \<Rightarrow> txn_category \<Rightarrow> fpe_db \<Rightarrow> fpe_db" where
  "post_ledger e emp period amount cat db =
     (case emp of
        None \<Rightarrow> db
      | Some i \<Rightarrow> if i = 0 then db
                 else db\<lparr>fp_ledger := upsert_ledger e i period amount cat (fp_ledger db)\<rparr>)"

definition posts :: "int option \<Rightarrow> bool" where
  "posts emp \<longleftrightarrow> (case emp of None \<Rightarrow> False | Some i \<Rightarrow> i \<noteq> 0)"

subsection \<open>Transactions\<close>

definition row_to_model :: "bool \<Rightarrow> cash_txn \<Rightarrow> transaction_row" where
  \<comment> \<open>the idempotency query selects neither the raw name nor the payout phone\<close>
  "row_to_model full x =
     \<lparr>tr_id = tx_id x, tr_ref = tx_ref x, tr_employee = tx_employee x,
      tr_name = (if full then tx_name x else None), tr_amount = tx_amount x,
      tr_phone = (if full then tx_phone x else None), tr_method = tx_method x, tr_date = tx_date x,
      tr_category = tx_category x, tr_period = tx_period x, tr_is_reversal = tx_is_reversal x,
      tr_created_at = tx_created_at x\<rparr>"

definition create_transaction ::
  "(string \<Rightarrow> string) \<Rightarrow> env \<Rightarrow> txn_request \<Rightarrow> fpe_db \<Rightarrow> (fpe_error + transaction_row) \<times> fpe_db" where
  "create_transaction sha e req db =
     (let period = request_period req; ref = build_txn_ref sha req period
      in if raises e 0 then (Inl Fpe_db_exception, db)
         else case find (\<lambda>x. tx_ref x = ref) (fp_txns db) of
           Some x \<Rightarrow> (Inr (row_to_model False x), db)
         | None \<Rightarrow>
             if raises e 1 then (Inl Fpe_db_exception, db)
             else let row = \<lparr>tx_id = fp_next db, tx_ref = ref, tx_msg = rq_msg req, tx_employee = rq_employee req,
                             tx_name = rq_name req, tx_amount = cents (rq_amount req), tx_phone = rq_phone req,
                             tx_method = rq_method req, tx_date = rq_date req, tx_category = rq_category req,
                             tx_text = rq_text req, tx_is_reversal = False, tx_reversed = None,
                             tx_period = period, tx_created_at = db_now e, tx_by = rq_by req\<rparr>;
                      db1 = db\<lparr>fp_next := fp_next db + 1, fp_txns := fp_txns db @ [row]\<rparr>
                  in if raises e 2 then (Inl Fpe_db_exception, db1)
                     else let db2 = db1\<lparr>fp_audit := fp_audit db @
                                [\<lparr>au_entity = tx_id row, au_action = ''create'', au_before = [],
                                  au_after = txn_to_audit_json req ref period, au_by = rq_by req, au_reason = None\<rparr>]\<rparr>
                          in if posts (rq_employee req) \<and> raises e 3 then (Inl Fpe_db_exception, db2)
                             else let db3 = post_ledger e (rq_employee req) period (tx_amount row) (rq_category req) db2
                                  in if raises e 4 then (Inl Fpe_db_exception, db3) else (Inr (row_to_model True row), db3))"

definition reverse_transaction ::
  "env \<Rightarrow> int \<Rightarrow> string \<Rightarrow> string \<Rightarrow> fpe_db \<Rightarrow> (fpe_error + transaction_row) \<times> fpe_db" where
  "reverse_transaction e txn_id reason created_by db =
     (if raises e 0 then (Inl Fpe_db_exception, db)
      else case find (\<lambda>x. tx_id x = txn_id) (fp_txns db) of
        None \<Rightarrow> (Inl (Txn_not_found txn_id), db)
      | Some orig \<Rightarrow>
          if tx_is_reversal orig then (Inl (Already_reversal txn_id), db)
          else let ref = ''REV-'' @ tx_ref orig
          in if raises e 1 then (Inl Fpe_db_exception, db)
          else if has_row (\<lambda>x. tx_ref x = ref) (fp_txns db) then (Inl (Reversal_exists txn_id), db)
          else if raises e 2 then (Inl Fpe_db_exception, db)
          else let row = orig\<lparr>tx_id := fp_next db, tx_ref := ref, tx_amount := - tx_amount orig,
                              tx_text := Some (''REVERSAL: '' @ reason), tx_is_reversal := True,
                              tx_reversed := Some txn_id, tx_created_at := db_now e, tx_by := created_by\<rparr>;
                   db1 = db\<lparr>fp_next := fp_next db + 1, fp_txns := fp_txns db @ [row]\<rparr>
               in if raises e 3 then (Inl Fpe_db_exception, db1)
                  else let db2 = db1\<lparr>fp_audit := fp_audit db @
                             [\<lparr>au_entity = txn_id, au_action = ''reverse'',
                               au_before = [(''id'', JInt txn_id), (''amount'', JStr (dec_str (Dec (tx_amount orig) 2)))],
                               au_after = [(''reversal_id'', JInt (tx_id row)), (''reversal_ref'', JStr ref)],
                               au_by = created_by, au_reason = Some reason\<rparr>]\<rparr>
                       in if posts (tx_employee orig) \<and> tx_category orig = T_other then (Inl Invalid_category, db2)
                          else if posts (tx_employee orig) \<and> raises e 4 then (Inl Fpe_db_exception, db2)
                          else let db3 = post_ledger e (tx_employee orig) (tx_period orig) (- tx_amount orig)
                                           (tx_category orig) db2
                               in if raises e 5 then (Inl Fpe_db_exception, db3) else (Inr (row_to_model True row), db3))"

definition income_ref :: "(string \<Rightarrow> string) \<Rightarrow> int option \<Rightarrow> int option \<Rightarrow> decimal \<Rightarrow> string \<Rightarrow> string" where
  "income_ref sha msg emp amount period =
     ''inc-'' @ take 16 (sha (join_bar [id_str msg, id_str emp, dec_str amount, period]))"

definition create_income_transaction ::
  "(string \<Rightarrow> string) \<Rightarrow> env \<Rightarrow> int option \<Rightarrow> int option \<Rightarrow> string option \<Rightarrow> decimal \<Rightarrow> date
    \<Rightarrow> string option \<Rightarrow> string option \<Rightarrow> fpe_db \<Rightarrow> (fpe_error + int) \<times> fpe_db" where
  "create_income_transaction sha e msg emp name amount d phone text db =
     (let period = period_from_date d; ref = income_ref sha msg emp amount period
      in if raises e 0 then (Inl Fpe_db_exception, db)
         else case find (\<lambda>x. in_ref x = ref) (fp_income db) of
           Some x \<Rightarrow> (Inr (in_id x), db)
         | None \<Rightarrow>
             if raises e 1 \<or> cents amount \<le> 0 then (Inl Fpe_db_exception, db)
             else (Inr (fp_income_next db),
                   db\<lparr>fp_income_next := fp_income_next db + 1,
                      fp_income := fp_income db @
                        [\<lparr>in_id = fp_income_next db, in_ref = ref, in_msg = msg, in_employee = emp, in_name = name,
                          in_amount = cents amount, in_date = d, in_period = period, in_phone = phone,
                          in_text = text\<rparr>]\<rparr>))"

subsection \<open>The ledger as a function of the transactions\<close>

text \<open>
  The specification of the ledger: the row of an employee and month states the sums
  over the transactions posted to it. The closing balance is stated as the code
  leaves it: zero after the first transaction of a month, the balance of the totals
  from the second on.
\<close>

definition posted_to :: "int \<Rightarrow> string \<Rightarrow> cash_txn list \<Rightarrow> cash_txn list" where
  "posted_to emp period xs = filter (\<lambda>x. tx_employee x = Some emp \<and> tx_period x = period) xs"

definition total_of :: "(cash_txn \<Rightarrow> bool) \<Rightarrow> cash_txn list \<Rightarrow> int" where
  "total_of P xs = sum_list (map tx_amount (filter P xs))"

definition is_advance :: "cash_txn \<Rightarrow> bool" where
  "is_advance x \<longleftrightarrow> tx_category x = T_advance"

definition ledger_row_ok :: "cash_txn list \<Rightarrow> ledger_row \<Rightarrow> bool" where
  "ledger_row_ok xs l \<longleftrightarrow>
     (let mine = posted_to (lg_employee l) (lg_period l) xs
      in lg_employee l \<noteq> 0 \<and> lg_opening l = 0 \<and> lg_earned l = 0 \<and> 1 \<le> lg_count l \<and> lg_count l = length mine
       \<and> lg_paid l = total_of (\<lambda>x. \<not> is_advance x) mine \<and> lg_advance l = total_of is_advance mine
       \<and> lg_closing l = (if lg_count l = 1 then 0 else - lg_paid l - lg_advance l))"

definition lg_key :: "ledger_row \<Rightarrow> int \<times> string" where
  "lg_key l = (lg_employee l, lg_period l)"

definition ledger_ok :: "cash_txn list \<Rightarrow> ledger_row list \<Rightarrow> bool" where
  "ledger_ok xs t \<longleftrightarrow> distinct (map lg_key t) \<and> (\<forall>l\<in>set t. ledger_row_ok xs l)
     \<and> (\<forall>x\<in>set xs. posts (tx_employee x) \<longrightarrow> (the (tx_employee x), tx_period x) \<in> lg_key ` set t)"

lemma posted_snoc:
  "posted_to emp per (xs @ [x]) = posted_to emp per xs @ (if tx_employee x = Some emp \<and> tx_period x = per then [x] else [])"
  by (simp add: posted_to_def)

lemma total_snoc: "total_of P (xs @ [x]) = total_of P xs + (if P x then tx_amount x else 0)"
  by (simp add: total_of_def)

lemma bump_bucket_simps [simp]:
  "lg_employee (bump_bucket c a l) = lg_employee l" "lg_period (bump_bucket c a l) = lg_period l"
  "lg_opening (bump_bucket c a l) = lg_opening l" "lg_earned (bump_bucket c a l) = lg_earned l"
  "lg_count (bump_bucket c a l) = lg_count l" "lg_closing (bump_bucket c a l) = lg_closing l"
  "lg_paid (bump_bucket c a l) = lg_paid l + (if c = T_advance then 0 else a)"
  "lg_advance (bump_bucket c a l) = lg_advance l + (if c = T_advance then a else 0)"
  by (simp_all add: bump_bucket_def)

lemma row_ok_other:
  "ledger_row_ok xs l \<Longrightarrow> tx_employee x \<noteq> Some (lg_employee l) \<or> tx_period x \<noteq> lg_period l \<Longrightarrow>
    ledger_row_ok (xs @ [x]) l"
  by (auto simp: ledger_row_ok_def posted_snoc)

lemma row_ok_bumped:
  assumes "ledger_row_ok xs l" "tx_employee x = Some (lg_employee l)" "tx_period x = lg_period l"
  shows "ledger_row_ok (xs @ [x]) ((bump_bucket (tx_category x) (tx_amount x) l)\<lparr>lg_count := lg_count l + 1,
    lg_closing := lg_opening l + lg_earned l - lg_paid l - lg_advance l - tx_amount x, lg_updated := t\<rparr>)"
proof -
  have "posted_to (lg_employee l) (lg_period l) xs \<noteq> []"
    using assms(1) by (auto simp: ledger_row_ok_def Let_def)
  with assms show ?thesis by (simp add: ledger_row_ok_def posted_snoc total_snoc is_advance_def Let_def)
qed

lemma row_ok_first:
  assumes "posted_to emp per xs = []" "tx_employee x = Some emp" "tx_period x = per" "emp \<noteq> 0"
  shows "ledger_row_ok (xs @ [x]) (bump_bucket (tx_category x) (tx_amount x)
    \<lparr>lg_employee = emp, lg_period = per, lg_opening = 0, lg_earned = 0, lg_paid = 0,
     lg_advance = 0, lg_closing = 0, lg_count = 1, lg_updated = t\<rparr>)"
  using assms total_snoc [of _ "[]" x]
  by (simp add: ledger_row_ok_def posted_snoc is_advance_def Let_def total_of_def)

lemma ledger_okI:
  assumes "distinct (map lg_key t)" "\<And>l. l \<in> set t \<Longrightarrow> ledger_row_ok xs l"
    and "\<And>x. x \<in> set xs \<Longrightarrow> posts (tx_employee x) \<Longrightarrow> (the (tx_employee x), tx_period x) \<in> lg_key ` set t"
  shows "ledger_ok xs t"
  using assms by (simp add: ledger_ok_def)

lemma ledger_okD:
  assumes "ledger_ok xs t"
  shows "distinct (map lg_key t)" "l \<in> set t \<Longrightarrow> ledger_row_ok xs l"
    and "x \<in> set xs \<Longrightarrow> posts (tx_employee x) \<Longrightarrow> (the (tx_employee x), tx_period x) \<in> lg_key ` set t"
  using assms by (simp_all add: ledger_ok_def)

lemma upsert_ledger_ok:
  assumes ok: "ledger_ok xs t" and x: "tx_employee x = Some emp" "tx_period x = per" "emp \<noteq> 0"
  shows "ledger_ok (xs @ [x]) (upsert_ledger e emp per (tx_amount x) (tx_category x) t)"
proof (cases "has_row (\<lambda>l. lg_employee l = emp \<and> lg_period l = per) t")
  case True
  let ?P = "\<lambda>l. lg_employee l = emp \<and> lg_period l = per"
  let ?f = "\<lambda>l. (bump_bucket (tx_category x) (tx_amount x) l)\<lparr>lg_count := lg_count l + 1,
      lg_closing := lg_opening l + lg_earned l - lg_paid l - lg_advance l - tx_amount x, lg_updated := db_now e\<rparr>"
  have up: "upsert_ledger e emp per (tx_amount x) (tx_category x) t = update_where ?P ?f t"
    using True by (simp add: upsert_ledger_def)
  have keys: "map lg_key (update_where ?P ?f t) = map lg_key t"
    by (rule map_key_update_where) (simp add: lg_key_def)
  have "(emp, per) \<in> lg_key ` set t" using True by (auto simp: has_row_iff lg_key_def)
  moreover have same: "lg_key ` set (update_where ?P ?f t) = lg_key ` set t"
    using arg_cong [OF keys, of set] by simp
  ultimately have posted: "(the (tx_employee y), tx_period y) \<in> lg_key ` set (update_where ?P ?f t)"
    if "y \<in> set (xs @ [x])" "posts (tx_employee y)" for y
    using that x(1,2) ledger_okD(3) [OF ok] by (cases "y = x") auto
  have rows: "ledger_row_ok (xs @ [x]) l" if "l \<in> set (update_where ?P ?f t)" for l
    using that unfolding mem_update_where
  proof (elim disjE bexE conjE)
    assume "l \<in> set t" "\<not> ?P l"
    then show ?thesis using row_ok_other [OF ledger_okD(2) [OF ok]] x by auto
  next
    fix k assume "k \<in> set t" "lg_employee k = emp" "lg_period k = per" "l = ?f k"
    then show ?thesis using row_ok_bumped [OF ledger_okD(2) [OF ok], of k x "db_now e"] x by simp
  qed
  show ?thesis unfolding up
  proof (rule ledger_okI)
    show "distinct (map lg_key (update_where ?P ?f t))" unfolding keys by (rule ledger_okD(1) [OF ok])
  qed (rule rows posted; assumption)+
next
  case False
  let ?l = "bump_bucket (tx_category x) (tx_amount x)
      \<lparr>lg_employee = emp, lg_period = per, lg_opening = 0, lg_earned = 0, lg_paid = 0,
       lg_advance = 0, lg_closing = 0, lg_count = 1, lg_updated = db_now e\<rparr>"
  have up: "upsert_ledger e emp per (tx_amount x) (tx_category x) t = t @ [?l]"
    using False by (simp add: upsert_ledger_def)
  have nokey: "(emp, per) \<notin> lg_key ` set t" using False by (auto simp: has_row_iff lg_key_def)
  have none: "posted_to emp per xs = []"
  proof (rule ccontr)
    assume "posted_to emp per xs \<noteq> []"
    then obtain y where "y \<in> set xs" "tx_employee y = Some emp" "tx_period y = per"
      by (auto simp: posted_to_def filter_empty_conv)
    with ledger_okD(3) [OF ok, of y] x(3) nokey show False by (simp add: posts_def)
  qed
  have key: "lg_key ?l = (emp, per)" by (simp add: lg_key_def)
  have rows: "ledger_row_ok (xs @ [x]) l" if "l \<in> set (t @ [?l])" for l
  proof (cases "l \<in> set t")
    case True
    then have "lg_employee l \<noteq> emp \<or> lg_period l \<noteq> per" using nokey by (auto simp: lg_key_def)
    with row_ok_other [OF ledger_okD(2) [OF ok True], of x] x show ?thesis by auto
  next
    case False
    with that have "l = ?l" by simp
    with row_ok_first [OF none x, of "db_now e"] show ?thesis by simp
  qed
  have posted: "(the (tx_employee y), tx_period y) \<in> lg_key ` set (t @ [?l])"
    if "y \<in> set (xs @ [x])" "posts (tx_employee y)" for y
    using that x(1,2) ledger_okD(3) [OF ok, of y] key by (cases "y = x") auto
  show ?thesis unfolding up
  proof (rule ledger_okI)
    show "distinct (map lg_key (t @ [?l]))" using ledger_okD(1) [OF ok] nokey key by simp
  qed (rule rows posted; assumption)+
qed

lemma ledger_ok_unposted:
  assumes "ledger_ok xs t" "\<not> posts (tx_employee x)"
  shows "ledger_ok (xs @ [x]) t"
proof -
  have "ledger_row_ok (xs @ [x]) l" if "l \<in> set t" for l
  proof (rule row_ok_other)
    show "ledger_row_ok xs l" using assms(1) that by (simp add: ledger_ok_def)
    then show "tx_employee x \<noteq> Some (lg_employee l) \<or> tx_period x \<noteq> lg_period l"
      using assms(2) by (auto simp: ledger_row_ok_def posts_def Let_def)
  qed
  with assms show ?thesis by (auto simp: ledger_ok_def)
qed

lemma post_ledger_ok:
  assumes "ledger_ok xs (fp_ledger db)"
  shows "ledger_ok (xs @ [x]) (fp_ledger (post_ledger e (tx_employee x) (tx_period x) (tx_amount x) (tx_category x) db))"
proof (cases "posts (tx_employee x)")
  case True
  then obtain i where i: "tx_employee x = Some i" "i \<noteq> 0" by (auto simp: posts_def split: option.splits)
  then show ?thesis using upsert_ledger_ok [OF assms i(1) refl i(2)] by (simp add: post_ledger_def)
next
  case False
  then show ?thesis
    using ledger_ok_unposted [OF assms False] by (auto simp: post_ledger_def posts_def split: option.splits)
qed

subsection \<open>Runs of the accounting engine\<close>

definition fpe_inv :: "fpe_db \<Rightarrow> bool" where
  "fpe_inv db \<longleftrightarrow> distinct (map tx_id (fp_txns db)) \<and> distinct (map tx_ref (fp_txns db))
     \<and> (\<forall>x\<in>set (fp_txns db). tx_id x < fp_next db \<and> tx_category x \<noteq> T_other) \<and> ledger_ok (fp_txns db) (fp_ledger db)"

lemma post_ledger_frame [simp]:
  "fp_txns (post_ledger e emp per a c db) = fp_txns db" "fp_next (post_ledger e emp per a c db) = fp_next db"
  "fp_audit (post_ledger e emp per a c db) = fp_audit db" "fp_income (post_ledger e emp per a c db) = fp_income db"
  by (simp_all add: post_ledger_def split: option.split)

lemma post_ledger_cong:
  "fp_ledger db = fp_ledger db' \<Longrightarrow> fp_ledger (post_ledger e emp per a c db) = fp_ledger (post_ledger e emp per a c db')"
  by (simp add: post_ledger_def split: option.split)

definition new_txn :: "(string \<Rightarrow> string) \<Rightarrow> env \<Rightarrow> txn_request \<Rightarrow> fpe_db \<Rightarrow> cash_txn" where
  "new_txn sha e req db =
     \<lparr>tx_id = fp_next db, tx_ref = build_txn_ref sha req (request_period req), tx_msg = rq_msg req,
      tx_employee = rq_employee req, tx_name = rq_name req, tx_amount = cents (rq_amount req), tx_phone = rq_phone req,
      tx_method = rq_method req, tx_date = rq_date req, tx_category = rq_category req,
      tx_text = rq_text req, tx_is_reversal = False, tx_reversed = None,
      tx_period = request_period req, tx_created_at = db_now e, tx_by = rq_by req\<rparr>"

lemma create_new:
  assumes "db_ok e" "find (\<lambda>x. tx_ref x = build_txn_ref sha req (request_period req)) (fp_txns db) = None"
  shows "\<exists>db'. create_transaction sha e req db = (Inr (row_to_model True (new_txn sha e req db)), db')
    \<and> fp_txns db' = fp_txns db @ [new_txn sha e req db] \<and> fp_next db' = fp_next db + 1
    \<and> fp_ledger db' = fp_ledger (post_ledger e (rq_employee req) (request_period req) (cents (rq_amount req)) (rq_category req) db)"
  using assms
  by (auto simp: create_transaction_def new_txn_def Let_def db_ok_raises intro!: post_ledger_cong)

lemma create_hit:
  assumes "\<not> raises e 0" "find (\<lambda>x. tx_ref x = build_txn_ref sha req (request_period req)) (fp_txns db) = Some x"
  shows "create_transaction sha e req db = (Inr (row_to_model False x), db)"
  using assms by (simp add: create_transaction_def Let_def)

lemma reverse_done:
  assumes "db_ok e" "find (\<lambda>x. tx_id x = i) (fp_txns db) = Some orig" "\<not> tx_is_reversal orig"
    and "\<not> has_row (\<lambda>x. tx_ref x = ''REV-'' @ tx_ref orig) (fp_txns db)" "tx_category orig \<noteq> T_other"
  shows "\<exists>rev db'. reverse_transaction e i reason w db = (Inr (row_to_model True rev), db')
    \<and> fp_txns db' = fp_txns db @ [rev] \<and> fp_next db' = fp_next db + 1
    \<and> rev = orig\<lparr>tx_id := fp_next db, tx_ref := ''REV-'' @ tx_ref orig, tx_amount := - tx_amount orig,
            tx_text := Some (''REVERSAL: '' @ reason), tx_is_reversal := True,
            tx_reversed := Some i, tx_created_at := db_now e, tx_by := w\<rparr>
    \<and> fp_ledger db' = fp_ledger (post_ledger e (tx_employee orig) (tx_period orig) (- tx_amount orig) (tx_category orig) db)"
  using assms by (auto simp: reverse_transaction_def Let_def db_ok_raises intro!: post_ledger_cong)

lemma fpe_inv_append:
  assumes "fpe_inv db" "fp_txns db' = fp_txns db @ [x]" "fp_next db' = fp_next db + 1" "tx_id x = fp_next db"
    and "\<forall>y\<in>set (fp_txns db). tx_ref y \<noteq> tx_ref x" "tx_category x \<noteq> T_other"
    and "fp_ledger db' = fp_ledger (post_ledger e (tx_employee x) (tx_period x) (tx_amount x) (tx_category x) db)"
  shows "fpe_inv db'"
proof -
  have "ledger_ok (fp_txns db') (fp_ledger db')"
    unfolding assms(2,7) using assms(1) by (intro post_ledger_ok) (simp add: fpe_inv_def)
  with assms show ?thesis by (fastforce simp: fpe_inv_def)
qed

lemma create_inv: "fpe_inv db \<Longrightarrow> db_ok e \<Longrightarrow> rq_category req \<noteq> T_other \<Longrightarrow> fpe_inv (snd (create_transaction sha e req db))"
proof (cases "find (\<lambda>x. tx_ref x = build_txn_ref sha req (request_period req)) (fp_txns db)")
  case None
  assume inv: "fpe_inv db" and ok: "db_ok e" and cat: "rq_category req \<noteq> T_other"
  from create_new [OF ok None] obtain db' where
    c: "create_transaction sha e req db = (Inr (row_to_model True (new_txn sha e req db)), db')"
      "fp_txns db' = fp_txns db @ [new_txn sha e req db]" "fp_next db' = fp_next db + 1"
      "fp_ledger db' = fp_ledger (post_ledger e (rq_employee req) (request_period req) (cents (rq_amount req)) (rq_category req) db)"
    by blast
  have "fpe_inv db'"
    by (rule fpe_inv_append [OF inv c(2,3), where e = e])
      (use None c(4) cat in \<open>auto simp: new_txn_def find_None_iff_all\<close>)
  with c(1) show ?thesis by simp
next
  case (Some x)
  assume "fpe_inv db" "db_ok e"
  with create_hit [OF _ Some, of e] show ?thesis by (simp add: db_ok_raises)
qed

lemma reverse_inv: "fpe_inv db \<Longrightarrow> db_ok e \<Longrightarrow> fpe_inv (snd (reverse_transaction e i reason w db))"
proof (cases "\<exists>orig. find (\<lambda>x. tx_id x = i) (fp_txns db) = Some orig \<and> \<not> tx_is_reversal orig
    \<and> \<not> has_row (\<lambda>x. tx_ref x = ''REV-'' @ tx_ref orig) (fp_txns db)")
  case True
  assume inv: "fpe_inv db" and ok: "db_ok e"
  from True obtain orig where o: "find (\<lambda>x. tx_id x = i) (fp_txns db) = Some orig" "\<not> tx_is_reversal orig"
      "\<not> has_row (\<lambda>x. tx_ref x = ''REV-'' @ tx_ref orig) (fp_txns db)" by blast
  have cat: "tx_category orig \<noteq> T_other" using inv find_Some_mem [OF o(1)] by (auto simp: fpe_inv_def)
  from reverse_done [OF ok o cat, of reason w] obtain rev db' where
    c: "reverse_transaction e i reason w db = (Inr (row_to_model True rev), db')"
      "fp_txns db' = fp_txns db @ [rev]" "fp_next db' = fp_next db + 1"
    and rev: "rev = orig\<lparr>tx_id := fp_next db, tx_ref := ''REV-'' @ tx_ref orig, tx_amount := - tx_amount orig,
            tx_text := Some (''REVERSAL: '' @ reason), tx_is_reversal := True,
            tx_reversed := Some i, tx_created_at := db_now e, tx_by := w\<rparr>"
    and l: "fp_ledger db' = fp_ledger (post_ledger e (tx_employee orig) (tx_period orig) (- tx_amount orig) (tx_category orig) db)"
    by blast
  have "fpe_inv db'"
    by (rule fpe_inv_append [OF inv c(2,3), where e = e]) (use o(3) l cat in \<open>auto simp: rev has_row_iff\<close>)
  with c(1) show ?thesis by simp
next
  case False
  assume "fpe_inv db" "db_ok e"
  with False show ?thesis
    by (auto simp: reverse_transaction_def Let_def db_ok_raises split: option.splits if_splits)
qed

inductive fpe_step :: "fpe_db \<Rightarrow> fpe_db \<Rightarrow> bool" where
  create: "db_ok e \<Longrightarrow> rq_category req \<noteq> T_other \<Longrightarrow> fpe_step db (snd (create_transaction sha e req db))"
| reverse: "db_ok e \<Longrightarrow> fpe_step db (snd (reverse_transaction e i reason w db))"
| income: "fpe_step db (snd (create_income_transaction sha e msg emp name amount d phone body db))"

definition fpe_start :: "fpe_db \<Rightarrow> bool" where
  "fpe_start db \<longleftrightarrow> fp_txns db = [] \<and> fp_ledger db = []"

interpretation fpe_system: invariant_system fpe_start fpe_step fpe_inv
proof unfold_locales
  show "fpe_start s \<Longrightarrow> fpe_inv s" for s
    by (simp add: fpe_start_def fpe_inv_def ledger_ok_def)
  show "fpe_step s t \<Longrightarrow> fpe_inv s \<Longrightarrow> fpe_inv t" for s t
  proof (induction rule: fpe_step.induct)
    case (income db sha e msg emp name amount d phone body)
    then show ?case by (auto simp: create_income_transaction_def fpe_inv_def Let_def split: option.splits)
  qed (simp_all add: create_inv reverse_inv)
qed

text \<open>
  C23: The ledger agrees with the transactions. After any sequence of complete
  creations, reversals and income entries from empty tables, transaction ids and
  references are unique; every transaction with an employee has its ledger row; and
  the row of an employee and month counts the transactions posted to it, its advance
  total is the sum of the advances and its paid total the sum of the others. Its
  closing balance is the negated sum of the two totals from the second transaction on
  and still zero after the first one.
\<close>

theorem ledger_matches_transactions:
  assumes "reach fpe_start fpe_step db"
  shows "distinct (map tx_id (fp_txns db)) \<and> distinct (map tx_ref (fp_txns db))
    \<and> distinct (map lg_key (fp_ledger db))
    \<and> (\<forall>x\<in>set (fp_txns db). posts (tx_employee x) \<longrightarrow> (the (tx_employee x), tx_period x) \<in> lg_key ` set (fp_ledger db))
    \<and> (\<forall>l\<in>set (fp_ledger db).
        let mine = posted_to (lg_employee l) (lg_period l) (fp_txns db)
        in lg_count l = length mine \<and> lg_paid l = total_of (\<lambda>x. \<not> is_advance x) mine
         \<and> lg_advance l = total_of is_advance mine
         \<and> lg_closing l = (if lg_count l = 1 then 0 else - (lg_paid l + lg_advance l)))"
  using fpe_system.reach_inv [OF assms] by (auto simp: fpe_inv_def ledger_ok_def ledger_row_ok_def Let_def)

definition sample_request :: "int option \<Rightarrow> int \<Rightarrow> txn_category \<Rightarrow> txn_request" where
  "sample_request msg day cat =
     \<lparr>rq_msg = msg, rq_employee = Some 7, rq_name = Some ''Karim'', rq_amount = Dec 500 0, rq_phone = None,
      rq_method = ''bkash'', rq_date = Date 2026 5 day, rq_category = cat, rq_text = None, rq_period = None,
      rq_by = ''admin''\<rparr>"

definition empty_fpe :: fpe_db where
  "empty_fpe = \<lparr>fp_txns = [], fp_next = 1, fp_ledger = [], fp_audit = [], fp_income = [], fp_income_next = 1\<rparr>"

theorem ledger_matches_transactions_witness:
  "\<exists>db :: fpe_db. fp_txns db \<noteq> [] \<and> distinct (map tx_ref (fp_txns db)) \<and> distinct (map lg_key (fp_ledger db))"
proof -
  let ?db = "snd (create_transaction (\<lambda>s. s) (env_at 5) (sample_request (Some 3) 4 T_salary) empty_fpe)"
  have "reach fpe_start fpe_step empty_fpe"
    by (rule reach_start) (simp add: fpe_start_def empty_fpe_def)
  then have r: "reach fpe_start fpe_step ?db"
    by (rule reach_step) (rule fpe_step.create, simp_all add: sample_request_def)
  have "fp_txns ?db \<noteq> []"
    using create_new [of "env_at 5" "\<lambda>s. s" "sample_request (Some 3) 4 T_salary" empty_fpe]
    by (auto simp: empty_fpe_def)
  moreover have "distinct (map tx_ref (fp_txns ?db))"
    using ledger_matches_transactions [OF r] by (elim conjE)
  moreover have "distinct (map lg_key (fp_ledger ?db))"
    using ledger_matches_transactions [OF r] by (elim conjE)
  ultimately show ?thesis by (intro exI [of _ ?db] conjI)
qed

text \<open>
  Recording is idempotent in the reference. Once a request is recorded, every
  later request with the same message id, employee, amount text, accounting period and
  payout method returns the recorded transaction's id and changes nothing. The
  transaction date, the category and the source text do not enter the reference: two
  manual entries of one month that differ only in these are one entry.
\<close>

theorem create_idempotent:
  assumes "db_ok e" and "\<not> raises e2 0"
    and "find (\<lambda>x. tx_ref x = build_txn_ref sha req (request_period req)) (fp_txns db) = None"
    and "rq_msg req2 = rq_msg req" and "rq_employee req2 = rq_employee req" and "rq_amount req2 = rq_amount req"
    and "request_period req2 = request_period req" and "rq_method req2 = rq_method req"
  shows "\<exists>row db' row2. create_transaction sha e req db = (Inr row, db')
    \<and> create_transaction sha e2 req2 db' = (Inr row2, db')
    \<and> tr_id row2 = tr_id row \<and> tr_ref row2 = tr_ref row \<and> tr_date row2 = rq_date req
    \<and> tr_category row2 = rq_category req \<and> tr_amount row = cents (rq_amount req)"
proof -
  let ?x = "new_txn sha e req db"
  obtain db' where c: "create_transaction sha e req db = (Inr (row_to_model True ?x), db')"
      "fp_txns db' = fp_txns db @ [?x]"
    using create_new [OF assms(1,3)] by blast
  have same: "build_txn_ref sha req2 (request_period req2) = build_txn_ref sha req (request_period req)"
    using assms(4-8) by (simp add: build_txn_ref_def txn_ref_text_def)
  have "find (\<lambda>x. tx_ref x = build_txn_ref sha req2 (request_period req2)) (fp_txns db') = Some ?x"
    using assms(3) by (simp add: c(2) find_append same) (simp add: new_txn_def)
  from create_hit [OF assms(2) this] c(1) show ?thesis
    by (auto simp: row_to_model_def new_txn_def)
qed

theorem create_idempotent_witness:
  "\<exists>row db' row2. create_transaction (\<lambda>s. s) (env_at 5) (sample_request None 4 T_salary) empty_fpe = (Inr row, db')
    \<and> create_transaction (\<lambda>s. s) (env_at 9) (sample_request None 28 T_advance) db' = (Inr row2, db')
    \<and> tr_category row2 = T_salary"
proof -
  let ?r = "sample_request None 4 T_salary" and ?q = "sample_request None 28 T_advance"
  have f: "find (\<lambda>x. tx_ref x = build_txn_ref (\<lambda>s. s) ?r (request_period ?r)) (fp_txns empty_fpe) = None"
    by (simp add: empty_fpe_def)
  have eqs: "rq_msg ?q = rq_msg ?r" "rq_employee ?q = rq_employee ?r" "rq_amount ?q = rq_amount ?r"
      "request_period ?q = request_period ?r" "rq_method ?q = rq_method ?r" "rq_category ?r = T_salary"
    by (simp_all add: sample_request_def request_period_def period_from_date_def)
  have ok: "\<not> raises (env_at 9) 0" by simp
  from create_idempotent [OF db_ok_env_at ok f eqs(1-5)] eqs(6) show ?thesis by metis
qed

text \<open>
  A reversal cancels its transaction and happens once. Reversing a recorded
  transaction appends one row with the negated amount for the same employee, month,
  category and method, leaves every earlier row as it is and keeps the ledger in
  agreement with the transactions; so the totals of the month are those without the
  transaction. A second reversal, and the reversal of the reversal, are refused and
  change nothing.
\<close>

theorem reverse_cancels:
  assumes "fpe_inv db" and "db_ok e" and "db_ok e2"
    and "find (\<lambda>x. tx_id x = i) (fp_txns db) = Some orig" and "\<not> tx_is_reversal orig"
    and "\<not> has_row (\<lambda>x. tx_ref x = ''REV-'' @ tx_ref orig) (fp_txns db)"
  shows "\<exists>row db' rev. reverse_transaction e i reason w db = (Inr row, db') \<and> fpe_inv db'
    \<and> fp_txns db' = fp_txns db @ [rev] \<and> tx_amount rev = - tx_amount orig \<and> tx_reversed rev = Some i
    \<and> tx_employee rev = tx_employee orig \<and> tx_period rev = tx_period orig \<and> tx_category rev = tx_category orig
    \<and> (\<forall>P emp per. total_of P (posted_to emp per (fp_txns db'))
         = total_of P (posted_to emp per (fp_txns db))
           - (if tx_employee orig = Some emp \<and> tx_period orig = per \<and> P rev then tx_amount orig else 0))
    \<and> reverse_transaction e2 i reason2 w2 db' = (Inl (Reversal_exists i), db')
    \<and> reverse_transaction e2 (tx_id rev) reason2 w2 db' = (Inl (Already_reversal (tx_id rev)), db')"
proof -
  have cat: "tx_category orig \<noteq> T_other" using assms(1) find_Some_mem [OF assms(4)] by (auto simp: fpe_inv_def)
  obtain rev db' where c: "reverse_transaction e i reason w db = (Inr (row_to_model True rev), db')"
      "fp_txns db' = fp_txns db @ [rev]"
    and rev: "rev = orig\<lparr>tx_id := fp_next db, tx_ref := ''REV-'' @ tx_ref orig, tx_amount := - tx_amount orig,
            tx_text := Some (''REVERSAL: '' @ reason), tx_is_reversal := True,
            tx_reversed := Some i, tx_created_at := db_now e, tx_by := w\<rparr>"
    using reverse_done [OF assms(2,4,5,6) cat, of reason w] by blast
  have inv: "fpe_inv db'" using reverse_inv [OF assms(1,2), of i reason w] c(1) by simp
  have o: "find (\<lambda>x. tx_id x = i) (fp_txns db') = Some orig" using assms(4) by (simp add: c(2) find_append)
  have "tx_id x \<noteq> fp_next db" if "x \<in> set (fp_txns db)" for x using assms(1) that by (auto simp: fpe_inv_def)
  then have "find (\<lambda>x. tx_id x = fp_next db) (fp_txns db) = None" by (simp add: find_None_iff_all)
  then have r: "find (\<lambda>x. tx_id x = tx_id rev) (fp_txns db') = Some rev" by (simp add: c(2) find_append rev)
  have again: "reverse_transaction e2 i reason2 w2 db' = (Inl (Reversal_exists i), db')"
    using o assms(3,5) by (simp add: reverse_transaction_def db_ok_raises has_row_def c(2) rev)
  have twice: "reverse_transaction e2 (tx_id rev) reason2 w2 db' = (Inl (Already_reversal (tx_id rev)), db')"
    using r assms(3) by (simp add: reverse_transaction_def db_ok_raises) (simp add: rev)
  have fields: "tx_employee rev = tx_employee orig" "tx_period rev = tx_period orig" "tx_amount rev = - tx_amount orig"
    by (simp_all add: rev)
  have "total_of P (posted_to emp per (fp_txns db')) = total_of P (posted_to emp per (fp_txns db))
      - (if tx_employee orig = Some emp \<and> tx_period orig = per \<and> P rev then tx_amount orig else 0)" for P emp per
    by (auto simp: c(2) posted_snoc total_snoc fields)
  then show ?thesis
    using c inv again twice by (intro exI [of _ "row_to_model True rev"] exI [of _ db'] exI [of _ rev]) (simp add: rev)
qed

theorem reverse_cancels_witness:
  "\<exists>row db'. reverse_transaction (env_at 8) 1 ''typo'' ''admin''
      (snd (create_transaction (\<lambda>s. s) (env_at 5) (sample_request (Some 3) 4 T_salary) empty_fpe)) = (Inr row, db')
    \<and> reverse_transaction (env_at 9) 1 ''again'' ''admin'' db' = (Inl (Reversal_exists 1), db')"
proof -
  let ?q = "sample_request (Some 3) 4 T_salary"
  let ?x = "new_txn (\<lambda>s. s) (env_at 5) ?q empty_fpe"
  have f: "find (\<lambda>x. tx_ref x = build_txn_ref (\<lambda>s. s) ?q (request_period ?q)) (fp_txns empty_fpe) = None"
    by (simp add: empty_fpe_def)
  obtain db where c: "create_transaction (\<lambda>s. s) (env_at 5) ?q empty_fpe = (Inr (row_to_model True ?x), db)"
      "fp_txns db = fp_txns empty_fpe @ [?x]"
    using create_new [OF db_ok_env_at f] by blast
  have "fpe_inv empty_fpe" by (simp add: fpe_inv_def empty_fpe_def ledger_ok_def)
  moreover have "rq_category ?q \<noteq> T_other" by (simp add: sample_request_def)
  ultimately have "fpe_inv (snd (create_transaction (\<lambda>s. s) (env_at 5) ?q empty_fpe))" by (intro create_inv) simp_all
  then have inv: "fpe_inv db" using c(1) by simp
  have t: "fp_txns db = [?x]" using c(2) by (simp add: empty_fpe_def)
  have i: "tx_id ?x = 1" "\<not> tx_is_reversal ?x" by (simp_all add: new_txn_def empty_fpe_def)
  have o: "find (\<lambda>x. tx_id x = 1) (fp_txns db) = Some ?x" using i by (simp add: t)
  have n: "\<not> has_row (\<lambda>x. tx_ref x = ''REV-'' @ tx_ref ?x) (fp_txns db)" by (simp add: t has_row_def)
  show ?thesis unfolding c(1) snd_conv
    using reverse_cancels [OF inv db_ok_env_at db_ok_env_at o i(2) n, of 8 "''typo''" "''admin''" 9 "''again''" "''admin''"]
    by (elim exE conjE) (intro exI conjI)
qed

text \<open>
  An interrupted recording is never posted. If the audit insert of
  \<open>create_transaction\<close> raises, the transaction row is already stored but the ledger
  is not touched; every retry of the request finds the row, reports success and
  returns without posting it, so the month's totals stay short of the transaction.
\<close>

theorem interrupted_create_never_posts:
  assumes "\<not> raises e 0" and "\<not> raises e 1" and "raises e 2" and "\<not> raises e2 0"
    and "find (\<lambda>x. tx_ref x = build_txn_ref sha req (request_period req)) (fp_txns db) = None"
  shows "\<exists>db' row. create_transaction sha e req db = (Inl Fpe_db_exception, db')
    \<and> fp_txns db' = fp_txns db @ [new_txn sha e req db] \<and> fp_ledger db' = fp_ledger db
    \<and> create_transaction sha e2 req db' = (Inr row, db') \<and> tr_id row = fp_next db"
proof -
  let ?x = "new_txn sha e req db"
  obtain db' where c: "create_transaction sha e req db = (Inl Fpe_db_exception, db')"
      "fp_txns db' = fp_txns db @ [?x]" "fp_ledger db' = fp_ledger db"
    using assms(1-3,5) by (simp add: create_transaction_def new_txn_def Let_def)
  have "find (\<lambda>x. tx_ref x = build_txn_ref sha req (request_period req)) (fp_txns db') = Some ?x"
    using assms(5) by (simp add: c(2) find_append) (simp add: new_txn_def)
  from create_hit [OF assms(4) this] c show ?thesis
    by (auto simp: row_to_model_def new_txn_def)
qed

theorem interrupted_create_never_posts_witness:
  "\<exists>db' row. create_transaction (\<lambda>s. s) ((env_at 5)\<lparr>raises := (\<lambda>n. n = 2)\<rparr>) (sample_request (Some 3) 4 T_salary) empty_fpe
      = (Inl Fpe_db_exception, db')
    \<and> fp_ledger db' = [] \<and> create_transaction (\<lambda>s. s) (env_at 9) (sample_request (Some 3) 4 T_salary) db' = (Inr row, db')"
proof -
  let ?q = "sample_request (Some 3) 4 T_salary" and ?e = "(env_at 5)\<lparr>raises := (\<lambda>n. n = 2)\<rparr>"
  have f: "find (\<lambda>x. tx_ref x = build_txn_ref (\<lambda>s. s) ?q (request_period ?q)) (fp_txns empty_fpe) = None"
    by (simp add: empty_fpe_def)
  have r: "\<not> raises ?e 0" "\<not> raises ?e 1" "raises ?e 2" "\<not> raises (env_at 9) 0" by simp_all
  have l: "fp_ledger empty_fpe = []" by (simp add: empty_fpe_def)
  from interrupted_create_never_posts [OF r f] show ?thesis
    unfolding l by (elim exE conjE) (intro exI conjI)
qed

end
