(* ===== verification/Payment_Drafts.thy ===== *)
theory Payment_Drafts
  imports Fazle_Prelude
begin

text \<open>
  The life cycle of payment drafts, \<open>shared/draft.py\<close>, over the table
  \<open>fazle_payment_drafts\<close> and, for the reply guard, the messages of
  \<open>fpe_wa_messages\<close>. A statement that raises makes the operation return its
  default. Timestamps without a time zone are taken as UTC, as the code does.
\<close>

datatype draft_status = D_pending | D_approved | D_cancelled | D_expired | D_reversed | D_rejected | D_sent

record draft_row =
  df_id :: int
  df_employee :: "int option"
  df_program :: "int option"
  df_status :: draft_status
  df_created_at :: time
  df_expires_at :: "time option"
  df_updated_at :: time

record wa_message =
  wa_chat :: string
  wa_from_me :: bool
  wa_time :: time

definition TERMINAL_STATUSES :: "draft_status set" where
  "TERMINAL_STATUSES = {D_approved, D_cancelled, D_expired, D_reversed, D_rejected}"

definition ACTIVE_STATUSES :: "draft_status set" where
  "ACTIVE_STATUSES = {D_pending}"

definition expire_draft :: "env \<Rightarrow> draft_row \<Rightarrow> draft_row" where
  "expire_draft e d = d\<lparr>df_status := D_expired, df_updated_at := db_now e\<rparr>"

definition overdue :: "env \<Rightarrow> int \<Rightarrow> draft_row \<Rightarrow> bool" where
  "overdue e ttl_hours d \<longleftrightarrow> df_status d = D_pending \<and>
     (case df_expires_at d of Some t \<Rightarrow> t < db_now e
      | None \<Rightarrow> df_created_at d < db_now e - secs (3600 * ttl_hours))"

definition expire_stale_drafts :: "env \<Rightarrow> int \<Rightarrow> draft_row list \<Rightarrow> nat \<times> draft_row list" where
  "expire_stale_drafts e ttl_hours t =
     (if raises e 0 then (0, t)
      else (count_where (overdue e ttl_hours) t, update_where (overdue e ttl_hours) (expire_draft e) t))"

definition is_draft_active :: "env \<Rightarrow> int \<Rightarrow> draft_row list \<Rightarrow> bool" where
  "is_draft_active e i t =
     (\<not> raises e 0 \<and> (case find (\<lambda>d. df_id d = i) t of None \<Rightarrow> False | Some d \<Rightarrow> df_status d \<in> ACTIVE_STATUSES))"

definition blocks_draft :: "int \<Rightarrow> int \<Rightarrow> draft_row \<Rightarrow> bool" where
  "blocks_draft emp prog d \<longleftrightarrow> df_employee d = Some emp \<and> df_program d = Some prog
     \<and> df_status d \<notin> {D_cancelled, D_expired, D_reversed, D_rejected}"

definition find_existing_escort_draft :: "env \<Rightarrow> int \<Rightarrow> int \<Rightarrow> draft_row list \<Rightarrow> int option" where
  "find_existing_escort_draft e emp prog t =
     (if raises e 0 then None
      else case sort_key (\<lambda>d. - df_id d) (filter (blocks_draft emp prog) t) of
             [] \<Rightarrow> None | d # _ \<Rightarrow> Some (df_id d))"

definition mark_draft_expired :: "env \<Rightarrow> int \<Rightarrow> draft_row list \<Rightarrow> bool \<times> draft_row list" where
  "mark_draft_expired e i t =
     (if raises e 0 then (False, t)
      else (True, update_where (\<lambda>d. df_id d = i \<and> df_status d = D_pending) (expire_draft e) t))"

definition expire_program_drafts :: "env \<Rightarrow> int \<Rightarrow> int \<Rightarrow> draft_row list \<Rightarrow> nat \<times> draft_row list" where
  "expire_program_drafts e emp prog t =
     (let P = \<lambda>d. df_employee d = Some emp \<and> df_program d = Some prog \<and> df_status d = D_pending
      in if raises e 0 then (0, t) else (count_where P t, update_where P (expire_draft e) t))"

definition should_generate_draft ::
  "env \<Rightarrow> string \<Rightarrow> time option \<Rightarrow> int \<Rightarrow> wa_message list \<Rightarrow> bool" where
  "should_generate_draft e chat ts cutoff_hours msgs =
     (if (case ts of None \<Rightarrow> False | Some t \<Rightarrow> py_now e - t > secs (3600 * cutoff_hours)) then False
      else if raises e 0 then True
      else \<not> has_row (\<lambda>m. wa_chat m = chat \<and> wa_from_me m \<and> (case ts of None \<Rightarrow> True | Some t \<Rightarrow> wa_time m > t)) msgs)"

subsection \<open>Expiry as a status machine\<close>

definition drafts_wf :: "draft_row list \<Rightarrow> bool" where
  "drafts_wf t \<longleftrightarrow> distinct (map df_id t)"

definition draft_status_of :: "draft_row list \<Rightarrow> int \<Rightarrow> draft_status option" where
  "draft_status_of t i = map_option df_status (find (\<lambda>d. df_id d = i) t)"

inductive draft_step :: "draft_row list \<Rightarrow> draft_row list \<Rightarrow> bool" where
  sweep: "draft_step t (snd (expire_stale_drafts e h t))"
| single: "draft_step t (snd (mark_draft_expired e i t))"
| program: "draft_step t (snd (expire_program_drafts e emp prog t))"

lemma expire_draft_simps [simp]:
  "df_id (expire_draft e d) = df_id d" "df_status (expire_draft e d) = D_expired"
  "df_employee (expire_draft e d) = df_employee d" "df_program (expire_draft e d) = df_program d"
  by (simp_all add: expire_draft_def)

lemma overdue_pending: "overdue e h d \<Longrightarrow> df_status d = D_pending"
  by (simp add: overdue_def)

lemma draft_step_update:
  "draft_step t t' \<Longrightarrow> \<exists>P e. t' = update_where P (expire_draft e) t \<and> (\<forall>d. P d \<longrightarrow> df_status d = D_pending)"
proof (induction rule: draft_step.induct)
  case (sweep t e h)
  show ?case
    by (rule exI [of _ "\<lambda>d. \<not> raises e 0 \<and> overdue e h d"], rule exI [of _ e])
      (simp add: expire_stale_drafts_def overdue_pending update_where_none)
next
  case (single t e i)
  show ?case
    by (rule exI [of _ "\<lambda>d. \<not> raises e 0 \<and> df_id d = i \<and> df_status d = D_pending"], rule exI [of _ e])
      (simp add: mark_draft_expired_def update_where_none)
next
  case (program t e emp prog)
  show ?case
    by (rule exI [of _ "\<lambda>d. \<not> raises e 0 \<and> df_employee d = Some emp \<and> df_program d = Some prog \<and> df_status d = D_pending"],
        rule exI [of _ e])
      (simp add: expire_program_drafts_def Let_def update_where_none)
qed

interpretation draft_machine: status_machine draft_status_of draft_step
  "\<lambda>v w. v = D_pending \<and> w = D_expired" "\<lambda>v. v \<noteq> D_pending"
proof unfold_locales
  show "\<exists>w. draft_status_of t k = Some w \<and> (w = v \<or> v = D_pending \<and> w = D_expired)"
    if step: "draft_step s t" and st: "draft_status_of s k = Some v" for s t k v
  proof -
    obtain P e where t: "t = update_where P (expire_draft e) s" "\<forall>d. P d \<longrightarrow> df_status d = D_pending"
      using draft_step_update [OF step] by blast
    obtain d where d: "find (\<lambda>d. df_id d = k) s = Some d" "v = df_status d"
      using st by (auto simp: draft_status_of_def)
    with t(1) have "draft_status_of t k = Some (if P d then D_expired else v)"
      by (simp add: draft_status_of_def find_update_where_key)
    with t(2) d(2) show ?thesis by auto
  qed
qed simp

text \<open>
  The sweep expires exactly the overdue drafts. \<open>expire_stale_drafts\<close> turns
  every pending draft past its expiry (or, without one, older than the time to live)
  to expired and changes no other row; the count it returns is their number; a second
  sweep at the same time finds none; and along any sequence of sweeps and forced
  expiries a draft that is no longer pending keeps its status.
\<close>

theorem expiry_exact:
  assumes "\<not> raises e 0" and "drafts_wf t" and "draft_step\<^sup>*\<^sup>* t u"
  shows "let (n, t') = expire_stale_drafts e h t
         in n = count_where (overdue e h) t \<and> drafts_wf t'
          \<and> (\<forall>d\<in>set t. find (\<lambda>r. df_id r = df_id d) t' = Some (if overdue e h d then expire_draft e d else d))
          \<and> expire_stale_drafts e h t' = (0, t')
          \<and> (\<forall>d\<in>set t. df_status d \<noteq> D_pending \<longrightarrow> draft_status_of u (df_id d) = Some (df_status d))"
proof -
  let ?t' = "update_where (overdue e h) (expire_draft e) t"
  have found: "find (\<lambda>r. df_id r = df_id d) t = Some d" if "d \<in> set t" for d
    using find_key_unique [of df_id t d] assms(2) that by (simp add: drafts_wf_def)
  have none: "\<not> overdue e h d" if "d \<in> set ?t'" for d
    using that by (auto simp: mem_update_where overdue_def)
  have "expire_stale_drafts e h ?t' = (0, ?t')"
    using assms(1) none by (simp add: expire_stale_drafts_def update_where_none count_where_def)
  moreover have "drafts_wf ?t'" using assms(2) by (simp add: drafts_wf_def table_keys)
  moreover have "draft_status_of u (df_id d) = Some (df_status d)" if "d \<in> set t" "df_status d \<noteq> D_pending" for d
    using draft_machine.final_stays [OF assms(3), of "df_id d"] found [OF that(1)] that(2)
    by (simp add: draft_status_of_def)
  ultimately show ?thesis
    using assms(1) found by (simp add: expire_stale_drafts_def find_update_where_key)
qed

definition sample_draft :: "int \<Rightarrow> draft_status \<Rightarrow> time \<Rightarrow> draft_row" where
  "sample_draft i st t = \<lparr>df_id = i, df_employee = Some 7, df_program = Some 3, df_status = st,
     df_created_at = t, df_expires_at = None, df_updated_at = t\<rparr>"

theorem expiry_exact_witness:
  "fst (expire_stale_drafts (env_at (secs 90000)) 24 [sample_draft 1 D_pending 0, sample_draft 2 D_approved 0]) = 1"
proof -
  let ?t = "[sample_draft 1 D_pending 0, sample_draft 2 D_approved 0]"
  have n: "count_where (overdue (env_at (secs 90000)) 24) ?t = 1"
    by (simp add: count_where_def overdue_def sample_draft_def secs_def)
  have wf: "drafts_wf ?t" by (simp add: drafts_wf_def sample_draft_def)
  have ok: "\<not> raises (env_at (secs 90000)) 0" by simp
  show ?thesis using expiry_exact [OF ok wf rtranclp.rtrancl_refl, of 24] unfolding n by (simp add: Let_def split_def)
qed

text \<open>
  One draft per employee and program. \<open>find_existing_escort_draft\<close> returns
  nothing exactly when no draft of the pair is pending, approved or sent, and
  otherwise the largest id of such a draft; after \<open>expire_program_drafts\<close> no draft of
  the pair is pending, and none blocks a new one unless it was approved or sent.
\<close>

theorem escort_draft_guard:
  assumes "\<not> raises e 0" and "\<not> raises e2 0"
  shows "(find_existing_escort_draft e emp prog t = None \<longleftrightarrow> (\<forall>d\<in>set t. \<not> blocks_draft emp prog d))
    \<and> (\<forall>i. find_existing_escort_draft e emp prog t = Some i \<longrightarrow>
        (\<exists>d\<in>set t. df_id d = i \<and> blocks_draft emp prog d) \<and> (\<forall>d\<in>set t. blocks_draft emp prog d \<longrightarrow> df_id d \<le> i))
    \<and> (let t' = snd (expire_program_drafts e2 emp prog t)
       in find_existing_escort_draft e emp prog t' = None \<longleftrightarrow>
          (\<forall>d\<in>set t. blocks_draft emp prog d \<longrightarrow> df_status d = D_pending))"
proof -
  have guard: "find_existing_escort_draft e emp prog u = None \<longleftrightarrow> (\<forall>d\<in>set u. \<not> blocks_draft emp prog d)" for u
  proof -
    have "sort_key (\<lambda>d. - df_id d) (filter (blocks_draft emp prog) u) = [] \<longleftrightarrow> (\<forall>d\<in>set u. \<not> blocks_draft emp prog d)"
      by (metis filter_empty_conv set_empty set_sort)
    then show ?thesis
      using assms(1) by (cases "sort_key (\<lambda>d. - df_id d) (filter (blocks_draft emp prog) u)")
        (simp_all add: find_existing_escort_draft_def)
  qed
  have newest: "(\<exists>d\<in>set t. df_id d = i \<and> blocks_draft emp prog d) \<and> (\<forall>d\<in>set t. blocks_draft emp prog d \<longrightarrow> df_id d \<le> i)"
    if i: "find_existing_escort_draft e emp prog t = Some i" for i
  proof -
    let ?s = "sort_key (\<lambda>d. - df_id d) (filter (blocks_draft emp prog) t)"
    obtain d ds where s: "?s = d # ds" "df_id d = i"
      using i assms(1) by (auto simp: find_existing_escort_draft_def split: list.splits)
    have "set ?s = {d \<in> set t. blocks_draft emp prog d}" by simp
    with s have members: "set (d # ds) = {d \<in> set t. blocks_draft emp prog d}" by simp
    have "sorted (map (\<lambda>d. - df_id d) ?s)" by simp
    with s have "\<forall>x\<in>set ds. df_id x \<le> df_id d" by simp
    with members s(2) show ?thesis by auto
  qed
  have expired: "(\<forall>d\<in>set (snd (expire_program_drafts e2 emp prog t)). \<not> blocks_draft emp prog d) \<longleftrightarrow>
      (\<forall>d\<in>set t. blocks_draft emp prog d \<longrightarrow> df_status d = D_pending)"
    using assms(2) by (auto simp: expire_program_drafts_def Let_def ball_update_where blocks_draft_def)
  show ?thesis using guard [of t] guard [of "snd (expire_program_drafts e2 emp prog t)"] newest expired
    by (simp add: Let_def)
qed

theorem escort_draft_guard_witness:
  "find_existing_escort_draft (env_at 5) 7 3
     (snd (expire_program_drafts (env_at 5) 7 3 [sample_draft 1 D_pending 0, sample_draft 2 D_pending 1])) = None"
proof -
  have ok: "\<not> raises (env_at 5) 0" by simp
  have "\<forall>d\<in>set [sample_draft 1 D_pending 0, sample_draft 2 D_pending 1]. blocks_draft 7 3 d \<longrightarrow> df_status d = D_pending"
    by (simp add: sample_draft_def)
  with escort_draft_guard [OF ok ok, of 7 3 "[sample_draft 1 D_pending 0, sample_draft 2 D_pending 1]"]
  show ?thesis by (simp add: Let_def)
qed

end
