(* ===== verification/Payment_Workflow.thy ===== *)
theory Payment_Workflow
  imports Payment_Drafts Calendar Money
begin

text \<open>
  Payments of escort duty and advances, \<open>modules/payment_workflow/__init__.py\<close>, and the
  command that pays a draft, \<open>_cmd_paid\<close> of \<open>modules/admin_commands/__init__.py\<close>, over the
  tables of employees, escort programs, payment drafts and cash transactions. The texts of a
  draft and the notices sent to the employee are not modelled; a notice never changes a table
  and its errors are swallowed. Statements are numbered by their position in the source;
  a row of \<open>wbom_cash_transactions\<close> that the code inserts without a time has none.
\<close>

datatype draft_type = T_escort_payment | T_advance | T_auto_payment

datatype correction = Is_reversal | Is_adjustment

record pay_draft = draft_row +
  pd_type :: draft_type
  pd_duty_days :: "rat option"
  pd_expected :: rat
  pd_approved :: "rat option"
  pd_method :: "string option"
  pd_admin :: "string option"
  pd_source :: "string option"
    \<comment> \<open>None when an insert leaves the column to its default\<close>
  pd_correction_of :: "int option"
  pd_correction :: "correction option"
  pd_note :: "string option"

record cash_txn =
  ct_id :: int
  ct_employee :: "int option"
  ct_program :: "int option"
  ct_type :: string
  ct_amount :: rat
  ct_method :: "string option"
  ct_date :: date
  ct_time :: "time option"
  ct_reversed :: bool
  ct_reversal_of :: "int option"
  ct_note :: "string option"

record escort_program =
  ep_id :: int
  ep_employee :: "int option"
  ep_vessel :: "string option"
  ep_status :: "string option"
  ep_date :: "date option"
  ep_end :: "date option"
  ep_end_shift :: "string option"
  ep_release_point :: "string option"
  ep_days :: "rat option"
  ep_completed_at :: "date option"
  ep_remarks :: "string option"

record staff =
  st_id :: int
  st_basic :: "rat option"

record pay_db =
  pb_staff :: "staff list"
  pb_programs :: "escort_program list"
  pb_drafts :: "pay_draft list"
  pb_next_draft :: int
  pb_cash :: "cash_txn list"
  pb_next_cash :: int

datatype pay_error = Employee_unknown | Draft_unknown | Pay_exception

definition DEFAULT_DAILY_RATE :: rat where "DEFAULT_DAILY_RATE = 1200"

definition find_staff :: "int \<Rightarrow> pay_db \<Rightarrow> staff option" where
  "find_staff i db = find (\<lambda>s. st_id s = i) (pb_staff db)"

definition find_program :: "int \<Rightarrow> pay_db \<Rightarrow> escort_program option" where
  "find_program i db = find (\<lambda>p. ep_id p = i) (pb_programs db)"

definition find_draft :: "int \<Rightarrow> pay_db \<Rightarrow> pay_draft option" where
  "find_draft i db = find (\<lambda>d. df_id d = i) (pb_drafts db)"

definition truthy :: "rat option \<Rightarrow> rat \<Rightarrow> rat" where
  \<comment> \<open>Python's \<open>x or y\<close> on a number that may be missing\<close>
  "truthy x y = (case x of None \<Rightarrow> y | Some v \<Rightarrow> if v = 0 then y else v)"

definition program_duty_days :: "escort_program \<Rightarrow> rat option" where
  "program_duty_days p =
     (case (ep_date p, case ep_end p of Some d \<Rightarrow> Some d | None \<Rightarrow> ep_completed_at p) of
        (Some s, Some t) \<Rightarrow> Some (max (of_int (toordinal t - toordinal s + 1)) 1)
      | _ \<Rightarrow> None)"

definition duty_days_of :: "rat option \<Rightarrow> escort_program option \<Rightarrow> rat" where
  "duty_days_of override prog =
     (case override of Some d \<Rightarrow> d
      | None \<Rightarrow> (case prog of None \<Rightarrow> 1 | Some p \<Rightarrow> (case program_duty_days p of None \<Rightarrow> 1 | Some d \<Rightarrow> d)))"

definition expected_pay :: "rat \<Rightarrow> staff \<Rightarrow> rat" where
  "expected_pay days s = of_int (round_half_even (days * (truthy (st_basic s) DEFAULT_DAILY_RATE / 30)))"

definition recent_advances :: "int \<Rightarrow> date \<Rightarrow> cash_txn list \<Rightarrow> rat" where
  "recent_advances emp today cash =
     sum_list (map ct_amount (filter (\<lambda>c. ct_employee c = Some emp \<and> ct_type c = ''advance'' \<and>
       toordinal today - 60 \<le> toordinal (ct_date c)) cash))"

definition net_payable :: "rat \<Rightarrow> staff \<Rightarrow> date \<Rightarrow> cash_txn list \<Rightarrow> rat" where
  "net_payable days s today cash = max (expected_pay days s - recent_advances (st_id s) today cash) 0"

definition new_draft ::
  "env \<Rightarrow> draft_type \<Rightarrow> int option \<Rightarrow> int option \<Rightarrow> rat option \<Rightarrow> rat \<Rightarrow> string \<Rightarrow> pay_db \<Rightarrow> int \<times> pay_db" where
  \<comment> \<open>the insert of a pending draft, with the id it returns\<close>
  "new_draft e ty emp prog days expected source db =
     (pb_next_draft db,
      db\<lparr>pb_next_draft := pb_next_draft db + 1,
         pb_drafts := pb_drafts db @
           [\<lparr>df_id = pb_next_draft db, df_employee = emp, df_program = prog, df_status = D_pending, df_created_at = db_now e,
             df_expires_at = None, df_updated_at = db_now e, pd_type = ty, pd_duty_days = days, pd_expected = expected,
             pd_approved = None, pd_method = None, pd_admin = None, pd_source = Some source, pd_correction_of = None,
             pd_correction = None, pd_note = None\<rparr>]\<rparr>)"

definition create_escort_payment_draft ::
  "env \<Rightarrow> date \<Rightarrow> int \<Rightarrow> int option \<Rightarrow> rat option \<Rightarrow> string \<Rightarrow> pay_db \<Rightarrow> (pay_error + int) \<times> pay_db" where
  \<comment> \<open>statement 0 reads the employee, 1 the program, 2 the advances, 3 inserts, 4 puts the id into the text\<close>
  "create_escort_payment_draft e today emp prog override source db =
     (if raises e 0 then (Inl Pay_exception, db)
      else case find_staff emp db of
        None \<Rightarrow> (Inl Employee_unknown, db)
      | Some s \<Rightarrow>
          if prog \<noteq> None \<and> raises e 1 then (Inl Pay_exception, db)
          else let days = duty_days_of override (case prog of None \<Rightarrow> None | Some p \<Rightarrow> find_program p db)
               in if raises e 2 \<or> raises e 3 then (Inl Pay_exception, db)
                  else let (i, db1) = new_draft e T_escort_payment (Some emp) prog (Some days)
                             (net_payable days s today (pb_cash db)) source db
                       in if raises e 4 then (Inl Pay_exception, db1) else (Inr i, db1))"

definition create_advance_request_draft ::
  "env \<Rightarrow> int \<Rightarrow> rat option \<Rightarrow> string \<Rightarrow> pay_db \<Rightarrow> (pay_error + int) \<times> pay_db" where
  \<comment> \<open>statements 1 and 2 read the figures of the month, which only go into the text\<close>
  "create_advance_request_draft e emp requested source db =
     (if raises e 0 then (Inl Pay_exception, db)
      else if find_staff emp db = None then (Inl Employee_unknown, db)
      else if raises e 1 \<or> raises e 2 \<or> raises e 3 then (Inl Pay_exception, db)
      else let (i, db1) = new_draft e T_advance (Some emp) None None (truthy requested 0) source db
           in if raises e 4 then (Inl Pay_exception, db1) else (Inr i, db1))"

definition txn_type :: "pay_draft \<Rightarrow> string" where
  "txn_type d = (if pd_type d = T_advance then ''advance'' else ''escort_payment'')"

definition add_cash ::
  "int option \<Rightarrow> int option \<Rightarrow> string \<Rightarrow> rat \<Rightarrow> string option \<Rightarrow> date \<Rightarrow> time option \<Rightarrow> int option \<Rightarrow> string option \<Rightarrow> pay_db \<Rightarrow> int \<times> pay_db" where
  "add_cash emp prog ty amount meth today t reversal_of note db =
     (pb_next_cash db,
      db\<lparr>pb_next_cash := pb_next_cash db + 1,
         pb_cash := pb_cash db @
           [\<lparr>ct_id = pb_next_cash db, ct_employee = emp, ct_program = prog, ct_type = ty, ct_amount = amount, ct_method = meth,
             ct_date = today, ct_time = t, ct_reversed = False, ct_reversal_of = reversal_of, ct_note = note\<rparr>]\<rparr>)"

definition update_draft :: "int \<Rightarrow> (pay_draft \<Rightarrow> pay_draft) \<Rightarrow> pay_db \<Rightarrow> pay_db" where
  "update_draft i f db = db\<lparr>pb_drafts := update_where (\<lambda>d. df_id d = i) f (pb_drafts db)\<rparr>"

definition finalize_payment :: "env \<Rightarrow> date \<Rightarrow> int \<Rightarrow> rat \<Rightarrow> string \<Rightarrow> pay_db \<Rightarrow> (pay_error + unit) \<times> pay_db" where
  "finalize_payment e today i amount meth db =
     (if raises e 0 then (Inl Pay_exception, db)
      else case find_draft i db of
        None \<Rightarrow> (Inl Draft_unknown, db)
      | Some d \<Rightarrow>
          if raises e 1 then (Inl Pay_exception, db)
          else let db1 = snd (add_cash (df_employee d) None (txn_type d) amount (Some meth) today None None None db)
               in if raises e 2 then (Inl Pay_exception, db1)
                  else (Inr (), update_draft i (\<lambda>d. d\<lparr>df_status := D_sent, df_updated_at := db_now e\<rparr>) db1))"

definition cmd_paid :: "env \<Rightarrow> env \<Rightarrow> date \<Rightarrow> int \<Rightarrow> rat \<Rightarrow> string \<Rightarrow> string \<Rightarrow> pay_db \<Rightarrow> (pay_error + unit) \<times> pay_db" where
  \<comment> \<open>\<open>PAID\<close> and \<open>ADVANCE\<close>; the second environment is the one of \<open>finalize_payment\<close>, whose failure does not stop the command\<close>
  "cmd_paid e ef today i amount meth admin db =
     (if raises e 0 then (Inl Pay_exception, db)
      else case find_draft i db of
        None \<Rightarrow> (Inl Draft_unknown, db)
      | Some d \<Rightarrow>
          let db1 = snd (finalize_payment ef today i amount meth db)
          in if raises e 1 then (Inl Pay_exception, db1)
             else (Inr (), update_draft i (\<lambda>d. d\<lparr>df_status := D_approved, pd_approved := Some amount, pd_method := Some meth,
                            pd_admin := Some admin, df_updated_at := db_now e\<rparr>) db1))"

subsection \<open>What a draft is worth\<close>

lemma update_draft_simps [simp]:
  "pb_cash (update_draft i f db) = pb_cash db" "pb_programs (update_draft i f db) = pb_programs db"
  "pb_staff (update_draft i f db) = pb_staff db" "pb_next_draft (update_draft i f db) = pb_next_draft db"
  by (simp_all add: update_draft_def)

lemma add_cash_simps [simp]:
  "pb_drafts (snd (add_cash emp prog ty a m today t r n db)) = pb_drafts db"
  "pb_programs (snd (add_cash emp prog ty a m today t r n db)) = pb_programs db"
  "pb_staff (snd (add_cash emp prog ty a m today t r n db)) = pb_staff db"
  by (simp_all add: add_cash_def)

lemma find_draft_update:
  assumes "\<And>d. df_id (f d) = df_id d"
  shows "find_draft j (update_draft i f db) = map_option (\<lambda>d. if df_id d = i then f d else d) (find_draft j db)"
  by (simp add: find_draft_def update_draft_def find_update_where_key assms)

lemma find_draft_id: "find_draft j db = Some d \<Longrightarrow> df_id d = j"
  by (auto simp: find_draft_def dest: find_Some_mem)

lemma find_draft_add_cash [simp]: "find_draft j (snd (add_cash emp prog ty a m today t r n db)) = find_draft j db"
  by (simp add: find_draft_def)

lemma find_staff_id: "find_staff i db = Some s \<Longrightarrow> st_id s = i"
  by (auto simp: find_staff_def dest: find_Some_mem)

text \<open>
  The amount of an escort draft. When the database answers and the employee exists,
  \<open>create_escort_payment_draft\<close> adds exactly one draft, pending, under the id it returns, and changes
  nothing else. Its amount is the days times a thirtieth of the basic salary (1200 when there is none),
  rounded to whole taka, less the advances of the last sixty days, and never below zero; the rounded
  pay is within half a taka of the exact one.
\<close>

theorem escort_draft_amount:
  assumes "db_ok e" and "find_staff emp db = Some s"
  shows "case create_escort_payment_draft e today emp prog override source db of (r, db') \<Rightarrow>
    r = Inr (pb_next_draft db)
    \<and> (\<exists>d days. pb_drafts db' = pb_drafts db @ [d] \<and> df_id d = pb_next_draft db \<and> df_status d = D_pending
        \<and> df_employee d = Some emp \<and> df_program d = prog \<and> pd_type d = T_escort_payment \<and> pd_duty_days d = Some days
        \<and> days = duty_days_of override (case prog of None \<Rightarrow> None | Some p \<Rightarrow> find_program p db)
        \<and> pd_expected d = max (expected_pay days s - recent_advances emp today (pb_cash db)) 0
        \<and> \<bar>expected_pay days s - days * (truthy (st_basic s) 1200 / 30)\<bar> \<le> 1 / 2)
    \<and> pb_cash db' = pb_cash db \<and> pb_programs db' = pb_programs db \<and> pb_staff db' = pb_staff db"
proof -
  let ?days = "duty_days_of override (case prog of None \<Rightarrow> None | Some p \<Rightarrow> find_program p db)"
  have near: "\<bar>expected_pay ?days s - ?days * (truthy (st_basic s) 1200 / 30)\<bar> \<le> 1 / 2"
    using round_half_even_near by (simp add: expected_pay_def DEFAULT_DAILY_RATE_def)
  show ?thesis
    using near find_staff_id [OF assms(2)]
    by (simp add: create_escort_payment_draft_def db_ok_raises [OF assms(1)] assms(2) new_draft_def net_payable_def Let_def)
qed

subsection \<open>What is paid\<close>

definition paid_entry :: "cash_txn \<Rightarrow> int option \<times> string \<times> rat \<times> string option" where
  "paid_entry c = (ct_employee c, ct_type c, ct_amount c, ct_method c)"

definition pay_all :: "env \<Rightarrow> env \<Rightarrow> date \<Rightarrow> int \<Rightarrow> string \<Rightarrow> (rat \<times> string) list \<Rightarrow> pay_db \<Rightarrow> pay_db" where
  "pay_all e ef today i admin pays db = fold (\<lambda>(a, m) db. snd (cmd_paid e ef today i a m admin db)) pays db"

lemma cmd_paid_ok:
  assumes "db_ok e" "db_ok ef" "find_draft i db = Some d"
  shows "fst (cmd_paid e ef today i a m admin db) = Inr ()"
    and "map paid_entry (pb_cash (snd (cmd_paid e ef today i a m admin db))) =
      map paid_entry (pb_cash db) @ [(df_employee d, txn_type d, a, Some m)]"
    and "\<exists>d'. find_draft i (snd (cmd_paid e ef today i a m admin db)) = Some d' \<and> df_status d' = D_approved
      \<and> pd_approved d' = Some a \<and> df_employee d' = df_employee d \<and> pd_type d' = pd_type d"
  using find_draft_id [OF assms(3)]
  by (simp_all add: cmd_paid_def finalize_payment_def db_ok_raises [OF assms(1)] db_ok_raises [OF assms(2)] assms(3)
      Let_def find_draft_update) (simp_all add: add_cash_def paid_entry_def)

text \<open>
  Every \<open>PAID\<close> command pays. However many times an admin pays a draft, each command records
  one cash transaction for the draft's employee, of the draft's type, with the amount and the method
  given, after those that were there, and the draft is approved with the last amount. The code does
  not look at the status of the draft, so a second \<open>PAID\<close> for the same draft pays it a second time.
\<close>

theorem paid_records_each:
  assumes "db_ok e" and "db_ok ef" and "find_draft i db = Some d" and "pays \<noteq> []"
  shows "map paid_entry (pb_cash (pay_all e ef today i admin pays db)) =
      map paid_entry (pb_cash db) @ map (\<lambda>(a, m). (df_employee d, txn_type d, a, Some m)) pays
    \<and> (\<exists>d'. find_draft i (pay_all e ef today i admin pays db) = Some d' \<and> df_status d' = D_approved
        \<and> pd_approved d' = Some (fst (last pays)))"
  using assms(3,4)
proof (induction pays arbitrary: db d)
  case Nil
  then show ?case by simp
next
  case (Cons x pays)
  obtain a m where x: "x = (a, m)" by (cases x)
  let ?db = "snd (cmd_paid e ef today i a m admin db)"
  have run: "pay_all e ef today i admin (x # pays) db = pay_all e ef today i admin pays ?db" by (simp add: pay_all_def x)
  have cash: "map paid_entry (pb_cash ?db) = map paid_entry (pb_cash db) @ [(df_employee d, txn_type d, a, Some m)]"
    by (rule cmd_paid_ok(2) [OF assms(1,2) Cons.prems(1)])
  obtain d' where d': "find_draft i ?db = Some d'" "df_status d' = D_approved" "pd_approved d' = Some a"
      "df_employee d' = df_employee d" "pd_type d' = pd_type d"
    using cmd_paid_ok(3) [OF assms(1,2) Cons.prems(1), of today a m admin] by blast
  show ?case
  proof (cases "pays = []")
    case True
    then show ?thesis unfolding run using cash d' by (simp add: pay_all_def x)
  next
    case False
    have "txn_type d' = txn_type d" using d'(5) by (simp add: txn_type_def)
    with Cons.IH [OF d'(1) False] cash d'(4) False show ?thesis unfolding run by (simp add: x)
  qed
qed

definition sample_pay :: pay_db where
  "sample_pay = \<lparr>pb_staff = [\<lparr>st_id = 4, st_basic = Some 15000\<rparr>], pb_programs = [], pb_drafts = [], pb_next_draft = 11,
     pb_cash = [\<lparr>ct_id = 1, ct_employee = Some 4, ct_program = None, ct_type = ''advance'', ct_amount = 500, ct_method = Some ''cash'',
       ct_date = Date 2026 5 20, ct_time = None, ct_reversed = False, ct_reversal_of = None, ct_note = None\<rparr>], pb_next_cash = 2\<rparr>"

definition sample_drafted :: pay_db where
  "sample_drafted = snd (create_escort_payment_draft (env_at 5) (Date 2026 6 1) 4 None (Some 3) ''bridge1'' sample_pay)"

lemma sample_staff: "find_staff 4 sample_pay = Some \<lparr>st_id = 4, st_basic = Some 15000\<rparr>"
  by (simp add: find_staff_def sample_pay_def)

theorem escort_draft_amount_witness:
  "map pd_expected (pb_drafts sample_drafted) = [1000]"
proof -
  have "expected_pay 3 \<lparr>st_id = 4, st_basic = Some 15000\<rparr> = 1500"
    by (simp add: expected_pay_def truthy_def round_half_even_def)
  moreover have "recent_advances 4 (Date 2026 6 1) (pb_cash sample_pay) = 500"
    by (simp add: recent_advances_def sample_pay_def toordinal_def days_before_year_def days_before_month_def is_leap_def)
  moreover have "pb_drafts sample_pay = []" by (simp add: sample_pay_def)
  ultimately show ?thesis
    using escort_draft_amount [OF db_ok_env_at [of 5] sample_staff,
        where today = "Date 2026 6 1" and prog = None and override = "Some 3" and source = "''bridge1''"]
    by (auto simp: sample_drafted_def duty_days_of_def split_def)
qed

lemma sample_draft_found:
  "\<exists>d. find_draft 11 sample_drafted = Some d \<and> df_employee d = Some 4 \<and> pd_type d = T_escort_payment \<and> pd_correction d = None"
  "map paid_entry (pb_cash sample_drafted) = [(Some 4, ''advance'', 500, Some ''cash'')]"
proof -
  have f: "pb_next_draft sample_pay = 11" "pb_drafts sample_pay = []"
      "map paid_entry (pb_cash sample_pay) = [(Some 4, ''advance'', 500, Some ''cash'')]"
    by (simp_all add: sample_pay_def paid_entry_def)
  show "map paid_entry (pb_cash sample_drafted) = [(Some 4, ''advance'', 500, Some ''cash'')]"
    using f by (simp add: sample_drafted_def create_escort_payment_draft_def sample_staff new_draft_def Let_def)
  have "\<exists>d. pb_drafts sample_drafted = [d] \<and> df_id d = 11 \<and> df_employee d = Some 4 \<and> pd_type d = T_escort_payment
      \<and> pd_correction d = None"
    using f by (simp add: sample_drafted_def create_escort_payment_draft_def sample_staff new_draft_def Let_def)
  then show "\<exists>d. find_draft 11 sample_drafted = Some d \<and> df_employee d = Some 4 \<and> pd_type d = T_escort_payment \<and> pd_correction d = None"
    by (auto simp: find_draft_def)
qed

theorem paid_records_each_witness:
  "map paid_entry (pb_cash (pay_all (env_at 6) (env_at 6) (Date 2026 6 2) 11 ''boss'' [(1000, ''bkash''), (1000, ''bkash'')] sample_drafted)) =
     [(Some 4, ''advance'', 500, Some ''cash''), (Some 4, ''escort_payment'', 1000, Some ''bkash''),
      (Some 4, ''escort_payment'', 1000, Some ''bkash'')]"
proof -
  obtain d where d: "find_draft 11 sample_drafted = Some d" "df_employee d = Some 4" "pd_type d = T_escort_payment"
    using sample_draft_found(1) by blast
  then show ?thesis
    using paid_records_each [OF db_ok_env_at [of 6] db_ok_env_at [of 6] d(1), of "[(1000, ''bkash''), (1000, ''bkash'')]"
        "Date 2026 6 2" "''boss''"]
    by (simp add: txn_type_def sample_draft_found(2))
qed

end
