(* ===== verification/Escort_Lifecycle.thy ===== *)
theory Escort_Lifecycle
  imports Payment_Workflow Roster_Calc
begin

text \<open>
  The end of an escort duty, \<open>modules/escort_lifecycle/__init__.py\<close>: closing the program,
  filling in the attendance day by day, and drafting the payment, for a release that an
  employee reports (\<open>handle_release_event\<close>) and for the admin's \<open>RELEASE\<close> command
  (\<open>_cmd_release\<close> of \<open>modules/admin_commands/__init__.py\<close>). The fields read from a slip come
  parsed: a date or a number that cannot be parsed is missing. Each of the operations a handler
  calls runs in an environment of its own; an exception of closing or of the attendance leaves the
  handler, one of the draft is its result. The review drafts made from scanned slips are text for
  the admin and are not modelled.
\<close>

record attendance_row =
  aw_employee :: int
  aw_date :: date
  aw_status :: string
  aw_location :: string
  aw_by :: string

record life_db =
  lf_pay :: pay_db
  lf_attendance :: "attendance_row list"

datatype life_error = Life_exception

subsection \<open>Programs\<close>

definition is_active_program :: "int \<Rightarrow> date \<Rightarrow> escort_program \<Rightarrow> bool" where
  "is_active_program emp ref p \<longleftrightarrow> ep_employee p = Some emp \<and>
     (case ep_status p of None \<Rightarrow> '''' | Some s \<Rightarrow> s) \<notin> {''Completed'', ''Cancelled''} \<and>
     (case ep_date p of None \<Rightarrow> False | Some d \<Rightarrow> date_le d ref)"

definition program_ordinal :: "escort_program \<Rightarrow> int" where
  "program_ordinal p = (case ep_date p of None \<Rightarrow> 0 | Some d \<Rightarrow> toordinal d)"

definition find_active_program_for_employee :: "int \<Rightarrow> date \<Rightarrow> pay_db \<Rightarrow> escort_program option" where
  "find_active_program_for_employee emp ref db =
     (case sort_key (\<lambda>p. - program_ordinal p) (sort_key (\<lambda>p. - ep_id p) (filter (is_active_program emp ref) (pb_programs db))) of
        [] \<Rightarrow> None | p # _ \<Rightarrow> Some p)"

definition find_existing_draft_for_program :: "int \<Rightarrow> pay_db \<Rightarrow> int option" where
  "find_existing_draft_for_program i db =
     (case sort_key (\<lambda>d. - df_id d) (filter (\<lambda>d. df_program d = Some i) (pb_drafts db)) of
        [] \<Rightarrow> None | d # _ \<Rightarrow> Some (df_id d))"

definition status_completed :: "escort_program \<Rightarrow> bool" where
  "status_completed p \<longleftrightarrow> py_lower (case ep_status p of None \<Rightarrow> '''' | Some s \<Rightarrow> s) = ''completed''"

definition closing_days :: "rat option \<Rightarrow> date \<Rightarrow> escort_program \<Rightarrow> rat" where
  "closing_days day_count end_date p =
     (case day_count of Some d \<Rightarrow> d
      | None \<Rightarrow> (case ep_date p of None \<Rightarrow> 1 | Some s \<Rightarrow> of_int (max (toordinal end_date - toordinal s + 1) 1)))"

definition update_program :: "int \<Rightarrow> (escort_program \<Rightarrow> escort_program) \<Rightarrow> pay_db \<Rightarrow> pay_db" where
  "update_program i f db = db\<lparr>pb_programs := update_where (\<lambda>p. ep_id p = i) f (pb_programs db)\<rparr>"

datatype close_result = Program_unknown | Already_completed rat | Completed_now rat

definition complete_program :: "date \<Rightarrow> date \<Rightarrow> string \<Rightarrow> string option \<Rightarrow> rat \<Rightarrow> string \<Rightarrow> escort_program \<Rightarrow> escort_program" where
  "complete_program today end_date end_shift release_point days by_whom p =
     p\<lparr>ep_status := Some ''Completed'', ep_completed_at := Some today, ep_end := Some end_date,
       ep_end_shift := Some (shift_default ''D'' end_shift),
       ep_release_point := (case release_point of None \<Rightarrow> ep_release_point p | Some r \<Rightarrow> Some r),
       ep_days := Some days,
       ep_remarks := Some ((case ep_remarks p of None \<Rightarrow> '''' | Some r \<Rightarrow> r) @ '' | b13-closed-by:'' @ by_whom)\<rparr>"

definition close_program ::
  "env \<Rightarrow> date \<Rightarrow> int \<Rightarrow> date \<Rightarrow> string \<Rightarrow> string option \<Rightarrow> rat option \<Rightarrow> string \<Rightarrow> pay_db
    \<Rightarrow> (life_error + close_result) \<times> pay_db" where
  \<comment> \<open>statement 0 reads the program, 1 closes it; the completion time is kept as its day\<close>
  "close_program e today i end_date end_shift release_point day_count by_whom db =
     (if raises e 0 then (Inl Life_exception, db)
      else case find_program i db of
        None \<Rightarrow> (Inr Program_unknown, db)
      | Some p \<Rightarrow>
          if status_completed p then (Inr (Already_completed (truthy (ep_days p) 0)), db)
          else if raises e 1 then (Inl Life_exception, db)
          else let days = closing_days day_count end_date p
               in (Inr (Completed_now days),
                   update_program i (complete_program today end_date end_shift release_point days by_whom) db))"

subsection \<open>Attendance\<close>

definition attended :: "int \<Rightarrow> date \<Rightarrow> attendance_row list \<Rightarrow> bool" where
  "attended emp d t = has_row (\<lambda>a. aw_employee a = emp \<and> aw_date a = d) t"

definition present_row :: "int \<Rightarrow> string \<Rightarrow> date \<Rightarrow> attendance_row" where
  "present_row emp loc d = \<lparr>aw_employee = emp, aw_date = d, aw_status = ''Present'', aw_location = loc, aw_by = ''escort-lifecycle''\<rparr>"

function backfill_loop ::
  "env \<Rightarrow> nat \<Rightarrow> int \<Rightarrow> string \<Rightarrow> date \<Rightarrow> date \<Rightarrow> nat \<Rightarrow> attendance_row list \<Rightarrow> (life_error + nat) \<times> attendance_row list" where
  \<comment> \<open>the loop from \<open>cur\<close> to \<open>stop\<close>, with the inserts counted so far; a date of Python is valid\<close>
  "backfill_loop e k emp loc cur stop n t =
     (if valid_date cur \<and> valid_date stop \<and> date_le cur stop
      then if raises e k then (Inl Life_exception, t)
           else if attended emp cur t then backfill_loop e (k + 1) emp loc (next_day cur) stop n t
           else backfill_loop e (k + 1) emp loc (next_day cur) stop (n + 1) (t @ [present_row emp loc cur])
      else (Inr n, t))"
  by pat_completeness auto
termination
  by (relation "measure (\<lambda>(e, k, emp, loc, cur, stop, n, t). nat (toordinal stop + 1 - toordinal cur))")
    (auto simp: toordinal_next_day date_le_def date_less_iff)

declare backfill_loop.simps [simp del]

definition backfill_attendance_for_program :: "env \<Rightarrow> int \<Rightarrow> life_db \<Rightarrow> (life_error + nat) \<times> life_db" where
  "backfill_attendance_for_program e i db =
     (if raises e 0 then (Inl Life_exception, db)
      else case find_program i (lf_pay db) of
        None \<Rightarrow> (Inr 0, db)
      | Some p \<Rightarrow>
          (case (ep_employee p, ep_date p) of
             (Some emp, Some start) \<Rightarrow>
               let stop = (case ep_end p of None \<Rightarrow> start | Some d \<Rightarrow> if date_less d start then start else d);
                   loc = (case ep_vessel p of None \<Rightarrow> ''Escort Duty'' | Some v \<Rightarrow> if v = '''' then ''Escort Duty'' else v);
                   (r, t) = backfill_loop e 1 emp loc start stop 0 (lf_attendance db)
               in (r, db\<lparr>lf_attendance := t\<rparr>)
           | _ \<Rightarrow> (Inr 0, db)))"

subsection \<open>Release\<close>

record release_env =
  re_today :: date
  re_find :: env
  re_close :: env
  re_fill :: env
  re_lookup :: env
  re_draft :: env

datatype day_entry =
  \<comment> \<open>a number, or a text that is not empty with what \<open>float\<close> reads in it; an empty text is like no entry\<close>
  Day_number rat
| Day_text "rat option"

record slip_fields =
  sf_end_date :: "date option"
  sf_end_shift :: "string option"
  sf_shift :: "string option"
  sf_release_point :: "string option"
  sf_location :: "string option"
  sf_day_count :: "day_entry option"
  sf_days :: "day_entry option"

definition slip_days :: "slip_fields \<Rightarrow> rat option" where
  \<comment> \<open>the first entry that is true, as a number, or nothing when it is none\<close>
  "slip_days sf =
     (case if sf_day_count sf = None \<or> sf_day_count sf = Some (Day_number 0) then sf_days sf else sf_day_count sf of
        None \<Rightarrow> None
      | Some (Day_number d) \<Rightarrow> Some d
      | Some (Day_text v) \<Rightarrow> v)"

datatype release_result =
  No_active_program
| Close_failed
| Was_closed int rat nat "int option"
| Closed int rat nat "pay_error + int"

definition after_close ::
  "release_env \<Rightarrow> int \<Rightarrow> int \<Rightarrow> close_result \<Rightarrow> string \<Rightarrow> life_db \<Rightarrow> (life_error + release_result) \<times> life_db" where
  \<comment> \<open>the attendance, then the draft, or the draft there is; shared by the two callers\<close>
  "after_close rv emp i outcome source db =
     (case outcome of
        Program_unknown \<Rightarrow> (Inr Close_failed, db)
      | Already_completed days \<Rightarrow>
          (case backfill_attendance_for_program (re_fill rv) i db of
             (Inl x, db1) \<Rightarrow> (Inl x, db1)
           | (Inr n, db1) \<Rightarrow>
               if raises (re_lookup rv) 0 then (Inl Life_exception, db1)
               else (Inr (Was_closed i days n (find_existing_draft_for_program i (lf_pay db1))), db1))
      | Completed_now days \<Rightarrow>
          (case backfill_attendance_for_program (re_fill rv) i db of
             (Inl x, db1) \<Rightarrow> (Inl x, db1)
           | (Inr n, db1) \<Rightarrow>
               (case create_escort_payment_draft (re_draft rv) (re_today rv) emp (Some i) (Some days) source (lf_pay db1) of
                  (r, pay) \<Rightarrow> (Inr (Closed i days n r), db1\<lparr>lf_pay := pay\<rparr>))))"

definition handle_release_event ::
  "release_env \<Rightarrow> int \<Rightarrow> slip_fields \<Rightarrow> string \<Rightarrow> life_db \<Rightarrow> (life_error + release_result) \<times> life_db" where
  "handle_release_event rv emp sf source db =
     (if raises (re_find rv) 0 then (Inl Life_exception, db)
      else case find_active_program_for_employee emp (re_today rv) (lf_pay db) of
        None \<Rightarrow> (Inr No_active_program, db)
      | Some p \<Rightarrow>
          (let end_date = (case sf_end_date sf of None \<Rightarrow> re_today rv | Some d \<Rightarrow> d);
               end_shift = (case py_or (py_or (sf_end_shift sf) (sf_shift sf)) None of None \<Rightarrow> ''D'' | Some s \<Rightarrow> s);
               release_point = py_or (sf_release_point sf) (sf_location sf);
               days = slip_days sf
           in case close_program (re_close rv) (re_today rv) (ep_id p) end_date end_shift release_point days source (lf_pay db) of
                (Inl x, pay) \<Rightarrow> (Inl x, db\<lparr>lf_pay := pay\<rparr>)
              | (Inr c, pay) \<Rightarrow> after_close rv emp (ep_id p) c source (db\<lparr>lf_pay := pay\<rparr>)))"

datatype command_result = Released "life_error + release_result" | No_program | No_escort

definition cmd_release ::
  "release_env \<Rightarrow> int \<Rightarrow> date \<Rightarrow> string \<Rightarrow> string \<Rightarrow> rat option \<Rightarrow> string \<Rightarrow> life_db \<Rightarrow> command_result \<times> life_db" where
  "cmd_release rv i end_date end_shift release_point days admin db =
     (if raises (re_find rv) 0 then (Released (Inl Life_exception), db)
      else case find_program i (lf_pay db) of
        None \<Rightarrow> (No_program, db)
      | Some p \<Rightarrow>
          (case ep_employee p of
             None \<Rightarrow> (No_escort, db)
           | Some emp \<Rightarrow>
               (case close_program (re_close rv) (re_today rv) i end_date end_shift (Some release_point) days (''admin:'' @ admin)
                       (lf_pay db) of
                  (Inl x, pay) \<Rightarrow> (Released (Inl x), db\<lparr>lf_pay := pay\<rparr>)
                | (Inr c, pay) \<Rightarrow>
                    (case after_close rv emp i c (''admin-release:'' @ admin) (db\<lparr>lf_pay := pay\<rparr>) of
                       (r, db1) \<Rightarrow> (Released r, db1)))))"

subsection \<open>The attendance loop\<close>

lemma date_le_iff: "valid_date a \<Longrightarrow> valid_date b \<Longrightarrow> date_le a b \<longleftrightarrow> toordinal a \<le> toordinal b"
  using toordinal_inj by (fastforce simp: date_le_def date_less_iff)

lemma date_le_step:
  assumes "valid_date cur" "valid_date d"
  shows "date_le cur d \<longleftrightarrow> d = cur \<or> date_le (next_day cur) d"
  using assms toordinal_inj [of cur d]
  by (auto simp: date_le_iff valid_next_day toordinal_next_day)

lemma next_day_not_le:
  assumes "valid_date cur"
  shows "\<not> date_le (next_day cur) cur"
  using assms by (simp add: date_le_iff valid_next_day toordinal_next_day)

definition days_to_add :: "int \<Rightarrow> date \<Rightarrow> date \<Rightarrow> attendance_row list \<Rightarrow> date set" where
  "days_to_add emp cur stop t = {d. valid_date d \<and> date_le cur d \<and> date_le d stop \<and> \<not> attended emp d t}"

lemma attended_append [simp]: "attended emp d (s @ t) \<longleftrightarrow> attended emp d s \<or> attended emp d t"
  by (simp add: attended_def has_row_def)

lemma attended_present [simp]: "attended emp d (map (present_row emp' loc) ds) \<longleftrightarrow> emp' = emp \<and> d \<in> set ds"
  by (auto simp: attended_def has_row_iff present_row_def)

lemma attended_present_one [simp]: "attended emp d [present_row emp' loc d'] \<longleftrightarrow> emp' = emp \<and> d' = d"
  by (simp add: attended_def has_row_def present_row_def)

lemma backfill_loop_adds:
  assumes "\<And>n. \<not> raises e n" "valid_date cur" "valid_date stop"
  shows "\<exists>new. backfill_loop e k emp loc cur stop n t = (Inr (n + length new), t @ map (present_row emp loc) new)
    \<and> distinct new \<and> set new = days_to_add emp cur stop t"
  using assms
proof (induction e k emp loc cur stop n t rule: backfill_loop.induct)
  case (1 e k emp loc cur stop n t)
  note step = backfill_loop.simps [of e k emp loc cur stop n t]
  show ?case
  proof (cases "date_le cur stop")
    case False
    have "days_to_add emp cur stop t = {}"
      using False "1.prems"(2,3) by (auto simp: days_to_add_def date_le_iff)
    then show ?thesis using False by (simp add: step)
  next
    case le: True
    have vn: "valid_date (next_day cur)" using "1.prems"(2) by (rule valid_next_day)
    show ?thesis
    proof (cases "attended emp cur t")
      case True
      have "days_to_add emp cur stop t = days_to_add emp (next_day cur) stop t"
        using True "1.prems"(2) by (auto simp: days_to_add_def date_le_step [of cur])
      then show ?thesis using "1.IH"(1) "1.prems" le True vn by (simp add: step)
    next
      case False
      obtain new where new: "backfill_loop e (k + 1) emp loc (next_day cur) stop (n + 1) (t @ [present_row emp loc cur]) =
          (Inr (n + 1 + length new), (t @ [present_row emp loc cur]) @ map (present_row emp loc) new)" "distinct new"
          "set new = days_to_add emp (next_day cur) stop (t @ [present_row emp loc cur])"
        using "1.IH"(2) "1.prems" le False vn by blast
      have "days_to_add emp cur stop t = insert cur (set new)"
        using False le "1.prems"(2) next_day_not_le [OF "1.prems"(2)]
        by (auto simp: new(3) days_to_add_def date_le_step [of cur])
      moreover have "cur \<notin> set new" by (auto simp: new(3) days_to_add_def)
      ultimately show ?thesis
        using new le False "1.prems" by (intro exI [of _ "cur # new"]) (simp add: step)
    qed
  qed
qed

lemma backfill_loop_full:
  assumes "\<And>n. \<not> raises e n" "valid_date cur" "valid_date stop" "days_to_add emp cur stop t = {}"
  shows "backfill_loop e k emp loc cur stop n t = (Inr n, t)"
  using backfill_loop_adds [OF assms(1-3), of k emp loc n t] assms(4) by auto

definition last_day :: "escort_program \<Rightarrow> date \<Rightarrow> date" where
  "last_day p start = (case ep_end p of None \<Rightarrow> start | Some d \<Rightarrow> if date_less d start then start else d)"

definition attendance_keys :: "attendance_row list \<Rightarrow> (int \<times> date) list" where
  "attendance_keys t = map (\<lambda>a. (aw_employee a, aw_date a)) t"

text \<open>
  C36: The attendance loop ends and fills in every day. For a program with an employee and a first
  day, \<open>backfill_attendance_for_program\<close> returns, and afterwards the employee is present on exactly the
  days it was before and every day from the first to the last one (the first when the recorded end
  lies before it). It adds one row for each missing day and returns their number, keeps every row
  there was, and never makes two rows for one employee and day; run again it adds nothing.
\<close>

theorem backfill_every_day:
  assumes "db_ok e" and "find_program i (lf_pay db) = Some p" and "ep_employee p = Some emp" and "ep_date p = Some start"
    and "valid_date start" and "valid_date (last_day p start)"
  shows "\<exists>new. backfill_attendance_for_program e i db = (Inr (length new), db\<lparr>lf_attendance := lf_attendance db @ new\<rparr>)
    \<and> (\<forall>d. attended emp d (lf_attendance db @ new) \<longleftrightarrow>
         attended emp d (lf_attendance db) \<or> valid_date d \<and> date_le start d \<and> date_le d (last_day p start))
    \<and> list_all (\<lambda>a. aw_employee a = emp \<and> aw_status a = ''Present'') new
    \<and> (distinct (attendance_keys (lf_attendance db)) \<longrightarrow> distinct (attendance_keys (lf_attendance db @ new)))
    \<and> backfill_attendance_for_program e i (db\<lparr>lf_attendance := lf_attendance db @ new\<rparr>) =
        (Inr 0, db\<lparr>lf_attendance := lf_attendance db @ new\<rparr>)"
proof -
  have q: "\<And>n. \<not> raises e n" using assms(1) by (simp add: db_ok_def)
  define loc where "loc = (case ep_vessel p of None \<Rightarrow> ''Escort Duty'' | Some v \<Rightarrow> if v = '''' then ''Escort Duty'' else v)"
  let ?t = "lf_attendance db" and ?stop = "last_day p start"
  have run: "backfill_attendance_for_program e i (db\<lparr>lf_attendance := t\<rparr>) =
      (case backfill_loop e 1 emp loc start ?stop 0 t of (r, t') \<Rightarrow> (r, db\<lparr>lf_attendance := t'\<rparr>))" for t
    using assms(2-4) q by (simp add: backfill_attendance_for_program_def loc_def last_day_def Let_def split_def)
  obtain ds where ds: "backfill_loop e 1 emp loc start ?stop 0 ?t = (Inr (length ds), ?t @ map (present_row emp loc) ds)"
      "distinct ds" "set ds = days_to_add emp start ?stop ?t"
    using backfill_loop_adds [OF q assms(5,6), of 1 emp loc 0 ?t] by auto
  let ?new = "map (present_row emp loc) ds"
  have "days_to_add emp start ?stop (?t @ ?new) = {}" by (auto simp: days_to_add_def ds(3))
  then have again: "backfill_loop e 1 emp loc start ?stop 0 (?t @ ?new) = (Inr 0, ?t @ ?new)"
    using backfill_loop_full [OF q assms(5,6)] by blast
  have "distinct (attendance_keys (?t @ ?new))" if "distinct (attendance_keys ?t)"
  proof -
    have "(emp, d) \<notin> set (attendance_keys ?t)" if "d \<in> set ds" for d
      using that by (auto simp: ds(3) days_to_add_def attended_def has_row_iff attendance_keys_def)
    moreover have "attendance_keys ?new = map (Pair emp) ds" by (simp add: attendance_keys_def present_row_def comp_def)
    ultimately show ?thesis
      using that ds(2) by (auto simp: attendance_keys_def distinct_map inj_on_def)
  qed
  moreover have "attended emp d (?t @ ?new) \<longleftrightarrow> attended emp d ?t \<or> valid_date d \<and> date_le start d \<and> date_le d ?stop" for d
    by (auto simp: ds(3) days_to_add_def)
  moreover have "list_all (\<lambda>a. aw_employee a = emp \<and> aw_status a = ''Present'') ?new"
    by (simp add: list_all_iff present_row_def)
  ultimately show ?thesis
    using run [of ?t] run [of "?t @ ?new"] ds(1) again by (intro exI [of _ ?new]) simp
qed

subsection \<open>At most one draft for a program\<close>

definition drafts_of :: "int \<Rightarrow> pay_db \<Rightarrow> nat" where
  "drafts_of i db = count_where (\<lambda>d. df_program d = Some i) (pb_drafts db)"

definition open_program :: "int \<Rightarrow> pay_db \<Rightarrow> bool" where
  "open_program i db = (case find_program i db of None \<Rightarrow> False | Some p \<Rightarrow> \<not> status_completed p)"

definition draft_budget :: "int \<Rightarrow> pay_db \<Rightarrow> nat" where
  "draft_budget i db = drafts_of i db + of_bool (open_program i db)"

definition closes_now :: "life_error + close_result \<Rightarrow> bool" where
  "closes_now r = (case r of Inr (Completed_now _) \<Rightarrow> True | _ \<Rightarrow> False)"

lemma status_completed_complete [simp]: "status_completed (complete_program today ed es rp days w p)"
  by (simp add: status_completed_def complete_program_def py_lower_def) code_simp

lemma complete_program_id [simp]:
  "ep_id (complete_program today ed es rp days w p) = ep_id p"
  "ep_date (complete_program today ed es rp days w p) = ep_date p"
  "ep_employee (complete_program today ed es rp days w p) = ep_employee p"
  "ep_end (complete_program today ed es rp days w p) = Some ed"
  by (simp_all add: complete_program_def)

lemma find_program_update:
  assumes "\<And>p. ep_id (f p) = ep_id p"
  shows "find_program j (update_program i f db) = map_option (\<lambda>p. if ep_id p = i then f p else p) (find_program j db)"
  by (simp add: find_program_def update_program_def find_update_where_key assms)

lemma find_program_id: "find_program j db = Some p \<Longrightarrow> ep_id p = j"
  by (auto simp: find_program_def dest: find_Some_mem)

lemma update_program_simps [simp]:
  "pb_drafts (update_program i f db) = pb_drafts db" "pb_staff (update_program i f db) = pb_staff db"
  "pb_cash (update_program i f db) = pb_cash db" "pb_next_draft (update_program i f db) = pb_next_draft db"
  by (simp_all add: update_program_def)

lemma open_after_complete:
  "open_program j (update_program i (complete_program today ed es rp days w) db) \<longleftrightarrow> j \<noteq> i \<and> open_program j db"
  using find_program_id [of j db]
  by (auto simp: open_program_def find_program_update split: option.splits)

lemma close_budget:
  "draft_budget j (snd (close_program e today i ed es rp dc w db)) +
     of_bool (closes_now (fst (close_program e today i ed es rp dc w db)) \<and> i = j) \<le> draft_budget j db"
proof (cases "raises e 0 \<or> raises e 1 \<or> \<not> open_program i db")
  case True
  then show ?thesis
    by (auto simp: close_program_def closes_now_def open_program_def Let_def split: option.splits)
next
  case False
  then obtain p where p: "find_program i db = Some p" "\<not> status_completed p" "\<not> raises e 0" "\<not> raises e 1"
    by (auto simp: open_program_def split: option.splits)
  then have "close_program e today i ed es rp dc w db = (Inr (Completed_now (closing_days dc ed p)),
      update_program i (complete_program today ed es rp (closing_days dc ed p) w) db)"
    by (simp add: close_program_def Let_def)
  then show ?thesis
    using False by (auto simp: draft_budget_def drafts_of_def open_after_complete closes_now_def)
qed

lemma create_programs: "pb_programs (snd (create_escort_payment_draft e today emp prog ov src db)) = pb_programs db"
  by (simp add: create_escort_payment_draft_def new_draft_def Let_def split: option.splits)

lemma create_drafts_of:
  "drafts_of j (snd (create_escort_payment_draft e today emp prog ov src db)) \<le> drafts_of j db + of_bool (prog = Some j)"
  by (simp add: create_escort_payment_draft_def new_draft_def drafts_of_def count_where_def Let_def split: option.splits)

lemma create_budget:
  "draft_budget j (snd (create_escort_payment_draft e today emp prog ov src db)) \<le> draft_budget j db + of_bool (prog = Some j)"
  using create_drafts_of [of j e today emp prog ov src db] create_programs [of e today emp prog ov src db]
  by (simp add: draft_budget_def open_program_def find_program_def)

lemma backfill_pay [simp]: "lf_pay (snd (backfill_attendance_for_program e i db)) = lf_pay db"
  by (auto simp: backfill_attendance_for_program_def Let_def split_def split: option.splits)

lemma after_close_budget:
  "draft_budget j (lf_pay (snd (after_close rv emp i c src db))) \<le> draft_budget j (lf_pay db) + of_bool (closes_now (Inr c) \<and> i = j)"
proof (cases c)
  case (Completed_now days)
  obtain r db1 where f: "backfill_attendance_for_program (re_fill rv) i db = (r, db1)" by fastforce
  have l: "lf_pay db1 = lf_pay db" using backfill_pay [of "re_fill rv" i db] by (simp add: f)
  show ?thesis
    using create_budget [of j "re_draft rv" "re_today rv" emp "Some i" "Some days" src "lf_pay db"]
    by (cases r) (auto simp: after_close_def Completed_now f l closes_now_def split: prod.split)
next
  case (Already_completed days)
  obtain r db1 where f: "backfill_attendance_for_program (re_fill rv) i db = (r, db1)" by fastforce
  have l: "lf_pay db1 = lf_pay db" using backfill_pay [of "re_fill rv" i db] by (simp add: f)
  show ?thesis by (cases r) (simp_all add: after_close_def Already_completed f l)
qed (simp add: after_close_def)

lemma close_then_after_budget:
  assumes "close_program e today i ed es rp dc w (lf_pay db) = (r, pay)"
  shows "draft_budget j pay \<le> draft_budget j (lf_pay db)"
    and "r = Inr c \<Longrightarrow> draft_budget j (lf_pay (snd (after_close rv emp i c src (db\<lparr>lf_pay := pay\<rparr>)))) \<le> draft_budget j (lf_pay db)"
  using close_budget [of j e today i ed es rp dc w "lf_pay db"] after_close_budget [of j rv emp i c src "db\<lparr>lf_pay := pay\<rparr>"]
  by (auto simp: assms)

lemma event_budget: "draft_budget j (lf_pay (snd (handle_release_event rv emp sf src db))) \<le> draft_budget j (lf_pay db)"
  by (auto simp: handle_release_event_def Let_def split: option.splits prod.splits sum.splits dest: close_then_after_budget
      intro: order_trans)

lemma command_budget: "draft_budget j (lf_pay (snd (cmd_release rv i ed es rp dc admin db))) \<le> draft_budget j (lf_pay db)"
proof (cases "raises (re_find rv) 0 \<or> find_program i (lf_pay db) = None")
  case True
  then show ?thesis by (auto simp: cmd_release_def)
next
  case False
  then obtain p where p: "find_program i (lf_pay db) = Some p" by blast
  obtain r pay where c: "close_program (re_close rv) (re_today rv) i ed es (Some rp) dc (''admin:'' @ admin) (lf_pay db) = (r, pay)"
    by fastforce
  show ?thesis
    using False c close_then_after_budget(1) [OF c, where j = j] close_then_after_budget(2) [OF c, where j = j]
    by (cases r; cases "ep_employee p") (auto simp: cmd_release_def p split_def)
qed

datatype release_call =
  Report release_env int slip_fields string
| Command release_env int date string string "rat option" string

fun run_release :: "release_call \<Rightarrow> life_db \<Rightarrow> life_db" where
  "run_release (Report rv emp sf src) db = snd (handle_release_event rv emp sf src db)"
| "run_release (Command rv i ed es rp dc admin) db = snd (cmd_release rv i ed es rp dc admin db)"

text \<open>
  C25: One draft for a duty. However often releases are reported by employees and commanded by admins,
  in any order and with any statements raising, the payment drafts of a program grow by at most one
  if the program was not completed at the start, and not at all if it was.
\<close>

theorem one_draft_per_program:
  "drafts_of i (lf_pay (fold run_release calls db)) \<le> drafts_of i (lf_pay db) + of_bool (open_program i (lf_pay db))"
proof -
  have "draft_budget i (lf_pay (fold run_release calls db)) \<le> draft_budget i (lf_pay db)"
  proof (induction calls arbitrary: db)
    case Nil
    then show ?case by simp
  next
    case (Cons c calls)
    have "draft_budget i (lf_pay (run_release c db)) \<le> draft_budget i (lf_pay db)"
      using event_budget command_budget by (cases c) auto
    with Cons [of "run_release c db"] show ?case by simp
  qed
  then show ?thesis by (simp add: draft_budget_def)
qed

subsection \<open>A release from end to end\<close>

lemma find_active_Some:
  assumes "find_active_program_for_employee emp ref db = Some p"
  shows "p \<in> set (pb_programs db)" "is_active_program emp ref p"
proof -
  let ?s = "sort_key (\<lambda>p. - program_ordinal p) (sort_key (\<lambda>p. - ep_id p) (filter (is_active_program emp ref) (pb_programs db)))"
  obtain rest where "?s = p # rest"
    using assms by (auto simp: find_active_program_for_employee_def split: list.splits)
  then have "p \<in> set ?s" by simp
  then show "p \<in> set (pb_programs db)" "is_active_program emp ref p" by simp_all
qed

lemma find_active_latest:
  assumes "find_active_program_for_employee emp ref db = Some p" "q \<in> set (pb_programs db)" "is_active_program emp ref q"
  shows "program_ordinal q \<le> program_ordinal p"
proof -
  let ?f = "sort_key (\<lambda>p. - ep_id p) (filter (is_active_program emp ref) (pb_programs db))"
  obtain rest where r: "sort_key (\<lambda>p. - program_ordinal p) ?f = p # rest"
    using assms(1) by (auto simp: find_active_program_for_employee_def split: list.splits)
  then have "q \<in> set (p # rest)" using assms(2,3) set_sort [of "\<lambda>p. - program_ordinal p" ?f] by simp
  moreover have "sorted (map (\<lambda>p. - program_ordinal p) (p # rest))" using sorted_sort_key r by metis
  ultimately show ?thesis by auto
qed

lemma close_ok:
  assumes "db_ok e" "find_program i db = Some p" "\<not> status_completed p" "closing_days dc ed p = days"
  shows "close_program e today i ed es rp dc w db =
    (Inr (Completed_now days), update_program i (complete_program today ed es rp days w) db)"
  using assms by (simp add: close_program_def db_ok_raises Let_def)

lemma after_close_ok:
  assumes "db_ok (re_fill rv)" "db_ok (re_draft rv)" "find_program i (lf_pay db) = Some p" "ep_employee p = Some emp"
    "ep_date p = Some start" "valid_date start" "valid_date (last_day p start)" "find_staff emp (lf_pay db) = Some s"
  obtains new d pay where
    "after_close rv emp i (Completed_now days) source db =
      (Inr (Closed i days (length new) (Inr (df_id d))), db\<lparr>lf_pay := pay, lf_attendance := lf_attendance db @ new\<rparr>)"
    "\<forall>x. attended emp x (lf_attendance db @ new) \<longleftrightarrow>
      attended emp x (lf_attendance db) \<or> valid_date x \<and> date_le start x \<and> date_le x (last_day p start)"
    "pb_drafts pay = pb_drafts (lf_pay db) @ [d]" "df_status d = D_pending" "df_employee d = Some emp"
    "df_program d = Some i" "pd_duty_days d = Some days" "pb_programs pay = pb_programs (lf_pay db)"
proof -
  obtain new where new: "backfill_attendance_for_program (re_fill rv) i db =
      (Inr (length new), db\<lparr>lf_attendance := lf_attendance db @ new\<rparr>)"
      "\<forall>x. attended emp x (lf_attendance db @ new) \<longleftrightarrow>
        attended emp x (lf_attendance db) \<or> valid_date x \<and> date_le start x \<and> date_le x (last_day p start)"
    using backfill_every_day [OF assms(1,3-7)] by auto
  obtain d pay where d: "create_escort_payment_draft (re_draft rv) (re_today rv) emp (Some i) (Some days) source (lf_pay db) =
        (Inr (pb_next_draft (lf_pay db)), pay)" "df_id d = pb_next_draft (lf_pay db)"
      "pb_drafts pay = pb_drafts (lf_pay db) @ [d]" "df_status d = D_pending" "df_employee d = Some emp" "df_program d = Some i"
      "pd_duty_days d = Some days" "pb_programs pay = pb_programs (lf_pay db)"
    using escort_draft_amount [OF assms(2,8), where today = "re_today rv" and prog = "Some i" and override = "Some days"
        and source = source]
    by (auto simp: duty_days_of_def)
  have "after_close rv emp i (Completed_now days) source db =
      (Inr (Closed i days (length new) (Inr (df_id d))), db\<lparr>lf_pay := pay, lf_attendance := lf_attendance db @ new\<rparr>)"
    by (simp add: after_close_def new(1) d(1,2))
  from that [OF this new(2) d(3-8)] show thesis .
qed

text \<open>
  A reported release, end to end. Let the statements succeed, programs have unique ids, the
  employee have a record and an active program whose status is not already some spelling of
  completed, with valid dates. Then \<open>handle_release_event\<close> completes the latest active program of
  the employee with the day and the shift given, marks the employee present on every day from
  the first to the last, and adds one pending draft for that program with the days of the duty;
  it returns the program, the days and the draft.
\<close>

theorem release_end_to_end:
  assumes ok: "db_ok (re_find rv)" "db_ok (re_close rv)" "db_ok (re_fill rv)" "db_ok (re_draft rv)"
    and uniq: "distinct (map ep_id (pb_programs (lf_pay db)))"
    and active: "find_active_program_for_employee emp (re_today rv) (lf_pay db) = Some p"
    and fresh: "\<not> status_completed p"
    and staff: "find_staff emp (lf_pay db) = Some s"
    and dates: "ep_date p = Some start" "sf_end_date sf = Some stop" "valid_date start" "valid_date stop" "date_le start stop"
    and days: "sf_day_count sf = None" "sf_days sf = None"
  shows "\<exists>n d p' db'. handle_release_event rv emp sf source db =
      (Inr (Closed (ep_id p) (of_int (toordinal stop - toordinal start + 1)) n (Inr (df_id d))), db')
    \<and> find_program (ep_id p) (lf_pay db') = Some p' \<and> ep_status p' = Some ''Completed'' \<and> ep_end p' = Some stop
    \<and> list_all (\<lambda>x. \<not> is_active_program emp (re_today rv) x \<or> program_ordinal x \<le> program_ordinal p) (pb_programs (lf_pay db))
    \<and> (\<forall>x. attended emp x (lf_attendance db') \<longleftrightarrow> attended emp x (lf_attendance db) \<or> valid_date x \<and> date_le start x \<and> date_le x stop)
    \<and> pb_drafts (lf_pay db') = pb_drafts (lf_pay db) @ [d] \<and> df_status d = D_pending \<and> df_program d = Some (ep_id p)
    \<and> df_employee d = Some emp \<and> pd_duty_days d = Some (of_int (toordinal stop - toordinal start + 1))"
proof -
  define D where "D = (of_int (toordinal stop - toordinal start + 1) :: rat)"
  define es where "es = (case py_or (py_or (sf_end_shift sf) (sf_shift sf)) None of None \<Rightarrow> ''D'' | Some s \<Rightarrow> s)"
  define rp where "rp = py_or (sf_release_point sf) (sf_location sf)"
  define pay where "pay = update_program (ep_id p) (complete_program (re_today rv) stop es rp D source) (lf_pay db)"
  let ?p' = "complete_program (re_today rv) stop es rp D source p" and ?db = "db\<lparr>lf_pay := pay\<rparr>"
  have mem: "p \<in> set (pb_programs (lf_pay db))" and emp: "ep_employee p = Some emp"
    using find_active_Some [OF active] by (auto simp: is_active_program_def)
  have fp: "find_program (ep_id p) (lf_pay db) = Some p"
    unfolding find_program_def by (rule find_key_unique [OF uniq mem])
  have "closing_days None stop p = D" using dates by (simp add: closing_days_def date_le_iff D_def)
  from close_ok [OF ok(2) fp fresh this]
  have run: "handle_release_event rv emp sf source db = after_close rv emp (ep_id p) (Completed_now D) source ?db"
    by (simp add: handle_release_event_def db_ok_raises [OF ok(1)] active dates(2) days truthy_def slip_days_def
        es_def [symmetric] rp_def [symmetric] pay_def Let_def)
  have fp': "find_program (ep_id p) (lf_pay ?db) = Some ?p'" by (simp add: pay_def find_program_update fp)
  have last: "last_day ?p' start = stop" using dates by (auto simp: last_day_def date_le_def date_less_iff)
  have st: "find_staff emp (lf_pay ?db) = Some s" using staff by (simp add: pay_def find_staff_def)
  obtain new d pay' where a: "after_close rv emp (ep_id p) (Completed_now D) source ?db =
        (Inr (Closed (ep_id p) D (length new) (Inr (df_id d))), ?db\<lparr>lf_pay := pay', lf_attendance := lf_attendance ?db @ new\<rparr>)"
      "\<forall>x. attended emp x (lf_attendance ?db @ new) \<longleftrightarrow>
        attended emp x (lf_attendance ?db) \<or> valid_date x \<and> date_le start x \<and> date_le x (last_day ?p' start)"
      "pb_drafts pay' = pb_drafts (lf_pay ?db) @ [d]" "df_status d = D_pending" "df_employee d = Some emp"
      "df_program d = Some (ep_id p)" "pd_duty_days d = Some D" "pb_programs pay' = pb_programs (lf_pay ?db)"
    by (rule after_close_ok [OF ok(3,4) fp' _ _ dates(3) _ st, where days = D and source = source])
      (use emp dates last in simp_all)
  have "find_program (ep_id p) pay' = Some ?p'" using fp' a(8) by (simp add: find_program_def)
  moreover have "list_all (\<lambda>x. \<not> is_active_program emp (re_today rv) x \<or> program_ordinal x \<le> program_ordinal p) (pb_programs (lf_pay db))"
    using find_active_latest [OF active] by (auto simp: list_all_iff)
  moreover have "ep_status ?p' = Some ''Completed''" by (simp add: complete_program_def)
  ultimately show ?thesis
    unfolding D_def [symmetric] run a(1) using a(2-7)
    by (intro exI [of _ "length new"] exI [of _ d] exI [of _ ?p'] exI [of _ "?db\<lparr>lf_pay := pay', lf_attendance := lf_attendance ?db @ new\<rparr>"])
      (simp add: pay_def last)
qed

definition sample_program :: escort_program where
  "sample_program = \<lparr>ep_id = 9, ep_employee = Some 4, ep_vessel = Some ''MV One'', ep_status = Some ''Assigned'',
     ep_date = Some (Date 2026 5 30), ep_end = None, ep_end_shift = None, ep_release_point = None, ep_days = None,
     ep_completed_at = None, ep_remarks = None\<rparr>"

definition sample_life :: life_db where
  "sample_life = \<lparr>lf_pay = sample_pay\<lparr>pb_programs := [sample_program]\<rparr>,
     lf_attendance = [present_row 4 ''office'' (Date 2026 5 31)]\<rparr>"

definition sample_renv :: release_env where
  "sample_renv = \<lparr>re_today = Date 2026 6 3, re_find = env_at 5, re_close = env_at 5, re_fill = env_at 5, re_lookup = env_at 5,
     re_draft = env_at 5\<rparr>"

definition sample_slip :: slip_fields where
  "sample_slip = \<lparr>sf_end_date = Some (Date 2026 6 2), sf_end_shift = None, sf_shift = Some ''N'', sf_release_point = None,
     sf_location = Some ''Mongla'', sf_day_count = None, sf_days = None\<rparr>"

lemmas date_eval = valid_date_def days_in_month_def date_le_def date_less_def toordinal_def days_before_year_def
  days_before_month_def is_leap_def

lemma sample_life_facts:
  "find_program 9 (lf_pay sample_life) = Some sample_program" "find_staff 4 (lf_pay sample_life) = Some \<lparr>st_id = 4, st_basic = Some 15000\<rparr>"
  "find_active_program_for_employee 4 (Date 2026 6 3) (lf_pay sample_life) = Some sample_program"
  "\<not> status_completed sample_program" "distinct (map ep_id (pb_programs (lf_pay sample_life)))"
proof -
  show "find_program 9 (lf_pay sample_life) = Some sample_program"
    by (simp add: sample_life_def find_program_def sample_program_def)
  show "find_staff 4 (lf_pay sample_life) = Some \<lparr>st_id = 4, st_basic = Some 15000\<rparr>"
    by (simp add: sample_life_def find_staff_def sample_pay_def)
  show "find_active_program_for_employee 4 (Date 2026 6 3) (lf_pay sample_life) = Some sample_program"
    by (simp add: sample_life_def find_active_program_for_employee_def is_active_program_def sample_program_def date_eval)
  show "\<not> status_completed sample_program"
    by (simp add: status_completed_def sample_program_def py_lower_def)
  show "distinct (map ep_id (pb_programs (lf_pay sample_life)))" by (simp add: sample_life_def)
qed

theorem backfill_every_day_witness:
  "attended 4 (Date 2026 5 30) (lf_attendance (snd (backfill_attendance_for_program (env_at 5) 9 sample_life)))"
proof -
  have p: "ep_employee sample_program = Some 4" "ep_date sample_program = Some (Date 2026 5 30)"
    "last_day sample_program (Date 2026 5 30) = Date 2026 5 30" "valid_date (Date 2026 5 30)"
    by (simp_all add: sample_program_def last_day_def date_eval)
  have "valid_date (last_day sample_program (Date 2026 5 30))" using p by simp
  from backfill_every_day [OF db_ok_env_at [of 5] sample_life_facts(1) p(1,2,4) this]
  show ?thesis using p by (auto simp: date_le_def)
qed

theorem release_end_to_end_witness:
  "\<exists>n d. fst (handle_release_event sample_renv 4 sample_slip ''ocr'' sample_life) = Inr (Closed 9 4 n (Inr d))"
proof -
  have d: "valid_date (Date 2026 5 30)" "valid_date (Date 2026 6 2)" "date_le (Date 2026 5 30) (Date 2026 6 2)"
    "toordinal (Date 2026 6 2) - toordinal (Date 2026 5 30) = 3"
    by (simp_all add: date_eval)
  have r: "db_ok (re_find sample_renv)" "db_ok (re_close sample_renv)" "db_ok (re_fill sample_renv)" "db_ok (re_draft sample_renv)"
    "re_today sample_renv = Date 2026 6 3"
    by (simp_all add: sample_renv_def)
  have f: "ep_date sample_program = Some (Date 2026 5 30)" "ep_id sample_program = 9" "sf_end_date sample_slip = Some (Date 2026 6 2)"
    "sf_day_count sample_slip = None" "sf_days sample_slip = None"
    by (simp_all add: sample_program_def sample_slip_def)
  have a: "find_active_program_for_employee 4 (re_today sample_renv) (lf_pay sample_life) = Some sample_program"
    unfolding r(5) by (rule sample_life_facts)
  obtain n and x :: pay_draft and db' where "handle_release_event sample_renv 4 sample_slip ''ocr'' sample_life =
      (Inr (Closed (ep_id sample_program) (of_int (toordinal (Date 2026 6 2) - toordinal (Date 2026 5 30) + 1)) n (Inr (df_id x))), db')"
    using release_end_to_end [OF r(1-4) sample_life_facts(5) a sample_life_facts(4,2) f(1,3) d(1-3) f(4,5), of "''ocr''"]
    by blast
  then show ?thesis unfolding d(4) f(2) by simp
qed

text \<open>
  A program that a release has closed is not found again, by anyone and on any day: a second report of
  the same release closes an older open program of the employee, if there is one, or finds none. The
  promise of \<open>handle_release_event\<close> to return the existing draft is kept only for a program
  whose status spells completed in another case.
\<close>

theorem closed_not_found_again:
  assumes "close_program e today i ed es rp dc w db = (Inr (Completed_now days), db')"
    and "find_active_program_for_employee emp ref db' = Some p"
  shows "ep_id p \<noteq> i"
proof
  assume "ep_id p = i"
  have db': "db' = update_program i (complete_program today ed es rp days w) db"
    using assms(1) by (cases "find_program i db") (clarsimp simp: close_program_def Let_def split: if_splits)+
  have "p \<in> set (update_where (\<lambda>p. ep_id p = i) (complete_program today ed es rp days w) (pb_programs db))"
    using find_active_Some(1) [OF assms(2)] by (simp add: db' update_program_def)
  then obtain q where "p = complete_program today ed es rp days w q"
    unfolding mem_update_where using \<open>ep_id p = i\<close> by blast
  then have "ep_status p = Some ''Completed''" by (simp add: complete_program_def)
  with find_active_Some(2) [OF assms(2)] show False by (simp add: is_active_program_def)
qed

subsection \<open>Transport estimates\<close>

fun contains :: "string \<Rightarrow> string \<Rightarrow> bool" where
  \<comment> \<open>\<open>k in s\<close>\<close>
  "contains k [] = (k = [])"
| "contains k (c # s) = (take (length k) (c # s) = k \<or> contains k s)"

definition TRANSPORT_RATES :: "(string list \<times> int) list" where
  "TRANSPORT_RATES =
     [([''dhaka'', ''narayanganj'', ''bhairab'', ''ashuganj'', ''kaliganj'', ''rupganj'', ''rupshi'', ''siddhirganj'',
        ''shah cement'', ''mir cement'', ''shah_cement'', ''mir_cement''], 600),
      ([''faridpur'', ''mongla''], 700),
      ([''barishal'', ''barisal'', ''bhola'', ''jhalokathi'', ''jhalokati'', ''nagarbari'', ''aricha''], 900),
      ([''noapara'', ''jessore'', ''jashore'', ''khulna''], 1000)]"

definition DEFAULT_TRANSPORT :: int where "DEFAULT_TRANSPORT = 600"

definition estimate_transport :: "string \<Rightarrow> int" where
  "estimate_transport location =
     (if location = '''' then DEFAULT_TRANSPORT
      else case find (\<lambda>(ks, r). list_ex (\<lambda>k. contains k (py_lower location)) ks) TRANSPORT_RATES of
             None \<Rightarrow> DEFAULT_TRANSPORT | Some (ks, r) \<Rightarrow> r)"

lemma estimate_transport_range: "estimate_transport location \<in> {600, 700, 900, 1000}"
  by (auto simp: estimate_transport_def DEFAULT_TRANSPORT_def TRANSPORT_RATES_def split: option.splits dest!: find_Some_mem)

text \<open>The rate of Mongla, which a comment of \<open>build_release_draft\<close> gives as 1000.\<close>

theorem mongla_rate: "estimate_transport ''Mongla Port'' = 700"
  by code_simp

end
