(* ===== verification/Payment_Correction.thy ===== *)
theory Payment_Correction
  imports Payment_Workflow
begin

text \<open>
  Corrections of payments, \<open>modules/payment_correction/__init__.py\<close>: the reversal of a paid draft by
  a counter-transaction, the adjustment by a linked draft, and the log of both. The operations do
  not catch exceptions and run outside a transaction: a statement that raises leaves the operation
  with the exception and keeps what was written. Statements are numbered by their position in
  the source. Texts are not modelled, apart from the notes.
\<close>

record correction_log =
  cg_action :: string
  cg_draft :: int
  cg_txn :: "int option"
  cg_counter :: "int option"
  cg_original :: rat
  cg_correction :: rat
  cg_method :: string
  cg_note :: string
  cg_by :: string
  cg_at :: time

record correction_db =
  cb_pay :: pay_db
  cb_log :: "correction_log list"

datatype correct_error =
  Corr_unknown | Corr_status draft_status | Corr_double | Corr_amount | Corr_exists int | Corr_exception

definition draft_amount :: "pay_draft \<Rightarrow> rat" where
  "draft_amount d = truthy (pd_approved d) (pd_expected d)"

definition or_default :: "string \<Rightarrow> string \<Rightarrow> string" where
  "or_default reason dflt = take 500 (if reason = '''' then dflt else reason)"

definition reversible :: "pay_draft \<Rightarrow> cash_txn \<Rightarrow> bool" where
  \<comment> \<open>a null employee matches nothing\<close>
  "reversible d c \<longleftrightarrow> df_employee d \<noteq> None \<and> ct_employee c = df_employee d \<and> ct_amount c = draft_amount d \<and>
     \<not> ct_reversed c \<and> ct_type c \<noteq> ''reversal''"

definition latest_first :: "cash_txn list \<Rightarrow> cash_txn list" where
  \<comment> \<open>\<open>ORDER BY transaction_time DESC NULLS LAST\<close>\<close>
  "latest_first cs = sort_key (\<lambda>c. - the (ct_time c)) (filter (\<lambda>c. ct_time c \<noteq> None) cs) @ filter (\<lambda>c. ct_time c = None) cs"

definition original_txn :: "pay_draft \<Rightarrow> pay_db \<Rightarrow> cash_txn option" where
  "original_txn d db = (case latest_first (filter (reversible d) (pb_cash db)) of [] \<Rightarrow> None | c # _ \<Rightarrow> Some c)"

definition mark_reversed :: "int \<Rightarrow> string \<Rightarrow> pay_db \<Rightarrow> pay_db" where
  "mark_reversed i note db = db\<lparr>pb_cash := update_where (\<lambda>c. ct_id c = i) (\<lambda>c. c\<lparr>ct_reversed := True, ct_note := Some note\<rparr>) (pb_cash db)\<rparr>"

definition counter_txn :: "env \<Rightarrow> date \<Rightarrow> pay_draft \<Rightarrow> cash_txn \<Rightarrow> string \<Rightarrow> pay_db \<Rightarrow> int \<times> pay_db" where
  "counter_txn e today d c reason =
     add_cash (df_employee d) (df_program d) ''reversal'' (- ct_amount c) (py_or (ct_method c) (pd_method d)) today
       (Some (db_now e)) (Some (ct_id c)) (Some (or_default reason ''reversed by admin''))"

definition close_reversal ::
  "env \<Rightarrow> int \<Rightarrow> pay_draft \<Rightarrow> string \<Rightarrow> string \<Rightarrow> int option \<Rightarrow> int option \<Rightarrow> correction_db
    \<Rightarrow> (correct_error + int option \<times> int option) \<times> correction_db" where
  \<comment> \<open>statements 4 and 5: the draft, then the log\<close>
  "close_reversal e i d admin reason txn counter db =
     (if raises e 4 then (Inl Corr_exception, db)
      else let pay = update_draft i (\<lambda>x. x\<lparr>df_status := D_reversed, pd_correction := Some Is_reversal,
                       pd_note := Some (or_default reason ''reversed by admin''), df_updated_at := db_now e\<rparr>) (cb_pay db)
           in if raises e 5 then (Inl Corr_exception, db\<lparr>cb_pay := pay\<rparr>)
              else (Inr (txn, counter),
                    db\<lparr>cb_pay := pay, cb_log := cb_log db @
                      [\<lparr>cg_action = ''reversed'', cg_draft = i, cg_txn = txn, cg_counter = counter, cg_original = draft_amount d,
                        cg_correction = - draft_amount d, cg_method = (case pd_method d of None \<Rightarrow> '''' | Some m \<Rightarrow> m),
                        cg_note = take 500 reason, cg_by = admin, cg_at = db_now e\<rparr>]\<rparr>))"

definition reverse_payment ::
  "env \<Rightarrow> date \<Rightarrow> int \<Rightarrow> string \<Rightarrow> string \<Rightarrow> correction_db \<Rightarrow> (correct_error + int option \<times> int option) \<times> correction_db" where
  \<comment> \<open>statement 0 reads the draft, 1 the transaction, 2 marks it, 3 inserts the counter-transaction\<close>
  "reverse_payment e today i admin reason db =
     (if raises e 0 then (Inl Corr_exception, db)
      else case find_draft i (cb_pay db) of
        None \<Rightarrow> (Inl Corr_unknown, db)
      | Some d \<Rightarrow>
          if df_status d \<notin> {D_approved, D_sent} then (Inl (Corr_status (df_status d)), db)
          else if pd_correction d = Some Is_reversal then (Inl Corr_double, db)
          else if raises e 1 then (Inl Corr_exception, db)
          else case original_txn d (cb_pay db) of
            None \<Rightarrow> close_reversal e i d admin reason None None db
          | Some c \<Rightarrow>
              if raises e 2 then (Inl Corr_exception, db)
              else let pay1 = mark_reversed (ct_id c) (or_default reason ''reversed by admin'') (cb_pay db)
                   in if raises e 3 then (Inl Corr_exception, db\<lparr>cb_pay := pay1\<rparr>)
                      else let (k, pay2) = counter_txn e today d c reason pay1
                           in close_reversal e i d admin reason (Some (ct_id c)) (Some k) (db\<lparr>cb_pay := pay2\<rparr>))"

definition blocks_adjustment :: "int \<Rightarrow> pay_draft \<Rightarrow> bool" where
  "blocks_adjustment i x \<longleftrightarrow> pd_correction_of x = Some i \<and> pd_correction x = Some Is_adjustment \<and> df_status x \<noteq> D_rejected"

definition adjustment_draft :: "env \<Rightarrow> int \<Rightarrow> pay_draft \<Rightarrow> rat \<Rightarrow> string \<Rightarrow> string \<Rightarrow> string \<Rightarrow> int \<Rightarrow> pay_draft" where
  "adjustment_draft e i d amount meth admin reason k =
     \<lparr>df_id = k, df_employee = df_employee d, df_program = df_program d, df_status = D_pending, df_created_at = db_now e,
      df_expires_at = None, df_updated_at = db_now e, pd_type = pd_type d, pd_duty_days = None, pd_expected = amount,
      pd_approved = None, pd_method = Some meth, pd_admin = Some admin, pd_source = None, pd_correction_of = Some i,
      pd_correction = Some Is_adjustment, pd_note = Some (take 500 reason)\<rparr>"

definition adjust_payment ::
  "env \<Rightarrow> int \<Rightarrow> rat \<Rightarrow> string \<Rightarrow> string \<Rightarrow> string \<Rightarrow> correction_db \<Rightarrow> (correct_error + int) \<times> correction_db" where
  \<comment> \<open>statement 0 reads the draft, 1 looks for an adjustment, 2 inserts one, 3 marks the draft, 4 logs\<close>
  "adjust_payment e i amount meth admin reason db =
     (if amount \<le> 0 then (Inl Corr_amount, db)
      else if raises e 0 then (Inl Corr_exception, db)
      else case find_draft i (cb_pay db) of
        None \<Rightarrow> (Inl Corr_unknown, db)
      | Some d \<Rightarrow>
          if df_status d \<notin> {D_approved, D_sent} then (Inl (Corr_status (df_status d)), db)
          else if raises e 1 then (Inl Corr_exception, db)
          else case find (blocks_adjustment i) (pb_drafts (cb_pay db)) of
            Some x \<Rightarrow> (Inl (Corr_exists (df_id x)), db)
          | None \<Rightarrow>
              if raises e 2 then (Inl Corr_exception, db)
              else let k = pb_next_draft (cb_pay db);
                       pay1 = (cb_pay db)\<lparr>pb_next_draft := k + 1,
                         pb_drafts := pb_drafts (cb_pay db) @ [adjustment_draft e i d amount meth admin reason k]\<rparr>
                   in if raises e 3 then (Inl Corr_exception, db\<lparr>cb_pay := pay1\<rparr>)
                      else let pay2 = update_draft i (\<lambda>x. x\<lparr>pd_correction := Some Is_adjustment,
                                  pd_note := Some (or_default reason ''adjusted''), df_updated_at := db_now e\<rparr>) pay1
                           in if raises e 4 then (Inl Corr_exception, db\<lparr>cb_pay := pay2\<rparr>)
                              else (Inr k, db\<lparr>cb_pay := pay2, cb_log := cb_log db @
                                     [\<lparr>cg_action = ''adjusted'', cg_draft = i, cg_txn = None, cg_counter = None,
                                       cg_original = draft_amount d, cg_correction = amount, cg_method = meth,
                                       cg_note = take 500 reason, cg_by = admin, cg_at = db_now e\<rparr>]\<rparr>))"

definition list_corrections :: "nat \<Rightarrow> correction_db \<Rightarrow> (correction_log \<times> pay_draft option) list" where
  "list_corrections limit db =
     map (\<lambda>l. (l, find_draft (cg_draft l) (cb_pay db))) (take limit (sort_key (\<lambda>l. - cg_at l) (cb_log db)))"

subsection \<open>Totals\<close>

definition cash_total :: "int \<Rightarrow> pay_db \<Rightarrow> rat" where
  "cash_total emp db = sum_list (map ct_amount (filter (\<lambda>c. ct_employee c = Some emp) (pb_cash db)))"

lemma cash_total_add:
  "cash_total emp (snd (add_cash who prog ty a m today t r n db)) = cash_total emp db + (if who = Some emp then a else 0)"
  by (simp add: cash_total_def add_cash_def)

lemma cash_total_draft [simp]: "cash_total emp (update_draft i f db) = cash_total emp db"
  by (simp add: cash_total_def)

lemma cash_total_mark [simp]: "cash_total emp (mark_reversed i note db) = cash_total emp db"
proof -
  have "map ct_amount (filter (\<lambda>c. ct_employee c = Some emp)
      (update_where (\<lambda>c. ct_id c = i) (\<lambda>c. c\<lparr>ct_reversed := True, ct_note := Some note\<rparr>) cs)) =
    map ct_amount (filter (\<lambda>c. ct_employee c = Some emp) cs)" for cs :: "cash_txn list"
    by (induction cs) auto
  then show ?thesis by (simp add: cash_total_def mark_reversed_def)
qed

lemma mark_reversed_simps [simp]: "pb_drafts (mark_reversed i note db) = pb_drafts db"
  by (simp add: mark_reversed_def)

lemma set_latest_first: "set (latest_first cs) = set cs"
  by (auto simp: latest_first_def)

lemma original_txn_SomeD: "original_txn d db = Some c \<Longrightarrow> c \<in> set (pb_cash db) \<and> reversible d c"
proof -
  assume "original_txn d db = Some c"
  then have "c \<in> set (latest_first (filter (reversible d) (pb_cash db)))"
    by (auto simp: original_txn_def split: list.splits)
  then show ?thesis by (simp add: set_latest_first)
qed

lemma original_txn_exists: "c \<in> set (pb_cash db) \<Longrightarrow> reversible d c \<Longrightarrow> original_txn d db \<noteq> None"
proof -
  assume "c \<in> set (pb_cash db)" "reversible d c"
  then have "c \<in> set (latest_first (filter (reversible d) (pb_cash db)))" by (simp add: set_latest_first)
  then show ?thesis by (auto simp: original_txn_def split: list.splits)
qed

lemma reverse_ok:
  assumes "db_ok e" "find_draft i (cb_pay db) = Some d" "df_status d \<in> {D_approved, D_sent}" "pd_correction d \<noteq> Some Is_reversal"
    "original_txn d (cb_pay db) = Some c"
  shows "fst (reverse_payment e today i admin reason db) = Inr (Some (ct_id c), Some (pb_next_cash (cb_pay db)))"
    and "cash_total emp (cb_pay (snd (reverse_payment e today i admin reason db))) =
      cash_total emp (cb_pay db) - (if df_employee d = Some emp then draft_amount d else 0)"
    and "\<exists>d'. find_draft i (cb_pay (snd (reverse_payment e today i admin reason db))) = Some d' \<and> df_status d' = D_reversed"
proof -
  have c: "ct_amount c = draft_amount d" using original_txn_SomeD [OF assms(5)] by (simp add: reversible_def)
  have n: "pb_next_cash (mark_reversed j x db') = pb_next_cash db'" for j x db' by (simp add: mark_reversed_def)
  note q = db_ok_raises [OF assms(1)]
  let ?pay1 = "mark_reversed (ct_id c) (or_default reason ''reversed by admin'') (cb_pay db)"
  let ?pay2 = "snd (counter_txn e today d c reason ?pay1)"
  have r: "reverse_payment e today i admin reason db =
      close_reversal e i d admin reason (Some (ct_id c)) (Some (fst (counter_txn e today d c reason ?pay1))) (db\<lparr>cb_pay := ?pay2\<rparr>)"
    using assms(2-5) by (auto simp: reverse_payment_def q Let_def split_def)
  show "fst (reverse_payment e today i admin reason db) = Inr (Some (ct_id c), Some (pb_next_cash (cb_pay db)))"
    unfolding r by (simp add: close_reversal_def q Let_def counter_txn_def add_cash_def n)
  show "cash_total emp (cb_pay (snd (reverse_payment e today i admin reason db))) =
      cash_total emp (cb_pay db) - (if df_employee d = Some emp then draft_amount d else 0)"
    unfolding r by (simp add: close_reversal_def q Let_def counter_txn_def cash_total_add c)
  have "find_draft i ?pay2 = Some d" using assms(2) by (simp add: counter_txn_def find_draft_def)
  then show "\<exists>d'. find_draft i (cb_pay (snd (reverse_payment e today i admin reason db))) = Some d' \<and> df_status d' = D_reversed"
    unfolding r using find_draft_id [OF assms(2)] by (simp add: close_reversal_def q Let_def find_draft_update)
qed

lemma reversed_refused:
  assumes "find_draft i (cb_pay db) = Some d" "df_status d = D_reversed" "\<not> raises e 0"
  shows "reverse_payment e today i admin reason db = (Inl (Corr_status D_reversed), db)"
  using assms by (simp add: reverse_payment_def)

text \<open>
  C29: Paying and reversing. Let the statements succeed. A draft that is paid with an amount and
  then reversed is reversed by a counter-transaction: the total of the employee's cash transactions is
  what it was before the payment, the draft is reversed, and reversing it again is refused and
  changes nothing.
\<close>

theorem pay_then_reverse:
  assumes "db_ok e" and "db_ok ef" and "db_ok er" and "find_draft i (cb_pay db) = Some d" and "df_employee d = Some emp"
    and "pd_correction d \<noteq> Some Is_reversal" and "amount \<noteq> 0"
  shows "let db1 = db\<lparr>cb_pay := snd (cmd_paid e ef today i amount meth admin (cb_pay db))\<rparr>;
      (r, db2) = reverse_payment er today i admin reason db1
    in (\<exists>t k. r = Inr (Some t, Some k))
      \<and> cash_total emp (cb_pay db1) = cash_total emp (cb_pay db) + amount
      \<and> cash_total emp (cb_pay db2) = cash_total emp (cb_pay db)
      \<and> reverse_payment er today i admin reason db2 = (Inl (Corr_status D_reversed), db2)"
proof -
  let ?pay = "snd (cmd_paid e ef today i amount meth admin (cb_pay db))"
  let ?db1 = "db\<lparr>cb_pay := ?pay\<rparr>"
  note q = db_ok_raises [OF assms(1)] db_ok_raises [OF assms(2)] db_ok_raises [OF assms(3)]
  have total: "cash_total emp ?pay = cash_total emp (cb_pay db) + amount"
    using assms(4,5) by (simp add: cmd_paid_def finalize_payment_def q Let_def cash_total_add)
  obtain d1 where d1: "find_draft i ?pay = Some d1" "df_status d1 = D_approved" "df_employee d1 = Some emp"
      "draft_amount d1 = amount" "pd_correction d1 \<noteq> Some Is_reversal"
    using assms(4-7) find_draft_id [OF assms(4)]
    by (auto simp: cmd_paid_def finalize_payment_def q Let_def find_draft_update draft_amount_def truthy_def)
  have "\<exists>c\<in>set (pb_cash ?pay). reversible d1 c"
    using assms(4,5) d1(3,4)
    by (simp add: cmd_paid_def finalize_payment_def q Let_def add_cash_def reversible_def txn_type_def)
  then obtain c where c: "original_txn d1 ?pay = Some c" using original_txn_exists by blast
  have s: "find_draft i (cb_pay ?db1) = Some d1" "df_status d1 \<in> {D_approved, D_sent}" "original_txn d1 (cb_pay ?db1) = Some c"
    using d1 c by simp_all
  have r: "fst (reverse_payment er today i admin reason ?db1) = Inr (Some (ct_id c), Some (pb_next_cash (cb_pay ?db1)))"
      "cash_total emp (cb_pay (snd (reverse_payment er today i admin reason ?db1))) = cash_total emp (cb_pay ?db1) - amount"
      "\<exists>d'. find_draft i (cb_pay (snd (reverse_payment er today i admin reason ?db1))) = Some d' \<and> df_status d' = D_reversed"
    using reverse_ok [OF assms(3) s(1,2) d1(5) s(3)] d1(3,4) by auto
  obtain d2 where "find_draft i (cb_pay (snd (reverse_payment er today i admin reason ?db1))) = Some d2" "df_status d2 = D_reversed"
    using r(3) by blast
  then have "reverse_payment er today i admin reason (snd (reverse_payment er today i admin reason ?db1)) =
      (Inl (Corr_status D_reversed), snd (reverse_payment er today i admin reason ?db1))"
    by (rule reversed_refused) (simp add: q)
  then show ?thesis
    using r(1) r(2) d1(3,4) total by (simp add: Let_def split_def)
qed

text \<open>
  An adjustment does not replace the payment it corrects: when the adjustment draft is paid, as its
  text asks, its whole amount is paid beside the original one.
\<close>

theorem adjustment_pays_in_full:
  assumes "db_ok e" "db_ok e'" "db_ok ef" "find_draft i (cb_pay db) = Some d" "df_employee d = Some emp"
    "df_status d \<in> {D_approved, D_sent}" "0 < amount" "find (blocks_adjustment i) (pb_drafts (cb_pay db)) = None"
    "\<forall>x\<in>set (pb_drafts (cb_pay db)). df_id x < pb_next_draft (cb_pay db)"
  shows "\<exists>k db1. adjust_payment e i amount meth admin reason db = (Inr k, db1)
    \<and> cash_total emp (snd (cmd_paid e' ef today k amount meth admin (cb_pay db1))) = cash_total emp (cb_pay db) + amount"
proof -
  note q = db_ok_raises [OF assms(1)] db_ok_raises [OF assms(2)] db_ok_raises [OF assms(3)]
  let ?k = "pb_next_draft (cb_pay db)"
  let ?pay1 = "(cb_pay db)\<lparr>pb_next_draft := ?k + 1, pb_drafts := pb_drafts (cb_pay db) @ [adjustment_draft e i d amount meth admin reason ?k]\<rparr>"
  let ?pay2 = "update_draft i (\<lambda>x. x\<lparr>pd_correction := Some Is_adjustment, pd_note := Some (or_default reason ''adjusted''),
      df_updated_at := db_now e\<rparr>) ?pay1"
  have adj: "fst (adjust_payment e i amount meth admin reason db) = Inr ?k"
    "cb_pay (snd (adjust_payment e i amount meth admin reason db)) = ?pay2"
    using assms(4,6-8) by (auto simp: adjust_payment_def q Let_def)
  have "find_draft ?k (cb_pay db) = None" using assms(9) by (auto simp: find_draft_def find_None_iff_all)
  then have "\<exists>x. find_draft ?k ?pay1 = Some x \<and> df_employee x = Some emp"
    using assms(5) by (simp add: find_draft_def find_append adjustment_draft_def)
  then obtain x1 where "find_draft ?k ?pay1 = Some x1" "df_employee x1 = Some emp" by blast
  then obtain x where x: "find_draft ?k ?pay2 = Some x" "df_employee x = Some emp"
    by (simp add: find_draft_update)
  have "cash_total emp (snd (cmd_paid e' ef today ?k amount meth admin ?pay2)) = cash_total emp ?pay2 + amount"
    using x by (simp add: cmd_paid_def finalize_payment_def q Let_def cash_total_add)
  moreover have "cash_total emp ?pay2 = cash_total emp (cb_pay db)" by (simp add: cash_total_def)
  ultimately show ?thesis
    using adj by (intro exI [of _ ?k] exI [of _ "snd (adjust_payment e i amount meth admin reason db)"]) (simp add: prod_eq_iff)
qed

theorem pay_then_reverse_witness:
  "let db1 = \<lparr>cb_pay = snd (cmd_paid (env_at 6) (env_at 6) (Date 2026 6 2) 11 1000 ''bkash'' ''boss'' sample_drafted), cb_log = []\<rparr>;
      (r, db2) = reverse_payment (env_at 7) (Date 2026 6 2) 11 ''boss'' ''wrong escort'' db1
    in cash_total 4 (cb_pay db2) = cash_total 4 sample_drafted
      \<and> reverse_payment (env_at 7) (Date 2026 6 2) 11 ''boss'' ''wrong escort'' db2 = (Inl (Corr_status D_reversed), db2)"
proof -
  obtain d where d: "find_draft 11 (cb_pay \<lparr>cb_pay = sample_drafted, cb_log = []\<rparr>) = Some d" "df_employee d = Some 4"
      "pd_correction d \<noteq> Some Is_reversal"
    using sample_draft_found(1) by auto
  show ?thesis
    using pay_then_reverse [OF db_ok_env_at [of 6] db_ok_env_at [of 6] db_ok_env_at [of 7] d, where amount = 1000
        and today = "Date 2026 6 2" and meth = "''bkash''" and admin = "''boss''" and reason = "''wrong escort''"]
    by (simp add: Let_def split_def)
qed

text \<open>
  The reversal is not atomic. When the insert of the counter-transaction raises, the original is
  already marked; a second try then finds no transaction left to reverse, marks the draft reversed
  without a counter-transaction and reports success, and the total still holds the payment.
\<close>

theorem interrupted_reversal:
  assumes "\<not> raises e 0" "\<not> raises e 1" "\<not> raises e 2" "raises e 3" and "db_ok e'"
    and "find_draft i (cb_pay db) = Some d" "df_status d \<in> {D_approved, D_sent}" "pd_correction d \<noteq> Some Is_reversal"
    and "filter (reversible d) (pb_cash (cb_pay db)) = [c]"
  shows "let (r, db1) = reverse_payment e today i admin reason db; (r', db2) = reverse_payment e' today i admin reason db1
    in r = Inl Corr_exception \<and> r' = Inr (None, None) \<and> cash_total emp (cb_pay db2) = cash_total emp (cb_pay db)"
proof -
  note q = db_ok_raises [OF assms(5)]
  let ?pay1 = "mark_reversed (ct_id c) (or_default reason ''reversed by admin'') (cb_pay db)"
  have "latest_first [c] = [c]" by (auto simp: latest_first_def)
  then have o: "original_txn d (cb_pay db) = Some c" by (simp add: original_txn_def assms(9))
  have r: "reverse_payment e today i admin reason db = (Inl Corr_exception, db\<lparr>cb_pay := ?pay1\<rparr>)"
    using assms(1-4,6-8) o by (auto simp: reverse_payment_def Let_def)
  have only: "x = c" if "x \<in> set (pb_cash (cb_pay db))" "reversible d x" for x
  proof -
    have "x \<in> set (filter (reversible d) (pb_cash (cb_pay db)))" using that by simp
    then show ?thesis by (simp add: assms(9))
  qed
  have "\<not> reversible d x" if "x \<in> set (pb_cash ?pay1)" for x
  proof
    assume "reversible d x"
    then have "\<not> ct_reversed x" by (simp add: reversible_def)
    with that have "x \<in> set (pb_cash (cb_pay db))" "ct_id x \<noteq> ct_id c" by (auto simp: mark_reversed_def mem_update_where)
    with only [OF _ \<open>reversible d x\<close>] show False by blast
  qed
  then have "filter (reversible d) (pb_cash ?pay1) = []" by (simp add: filter_empty_conv)
  then have "original_txn d ?pay1 = None" by (simp add: original_txn_def latest_first_def)
  moreover have "find_draft i ?pay1 = Some d" using assms(6) by (simp add: find_draft_def)
  ultimately have "reverse_payment e' today i admin reason (db\<lparr>cb_pay := ?pay1\<rparr>) =
      close_reversal e' i d admin reason None None (db\<lparr>cb_pay := ?pay1\<rparr>)"
    using assms(7,8) by (auto simp: reverse_payment_def q)
  then show ?thesis unfolding r by (simp add: close_reversal_def q Let_def split_def)
qed

end
