(* ===== verification/Consistency.thy ===== *)
theory Consistency
  imports Fazle_Prelude
begin

text \<open>
  The consistency wrappers, \<open>shared/consistency.py\<close>: an update guarded by the version
  its caller has read, the duplicate check before an insert, and the read of a version.
  They work on any table, so a row is a dictionary from column names to values; as in
  SQL a comparison with a missing value never holds. The connection is given by the
  caller; a statement that raises leaves the table as it is.
\<close>

datatype sql_value = SNull | SInt int | SText string | STime time

type_synonym sql_row = "(string \<times> sql_value) list"

datatype consistency_error =
  Optimistic_lock_error string sql_value sql_value
| Duplicate_write_error string string
| Statement_error

definition column :: "string \<Rightarrow> sql_row \<Rightarrow> sql_value" where
  "column c r = dict_get SNull r c"

definition sql_equal :: "sql_value \<Rightarrow> sql_value \<Rightarrow> bool" where
  "sql_equal a b \<longleftrightarrow> a \<noteq> SNull \<and> a = b"

definition set_columns :: "(string \<times> sql_value) list \<Rightarrow> sql_row \<Rightarrow> sql_row" where
  "set_columns sets r = fold (\<lambda>(c, v). dict_set c v) sets r"

definition version_guard :: "string \<Rightarrow> sql_value \<Rightarrow> string \<Rightarrow> sql_value \<Rightarrow> sql_row \<Rightarrow> bool" where
  "version_guard pk_col pk_val version_col expected r \<longleftrightarrow>
     sql_equal (column pk_col r) pk_val \<and> sql_equal (column version_col r) expected"

definition set_clauses :: "env \<Rightarrow> string \<Rightarrow> (string \<times> sql_value) list \<Rightarrow> (string \<times> sql_value) list" where
  "set_clauses e version_col updates =
     (if version_col = ''updated_at'' \<and> ''updated_at'' \<notin> fst ` set updates
      then updates @ [(''updated_at'', STime (db_now e))] else updates)"

definition optimistic_update ::
  "env \<Rightarrow> string \<Rightarrow> string \<Rightarrow> sql_value \<Rightarrow> (string \<times> sql_value) list \<Rightarrow> string \<Rightarrow> sql_value \<Rightarrow> sql_row list
    \<Rightarrow> (consistency_error + nat) \<times> sql_row list" where
  "optimistic_update e table pk_col pk_val updates version_col expected t =
     (if updates = [] then (Inr 0, t)
      else if raises e 0 then (Inl Statement_error, t)
      else let P = version_guard pk_col pk_val version_col expected;
               n = count_where P t
           in if n = 0 then (Inl (Optimistic_lock_error table pk_val expected), t)
              else (Inr n, update_where P (set_columns (set_clauses e version_col updates)) t))"

definition assert_not_duplicate ::
  "env \<Rightarrow> string \<Rightarrow> string \<Rightarrow> string \<Rightarrow> sql_row list \<Rightarrow> consistency_error + unit" where
  "assert_not_duplicate e table key key_col t =
     (if raises e 0 then Inl Statement_error
      else if has_row (\<lambda>r. sql_equal (column key_col r) (SText key)) t
      then Inl (Duplicate_write_error table key) else Inr ())"

definition read_version ::
  "env \<Rightarrow> string \<Rightarrow> sql_value \<Rightarrow> string \<Rightarrow> sql_row list \<Rightarrow> consistency_error + sql_value option" where
  "read_version e pk_col pk_val version_col t =
     (if raises e 0 then Inl Statement_error
      else Inr (map_option (column version_col) (find (\<lambda>r. sql_equal (column pk_col r) pk_val) t)))"

subsection \<open>Writers that race on one row\<close>

record race_write =
  rw_env :: env
  rw_updates :: "(string \<times> sql_value) list"

fun race ::
  "string \<Rightarrow> string \<Rightarrow> sql_value \<Rightarrow> sql_value \<Rightarrow> race_write list \<Rightarrow> sql_row list
    \<Rightarrow> (consistency_error + nat) list \<times> sql_row list" where
  \<comment> \<open>writers that all read the same version of the row, in the order their updates run\<close>
  "race table pk_col pk_val expected [] t = ([], t)"
| "race table pk_col pk_val expected (w # ws) t =
     (let (x, t1) = optimistic_update (rw_env w) table pk_col pk_val (rw_updates w) ''updated_at'' expected t;
          (xs, t2) = race table pk_col pk_val expected ws t1
      in (x # xs, t2))"

definition applied :: "consistency_error + nat \<Rightarrow> bool" where
  "applied x = (case x of Inl _ \<Rightarrow> False | Inr n \<Rightarrow> 0 < n)"

definition wins :: "race_write \<Rightarrow> bool" where
  "wins w \<longleftrightarrow> rw_updates w \<noteq> [] \<and> \<not> raises (rw_env w) 0"

definition plain_write :: "string \<Rightarrow> race_write \<Rightarrow> bool" where
  "plain_write pk_col w \<longleftrightarrow> pk_col \<notin> fst ` set (rw_updates w) \<and> ''updated_at'' \<notin> fst ` set (rw_updates w)"

lemma column_set_columns:
  "column c (set_columns sets r) = (case map_of (rev sets) c of None \<Rightarrow> column c r | Some v \<Rightarrow> v)"
  unfolding set_columns_def
  by (induction sets arbitrary: r) (auto simp: column_def map_add_def split: option.splits)

lemma column_set_absent: "c \<notin> fst ` set sets \<Longrightarrow> column c (set_columns sets r) = column c r"
proof -
  assume "c \<notin> fst ` set sets"
  then have "map_of (rev sets) c = None" by (simp add: map_of_eq_None_iff)
  then show ?thesis by (simp add: column_set_columns)
qed

lemma version_after:
  assumes "plain_write pk_col w" "pk_col \<noteq> ''updated_at''"
  shows "column ''updated_at'' (set_columns (set_clauses e ''updated_at'' (rw_updates w)) r) = STime (db_now e)"
    and "column pk_col (set_columns (set_clauses e ''updated_at'' (rw_updates w)) r) = column pk_col r"
proof -
  have s: "set_clauses e ''updated_at'' (rw_updates w) = rw_updates w @ [(''updated_at'', STime (db_now e))]"
    using assms(1) by (simp add: set_clauses_def plain_write_def)
  show "column ''updated_at'' (set_columns (set_clauses e ''updated_at'' (rw_updates w)) r) = STime (db_now e)"
    by (simp add: s column_set_columns)
  show "column pk_col (set_columns (set_clauses e ''updated_at'' (rw_updates w)) r) = column pk_col r"
    using assms(1,2) by (intro column_set_absent) (auto simp: s plain_write_def)
qed

lemma update_lost:
  assumes "count_where (version_guard pk_col pk_val ''updated_at'' expected) t = 0"
  shows "optimistic_update e table pk_col pk_val us ''updated_at'' expected t =
    (if us = [] then Inr 0 else if raises e 0 then Inl Statement_error
     else Inl (Optimistic_lock_error table pk_val expected), t)"
  using assms by (simp add: optimistic_update_def Let_def)

lemma race_lost:
  assumes "count_where (version_guard pk_col pk_val ''updated_at'' expected) t = 0"
  shows "snd (race table pk_col pk_val expected ws t) = t
    \<and> (\<forall>x\<in>set (fst (race table pk_col pk_val expected ws t)). \<not> applied x)"
  by (induction ws) (simp_all add: update_lost [OF assms] applied_def Let_def split_def)

lemma no_guard_after_win:
  assumes "plain_write pk_col w" "pk_col \<noteq> ''updated_at''" "expected \<noteq> STime (db_now (rw_env w))"
  shows "count_where (version_guard pk_col pk_val ''updated_at'' expected)
    (update_where (version_guard pk_col pk_val ''updated_at'' expected)
      (set_columns (set_clauses (rw_env w) ''updated_at'' (rw_updates w))) t) = 0"
  using assms(3)
  by (induction t) (auto simp: count_where_def version_guard_def sql_equal_def version_after [OF assms(1,2)])

definition one_row :: "string \<Rightarrow> sql_value \<Rightarrow> sql_value \<Rightarrow> sql_row list \<Rightarrow> bool" where
  "one_row pk_col pk_val v t \<longleftrightarrow> pk_val \<noteq> SNull \<and> v \<noteq> SNull \<and>
     list_all (\<lambda>r. column pk_col r = pk_val \<longrightarrow> column ''updated_at'' r = v) t \<and>
     length (filter (\<lambda>r. column pk_col r = pk_val) t) = 1"

lemma one_row_guard: "one_row pk_col pk_val v t \<Longrightarrow> count_where (version_guard pk_col pk_val ''updated_at'' v) t = 1"
proof -
  assume o: "one_row pk_col pk_val v t"
  then have "filter (version_guard pk_col pk_val ''updated_at'' v) t = filter (\<lambda>r. column pk_col r = pk_val) t"
    by (intro filter_cong) (auto simp: one_row_def version_guard_def sql_equal_def list_all_iff)
  with o show ?thesis by (simp add: count_where_def one_row_def)
qed

text \<open>
  No update is lost. Let several writers have read the same version of a row and
  write with \<open>optimistic_update\<close> in any order, each setting columns other than the key and
  the version, at database times different from that version. Then exactly the first of
  them that changes something and whose statement does not raise succeeds, with one row;
  the table is the one that writer leaves; and every later writer changes nothing and is
  told so, by an error, or by zero rows when it had nothing to write.
\<close>

theorem no_lost_update:
  assumes "one_row pk_col pk_val v t" and "pk_col \<noteq> ''updated_at''"
    and "\<forall>w\<in>set ws. plain_write pk_col w \<and> STime (db_now (rw_env w)) \<noteq> v"
  shows "let (xs, t') = race table pk_col pk_val v ws t
    in filter applied xs = (if \<exists>w\<in>set ws. wins w then [Inr 1] else [])
     \<and> t' = (case find wins ws of
           None \<Rightarrow> t
         | Some w \<Rightarrow> update_where (version_guard pk_col pk_val ''updated_at'' v)
                      (set_columns (set_clauses (rw_env w) ''updated_at'' (rw_updates w))) t)"
  using assms(3)
proof (induction ws)
  case Nil
  then show ?case by simp
next
  case (Cons w ws)
  let ?upd = "update_where (version_guard pk_col pk_val ''updated_at'' v)
                (set_columns (set_clauses (rw_env w) ''updated_at'' (rw_updates w))) t"
  show ?case
  proof (cases "wins w")
    case True
    then have o: "optimistic_update (rw_env w) table pk_col pk_val (rw_updates w) ''updated_at'' v t = (Inr 1, ?upd)"
      using one_row_guard [OF assms(1)] by (simp add: optimistic_update_def wins_def Let_def)
    have "count_where (version_guard pk_col pk_val ''updated_at'' v) ?upd = 0"
      using no_guard_after_win [of pk_col w v pk_val t] Cons.prems assms(2) by auto
    note lost = race_lost [OF this, of table ws]
    have "filter applied (fst (race table pk_col pk_val v ws ?upd)) = []"
      using lost by (auto simp: filter_empty_conv)
    then show ?thesis using lost True by (simp add: o applied_def Let_def split_def)
  next
    case False
    then have "snd (optimistic_update (rw_env w) table pk_col pk_val (rw_updates w) ''updated_at'' v t) = t
      \<and> \<not> applied (fst (optimistic_update (rw_env w) table pk_col pk_val (rw_updates w) ''updated_at'' v t))"
      by (auto simp: optimistic_update_def wins_def applied_def)
    then show ?thesis using Cons False by (simp add: Let_def split_def)
  qed
qed

definition sample_row :: sql_row where
  "sample_row = [(''employee_id'', SInt 7), (''salary'', SInt 100), (''updated_at'', STime 5)]"

definition sample_writes :: "race_write list" where
  "sample_writes = [\<lparr>rw_env = env_at 10, rw_updates = [(''salary'', SInt 120)]\<rparr>,
     \<lparr>rw_env = env_at 11, rw_updates = [(''salary'', SInt 90)]\<rparr>]"

theorem no_lost_update_witness:
  "filter applied
     (fst (race ''wbom_employees'' ''employee_id'' (SInt 7) (STime 5) sample_writes [sample_row])) = [Inr 1]"
proof -
  have o: "one_row ''employee_id'' (SInt 7) (STime 5) [sample_row]"
    by (simp add: one_row_def sample_row_def column_def dict_get_def)
  show ?thesis
    using no_lost_update [OF o, of sample_writes "''wbom_employees''"]
    by (simp add: sample_writes_def plain_write_def wins_def Let_def split_def)
qed

end
