(* ===== verification/Self_Heal.thy ===== *)
theory Self_Heal
  imports Bridge_Orchestrator Outbound_Queue Processing_Locks
begin

text \<open>
  The self-healing layer, \<open>shared/self_heal.py\<close>: six checks that each give a pressure
  signal and may start a recovery, the weighted pressure score, and the panic mode with
  its two thresholds. The checks read the other components of this development: the
  bridge health of the orchestrator, the counts of the outbound queue, and the table of
  processing locks, which a check cleans. Floats are rationals. The detail text of an
  audit entry and the pressure in an event's payload are not modelled. The places where a
  check may raise are numbered: 0 the health snapshot, 1 and 2 the counts of the outbound
  queue, 3 the restart of the worker, 4 the restart of the heartbeat.
\<close>

definition PANIC_THRESHOLD :: rat where "PANIC_THRESHOLD = 85 / 100"
definition PANIC_CLEAR :: rat where "PANIC_CLEAR = 60 / 100"
definition QUEUE_STALL_THRESHOLD :: nat where "QUEUE_STALL_THRESHOLD = 50"
definition QUEUE_STORM_THRESHOLD :: nat where "QUEUE_STORM_THRESHOLD = 200"
definition RETRY_STORM_THRESHOLD :: nat where "RETRY_STORM_THRESHOLD = 20"
definition LOCK_STALE_WARN :: nat where "LOCK_STALE_WARN = 10"
definition AUDIT_LOG_MAX :: nat where "AUDIT_LOG_MAX = 200"

definition WEIGHTS :: "(string \<times> rat) list" where
  "WEIGHTS = [(''bridge_outage'', 30 / 100), (''dead_worker'', 25 / 100), (''queue_stall'', 20 / 100),
     (''ws_failure'', 10 / 100), (''retry_storm'', 10 / 100), (''stale_locks'', 5 / 100)]"

record heal_audit =
  ha_ts :: time
  ha_action :: string
  ha_severity :: string
  ha_pressure :: rat

record healer =
  sh_panic :: bool
  sh_throttled :: bool
  sh_pressure :: rat
  sh_signals :: "(string \<times> rat) list"
  sh_counts :: "(string \<times> nat) list"
  sh_audit :: "heal_audit list"

record heal_world =
  hw_healer :: healer
  hw_worker_dead :: bool
    \<comment> \<open>the outbound worker's task is absent or done\<close>
  hw_beat_dead :: bool
    \<comment> \<open>so is the task of the realtime heartbeat\<close>
  hw_bridges :: orchestrator
  hw_outbound :: outbound
  hw_locks :: "lock_row list"

definition new_healer :: healer where
  "new_healer = \<lparr>sh_panic = False, sh_throttled = False, sh_pressure = 0, sh_signals = [], sh_counts = [], sh_audit = []\<rparr>"

definition heal_emit :: "env \<Rightarrow> string \<Rightarrow> payload \<Rightarrow> heal_world \<Rightarrow> heal_world" where
  "heal_emit e et pl w = w\<lparr>hw_bridges := (hw_bridges w)\<lparr>oc_bus := emit e et pl ''unknown'' (oc_bus (hw_bridges w))\<rparr>\<rparr>"

definition on_healer :: "(healer \<Rightarrow> healer) \<Rightarrow> heal_world \<Rightarrow> heal_world" where
  "on_healer f w = w\<lparr>hw_healer := f (hw_healer w)\<rparr>"

definition audit :: "env \<Rightarrow> string \<Rightarrow> string \<Rightarrow> healer \<Rightarrow> healer" where
  \<comment> \<open>a deque with a maximal length drops its oldest entry\<close>
  "audit e action severity h =
     h\<lparr>sh_audit := py_suffix AUDIT_LOG_MAX (sh_audit h @
       [\<lparr>ha_ts = py_now e, ha_action = action, ha_severity = severity, ha_pressure = sh_pressure h\<rparr>])\<rparr>"

definition count_recovery :: "string \<Rightarrow> healer \<Rightarrow> healer" where
  "count_recovery c h = h\<lparr>sh_counts := dict_set c (dict_get 0 (sh_counts h) c + 1) (sh_counts h)\<rparr>"

subsection \<open>Recoveries\<close>

definition recover_outbound_worker :: "env \<Rightarrow> heal_world \<Rightarrow> heal_world" where
  "recover_outbound_worker e w =
     (if raises e 3 then w
      else let w1 = on_healer (audit e ''recover_outbound_worker'' ''info'' \<circ> count_recovery ''outbound_worker'')
                      (w\<lparr>hw_worker_dead := False\<rparr>)
           in heal_emit e ''self_heal_worker_restarted''
                [(''component'', JStr ''outbound_worker''),
                 (''count'', JInt (int (dict_get 0 (sh_counts (hw_healer w1)) ''outbound_worker'')))] w1)"

definition recover_ws_broadcaster :: "env \<Rightarrow> heal_world \<Rightarrow> heal_world" where
  "recover_ws_broadcaster e w =
     (if raises e 4 then w
      else let w1 = on_healer (audit e ''recover_ws_broadcaster'' ''info'' \<circ> count_recovery ''ws_broadcaster'')
                      (w\<lparr>hw_beat_dead := False\<rparr>)
           in heal_emit e ''self_heal_ws_restarted''
                [(''component'', JStr ''ws_broadcaster''),
                 (''count'', JInt (int (dict_get 0 (sh_counts (hw_healer w1)) ''ws_broadcaster'')))] w1)"

subsection \<open>Checks\<close>

record probe_answers =
  pa_net :: "string \<Rightarrow> string + payload"
  pa_lag :: "string \<Rightarrow> int"
  pa_sent :: "retry_item \<Rightarrow> send_outcome"

definition check_worker_health :: "env \<Rightarrow> heal_world \<Rightarrow> rat \<times> heal_world" where
  "check_worker_health e w =
     (if hw_worker_dead w then (1, recover_outbound_worker e (on_healer (audit e ''dead_worker'' ''critical'') w))
      else (0, w))"

definition check_websocket :: "env \<Rightarrow> heal_world \<Rightarrow> rat \<times> heal_world" where
  "check_websocket e w =
     (if hw_beat_dead w then (1, recover_ws_broadcaster e (on_healer (audit e ''ws_failure'' ''warning'') w))
      else (0, w))"

definition bridges_in :: "health_state \<Rightarrow> orchestrator \<Rightarrow> nat" where
  "bridges_in s o' = count_where (\<lambda>(n, h). h_state h = s) (oc_health o')"

definition check_bridge_health :: "env \<Rightarrow> probe_answers \<Rightarrow> heal_world \<Rightarrow> rat \<times> heal_world" where
  "check_bridge_health e pa w =
     (if raises e 0 then (0, w)
      else let outage = bridges_in H_outage (hw_bridges w); degraded = bridges_in H_degraded (hw_bridges w)
           in if outage > 0
              then (min (of_nat outage) 1,
                    (let w1 = on_healer (audit e ''bridge_outage'' ''warning'') w
                     in w1\<lparr>hw_bridges := probe_all e (pa_net pa) (pa_lag pa) (pa_sent pa) (hw_bridges w1)\<rparr>))
              else if degraded > 0 then (of_nat degraded * (15 / 100), w)
              else (0, w))"

definition check_queue_stall :: "env \<Rightarrow> heal_world \<Rightarrow> rat \<times> heal_world" where
  "check_queue_stall e w =
     (if raises e 1 then (0, w)
      else let pending = pending_count (hw_outbound w)
           in if pending \<ge> QUEUE_STORM_THRESHOLD
              then (1, heal_emit e ''queue_pressure'' [(''pending'', JInt (int pending)), (''level'', JStr ''storm'')]
                         (on_healer (audit e ''queue_storm'' ''critical'') w))
              else if pending \<ge> QUEUE_STALL_THRESHOLD
              then (max 0 (of_nat (pending - QUEUE_STALL_THRESHOLD) / of_nat (QUEUE_STORM_THRESHOLD - QUEUE_STALL_THRESHOLD)),
                    heal_emit e ''queue_pressure'' [(''pending'', JInt (int pending)), (''level'', JStr ''stall'')]
                      (on_healer (audit e ''queue_stall'' ''warning'') w))
              else (0, w))"

definition check_stale_locks :: "env \<Rightarrow> env \<Rightarrow> heal_world \<Rightarrow> rat \<times> heal_world" where
  \<comment> \<open>the second environment is the one the clean-up of the locks runs in\<close>
  "check_stale_locks e el w =
     (let (n, locks) = cleanup_expired_locks el (hw_locks w); w1 = w\<lparr>hw_locks := locks\<rparr>
      in if n \<ge> LOCK_STALE_WARN
         then (min (of_nat n / of_nat (LOCK_STALE_WARN * 4)) 1, on_healer (audit e ''stale_locks'' ''info'') w1)
         else (0, w1))"

definition check_retry_storm :: "env \<Rightarrow> heal_world \<Rightarrow> rat \<times> heal_world" where
  "check_retry_storm e w =
     (if raises e 2 then (0, w)
      else let dlq = dlq_count (hw_outbound w)
           in if dlq \<ge> RETRY_STORM_THRESHOLD
              then (min (of_nat dlq / of_nat (RETRY_STORM_THRESHOLD * 2)) 1, on_healer (audit e ''retry_storm'' ''warning'') w)
              else (0, w))"

definition compute_pressure :: "(string \<times> rat) list \<Rightarrow> rat" where
  "compute_pressure signals = max 0 (min 1 (sum_list (map (\<lambda>(k, v). dict_get 0 WEIGHTS k * v) signals)))"

definition maybe_enter_panic :: "env \<Rightarrow> heal_world \<Rightarrow> heal_world" where
  "maybe_enter_panic e w =
     (if sh_pressure (hw_healer w) \<ge> PANIC_THRESHOLD \<and> \<not> sh_panic (hw_healer w)
      then heal_emit e ''self_heal_panic'' []
             (on_healer (\<lambda>h. audit e ''panic_mode_entered'' ''critical'' (h\<lparr>sh_panic := True, sh_throttled := True\<rparr>)) w)
      else w)"

definition maybe_exit_panic :: "env \<Rightarrow> heal_world \<Rightarrow> heal_world" where
  "maybe_exit_panic e w =
     (if sh_pressure (hw_healer w) \<le> PANIC_CLEAR \<and> sh_panic (hw_healer w)
      then heal_emit e ''self_heal_recovered'' []
             (on_healer (\<lambda>h. audit e ''panic_mode_cleared'' ''info'' (h\<lparr>sh_panic := False, sh_throttled := False\<rparr>)) w)
      else w)"

definition self_heal_enabled :: "string \<Rightarrow> bool" where
  "self_heal_enabled flag \<longleftrightarrow> py_lower flag \<notin> {''0'', ''false'', ''no''}"

definition run_all_checks :: "string \<Rightarrow> env \<Rightarrow> env \<Rightarrow> probe_answers \<Rightarrow> heal_world \<Rightarrow> heal_world" where
  "run_all_checks flag e el pa w =
     (if \<not> self_heal_enabled flag then w
      else let (dead_worker, w1) = check_worker_health e w;
               (ws_failure, w2) = check_websocket e w1;
               (bridge_outage, w3) = check_bridge_health e pa w2;
               (queue_stall, w4) = check_queue_stall e w3;
               (stale_locks, w5) = check_stale_locks e el w4;
               (retry_storm, w6) = check_retry_storm e w5;
               signals = [(''dead_worker'', dead_worker), (''ws_failure'', ws_failure), (''bridge_outage'', bridge_outage),
                 (''queue_stall'', queue_stall), (''stale_locks'', stale_locks), (''retry_storm'', retry_storm)];
               w7 = on_healer (\<lambda>h. h\<lparr>sh_signals := signals, sh_pressure := compute_pressure signals\<rparr>) w6
           in maybe_exit_panic e (maybe_enter_panic e w7))"

definition is_panic_mode :: "heal_world \<Rightarrow> bool" where "is_panic_mode w = sh_panic (hw_healer w)"
definition is_throttled :: "heal_world \<Rightarrow> bool" where "is_throttled w = sh_throttled (hw_healer w)"
definition get_pressure_score :: "heal_world \<Rightarrow> rat" where "get_pressure_score w = sh_pressure (hw_healer w)"

subsection \<open>What a check leaves alone\<close>

definition calm :: "heal_world \<Rightarrow> heal_world \<Rightarrow> bool" where
  \<comment> \<open>the mode, the queue and the set of bridges are untouched, the audit log stays bounded\<close>
  "calm w w' \<longleftrightarrow> sh_panic (hw_healer w') = sh_panic (hw_healer w) \<and> sh_throttled (hw_healer w') = sh_throttled (hw_healer w) \<and>
     (length (sh_audit (hw_healer w)) \<le> AUDIT_LOG_MAX \<longrightarrow> length (sh_audit (hw_healer w')) \<le> AUDIT_LOG_MAX) \<and>
     hw_outbound w' = hw_outbound w \<and> length (oc_health (hw_bridges w')) = length (oc_health (hw_bridges w)) \<and>
     (no_outage (hw_bridges w) \<longrightarrow> no_outage (hw_bridges w'))"

lemma calm_refl [simp]: "calm w w"
  by (simp add: calm_def)

lemma calm_trans: "calm w w1 \<Longrightarrow> calm w1 w2 \<Longrightarrow> calm w w2"
  by (simp add: calm_def)

lemma audit_simps [simp]:
  "sh_panic (audit e a s h) = sh_panic h" "sh_throttled (audit e a s h) = sh_throttled h"
  "sh_pressure (audit e a s h) = sh_pressure h" "sh_signals (audit e a s h) = sh_signals h"
  "sh_counts (audit e a s h) = sh_counts h" "length (sh_audit (audit e a s h)) \<le> AUDIT_LOG_MAX"
  by (simp_all add: audit_def)

lemma count_recovery_simps [simp]:
  "sh_panic (count_recovery c h) = sh_panic h" "sh_throttled (count_recovery c h) = sh_throttled h"
  "sh_audit (count_recovery c h) = sh_audit h"
  by (simp_all add: count_recovery_def)

lemma heal_emit_simps [simp]:
  "hw_healer (heal_emit e et pl w) = hw_healer w" "hw_worker_dead (heal_emit e et pl w) = hw_worker_dead w"
  "hw_beat_dead (heal_emit e et pl w) = hw_beat_dead w" "hw_outbound (heal_emit e et pl w) = hw_outbound w"
  "hw_locks (heal_emit e et pl w) = hw_locks w" "oc_health (hw_bridges (heal_emit e et pl w)) = oc_health (hw_bridges w)"
  "no_outage (hw_bridges (heal_emit e et pl w)) = no_outage (hw_bridges w)"
  by (simp_all add: heal_emit_def no_outage_def)

lemma on_healer_simps [simp]:
  "hw_healer (on_healer f w) = f (hw_healer w)" "hw_worker_dead (on_healer f w) = hw_worker_dead w"
  "hw_beat_dead (on_healer f w) = hw_beat_dead w" "hw_outbound (on_healer f w) = hw_outbound w"
  "hw_locks (on_healer f w) = hw_locks w" "hw_bridges (on_healer f w) = hw_bridges w"
  by (simp_all add: on_healer_def)

lemma length_dict_set: "map_of d k \<noteq> None \<Longrightarrow> length (dict_set k v d) = length d"
  by (induction d) auto

lemma update_health_length [simp]: "length (oc_health (update_health n f o')) = length (oc_health o')"
  by (auto simp: update_health_def length_dict_set split: option.splits)

lemma orch_emit_health [simp]: "oc_health (orch_emit e et pl o') = oc_health o'"
  by (simp add: orch_emit_def)

lemma record_probe_length [simp]: "length (oc_health (record_probe_result e n lag o')) = length (oc_health o')"
  by (auto simp: record_probe_result_def length_dict_set Let_def split: option.splits)

lemma drain_retry_length [simp]: "length (oc_health (drain_retry_for_bridge e sent n o')) = length (oc_health o')"
  by (auto simp: drain_retry_for_bridge_def Let_def split_def)

lemma probe_all_length [simp]: "length (oc_health (probe_all e net lag sent o')) = length (oc_health o')"
  by (simp add: probe_all_def probe_bridge_def Let_def)

lemma probe_all_no_outage: "no_outage o' \<Longrightarrow> no_outage (probe_all e net lag sent o')"
  by (simp add: probe_all_def probe_no_outage)

lemma calm_worker: "calm w (snd (check_worker_health e w))"
  by (simp add: check_worker_health_def recover_outbound_worker_def calm_def Let_def)

lemma calm_websocket: "calm w (snd (check_websocket e w))"
  by (simp add: check_websocket_def recover_ws_broadcaster_def calm_def Let_def)

lemma calm_bridge: "calm w (snd (check_bridge_health e pa w))"
  by (simp add: check_bridge_health_def calm_def Let_def probe_all_no_outage)

lemma calm_stall: "calm w (snd (check_queue_stall e w))"
  by (simp add: check_queue_stall_def calm_def Let_def)

lemma calm_locks: "calm w (snd (check_stale_locks e el w))"
  by (simp add: check_stale_locks_def calm_def Let_def split_def)

lemma calm_retry: "calm w (snd (check_retry_storm e w))"
  by (simp add: check_retry_storm_def calm_def Let_def)

lemmas checks_calm = calm_worker calm_websocket calm_bridge calm_stall calm_locks calm_retry

subsection \<open>Signals\<close>

lemma signal_worker: "fst (check_worker_health e w) = of_bool (hw_worker_dead w)"
  by (simp add: check_worker_health_def)

lemma signal_websocket: "fst (check_websocket e w) = of_bool (hw_beat_dead w)"
  by (simp add: check_websocket_def)

lemma signal_stall: "0 \<le> fst (check_queue_stall e w) \<and> fst (check_queue_stall e w) \<le> 1"
  by (auto simp: check_queue_stall_def Let_def QUEUE_STALL_THRESHOLD_def QUEUE_STORM_THRESHOLD_def)

lemma signal_locks: "0 \<le> fst (check_stale_locks e el w) \<and> fst (check_stale_locks e el w) \<le> 1"
  by (simp add: check_stale_locks_def Let_def split_def)

lemma signal_retry: "0 \<le> fst (check_retry_storm e w) \<and> fst (check_retry_storm e w) \<le> 1"
  by (simp add: check_retry_storm_def Let_def)

lemma bridges_in_le: "bridges_in s o' \<le> length (oc_health o')"
  by (simp add: bridges_in_def count_where_def)

lemma signal_bridge:
  assumes "length (oc_health (hw_bridges w)) = 2"
  shows "0 \<le> fst (check_bridge_health e pa w) \<and> fst (check_bridge_health e pa w) \<le> 1"
    and "no_outage (hw_bridges w) \<Longrightarrow> fst (check_bridge_health e pa w) \<le> 30 / 100"
proof -
  have d: "(of_nat (bridges_in H_degraded (hw_bridges w)) :: rat) \<le> 2"
    using bridges_in_le [of H_degraded "hw_bridges w"] assms of_nat_le_iff [of "bridges_in H_degraded (hw_bridges w)" 2, where ?'a = rat]
    by simp
  show "0 \<le> fst (check_bridge_health e pa w) \<and> fst (check_bridge_health e pa w) \<le> 1"
    using d by (auto simp: check_bridge_health_def Let_def)
  assume "no_outage (hw_bridges w)"
  then have "bridges_in H_outage (hw_bridges w) = 0"
    by (auto simp: bridges_in_def count_where_def no_outage_def filter_empty_conv)
  then show "fst (check_bridge_health e pa w) \<le> 30 / 100"
    using d by (auto simp: check_bridge_health_def Let_def)
qed

subsection \<open>A cycle\<close>

lemma cycle_obtain:
  assumes "self_heal_enabled flag" "length (oc_health (hw_bridges w)) = 2"
  obtains w6 s1 s2 s3 s4 s5 s6 where
    "run_all_checks flag e el pa w = maybe_exit_panic e (maybe_enter_panic e
       (on_healer (\<lambda>h. h\<lparr>sh_signals := [(''dead_worker'', s1), (''ws_failure'', s2), (''bridge_outage'', s3),
          (''queue_stall'', s4), (''stale_locks'', s5), (''retry_storm'', s6)],
        sh_pressure := 25 / 100 * s1 + 10 / 100 * s2 + 30 / 100 * s3 + 20 / 100 * s4 + 5 / 100 * s5 + 10 / 100 * s6\<rparr>) w6))"
    "calm w w6" "\<forall>s\<in>{s1, s2, s3, s4, s5, s6}. 0 \<le> s \<and> s \<le> 1" "no_outage (hw_bridges w) \<longrightarrow> s3 \<le> 30 / 100"
proof -
  define w1 where "w1 = snd (check_worker_health e w)"
  define w2 where "w2 = snd (check_websocket e w1)"
  define w3 where "w3 = snd (check_bridge_health e pa w2)"
  define w4 where "w4 = snd (check_queue_stall e w3)"
  define w5 where "w5 = snd (check_stale_locks e el w4)"
  define w6 where "w6 = snd (check_retry_storm e w5)"
  define s1 where "s1 = fst (check_worker_health e w)"
  define s2 where "s2 = fst (check_websocket e w1)"
  define s3 where "s3 = fst (check_bridge_health e pa w2)"
  define s4 where "s4 = fst (check_queue_stall e w3)"
  define s5 where "s5 = fst (check_stale_locks e el w4)"
  define s6 where "s6 = fst (check_retry_storm e w5)"
  have c2: "calm w w2" using calm_trans [OF calm_worker calm_websocket] by (simp add: w1_def w2_def)
  have "calm w2 w4" using calm_trans [OF calm_bridge calm_stall] by (simp add: w3_def w4_def)
  moreover have "calm w4 w6" using calm_trans [OF calm_locks calm_retry] by (simp add: w5_def w6_def)
  ultimately have c6: "calm w w6" using c2 calm_trans by blast
  have l2: "length (oc_health (hw_bridges w2)) = 2" "no_outage (hw_bridges w) \<Longrightarrow> no_outage (hw_bridges w2)"
    using c2 assms(2) by (simp_all add: calm_def)
  have r: "\<forall>s\<in>{s1, s2, s3, s4, s5, s6}. 0 \<le> s \<and> s \<le> 1"
    using signal_bridge(1) [OF l2(1)] signal_stall signal_locks signal_retry
    by (simp add: s1_def s2_def s3_def s4_def s5_def s6_def signal_worker signal_websocket)
  let ?sum = "25 / 100 * s1 + 10 / 100 * s2 + 30 / 100 * s3 + 20 / 100 * s4 + 5 / 100 * s5 + 10 / 100 * s6"
  have "compute_pressure [(''dead_worker'', s1), (''ws_failure'', s2), (''bridge_outage'', s3),
      (''queue_stall'', s4), (''stale_locks'', s5), (''retry_storm'', s6)] = max 0 (min 1 ?sum)"
    by (simp add: compute_pressure_def WEIGHTS_def dict_get_def add.assoc)
  also have "\<dots> = ?sum"
  proof -
    have "0 \<le> ?sum" "?sum \<le> 1" using r by simp_all
    then show ?thesis by simp
  qed
  finally have p: "compute_pressure [(''dead_worker'', s1), (''ws_failure'', s2), (''bridge_outage'', s3),
      (''queue_stall'', s4), (''stale_locks'', s5), (''retry_storm'', s6)] = ?sum" .
  have "run_all_checks flag e el pa w = maybe_exit_panic e (maybe_enter_panic e
       (on_healer (\<lambda>h. h\<lparr>sh_signals := [(''dead_worker'', s1), (''ws_failure'', s2), (''bridge_outage'', s3),
          (''queue_stall'', s4), (''stale_locks'', s5), (''retry_storm'', s6)], sh_pressure := ?sum\<rparr>) w6))"
    unfolding p [symmetric] using assms(1)
    unfolding run_all_checks_def Let_def split_def w1_def w2_def w3_def w4_def w5_def w6_def
      s1_def s2_def s3_def s4_def s5_def s6_def by (simp only: not_not not_True_eq_False if_False)
  moreover have "no_outage (hw_bridges w) \<longrightarrow> s3 \<le> 30 / 100"
    unfolding s3_def using signal_bridge(2) [OF l2(1) l2(2)] by blast
  ultimately show thesis using that c6 r by blast
qed

definition settle_panic :: "rat \<Rightarrow> bool \<Rightarrow> bool" where
  \<comment> \<open>the mode after a cycle that found the pressure, from the mode before it\<close>
  "settle_panic pressure panic = (if pressure \<ge> PANIC_THRESHOLD then True else if pressure \<le> PANIC_CLEAR then False else panic)"

lemma panic_settles:
  assumes "sh_throttled (hw_healer w) = sh_panic (hw_healer w)" "length (sh_audit (hw_healer w)) \<le> AUDIT_LOG_MAX"
  shows "case hw_healer (maybe_exit_panic e (maybe_enter_panic e w)) of h \<Rightarrow>
    sh_panic h = settle_panic (sh_pressure (hw_healer w)) (sh_panic (hw_healer w)) \<and> sh_throttled h = sh_panic h
    \<and> sh_pressure h = sh_pressure (hw_healer w) \<and> sh_signals h = sh_signals (hw_healer w)
    \<and> length (sh_audit h) \<le> AUDIT_LOG_MAX"
  using assms
  by (auto simp: maybe_exit_panic_def maybe_enter_panic_def settle_panic_def PANIC_THRESHOLD_def PANIC_CLEAR_def)

lemma mode_bridges:
  "oc_health (hw_bridges (maybe_exit_panic e (maybe_enter_panic e w))) = oc_health (hw_bridges w)"
  "no_outage (hw_bridges (maybe_exit_panic e (maybe_enter_panic e w))) = no_outage (hw_bridges w)"
  by (simp_all add: maybe_exit_panic_def maybe_enter_panic_def)

text \<open>
  The bounds of a check cycle. With the two bridges of the orchestrator, whatever the
  checks find and whichever of them raise, a cycle leaves every signal and the pressure
  between 0 and 1; the pressure is the weighted sum of the signals, so the clamp never acts;
  the panic mode is on when the pressure is at least 0.85, off when it is at most 0.60, and as it
  was in between; the throttle follows the panic mode; and the audit log holds at most 200 entries.
\<close>

theorem cycle_bounds:
  assumes "self_heal_enabled flag" and "length (oc_health (hw_bridges w)) = 2"
    and "sh_throttled (hw_healer w) = sh_panic (hw_healer w)" and "length (sh_audit (hw_healer w)) \<le> AUDIT_LOG_MAX"
  shows "case hw_healer (run_all_checks flag e el pa w) of h \<Rightarrow>
    list_all (\<lambda>(k, s). 0 \<le> s \<and> s \<le> 1) (sh_signals h) \<and> 0 \<le> sh_pressure h \<and> sh_pressure h \<le> 1
    \<and> sh_pressure h = sum_list (map (\<lambda>(k, s). dict_get 0 WEIGHTS k * s) (sh_signals h))
    \<and> sh_panic h = settle_panic (sh_pressure h) (sh_panic (hw_healer w)) \<and> sh_throttled h = sh_panic h
    \<and> length (sh_audit h) \<le> AUDIT_LOG_MAX"
proof -
  obtain w6 s1 s2 s3 s4 s5 s6 where c: "run_all_checks flag e el pa w = maybe_exit_panic e (maybe_enter_panic e
       (on_healer (\<lambda>h. h\<lparr>sh_signals := [(''dead_worker'', s1), (''ws_failure'', s2), (''bridge_outage'', s3),
          (''queue_stall'', s4), (''stale_locks'', s5), (''retry_storm'', s6)],
        sh_pressure := 25 / 100 * s1 + 10 / 100 * s2 + 30 / 100 * s3 + 20 / 100 * s4 + 5 / 100 * s5 + 10 / 100 * s6\<rparr>) w6))"
      (is "_ = maybe_exit_panic e (maybe_enter_panic e ?w7)")
    and calm: "calm w w6" and r: "\<forall>s\<in>{s1, s2, s3, s4, s5, s6}. 0 \<le> s \<and> s \<le> 1"
    by (rule cycle_obtain [OF assms(1,2), of e el pa])
  have "sh_throttled (hw_healer ?w7) = sh_panic (hw_healer ?w7)" "length (sh_audit (hw_healer ?w7)) \<le> AUDIT_LOG_MAX"
    using calm assms(3,4) by (simp_all add: calm_def)
  note s = panic_settles [OF this, of e]
  have "sh_panic (hw_healer ?w7) = sh_panic (hw_healer w)" using calm by (simp add: calm_def)
  moreover have "0 \<le> sh_pressure (hw_healer ?w7) \<and> sh_pressure (hw_healer ?w7) \<le> 1" using r by simp
  moreover have "list_all (\<lambda>(k, s). 0 \<le> s \<and> s \<le> 1) (sh_signals (hw_healer ?w7))" using r by simp
  moreover have "sh_pressure (hw_healer ?w7) = sum_list (map (\<lambda>(k, s). dict_get 0 WEIGHTS k * s) (sh_signals (hw_healer ?w7)))"
    by (simp add: WEIGHTS_def dict_get_def)
  ultimately show ?thesis using s unfolding c by simp
qed

subsection \<open>The healer among the components it watches\<close>

inductive heal_step :: "heal_world \<Rightarrow> heal_world \<Rightarrow> bool" where
  cycle: "heal_step w (run_all_checks flag e el pa w)"
| bridges: "orch_step (hw_bridges w) o' \<Longrightarrow> heal_step w (w\<lparr>hw_bridges := o'\<rparr>)"
| others: "heal_step w (w\<lparr>hw_worker_dead := wd, hw_beat_dead := bd, hw_outbound := ob, hw_locks := ls\<rparr>)"

definition heal_start :: "heal_world \<Rightarrow> bool" where
  "heal_start w \<longleftrightarrow> hw_healer w = new_healer \<and> orch_start (hw_bridges w)"

definition heal_inv :: "heal_world \<Rightarrow> bool" where
  "heal_inv w \<longleftrightarrow> no_outage (hw_bridges w) \<and> length (oc_health (hw_bridges w)) = 2 \<and>
     \<not> sh_panic (hw_healer w) \<and> \<not> sh_throttled (hw_healer w) \<and> sh_pressure (hw_healer w) \<le> 79 / 100 \<and>
     length (sh_audit (hw_healer w)) \<le> AUDIT_LOG_MAX"

lemma orch_step_length: "orch_step o' o'' \<Longrightarrow> length (oc_health o'') = length (oc_health o')"
proof (induction rule: orch_step.induct)
  case (register o' sha e b sender content ts)
  then show ?case by (simp add: register_message_def Let_def mark_seen_local_def dedup_sweep_def)
next
  case (send o' e outcome jid s preferred exclude)
  then show ?case
    by (auto simp: send_with_failover_def enqueue_retry_def Let_def split: option.split sum.split unit.split)
next
  case (retry o' e sent)
  then show ?case by (auto simp: retry_tick_def Let_def split_def)
qed simp

lemma heal_inv_cycle:
  assumes "heal_inv w"
  shows "heal_inv (run_all_checks flag e el pa w)"
proof (cases "self_heal_enabled flag")
  case False
  with assms show ?thesis by (simp add: run_all_checks_def)
next
  case True
  have i: "length (oc_health (hw_bridges w)) = 2" "no_outage (hw_bridges w)" using assms by (simp_all add: heal_inv_def)
  obtain w6 s1 s2 s3 s4 s5 s6 where c: "run_all_checks flag e el pa w = maybe_exit_panic e (maybe_enter_panic e
       (on_healer (\<lambda>h. h\<lparr>sh_signals := [(''dead_worker'', s1), (''ws_failure'', s2), (''bridge_outage'', s3),
          (''queue_stall'', s4), (''stale_locks'', s5), (''retry_storm'', s6)],
        sh_pressure := 25 / 100 * s1 + 10 / 100 * s2 + 30 / 100 * s3 + 20 / 100 * s4 + 5 / 100 * s5 + 10 / 100 * s6\<rparr>) w6))"
      (is "_ = maybe_exit_panic e (maybe_enter_panic e ?w7)")
    and calm: "calm w w6" and r: "\<forall>s\<in>{s1, s2, s3, s4, s5, s6}. 0 \<le> s \<and> s \<le> 1" and s3: "no_outage (hw_bridges w) \<longrightarrow> s3 \<le> 30 / 100"
    by (rule cycle_obtain [OF True i(1), of e el pa])
  have p: "sh_pressure (hw_healer ?w7) \<le> 79 / 100" using r s3 i(2) by simp
  have "\<not> sh_panic (hw_healer ?w7)" "sh_throttled (hw_healer ?w7) = sh_panic (hw_healer ?w7)"
      "length (sh_audit (hw_healer ?w7)) \<le> AUDIT_LOG_MAX"
    using calm assms by (simp_all add: calm_def heal_inv_def)
  moreover from this have "settle_panic (sh_pressure (hw_healer ?w7)) (sh_panic (hw_healer ?w7)) = False"
    using p by (simp add: settle_panic_def PANIC_THRESHOLD_def)
  ultimately show ?thesis
    using panic_settles [of ?w7 e] p calm i unfolding c by (simp add: heal_inv_def mode_bridges calm_def)
qed

interpretation heal_system: invariant_system heal_start heal_step heal_inv
proof unfold_locales
  show "heal_start s \<Longrightarrow> heal_inv s" for s
    by (auto simp: heal_start_def heal_inv_def new_healer_def orch_start_def new_orchestrator_def new_health_def no_outage_def)
  show "heal_step s t \<Longrightarrow> heal_inv s \<Longrightarrow> heal_inv t" for s t
  proof (induction rule: heal_step.induct)
    case (cycle w flag e el pa)
    then show ?case by (rule heal_inv_cycle)
  next
    case (bridges w o')
    then show ?case
      using orch_system.step_inv [OF bridges.hyps] orch_step_length [OF bridges.hyps] by (simp add: heal_inv_def)
  next
    case (others w wd bd ob ls)
    then show ?case by (simp add: heal_inv_def)
  qed
qed

text \<open>
  The panic mode is never reached. Take the healer beside the bridge orchestrator: any
  interleaving of check cycles with the steps of the orchestrator, with the outbound queue, the
  locks and the two tasks in any state at any time. Because a bridge is never found in outage, the
  pressure stays at or below 0.79, so the panic mode and the throttle, which begin at 0.85, are
  never entered, however bad the rest is.
\<close>

theorem panic_unreachable:
  assumes "reach heal_start heal_step w"
  shows "\<not> is_panic_mode w \<and> \<not> is_throttled w \<and> get_pressure_score w \<le> 79 / 100"
  using heal_system.reach_inv [OF assms]
  by (simp add: heal_inv_def is_panic_mode_def is_throttled_def get_pressure_score_def)

definition sample_world :: heal_world where
  "sample_world = \<lparr>hw_healer = new_healer, hw_worker_dead = True, hw_beat_dead = True,
     hw_bridges = new_orchestrator 0 ''n1'' ''n2'' empty_bus, hw_outbound = empty_outbound, hw_locks = []\<rparr>"

definition sample_answers :: probe_answers where
  "sample_answers = \<lparr>pa_net = \<lambda>_. Inl ''refused'', pa_lag = \<lambda>_. 40, pa_sent = \<lambda>_. Bridge_send_error\<rparr>"

lemma sample_world_start: "heal_start sample_world"
  by (auto simp: heal_start_def sample_world_def orch_start_def)

theorem cycle_bounds_witness:
  "sh_throttled (hw_healer (run_all_checks ''true'' (env_at 5) (env_at 5) sample_answers sample_world)) =
     settle_panic (sh_pressure (hw_healer (run_all_checks ''true'' (env_at 5) (env_at 5) sample_answers sample_world))) False"
proof -
  have "self_heal_enabled ''true''" by (simp add: self_heal_enabled_def py_lower_def lower_char_def)
  moreover have "length (oc_health (hw_bridges sample_world)) = 2" "\<not> sh_throttled (hw_healer sample_world)"
    "\<not> sh_panic (hw_healer sample_world)" "length (sh_audit (hw_healer sample_world)) \<le> AUDIT_LOG_MAX"
    by (simp_all add: sample_world_def new_orchestrator_def new_healer_def)
  ultimately show ?thesis
    using cycle_bounds [of "''true''" sample_world "env_at 5" "env_at 5" sample_answers] by simp
qed

theorem panic_unreachable_witness:
  "\<not> is_panic_mode (run_all_checks ''true'' (env_at 5) (env_at 5) sample_answers sample_world)"
proof -
  have "reach heal_start heal_step sample_world" by (rule reach_start) (rule sample_world_start)
  then have "reach heal_start heal_step (run_all_checks ''true'' (env_at 5) (env_at 5) sample_answers sample_world)"
    by (rule reach_step) (rule heal_step.cycle)
  from panic_unreachable [OF this] show ?thesis by blast
qed

subsection \<open>What a cycle repairs\<close>

lemma worker_after [simp]:
  "hw_worker_dead (snd (check_worker_health e w)) = (hw_worker_dead w \<and> raises e 3)"
  "hw_beat_dead (snd (check_worker_health e w)) = hw_beat_dead w" "hw_locks (snd (check_worker_health e w)) = hw_locks w"
  by (simp_all add: check_worker_health_def recover_outbound_worker_def Let_def)

lemma websocket_after [simp]:
  "hw_beat_dead (snd (check_websocket e w)) = (hw_beat_dead w \<and> raises e 4)"
  "hw_worker_dead (snd (check_websocket e w)) = hw_worker_dead w" "hw_locks (snd (check_websocket e w)) = hw_locks w"
  by (simp_all add: check_websocket_def recover_ws_broadcaster_def Let_def)

lemma bridge_after [simp]:
  "hw_beat_dead (snd (check_bridge_health e pa w)) = hw_beat_dead w"
  "hw_worker_dead (snd (check_bridge_health e pa w)) = hw_worker_dead w" "hw_locks (snd (check_bridge_health e pa w)) = hw_locks w"
  by (simp_all add: check_bridge_health_def Let_def)

lemma stall_after [simp]:
  "hw_beat_dead (snd (check_queue_stall e w)) = hw_beat_dead w"
  "hw_worker_dead (snd (check_queue_stall e w)) = hw_worker_dead w" "hw_locks (snd (check_queue_stall e w)) = hw_locks w"
  by (simp_all add: check_queue_stall_def Let_def)

lemma locks_after [simp]:
  "hw_beat_dead (snd (check_stale_locks e el w)) = hw_beat_dead w"
  "hw_worker_dead (snd (check_stale_locks e el w)) = hw_worker_dead w"
  "hw_locks (snd (check_stale_locks e el w)) = snd (cleanup_expired_locks el (hw_locks w))"
  by (simp_all add: check_stale_locks_def Let_def split_def)

lemma retry_after [simp]:
  "hw_beat_dead (snd (check_retry_storm e w)) = hw_beat_dead w"
  "hw_worker_dead (snd (check_retry_storm e w)) = hw_worker_dead w" "hw_locks (snd (check_retry_storm e w)) = hw_locks w"
  by (simp_all add: check_retry_storm_def Let_def)

lemma panic_after [simp]:
  "hw_beat_dead (maybe_exit_panic e (maybe_enter_panic e w)) = hw_beat_dead w"
  "hw_worker_dead (maybe_exit_panic e (maybe_enter_panic e w)) = hw_worker_dead w"
  "hw_locks (maybe_exit_panic e (maybe_enter_panic e w)) = hw_locks w"
  by (simp_all add: maybe_exit_panic_def maybe_enter_panic_def)

text \<open>
  A cycle repairs what it can. After one cycle the outbound worker and the realtime
  heartbeat are running, unless restarting that one raised, and every expired processing lock is
  gone, and no other, when the clean-up's statement succeeds; a cycle of a disabled healer changes
  nothing.
\<close>

theorem cycle_repairs:
  "case run_all_checks flag e el pa w of w' \<Rightarrow>
    (if self_heal_enabled flag
     then hw_worker_dead w' = (hw_worker_dead w \<and> raises e 3) \<and> hw_beat_dead w' = (hw_beat_dead w \<and> raises e 4)
        \<and> hw_locks w' = (if raises el 0 then hw_locks w else delete_where (expired_lock (db_now el)) (hw_locks w))
     else w' = w)"
  by (simp add: run_all_checks_def Let_def split_def cleanup_expired_locks_def)

end
