(* ===== verification/Frontend_Sync.thy ===== *)
theory Frontend_Sync
  imports Event_Bus State_Version Complex_Main
begin

text \<open>
  The synchronisation of the dashboards, \<open>shared/frontend_sync.py\<close>: the registry of clients
  with their heartbeats, the sweep that marks clients as stale and announces them on the event
  bus, the purge of clients that have gone, the window of latency samples, and the response
  header with the state version. The state version is read through \<^theory_text>\<open>State_Version\<close>;
  whether Redis answers is an argument. Latencies are counted in microseconds.
\<close>

definition STALE_THRESHOLD_S :: int where "STALE_THRESHOLD_S = 120"
definition RECONNECT_STORM_CAP :: int where "RECONNECT_STORM_CAP = 10"
definition VERSION_LAG_THRESHOLD :: int where "VERSION_LAG_THRESHOLD = 2"
definition MAX_BACKOFF_HINT_S :: int where "MAX_BACKOFF_HINT_S = 30"
definition LATENCY_SAMPLE_MAX :: nat where "LATENCY_SAMPLE_MAX = 1000"

record client =
  cl_version :: int
  cl_reconnects :: int
  cl_beat :: time
  cl_since :: time
  cl_stale :: bool

record sync =
  sy_clients :: "(string \<times> client) list"
  sy_samples :: "int list"
  sy_heartbeats :: nat
  sy_detected :: nat
  sy_stale_replies :: nat
  sy_observed :: nat
  sy_bus :: bus

record beat_reply =
  br_stale :: bool
  br_current :: int
  br_lag :: int
  br_backoff :: int

definition backoff_hint :: "int \<Rightarrow> int" where
  "backoff_hint reconnect_count =
     (if reconnect_count \<le> 0 then 0
      else if reconnect_count \<ge> RECONNECT_STORM_CAP then MAX_BACKOFF_HINT_S
      else \<lfloor>min ((3 / 2 :: rat) ^ nat (reconnect_count - 1)) (of_int MAX_BACKOFF_HINT_S)\<rfloor>)"

definition register_heartbeat ::
  "bool \<Rightarrow> env \<Rightarrow> version_store \<Rightarrow> string \<Rightarrow> int \<Rightarrow> int \<Rightarrow> sync \<Rightarrow> beat_reply \<times> sync" where
  "register_heartbeat up e vs cid version reconnects s =
     (let current = get_state_version up e vs;
          stale = (current - version > VERSION_LAG_THRESHOLD);
          c = (case map_of (sy_clients s) cid of
                 None \<Rightarrow> \<lparr>cl_version = version, cl_reconnects = reconnects, cl_beat = py_now e, cl_since = py_now e, cl_stale = stale\<rparr>
               | Some c \<Rightarrow> c\<lparr>cl_version := version, cl_reconnects := reconnects, cl_beat := py_now e, cl_stale := stale\<rparr>)
      in (\<lparr>br_stale = stale, br_current = current, br_lag = current - version, br_backoff = backoff_hint reconnects\<rparr>,
          s\<lparr>sy_clients := dict_set cid c (sy_clients s), sy_heartbeats := sy_heartbeats s + 1,
            sy_stale_replies := sy_stale_replies s + of_bool stale\<rparr>))"

definition purge_inactive_clients :: "env \<Rightarrow> int \<Rightarrow> sync \<Rightarrow> nat \<times> sync" where
  "purge_inactive_clients e threshold s =
     (let gone = (\<lambda>(k, c). cl_beat c < py_now e - secs threshold)
      in (count_where gone (sy_clients s), s\<lparr>sy_clients := delete_where gone (sy_clients s)\<rparr>))"

definition is_stale :: "env \<Rightarrow> int \<Rightarrow> client \<Rightarrow> bool" where
  "is_stale e current c \<longleftrightarrow> py_now e - cl_beat c > secs STALE_THRESHOLD_S \<or> current - cl_version c > VERSION_LAG_THRESHOLD"

fun sweep_clients :: "env \<Rightarrow> int \<Rightarrow> (string \<times> client) list \<Rightarrow> string list \<times> (string \<times> client) list" where
  \<comment> \<open>the loop over the registry, under its lock\<close>
  "sweep_clients e current [] = ([], [])"
| "sweep_clients e current ((k, c) # cs) =
     (let (newly, cs') = sweep_clients e current cs
      in if is_stale e current c \<and> \<not> cl_stale c then (k # newly, (k, c\<lparr>cl_stale := True\<rparr>) # cs')
         else if \<not> is_stale e current c \<and> cl_stale c then (newly, (k, c\<lparr>cl_stale := False\<rparr>) # cs')
         else (newly, (k, c) # cs'))"

definition announce_stale :: "env \<Rightarrow> int \<Rightarrow> string \<Rightarrow> bus \<Rightarrow> bus" where
  "announce_stale e current cid = emit e ''stale_frontend''
     [(''client_id'', JStr cid), (''current_version'', JInt current), (''reason'', JStr ''heartbeat_stale_or_version_lag'')]
     ''frontend_sync''"

definition detect_stale_clients :: "bool \<Rightarrow> env \<Rightarrow> version_store \<Rightarrow> sync \<Rightarrow> string list \<times> sync" where
  "detect_stale_clients up e vs s =
     (let current = get_state_version up e vs;
          (newly, cs) = sweep_clients e current (sy_clients s)
      in (newly, s\<lparr>sy_clients := cs, sy_detected := sy_detected s + length newly,
                   sy_bus := fold (announce_stale e current) newly (sy_bus s)\<rparr>))"

definition count_stale_clients :: "sync \<Rightarrow> nat" where
  "count_stale_clients s = count_where (\<lambda>(k, c). cl_stale c) (sy_clients s)"

definition count_active_clients :: "env \<Rightarrow> sync \<Rightarrow> nat" where
  "count_active_clients e s = count_where (\<lambda>(k, c). cl_beat c \<ge> py_now e - secs STALE_THRESHOLD_S) (sy_clients s)"

definition record_propagation_latency :: "int \<Rightarrow> sync \<Rightarrow> sync" where
  "record_propagation_latency us s =
     (let xs = sy_samples s @ [us]
      in s\<lparr>sy_samples := (if length xs > LATENCY_SAMPLE_MAX then py_suffix LATENCY_SAMPLE_MAX xs else xs)\<rparr>)"

definition avg_propagation_latency :: "sync \<Rightarrow> rat option" where
  \<comment> \<open>before it is rounded for display\<close>
  "avg_propagation_latency s =
     (if sy_samples s = [] then None else Some (of_int (sum_list (sy_samples s)) / of_nat (length (sy_samples s))))"

definition propagation_observer :: "env \<Rightarrow> envelope \<Rightarrow> sync \<Rightarrow> sync" where
  "propagation_observer e ev s =
     (let s1 = record_propagation_latency (py_now e - ev_timestamp ev) s in s1\<lparr>sy_observed := sy_observed s1 + 1\<rparr>)"

definition monitor_turn :: "bool \<Rightarrow> env \<Rightarrow> env \<Rightarrow> version_store \<Rightarrow> sync \<Rightarrow> sync" where
  \<comment> \<open>one round of the background loop: the sweep, then the purge\<close>
  "monitor_turn up e e' vs s =
     snd (purge_inactive_clients e' (STALE_THRESHOLD_S * 4) (snd (detect_stale_clients up e vs s)))"

record message =
  ms_type :: string
  ms_headers :: "(string \<times> string) list"

definition send_with_header :: "string \<Rightarrow> message \<Rightarrow> message" where
  "send_with_header version m =
     (if ms_type m = ''http.response.start'' then m\<lparr>ms_headers := ms_headers m @ [(''x-state-version'', version)]\<rparr> else m)"

definition state_version_middleware ::
  "bool \<Rightarrow> env \<Rightarrow> string \<Rightarrow> (version_store \<Rightarrow> message list \<times> version_store) \<Rightarrow> version_store \<Rightarrow> message list \<times> version_store" where
  \<comment> \<open>the application is the function from the store to the messages it sends; the version is read before it runs\<close>
  "state_version_middleware up e scope_type app vs =
     (if scope_type \<noteq> ''http'' then app vs
      else let v = get_state_version up e vs; (ms, vs') = app vs
           in (map (send_with_header (show_int v)) ms, vs'))"

subsection \<open>Backoff\<close>

lemma backoff_table:
  "0 < n \<Longrightarrow> n < 10 \<Longrightarrow> backoff_hint n = [1, 1, 2, 3, 5, 7, 11, 17, 25] ! nat (n - 1)"
proof -
  assume "0 < n" "n < 10"
  then consider "n = 1" | "n = 2" | "n = 3" | "n = 4" | "n = 5" | "n = 6" | "n = 7" | "n = 8" | "n = 9" by linarith
  then show ?thesis
    by cases (simp_all add: backoff_hint_def RECONNECT_STORM_CAP_def MAX_BACKOFF_HINT_S_def floor_eq_iff power_numeral_reduce)
qed

lemma backoff_list_mono:
  assumes "0 < m" "m \<le> n" "n < 10"
  shows "backoff_hint m \<le> backoff_hint n"
proof -
  have "sorted [1, 1, 2, 3, 5, 7, 11, 17, 25 :: int]" by simp
  moreover have "nat (m - 1) \<le> nat (n - 1)" "nat (n - 1) < length [1, 1, 2, 3, 5, 7, 11, 17, 25 :: int]"
    using assms by auto
  ultimately have "[1, 1, 2, 3, 5, 7, 11, 17, 25 :: int] ! nat (m - 1) \<le> [1, 1, 2, 3, 5, 7, 11, 17, 25] ! nat (n - 1)"
    by (rule sorted_nth_mono)
  then show ?thesis using assms by (simp only: backoff_table)
qed

lemma backoff_range: "0 \<le> backoff_hint n \<and> backoff_hint n \<le> 30"
proof (cases "0 < n \<and> n < 10")
  case True
  then have "backoff_hint 1 \<le> backoff_hint n" "backoff_hint n \<le> backoff_hint 9" by (auto intro: backoff_list_mono)
  moreover have "backoff_hint 1 = 1" "backoff_hint 9 = 25" by (simp_all add: backoff_table)
  ultimately show ?thesis by simp
next
  case False
  then show ?thesis by (auto simp: backoff_hint_def RECONNECT_STORM_CAP_def MAX_BACKOFF_HINT_S_def)
qed

lemma backoff_mono: "m \<le> n \<Longrightarrow> backoff_hint m \<le> backoff_hint n"
proof -
  assume mn: "m \<le> n"
  consider "m \<le> 0" | "n \<ge> 10" | "0 < m" "n < 10" by linarith
  then show ?thesis
  proof cases
    case 1
    then show ?thesis using backoff_range [of n] by (simp add: backoff_hint_def [of m])
  next
    case 2
    then show ?thesis
      using backoff_range [of m] by (simp add: backoff_hint_def [of n] RECONNECT_STORM_CAP_def MAX_BACKOFF_HINT_S_def)
  qed (use mn in \<open>auto intro: backoff_list_mono\<close>)
qed

text \<open>
  The answer to a heartbeat. It calls the client stale exactly when its version is more
  than two behind, and the registry says the same of the client afterwards, with the version and
  the time of the heartbeat; other clients are untouched. The backoff hint is between 0 and 30
  seconds, is 0 for a client that never reconnected and 30 from the tenth reconnect on, and never
  falls as the number of reconnects grows.
\<close>

theorem heartbeat_reply:
  "case register_heartbeat up e vs cid version reconnects s of (r, s') \<Rightarrow>
     (br_stale r \<longleftrightarrow> get_state_version up e vs - version > 2)
     \<and> (\<exists>c. map_of (sy_clients s') cid = Some c \<and> cl_stale c = br_stale r \<and> cl_version c = version \<and> cl_beat c = py_now e)
     \<and> (\<forall>k. k = cid \<or> map_of (sy_clients s') k = map_of (sy_clients s) k)
     \<and> 0 \<le> br_backoff r \<and> br_backoff r \<le> 30
     \<and> (\<forall>more. br_backoff r \<le> backoff_hint (reconnects + int more))
     \<and> br_backoff r = (if reconnects \<le> 0 then 0 else if reconnects \<ge> 10 then 30
         else [1, 1, 2, 3, 5, 7, 11, 17, 25] ! nat (reconnects - 1))"
proof -
  have "backoff_hint reconnects = (if reconnects \<le> 0 then 0 else if reconnects \<ge> 10 then 30
         else [1, 1, 2, 3, 5, 7, 11, 17, 25] ! nat (reconnects - 1))"
    using backoff_table [of reconnects]
    by (auto simp: backoff_hint_def [of reconnects] RECONNECT_STORM_CAP_def MAX_BACKOFF_HINT_S_def)
  moreover have "backoff_hint reconnects \<le> backoff_hint (reconnects + int more)" for more
    by (intro backoff_mono) simp
  ultimately show ?thesis
    using backoff_range [of reconnects]
    by (simp add: register_heartbeat_def Let_def VERSION_LAG_THRESHOLD_def split: option.split)
qed

subsection \<open>The sweep\<close>

lemma flag_same: "cl_stale c = v \<Longrightarrow> c\<lparr>cl_stale := v\<rparr> = c"
  by (cases c) simp

lemma sweep_clients_eq:
  "sweep_clients e current cs =
    (map fst (filter (\<lambda>(k, c). is_stale e current c \<and> \<not> cl_stale c) cs),
     map (\<lambda>(k, c). (k, c\<lparr>cl_stale := is_stale e current c\<rparr>)) cs)"
proof (induction cs)
  case Nil
  then show ?case by simp
next
  case (Cons x cs)
  obtain k c where x: "x = (k, c)" by (cases x)
  show ?case
    using Cons by (cases "is_stale e current c"; cases "cl_stale c") (simp_all add: x Let_def flag_same)
qed

lemma is_stale_flag [simp]: "is_stale e current (c\<lparr>cl_stale := b\<rparr>) = is_stale e current c"
  by (simp add: is_stale_def)

lemma n_emitted_announce: "n_emitted (fold (announce_stale e current) ks b) = n_emitted b + length ks"
  by (induction ks arbitrary: b) (auto simp: announce_stale_def emit_def Let_def)

text \<open>
  The sweep is exact. After \<open>detect_stale_clients\<close> the same clients are registered and each
  is marked stale exactly when its last heartbeat is older than two minutes or its version more
  than two behind; the clients it returns are those that became stale since they were last
  marked, in registry order, with one event emitted for each; and a second sweep under the same
  conditions finds none.
\<close>

theorem sweep_exact:
  "case detect_stale_clients up e vs s of (newly, s') \<Rightarrow>
     map fst (sy_clients s') = map fst (sy_clients s)
     \<and> map (cl_stale \<circ> snd) (sy_clients s') = map (is_stale e (get_state_version up e vs) \<circ> snd) (sy_clients s)
     \<and> newly = map fst (filter (\<lambda>(k, c). is_stale e (get_state_version up e vs) c \<and> \<not> cl_stale c) (sy_clients s))
     \<and> n_emitted (sy_bus s') = n_emitted (sy_bus s) + length newly
     \<and> count_stale_clients s' = count_where (\<lambda>(k, c). is_stale e (get_state_version up e vs) c) (sy_clients s)
     \<and> fst (detect_stale_clients up e vs s') = []"
  by (auto simp: detect_stale_clients_def Let_def sweep_clients_eq n_emitted_announce count_stale_clients_def
      count_where_def filter_map comp_def split_def filter_empty_conv)

lemma latency_window: "length (sy_samples s) \<le> LATENCY_SAMPLE_MAX \<Longrightarrow>
    length (sy_samples (propagation_observer e ev s)) \<le> LATENCY_SAMPLE_MAX"
  by (simp add: propagation_observer_def record_propagation_latency_def Let_def)

text \<open>
  The version in the response to a request is the one from before the request was handled: a
  response to a write that bumps the version carries the version before its own bump.
\<close>

theorem header_precedes_write:
  assumes "redis_key vs = Some v"
  shows "state_version_middleware True e ''http''
      (\<lambda>vs. ([\<lparr>ms_type = ''http.response.start'', ms_headers = []\<rparr>], snd (bump_state_version True e vs))) vs
    = ([\<lparr>ms_type = ''http.response.start'', ms_headers = [(''x-state-version'', show_int v)]\<rparr>], vs\<lparr>redis_key := Some (v + 1)\<rparr>)"
  using assms
  by (simp add: state_version_middleware_def send_with_header_def get_state_version_def bump_state_version_def
      redis_get_def redis_bump_def Let_def)

end
