(* ===== verification/Rbac.thy ===== *)
theory Rbac
  imports Fazle_Prelude
begin

text \<open>
  Roles and permissions, \<open>modules/rbac/__init__.py\<close>, over the tables \<open>fazle_roles\<close>,
  \<open>fazle_admins\<close>, \<open>fazle_admin_roles\<close> (one row per admin and role) and
  \<open>fazle_admin_audit\<close>. The hash of an API key and the random part of a new key are
  arguments. Phone text is ASCII. A statement that raises leaves the operation with an
  error and keeps what the earlier statements wrote; the statements of an operation are
  numbered by their position in its source.
\<close>

datatype admin_status = A_active | A_disabled

record admin_row =
  ad_id :: int
  ad_phone :: string
  ad_name :: string
  ad_status :: admin_status
  ad_key_hash :: "string option"
  ad_last_seen :: "time option"

record grant_row =
  gr_admin :: int
  gr_role :: string
  gr_by :: string

record audit_entry =
  ae_id :: int
  ae_phone :: "string option"
  ae_user :: "int option"
  ae_label :: string
  ae_channel :: string
  ae_command :: string
  ae_args :: "string option"
  ae_allowed :: bool
  ae_required :: "string option"
  ae_denied :: "string option"
  ae_summary :: "string option"
  ae_at :: time

record rbac_db =
  rb_roles :: "(string \<times> int) list"
  rb_admins :: "admin_row list"
  rb_grants :: "grant_row list"
  rb_audit :: "audit_entry list"
  rb_next_admin :: int
  rb_next_audit :: int

datatype rbac_error = Invalid_phone | Unknown_admin | Unknown_role string | Rbac_db_error

definition COMMAND_ROLE :: "(string \<times> string) list" where
  "COMMAND_ROLE =
    map (\<lambda>c. (c, ''viewer'')) [''status'', ''schedule_status'', ''report_list'', ''report_daily'', ''report_payroll'',
      ''report_cash'', ''report_recon'', ''report_escort'', ''backup_status'', ''backup_list'', ''payroll_list''] @
    map (\<lambda>c. (c, ''operator'')) [''approve'', ''reject'', ''edit'', ''paid'', ''advance'', ''release'', ''escortconfirm''] @
    map (\<lambda>c. (c, ''accountant'')) [''payimport'', ''payroll_compute'', ''payroll_trans'', ''payroll_paid'', ''payroll_cancel''] @
    map (\<lambda>c. (c, ''admin'')) [''schedule_run'', ''backup_now'', ''user_list''] @
    map (\<lambda>c. (c, ''superadmin'')) [''user_add'', ''user_role'', ''user_remove'', ''user_apikey'']"

definition DEFAULT_REQUIRED_ROLE :: string where "DEFAULT_REQUIRED_ROLE = ''admin''"

definition only_digits :: "string \<Rightarrow> string" where
  "only_digits p = filter is_digit p"

definition is_separator :: "char \<Rightarrow> bool" where
  "is_separator c \<longleftrightarrow> c = CHR '','' \<or> c = CHR '';'' \<or> is_space c"

definition bootstrap_phones :: "string \<Rightarrow> string list" where
  "bootstrap_phones raw = filter (\<lambda>p. p \<noteq> '''') (map only_digits (split_runs is_separator raw []))"

definition get_admin_by_phone :: "string \<Rightarrow> rbac_db \<Rightarrow> admin_row option" where
  "get_admin_by_phone phone db =
     (let p = only_digits phone in if p = '''' then None else find (\<lambda>a. ad_phone a = p) (rb_admins db))"

definition get_admin_by_api_key :: "(string \<Rightarrow> string) \<Rightarrow> string \<Rightarrow> rbac_db \<Rightarrow> admin_row option" where
  "get_admin_by_api_key sha key db =
     (if key = '''' then None else find (\<lambda>a. ad_key_hash a = Some (sha key)) (rb_admins db))"

definition role_level :: "rbac_db \<Rightarrow> string \<Rightarrow> int option" where
  "role_level db role = map_of (rb_roles db) role"

definition get_role_level :: "string \<Rightarrow> rbac_db \<Rightarrow> int" where
  "get_role_level role db = (case role_level db role of None \<Rightarrow> 0 | Some l \<Rightarrow> l)"

definition granted :: "int \<Rightarrow> rbac_db \<Rightarrow> (string \<times> int) list" where
  \<comment> \<open>the join of the admin's grants with the role table\<close>
  "granted i db = List.map_filter (\<lambda>g. if gr_admin g = i then map_option (\<lambda>l. (gr_role g, l)) (role_level db (gr_role g)) else None)
     (rb_grants db)"

definition get_roles :: "int \<Rightarrow> rbac_db \<Rightarrow> string list" where
  "get_roles i db = map fst (sort_key (\<lambda>(r, l). - l) (granted i db))"

definition max_role_level :: "int \<Rightarrow> rbac_db \<Rightarrow> int" where
  "max_role_level i db = (case map snd (granted i db) of [] \<Rightarrow> 0 | l # ls \<Rightarrow> fold max ls l)"

definition required_role :: "string \<Rightarrow> string" where
  "required_role command = dict_get DEFAULT_REQUIRED_ROLE COMMAND_ROLE command"

datatype decision = Allowed | Unknown_actor | Not_active | Need_level int int

definition asks_phone :: "string option \<Rightarrow> bool" where
  \<comment> \<open>whether the table is asked for the phone\<close>
  "asks_phone phone = (case phone of None \<Rightarrow> False | Some p \<Rightarrow> only_digits p \<noteq> '''')"

definition asks_key :: "string option \<Rightarrow> string option \<Rightarrow> rbac_db \<Rightarrow> bool" where
  \<comment> \<open>whether the table is asked for the key\<close>
  "asks_key phone key db \<longleftrightarrow>
     (case phone of None \<Rightarrow> True | Some p \<Rightarrow> get_admin_by_phone p db = None) \<and>
     (case key of None \<Rightarrow> False | Some k \<Rightarrow> k \<noteq> '''')"

definition update_admin :: "int \<Rightarrow> (admin_row \<Rightarrow> admin_row) \<Rightarrow> rbac_db \<Rightarrow> rbac_db" where
  "update_admin i f db = db\<lparr>rb_admins := update_where (\<lambda>a. ad_id a = i) f (rb_admins db)\<rparr>"

definition find_actor :: "(string \<Rightarrow> string) \<Rightarrow> string option \<Rightarrow> string option \<Rightarrow> rbac_db \<Rightarrow> admin_row option" where
  "find_actor sha phone key db =
     (case (case phone of None \<Rightarrow> None | Some p \<Rightarrow> if p = '''' then None else get_admin_by_phone p db) of
        Some a \<Rightarrow> Some a
      | None \<Rightarrow> (case key of None \<Rightarrow> None | Some k \<Rightarrow> get_admin_by_api_key sha k db))"

definition check_permission ::
  "(string \<Rightarrow> string) \<Rightarrow> env \<Rightarrow> string option \<Rightarrow> string option \<Rightarrow> string \<Rightarrow> rbac_db
    \<Rightarrow> (rbac_error + decision \<times> admin_row option \<times> string) \<times> rbac_db" where
  \<comment> \<open>statement 0 reads the required level, 1 looks the phone up, 2 the key, 3 reads the
    level of the actor, 4 touches \<open>last_seen_at\<close>, and an exception of it is swallowed\<close>
  "check_permission sha e phone key command db =
     (let required = required_role command;
          req_level = get_role_level required db
      in if raises e 0 \<or> asks_phone phone \<and> raises e 1 \<or> asks_key phone key db \<and> raises e 2
         then (Inl Rbac_db_error, db)
         else case find_actor sha phone key db of
           None \<Rightarrow> (Inr (Unknown_actor, None, required), db)
         | Some a \<Rightarrow>
             if ad_status a \<noteq> A_active then (Inr (Not_active, Some a, required), db)
             else if raises e 3 then (Inl Rbac_db_error, db)
             else let l = max_role_level (ad_id a) db
                  in if l < req_level then (Inr (Need_level req_level l, Some a, required), db)
                     else (Inr (Allowed, Some a, required),
                           if raises e 4 then db
                           else update_admin (ad_id a) (\<lambda>x. x\<lparr>ad_last_seen := Some (db_now e)\<rparr>) db))"

definition add_grant :: "int \<Rightarrow> string \<Rightarrow> string \<Rightarrow> rbac_db \<Rightarrow> rbac_db" where
  \<comment> \<open>\<open>ON CONFLICT (admin_id, role_name) DO NOTHING\<close>\<close>
  "add_grant i role by_whom db =
     (if has_row (\<lambda>g. gr_admin g = i \<and> gr_role g = role) (rb_grants db) then db
      else db\<lparr>rb_grants := rb_grants db @ [\<lparr>gr_admin = i, gr_role = role, gr_by = by_whom\<rparr>]\<rparr>)"

definition insert_admin :: "string \<Rightarrow> string \<Rightarrow> rbac_db \<Rightarrow> int \<times> rbac_db" where
  "insert_admin phone name db =
     (rb_next_admin db,
      db\<lparr>rb_next_admin := rb_next_admin db + 1,
         rb_admins := rb_admins db @ [\<lparr>ad_id = rb_next_admin db, ad_phone = phone, ad_name = name, ad_status = A_active,
           ad_key_hash = None, ad_last_seen = None\<rparr>]\<rparr>)"

fun bootstrap_loop :: "env \<Rightarrow> nat \<Rightarrow> string list \<Rightarrow> nat \<Rightarrow> rbac_db \<Rightarrow> (rbac_error + nat) \<times> rbac_db" where
  \<comment> \<open>the statements for the \<open>k\<close>-th phone are \<open>4 * k\<close> (lookup), \<open>4 * k + 1\<close> (roles),
    \<open>4 * k + 2\<close> (the first insert of the branch) and \<open>4 * k + 3\<close> (the second)\<close>
  "bootstrap_loop e k [] created db = (Inr created, db)"
| "bootstrap_loop e k (phone # phones) created db =
     (if raises e (4 * k) then (Inl Rbac_db_error, db)
      else case get_admin_by_phone phone db of
        Some a \<Rightarrow>
          if raises e (4 * k + 1) then (Inl Rbac_db_error, db)
          else if ''superadmin'' \<in> set (get_roles (ad_id a) db) then bootstrap_loop e (k + 1) phones created db
          else if raises e (4 * k + 2) then (Inl Rbac_db_error, db)
          else bootstrap_loop e (k + 1) phones created (add_grant (ad_id a) ''superadmin'' ''bootstrap'' db)
      | None \<Rightarrow>
          if raises e (4 * k + 2) then (Inl Rbac_db_error, db)
          else let (i, db1) = insert_admin phone (''bootstrap_'' @ py_suffix 4 phone) db
               in if raises e (4 * k + 3) then (Inl Rbac_db_error, db1)
                  else bootstrap_loop e (k + 1) phones (created + 1) (add_grant i ''superadmin'' ''bootstrap'' db1))"

definition ensure_bootstrap_admins :: "env \<Rightarrow> string \<Rightarrow> rbac_db \<Rightarrow> (rbac_error + nat) \<times> rbac_db" where
  "ensure_bootstrap_admins e raw db = bootstrap_loop e 0 (bootstrap_phones raw) 0 db"

definition add_admin :: "env \<Rightarrow> string \<Rightarrow> string \<Rightarrow> string \<Rightarrow> string \<Rightarrow> rbac_db \<Rightarrow> (rbac_error + bool \<times> int) \<times> rbac_db" where
  \<comment> \<open>the flag tells whether the admin was created; statement 0 looks the phone up, 1 inserts
    the admin, 2 the grant\<close>
  "add_admin e phone name role by_whom db =
     (let p = only_digits phone
      in if p = '''' then (Inl Invalid_phone, db)
         else if raises e 0 then (Inl Rbac_db_error, db)
         else case get_admin_by_phone p db of
                Some a \<Rightarrow> (Inr (False, ad_id a), db)
              | None \<Rightarrow>
                  if raises e 1 then (Inl Rbac_db_error, db)
                  else let (i, db1) = insert_admin p name db
                       in if raises e 2 then (Inl Rbac_db_error, db1) else (Inr (True, i), add_grant i role by_whom db1))"

definition known_admin :: "env \<Rightarrow> string \<Rightarrow> rbac_db \<Rightarrow> rbac_error + admin_row" where
  \<comment> \<open>the lookup the four operations below begin with, statement 0 of each\<close>
  "known_admin e phone db =
     (if only_digits phone = '''' then Inl Unknown_admin
      else if raises e 0 then Inl Rbac_db_error
      else case get_admin_by_phone phone db of None \<Rightarrow> Inl Unknown_admin | Some a \<Rightarrow> Inr a)"

definition set_role :: "env \<Rightarrow> string \<Rightarrow> string \<Rightarrow> string \<Rightarrow> rbac_db \<Rightarrow> (rbac_error + int) \<times> rbac_db" where
  \<comment> \<open>the conflict clause names the pair, as the one \<open>add_grant\<close> keeps unique\<close>
  "set_role e phone role by_whom db =
     (case known_admin e phone db of
        Inl x \<Rightarrow> (Inl x, db)
      | Inr a \<Rightarrow>
          if raises e 1 then (Inl Rbac_db_error, db)
          else if role_level db role = None then (Inl (Unknown_role role), db)
          else if raises e 2 then (Inl Rbac_db_error, db)
          else (Inr (ad_id a), add_grant (ad_id a) role by_whom db))"

definition revoke_role :: "env \<Rightarrow> string \<Rightarrow> string \<Rightarrow> rbac_db \<Rightarrow> (rbac_error + int) \<times> rbac_db" where
  "revoke_role e phone role db =
     (case known_admin e phone db of
        Inl x \<Rightarrow> (Inl x, db)
      | Inr a \<Rightarrow>
          if raises e 1 then (Inl Rbac_db_error, db)
          else (Inr (ad_id a),
                db\<lparr>rb_grants := delete_where (\<lambda>g. gr_admin g = ad_id a \<and> gr_role g = role) (rb_grants db)\<rparr>))"

definition disable_admin :: "env \<Rightarrow> string \<Rightarrow> rbac_db \<Rightarrow> (rbac_error + int) \<times> rbac_db" where
  "disable_admin e phone db =
     (case known_admin e phone db of
        Inl x \<Rightarrow> (Inl x, db)
      | Inr a \<Rightarrow> if raises e 1 then (Inl Rbac_db_error, db)
                 else (Inr (ad_id a), update_admin (ad_id a) (\<lambda>x. x\<lparr>ad_status := A_disabled\<rparr>) db))"

definition issue_api_key ::
  "(string \<Rightarrow> string) \<Rightarrow> env \<Rightarrow> string \<Rightarrow> string \<Rightarrow> rbac_db \<Rightarrow> (rbac_error + int \<times> string) \<times> rbac_db" where
  "issue_api_key sha e token phone db =
     (case known_admin e phone db of
        Inl x \<Rightarrow> (Inl x, db)
      | Inr a \<Rightarrow>
          (let key = ''fk_'' @ token
           in if raises e 1 then (Inl Rbac_db_error, db)
              else (Inr (ad_id a, key), update_admin (ad_id a) (\<lambda>x. x\<lparr>ad_key_hash := Some (sha key)\<rparr>) db)))"

definition record_audit ::
  "env \<Rightarrow> string \<Rightarrow> string \<Rightarrow> string option \<Rightarrow> admin_row option \<Rightarrow> string option \<Rightarrow> bool \<Rightarrow> string option \<Rightarrow> string option
    \<Rightarrow> string option \<Rightarrow> rbac_db \<Rightarrow> (rbac_error + int) \<times> rbac_db" where
  "record_audit e channel command phone actor args allowed required denied summary db =
     (let clip = (\<lambda>x. case py_or x None of None \<Rightarrow> None | Some s \<Rightarrow> Some (take 4000 s))
      in if raises e 0 then (Inl Rbac_db_error, db)
         else (Inr (rb_next_audit db),
               db\<lparr>rb_next_audit := rb_next_audit db + 1,
                  rb_audit := rb_audit db @
                    [\<lparr>ae_id = rb_next_audit db, ae_phone = phone, ae_user = map_option ad_id actor,
                      ae_label = (case py_or (py_or (map_option ad_name actor) phone) (Some ''unknown'') of
                                    None \<Rightarrow> ''unknown'' | Some s \<Rightarrow> s),
                      ae_channel = channel, ae_command = command, ae_args = clip args, ae_allowed = allowed,
                      ae_required = required, ae_denied = denied, ae_summary = clip summary, ae_at = db_now e\<rparr>]\<rparr>))"

definition list_audit :: "nat \<Rightarrow> string option \<Rightarrow> rbac_db \<Rightarrow> audit_entry list" where
  "list_audit limit command db =
     take limit (sort_key (\<lambda>a. - ae_at a)
       (filter (\<lambda>a. case py_or command None of None \<Rightarrow> True | Some c \<Rightarrow> ae_command a = c) (rb_audit db)))"

definition list_admins :: "rbac_db \<Rightarrow> (admin_row \<times> string list) list" where
  \<comment> \<open>the grants of an unknown role are listed after the others\<close>
  "list_admins db = map (\<lambda>a. (a, get_roles (ad_id a) db @
       map gr_role (filter (\<lambda>g. gr_admin g = ad_id a \<and> role_level db (gr_role g) = None) (rb_grants db))))
     (sort_key ad_id (rb_admins db))"

subsection \<open>Lookups and levels\<close>

definition has_grant :: "int \<Rightarrow> string \<Rightarrow> rbac_db \<Rightarrow> bool" where
  "has_grant i role db = has_row (\<lambda>g. gr_admin g = i \<and> gr_role g = role) (rb_grants db)"

lemma only_digits_idem [simp]: "only_digits (only_digits p) = only_digits p"
  by (simp add: only_digits_def)

lemma bootstrap_phones_digits: "p \<in> set (bootstrap_phones raw) \<Longrightarrow> only_digits p = p \<and> p \<noteq> ''''"
  by (auto simp: bootstrap_phones_def)

lemma mem_map_filter: "y \<in> set (List.map_filter f xs) \<longleftrightarrow> (\<exists>x\<in>set xs. f x = Some y)"
  by (induction xs) (auto split: option.splits)

lemma mem_granted: "(r, l) \<in> set (granted i db) \<longleftrightarrow> has_grant i r db \<and> role_level db r = Some l"
  by (auto simp: granted_def has_grant_def has_row_iff mem_map_filter split: if_splits)

lemma fold_max_le: "(n :: int) \<le> fold max ls l \<longleftrightarrow> (\<exists>x\<in>set (l # ls). n \<le> x)"
  by (induction ls arbitrary: l) (auto simp: le_max_iff_disj)

lemma le_max_role_level:
  assumes "0 < n"
  shows "n \<le> max_role_level i db \<longleftrightarrow> (\<exists>r l. has_grant i r db \<and> role_level db r = Some l \<and> n \<le> l)"
proof (cases "granted i db")
  case Nil
  then have "\<not> (has_grant i r db \<and> role_level db r = Some l)" for r l
    using mem_granted [of r l i db] by simp
  with Nil assms show ?thesis by (auto simp: max_role_level_def)
next
  case (Cons x xs)
  then have "n \<le> max_role_level i db \<longleftrightarrow> (\<exists>p\<in>set (granted i db). n \<le> snd p)"
    by (simp add: max_role_level_def fold_max_le)
  also have "\<dots> \<longleftrightarrow> (\<exists>r l. (r, l) \<in> set (granted i db) \<and> n \<le> l)" by force
  finally show ?thesis by (simp add: mem_granted)
qed

lemma get_admin_by_phone_digits:
  "only_digits p \<noteq> '''' \<Longrightarrow> get_admin_by_phone p db = find (\<lambda>a. ad_phone a = only_digits p) (rb_admins db)"
  by (simp add: get_admin_by_phone_def)

lemma get_admin_by_phone_SomeD:
  "get_admin_by_phone p db = Some a \<Longrightarrow> a \<in> set (rb_admins db) \<and> ad_phone a = only_digits p \<and> only_digits p \<noteq> ''''"
  by (auto simp: get_admin_by_phone_def Let_def split: if_splits dest: find_Some_mem)

lemma find_actor_phone: "get_admin_by_phone p db = Some a \<Longrightarrow> find_actor sha (Some p) key db = Some a"
  by (auto simp: find_actor_def get_admin_by_phone_def only_digits_def)

lemma check_permission_ok:
  assumes "db_ok e"
  shows "fst (check_permission sha e phone key command db) =
    Inr (case find_actor sha phone key db of
           None \<Rightarrow> (Unknown_actor, None, required_role command)
         | Some a \<Rightarrow>
             (if ad_status a \<noteq> A_active then Not_active
              else if get_role_level (required_role command) db \<le> max_role_level (ad_id a) db then Allowed
              else Need_level (get_role_level (required_role command) db) (max_role_level (ad_id a) db),
              Some a, required_role command))"
  using assms by (auto simp: check_permission_def db_ok_raises Let_def split: option.splits)

text \<open>
  A command is allowed to exactly the right people. With a database that answers,
  and a role table that gives the command's role a positive level, \<open>check_permission\<close>
  allows the command to an actor if and only if the actor is the admin the phone names
  (or, when no admin has the phone, the API key names), the admin is active, and one of
  the roles granted to it has at least the level the command requires. Nothing is changed
  but the admin's \<open>last_seen_at\<close>, and that only when the command is allowed.
\<close>

theorem permission_exact:
  assumes "db_ok e" and "0 < get_role_level (required_role command) db"
  shows "case check_permission sha e phone key command db of (r, db') \<Rightarrow>
      (r = Inr (Allowed, Some a, required_role command) \<longleftrightarrow>
         find_actor sha phone key db = Some a \<and> ad_status a = A_active \<and>
         (\<exists>role level. has_grant (ad_id a) role db \<and> role_level db role = Some level
            \<and> get_role_level (required_role command) db \<le> level)) \<and>
      db' = (case r of
          Inr (Allowed, Some b, _) \<Rightarrow> update_admin (ad_id b) (\<lambda>x. x\<lparr>ad_last_seen := Some (db_now e)\<rparr>) db
        | _ \<Rightarrow> db)"
proof -
  have "fst (check_permission sha e phone key command db) = Inr (Allowed, Some a, required_role command) \<longleftrightarrow>
      find_actor sha phone key db = Some a \<and> ad_status a = A_active \<and>
      (\<exists>role level. has_grant (ad_id a) role db \<and> role_level db role = Some level
         \<and> get_role_level (required_role command) db \<le> level)"
    unfolding check_permission_ok [OF assms(1)] le_max_role_level [OF assms(2), symmetric]
    by (auto split: option.splits if_splits)
  moreover have "snd (check_permission sha e phone key command db) =
      (case fst (check_permission sha e phone key command db) of
          Inr (Allowed, Some b, _) \<Rightarrow> update_admin (ad_id b) (\<lambda>x. x\<lparr>ad_last_seen := Some (db_now e)\<rparr>) db
        | _ \<Rightarrow> db)"
    using assms(1) by (auto simp: check_permission_def db_ok_raises Let_def split: option.splits)
  ultimately show ?thesis by (simp add: split_def)
qed

subsection \<open>The tables over a run\<close>

inductive rbac_step :: "rbac_db \<Rightarrow> rbac_db \<Rightarrow> bool" where
  step_check: "rbac_step db (snd (check_permission sha e phone key command db))"
| step_bootstrap: "rbac_step db (snd (ensure_bootstrap_admins e raw db))"
| step_add: "rbac_step db (snd (add_admin e phone name role by_whom db))"
| step_role: "rbac_step db (snd (set_role e phone role by_whom db))"
| step_revoke: "rbac_step db (snd (revoke_role e phone role db))"
| step_disable: "rbac_step db (snd (disable_admin e phone db))"
| step_key: "rbac_step db (snd (issue_api_key sha e token phone db))"
| step_audit: "rbac_step db (snd (record_audit e channel command aphone actor args allowed required denied summary db))"

definition rbac_wf :: "rbac_db \<Rightarrow> bool" where
  "rbac_wf db \<longleftrightarrow>
     distinct (map ad_id (rb_admins db)) \<and> (\<forall>a\<in>set (rb_admins db). ad_id a < rb_next_admin db) \<and>
     distinct (map ad_phone (rb_admins db)) \<and> (\<forall>a\<in>set (rb_admins db). ad_phone a \<noteq> '''' \<and> only_digits (ad_phone a) = ad_phone a) \<and>
     distinct (map (\<lambda>g. (gr_admin g, gr_role g)) (rb_grants db)) \<and>
     distinct (map ae_id (rb_audit db)) \<and> (\<forall>x\<in>set (rb_audit db). ae_id x < rb_next_audit db)"

lemma rbac_wf_add_grant: "rbac_wf db \<Longrightarrow> rbac_wf (add_grant i role by_whom db)"
  by (auto simp: rbac_wf_def add_grant_def has_row_iff)

lemma rbac_wf_insert_admin:
  assumes "rbac_wf db" "get_admin_by_phone p db = None" "only_digits p = p" "p \<noteq> ''''"
  shows "rbac_wf (snd (insert_admin p name db))"
proof -
  have "p \<notin> ad_phone ` set (rb_admins db)"
    using assms(2-4) by (auto simp: get_admin_by_phone_def find_None_iff_all)
  with assms(1,3,4) show ?thesis by (auto simp: rbac_wf_def insert_admin_def)
qed

lemma rbac_wf_update_admin:
  assumes "rbac_wf db" "\<And>x. ad_id (f x) = ad_id x" "\<And>x. ad_phone (f x) = ad_phone x"
  shows "rbac_wf (update_admin i f db)"
  using assms(1) by (auto simp: rbac_wf_def update_admin_def map_key_update_where assms(2,3) ball_update_where)

lemma rbac_wf_bootstrap_loop:
  assumes "rbac_wf db" "\<forall>p\<in>set phones. only_digits p = p \<and> p \<noteq> ''''"
  shows "rbac_wf (snd (bootstrap_loop e k phones created db))"
  using assms
proof (induction phones arbitrary: k created db)
  case Nil
  then show ?case by simp
next
  case (Cons p phones)
  have w: "rbac_wf (snd (insert_admin p (''bootstrap_'' @ py_suffix 4 p) db))" if "get_admin_by_phone p db = None"
    using Cons.prems that by (intro rbac_wf_insert_admin) auto
  show ?case
    using Cons.prems w by (auto simp: Let_def split_def split: option.splits intro!: Cons.IH rbac_wf_add_grant)
qed

lemma rbac_wf_step: "rbac_step db db' \<Longrightarrow> rbac_wf db \<Longrightarrow> rbac_wf db'"
proof (induction rule: rbac_step.induct)
  case (step_check db sha e phone key command)
  then show ?case
    by (auto simp: check_permission_def Let_def rbac_wf_update_admin split: option.splits)
next
  case (step_bootstrap db e raw)
  then show ?case
    by (auto simp: ensure_bootstrap_admins_def dest: bootstrap_phones_digits intro!: rbac_wf_bootstrap_loop)
next
  case (step_add db e phone name role by_whom)
  then show ?case
    using rbac_wf_insert_admin [of db "only_digits phone" name]
    by (auto simp: add_admin_def Let_def split_def rbac_wf_add_grant split: option.splits)
next
  case (step_role db e phone role by_whom)
  then show ?case by (auto simp: set_role_def rbac_wf_add_grant split: sum.splits)
next
  case (step_revoke db e phone role)
  then show ?case by (auto simp: revoke_role_def rbac_wf_def distinct_key_delete_where split: sum.splits)
next
  case (step_disable db e phone)
  then show ?case by (auto simp: disable_admin_def rbac_wf_update_admin split: sum.splits)
next
  case (step_key db sha e token phone)
  then show ?case by (auto simp: issue_api_key_def Let_def rbac_wf_update_admin split: sum.splits)
next
  case (step_audit db e channel command aphone actor args allowed required denied summary)
  then show ?case by (auto simp: record_audit_def rbac_wf_def Let_def)
qed

definition rbac_seeded :: "rbac_db \<Rightarrow> bool" where
  "rbac_seeded db \<longleftrightarrow> rb_admins db = [] \<and> rb_grants db = [] \<and> rb_audit db = []"

lemma rbac_wf_seeded: "rbac_seeded db \<Longrightarrow> rbac_wf db"
  by (simp add: rbac_seeded_def rbac_wf_def)

interpretation rbac_inv: invariant_system rbac_seeded rbac_step rbac_wf
  by unfold_locales (fact rbac_wf_seeded rbac_wf_step)+

text \<open>
  The tables stay well formed. From a database with roles only, after any operations of the module
  with any statements raising, admin ids and phones are unique, a phone is a non-empty string of digits,
  an admin is granted a role at most once, and audit entries have unique ids.
\<close>

theorem rbac_tables_wf:
  assumes "reach rbac_seeded rbac_step db"
  shows "rbac_wf db"
  using rbac_inv.reach_inv [OF assms] .

subsection \<open>A disabled admin stays out\<close>

definition admin_status_of :: "rbac_db \<Rightarrow> string \<Rightarrow> admin_status option" where
  "admin_status_of db p = map_option ad_status (find (\<lambda>a. ad_phone a = p) (rb_admins db))"

fun admin_edge :: "admin_status \<Rightarrow> admin_status \<Rightarrow> bool" where
  "admin_edge A_active A_disabled = True"
| "admin_edge _ _ = False"

definition moves_ok :: "rbac_db \<Rightarrow> rbac_db \<Rightarrow> bool" where
  \<comment> \<open>a phone that has an admin keeps it, with its status or disabled\<close>
  "moves_ok db db' \<longleftrightarrow> (\<forall>p v. admin_status_of db p = Some v \<longrightarrow>
     (\<exists>w. admin_status_of db' p = Some w \<and> (w = v \<or> admin_edge v w)))"

lemma moves_ok_refl: "rb_admins db' = rb_admins db \<Longrightarrow> moves_ok db db'"
  by (auto simp: moves_ok_def admin_status_of_def)

lemma moves_ok_append: "rb_admins db' = rb_admins db @ xs \<Longrightarrow> moves_ok db db'"
  by (auto simp: moves_ok_def admin_status_of_def find_append)

lemma moves_ok_update:
  assumes "\<And>x. ad_phone (f x) = ad_phone x" "\<And>x. ad_status (f x) = ad_status x \<or> ad_status (f x) = A_disabled"
  shows "moves_ok db (update_admin i f db)"
proof -
  have "ad_status (f x) = ad_status x \<or> admin_edge (ad_status x) (ad_status (f x))" for x
    using assms(2) [of x] by (cases "ad_status x") auto
  moreover have "admin_status_of (update_admin i f db) p =
      map_option (\<lambda>a. ad_status (if ad_id a = i then f a else a)) (find (\<lambda>a. ad_phone a = p) (rb_admins db))" for p
    by (simp add: admin_status_of_def update_admin_def find_update_where_key assms(1) option.map_comp comp_def)
  ultimately show ?thesis
    unfolding moves_ok_def by (auto simp: admin_status_of_def [of db] simp del: map_option_eq_Some)
qed

definition grows :: "rbac_db \<Rightarrow> rbac_db \<Rightarrow> bool" where
  \<comment> \<open>only active admins and grants were added\<close>
  "grows db db' \<longleftrightarrow> rb_roles db' = rb_roles db \<and>
     (\<exists>xs. rb_admins db' = rb_admins db @ xs \<and> (\<forall>a\<in>set xs. ad_status a = A_active)) \<and>
     (\<exists>ys. rb_grants db' = rb_grants db @ ys)"

lemma grows_refl [simp]: "grows db db"
  by (simp add: grows_def)

lemma grows_trans: "grows db db1 \<Longrightarrow> grows db1 db2 \<Longrightarrow> grows db db2"
  unfolding grows_def by force

lemma grows_add_grant [simp]: "grows db (add_grant i role by_whom db)"
  by (simp add: grows_def add_grant_def)

lemma grows_insert_admin [simp]: "grows db (snd (insert_admin p name db))"
  by (simp add: grows_def insert_admin_def)

lemma grows_insert_grant: "grows db (add_grant i role by_whom (snd (insert_admin p name db)))"
  using grows_insert_admin grows_add_grant grows_trans by blast

lemma grows_bootstrap_loop: "grows db (snd (bootstrap_loop e k phones created db))"
proof (induction phones arbitrary: k created db)
  case Nil
  then show ?case by simp
next
  case (Cons p phones)
  then show ?case
    by (auto simp: Let_def split_def split: option.splits
        intro: grows_trans [OF grows_add_grant] grows_trans [OF grows_insert_grant])
qed

lemma grows_moves_ok: "grows db db' \<Longrightarrow> moves_ok db db'"
  by (auto simp: grows_def intro: moves_ok_append)

lemma rbac_step_moves: "rbac_step db db' \<Longrightarrow> moves_ok db db'"
proof (induction rule: rbac_step.induct)
  case (step_check db sha e phone key command)
  then show ?case
    by (auto simp: check_permission_def Let_def moves_ok_refl moves_ok_update split: option.splits)
next
  case (step_bootstrap db e raw)
  then show ?case by (simp add: ensure_bootstrap_admins_def grows_bootstrap_loop grows_moves_ok)
next
  case (step_add db e phone name role by_whom)
  then show ?case
    by (auto simp: add_admin_def Let_def split_def grows_moves_ok grows_insert_grant split: option.splits)
next
  case (step_role db e phone role by_whom)
  then show ?case by (auto simp: set_role_def grows_moves_ok split: sum.splits)
next
  case (step_revoke db e phone role)
  then show ?case by (auto simp: revoke_role_def moves_ok_refl split: sum.splits)
next
  case (step_disable db e phone)
  then show ?case by (auto simp: disable_admin_def moves_ok_refl moves_ok_update split: sum.splits)
next
  case (step_key db sha e token phone)
  then show ?case by (auto simp: issue_api_key_def Let_def moves_ok_refl moves_ok_update split: sum.splits)
next
  case (step_audit db e channel command aphone actor args allowed required denied summary)
  then show ?case by (auto simp: record_audit_def Let_def moves_ok_refl)
qed

interpretation rbac_status: status_machine admin_status_of rbac_step admin_edge "\<lambda>v. v = A_disabled"
proof unfold_locales
  show "\<exists>w. admin_status_of t k = Some w \<and> (w = v \<or> admin_edge v w)"
    if "rbac_step s t" "admin_status_of s k = Some v" for s t k v
    using rbac_step_moves [OF that(1)] that(2) by (simp add: moves_ok_def)
qed auto

lemma disable_admin_disables:
  assumes "disable_admin e phone db = (Inr i, db1)"
  shows "only_digits phone \<noteq> '''' \<and> admin_status_of db1 (only_digits phone) = Some A_disabled"
proof -
  from assms obtain a where a: "known_admin e phone db = Inr a"
      "db1 = update_admin (ad_id a) (\<lambda>x. x\<lparr>ad_status := A_disabled\<rparr>) db"
    by (auto simp: disable_admin_def split: sum.splits if_splits)
  then have "only_digits phone \<noteq> ''''" "find (\<lambda>x. ad_phone x = only_digits phone) (rb_admins db) = Some a"
    by (auto simp: known_admin_def get_admin_by_phone_def Let_def split: if_splits option.splits)
  then show ?thesis
    by (simp add: a(2) admin_status_of_def update_admin_def find_update_where_key)
qed

lemma disabled_not_active:
  assumes "admin_status_of db (only_digits phone) = Some A_disabled" "only_digits phone \<noteq> ''''"
  shows "check_permission sha e (Some phone) key command db =
    (if raises e 0 \<or> raises e 1 then Inl Rbac_db_error
     else Inr (Not_active, get_admin_by_phone phone db, required_role command), db)"
proof -
  from assms obtain a where a: "get_admin_by_phone phone db = Some a" "ad_status a = A_disabled"
    by (auto simp: admin_status_of_def get_admin_by_phone_digits)
  then show ?thesis using assms(2)
    by (simp add: check_permission_def find_actor_phone asks_phone_def asks_key_def Let_def)
qed

text \<open>
  A disabled admin never gets a command through again. Once \<open>disable_admin\<close> has
  succeeded for a phone, every permission check for that phone, for any command and with
  any API key beside it, after any number of further operations of the module (grants,
  new keys, bootstraps, repeated adds), is denied as not active and changes nothing, or
  ends in a database error.
\<close>

theorem disabled_stays_out:
  assumes "disable_admin e phone db = (Inr i, db1)" and "rbac_step\<^sup>*\<^sup>* db1 db2"
  shows "check_permission sha e' (Some phone) key command db2 =
    (if raises e' 0 \<or> raises e' 1 then Inl Rbac_db_error
     else Inr (Not_active, get_admin_by_phone phone db2, required_role command), db2)"
proof -
  note d = disable_admin_disables [OF assms(1)]
  then have "admin_status_of db2 (only_digits phone) = Some A_disabled"
    using rbac_status.final_stays [OF assms(2)] by blast
  then show ?thesis using d by (intro disabled_not_active) auto
qed


definition sample_rbac :: rbac_db where
  "sample_rbac = \<lparr>rb_roles = [(''viewer'', 10), (''operator'', 20), (''accountant'', 30), (''admin'', 40), (''superadmin'', 50)],
     rb_admins = [\<lparr>ad_id = 1, ad_phone = ''01711'', ad_name = ''boss'', ad_status = A_active, ad_key_hash = None, ad_last_seen = None\<rparr>,
       \<lparr>ad_id = 2, ad_phone = ''01722'', ad_name = ''clerk'', ad_status = A_active, ad_key_hash = None, ad_last_seen = None\<rparr>],
     rb_grants = [\<lparr>gr_admin = 1, gr_role = ''superadmin'', gr_by = ''bootstrap''\<rparr>, \<lparr>gr_admin = 2, gr_role = ''operator'', gr_by = ''boss''\<rparr>],
     rb_audit = [], rb_next_admin = 3, rb_next_audit = 1\<rparr>"

lemmas rbac_eval =
  required_role_def dict_get_def COMMAND_ROLE_def DEFAULT_REQUIRED_ROLE_def get_role_level_def role_level_def
  find_actor_def get_admin_by_phone_def only_digits_def is_digit_def has_grant_def has_row_def sample_rbac_def

theorem permission_exact_witness:
  "fst (check_permission (\<lambda>k. k) (env_at 5) (Some ''+01722'') None ''paid'' sample_rbac) =
     Inr (Allowed, Some (rb_admins sample_rbac ! 1), ''operator'')"
proof -
  have r: "required_role ''paid'' = ''operator''" by (simp add: rbac_eval)
  have l: "get_role_level ''operator'' sample_rbac = 20" by (simp add: rbac_eval)
  have g: "has_grant 2 ''operator'' sample_rbac \<and> role_level sample_rbac ''operator'' = Some 20"
    by (simp add: rbac_eval)
  have "find_actor (\<lambda>k. k) (Some ''+01722'') None sample_rbac = Some (rb_admins sample_rbac ! 1)"
    "ad_status (rb_admins sample_rbac ! 1) = A_active" "ad_id (rb_admins sample_rbac ! 1) = 2"
    by (simp_all add: rbac_eval)
  with g l r show ?thesis
    using permission_exact [where e = "env_at 5" and command = "''paid''" and db = sample_rbac and sha = "\<lambda>k. k"
        and phone = "Some ''+01722''" and key = None and a = "rb_admins sample_rbac ! 1"]
    by (auto simp: split_def)
qed

theorem disabled_stays_out_witness:
  "fst (check_permission (\<lambda>k. k) (env_at 9) (Some ''01722'') None ''status''
     (snd (set_role (env_at 8) ''01722'' ''superadmin'' ''boss'' (snd (disable_admin (env_at 7) ''01722'' sample_rbac))))) =
   Inr (Not_active, get_admin_by_phone ''01722''
     (snd (set_role (env_at 8) ''01722'' ''superadmin'' ''boss'' (snd (disable_admin (env_at 7) ''01722'' sample_rbac)))), ''viewer'')"
proof -
  have "required_role ''status'' = ''viewer''" by (simp add: rbac_eval)
  moreover have "disable_admin (env_at 7) ''01722'' sample_rbac = (Inr 2, snd (disable_admin (env_at 7) ''01722'' sample_rbac))"
    by (simp add: disable_admin_def known_admin_def rbac_eval)
  ultimately show ?thesis
    using disabled_stays_out [where e = "env_at 7" and phone = "''01722''" and db = sample_rbac and i = 2
        and sha = "\<lambda>k. k" and e' = "env_at 9" and key = None and command = "''status''",
        OF _ r_into_rtranclp [where r = rbac_step, OF step_role [of _ "env_at 8" "''01722''" "''superadmin''" "''boss''"]]]
    by simp
qed

text \<open>
  A role missing from the table has level 0, so a command that requires it is allowed to
  every active admin, whatever its roles.
\<close>

theorem missing_role_fails_open:
  assumes "db_ok e" "role_level db (required_role command) = None" "find_actor sha phone key db = Some a"
    "ad_status a = A_active" "\<forall>(r, l)\<in>set (rb_roles db). 0 \<le> l"
  shows "fst (check_permission sha e phone key command db) = Inr (Allowed, Some a, required_role command)"
proof -
  have "0 \<le> l" if "(r, l) \<in> set (granted i db)" for i r l
  proof -
    from that have "(r, l) \<in> set (rb_roles db)" by (simp add: mem_granted role_level_def map_of_SomeD)
    with assms(5) show ?thesis by auto
  qed
  then have "0 \<le> snd p" if "p \<in> set (granted i db)" for i p using that by (cases p) auto
  then have h: "granted i db \<noteq> [] \<Longrightarrow> 0 \<le> snd (hd (granted i db))" for i
    using hd_in_set by blast
  have "0 \<le> max_role_level i db" for i
    using h [of i] by (cases "granted i db") (auto simp: max_role_level_def fold_max_le)
  with assms show ?thesis by (simp add: check_permission_ok get_role_level_def)
qed


subsection \<open>The bootstrap\<close>

definition boots :: "rbac_db \<Rightarrow> string \<Rightarrow> bool" where
  \<comment> \<open>an admin has the phone, as superadmin\<close>
  "boots db p = (case find (\<lambda>a. ad_phone a = p) (rb_admins db) of None \<Rightarrow> False | Some a \<Rightarrow> has_grant (ad_id a) ''superadmin'' db)"

lemma boots_grows: "boots db p \<Longrightarrow> grows db db' \<Longrightarrow> boots db' p"
  by (auto simp: boots_def grows_def find_append has_grant_def has_row_def split: option.splits)

lemma has_grant_add_grant: "has_grant i role (add_grant i role by_whom db)"
  by (auto simp: has_grant_def add_grant_def has_row_def list_ex_iff)

lemma mem_get_roles: "r \<in> set (get_roles i db) \<longleftrightarrow> has_grant i r db \<and> role_level db r \<noteq> None"
proof -
  have "r \<in> set (get_roles i db) \<longleftrightarrow> (\<exists>l. (r, l) \<in> set (granted i db))" by (force simp: get_roles_def)
  then show ?thesis by (auto simp: mem_granted)
qed

lemma boots_existing:
  assumes "get_admin_by_phone p db = Some a" "only_digits p = p"
  shows "boots (add_grant (ad_id a) ''superadmin'' by_whom db) p"
    and "has_grant (ad_id a) ''superadmin'' db \<Longrightarrow> boots db p"
proof -
  have "find (\<lambda>a. ad_phone a = p) (rb_admins db) = Some a"
    using assms by (auto simp: get_admin_by_phone_def Let_def split: if_splits)
  moreover have "rb_admins (add_grant (ad_id a) ''superadmin'' by_whom db) = rb_admins db"
    by (simp add: add_grant_def)
  ultimately show "boots (add_grant (ad_id a) ''superadmin'' by_whom db) p"
    and "has_grant (ad_id a) ''superadmin'' db \<Longrightarrow> boots db p"
    by (simp_all add: boots_def has_grant_add_grant)
qed

lemma boots_new:
  assumes "get_admin_by_phone p db = None" "only_digits p = p" "p \<noteq> ''''"
  shows "boots (add_grant (fst (insert_admin p name db)) ''superadmin'' by_whom (snd (insert_admin p name db))) p"
proof -
  let ?db = "snd (insert_admin p name db)" and ?i = "fst (insert_admin p name db)"
  have "find (\<lambda>a. ad_phone a = p) (rb_admins db) = None"
    using assms by (auto simp: get_admin_by_phone_def)
  moreover have "rb_admins (add_grant ?i ''superadmin'' by_whom ?db) = rb_admins ?db"
    by (simp add: add_grant_def)
  ultimately show ?thesis
    using has_grant_add_grant [of ?i "''superadmin''" by_whom ?db]
    by (simp add: boots_def find_append insert_admin_def)
qed

lemma bootstrap_loop_boots:
  assumes "db_ok e" "\<forall>p\<in>set phones. only_digits p = p \<and> p \<noteq> ''''"
  shows "\<forall>p\<in>set phones. boots (snd (bootstrap_loop e k phones created db)) p"
  using assms(2)
proof (induction phones arbitrary: k created db)
  case Nil
  then show ?case by simp
next
  case (Cons p phones)
  have p: "only_digits p = p" "p \<noteq> ''''" using Cons.prems by auto
  obtain k' c' db1 where r: "bootstrap_loop e k (p # phones) created db = bootstrap_loop e k' phones c' db1" and b: "boots db1 p"
  proof (cases "get_admin_by_phone p db")
    case None
    with that boots_new [OF None p] assms(1) show ?thesis by (auto simp: db_ok_raises Let_def split_def)
  next
    case (Some a)
    show ?thesis
    proof (cases "''superadmin'' \<in> set (get_roles (ad_id a) db)")
      case True
      with Some that boots_existing(2) [OF Some p(1)] assms(1) show ?thesis by (auto simp: db_ok_raises mem_get_roles)
    next
      case False
      with Some that boots_existing(1) [OF Some p(1)] assms(1) show ?thesis by (auto simp: db_ok_raises)
    qed
  qed
  have "boots (snd (bootstrap_loop e k' phones c' db1)) p"
    using boots_grows [OF b grows_bootstrap_loop] .
  with Cons r show ?case by auto
qed

lemma admin_status_grows:
  assumes "grows db db'" "admin_status_of db' p \<noteq> None"
  shows "admin_status_of db' p = (if admin_status_of db p = Some A_disabled then Some A_disabled else Some A_active)"
proof -
  from assms(1) obtain xs where xs: "rb_admins db' = rb_admins db @ xs" "\<forall>a\<in>set xs. ad_status a = A_active"
    by (auto simp: grows_def)
  show ?thesis
  proof (cases "find (\<lambda>a. ad_phone a = p) (rb_admins db)")
    case None
    with xs assms(2) show ?thesis
      by (auto simp: admin_status_of_def find_append dest: find_Some_mem)
  next
    case (Some a)
    with xs(1) show ?thesis by (cases "ad_status a") (auto simp: admin_status_of_def find_append)
  qed
qed

text \<open>
  The bootstrap keeps the owner in. Let the database answer and the role table give
  \<open>superadmin\<close> a positive level that no role exceeds. After \<open>ensure_bootstrap_admins\<close>, which
  the application runs when it starts, every phone of \<open>ADMIN_NUMBERS\<close> may run every command,
  with one exception: a phone whose admin was disabled before stays denied, although the
  module says that these phones are never locked out.
\<close>

theorem bootstrap_lets_in:
  assumes "db_ok e" "db_ok e'" and "p \<in> set (bootstrap_phones raw)"
    and "role_level db ''superadmin'' = Some highest" "0 < highest" "\<forall>(r, l)\<in>set (rb_roles db). l \<le> highest"
  shows "case ensure_bootstrap_admins e raw db of (_, db') \<Rightarrow>
    fst (check_permission sha e' (Some p) key command db') =
      Inr (if admin_status_of db p = Some A_disabled then Not_active else Allowed,
           get_admin_by_phone p db', required_role command)"
proof -
  let ?db = "snd (ensure_bootstrap_admins e raw db)"
  have p: "only_digits p = p" "p \<noteq> ''''" using bootstrap_phones_digits [OF assms(3)] by auto
  have g: "grows db ?db" by (simp add: ensure_bootstrap_admins_def grows_bootstrap_loop)
  have "boots ?db p"
    using bootstrap_loop_boots [OF assms(1), of "bootstrap_phones raw" 0 0 db] assms(3) bootstrap_phones_digits
    by (simp add: ensure_bootstrap_admins_def)
  then obtain a where a: "find (\<lambda>a. ad_phone a = p) (rb_admins ?db) = Some a" "has_grant (ad_id a) ''superadmin'' ?db"
    by (auto simp: boots_def split: option.splits)
  have ga: "get_admin_by_phone p ?db = Some a" using a(1) p by (simp add: get_admin_by_phone_def)
  have st: "ad_status a = (if admin_status_of db p = Some A_disabled then A_disabled else A_active)"
    using admin_status_grows [OF g, of p] a(1) by (auto simp: admin_status_of_def split: if_splits)
  have rl: "role_level ?db r = role_level db r" for r using g by (simp add: grows_def role_level_def)
  have "get_role_level r ?db \<le> highest" for r
    unfolding get_role_level_def rl
    using assms(5,6) by (auto simp: role_level_def split: option.splits dest!: map_of_SomeD)
  moreover have "highest \<le> max_role_level (ad_id a) ?db"
    using le_max_role_level [OF assms(5)] a(2) rl assms(4) by auto
  ultimately have "get_role_level (required_role command) ?db \<le> max_role_level (ad_id a) ?db"
    by (rule order_trans)
  then show ?thesis
    using st by (simp add: split_def check_permission_ok [OF assms(2)] find_actor_phone [OF ga] ga)
qed

theorem rbac_tables_wf_witness:
  "rbac_wf (snd (add_admin (env_at 3) ''01711'' ''boss'' ''admin'' ''system'' (sample_rbac\<lparr>rb_admins := [], rb_grants := []\<rparr>)))"
proof -
  have "reach rbac_seeded rbac_step (sample_rbac\<lparr>rb_admins := [], rb_grants := []\<rparr>)"
    by (rule reach_start) (simp add: rbac_seeded_def sample_rbac_def)
  then have "reach rbac_seeded rbac_step
      (snd (add_admin (env_at 3) ''01711'' ''boss'' ''admin'' ''system'' (sample_rbac\<lparr>rb_admins := [], rb_grants := []\<rparr>)))"
    by (rule reach_step) (rule step_add)
  then show ?thesis by (rule rbac_tables_wf)
qed

theorem bootstrap_lets_in_witness:
  "fst (check_permission (\<lambda>k. k) (env_at 9) (Some ''01733'') None ''user_add''
     (snd (ensure_bootstrap_admins (env_at 8) ''01711, 01733'' sample_rbac))) =
   Inr (Allowed, get_admin_by_phone ''01733'' (snd (ensure_bootstrap_admins (env_at 8) ''01711, 01733'' sample_rbac)),
     ''superadmin'')"
proof -
  have r: "required_role ''user_add'' = ''superadmin''" by (simp add: rbac_eval)
  have m: "''01733'' \<in> set (bootstrap_phones ''01711, 01733'')"
    by (simp add: bootstrap_phones_def is_separator_def is_space_def rbac_eval)
  have t: "role_level sample_rbac ''superadmin'' = Some 50" "\<forall>(r, l)\<in>set (rb_roles sample_rbac). l \<le> 50"
    "admin_status_of sample_rbac ''01733'' = None"
    by (simp_all add: rbac_eval admin_status_of_def)
  show ?thesis
    using bootstrap_lets_in [OF db_ok_env_at [of 8] db_ok_env_at [of 9] m t(1) _ t(2),
        where sha = "\<lambda>k. k" and key = None and command = "''user_add''"] t(3) r
    by (simp add: split_def)
qed

end
