(* ===== verification/Admin_Commands.thy ===== *)
theory Admin_Commands
  imports Rbac
begin

text \<open>
  The commands admins send by chat, \<open>modules/admin_commands/__init__.py\<close>: the suppression
  of repeated messages, the permission guard with its audit, and the commands on reply
  drafts (table \<open>fazle_draft_replies\<close>). Text is ASCII, so the translation of Bengali digits
  is the identity. The classification of a message by its regular expressions is an
  argument, and what is shown holds for every classification; so is the digest of the
  suppression key. The replies to the admin are modelled by their kind, not their text.
\<close>

subsection \<open>Suppression of repeated messages\<close>

type_synonym dedup_cache = "(string \<times> time) list"

definition DEDUP_TTL :: time where "DEDUP_TTL = secs 30"

definition DEDUP_MAX :: nat where "DEDUP_MAX = 256"

definition command_key :: "(string \<Rightarrow> string) \<Rightarrow> string \<Rightarrow> string \<Rightarrow> string" where
  "command_key sha1 text admin_phone = sha1 (admin_phone @ ''|'' @ py_strip text)"

definition stale :: "time \<Rightarrow> string \<times> time \<Rightarrow> bool" where
  "stale now x \<longleftrightarrow> now - snd x > DEDUP_TTL"

definition dedup_seen :: "time \<times> string \<Rightarrow> dedup_cache \<Rightarrow> bool \<times> dedup_cache" where
  \<comment> \<open>on the key of the message; the oldest entries are dropped while they are stale\<close>
  "dedup_seen msg cache =
     (case msg of (now, key) \<Rightarrow>
        (let cache1 = dropWhile (stale now) cache
         in if key \<in> fst ` set cache1 then (True, cache1)
            else let cache2 = cache1 @ [(key, now)]
                 in (False, if length cache2 > DEDUP_MAX then tl cache2 else cache2)))"

record dedup_spec =
  ds_passed :: "(string \<times> time) list"
  ds_clock :: time

definition spec_seen :: "time \<times> string \<Rightarrow> dedup_spec \<Rightarrow> bool \<times> dedup_spec" where
  \<comment> \<open>the specification keeps every message that went through, oldest first\<close>
  "spec_seen msg s =
     (case msg of (now, key) \<Rightarrow>
        if list_ex (\<lambda>(k, t). k = key \<and> now - t \<le> DEDUP_TTL) (py_suffix DEDUP_MAX (ds_passed s))
        then (True, s\<lparr>ds_clock := now\<rparr>)
        else (False, s\<lparr>ds_passed := ds_passed s @ [(key, now)], ds_clock := now\<rparr>))"

definition clock_forward :: "time \<times> string \<Rightarrow> dedup_spec \<Rightarrow> bool" where
  "clock_forward msg s \<longleftrightarrow> ds_clock s \<le> fst msg"

definition dedup_rel :: "dedup_spec \<Rightarrow> dedup_cache \<Rightarrow> bool" where
  "dedup_rel s cache \<longleftrightarrow> sorted (map snd (ds_passed s)) \<and> (\<forall>x\<in>set (ds_passed s). snd x \<le> ds_clock s) \<and>
     cache = filter (\<lambda>x. \<not> stale (ds_clock s) x) (py_suffix DEDUP_MAX (ds_passed s))"

lemma py_suffix_snoc: "0 < n \<Longrightarrow> py_suffix n (xs @ [x]) = py_suffix (n - 1) xs @ [x]"
  by (cases "n \<le> length xs") (auto simp: py_suffix_def Suc_diff_le)

lemma py_suffix_more: "py_suffix (Suc n) xs = (if n < length xs then [xs ! (length xs - Suc n)] else []) @ py_suffix n xs"
  using Cons_nth_drop_Suc [of "length xs - Suc n" xs] by (auto simp: py_suffix_def Suc_diff_Suc)

lemma sorted_py_suffix: "sorted (map f xs) \<Longrightarrow> sorted (map f (py_suffix n xs))"
  by (simp add: py_suffix_def drop_map [symmetric] sorted_wrt_drop)

lemma stale_mono: "now \<le> now' \<Longrightarrow> stale now x \<Longrightarrow> stale now' x"
  by (simp add: stale_def)

lemma dropWhile_stale: "sorted (map snd xs) \<Longrightarrow> dropWhile (stale now) xs = filter (\<lambda>x. \<not> stale now x) xs"
proof (induction xs)
  case Nil
  then show ?case by simp
next
  case (Cons x xs)
  show ?case
  proof (cases "stale now x")
    case True
    with Cons show ?thesis by simp
  next
    case False
    with Cons.prems have "\<forall>y\<in>set xs. \<not> stale now y" by (force simp: stale_def)
    with False show ?thesis by simp
  qed
qed

lemma evict_filter:
  assumes "dedup_rel s cache" "ds_clock s \<le> now"
  shows "dropWhile (stale now) cache = filter (\<lambda>x. \<not> stale now x) (py_suffix DEDUP_MAX (ds_passed s))"
proof -
  let ?S = "py_suffix DEDUP_MAX (ds_passed s)"
  have c: "cache = filter (\<lambda>x. \<not> stale (ds_clock s) x) ?S" and "sorted (map snd ?S)"
    using assms(1) by (auto simp: dedup_rel_def sorted_py_suffix)
  then have "sorted (map snd cache)" by (simp add: sorted_filter)
  then have "dropWhile (stale now) cache = filter (\<lambda>x. \<not> stale now x) cache" by (rule dropWhile_stale)
  also have "\<dots> = filter (\<lambda>x. \<not> stale now x) ?S"
    unfolding c filter_filter using stale_mono [OF assms(2)] by (intro filter_cong) auto
  finally show ?thesis .
qed

lemma shift_window:
  assumes "sorted (map snd H)" "fresh = filter (\<lambda>x. \<not> stale now x) (py_suffix (Suc n) H)"
  shows "(if length fresh > n then tl fresh else fresh) = filter (\<lambda>x. \<not> stale now x) (py_suffix n H)"
proof (cases "n < length H")
  case False
  then have "py_suffix (Suc n) H = py_suffix n H" by (simp add: py_suffix_more)
  moreover have "length fresh \<le> n"
    using False length_filter_le [of "\<lambda>x. \<not> stale now x" "py_suffix n H"] by (simp add: assms(2) calculation)
  ultimately show ?thesis by (simp add: assms(2))
next
  case True
  let ?y = "H ! (length H - Suc n)"
  have split: "py_suffix (Suc n) H = ?y # py_suffix n H" using True by (simp add: py_suffix_more)
  have "sorted (map snd (?y # py_suffix n H))" using sorted_py_suffix [OF assms(1), of "Suc n"] by (simp add: split)
  then have later: "\<not> stale now ?y \<Longrightarrow> \<forall>x\<in>set (py_suffix n H). \<not> stale now x" by (force simp: stale_def)
  show ?thesis
  proof (cases "stale now ?y")
    case True
    then have "fresh = filter (\<lambda>x. \<not> stale now x) (py_suffix n H)" by (simp add: assms(2) split)
    moreover have "length fresh \<le> n"
      using length_filter_le [of "\<lambda>x. \<not> stale now x" "py_suffix n H"] by (simp add: calculation)
    ultimately show ?thesis by simp
  next
    case False
    with later have "filter (\<lambda>x. \<not> stale now x) (py_suffix n H) = py_suffix n H" by simp
    then show ?thesis using False \<open>n < length H\<close> by (simp add: assms(2) split)
  qed
qed

lemma dedup_step:
  assumes "dedup_rel s cache" "clock_forward (now, key) s"
  shows "fst (dedup_seen (now, key) cache) = fst (spec_seen (now, key) s)"
    and "dedup_rel (snd (spec_seen (now, key) s)) (snd (dedup_seen (now, key) cache))"
proof -
  let ?S = "py_suffix DEDUP_MAX (ds_passed s)" and ?fresh = "\<lambda>x. \<not> stale now x"
  have now: "ds_clock s \<le> now" using assms(2) by (simp add: clock_forward_def)
  note ev = evict_filter [OF assms(1) now]
  have s: "sorted (map snd (ds_passed s))" "\<forall>x\<in>set (ds_passed s). snd x \<le> now"
    using assms(1) now by (force simp: dedup_rel_def)+
  have seen: "key \<in> fst ` {x \<in> set ?S. ?fresh x} \<longleftrightarrow> list_ex (\<lambda>(k, t). k = key \<and> now - t \<le> DEDUP_TTL) ?S"
    by (force simp: list_ex_iff stale_def)
  show "fst (dedup_seen (now, key) cache) = fst (spec_seen (now, key) s)"
    by (simp add: dedup_seen_def spec_seen_def ev seen Let_def)
  have f: "?fresh (key, now)" by (simp add: stale_def DEDUP_TTL_def secs_def)
  have w: "(if length (filter ?fresh ?S @ [(key, now)]) > DEDUP_MAX then tl (filter ?fresh ?S @ [(key, now)])
      else filter ?fresh ?S @ [(key, now)]) = filter ?fresh (py_suffix DEDUP_MAX (ds_passed s @ [(key, now)]))"
    using shift_window [OF s(1) refl, where now = now and n = 255] f
    by (cases "filter ?fresh ?S") (auto simp: DEDUP_MAX_def py_suffix_snoc split: if_splits)
  show "dedup_rel (snd (spec_seen (now, key) s)) (snd (dedup_seen (now, key) cache))"
    using s w by (auto simp: dedup_seen_def spec_seen_def ev seen Let_def dedup_rel_def sorted_append)
qed

interpretation dedup: machine_refinement spec_seen dedup_seen clock_forward dedup_rel
  by unfold_locales (auto simp: dedup_step)

text \<open>
  C37: The suppression cache refines its specification. As long as the clock does not go
  back, the cache, which drops its oldest entries and never holds more than 256, answers
  every message of any run as the specification does that remembers every message: a
  message is suppressed exactly when one of the last 256 messages that went through was
  the same command from the same admin, at most 30 seconds ago. A suppressed message does
  not renew the window.
\<close>

theorem dedup_refines:
  assumes "admissible_run clock_forward spec_seen msgs \<lparr>ds_passed = [], ds_clock = t0\<rparr>"
  shows "fst (answers dedup_seen msgs []) = fst (answers spec_seen msgs \<lparr>ds_passed = [], ds_clock = t0\<rparr>)
    \<and> length (snd (answers dedup_seen msgs [])) \<le> DEDUP_MAX"
proof -
  have r: "dedup_rel \<lparr>ds_passed = [], ds_clock = t0\<rparr> []" by (simp add: dedup_rel_def py_suffix_def)
  have "length c \<le> DEDUP_MAX" if "dedup_rel s c" for s c
  proof -
    have "length c \<le> length (py_suffix DEDUP_MAX (ds_passed s))"
      using that length_filter_le by (auto simp only: dedup_rel_def)
    also have "\<dots> \<le> DEDUP_MAX" by simp
    finally show ?thesis .
  qed
  with dedup.run_refines [OF r assms] show ?thesis by blast
qed

lemmas dedup_eval = spec_seen_def dedup_seen_def clock_forward_def stale_def DEDUP_TTL_def DEDUP_MAX_def secs_def
  py_suffix_def

theorem dedup_refines_witness:
  "fst (answers dedup_seen [(secs 0, ''a''), (secs 10, ''a''), (secs 20, ''b''), (secs 31, ''a''), (secs 61, ''a'')] [])
     = [False, True, False, False, True]"
  using dedup_refines [of "[(secs 0, ''a''), (secs 10, ''a''), (secs 20, ''b''), (secs 31, ''a''), (secs 61, ''a'')]" 0]
  by (simp add: dedup_eval Let_def)

subsection \<open>The permission guard\<close>

datatype guard = Proceed | Refused string

definition reason_text :: "decision \<Rightarrow> string \<Rightarrow> string" where
  "reason_text d required =
     (case d of
        Allowed \<Rightarrow> ''''
      | Unknown_actor \<Rightarrow> ''unknown actor''
      | Not_active \<Rightarrow> ''actor status=disabled''
      | Need_level r l \<Rightarrow> ''need '' @ required @ '' (level '' @ show_int r @ '') have level '' @ show_int l)"

definition admin_guard ::
  "(string \<Rightarrow> string) \<Rightarrow> env \<Rightarrow> env \<Rightarrow> string \<Rightarrow> string \<Rightarrow> string option \<Rightarrow> rbac_db \<Rightarrow> guard \<times> rbac_db" where
  \<comment> \<open>the two environments are those of the check and of the audit; \<open>t\<close> is the message and
    \<open>cmd\<close> its classification\<close>
  "admin_guard sha e ea phone t cmd db =
     (case cmd of
        None \<Rightarrow> (Proceed, db)
      | Some c \<Rightarrow>
          (case check_permission sha e (Some phone) None c db of
             (Inl _, db1) \<Rightarrow> (Proceed, db1)
           | (Inr (d, actor, required), db1) \<Rightarrow>
               if d \<noteq> Allowed
               then (case record_audit ea ''whatsapp'' c (Some phone) actor (Some (take 400 t)) False (Some required)
                            (Some (reason_text d required)) None db1 of
                       (Inl _, db2) \<Rightarrow> (Proceed, db2)
                     | (Inr _, db2) \<Rightarrow> (Refused required, db2))
               else (Proceed, snd (record_audit ea ''whatsapp'' c (Some phone) actor (Some (take 400 t)) True
                                     (Some required) None None db1))))"

datatype intake = Suppressed | Guarded guard

definition process_admin_command ::
  "(string \<Rightarrow> string) \<Rightarrow> (string \<Rightarrow> string) \<Rightarrow> (string \<Rightarrow> string option) \<Rightarrow> env \<Rightarrow> env \<Rightarrow> string \<Rightarrow> string
    \<Rightarrow> dedup_cache \<times> rbac_db \<Rightarrow> intake \<times> dedup_cache \<times> rbac_db" where
  \<comment> \<open>up to the dispatch on the command\<close>
  "process_admin_command sha1 sha classify e ea text phone s =
     (case s of (cache, db) \<Rightarrow>
        (let t = py_strip text;
             (seen, cache1) = dedup_seen (py_now e, command_key sha1 t phone) cache
         in if seen then (Suppressed, cache1, db)
            else let (g, db1) = admin_guard sha e ea phone t (classify t) db in (Guarded g, cache1, db1)))"

lemma record_audit_db: "fst (record_audit e ch c ph ac ar al rq dn su db) = (if raises e 0 then Inl Rbac_db_error else Inr (rb_next_audit db))"
  by (simp add: record_audit_def Let_def)

definition check_raises :: "env \<Rightarrow> string \<Rightarrow> rbac_db \<Rightarrow> bool" where
  \<comment> \<open>whether the check of a phone ends in a database error\<close>
  "check_raises e phone db \<longleftrightarrow> raises e 0 \<or> only_digits phone \<noteq> '''' \<and> raises e 1 \<or>
     (case get_admin_by_phone phone db of None \<Rightarrow> False | Some a \<Rightarrow> ad_status a = A_active \<and> raises e 3)"

definition permitted :: "string \<Rightarrow> string \<Rightarrow> rbac_db \<Rightarrow> bool" where
  "permitted phone command db =
     (case get_admin_by_phone phone db of
        None \<Rightarrow> False
      | Some a \<Rightarrow> ad_status a = A_active \<and> get_role_level (required_role command) db \<le> max_role_level (ad_id a) db)"

lemma get_admin_by_phone_empty: "get_admin_by_phone '''' db = None"
  by (simp add: get_admin_by_phone_def only_digits_def)

lemma find_actor_no_key: "find_actor sha (Some phone) None db = get_admin_by_phone phone db"
  by (cases "phone = ''''") (auto simp: find_actor_def get_admin_by_phone_empty split: option.splits)

lemma check_phone:
  "check_permission sha e (Some phone) None c db =
     (if check_raises e phone db then (Inl Rbac_db_error, db)
      else case get_admin_by_phone phone db of
        None \<Rightarrow> (Inr (Unknown_actor, None, required_role c), db)
      | Some a \<Rightarrow>
          if ad_status a \<noteq> A_active then (Inr (Not_active, Some a, required_role c), db)
          else if permitted phone c db
          then (Inr (Allowed, Some a, required_role c),
                if raises e 4 then db else update_admin (ad_id a) (\<lambda>x. x\<lparr>ad_last_seen := Some (db_now e)\<rparr>) db)
          else (Inr (Need_level (get_role_level (required_role c) db) (max_role_level (ad_id a) db), Some a,
                 required_role c), db))"
proof -
  have "asks_phone (Some phone) \<longleftrightarrow> only_digits phone \<noteq> ''''" "\<not> asks_key (Some phone) None db"
    by (simp_all add: asks_phone_def asks_key_def)
  then show ?thesis
    unfolding check_permission_def find_actor_no_key
    by (cases "get_admin_by_phone phone db") (auto simp: check_raises_def permitted_def Let_def)
qed

lemma update_admin_audit [simp]: "rb_audit (update_admin i f db) = rb_audit db"
  by (simp add: update_admin_def)

lemma check_phone_allowed:
  assumes "\<not> check_raises e phone db" "permitted phone c db"
  obtains a db1 where "check_permission sha e (Some phone) None c db = (Inr (Allowed, Some a, required_role c), db1)"
    "rb_audit db1 = rb_audit db" "get_admin_by_phone phone db = Some a"
proof (cases "get_admin_by_phone phone db")
  case None
  with assms(2) show ?thesis by (simp add: permitted_def)
next
  case (Some a)
  have "ad_status a = A_active" using assms(2) Some by (simp add: permitted_def)
  then show ?thesis
    using that [OF _ _ Some] assms by (simp add: check_phone Some split: if_splits)
qed

lemma check_phone_denied:
  assumes "\<not> check_raises e phone db" "\<not> permitted phone c db"
  obtains d where "check_permission sha e (Some phone) None c db = (Inr (d, get_admin_by_phone phone db, required_role c), db)"
    "d \<noteq> Allowed"
proof (cases "get_admin_by_phone phone db")
  case None
  then show ?thesis using that [of Unknown_actor] assms by (simp add: check_phone)
next
  case (Some a)
  then show ?thesis
    using that [of Not_active] that [of "Need_level (get_role_level (required_role c) db) (max_role_level (ad_id a) db)"] assms
    by (cases "ad_status a = A_active") (simp_all add: check_phone)
qed

definition guard_entry :: "rbac_db \<Rightarrow> string \<Rightarrow> string \<Rightarrow> bool \<Rightarrow> audit_entry \<Rightarrow> bool" where
  \<comment> \<open>what the audit says of a guarded command\<close>
  "guard_entry db phone c verdict x \<longleftrightarrow> ae_phone x = Some phone \<and> ae_user x = map_option ad_id (get_admin_by_phone phone db)
     \<and> ae_channel x = ''whatsapp'' \<and> ae_command x = c \<and> ae_allowed x = verdict \<and> ae_required x = Some (required_role c)"

text \<open>
  The guard of a chat command, on every branch. A message that is no command proceeds
  and nothing is recorded. For a command, when the statements of the check and of the
  audit succeed, the guard lets it proceed exactly when the sender may run it, and refuses it
  otherwise, and in both cases adds one audit entry with the sender, the command and the
  verdict. When a statement of the check raises, or the audit of a refusal does, the command
  proceeds: the guard fails open, also for a sender that the check has just denied.
\<close>

theorem guard_verdict:
  "case admin_guard sha e ea phone t cmd db of (g, db') \<Rightarrow>
     (case cmd of
        None \<Rightarrow> g = Proceed \<and> db' = db
      | Some c \<Rightarrow>
          g = (if check_raises e phone db \<or> permitted phone c db \<or> raises ea 0 then Proceed else Refused (required_role c))
          \<and> (if check_raises e phone db \<or> raises ea 0 then rb_audit db' = rb_audit db
             else \<exists>x. rb_audit db' = rb_audit db @ [x] \<and> guard_entry db phone c (permitted phone c db) x))"
proof (cases cmd)
  case None
  then show ?thesis by (simp add: admin_guard_def)
next
  case (Some c)
  consider (error) "check_raises e phone db"
    | (allowed) "\<not> check_raises e phone db" "permitted phone c db"
    | (denied) "\<not> check_raises e phone db" "\<not> permitted phone c db"
    by blast
  then show ?thesis
  proof cases
    case error
    with Some show ?thesis by (simp add: admin_guard_def check_phone)
  next
    case allowed
    from check_phone_allowed [OF this, of sha] obtain a db1 where
      "check_permission sha e (Some phone) None c db = (Inr (Allowed, Some a, required_role c), db1)"
      "rb_audit db1 = rb_audit db" "get_admin_by_phone phone db = Some a" .
    with Some allowed show ?thesis by (simp add: admin_guard_def record_audit_def guard_entry_def Let_def)
  next
    case denied
    from check_phone_denied [OF this, of sha] obtain d where
      "check_permission sha e (Some phone) None c db = (Inr (d, get_admin_by_phone phone db, required_role c), db)"
      "d \<noteq> Allowed" .
    with Some denied show ?thesis by (simp add: admin_guard_def record_audit_def guard_entry_def Let_def)
  qed
qed

text \<open>
  The fail-open branch on a concrete case: a clerk's \<open>user role\<close> command is denied, the insert
  of the audit entry raises, and the command proceeds.
\<close>

theorem denied_proceeds_without_audit:
  "fst (check_permission (\<lambda>k. k) (env_at 5) (Some ''01722'') None ''user_role'' sample_rbac) =
     Inr (Need_level 50 20, get_admin_by_phone ''01722'' sample_rbac, ''superadmin'')
   \<and> fst (admin_guard (\<lambda>k. k) (env_at 5) ((env_at 5)\<lparr>raises := \<lambda>_. True\<rparr>) ''01722'' ''user role 01722 superadmin''
       (Some ''user_role'') sample_rbac) = Proceed"
  by (simp add: admin_guard_def check_phone check_raises_def permitted_def max_role_level_def granted_def
      record_audit_def rbac_eval)

subsection \<open>Reply drafts\<close>

datatype reply_status = RD_pending | RD_edited | RD_approved | RD_sent | RD_rejected

datatype bridge_choice = Bridge1 | Bridge2

record reply_row =
  rd_id :: int
  rd_recipient :: string
  rd_text :: string
  rd_source :: "string option"
  rd_intent :: string
  rd_status :: "reply_status option"
  rd_admin :: "string option"
  rd_approved_at :: "time option"
  rd_sent_at :: "time option"
  rd_error :: "string option"

record reply_db =
  rp_rows :: "reply_row list"
  rp_sends :: "(int \<times> bridge_choice \<times> string \<times> string) list"
    \<comment> \<open>every call of a bridge: the draft, the bridge, the recipient and the text\<close>
  rp_attendance :: "(int \<times> string \<times> string \<times> string) list"
    \<comment> \<open>the attendance drafts handed over: the draft, its text, its sender and the admin\<close>

record approve_turn =
  at_env :: env
  at_send :: "bool option"
    \<comment> \<open>what the bridge answers; None when it raises\<close>
  at_exn :: string
    \<comment> \<open>the text of the exception, if one is recorded\<close>

datatype approve_result = Ap_sent | Ap_unsent | Ap_missing | Ap_already reply_status | Ap_error

definition bridge_for :: "string option \<Rightarrow> bridge_choice" where
  "bridge_for source = (if source \<in> {Some ''bridge1'', Some ''meta''} then Bridge1 else Bridge2)"

definition to_jid :: "string \<Rightarrow> string" where
  "to_jid recipient = (if CHR ''@'' \<in> set recipient then recipient else recipient @ ''@s.whatsapp.net'')"

definition update_reply :: "int \<Rightarrow> (reply_row \<Rightarrow> reply_row) \<Rightarrow> reply_db \<Rightarrow> reply_db" where
  "update_reply i f db = db\<lparr>rp_rows := update_where (\<lambda>r. rd_id r = i) f (rp_rows db)\<rparr>"

definition find_reply :: "int \<Rightarrow> reply_db \<Rightarrow> reply_row option" where
  "find_reply i db = find (\<lambda>r. rd_id r = i) (rp_rows db)"

definition mark_error :: "int \<Rightarrow> string \<Rightarrow> reply_db \<Rightarrow> reply_db" where
  "mark_error i x = update_reply i (\<lambda>r. r\<lparr>rd_error := Some x\<rparr>)"

definition send_failed :: "approve_turn \<Rightarrow> int \<Rightarrow> bool \<Rightarrow> reply_db \<Rightarrow> approve_result \<times> reply_db" where
  \<comment> \<open>the handler of an exception of the sending block, whose own statement is number 3\<close>
  "send_failed tn i sent db =
     (if raises (at_env tn) 3 then (Ap_error, db)
      else (if sent then Ap_sent else Ap_unsent, mark_error i (take 200 (at_exn tn)) db))"

definition cmd_approve :: "approve_turn \<Rightarrow> int \<Rightarrow> string \<Rightarrow> reply_db \<Rightarrow> approve_result \<times> reply_db" where
  "cmd_approve tn i admin db =
     (let e = at_env tn
      in if raises e 0 then (Ap_error, db)
         else case find_reply i db of
           None \<Rightarrow> (Ap_missing, db)
         | Some r \<Rightarrow>
             if rd_status r \<notin> {Some RD_pending, None, Some RD_edited} then (Ap_already (the (rd_status r)), db)
             else if raises e 1 then (Ap_error, db)
             else let db1 = update_reply i (\<lambda>r. r\<lparr>rd_status := Some RD_approved, rd_admin := Some admin,
                                rd_approved_at := Some (db_now e)\<rparr>) db;
                      db2 = (if rd_intent r = ''attendance''
                             then db1\<lparr>rp_attendance := rp_attendance db1 @ [(i, rd_text r, rd_recipient r, admin)]\<rparr>
                             else db1);
                      db3 = db2\<lparr>rp_sends := rp_sends db2 @ [(i, bridge_for (rd_source r), to_jid (rd_recipient r), rd_text r)]\<rparr>
                  in case at_send tn of
                       None \<Rightarrow> send_failed tn i False db3
                     | Some True \<Rightarrow>
                         if raises e 2 then send_failed tn i True db3
                         else (Ap_sent, update_reply i (\<lambda>r. r\<lparr>rd_status := Some RD_sent, rd_sent_at := Some (db_now e)\<rparr>) db3)
                     | Some False \<Rightarrow>
                         if raises e 2 then send_failed tn i False db3
                         else (Ap_unsent, mark_error i ''Bridge send returned false'' db3))"

datatype reject_result = Rj_done | Rj_missing | Rj_already reply_status | Rj_error

definition cmd_reject :: "env \<Rightarrow> int \<Rightarrow> string \<Rightarrow> reply_db \<Rightarrow> reject_result \<times> reply_db" where
  "cmd_reject e i admin db =
     (if raises e 0 then (Rj_error, db)
      else case find_reply i db of
        None \<Rightarrow> (Rj_missing, db)
      | Some r \<Rightarrow>
          if rd_status r \<in> {Some RD_sent, Some RD_rejected} then (Rj_already (the (rd_status r)), db)
          else if raises e 1 then (Rj_error, db)
          else (Rj_done, update_reply i (\<lambda>r. r\<lparr>rd_status := Some RD_rejected, rd_admin := Some admin,
                           rd_approved_at := Some (db_now e)\<rparr>) db))"

definition cmd_edit :: "env \<Rightarrow> int \<Rightarrow> string \<Rightarrow> string \<Rightarrow> reply_db \<Rightarrow> bool \<times> reply_db" where
  \<comment> \<open>the store of the correction for later reuse is not modelled\<close>
  "cmd_edit e i new_text admin db =
     (if raises e 0 then (False, db)
      else case find_reply i db of
        None \<Rightarrow> (False, db)
      | Some r \<Rightarrow>
          if raises e 1 then (False, db)
          else (True, update_reply i (\<lambda>r. r\<lparr>rd_text := new_text, rd_status := Some RD_edited, rd_admin := Some admin\<rparr>) db))"

fun cmd_approve_many :: "(approve_turn \<times> int) list \<Rightarrow> string \<Rightarrow> reply_db \<Rightarrow> nat \<times> approve_result list \<times> reply_db" where
  \<comment> \<open>the count is of the replies that begin with the check mark\<close>
  "cmd_approve_many [] admin db = (0, [], db)"
| "cmd_approve_many ((tn, i) # ids) admin db =
     (let (x, db1) = cmd_approve tn i admin db;
          (n, xs, db2) = cmd_approve_many ids admin db1
      in ((if x \<in> {Ap_sent, Ap_unsent} then 1 else 0) + n, x # xs, db2))"

fun cmd_reject_many :: "(env \<times> int) list \<Rightarrow> string \<Rightarrow> reply_db \<Rightarrow> nat \<times> reject_result list \<times> reply_db" where
  "cmd_reject_many [] admin db = (0, [], db)"
| "cmd_reject_many ((e, i) # ids) admin db =
     (let (x, db1) = cmd_reject e i admin db;
          (n, xs, db2) = cmd_reject_many ids admin db1
      in ((if x = Rj_done then 1 else 0) + n, x # xs, db2))"

definition is_id_separator :: "char \<Rightarrow> bool" where
  "is_id_separator c \<longleftrightarrow> c = CHR '','' \<or> is_space c"

definition parse_id_list :: "string \<Rightarrow> nat list" where
  \<comment> \<open>on the text the command's pattern admits: digits, commas and white space\<close>
  "parse_id_list raw = rev (fold (\<lambda>tok out. if list_all is_digit tok \<and> read_nat tok \<notin> set out then read_nat tok # out else out)
     (split_runs is_id_separator (py_strip raw) []) [])"

datatype reply_cmd =
  C_approve approve_turn int string
| C_approve_many "(approve_turn \<times> int) list" string
| C_reject env int string
| C_reject_many "(env \<times> int) list" string
| C_edit env int string string

fun run_reply_cmd :: "reply_cmd \<Rightarrow> reply_db \<Rightarrow> reply_db" where
  "run_reply_cmd (C_approve tn i admin) db = snd (cmd_approve tn i admin db)"
| "run_reply_cmd (C_approve_many ids admin) db = snd (snd (cmd_approve_many ids admin db))"
| "run_reply_cmd (C_reject e i admin) db = snd (cmd_reject e i admin db)"
| "run_reply_cmd (C_reject_many ids admin) db = snd (snd (cmd_reject_many ids admin db))"
| "run_reply_cmd (C_edit e i txt admin) db = snd (cmd_edit e i txt admin db)"

fun edits :: "int \<Rightarrow> reply_cmd \<Rightarrow> bool" where
  "edits i (C_edit e j txt admin) = (j = i)"
| "edits i _ = False"

definition up_for_sending :: "int \<Rightarrow> reply_db \<Rightarrow> bool" where
  "up_for_sending i db =
     (case find_reply i db of None \<Rightarrow> False | Some r \<Rightarrow> rd_status r \<in> {Some RD_pending, None, Some RD_edited})"

definition sends_of :: "int \<Rightarrow> reply_db \<Rightarrow> nat" where
  "sends_of i db = count_where (\<lambda>x. fst x = i) (rp_sends db)"

definition budget :: "int \<Rightarrow> reply_db \<Rightarrow> nat" where
  \<comment> \<open>what was sent and what may yet be\<close>
  "budget i db = sends_of i db + of_bool (up_for_sending i db)"

lemma find_reply_update:
  assumes "\<And>r. rd_id (f r) = rd_id r"
  shows "find_reply j (update_reply i f db) = map_option (\<lambda>r. if rd_id r = i then f r else r) (find_reply j db)"
  by (simp add: find_reply_def update_reply_def find_update_where_key assms)

lemma find_reply_id: "find_reply j db = Some r \<Longrightarrow> rd_id r = j"
  by (auto simp: find_reply_def dest: find_Some_mem)

lemma up_update:
  assumes "\<And>r. rd_id (f r) = rd_id r"
  shows "up_for_sending j (update_reply i f db) \<longleftrightarrow>
    (if i = j then \<exists>r. find_reply j db = Some r \<and> rd_status (f r) \<in> {Some RD_pending, None, Some RD_edited} else up_for_sending j db)"
  by (auto simp: up_for_sending_def find_reply_update assms split: option.splits dest: find_reply_id)

lemma update_reply_log [simp]:
  "rp_sends (update_reply i f db) = rp_sends db" "rp_attendance (update_reply i f db) = rp_attendance db"
  "sends_of j (update_reply i f db) = sends_of j db"
  by (simp_all add: update_reply_def sends_of_def)

lemma up_mark_error [simp]: "up_for_sending j (mark_error i x db) = up_for_sending j db"
  unfolding mark_error_def by (subst up_update) (auto simp: up_for_sending_def split: option.splits)

lemma sends_mark_error [simp]: "sends_of j (mark_error i x db) = sends_of j db"
  by (simp add: mark_error_def)

lemma budget_send_failed [simp]: "budget j (snd (send_failed tn i b db)) = budget j db"
  by (simp add: send_failed_def budget_def)

lemma up_log [simp]:
  "up_for_sending j (db\<lparr>rp_sends := xs\<rparr>) = up_for_sending j db" "up_for_sending j (db\<lparr>rp_attendance := ys\<rparr>) = up_for_sending j db"
  by (simp_all add: up_for_sending_def find_reply_def)

lemma budget_approve: "budget j (snd (cmd_approve tn i admin db)) \<le> budget j db"
proof (cases "up_for_sending i db \<and> \<not> raises (at_env tn) 0 \<and> \<not> raises (at_env tn) 1")
  case False
  then show ?thesis
    by (auto simp: cmd_approve_def up_for_sending_def Let_def split: option.splits)
next
  case True
  then obtain r where r: "find_reply i db = Some r" "rd_status r \<in> {Some RD_pending, None, Some RD_edited}"
    by (auto simp: up_for_sending_def split: option.splits)
  define db1 where "db1 = update_reply i (\<lambda>r. r\<lparr>rd_status := Some RD_approved, rd_admin := Some admin,
    rd_approved_at := Some (db_now (at_env tn))\<rparr>) db"
  define db2 where "db2 = (if rd_intent r = ''attendance''
    then db1\<lparr>rp_attendance := rp_attendance db1 @ [(i, rd_text r, rd_recipient r, admin)]\<rparr> else db1)"
  define db3 where "db3 = db2\<lparr>rp_sends := rp_sends db2 @ [(i, bridge_for (rd_source r), to_jid (rd_recipient r), rd_text r)]\<rparr>"
  have "sends_of j db3 = sends_of j db + of_bool (i = j)"
    by (simp add: db3_def db2_def db1_def sends_of_def count_where_def)
  moreover have up: "up_for_sending j db3 \<longleftrightarrow> i \<noteq> j \<and> up_for_sending j db"
    by (auto simp: db3_def db2_def db1_def up_update)
  ultimately have b3: "budget j db3 \<le> budget j db"
    using True by (auto simp: budget_def)
  have "budget j (update_reply i (\<lambda>r. r\<lparr>rd_status := Some RD_sent, rd_sent_at := t\<rparr>) db3) \<le> budget j db3" for t
    using up by (auto simp: budget_def up_update)
  moreover have "budget j (mark_error i x db3) = budget j db3" for x by (simp add: budget_def)
  moreover have "snd (cmd_approve tn i admin db) =
      (case at_send tn of
         None \<Rightarrow> snd (send_failed tn i False db3)
       | Some True \<Rightarrow> if raises (at_env tn) 2 then snd (send_failed tn i True db3)
           else update_reply i (\<lambda>r. r\<lparr>rd_status := Some RD_sent, rd_sent_at := Some (db_now (at_env tn))\<rparr>) db3
       | Some False \<Rightarrow> if raises (at_env tn) 2 then snd (send_failed tn i False db3)
           else mark_error i ''Bridge send returned false'' db3)"
    using True r by (auto simp: cmd_approve_def db3_def db2_def db1_def Let_def split: option.splits bool.splits)
  ultimately show ?thesis
    using b3 by (auto split: option.splits bool.splits intro: order_trans)
qed

lemma budget_approve_many: "budget j (snd (snd (cmd_approve_many ids admin db))) \<le> budget j db"
proof (induction ids arbitrary: db)
  case Nil
  then show ?case by simp
next
  case (Cons x ids)
  then show ?case
    using budget_approve [of j "fst x" "snd x" admin db] order_trans
    by (cases x) (fastforce simp: Let_def split_def)
qed

lemma budget_reject: "budget j (snd (cmd_reject e i admin db)) \<le> budget j db"
  by (auto simp: cmd_reject_def budget_def up_update split: option.splits)

lemma budget_reject_many: "budget j (snd (snd (cmd_reject_many ids admin db))) \<le> budget j db"
proof (induction ids arbitrary: db)
  case Nil
  then show ?case by simp
next
  case (Cons x ids)
  then show ?case
    using budget_reject [of j "fst x" "snd x" admin db] order_trans
    by (cases x) (fastforce simp: Let_def split_def)
qed

lemma budget_edit: "budget j (snd (cmd_edit e i txt admin db)) \<le> budget j db + of_bool (i = j)"
  by (auto simp: cmd_edit_def budget_def up_update split: option.splits)

lemma budget_cmd: "budget i (run_reply_cmd c db) \<le> budget i db + of_bool (edits i c)"
  using budget_approve budget_approve_many budget_reject budget_reject_many budget_edit by (cases c) simp_all

text \<open>
  C30: How often a draft is sent. Along any sequence of approve, reject and edit commands,
  single or in bulk, whatever the bridge answers and whichever statements raise, the number
  of times a draft is handed to a bridge is at most one if it was up for sending (pending or
  edited) at the start, plus one for each time an admin edited it. In particular a rejected
  draft is not sent, and without edits no draft is sent twice.
\<close>

theorem sends_bounded:
  "sends_of i (fold run_reply_cmd cmds db) \<le> sends_of i db + of_bool (up_for_sending i db) + count_where (edits i) cmds"
proof -
  have "budget i (fold run_reply_cmd cmds db) \<le> budget i db + count_where (edits i) cmds"
  proof (induction cmds arbitrary: db)
    case Nil
    then show ?case by (simp add: count_where_def)
  next
    case (Cons c cmds)
    show ?case
      using Cons [of "run_reply_cmd c db"] budget_cmd [of i c db]
      by (cases "edits i c") (simp_all add: count_where_def)
  qed
  then show ?thesis by (simp add: budget_def)
qed

definition sample_reply :: reply_db where
  "sample_reply = \<lparr>rp_rows = [\<lparr>rd_id = 7, rd_recipient = ''01733'', rd_text = ''hello'', rd_source = Some ''bridge1'', rd_intent = ''greeting'',
       rd_status = Some RD_pending, rd_admin = None, rd_approved_at = None, rd_sent_at = None, rd_error = None\<rparr>],
     rp_sends = [], rp_attendance = []\<rparr>"

definition sample_approve :: "bool option \<Rightarrow> approve_turn" where
  "sample_approve b = \<lparr>at_env = env_at 5, at_send = b, at_exn = ''timeout''\<rparr>"

lemmas reply_eval = cmd_approve_def cmd_edit_def find_reply_def update_reply_def send_failed_def mark_error_def
  sample_reply_def sample_approve_def bridge_for_def to_jid_def sends_of_def count_where_def

text \<open>
  The bound is met: an edit is accepted for a draft that was sent, and the next approve sends
  it again.
\<close>

theorem edited_after_sent_sends_again:
  "sends_of 7 (fold run_reply_cmd
     [C_approve (sample_approve (Some True)) 7 ''boss'', C_edit (env_at 6) 7 ''hello again'' ''boss'',
      C_approve (sample_approve (Some True)) 7 ''boss''] sample_reply) = 2"
  by (simp add: reply_eval Let_def)

text \<open>
  The count of a bulk approve takes in the drafts that could not be sent: the bridge refuses, and
  the summary still says that one was sent.
\<close>

theorem bulk_count_includes_unsent:
  "case cmd_approve_many [(sample_approve (Some False), 7)] ''boss'' sample_reply of (n, xs, db) \<Rightarrow>
     n = 1 \<and> xs = [Ap_unsent] \<and> map rd_status (rp_rows db) = [Some RD_approved]"
  by (simp add: reply_eval Let_def)

subsection \<open>Lists of draft numbers\<close>

fun join_ids :: "string \<Rightarrow> nat list \<Rightarrow> string" where
  \<comment> \<open>the numbers with a separator between them\<close>
  "join_ids sep [] = ''''"
| "join_ids sep [n] = show_nat n"
| "join_ids sep (n # ns) = show_nat n @ sep @ join_ids sep ns"

lemma not_separator_digit: "is_digit c \<Longrightarrow> \<not> is_id_separator c"
  by (auto simp: is_digit_def is_id_separator_def is_space_def Let_def)

lemma not_space_digit: "is_digit c \<Longrightarrow> \<not> is_space c"
  by (auto simp: is_digit_def is_space_def Let_def)

lemma split_runs_skip: "list_all sep w \<Longrightarrow> split_runs sep (w @ s) [] = split_runs sep s []"
  by (induction w) auto

lemma split_join_ids:
  assumes "sep \<noteq> ''''" "list_all is_id_separator sep"
  shows "split_runs is_id_separator (join_ids sep ns) [] = map show_nat ns"
proof -
  have piece: "list_all (\<lambda>c. \<not> is_id_separator c) (show_nat n)" for n
    using show_nat_digits [of n] not_separator_digit by (auto simp: list_all_iff)
  obtain c w where sep: "sep = c # w" "is_id_separator c" "list_all is_id_separator w"
    using assms by (cases sep) auto
  show ?thesis
  proof (induction ns)
    case Nil
    then show ?case by simp
  next
    case (Cons n ns)
    show ?case
    proof (cases ns)
      case Nil
      then show ?thesis using split_runs_piece [OF piece [of n], of "[]" "[]"] by simp
    next
      case (Cons m ms)
      then have "split_runs is_id_separator (join_ids sep (n # ns)) [] =
          split_runs is_id_separator (sep @ join_ids sep ns) (rev (show_nat n))"
        using split_runs_piece [OF piece [of n], of "sep @ join_ids sep ns" "[]"] by simp
      also have "\<dots> = show_nat n # split_runs is_id_separator (join_ids sep ns) []"
        using sep by (simp add: split_runs_skip)
      finally show ?thesis using Cons.IH by simp
    qed
  qed
qed

lemma join_ids_ends: "join_ids sep ns = '''' \<or> is_digit (hd (join_ids sep ns)) \<and> is_digit (last (join_ids sep ns))"
proof -
  have h: "is_digit (hd (show_nat n))" "is_digit (last (show_nat n))" for n
    using show_nat_digits [of n] by simp_all
  have "ns \<noteq> [] \<Longrightarrow> join_ids sep ns \<noteq> '''' \<and> is_digit (hd (join_ids sep ns)) \<and> is_digit (last (join_ids sep ns))"
    by (induction sep ns rule: join_ids.induct) (simp_all add: h)
  then show ?thesis by (cases ns) auto
qed

lemma remdups_skip: "n \<in> set out \<Longrightarrow> remdups (xs @ n # out) = remdups (xs @ out)"
  by (induction xs) auto

lemma fold_new_ids:
  "distinct out \<Longrightarrow> fold (\<lambda>n out. if n \<notin> set out then n # out else out) ns out = remdups (rev ns @ out)"
  by (induction ns arbitrary: out) (auto simp: remdups_skip distinct_remdups_id)

text \<open>
  The numbers of a bulk command round-trip. Writing any numbers with commas or spaces
  between them and reading the list back gives the same numbers in the same order, each
  once, at its first place; so a bulk command handles every draft named and none twice.
\<close>

theorem parse_join_ids:
  assumes "sep \<noteq> ''''" and "list_all is_id_separator sep"
  shows "parse_id_list (join_ids sep ns) = rev (remdups (rev ns))"
proof -
  have strip: "py_strip (join_ids sep ns) = join_ids sep ns"
    using join_ids_ends [of sep ns] not_space_digit by (intro py_strip_id) auto
  have d: "list_all is_digit (show_nat n)" for n using show_nat_digits [of n] by (simp add: list_all_iff)
  have "parse_id_list (join_ids sep ns) = rev (fold (\<lambda>n out. if n \<notin> set out then n # out else out) ns [])"
    by (simp add: parse_id_list_def strip split_join_ids [OF assms] fold_map comp_def d cong: if_cong)
  then show ?thesis by (simp add: fold_new_ids)
qed

theorem parse_join_ids_witness: "parse_id_list (join_ids '', '' [165, 162, 165, 161]) = [165, 162, 161]"
  using parse_join_ids [of "'', ''" "[165, 162, 165, 161]"] by (simp add: is_id_separator_def is_space_def)

end
