(* ===== verification/FPE_Identity.thy ===== *)
theory FPE_Identity
  imports Event_Bus Complex_Main
begin

text \<open>
  Who a payment is for: the employee matching of \<open>modules/fazle_payroll_engine/employee.py\<close>
  and the identity service of \<open>modules/fazle_payroll_engine/normalization.py\<close> (aliases,
  soft links from duplicates to the employee they stand for, the review queue). Text is ASCII,
  on which the NFKC normal form is the identity. The similarity score of the third-party
  matcher (\<open>rapidfuzz\<close>) is an argument. The reads of a call count as its statement 0: they
  change nothing, so which of them raises makes no difference. What a call decides from its
  reads is a value of its own (\<open>match_plan\<close>, \<open>link_check\<close>), so that the writes of a call can be
  run in a later state than its reads, as they are when several workers run at once.
\<close>

subsection \<open>Tables\<close>

record fpe_employee =
  em_id :: int
  em_code :: "string option"
  em_name :: string
  em_norm :: string
  em_phone :: "string option"
  em_id_phone :: "string option"
  em_status :: string
  em_source :: string
  em_canonical :: "int option"
  em_resolution :: string
  em_confidence :: rat

record emp_alias =
  al_employee :: int
  al_type :: string
  al_value :: string

record res_link =
  rl_employee :: int
  rl_canonical :: int
  rl_type :: string
  rl_confidence :: rat
  rl_reason :: string
  rl_by :: string

record review_item =
  ri_id :: int
  ri_candidate :: "int option"
  ri_suspected :: "int option"
  ri_reason :: string
  ri_confidence :: rat
  ri_name :: "string option"
  ri_phone :: "string option"
  ri_status :: string
  ri_reviewer :: "string option"
  ri_note :: "string option"

datatype audit_state = No_state | Employee_state fpe_employee | Values payload

record norm_audit =
  na_action :: string
  na_type :: string
  na_entity :: "int option"
  na_before :: audit_state
  na_after :: audit_state
  na_reviewer :: "string option"
  na_reason :: "string option"

record wbom_contact =
  wc_mobile :: "string option"
  wc_bkash :: "string option"
  wc_nagad :: "string option"
  wc_status :: "string option"

record identity_db =
  id_emps :: "fpe_employee list"
  id_next :: int
  id_aliases :: "emp_alias list"
  id_links :: "res_link list"
  id_reviews :: "review_item list"
  id_review_next :: int
  id_audit :: "norm_audit list"
  id_wbom :: "wbom_contact list"

datatype identity_error =
  Identity_exception
| Invalid_alias_type string
| Same_employee
| Employee_not_found
| Canonical_is_duplicate int
| Invalid_decision string
| Review_not_found int
| Review_closed int string
| Merge_needs_both

subsection \<open>Names\<close>

function collapse_spaces :: "string \<Rightarrow> string" where
  \<comment> \<open>\<open>re.sub(r"\s+", " ", s)\<close>\<close>
  "collapse_spaces [] = []"
| "collapse_spaces (c # s) =
     (if is_space c then CHR '' '' # collapse_spaces (dropWhile is_space s) else c # collapse_spaces s)"
  by pat_completeness auto
termination
  by (relation "measure length") (auto simp: le_imp_less_Suc length_dropWhile_le)

definition rstrip_chars :: "char list \<Rightarrow> string \<Rightarrow> string" where
  "rstrip_chars cs s = rev (dropWhile (\<lambda>c. c \<in> set cs) (rev s))"

definition normalize_name :: "string option \<Rightarrow> string" where
  "normalize_name raw =
     (case raw of None \<Rightarrow> '''' | Some s \<Rightarrow>
        if s = '''' then '''' else rstrip_chars ''-. '' (collapse_spaces (py_lower (py_strip s))))"

definition is_letter :: "char \<Rightarrow> bool" where
  "is_letter c \<longleftrightarrow> (let n = of_char c :: nat in 65 \<le> n \<and> n \<le> 90 \<or> 97 \<le> n \<and> n \<le> 122)"

definition is_valid_human_name :: "string option \<Rightarrow> bool" where
  "is_valid_human_name name =
     (case name of None \<Rightarrow> False | Some raw \<Rightarrow>
        raw \<noteq> '''' \<and>
        (let s = py_strip raw;
             digits_only = filter (\<lambda>c. \<not> is_space c \<and> c \<notin> set ''-+().'') s
         in length s \<ge> 2
          \<and> py_lower s \<notin> {''unknown'', ''unnamed'', ''none'', ''n/a'', ''na''}
          \<and> \<not> (digits_only \<noteq> '''' \<and> list_all is_digit digits_only)
          \<and> list_ex is_letter s))"

definition present :: "string option \<Rightarrow> string option" where
  \<comment> \<open>a value that counts as true: missing text and empty text do not\<close>
  "present x = py_or x None"

subsection \<open>Soft links\<close>

fun resolve_loop :: "fpe_employee list \<Rightarrow> nat \<Rightarrow> int list \<Rightarrow> fpe_employee \<Rightarrow> fpe_employee" where
  "resolve_loop emps 0 seen cur = cur"
| "resolve_loop emps (Suc n) seen cur =
     (case em_canonical cur of
        None \<Rightarrow> cur
      | Some c \<Rightarrow>
          if c = 0 \<or> em_id cur \<in> set seen then cur
          else (case find (\<lambda>m. em_id m = c) emps of
                  None \<Rightarrow> cur
                | Some canon \<Rightarrow> resolve_loop emps n (em_id cur # seen) canon))"

definition resolve_canonical :: "fpe_employee list \<Rightarrow> fpe_employee \<Rightarrow> fpe_employee" where
  "resolve_canonical emps row = resolve_loop emps 8 [] row"

fun follow_loop :: "fpe_employee list \<Rightarrow> nat \<Rightarrow> int list \<Rightarrow> int \<Rightarrow> int" where
  "follow_loop emps 0 seen cur = cur"
| "follow_loop emps (Suc n) seen cur =
     (if cur \<in> set seen then cur
      else case find (\<lambda>m. em_id m = cur) emps of
             None \<Rightarrow> cur
           | Some m \<Rightarrow>
               (case em_canonical m of
                  None \<Rightarrow> cur
                | Some c \<Rightarrow> if c = 0 then cur else follow_loop emps n (cur # seen) c))"

definition resolve_to_canonical :: "fpe_employee list \<Rightarrow> int \<Rightarrow> int" where
  "resolve_to_canonical emps i = follow_loop emps 8 [] i"

subsection \<open>Statements\<close>

definition norm_audit_row ::
  "string \<Rightarrow> int option \<Rightarrow> audit_state \<Rightarrow> audit_state \<Rightarrow> string option \<Rightarrow> string option \<Rightarrow> string
    \<Rightarrow> identity_db \<Rightarrow> identity_db" where
  "norm_audit_row action entity before after reviewer reason entity_type db =
     db\<lparr>id_audit := id_audit db @
          [\<lparr>na_action = action, na_type = entity_type, na_entity = entity, na_before = before, na_after = after,
            na_reviewer = reviewer, na_reason = reason\<rparr>]\<rparr>"

definition insert_alias :: "int \<Rightarrow> string \<Rightarrow> string \<Rightarrow> emp_alias list \<Rightarrow> emp_alias list" where
  "insert_alias i ty v t =
     (if has_row (\<lambda>a. al_type a = ty \<and> al_value a = v) t then t
      else t @ [\<lparr>al_employee = i, al_type = ty, al_value = v\<rparr>])"

definition add_alias :: "env \<Rightarrow> int \<Rightarrow> string \<Rightarrow> string \<Rightarrow> identity_db \<Rightarrow> (identity_error + unit) \<times> identity_db" where
  "add_alias e i ty v db =
     (if raises e 0 then (Inl Identity_exception, db)
      else (Inr (), db\<lparr>id_aliases := insert_alias i ty v (id_aliases db)\<rparr>))"

definition get_employee_by_id :: "int \<Rightarrow> identity_db \<Rightarrow> fpe_employee option" where
  "get_employee_by_id i db = find (\<lambda>m. em_id m = i) (id_emps db)"

definition maybe_enrich_full_name ::
  "env \<Rightarrow> int \<Rightarrow> string option \<Rightarrow> string option \<Rightarrow> identity_db \<Rightarrow> (identity_error + unit) \<times> identity_db" where
  \<comment> \<open>statement 1 updates the employee, statement 2 stores the alias\<close>
  "maybe_enrich_full_name e i current incoming db =
     (if \<not> is_valid_human_name incoming \<or> is_valid_human_name current then (Inr (), db)
      else if raises e 1 then (Inl Identity_exception, db)
      else let nm = normalize_name incoming;
               db1 = db\<lparr>id_emps := update_where (\<lambda>m. em_id m = i)
                          (\<lambda>m. m\<lparr>em_name := py_strip (the incoming), em_norm := nm\<rparr>) (id_emps db)\<rparr>
           in if nm = '''' then (Inr (), db1)
              else if raises e 2 then (Inl Identity_exception, db1)
              else (Inr (), db1\<lparr>id_aliases := insert_alias i ''name'' nm (id_aliases db1)\<rparr>))"

subsection \<open>The review queue\<close>

definition enqueue_review ::
  "env \<Rightarrow> int option \<Rightarrow> int option \<Rightarrow> string \<Rightarrow> rat \<Rightarrow> string option \<Rightarrow> string option
    \<Rightarrow> identity_db \<Rightarrow> (identity_error + int) \<times> identity_db" where
  \<comment> \<open>statement 0 looks for the same pending item, 1 inserts, 2 writes the audit entry\<close>
  "enqueue_review e cand susp reason conf name phone db =
     (let pair = (\<lambda>x. case x of None \<Rightarrow> 0 | Some i \<Rightarrow> i)
      in if pair cand \<noteq> 0 \<and> susp = cand then (Inr 0, db)
         else if raises e 0 then (Inl Identity_exception, db)
         else case find (\<lambda>r. ri_status r = ''pending'' \<and> pair (ri_candidate r) = pair cand
                           \<and> pair (ri_suspected r) = pair susp \<and> ri_reason r = reason) (id_reviews db) of
           Some r \<Rightarrow> (Inr (ri_id r), db)
         | None \<Rightarrow>
             if raises e 1 then (Inl Identity_exception, db)
             else let i = id_review_next db;
                      db1 = db\<lparr>id_review_next := i + 1,
                               id_reviews := id_reviews db @
                                 [\<lparr>ri_id = i, ri_candidate = cand, ri_suspected = susp, ri_reason = reason,
                                   ri_confidence = conf, ri_name = name, ri_phone = phone, ri_status = ''pending'',
                                   ri_reviewer = None, ri_note = None\<rparr>]\<rparr>
                  in if raises e 2 then (Inl Identity_exception, db1)
                     else (Inr i, norm_audit_row ''enqueue_review'' cand No_state
                             (Values [(''suspected_match_id'', case susp of None \<Rightarrow> JNull | Some k \<Rightarrow> JInt k),
                                      (''match_reason'', JStr reason), (''review_id'', JInt i)])
                             (Some ''system'') (Some reason) ''review_queue'' db1))"

subsection \<open>Creation\<close>

record match_result =
  mr_employee :: int
  mr_code :: string
  mr_name :: string
  mr_phone :: "string option"
  mr_type :: string
  mr_score :: rat

definition make_result :: "fpe_employee \<Rightarrow> string \<Rightarrow> match_result" where
  "make_result r ty =
     \<lparr>mr_employee = em_id r, mr_code = (case em_code r of None \<Rightarrow> '''' | Some c \<Rightarrow> c), mr_name = em_name r,
      mr_phone = em_phone r, mr_type = ty, mr_score = 1\<rparr>"

definition emp_code :: "int \<Rightarrow> string" where
  "emp_code i = (let d = show_int i in ''EMP-'' @ replicate (5 - length d) (CHR ''0'') @ d)"

definition is_active :: "fpe_employee \<Rightarrow> bool" where
  "is_active m \<longleftrightarrow> em_status m = ''active''"

definition new_full_name :: "string option \<Rightarrow> string option \<Rightarrow> string option \<Rightarrow> string" where
  "new_full_name name payout id_phone =
     (let given = (if is_valid_human_name name then py_strip (the name) else '''')
      in if given \<noteq> '''' then given
         else py_strip (the (py_or (py_or payout id_phone) (Some ''Unknown''))))"

definition existing_employee :: "string option \<Rightarrow> string \<Rightarrow> fpe_employee list \<Rightarrow> fpe_employee option" where
  \<comment> \<open>the two queries repeated under the lock\<close>
  "existing_employee eid nm emps =
     (case (case present eid of None \<Rightarrow> None
            | Some p \<Rightarrow> find (\<lambda>m. (em_id_phone m = Some p \<or> em_phone m = Some p) \<and> is_active m) emps) of
        Some m \<Rightarrow> Some m
      | None \<Rightarrow> if nm = '''' then None else find (\<lambda>m. em_norm m = nm \<and> is_active m) emps)"

definition new_employee :: "int \<Rightarrow> string \<Rightarrow> string \<Rightarrow> string option \<Rightarrow> string option \<Rightarrow> fpe_employee" where
  "new_employee i full nm payout eid =
     \<lparr>em_id = i, em_code = Some (emp_code i), em_name = full, em_norm = nm, em_phone = payout, em_id_phone = eid,
      em_status = ''active'', em_source = ''whatsapp_auto_create'', em_canonical = None,
      em_resolution = ''unresolved'', em_confidence = 0\<rparr>"

definition alias_phone :: "int \<Rightarrow> string option \<Rightarrow> emp_alias list \<Rightarrow> emp_alias list" where
  "alias_phone i p t = (case present p of None \<Rightarrow> t | Some ph \<Rightarrow> insert_alias i ''phone'' ph t)"

definition auto_create_employee ::
  "env \<Rightarrow> string option \<Rightarrow> string option \<Rightarrow> string option \<Rightarrow> identity_db \<Rightarrow> (identity_error + match_result) \<times> identity_db" where
  \<comment> \<open>statement 0 is the transaction under the advisory lock, 1 the audit entry, whose failure is swallowed\<close>
  "auto_create_employee e name payout id_phone db =
     (let full = new_full_name name payout id_phone;
          nm = normalize_name (Some full);
          eid = py_or id_phone payout;
          i = id_next db
      in if raises e 0 then (Inl Identity_exception, db)
         else case existing_employee eid nm (id_emps db) of
           Some m \<Rightarrow> (Inr (make_result (resolve_canonical (id_emps db) m)
                            (if present eid \<noteq> None then ''exact_phone'' else ''exact_name'')), db)
         | None \<Rightarrow>
             if has_row (\<lambda>m. em_code m = Some (emp_code i)) (id_emps db) then (Inl Identity_exception, db)
             else let row = new_employee i full nm payout eid;
                      phones = alias_phone i eid (alias_phone i payout (id_aliases db));
                      aliases = (if nm = '''' then phones else insert_alias i ''name'' nm phones);
                      db1 = db\<lparr>id_next := i + 1, id_emps := id_emps db @ [row], id_aliases := aliases\<rparr>;
                      db2 = (if raises e 1 then db1
                             else norm_audit_row ''auto_create_employee'' (Some i) No_state (Employee_state row)
                                    (Some ''fpe_engine'') (Some ''no_match_found'') ''employee'' db1)
                  in (Inr \<lparr>mr_employee = i, mr_code = emp_code i, mr_name = full, mr_phone = payout,
                            mr_type = ''auto_created'', mr_score = 0\<rparr>, db2))"

subsection \<open>Matching\<close>

definition FUZZY_THRESHOLD :: rat where "FUZZY_THRESHOLD = 96"

definition FUZZY_AMBIGUITY_MARGIN :: rat where "FUZZY_AMBIGUITY_MARGIN = 5"

definition by_phone :: "string \<Rightarrow> identity_db \<Rightarrow> fpe_employee option" where
  "by_phone p db = find (\<lambda>m. em_phone m = Some p \<and> is_active m) (id_emps db)"

definition by_id_phone :: "string \<Rightarrow> identity_db \<Rightarrow> fpe_employee option" where
  "by_id_phone p db = find (\<lambda>m. em_id_phone m = Some p \<and> is_active m) (id_emps db)"

definition by_alias :: "string \<Rightarrow> identity_db \<Rightarrow> fpe_employee option" where
  "by_alias p db =
     find (\<lambda>m. is_active m \<and> has_row (\<lambda>a. al_employee a = em_id m \<and> al_type a = ''phone'' \<and> al_value a = p) (id_aliases db))
       (id_emps db)"

definition by_wbom :: "string \<Rightarrow> identity_db \<Rightarrow> fpe_employee option" where
  "by_wbom p db =
     (if has_row (\<lambda>w. (wc_mobile w = Some p \<or> wc_bkash w = Some p \<or> wc_nagad w = Some p)
                     \<and> wc_status w \<noteq> None \<and> wc_status w \<noteq> Some ''inactive'') (id_wbom db)
      then by_phone p db else None)"

definition phone_lookups :: "string option \<Rightarrow> string option \<Rightarrow> identity_db \<Rightarrow> (fpe_employee option \<times> string) list" where
  \<comment> \<open>the lookups by phone in the order the code makes them\<close>
  "phone_lookups payout id_phone db =
     (let phones = List.map_filter present [payout, id_phone]
      in [(case present payout of None \<Rightarrow> None | Some p \<Rightarrow> by_phone p db, ''exact_phone''),
          (case present id_phone of None \<Rightarrow> None | Some p \<Rightarrow> by_id_phone p db, ''exact_id_phone'')]
         @ map (\<lambda>p. (by_alias p db, ''alias_phone'')) phones
         @ map (\<lambda>p. (by_wbom p db, ''wbom_phone_match'')) phones)"

definition phone_match :: "string option \<Rightarrow> string option \<Rightarrow> identity_db \<Rightarrow> (fpe_employee \<times> string) option" where
  "phone_match payout id_phone db =
     map_option (\<lambda>(r, ty). (the r, ty)) (find (\<lambda>(r, ty). r \<noteq> None) (phone_lookups payout id_phone db))"

datatype match_plan =
  Phone_match fpe_employee string
| Name_match fpe_employee
| Fuzzy_match fpe_employee rat
| Create_new "(fpe_employee \<times> rat) option"
| Review_required

definition scored_names :: "(string \<Rightarrow> string \<Rightarrow> rat) \<Rightarrow> string \<Rightarrow> fpe_employee list \<Rightarrow> (rat \<times> fpe_employee) list" where
  "scored_names ratio nm emps =
     sort_key (\<lambda>(s, m). - s)
       (map (\<lambda>m. (ratio nm (em_norm m), m)) (filter (\<lambda>m. is_active m \<and> em_norm m \<noteq> '''') emps))"

definition create_or_review :: "string option \<Rightarrow> string option \<Rightarrow> (fpe_employee \<times> rat) option \<Rightarrow> match_plan" where
  "create_or_review payout id_phone best =
     (if present payout = None \<and> present id_phone = None then Review_required else Create_new best)"

definition fuzzy_plan ::
  "(string \<Rightarrow> string \<Rightarrow> rat) \<Rightarrow> string \<Rightarrow> string option \<Rightarrow> string option \<Rightarrow> identity_db \<Rightarrow> match_plan" where
  "fuzzy_plan ratio nm payout id_phone db =
     (case scored_names ratio nm (id_emps db) of
        [] \<Rightarrow> create_or_review payout id_phone None
      | (best, m) # rest \<Rightarrow>
          (let second = (case rest of [] \<Rightarrow> 0 | (s, _) # _ \<Rightarrow> s);
               ambiguous = (best \<ge> FUZZY_THRESHOLD \<and> best - second < FUZZY_AMBIGUITY_MARGIN)
           in if best \<ge> FUZZY_THRESHOLD \<and> \<not> ambiguous
              then Fuzzy_match (resolve_canonical (id_emps db) m) best
              else create_or_review payout id_phone (Some (m, best))))"

definition plan_match ::
  "(string \<Rightarrow> string \<Rightarrow> rat) \<Rightarrow> string option \<Rightarrow> string option \<Rightarrow> string option \<Rightarrow> identity_db \<Rightarrow> match_plan" where
  "plan_match ratio name payout id_phone db =
     (case phone_match payout id_phone db of
        Some (r, ty) \<Rightarrow> Phone_match (resolve_canonical (id_emps db) r) ty
      | None \<Rightarrow>
          (let nm = normalize_name name
           in if nm = '''' then create_or_review payout id_phone None
              else case find (\<lambda>m. em_norm m = nm \<and> is_active m) (id_emps db) of
                     Some m \<Rightarrow> Name_match (resolve_canonical (id_emps db) m)
                   | None \<Rightarrow> fuzzy_plan ratio nm payout id_phone db))"

record match_env =
  mv_read :: env
  mv_enrich :: env
  mv_create :: env
  mv_review :: env

definition apply_plan ::
  "match_env \<Rightarrow> match_plan \<Rightarrow> string option \<Rightarrow> string option \<Rightarrow> string option \<Rightarrow> identity_db
    \<Rightarrow> (identity_error + match_result option) \<times> identity_db" where
  "apply_plan mv plan name payout id_phone db =
     (case plan of
        Phone_match r ty \<Rightarrow>
          (case maybe_enrich_full_name (mv_enrich mv) (em_id r) (Some (em_name r)) name db of
             (Inl x, db1) \<Rightarrow> (Inl x, db1)
           | (Inr _, db1) \<Rightarrow> (Inr (Some (make_result r ty)), db1))
      | Name_match r \<Rightarrow> (Inr (Some (make_result r ''exact_name'')), db)
      | Fuzzy_match r s \<Rightarrow> (Inr (Some ((make_result r ''fuzzy_name'')\<lparr>mr_score := s / 100\<rparr>)), db)
      | Review_required \<Rightarrow> (Inr None, db)
      | Create_new best \<Rightarrow>
          (case auto_create_employee (mv_create mv) name payout id_phone db of
             (Inl x, db1) \<Rightarrow> (Inl x, db1)
           | (Inr r, db1) \<Rightarrow>
               (Inr (Some r),
                case best of
                  None \<Rightarrow> db1
                | Some (m, s) \<Rightarrow>
                    if s \<ge> 70
                    then snd (enqueue_review (mv_review mv) (Some (mr_employee r)) (Some (em_id m))
                                (if s < FUZZY_THRESHOLD then ''fuzzy_name_below_threshold'' else ''name_collision'')
                                (s / 100) name (py_or payout id_phone) db1)
                    else db1)))"

definition match_or_create_employee ::
  "(string \<Rightarrow> string \<Rightarrow> rat) \<Rightarrow> match_env \<Rightarrow> string option \<Rightarrow> string option \<Rightarrow> string option \<Rightarrow> identity_db
    \<Rightarrow> (identity_error + match_result option) \<times> identity_db" where
  "match_or_create_employee ratio mv name payout id_phone db =
     (if raises (mv_read mv) 0 then (Inl Identity_exception, db)
      else apply_plan mv (plan_match ratio name payout id_phone db) name payout id_phone db)"

subsection \<open>The identity service\<close>

definition add_alias_safe ::
  "env \<Rightarrow> int \<Rightarrow> string \<Rightarrow> string \<Rightarrow> string \<Rightarrow> identity_db \<Rightarrow> (identity_error + bool) \<times> identity_db" where
  "add_alias_safe e i ty v reviewer db =
     (if ty \<notin> {''phone'', ''name'', ''employee_id''} then (Inl (Invalid_alias_type ty), db)
      else if v = '''' then (Inr False, db)
      else if raises e 0 then (Inl Identity_exception, db)
      else let inserted = (\<not> has_row (\<lambda>a. al_type a = ty \<and> al_value a = v) (id_aliases db));
               db1 = db\<lparr>id_aliases := insert_alias i ty v (id_aliases db)\<rparr>
           in if \<not> inserted then (Inr False, db1)
              else if raises e 1 then (Inl Identity_exception, db1)
              else (Inr True, norm_audit_row ''add_alias'' (Some i) No_state
                      (Values [(''alias_type'', JStr ty), (''alias_value'', JStr v)]) (Some reviewer) None ''employee'' db1))"

definition link_check :: "int \<Rightarrow> int \<Rightarrow> identity_db \<Rightarrow> identity_error option" where
  \<comment> \<open>the conditions, on the two snapshots read before the transaction\<close>
  "link_check dup canon db =
     (if dup = canon then Some Same_employee
      else case (get_employee_by_id dup db, get_employee_by_id canon db) of
             (Some _, Some c) \<Rightarrow> (case em_canonical c of None \<Rightarrow> None
                | Some k \<Rightarrow> if k = 0 then None else Some (Canonical_is_duplicate canon))
           | _ \<Rightarrow> Some Employee_not_found)"

definition link_write :: "int \<Rightarrow> int \<Rightarrow> string \<Rightarrow> string \<Rightarrow> rat \<Rightarrow> string \<Rightarrow> identity_db \<Rightarrow> identity_db" where
  "link_write dup canon reason reviewer conf ty db =
     (let emps1 = update_where (\<lambda>m. em_id m = dup)
                    (\<lambda>m. m\<lparr>em_canonical := Some canon, em_resolution := ''duplicate'', em_confidence := conf\<rparr>) (id_emps db);
          emps2 = update_where (\<lambda>m. em_id m = canon \<and> em_resolution m \<noteq> ''canonical'')
                    (\<lambda>m. m\<lparr>em_resolution := ''canonical''\<rparr>) emps1;
          links = (if has_row (\<lambda>l. rl_employee l = dup \<and> rl_canonical l = canon) (id_links db) then id_links db
                   else id_links db @ [\<lparr>rl_employee = dup, rl_canonical = canon, rl_type = ty, rl_confidence = conf,
                                        rl_reason = reason, rl_by = reviewer\<rparr>])
      in db\<lparr>id_emps := emps2, id_links := links\<rparr>)"

definition snapshot :: "int \<Rightarrow> identity_db \<Rightarrow> audit_state" where
  "snapshot i db = (case get_employee_by_id i db of None \<Rightarrow> No_state | Some m \<Rightarrow> Employee_state m)"

definition link_duplicate ::
  "env \<Rightarrow> int \<Rightarrow> int \<Rightarrow> string \<Rightarrow> string \<Rightarrow> rat \<Rightarrow> string \<Rightarrow> identity_db \<Rightarrow> (identity_error + unit) \<times> identity_db" where
  "link_duplicate e dup canon reason reviewer conf ty db =
     (if dup = canon then (Inl Same_employee, db)
      else if raises e 0 then (Inl Identity_exception, db)
      else case link_check dup canon db of
        Some x \<Rightarrow> (Inl x, db)
      | None \<Rightarrow>
          if raises e 1 then (Inl Identity_exception, db)
          else let db1 = link_write dup canon reason reviewer conf ty db
               in if raises e 2 then (Inl Identity_exception, db1)
                  else (Inr (), norm_audit_row ''link_duplicate'' (Some dup) (snapshot dup db) (snapshot dup db1)
                          (Some reviewer) (Some reason) ''employee'' db1))"

definition mark_inactive ::
  "env \<Rightarrow> int \<Rightarrow> string \<Rightarrow> string \<Rightarrow> identity_db \<Rightarrow> (identity_error + fpe_employee option) \<times> identity_db" where
  "mark_inactive e i reason reviewer db =
     (if raises e 0 then (Inl Identity_exception, db)
      else case get_employee_by_id i db of
        None \<Rightarrow> (Inl Employee_not_found, db)
      | Some _ \<Rightarrow>
          if raises e 1 then (Inl Identity_exception, db)
          else let db1 = db\<lparr>id_emps := update_where (\<lambda>m. em_id m = i)
                              (\<lambda>m. m\<lparr>em_status := ''inactive'', em_resolution := ''inactive''\<rparr>) (id_emps db)\<rparr>
               in if raises e 2 then (Inl Identity_exception, db1)
                  else (Inr (get_employee_by_id i db1),
                        norm_audit_row ''mark_inactive'' (Some i) (snapshot i db) (snapshot i db1)
                          (Some reviewer) (Some reason) ''employee'' db1))"

definition close_review ::
  "env \<Rightarrow> int \<Rightarrow> string \<Rightarrow> string \<Rightarrow> string option \<Rightarrow> identity_db \<Rightarrow> (identity_error + unit) \<times> identity_db" where
  \<comment> \<open>the end of \<open>resolve_review\<close>: statement 1 closes the item, 2 writes the audit entry\<close>
  "close_review e i decision reviewer note db =
     (if raises e 1 then (Inl Identity_exception, db)
      else let db1 = db\<lparr>id_reviews := update_where (\<lambda>r. ri_id r = i)
                 (\<lambda>r. r\<lparr>ri_status := decision, ri_reviewer := Some reviewer, ri_note := note\<rparr>) (id_reviews db)\<rparr>
           in if raises e 2 then (Inl Identity_exception, db1)
              else (Inr (), norm_audit_row ''resolve_review'' (Some i) (Values [(''review_status'', JStr ''pending'')])
                      (Values [(''review_status'', JStr decision),
                               (''note'', case note of None \<Rightarrow> JNull | Some n \<Rightarrow> JStr n)])
                      (Some reviewer) (Some decision) ''review_queue'' db1))"

definition resolve_review ::
  "env \<Rightarrow> env \<Rightarrow> int \<Rightarrow> string \<Rightarrow> string \<Rightarrow> string option \<Rightarrow> identity_db \<Rightarrow> (identity_error + unit) \<times> identity_db" where
  \<comment> \<open>the second environment is that of the call of \<open>link_duplicate\<close>\<close>
  "resolve_review e el i decision reviewer note db =
     (if decision \<notin> {''approved_merge'', ''rejected'', ''kept_separate''} then (Inl (Invalid_decision decision), db)
      else if raises e 0 then (Inl Identity_exception, db)
      else case find (\<lambda>r. ri_id r = i) (id_reviews db) of
        None \<Rightarrow> (Inl (Review_not_found i), db)
      | Some r \<Rightarrow>
          if ri_status r \<noteq> ''pending'' then (Inl (Review_closed i (ri_status r)), db)
          else if decision \<noteq> ''approved_merge'' then close_review e i decision reviewer note db
          else let cand = (case ri_candidate r of None \<Rightarrow> 0 | Some k \<Rightarrow> k);
                   susp = (case ri_suspected r of None \<Rightarrow> 0 | Some k \<Rightarrow> k)
               in if cand = 0 \<or> susp = 0 then (Inl Merge_needs_both, db)
                  else case link_duplicate el cand susp
                              (the (py_or note (Some (''approved_merge via review '' @ show_int i))))
                              reviewer (ri_confidence r) ''manual_merge'' db of
                         (Inl x, db1) \<Rightarrow> (Inl x, db1)
                       | (Inr _, db1) \<Rightarrow> close_review e i decision reviewer note db1)"

subsection \<open>Following the links\<close>

definition next_emp :: "fpe_employee list \<Rightarrow> fpe_employee \<Rightarrow> fpe_employee option" where
  "next_emp emps m =
     (case em_canonical m of None \<Rightarrow> None | Some c \<Rightarrow> if c = 0 then None else find (\<lambda>n. em_id n = c) emps)"

fun hops :: "fpe_employee list \<Rightarrow> nat \<Rightarrow> fpe_employee \<Rightarrow> fpe_employee" where
  "hops emps 0 m = m"
| "hops emps (Suc n) m = (case next_emp emps m of None \<Rightarrow> m | Some k \<Rightarrow> hops emps n k)"

definition ranked :: "(int \<Rightarrow> nat) \<Rightarrow> fpe_employee list \<Rightarrow> bool" where
  "ranked rank emps \<longleftrightarrow> (\<forall>m\<in>set emps. \<forall>c. em_canonical m = Some c \<longrightarrow> rank c < rank (em_id m))"

definition links_ok :: "fpe_employee list \<Rightarrow> bool" where
  \<comment> \<open>ids are unique and positive, a link points to a stored employee, and links do not run in a circle\<close>
  "links_ok emps \<longleftrightarrow> distinct (map em_id emps) \<and> (\<forall>m\<in>set emps. 0 < em_id m)
     \<and> (\<forall>m\<in>set emps. \<forall>c. em_canonical m = Some c \<longrightarrow> c \<in> em_id ` set emps) \<and> (\<exists>rank. ranked rank emps)"

definition links_stored :: "fpe_employee list \<Rightarrow> bool" where
  \<comment> \<open>ids are unique and positive and a link points to a stored employee; links may run in a circle\<close>
  "links_stored emps \<longleftrightarrow> distinct (map em_id emps) \<and> (\<forall>m\<in>set emps. 0 < em_id m)
     \<and> (\<forall>m\<in>set emps. \<forall>c. em_canonical m = Some c \<longrightarrow> c \<in> em_id ` set emps)"

lemma links_ok_stored: "links_ok emps \<Longrightarrow> links_stored emps"
  unfolding links_ok_def links_stored_def by blast

lemma find_id:
  assumes "links_stored emps" "m \<in> set emps"
  shows "find (\<lambda>n. em_id n = em_id m) emps = Some m"
  using find_key_unique [of em_id emps m] assms by (simp add: links_stored_def)

lemma next_emp_link:
  assumes "links_stored emps" "m \<in> set emps" "em_canonical m = Some c"
  shows "\<exists>k\<in>set emps. next_emp emps m = Some k \<and> em_id k = c \<and> c \<noteq> 0"
proof -
  have "c \<in> em_id ` set emps" using assms unfolding links_stored_def by blast
  then obtain k where k: "k \<in> set emps" "em_id k = c" by auto
  with assms(1) have "0 < c" by (auto simp: links_stored_def)
  with k find_id [OF assms(1) k(1)] assms(3) show ?thesis by (auto simp: next_emp_def)
qed

lemma next_emp_mem: "next_emp emps m = Some k \<Longrightarrow> k \<in> set emps \<and> em_canonical m = Some (em_id k)"
  by (auto simp: next_emp_def dest: find_Some_mem split: option.splits if_splits)

lemma follow_resolve:
  assumes "links_stored emps" "m \<in> set emps"
  shows "follow_loop emps n seen (em_id m) = em_id (resolve_loop emps n seen m)"
  using assms(2)
proof (induction n arbitrary: seen m)
  case (Suc n)
  note f = find_id [OF assms(1) Suc.prems]
  show ?case
  proof (cases "em_canonical m")
    case (Some c)
    obtain k where k: "k \<in> set emps" "em_id k = c" "c \<noteq> 0"
      using next_emp_link [OF assms(1) Suc.prems Some] by blast
    have "find (\<lambda>n. em_id n = c) emps = Some k" using find_id [OF assms(1) k(1)] k(2) by simp
    then show ?thesis using f Some k Suc.IH [OF k(1), of "em_id m # seen"] by simp
  qed (simp add: f)
qed simp

lemma resolve_loop_mem: "m \<in> set emps \<Longrightarrow> resolve_loop emps n seen m \<in> set emps"
  by (induction n arbitrary: seen m) (auto split: option.split dest: find_Some_mem)

definition steps_left :: "fpe_employee list \<Rightarrow> fpe_employee \<Rightarrow> nat" where
  \<comment> \<open>the number of links to the end, when there is an end\<close>
  "steps_left emps m = (LEAST k. next_emp emps (hops emps k m) = None)"

lemma steps_left_Suc:
  assumes "next_emp emps m = Some k" "next_emp emps (hops emps n m) = None"
  shows "steps_left emps m = Suc (steps_left emps k)" "next_emp emps (hops emps (n - 1) k) = None"
proof -
  show "steps_left emps m = Suc (steps_left emps k)"
    unfolding steps_left_def using Least_Suc [of "\<lambda>j. next_emp emps (hops emps j m) = None" n] assms by simp
  show "next_emp emps (hops emps (n - 1) k) = None" using assms by (cases n) simp_all
qed

lemma resolve_loop_hops:
  assumes "links_stored emps" "m \<in> set emps" "next_emp emps (hops emps d m) = None"
    and "\<And>i. i \<in> set seen \<Longrightarrow> \<exists>x\<in>set emps. em_id x = i \<and> steps_left emps m < steps_left emps x"
  shows "resolve_loop emps n seen m = hops emps n m"
  using assms(2,3,4)
proof (induction n arbitrary: seen m d)
  case (Suc n)
  show ?case
  proof (cases "em_canonical m")
    case None
    then show ?thesis by (simp add: next_emp_def)
  next
    case (Some c)
    obtain k where k: "k \<in> set emps" "next_emp emps m = Some k" "em_id k = c" "c \<noteq> 0"
      using next_emp_link [OF assms(1) Suc.prems(1) Some] by blast
    note left = steps_left_Suc [OF k(2) Suc.prems(2)]
    have "em_id m \<notin> set seen"
    proof
      assume "em_id m \<in> set seen"
      then obtain x where "x \<in> set emps" "em_id x = em_id m" "steps_left emps m < steps_left emps x"
        using Suc.prems(3) by blast
      moreover from this have "x = m"
        using distinct_key_unique [of em_id emps x m] Suc.prems(1) assms(1) by (simp add: links_stored_def)
      ultimately show False by simp
    qed
    moreover have "find (\<lambda>n. em_id n = c) emps = Some k" using find_id [OF assms(1) k(1)] k(3) by simp
    ultimately have "resolve_loop emps (Suc n) seen m = resolve_loop emps n (em_id m # seen) k"
      using Some k(4) by simp
    also have "\<dots> = hops emps n k"
    proof (rule Suc.IH [OF k(1) left(2)])
      show "\<exists>x\<in>set emps. em_id x = i \<and> steps_left emps k < steps_left emps x" if "i \<in> set (em_id m # seen)" for i
        using that Suc.prems(1) Suc.prems(3) [of i] less_trans [of "steps_left emps k" "steps_left emps m"] left(1)
        by (metis lessI set_ConsD)
    qed
    finally show ?thesis by (simp add: k(2))
  qed
qed simp

lemma hops_end: "next_emp emps (hops emps n m) = None \<Longrightarrow> hops emps (n + d) m = hops emps n m"
proof (induction n arbitrary: m)
  case 0
  then show ?case by (cases d) simp_all
next
  case (Suc n)
  then show ?case by (cases "next_emp emps m") simp_all
qed

lemma hops_mem: "m \<in> set emps \<Longrightarrow> hops emps n m \<in> set emps"
  by (induction n arbitrary: m) (auto dest: next_emp_mem split: option.split)

lemma hops_root:
  assumes "ranked rank emps" "m \<in> set emps"
  shows "next_emp emps (hops emps (rank (em_id m)) m) = None"
  using assms(2)
proof (induction "rank (em_id m)" arbitrary: m rule: less_induct)
  case less
  show ?case
  proof (cases "next_emp emps m")
    case None
    then show ?thesis by (cases "rank (em_id m)") simp_all
  next
    case (Some k)
    then have k: "k \<in> set emps" "em_canonical m = Some (em_id k)" using next_emp_mem by blast+
    then have r: "rank (em_id k) < rank (em_id m)" using assms(1) less.prems by (auto simp: ranked_def)
    then obtain d where d: "rank (em_id m) = Suc (rank (em_id k) + d)" using less_iff_Suc_add by auto
    have "next_emp emps (hops emps (rank (em_id k)) k) = None" by (rule less.hyps [OF r k(1)])
    with hops_end [OF this, of d] show ?thesis by (simp add: d Some)
  qed
qed

lemma resolve_end:
  assumes "links_stored emps" "m \<in> set emps" "next_emp emps (hops emps d m) = None"
  shows "resolve_canonical emps m = hops emps 8 m"
  unfolding resolve_canonical_def by (rule resolve_loop_hops [OF assms]) simp

lemma resolve_same:
  "links_stored emps \<Longrightarrow> m \<in> set emps \<Longrightarrow> resolve_to_canonical emps (em_id m) = em_id (resolve_canonical emps m)"
  unfolding resolve_to_canonical_def resolve_canonical_def by (rule follow_resolve)

lemma resolve_hops:
  assumes "links_ok emps" "m \<in> set emps"
  shows "resolve_canonical emps m = hops emps 8 m" "resolve_to_canonical emps (em_id m) = em_id (hops emps 8 m)"
proof -
  obtain rank where r: "ranked rank emps" using assms(1) by (auto simp: links_ok_def)
  note st = links_ok_stored [OF assms(1)]
  show one: "resolve_canonical emps m = hops emps 8 m" by (rule resolve_end [OF st assms(2) hops_root [OF r assms(2)]])
  show "resolve_to_canonical emps (em_id m) = em_id (hops emps 8 m)" using resolve_same [OF st assms(2)] one by simp
qed

subsection \<open>The identity tables along a run\<close>

definition phone_owners :: "string \<Rightarrow> fpe_employee list \<Rightarrow> fpe_employee list" where
  "phone_owners p emps = filter (\<lambda>m. is_active m \<and> em_id_phone m = Some p) emps"

definition identity_inv :: "identity_db \<Rightarrow> bool" where
  "identity_inv db \<longleftrightarrow> links_stored (id_emps db) \<and> 0 < id_next db \<and> (\<forall>m\<in>set (id_emps db). em_id m < id_next db)
     \<and> (\<forall>p. p \<noteq> '''' \<longrightarrow> length (phone_owners p (id_emps db)) \<le> 1)"

lemma links_same_rows:
  assumes "map (\<lambda>m. (em_id m, em_canonical m)) emps' = map (\<lambda>m. (em_id m, em_canonical m)) emps"
  shows "map em_id emps' = map em_id emps"
    "m \<in> set emps' \<Longrightarrow> \<exists>n\<in>set emps. em_id n = em_id m \<and> em_canonical n = em_canonical m"
proof -
  show "map em_id emps' = map em_id emps"
    using arg_cong [OF assms, of "map fst"] by (simp add: comp_def)
  show "\<exists>n\<in>set emps. em_id n = em_id m \<and> em_canonical n = em_canonical m" if "m \<in> set emps'"
  proof -
    have "(em_id m, em_canonical m) \<in> set (map (\<lambda>m. (em_id m, em_canonical m)) emps)"
      using that by (simp flip: assms)
    then show ?thesis by auto
  qed
qed

lemma links_stored_cong:
  assumes "map (\<lambda>m. (em_id m, em_canonical m)) emps' = map (\<lambda>m. (em_id m, em_canonical m)) emps" "links_stored emps"
  shows "links_stored emps'"
proof -
  note ids = links_same_rows(1) [OF assms(1)] and same = links_same_rows(2) [OF assms(1)]
  have sets: "em_id ` set emps' = em_id ` set emps" using arg_cong [OF ids, of set] by simp
  have "0 < em_id m" if "m \<in> set emps'" for m
    using same [OF that] assms(2) by (auto simp: links_stored_def)
  moreover have "c \<in> em_id ` set emps'" if "m \<in> set emps'" "em_canonical m = Some c" for m c
    using same [OF that(1)] assms(2) that(2) unfolding sets links_stored_def by metis
  ultimately show ?thesis using assms(2) ids by (auto simp: links_stored_def)
qed

lemma links_ok_cong:
  assumes "map (\<lambda>m. (em_id m, em_canonical m)) emps' = map (\<lambda>m. (em_id m, em_canonical m)) emps" "links_ok emps"
  shows "links_ok emps'"
proof -
  obtain rank where "ranked rank emps" using assms(2) by (auto simp: links_ok_def)
  then have "ranked rank emps'" unfolding ranked_def using links_same_rows(2) [OF assms(1)] by metis
  with links_stored_cong [OF assms(1) links_ok_stored [OF assms(2)]] show ?thesis
    unfolding links_ok_def links_stored_def by blast
qed

lemma length_filter_update: "(\<And>m. Q (f m) \<Longrightarrow> Q m) \<Longrightarrow> length (filter Q (update_where P f t)) \<le> length (filter Q t)"
  by (induction t) (auto simp: le_SucI)

lemma identity_inv_update:
  assumes "identity_inv db" "id_emps db' = update_where P f (id_emps db)" "id_next db' = id_next db"
    and "\<And>m. em_id (f m) = em_id m" "\<And>m. em_canonical (f m) = em_canonical m" "\<And>m. em_id_phone (f m) = em_id_phone m"
    and "\<And>m. is_active (f m) \<Longrightarrow> is_active m"
  shows "identity_inv db'"
proof -
  have "links_stored (id_emps db')"
    by (rule links_stored_cong [where emps = "id_emps db"])
      (use assms(1,4,5) in \<open>simp_all add: assms(2) identity_inv_def map_key_update_where\<close>)
  moreover have "length (phone_owners p (id_emps db')) \<le> length (phone_owners p (id_emps db))" for p
    unfolding phone_owners_def assms(2) by (rule length_filter_update) (use assms(6,7) in auto)
  moreover have "\<forall>m\<in>set (id_emps db'). em_id m < id_next db"
    using assms(1,4) by (simp add: assms(2) ball_update_where identity_inv_def)
  moreover have "length (phone_owners p (id_emps db)) \<le> 1" if "p \<noteq> ''''" for p
    using assms(1) that by (simp add: identity_inv_def)
  ultimately show ?thesis
    using assms(1,3) le_trans unfolding identity_inv_def by metis
qed

lemma identity_inv_same:
  "identity_inv db \<Longrightarrow> id_emps db' = id_emps db \<Longrightarrow> id_next db' = id_next db \<Longrightarrow> identity_inv db'"
  by (simp add: identity_inv_def)

lemma norm_audit_frame [simp]:
  "id_emps (norm_audit_row a x b c r w ty db) = id_emps db" "id_next (norm_audit_row a x b c r w ty db) = id_next db"
  "id_aliases (norm_audit_row a x b c r w ty db) = id_aliases db" "id_wbom (norm_audit_row a x b c r w ty db) = id_wbom db"
  "id_links (norm_audit_row a x b c r w ty db) = id_links db" "id_reviews (norm_audit_row a x b c r w ty db) = id_reviews db"
  by (simp_all add: norm_audit_row_def)

lemma enqueue_review_frame [simp]:
  "id_emps (snd (enqueue_review e c s w q n p db)) = id_emps db" "id_next (snd (enqueue_review e c s w q n p db)) = id_next db"
  "id_aliases (snd (enqueue_review e c s w q n p db)) = id_aliases db" "id_wbom (snd (enqueue_review e c s w q n p db)) = id_wbom db"
  by (simp_all add: enqueue_review_def Let_def split: option.split)

lemma close_review_frame [simp]:
  "id_emps (snd (close_review e i d w n db)) = id_emps db" "id_next (snd (close_review e i d w n db)) = id_next db"
  by (simp_all add: close_review_def Let_def)

lemma add_alias_frame [simp]:
  "id_emps (snd (add_alias e i ty v db)) = id_emps db" "id_next (snd (add_alias e i ty v db)) = id_next db"
  "id_emps (snd (add_alias_safe e i ty v w db)) = id_emps db" "id_next (snd (add_alias_safe e i ty v w db)) = id_next db"
  by (simp_all add: add_alias_def add_alias_safe_def Let_def)

lemma enrich_inv: "identity_inv db \<Longrightarrow> identity_inv (snd (maybe_enrich_full_name e i c n db))"
  by (auto simp: maybe_enrich_full_name_def Let_def is_active_def
      intro: identity_inv_update [where P = "\<lambda>m. em_id m = i" and f = "\<lambda>m. m\<lparr>em_name := _, em_norm := _\<rparr>"])

lemma no_owner:
  assumes "existing_employee eid nm emps = None" "eid = Some p" "p \<noteq> ''''"
  shows "phone_owners p emps = []"
proof -
  have "find (\<lambda>m. (em_id_phone m = Some p \<or> em_phone m = Some p) \<and> is_active m) emps = None"
    using assms by (simp add: existing_employee_def present_def py_or_def split: option.splits)
  then show ?thesis by (auto simp: phone_owners_def find_None_iff_all filter_empty_conv)
qed

lemma links_stored_append:
  assumes "links_stored emps" "em_id x \<notin> em_id ` set emps" "0 < em_id x" "em_canonical x = None"
  shows "links_stored (emps @ [x])"
  using assms by (auto simp: links_stored_def)

lemma new_employee_inv:
  assumes "identity_inv db" "existing_employee eid nm (id_emps db) = None" "id_emps db' = id_emps db @ [new_employee (id_next db) full nm payout eid]"
    and "id_next db' = id_next db + 1"
  shows "identity_inv db'"
proof -
  let ?x = "new_employee (id_next db) full nm payout eid"
  have x: "em_id ?x = id_next db" "em_canonical ?x = None" "em_id_phone ?x = eid" "is_active ?x"
    by (simp_all add: new_employee_def is_active_def)
  have "links_stored (id_emps db')"
    unfolding assms(3) by (rule links_stored_append) (use assms(1) x in \<open>auto simp: identity_inv_def\<close>)
  moreover have "length (phone_owners p (id_emps db')) \<le> 1" if "p \<noteq> ''''" for p
    using no_owner [OF assms(2) _ that] assms(1) that x
    by (cases "eid = Some p") (auto simp: assms(3) phone_owners_def identity_inv_def)
  ultimately show ?thesis using assms(1) x by (fastforce simp: identity_inv_def assms(3,4))
qed

lemma auto_create_inv: "identity_inv db \<Longrightarrow> identity_inv (snd (auto_create_employee e name payout idp db))"
proof -
  assume inv: "identity_inv db"
  let ?full = "new_full_name name payout idp" and ?eid = "py_or idp payout"
  let ?nm = "normalize_name (Some ?full)"
  show ?thesis
  proof (cases "\<not> raises e 0 \<and> existing_employee ?eid ?nm (id_emps db) = None
      \<and> \<not> has_row (\<lambda>m. em_code m = Some (emp_code (id_next db))) (id_emps db)")
    case True
    then show ?thesis
      by (intro new_employee_inv [OF inv, where eid = ?eid and nm = ?nm and full = ?full and payout = payout])
        (simp_all add: auto_create_employee_def Let_def)
  next
    case False
    then have "snd (auto_create_employee e name payout idp db) = db"
      by (auto simp: auto_create_employee_def Let_def split: option.splits)
    with inv show ?thesis by simp
  qed
qed

lemma apply_plan_inv: "identity_inv db \<Longrightarrow> identity_inv (snd (apply_plan mv plan name payout idp db))"
proof (cases plan)
  case (Phone_match r ty)
  assume "identity_inv db"
  with enrich_inv [of db "mv_enrich mv" "em_id r" "Some (em_name r)" name] Phone_match
  show ?thesis by (auto simp: apply_plan_def split: prod.splits sum.splits)
next
  case (Create_new best)
  assume "identity_inv db"
  from auto_create_inv [OF this, of "mv_create mv" name payout idp] Create_new
  show ?thesis
    by (auto simp: apply_plan_def identity_inv_def split: prod.splits sum.splits option.splits)
qed (simp_all add: apply_plan_def)

lemma links_ok_relink:
  assumes lk: "links_ok emps" and c: "c \<in> set emps" "em_canonical c = None" "em_id c \<noteq> i"
    and f: "\<And>m. em_id (f m) = em_id m" "\<And>m. em_canonical (f m) = Some (em_id c)"
  shows "links_ok (update_where (\<lambda>m. em_id m = i) f emps)"
proof -
  let ?e = "update_where (\<lambda>m. em_id m = i) f emps"
  have root: "em_canonical m = None" if "m \<in> set emps" "em_id m = em_id c" for m
    using distinct_key_unique [of em_id emps m c] that c lk by (auto simp: links_ok_def)
  obtain rank where r: "ranked rank emps" using lk by (auto simp: links_ok_def)
  have "ranked (\<lambda>j. if j = em_id c then 0 else Suc (rank j)) ?e"
    unfolding ranked_def ball_update_where using r root c(3) by (auto simp: ranked_def f)
  moreover have ids: "map em_id ?e = map em_id emps" by (rule map_key_update_where) (rule f)
  moreover have "em_id ` set ?e = em_id ` set emps" using arg_cong [OF ids, of set] by simp
  ultimately show ?thesis
    using lk c(1) unfolding links_ok_def by (auto simp: mem_update_where f)
qed

lemma links_stored_relink:
  assumes "links_stored emps" "c \<in> em_id ` set emps" "\<And>m. em_id (f m) = em_id m" "\<And>m. em_canonical (f m) = Some c"
  shows "links_stored (update_where (\<lambda>m. em_id m = i) f emps)"
proof -
  have ids: "map em_id (update_where (\<lambda>m. em_id m = i) f emps) = map em_id emps" by (rule map_key_update_where) (rule assms(3))
  moreover have "em_id ` set (update_where (\<lambda>m. em_id m = i) f emps) = em_id ` set emps" using arg_cong [OF ids, of set] by simp
  ultimately show ?thesis
    using assms unfolding links_stored_def by (auto simp: mem_update_where)
qed

lemma links_ok_root: "links_stored emps \<Longrightarrow> c \<in> set emps \<Longrightarrow> em_canonical c = None \<or> em_canonical c = Some 0 \<Longrightarrow> em_canonical c = None"
  using next_emp_link by (metis option.inject)

lemma link_write_inv:
  assumes "identity_inv db" "canon \<in> em_id ` set (id_emps db)"
  shows "identity_inv (link_write dup canon reason w conf ty db)"
proof -
  let ?f = "\<lambda>m. m\<lparr>em_canonical := Some canon, em_resolution := ''duplicate'', em_confidence := conf\<rparr>"
  let ?e1 = "update_where (\<lambda>m. em_id m = dup) ?f (id_emps db)"
  have l1: "links_stored ?e1"
    by (rule links_stored_relink [OF _ assms(2)]) (use assms(1) in \<open>simp_all add: identity_inv_def\<close>)
  have o1: "length (phone_owners p ?e1) \<le> length (phone_owners p (id_emps db))" for p
    unfolding phone_owners_def by (rule length_filter_update) (simp add: is_active_def)
  have "identity_inv (db\<lparr>id_emps := ?e1\<rparr>)"
    using assms(1) l1 o1 by (auto simp: identity_inv_def mem_update_where intro: le_trans)
  then show ?thesis
    by (rule identity_inv_update [where P = "\<lambda>m. em_id m = canon \<and> em_resolution m \<noteq> ''canonical''"
          and f = "\<lambda>m. m\<lparr>em_resolution := ''canonical''\<rparr>"]) (auto simp: link_write_def Let_def is_active_def)
qed

lemma link_checked:
  assumes "link_check dup canon db = None"
  obtains c where "c \<in> set (id_emps db)" "em_id c = canon" "dup \<noteq> canon" "em_canonical c = None \<or> em_canonical c = Some 0"
proof -
  obtain c where "get_employee_by_id canon db = Some c" "dup \<noteq> canon" "em_canonical c = None \<or> em_canonical c = Some 0"
    using assms by (auto simp: link_check_def split: if_splits option.splits)
  then show thesis using that find_Some_mem by (fastforce simp: get_employee_by_id_def)
qed

lemma link_write_ok:
  assumes "links_ok (id_emps db)" "link_check dup canon db = None"
  shows "links_ok (id_emps (link_write dup canon reason w conf ty db))"
proof -
  let ?f = "\<lambda>m. m\<lparr>em_canonical := Some canon, em_resolution := ''duplicate'', em_confidence := conf\<rparr>"
  let ?e1 = "update_where (\<lambda>m. em_id m = dup) ?f (id_emps db)"
  obtain c where c: "c \<in> set (id_emps db)" "em_id c = canon" "dup \<noteq> canon" "em_canonical c = None \<or> em_canonical c = Some 0"
    by (rule link_checked [OF assms(2)])
  have l1: "links_ok ?e1"
    by (rule links_ok_relink [OF assms(1) c(1) links_ok_root [OF links_ok_stored [OF assms(1)] c(1,4)]]) (use c(2,3) in simp_all)
  show ?thesis
    by (rule links_ok_cong [OF _ l1]) (simp add: link_write_def Let_def update_where_def)
qed

lemma link_duplicate_cases:
  "id_emps (snd (link_duplicate e dup canon reason w conf ty db)) = id_emps db
   \<or> link_check dup canon db = None
     \<and> id_emps (snd (link_duplicate e dup canon reason w conf ty db)) = id_emps (link_write dup canon reason w conf ty db)"
  by (auto simp: link_duplicate_def Let_def split: option.split)

lemma link_duplicate_next: "id_next (snd (link_duplicate e dup canon reason w conf ty db)) = id_next db"
  by (simp add: link_duplicate_def link_write_def Let_def split: option.split)

lemma link_duplicate_inv:
  assumes "identity_inv db"
  shows "identity_inv (snd (link_duplicate e dup canon reason w conf ty db))"
  using link_duplicate_cases [of e dup canon reason w conf ty db]
proof (elim disjE conjE)
  assume emps: "id_emps (snd (link_duplicate e dup canon reason w conf ty db)) = id_emps (link_write dup canon reason w conf ty db)"
    and "link_check dup canon db = None"
  then have "canon \<in> em_id ` set (id_emps db)" by (blast elim: link_checked)
  from link_write_inv [OF assms this] show ?thesis
    by (rule identity_inv_same [OF _ emps]) (simp add: link_duplicate_next, simp add: link_write_def Let_def)
qed (use assms identity_inv_same link_duplicate_next in blast)

lemma mark_inactive_inv: "identity_inv db \<Longrightarrow> identity_inv (snd (mark_inactive e i reason w db))"
  by (auto simp: mark_inactive_def Let_def is_active_def split: option.split
      intro: identity_inv_update [where P = "\<lambda>m. em_id m = i" and f = "\<lambda>m. m\<lparr>em_status := ''inactive'', em_resolution := ''inactive''\<rparr>"])

lemma resolve_review_inv: "identity_inv db \<Longrightarrow> identity_inv (snd (resolve_review e el i d w n db))"
proof -
  assume inv: "identity_inv db"
  have "identity_inv (snd (case link_duplicate el c s reason w conf ty db of (Inl x, db1) \<Rightarrow> (Inl x, db1)
      | (Inr _, db1) \<Rightarrow> close_review e i d w n db1))" for c s reason conf ty
    using link_duplicate_inv [OF inv, of el c s reason w conf ty]
    by (auto simp: identity_inv_def split: prod.splits sum.splits)
  with inv show ?thesis
    by (auto simp: resolve_review_def Let_def identity_inv_def split: option.split)
qed

inductive identity_step :: "identity_db \<Rightarrow> identity_db \<Rightarrow> bool" where
  matched: "identity_step db (snd (apply_plan mv plan name payout idp db))"
  \<comment> \<open>any plan: it may have been made in an earlier state\<close>
| aliased: "identity_step db (snd (add_alias e i ty v db))"
| alias_safe: "identity_step db (snd (add_alias_safe e i ty v w db))"
| linked: "identity_step db (snd (link_duplicate e dup canon reason w conf ty db))"
| link_written: "canon \<in> em_id ` set (id_emps db) \<Longrightarrow> identity_step db (link_write dup canon reason w conf ty db)"
  \<comment> \<open>the transaction of a link whose conditions were read in an earlier state, before its lock\<close>
| inactive: "identity_step db (snd (mark_inactive e i reason w db))"
| enqueued: "identity_step db (snd (enqueue_review e cand susp reason conf name phone db))"
| resolved: "identity_step db (snd (resolve_review e el i d w n db))"

definition identity_start :: "identity_db \<Rightarrow> bool" where
  "identity_start db \<longleftrightarrow> id_emps db = [] \<and> 0 < id_next db"

interpretation identity_system: invariant_system identity_start identity_step identity_inv
proof unfold_locales
  show "identity_start s \<Longrightarrow> identity_inv s" for s
    by (simp add: identity_start_def identity_inv_def links_stored_def phone_owners_def)
  show "identity_step s t \<Longrightarrow> identity_inv s \<Longrightarrow> identity_inv t" for s t
    by (induction rule: identity_step.induct)
      (simp_all add: apply_plan_inv link_duplicate_inv link_write_inv mark_inactive_inv resolve_review_inv identity_inv_same)
qed

text \<open>
  C21: A phone identifies one employee. In every reachable state, whatever the workers read
  before they wrote, the employee ids are unique and at most one active employee carries a
  given identity phone; and while one does, creating an employee for that phone adds nothing
  and returns an employee that is already stored. The repeated queries under the lock make this
  true of calls that decided to create before the other one had committed.
\<close>

theorem one_employee_per_phone:
  assumes "reach identity_start identity_step db"
  shows "distinct (map em_id (id_emps db))
    \<and> (\<forall>p. p \<noteq> '''' \<longrightarrow> length (phone_owners p (id_emps db)) \<le> 1)
    \<and> (\<forall>e name payout idp p. \<not> raises e 0 \<and> py_or idp payout = Some p \<and> p \<noteq> '''' \<and> phone_owners p (id_emps db) \<noteq> [] \<longrightarrow>
         (\<exists>m\<in>set (id_emps db). auto_create_employee e name payout idp db = (Inr (make_result m ''exact_phone''), db)))"
proof -
  have inv: "identity_inv db" by (rule identity_system.reach_inv [OF assms])
  have "\<exists>m\<in>set (id_emps db). auto_create_employee e name payout idp db = (Inr (make_result m ''exact_phone''), db)"
    if p: "\<not> raises e 0" "py_or idp payout = Some p" "p \<noteq> ''''" "phone_owners p (id_emps db) \<noteq> []" for e name payout idp p
  proof -
    let ?nm = "normalize_name (Some (new_full_name name payout idp))"
    obtain m where m: "find (\<lambda>m. (em_id_phone m = Some p \<or> em_phone m = Some p) \<and> is_active m) (id_emps db) = Some m"
    proof (cases "find (\<lambda>m. (em_id_phone m = Some p \<or> em_phone m = Some p) \<and> is_active m) (id_emps db)")
      case None
      then show ?thesis using p(4) by (auto simp: find_None_iff_all phone_owners_def filter_empty_conv)
    qed (rule that)
    have pres: "present (Some p) = Some p" using p(3) by (simp add: present_def py_or_def)
    then have "existing_employee (Some p) ?nm (id_emps db) = Some m" using m by (simp add: existing_employee_def)
    then have "auto_create_employee e name payout idp db =
        (Inr (make_result (resolve_canonical (id_emps db) m) ''exact_phone''), db)"
      using p(1,2) pres by (simp add: auto_create_employee_def Let_def)
    moreover have "resolve_canonical (id_emps db) m \<in> set (id_emps db)"
      using find_Some_mem [OF m] unfolding resolve_canonical_def by (intro resolve_loop_mem) simp
    ultimately show ?thesis by blast
  qed
  with inv show ?thesis by (simp add: identity_inv_def links_stored_def)
qed

text \<open>
  C39: The two ways of following the links agree. In every state that the workers and the reviewers
  reach, the conditions of a link being read before its transaction and other links coming between,
  \<open>_resolve_canonical\<close>, which the matching uses on rows, and \<open>resolve_to_canonical\<close> of the identity
  service, which works on ids, return the same stored employee, also where links run in a circle
  (\<open>link_race_cycle\<close>). When at most eight links, the bound both loops have, lead to an end, it is that end, which
  is not a duplicate itself; and a link call that no other one overlaps never closes a circle.
\<close>

theorem resolvers_agree:
  assumes "reach identity_start identity_step db" and "m \<in> set (id_emps db)"
  shows "resolve_to_canonical (id_emps db) (em_id m) = em_id (resolve_canonical (id_emps db) m)
    \<and> resolve_canonical (id_emps db) m \<in> set (id_emps db)
    \<and> (\<forall>k\<le>8. next_emp (id_emps db) (hops (id_emps db) k m) = None \<longrightarrow>
         resolve_canonical (id_emps db) m = hops (id_emps db) k m \<and> em_canonical (resolve_canonical (id_emps db) m) = None)
    \<and> (\<forall>e dup canon reason w conf ty. links_ok (id_emps db) \<longrightarrow>
         links_ok (id_emps (snd (link_duplicate e dup canon reason w conf ty db))))"
proof -
  have lk: "links_stored (id_emps db)" using identity_system.reach_inv [OF assms(1)] by (simp add: identity_inv_def)
  have root: "em_canonical n = None" if "n \<in> set (id_emps db)" "next_emp (id_emps db) n = None" for n
    using next_emp_link [OF lk that(1)] that(2) by (cases "em_canonical n") auto
  have "resolve_canonical (id_emps db) m = hops (id_emps db) k m \<and> em_canonical (resolve_canonical (id_emps db) m) = None"
    if k: "k \<le> 8" "next_emp (id_emps db) (hops (id_emps db) k m) = None" for k
  proof -
    have "hops (id_emps db) 8 m = hops (id_emps db) k m" using hops_end [OF k(2), of "8 - k"] k(1) by simp
    then show ?thesis using root [OF hops_mem [OF assms(2)] k(2)] resolve_end [OF lk assms(2) k(2)] by simp
  qed
  moreover have "links_ok (id_emps (snd (link_duplicate e dup canon reason w conf ty db)))" if "links_ok (id_emps db)"
    for e dup canon reason w conf ty
    using link_duplicate_cases [of e dup canon reason w conf ty db] link_write_ok that by auto
  moreover have "resolve_canonical (id_emps db) m \<in> set (id_emps db)"
    unfolding resolve_canonical_def by (rule resolve_loop_mem) (rule assms(2))
  ultimately show ?thesis using resolve_same [OF lk assms(2)] by blast
qed

subsection \<open>Matching again\<close>

lemma present_Some: "present x = Some p \<longleftrightarrow> x = Some p \<and> p \<noteq> ''''"
  by (auto simp: present_def py_or_def)

lemma resolve_root: "em_canonical m = None \<Longrightarrow> resolve_canonical emps m = m"
  by (simp add: resolve_canonical_def eval_nat_numeral)

lemma phone_match_payout:
  "present payout = Some p \<Longrightarrow> by_phone p db = Some m \<Longrightarrow> phone_match payout idp db = Some (m, ''exact_phone'')"
  by (simp add: phone_match_def phone_lookups_def Let_def)

lemma phone_match_id:
  "present payout = None \<Longrightarrow> present idp = Some p \<Longrightarrow> by_id_phone p db = Some m \<Longrightarrow>
    phone_match payout idp db = Some (m, ''exact_id_phone'')"
  by (simp add: phone_match_def phone_lookups_def Let_def)

lemma phone_match_None:
  assumes "phone_match payout idp db = None"
  shows "present payout = Some p \<Longrightarrow> by_phone p db = None" "present idp = Some p \<Longrightarrow> by_id_phone p db = None"
proof -
  have all: "r = None" if "(r, ty) \<in> set (phone_lookups payout idp db)" for r ty
    using assms that by (auto simp: phone_match_def find_None_iff_all)
  show "present payout = Some p \<Longrightarrow> by_phone p db = None"
    by (rule all [of _ "''exact_phone''"]) (simp add: phone_lookups_def Let_def)
  show "present idp = Some p \<Longrightarrow> by_id_phone p db = None"
    by (rule all [of _ "''exact_id_phone''"]) (simp add: phone_lookups_def Let_def)
qed

lemma plan_match_Create:
  "plan_match ratio name payout idp db = Create_new best \<Longrightarrow>
    phone_match payout idp db = None \<and> (present payout \<noteq> None \<or> present idp \<noteq> None)"
  by (auto simp: plan_match_def fuzzy_plan_def create_or_review_def Let_def split: option.splits if_splits list.splits prod.splits)

lemma plan_match_cong:
  assumes "id_emps db' = id_emps db" "id_aliases db' = id_aliases db" "id_wbom db' = id_wbom db"
  shows "plan_match ratio name payout idp db' = plan_match ratio name payout idp db"
proof -
  have 1: "by_phone p db' = by_phone p db" "by_id_phone p db' = by_id_phone p db" "by_alias p db' = by_alias p db" for p
    using assms by (simp_all add: by_phone_def by_id_phone_def by_alias_def)
  then have "by_wbom p db' = by_wbom p db" for p using assms by (simp add: by_wbom_def)
  with 1 have l: "phone_lookups payout idp db' = phone_lookups payout idp db"
    by (simp add: phone_lookups_def Let_def split: option.split)
  show ?thesis unfolding plan_match_def phone_match_def fuzzy_plan_def l assms(1) by (rule refl)
qed

definition renamed :: "int \<Rightarrow> string \<Rightarrow> string \<Rightarrow> fpe_employee \<Rightarrow> fpe_employee" where
  "renamed i full nm m = (if em_id m = i then m\<lparr>em_name := full, em_norm := nm\<rparr> else m)"

lemma renamed_simps [simp]:
  "em_id (renamed i full nm m) = em_id m" "em_canonical (renamed i full nm m) = em_canonical m"
  "em_phone (renamed i full nm m) = em_phone m" "em_id_phone (renamed i full nm m) = em_id_phone m"
  "is_active (renamed i full nm m) = is_active m"
  by (simp_all add: renamed_def is_active_def)

lemma find_map_same: "(\<And>m. P (f m) = P m) \<Longrightarrow> find P (map f t) = map_option f (find P t)"
  by (induction t) auto

lemma resolve_loop_renamed:
  "resolve_loop (map (renamed i full nm) emps) n seen (renamed i full nm m) = renamed i full nm (resolve_loop emps n seen m)"
proof (induction n arbitrary: seen m)
  case 0
  then show ?case by simp
next
  case (Suc n)
  have "find (\<lambda>k. em_id k = c) (map (renamed i full nm) emps) = map_option (renamed i full nm) (find (\<lambda>k. em_id k = c) emps)" for c
    by (rule find_map_same) simp
  then show ?case using Suc.IH by (auto split: option.split)
qed

lemma phone_match_renamed:
  assumes "id_emps db' = map (renamed i full nm) (id_emps db)" "id_wbom db' = id_wbom db"
    and "\<And>k p. has_row (\<lambda>a. al_employee a = k \<and> al_type a = ''phone'' \<and> al_value a = p) (id_aliases db') =
      has_row (\<lambda>a. al_employee a = k \<and> al_type a = ''phone'' \<and> al_value a = p) (id_aliases db)"
  shows "phone_match payout idp db' = map_option (\<lambda>(r, ty). (renamed i full nm r, ty)) (phone_match payout idp db)"
proof -
  let ?g = "renamed i full nm"
  have 1: "by_phone p db' = map_option ?g (by_phone p db)" for p
    unfolding by_phone_def assms(1) by (rule find_map_same) simp
  have 2: "by_id_phone p db' = map_option ?g (by_id_phone p db)" for p
    unfolding by_id_phone_def assms(1) by (rule find_map_same) simp
  have 3: "by_alias p db' = map_option ?g (by_alias p db)" for p
    unfolding by_alias_def assms(1,3) by (rule find_map_same) simp
  have 4: "by_wbom p db' = map_option ?g (by_wbom p db)" for p
    unfolding by_wbom_def assms(2) 1 by simp
  have "phone_lookups payout idp db' = map (\<lambda>(r, ty). (map_option ?g r, ty)) (phone_lookups payout idp db)"
    by (simp add: phone_lookups_def Let_def 1 2 3 4 split: option.split)
  moreover have "find (\<lambda>(r, ty). r \<noteq> None) (map (\<lambda>(r, ty). (map_option ?g r, ty)) xs) =
      map_option (\<lambda>(r, ty). (map_option ?g r, ty)) (find (\<lambda>(r, ty). r \<noteq> None) xs)" for xs :: "(fpe_employee option \<times> string) list"
    by (induction xs) auto
  ultimately have "phone_match payout idp db' = map_option (\<lambda>(r, ty). (the r, ty))
      (map_option (\<lambda>(r, ty). (map_option ?g r, ty)) (find (\<lambda>(r, ty). r \<noteq> None) (phone_lookups payout idp db)))"
    by (simp add: phone_match_def)
  also have "\<dots> = map_option (\<lambda>(r, ty). (?g r, ty)) (phone_match payout idp db)"
    by (cases "find (\<lambda>(r, ty). r \<noteq> None) (phone_lookups payout idp db)")
      (auto simp: phone_match_def dest: find_Some_mem)
  finally show ?thesis .
qed

lemma insert_name_alias_phone [simp]:
  "has_row (\<lambda>a. al_employee a = k \<and> al_type a = ''phone'' \<and> al_value a = p) (insert_alias i ''name'' nm t) =
   has_row (\<lambda>a. al_employee a = k \<and> al_type a = ''phone'' \<and> al_value a = p) t"
  by (simp add: insert_alias_def has_row_def)

definition mv_quiet :: "match_env \<Rightarrow> bool" where
  "mv_quiet mv \<longleftrightarrow> db_ok (mv_read mv) \<and> db_ok (mv_enrich mv) \<and> db_ok (mv_create mv) \<and> db_ok (mv_review mv)"

lemma valid_name_strip: "is_valid_human_name name \<Longrightarrow> is_valid_human_name (Some (py_strip (the name)))"
  by (cases name) (auto simp: is_valid_human_name_def Let_def)

lemma enrich_quiet:
  assumes "db_ok e"
  shows "\<exists>db'. maybe_enrich_full_name e i cur name db = (Inr (), db')
    \<and> (db' = db \<and> (\<not> is_valid_human_name name \<or> is_valid_human_name cur)
       \<or> is_valid_human_name name \<and> id_emps db' = map (renamed i (py_strip (the name)) (normalize_name name)) (id_emps db)
         \<and> id_wbom db' = id_wbom db
         \<and> (\<forall>k p. has_row (\<lambda>a. al_employee a = k \<and> al_type a = ''phone'' \<and> al_value a = p) (id_aliases db') =
              has_row (\<lambda>a. al_employee a = k \<and> al_type a = ''phone'' \<and> al_value a = p) (id_aliases db)))"
  using assms by (auto simp: maybe_enrich_full_name_def Let_def db_ok_raises update_where_def renamed_def)

lemma rematch_phone:
  assumes "mv_quiet mv2" "phone_match payout idp db = Some (m, ty)" "resolve_canonical (id_emps db) m = r"
    and "\<not> is_valid_human_name name \<or> is_valid_human_name (Some (em_name r))"
  shows "match_or_create_employee ratio mv2 name payout idp db = (Inr (Some (make_result r ty)), db)"
proof -
  have "maybe_enrich_full_name (mv_enrich mv2) (em_id r) (Some (em_name r)) name db = (Inr (), db)"
    using assms(4) by (auto simp: maybe_enrich_full_name_def)
  with assms(1-3) show ?thesis
    by (simp add: match_or_create_employee_def plan_match_def apply_plan_def mv_quiet_def db_ok_raises)
qed

definition anchored :: "string option \<Rightarrow> string option \<Rightarrow> fpe_employee \<Rightarrow> bool" where
  "anchored payout idp row \<longleftrightarrow> is_active row \<and> em_canonical row = None \<and> em_phone row = payout \<and> em_id_phone row = py_or idp payout"

lemma plan_after_create:
  assumes "phone_match payout idp db = None" "id_emps db' = id_emps db @ [row]" "anchored payout idp row"
  shows "present payout \<noteq> None \<Longrightarrow> phone_match payout idp2 db' = Some (row, ''exact_phone'')"
    and "present payout = None \<Longrightarrow> present idp \<noteq> None \<Longrightarrow> phone_match payout idp db' = Some (row, ''exact_id_phone'')"
proof -
  show "phone_match payout idp2 db' = Some (row, ''exact_phone'')" if p: "present payout \<noteq> None"
  proof -
    obtain p where p: "present payout = Some p" using p by blast
    then have "by_phone p db' = Some row"
      using phone_match_None(1) [OF assms(1) p] assms(2,3)
      by (simp add: by_phone_def find_append anchored_def present_Some)
    with p show ?thesis by (rule phone_match_payout)
  qed
  show "phone_match payout idp db' = Some (row, ''exact_id_phone'')" if n: "present payout = None" "present idp \<noteq> None"
  proof -
    obtain p where p: "present idp = Some p" using n by blast
    then have "by_id_phone p db' = Some row"
      using phone_match_None(2) [OF assms(1) p] assms(2,3)
      by (simp add: by_id_phone_def find_append anchored_def present_Some py_or_def)
    with n(1) p show ?thesis by (rule phone_match_id)
  qed
qed

lemma auto_create_cases:
  assumes "db_ok e" "auto_create_employee e name payout idp db = (Inr r, db')"
  shows "db' = db \<and> mr_type r \<noteq> ''auto_created''
      \<and> (\<forall>e2 db2. db_ok e2 \<and> id_emps db2 = id_emps db \<longrightarrow> auto_create_employee e2 name payout idp db2 = (Inr r, db2))
    \<or> (\<exists>row. id_emps db' = id_emps db @ [row] \<and> anchored payout idp row \<and> em_id row = mr_employee r
        \<and> em_name row = new_full_name name payout idp \<and> mr_type r = ''auto_created'')"
proof (cases "existing_employee (py_or idp payout) (normalize_name (Some (new_full_name name payout idp))) (id_emps db)")
  case None
  let ?full = "new_full_name name payout idp" and ?eid = "py_or idp payout"
  let ?row = "new_employee (id_next db) ?full (normalize_name (Some ?full)) payout ?eid"
  have "id_emps db' = id_emps db @ [?row] \<and> mr_employee r = id_next db \<and> mr_type r = ''auto_created''"
    using None assms by (auto simp: auto_create_employee_def Let_def db_ok_raises split: if_splits)
  moreover have "anchored payout idp ?row \<and> em_id ?row = id_next db \<and> em_name ?row = ?full"
    by (simp add: anchored_def new_employee_def is_active_def)
  ultimately show ?thesis by auto
next
  case (Some m)
  with assms show ?thesis by (auto simp: auto_create_employee_def Let_def db_ok_raises make_result_def)
qed

lemma fresh_name_quiet:
  "\<not> is_valid_human_name name \<or> is_valid_human_name (Some (new_full_name name payout idp))"
proof (cases "is_valid_human_name name")
  case True
  with valid_name_strip [OF True] have "py_strip (the name) \<noteq> ''''" by (auto simp: is_valid_human_name_def)
  with True valid_name_strip [OF True] show ?thesis by (simp add: new_full_name_def)
qed simp

lemma rematch_created:
  assumes "mv_quiet mv2" "phone_match payout idp db = None" "id_emps db' = id_emps db @ [row]" "anchored payout idp row"
    and "em_name row = new_full_name name payout idp" "present payout \<noteq> None \<or> present idp \<noteq> None"
  shows "\<exists>ty. match_or_create_employee ratio mv2 name payout idp db' = (Inr (Some (make_result row ty)), db')"
proof -
  have res: "resolve_canonical (id_emps db') row = row" using assms(4) by (simp add: resolve_root anchored_def)
  obtain ty where "phone_match payout idp db' = Some (row, ty)"
    using plan_after_create [OF assms(2-4)] assms(6) by (cases "present payout") auto
  from rematch_phone [OF assms(1) this res] show ?thesis using fresh_name_quiet assms(5) by metis
qed

lemma match_anchored:
  assumes "mv_quiet mv2" "phone_match payout idp db = None" "id_emps db' = id_emps db @ [row]" "anchored payout idp row"
    and "present payout \<noteq> None"
  shows "\<exists>db3. match_or_create_employee ratio mv2 name2 payout idp2 db' = (Inr (Some (make_result row ''exact_phone'')), db3)"
proof -
  have res: "resolve_canonical (id_emps db') row = row" using assms(4) by (simp add: resolve_root anchored_def)
  have pm: "phone_match payout idp2 db' = Some (row, ''exact_phone'')"
    using plan_after_create(1) [OF assms(2-5)] .
  obtain db3 where "maybe_enrich_full_name (mv_enrich mv2) (em_id row) (Some (em_name row)) name2 db' = (Inr (), db3)"
    using enrich_quiet [of "mv_enrich mv2"] assms(1) unfolding mv_quiet_def by blast
  with pm res assms(1) show ?thesis
    by (simp add: match_or_create_employee_def plan_match_def apply_plan_def mv_quiet_def db_ok_raises)
qed

lemma rematch_renamed:
  assumes "mv_quiet mv" "mv_quiet mv2" "phone_match payout idp db = Some (m, ty)"
    and "match_or_create_employee ratio mv name payout idp db = (Inr (Some r), db')"
  shows "\<exists>r2. match_or_create_employee ratio mv2 name payout idp db' = (Inr (Some r2), db') \<and> mr_employee r2 = mr_employee r"
proof -
  let ?r = "resolve_canonical (id_emps db) m"
  obtain d where d: "maybe_enrich_full_name (mv_enrich mv) (em_id ?r) (Some (em_name ?r)) name db = (Inr (), d)"
      "d = db \<and> (\<not> is_valid_human_name name \<or> is_valid_human_name (Some (em_name ?r)))
       \<or> is_valid_human_name name \<and> id_emps d = map (renamed (em_id ?r) (py_strip (the name)) (normalize_name name)) (id_emps db)
         \<and> id_wbom d = id_wbom db
         \<and> (\<forall>k p. has_row (\<lambda>a. al_employee a = k \<and> al_type a = ''phone'' \<and> al_value a = p) (id_aliases d) =
              has_row (\<lambda>a. al_employee a = k \<and> al_type a = ''phone'' \<and> al_value a = p) (id_aliases db))"
    using enrich_quiet [of "mv_enrich mv" "em_id ?r" "Some (em_name ?r)" name db] assms(1) unfolding mv_quiet_def by blast
  have out: "db' = d" "mr_employee r = em_id ?r"
    using assms(1,3,4) d(1) by (auto simp: match_or_create_employee_def plan_match_def apply_plan_def mv_quiet_def db_ok_raises make_result_def)
  from d(2) show ?thesis
  proof (elim disjE conjE)
    assume "d = db" "\<not> is_valid_human_name name"
    with rematch_phone [OF assms(2,3) refl] out show ?thesis by (auto simp: make_result_def)
  next
    assume "d = db" "is_valid_human_name (Some (em_name ?r))"
    with rematch_phone [OF assms(2,3) refl] out show ?thesis by (auto simp: make_result_def)
  next
    let ?g = "renamed (em_id ?r) (py_strip (the name)) (normalize_name name)"
    assume v: "is_valid_human_name name" and e: "id_emps d = map ?g (id_emps db)" and w: "id_wbom d = id_wbom db"
      and a: "\<forall>k p. has_row (\<lambda>a. al_employee a = k \<and> al_type a = ''phone'' \<and> al_value a = p) (id_aliases d) =
              has_row (\<lambda>a. al_employee a = k \<and> al_type a = ''phone'' \<and> al_value a = p) (id_aliases db)"
    have pm: "phone_match payout idp d = Some (?g m, ty)"
      using phone_match_renamed [OF e w, of payout idp] a assms(3) by simp
    have res: "resolve_canonical (id_emps d) (?g m) = ?g ?r"
      by (simp add: resolve_canonical_def e resolve_loop_renamed)
    have "em_name (?g ?r) = py_strip (the name)" by (simp add: renamed_def)
    with rematch_phone [OF assms(2) pm res] valid_name_strip [OF v] out show ?thesis
      by (auto simp: make_result_def)
  qed
qed

lemma phone_match_type: "phone_match payout idp db = Some (m, ty) \<Longrightarrow> ty \<noteq> ''auto_created''"
proof -
  assume "phone_match payout idp db = Some (m, ty)"
  then obtain r where "(r, ty) \<in> set (phone_lookups payout idp db)"
    by (auto simp: phone_match_def dest: find_Some_mem)
  then show ?thesis by (auto simp: phone_lookups_def Let_def)
qed

lemma stable_created:
  assumes "mv_quiet mv" "mv_quiet mv2" "plan_match ratio name payout idp db = Create_new best"
    and "apply_plan mv (Create_new best) name payout idp db = (Inr (Some r), db')"
  shows "(\<exists>r2 db2. match_or_create_employee ratio mv2 name payout idp db' = (Inr (Some r2), db2)
      \<and> mr_employee r2 = mr_employee r \<and> id_emps db2 = id_emps db')
    \<and> (mr_type r = ''auto_created'' \<and> present payout \<noteq> None \<longrightarrow>
        (\<forall>name2 idp2. \<exists>r3 db3. match_or_create_employee ratio mv2 name2 payout idp2 db' = (Inr (Some r3), db3)
           \<and> mr_employee r3 = mr_employee r))"
proof -
  have read: "\<not> raises (mv_read mv2) 0" using assms(2) by (simp add: mv_quiet_def db_ok_raises)
  have ok: "db_ok (mv_create mv)" "db_ok (mv_create mv2)" using assms(1,2) by (simp_all add: mv_quiet_def)
  from plan_match_Create [OF assms(3)] have none: "phone_match payout idp db = None"
    and ph: "present payout \<noteq> None \<or> present idp \<noteq> None" by auto
  obtain db1 where c: "auto_create_employee (mv_create mv) name payout idp db = (Inr r, db1)"
      "id_emps db' = id_emps db1" "id_aliases db' = id_aliases db1" "id_wbom db' = id_wbom db1"
    using assms(4) by (auto simp: apply_plan_def split: prod.splits sum.splits option.splits)
  from auto_create_cases [OF ok(1) c(1)] show ?thesis
  proof (elim disjE conjE exE)
    assume same: "db1 = db" and ty: "mr_type r \<noteq> ''auto_created''"
      and again: "\<forall>e2 db2. db_ok e2 \<and> id_emps db2 = id_emps db \<longrightarrow> auto_create_employee e2 name payout idp db2 = (Inr r, db2)"
    have "plan_match ratio name payout idp db' = Create_new best"
      using plan_match_cong [of db' db] c(2-4) same assms(3) by simp
    moreover have "auto_create_employee (mv_create mv2) name payout idp db' = (Inr r, db')"
      using again ok(2) c(2) same by simp
    ultimately have "\<exists>db2. match_or_create_employee ratio mv2 name payout idp db' = (Inr (Some r), db2) \<and> id_emps db2 = id_emps db'"
      using read by (auto simp: match_or_create_employee_def apply_plan_def split: option.split)
    with ty show ?thesis by blast
  next
    fix row assume row: "id_emps db1 = id_emps db @ [row]" "anchored payout idp row" "em_id row = mr_employee r"
      "em_name row = new_full_name name payout idp"
    then have e: "id_emps db' = id_emps db @ [row]" using c(2) by simp
    have id: "mr_employee (make_result row ty) = mr_employee r" for ty using row(3) by (simp add: make_result_def)
    from rematch_created [OF assms(2) none e row(2,4) ph, of ratio]
      match_anchored [OF assms(2) none e row(2), of ratio]
    show ?thesis using id by metis
  qed
qed

text \<open>
  C22: Matching is stable. When a message has been attributed to an employee, the same request asked
  again is attributed to the same employee and adds no employee and no name, whatever the first
  call did: found the phone, an alias, a name, or created the employee. And once an employee has
  been created for a payout phone, every later payment to that phone goes to that employee, under
  whatever name and identity phone it is sent.
\<close>

theorem match_stable:
  assumes "mv_quiet mv" and "mv_quiet mv2"
    and "match_or_create_employee ratio mv name payout idp db = (Inr (Some r), db')"
  shows "(\<exists>r2 db2. match_or_create_employee ratio mv2 name payout idp db' = (Inr (Some r2), db2)
      \<and> mr_employee r2 = mr_employee r \<and> id_emps db2 = id_emps db')
    \<and> (mr_type r = ''auto_created'' \<and> present payout \<noteq> None \<longrightarrow>
        (\<forall>name2 idp2. \<exists>r3 db3. match_or_create_employee ratio mv2 name2 payout idp2 db' = (Inr (Some r3), db3)
           \<and> mr_employee r3 = mr_employee r))"
proof -
  have read: "\<not> raises (mv_read mv) 0" "\<not> raises (mv_read mv2) 0" using assms(1,2) by (simp_all add: mv_quiet_def db_ok_raises)
  let ?p = "plan_match ratio name payout idp db"
  have ap: "apply_plan mv ?p name payout idp db = (Inr (Some r), db')"
    using assms(3) read by (simp add: match_or_create_employee_def)
  show ?thesis
  proof (cases ?p)
    case (Phone_match k ty)
    then obtain m where m: "phone_match payout idp db = Some (m, ty)"
      by (auto simp: plan_match_def fuzzy_plan_def create_or_review_def Let_def split: option.splits if_splits list.splits prod.splits)
    have "mr_type r = ty" using ap Phone_match
      by (auto simp: apply_plan_def make_result_def split: prod.splits sum.splits)
    then show ?thesis using phone_match_type [OF m] rematch_renamed [OF assms(1,2) m assms(3)] by auto
  next
    case (Create_new best)
    with stable_created [OF assms(1,2) Create_new] ap show ?thesis by simp
  qed (use ap read in \<open>auto simp: apply_plan_def match_or_create_employee_def make_result_def\<close>)
qed

definition sample_identity :: identity_db where
  "sample_identity = \<lparr>id_emps = [], id_next = 1, id_aliases = [], id_links = [], id_reviews = [], id_review_next = 1,
     id_audit = [], id_wbom = []\<rparr>"

definition sample_mv :: "time \<Rightarrow> match_env" where
  "sample_mv t = \<lparr>mv_read = env_at t, mv_enrich = env_at t, mv_create = env_at t, mv_review = env_at t\<rparr>"

definition sample_phone :: string where "sample_phone = ''01711111111''"

definition sample_created :: identity_db where
  "sample_created = snd (apply_plan (sample_mv 5) (Create_new None) (Some ''Karim'') (Some sample_phone) None sample_identity)"

lemma sample_mv_quiet: "mv_quiet (sample_mv t)"
  by (simp add: mv_quiet_def sample_mv_def)

lemma sample_reached: "reach identity_start identity_step sample_created"
proof -
  have "reach identity_start identity_step sample_identity"
    by (rule reach_start) (simp add: identity_start_def sample_identity_def)
  then show ?thesis unfolding sample_created_def by (rule reach_step) (rule identity_step.matched)
qed

lemma present_sample [simp]: "present (Some sample_phone) = Some sample_phone"
  by (simp add: present_def py_or_def sample_phone_def)

lemma existing_empty: "existing_employee eid nm [] = None"
  by (simp add: existing_employee_def split: option.split)

lemma sample_create:
  "auto_create_employee (env_at 5) (Some ''Karim'') (Some sample_phone) None sample_identity =
     (Inr \<lparr>mr_employee = 1, mr_code = emp_code 1, mr_name = new_full_name (Some ''Karim'') (Some sample_phone) None,
           mr_phone = Some sample_phone, mr_type = ''auto_created'', mr_score = 0\<rparr>, sample_created)"
  unfolding sample_created_def apply_plan_def sample_mv_def
  by (simp add: auto_create_employee_def Let_def sample_identity_def existing_empty has_row_def)

lemma sample_emps:
  "id_emps sample_created = [new_employee 1 (new_full_name (Some ''Karim'') (Some sample_phone) None)
     (normalize_name (Some (new_full_name (Some ''Karim'') (Some sample_phone) None))) (Some sample_phone) (Some sample_phone)]"
proof -
  have "snd (auto_create_employee (env_at 5) (Some ''Karim'') (Some sample_phone) None sample_identity) = sample_created"
    unfolding sample_create by simp
  moreover have "id_emps (snd (auto_create_employee (env_at 5) (Some ''Karim'') (Some sample_phone) None sample_identity)) =
      [new_employee 1 (new_full_name (Some ''Karim'') (Some sample_phone) None)
        (normalize_name (Some (new_full_name (Some ''Karim'') (Some sample_phone) None))) (Some sample_phone) (Some sample_phone)]"
    by (simp add: auto_create_employee_def Let_def sample_identity_def existing_empty has_row_def py_or_def)
  ultimately show ?thesis by (simp only:)
qed

theorem one_employee_per_phone_witness:
  "\<exists>m. auto_create_employee (env_at 9) (Some ''Rahim'') (Some sample_phone) None sample_created
     = (Inr (make_result m ''exact_phone''), sample_created)"
proof -
  have o: "phone_owners sample_phone (id_emps sample_created) \<noteq> []"
    unfolding sample_emps by (simp add: phone_owners_def new_employee_def is_active_def)
  have q: "\<not> raises (env_at 9) 0" "py_or None (Some sample_phone) = Some sample_phone" "sample_phone \<noteq> ''''"
    by (simp_all add: py_or_def sample_phone_def)
  from one_employee_per_phone [OF sample_reached] o q show ?thesis by blast
qed

theorem resolvers_agree_witness:
  "resolve_to_canonical (id_emps sample_created) 1 = 1 \<and> hd (id_emps sample_created) = resolve_canonical (id_emps sample_created) (hd (id_emps sample_created))"
proof -
  let ?m = "hd (id_emps sample_created)"
  have m: "?m \<in> set (id_emps sample_created)" "em_id ?m = 1" "next_emp (id_emps sample_created) (hops (id_emps sample_created) 0 ?m) = None"
    by (simp_all add: sample_emps new_employee_def next_emp_def)
  from resolvers_agree [OF sample_reached m(1)]
  have a: "resolve_to_canonical (id_emps sample_created) (em_id ?m) = em_id (resolve_canonical (id_emps sample_created) ?m)"
    and b: "\<forall>k\<le>8. next_emp (id_emps sample_created) (hops (id_emps sample_created) k ?m) = None \<longrightarrow>
      resolve_canonical (id_emps sample_created) ?m = hops (id_emps sample_created) k ?m
      \<and> em_canonical (resolve_canonical (id_emps sample_created) ?m) = None" by blast+
  from b m(3) have "resolve_canonical (id_emps sample_created) ?m = ?m" by force
  with a m(2) show ?thesis by simp
qed

lemma sample_plan: "plan_match ratio name (Some sample_phone) None sample_identity = Create_new None"
proof -
  have "phone_match (Some sample_phone) None sample_identity = None"
    by (simp add: phone_match_def phone_lookups_def by_phone_def by_alias_def by_wbom_def has_row_def sample_identity_def
        present_def py_or_def sample_phone_def)
  moreover have "fuzzy_plan ratio nm (Some sample_phone) None sample_identity = Create_new None" for nm
    by (simp add: fuzzy_plan_def scored_names_def sample_identity_def create_or_review_def)
  ultimately show ?thesis
    by (simp add: plan_match_def Let_def create_or_review_def) (simp add: sample_identity_def)
qed

theorem match_stable_witness:
  "\<exists>r2 r3 db2 db3.
     match_or_create_employee (\<lambda>_ _. 0) (sample_mv 9) (Some ''Karim'') (Some sample_phone) None sample_created = (Inr (Some r2), db2)
     \<and> mr_employee r2 = 1
     \<and> match_or_create_employee (\<lambda>_ _. 0) (sample_mv 9) (Some ''Rahim'') (Some sample_phone) (Some ''01822222222'') sample_created = (Inr (Some r3), db3)
     \<and> mr_employee r3 = 1"
proof -
  let ?r = "\<lparr>mr_employee = 1, mr_code = emp_code 1, mr_name = new_full_name (Some ''Karim'') (Some sample_phone) None,
           mr_phone = Some sample_phone, mr_type = ''auto_created'', mr_score = 0\<rparr>"
  have first: "match_or_create_employee (\<lambda>_ _. 0) (sample_mv 5) (Some ''Karim'') (Some sample_phone) None sample_identity
      = (Inr (Some ?r), sample_created)"
    by (simp add: match_or_create_employee_def sample_plan apply_plan_def sample_create sample_mv_def)
  from match_stable [OF sample_mv_quiet sample_mv_quiet first, of 9] show ?thesis
    by (simp only: match_result.simps) (metis option.distinct(1) present_sample)
qed

text \<open>
  A name alone never makes an employee. With no phone to go by, matching changes nothing. It
  answers only with an active employee of exactly that normalised name, or with one whose similarity
  is at least 96 and lies at least 5 above that of every other candidate; otherwise it gives no
  employee and the payment goes to review.
\<close>

theorem name_only_never_creates:
  assumes "\<not> raises (mv_read mv) 0" and "present payout = None" and "present idp = None"
  shows "\<exists>res. match_or_create_employee ratio mv name payout idp db = (Inr res, db)
    \<and> (case res of None \<Rightarrow> True
       | Some r \<Rightarrow> (\<exists>m\<in>set (id_emps db). is_active m \<and> mr_employee r = em_id (resolve_canonical (id_emps db) m)
            \<and> (em_norm m = normalize_name name
               \<or> (\<exists>best rest. scored_names ratio (normalize_name name) (id_emps db) = (best, m) # rest \<and> 96 \<le> best
                    \<and> list_all (\<lambda>x. fst x \<le> best - 5) rest))))"
proof -
  have pm: "phone_match payout idp db = None"
    using assms(2,3) by (simp add: phone_match_def phone_lookups_def)
  show ?thesis
  proof (cases "find (\<lambda>m. em_norm m = normalize_name name \<and> is_active m) (id_emps db)")
    case (Some m)
    have "match_or_create_employee ratio mv name payout idp db =
        (if normalize_name name = '''' then (Inr None, db)
         else (Inr (Some (make_result (resolve_canonical (id_emps db) m) ''exact_name'')), db))"
      using assms pm Some by (simp add: match_or_create_employee_def plan_match_def apply_plan_def create_or_review_def)
    then show ?thesis using find_Some_mem [OF Some] by (auto simp: make_result_def)
  next
    case None
    let ?nm = "normalize_name name"
    have run: "match_or_create_employee ratio mv name payout idp db =
        (if ?nm = '''' then (Inr None, db) else apply_plan mv (fuzzy_plan ratio ?nm payout idp db) name payout idp db)"
      using assms pm None by (simp add: match_or_create_employee_def plan_match_def apply_plan_def create_or_review_def)
    show ?thesis
    proof (cases "\<exists>r s. fuzzy_plan ratio ?nm payout idp db = Fuzzy_match r s")
      case False
      then have "fuzzy_plan ratio ?nm payout idp db = Review_required"
        using assms(2,3) by (auto simp: fuzzy_plan_def create_or_review_def Let_def split: list.splits prod.splits if_splits)
      with run show ?thesis by (simp add: apply_plan_def)
    next
      case True
      then obtain best m rest where sc: "scored_names ratio ?nm (id_emps db) = (best, m) # rest" "96 \<le> best"
          "best - (case rest of [] \<Rightarrow> 0 | (s, _) # _ \<Rightarrow> s) \<ge> 5" "fuzzy_plan ratio ?nm payout idp db = Fuzzy_match (resolve_canonical (id_emps db) m) best"
        using assms(2,3)
        by (auto simp: fuzzy_plan_def create_or_review_def Let_def FUZZY_THRESHOLD_def FUZZY_AMBIGUITY_MARGIN_def split: list.splits prod.splits if_splits)
      have "sorted (map (\<lambda>(s, m). - s) ((best, m) # rest))"
        unfolding sc(1) [symmetric] scored_names_def by simp
      then have "list_all (\<lambda>x. fst x \<le> best - 5) rest"
        using sc(3) by (cases rest) (auto simp: list_all_iff)
      moreover have "(best, m) \<in> set (scored_names ratio ?nm (id_emps db))" by (simp add: sc(1))
      then have "m \<in> set (id_emps db) \<and> is_active m" by (auto simp: scored_names_def)
      ultimately show ?thesis using run sc(1,2,4) by (auto simp: apply_plan_def make_result_def)
    qed
  qed
qed

text \<open>
  Payments are merged by name alone. A payment to a phone that nobody has, under the name of an
  active employee, is attributed to that employee: neither the different phone nor any approval is
  asked for, though the identity service promises that names alone never merge.
\<close>

theorem same_name_merges:
  assumes "\<not> raises (mv_read mv) 0" and "phone_match payout idp db = None" and "normalize_name name \<noteq> ''''"
    and "find (\<lambda>m. em_norm m = normalize_name name \<and> is_active m) (id_emps db) = Some m" and "em_canonical m = None"
  shows "match_or_create_employee ratio mv name payout idp db = (Inr (Some (make_result m ''exact_name'')), db)"
  using assms by (simp add: match_or_create_employee_def plan_match_def apply_plan_def resolve_root)

lemma link_write_row:
  assumes "m \<in> set (id_emps db)"
  shows "\<exists>n\<in>set (id_emps (link_write d c r w q t db)). em_id n = em_id m \<and> em_canonical n = (if em_id m = d then Some c else em_canonical m)"
proof -
  define g where "g = (\<lambda>m :: fpe_employee. if em_id m = d then m\<lparr>em_canonical := Some c, em_resolution := ''duplicate'', em_confidence := q\<rparr> else m)"
  define h where "h = (\<lambda>m :: fpe_employee. if em_id m = c \<and> em_resolution m \<noteq> ''canonical'' then m\<lparr>em_resolution := ''canonical''\<rparr> else m)"
  have "id_emps (link_write d c r w q t db) = map h (map g (id_emps db))"
    unfolding link_write_def Let_def update_where_def g_def h_def by simp
  then have "h (g m) \<in> set (id_emps (link_write d c r w q t db))" using assms by simp
  moreover have "em_id (h (g m)) = em_id m \<and> em_canonical (h (g m)) = (if em_id m = d then Some c else em_canonical m)"
    by (simp add: g_def h_def)
  ultimately show ?thesis by blast
qed

text \<open>
  Two links made at the same time run in a circle. The conditions of \<open>link_duplicate\<close> are read
  before its transaction, and the advisory lock taken outside of it is given back at once; when two
  reviewers link two employees to each other, both calls pass their checks, and afterwards each
  employee stands for the other.
\<close>

theorem link_race_cycle:
  assumes "reach identity_start identity_step db" and "link_check a b db = None" and "link_check b a db = None"
  shows "reach identity_start identity_step (link_write b a r2 w2 c2 t2 (link_write a b r1 w1 c1 t1 db))
    \<and> \<not> links_ok (id_emps (link_write b a r2 w2 c2 t2 (link_write a b r1 w1 c1 t1 db)))"
proof (intro conjI notI)
  have ids: "a \<in> em_id ` set (id_emps db)" "b \<in> em_id ` set (id_emps db)"
    using link_checked [OF assms(2)] link_checked [OF assms(3)] by blast+
  obtain y where y: "y \<in> set (id_emps db)" "em_id y = a" using ids(1) by blast
  obtain n where "n \<in> set (id_emps (link_write a b r1 w1 c1 t1 db))" "em_id n = a"
    using link_write_row [OF y(1), of a b r1 w1 c1 t1] y(2) by blast
  then have "a \<in> em_id ` set (id_emps (link_write a b r1 w1 c1 t1 db))" by blast
  then show "reach identity_start identity_step (link_write b a r2 w2 c2 t2 (link_write a b r1 w1 c1 t1 db))"
    by (rule reach_step [OF reach_step [OF assms(1) identity_step.link_written [OF ids(2)]] identity_step.link_written])
next
  let ?db = "link_write b a r2 w2 c2 t2 (link_write a b r1 w1 c1 t1 db)"
  assume ok: "links_ok (id_emps ?db)"
  obtain x y where xy: "x \<in> set (id_emps db)" "em_id x = a" "y \<in> set (id_emps db)" "em_id y = b" "a \<noteq> b"
    using assms(2) by (auto simp: link_check_def get_employee_by_id_def dest!: find_Some_mem split: if_splits option.splits)
  obtain x1 where x1: "x1 \<in> set (id_emps (link_write a b r1 w1 c1 t1 db))" "em_id x1 = a" "em_canonical x1 = Some b"
    using link_write_row [OF xy(1), of a b r1 w1 c1 t1] xy(2) by auto
  obtain y1 where y1: "y1 \<in> set (id_emps (link_write a b r1 w1 c1 t1 db))" "em_id y1 = b"
    using link_write_row [OF xy(3), of a b r1 w1 c1 t1] xy(4) by auto
  obtain m where m: "m \<in> set (id_emps ?db)" "em_id m = a" "em_canonical m = Some b"
    using link_write_row [OF x1(1), of b a r2 w2 c2 t2] x1(2,3) xy(5) by auto
  obtain n where n: "n \<in> set (id_emps ?db)" "em_id n = b" "em_canonical n = Some a"
    using link_write_row [OF y1(1), of b a r2 w2 c2 t2] y1(2) by auto
  obtain rank where "ranked rank (id_emps ?db)" using ok by (auto simp: links_ok_def)
  with m n have "rank b < rank a" "rank a < rank b" by (auto simp: ranked_def)
  then show False by simp
qed

text \<open>
  Links may grow longer than the loops follow. \<open>link_duplicate\<close> refuses a canonical employee that is
  itself a duplicate, but not a duplicate that others already point to, so the links form chains;
  behind more than eight of them the loops stop at an employee that is a duplicate.
\<close>

theorem long_chain_stops_short:
  assumes "links_ok (id_emps db)" and "m \<in> set (id_emps db)"
    and "next_emp (id_emps db) (hops (id_emps db) 8 m) \<noteq> None"
  shows "em_canonical (resolve_canonical (id_emps db) m) \<noteq> None"
  using assms(3) resolve_hops(1) [OF assms(1,2)] by (auto simp: next_emp_def split: option.splits)

end
