(* ===== verification/FPE_Messages.thy ===== *)
theory FPE_Messages
  imports FPE_Accounting Complex_Main
begin

text \<open>
  Messages on their way into the accounts: \<open>modules/fazle_payroll_engine/ingestion.py\<close> (the
  message store, the processing state of every message, the results of the parser, the review
  queue of messages that could not be booked) and \<open>modules/fazle_payroll_engine/validation.py\<close> (what
  each type of message must carry to be booked). Amounts travel as text, as in the stored JSON;
  dates are kept as dates. A number is read in plain notation: the exponents, underscores and
  special values that \<open>Decimal\<close> also reads are not written by the program.
\<close>

subsection \<open>Amounts as text\<close>

definition parse_decimal :: "string \<Rightarrow> decimal option" where
  \<comment> \<open>\<open>Decimal(s)\<close>\<close>
  "parse_decimal raw =
     (let s = py_strip raw;
          body = (if s \<noteq> '''' \<and> hd s \<in> set ''-+'' then tl s else s);
          ip = takeWhile is_digit body;
          rest = dropWhile is_digit body;
          fp = tl rest
      in if (rest = '''' \<or> hd rest = CHR ''.'') \<and> list_all is_digit fp \<and> ip @ fp \<noteq> ''''
         then let u = int (read_nat (ip @ fp))
              in Some (Dec (if s \<noteq> '''' \<and> hd s = CHR ''-'' then - u else u) (length fp))
         else None)"

definition dec_val :: "decimal \<Rightarrow> rat" where
  "dec_val d = (case d of Dec u s \<Rightarrow> of_int u / 10 ^ s)"

definition to_decimal :: "string option \<Rightarrow> decimal option" where
  "to_decimal v = (case v of None \<Rightarrow> None | Some s \<Rightarrow> parse_decimal s)"

subsection \<open>Validation\<close>

record parsed_data =
  pd_fields :: "(string \<times> string option) list"
  pd_date :: "date option"
  pd_entries :: "(string option \<times> string option) list"
  pd_shift :: "string option"
  pd_duty_date :: "date option"

definition pd_get :: "string \<Rightarrow> parsed_data \<Rightarrow> string option" where
  "pd_get f d = (case map_of (pd_fields d) f of None \<Rightarrow> None | Some v \<Rightarrow> v)"

record msg_rule =
  ru_handler :: string
  ru_required :: "string list"
  ru_entries :: bool
  ru_codes :: "(string \<times> string) list"

datatype validation = Valid | Invalid string

definition MIN_AMOUNT :: rat where "MIN_AMOUNT = 1 / 100"

definition MESSAGE_RULES :: "(string \<times> msg_rule) list" where
  "MESSAGE_RULES =
     [(''payment'', \<lparr>ru_handler = ''standard_payment'', ru_required = [''amount''], ru_entries = False,
         ru_codes = [(''missing_amount'', ''no_amount_in_parse''), (''non_positive_amount'', ''non_positive_amount''),
                     (''no_employee'', ''no_employee_match'')]\<rparr>),
      (''cash_command'', \<lparr>ru_handler = ''cash_command'', ru_required = [''amount''], ru_entries = False,
         ru_codes = [(''missing_amount'', ''no_amount_in_parse''), (''non_positive_amount'', ''non_positive_amount''),
                     (''no_employee'', ''cash_command_no_employee'')]\<rparr>),
      (''income_command'', \<lparr>ru_handler = ''income_command'', ru_required = [''amount''], ru_entries = False,
         ru_codes = [(''missing_amount'', ''no_amount_in_parse''), (''non_positive_amount'', ''non_positive_amount'')]\<rparr>),
      (''escort_payment'', \<lparr>ru_handler = ''escort_payment'', ru_required = [], ru_entries = True,
         ru_codes = [(''empty_entries'', ''escort_payment_no_entries''), (''unusable_entries'', ''escort_payment_entries_invalid'')]\<rparr>),
      (''escort_roster'', \<lparr>ru_handler = ''escort_roster'', ru_required = [], ru_entries = False, ru_codes = []\<rparr>),
      (''escort_slip'', \<lparr>ru_handler = ''escort_slip'', ru_required = [], ru_entries = False, ru_codes = []\<rparr>),
      (''balance_summary'', \<lparr>ru_handler = ''skip'', ru_required = [], ru_entries = False, ru_codes = []\<rparr>),
      (''other'', \<lparr>ru_handler = ''skip'', ru_required = [], ru_entries = False, ru_codes = []\<rparr>)]"

definition ACCOUNTING_TYPES :: "string list" where
  "ACCOUNTING_TYPES = map fst (filter (\<lambda>(k, v). ru_handler v \<noteq> ''skip'') MESSAGE_RULES)"

definition get_rule :: "string \<Rightarrow> msg_rule" where
  "get_rule ty =
     (case map_of MESSAGE_RULES ty of
        Some r \<Rightarrow> r
      | None \<Rightarrow> \<lparr>ru_handler = ''skip'', ru_required = [], ru_entries = False,
                 ru_codes = [(''unknown_type'', ''unknown_message_type_'' @ ty)]\<rparr>)"

definition failure_code :: "msg_rule \<Rightarrow> string \<Rightarrow> string \<Rightarrow> string" where
  "failure_code r key dflt = (case map_of (ru_codes r) key of None \<Rightarrow> dflt | Some c \<Rightarrow> c)"

definition usable_entry :: "string option \<times> string option \<Rightarrow> bool" where
  "usable_entry x \<longleftrightarrow> py_strip (case fst x of None \<Rightarrow> '''' | Some s \<Rightarrow> s) \<noteq> '''' \<and> to_decimal (snd x) \<noteq> None"

fun check_required :: "msg_rule \<Rightarrow> parsed_data \<Rightarrow> string list \<Rightarrow> validation" where
  "check_required r d [] = Valid"
| "check_required r d (f # fs) =
     (case pd_get f d of
        None \<Rightarrow> Invalid (failure_code r (''missing_'' @ f) (''missing_'' @ f))
      | Some v \<Rightarrow>
          if py_strip v = '''' then Invalid (failure_code r (''missing_'' @ f) (''missing_'' @ f))
          else if f = ''amount''
          then (case parse_decimal v of
                  None \<Rightarrow> Invalid (failure_code r ''missing_amount'' ''no_amount_in_parse'')
                | Some a \<Rightarrow>
                    if dec_val a < MIN_AMOUNT
                    then Invalid (failure_code r ''non_positive_amount'' ''non_positive_amount'')
                    else check_required r d fs)
          else check_required r d fs)"

definition validate_for_accounting :: "string \<Rightarrow> parsed_data \<Rightarrow> validation" where
  "validate_for_accounting ty d =
     (let r = get_rule ty
      in if ru_entries r
         then if pd_entries d = [] then Invalid (failure_code r ''empty_entries'' ''missing_entries'')
              else if filter usable_entry (pd_entries d) = []
              then Invalid (failure_code r ''unusable_entries'' ''escort_entries_invalid'')
              else Valid
         else check_required r d (ru_required r))"

subsection \<open>The message store\<close>

datatype proc_status = PS_pending | PS_parsing | PS_parsed | PS_accounting | PS_done | PS_failed | PS_skipped

record ingest_request =
  ig_wa_id :: string
  ig_source :: string
  ig_number :: string
  ig_chat :: string
  ig_sender :: "string option"
  ig_from_me :: bool
  ig_content :: "string option"
  ig_date :: date

record fpe_message =
  fm_id :: int
  fm_wa_id :: string
  fm_source :: string
  fm_number :: string
  fm_chat :: string
  fm_sender :: "string option"
  fm_from_me :: bool
  fm_content :: "string option"
  fm_date :: date

record proc_row =
  ps_msg :: int
  ps_status :: proc_status
  ps_attempts :: nat
  ps_error :: "string option"
  ps_queued :: time
  ps_processed :: "time option"

record parser_row =
  pr_msg :: int
  pr_type :: string
  pr_data :: parsed_data
  pr_confidence :: rat
  pr_ai :: bool

record unmatched_row =
  um_msg :: int
  um_reason :: string
  um_content :: "string option"
  um_amount :: "decimal option"
  um_phone :: "string option"
  um_name :: "string option"
  um_method :: "string option"
  um_date :: "date option"
  um_confidence :: "rat option"

record msg_db =
  md_msgs :: "fpe_message list"
  md_next :: int
  md_proc :: "proc_row list"
  md_results :: "parser_row list"
  md_unmatched :: "unmatched_row list"

datatype ingest_result = Ingested int | Duplicate | Ingest_exception

definition new_message :: "int \<Rightarrow> ingest_request \<Rightarrow> fpe_message" where
  "new_message i rq =
     \<lparr>fm_id = i, fm_wa_id = ig_wa_id rq, fm_source = ig_source rq, fm_number = ig_number rq, fm_chat = ig_chat rq,
      fm_sender = ig_sender rq, fm_from_me = ig_from_me rq, fm_content = ig_content rq, fm_date = ig_date rq\<rparr>"

definition new_proc :: "env \<Rightarrow> int \<Rightarrow> proc_row" where
  "new_proc e i = \<lparr>ps_msg = i, ps_status = PS_pending, ps_attempts = 0, ps_error = None, ps_queued = db_now e, ps_processed = None\<rparr>"

definition ingest_message :: "env \<Rightarrow> ingest_request \<Rightarrow> msg_db \<Rightarrow> ingest_result \<times> msg_db" where
  \<comment> \<open>statement 0 looks for the message, 1 stores it, 2 creates its processing state\<close>
  "ingest_message e rq db =
     (let same = (\<lambda>m. fm_wa_id m = ig_wa_id rq \<and> fm_source m = ig_source rq)
      in if raises e 0 then (Ingest_exception, db)
         else if has_row same (md_msgs db) then (Duplicate, db)
         else if raises e 1 then (Ingest_exception, db)
         else let i = md_next db;
                  db1 = db\<lparr>md_next := i + 1, md_msgs := md_msgs db @ [new_message i rq]\<rparr>
              in if raises e 2 then (Ingest_exception, db1)
                 else (Ingested i,
                       if has_row (\<lambda>p. ps_msg p = i) (md_proc db1) then db1
                       else db1\<lparr>md_proc := md_proc db1 @ [new_proc e i]\<rparr>))"

definition mark_processing_status :: "env \<Rightarrow> int \<Rightarrow> proc_status \<Rightarrow> string option \<Rightarrow> msg_db \<Rightarrow> msg_db" where
  \<comment> \<open>the one UPDATE; the caller decides what happens when it raises\<close>
  "mark_processing_status e i st err db =
     db\<lparr>md_proc := update_where (\<lambda>p. ps_msg p = i)
          (\<lambda>p. p\<lparr>ps_status := st, ps_error := err, ps_attempts := ps_attempts p + 1,
                 ps_processed := (if st \<in> {PS_done, PS_skipped, PS_failed} then Some (db_now e) else ps_processed p)\<rparr>)
          (md_proc db)\<rparr>"

definition store_parser_result :: "int \<Rightarrow> string \<Rightarrow> parsed_data \<Rightarrow> rat \<Rightarrow> bool \<Rightarrow> msg_db \<Rightarrow> msg_db" where
  "store_parser_result i ty d conf ai db =
     db\<lparr>md_results := md_results db @ [\<lparr>pr_msg = i, pr_type = ty, pr_data = d, pr_confidence = conf, pr_ai = ai\<rparr>]\<rparr>"

definition store_unmatched :: "unmatched_row \<Rightarrow> msg_db \<Rightarrow> msg_db" where
  \<comment> \<open>the table has no key besides its own id, so the conflict clause never applies\<close>
  "store_unmatched row db = db\<lparr>md_unmatched := md_unmatched db @ [row]\<rparr>"

subsection \<open>Amounts survive as text\<close>

lemma py_strip_spaceless: "list_all (\<lambda>c. \<not> is_space c) s \<Longrightarrow> py_strip s = s"
  by (intro py_strip_id) (use hd_in_set last_in_set in \<open>fastforce simp: list_all_iff\<close>)

lemma digit_not_space: "is_digit c \<Longrightarrow> \<not> is_space c"
  by (auto simp: is_digit_def is_space_def Let_def)

lemma digit_not_sign: "is_digit c \<Longrightarrow> c \<notin> set ''-+.''"
  by (auto simp: is_digit_def)

lemma read_nat_zeros: "read_nat (replicate k (CHR ''0'') @ s) = read_nat s"
  by (induction k) (simp_all add: read_nat_def char_digit_def)

lemma parse_plain:
  assumes "list_all is_digit ip" "list_all is_digit fp" "ip @ fp \<noteq> ''''" "fp \<noteq> '''' \<longrightarrow> dot = ''.''" "fp = '''' \<longrightarrow> dot = ''''"
  shows "parse_decimal ((if neg then ''-'' else '''') @ ip @ dot @ fp) =
    Some (Dec (if neg then - int (read_nat (ip @ fp)) else int (read_nat (ip @ fp))) (length fp))"
proof -
  let ?b = "ip @ dot @ fp"
  let ?s = "(if neg then ''-'' else '''') @ ?b"
  have ns: "\<not> is_space (CHR ''-'')" "\<not> is_space (CHR ''.'')" by (simp_all add: is_space_def)
  have dot: "list_all (\<lambda>c. c = CHR ''.'') dot" using assms(4,5) by (cases "fp = ''''") auto
  have "list_all (\<lambda>c. \<not> is_space c) ?s"
    using assms(1,2) dot digit_not_space ns by (auto simp: list_all_iff)
  then have strip: "py_strip ?s = ?s" by (rule py_strip_spaceless)
  have nodot: "\<not> is_digit (CHR ''.'')" by (simp add: is_digit_def)
  have tw: "takeWhile is_digit ?b = ip" "dropWhile is_digit ?b = dot @ fp"
    using assms(1,4,5) nodot by (cases "fp = ''''"; auto simp: list_all_iff takeWhile_append2 dropWhile_append2)+
  have b0: "?b \<noteq> ''''" using assms(3) by auto
  have hd: "hd ?b \<noteq> CHR ''-'' \<and> hd ?b \<noteq> CHR ''+''"
  proof (cases "ip = ''''")
    case True
    with assms(3,4) show ?thesis by auto
  next
    case False
    then have "is_digit (hd ?b)" using assms(1) by (cases ip) auto
    then show ?thesis using digit_not_sign by fastforce
  qed
  have body: "(if ?s \<noteq> '''' \<and> hd ?s \<in> set ''-+'' then tl ?s else ?s) = ?b" using hd b0 by simp
  have neg: "(?s \<noteq> '''' \<and> hd ?s = CHR ''-'') = neg" using hd b0 by simp
  have rest: "dot @ fp = '''' \<or> hd (dot @ fp) = CHR ''.''" "tl (dot @ fp) = fp"
    using assms(4,5) by (cases "fp = ''''"; auto)+
  show ?thesis
    unfolding parse_decimal_def Let_def strip body tw neg using rest assms(2,3) by simp
qed

text \<open>
  An amount survives its way through the stored JSON. The text that the parsing worker writes
  for an amount, \<open>str(amount)\<close>, is read back by the accounting worker, \<open>Decimal(text)\<close>, as the same
  decimal number with the same number of places, negative amounts and amounts below one included.
  (Python writes amounts of more than six places partly with an exponent; those texts are not
  modelled.)
\<close>

theorem amount_roundtrip: "parse_decimal (dec_str d) = Some d"
proof (cases d)
  case (Dec u s)
  define ds where "ds = show_nat (nat \<bar>u\<bar>)"
  define padded where "padded = replicate (Suc s - length ds) (CHR ''0'') @ ds"
  define k where "k = length padded - s"
  have dig: "list_all is_digit padded"
    using show_nat_digits [of "nat \<bar>u\<bar>"] by (auto simp: padded_def ds_def list_all_iff is_digit_def)
  have len: "s < length padded" by (simp add: padded_def)
  have val: "int (read_nat padded) = \<bar>u\<bar>" by (simp add: padded_def ds_def read_nat_zeros)
  have sign: "(if u < 0 then - \<bar>u\<bar> else \<bar>u\<bar>) = u" by simp
  let ?dot = "if s = 0 then '''' else ''.''"
  have "dec_str d = (if u < 0 then ''-'' else '''') @ take k padded @ ?dot @ drop k padded"
    using show_nat_nonempty [of "nat \<bar>u\<bar>"]
    by (auto simp: dec_str_def Dec Let_def k_def padded_def ds_def Suc_le_eq simp del: show_nat_nonempty)
  moreover have "parse_decimal ((if u < 0 then ''-'' else '''') @ take k padded @ ?dot @ drop k padded) =
      Some (Dec (if u < 0 then - int (read_nat (take k padded @ drop k padded)) else int (read_nat (take k padded @ drop k padded)))
        (length (drop k padded)))"
  proof (rule parse_plain)
    show "list_all is_digit (take k padded)" "list_all is_digit (drop k padded)"
      using dig by (metis append_take_drop_id list_all_append)+
  qed (use len in \<open>auto simp: k_def\<close>)
  ultimately show ?thesis using len val sign by (simp add: Dec k_def)
qed

subsection \<open>What validation accepts\<close>

definition amount_rule :: "msg_rule \<Rightarrow> bool" where
  "amount_rule r \<longleftrightarrow> ru_entries r = False \<and> ru_required r = [''amount'']
     \<and> failure_code r ''missing_amount'' ''no_amount_in_parse'' = ''no_amount_in_parse''
     \<and> failure_code r (''missing_'' @ ''amount'') (''missing_'' @ ''amount'') = ''no_amount_in_parse''
     \<and> failure_code r ''non_positive_amount'' ''non_positive_amount'' = ''non_positive_amount''"

lemma amount_rules:
  "amount_rule (get_rule ''payment'')" "amount_rule (get_rule ''cash_command'')" "amount_rule (get_rule ''income_command'')"
  by code_simp+

lemma escort_rule:
  "ru_entries (get_rule ''escort_payment'')"
  "failure_code (get_rule ''escort_payment'') ''empty_entries'' ''missing_entries'' = ''escort_payment_no_entries''"
  "failure_code (get_rule ''escort_payment'') ''unusable_entries'' ''escort_entries_invalid'' = ''escort_payment_entries_invalid''"
  by code_simp+

lemma accounting_types:
  "ACCOUNTING_TYPES = [''payment'', ''cash_command'', ''income_command'', ''escort_payment'', ''escort_roster'', ''escort_slip'']"
  by code_simp

definition loose_rule :: "msg_rule \<Rightarrow> bool" where
  "loose_rule r \<longleftrightarrow> ru_entries r = False \<and> ru_required r = []"

lemma loose_rules:
  assumes "ty \<notin> {''payment'', ''cash_command'', ''income_command'', ''escort_payment''}"
  shows "loose_rule (get_rule ty)"
proof (cases "map_of MESSAGE_RULES ty")
  case None
  then show ?thesis by (simp add: get_rule_def loose_rule_def)
next
  case (Some r)
  have "list_all (\<lambda>(k, r). k \<in> {''payment'', ''cash_command'', ''income_command'', ''escort_payment''} \<or> loose_rule r) MESSAGE_RULES"
    by code_simp
  with map_of_SomeD [OF Some] assms have "loose_rule r" by (auto simp: list_all_iff)
  with Some show ?thesis by (simp add: get_rule_def)
qed

lemma validate_amount:
  assumes "amount_rule (get_rule ty)"
  shows "validate_for_accounting ty d =
       (case to_decimal (pd_get ''amount'' d) of
          None \<Rightarrow> Invalid ''no_amount_in_parse''
        | Some a \<Rightarrow> if dec_val a < 1 / 100 then Invalid ''non_positive_amount'' else Valid)"
proof -
  have blank: "parse_decimal v = None" if "py_strip v = ''''" for v
    unfolding parse_decimal_def that Let_def by simp
  have r: "ru_entries (get_rule ty) = False" "ru_required (get_rule ty) = [''amount'']"
    using assms by (simp_all only: amount_rule_def)
  show ?thesis
    unfolding validate_for_accounting_def Let_def r if_False check_required.simps if_True
      amount_rule_def [THEN iffD1, OF assms, THEN conjunct2, THEN conjunct2, THEN conjunct1]
      amount_rule_def [THEN iffD1, OF assms, THEN conjunct2, THEN conjunct2, THEN conjunct2, THEN conjunct1]
      amount_rule_def [THEN iffD1, OF assms, THEN conjunct2, THEN conjunct2, THEN conjunct2, THEN conjunct2]
    using blank by (auto simp: to_decimal_def MIN_AMOUNT_def split: option.split)
qed

text \<open>
  C40: What may be booked. For the three types that carry an amount, validation accepts exactly the
  messages whose amount is present, numeric and at least one hundredth; a missing or unreadable
  amount and one below are reported with their own codes. A list of escort payments is accepted when
  at least one entry has a name and a readable amount. Every other type is accepted as it is, but of
  the types the parser gives only these four reach the accounting worker.
\<close>

theorem validation_exact:
  "(ty \<in> {''payment'', ''cash_command'', ''income_command''} \<longrightarrow>
     validate_for_accounting ty d =
       (case to_decimal (pd_get ''amount'' d) of
          None \<Rightarrow> Invalid ''no_amount_in_parse''
        | Some a \<Rightarrow> if dec_val a < 1 / 100 then Invalid ''non_positive_amount'' else Valid))
   \<and> validate_for_accounting ''escort_payment'' d =
       (if pd_entries d = [] then Invalid ''escort_payment_no_entries''
        else if list_ex usable_entry (pd_entries d) then Valid else Invalid ''escort_payment_entries_invalid'')
   \<and> (ty \<notin> {''payment'', ''cash_command'', ''income_command'', ''escort_payment''} \<longrightarrow> validate_for_accounting ty d = Valid)
   \<and> set ACCOUNTING_TYPES \<inter> {''payment'', ''balance_summary'', ''cash_command'', ''income_command'', ''escort_payment'', ''other''}
     = {''payment'', ''cash_command'', ''income_command'', ''escort_payment''}"
proof (intro conjI impI)
  assume "ty \<in> {''payment'', ''cash_command'', ''income_command''}"
  then have "amount_rule (get_rule ty)" using amount_rules by auto
  then show "validate_for_accounting ty d = (case to_decimal (pd_get ''amount'' d) of
      None \<Rightarrow> Invalid ''no_amount_in_parse'' | Some a \<Rightarrow> if dec_val a < 1 / 100 then Invalid ''non_positive_amount'' else Valid)"
    by (rule validate_amount)
next
  show "validate_for_accounting ''escort_payment'' d =
      (if pd_entries d = [] then Invalid ''escort_payment_no_entries''
       else if list_ex usable_entry (pd_entries d) then Valid else Invalid ''escort_payment_entries_invalid'')"
    unfolding validate_for_accounting_def Let_def escort_rule(2,3) using escort_rule(1)
    by (auto simp: filter_empty_conv list_ex_iff)
next
  assume "ty \<notin> {''payment'', ''cash_command'', ''income_command'', ''escort_payment''}"
  from loose_rules [OF this] show "validate_for_accounting ty d = Valid"
    by (simp add: validate_for_accounting_def loose_rule_def)
next
  show "set ACCOUNTING_TYPES \<inter> {''payment'', ''balance_summary'', ''cash_command'', ''income_command'', ''escort_payment'', ''other''}
     = {''payment'', ''cash_command'', ''income_command'', ''escort_payment''}" unfolding accounting_types by auto
qed

definition sample_parsed :: "string \<Rightarrow> parsed_data" where
  "sample_parsed amount = \<lparr>pd_fields = [(''employee_name_raw'', Some ''Karim''), (''payout_phone'', Some ''01711111111''),
     (''payout_method'', Some ''bkash''), (''amount'', Some amount)], pd_date = Some (Date 2026 5 4), pd_entries = [],
     pd_shift = None, pd_duty_date = None\<rparr>"

theorem validation_exact_witness:
  "validate_for_accounting ''payment'' (sample_parsed ''2200'') = Valid
   \<and> validate_for_accounting ''cash_command'' (sample_parsed ''0.00'') = Invalid ''non_positive_amount''
   \<and> validate_for_accounting ''balance_summary'' (sample_parsed ''x'') = Valid"
proof -
  have a: "to_decimal (pd_get ''amount'' (sample_parsed ''2200'')) = Some (Dec 2200 0)"
    "to_decimal (pd_get ''amount'' (sample_parsed ''0.00'')) = Some (Dec 0 2)" by code_simp+
  have v: "dec_val (Dec 2200 0) = 2200" "dec_val (Dec 0 2) = 0" by (simp_all add: dec_val_def)
  from validation_exact [of "''payment''" "sample_parsed ''2200''"] a(1) v(1)
  have "validate_for_accounting ''payment'' (sample_parsed ''2200'') = Valid" by simp
  moreover from validation_exact [of "''cash_command''" "sample_parsed ''0.00''"] a(2) v(2)
  have "validate_for_accounting ''cash_command'' (sample_parsed ''0.00'') = Invalid ''non_positive_amount''" by simp
  moreover from validation_exact [of "''balance_summary''" "sample_parsed ''x''"]
  have "validate_for_accounting ''balance_summary'' (sample_parsed ''x'') = Valid" by simp
  ultimately show ?thesis by simp
qed

subsection \<open>Storing a message\<close>

text \<open>
  A message is stored once: the first delivery stores it with a pending processing state and returns
  its id, and any later delivery with the same id and source is reported as a duplicate.
\<close>

theorem ingest_once:
  assumes "db_ok e" and "\<not> raises e2 0" and "\<not> has_row (\<lambda>m. fm_wa_id m = ig_wa_id rq \<and> fm_source m = ig_source rq) (md_msgs db)"
    and "\<not> has_row (\<lambda>p. ps_msg p = md_next db) (md_proc db)" and "ig_wa_id rq2 = ig_wa_id rq" and "ig_source rq2 = ig_source rq"
  shows "\<exists>db'. ingest_message e rq db = (Ingested (md_next db), db') \<and> md_msgs db' = md_msgs db @ [new_message (md_next db) rq]
    \<and> md_proc db' = md_proc db @ [new_proc e (md_next db)] \<and> ingest_message e2 rq2 db' = (Duplicate, db')"
  using assms by (auto simp: ingest_message_def Let_def db_ok_raises has_row_def new_message_def)

text \<open>
  A message whose processing state could not be created is lost: it is stored, so every later
  delivery is a duplicate, but no worker ever sees it.
\<close>

theorem ingest_gap:
  assumes "\<not> raises e 0" and "\<not> raises e 1" and "raises e 2" and "\<not> raises e2 0"
    and "\<not> has_row (\<lambda>m. fm_wa_id m = ig_wa_id rq \<and> fm_source m = ig_source rq) (md_msgs db)"
  shows "\<exists>db'. ingest_message e rq db = (Ingest_exception, db') \<and> md_msgs db' = md_msgs db @ [new_message (md_next db) rq]
    \<and> md_proc db' = md_proc db \<and> ingest_message e2 rq db' = (Duplicate, db')"
  using assms by (auto simp: ingest_message_def Let_def has_row_def new_message_def)

end
