(* ===== verification/FPE_Pipeline.thy ===== *)
theory FPE_Pipeline
  imports FPE_Messages FPE_Identity Phone_Numbers
begin

text \<open>
  The workers of the payroll engine, \<open>modules/fazle_payroll_engine/workers.py\<close>: the parsing worker
  takes pending messages, the accounting worker books the parsed ones over the identity tables and
  the accounts. The parser (\<open>parser.py\<close>, a set of regular expressions) and the language model that is
  asked when the parser is unsure are arguments: what is shown holds for every parser. So are the
  hash and the similarity score. The reply sent over a bridge when a cash command names nobody
  changes no table, and its failure is swallowed. A worker handles the rows of a batch one after the
  other; each row runs in environments of its own, and an exception while it is recorded as failed
  ends the batch.
\<close>

subsection \<open>Statement lists\<close>

fun run_stmts :: "env \<Rightarrow> nat \<Rightarrow> ('s \<Rightarrow> 's) list \<Rightarrow> 's \<Rightarrow> bool \<times> 's" where
  \<comment> \<open>the statements of a block in turn, up to the first that raises\<close>
  "run_stmts e k [] s = (True, s)"
| "run_stmts e k (f # fs) s = (if raises e k then (False, s) else run_stmts e (k + 1) fs (f s))"

subsection \<open>Parsing\<close>

datatype msg_type = M_payment | M_balance_summary | M_cash_command | M_income_command | M_escort_payment | M_other

definition type_value :: "msg_type \<Rightarrow> string" where
  "type_value t = (case t of M_payment \<Rightarrow> ''payment'' | M_balance_summary \<Rightarrow> ''balance_summary''
     | M_cash_command \<Rightarrow> ''cash_command'' | M_income_command \<Rightarrow> ''income_command''
     | M_escort_payment \<Rightarrow> ''escort_payment'' | M_other \<Rightarrow> ''other'')"

record parsed_payment =
  pp_id_phone :: "string option"
  pp_name :: "string option"
  pp_phone :: "string option"
  pp_method :: string
  pp_amount :: "decimal option"
  pp_date :: "date option"

record balance_out =
  bo_date :: "date option"
  bo_due :: "decimal option"
  bo_collected :: "decimal option"

record escort_out =
  eo_entries :: "(string \<times> decimal) list"
  eo_shift :: "string option"
  eo_date :: "date option"
  eo_total :: "decimal option"

record parse_out =
  po_type :: msg_type
  po_payment :: "parsed_payment option"
  po_balance :: "balance_out option"
  po_escort :: "escort_out option"
  po_confidence :: rat

record ai_data =
  ad_is_payment :: bool
  ad_name :: "string option"
  ad_phone :: "string option"
  ad_method :: "string option"
  ad_amount :: "string option"
  ad_confidence :: rat

definition bd_phone :: "string option \<Rightarrow> string option" where
  \<comment> \<open>\<open>normalize_bd_phone\<close> on ASCII text\<close>
  "bd_phone s = map_option (map char_of) (normalize_bd_phone ascii_digit (map_option cp s))"

definition PAYOUT_METHODS :: "string list" where
  "PAYOUT_METHODS = [''bkash'', ''nagad'', ''cash'', ''rocket'', ''bank'', ''unknown'']"

definition normalize_payout_method :: "string option \<Rightarrow> string" where
  "normalize_payout_method raw =
     (case present raw of None \<Rightarrow> ''unknown'' | Some s \<Rightarrow>
        dict_get ''unknown''
          [(''b'', ''bkash''), (''bkash'', ''bkash''), (''n'', ''nagad''), (''nagad'', ''nagad''), (''c'', ''cash''),
           (''cash'', ''cash''), (''r'', ''rocket''), (''rocket'', ''rocket''), (''bk'', ''bkash'')]
          (py_lower (py_strip s)))"

definition ai_data_to_parse_result :: "ai_data \<Rightarrow> date option \<Rightarrow> parse_out option" where
  \<comment> \<open>no result when the amount is not a number: the conversion raises\<close>
  "ai_data_to_parse_result a d =
     (let nothing = \<lparr>po_type = M_other, po_payment = None, po_balance = None, po_escort = None, po_confidence = ad_confidence a\<rparr>
      in case present (ad_amount a) of
           None \<Rightarrow> Some nothing
         | Some s \<Rightarrow>
             (case parse_decimal s of
                None \<Rightarrow> None
              | Some x \<Rightarrow>
                  if dec_val x = 0 then Some nothing
                  else Some (nothing\<lparr>po_type := M_payment,
                         po_payment := Some \<lparr>pp_id_phone = None, pp_name = ad_name a, pp_phone = bd_phone (ad_phone a),
                           pp_method = normalize_payout_method (ad_method a), pp_amount = Some x, pp_date = d\<rparr>\<rparr>)))"

definition dec_text :: "decimal option \<Rightarrow> string option" where
  "dec_text a = (case a of None \<Rightarrow> None | Some d \<Rightarrow> if dec_val d = 0 then None else Some (dec_str d))"

definition parsed_data_of :: "parse_out \<Rightarrow> parsed_data" where
  "parsed_data_of r =
     (let empty = \<lparr>pd_fields = [], pd_date = None, pd_entries = [], pd_shift = None, pd_duty_date = None\<rparr>
      in case po_payment r of
           Some p \<Rightarrow> empty\<lparr>pd_fields := [(''employee_id_phone'', pp_id_phone p), (''employee_name_raw'', pp_name p),
                       (''payout_phone'', pp_phone p), (''payout_method'', Some (pp_method p)), (''amount'', dec_text (pp_amount p))],
                     pd_date := pp_date p\<rparr>
         | None \<Rightarrow>
             (case po_balance r of
                Some b \<Rightarrow> empty\<lparr>pd_fields := [(''summary_date'', map_option isoformat (bo_date b)),
                            (''total_due'', dec_text (bo_due b)), (''total_collected'', dec_text (bo_collected b))]\<rparr>
              | None \<Rightarrow>
                  (case po_escort r of
                     None \<Rightarrow> empty
                   | Some x \<Rightarrow> empty\<lparr>pd_fields := [(''total_amount'', dec_text (eo_total x))],
                       pd_entries := map (\<lambda>(n, a). (Some n, Some (dec_str a))) (eo_entries x),
                       pd_shift := eo_shift x, pd_duty_date := eo_date x\<rparr>)))"

definition unmatched :: "int \<Rightarrow> string \<Rightarrow> string option \<Rightarrow> unmatched_row" where
  "unmatched i reason content =
     \<lparr>um_msg = i, um_reason = reason, um_content = content, um_amount = None, um_phone = None, um_name = None,
      um_method = None, um_date = None, um_confidence = None\<rparr>"

record fpe_config =
  fc_cash_phones :: "string list"
  fc_income_phones :: "string list"

definition sender_norm :: "fpe_message \<Rightarrow> string" where
  "sender_norm m = (let raw = (case fm_sender m of None \<Rightarrow> '''' | Some s \<Rightarrow> s)
                    in case bd_phone (Some raw) of None \<Rightarrow> raw | Some p \<Rightarrow> p)"

definition authorized :: "fpe_config \<Rightarrow> msg_type \<Rightarrow> fpe_message \<Rightarrow> bool" where
  "authorized cfg t m \<longleftrightarrow>
     sender_norm m \<in> set (if t = M_cash_command then fc_cash_phones cfg else fc_income_phones cfg)"

definition skip_reason :: "msg_type \<Rightarrow> fpe_message \<Rightarrow> string" where
  "skip_reason t m =
     (if t = M_balance_summary then ''balance_summary'' else if fm_from_me m then ''admin_other'' else ''accountant_other'')"

definition text_of :: "fpe_message \<Rightarrow> string" where
  "text_of m = (case fm_content m of None \<Rightarrow> '''' | Some s \<Rightarrow> s)"

definition parse_stmts :: "env \<Rightarrow> fpe_config \<Rightarrow> fpe_message \<Rightarrow> parse_out \<Rightarrow> bool \<Rightarrow> (msg_db \<Rightarrow> msg_db) list" where
  \<comment> \<open>the statements once the message has been read\<close>
  "parse_stmts e cfg m r ai =
     (let i = fm_id m; t = po_type r; d = parsed_data_of r; mark = (\<lambda>st. mark_processing_status e i st None)
      in if \<not> fm_from_me m \<and> t = M_other
         then [store_unmatched ((unmatched i ''accountant_other'' (Some (text_of m)))\<lparr>um_confidence := Some (po_confidence r)\<rparr>),
               mark PS_skipped]
         else store_parser_result i (type_value t) d (po_confidence r) ai #
           (if t \<in> {M_payment, M_escort_payment} then [mark PS_parsed]
            else if t \<in> {M_cash_command, M_income_command}
            then [mark (if authorized cfg t m then PS_parsed else PS_skipped)]
            else [store_unmatched ((unmatched i (skip_reason t m) (Some (text_of m)))
                    \<lparr>um_name := pd_get ''employee_name_raw'' d, um_phone := pd_get ''payout_phone'' d,
                     um_method := pd_get ''payout_method'' d, um_confidence := Some (po_confidence r)\<rparr>),
                  mark PS_skipped]))"

definition read_message ::
  "(string \<Rightarrow> date option \<Rightarrow> parse_out) \<Rightarrow> (string \<Rightarrow> rat \<Rightarrow> ai_data option) \<Rightarrow> fpe_message \<Rightarrow> (parse_out \<times> bool) option" where
  "read_message parse ai m =
     (let d = Some (fm_date m); r = parse (text_of m) d
      in if po_confidence r < 7 / 10 \<and> py_strip (text_of m) \<noteq> ''''
         then case ai (text_of m) (po_confidence r) of
                Some a \<Rightarrow> if ad_is_payment a then map_option (\<lambda>x. (x, True)) (ai_data_to_parse_result a d) else Some (r, False)
              | None \<Rightarrow> Some (r, False)
         else Some (r, False))"

record row_env =
  rw_body :: env
  rw_fail :: env
  rw_error :: string

definition parse_failed :: "row_env \<Rightarrow> fpe_message \<Rightarrow> msg_db \<Rightarrow> bool \<times> msg_db" where
  \<comment> \<open>the exception handler: its statement 0 is swallowed, its statement 1 is not\<close>
  "parse_failed rw m db =
     (let db1 = (if raises (rw_fail rw) 0 then db else store_unmatched (unmatched (fm_id m) ''parser_failed'' (Some (text_of m))) db)
      in if raises (rw_fail rw) 1 then (False, db1)
         else (True, mark_processing_status (rw_fail rw) (fm_id m) PS_failed (Some (take 500 (rw_error rw))) db1))"

definition process_pending_row ::
  "(string \<Rightarrow> date option \<Rightarrow> parse_out) \<Rightarrow> (string \<Rightarrow> rat \<Rightarrow> ai_data option) \<Rightarrow> fpe_config \<Rightarrow> row_env \<Rightarrow> fpe_message
    \<Rightarrow> msg_db \<Rightarrow> bool \<times> msg_db" where
  "process_pending_row parse ai cfg rw m db =
     (let e = rw_body rw; start = mark_processing_status e (fm_id m) PS_parsing None
      in case read_message parse ai m of
           None \<Rightarrow> parse_failed rw m (snd (run_stmts e 0 [start] db))
         | Some (r, used) \<Rightarrow>
             (case run_stmts e 0 (start # parse_stmts e cfg m r used) db of
                (True, db1) \<Rightarrow> (True, db1)
              | (False, db1) \<Rightarrow> parse_failed rw m db1))"

definition MAX_ATTEMPTS :: nat where "MAX_ATTEMPTS = 5"

definition BATCH_SIZE :: nat where "BATCH_SIZE = 20"

definition message_of :: "int \<Rightarrow> msg_db \<Rightarrow> fpe_message option" where
  "message_of i db = find (\<lambda>m. fm_id m = i) (md_msgs db)"

definition pending_batch :: "msg_db \<Rightarrow> fpe_message list" where
  "pending_batch db =
     take BATCH_SIZE
       (List.map_filter (\<lambda>p. message_of (ps_msg p) db)
          (sort_key ps_queued (filter (\<lambda>p. ps_status p = PS_pending \<and> ps_attempts p < MAX_ATTEMPTS) (md_proc db))))"

fun parse_rows ::
  "(string \<Rightarrow> date option \<Rightarrow> parse_out) \<Rightarrow> (string \<Rightarrow> rat \<Rightarrow> ai_data option) \<Rightarrow> fpe_config \<Rightarrow> (int \<Rightarrow> row_env)
    \<Rightarrow> fpe_message list \<Rightarrow> msg_db \<Rightarrow> msg_db" where
  "parse_rows parse ai cfg rws [] db = db"
| "parse_rows parse ai cfg rws (m # ms) db =
     (case process_pending_row parse ai cfg (rws (fm_id m)) m db of
        (True, db1) \<Rightarrow> parse_rows parse ai cfg rws ms db1
      | (False, db1) \<Rightarrow> db1)"

definition process_pending_batch ::
  "(string \<Rightarrow> date option \<Rightarrow> parse_out) \<Rightarrow> (string \<Rightarrow> rat \<Rightarrow> ai_data option) \<Rightarrow> fpe_config \<Rightarrow> env \<Rightarrow> (int \<Rightarrow> row_env)
    \<Rightarrow> msg_db \<Rightarrow> msg_db" where
  "process_pending_batch parse ai cfg e rws db =
     (if raises e 0 then db else parse_rows parse ai cfg rws (pending_batch db) db)"

subsection \<open>Booking\<close>

record escort_pay_draft =
  xd_name :: string
  xd_amount :: decimal
  xd_text :: string
  xd_source :: string
  xd_program :: "int option"

record duty_program =
  dp_id :: int
  dp_date :: date
  dp_shift :: "string option"
  dp_status :: "string option"
  dp_assigned :: time

record diag_row =
  dg_msg :: int
  dg_type :: string
  dg_status :: string
  dg_reason :: "string option"

record pipe_db =
  pl_msg :: msg_db
  pl_ident :: identity_db
  pl_fpe :: fpe_db
  pl_drafts :: "escort_pay_draft list"
  pl_programs :: "duty_program list"
  pl_diag :: "diag_row list"

record acct_env =
  ac_body :: env
  ac_lookup :: env
  ac_match :: match_env
  ac_txn :: env
  ac_fail :: env
  ac_diag :: env
  ac_error :: string
  ac_today :: date

datatype outcome = Ended string "string option" | Raised

definition on_msg :: "(msg_db \<Rightarrow> msg_db) \<Rightarrow> pipe_db \<Rightarrow> pipe_db" where
  "on_msg f db = db\<lparr>pl_msg := f (pl_msg db)\<rparr>"

definition finish :: "acct_env \<Rightarrow> nat \<Rightarrow> (pipe_db \<Rightarrow> pipe_db) list \<Rightarrow> string \<Rightarrow> string option \<Rightarrow> pipe_db \<Rightarrow> outcome \<times> pipe_db" where
  "finish av k fs st why db =
     (case run_stmts (ac_body av) k fs db of (True, db1) \<Rightarrow> (Ended st why, db1) | (False, db1) \<Rightarrow> (Raised, db1))"

definition mark_msg :: "acct_env \<Rightarrow> int \<Rightarrow> proc_status \<Rightarrow> string option \<Rightarrow> pipe_db \<Rightarrow> pipe_db" where
  "mark_msg av i st err = on_msg (mark_processing_status (ac_body av) i st err)"

definition review_msg :: "unmatched_row \<Rightarrow> pipe_db \<Rightarrow> pipe_db" where
  "review_msg row = on_msg (store_unmatched row)"

definition txn_request_of ::
  "int \<Rightarrow> int \<Rightarrow> string option \<Rightarrow> decimal \<Rightarrow> string option \<Rightarrow> string \<Rightarrow> date \<Rightarrow> string option \<Rightarrow> string \<Rightarrow> txn_request" where
  "txn_request_of i emp name amount phone meth d body by_whom =
     \<lparr>rq_msg = Some i, rq_employee = Some emp, rq_name = name, rq_amount = amount, rq_phone = phone, rq_method = meth,
      rq_date = d, rq_category = T_salary, rq_text = body, rq_period = None, rq_by = by_whom\<rparr>"

definition book :: "(string \<Rightarrow> string) \<Rightarrow> acct_env \<Rightarrow> int \<Rightarrow> txn_request \<Rightarrow> pipe_db \<Rightarrow> outcome \<times> pipe_db" where
  "book sha av i req db =
     (case create_transaction sha (ac_txn av) req (pl_fpe db) of
        (Inl _, f) \<Rightarrow> (Raised, db\<lparr>pl_fpe := f\<rparr>)
      | (Inr _, f) \<Rightarrow> finish av 1 [mark_msg av i PS_done None] ''done'' None (db\<lparr>pl_fpe := f\<rparr>))"

definition cash_employee :: "string option \<Rightarrow> identity_db \<Rightarrow> fpe_employee option" where
  \<comment> \<open>neither the status nor the soft links are looked at\<close>
  "cash_employee phone db =
     (case present phone of None \<Rightarrow> None
      | Some p \<Rightarrow> find (\<lambda>m. em_phone m = Some p \<or> em_id_phone m = Some p) (id_emps db))"

definition handle_cash ::
  "(string \<Rightarrow> string) \<Rightarrow> acct_env \<Rightarrow> parser_row \<Rightarrow> fpe_message \<Rightarrow> decimal \<Rightarrow> date \<Rightarrow> pipe_db \<Rightarrow> outcome \<times> pipe_db" where
  "handle_cash sha av r m amount d db =
     (let i = fm_id m; pd = pr_data r; name = pd_get ''employee_name_raw'' pd;
          phone = py_or (bd_phone (pd_get ''payout_phone'' pd)) (bd_phone (pd_get ''employee_id_phone'' pd))
      in if present phone \<noteq> None \<and> raises (ac_lookup av) 0 then (Raised, db)
         else case cash_employee phone (pl_ident db) of
           None \<Rightarrow> finish av 1
             [review_msg ((unmatched i ''cash_command_no_employee'' (fm_content m))
                \<lparr>um_amount := Some amount, um_phone := phone, um_name := name, um_confidence := Some (pr_confidence r)\<rparr>),
              mark_msg av i PS_skipped None] ''skipped'' (Some ''cash_command_no_employee'') db
         | Some emp \<Rightarrow>
             book sha av i (txn_request_of i (em_id emp) name amount phone ''cash'' d (fm_content m)
               (case bd_phone (fm_sender m) of None \<Rightarrow> ''system'' | Some p \<Rightarrow> p)) db)"

definition handle_income ::
  "(string \<Rightarrow> string) \<Rightarrow> (string \<Rightarrow> string \<Rightarrow> rat) \<Rightarrow> acct_env \<Rightarrow> parser_row \<Rightarrow> fpe_message \<Rightarrow> decimal \<Rightarrow> date \<Rightarrow> pipe_db
    \<Rightarrow> outcome \<times> pipe_db" where
  "handle_income sha ratio av r m amount d db =
     (let i = fm_id m; pd = pr_data r; name = pd_get ''employee_name_raw'' pd;
          phone = py_or (bd_phone (pd_get ''payout_phone'' pd)) (bd_phone (pd_get ''employee_id_phone'' pd))
      in case match_or_create_employee ratio (ac_match av) name phone phone (pl_ident db) of
           (Inl _, idb) \<Rightarrow> (Raised, db\<lparr>pl_ident := idb\<rparr>)
         | (Inr emp, idb) \<Rightarrow>
             (case create_income_transaction sha (ac_txn av) (Some i) (map_option mr_employee emp) name amount d
                     (bd_phone (fm_sender m)) (fm_content m) (pl_fpe db) of
                (Inl _, f) \<Rightarrow> (Raised, db\<lparr>pl_ident := idb, pl_fpe := f\<rparr>)
              | (Inr _, f) \<Rightarrow> finish av 1 [mark_msg av i PS_done None] ''done'' None (db\<lparr>pl_ident := idb, pl_fpe := f\<rparr>)))"

definition handle_payment ::
  "(string \<Rightarrow> string) \<Rightarrow> (string \<Rightarrow> string \<Rightarrow> rat) \<Rightarrow> acct_env \<Rightarrow> parser_row \<Rightarrow> fpe_message \<Rightarrow> decimal \<Rightarrow> date \<Rightarrow> pipe_db
    \<Rightarrow> outcome \<times> pipe_db" where
  "handle_payment sha ratio av r m amount d db =
     (let i = fm_id m; pd = pr_data r; name = pd_get ''employee_name_raw'' pd;
          phone = bd_phone (pd_get ''payout_phone'' pd);
          meth = (case present (pd_get ''payout_method'' pd) of None \<Rightarrow> ''unknown'' | Some s \<Rightarrow> s)
      in if \<not> fm_from_me m then finish av 1 [mark_msg av i PS_skipped None] ''skipped'' (Some ''not_from_owner'') db
         else case match_or_create_employee ratio (ac_match av) name phone (bd_phone (pd_get ''employee_id_phone'' pd)) (pl_ident db) of
           (Inl _, idb) \<Rightarrow> (Raised, db\<lparr>pl_ident := idb\<rparr>)
         | (Inr None, idb) \<Rightarrow> finish av 1
             [review_msg ((unmatched i ''no_employee_match'' (fm_content m))
                \<lparr>um_amount := Some amount, um_phone := phone, um_name := name, um_method := Some meth, um_date := Some d,
                 um_confidence := Some (pr_confidence r)\<rparr>),
              mark_msg av i PS_failed (Some ''employee match returned None'')]
             ''failed'' (Some ''no_employee_match'') (db\<lparr>pl_ident := idb\<rparr>)
         | (Inr (Some emp), idb) \<Rightarrow>
             book sha av i (txn_request_of i (mr_employee emp) name amount phone
               (if meth \<in> set PAYOUT_METHODS then meth else ''unknown'') d (fm_content m) ''fpe_engine'') (db\<lparr>pl_ident := idb\<rparr>))"

definition duty_program_for :: "parsed_data \<Rightarrow> duty_program list \<Rightarrow> int option" where
  "duty_program_for pd t =
     (case pd_duty_date pd of None \<Rightarrow> None
      | Some d \<Rightarrow>
          (case sort_key (\<lambda>p. - dp_assigned p)
                  (filter (\<lambda>p. dp_date p = d \<and> (present (pd_shift pd) = None \<or> dp_shift p = pd_shift pd)
                             \<and> dp_status p \<noteq> None \<and> dp_status p \<noteq> Some ''Cancelled'') t) of
             [] \<Rightarrow> None | p # _ \<Rightarrow> Some (dp_id p)))"

definition escort_draft :: "string \<Rightarrow> parsed_data \<Rightarrow> int option \<Rightarrow> string option \<times> string option \<Rightarrow> escort_pay_draft option" where
  \<comment> \<open>the draft of an entry, none when the entry is passed over\<close>
  "escort_draft source pd prog x =
     (let name = py_strip (case fst x of None \<Rightarrow> '''' | Some s \<Rightarrow> s)
      in case (present (snd x), to_decimal (present (snd x))) of
           (Some _, Some a) \<Rightarrow>
             if name = '''' then None
             else Some \<lparr>xd_name = name, xd_amount = a,
                        xd_text = name @ ''='' @ dec_str a @ ''/'' @ [CHR 0x0A] @ ''Shift: ''
                          @ the (py_or (pd_shift pd) (Some ''?'')) @ ''  Date: ''
                          @ (case pd_duty_date pd of None \<Rightarrow> ''?'' | Some d \<Rightarrow> isoformat d),
                        xd_source = source, xd_program = prog\<rparr>
         | _ \<Rightarrow> None)"

definition handle_escort_payment :: "acct_env \<Rightarrow> parser_row \<Rightarrow> fpe_message \<Rightarrow> pipe_db \<Rightarrow> outcome \<times> pipe_db" where
  \<comment> \<open>the search for a program is swallowed when it raises\<close>
  "handle_escort_payment av r m db =
     (let pd = pr_data r; i = fm_id m;
          source = (if fm_source m = '''' then ''bridge1'' else fm_source m);
          prog = (if raises (ac_lookup av) 0 then None else duty_program_for pd (pl_programs db))
      in if pd_entries pd = [] then finish av 1 [mark_msg av i PS_skipped None] ''done'' None db
         else finish av 1
           (map (\<lambda>x db. db\<lparr>pl_drafts := pl_drafts db @ [x]\<rparr>) (List.map_filter (escort_draft source pd prog) (pd_entries pd))
            @ [mark_msg av i PS_done None]) ''done'' None db)"

definition acct_body ::
  "(string \<Rightarrow> string) \<Rightarrow> (string \<Rightarrow> string \<Rightarrow> rat) \<Rightarrow> acct_env \<Rightarrow> parser_row \<Rightarrow> fpe_message \<Rightarrow> pipe_db \<Rightarrow> outcome \<times> pipe_db" where
  "acct_body sha ratio av r m db =
     (if raises (ac_body av) 0 then (Raised, db)
      else let i = fm_id m; ty = pr_type r; pd = pr_data r; db1 = mark_msg av i PS_accounting None db
           in case validate_for_accounting ty pd of
                Invalid code \<Rightarrow> finish av 1
                  [review_msg ((unmatched i code (fm_content m))
                     \<lparr>um_phone := bd_phone (pd_get ''payout_phone'' pd), um_name := pd_get ''employee_name_raw'' pd,
                      um_method := py_or (pd_get ''payout_method'' pd) (Some ''unknown''), um_confidence := Some (pr_confidence r)\<rparr>),
                   mark_msg av i PS_skipped None] ''skipped'' (Some code) db1
              | Valid \<Rightarrow>
                  if ty = ''escort_payment'' then handle_escort_payment av r m db1
                  else (case to_decimal (pd_get ''amount'' pd) of
                          None \<Rightarrow> (Raised, db1)
                        | Some amount \<Rightarrow>
                            (let d = (case pd_date pd of None \<Rightarrow> ac_today av | Some x \<Rightarrow> x)
                             in if ty = ''cash_command'' then handle_cash sha av r m amount d db1
                                else if ty = ''income_command'' then handle_income sha ratio av r m amount d db1
                                else handle_payment sha ratio av r m amount d db1)))"

definition acct_failed :: "acct_env \<Rightarrow> parser_row \<Rightarrow> fpe_message \<Rightarrow> pipe_db \<Rightarrow> bool \<times> pipe_db" where
  \<comment> \<open>the exception handler: its statement 0 is swallowed, its statement 1 is not\<close>
  "acct_failed av r m db =
     (let pd = pr_data r; i = fm_id m; text = pd_get ''amount'' pd;
          row = (unmatched i ''accounting_failed'' (fm_content m))
                  \<lparr>um_amount := to_decimal (present text), um_phone := bd_phone (pd_get ''payout_phone'' pd),
                   um_name := pd_get ''employee_name_raw'' pd, um_method := pd_get ''payout_method'' pd,
                   um_confidence := Some (pr_confidence r)\<rparr>;
          skipped = (raises (ac_fail av) 0 \<or> present text \<noteq> None \<and> to_decimal text = None);
          db1 = (if skipped then db else review_msg row db)
      in if raises (ac_fail av) 1 then (False, db1)
         else (True, on_msg (mark_processing_status (ac_fail av) i PS_failed (Some (take 500 (ac_error av)))) db1))"

definition record_outcome :: "env \<Rightarrow> diag_row \<Rightarrow> pipe_db \<Rightarrow> pipe_db" where
  "record_outcome e row db = (if raises e 0 then db else db\<lparr>pl_diag := pl_diag db @ [row]\<rparr>)"

definition process_parsed_row ::
  "(string \<Rightarrow> string) \<Rightarrow> (string \<Rightarrow> string \<Rightarrow> rat) \<Rightarrow> acct_env \<Rightarrow> parser_row \<Rightarrow> fpe_message \<Rightarrow> pipe_db \<Rightarrow> bool \<times> pipe_db" where
  "process_parsed_row sha ratio av r m db =
     (case acct_body sha ratio av r m db of
        (Ended st why, db1) \<Rightarrow>
          (True, record_outcome (ac_diag av) \<lparr>dg_msg = fm_id m, dg_type = pr_type r, dg_status = st, dg_reason = why\<rparr> db1)
      | (Raised, db1) \<Rightarrow>
          (case acct_failed av r m db1 of
             (go, db2) \<Rightarrow> (go, record_outcome (ac_diag av) \<lparr>dg_msg = fm_id m, dg_type = pr_type r, dg_status = ''failed'',
                               dg_reason = Some (take 200 (ac_error av))\<rparr> db2)))"

definition parsed_batch :: "msg_db \<Rightarrow> (parser_row \<times> fpe_message) list" where
  \<comment> \<open>the join of the three tables\<close>
  "parsed_batch db =
     take BATCH_SIZE
       (concat (map (\<lambda>p. case message_of (ps_msg p) db of
                       None \<Rightarrow> []
                     | Some m \<Rightarrow> map (\<lambda>r. (r, m))
                         (filter (\<lambda>r. pr_msg r = ps_msg p \<and> pr_type r \<in> set ACCOUNTING_TYPES) (md_results db)))
          (sort_key ps_queued (filter (\<lambda>p. ps_status p = PS_parsed \<and> ps_attempts p < MAX_ATTEMPTS) (md_proc db)))))"

fun acct_rows ::
  "(string \<Rightarrow> string) \<Rightarrow> (string \<Rightarrow> string \<Rightarrow> rat) \<Rightarrow> (nat \<Rightarrow> acct_env) \<Rightarrow> nat \<Rightarrow> (parser_row \<times> fpe_message) list \<Rightarrow> pipe_db \<Rightarrow> pipe_db" where
  "acct_rows sha ratio avs n [] db = db"
| "acct_rows sha ratio avs n ((r, m) # rows) db =
     (case process_parsed_row sha ratio (avs n) r m db of
        (True, db1) \<Rightarrow> acct_rows sha ratio avs (n + 1) rows db1
      | (False, db1) \<Rightarrow> db1)"

definition process_parsed_batch ::
  "(string \<Rightarrow> string) \<Rightarrow> (string \<Rightarrow> string \<Rightarrow> rat) \<Rightarrow> env \<Rightarrow> (nat \<Rightarrow> acct_env) \<Rightarrow> pipe_db \<Rightarrow> pipe_db" where
  "process_parsed_batch sha ratio e avs db =
     (if raises e 0 then db else acct_rows sha ratio avs 0 (parsed_batch (pl_msg db)) db)"

subsection \<open>The stages of a message\<close>

definition stage :: "int \<Rightarrow> msg_db \<Rightarrow> (proc_status \<times> nat) option \<times> nat" where
  \<comment> \<open>status and counted attempts of a message, and how many parser results it has\<close>
  "stage i db =
     (map_option (\<lambda>p. (ps_status p, ps_attempts p)) (find (\<lambda>p. ps_msg p = i) (md_proc db)),
      count_where (\<lambda>r. pr_msg r = i) (md_results db))"

definition booked :: "int \<Rightarrow> fpe_db \<Rightarrow> nat" where
  "booked i f = count_where (\<lambda>x. tx_msg x = Some i) (fp_txns f) + count_where (\<lambda>x. in_msg x = Some i) (fp_income f)"

definition level :: "proc_status \<Rightarrow> nat" where
  "level st = (case st of PS_pending \<Rightarrow> 0 | PS_parsing \<Rightarrow> 1 | PS_parsed \<Rightarrow> 2 | PS_accounting \<Rightarrow> 3 | _ \<Rightarrow> 4)"

fun stage_ok :: "(proc_status \<times> nat) option \<times> nat \<Rightarrow> nat \<Rightarrow> bool" where
  "stage_ok (None, n) b \<longleftrightarrow> n = 0 \<and> b = 0"
| "stage_ok (Some (st, a), n) b \<longleftrightarrow> a \<le> level st \<and> n \<le> 1 \<and> b \<le> 1 \<and> (st = PS_pending \<longrightarrow> n = 0)
     \<and> (st \<in> {PS_pending, PS_parsing, PS_parsed} \<longrightarrow> b = 0)"

lemma stage_ok_bounds: "stage_ok x b \<Longrightarrow> snd x \<le> 1 \<and> b \<le> 1"
  by (cases "(x, b)" rule: stage_ok.cases) auto

lemma stage_mark [simp]:
  "stage i (mark_processing_status e j st err db) =
     (if i = j then (map_option (\<lambda>(s, n). (st, Suc n)) (fst (stage i db)), snd (stage i db)) else stage i db)"
proof -
  have "find (\<lambda>p. ps_msg p = i) (update_where (\<lambda>p. ps_msg p = j) f t) =
      map_option (\<lambda>p. if ps_msg p = j then f p else p) (find (\<lambda>p. ps_msg p = i) t)"
    if "\<And>p. ps_msg (f p) = ps_msg p" for f :: "proc_row \<Rightarrow> proc_row" and t
    using that by (rule find_update_where_key)
  note f = this
  show ?thesis
    by (auto simp: stage_def mark_processing_status_def f option.map_comp comp_def dest: find_Some_mem
        intro!: option.map_cong0 split: option.split)
qed

lemma stage_result [simp]:
  "stage i (store_parser_result j ty d c ai db) = (fst (stage i db), if i = j then Suc (snd (stage i db)) else snd (stage i db))"
  by (simp add: stage_def store_parser_result_def count_where_def)

lemma stage_unmatched [simp]: "stage i (store_unmatched row db) = stage i db"
  by (simp add: stage_def store_unmatched_def)

definition same_rows :: "int \<Rightarrow> msg_db \<Rightarrow> msg_db \<Rightarrow> bool" where
  \<comment> \<open>nothing but the rows of one message has changed\<close>
  "same_rows i db db' \<longleftrightarrow> md_msgs db' = md_msgs db \<and> md_next db' = md_next db
     \<and> map ps_msg (md_proc db') = map ps_msg (md_proc db) \<and> (\<forall>j. j \<noteq> i \<longrightarrow> stage j db' = stage j db)"

lemma same_rows_refl [simp]: "same_rows i db db"
  by (simp add: same_rows_def)

lemma same_rows_trans: "same_rows i a b \<Longrightarrow> same_rows i b c \<Longrightarrow> same_rows i a c"
  by (simp add: same_rows_def)

lemma same_rows_stmt [simp]:
  "same_rows i db (mark_processing_status e i st err db)" "same_rows i db (store_parser_result i ty d c ai db)"
  "same_rows i db (store_unmatched row db)"
  by (simp_all add: same_rows_def)
     (simp_all add: mark_processing_status_def store_parser_result_def store_unmatched_def map_key_update_where)

lemma run_stmts_preserves:
  assumes "\<And>f s. f \<in> set fs \<Longrightarrow> R s (f s)" "\<And>s. R s s" "\<And>a b c. R a b \<Longrightarrow> R b c \<Longrightarrow> R a c"
  shows "R s (snd (run_stmts e k fs s))"
  using assms(1)
proof (induction fs arbitrary: k s)
  case Nil
  then show ?case by (simp add: assms(2))
next
  case (Cons f fs)
  then show ?case using assms(2) assms(3) [of s "f s"] by simp
qed

lemma parse_failed_rows: "same_rows (fm_id m) db (snd (parse_failed rw m db))"
  by (auto simp: parse_failed_def Let_def intro: same_rows_trans [OF same_rows_stmt(3) same_rows_stmt(1)])

lemma parse_row_rows: "same_rows (fm_id m) db (snd (process_pending_row parse ai cfg rw m db))"
proof -
  let ?e = "rw_body rw" and ?i = "fm_id m"
  let ?start = "mark_processing_status ?e ?i PS_parsing None"
  have start: "same_rows ?i db (snd (run_stmts ?e 0 [?start] db))" by simp
  have body: "same_rows ?i db (snd (run_stmts ?e 0 (?start # parse_stmts ?e cfg m r used) db))" for r used
    by (rule run_stmts_preserves [of _ "same_rows ?i"]) (auto simp: parse_stmts_def Let_def intro: same_rows_trans split: if_splits)
  show ?thesis
  proof (cases "read_message parse ai m")
    case None
    then show ?thesis
      using same_rows_trans [OF start parse_failed_rows] by (simp add: process_pending_row_def Let_def)
  next
    case (Some x)
    obtain r used where x: "x = (r, used)" by force
    obtain ok db1 where run: "run_stmts ?e 0 (?start # parse_stmts ?e cfg m r used) db = (ok, db1)" by force
    with body [of r used] have "same_rows ?i db db1" by simp
    with same_rows_trans [OF this parse_failed_rows] run Some x show ?thesis
      by (cases ok) (simp_all add: process_pending_row_def Let_def)
  qed
qed

lemma parse_row_stage:
  assumes "stage (fm_id m) db = (Some (PS_pending, a), n)" "stage_ok (Some (PS_pending, a), n) b"
  shows "stage_ok (stage (fm_id m) (snd (process_pending_row parse ai cfg rw m db))) b"
proof (cases "read_message parse ai m")
  case None
  with assms show ?thesis by (auto simp: process_pending_row_def parse_failed_def Let_def level_def)
next
  case (Some x)
  with assms show ?thesis
    by (cases x) (auto simp: process_pending_row_def parse_failed_def parse_stmts_def Let_def level_def)
qed

subsection \<open>What booking does to a message\<close>

definition same_pipe :: "int \<Rightarrow> pipe_db \<Rightarrow> pipe_db \<Rightarrow> bool" where
  "same_pipe i db db' \<longleftrightarrow> same_rows i (pl_msg db) (pl_msg db') \<and> (\<forall>j. j \<noteq> i \<longrightarrow> booked j (pl_fpe db') = booked j (pl_fpe db))"

lemma same_pipe_refl [simp]: "same_pipe i db db"
  by (simp add: same_pipe_def)

lemma same_pipe_trans: "same_pipe i a b \<Longrightarrow> same_pipe i b c \<Longrightarrow> same_pipe i a c"
  by (auto simp: same_pipe_def intro: same_rows_trans)

lemma pipe_stmt_simps [simp]:
  "pl_fpe (mark_msg av i st err db) = pl_fpe db" "pl_fpe (review_msg row db) = pl_fpe db" "pl_fpe (on_msg f db) = pl_fpe db"
  "pl_msg (mark_msg av i st err db) = mark_processing_status (ac_body av) i st err (pl_msg db)"
  "pl_msg (review_msg row db) = store_unmatched row (pl_msg db)" "pl_msg (on_msg f db) = f (pl_msg db)"
  by (simp_all add: mark_msg_def review_msg_def on_msg_def)

lemma record_outcome_simps [simp]:
  "pl_fpe (record_outcome e row db) = pl_fpe db" "pl_msg (record_outcome e row db) = pl_msg db"
  by (simp_all add: record_outcome_def)

lemma create_books:
  assumes "rq_msg req = Some i"
  shows "booked i (snd (create_transaction sha e req f)) \<le> Suc (booked i f)"
    and "j \<noteq> i \<Longrightarrow> booked j (snd (create_transaction sha e req f)) = booked j f"
proof -
  have "fp_income (snd (create_transaction sha e req f)) = fp_income f \<and>
     (fp_txns (snd (create_transaction sha e req f)) = fp_txns f
      \<or> (\<exists>x. tx_msg x = rq_msg req \<and> fp_txns (snd (create_transaction sha e req f)) = fp_txns f @ [x]))"
    by (auto simp: create_transaction_def Let_def split: option.split)
  then show "booked i (snd (create_transaction sha e req f)) \<le> Suc (booked i f)"
    "j \<noteq> i \<Longrightarrow> booked j (snd (create_transaction sha e req f)) = booked j f"
    using assms by (auto simp: booked_def count_where_def)
qed

lemma income_books:
  "booked i (snd (create_income_transaction sha e (Some i) emp name a d ph tx f)) \<le> Suc (booked i f)"
  "j \<noteq> i \<Longrightarrow> booked j (snd (create_income_transaction sha e (Some i) emp name a d ph tx f)) = booked j f"
  by (auto simp: create_income_transaction_def booked_def count_where_def Let_def split: option.split)

lemma run_stmts_append:
  "run_stmts e k (fs @ gs) s = (case run_stmts e k fs s of (True, s1) \<Rightarrow> run_stmts e (k + length fs) gs s1 | (False, s1) \<Rightarrow> (False, s1))"
  by (induction fs arbitrary: k s) (simp_all split: prod.split bool.split)

definition quiet_stmt :: "int \<Rightarrow> (pipe_db \<Rightarrow> pipe_db) \<Rightarrow> bool" where
  \<comment> \<open>a statement that changes no stage and no account\<close>
  "quiet_stmt i f \<longleftrightarrow> (\<forall>db. stage i (pl_msg (f db)) = stage i (pl_msg db) \<and> pl_fpe (f db) = pl_fpe db \<and> same_pipe i db (f db))"

lemma quiet_review [simp]: "quiet_stmt i (review_msg row)"
  by (simp add: quiet_stmt_def same_pipe_def)

lemma quiet_draft [simp]: "quiet_stmt i (\<lambda>db. db\<lparr>pl_drafts := pl_drafts db @ [x]\<rparr>)"
  by (simp add: quiet_stmt_def same_pipe_def)

definition acct_post :: "int \<Rightarrow> nat \<Rightarrow> nat \<Rightarrow> pipe_db \<Rightarrow> outcome \<times> pipe_db \<Rightarrow> bool" where
  "acct_post i a n db x \<longleftrightarrow> same_pipe i db (snd x) \<and> booked i (pl_fpe (snd x)) \<le> 1 \<and>
     (case fst x of
        Ended st why \<Rightarrow> (\<exists>st\<in>{PS_done, PS_skipped, PS_failed}. stage i (pl_msg (snd x)) = (Some (st, a + 2), n))
      | Raised \<Rightarrow> stage i (pl_msg (snd x)) = (Some (PS_accounting, a + 1), n))"

lemma finish_post:
  assumes "stage i (pl_msg db) = (Some (PS_accounting, a + 1), n)" "booked i (pl_fpe db) \<le> 1" "same_pipe i db0 db"
    and "\<And>f. f \<in> set fs \<Longrightarrow> quiet_stmt i f" "st \<in> {PS_done, PS_skipped, PS_failed}"
  shows "acct_post i a n db0 (finish av k (fs @ [mark_msg av i st err]) w why db)"
proof -
  obtain ok db1 where run: "run_stmts (ac_body av) k fs db = (ok, db1)" by force
  let ?R = "\<lambda>s t. stage i (pl_msg t) = stage i (pl_msg s) \<and> pl_fpe t = pl_fpe s \<and> same_pipe i s t"
  have "?R db (snd (run_stmts (ac_body av) k fs db))"
    by (rule run_stmts_preserves [of fs ?R]) (use assms(4) in \<open>auto simp: quiet_stmt_def intro: same_pipe_trans\<close>)
  then have q: "stage i (pl_msg db1) = (Some (PS_accounting, a + 1), n)" "booked i (pl_fpe db1) \<le> 1" "same_pipe i db0 db1"
    using run assms(1-3) by (auto intro: same_pipe_trans)
  have "same_pipe i db1 (mark_msg av i st err db1)" by (simp add: same_pipe_def)
  with q same_pipe_trans [OF q(3) this] assms(5) run show ?thesis
    by (cases ok) (auto simp: finish_def run_stmts_append acct_post_def)
qed

lemma finish_mark_post:
  assumes "stage i (pl_msg db) = (Some (PS_accounting, a + 1), n)" "booked i (pl_fpe db) \<le> 1" "same_pipe i db0 db"
    and "st \<in> {PS_done, PS_skipped, PS_failed}"
  shows "acct_post i a n db0 (finish av k [mark_msg av i st err] w why db)"
    and "acct_post i a n db0 (finish av k [review_msg row, mark_msg av i st err] w why db)"
  using finish_post [OF assms(1-3), of "[]" st av k err w why] finish_post [OF assms(1-3), of "[review_msg row]" st av k err w why] assms(4)
  by simp_all

lemma book_post:
  assumes "stage i (pl_msg db) = (Some (PS_accounting, a + 1), n)" "booked i (pl_fpe db) = 0" "same_pipe i db0 db" "rq_msg req = Some i"
  shows "acct_post i a n db0 (book sha av i req db)"
proof -
  obtain r f where c: "create_transaction sha (ac_txn av) req (pl_fpe db) = (r, f)" by force
  have b: "booked i f \<le> 1" "\<And>j. j \<noteq> i \<Longrightarrow> booked j f = booked j (pl_fpe db)"
    using create_books [OF assms(4), where sha = sha and e = "ac_txn av" and f = "pl_fpe db"] assms(2) c by auto
  have s: "same_pipe i db0 (db\<lparr>pl_fpe := f\<rparr>)"
    by (rule same_pipe_trans [OF assms(3)]) (simp add: same_pipe_def b(2))
  show ?thesis
  proof (cases r)
    case (Inl x)
    with c b(1) s assms(1) show ?thesis by (simp add: book_def acct_post_def)
  next
    case (Inr x)
    with c finish_mark_post(1) [OF _ _ s, of a n PS_done av 1 None] b(1) assms(1) show ?thesis by (simp add: book_def)
  qed
qed

lemma ident_same_pipe [simp]: "same_pipe i db0 (db\<lparr>pl_ident := x\<rparr>) = same_pipe i db0 db"
  by (simp add: same_pipe_def)

lemma handle_cash_post:
  assumes "stage (fm_id m) (pl_msg db) = (Some (PS_accounting, a + 1), n)" "booked (fm_id m) (pl_fpe db) = 0" "same_pipe (fm_id m) db0 db"
  shows "acct_post (fm_id m) a n db0 (handle_cash sha av r m amount d db)"
  using assms finish_mark_post(2) [OF assms(1) _ assms(3)] book_post [OF assms]
  by (auto simp: handle_cash_def Let_def txn_request_of_def acct_post_def [of _ _ _ _ "(Raised, db)"] split: option.split)

lemma handle_payment_post:
  assumes "stage (fm_id m) (pl_msg db) = (Some (PS_accounting, a + 1), n)" "booked (fm_id m) (pl_fpe db) = 0" "same_pipe (fm_id m) db0 db"
  shows "acct_post (fm_id m) a n db0 (handle_payment sha ratio av r m amount d db)"
proof -
  have st: "stage (fm_id m) (pl_msg (db\<lparr>pl_ident := x\<rparr>)) = (Some (PS_accounting, a + 1), n)"
      "booked (fm_id m) (pl_fpe (db\<lparr>pl_ident := x\<rparr>)) = 0" "same_pipe (fm_id m) db0 (db\<lparr>pl_ident := x\<rparr>)" for x
    using assms by simp_all
  show ?thesis
    using assms finish_mark_post [OF assms(1) _ assms(3)] finish_mark_post(2) [OF st(1) _ st(3)] book_post [OF st]
    by (auto simp: handle_payment_def Let_def txn_request_of_def acct_post_def [of _ _ _ _ "(Raised, _)"]
        split: option.split prod.split sum.split)
qed

lemma handle_income_post:
  assumes "stage (fm_id m) (pl_msg db) = (Some (PS_accounting, a + 1), n)" "booked (fm_id m) (pl_fpe db) = 0" "same_pipe (fm_id m) db0 db"
  shows "acct_post (fm_id m) a n db0 (handle_income sha ratio av r m amount d db)"
proof -
  have st: "stage (fm_id m) (pl_msg (db\<lparr>pl_ident := x, pl_fpe := f\<rparr>)) = (Some (PS_accounting, a + 1), n)" for x f
    using assms by simp
  have bk: "booked (fm_id m) f \<le> 1" "same_pipe (fm_id m) db0 (db\<lparr>pl_ident := x, pl_fpe := f\<rparr>)"
    if "create_income_transaction sha e (Some (fm_id m)) emp name amount d ph tx (pl_fpe db) = (y, f)" for x f e emp name ph tx y
  proof -
    have b: "booked (fm_id m) f \<le> Suc (booked (fm_id m) (pl_fpe db))" "\<And>j. j \<noteq> fm_id m \<Longrightarrow> booked j f = booked j (pl_fpe db)"
      using income_books [where i = "fm_id m" and sha = sha and e = e and emp = emp and name = name and a = amount and d = d
          and ph = ph and tx = tx and f = "pl_fpe db"] that by auto
    then show "booked (fm_id m) f \<le> 1" using assms(2) by simp
    show "same_pipe (fm_id m) db0 (db\<lparr>pl_ident := x, pl_fpe := f\<rparr>)"
      by (rule same_pipe_trans [OF assms(3)]) (simp add: same_pipe_def b(2))
  qed
  show ?thesis
    using assms st finish_mark_post(1) [OF st _ bk(2)] bk
    by (auto simp: handle_income_def Let_def acct_post_def [of _ _ _ _ "(Raised, _)"] split: prod.split sum.split)
qed

lemma handle_escort_post:
  assumes "stage (fm_id m) (pl_msg db) = (Some (PS_accounting, a + 1), n)" "booked (fm_id m) (pl_fpe db) = 0" "same_pipe (fm_id m) db0 db"
  shows "acct_post (fm_id m) a n db0 (handle_escort_payment av r m db)"
proof -
  have "acct_post (fm_id m) a n db0 (finish av 1 (map (\<lambda>x db. db\<lparr>pl_drafts := pl_drafts db @ [x]\<rparr>) xs
      @ [mark_msg av (fm_id m) PS_done None]) ''done'' None db)" for xs
    by (rule finish_post [OF assms(1) _ assms(3)]) (use assms(2) in auto)
  with assms finish_mark_post(1) [OF assms(1) _ assms(3)] show ?thesis
    by (simp add: handle_escort_payment_def Let_def)
qed

lemma acct_body_post:
  assumes "stage (fm_id m) (pl_msg db) = (Some (PS_parsed, a), n)" "booked (fm_id m) (pl_fpe db) = 0" "\<not> raises (ac_body av) 0"
  shows "acct_post (fm_id m) a n db (acct_body sha ratio av r m db)"
proof -
  let ?db = "mark_msg av (fm_id m) PS_accounting None db"
  have st: "stage (fm_id m) (pl_msg ?db) = (Some (PS_accounting, a + 1), n)" "booked (fm_id m) (pl_fpe ?db) = 0" "same_pipe (fm_id m) db ?db"
    using assms by (simp_all add: same_pipe_def)
  show ?thesis
    using assms(3) st finish_mark_post(2) [OF st(1) _ st(3)] handle_cash_post [OF st] handle_income_post [OF st]
      handle_payment_post [OF st] handle_escort_post [OF st]
    by (auto simp: acct_body_def Let_def acct_post_def [of _ _ _ _ "(Raised, _)"] split: validation.split option.split)
qed

lemma acct_failed_same: "same_pipe (fm_id m) db (snd (acct_failed av r m db))"
  by (auto simp: acct_failed_def Let_def same_pipe_def intro: same_rows_trans [OF same_rows_stmt(3) same_rows_stmt(1)])

lemma acct_failed_stage:
  "stage (fm_id m) (pl_msg (snd (acct_failed av r m db))) =
     (if raises (ac_fail av) 1 then stage (fm_id m) (pl_msg db)
      else (map_option (\<lambda>(s, k). (PS_failed, Suc k)) (fst (stage (fm_id m) (pl_msg db))), snd (stage (fm_id m) (pl_msg db))))"
  "pl_fpe (snd (acct_failed av r m db)) = pl_fpe db"
  by (simp_all add: acct_failed_def Let_def)

lemma acct_row_ok:
  assumes "stage (fm_id m) (pl_msg db) = (Some (PS_parsed, a), n)" "stage_ok (Some (PS_parsed, a), n) (booked (fm_id m) (pl_fpe db))"
  shows "same_pipe (fm_id m) db (snd (process_parsed_row sha ratio av r m db))
    \<and> stage_ok (stage (fm_id m) (pl_msg (snd (process_parsed_row sha ratio av r m db))))
        (booked (fm_id m) (pl_fpe (snd (process_parsed_row sha ratio av r m db))))"
proof -
  have an: "a \<le> 2" "n \<le> 1" "booked (fm_id m) (pl_fpe db) = 0" using assms(2) by (simp_all add: level_def)
  obtain out db1 where run: "acct_body sha ratio av r m db = (out, db1)" by force
  show ?thesis
  proof (cases "raises (ac_body av) 0")
    case True
    then have "out = Raised" "db1 = db" using run by (simp_all add: acct_body_def)
    with run an assms(1) acct_failed_same [of m db av r] show ?thesis
      by (auto simp: process_parsed_row_def same_pipe_def acct_failed_stage level_def split_def)
  next
    case False
    have post: "acct_post (fm_id m) a n db (out, db1)" using acct_body_post [OF assms(1) an(3) False, of sha ratio r] run by simp
    show ?thesis
    proof (cases out)
      case (Ended st why)
      with post an run show ?thesis
        by (auto simp: process_parsed_row_def acct_post_def same_pipe_def level_def)
    next
      case Raised
      with post have p: "same_pipe (fm_id m) db db1" "booked (fm_id m) (pl_fpe db1) \<le> 1" "stage (fm_id m) (pl_msg db1) = (Some (PS_accounting, a + 1), n)"
        by (simp_all add: acct_post_def)
      from same_pipe_trans [OF p(1) acct_failed_same, of av r] p an run Raised show ?thesis
        by (auto simp: process_parsed_row_def same_pipe_def acct_failed_stage level_def split_def)
    qed
  qed
qed

subsection \<open>Runs of the pipeline\<close>

definition pipe_inv :: "pipe_db \<Rightarrow> bool" where
  "pipe_inv db \<longleftrightarrow> distinct (map ps_msg (md_proc (pl_msg db))) \<and> (\<forall>i\<in>set (map ps_msg (md_proc (pl_msg db))). i < md_next (pl_msg db))
     \<and> (\<forall>i. stage_ok (stage i (pl_msg db)) (booked i (pl_fpe db)))"

lemma pipe_inv_row:
  assumes "pipe_inv db" "same_pipe i db db'" "stage_ok (stage i (pl_msg db')) (booked i (pl_fpe db'))"
  shows "pipe_inv db'"
proof -
  have "stage_ok (stage j (pl_msg db')) (booked j (pl_fpe db'))" for j
    using assms by (cases "j = i") (auto simp: pipe_inv_def same_pipe_def same_rows_def)
  with assms(1,2) show ?thesis by (simp add: pipe_inv_def same_pipe_def same_rows_def)
qed

lemma parse_rows_inv:
  assumes "pipe_inv db" "distinct (map fm_id ms)" "\<And>m. m \<in> set ms \<Longrightarrow> \<exists>a n. stage (fm_id m) (pl_msg db) = (Some (PS_pending, a), n)"
  shows "pipe_inv (db\<lparr>pl_msg := parse_rows parse ai cfg rws ms (pl_msg db)\<rparr>)"
  using assms
proof (induction ms arbitrary: db)
  case Nil
  then show ?case by simp
next
  case (Cons m ms)
  obtain a n where st: "stage (fm_id m) (pl_msg db) = (Some (PS_pending, a), n)" using Cons.prems(3) by force
  obtain go d where run: "process_pending_row parse ai cfg (rws (fm_id m)) m (pl_msg db) = (go, d)" by force
  let ?db = "db\<lparr>pl_msg := d\<rparr>"
  have same: "same_rows (fm_id m) (pl_msg db) d" using parse_row_rows [of m "pl_msg db" parse ai cfg "rws (fm_id m)"] run by simp
  have "stage_ok (stage (fm_id m) (pl_msg db)) (booked (fm_id m) (pl_fpe db))" using Cons.prems(1) by (simp add: pipe_inv_def)
  then have "stage_ok (stage (fm_id m) d) (booked (fm_id m) (pl_fpe db))"
    using parse_row_stage [OF st, of _ parse ai cfg "rws (fm_id m)"] st run by simp
  with same have inv: "pipe_inv ?db" by (intro pipe_inv_row [OF Cons.prems(1), of "fm_id m"]) (simp_all add: same_pipe_def)
  have "\<exists>a n. stage (fm_id k) (pl_msg ?db) = (Some (PS_pending, a), n)" if "k \<in> set ms" for k
  proof -
    have "fm_id k \<noteq> fm_id m" using Cons.prems(2) imageI [OF that, of fm_id] by auto
    with same have "stage (fm_id k) d = stage (fm_id k) (pl_msg db)" by (simp add: same_rows_def)
    with Cons.prems(3) [of k] that show ?thesis by simp
  qed
  from Cons.IH [OF inv _ this] Cons.prems(2) inv run show ?case by (cases go) simp_all
qed

lemma acct_rows_inv:
  assumes "pipe_inv db" "distinct (map (\<lambda>(r, m). fm_id m) rows)"
    and "\<And>r m. (r, m) \<in> set rows \<Longrightarrow> \<exists>a n. stage (fm_id m) (pl_msg db) = (Some (PS_parsed, a), n)"
  shows "pipe_inv (acct_rows sha ratio avs k rows db)"
  using assms
proof (induction rows arbitrary: db k)
  case Nil
  then show ?case by simp
next
  case (Cons x rows)
  obtain r m where x: "x = (r, m)" by force
  obtain a n where st: "stage (fm_id m) (pl_msg db) = (Some (PS_parsed, a), n)" using Cons.prems(3) x by force
  obtain go d where run: "process_parsed_row sha ratio (avs k) r m db = (go, d)" by force
  have "stage_ok (Some (PS_parsed, a), n) (booked (fm_id m) (pl_fpe db))" using Cons.prems(1) st unfolding pipe_inv_def by metis
  from acct_row_ok [OF st this, of sha ratio "avs k" r] run
  have same: "same_pipe (fm_id m) db d" and ok: "stage_ok (stage (fm_id m) (pl_msg d)) (booked (fm_id m) (pl_fpe d))" by auto
  have inv: "pipe_inv d" by (rule pipe_inv_row [OF Cons.prems(1) same ok])
  have "\<exists>a n. stage (fm_id m') (pl_msg d) = (Some (PS_parsed, a), n)" if "(r', m') \<in> set rows" for r' m'
  proof -
    have "fm_id m' \<noteq> fm_id m" using Cons.prems(2) that x by force
    with same have "stage (fm_id m') (pl_msg d) = stage (fm_id m') (pl_msg db)" by (simp add: same_pipe_def same_rows_def)
    with Cons.prems(3) [of r' m'] that show ?thesis by simp
  qed
  from Cons.IH [OF inv _ this] Cons.prems(2) inv run x show ?case by (cases go) simp_all
qed

lemma map_filter_messages:
  "map fm_id (List.map_filter (\<lambda>p. message_of (ps_msg p) db) ps) = map ps_msg (filter (\<lambda>p. message_of (ps_msg p) db \<noteq> None) ps)"
  by (induction ps) (auto simp: List.map_filter_def message_of_def dest: find_Some_mem split: option.split)

lemma distinct_sorted_filter: "distinct (map f t) \<Longrightarrow> distinct (map f (sort_key g (filter P t)))"
  by (auto simp: distinct_map intro: inj_on_subset)

lemma proc_stage: "distinct (map ps_msg (md_proc db)) \<Longrightarrow> p \<in> set (md_proc db) \<Longrightarrow> fst (stage (ps_msg p) db) = Some (ps_status p, ps_attempts p)"
  using find_key_unique [of ps_msg "md_proc db" p] by (simp add: stage_def)

lemma pending_batch_distinct:
  assumes "distinct (map ps_msg (md_proc db))"
  shows "distinct (map fm_id (pending_batch db))"
  using distinct_sorted_filter [OF assms, of ps_queued]
  by (simp add: pending_batch_def take_map [symmetric] map_filter_messages distinct_map_filter)

lemma pending_batch_stage:
  assumes "distinct (map ps_msg (md_proc db))" "m \<in> set (pending_batch db)"
  shows "\<exists>a n. stage (fm_id m) db = (Some (PS_pending, a), n)"
proof -
  obtain p where p: "p \<in> set (md_proc db)" "ps_status p = PS_pending" "message_of (ps_msg p) db = Some m"
    using in_set_takeD [OF assms(2) [unfolded pending_batch_def]] by (auto simp: List.map_filter_def)
  then have "fm_id m = ps_msg p" by (auto simp: message_of_def dest: find_Some_mem)
  then have "fst (stage (fm_id m) db) = Some (PS_pending, ps_attempts p)" using proc_stage [OF assms(1) p(1)] p(2) by simp
  then show ?thesis by (cases "stage (fm_id m) db") auto
qed

lemma distinct_concat_keys:
  assumes "distinct (map f ps)" "\<And>p. p \<in> set ps \<Longrightarrow> length (g p) \<le> 1 \<and> (\<forall>x\<in>set (g p). k x = f p)"
  shows "distinct (map k (concat (map g ps)))"
  using assms
proof (induction ps)
  case Nil
  then show ?case by simp
next
  case (Cons p ps)
  have "distinct (map k (g p))" using Cons.prems(2) [of p] by (cases "g p") auto
  moreover have "k x \<noteq> k y" if xy: "x \<in> set (g p)" "q \<in> set ps" "y \<in> set (g q)" for x y q
  proof -
    have "k x = f p" "k y = f q" using Cons.prems(2) xy by auto
    moreover have "f p \<noteq> f q" using Cons.prems(1) xy(2) by auto
    ultimately show ?thesis by simp
  qed
  ultimately show ?case using Cons by fastforce
qed

lemma parsed_batch_distinct:
  assumes "pipe_inv db"
  shows "distinct (map (\<lambda>(r, m). fm_id m) (parsed_batch (pl_msg db)))"
proof -
  let ?g = "\<lambda>p. case message_of (ps_msg p) (pl_msg db) of None \<Rightarrow> []
     | Some m \<Rightarrow> map (\<lambda>r. (r, m)) (filter (\<lambda>r. pr_msg r = ps_msg p \<and> pr_type r \<in> set ACCOUNTING_TYPES) (md_results (pl_msg db)))"
  let ?ps = "sort_key ps_queued (filter (\<lambda>p. ps_status p = PS_parsed \<and> ps_attempts p < MAX_ATTEMPTS) (md_proc (pl_msg db)))"
  have d: "distinct (map ps_msg ?ps)" using assms by (intro distinct_sorted_filter) (simp add: pipe_inv_def)
  have "length (?g p) \<le> 1 \<and> (\<forall>x\<in>set (?g p). (\<lambda>(r, m). fm_id m) x = ps_msg p)" for p
  proof -
    have "stage_ok (stage (ps_msg p) (pl_msg db)) (booked (ps_msg p) (pl_fpe db))" using assms by (simp add: pipe_inv_def)
    then have "snd (stage (ps_msg p) (pl_msg db)) \<le> 1" using stage_ok_bounds by blast
    then have one: "length (filter (\<lambda>r. pr_msg r = ps_msg p) (md_results (pl_msg db))) \<le> 1" by (simp add: stage_def count_where_def)
    have "length (filter (\<lambda>r. pr_msg r = ps_msg p \<and> Q r) t) \<le> length (filter (\<lambda>r. pr_msg r = ps_msg p) t)"
      for Q and t :: "parser_row list"
      by (induction t) auto
    from le_trans [OF this one]
    have "length (filter (\<lambda>r. pr_msg r = ps_msg p \<and> Q r) (md_results (pl_msg db))) \<le> 1" for Q .
    then show ?thesis by (auto simp: message_of_def dest: find_Some_mem split: option.split)
  qed
  from distinct_concat_keys [OF d this] have "distinct (map (\<lambda>(r, m). fm_id m) (concat (map ?g ?ps)))" .
  then show ?thesis unfolding parsed_batch_def by (simp add: take_map [symmetric])
qed

lemma parsed_batch_stage:
  assumes "distinct (map ps_msg (md_proc db))" "(r, m) \<in> set (parsed_batch db)"
  shows "\<exists>a n. stage (fm_id m) db = (Some (PS_parsed, a), n)"
proof -
  obtain p where p: "p \<in> set (md_proc db)" "ps_status p = PS_parsed" "message_of (ps_msg p) db = Some m"
    using in_set_takeD [OF assms(2) [unfolded parsed_batch_def]] by (auto split: option.splits)
  then have "fm_id m = ps_msg p" by (auto simp: message_of_def dest: find_Some_mem)
  then have "fst (stage (fm_id m) db) = Some (PS_parsed, ps_attempts p)" using proc_stage [OF assms(1) p(1)] p(2) by simp
  then show ?thesis by (cases "stage (fm_id m) db") auto
qed

lemma ingest_inv:
  assumes "pipe_inv db"
  shows "pipe_inv (db\<lparr>pl_msg := snd (ingest_message e rq (pl_msg db))\<rparr>)"
proof -
  let ?d = "pl_msg db" and ?i = "md_next (pl_msg db)"
  have no: "find (\<lambda>p. ps_msg p = ?i) (md_proc ?d) = None" using assms by (auto simp: pipe_inv_def find_None_iff_all)
  then have "fst (stage ?i ?d) = None" by (simp add: stage_def)
  moreover have ok: "stage_ok (stage i ?d) (booked i (pl_fpe db))" for i using assms by (simp add: pipe_inv_def)
  ultimately have zero: "snd (stage ?i ?d) = 0" "booked ?i (pl_fpe db) = 0"
    using ok [of ?i] by (cases "stage ?i ?d"; simp)+
  let ?db1 = "?d\<lparr>md_next := ?i + 1, md_msgs := md_msgs ?d @ [new_message ?i rq]\<rparr>"
  let ?db2 = "?db1\<lparr>md_proc := md_proc ?d @ [new_proc e ?i]\<rparr>"
  have 1: "pipe_inv (db\<lparr>pl_msg := ?db1\<rparr>)" using assms by (force simp: pipe_inv_def stage_def)
  have "stage j ?db2 = (if j = ?i then (Some (PS_pending, 0), 0) else stage j ?d)" for j
    using no zero(1) by (auto simp: stage_def find_append new_proc_def split: option.split)
  then have "stage_ok (stage j ?db2) (booked j (pl_fpe db))" for j using ok zero(2) by (simp add: level_def)
  then have 2: "pipe_inv (db\<lparr>pl_msg := ?db2\<rparr>)" using assms by (force simp: pipe_inv_def new_proc_def)
  show ?thesis using assms 1 2 by (auto simp: ingest_message_def Let_def)
qed

inductive pipe_step :: "pipe_db \<Rightarrow> pipe_db \<Rightarrow> bool" where
  ingested: "pipe_step db (db\<lparr>pl_msg := snd (ingest_message e rq (pl_msg db))\<rparr>)"
| parsed: "pipe_step db (db\<lparr>pl_msg := process_pending_batch parse ai cfg e rws (pl_msg db)\<rparr>)"
| accounted: "pipe_step db (process_parsed_batch sha ratio e avs db)"
| identity: "pipe_step db (db\<lparr>pl_ident := x, pl_programs := ps\<rparr>)"

definition pipe_start :: "pipe_db \<Rightarrow> bool" where
  "pipe_start db \<longleftrightarrow> md_proc (pl_msg db) = [] \<and> md_results (pl_msg db) = [] \<and> fp_txns (pl_fpe db) = [] \<and> fp_income (pl_fpe db) = []"

interpretation pipe_system: invariant_system pipe_start pipe_step pipe_inv
proof unfold_locales
  show "pipe_start s \<Longrightarrow> pipe_inv s" for s
    by (simp add: pipe_start_def pipe_inv_def stage_def booked_def count_where_def)
  show "pipe_step s t \<Longrightarrow> pipe_inv s \<Longrightarrow> pipe_inv t" for s t
  proof (induction rule: pipe_step.induct)
    case (ingested db e rq)
    then show ?case by (rule ingest_inv)
  next
    case (parsed db parse ai cfg e rws)
    then have d: "distinct (map ps_msg (md_proc (pl_msg db)))" by (simp add: pipe_inv_def)
    from parse_rows_inv [OF parsed pending_batch_distinct [OF d] pending_batch_stage [OF d]] parsed show ?case
      by (simp add: process_pending_batch_def)
  next
    case (accounted db sha ratio e avs)
    then have d: "distinct (map ps_msg (md_proc (pl_msg db)))" by (simp add: pipe_inv_def)
    from acct_rows_inv [OF accounted parsed_batch_distinct [OF accounted] parsed_batch_stage [OF d]] accounted show ?case
      by (simp add: process_parsed_batch_def)
  next
    case (identity db x ps)
    then show ?case by (simp add: pipe_inv_def)
  qed
qed

text \<open>
  C7: A message is booked at most once, and the dead-letter list stays empty. Over any sequence of
  deliveries and batches of the two workers, with statements failing at any point, a message has at
  most one parser result and at most one booking, and none before it has reached the accounting
  stage. The counter of attempts, which every change of status increments, never exceeds four; so no
  message is ever in the state the dead-letter list asks for, failed with five attempts or more, and
  the limit of the two workers excludes no message.
\<close>

theorem booked_at_most_once:
  assumes "reach pipe_start pipe_step db"
  shows "booked i (pl_fpe db) \<le> 1 \<and> count_where (\<lambda>r. pr_msg r = i) (md_results (pl_msg db)) \<le> 1
    \<and> (\<forall>p\<in>set (md_proc (pl_msg db)).
         ps_attempts p \<le> 4 \<and> (ps_status p \<in> {PS_pending, PS_parsing, PS_parsed} \<longrightarrow> booked (ps_msg p) (pl_fpe db) = 0))
    \<and> \<not> has_row (\<lambda>p. ps_status p = PS_failed \<and> 5 \<le> ps_attempts p) (md_proc (pl_msg db))"
proof -
  have inv: "pipe_inv db" by (rule pipe_system.reach_inv [OF assms])
  then have ok: "stage_ok (stage j (pl_msg db)) (booked j (pl_fpe db))" for j by (simp add: pipe_inv_def)
  have one: "booked i (pl_fpe db) \<le> 1 \<and> snd (stage i (pl_msg db)) \<le> 1"
    using stage_ok_bounds [OF ok [of i]] by simp
  have "ps_attempts p \<le> 4 \<and> (ps_status p \<in> {PS_pending, PS_parsing, PS_parsed} \<longrightarrow> booked (ps_msg p) (pl_fpe db) = 0)"
    if "p \<in> set (md_proc (pl_msg db))" for p
  proof -
    have "fst (stage (ps_msg p) (pl_msg db)) = Some (ps_status p, ps_attempts p)"
      using inv proc_stage [OF _ that] by (simp add: pipe_inv_def)
    then obtain n where "stage (ps_msg p) (pl_msg db) = (Some (ps_status p, ps_attempts p), n)" by (metis prod.collapse)
    with ok [of "ps_msg p"] show ?thesis by (cases "ps_status p") (auto simp: level_def)
  qed
  with one show ?thesis by (fastforce simp: stage_def has_row_iff)
qed

subsection \<open>No detected money is lost\<close>

definition recorded :: "(string \<Rightarrow> string) \<Rightarrow> int \<Rightarrow> decimal \<Rightarrow> fpe_db \<Rightarrow> bool" where
  \<comment> \<open>the accounts hold the transaction, or the income, of the message and amount\<close>
  "recorded sha i a f \<longleftrightarrow>
     (\<exists>req. rq_msg req = Some i \<and> rq_amount req = a
        \<and> has_row (\<lambda>x. tx_ref x = build_txn_ref sha req (request_period req)) (fp_txns f))
     \<or> (\<exists>emp d. has_row (\<lambda>x. in_ref x = income_ref sha (Some i) emp a (period_from_date d)) (fp_income f))"

definition in_review :: "int \<Rightarrow> decimal \<Rightarrow> pipe_db \<Rightarrow> pipe_db \<Rightarrow> bool" where
  \<comment> \<open>a row of the message and amount has been added to the review queue\<close>
  "in_review i a db db' \<longleftrightarrow>
     has_row (\<lambda>u. um_msg u = i \<and> um_amount u = Some a)
       (drop (length (md_unmatched (pl_msg db))) (md_unmatched (pl_msg db')))"

definition gains :: "pipe_db \<Rightarrow> pipe_db \<Rightarrow> bool" where
  "gains db db' \<longleftrightarrow> (\<exists>us. md_unmatched (pl_msg db') = md_unmatched (pl_msg db) @ us)"

lemma unmatched_simps [simp]:
  "md_unmatched (mark_processing_status e i st err d) = md_unmatched d"
  "md_unmatched (store_unmatched u d) = md_unmatched d @ [u]"
  by (simp_all add: mark_processing_status_def store_unmatched_def)

lemma gains_refl [simp]: "gains db db"
  by (simp add: gains_def)

lemma gains_trans: "gains a b \<Longrightarrow> gains b c \<Longrightarrow> gains a c"
  by (auto simp: gains_def)

lemma gains_frame [simp]:
  "gains db (db'\<lparr>pl_fpe := f\<rparr>) = gains db db'" "gains db (db'\<lparr>pl_ident := x\<rparr>) = gains db db'"
  "gains db (mark_msg av i st err db') = gains db db'"
  by (simp_all add: gains_def)

lemma gains_review: "gains db db' \<Longrightarrow> gains db (review_msg u db')"
  by (auto simp: gains_def)

lemma review_noted: "gains db db' \<Longrightarrow> um_msg u = i \<Longrightarrow> um_amount u = Some a \<Longrightarrow> in_review i a db (review_msg u db')"
  by (auto simp: gains_def in_review_def has_row_def)

lemma in_review_frame [simp]:
  "in_review i a db (mark_msg av j st err db') = in_review i a db db'" "in_review i a db (record_outcome e w db') = in_review i a db db'"
  "in_review i a db (on_msg (mark_processing_status e j st err) db') = in_review i a db db'"
  by (simp_all add: in_review_def)

definition settles :: "(string \<Rightarrow> string) \<Rightarrow> int \<Rightarrow> decimal \<Rightarrow> pipe_db \<Rightarrow> outcome \<times> pipe_db \<Rightarrow> bool" where
  "settles sha i a db x \<longleftrightarrow> gains db (snd x) \<and>
     (case fst x of Ended _ _ \<Rightarrow> recorded sha i a (pl_fpe (snd x)) \<or> in_review i a db (snd x) | Raised \<Rightarrow> True)"

lemma settles_raised [simp]: "settles sha i a db (Raised, db') = gains db db'"
  by (simp add: settles_def)

lemma create_recorded:
  assumes "create_transaction sha e req f = (Inr row, f')" "rq_msg req = Some i" "rq_amount req = a"
  shows "recorded sha i a f'"
proof -
  have "has_row (\<lambda>x. tx_ref x = build_txn_ref sha req (request_period req)) (fp_txns f')"
    using assms(1)
    by (auto simp: create_transaction_def Let_def has_row_iff dest: find_Some_mem split: option.splits if_splits)
  with assms(2,3) show ?thesis unfolding recorded_def by blast
qed

lemma income_recorded:
  assumes "create_income_transaction sha e (Some i) emp name a d ph tx f = (Inr row, f')"
  shows "recorded sha i a f'"
proof -
  have "has_row (\<lambda>x. in_ref x = income_ref sha (Some i) emp a (period_from_date d)) (fp_income f')"
    using assms
    by (auto simp: create_income_transaction_def Let_def has_row_iff dest: find_Some_mem split: option.splits if_splits)
  then show ?thesis unfolding recorded_def by blast
qed

lemma finish_mark_settles:
  assumes "gains db0 db" "recorded sha i a (pl_fpe db)"
  shows "settles sha i a db0 (finish av k [mark_msg av i st err] w why db)"
  using assms by (simp add: finish_def settles_def)

lemma finish_review_settles:
  assumes "gains db0 db" "um_msg u = i" "um_amount u = Some a"
  shows "settles sha i a db0 (finish av k [review_msg u, mark_msg av i st err] w why db)"
  using assms gains_review [OF assms(1)] review_noted [OF assms] by (simp add: finish_def settles_def)

lemma book_settles:
  assumes "gains db0 db" "rq_msg req = Some i" "rq_amount req = a"
  shows "settles sha i a db0 (book sha av i req db)"
proof -
  obtain x f where c: "create_transaction sha (ac_txn av) req (pl_fpe db) = (x, f)" by force
  show ?thesis
  proof (cases x)
    case (Inl y)
    with c assms(1) show ?thesis by (simp add: book_def)
  next
    case (Inr row)
    with create_recorded [OF _ assms(2,3)] c have "recorded sha i a f" by metis
    with c Inr assms(1) show ?thesis by (simp add: book_def finish_mark_settles)
  qed
qed

lemma handle_cash_settles:
  "gains db0 db \<Longrightarrow> settles sha (fm_id m) a db0 (handle_cash sha av r m a d db)"
  by (auto simp: handle_cash_def Let_def txn_request_of_def unmatched_def intro: finish_review_settles book_settles split: option.split)

lemma handle_payment_settles:
  "gains db0 db \<Longrightarrow> fm_from_me m \<Longrightarrow> settles sha (fm_id m) a db0 (handle_payment sha ratio av r m a d db)"
  by (auto simp: handle_payment_def Let_def txn_request_of_def unmatched_def intro: finish_review_settles book_settles
      split: option.split sum.split prod.split)

lemma handle_income_settles:
  "gains db0 db \<Longrightarrow> settles sha (fm_id m) a db0 (handle_income sha ratio av r m a d db)"
  by (auto simp: handle_income_def Let_def intro!: finish_mark_settles income_recorded split: sum.split prod.split)

lemma parse_decimal_nonempty: "to_decimal x = Some a \<Longrightarrow> present x = x \<and> x \<noteq> None"
  by (cases x) (auto simp: to_decimal_def present_def py_or_def parse_decimal_def py_strip_def)

lemma failed_in_review:
  assumes "db_ok (ac_fail av)" "to_decimal (pd_get ''amount'' (pr_data r)) = Some a" "gains db db1"
  shows "fst (acct_failed av r m db1)" "in_review (fm_id m) a db (snd (acct_failed av r m db1))"
  using assms(1,2) review_noted [OF assms(3)] parse_decimal_nonempty [OF assms(2)]
  by (simp_all add: acct_failed_def Let_def db_ok_raises unmatched_def)

text \<open>
  C8: No detected money is lost. When the accounting worker takes a payment from the owner, a cash
  command or an income command whose amount is at least a hundredth, then, whichever statement of the
  booking raises, as long as the statements of the failure handler itself succeed, the worker
  goes on and afterwards the money is visible: the accounts hold the transaction or income of this
  message and amount, or a row of this message with this amount has been added to the review queue.
  A payment that is not from the owner is outside the claim: it is skipped without a trace
  (\<open>foreign_payment_vanishes\<close>).
\<close>

theorem no_money_lost:
  assumes "pr_type r \<in> {''payment'', ''cash_command'', ''income_command''}"
    and "to_decimal (pd_get ''amount'' (pr_data r)) = Some a" and "1 / 100 \<le> dec_val a"
    and "pr_type r = ''payment'' \<longrightarrow> fm_from_me m" and "db_ok (ac_fail av)"
  shows "\<exists>db'. process_parsed_row sha ratio av r m db = (True, db')
    \<and> (recorded sha (fm_id m) a (pl_fpe db') \<or> in_review (fm_id m) a db db')"
proof -
  have valid: "validate_for_accounting (pr_type r) (pr_data r) = Valid"
    using validate_amount [of "pr_type r"] amount_rules assms(1-3) by auto
  have ty: "pr_type r \<noteq> ''escort_payment''" using assms(1) by auto
  let ?db = "mark_msg av (fm_id m) PS_accounting None db"
  have "gains db ?db" by simp
  then have set: "settles sha (fm_id m) a db (acct_body sha ratio av r m db)"
    using valid ty assms(1,2,4) by (auto simp: acct_body_def Let_def handle_cash_settles handle_payment_settles handle_income_settles)
  obtain out db1 where run: "acct_body sha ratio av r m db = (out, db1)" by force
  show ?thesis
  proof (cases out)
    case (Ended st why)
    with set run show ?thesis by (auto simp: process_parsed_row_def settles_def)
  next
    case Raised
    with set run have "gains db db1" by simp
    from failed_in_review [OF assms(5,2) this, of m] run Raised show ?thesis
      by (auto simp: process_parsed_row_def split_def)
  qed
qed

definition sample_acct :: "time \<Rightarrow> acct_env" where
  "sample_acct t = \<lparr>ac_body = env_at t, ac_lookup = env_at t, ac_match = sample_mv t, ac_txn = env_at t, ac_fail = env_at t,
     ac_diag = env_at t, ac_error = '''', ac_today = Date 2026 5 4\<rparr>"

definition sample_ingest :: ingest_request where
  "sample_ingest = \<lparr>ig_wa_id = ''A1'', ig_source = ''bridge1'', ig_number = ''8801958122300'', ig_chat = ''x'', ig_sender = None,
     ig_from_me = True, ig_content = Some ''Karim 01711111111(B) 2200/-'', ig_date = Date 2026 5 4\<rparr>"

definition sample_parser :: "string \<Rightarrow> date option \<Rightarrow> parse_out" where
  "sample_parser s d = \<lparr>po_type = M_payment,
     po_payment = Some \<lparr>pp_id_phone = None, pp_name = Some ''Karim'', pp_phone = Some sample_phone, pp_method = ''bkash'',
       pp_amount = Some (Dec 2200 0), pp_date = d\<rparr>, po_balance = None, po_escort = None, po_confidence = 1\<rparr>"

definition empty_pipe :: pipe_db where
  "empty_pipe = \<lparr>pl_msg = \<lparr>md_msgs = [], md_next = 1, md_proc = [], md_results = [], md_unmatched = []\<rparr>,
     pl_ident = sample_identity, pl_fpe = empty_fpe, pl_drafts = [], pl_programs = [], pl_diag = []\<rparr>"

definition sample_rows :: "int \<Rightarrow> row_env" where
  "sample_rows i = \<lparr>rw_body = env_at 5, rw_fail = env_at 5, rw_error = ''''\<rparr>"

definition sample_delivered :: pipe_db where
  "sample_delivered = empty_pipe\<lparr>pl_msg := snd (ingest_message (env_at 1) sample_ingest (pl_msg empty_pipe))\<rparr>"

definition sample_read :: pipe_db where
  "sample_read = sample_delivered\<lparr>pl_msg := process_pending_batch sample_parser (\<lambda>_ _. None) \<lparr>fc_cash_phones = [], fc_income_phones = []\<rparr>
     (env_at 2) sample_rows (pl_msg sample_delivered)\<rparr>"

definition sample_booked :: pipe_db where
  "sample_booked = process_parsed_batch (\<lambda>s. s) (\<lambda>_ _. 0) (env_at 3) (\<lambda>_. sample_acct 5) sample_read"

lemma sample_booked_reached: "reach pipe_start pipe_step sample_booked"
proof -
  have "reach pipe_start pipe_step empty_pipe"
    by (rule reach_start) (simp add: pipe_start_def empty_pipe_def empty_fpe_def)
  then have "reach pipe_start pipe_step sample_delivered"
    unfolding sample_delivered_def by (rule reach_step) (rule pipe_step.ingested)
  then have "reach pipe_start pipe_step sample_read"
    unfolding sample_read_def by (rule reach_step) (rule pipe_step.parsed)
  then show ?thesis unfolding sample_booked_def by (rule reach_step) (rule pipe_step.accounted)
qed

theorem booked_at_most_once_witness:
  "booked 1 (pl_fpe sample_booked) \<le> 1
   \<and> \<not> has_row (\<lambda>p. ps_status p = PS_failed \<and> 5 \<le> ps_attempts p) (md_proc (pl_msg sample_booked))"
  using booked_at_most_once [OF sample_booked_reached, of 1] by blast

definition sample_result :: parser_row where
  "sample_result = \<lparr>pr_msg = 1, pr_type = ''payment'', pr_data = sample_parsed ''2200'', pr_confidence = 1, pr_ai = False\<rparr>"

theorem no_money_lost_witness:
  "\<exists>db'. process_parsed_row (\<lambda>s. s) (\<lambda>_ _. 0) ((sample_acct 5)\<lparr>ac_txn := (env_at 5)\<lparr>raises := (\<lambda>n. n = 1)\<rparr>\<rparr>)
      sample_result (new_message 1 sample_ingest) empty_pipe = (True, db')
    \<and> (recorded (\<lambda>s. s) 1 (Dec 2200 0) (pl_fpe db') \<or> in_review 1 (Dec 2200 0) empty_pipe db')"
proof -
  let ?av = "(sample_acct 5)\<lparr>ac_txn := (env_at 5)\<lparr>raises := (\<lambda>n. n = 1)\<rparr>\<rparr>"
  have 1: "pr_type sample_result \<in> {''payment'', ''cash_command'', ''income_command''}" by (simp add: sample_result_def)
  have 2: "to_decimal (pd_get ''amount'' (pr_data sample_result)) = Some (Dec 2200 0)" by code_simp
  have 3: "1 / 100 \<le> dec_val (Dec 2200 0)" by (simp add: dec_val_def)
  have 4: "pr_type sample_result = ''payment'' \<longrightarrow> fm_from_me (new_message 1 sample_ingest)"
    by (simp add: new_message_def sample_ingest_def)
  have 5: "db_ok (ac_fail ?av)" by (simp add: sample_acct_def)
  have "fm_id (new_message 1 sample_ingest) = 1" by (simp add: new_message_def)
  with no_money_lost [OF 1 2 3 4 5, of "\<lambda>s. s" "\<lambda>_ _. 0" empty_pipe] show ?thesis by simp
qed

text \<open>
  A payment reported by somebody else than the owner vanishes. It is marked as skipped; no account
  and no row of the review queue keeps its amount, though the module promises that detected money
  always stays visible.
\<close>

theorem foreign_payment_vanishes:
  assumes "pr_type r = ''payment''" and "validate_for_accounting ''payment'' (pr_data r) = Valid"
    and "to_decimal (pd_get ''amount'' (pr_data r)) \<noteq> None" and "\<not> fm_from_me m" and "db_ok (ac_body av)"
  shows "\<exists>db'. process_parsed_row sha ratio av r m db = (True, db') \<and> pl_fpe db' = pl_fpe db
    \<and> md_unmatched (pl_msg db') = md_unmatched (pl_msg db)"
  using assms by (auto simp: process_parsed_row_def acct_body_def Let_def handle_payment_def finish_def db_ok_raises)

text \<open>
  A message that is parsed again is booked from both readings. Requeueing a message whose result is
  already stored adds a second result, and the join of the accounting worker returns a row for each.
\<close>

theorem both_results_booked:
  assumes "md_proc db = [p]" and "ps_status p = PS_parsed" and "ps_attempts p < MAX_ATTEMPTS"
    and "message_of (ps_msg p) db = Some m" and "md_results db = [r1, r2]"
    and "pr_msg r1 = ps_msg p" and "pr_msg r2 = ps_msg p" and "pr_type r1 = ''payment''" and "pr_type r2 = ''payment''"
  shows "parsed_batch db = [(r1, m), (r2, m)]"
proof -
  have "''payment'' \<in> set ACCOUNTING_TYPES" by (simp add: accounting_types)
  with assms show ?thesis by (simp add: parsed_batch_def BATCH_SIZE_def)
qed

end
