(* ===== verification/FPE_Sync.thy ===== *)
theory FPE_Sync
  imports FPE_Pipeline "HOL-Library.Option_ord" "HOL-Library.Sublist"
begin

text \<open>
  How messages reach the payroll engine from the message stores of the bridges:
  \<open>fazle_payroll_engine/historical_sync.py\<close> (a pass per chat that goes on from a checkpoint),
  \<open>checkpoint.py\<close>, \<open>gap_scan.py\<close> (a comparison by id of the newest messages) and \<open>replay.py\<close> (a
  one-off ingestion of messages that the poller stored). A row of a bridge store is a record; its
  timestamp is kept in its two readings, the one SQLite's \<open>datetime\<close> makes of the text and the one
  \<open>_parse_sqlite_ts\<close> makes of it. The content of a store, and the map from hidden ids to phones, are
  arguments. A store that cannot be read has no rows.
\<close>

record sq_row =
  sq_id :: string
  sq_chat :: string
  sq_sender :: "string option"
  sq_content :: "string option"
  sq_text :: "string option"
  sq_me :: bool
  sq_when :: "time option"
  sq_ts :: "time option"
  sq_day :: date

record bridge_cfg =
  br_name :: string
  br_number :: string

record checkpoint =
  cp_source :: string
  cp_number :: string
  cp_chat :: string
  cp_last_id :: string
  cp_last_ts :: "time option"
  cp_total :: nat
  cp_sync_at :: time
  cp_checked :: "time option"

record gap_run =
  gr_source :: string
  gr_chat :: string
  gr_sqlite :: nat
  gr_archive :: nat
  gr_missing :: nat
  gr_backfilled :: nat
  gr_blank :: nat
  gr_failed :: bool

record sync_db =
  sy_msg :: msg_db
  sy_checks :: "checkpoint list"
  sy_runs :: "gap_run list"

subsection \<open>Checkpoints\<close>

definition cp_of :: "bridge_cfg \<Rightarrow> string \<Rightarrow> checkpoint \<Rightarrow> bool" where
  "cp_of br jid c \<longleftrightarrow> cp_source c = br_name br \<and> cp_number c = br_number br \<and> cp_chat c = jid"

definition get_checkpoint :: "bridge_cfg \<Rightarrow> string \<Rightarrow> sync_db \<Rightarrow> checkpoint option" where
  "get_checkpoint br jid sd = find (cp_of br jid) (sy_checks sd)"

definition touch_checkpoint :: "env \<Rightarrow> bridge_cfg \<Rightarrow> string \<Rightarrow> sync_db \<Rightarrow> sync_db" where
  "touch_checkpoint e br jid sd =
     sd\<lparr>sy_checks := update_where (cp_of br jid) (\<lambda>c. c\<lparr>cp_checked := Some (db_now e)\<rparr>) (sy_checks sd)\<rparr>"

definition update_checkpoint :: "env \<Rightarrow> bridge_cfg \<Rightarrow> string \<Rightarrow> string \<Rightarrow> time option \<Rightarrow> nat \<Rightarrow> sync_db \<Rightarrow> sync_db" where
  "update_checkpoint e br jid last_id last_ts n sd =
     sd\<lparr>sy_checks :=
       (if has_row (cp_of br jid) (sy_checks sd)
        then update_where (cp_of br jid)
               (\<lambda>c. c\<lparr>cp_last_id := last_id, cp_last_ts := last_ts, cp_total := cp_total c + n, cp_sync_at := db_now e\<rparr>) (sy_checks sd)
        else sy_checks sd @ [\<lparr>cp_source = br_name br, cp_number = br_number br, cp_chat = jid, cp_last_id = last_id,
                              cp_last_ts = last_ts, cp_total = n, cp_sync_at = db_now e, cp_checked = None\<rparr>])\<rparr>"

subsection \<open>Rows of a bridge store\<close>

definition row_text :: "sq_row \<Rightarrow> string" where
  "row_text r = (case py_or (sq_content r) (sq_text r) of None \<Rightarrow> '''' | Some s \<Rightarrow> s)"

definition before_at :: "string \<Rightarrow> string" where
  "before_at s = takeWhile (\<lambda>c. c \<noteq> CHR ''@'') s"

definition resolve_phone :: "string \<Rightarrow> (string \<times> string) list \<Rightarrow> string option" where
  "resolve_phone sender lids =
     (if sender = '''' then None
      else if has_infix ''@s.whatsapp.net'' sender then bd_phone (Some (before_at sender))
      else if has_infix ''@lid'' sender
      then (case map_of lids (before_at sender) of None \<Rightarrow> None | Some pn \<Rightarrow> bd_phone (Some pn))
      else bd_phone (Some sender))"

definition sqlite_request :: "bridge_cfg \<Rightarrow> (string \<times> string) list \<Rightarrow> string \<Rightarrow> sq_row \<Rightarrow> ingest_request option" where
  \<comment> \<open>no request for a row without text or with an unreadable timestamp\<close>
  "sqlite_request br lids chat r =
     (if py_strip (row_text r) = '''' \<or> sq_ts r = None then None
      else Some \<lparr>ig_wa_id = sq_id r, ig_source = br_name br, ig_number = br_number br, ig_chat = chat,
                 ig_sender = (case sq_sender r of None \<Rightarrow> None | Some s \<Rightarrow> resolve_phone s lids),
                 ig_from_me = sq_me r, ig_content = Some (row_text r), ig_date = sq_day r\<rparr>)"

definition ingest_row ::
  "env \<Rightarrow> bridge_cfg \<Rightarrow> (string \<times> string) list \<Rightarrow> string \<Rightarrow> sq_row \<Rightarrow> msg_db \<Rightarrow> ingest_result option \<times> msg_db" where
  "ingest_row e br lids chat r db =
     (case sqlite_request br lids chat r of
        None \<Rightarrow> (None, db)
      | Some rq \<Rightarrow> (case ingest_message e rq db of (x, db1) \<Rightarrow> (Some x, db1)))"

definition SYNC_BATCH :: nat where "SYNC_BATCH = 200"

definition whole_seconds :: "time \<Rightarrow> time" where
  "whole_seconds t = t - t mod secs 1"

definition fetch_messages :: "string \<Rightarrow> time option \<Rightarrow> sq_row list \<Rightarrow> sq_row list" where
  \<comment> \<open>a comparison with a timestamp that SQLite cannot read is not true; NULL sorts first\<close>
  "fetch_messages jid since store =
     take SYNC_BATCH (sort_key sq_when
       (filter (\<lambda>r. sq_chat r = jid \<and>
          (case since of None \<Rightarrow> True
           | Some t \<Rightarrow> (case sq_when r of None \<Rightarrow> False | Some w \<Rightarrow> w > whole_seconds t))) store))"

definition has_suffix :: "string \<Rightarrow> string \<Rightarrow> bool" where
  "has_suffix p s \<longleftrightarrow> starts (rev p) (rev s)"

definition fetch_all_dm_jids :: "sq_row list \<Rightarrow> string list" where
  \<comment> \<open>\<open>LIKE\<close> ignores the case of ASCII letters\<close>
  "fetch_all_dm_jids store =
     remdups (filter (\<lambda>j. let k = py_lower j in \<not> has_suffix ''@g.us'' k \<and> \<not> has_suffix ''@newsletter'' k
          \<and> j \<noteq> ''status@broadcast'' \<and> (has_suffix ''@s.whatsapp.net'' k \<or> has_suffix ''@lid'' k))
       (map sq_chat store))"

definition get_target_jids :: "string option \<Rightarrow> string \<Rightarrow> string list" where
  \<comment> \<open>the setting, or the chat of the accountant\<close>
  "get_target_jids setting accountant =
     (case present setting of
        None \<Rightarrow> [accountant @ ''@s.whatsapp.net'']
      | Some raw \<Rightarrow> filter (\<lambda>j. j \<noteq> '''') (map py_strip (split_runs (\<lambda>c. c = CHR '','') raw '''')))"

subsection \<open>One pass over the bridges\<close>

record sync_env =
  se_main :: env
  se_rows :: "string \<Rightarrow> env"

fun sync_rows ::
  "(string \<Rightarrow> env) \<Rightarrow> bridge_cfg \<Rightarrow> (string \<times> string) list \<Rightarrow> string \<Rightarrow> sq_row list \<Rightarrow> nat \<Rightarrow> msg_db \<Rightarrow> nat option \<times> msg_db" where
  \<comment> \<open>the number of messages stored; none when an exception ends the pass\<close>
  "sync_rows ev br lids jid [] n db = (Some n, db)"
| "sync_rows ev br lids jid (r # rs) n db =
     (case ingest_row (ev (sq_id r)) br lids jid r db of
        (Some Ingest_exception, db1) \<Rightarrow> (None, db1)
      | (Some (Ingested _), db1) \<Rightarrow> sync_rows ev br lids jid rs (n + 1) db1
      | (_, db1) \<Rightarrow> sync_rows ev br lids jid rs n db1)"

definition sync_chat ::
  "sync_env \<Rightarrow> bridge_cfg \<Rightarrow> (string \<times> string) list \<Rightarrow> sq_row list \<Rightarrow> string \<Rightarrow> sync_db \<Rightarrow> nat option \<times> sync_db" where
  \<comment> \<open>the body of the loop of \<open>_sync_bridge\<close>: statement 0 reads the checkpoint, statement 1 writes it\<close>
  "sync_chat v br lids store jid sd =
     (if raises (se_main v) 0 then (None, sd)
      else let cp = get_checkpoint br jid sd;
               rows = fetch_messages jid (case cp of None \<Rightarrow> None | Some c \<Rightarrow> cp_last_ts c) store
           in if rows = []
              then if cp = None then (Some 0, sd)
                   else if raises (se_main v) 1 then (None, sd)
                   else (Some 0, touch_checkpoint (se_main v) br jid sd)
              else (case sync_rows (se_rows v) br lids jid rows 0 (sy_msg sd) of
                      (None, db1) \<Rightarrow> (None, sd\<lparr>sy_msg := db1\<rparr>)
                    | (Some n, db1) \<Rightarrow>
                        (let sd1 = sd\<lparr>sy_msg := db1\<rparr>; final = last rows
                         in if \<not> (n > 0 \<or> sq_id final \<noteq> '''') then (Some n, sd1)
                            else if raises (se_main v) 1 then (None, sd1)
                            else (Some n, update_checkpoint (se_main v) br jid (sq_id final) (sq_ts final) n sd1))))"

fun sync_bridge ::
  "(string \<Rightarrow> sync_env) \<Rightarrow> bridge_cfg \<Rightarrow> (string \<times> string) list \<Rightarrow> (string \<Rightarrow> sq_row list) \<Rightarrow> string list \<Rightarrow> nat \<Rightarrow> sync_db
    \<Rightarrow> nat option \<times> sync_db" where
  "sync_bridge vs br lids store [] n sd = (Some n, sd)"
| "sync_bridge vs br lids store (jid # jids) n sd =
     (case sync_chat (vs jid) br lids (store jid) jid sd of
        (None, sd1) \<Rightarrow> (None, sd1)
      | (Some k, sd1) \<Rightarrow> sync_bridge vs br lids store jids (n + k) sd1)"

record bridge_view =
  bv_lids :: "(string \<times> string) list"
  bv_store :: "string \<Rightarrow> sq_row list"
  bv_all :: "sq_row list"

definition BRIDGE1 :: bridge_cfg where "BRIDGE1 = \<lparr>br_name = ''bridge1'', br_number = ''8801958122300''\<rparr>"

definition BRIDGE2 :: bridge_cfg where "BRIDGE2 = \<lparr>br_name = ''bridge2'', br_number = ''8801880446111''\<rparr>"

definition bridge_jids :: "bool \<Rightarrow> string list \<Rightarrow> bridge_cfg \<Rightarrow> bridge_view \<Rightarrow> string list" where
  "bridge_jids all_dms jids br bv = (if br = BRIDGE1 \<and> all_dms then fetch_all_dm_jids (bv_all bv) else jids)"

definition run_historical_sync_once ::
  "(bridge_cfg \<Rightarrow> string \<Rightarrow> sync_env) \<Rightarrow> bool \<Rightarrow> string list \<Rightarrow> (bridge_cfg \<Rightarrow> bridge_view) \<Rightarrow> sync_db \<Rightarrow> bool \<times> sync_db" where
  \<comment> \<open>the two bridges in turn; an exception of the first one ends the pass\<close>
  "run_historical_sync_once vs all_dms jids view sd =
     (let run = (\<lambda>br. sync_bridge (vs br) br (bv_lids (view br)) (bv_store (view br)) (bridge_jids all_dms jids br (view br)) 0)
      in case run BRIDGE1 sd of
           (None, sd1) \<Rightarrow> (False, sd1)
         | (Some _, sd1) \<Rightarrow> (case run BRIDGE2 sd1 of (x, sd2) \<Rightarrow> (x \<noteq> None, sd2)))"

subsection \<open>The gap scan\<close>

definition GAP_SCAN_LIMIT :: nat where "GAP_SCAN_LIMIT = 5000"

definition fetch_for_diff :: "string \<Rightarrow> sq_row list \<Rightarrow> sq_row list" where
  \<comment> \<open>the newest rows of the chat\<close>
  "fetch_for_diff jid store = take GAP_SCAN_LIMIT (rev (sort_key sq_when (filter (\<lambda>r. sq_chat r = jid) store)))"

definition archived :: "bridge_cfg \<Rightarrow> msg_db \<Rightarrow> string \<Rightarrow> bool" where
  "archived br db i \<longleftrightarrow> has_row (\<lambda>m. fm_wa_id m = i \<and> fm_source m = br_name br) (md_msgs db)"

fun gap_rows ::
  "(string \<Rightarrow> env) \<Rightarrow> bridge_cfg \<Rightarrow> (string \<times> string) list \<Rightarrow> string \<Rightarrow> sq_row list \<Rightarrow> nat \<times> nat \<Rightarrow> msg_db
    \<Rightarrow> (bool \<times> nat \<times> nat) \<times> msg_db" where
  \<comment> \<open>whether all rows were handled, and the messages stored and the rows without text until then\<close>
  "gap_rows ev br lids jid [] (b, k) db = ((True, b, k), db)"
| "gap_rows ev br lids jid (r # rs) (b, k) db =
     (if py_strip (row_text r) = '''' then gap_rows ev br lids jid rs (b, k + 1) db
      else case ingest_row (ev (sq_id r)) br lids jid r db of
             (Some Ingest_exception, db1) \<Rightarrow> ((False, b, k), db1)
           | (Some (Ingested _), db1) \<Rightarrow> gap_rows ev br lids jid rs (b + 1, k) db1
           | (_, db1) \<Rightarrow> gap_rows ev br lids jid rs (b, k) db1)"

definition record_run :: "env \<Rightarrow> gap_run \<Rightarrow> sync_db \<Rightarrow> bool \<times> sync_db" where
  "record_run e run sd = (if raises e 1 then (False, sd) else (True, sd\<lparr>sy_runs := sy_runs sd @ [run]\<rparr>))"

definition scan_bridge_chat ::
  "sync_env \<Rightarrow> bridge_cfg \<Rightarrow> (string \<times> string) list \<Rightarrow> sq_row list \<Rightarrow> string \<Rightarrow> sync_db \<Rightarrow> bool \<times> sync_db" where
  \<comment> \<open>statement 0 asks the archive, statement 1 records the run; exceptions before it are noted in the run\<close>
  "scan_bridge_chat v br lids store jid sd =
     (let rows = fetch_for_diff jid store; ids = remdups (map sq_id rows);
          run = \<lparr>gr_source = br_name br, gr_chat = jid, gr_sqlite = length ids, gr_archive = 0, gr_missing = 0,
                 gr_backfilled = 0, gr_blank = 0, gr_failed = False\<rparr>
      in if rows = [] then record_run (se_main v) run sd
         else if raises (se_main v) 0 then record_run (se_main v) (run\<lparr>gr_failed := True\<rparr>) sd
         else let missing = filter (\<lambda>i. \<not> archived br (sy_msg sd) i) ids;
                  run1 = run\<lparr>gr_archive := length ids - length missing, gr_missing := length missing\<rparr>
              in case gap_rows (se_rows v) br lids jid (filter (\<lambda>r. sq_id r \<in> set missing) rows) (0, 0) (sy_msg sd) of
                   ((ok, b, k), db1) \<Rightarrow>
                     record_run (se_main v) (run1\<lparr>gr_backfilled := b, gr_blank := k, gr_failed := \<not> ok\<rparr>) (sd\<lparr>sy_msg := db1\<rparr>))"

fun scan_chats ::
  "(bridge_cfg \<Rightarrow> string \<Rightarrow> sync_env) \<Rightarrow> (bridge_cfg \<Rightarrow> bridge_view) \<Rightarrow> (bridge_cfg \<times> string) list \<Rightarrow> sync_db \<Rightarrow> bool \<times> sync_db" where
  "scan_chats vs view [] sd = (True, sd)"
| "scan_chats vs view ((br, jid) # rest) sd =
     (case scan_bridge_chat (vs br jid) br (bv_lids (view br)) (bv_store (view br) jid) jid sd of
        (True, sd1) \<Rightarrow> scan_chats vs view rest sd1
      | (False, sd1) \<Rightarrow> (False, sd1))"

definition run_gap_scan_once ::
  "(bridge_cfg \<Rightarrow> string \<Rightarrow> sync_env) \<Rightarrow> (bridge_cfg \<Rightarrow> bridge_view) \<Rightarrow> string list \<Rightarrow> sync_db \<Rightarrow> bool \<times> sync_db" where
  "run_gap_scan_once vs view jids sd = scan_chats vs view (List.product [BRIDGE1, BRIDGE2] jids) sd"

subsection \<open>The replay\<close>

record wbom_message =
  wm_id :: int
  wm_sender :: "string option"
  wm_body :: "string option"
  wm_inbound :: bool
  wm_platform :: string
  wm_received :: time
  wm_day :: date

definition replay_request :: "wbom_message \<Rightarrow> ingest_request" where
  "replay_request w =
     (let sender = (case wm_sender w of None \<Rightarrow> '''' | Some s \<Rightarrow> s)
      in \<lparr>ig_wa_id = ''wbom_'' @ show_int (wm_id w), ig_source = ''bridge1'', ig_number = ''8801958122300'',
          ig_chat = (if sender \<noteq> '''' \<and> \<not> starts ''unresolved:'' sender then sender @ ''@s.whatsapp.net'' else ''''),
          ig_sender = present (wm_sender w), ig_from_me = False,
          ig_content = wm_body w, ig_date = wm_day w\<rparr>)"

definition replay_rows :: "time \<Rightarrow> wbom_message list \<Rightarrow> wbom_message list" where
  "replay_rows since t =
     sort_key wm_received (filter (\<lambda>w. wm_platform w = ''bridge1'' \<and> wm_inbound w \<and> wm_received w \<ge> since
        \<and> (case wm_body w of None \<Rightarrow> False | Some s \<Rightarrow> py_strip s \<noteq> '''')) t)"

fun do_replay :: "(int \<Rightarrow> env) \<Rightarrow> wbom_message list \<Rightarrow> msg_db \<Rightarrow> msg_db" where
  \<comment> \<open>errors are counted and passed over\<close>
  "do_replay ev [] db = db"
| "do_replay ev (w # ws) db = do_replay ev ws (snd (ingest_message (ev (wm_id w)) (replay_request w) db))"

subsection \<open>The archive only grows\<close>

definition archive_inv :: "msg_db \<Rightarrow> bool" where
  "archive_inv db \<longleftrightarrow> distinct (map (\<lambda>m. (fm_wa_id m, fm_source m)) (md_msgs db)) \<and> distinct (map fm_id (md_msgs db))
     \<and> (\<forall>m\<in>set (md_msgs db). fm_id m < md_next db) \<and> distinct (map ps_msg (md_proc db))
     \<and> (\<forall>p\<in>set (md_proc db). ps_msg p \<in> fm_id ` set (md_msgs db))"

definition extends :: "msg_db \<Rightarrow> msg_db \<Rightarrow> bool" where
  "extends db db' \<longleftrightarrow> prefix (md_msgs db) (md_msgs db') \<and> (archive_inv db \<longrightarrow> archive_inv db')"

lemma extends_refl [simp]: "extends db db"
  by (simp add: extends_def)

lemma extends_trans: "extends a b \<Longrightarrow> extends b c \<Longrightarrow> extends a c"
  by (auto simp: extends_def)

lemma extends_archived: "extends db db' \<Longrightarrow> archived br db i \<Longrightarrow> archived br db' i"
  by (auto simp: extends_def archived_def has_row_iff dest: set_mono_prefix)

lemma ingest_extends: "extends db (snd (ingest_message e rq db))"
proof -
  have "archive_inv (snd (ingest_message e rq db))" if "archive_inv db"
    using that by (fastforce simp: ingest_message_def Let_def archive_inv_def has_row_iff new_message_def new_proc_def)
  then show ?thesis by (auto simp: extends_def ingest_message_def Let_def)
qed

lemma ingest_quiet:
  assumes "db_ok e"
  shows "fst (ingest_message e rq db) \<noteq> Ingest_exception"
    and "has_row (\<lambda>m. fm_wa_id m = ig_wa_id rq \<and> fm_source m = ig_source rq) (md_msgs (snd (ingest_message e rq db)))"
  using assms by (auto simp: ingest_message_def Let_def db_ok_raises has_row_iff new_message_def)

lemma sqlite_request_Some:
  "sqlite_request br lids jid r = Some rq \<Longrightarrow> ig_wa_id rq = sq_id r \<and> ig_source rq = br_name br"
  by (auto simp: sqlite_request_def split: if_splits)

definition readable_row :: "sq_row \<Rightarrow> bool" where
  "readable_row r \<longleftrightarrow> py_strip (row_text r) \<noteq> '''' \<and> sq_ts r \<noteq> None"

lemma sqlite_request_readable: "readable_row r \<Longrightarrow> \<exists>rq. sqlite_request br lids jid r = Some rq"
  by (auto simp: sqlite_request_def readable_row_def)

lemma ingest_row_cases:
  "ingest_row e br lids jid r db = (case sqlite_request br lids jid r of None \<Rightarrow> (None, db)
     | Some rq \<Rightarrow> (Some (fst (ingest_message e rq db)), snd (ingest_message e rq db)))"
  by (simp add: ingest_row_def split: option.split prod.split)

lemma ingest_row_extends: "extends db (snd (ingest_row e br lids jid r db))"
  by (simp add: ingest_row_cases ingest_extends split: option.split)

lemma ingest_row_quiet:
  assumes "db_ok e"
  shows "fst (ingest_row e br lids jid r db) \<noteq> Some Ingest_exception"
    and "readable_row r \<Longrightarrow> archived br (snd (ingest_row e br lids jid r db)) (sq_id r)"
proof -
  show "fst (ingest_row e br lids jid r db) \<noteq> Some Ingest_exception"
    using ingest_quiet(1) [OF assms] by (simp add: ingest_row_cases split: option.split)
  assume "readable_row r"
  then obtain rq where rq: "sqlite_request br lids jid r = Some rq" using sqlite_request_readable by blast
  show "archived br (snd (ingest_row e br lids jid r db)) (sq_id r)"
    using ingest_quiet(2) [OF assms, of rq db] sqlite_request_Some [OF rq] by (simp add: ingest_row_cases rq archived_def)
qed

lemma sync_rows_Cons:
  "sync_rows ev br lids jid (r # rs) n db = (None, snd (ingest_row (ev (sq_id r)) br lids jid r db))
     \<and> fst (ingest_row (ev (sq_id r)) br lids jid r db) = Some Ingest_exception
   \<or> (\<exists>k. sync_rows ev br lids jid (r # rs) n db = sync_rows ev br lids jid rs k (snd (ingest_row (ev (sq_id r)) br lids jid r db)))"
  by (cases "ingest_row (ev (sq_id r)) br lids jid r db") (auto split: option.split ingest_result.split)

lemma gap_rows_Cons:
  "py_strip (row_text r) = '''' \<and> (\<exists>bk'. gap_rows ev br lids jid (r # rs) bk db = gap_rows ev br lids jid rs bk' db)
   \<or> snd (gap_rows ev br lids jid (r # rs) bk db) = snd (ingest_row (ev (sq_id r)) br lids jid r db)
     \<and> fst (ingest_row (ev (sq_id r)) br lids jid r db) = Some Ingest_exception
   \<or> py_strip (row_text r) \<noteq> '''' \<and>
     (\<exists>bk'. gap_rows ev br lids jid (r # rs) bk db = gap_rows ev br lids jid rs bk' (snd (ingest_row (ev (sq_id r)) br lids jid r db)))"
  by (cases bk; cases "ingest_row (ev (sq_id r)) br lids jid r db"; cases "py_strip (row_text r) = ''''")
    (auto split: option.split ingest_result.split)

lemma sync_rows_extends: "extends db (snd (sync_rows ev br lids jid rs n db))"
proof (induction rs arbitrary: n db)
  case (Cons r rs)
  show ?case
    using sync_rows_Cons [of ev br lids jid r rs n db] ingest_row_extends [of db "ev (sq_id r)" br lids jid r] Cons.IH
    by (elim disjE conjE exE) (simp_all only: snd_conv, blast intro: extends_trans)
qed simp

lemma gap_rows_extends: "extends db (snd (gap_rows ev br lids jid rs bk db))"
proof (induction rs arbitrary: bk db)
  case Nil
  then show ?case by (cases bk) simp
next
  case (Cons r rs)
  show ?case
    using gap_rows_Cons [of r ev br lids jid rs bk db] ingest_row_extends [of db "ev (sq_id r)" br lids jid r] Cons.IH
    by (elim disjE conjE exE) (simp_all only:, blast intro: extends_trans)
qed

lemma sync_rows_quiet:
  assumes "\<forall>i. db_ok (ev i)"
  shows "fst (sync_rows ev br lids jid rs n db) \<noteq> None
    \<and> (\<forall>r\<in>set rs. readable_row r \<longrightarrow> archived br (snd (sync_rows ev br lids jid rs n db)) (sq_id r))"
proof (induction rs arbitrary: n db)
  case (Cons q rs)
  have q: "fst (ingest_row (ev (sq_id q)) br lids jid q db) \<noteq> Some Ingest_exception"
    "readable_row q \<Longrightarrow> archived br (snd (ingest_row (ev (sq_id q)) br lids jid q db)) (sq_id q)"
    using ingest_row_quiet assms by blast+
  then obtain k where k: "sync_rows ev br lids jid (q # rs) n db
      = sync_rows ev br lids jid rs k (snd (ingest_row (ev (sq_id q)) br lids jid q db))"
    using sync_rows_Cons [of ev br lids jid q rs n db] by blast
  show ?case unfolding k using Cons.IH q(2) extends_archived [OF sync_rows_extends] by (simp del: sync_rows.simps)
qed simp

lemma gap_rows_quiet:
  assumes "\<forall>i. db_ok (ev i)"
  shows "\<forall>r\<in>set rs. readable_row r \<longrightarrow> archived br (snd (gap_rows ev br lids jid rs bk db)) (sq_id r)"
proof (induction rs arbitrary: bk db)
  case (Cons q rs)
  have q: "fst (ingest_row (ev (sq_id q)) br lids jid q db) \<noteq> Some Ingest_exception"
    "readable_row q \<Longrightarrow> archived br (snd (ingest_row (ev (sq_id q)) br lids jid q db)) (sq_id q)"
    using ingest_row_quiet assms by blast+
  from gap_rows_Cons [of q ev br lids jid rs bk db] q(1)
  consider bk' where "py_strip (row_text q) = ''''" "gap_rows ev br lids jid (q # rs) bk db = gap_rows ev br lids jid rs bk' db"
    | bk' where "gap_rows ev br lids jid (q # rs) bk db
        = gap_rows ev br lids jid rs bk' (snd (ingest_row (ev (sq_id q)) br lids jid q db))" by blast
  then show ?case
  proof cases
    case (1 bk')
    then have "\<not> readable_row q" by (simp add: readable_row_def)
    then show ?thesis unfolding 1(2) using Cons.IH by (simp del: gap_rows.simps)
  next
    case (2 bk')
    show ?thesis unfolding 2 using Cons.IH q(2) extends_archived [OF gap_rows_extends] by (simp del: gap_rows.simps)
  qed
qed simp

subsection \<open>What a gap scan guarantees\<close>

definition in_chat :: "string \<Rightarrow> sq_row list \<Rightarrow> sq_row list" where
  "in_chat jid store = filter (\<lambda>r. sq_chat r = jid) store"

definition quiet_sync :: "sync_env \<Rightarrow> bool" where
  "quiet_sync v \<longleftrightarrow> db_ok (se_main v) \<and> (\<forall>i. db_ok (se_rows v i))"

lemma fetch_for_diff_all:
  "length (in_chat jid store) \<le> GAP_SCAN_LIMIT \<Longrightarrow> set (fetch_for_diff jid store) = {r \<in> set store. sq_chat r = jid}"
  by (simp add: fetch_for_diff_def in_chat_def)

lemma gap_rows_unreadable:
  "\<forall>r\<in>set rs. \<not> readable_row r \<Longrightarrow> \<exists>k'. gap_rows ev br lids jid rs (b, k) db = ((True, b, k'), db)"
proof (induction rs arbitrary: k)
  case (Cons r rs)
  then have "sqlite_request br lids jid r = None" by (auto simp: sqlite_request_def readable_row_def)
  with Cons show ?case by (auto simp: ingest_row_cases)
qed simp

definition scanned :: "sync_env \<Rightarrow> bridge_cfg \<Rightarrow> (string \<times> string) list \<Rightarrow> sq_row list \<Rightarrow> string \<Rightarrow> msg_db \<Rightarrow> (bool \<times> nat \<times> nat) \<times> msg_db" where
  "scanned v br lids store jid db =
     gap_rows (se_rows v) br lids jid (filter (\<lambda>r. \<not> archived br db (sq_id r)) (fetch_for_diff jid store)) (0, 0) db"

lemma scan_quiet:
  assumes "db_ok (se_main v)"
  shows "\<exists>run. scan_bridge_chat v br lids store jid sd
      = (True, sd\<lparr>sy_msg := snd (scanned v br lids store jid (sy_msg sd)), sy_runs := sy_runs sd @ [run]\<rparr>)
    \<and> gr_backfilled run = fst (snd (fst (scanned v br lids store jid (sy_msg sd))))
    \<and> gr_source run = br_name br \<and> gr_chat run = jid \<and> gr_failed run = (\<not> fst (fst (scanned v br lids store jid (sy_msg sd))))
    \<and> gr_sqlite run = card (sq_id ` set (fetch_for_diff jid store)) \<and> gr_archive run = gr_sqlite run - gr_missing run
    \<and> gr_missing run = card {i \<in> sq_id ` set (fetch_for_diff jid store). \<not> archived br (sy_msg sd) i}"
proof -
  let ?rows = "fetch_for_diff jid store"
  have "filter (\<lambda>r. sq_id r \<in> set (filter (\<lambda>i. \<not> archived br (sy_msg sd) i) (remdups (map sq_id ?rows)))) ?rows
      = filter (\<lambda>r. \<not> archived br (sy_msg sd) (sq_id r)) ?rows"
    by (rule filter_cong) auto
  moreover have "card (set (filter (\<lambda>i. \<not> archived br (sy_msg sd) i) (remdups (map sq_id ?rows))))
      = length (filter (\<lambda>i. \<not> archived br (sy_msg sd) i) (remdups (map sq_id ?rows)))"
    by (rule distinct_card) simp
  ultimately show ?thesis
    using assms by (auto simp: scan_bridge_chat_def scanned_def record_run_def Let_def db_ok_raises card_set [symmetric] length_remdups_card_conv split: prod.split)
qed

lemma gap_rows_done:
  assumes "\<forall>i. db_ok (ev i)"
  shows "fst (fst (gap_rows ev br lids jid rs bk db))"
proof (induction rs arbitrary: bk db)
  case Nil
  then show ?case by (cases bk) simp
next
  case (Cons q rs)
  have q: "fst (ingest_row (ev (sq_id q)) br lids jid q db) \<noteq> Some Ingest_exception"
    using ingest_row_quiet assms by blast
  from gap_rows_Cons [of q ev br lids jid rs bk db] q
  consider bk' where "gap_rows ev br lids jid (q # rs) bk db = gap_rows ev br lids jid rs bk' db"
    | bk' where "gap_rows ev br lids jid (q # rs) bk db
        = gap_rows ev br lids jid rs bk' (snd (ingest_row (ev (sq_id q)) br lids jid q db))" by blast
  then show ?case using Cons.IH by cases (simp_all del: gap_rows.simps)
qed

text \<open>
  C10: A gap scan leaves nothing out. After one undisturbed scan of a chat, in whatever state the
  archive and the checkpoint were before and in whatever order the rows were written, every message
  of the chat with a text and a readable timestamp is archived under its id and bridge, provided the
  chat has at most as many rows as a scan compares; nothing archived before is touched, and the
  checkpoints are as they were. The one record the scan adds names the bridge and the chat, is not
  marked as failed, and counts the message ids of the chat, those the archive did not have before the
  scan, and the rest. Scanning again stores nothing.
\<close>

theorem gap_scan_completes:
  assumes "quiet_sync v" and "quiet_sync v2" and "length (in_chat jid store) \<le> GAP_SCAN_LIMIT"
  shows "\<exists>sd' rec. scan_bridge_chat v br lids store jid sd = (True, sd') \<and> sy_checks sd' = sy_checks sd
    \<and> sy_runs sd' = sy_runs sd @ [rec] \<and> gr_source rec = br_name br \<and> gr_chat rec = jid \<and> \<not> gr_failed rec
    \<and> gr_sqlite rec = card (sq_id ` {r \<in> set store. sq_chat r = jid})
    \<and> gr_missing rec = card {i \<in> sq_id ` {r \<in> set store. sq_chat r = jid}. \<not> archived br (sy_msg sd) i}
    \<and> gr_archive rec + gr_missing rec = gr_sqlite rec
    \<and> prefix (md_msgs (sy_msg sd)) (md_msgs (sy_msg sd'))
    \<and> (\<forall>r\<in>set store. sq_chat r = jid \<and> readable_row r \<longrightarrow> archived br (sy_msg sd') (sq_id r))
    \<and> (\<exists>run sd2. scan_bridge_chat v2 br lids store jid sd' = (True, sd2) \<and> sy_msg sd2 = sy_msg sd'
         \<and> sy_runs sd2 = sy_runs sd' @ [run] \<and> gr_backfilled run = 0)"
proof -
  let ?db = "snd (scanned v br lids store jid (sy_msg sd))"
  have "fst (fst (scanned v br lids store jid (sy_msg sd)))"
    using assms(1) unfolding scanned_def quiet_sync_def by (intro gap_rows_done) simp
  then obtain run where s: "scan_bridge_chat v br lids store jid sd = (True, sd\<lparr>sy_msg := ?db, sy_runs := sy_runs sd @ [run]\<rparr>)"
    and rec: "gr_source run = br_name br" "gr_chat run = jid" "\<not> gr_failed run"
      "gr_sqlite run = card (sq_id ` {r \<in> set store. sq_chat r = jid})" "gr_archive run = gr_sqlite run - gr_missing run"
      "gr_missing run = card {i \<in> sq_id ` {r \<in> set store. sq_chat r = jid}. \<not> archived br (sy_msg sd) i}"
    using scan_quiet [of v br lids store jid sd] assms(1) unfolding fetch_for_diff_all [OF assms(3)] quiet_sync_def by auto
  have "gr_missing run \<le> gr_sqlite run" unfolding rec(4,6) by (rule card_mono) auto
  with rec(5) have sum: "gr_archive run + gr_missing run = gr_sqlite run" by simp
  have ext: "extends (sy_msg sd) ?db" by (simp add: scanned_def gap_rows_extends)
  have all: "archived br ?db (sq_id r)" if "r \<in> set store" "sq_chat r = jid" "readable_row r" for r
  proof (cases "archived br (sy_msg sd) (sq_id r)")
    case True
    then show ?thesis by (rule extends_archived [OF ext])
  next
    case False
    with that fetch_for_diff_all [OF assms(3)] show ?thesis
      unfolding scanned_def using gap_rows_quiet [of "se_rows v" _ br lids jid "(0, 0)" "sy_msg sd"] assms(1)
      by (auto simp: quiet_sync_def)
  qed
  have "\<forall>r\<in>set (filter (\<lambda>r. \<not> archived br ?db (sq_id r)) (fetch_for_diff jid store)). \<not> readable_row r"
    using all fetch_for_diff_all [OF assms(3)] by auto
  then obtain k where again: "scanned v2 br lids store jid ?db = ((True, 0, k), ?db)"
    using gap_rows_unreadable [of _ "se_rows v2" br lids jid 0 0 ?db] unfolding scanned_def by blast
  let ?sd = "sd\<lparr>sy_msg := ?db, sy_runs := sy_runs sd @ [run]\<rparr>"
  obtain run2 where s2: "scan_bridge_chat v2 br lids store jid ?sd
      = (True, ?sd\<lparr>sy_msg := ?db, sy_runs := sy_runs ?sd @ [run2]\<rparr>)" "gr_backfilled run2 = 0"
    using scan_quiet [of v2 br lids store jid ?sd] assms(2) again by (auto simp: quiet_sync_def)
  show ?thesis
    using s s2 all ext rec sum by (intro exI [of _ ?sd] exI [of _ run]) (auto simp: extends_def)
qed

subsection \<open>Catching up from a checkpoint\<close>

definition in_order :: "string \<Rightarrow> sq_row list \<Rightarrow> sq_row list" where
  "in_order jid store = sort_key sq_when (in_chat jid store)"

definition clean_chat :: "string \<Rightarrow> sq_row list \<Rightarrow> bool" where
  \<comment> \<open>every timestamp is readable, in whole seconds, and none is used twice\<close>
  "clean_chat jid store \<longleftrightarrow> distinct (map sq_when (in_chat jid store))
     \<and> (\<forall>r\<in>set (in_chat jid store). sq_id r \<noteq> '''' \<and> (\<exists>t. sq_when r = Some t \<and> sq_ts r = Some t \<and> whole_seconds t = t))"

lemma in_order_strict:
  assumes "clean_chat jid store"
  shows "sorted_wrt (\<lambda>a b. sq_when a < sq_when b) (in_order jid store)"
proof -
  have "sorted (map sq_when (in_order jid store))" by (simp add: in_order_def)
  moreover have "distinct (map sq_when (in_order jid store))"
    using assms by (simp add: in_order_def clean_chat_def distinct_map)
  ultimately have "sorted_wrt (<) (map sq_when (in_order jid store))" by (simp add: strict_sorted_iff)
  then show ?thesis by (simp add: sorted_wrt_map)
qed

lemma filter_after:
  fixes f :: "'a \<Rightarrow> 'b :: linorder"
  assumes "sorted_wrt (\<lambda>a b. f a < f b) xs" "k < length xs"
  shows "filter (\<lambda>x. f (xs ! k) < f x) xs = drop (Suc k) xs"
  using assms
proof (induction xs arbitrary: k)
  case (Cons x xs)
  show ?case
  proof (cases k)
    case 0
    with Cons.prems(1) show ?thesis by (simp add: filter_id_conv)
  next
    case (Suc j)
    with Cons.prems have "\<not> f (xs ! j) < f x" by (simp add: less_imp_not_less)
    with Suc Cons show ?thesis by simp
  qed
qed simp

lemma fetch_start: "fetch_messages jid None store = take SYNC_BATCH (in_order jid store)"
  by (simp add: fetch_messages_def in_order_def in_chat_def)

lemma fetch_after:
  assumes clean: "clean_chat jid store" and k: "k < length (in_order jid store)"
  shows "fetch_messages jid (sq_ts (in_order jid store ! k)) store = take SYNC_BATCH (drop (Suc k) (in_order jid store))"
proof -
  define q where "q = in_order jid store ! k"
  have "q \<in> set (in_chat jid store)" using nth_mem [OF k] by (simp add: in_order_def q_def)
  then obtain t where t: "sq_when q = Some t" "sq_ts q = Some t" "whole_seconds t = t"
    using clean by (auto simp: clean_chat_def)
  have "filter (\<lambda>r. sq_chat r = jid \<and> (case sq_when r of None \<Rightarrow> False | Some w \<Rightarrow> w > whole_seconds t)) store
      = filter (\<lambda>r. sq_when q < sq_when r) (in_chat jid store)"
    unfolding in_chat_def filter_filter t(1,3) by (rule filter_cong) (auto split: option.split)
  then have "fetch_messages jid (sq_ts q) store = take SYNC_BATCH (filter (\<lambda>r. sq_when q < sq_when r) (in_order jid store))"
    by (simp add: fetch_messages_def t(2) in_order_def filter_sort)
  with filter_after [OF in_order_strict [OF clean] k] show ?thesis by (simp add: q_def)
qed

definition caught :: "bridge_cfg \<Rightarrow> string \<Rightarrow> sq_row list \<Rightarrow> nat \<Rightarrow> sync_db \<Rightarrow> bool" where
  \<comment> \<open>the first k messages are archived and the checkpoint stands at the last of them\<close>
  "caught br jid store k sd \<longleftrightarrow> k \<le> length (in_order jid store)
     \<and> (if k = 0 then get_checkpoint br jid sd = None
        else \<exists>c. get_checkpoint br jid sd = Some c \<and> cp_last_ts c = sq_ts (in_order jid store ! (k - 1)))
     \<and> (\<forall>r\<in>set (take k (in_order jid store)). readable_row r \<longrightarrow> archived br (sy_msg sd) (sq_id r))"

lemma fetch_caught:
  assumes "clean_chat jid store" "caught br jid store k sd"
  shows "fetch_messages jid (case get_checkpoint br jid sd of None \<Rightarrow> None | Some c \<Rightarrow> cp_last_ts c) store
    = take SYNC_BATCH (drop k (in_order jid store))"
proof (cases k)
  case 0
  with assms(2) show ?thesis by (simp add: caught_def fetch_start)
next
  case (Suc j)
  with assms(2) obtain c where "get_checkpoint br jid sd = Some c" "cp_last_ts c = sq_ts (in_order jid store ! j)"
      "j < length (in_order jid store)" by (auto simp: caught_def)
  with fetch_after [OF assms(1), of j] Suc show ?thesis by simp
qed

lemma checkpoint_updated:
  "\<exists>c. get_checkpoint br jid (update_checkpoint e br jid i ts n sd) = Some c \<and> cp_last_ts c = ts"
proof (cases "find (cp_of br jid) (sy_checks sd)")
  case None
  then have "\<not> has_row (cp_of br jid) (sy_checks sd)" by (simp add: has_row_iff find_None_iff_all)
  with None show ?thesis by (simp add: update_checkpoint_def get_checkpoint_def find_append) (simp add: cp_of_def)
next
  case (Some c)
  then have h: "has_row (cp_of br jid) (sy_checks sd)" using find_Some_mem [OF Some] by (auto simp: has_row_iff)
  let ?f = "\<lambda>c. c\<lparr>cp_last_id := i, cp_last_ts := ts, cp_total := cp_total c + n, cp_sync_at := db_now e\<rparr>"
  have "find (cp_of br jid) (update_where (cp_of br jid) ?f (sy_checks sd)) = map_option (\<lambda>r. if cp_of br jid r then ?f r else r) (Some c)"
    unfolding Some [symmetric] by (rule find_update_where_same) (simp add: cp_of_def)
  with h find_Some_mem [OF Some] show ?thesis by (simp add: update_checkpoint_def get_checkpoint_def)
qed

lemma checkpoint_touched:
  "get_checkpoint br jid sd = Some c \<Longrightarrow> \<exists>c'. get_checkpoint br jid (touch_checkpoint e br jid sd) = Some c' \<and> cp_last_ts c' = cp_last_ts c"
proof -
  let ?f = "\<lambda>c. c\<lparr>cp_checked := Some (db_now e)\<rparr>"
  assume c: "get_checkpoint br jid sd = Some c"
  have "find (cp_of br jid) (update_where (cp_of br jid) ?f (sy_checks sd))
      = map_option (\<lambda>r. if cp_of br jid r then ?f r else r) (find (cp_of br jid) (sy_checks sd))"
    by (rule find_update_where_same) (simp add: cp_of_def)
  with c show ?thesis by (simp add: touch_checkpoint_def get_checkpoint_def)
qed

lemma caught_pass:
  assumes clean: "clean_chat jid store" and at: "caught br jid store k sd" and quiet: "quiet_sync v"
  shows "caught br jid store (min (k + SYNC_BATCH) (length (in_order jid store))) (snd (sync_chat v br lids store jid sd))"
proof -
  let ?S = "in_order jid store" let ?cp = "get_checkpoint br jid sd"
  let ?rows = "take SYNC_BATCH (drop k ?S)"
  have ok: "\<not> raises (se_main v) n" "\<forall>i. db_ok (se_rows v i)" for n using quiet by (auto simp: quiet_sync_def db_ok_raises)
  have fetch: "fetch_messages jid (case ?cp of None \<Rightarrow> None | Some c \<Rightarrow> cp_last_ts c) store = ?rows"
    by (rule fetch_caught [OF clean at])
  have kl: "k \<le> length ?S" using at by (simp add: caught_def)
  show ?thesis
  proof (cases "k = length ?S")
    case True
    then have run: "sync_chat v br lids store jid sd
        = (if ?cp = None then (Some 0, sd) else (Some 0, touch_checkpoint (se_main v) br jid sd))"
      using fetch ok(1) by (simp add: sync_chat_def Let_def)
    show ?thesis
    proof (cases ?cp)
      case None
      with run True at show ?thesis by simp
    next
      case (Some c)
      have "sy_msg (touch_checkpoint (se_main v) br jid sd) = sy_msg sd" by (simp add: touch_checkpoint_def)
      with Some checkpoint_touched [OF Some, of "se_main v"] run True at show ?thesis by (auto simp: caught_def)
    qed
  next
    case False
    then have ne: "?rows \<noteq> []" using kl by (simp add: SYNC_BATCH_def)
    obtain n db1 where rows: "sync_rows (se_rows v) br lids jid ?rows 0 (sy_msg sd) = (Some n, db1)"
      using sync_rows_quiet [OF ok(2), of br lids jid ?rows 0 "sy_msg sd"] by (cases "sync_rows (se_rows v) br lids jid ?rows 0 (sy_msg sd)") auto
    let ?k = "min (k + SYNC_BATCH) (length ?S)"
    have "k + (length ?rows - 1) = ?k - 1" using False kl by (simp add: SYNC_BATCH_def min_def) arith
    moreover have "?rows ! (length ?rows - 1) = ?S ! (k + (length ?rows - 1))" using ne kl by (subst nth_take) (auto simp: min_def SYNC_BATCH_def)
    ultimately have last: "last ?rows = ?S ! (?k - 1)" using last_conv_nth [OF ne] by simp
    have "?S ! (?k - 1) \<in> set ?S" using False kl by (intro nth_mem) (simp add: SYNC_BATCH_def)
    then have "sq_id (last ?rows) \<noteq> ''''" using clean last by (simp add: clean_chat_def in_order_def)
    then have run: "snd (sync_chat v br lids store jid sd)
        = update_checkpoint (se_main v) br jid (sq_id (last ?rows)) (sq_ts (last ?rows)) n (sd\<lparr>sy_msg := db1\<rparr>)"
      using fetch ok(1) ne rows by (simp add: sync_chat_def Let_def)
    have ext: "extends (sy_msg sd) db1" using sync_rows_extends [of "sy_msg sd" "se_rows v" br lids jid ?rows 0] rows by simp
    have "archived br db1 (sq_id r)" if "r \<in> set (take ?k ?S)" "readable_row r" for r
    proof -
      have "take ?k ?S = take k ?S @ ?rows" by (simp add: take_add min_def)
      with that(1) consider "r \<in> set (take k ?S)" | "r \<in> set ?rows" by auto
      then show ?thesis
      proof cases
        case 1
        with at that(2) show ?thesis by (intro extends_archived [OF ext]) (simp add: caught_def)
      next
        case 2
        with sync_rows_quiet [OF ok(2), of br lids jid ?rows 0 "sy_msg sd"] rows that(2) show ?thesis by simp
      qed
    qed
    moreover have "sy_msg (update_checkpoint e br jid i ts n (sd\<lparr>sy_msg := db1\<rparr>)) = db1" for e i ts by (simp add: update_checkpoint_def)
    moreover have k0: "?k \<noteq> 0" using False kl by (cases ?S) (simp_all add: SYNC_BATCH_def)
    ultimately show ?thesis unfolding run caught_def if_not_P [OF k0]
      using checkpoint_updated [of br jid "se_main v" "sq_id (last ?rows)" "sq_ts (last ?rows)" n "sd\<lparr>sy_msg := db1\<rparr>"] last by simp
  qed
qed

fun sync_passes ::
  "bridge_cfg \<Rightarrow> (string \<times> string) list \<Rightarrow> sq_row list \<Rightarrow> string \<Rightarrow> sync_env list \<Rightarrow> sync_db \<Rightarrow> sync_db" where
  "sync_passes br lids store jid [] sd = sd"
| "sync_passes br lids store jid (v # vs) sd = sync_passes br lids store jid vs (snd (sync_chat v br lids store jid sd))"

lemma caught_passes:
  assumes "clean_chat jid store" "\<forall>v\<in>set vs. quiet_sync v" "caught br jid store (min k (length (in_order jid store))) sd"
  shows "caught br jid store (min (k + length vs * SYNC_BATCH) (length (in_order jid store))) (sync_passes br lids store jid vs sd)"
  using assms(2,3)
proof (induction vs arbitrary: k sd)
  case (Cons v vs)
  have "caught br jid store (min (k + SYNC_BATCH) (length (in_order jid store))) (snd (sync_chat v br lids store jid sd))"
    using caught_pass [OF assms(1) Cons.prems(2), of v lids] Cons.prems(1) by (simp add: min_add_distrib_left min.assoc min_def split: if_splits)
  then show ?case using Cons.IH [of "k + SYNC_BATCH"] Cons.prems(1) by (simp add: add.assoc)
qed simp

text \<open>
  C11: The passes catch up. From no checkpoint, undisturbed passes over a chat archive its messages
  from the oldest on, two hundred at a time: after as many passes as it takes, every message with
  a text is archived, and the checkpoint stands at the newest row. This holds for a chat in which
  every timestamp is readable and no two rows have the same second; where they do, rows behind the end of a batch can be passed over,
  and only the gap scan finds them.
\<close>

theorem sync_catches_up:
  assumes "clean_chat jid store" and "\<forall>v\<in>set vs. quiet_sync v" and "get_checkpoint br jid sd = None"
    and "length (in_chat jid store) \<le> length vs * SYNC_BATCH"
  shows "(\<forall>r\<in>set store. sq_chat r = jid \<and> readable_row r \<longrightarrow>
       archived br (sy_msg (sync_passes br lids store jid vs sd)) (sq_id r))
    \<and> (in_chat jid store \<noteq> [] \<longrightarrow> (\<exists>c. get_checkpoint br jid (sync_passes br lids store jid vs sd) = Some c
         \<and> cp_last_ts c = sq_ts (last (in_order jid store))))"
proof -
  have len: "length (in_order jid store) = length (in_chat jid store)" by (simp add: in_order_def)
  have "caught br jid store (min 0 (length (in_order jid store))) sd" using assms(3) by (simp add: caught_def)
  from caught_passes [OF assms(1,2) this, of lids] assms(4)
  have c: "caught br jid store (length (in_order jid store)) (sync_passes br lids store jid vs sd)" by (simp add: len min_absorb2)
  moreover have "in_order jid store \<noteq> []" if "in_chat jid store \<noteq> []" using that len by fastforce
  moreover have "set (in_order jid store) = {r \<in> set store. sq_chat r = jid}" by (simp add: in_order_def in_chat_def)
  ultimately show ?thesis by (auto simp: caught_def last_conv_nth len)
qed

text \<open>
  A row that is written behind the checkpoint is not fetched again. Rows of the same second as the
  last row of a batch, and rows that the bridge stores late, are passed over by every later pass.
\<close>

theorem late_row_passed_over:
  assumes "get_checkpoint br jid sd = Some c" and "cp_last_ts c = Some t" and "sq_when r = Some w" and "w \<le> whole_seconds t"
  shows "r \<notin> set (fetch_messages jid (case get_checkpoint br jid sd of None \<Rightarrow> None | Some c \<Rightarrow> cp_last_ts c) store)"
  using assms by (auto simp: fetch_messages_def dest!: in_set_takeD)

text \<open>
  The replay stores a message a second time. It gives the message an id of its own, so a message
  that the synchronisation has archived under the id of the bridge is archived again, and booked
  again if it is a command of an authorised sender.
\<close>

theorem replay_stores_again:
  assumes "db_ok (ev (wm_id w))" and "archive_inv db" and "archived BRIDGE1 db i" and "i \<noteq> ''wbom_'' @ show_int (wm_id w)"
    and "\<not> archived BRIDGE1 db (''wbom_'' @ show_int (wm_id w))"
  shows "\<exists>db'. do_replay ev [w] db = db' \<and> md_msgs db' = md_msgs db @ [new_message (md_next db) (replay_request w)]
    \<and> md_proc db' = md_proc db @ [new_proc (ev (wm_id w)) (md_next db)] \<and> archived BRIDGE1 db' i"
proof -
  have "\<not> has_row (\<lambda>p. ps_msg p = md_next db) (md_proc db)"
    using assms(2) by (fastforce simp: archive_inv_def has_row_iff)
  moreover have "ig_source (replay_request w) = br_name BRIDGE1" "ig_wa_id (replay_request w) = ''wbom_'' @ show_int (wm_id w)"
    by (simp_all add: replay_request_def Let_def BRIDGE1_def)
  ultimately show ?thesis
    using assms(1,3,5) by (auto simp: ingest_message_def Let_def db_ok_raises archived_def has_row_iff)
qed

subsection \<open>All ways together\<close>

inductive sync_step :: "sync_db \<Rightarrow> sync_db \<Rightarrow> bool" where
  pass: "sync_step sd (snd (run_historical_sync_once vs all_dms jids view sd))"
| scan: "sync_step sd (snd (run_gap_scan_once vs view jids sd))"
| replay: "sync_step sd (sd\<lparr>sy_msg := do_replay ev ws (sy_msg sd)\<rparr>)"
| delivered: "sync_step sd (sd\<lparr>sy_msg := snd (ingest_message e rq (sy_msg sd))\<rparr>)"

definition cp_key :: "checkpoint \<Rightarrow> string \<times> string \<times> string" where
  "cp_key c = (cp_source c, cp_number c, cp_chat c)"

definition sync_inv :: "sync_db \<Rightarrow> bool" where
  "sync_inv sd \<longleftrightarrow> archive_inv (sy_msg sd) \<and> distinct (map cp_key (sy_checks sd))"

definition sync_start :: "sync_db \<Rightarrow> bool" where
  "sync_start sd \<longleftrightarrow> md_msgs (sy_msg sd) = [] \<and> md_proc (sy_msg sd) = [] \<and> sy_checks sd = []"

lemma extends_inv: "extends db db' \<Longrightarrow> archive_inv db \<Longrightarrow> archive_inv db'"
  by (simp add: extends_def)

lemma replay_extends: "extends db (do_replay ev ws db)"
  by (induction ws arbitrary: db) (auto intro: extends_trans ingest_extends)

lemma update_checkpoint_keys:
  "distinct (map cp_key (sy_checks sd)) \<Longrightarrow> distinct (map cp_key (sy_checks (update_checkpoint e br jid i ts n sd)))"
  "distinct (map cp_key (sy_checks sd)) \<Longrightarrow> distinct (map cp_key (sy_checks (touch_checkpoint e br jid sd)))"
proof -
  have up: "map cp_key (update_where (cp_of br jid) f t) = map cp_key t" if "\<And>c. cp_key (f c) = cp_key c" for f t
    by (rule map_key_update_where) (rule that)
  assume d: "distinct (map cp_key (sy_checks sd))"
  show "distinct (map cp_key (sy_checks (touch_checkpoint e br jid sd)))"
    unfolding touch_checkpoint_def using d by (simp, subst up) (simp_all add: cp_key_def)
  show "distinct (map cp_key (sy_checks (update_checkpoint e br jid i ts n sd)))"
  proof (cases "has_row (cp_of br jid) (sy_checks sd)")
    case True
    then show ?thesis unfolding update_checkpoint_def using d by (simp, subst up) (simp_all add: cp_key_def)
  next
    case False
    then show ?thesis using d by (auto simp: update_checkpoint_def has_row_iff cp_of_def cp_key_def)
  qed
qed

lemma sync_chat_inv: "sync_inv sd \<Longrightarrow> sync_inv (snd (sync_chat v br lids store jid sd))"
proof -
  assume inv: "sync_inv sd"
  let ?rows = "fetch_messages jid (case get_checkpoint br jid sd of None \<Rightarrow> None | Some c \<Rightarrow> cp_last_ts c) store"
  obtain x db1 where r: "sync_rows (se_rows v) br lids jid ?rows 0 (sy_msg sd) = (x, db1)" by fastforce
  have "archive_inv db1"
    using extends_inv [OF sync_rows_extends [of "sy_msg sd" "se_rows v" br lids jid ?rows 0]] r inv by (simp add: sync_inv_def)
  then have inv1: "sync_inv (sd\<lparr>sy_msg := db1\<rparr>)" using inv by (simp add: sync_inv_def)
  have msg: "sy_msg (update_checkpoint e br jid i ts n sd1) = sy_msg sd1" "sy_msg (touch_checkpoint e br jid sd1) = sy_msg sd1" for e i ts n sd1
    by (simp_all add: update_checkpoint_def touch_checkpoint_def)
  have up: "sync_inv (update_checkpoint e br jid i ts n sd1)" "sync_inv (touch_checkpoint e br jid sd1)" if "sync_inv sd1" for e i ts n sd1
    using that update_checkpoint_keys [of sd1] by (simp_all add: sync_inv_def msg)
  show ?thesis using inv inv1 r up by (simp add: sync_chat_def Let_def split: option.split)
qed

lemma sync_bridge_inv: "sync_inv sd \<Longrightarrow> sync_inv (snd (sync_bridge vs br lids store jids n sd))"
proof (induction jids arbitrary: n sd)
  case (Cons jid jids)
  have "sync_inv (snd (sync_chat (vs jid) br lids (store jid) jid sd))" by (rule sync_chat_inv [OF Cons.prems])
  then show ?case using Cons.IH by (auto split: prod.split option.split)
qed simp

lemma scan_inv: "sync_inv sd \<Longrightarrow> sync_inv (snd (scan_bridge_chat v br lids store jid sd))"
proof -
  assume inv: "sync_inv sd"
  have rec: "sync_inv (snd (record_run e run sd1))" if "sync_inv sd1" for e run sd1
    using that by (simp add: record_run_def sync_inv_def)
  have rows: "sync_inv (sd\<lparr>sy_msg := snd (gap_rows (se_rows v) br lids jid rs bk (sy_msg sd))\<rparr>)" for rs bk
    using inv extends_inv [OF gap_rows_extends] by (simp add: sync_inv_def)
  show ?thesis
    by (simp add: scan_bridge_chat_def Let_def case_prod_beta rec rows inv)
qed

lemma scan_chats_inv: "sync_inv sd \<Longrightarrow> sync_inv (snd (scan_chats vs view cs sd))"
proof (induction cs arbitrary: sd)
  case (Cons c cs)
  obtain br jid where c: "c = (br, jid)" by fastforce
  have "sync_inv (snd (scan_bridge_chat (vs br jid) br (bv_lids (view br)) (bv_store (view br) jid) jid sd))" by (rule scan_inv [OF Cons.prems])
  then show ?case using Cons.IH by (auto simp: c split: prod.split bool.split)
qed simp

interpretation sync_system: invariant_system sync_start sync_step sync_inv
proof unfold_locales
  show "sync_start s \<Longrightarrow> sync_inv s" for s by (simp add: sync_start_def sync_inv_def archive_inv_def)
  show "sync_step s t \<Longrightarrow> sync_inv s \<Longrightarrow> sync_inv t" for s t
  proof (induction rule: sync_step.induct)
    case (pass sd vs all_dms jids view)
    have "sync_inv (snd (sync_bridge u br l st js n sd1))" if "sync_inv sd1" for u br l st js n sd1 by (rule sync_bridge_inv [OF that])
    with pass show ?case by (auto simp: run_historical_sync_once_def Let_def split: prod.split option.split) (metis snd_conv)+
  next
    case (scan sd vs view jids)
    then show ?case by (simp add: run_gap_scan_once_def scan_chats_inv)
  next
    case (replay sd ev ws)
    then show ?case using extends_inv [OF replay_extends] by (simp add: sync_inv_def)
  next
    case (delivered sd e rq)
    then show ?case using extends_inv [OF ingest_extends] by (simp add: sync_inv_def)
  qed
qed

lemma extends_prefix: "extends db db' \<Longrightarrow> prefix (md_msgs db) (md_msgs db')"
  by (simp add: extends_def)

lemma chat_grows: "prefix (md_msgs (sy_msg sd)) (md_msgs (sy_msg (snd (sync_chat v br lids store jid sd))))"
proof -
  let ?rows = "fetch_messages jid (case get_checkpoint br jid sd of None \<Rightarrow> None | Some c \<Rightarrow> cp_last_ts c) store"
  obtain x db1 where r: "sync_rows (se_rows v) br lids jid ?rows 0 (sy_msg sd) = (x, db1)" by fastforce
  then have "prefix (md_msgs (sy_msg sd)) (md_msgs db1)"
    using extends_prefix [OF sync_rows_extends [of "sy_msg sd" "se_rows v" br lids jid ?rows 0]] by simp
  moreover have "sy_msg (update_checkpoint e br jid i ts n sd1) = sy_msg sd1" "sy_msg (touch_checkpoint e br jid sd1) = sy_msg sd1" for e i ts n sd1
    by (simp_all add: update_checkpoint_def touch_checkpoint_def)
  ultimately show ?thesis using r by (simp add: sync_chat_def Let_def split: option.split)
qed

lemma bridge_grows: "prefix (md_msgs (sy_msg sd)) (md_msgs (sy_msg (snd (sync_bridge vs br lids store jids n sd))))"
proof (induction jids arbitrary: n sd)
  case (Cons jid jids)
  obtain x sd1 where c: "sync_chat (vs jid) br lids (store jid) jid sd = (x, sd1)" by fastforce
  then have "prefix (md_msgs (sy_msg sd)) (md_msgs (sy_msg sd1))"
    using chat_grows [of sd "vs jid" br lids "store jid" jid] by simp
  then show ?case using Cons.IH [where sd = sd1] c by (auto intro: prefix_order.trans split: option.split)
qed simp

lemma scan_grows: "prefix (md_msgs (sy_msg sd)) (md_msgs (sy_msg (snd (scan_bridge_chat v br lids store jid sd))))"
  using extends_prefix [OF gap_rows_extends] by (simp add: scan_bridge_chat_def record_run_def Let_def case_prod_beta)

lemma scans_grow: "prefix (md_msgs (sy_msg sd)) (md_msgs (sy_msg (snd (scan_chats vs view cs sd))))"
proof (induction cs arbitrary: sd)
  case (Cons c cs)
  obtain br jid where c: "c = (br, jid)" by fastforce
  obtain x sd1 where s: "scan_bridge_chat (vs br jid) br (bv_lids (view br)) (bv_store (view br) jid) jid sd = (x, sd1)" by fastforce
  then have "prefix (md_msgs (sy_msg sd)) (md_msgs (sy_msg sd1))"
    using scan_grows [of sd "vs br jid" br "bv_lids (view br)" "bv_store (view br) jid" jid] by simp
  then show ?case using Cons.IH [where sd = sd1] c s by (auto intro: prefix_order.trans split: bool.split)
qed simp

lemma sync_step_grows: "sync_step s t \<Longrightarrow> prefix (md_msgs (sy_msg s)) (md_msgs (sy_msg t))"
proof (induction rule: sync_step.induct)
  case (pass sd vs all_dms jids view)
  let ?run = "\<lambda>br. sync_bridge (vs br) br (bv_lids (view br)) (bv_store (view br)) (bridge_jids all_dms jids br (view br)) 0"
  obtain x sd1 where 1: "?run BRIDGE1 sd = (x, sd1)" by fastforce
  obtain y sd2 where 2: "?run BRIDGE2 sd1 = (y, sd2)" by fastforce
  have "prefix (md_msgs (sy_msg sd)) (md_msgs (sy_msg sd1))" "prefix (md_msgs (sy_msg sd1)) (md_msgs (sy_msg sd2))"
    using bridge_grows [of sd] bridge_grows [of sd1] 1 2 by (metis snd_conv)+
  then show ?case using 1 2 by (auto simp: run_historical_sync_once_def Let_def intro: prefix_order.trans split: option.split)
qed (simp_all add: run_gap_scan_once_def scans_grow extends_prefix [OF replay_extends] extends_prefix [OF ingest_extends])

text \<open>
  C9: A message of a bridge is archived once, whichever ways it comes. Over any sequence of
  synchronisation passes, gap scans, replays and direct deliveries, with statements failing at any
  point, no two rows of the archive have the same message id and source, row ids are unique, every
  processing state belongs to one archived message, and every chat of a bridge has one checkpoint; and
  whatever follows, the rows of the archive stay as they are, in their order. A replay
  gives its messages ids of their own, so the same text can be there under two ids (\<open>replay_stores_again\<close>).
\<close>

theorem archived_once:
  assumes "reach sync_start sync_step sd"
  shows "distinct (map (\<lambda>m. (fm_wa_id m, fm_source m)) (md_msgs (sy_msg sd))) \<and> distinct (map fm_id (md_msgs (sy_msg sd)))
    \<and> distinct (map ps_msg (md_proc (sy_msg sd)))
    \<and> (\<forall>p\<in>set (md_proc (sy_msg sd)). \<exists>m\<in>set (md_msgs (sy_msg sd)). fm_id m = ps_msg p)
    \<and> distinct (map cp_key (sy_checks sd))
    \<and> (\<forall>sd'. sync_step\<^sup>*\<^sup>* sd sd' \<longrightarrow> prefix (md_msgs (sy_msg sd)) (md_msgs (sy_msg sd')))"
proof -
  have "prefix (md_msgs (sy_msg sd)) (md_msgs (sy_msg sd'))" if "sync_step\<^sup>*\<^sup>* sd sd'" for sd'
    using that by (induction rule: rtranclp_induct) (auto dest: sync_step_grows intro: prefix_order.trans)
  moreover have inv: "archive_inv (sy_msg sd)" "distinct (map cp_key (sy_checks sd))"
    using sync_system.reach_inv [OF assms] by (simp_all add: sync_inv_def)
  moreover have "\<exists>m\<in>set (md_msgs (sy_msg sd)). fm_id m = ps_msg p" if "p \<in> set (md_proc (sy_msg sd))" for p
    using inv(1) that unfolding archive_inv_def by fastforce
  ultimately show ?thesis by (simp add: archive_inv_def)
qed

subsection \<open>Examples\<close>

definition sample_row :: sq_row where
  "sample_row = \<lparr>sq_id = ''m1'', sq_chat = ''c'', sq_sender = None, sq_content = Some ''x'', sq_text = None, sq_me = True,
     sq_when = Some (secs 7), sq_ts = Some (secs 7), sq_day = Date 2026 5 7\<rparr>"

definition sample_sync :: sync_env where
  "sample_sync = \<lparr>se_main = env_at 5, se_rows = (\<lambda>_. env_at 5)\<rparr>"

definition empty_sync :: sync_db where
  "empty_sync = \<lparr>sy_msg = \<lparr>md_msgs = [], md_next = 1, md_proc = [], md_results = [], md_unmatched = []\<rparr>, sy_checks = [], sy_runs = []\<rparr>"

lemma sample_sync_facts:
  "quiet_sync sample_sync" "readable_row sample_row" "sq_chat sample_row = ''c''" "sq_id sample_row = ''m1''"
  "clean_chat ''c'' [sample_row]" "in_chat ''c'' [sample_row] = [sample_row]"
proof -
  have "py_strip ''x'' \<noteq> ''''" by code_simp
  then show "readable_row sample_row" by (simp add: readable_row_def row_text_def sample_row_def py_or_def)
  have "whole_seconds (secs 7) = secs 7" by (simp add: whole_seconds_def secs_def)
  then show "clean_chat ''c'' [sample_row]" by (simp add: clean_chat_def in_chat_def sample_row_def)
qed (simp_all add: quiet_sync_def sample_sync_def sample_row_def in_chat_def)

theorem gap_scan_completes_witness:
  "\<exists>sd' rec. scan_bridge_chat sample_sync BRIDGE2 [] [sample_row] ''c'' empty_sync = (True, sd') \<and> archived BRIDGE2 (sy_msg sd') ''m1''
    \<and> sy_runs sd' = [rec] \<and> gr_missing rec = 1"
proof -
  have "length (in_chat ''c'' [sample_row]) \<le> GAP_SCAN_LIMIT" by (simp add: sample_sync_facts GAP_SCAN_LIMIT_def)
  from gap_scan_completes [OF sample_sync_facts(1) sample_sync_facts(1) this, of BRIDGE2 "[]" empty_sync]
  obtain sd' rec where "scan_bridge_chat sample_sync BRIDGE2 [] [sample_row] ''c'' empty_sync = (True, sd')"
    "sy_runs sd' = sy_runs empty_sync @ [rec]"
    "gr_missing rec = card {i \<in> sq_id ` {r \<in> set [sample_row]. sq_chat r = ''c''}. \<not> archived BRIDGE2 (sy_msg empty_sync) i}"
    "\<forall>r\<in>set [sample_row]. sq_chat r = ''c'' \<and> readable_row r \<longrightarrow> archived BRIDGE2 (sy_msg sd') (sq_id r)" by (elim exE conjE)
  moreover have "{i \<in> sq_id ` {r \<in> set [sample_row]. sq_chat r = ''c''}. \<not> archived BRIDGE2 (sy_msg empty_sync) i} = {''m1''}"
    using sample_sync_facts(3,4) by (auto simp: archived_def empty_sync_def has_row_def)
  ultimately show ?thesis using sample_sync_facts(2-4) by (intro exI [of _ sd'] exI [of _ rec]) (simp add: empty_sync_def)
qed

theorem sync_catches_up_witness:
  "archived BRIDGE2 (sy_msg (sync_passes BRIDGE2 [] [sample_row] ''c'' [sample_sync] empty_sync)) ''m1''"
proof -
  have q: "\<forall>v\<in>set [sample_sync]. quiet_sync v" by (simp add: sample_sync_facts)
  have g: "get_checkpoint BRIDGE2 ''c'' empty_sync = None" by (simp add: get_checkpoint_def empty_sync_def)
  have l: "length (in_chat ''c'' [sample_row]) \<le> length [sample_sync] * SYNC_BATCH" by (simp add: sample_sync_facts SYNC_BATCH_def)
  from sync_catches_up [OF sample_sync_facts(5) q g l, of "[]"] sample_sync_facts(2-4) show ?thesis by (simp del: sync_passes.simps)
qed

theorem archived_once_witness:
  "\<exists>sd :: sync_db. md_msgs (sy_msg sd) \<noteq> [] \<and> distinct (map fm_id (md_msgs (sy_msg sd)))"
proof -
  let ?sd = "empty_sync\<lparr>sy_msg := snd (ingest_message (env_at 5) sample_ingest (sy_msg empty_sync))\<rparr>"
  have "reach sync_start sync_step empty_sync" by (rule reach_start) (simp add: sync_start_def empty_sync_def)
  then have r: "reach sync_start sync_step ?sd" by (rule reach_step) (rule delivered)
  have "md_msgs (sy_msg ?sd) \<noteq> []" by (simp add: ingest_message_def empty_sync_def has_row_def Let_def)
  with archived_once [OF r] show ?thesis by (intro exI [of _ ?sd] conjI) (assumption, elim conjE)
qed

end
