(* ===== verification/FPE_Review.thy ===== *)
theory FPE_Review
  imports FPE_Pipeline
begin

text \<open>
  The routes of the payroll engine that change its state, \<open>fazle_payroll_engine/routes.py\<close>: the review
  queue (promotion into a transaction, dismissal), the requeueing of messages, manual transactions
  and the editing of employees with its soft merge; and the reconciliation of
  \<open>fazle_payroll_engine/reconcile.py\<close>. The rows of the review queue carry here what the reviewer
  sees and changes; \<open>review_row_of\<close> is such a row as the workers store it, with the amount as the
  column \<open>NUMERIC(12,2)\<close> keeps it. The calls of the identity service and of the accounts by other
  routes are those services themselves. Statements that may raise are numbered in the environment of
  a call.
\<close>

subsection \<open>The review queue\<close>

datatype review_status = RV_pending | RV_promoted | RV_dismissed | RV_duplicate

record review_row =
  rv_id :: int
  rv_msg :: int
  rv_reason :: string
  rv_content :: "string option"
  rv_amount :: "int option"
  rv_phone :: "string option"
  rv_name :: "string option"
  rv_method :: "string option"
  rv_date :: "date option"
  rv_status :: review_status
  rv_employee :: "int option"
  rv_txn :: "int option"
  rv_reviewer :: "string option"
  rv_note :: "string option"
  rv_reviewed :: bool

record review_db =
  rd_fpe :: fpe_db
  rd_msg :: msg_db
  rd_rows :: "review_row list"
  rd_next :: int
  rd_audit :: "(int option \<times> string \<times> string) list"

datatype review_error =
  Bad_query
| Row_unknown
| Already_promoted
| No_amount
| Bad_category string
| Cannot_dismiss
| State_unknown
| Review_exception

definition review_row_of :: "int \<Rightarrow> unmatched_row \<Rightarrow> review_row" where
  "review_row_of i u =
     \<lparr>rv_id = i, rv_msg = um_msg u, rv_reason = um_reason u, rv_content = um_content u, rv_amount = map_option cents (um_amount u),
      rv_phone = um_phone u, rv_name = um_name u, rv_method = um_method u, rv_date = um_date u, rv_status = RV_pending,
      rv_employee = None, rv_txn = None, rv_reviewer = None, rv_note = None, rv_reviewed = False\<rparr>"

definition store_review :: "unmatched_row \<Rightarrow> review_db \<Rightarrow> review_db" where
  "store_review u db = db\<lparr>rd_next := rd_next db + 1, rd_rows := rd_rows db @ [review_row_of (rd_next db) u]\<rparr>"

definition review_audit :: "env \<Rightarrow> nat \<Rightarrow> int option \<Rightarrow> string \<Rightarrow> string \<Rightarrow> review_db \<Rightarrow> review_db" where
  \<comment> \<open>\<open>_audit_log\<close>: a failure is swallowed\<close>
  "review_audit e k item action actor db =
     (if raises e k then db else db\<lparr>rd_audit := rd_audit db @ [(item, action, actor)]\<rparr>)"

definition member_category :: "string \<Rightarrow> txn_category option" where
  \<comment> \<open>\<open>TxnCategory(name)\<close>\<close>
  "member_category s =
     map_of [(''salary'', T_salary), (''advance'', T_advance), (''bonus'', T_bonus), (''deduction'', T_deduction),
             (''correction'', T_correction), (''income'', T_income)] s"

record promote_query =
  pq_employee :: int
  pq_reviewer :: string
  pq_method :: "string option"
  pq_date :: "date option"
  pq_category :: string
  pq_amount :: "decimal option"
  pq_note :: "string option"

definition good_query :: "string \<Rightarrow> string option \<Rightarrow> bool" where
  "good_query reviewer note \<longleftrightarrow>
     1 \<le> length reviewer \<and> length reviewer \<le> 128 \<and> (case note of None \<Rightarrow> True | Some n \<Rightarrow> length n \<le> 512)"

definition promote_amount :: "promote_query \<Rightarrow> review_row \<Rightarrow> decimal option" where
  \<comment> \<open>the override, or the detected amount as the column gives it back, with two places\<close>
  "promote_amount q r = (case pq_amount q of Some a \<Rightarrow> Some a | None \<Rightarrow> map_option (\<lambda>c. Dec c 2) (rv_amount r))"

definition promote_request :: "date \<Rightarrow> promote_query \<Rightarrow> review_row \<Rightarrow> decimal \<Rightarrow> txn_category \<Rightarrow> txn_request" where
  "promote_request today q r a cat =
     (let m = the (py_or (py_or (pq_method q) (rv_method r)) (Some ''unknown''))
      in \<lparr>rq_msg = Some (rv_msg r), rq_employee = Some (pq_employee q), rq_name = rv_name r, rq_amount = a, rq_phone = rv_phone r,
          rq_method = (if m \<in> set PAYOUT_METHODS then m else ''unknown''),
          rq_date = (case pq_date q of Some d \<Rightarrow> d | None \<Rightarrow> (case rv_date r of Some d \<Rightarrow> d | None \<Rightarrow> today)),
          rq_category = cat, rq_text = rv_content r, rq_period = None, rq_by = ''review:'' @ pq_reviewer q\<rparr>)"

definition promoted_row :: "promote_query \<Rightarrow> int \<Rightarrow> review_row \<Rightarrow> review_row" where
  "promoted_row q t r =
     r\<lparr>rv_status := RV_promoted, rv_employee := Some (pq_employee q), rv_txn := Some t, rv_reviewer := Some (pq_reviewer q),
       rv_note := (case pq_note q of None \<Rightarrow> rv_note r | Some n \<Rightarrow> Some n), rv_reviewed := True\<rparr>"

definition promote_write :: "env \<Rightarrow> int \<Rightarrow> promote_query \<Rightarrow> int \<Rightarrow> review_db \<Rightarrow> review_db" where
  \<comment> \<open>the \<open>UPDATE ... WHERE id = $1\<close> at the end of a promotion, which looks at nothing but the id\<close>
  "promote_write e i q t db =
     review_audit e 2 (Some i) ''promote'' (pq_reviewer q)
       (db\<lparr>rd_rows := update_where (\<lambda>r. rv_id r = i) (promoted_row q t) (rd_rows db)\<rparr>)"

definition admin_needs_review_promote ::
  "(string \<Rightarrow> string) \<Rightarrow> env \<Rightarrow> env \<Rightarrow> date \<Rightarrow> int \<Rightarrow> promote_query \<Rightarrow> review_db \<Rightarrow> (review_error + int) \<times> review_db" where
  \<comment> \<open>the second environment is that of \<open>create_transaction\<close>\<close>
  "admin_needs_review_promote sha e et today i q db =
     (if \<not> (0 < pq_employee q \<and> good_query (pq_reviewer q) (pq_note q)) then (Inl Bad_query, db)
      else if raises e 0 then (Inl Review_exception, db)
      else case find (\<lambda>r. rv_id r = i) (rd_rows db) of
        None \<Rightarrow> (Inl Row_unknown, db)
      | Some r \<Rightarrow>
          if rv_txn r \<noteq> None \<or> rv_status r = RV_promoted then (Inl Already_promoted, db)
          else (case promote_amount q r of
            None \<Rightarrow> (Inl No_amount, db)
          | Some a \<Rightarrow>
              if dec_val a \<le> 0 then (Inl No_amount, db)
              else (case member_category (pq_category q) of
                None \<Rightarrow> (Inl (Bad_category (pq_category q)), db)
              | Some cat \<Rightarrow>
                  (case create_transaction sha et (promote_request today q r a cat) (rd_fpe db) of
                    (Inl _, f) \<Rightarrow> (Inl Review_exception, db\<lparr>rd_fpe := f\<rparr>)
                  | (Inr t, f) \<Rightarrow>
                      if raises e 1 then (Inl Review_exception, db\<lparr>rd_fpe := f\<rparr>)
                      else (Inr (tr_id t), promote_write e i q (tr_id t) (db\<lparr>rd_fpe := f\<rparr>))))))"

definition dismissed_row :: "string \<Rightarrow> string \<Rightarrow> bool \<Rightarrow> review_row \<Rightarrow> review_row" where
  "dismissed_row reviewer reason dup r =
     r\<lparr>rv_status := (if dup then RV_duplicate else RV_dismissed), rv_reviewer := Some reviewer, rv_note := Some reason,
       rv_reviewed := True\<rparr>"

definition dismiss_write :: "env \<Rightarrow> int \<Rightarrow> string \<Rightarrow> string \<Rightarrow> bool \<Rightarrow> review_db \<Rightarrow> review_db" where
  "dismiss_write e i reviewer reason dup db =
     review_audit e 2 (Some i) (if dup then ''duplicate'' else ''dismiss'') reviewer
       (db\<lparr>rd_rows := update_where (\<lambda>r. rv_id r = i) (dismissed_row reviewer reason dup) (rd_rows db)\<rparr>)"

definition admin_needs_review_dismiss ::
  "env \<Rightarrow> int \<Rightarrow> string \<Rightarrow> string \<Rightarrow> bool \<Rightarrow> review_db \<Rightarrow> (review_error + review_status) \<times> review_db" where
  "admin_needs_review_dismiss e i reviewer reason dup db =
     (if \<not> (good_query reviewer (Some reason) \<and> reason \<noteq> '''') then (Inl Bad_query, db)
      else if raises e 0 then (Inl Review_exception, db)
      else case find (\<lambda>r. rv_id r = i) (rd_rows db) of
        None \<Rightarrow> (Inl Row_unknown, db)
      | Some r \<Rightarrow>
          if rv_status r = RV_promoted then (Inl Cannot_dismiss, db)
          else if raises e 1 then (Inl Review_exception, db)
          else (Inr (if dup then RV_duplicate else RV_dismissed), dismiss_write e i reviewer reason dup db))"

definition mark_reviewed :: "env \<Rightarrow> int \<Rightarrow> review_db \<Rightarrow> bool \<times> review_db" where
  "mark_reviewed e i db =
     (if raises e 0 then (False, db)
      else (True, db\<lparr>rd_rows := update_where (\<lambda>r. rv_id r = i) (\<lambda>r. r\<lparr>rv_reviewed := True\<rparr>) (rd_rows db)\<rparr>))"

definition admin_dlq_requeue :: "env \<Rightarrow> int \<Rightarrow> string \<Rightarrow> bool \<Rightarrow> review_db \<Rightarrow> (review_error + nat) \<times> review_db" where
  \<comment> \<open>the status of the message is not looked at\<close>
  "admin_dlq_requeue e i reviewer reset db =
     (if \<not> good_query reviewer None then (Inl Bad_query, db)
      else if raises e 0 then (Inl Review_exception, db)
      else case find (\<lambda>p. ps_msg p = i) (md_proc (rd_msg db)) of
        None \<Rightarrow> (Inl State_unknown, db)
      | Some p \<Rightarrow>
          if raises e 1 then (Inl Review_exception, db)
          else (let n = (if reset then 0 else ps_attempts p); m = rd_msg db
                in (Inr n, review_audit e 2 None ''dlq_requeue'' reviewer
                      (db\<lparr>rd_msg := m\<lparr>md_proc := update_where (\<lambda>p. ps_msg p = i)
                              (\<lambda>p. p\<lparr>ps_status := PS_pending, ps_attempts := n, ps_error := None\<rparr>) (md_proc m)\<rparr>\<rparr>))))"

record manual_request =
  mq_employee :: int
  mq_amount :: decimal
  mq_method :: string
  mq_phone :: "string option"
  mq_date :: date
  mq_category :: txn_category
  mq_reason :: string

definition manual_txn_request :: "manual_request \<Rightarrow> txn_request" where
  "manual_txn_request m =
     \<lparr>rq_msg = None, rq_employee = Some (mq_employee m), rq_name = None, rq_amount = mq_amount m, rq_phone = mq_phone m,
      rq_method = mq_method m, rq_date = mq_date m, rq_category = mq_category m, rq_text = Some (''manual: '' @ mq_reason m),
      rq_period = None, rq_by = ''admin_manual''\<rparr>"

definition create_manual_txn ::
  "(string \<Rightarrow> string) \<Rightarrow> env \<Rightarrow> manual_request \<Rightarrow> review_db \<Rightarrow> (fpe_error + transaction_row) \<times> review_db" where
  "create_manual_txn sha e m db =
     (case create_transaction sha e (manual_txn_request m) (rd_fpe db) of (x, f) \<Rightarrow> (x, db\<lparr>rd_fpe := f\<rparr>))"

subsection \<open>Reconciliation\<close>

definition TOLERANCE :: rat where "TOLERANCE = 1 / 100"

definition msg_selected :: "string option \<Rightarrow> string option \<Rightarrow> fpe_message \<Rightarrow> bool" where
  "msg_selected period source m \<longleftrightarrow>
     (case present period of None \<Rightarrow> True | Some p \<Rightarrow> period_from_date (fm_date m) = p)
     \<and> (case present source of None \<Rightarrow> True | Some s \<Rightarrow> fm_source m = s)"

fun sum_texts :: "string list \<Rightarrow> rat option" where
  \<comment> \<open>the sum of amounts kept as text; the statement raises when one is not a number\<close>
  "sum_texts [] = Some 0"
| "sum_texts (s # ss) = (case (parse_decimal s, sum_texts ss) of (Some d, Some x) \<Rightarrow> Some (dec_val d + x) | _ \<Rightarrow> None)"

definition counted_result :: "string option \<Rightarrow> string option \<Rightarrow> msg_db \<Rightarrow> parser_row \<Rightarrow> string list" where
  "counted_result period source db r =
     (case message_of (pr_msg r) db of
        None \<Rightarrow> []
      | Some m \<Rightarrow>
          if pr_type r = ''payment'' \<and> fm_from_me m \<and> msg_selected period source m
          then (case pd_get ''amount'' (pr_data r) of None \<Rightarrow> [] | Some s \<Rightarrow> [s]) else [])"

definition parser_sum :: "string option \<Rightarrow> string option \<Rightarrow> msg_db \<Rightarrow> rat option" where
  "parser_sum period source db = sum_texts (concat (map (counted_result period source db) (md_results db)))"

definition ledger_sum :: "string option \<Rightarrow> fpe_db \<Rightarrow> int" where
  "ledger_sum period f =
     sum_list (map tx_amount (filter (\<lambda>x. \<not> tx_is_reversal x \<and> (case present period of None \<Rightarrow> True | Some p \<Rightarrow> tx_period x = p)) (fp_txns f)))"

definition counted_review :: "string option \<Rightarrow> string option \<Rightarrow> msg_db \<Rightarrow> review_row \<Rightarrow> int" where
  "counted_review period source db r =
     (case message_of (rv_msg r) db of
        None \<Rightarrow> 0
      | Some m \<Rightarrow> if rv_status r = RV_pending \<and> msg_selected period source m then (case rv_amount r of None \<Rightarrow> 0 | Some c \<Rightarrow> c) else 0)"

definition unmatched_sum :: "string option \<Rightarrow> string option \<Rightarrow> review_db \<Rightarrow> int" where
  "unmatched_sum period source db = sum_list (map (counted_review period source (rd_msg db)) (rd_rows db))"

definition compute_reconciliation :: "string option \<Rightarrow> string option \<Rightarrow> review_db \<Rightarrow> (rat \<times> bool) option" where
  \<comment> \<open>the difference and the verdict\<close>
  "compute_reconciliation period source db =
     (case parser_sum period source (rd_msg db) of
        None \<Rightarrow> None
      | Some p \<Rightarrow>
          (let delta = p - of_int (ledger_sum period (rd_fpe db) + unmatched_sum period source db) / 100
           in Some (delta, \<bar>delta\<bar> \<le> TOLERANCE)))"

subsection \<open>Editing an employee\<close>

record employee_patch =
  up_name :: "string option"
  up_primary :: "string option"
  up_id_phone :: "string option"
  up_aliases :: "(string option \<times> string option) list"

definition merge_target :: "fpe_employee \<Rightarrow> string option \<Rightarrow> fpe_employee list \<Rightarrow> int option" where
  "merge_target m newid emps =
     (case present newid of
        None \<Rightarrow> None
      | Some p \<Rightarrow>
          if em_id_phone m = Some p then None
          else (case find (\<lambda>n. em_id_phone n = Some p \<and> em_id n \<noteq> em_id m \<and> is_active n) emps of
                  None \<Rightarrow> None
                | Some x \<Rightarrow> (let t = em_id (resolve_canonical emps x) in if t \<noteq> em_id m then Some t else None)))"

definition patched_employee :: "employee_patch \<Rightarrow> int option \<Rightarrow> fpe_employee \<Rightarrow> fpe_employee" where
  "patched_employee p target m =
     m\<lparr>em_name := (case up_name p of None \<Rightarrow> em_name m | Some n \<Rightarrow> py_strip n),
       em_norm := (case up_name p of None \<Rightarrow> em_norm m | Some n \<Rightarrow> normalize_name (Some n)),
       em_phone := (case bd_phone (up_primary p) of None \<Rightarrow> em_phone m | Some x \<Rightarrow> Some x),
       em_id_phone := (case (bd_phone (up_id_phone p), target) of (Some x, None) \<Rightarrow> Some x | _ \<Rightarrow> em_id_phone m),
       em_canonical := (case target of None \<Rightarrow> em_canonical m | Some t \<Rightarrow> Some t)\<rparr>"

definition patch_changes :: "employee_patch \<Rightarrow> int option \<Rightarrow> bool" where
  "patch_changes p target \<longleftrightarrow> up_name p \<noteq> None \<or> bd_phone (up_primary p) \<noteq> None \<or> bd_phone (up_id_phone p) \<noteq> None"

definition wanted_aliases :: "(string option \<times> string option) list \<Rightarrow> (string \<times> string) list" where
  "wanted_aliases xs =
     List.map_filter (\<lambda>(ty, v).
       case (present ty, present v) of
         (Some t, Some w) \<Rightarrow>
           if t = ''phone'' then Some (t, case bd_phone (Some w) of None \<Rightarrow> w | Some x \<Rightarrow> x)
           else if t = ''name'' then Some (t, let n = normalize_name (Some w) in if n = '''' then w else n)
           else if t = ''employee_id'' then Some (t, w) else None
       | _ \<Rightarrow> None) xs"

definition old_identity :: "fpe_employee \<Rightarrow> (string \<times> string) list" where
  "old_identity m =
     filter (\<lambda>(t, v). v \<noteq> '''')
       ((case em_phone m of None \<Rightarrow> [] | Some x \<Rightarrow> [(''phone'', x)]) @
        (case em_id_phone m of None \<Rightarrow> [] | Some x \<Rightarrow> [(''phone'', x)]) @ [(''name'', em_norm m)])"

definition alias_stmt :: "int \<Rightarrow> string \<times> string \<Rightarrow> identity_db \<Rightarrow> identity_db" where
  "alias_stmt i x db = db\<lparr>id_aliases := insert_alias i (fst x) (snd x) (id_aliases db)\<rparr>"

definition update_employee ::
  "env \<Rightarrow> int \<Rightarrow> employee_patch \<Rightarrow> identity_db \<Rightarrow> (identity_error + int \<times> int option) \<times> identity_db" where
  \<comment> \<open>statement 0 reads, 1 updates the row (a cleared name violates the column's constraint), the
    others insert aliases\<close>
  "update_employee e i p db =
     (if raises e 0 then (Inl Identity_exception, db)
      else case get_employee_by_id i db of
        None \<Rightarrow> (Inl Employee_not_found, db)
      | Some m \<Rightarrow>
          (let target = merge_target m (bd_phone (up_id_phone p)) (id_emps db);
               final = (case target of None \<Rightarrow> i | Some t \<Rightarrow> t);
               aliases = wanted_aliases (up_aliases p) @ (if target = None then [] else old_identity m)
           in if patch_changes p target \<and> (raises e 1 \<or> up_name p = Some '''') then (Inl Identity_exception, db)
              else let db1 = (if patch_changes p target
                              then db\<lparr>id_emps := update_where (\<lambda>n. em_id n = i) (patched_employee p target) (id_emps db)\<rparr> else db)
                   in case run_stmts e 2 (map (alias_stmt final) aliases) db1 of
                        (True, db2) \<Rightarrow> (Inr (final, target), db2)
                      | (False, db2) \<Rightarrow> (Inl Identity_exception, db2)))"

subsection \<open>The life of a review row\<close>

lemma create_txns_grow: "set (fp_txns db) \<subseteq> set (fp_txns (snd (create_transaction sha e req db)))"
  by (auto simp: create_transaction_def Let_def split: option.split)

lemma create_out_grow: "create_transaction sha e req db = (x, f) \<Longrightarrow> set (fp_txns db) \<subseteq> set (fp_txns f)"
  using create_txns_grow [of db sha e req] by simp

lemma reverse_txns_grow: "set (fp_txns db) \<subseteq> set (fp_txns (snd (reverse_transaction e i why w db)))"
  by (auto simp: reverse_transaction_def Let_def split: option.split)

lemma create_txn_stored:
  "create_transaction sha e req db = (Inr t, f) \<Longrightarrow> tr_id t \<in> tx_id ` set (fp_txns f)"
  by (auto simp: create_transaction_def Let_def row_to_model_def dest!: find_Some_mem split: option.splits if_splits)

lemma review_audit_frame [simp]:
  "rd_rows (review_audit e k x a w db) = rd_rows db" "rd_fpe (review_audit e k x a w db) = rd_fpe db"
  "rd_next (review_audit e k x a w db) = rd_next db" "rd_msg (review_audit e k x a w db) = rd_msg db"
  by (simp_all add: review_audit_def)

lemma rv_id_changed [simp]:
  "rv_id (promoted_row q t r) = rv_id r" "rv_id (dismissed_row w why dup r) = rv_id r"
  by (simp_all add: promoted_row_def dismissed_row_def)

lemma review_writes_frame [simp]:
  "rd_rows (promote_write e i q t db) = update_where (\<lambda>r. rv_id r = i) (promoted_row q t) (rd_rows db)"
  "rd_rows (dismiss_write e i w why dup db) = update_where (\<lambda>r. rv_id r = i) (dismissed_row w why dup) (rd_rows db)"
  "rd_fpe (promote_write e i q t db) = rd_fpe db" "rd_fpe (dismiss_write e i w why dup db) = rd_fpe db"
  "rd_next (promote_write e i q t db) = rd_next db" "rd_next (dismiss_write e i w why dup db) = rd_next db"
  "rd_msg (promote_write e i q t db) = rd_msg db" "rd_msg (dismiss_write e i w why dup db) = rd_msg db"
  by (simp_all add: promote_write_def dismiss_write_def)

lemma promote_frame [simp]: "rd_next (snd (admin_needs_review_promote sha e et today i q db)) = rd_next db"
  by (auto simp: admin_needs_review_promote_def split: option.split prod.split sum.split)

lemma promote_cases:
  "(\<exists>err. fst (admin_needs_review_promote sha e et today i q db) = Inl err)
     \<and> rd_rows (snd (admin_needs_review_promote sha e et today i q db)) = rd_rows db
   \<or> (\<exists>r t. find (\<lambda>r. rv_id r = i) (rd_rows db) = Some r \<and> rv_txn r = None \<and> rv_status r \<noteq> RV_promoted
        \<and> fst (admin_needs_review_promote sha e et today i q db) = Inr t
        \<and> t \<in> tx_id ` set (fp_txns (rd_fpe (snd (admin_needs_review_promote sha e et today i q db))))
        \<and> rd_rows (snd (admin_needs_review_promote sha e et today i q db))
            = update_where (\<lambda>r. rv_id r = i) (promoted_row q t) (rd_rows db))"
  by (auto simp: admin_needs_review_promote_def dest: create_txn_stored split: option.split prod.split sum.split)

lemma promote_txns_grow:
  "set (fp_txns (rd_fpe db)) \<subseteq> set (fp_txns (rd_fpe (snd (admin_needs_review_promote sha e et today i q db))))"
  by (auto simp: admin_needs_review_promote_def dest!: create_out_grow split: option.split prod.split sum.split)

definition linked_row :: "fpe_db \<Rightarrow> review_row \<Rightarrow> bool" where
  "linked_row f r \<longleftrightarrow>
     (rv_status r = RV_promoted \<longrightarrow> rv_txn r \<noteq> None) \<and> (\<forall>t. rv_txn r = Some t \<longrightarrow> t \<in> tx_id ` set (fp_txns f))"

definition review_inv :: "review_db \<Rightarrow> bool" where
  "review_inv db \<longleftrightarrow> distinct (map rv_id (rd_rows db)) \<and> (\<forall>r\<in>set (rd_rows db). rv_id r < rd_next db \<and> linked_row (rd_fpe db) r)"

lemma linked_mono: "set (fp_txns f) \<subseteq> set (fp_txns g) \<Longrightarrow> linked_row f r \<Longrightarrow> linked_row g r"
  unfolding linked_row_def by blast

lemma review_inv_update:
  assumes "review_inv db" "rd_rows db' = update_where (\<lambda>r. rv_id r = i) h (rd_rows db)" "rd_next db' = rd_next db"
    and "set (fp_txns (rd_fpe db)) \<subseteq> set (fp_txns (rd_fpe db'))" "\<And>r. rv_id (h r) = rv_id r"
    and "\<And>r. r \<in> set (rd_rows db) \<Longrightarrow> rv_id r = i \<Longrightarrow> linked_row (rd_fpe db') (h r)"
  shows "review_inv db'"
  using assms(1,6) linked_mono [OF assms(4)] unfolding review_inv_def assms(2,3) ball_update_where
  by (auto simp: map_key_update_where [where key = rv_id] assms(5))

lemma review_inv_same:
  assumes "review_inv db" "rd_rows db' = rd_rows db" "rd_next db' = rd_next db"
    and "set (fp_txns (rd_fpe db)) \<subseteq> set (fp_txns (rd_fpe db'))"
  shows "review_inv db'"
  using assms(1) linked_mono [OF assms(4)] by (simp add: review_inv_def assms(2,3))

lemma promote_inv: "review_inv db \<Longrightarrow> review_inv (snd (admin_needs_review_promote sha e et today i q db))"
  using promote_cases [of sha e et today i q db]
proof (elim disjE exE conjE)
  fix r t
  let ?db = "snd (admin_needs_review_promote sha e et today i q db)"
  assume inv: "review_inv db" and t: "t \<in> tx_id ` set (fp_txns (rd_fpe ?db))"
    and rows: "rd_rows ?db = update_where (\<lambda>r. rv_id r = i) (promoted_row q t) (rd_rows db)"
  show ?thesis
    by (rule review_inv_update [OF inv rows promote_frame promote_txns_grow])
      (simp, use t in \<open>simp add: linked_row_def promoted_row_def\<close>)
qed (simp add: review_inv_same promote_txns_grow)

lemma dismiss_cases:
  "(\<exists>err. admin_needs_review_dismiss e i w why dup db = (Inl err, db))
   \<or> (\<exists>r st. find (\<lambda>r. rv_id r = i) (rd_rows db) = Some r \<and> rv_status r \<noteq> RV_promoted
        \<and> fst (admin_needs_review_dismiss e i w why dup db) = Inr st
        \<and> rd_rows (snd (admin_needs_review_dismiss e i w why dup db)) = update_where (\<lambda>r. rv_id r = i) (dismissed_row w why dup) (rd_rows db)
        \<and> rd_next (snd (admin_needs_review_dismiss e i w why dup db)) = rd_next db
        \<and> rd_fpe (snd (admin_needs_review_dismiss e i w why dup db)) = rd_fpe db)"
  by (auto simp: admin_needs_review_dismiss_def split: option.split)

lemma promote_write_inv:
  "review_inv db \<Longrightarrow> t \<in> tx_id ` set (fp_txns (rd_fpe db)) \<Longrightarrow> review_inv (promote_write e i q t db)"
  by (rule review_inv_update [OF _ review_writes_frame(1)]) (auto simp: linked_row_def promoted_row_def)

lemma dismiss_write_inv: "review_inv db \<Longrightarrow> review_inv (dismiss_write e i w why dup db)"
  by (rule review_inv_update [OF _ review_writes_frame(2)]) (auto simp: review_inv_def linked_row_def dismissed_row_def)

lemma dismiss_inv: "review_inv db \<Longrightarrow> review_inv (snd (admin_needs_review_dismiss e i w why dup db))"
  by (simp add: admin_needs_review_dismiss_def dismiss_write_inv split: option.split)

lemma mark_reviewed_inv: "review_inv db \<Longrightarrow> review_inv (snd (mark_reviewed e i db))"
  by (auto simp: mark_reviewed_def review_inv_def ball_update_where map_key_update_where [where key = rv_id] linked_row_def)

lemma requeue_frame [simp]:
  "rd_rows (snd (admin_dlq_requeue e i w z db)) = rd_rows db" "rd_next (snd (admin_dlq_requeue e i w z db)) = rd_next db"
  "rd_fpe (snd (admin_dlq_requeue e i w z db)) = rd_fpe db"
  by (simp_all add: admin_dlq_requeue_def Let_def split: option.split)

lemma manual_frame [simp]:
  "snd (create_manual_txn sha e m db) = db\<lparr>rd_fpe := snd (create_transaction sha e (manual_txn_request m) (rd_fpe db))\<rparr>"
  by (simp add: create_manual_txn_def split: prod.split)

text \<open>
  A request of the routes is one step when no other overlaps with it (\<open>review_call\<close>). A promotion reads the
  row, books and then writes it by its id, a dismissal reads and then writes, without a lock, so other
  requests can come between: \<open>review_step\<close> adds the writes as steps of their own that may come at any time after
  the decision was taken, the promotion's with any transaction stored by then. A booking decided earlier is
  the step \<open>booked\<close>, which takes any request.
\<close>

inductive review_call :: "review_db \<Rightarrow> review_db \<Rightarrow> bool" where
  stored: "review_call db (store_review u db)"
| promoted: "review_call db (snd (admin_needs_review_promote sha e et today i q db))"
| dismissed: "review_call db (snd (admin_needs_review_dismiss e i w why dup db))"
| marked: "review_call db (snd (mark_reviewed e i db))"
| requeued: "review_call db (snd (admin_dlq_requeue e i w z db))"
| manual: "review_call db (snd (create_manual_txn sha e m db))"
| booked: "review_call db (db\<lparr>rd_fpe := snd (create_transaction sha e req (rd_fpe db))\<rparr>)"
| reversed: "review_call db (db\<lparr>rd_fpe := snd (reverse_transaction e i why w (rd_fpe db))\<rparr>)"
| worked: "review_call db (db\<lparr>rd_msg := m\<rparr>)"

inductive review_step :: "review_db \<Rightarrow> review_db \<Rightarrow> bool" where
  called: "review_call db db' \<Longrightarrow> review_step db db'"
| promote_written: "t \<in> tx_id ` set (fp_txns (rd_fpe db)) \<Longrightarrow> review_step db (promote_write e i q t db)"
| dismiss_written: "review_step db (dismiss_write e i w why dup db)"

definition review_start :: "review_db \<Rightarrow> bool" where
  "review_start db \<longleftrightarrow> rd_rows db = []"

lemma review_call_inv: "review_call s t \<Longrightarrow> review_inv s \<Longrightarrow> review_inv t"
proof (induction rule: review_call.induct)
  case (stored db u)
  then show ?case by (auto simp: store_review_def review_inv_def linked_row_def review_row_of_def)
qed (simp_all add: promote_inv dismiss_inv mark_reviewed_inv review_inv_same create_txns_grow reverse_txns_grow)

interpretation review_system: invariant_system review_start review_step review_inv
proof unfold_locales
  show "review_start s \<Longrightarrow> review_inv s" for s by (simp add: review_start_def review_inv_def)
  show "review_step s t \<Longrightarrow> review_inv s \<Longrightarrow> review_inv t" for s t
    by (induction rule: review_step.induct) (simp_all add: review_call_inv promote_write_inv dismiss_write_inv)
qed

lemma reach_steps: "step\<^sup>*\<^sup>* s t \<Longrightarrow> reach start step s \<Longrightarrow> reach start step t"
  by (induction rule: rtranclp_induct) (auto intro: reach_step)

definition has_txn :: "review_db \<Rightarrow> int \<Rightarrow> bool option" where
  \<comment> \<open>whether the review row carries a transaction\<close>
  "has_txn db i = map_option (\<lambda>r. rv_txn r \<noteq> None) (find (\<lambda>r. rv_id r = i) (rd_rows db))"

lemma has_txn_update:
  assumes "rd_rows db' = update_where (\<lambda>r. rv_id r = i) h (rd_rows db)" "\<And>r. rv_id (h r) = rv_id r"
    and "\<And>r. rv_txn r \<noteq> None \<Longrightarrow> rv_txn (h r) \<noteq> None" and "has_txn db k = Some v"
  shows "\<exists>w. has_txn db' k = Some w \<and> (w = v \<or> \<not> v \<and> w)"
proof -
  obtain r where r: "find (\<lambda>r. rv_id r = k) (rd_rows db) = Some r" "v = (rv_txn r \<noteq> None)"
    using assms(4) by (auto simp: has_txn_def)
  have "has_txn db' k = Some (rv_txn (if rv_id r = i then h r else r) \<noteq> None)"
    by (simp only: has_txn_def assms(1) find_update_where_key [where key = rv_id, OF assms(2)] r(1) option.map)
  then show ?thesis using assms(3) [of r] r(2) by auto
qed

lemma has_txn_same: "rd_rows db' = rd_rows db \<Longrightarrow> has_txn db' k = has_txn db k"
  by (simp add: has_txn_def)

interpretation review_linked: status_machine has_txn review_step "\<lambda>v w. \<not> v \<and> w" "\<lambda>v. v"
proof unfold_locales
  have call: "\<exists>w. has_txn t k = Some w \<and> (w = v \<or> \<not> v \<and> w)" if "review_call s t" "has_txn s k = Some v" for s t k v
    using that
  proof (induction rule: review_call.induct)
    case (promoted db sha e et today i q)
    from promote_cases [of sha e et today i q db] show ?case
    proof (elim disjE exE conjE)
      fix r t
      assume rows: "rd_rows (snd (admin_needs_review_promote sha e et today i q db)) = update_where (\<lambda>r. rv_id r = i) (promoted_row q t) (rd_rows db)"
      show ?thesis by (rule has_txn_update [OF rows _ _ promoted]) (simp_all add: promoted_row_def)
    qed (use promoted in \<open>auto dest: has_txn_same [of _ _ k]\<close>)
  next
    case (dismissed db e i w why dup)
    from dismiss_cases [of e i w why dup db] show ?case
      using has_txn_update [OF _ _ _ dismissed, of "snd (admin_needs_review_dismiss e i w why dup db)" i "dismissed_row w why dup"] dismissed
      by (auto simp: dismissed_row_def)
  next
    case (marked db e i)
    then show ?case
      using has_txn_update [OF _ _ _ marked, of "snd (mark_reviewed e i db)" i "\<lambda>r. r\<lparr>rv_reviewed := True\<rparr>"]
      by (cases "raises e 0") (simp_all add: mark_reviewed_def)
  qed (auto simp: has_txn_def store_review_def find_append)
  show "\<exists>w. has_txn t k = Some w \<and> (w = v \<or> \<not> v \<and> w)" if "review_step s t" "has_txn s k = Some v" for s t k v
    using that
  proof (induction rule: review_step.induct)
    case (promote_written t db e i q)
    show ?case by (rule has_txn_update [OF review_writes_frame(1) _ _ promote_written(2)]) (simp_all add: promoted_row_def)
  next
    case (dismiss_written db e i w why dup)
    show ?case by (rule has_txn_update [OF review_writes_frame(2) _ _ dismiss_written]) (simp_all add: dismissed_row_def)
  qed (rule call)
qed simp

definition review_state :: "review_db \<Rightarrow> int \<Rightarrow> (review_status \<times> int option) option" where
  "review_state db i = map_option (\<lambda>r. (rv_status r, rv_txn r)) (find (\<lambda>r. rv_id r = i) (rd_rows db))"

definition review_edge :: "review_status \<times> int option \<Rightarrow> review_status \<times> int option \<Rightarrow> bool" where
  "review_edge v w \<longleftrightarrow> fst v \<noteq> RV_promoted \<and> fst w \<noteq> RV_pending"

definition review_final :: "review_status \<times> int option \<Rightarrow> bool" where
  "review_final v \<longleftrightarrow> fst v = RV_promoted"

lemma review_edge_update:
  assumes "rd_rows db' = update_where (\<lambda>r. rv_id r = i) h (rd_rows db)" "\<And>r. rv_id (h r) = rv_id r"
    and "find (\<lambda>r. rv_id r = i) (rd_rows db) = Some r" "rv_status r \<noteq> RV_promoted" "rv_status (h r) \<noteq> RV_pending"
    and "review_state db k = Some v"
  shows "\<exists>w. review_state db' k = Some w \<and> (w = v \<or> review_edge v w)"
proof -
  have "review_state db' k = map_option (\<lambda>r. (rv_status r, rv_txn r))
     (map_option (\<lambda>r. if rv_id r = i then h r else r) (find (\<lambda>r. rv_id r = k) (rd_rows db)))"
    by (simp only: review_state_def assms(1) find_update_where_key [where key = rv_id, OF assms(2)])
  then show ?thesis
    using assms(3-6) find_Some_mem by (cases "k = i") (fastforce simp: review_state_def review_edge_def)+
qed

interpretation review_life: status_machine review_state review_call review_edge review_final
proof unfold_locales
  show "\<exists>w. review_state t k = Some w \<and> (w = v \<or> review_edge v w)"
    if "review_call s t" "review_state s k = Some v" for s t k v
    using that
  proof (induction rule: review_call.induct)
    case (promoted db sha e et today i q)
    from promote_cases [of sha e et today i q db] show ?case
    proof (elim disjE exE conjE)
      fix r t
      assume r: "find (\<lambda>r. rv_id r = i) (rd_rows db) = Some r" "rv_status r \<noteq> RV_promoted"
        and rows: "rd_rows (snd (admin_needs_review_promote sha e et today i q db)) = update_where (\<lambda>r. rv_id r = i) (promoted_row q t) (rd_rows db)"
      show ?thesis
        by (rule review_edge_update [OF rows _ r _ promoted]) (simp_all add: promoted_row_def)
    qed (use promoted in \<open>auto simp: review_state_def\<close>)
  next
    case (dismissed db e i w why dup)
    from dismiss_cases [of e i w why dup db] show ?case
    proof (elim disjE exE conjE)
      fix r st
      assume r: "find (\<lambda>r. rv_id r = i) (rd_rows db) = Some r" "rv_status r \<noteq> RV_promoted"
        and rows: "rd_rows (snd (admin_needs_review_dismiss e i w why dup db)) = update_where (\<lambda>r. rv_id r = i) (dismissed_row w why dup) (rd_rows db)"
      show ?thesis
        by (rule review_edge_update [OF rows _ r _ dismissed]) (simp_all add: dismissed_row_def)
    qed (use dismissed in simp)
  next
    case (marked db e i)
    have "review_state (snd (mark_reviewed e i db)) k = review_state db k"
      by (cases "find (\<lambda>r. rv_id r = k) (rd_rows db)")
        (simp_all add: mark_reviewed_def review_state_def find_update_where_key [where key = rv_id])
    with marked show ?case by simp
  qed (auto simp: review_state_def store_review_def find_append)
  show "review_final v \<Longrightarrow> \<not> review_edge v w" for v w by (simp add: review_final_def review_edge_def)
qed

text \<open>
  C12: A promoted row is not promoted again. Along any steps of stored rows, promotions, dismissals,
  requeueings, bookings and reversals with failing statements, requests overlapping in any way, a promoted
  review row carries a transaction, which is stored. Whatever follows, the row carries a stored
  transaction, and every promotion that begins then is refused without a change. As long as requests do
  not overlap from then on, the row keeps its status and its transaction; when they do, a late write can change both
  (\<open>late_dismissal_overwrites\<close>, \<open>overlapping_promotions_book_twice\<close>).
\<close>

theorem promoted_once:
  assumes "reach review_start review_step db" and "r \<in> set (rd_rows db)" and "rv_status r = RV_promoted"
  shows "\<exists>t. rv_txn r = Some t \<and> t \<in> tx_id ` set (fp_txns (rd_fpe db))
    \<and> (\<forall>db'. review_call\<^sup>*\<^sup>* db db' \<longrightarrow> review_state db' (rv_id r) = Some (RV_promoted, Some t))
    \<and> (\<forall>db'. review_step\<^sup>*\<^sup>* db db' \<longrightarrow>
         (\<exists>st t'. review_state db' (rv_id r) = Some (st, Some t') \<and> t' \<in> tx_id ` set (fp_txns (rd_fpe db')))
       \<and> (\<forall>sha e et today q. 0 < pq_employee q \<and> good_query (pq_reviewer q) (pq_note q) \<and> \<not> raises e 0 \<longrightarrow>
            admin_needs_review_promote sha e et today (rv_id r) q db' = (Inl Already_promoted, db')))"
proof -
  have inv: "review_inv db" by (rule review_system.reach_inv [OF assms(1)])
  obtain t where t: "rv_txn r = Some t" "t \<in> tx_id ` set (fp_txns (rd_fpe db))"
    using inv assms(2,3) by (fastforce simp: review_inv_def linked_row_def)
  have find: "find (\<lambda>s. rv_id s = rv_id r) (rd_rows db) = Some r"
    using find_key_unique [of rv_id "rd_rows db" r] inv assms(2) by (simp add: review_inv_def)
  have serial: "review_state db' (rv_id r) = Some (RV_promoted, Some t)" if "review_call\<^sup>*\<^sup>* db db'" for db'
    by (rule review_life.final_stays [OF that]) (simp_all add: review_state_def find assms(3) t(1) review_final_def)
  have later: "\<exists>s t'. find (\<lambda>s. rv_id s = rv_id r) (rd_rows db') = Some s \<and> rv_txn s = Some t' \<and> t' \<in> tx_id ` set (fp_txns (rd_fpe db'))"
    if "review_step\<^sup>*\<^sup>* db db'" for db'
  proof -
    have "has_txn db' (rv_id r) = Some True"
      using review_linked.final_stays [OF that] find t(1) by (simp add: has_txn_def)
    then obtain s where s: "find (\<lambda>s. rv_id s = rv_id r) (rd_rows db') = Some s" "rv_txn s \<noteq> None" by (auto simp: has_txn_def)
    moreover have "review_inv db'" by (rule review_system.reach_inv [OF reach_steps [OF that assms(1)]])
    ultimately show ?thesis using find_Some_mem [OF s(1)] by (fastforce simp: review_inv_def linked_row_def)
  qed
  have refused: "admin_needs_review_promote sha e et today (rv_id r) q db' = (Inl Already_promoted, db')"
    if "review_step\<^sup>*\<^sup>* db db'" "0 < pq_employee q \<and> good_query (pq_reviewer q) (pq_note q) \<and> \<not> raises e 0" for db' sha e et today q
    using later [OF that(1)] that(2) by (auto simp: admin_needs_review_promote_def)
  have carries: "\<exists>st t'. review_state db' (rv_id r) = Some (st, Some t') \<and> t' \<in> tx_id ` set (fp_txns (rd_fpe db'))"
    if "review_step\<^sup>*\<^sup>* db db'" for db'
    using later [OF that] by (auto simp: review_state_def)
  show ?thesis using t serial carries refused by (intro exI [of _ t] conjI allI impI) simp_all
qed

definition sample_review :: review_db where
  "sample_review =
     \<lparr>rd_fpe = empty_fpe, rd_msg = \<lparr>md_msgs = [], md_next = 1, md_proc = [], md_results = [], md_unmatched = []\<rparr>,
      rd_rows = [], rd_next = 1, rd_audit = []\<rparr>"

definition sample_unmatched :: unmatched_row where
  "sample_unmatched = (unmatched 1 ''no_employee_match'' (Some ''Karim 2200''))\<lparr>um_amount := Some (Dec 2200 0), um_date := Some (Date 2026 5 4)\<rparr>"

definition sample_query :: promote_query where
  "sample_query =
     \<lparr>pq_employee = 7, pq_reviewer = ''admin'', pq_method = None, pq_date = None, pq_category = ''salary'', pq_amount = None,
      pq_note = None\<rparr>"

definition sample_promoted :: review_db where
  "sample_promoted =
     snd (admin_needs_review_promote (\<lambda>s. s) (env_at 0) (env_at 0) (Date 2026 5 9) 1 sample_query (store_review sample_unmatched sample_review))"

lemma sample_promoted_row:
  "\<exists>r. rd_rows sample_promoted = [r] \<and> rv_id r = 1 \<and> rv_status r = RV_promoted \<and> rv_txn r = Some 1"
  by (simp add: sample_promoted_def sample_review_def sample_unmatched_def sample_query_def store_review_def review_row_of_def
      unmatched_def empty_fpe_def admin_needs_review_promote_def good_query_def promote_amount_def cents_def dec_val_def
      member_category_def create_transaction_def promoted_row_def row_to_model_def promote_write_def Let_def)

lemma sample_promoted_reach: "reach review_start review_step sample_promoted"
proof -
  have "reach review_start review_step sample_review"
    by (rule reach_start) (simp add: review_start_def sample_review_def)
  then have "reach review_start review_step (store_review sample_unmatched sample_review)"
    by (rule reach_step) (rule review_step.called [OF review_call.stored])
  then show ?thesis unfolding sample_promoted_def by (rule reach_step) (rule review_step.called [OF review_call.promoted])
qed

theorem promoted_once_witness:
  "\<exists>r. r \<in> set (rd_rows sample_promoted) \<and> rv_status r = RV_promoted \<and> (\<exists>t. rv_txn r = Some t
     \<and> t \<in> tx_id ` set (fp_txns (rd_fpe sample_promoted)))"
proof -
  obtain r where r: "rd_rows sample_promoted = [r]" "rv_status r = RV_promoted" using sample_promoted_row by blast
  then have "r \<in> set (rd_rows sample_promoted)" by simp
  with promoted_once [OF sample_promoted_reach this r(2)] r(2) show ?thesis by blast
qed

subsection \<open>What moves the reconciliation\<close>

lemma present_None [simp]: "present None = None"
  by (simp add: present_def py_or_def)

lemma create_txns_cases:
  "create_transaction sha e req db = (x, f) \<Longrightarrow> fp_txns f = fp_txns db \<or> fp_txns f = fp_txns db @ [new_txn sha e req db]"
  by (auto simp: create_transaction_def new_txn_def Let_def split: option.splits if_splits)

lemma ledger_sum_new:
  "fp_txns f = fp_txns db @ [new_txn sha e req db] \<Longrightarrow> ledger_sum None f = ledger_sum None db + cents (rq_amount req)"
  by (simp add: ledger_sum_def new_txn_def)

definition accounted :: "review_db \<Rightarrow> int" where
  "accounted db = ledger_sum None (rd_fpe db) + unmatched_sum None None db"

lemma reconciliation_frame:
  assumes "compute_reconciliation None None db = Some (delta, ok)" "rd_msg db' = rd_msg db"
    and "accounted db' = accounted db + x"
  shows "compute_reconciliation None None db' = Some (delta - of_int x / 100, \<bar>delta - of_int x / 100\<bar> \<le> TOLERANCE)"
  using assms by (auto simp: compute_reconciliation_def accounted_def Let_def diff_divide_distrib add_divide_distrib algebra_simps split: option.splits)

lemma unmatched_sum_update:
  assumes "review_inv db" "find (\<lambda>r. rv_id r = i) (rd_rows db) = Some r"
    and "rd_rows db' = update_where (\<lambda>r. rv_id r = i) h (rd_rows db)" "rd_msg db' = rd_msg db"
  shows "unmatched_sum p s db' = unmatched_sum p s db - counted_review p s (rd_msg db) r + counted_review p s (rd_msg db) (h r)"
proof -
  have r: "r \<in> set (rd_rows db)" "rv_id r = i" using find_Some_mem [OF assms(2)] by simp_all
  have "distinct (map rv_id (rd_rows db))" using assms(1) by (simp add: review_inv_def)
  from sum_update_where_key [OF this r(1), of "counted_review p s (rd_msg db)" h] show ?thesis
    by (simp add: unmatched_sum_def assms(3,4) r(2))
qed

lemma promote_msg [simp]: "rd_msg (snd (admin_needs_review_promote sha e et today i q db)) = rd_msg db"
  by (auto simp: admin_needs_review_promote_def split: option.split prod.split sum.split)

lemma dismiss_msg [simp]: "rd_msg (snd (admin_needs_review_dismiss e i w why dup db)) = rd_msg db"
  by (auto simp: admin_needs_review_dismiss_def split: option.split)

lemma promote_books:
  assumes "fst (admin_needs_review_promote sha e et today i q db) = Inr t" "find (\<lambda>r. rv_id r = i) (rd_rows db) = Some r"
  shows "\<exists>a cat f. promote_amount q r = Some a
    \<and> create_transaction sha et (promote_request today q r a cat) (rd_fpe db) = (f, rd_fpe (snd (admin_needs_review_promote sha e et today i q db)))"
  using assms
  by (auto simp: admin_needs_review_promote_def split: option.splits prod.splits sum.splits if_splits)

lemma promote_request_amount [simp]: "rq_amount (promote_request today q r a cat) = a"
  by (simp add: promote_request_def Let_def)

lemma counted_closed: "rv_status r \<noteq> RV_pending \<Longrightarrow> counted_review p s m r = 0"
  by (simp add: counted_review_def split: option.split)

lemma promote_accounted:
  assumes "review_inv db" "find (\<lambda>r. rv_id r = i) (rd_rows db) = Some r" "rv_amount r = Some c"
    and "counted_review None None (rd_msg db) r = c" "pq_amount q = None"
    and "fst (admin_needs_review_promote sha e et today i q db) = Inr t"
    and "fp_txns (rd_fpe (snd (admin_needs_review_promote sha e et today i q db))) \<noteq> fp_txns (rd_fpe db)"
  shows "accounted (snd (admin_needs_review_promote sha e et today i q db)) = accounted db"
proof -
  let ?db = "snd (admin_needs_review_promote sha e et today i q db)"
  have "rd_rows ?db = update_where (\<lambda>r. rv_id r = i) (promoted_row q t) (rd_rows db)"
    using promote_cases [of sha e et today i q db] assms(6) by auto
  from unmatched_sum_update [OF assms(1,2) this promote_msg] assms(4)
  have u: "unmatched_sum None None ?db = unmatched_sum None None db - c"
    by (simp add: counted_closed promoted_row_def)
  obtain a cat f where a: "promote_amount q r = Some a"
      "create_transaction sha et (promote_request today q r a cat) (rd_fpe db) = (f, rd_fpe ?db)"
    using promote_books [OF assms(6,2)] by blast
  from create_txns_cases [OF a(2)] ledger_sum_new assms(7)
  have "ledger_sum None (rd_fpe ?db) = ledger_sum None (rd_fpe db) + cents a" by fastforce
  moreover have "cents a = c" using a(1) assms(3,5) by (auto simp: promote_amount_def cents_def)
  ultimately show ?thesis using u by (simp add: accounted_def)
qed

lemma dismiss_accounted:
  assumes "review_inv db" "find (\<lambda>r. rv_id r = i) (rd_rows db) = Some r" "counted_review None None (rd_msg db) r = c"
    and "fst (admin_needs_review_dismiss e i w why dup db) = Inr st"
  shows "accounted (snd (admin_needs_review_dismiss e i w why dup db)) = accounted db - c"
proof -
  let ?db = "snd (admin_needs_review_dismiss e i w why dup db)"
  have out: "rd_rows ?db = update_where (\<lambda>r. rv_id r = i) (dismissed_row w why dup) (rd_rows db)" "rd_fpe ?db = rd_fpe db"
    using dismiss_cases [of e i w why dup db] assms(4) by auto
  from unmatched_sum_update [OF assms(1,2) out(1) dismiss_msg] assms(3)
  show ?thesis by (simp add: accounted_def out(2) counted_closed dismissed_row_def)
qed

lemma manual_accounted:
  "fp_txns (rd_fpe (snd (create_manual_txn sha e mq db))) \<noteq> fp_txns (rd_fpe db) \<Longrightarrow>
    accounted (snd (create_manual_txn sha e mq db)) = accounted db + cents (mq_amount mq)"
  using create_txns_cases [of sha e "manual_txn_request mq" "rd_fpe db", OF prod.collapse [symmetric]]
    ledger_sum_new [of _ "rd_fpe db" sha e "manual_txn_request mq"]
  by (auto simp: accounted_def unmatched_sum_def manual_txn_request_def)

text \<open>
  What the reconciliation sees. For a pending row of a stored message with a detected amount:
  promoting it with that amount, when the transaction is a new one, leaves the difference between
  what was parsed and what is accounted for as it is, while dismissing it raises the difference by
  the amount, although nothing was lost; and a new manual entry lowers it by its own amount. So the
  equality that \<open>reconcile.py\<close> states is kept by promotions alone.
\<close>

theorem reconciliation_moves:
  assumes "reach review_start review_step db" and "compute_reconciliation None None db = Some (delta, ok)"
    and "find (\<lambda>r. rv_id r = i) (rd_rows db) = Some r" and "rv_status r = RV_pending" and "rv_amount r = Some c"
    and "message_of (rv_msg r) (rd_msg db) \<noteq> None"
  defines "after \<equiv> \<lambda>x. Some (delta - of_int x / 100, \<bar>delta - of_int x / 100\<bar> \<le> TOLERANCE)"
  shows "(pq_amount q = None \<and> fst (admin_needs_review_promote sha e et today i q db) = Inr t
      \<and> fp_txns (rd_fpe (snd (admin_needs_review_promote sha e et today i q db))) \<noteq> fp_txns (rd_fpe db) \<longrightarrow>
        compute_reconciliation None None (snd (admin_needs_review_promote sha e et today i q db)) = after 0)
    \<and> (fst (admin_needs_review_dismiss e i w why dup db) = Inr st \<longrightarrow>
        compute_reconciliation None None (snd (admin_needs_review_dismiss e i w why dup db)) = after (- c))
    \<and> (fp_txns (rd_fpe (snd (create_manual_txn sha e mq db))) \<noteq> fp_txns (rd_fpe db) \<longrightarrow>
        compute_reconciliation None None (snd (create_manual_txn sha e mq db)) = after (cents (mq_amount mq)))"
proof (intro conjI impI; (elim conjE)?)
  have inv: "review_inv db" by (rule review_system.reach_inv [OF assms(1)])
  obtain m where m: "message_of (rv_msg r) (rd_msg db) = Some m" using assms(6) by blast
  have r: "counted_review None None (rd_msg db) r = c"
    using assms(4,5) m by (simp add: counted_review_def msg_selected_def)
  note frame = reconciliation_frame [OF assms(2)]
  show "compute_reconciliation None None (snd (admin_needs_review_promote sha e et today i q db)) = after 0"
    if "pq_amount q = None" "fst (admin_needs_review_promote sha e et today i q db) = Inr t"
      "fp_txns (rd_fpe (snd (admin_needs_review_promote sha e et today i q db))) \<noteq> fp_txns (rd_fpe db)"
    using promote_accounted [OF inv assms(3,5) r that] unfolding after_def by (intro frame [where x = "0"]) simp_all
  show "compute_reconciliation None None (snd (admin_needs_review_dismiss e i w why dup db)) = after (- c)"
    if "fst (admin_needs_review_dismiss e i w why dup db) = Inr st"
    using dismiss_accounted [OF inv assms(3) r that] unfolding after_def by (intro frame [where x = "- c"]) simp_all
  show "compute_reconciliation None None (snd (create_manual_txn sha e mq db)) = after (cents (mq_amount mq))"
    if "fp_txns (rd_fpe (snd (create_manual_txn sha e mq db))) \<noteq> fp_txns (rd_fpe db)"
    using manual_accounted [OF that] unfolding after_def by (intro frame [where x = "cents (mq_amount mq)"]) simp_all
qed

definition sample_pending :: review_db where
  "sample_pending =
     store_review sample_unmatched (sample_review\<lparr>rd_msg := \<lparr>md_msgs =
       [\<lparr>fm_id = 1, fm_wa_id = ''w1'', fm_source = ''bridge1'', fm_number = ''880'', fm_chat = ''c'', fm_sender = None,
         fm_from_me = True, fm_content = Some ''Karim 2200'', fm_date = Date 2026 5 4\<rparr>],
       md_next = 2, md_proc = [],
       md_results = [\<lparr>pr_msg = 1, pr_type = ''payment'', pr_data = \<lparr>pd_fields = [(''amount'', Some ''2200'')], pd_date = None,
         pd_entries = [], pd_shift = None, pd_duty_date = None\<rparr>, pr_confidence = 9 / 10, pr_ai = False\<rparr>], md_unmatched = []\<rparr>\<rparr>)"

lemma parse_2200: "parse_decimal ''2200'' = Some (Dec 2200 0)"
  by code_simp

theorem reconciliation_moves_witness:
  "compute_reconciliation None None sample_pending = Some (0, True)
   \<and> compute_reconciliation None None (snd (admin_needs_review_dismiss (env_at 0) 1 ''admin'' ''twice'' False sample_pending)) = Some (2200, False)"
proof -
  have "reach review_start review_step sample_review"
    by (rule reach_start) (simp add: review_start_def sample_review_def)
  then have "reach review_start review_step (sample_review\<lparr>rd_msg := rd_msg sample_pending\<rparr>)"
    by (rule reach_step) (rule review_step.called [OF review_call.worked])
  then have "reach review_start review_step (store_review sample_unmatched (sample_review\<lparr>rd_msg := rd_msg sample_pending\<rparr>))"
    by (rule reach_step) (rule review_step.called [OF review_call.stored])
  then have re: "reach review_start review_step sample_pending"
    by (simp add: sample_pending_def store_review_def)
  have c: "compute_reconciliation None None sample_pending = Some (0, True)"
    by (simp add: compute_reconciliation_def parser_sum_def ledger_sum_def unmatched_sum_def sample_pending_def sample_review_def
        store_review_def review_row_of_def sample_unmatched_def unmatched_def empty_fpe_def counted_review_def message_of_def
        msg_selected_def cents_def TOLERANCE_def counted_result_def pd_get_def parse_2200 Let_def dec_val_def)
  have f: "find (\<lambda>r. rv_id r = 1) (rd_rows sample_pending) = Some (review_row_of 1 sample_unmatched)"
    by (simp add: sample_pending_def store_review_def sample_review_def review_row_of_def)
  have m: "message_of (rv_msg (review_row_of 1 sample_unmatched)) (rd_msg sample_pending) \<noteq> None"
    by (simp add: sample_pending_def store_review_def message_of_def review_row_of_def sample_unmatched_def unmatched_def)
  have ok: "fst (admin_needs_review_dismiss (env_at 0) 1 ''admin'' ''twice'' False sample_pending) = Inr RV_dismissed"
    using f by (simp add: admin_needs_review_dismiss_def good_query_def review_row_of_def)
  have "compute_reconciliation None None (snd (admin_needs_review_dismiss (env_at 0) 1 ''admin'' ''twice'' False sample_pending))
      = Some (0 - of_int (- 220000) / 100, \<bar>0 - of_int (- 220000) / 100\<bar> \<le> TOLERANCE)"
    by (rule conjunct1 [OF conjunct2 [OF reconciliation_moves [OF re c f _ _ m]], rule_format, OF _ _ ok])
      (simp_all add: review_row_of_def sample_unmatched_def unmatched_def cents_def)
  with c show ?thesis by (simp add: TOLERANCE_def)
qed

subsection \<open>Edits keep the identity tables in order\<close>

lemma alias_stmts_frame:
  "id_emps (snd (run_stmts e k (map (alias_stmt i) xs) db)) = id_emps db
   \<and> id_next (snd (run_stmts e k (map (alias_stmt i) xs) db)) = id_next db"
  by (induction xs arbitrary: k db) (auto simp: alias_stmt_def)

lemma merge_target_Some:
  assumes "merge_target m newid emps = Some t"
  shows "\<exists>x\<in>set emps. t = em_id (resolve_canonical emps x) \<and> t \<noteq> em_id m \<and> newid \<noteq> None"
  using assms find_Some_mem
  by (fastforce simp: merge_target_def Let_def present_Some split: option.splits if_splits)

lemma update_employee_cases:
  defines "out \<equiv> \<lambda>e i p db. update_employee e i p db"
  shows "id_next (snd (out e i p db)) = id_next db \<and>
    ((id_emps (snd (out e i p db)) = id_emps db \<and> (\<forall>j t. fst (out e i p db) \<noteq> Inr (j, Some t)))
    \<or> (\<exists>m. find (\<lambda>n. em_id n = i) (id_emps db) = Some m
      \<and> (\<forall>j t. fst (out e i p db) = Inr (j, Some t) \<longrightarrow> j = t \<and> merge_target m (bd_phone (up_id_phone p)) (id_emps db) = Some t)
      \<and> id_emps (snd (out e i p db)) = update_where (\<lambda>n. em_id n = i)
          (patched_employee p (merge_target m (bd_phone (up_id_phone p)) (id_emps db))) (id_emps db)))"
proof (cases "raises e 0 \<or> get_employee_by_id i db = None")
  case False
  then obtain m where m: "find (\<lambda>n. em_id n = i) (id_emps db) = Some m" by (auto simp: get_employee_by_id_def)
  let ?t = "merge_target m (bd_phone (up_id_phone p)) (id_emps db)"
  have quiet: "?t = None" if "\<not> patch_changes p ?t"
    using that merge_target_Some [of m "bd_phone (up_id_phone p)" "id_emps db"]
    by (cases ?t) (auto simp: patch_changes_def)
  show ?thesis
    using False m alias_stmts_frame quiet
    by (auto simp: out_def update_employee_def get_employee_by_id_def Let_def case_prod_beta simp del: map_append split: bool.split)
qed (auto simp: out_def update_employee_def)

lemma patched_simps [simp]:
  "em_id (patched_employee p t m) = em_id m" "is_active (patched_employee p t m) = is_active m"
  "em_canonical (patched_employee p t m) = (case t of None \<Rightarrow> em_canonical m | Some j \<Rightarrow> Some j)"
  "em_id_phone (patched_employee p t m) = (if t = None \<and> bd_phone (up_id_phone p) \<noteq> None then bd_phone (up_id_phone p) else em_id_phone m)"
  by (auto simp: patched_employee_def is_active_def split: option.split)

lemma length_filter_update_on:
  "(\<And>r. r \<in> set t \<Longrightarrow> P r \<Longrightarrow> Q (f r) \<Longrightarrow> Q r) \<Longrightarrow> length (filter Q (update_where P f t)) \<le> length (filter Q t)"
  by (induction t) (auto simp: le_SucI)

lemma filter_one_key:
  "distinct (map key t) \<Longrightarrow> (\<And>r. r \<in> set t \<Longrightarrow> Q r \<Longrightarrow> key r = k) \<Longrightarrow> length (filter Q t) \<le> 1"
proof (induction t)
  case (Cons r t)
  then show ?case by (cases "Q r") (fastforce simp: filter_empty_conv image_iff)+
qed simp

lemma phone_owners_patched:
  assumes "identity_inv db" "find (\<lambda>n. em_id n = i) (id_emps db) = Some m" "q \<noteq> ''''"
    and "\<forall>x\<in>set (id_emps db). is_active x \<and> em_id x \<noteq> i \<and> bd_phone (up_id_phone p) = Some q \<and> em_id_phone x = Some q \<longrightarrow>
           em_id (resolve_canonical (id_emps db) x) \<noteq> i"
  shows "length (phone_owners q (update_where (\<lambda>n. em_id n = i)
      (patched_employee p (merge_target m (bd_phone (up_id_phone p)) (id_emps db))) (id_emps db))) \<le> 1"
proof -
  let ?t = "merge_target m (bd_phone (up_id_phone p)) (id_emps db)" and ?E = "id_emps db"
  have bound: "length (phone_owners q ?E) \<le> 1" using assms(1,3) by (simp add: identity_inv_def)
  have mi: "em_id m = i" using find_Some_mem [OF assms(2)] by simp
  have dist: "distinct (map em_id ?E)" using assms(1) by (simp add: identity_inv_def links_stored_def)
  show ?thesis
  proof (cases "?t = None \<and> bd_phone (up_id_phone p) = Some q \<and> em_id_phone m \<noteq> Some q")
    case True
    have none: "find (\<lambda>n. em_id_phone n = Some q \<and> em_id n \<noteq> i \<and> is_active n) ?E = None"
    proof (rule ccontr)
      assume "\<not> ?thesis"
      then obtain x where x: "find (\<lambda>n. em_id_phone n = Some q \<and> em_id n \<noteq> i \<and> is_active n) ?E = Some x" by blast
      have b: "em_id_phone m \<noteq> Some q" "merge_target m (Some q) ?E = None" using True by metis+
      have "present (Some q) = Some q" using assms(3) by (simp add: present_Some)
      with b x mi have "em_id (resolve_canonical ?E x) = i"
        by (simp add: merge_target_def Let_def split: if_splits)
      with assms(4) find_Some_mem [OF x] True show False by blast
    qed
    show ?thesis
      unfolding phone_owners_def
      by (rule filter_one_key [where key = em_id and k = i])
        (use none in \<open>auto simp: map_key_update_where dist find_None_iff_all mem_update_where\<close>)
  next
    case False
    have "n = m" if "n \<in> set ?E" "em_id n = i" for n
      using distinct_key_unique [OF dist that(1), of m] find_Some_mem [OF assms(2)] that(2) by simp
    then have "length (phone_owners q (update_where (\<lambda>n. em_id n = i) (patched_employee p ?t) ?E)) \<le> length (phone_owners q ?E)"
      unfolding phone_owners_def by (intro length_filter_update_on) (use False in \<open>auto split: if_splits\<close>)
    with bound show ?thesis by simp
  qed
qed

lemma resolves_to_root:
  assumes "links_ok emps" "m \<in> set emps" "em_canonical m = Some (em_id c)" "c \<in> set emps" "em_canonical c = None"
  shows "resolve_to_canonical emps (em_id m) = em_id c"
proof -
  obtain k where k: "k \<in> set emps" "next_emp emps m = Some k" "em_id k = em_id c"
    using next_emp_link [OF links_ok_stored [OF assms(1)] assms(2,3)] by blast
  have "k = c" using distinct_key_unique [of em_id emps k c] k assms(1,4) by (simp add: links_ok_def)
  then have "hops emps (Suc 7) m = c" using k(2) assms(5) by (simp add: next_emp_def eval_nat_numeral)
  then show ?thesis using resolve_hops(2) [OF assms(1,2)] by simp
qed

text \<open>
  Editing an employee keeps the identity tables in order, wherever it fails. From any state the
  identity service reaches, in which no links run in a circle and no chain of links is longer than the resolver
  follows, and when
  the new identity phone is not that of a duplicate of the edited employee, an edit leaves ids
  unique, links free of circles and every identity phone with at most one active employee. When it
  answers that the employee was merged, the employee resolves to that canonical employee from then
  on.
\<close>

theorem edit_keeps_identity:
  assumes "reach identity_start identity_step db" and lk: "links_ok (id_emps db)"
    and "\<forall>x\<in>set (id_emps db). em_canonical (resolve_canonical (id_emps db) x) = None"
    and "\<forall>x\<in>set (id_emps db). is_active x \<and> em_id x \<noteq> i \<and> bd_phone (up_id_phone p) \<noteq> None
           \<and> em_id_phone x = bd_phone (up_id_phone p) \<longrightarrow> em_id (resolve_canonical (id_emps db) x) \<noteq> i"
  shows "links_ok (id_emps (snd (update_employee e i p db)))
    \<and> (\<forall>q. q \<noteq> '''' \<longrightarrow> length (phone_owners q (id_emps (snd (update_employee e i p db)))) \<le> 1)
    \<and> (\<forall>j t. fst (update_employee e i p db) = Inr (j, Some t) \<longrightarrow>
         j = t \<and> resolve_to_canonical (id_emps (snd (update_employee e i p db))) i = t)"
proof -
  have inv: "identity_inv db" by (rule identity_system.reach_inv [OF assms(1)])
  let ?E = "id_emps (snd (update_employee e i p db))"
  show ?thesis
    using update_employee_cases [of e i p db]
  proof (elim conjE disjE exE)
    fix m
    let ?t = "merge_target m (bd_phone (up_id_phone p)) (id_emps db)"
    assume m: "find (\<lambda>n. em_id n = i) (id_emps db) = Some m"
      and ans: "\<forall>j t. fst (update_employee e i p db) = Inr (j, Some t) \<longrightarrow> j = t \<and> ?t = Some t"
      and E: "?E = update_where (\<lambda>n. em_id n = i) (patched_employee p ?t) (id_emps db)"
    have mi: "em_id m = i" "m \<in> set (id_emps db)" using find_Some_mem [OF m] by simp_all
    have "length (phone_owners q ?E) \<le> 1" if "q \<noteq> ''''" for q
      unfolding E by (rule phone_owners_patched [OF inv m that]) (use assms(4) in auto)
    moreover have "links_ok ?E \<and> (\<forall>t. ?t = Some t \<longrightarrow> resolve_to_canonical ?E i = t)"
    proof (cases ?t)
      case None
      have "links_ok ?E"
        unfolding E None by (rule links_ok_cong [OF _ lk]) (simp add: update_where_def)
      with None show ?thesis by simp
    next
      case (Some t)
      from merge_target_Some [OF this] obtain x where
        x: "x \<in> set (id_emps db)" "t = em_id (resolve_canonical (id_emps db) x)" "t \<noteq> i" using mi by blast
      let ?c = "resolve_canonical (id_emps db) x"
      have c: "?c \<in> set (id_emps db)" "em_canonical ?c = None"
        using x(1) assms(3) resolve_hops(1) [OF lk x(1)] hops_mem by metis+
      have l: "links_ok ?E"
        unfolding E Some by (rule links_ok_relink [OF lk c]) (use x in simp_all)
      moreover have "resolve_to_canonical ?E i = t"
        using resolves_to_root [OF l, of "patched_employee p ?t m" ?c] c x mi
        by (simp add: E Some mem_update_where) blast
      ultimately show ?thesis using Some by simp
    qed
    ultimately show ?thesis using ans by blast
  qed (use inv lk in \<open>simp add: identity_inv_def\<close>)
qed

definition sample_patch :: employee_patch where
  "sample_patch = \<lparr>up_name = None, up_primary = None, up_id_phone = Some ''01822222222'', up_aliases = []\<rparr>"

definition sample_pair :: identity_db where
  "sample_pair = snd (apply_plan (sample_mv 6) (Create_new None) (Some ''Rahim'') (Some ''01822222222'') None sample_created)"

lemma sample_pair_reach: "reach identity_start identity_step sample_pair"
  unfolding sample_pair_def by (rule reach_step [OF sample_reached]) (rule identity_step.matched)

lemma sample_pair_edit: "fst (update_employee (env_at 8) 1 sample_patch sample_pair) = Inr (2, Some 2)"
  by code_simp

lemma sample_pair_roots: "list_all (\<lambda>x. em_canonical (resolve_canonical (id_emps sample_pair) x) = None
    \<and> (em_id x \<noteq> 1 \<longrightarrow> em_id (resolve_canonical (id_emps sample_pair) x) \<noteq> 1)) (id_emps sample_pair)"
  by code_simp

lemma sample_pair_links: "links_ok (id_emps sample_pair)"
proof -
  have "links_stored (id_emps sample_pair)"
    using identity_system.reach_inv [OF sample_pair_reach] by (simp add: identity_inv_def)
  moreover have "list_all (\<lambda>x. em_canonical x = None) (id_emps sample_pair)" by code_simp
  ultimately show ?thesis by (auto simp: links_ok_def links_stored_def ranked_def list_all_iff)
qed

theorem edit_keeps_identity_witness:
  "fst (update_employee (env_at 8) 1 sample_patch sample_pair) = Inr (2, Some 2)
   \<and> resolve_to_canonical (id_emps (snd (update_employee (env_at 8) 1 sample_patch sample_pair))) 1 = 2
   \<and> length (phone_owners ''01822222222'' (id_emps (snd (update_employee (env_at 8) 1 sample_patch sample_pair)))) \<le> 1"
proof -
  have roots: "\<forall>x\<in>set (id_emps sample_pair). em_canonical (resolve_canonical (id_emps sample_pair) x) = None"
    using sample_pair_roots unfolding list_all_iff by blast
  have own: "\<forall>x\<in>set (id_emps sample_pair). is_active x \<and> em_id x \<noteq> 1 \<and> bd_phone (up_id_phone sample_patch) \<noteq> None
           \<and> em_id_phone x = bd_phone (up_id_phone sample_patch) \<longrightarrow> em_id (resolve_canonical (id_emps sample_pair) x) \<noteq> 1"
    using sample_pair_roots unfolding list_all_iff by blast
  note all = edit_keeps_identity [OF sample_pair_reach sample_pair_links roots own, where e = "env_at 8"]
  show ?thesis
    using conjunct2 [OF conjunct2 [OF all], rule_format, OF sample_pair_edit]
      conjunct1 [OF conjunct2 [OF all], rule_format, of "''01822222222''"] sample_pair_edit by simp
qed

text \<open>
  The condition on duplicates is needed: when the second employee is linked as a duplicate of the
  first, giving the first one the second's identity phone finds that owner, resolves it to the edited
  employee, does not merge and writes the phone: two active employees carry it.
\<close>

theorem edit_doubles_phone:
  "\<exists>db. reach identity_start identity_step db
    \<and> length (phone_owners ''01822222222'' (id_emps db)) = 1
    \<and> length (phone_owners ''01822222222'' (id_emps (snd (update_employee (env_at 8) 1 sample_patch db)))) = 2"
proof -
  let ?db = "snd (link_duplicate (env_at 7) 2 1 ''same person'' ''admin'' 1 ''manual_admin'' sample_pair)"
  have "reach identity_start identity_step ?db"
    by (rule reach_step [OF sample_pair_reach]) (rule identity_step.linked)
  moreover have "length (phone_owners ''01822222222'' (id_emps ?db)) = 1" by code_simp
  moreover have "length (phone_owners ''01822222222'' (id_emps (snd (update_employee (env_at 8) 1 sample_patch ?db)))) = 2"
    by code_simp
  ultimately show ?thesis by blast
qed

subsection \<open>Gaps of the review routes\<close>

text \<open>
  The reference of a transaction contains the amount as text, and the column gives a detected amount
  back with two places. When the worker's ledger statement fails, its transaction row is already
  stored and the message goes to the review queue; its promotion does not find that row and stores
  the payment a second time, unless the hash confuses the two texts.
\<close>

definition half_booked :: review_db where
  "half_booked = sample_pending\<lparr>rd_fpe := snd (create_transaction (\<lambda>s. s) ((env_at 0)\<lparr>raises := \<lambda>n. n = 3\<rparr>)
     (txn_request_of 1 7 (Some ''Karim'') (Dec 2200 0) None ''unknown'' (Date 2026 5 4) (Some ''Karim 2200'') ''fpe_engine'') empty_fpe)\<rparr>"

lemma half_booked_txns:
  "map (\<lambda>x. (tx_ref x, tx_msg x, tx_employee x, tx_amount x)) (fp_txns (rd_fpe half_booked))
     = [(''fpe-1|7|2200|2026-05'', Some 1, Some 7, 220000)]"
  by code_simp

lemma dec_str_2200: "dec_str (Dec 220000 2) = ''2200.00''"
proof -
  have d: "digit_char 0 = CHR ''0''" "digit_char 2 = CHR ''2''" by code_simp+
  have "show_nat 220000 = ''220000''" by (simp add: show_nat.simps d)
  then show ?thesis by (simp add: dec_str_def)
qed

lemma promoted_ref:
  "build_txn_ref (\<lambda>s. s) (promote_request (Date 2026 5 9) sample_query (review_row_of 1 sample_unmatched) (Dec 220000 2) T_salary)
     (request_period (promote_request (Date 2026 5 9) sample_query (review_row_of 1 sample_unmatched) (Dec 220000 2) T_salary))
   = ''fpe-1|7|2200.00|2026''"
proof -
  let ?q = "promote_request (Date 2026 5 9) sample_query (review_row_of 1 sample_unmatched) (Dec 220000 2) T_salary"
  have q: "rq_msg ?q = Some 1" "rq_employee ?q = Some 7" "rq_amount ?q = Dec 220000 2" "rq_period ?q = None" "rq_date ?q = Date 2026 5 4"
    by (simp_all add: promote_request_def sample_query_def review_row_of_def sample_unmatched_def unmatched_def Let_def)
  have "id_str (Some 1) = ''1''" "id_str (Some 7) = ''7''" "period_from_date (Date 2026 5 4) = ''2026-05''" by code_simp+
  then show ?thesis
    by (simp add: build_txn_ref_def txn_ref_text_def request_period_def q dec_str_2200)
qed

theorem failed_booking_promoted_twice:
  "map (\<lambda>x. (tx_msg x, tx_employee x, tx_amount x)) (fp_txns (rd_fpe (snd (admin_needs_review_promote (\<lambda>s. s) (env_at 1) (env_at 1)
      (Date 2026 5 9) 1 sample_query half_booked)))) = [(Some 1, Some 7, 220000), (Some 1, Some 7, 220000)]"
proof -
  let ?r = "review_row_of 1 sample_unmatched"
  let ?q = "promote_request (Date 2026 5 9) sample_query ?r (Dec 220000 2) T_salary"
  obtain x where x: "fp_txns (rd_fpe half_booked) = [x]" "tx_ref x = ''fpe-1|7|2200|2026-05''"
      "(tx_msg x, tx_employee x, tx_amount x) = (Some 1, Some 7, 220000)"
    using half_booked_txns by auto
  have "find (\<lambda>x. tx_ref x = build_txn_ref (\<lambda>s. s) ?q (request_period ?q)) (fp_txns (rd_fpe half_booked)) = None"
    unfolding promoted_ref by (simp add: x)
  from create_new [OF db_ok_env_at this] obtain f where
    c: "create_transaction (\<lambda>s. s) (env_at 1) ?q (rd_fpe half_booked) = (Inr (row_to_model True (new_txn (\<lambda>s. s) (env_at 1) ?q (rd_fpe half_booked))), f)"
      "fp_txns f = [x, new_txn (\<lambda>s. s) (env_at 1) ?q (rd_fpe half_booked)]" using x(1) by auto
  have r: "find (\<lambda>r. rv_id r = 1) (rd_rows half_booked) = Some ?r"
    by (simp add: half_booked_def sample_pending_def store_review_def sample_review_def review_row_of_def)
  have a: "promote_amount sample_query ?r = Some (Dec 220000 2)"
    by (simp add: promote_amount_def sample_query_def review_row_of_def sample_unmatched_def unmatched_def cents_def)
  have "rd_fpe (snd (admin_needs_review_promote (\<lambda>s. s) (env_at 1) (env_at 1) (Date 2026 5 9) 1 sample_query half_booked)) = f"
    using r a c(1) by (simp add: admin_needs_review_promote_def sample_query_def good_query_def member_category_def dec_val_def
        review_row_of_def [of 1])
  then show ?thesis
    using x(3) by (simp add: c(2) new_txn_def) (simp add: promote_request_def review_row_of_def sample_unmatched_def unmatched_def sample_query_def Let_def cents_def)
qed

text \<open>
  Requests that overlap. A dismissal that read the row before its promotion was written overwrites the status
  of the promoted row; and two promotions that both read the pending row, for different employees, both book
  the amount, and the row ends with the transaction written last.
\<close>

theorem late_dismissal_overwrites:
  "let db = dismiss_write (env_at 2) 1 ''b'' ''late'' False sample_promoted
   in fst (admin_needs_review_dismiss (env_at 2) 1 ''b'' ''late'' False (store_review sample_unmatched sample_review)) = Inr RV_dismissed
      \<and> reach review_start review_step db \<and> review_state db 1 = Some (RV_dismissed, Some 1)"
proof -
  have r: "reach review_start review_step (dismiss_write (env_at 2) 1 ''b'' ''late'' False sample_promoted)"
    by (rule reach_step [OF sample_promoted_reach]) (rule review_step.dismiss_written)
  have d: "fst (admin_needs_review_dismiss (env_at 2) 1 ''b'' ''late'' False (store_review sample_unmatched sample_review)) = Inr RV_dismissed"
    by (simp add: admin_needs_review_dismiss_def good_query_def store_review_def sample_review_def review_row_of_def)
  obtain x where "rd_rows sample_promoted = [x]" "rv_id x = 1" "rv_txn x = Some 1" using sample_promoted_row by blast
  then have "review_state (dismiss_write (env_at 2) 1 ''b'' ''late'' False sample_promoted) 1 = Some (RV_dismissed, Some 1)"
    by (simp add: review_state_def update_where_def dismissed_row_def)
  with r d show ?thesis by simp
qed

definition sample_booking :: "int \<Rightarrow> review_db \<Rightarrow> review_db" where
  \<comment> \<open>the booking of the promotion to an employee, decided on the pending row\<close>
  "sample_booking who db = db\<lparr>rd_fpe := snd (create_transaction (\<lambda>s. s) (env_at 1)
     (promote_request (Date 2026 5 9) (sample_query\<lparr>pq_employee := who, pq_amount := Some (Dec 5 0)\<rparr>)
        (review_row_of 1 sample_unmatched) (Dec 5 0) T_salary) (rd_fpe db))\<rparr>"

lemma booking_reach: "reach review_start review_step db \<Longrightarrow> reach review_start review_step (sample_booking who db)"
  by (erule reach_step) (unfold sample_booking_def, rule review_step.called [OF review_call.booked])

lemma written_reach:
  "reach review_start review_step db \<Longrightarrow> t \<in> tx_id ` set (fp_txns (rd_fpe db)) \<Longrightarrow>
     reach review_start review_step (promote_write e i q t db)"
  by (erule reach_step) (rule review_step.promote_written)

definition sample_overlap :: review_db where
  "sample_overlap =
     promote_write (env_at 2) 1 (sample_query\<lparr>pq_employee := 8\<rparr>) 2 (promote_write (env_at 2) 1 sample_query 1
       (sample_booking 8 (sample_booking 7 (store_review sample_unmatched sample_review))))"

theorem overlapping_promotions_book_twice:
  "reach review_start review_step sample_overlap \<and> review_state sample_overlap 1 = Some (RV_promoted, Some 2)
   \<and> map (\<lambda>x. (tx_msg x, tx_employee x, tx_amount x)) (fp_txns (rd_fpe sample_overlap))
       = [(Some 1, Some 7, 500), (Some 1, Some 8, 500)]"
proof -
  let ?db = "store_review sample_unmatched sample_review"
  have "reach review_start review_step ?db"
    by (rule reach_step [where s = sample_review])
      (auto intro!: reach_start review_step.called review_call.stored simp: review_start_def sample_review_def)
  then have b: "reach review_start review_step (sample_booking 8 (sample_booking 7 ?db))"
    by (intro booking_reach)
  have t: "map (\<lambda>x. (tx_id x, tx_msg x, tx_employee x, tx_amount x)) (fp_txns (rd_fpe (sample_booking 8 (sample_booking 7 ?db))))
      = [(1, Some 1, Some 7, 500), (2, Some 1, Some 8, 500)]"
    by code_simp
  from b have "reach review_start review_step sample_overlap"
    unfolding sample_overlap_def by (intro written_reach) (use t in \<open>auto simp: image_iff map_eq_Cons_conv\<close>)
  moreover have "review_state sample_overlap 1 = Some (RV_promoted, Some 2)"
    by (simp add: sample_overlap_def review_state_def sample_booking_def store_review_def sample_review_def review_row_of_def
        update_where_def promoted_row_def)
  moreover have "map (\<lambda>x. (tx_msg x, tx_employee x, tx_amount x)) (fp_txns (rd_fpe sample_overlap))
       = map snd (map (\<lambda>x. (tx_id x, tx_msg x, tx_employee x, tx_amount x)) (fp_txns (rd_fpe (sample_booking 8 (sample_booking 7 ?db)))))"
    by (simp add: sample_overlap_def comp_def)
  ultimately show ?thesis unfolding t by simp
qed

end
