(* ===== verification/Admin_Transactions.thy ===== *)
theory Admin_Transactions
  imports FPE_Pipeline
begin

text \<open>
  The admin routes on cash transactions, \<open>modules/admin_transactions/__init__.py\<close>: adding a
  transaction for an employee found or created on the way, editing one and deleting one, each with
  its correction of the ledger. A deletion is a mark: the columns \<open>deleted_at\<close> and \<open>deleted_by\<close> of the
  rows are the table \<open>ax_deleted\<close> of the model. The column \<open>updated_at\<close>, which the optimistic lock
  reads, is written by no statement of the program and made by none of its migrations; it is a
  function of the row that no operation changes. The hash, the random part of a reference and the
  trigram similarity of the database are arguments.
\<close>

subsection \<open>Request bodies\<close>

record create_body =
  cb_name :: string
  cb_id_phone :: "string option"
  cb_payout :: "string option"
  cb_amount :: decimal
  cb_method :: string
  cb_date :: date
  cb_category :: string
  cb_notes :: "string option"

record update_body =
  ub_name :: "string option"
  ub_phone :: "string option"
  ub_amount :: "decimal option"
  ub_method :: "string option"
  ub_date :: "date option"
  ub_category :: "string option"
  ub_notes :: "string option"

definition validate_method :: "string \<Rightarrow> string option" where
  "validate_method v =
     (let w = py_strip (py_lower v) in if w \<in> {''bkash'', ''nagad'', ''cash'', ''bank'', ''unknown''} then Some w else None)"

definition validate_category :: "string \<Rightarrow> txn_category option" where
  "validate_category v =
     map_of [(''salary'', T_salary), (''advance'', T_advance), (''bonus'', T_bonus), (''deduction'', T_deduction), (''other'', T_other)]
       (py_strip (py_lower v))"

definition validate_amount :: "decimal \<Rightarrow> decimal option" where
  "validate_amount v = (if dec_val v \<le> 0 then None else Some v)"

definition validate_name :: "string \<Rightarrow> string option" where
  "validate_name v = (let w = py_strip v in if w = '''' then None else Some w)"

definition validate_phone :: "string option \<Rightarrow> string option option" where
  \<comment> \<open>no value when the request is refused\<close>
  "validate_phone v =
     (case present v of None \<Rightarrow> Some None
      | Some s \<Rightarrow>
          (let w = py_strip s
           in if 7 \<le> length w \<and> length w \<le> 20 \<and> list_all (\<lambda>c. is_space c \<or> is_digit c \<or> c \<in> set ''+-()'') w
              then Some (Some w) else None))"

definition optional :: "('a \<Rightarrow> 'b option) \<Rightarrow> 'a option \<Rightarrow> 'b option option" where
  "optional f x = (case x of None \<Rightarrow> Some None | Some v \<Rightarrow> (case f v of None \<Rightarrow> None | Some w \<Rightarrow> Some (Some w)))"

record new_txn_data =
  nd_name :: string
  nd_id_phone :: "string option"
  nd_payout :: "string option"
  nd_amount :: decimal
  nd_method :: string
  nd_date :: date
  nd_category :: txn_category
  nd_notes :: "string option"

definition parse_create :: "create_body \<Rightarrow> new_txn_data option" where
  "parse_create b =
     (case (validate_name (cb_name b), validate_phone (cb_id_phone b), validate_phone (cb_payout b),
            validate_amount (cb_amount b), validate_method (cb_method b), validate_category (cb_category b)) of
        (Some n, Some i, Some p, Some a, Some m, Some c) \<Rightarrow>
          Some \<lparr>nd_name = n, nd_id_phone = i, nd_payout = p, nd_amount = a, nd_method = m, nd_date = cb_date b,
                nd_category = c, nd_notes = cb_notes b\<rparr>
      | _ \<Rightarrow> None)"

record change_data =
  cd_name :: "string option"
  cd_phone :: "string option"
  cd_amount :: "decimal option"
  cd_method :: "string option"
  cd_date :: "date option"
  cd_category :: "txn_category option"
  cd_notes :: "string option"

definition parse_update :: "update_body \<Rightarrow> change_data option" where
  "parse_update b =
     (case (validate_phone (ub_phone b), optional validate_amount (ub_amount b), optional validate_method (ub_method b),
            optional validate_category (ub_category b)) of
        (Some p, Some a, Some m, Some c) \<Rightarrow>
          Some \<lparr>cd_name = ub_name b, cd_phone = p, cd_amount = a, cd_method = m, cd_date = ub_date b, cd_category = c,
                cd_notes = ub_notes b\<rparr>
      | _ \<Rightarrow> None)"

subsection \<open>Who the transaction is for\<close>

definition admin_employee :: "int \<Rightarrow> string \<Rightarrow> string option \<Rightarrow> string option \<Rightarrow> fpe_employee" where
  "admin_employee i full idp phone =
     \<lparr>em_id = i, em_code = None, em_name = full,
      em_norm = (let n = normalize_name (Some full) in if n = '''' then py_lower full else n),
      em_phone = phone, em_id_phone = idp, em_status = ''active'', em_source = ''admin_manual'', em_canonical = None,
      em_resolution = ''auto_created'', em_confidence = 1\<rparr>"

definition create_admin_employee ::
  "env \<Rightarrow> string \<Rightarrow> string option \<Rightarrow> string option \<Rightarrow> identity_db \<Rightarrow> (identity_error + fpe_employee) \<times> identity_db" where
  \<comment> \<open>statement 1 inserts the row, statement 2 gives it its code; they are not one transaction\<close>
  "create_admin_employee e full idp phone db =
     (if raises e 1 then (Inl Identity_exception, db)
      else let i = id_next db; row = admin_employee i full idp phone;
               db1 = db\<lparr>id_next := i + 1, id_emps := id_emps db @ [row]\<rparr>
           in if raises e 2 \<or> has_row (\<lambda>m. em_code m = Some (emp_code i)) (id_emps db) then (Inl Identity_exception, db1)
              else (Inr (row\<lparr>em_code := Some (emp_code i)\<rparr>),
                    db1\<lparr>id_emps := update_where (\<lambda>m. em_id m = i) (\<lambda>m. m\<lparr>em_code := Some (emp_code i)\<rparr>) (id_emps db1)\<rparr>))"

definition similar_name :: "(string \<Rightarrow> string \<Rightarrow> rat) \<Rightarrow> string \<Rightarrow> identity_db \<Rightarrow> fpe_employee option" where
  "similar_name sim nm db =
     (case sort_key (\<lambda>m. - sim (em_norm m) nm) (filter (\<lambda>m. is_active m \<and> sim (em_norm m) nm \<ge> 95 / 100) (id_emps db)) of
        [] \<Rightarrow> None | m # _ \<Rightarrow> Some m)"

definition find_admin_employee ::
  "(string \<Rightarrow> string \<Rightarrow> rat) \<Rightarrow> string \<Rightarrow> string option \<Rightarrow> string option \<Rightarrow> identity_db \<Rightarrow> fpe_employee option" where
  \<comment> \<open>the rules A to C, on normalised phones\<close>
  "find_admin_employee sim name idp payout db =
     (case (case idp of None \<Rightarrow> None | Some p \<Rightarrow> by_id_phone p db) of
        Some m \<Rightarrow> Some m
      | None \<Rightarrow>
          (case (case payout of None \<Rightarrow> None | Some p \<Rightarrow> by_phone p db) of
             Some m \<Rightarrow> Some m
           | None \<Rightarrow>
               (let nm = normalize_name (Some name)
                in if idp \<noteq> None \<or> payout \<noteq> None \<or> nm = '''' then None
                   else case find (\<lambda>m. em_norm m = nm \<and> is_active m) (id_emps db) of
                          Some m \<Rightarrow> Some m
                        | None \<Rightarrow> similar_name sim nm db)))"

definition resolve_or_create_employee ::
  "(string \<Rightarrow> string \<Rightarrow> rat) \<Rightarrow> env \<Rightarrow> string \<Rightarrow> string option \<Rightarrow> string option \<Rightarrow> identity_db
    \<Rightarrow> (identity_error + fpe_employee) \<times> identity_db" where
  "resolve_or_create_employee sim e name id_phone payout_phone db =
     (let idp = bd_phone id_phone; payout = bd_phone payout_phone
      in if raises e 0 then (Inl Identity_exception, db)
         else case find_admin_employee sim name idp payout db of
           Some m \<Rightarrow> (Inr m, db)
         | None \<Rightarrow> create_admin_employee e name idp payout db)"

subsection \<open>The routes\<close>

record admin_db =
  ax_fpe :: fpe_db
  ax_ident :: identity_db
  ax_deleted :: "(int \<times> time \<times> string) list"
  ax_updated :: "int \<Rightarrow> time option"

datatype admin_error = Unprocessable | Txn_unknown int | Txn_deleted | Already_deleted | Edit_conflict | Server_error

definition is_deleted :: "admin_db \<Rightarrow> int \<Rightarrow> bool" where
  "is_deleted db i \<longleftrightarrow> i \<in> fst ` set (ax_deleted db)"

definition adjust_ledger :: "env \<Rightarrow> int \<Rightarrow> string \<Rightarrow> int \<Rightarrow> txn_category \<Rightarrow> fpe_db \<Rightarrow> fpe_db" where
  \<comment> \<open>\<open>_adjust_ledger\<close>: a category that \<open>TxnCategory\<close> does not know counts as salary\<close>
  "adjust_ledger e emp period amount cat f =
     f\<lparr>fp_ledger := upsert_ledger e emp period amount (if cat = T_other then T_salary else cat) (fp_ledger f)\<rparr>"

definition audit_txn :: "int \<Rightarrow> string \<Rightarrow> payload \<Rightarrow> payload \<Rightarrow> string \<Rightarrow> fpe_db \<Rightarrow> fpe_db" where
  "audit_txn i action before after reason f =
     f\<lparr>fp_audit := fp_audit f @ [\<lparr>au_entity = i, au_action = action, au_before = before, au_after = after,
                                  au_by = ''admin_manual'', au_reason = Some reason\<rparr>]\<rparr>"

definition admin_ref :: "(string \<Rightarrow> string) \<Rightarrow> string \<Rightarrow> int \<Rightarrow> decimal \<Rightarrow> date \<Rightarrow> string" where
  "admin_ref sha uuid emp amount d =
     ''fpe-admin-'' @ take 16 (sha (join_bar [show_int emp, dec_str amount, isoformat d, take 8 uuid]))"

definition manual_note :: "string \<Rightarrow> string" where
  \<comment> \<open>the dash of the text is the Unicode em dash, here its UTF-8 bytes\<close>
  "manual_note name = ''Admin manual entry '' @ [CHR 0xE2, CHR 0x80, CHR 0x94] @ '' '' @ name"

definition admin_row :: "(string \<Rightarrow> string) \<Rightarrow> string \<Rightarrow> env \<Rightarrow> fpe_employee \<Rightarrow> new_txn_data \<Rightarrow> int \<Rightarrow> cash_txn" where
  "admin_row sha uuid e emp d i =
     \<lparr>tx_id = i, tx_ref = admin_ref sha uuid (em_id emp) (nd_amount d) (nd_date d), tx_msg = None,
      tx_employee = Some (em_id emp), tx_name = Some (nd_name d), tx_amount = cents (nd_amount d),
      tx_phone = (if nd_payout d = None then em_phone emp else bd_phone (nd_payout d)), tx_method = nd_method d,
      tx_date = nd_date d, tx_category = nd_category d, tx_text = py_or (nd_notes d) (Some (manual_note (nd_name d))),
      tx_is_reversal = False, tx_reversed = None, tx_period = period_from_date (nd_date d), tx_created_at = db_now e,
      tx_by = ''admin_manual''\<rparr>"

definition insert_admin_row ::
  "(string \<Rightarrow> string) \<Rightarrow> string \<Rightarrow> env \<Rightarrow> fpe_employee \<Rightarrow> new_txn_data \<Rightarrow> fpe_db \<Rightarrow> (admin_error + int) \<times> fpe_db" where
  \<comment> \<open>statement 0 inserts the row, 1 the audit entry, 2 corrects the ledger, 3 reads the row back\<close>
  "insert_admin_row sha uuid e emp d f =
     (let i = fp_next f; row = admin_row sha uuid e emp d i
      in if raises e 0 \<or> has_row (\<lambda>x. tx_ref x = tx_ref row) (fp_txns f) then (Inl Server_error, f)
         else let f1 = f\<lparr>fp_next := i + 1, fp_txns := fp_txns f @ [row]\<rparr>
              in if raises e 1 then (Inl Server_error, f1)
                 else let f2 = audit_txn i ''admin_create'' []
                            [(''txn_ref'', JStr (tx_ref row)), (''employee_id'', JInt (em_id emp)), (''amount'', JStr (dec_str (nd_amount d))),
                             (''payout_method'', JStr (nd_method d)), (''txn_date'', JStr (isoformat (nd_date d))),
                             (''txn_category'', JStr (category_name (nd_category d)))]
                            (''Admin manual entry for '' @ nd_name d) f1
                      in if raises e 2 then (Inl Server_error, f2)
                         else let f3 = adjust_ledger e (em_id emp) (tx_period row) (cents (nd_amount d)) (nd_category d) f2
                              in (if raises e 3 then Inl Server_error else Inr i, f3))"

definition add_admin_transaction ::
  "(string \<Rightarrow> string) \<Rightarrow> (string \<Rightarrow> string \<Rightarrow> rat) \<Rightarrow> string \<Rightarrow> env \<Rightarrow> env \<Rightarrow> create_body \<Rightarrow> admin_db
    \<Rightarrow> (admin_error + int) \<times> admin_db" where
  \<comment> \<open>the first environment is that of the search for the employee\<close>
  "add_admin_transaction sha sim uuid er e body db =
     (case parse_create body of
        None \<Rightarrow> (Inl Unprocessable, db)
      | Some d \<Rightarrow>
          (case resolve_or_create_employee sim er (nd_name d) (nd_id_phone d) (nd_payout d) (ax_ident db) of
             (Inl _, idb) \<Rightarrow> (Inl Server_error, db\<lparr>ax_ident := idb\<rparr>)
           | (Inr emp, idb) \<Rightarrow>
               (case insert_admin_row sha uuid e emp d (ax_fpe db) of
                  (r, f) \<Rightarrow> (r, db\<lparr>ax_ident := idb, ax_fpe := f\<rparr>))))"

datatype lock_header = No_header | Unreadable_header | Stamp time

definition lock_conflict :: "lock_header \<Rightarrow> time option \<Rightarrow> bool" where
  \<comment> \<open>the stamps differ by more than a second\<close>
  "lock_conflict h updated \<longleftrightarrow>
     (case (h, updated) of (Stamp t, Some u) \<Rightarrow> \<bar>u - t\<bar> > secs 1 | _ \<Rightarrow> False)"

definition edited_txn :: "change_data \<Rightarrow> cash_txn \<Rightarrow> cash_txn" where
  "edited_txn c x =
     x\<lparr>tx_name := (case present (cd_name c) of None \<Rightarrow> tx_name x | Some n \<Rightarrow> Some (py_strip n)),
       tx_phone := (if cd_phone c = None then tx_phone x else bd_phone (cd_phone c)),
       tx_amount := (case cd_amount c of None \<Rightarrow> tx_amount x | Some a \<Rightarrow> cents a),
       tx_method := (case cd_method c of None \<Rightarrow> tx_method x | Some m \<Rightarrow> m),
       tx_date := (case cd_date c of None \<Rightarrow> tx_date x | Some d \<Rightarrow> d),
       tx_category := (case cd_category c of None \<Rightarrow> tx_category x | Some k \<Rightarrow> k),
       tx_period := (case cd_date c of None \<Rightarrow> tx_period x | Some d \<Rightarrow> period_from_date d),
       tx_text := (case cd_notes c of None \<Rightarrow> tx_text x | Some n \<Rightarrow> Some n)\<rparr>"

definition amount_changed :: "change_data \<Rightarrow> cash_txn \<Rightarrow> bool" where
  "amount_changed c x \<longleftrightarrow> (case cd_amount c of None \<Rightarrow> False | Some a \<Rightarrow> dec_val a \<noteq> of_int (tx_amount x) / 100)"

definition audit_values :: "cash_txn \<Rightarrow> payload" where
  "audit_values x = [(''amount'', JStr (dec_str (Dec (tx_amount x) 2))), (''accounting_period'', JStr (tx_period x)),
     (''txn_category'', JStr (category_name (tx_category x)))]"

definition edit_row :: "env \<Rightarrow> change_data \<Rightarrow> cash_txn \<Rightarrow> fpe_db \<Rightarrow> (admin_error + int) \<times> fpe_db" where
  \<comment> \<open>statement 1 updates the row, 2 is the audit entry, 3 undoes the old posting, 4 posts the new
    one, the last reads the row back\<close>
  "edit_row e c x f =
     (let i = tx_id x; y = edited_txn c x
      in if raises e 1 then (Inl Server_error, f)
         else let f1 = f\<lparr>fp_txns := update_where (\<lambda>z. tx_id z = i) (edited_txn c) (fp_txns f)\<rparr>
              in if raises e 2 then (Inl Server_error, f1)
                 else let f2 = audit_txn i ''admin_edit'' (audit_values x) (audit_values y) ''Admin edit'' f1
                      in if posts (tx_employee x) \<and> (amount_changed c x \<or> tx_period y \<noteq> tx_period x)
                         then if raises e 3 then (Inl Server_error, f2)
                              else let f3 = adjust_ledger e (the (tx_employee x)) (tx_period x) (- tx_amount x) (tx_category x) f2
                                   in if raises e 4 then (Inl Server_error, f3)
                                      else let f4 = adjust_ledger e (the (tx_employee x)) (tx_period y) (tx_amount y) (tx_category y) f3
                                           in (if raises e 5 then Inl Server_error else Inr i, f4)
                         else (if raises e 3 then Inl Server_error else Inr i, f2))"

definition edit_admin_transaction ::
  "env \<Rightarrow> int \<Rightarrow> update_body \<Rightarrow> lock_header \<Rightarrow> admin_db \<Rightarrow> (admin_error + int) \<times> admin_db" where
  "edit_admin_transaction e i body h db =
     (case parse_update body of
        None \<Rightarrow> (Inl Unprocessable, db)
      | Some c \<Rightarrow>
          if i < 1 then (Inl Unprocessable, db)
          else if raises e 0 then (Inl Server_error, db)
          else case find (\<lambda>x. tx_id x = i) (fp_txns (ax_fpe db)) of
            None \<Rightarrow> (Inl (Txn_unknown i), db)
          | Some x \<Rightarrow>
              if is_deleted db i then (Inl Txn_deleted, db)
              else if lock_conflict h (ax_updated db i) then (Inl Edit_conflict, db)
              else (case edit_row e c x (ax_fpe db) of (r, f) \<Rightarrow> (r, db\<lparr>ax_fpe := f\<rparr>)))"

definition soft_delete_transaction ::
  "env \<Rightarrow> int \<Rightarrow> string \<Rightarrow> admin_db \<Rightarrow> (admin_error + int) \<times> admin_db" where
  "soft_delete_transaction e i deleted_by db =
     (if i < 1 then (Inl Unprocessable, db)
      else if raises e 0 then (Inl Server_error, db)
      else case find (\<lambda>x. tx_id x = i) (fp_txns (ax_fpe db)) of
        None \<Rightarrow> (Inl (Txn_unknown i), db)
      | Some x \<Rightarrow>
          if is_deleted db i then (Inl Already_deleted, db)
          else if raises e 1 then (Inl Server_error, db)
          else let db1 = db\<lparr>ax_deleted := ax_deleted db @ [(i, py_now e, deleted_by)]\<rparr>
               in if raises e 2 then (Inl Server_error, db1)
                  else let f2 = audit_txn i ''admin_soft_delete''
                              [(''id'', JInt i), (''amount'', JStr (dec_str (Dec (tx_amount x) 2))), (''accounting_period'', JStr (tx_period x))]
                              [] ''Admin soft delete'' (ax_fpe db1)
                       in if \<not> posts (tx_employee x) then (Inr i, db1\<lparr>ax_fpe := f2\<rparr>)
                          else if raises e 3 then (Inl Server_error, db1\<lparr>ax_fpe := f2\<rparr>)
                          else (Inr i, db1\<lparr>ax_fpe := adjust_ledger e (the (tx_employee x)) (tx_period x) (- tx_amount x) (tx_category x) f2\<rparr>))"

subsection \<open>The ledger as a function of the live transactions\<close>

text \<open>
  A cell of the ledger is an employee, a month and a side, advances or all other payments. The
  specification: a cell holds the sum of the transactions of that employee, month and side that are
  not deleted.
\<close>

definition share :: "admin_db \<Rightarrow> int \<Rightarrow> string \<Rightarrow> bool \<Rightarrow> cash_txn \<Rightarrow> int" where
  "share db emp per adv x =
     (if tx_employee x = Some emp \<and> tx_period x = per \<and> is_advance x = adv \<and> \<not> is_deleted db (tx_id x)
      then tx_amount x else 0)"

definition live_total :: "admin_db \<Rightarrow> int \<Rightarrow> string \<Rightarrow> bool \<Rightarrow> int" where
  "live_total db emp per adv = sum_list (map (share db emp per adv) (fp_txns (ax_fpe db)))"

definition cell_of :: "int \<Rightarrow> string \<Rightarrow> bool \<Rightarrow> ledger_row \<Rightarrow> int" where
  "cell_of emp per adv l = (if lg_key l = (emp, per) then if adv then lg_advance l else lg_paid l else 0)"

definition ledger_total :: "fpe_db \<Rightarrow> int \<Rightarrow> string \<Rightarrow> bool \<Rightarrow> int" where
  "ledger_total f emp per adv = sum_list (map (cell_of emp per adv) (fp_ledger f))"

definition ledger_live :: "admin_db \<Rightarrow> bool" where
  "ledger_live db \<longleftrightarrow> distinct (map tx_id (fp_txns (ax_fpe db))) \<and> distinct (map lg_key (fp_ledger (ax_fpe db)))
     \<and> (\<forall>x\<in>set (fp_txns (ax_fpe db)). tx_id x < fp_next (ax_fpe db)) \<and> (\<forall>i\<in>fst ` set (ax_deleted db). i < fp_next (ax_fpe db))
     \<and> (\<forall>emp per adv. emp \<noteq> 0 \<longrightarrow> ledger_total (ax_fpe db) emp per adv = live_total db emp per adv)"

lemma upsert_cells:
  assumes "distinct (map lg_key (fp_ledger f))"
  shows "sum_list (map (cell_of emp per adv) (upsert_ledger e i p a c (fp_ledger f)))
    = ledger_total f emp per adv + (if emp = i \<and> per = p \<and> adv = (c = T_advance) then a else 0)"
proof (cases "has_row (\<lambda>l. lg_employee l = i \<and> lg_period l = p) (fp_ledger f)")
  case True
  then obtain r where r: "r \<in> set (fp_ledger f)" "lg_employee r = i" "lg_period r = p" by (auto simp: has_row_iff)
  have same: "(\<lambda>l. lg_employee l = i \<and> lg_period l = p) = (\<lambda>l. lg_key l = lg_key r)"
    using r by (auto simp: lg_key_def)
  show ?thesis
    using True r unfolding upsert_ledger_def
    by (simp add: same sum_update_where_key [OF assms r(1)] ledger_total_def) (auto simp: cell_of_def lg_key_def)
next
  case False
  then show ?thesis by (auto simp: upsert_ledger_def ledger_total_def cell_of_def lg_key_def)
qed

lemma upsert_keys:
  assumes "distinct (map lg_key t)"
  shows "distinct (map lg_key (upsert_ledger e i p a c t))"
proof (cases "has_row (\<lambda>l. lg_employee l = i \<and> lg_period l = p) t")
  case True
  have "map lg_key (upsert_ledger e i p a c t) = map lg_key t"
    unfolding upsert_ledger_def using True by simp (rule map_key_update_where, simp add: lg_key_def)
  with assms show ?thesis by simp
next
  case False
  then show ?thesis using assms by (auto simp: upsert_ledger_def has_row_iff lg_key_def)
qed

lemma share_cong: "ax_deleted db' = ax_deleted db \<Longrightarrow> share db' emp per adv = share db emp per adv"
  by (rule ext) (simp add: share_def is_deleted_def)

lemma live_append:
  assumes live: "ledger_live db" and del: "ax_deleted db' = ax_deleted db"
    and t: "fp_txns (ax_fpe db') = fp_txns (ax_fpe db) @ [x]"
    and n: "fp_next (ax_fpe db') = fp_next (ax_fpe db) + 1" "tx_id x = fp_next (ax_fpe db)"
    and keys: "distinct (map lg_key (fp_ledger (ax_fpe db')))"
    and cells: "\<And>emp per adv. emp \<noteq> 0 \<Longrightarrow> ledger_total (ax_fpe db') emp per adv = ledger_total (ax_fpe db) emp per adv
      + (if tx_employee x = Some emp \<and> tx_period x = per \<and> is_advance x = adv then tx_amount x else 0)"
  shows "ledger_live db'"
proof -
  have fresh: "\<not> is_deleted db (tx_id x)" using live n(2) by (auto simp: ledger_live_def is_deleted_def)
  have "live_total db' emp per adv = live_total db emp per adv + share db emp per adv x" for emp per adv
    by (simp add: live_total_def t share_cong [OF del])
  then have "ledger_total (ax_fpe db') emp per adv = live_total db' emp per adv" if "emp \<noteq> 0" for emp per adv
    using live cells [OF that] that fresh by (simp add: ledger_live_def share_def)
  with live keys show ?thesis by (fastforce simp: ledger_live_def t n del)
qed

lemma live_post:
  assumes live: "ledger_live db" and del: "ax_deleted db' = ax_deleted db"
    and t: "fp_txns (ax_fpe db') = fp_txns (ax_fpe db) @ [x]"
    and n: "fp_next (ax_fpe db') = fp_next (ax_fpe db) + 1" "tx_id x = fp_next (ax_fpe db)"
    and l: "fp_ledger (ax_fpe db')
      = fp_ledger (post_ledger e (tx_employee x) (tx_period x) (tx_amount x) (tx_category x) (ax_fpe db))"
  shows "ledger_live db'"
proof -
  have keys: "distinct (map lg_key (fp_ledger (ax_fpe db)))" using live by (simp add: ledger_live_def)
  show ?thesis
  proof (rule live_append [OF live del t n])
    show "distinct (map lg_key (fp_ledger (ax_fpe db')))"
      unfolding l post_ledger_def using keys by (simp add: upsert_keys split: option.split)
    fix emp :: int and per adv assume "emp \<noteq> 0"
    then show "ledger_total (ax_fpe db') emp per adv = ledger_total (ax_fpe db) emp per adv
      + (if tx_employee x = Some emp \<and> tx_period x = per \<and> is_advance x = adv then tx_amount x else 0)"
      unfolding ledger_total_def [of "ax_fpe db'"] l post_ledger_def
      by (auto simp: upsert_cells [OF keys] is_advance_def split: option.split) (auto simp: ledger_total_def)
  qed
qed

lemma live_create:
  assumes "ledger_live db" "db_ok e"
  shows "ledger_live (db\<lparr>ax_fpe := snd (create_transaction sha e req (ax_fpe db))\<rparr>)"
proof (cases "find (\<lambda>x. tx_ref x = build_txn_ref sha req (request_period req)) (fp_txns (ax_fpe db))")
  case None
  from create_new [OF assms(2) None] obtain f where
    c: "create_transaction sha e req (ax_fpe db) = (Inr (row_to_model True (new_txn sha e req (ax_fpe db))), f)"
      "fp_txns f = fp_txns (ax_fpe db) @ [new_txn sha e req (ax_fpe db)]" "fp_next f = fp_next (ax_fpe db) + 1"
      "fp_ledger f = fp_ledger (post_ledger e (rq_employee req) (request_period req) (cents (rq_amount req)) (rq_category req) (ax_fpe db))"
    by blast
  show ?thesis unfolding c(1) snd_conv
    by (rule live_post [OF assms(1), where x = "new_txn sha e req (ax_fpe db)" and e = e])
      (simp_all add: c(2-4) new_txn_def)
next
  case (Some x)
  with create_hit [OF _ Some, of e] assms show ?thesis by (simp add: db_ok_raises)
qed

definition not_other :: "int \<Rightarrow> fpe_db \<Rightarrow> bool" where
  "not_other i f \<longleftrightarrow> list_all (\<lambda>x. tx_id x = i \<longrightarrow> tx_category x \<noteq> T_other) (fp_txns f)"

lemma live_reverse:
  assumes "ledger_live db" "db_ok e" "not_other i (ax_fpe db)"
  shows "ledger_live (db\<lparr>ax_fpe := snd (reverse_transaction e i reason w (ax_fpe db))\<rparr>)"
proof (cases "\<exists>orig. find (\<lambda>x. tx_id x = i) (fp_txns (ax_fpe db)) = Some orig \<and> \<not> tx_is_reversal orig
    \<and> \<not> has_row (\<lambda>x. tx_ref x = ''REV-'' @ tx_ref orig) (fp_txns (ax_fpe db))")
  case True
  then obtain orig where o: "find (\<lambda>x. tx_id x = i) (fp_txns (ax_fpe db)) = Some orig" "\<not> tx_is_reversal orig"
      "\<not> has_row (\<lambda>x. tx_ref x = ''REV-'' @ tx_ref orig) (fp_txns (ax_fpe db))" by blast
  have cat: "tx_category orig \<noteq> T_other"
    using assms(3) find_Some_mem [OF o(1)] by (auto simp: not_other_def list_all_iff)
  from reverse_done [OF assms(2) o cat, of reason w] obtain rev f where
    c: "reverse_transaction e i reason w (ax_fpe db) = (Inr (row_to_model True rev), f)"
      "fp_txns f = fp_txns (ax_fpe db) @ [rev]" "fp_next f = fp_next (ax_fpe db) + 1"
    and rev: "rev = orig\<lparr>tx_id := fp_next (ax_fpe db), tx_ref := ''REV-'' @ tx_ref orig, tx_amount := - tx_amount orig,
            tx_text := Some (''REVERSAL: '' @ reason), tx_is_reversal := True,
            tx_reversed := Some i, tx_created_at := db_now e, tx_by := w\<rparr>"
    and l: "fp_ledger f = fp_ledger (post_ledger e (tx_employee orig) (tx_period orig) (- tx_amount orig) (tx_category orig) (ax_fpe db))"
    by blast
  show ?thesis unfolding c(1) snd_conv
    by (rule live_post [OF assms(1), where x = rev and e = e]) (simp_all add: c(2,3) l rev)
next
  case False
  then have "snd (reverse_transaction e i reason w (ax_fpe db)) = ax_fpe db"
    using assms(2) by (auto simp: reverse_transaction_def Let_def db_ok_raises split: option.splits if_splits)
  with assms(1) show ?thesis by simp
qed

lemma adjust_frame [simp]:
  "fp_txns (adjust_ledger e i p a c f) = fp_txns f" "fp_next (adjust_ledger e i p a c f) = fp_next f"
  "fp_txns (audit_txn i act b v r f) = fp_txns f" "fp_next (audit_txn i act b v r f) = fp_next f"
  "fp_ledger (audit_txn i act b v r f) = fp_ledger f"
  by (simp_all add: adjust_ledger_def audit_txn_def)

lemma adjust_keys:
  "distinct (map lg_key (fp_ledger f)) \<Longrightarrow> distinct (map lg_key (fp_ledger (adjust_ledger e i p a c f)))"
  by (simp add: adjust_ledger_def upsert_keys)

lemma adjust_cells:
  assumes "distinct (map lg_key (fp_ledger f))"
  shows "ledger_total (adjust_ledger e i p a c f) emp per adv
    = ledger_total f emp per adv + (if emp = i \<and> per = p \<and> adv = (c = T_advance) then a else 0)"
  unfolding ledger_total_def [of "adjust_ledger e i p a c f"]
  by (simp add: adjust_ledger_def upsert_cells [OF assms])

lemma ledger_total_frame [simp]:
  "ledger_total (f\<lparr>fp_next := n\<rparr>) = ledger_total f" "ledger_total (f\<lparr>fp_txns := t\<rparr>) = ledger_total f"
  by (simp_all add: fun_eq_iff ledger_total_def)

lemma audit_cells [simp]: "ledger_total (audit_txn i act b v r f) emp per adv = ledger_total f emp per adv"
  by (simp add: ledger_total_def)

lemma live_same: "ledger_live db \<Longrightarrow> ax_fpe db' = ax_fpe db \<Longrightarrow> ax_deleted db' = ax_deleted db \<Longrightarrow> ledger_live db'"
  by (simp add: ledger_live_def live_total_def share_cong [of db' db])

lemma insert_admin_done:
  assumes "db_ok e" "ledger_live db" "insert_admin_row sha uuid e emp d (ax_fpe db) = (r, f)"
    and "ax_fpe db' = f" "ax_deleted db' = ax_deleted db"
  shows "ledger_live db'"
proof (cases "has_row (\<lambda>x. tx_ref x = tx_ref (admin_row sha uuid e emp d (fp_next (ax_fpe db)))) (fp_txns (ax_fpe db))")
  case True
  then have "f = ax_fpe db" using assms(3) by (simp add: insert_admin_row_def Let_def)
  with assms(4,5) show ?thesis by (intro live_same [OF assms(2)]) simp_all
next
  case False
  let ?f = "ax_fpe db" let ?x = "admin_row sha uuid e emp d (fp_next ?f)"
  have keys: "distinct (map lg_key (fp_ledger ?f))" using assms(2) by (simp add: ledger_live_def)
  have "\<exists>b. insert_admin_row sha uuid e emp d ?f = (Inr (fp_next ?f),
      adjust_ledger e (em_id emp) (tx_period ?x) (cents (nd_amount d)) (nd_category d)
       (audit_txn (fp_next ?f) ''admin_create'' [] b (''Admin manual entry for '' @ nd_name d)
        (?f\<lparr>fp_next := fp_next ?f + 1, fp_txns := fp_txns ?f @ [?x]\<rparr>)))"
    using False by (simp add: insert_admin_row_def Let_def db_ok_raises [OF assms(1)]) (rule exI, rule refl)
  then obtain b where b: "insert_admin_row sha uuid e emp d ?f = (Inr (fp_next ?f),
      adjust_ledger e (em_id emp) (tx_period ?x) (cents (nd_amount d)) (nd_category d)
       (audit_txn (fp_next ?f) ''admin_create'' [] b (''Admin manual entry for '' @ nd_name d)
        (?f\<lparr>fp_next := fp_next ?f + 1, fp_txns := fp_txns ?f @ [?x]\<rparr>)))" by (elim exE)
  note f = arg_cong [OF trans [OF assms(3) [symmetric] b], of snd, unfolded snd_conv]
  have x: "tx_id ?x = fp_next ?f" "tx_employee ?x = Some (em_id emp)" "tx_amount ?x = cents (nd_amount d)"
    "is_advance ?x = (nd_category d = T_advance)"
    by (simp_all add: admin_row_def is_advance_def)
  have cells: "ledger_total f i per adv = ledger_total ?f i per adv
      + (if i = em_id emp \<and> per = tx_period ?x \<and> adv = (nd_category d = T_advance) then cents (nd_amount d) else 0)" for i per adv
    unfolding f by (subst adjust_cells) (simp_all add: keys)
  show ?thesis
  proof (rule live_append [OF assms(2,5), of ?x])
    show "distinct (map lg_key (fp_ledger (ax_fpe db')))"
      unfolding assms(4) f by (rule adjust_keys) (simp add: keys)
    fix i :: int and per adv assume "i \<noteq> 0"
    show "ledger_total (ax_fpe db') i per adv = ledger_total ?f i per adv
      + (if tx_employee ?x = Some i \<and> tx_period ?x = per \<and> is_advance ?x = adv then tx_amount ?x else 0)"
      unfolding assms(4) cells by (rule arg_cong [where f = "\<lambda>z. ledger_total ?f i per adv + z"]) (auto simp: x)
  qed (simp_all add: assms(4) f x(1))
qed

lemma live_add:
  assumes "ledger_live db" "db_ok e"
  shows "ledger_live (snd (add_admin_transaction sha sim uuid er e body db))"
proof (cases "parse_create body")
  case (Some d)
  obtain q idb where q: "resolve_or_create_employee sim er (nd_name d) (nd_id_phone d) (nd_payout d) (ax_ident db) = (q, idb)"
    by fastforce
  show ?thesis
  proof (cases q)
    case (Inr emp)
    obtain r f where f: "insert_admin_row sha uuid e emp d (ax_fpe db) = (r, f)" by fastforce
    have "ledger_live (db\<lparr>ax_ident := idb, ax_fpe := f\<rparr>)"
      by (rule insert_admin_done [OF assms(2,1) f]) simp_all
    then show ?thesis by (simp add: add_admin_transaction_def Some q Inr f)
  qed (simp add: add_admin_transaction_def Some q live_same [OF assms(1)])
qed (simp add: add_admin_transaction_def assms(1))

text \<open>
  An edit posts the difference when the amount or the month changes. It may move a payment between
  the sides of the ledger only together with such a change; \<open>posts_the_change\<close> says so.
\<close>

definition posts_the_change :: "change_data \<Rightarrow> cash_txn \<Rightarrow> bool" where
  "posts_the_change c x \<longleftrightarrow>
     is_advance (edited_txn c x) = is_advance x \<or> amount_changed c x \<or> tx_period (edited_txn c x) \<noteq> tx_period x"

definition careful_edit :: "update_body \<Rightarrow> int \<Rightarrow> admin_db \<Rightarrow> bool" where
  "careful_edit body i db \<longleftrightarrow>
     (case (parse_update body, find (\<lambda>x. tx_id x = i) (fp_txns (ax_fpe db))) of
        (Some c, Some x) \<Rightarrow> posts_the_change c x | _ \<Rightarrow> True)"

lemma edited_fields [simp]:
  "tx_id (edited_txn c x) = tx_id x" "tx_employee (edited_txn c x) = tx_employee x"
  by (simp_all add: edited_txn_def)

lemma cents_exact: "dec_val a = of_int n / 100 \<Longrightarrow> cents a = n"
proof (cases a)
  case (Dec u s)
  assume "dec_val a = of_int n / 100"
  then have "of_int u * (100 :: rat) = of_int n * 10 ^ s" by (simp add: dec_val_def Dec field_simps)
  then have "of_int (u * 100) = (of_int (n * 10 ^ s) :: rat)" by simp
  then have eq: "u * 100 = n * 10 ^ s" by (simp only: of_int_eq_iff)
  show ?thesis
  proof (cases "s \<le> 2")
    case True
    then consider "s = 0" | "s = 1" | "s = 2" by linarith
    then show ?thesis by cases (use eq in \<open>simp_all add: cents_def Dec\<close>)
  next
    case False
    then obtain k where k: "s = 2 + k" by (metis le_iff_add linorder_le_cases)
    with eq have u: "u = n * 10 ^ k" by (simp add: power_add)
    have "(2 * \<bar>u\<bar> + 10 ^ k) div (2 * 10 ^ k) = \<bar>n\<bar> + 10 ^ k div (2 * 10 ^ k)"
      using div_mult_self3 [of "2 * 10 ^ k :: int" "\<bar>n\<bar>" "10 ^ k"] by (simp add: u abs_mult ac_simps)
    also have "(10 ^ k :: int) div (2 * 10 ^ k) = 0" by (simp add: div_pos_pos_trivial)
    finally show ?thesis by (simp add: cents_def Dec k u sgn_mult abs_mult) (simp add: mult_sgn_abs)
  qed
qed
lemma amount_kept: "\<not> amount_changed c x \<Longrightarrow> tx_amount (edited_txn c x) = tx_amount x"
  by (auto simp: edited_txn_def amount_changed_def cents_exact split: option.splits)

lemma edited_rows:
  assumes "ledger_live db" "x \<in> set (fp_txns (ax_fpe db))"
  shows "sum_list (map (share db emp per adv) (update_where (\<lambda>z. tx_id z = tx_id x) (edited_txn c) (fp_txns (ax_fpe db))))
    = live_total db emp per adv - share db emp per adv x + share db emp per adv (edited_txn c x)"
  unfolding live_total_def using assms by (intro sum_update_where_key) (simp_all add: ledger_live_def)

lemma live_edited:
  assumes live: "ledger_live db" and x: "x \<in> set (fp_txns (ax_fpe db))" "\<not> is_deleted db (tx_id x)"
    and del: "ax_deleted db' = ax_deleted db"
    and t: "fp_txns (ax_fpe db') = update_where (\<lambda>z. tx_id z = tx_id x) (edited_txn c) (fp_txns (ax_fpe db))"
    and n: "fp_next (ax_fpe db') = fp_next (ax_fpe db)"
    and keys: "distinct (map lg_key (fp_ledger (ax_fpe db')))"
    and cells: "\<And>emp per adv. emp \<noteq> 0 \<Longrightarrow> ledger_total (ax_fpe db') emp per adv
      = ledger_total (ax_fpe db) emp per adv - share db emp per adv x + share db emp per adv (edited_txn c x)"
  shows "ledger_live db'"
proof -
  have ids: "map tx_id (fp_txns (ax_fpe db')) = map tx_id (fp_txns (ax_fpe db))"
    unfolding t by (rule map_key_update_where) simp
  then have mem: "tx_id ` set (fp_txns (ax_fpe db')) = tx_id ` set (fp_txns (ax_fpe db))" by (metis set_map)
  have "ledger_total (ax_fpe db') emp per adv = live_total db' emp per adv" if "emp \<noteq> 0" for emp per adv
    using live that by (simp add: cells [OF that] live_total_def [of db'] t share_cong [OF del] edited_rows [OF live x(1)])
      (simp add: ledger_live_def)
  moreover have "\<forall>y\<in>set (fp_txns (ax_fpe db')). tx_id y < fp_next (ax_fpe db')"
    using live mem unfolding ledger_live_def n by (metis imageE image_eqI)
  ultimately show ?thesis using live keys by (simp add: ledger_live_def ids n del)
qed

lemma edit_row_txns:
  assumes "db_ok e"
  shows "fp_txns (snd (edit_row e c x f)) = update_where (\<lambda>z. tx_id z = tx_id x) (edited_txn c) (fp_txns f)"
    and "fp_next (snd (edit_row e c x f)) = fp_next f"
  by (simp_all add: edit_row_def Let_def db_ok_raises [OF assms])

lemma edit_row_ledger:
  assumes "db_ok e" and keys: "distinct (map lg_key (fp_ledger f))"
  shows "distinct (map lg_key (fp_ledger (snd (edit_row e c x f))))"
    and "ledger_total (snd (edit_row e c x f)) emp per adv
     = (if posts (tx_employee x) \<and> (amount_changed c x \<or> tx_period (edited_txn c x) \<noteq> tx_period x)
        then ledger_total f emp per adv
          + (if emp = the (tx_employee x) \<and> per = tx_period x \<and> adv = is_advance x then - tx_amount x else 0)
          + (if emp = the (tx_employee x) \<and> per = tx_period (edited_txn c x) \<and> adv = is_advance (edited_txn c x)
             then tx_amount (edited_txn c x) else 0)
        else ledger_total f emp per adv)"
  by (simp_all add: edit_row_def Let_def db_ok_raises [OF assms(1)] adjust_cells adjust_keys keys is_advance_def) blast

lemma shares_posted:
  fixes total :: int
  assumes "emp \<noteq> 0" and safe: "posts_the_change c x" and alive: "\<not> is_deleted db (tx_id x)"
  shows "(if posts (tx_employee x) \<and> (amount_changed c x \<or> tx_period (edited_txn c x) \<noteq> tx_period x)
        then total
          + (if emp = the (tx_employee x) \<and> per = tx_period x \<and> adv = is_advance x then - tx_amount x else 0)
          + (if emp = the (tx_employee x) \<and> per = tx_period (edited_txn c x) \<and> adv = is_advance (edited_txn c x)
             then tx_amount (edited_txn c x) else 0)
        else total) = total - share db emp per adv x + share db emp per adv (edited_txn c x)"
proof (cases "tx_employee x = Some emp")
  case True
  then have "posts (tx_employee x)" using assms(1) by (simp add: posts_def)
  show ?thesis
  proof (cases "amount_changed c x \<or> tx_period (edited_txn c x) \<noteq> tx_period x")
    case False
    with safe True alive amount_kept [of c x] show ?thesis by (simp add: share_def posts_the_change_def)
  next
    case changed: True
    show ?thesis
      using changed True alive \<open>posts (tx_employee x)\<close> by (simp add: share_def eq_commute [of adv] eq_commute [of per])
  qed
next
  case False
  then have "posts (tx_employee x) \<Longrightarrow> emp \<noteq> the (tx_employee x)" by (auto simp: posts_def split: option.splits)
  with False show ?thesis by (simp add: share_def)
qed

lemma live_edit:
  assumes live: "ledger_live db" and ok: "db_ok e" and careful: "careful_edit body i db"
  shows "ledger_live (snd (edit_admin_transaction e i body h db))"
proof (cases "parse_update body")
  case None
  then show ?thesis using live by (simp add: edit_admin_transaction_def)
next
  case (Some c)
  show ?thesis
  proof (cases "find (\<lambda>x. tx_id x = i) (fp_txns (ax_fpe db))")
    case None
    then show ?thesis using live by (simp add: edit_admin_transaction_def Some)
  next
    case f: (Some x)
    then have x: "x \<in> set (fp_txns (ax_fpe db))" "tx_id x = i" using find_Some_mem [OF f] by auto
    show ?thesis
    proof (cases "i < 1 \<or> is_deleted db i \<or> lock_conflict h (ax_updated db i)")
      case True
      then show ?thesis using live by (auto simp: edit_admin_transaction_def Some f)
    next
      case False
      let ?f = "snd (edit_row e c x (ax_fpe db))"
      have e: "snd (edit_admin_transaction e i body h db) = db\<lparr>ax_fpe := ?f\<rparr>"
        using False ok by (simp add: edit_admin_transaction_def Some f db_ok_raises split: prod.split)
      have keys: "distinct (map lg_key (fp_ledger (ax_fpe db)))" using live by (simp add: ledger_live_def)
      have safe: "posts_the_change c x" using careful by (simp add: careful_edit_def Some f)
      have alive: "\<not> is_deleted db (tx_id x)" using False x(2) by simp
      have cells: "ledger_total ?f emp per adv
          = ledger_total (ax_fpe db) emp per adv - share db emp per adv x + share db emp per adv (edited_txn c x)"
        if "emp \<noteq> 0" for emp per adv
        unfolding edit_row_ledger(2) [OF ok keys] by (rule shares_posted [OF that safe alive])
      show ?thesis unfolding e
        by (rule live_edited [OF live x(1) alive]) (simp_all add: edit_row_txns [OF ok] edit_row_ledger(1) [OF ok keys] cells)
    qed
  qed
qed

lemma live_deleted:
  assumes live: "ledger_live db" and x: "x \<in> set (fp_txns (ax_fpe db))"
    and del: "ax_deleted db' = ax_deleted db @ [(tx_id x, t, who)]" and rows: "fp_txns (ax_fpe db') = fp_txns (ax_fpe db)"
    and n: "fp_next (ax_fpe db') = fp_next (ax_fpe db)"
    and keys: "distinct (map lg_key (fp_ledger (ax_fpe db')))"
    and cells: "\<And>emp per adv. emp \<noteq> 0 \<Longrightarrow> ledger_total (ax_fpe db') emp per adv
      = ledger_total (ax_fpe db) emp per adv - share db emp per adv x"
  shows "ledger_live db'" "live_total db' emp per adv = live_total db emp per adv - share db emp per adv x"
proof -
  have sh: "share db' emp per adv = (\<lambda>y. if tx_id y = tx_id x then 0 else share db emp per adv y)" for emp per adv
    by (rule ext) (simp add: share_def is_deleted_def del)
  have tot: "live_total db' emp per adv = live_total db emp per adv - share db emp per adv x" for emp per adv
    unfolding live_total_def rows sh using live x by (intro sum_except_key) (simp_all add: ledger_live_def)
  then show "live_total db' emp per adv = live_total db emp per adv - share db emp per adv x" .
  from live x keys show "ledger_live db'" by (auto simp: ledger_live_def rows n del cells tot)
qed

lemma delete_done:
  assumes live: "ledger_live db" and ok: "db_ok e" and i: "1 \<le> i"
    and f: "find (\<lambda>x. tx_id x = i) (fp_txns (ax_fpe db)) = Some x" and alive: "\<not> is_deleted db i"
  shows "\<exists>db'. soft_delete_transaction e i who db = (Inr i, db') \<and> ledger_live db' \<and> is_deleted db' i
    \<and> fp_txns (ax_fpe db') = fp_txns (ax_fpe db)
    \<and> (\<forall>emp per adv. live_total db' emp per adv = live_total db emp per adv - share db emp per adv x)"
proof -
  let ?db1 = "db\<lparr>ax_deleted := ax_deleted db @ [(i, py_now e, who)]\<rparr>"
  have x: "x \<in> set (fp_txns (ax_fpe db))" "tx_id x = i" using find_Some_mem [OF f] by auto
  have keys: "distinct (map lg_key (fp_ledger (ax_fpe db)))" using live by (simp add: ledger_live_def)
  have "\<not> i < 1" using i by simp
  note run = soft_delete_transaction_def Let_def db_ok_raises [OF ok] f alive this if_False option.case
  have "\<exists>db'. soft_delete_transaction e i who db = (Inr i, db')" by (simp add: run)
  then obtain db' where d: "soft_delete_transaction e i who db = (Inr i, db')" by (elim exE)
  have del: "ax_deleted db' = ax_deleted db @ [(tx_id x, py_now e, who)]" and rows: "fp_txns (ax_fpe db') = fp_txns (ax_fpe db)"
    and n: "fp_next (ax_fpe db') = fp_next (ax_fpe db)"
    and keys': "distinct (map lg_key (fp_ledger (ax_fpe db')))"
    using d by (auto simp: run x(2) keys adjust_keys split: if_splits)
  have cells: "ledger_total (ax_fpe db') emp per adv = ledger_total (ax_fpe db) emp per adv - share db emp per adv x"
    if "emp \<noteq> 0" for emp per adv
    using d that
    by (auto simp: run x(2) keys adjust_cells share_def is_advance_def posts_def split: if_splits option.splits)
  from live_deleted [OF live x(1) del rows n keys' cells] d rows show ?thesis
    by (intro exI [of _ db']) (simp add: is_deleted_def del x(2))
qed

lemma live_delete:
  assumes live: "ledger_live db" and ok: "db_ok e"
  shows "ledger_live (snd (soft_delete_transaction e i who db))"
proof (cases "find (\<lambda>x. tx_id x = i) (fp_txns (ax_fpe db))")
  case (Some x)
  show ?thesis
  proof (cases "1 \<le> i \<and> \<not> is_deleted db i")
    case True
    with delete_done [OF live ok _ Some, of who] show ?thesis by auto
  next
    case False
    then have "snd (soft_delete_transaction e i who db) = db"
      by (auto simp: soft_delete_transaction_def db_ok_raises [OF ok] Some)
    with live show ?thesis by simp
  qed
qed (simp add: soft_delete_transaction_def live)

subsection \<open>Runs of the routes and the engine\<close>

inductive admin_step :: "admin_db \<Rightarrow> admin_db \<Rightarrow> bool" where
  add: "db_ok e \<Longrightarrow> admin_step db (snd (add_admin_transaction sha sim uuid er e body db))"
| edit: "db_ok e \<Longrightarrow> careful_edit body i db \<Longrightarrow> admin_step db (snd (edit_admin_transaction e i body h db))"
| delete: "db_ok e \<Longrightarrow> admin_step db (snd (soft_delete_transaction e i who db))"
| engine_create: "db_ok e \<Longrightarrow> admin_step db (db\<lparr>ax_fpe := snd (create_transaction sha e req (ax_fpe db))\<rparr>)"
| engine_reverse: "db_ok e \<Longrightarrow> not_other i (ax_fpe db) \<Longrightarrow>
    admin_step db (db\<lparr>ax_fpe := snd (reverse_transaction e i reason w (ax_fpe db))\<rparr>)"

definition admin_start :: "admin_db \<Rightarrow> bool" where
  "admin_start db \<longleftrightarrow> fpe_start (ax_fpe db) \<and> ax_deleted db = []"

interpretation admin_system: invariant_system admin_start admin_step ledger_live
proof unfold_locales
  show "admin_start s \<Longrightarrow> ledger_live s" for s
    by (simp add: admin_start_def fpe_start_def ledger_live_def ledger_total_def live_total_def)
  show "admin_step s t \<Longrightarrow> ledger_live s \<Longrightarrow> ledger_live t" for s t
    by (induction rule: admin_step.induct) (simp_all add: live_add live_edit live_delete live_create live_reverse)
qed

lemma cell_of_row:
  assumes "distinct (map lg_key t)" "l \<in> set t"
  shows "sum_list (map (cell_of (lg_employee l) (lg_period l) adv) t) = (if adv then lg_advance l else lg_paid l)"
  using assms
proof (induction t)
  case (Cons r t)
  show ?case
  proof (cases "r = l")
    case True
    have "lg_key y \<noteq> lg_key l" if "y \<in> set t" for y
      using Cons.prems(1) that True by (auto simp: image_iff)
    then have "sum_list (map (cell_of (lg_employee l) (lg_period l) adv) t) = 0"
      by (intro sum_list_zeros) (simp add: cell_of_def lg_key_def [of l, symmetric])
    moreover have "cell_of (lg_employee l) (lg_period l) adv l = (if adv then lg_advance l else lg_paid l)"
      by (simp add: cell_of_def lg_key_def)
    ultimately show ?thesis using True by simp
  next
    case False
    with Cons.prems have "l \<in> set t" "lg_key r \<noteq> lg_key l" by auto
    moreover from this have "cell_of (lg_employee l) (lg_period l) adv r = 0" by (auto simp: cell_of_def lg_key_def)
    ultimately show ?thesis using Cons by simp
  qed
qed simp

text \<open>
  C20: The paid and advance totals of the ledger agree with the live transactions. After any sequence
  of complete additions, edits and deletions of the administration, mixed with complete recordings and
  reversals of the payroll engine (complete: no statement of theirs fails), transaction ids and ledger keys are unique; the paid and advance totals of every ledger row are
  the sums of the transactions of that employee and month that are not deleted, other payments and
  advances apart; and a month without a ledger row has nothing to show. Two more things are excluded:
  an edit that moves a payment between advance and the rest without changing amount or month, and
  the reversal of an entry of category other (\<open>category_edit_drifts\<close> shows what the first does).
\<close>

theorem admin_ledger_live:
  assumes "reach admin_start admin_step db"
  shows "distinct (map tx_id (fp_txns (ax_fpe db))) \<and> distinct (map lg_key (fp_ledger (ax_fpe db)))
    \<and> (\<forall>l\<in>set (fp_ledger (ax_fpe db)). lg_employee l \<noteq> 0 \<longrightarrow>
         lg_paid l = live_total db (lg_employee l) (lg_period l) False
         \<and> lg_advance l = live_total db (lg_employee l) (lg_period l) True)
    \<and> (\<forall>emp per adv. emp \<noteq> 0 \<longrightarrow> (emp, per) \<notin> lg_key ` set (fp_ledger (ax_fpe db)) \<longrightarrow> live_total db emp per adv = 0)"
proof -
  have live: "ledger_live db" by (rule admin_system.reach_inv [OF assms])
  then have keys: "distinct (map lg_key (fp_ledger (ax_fpe db)))"
    and tot: "emp \<noteq> 0 \<Longrightarrow> live_total db emp per adv = sum_list (map (cell_of emp per adv) (fp_ledger (ax_fpe db)))" for emp per adv
    by (simp_all add: ledger_live_def ledger_total_def)
  have "live_total db emp per adv = 0" if "emp \<noteq> 0" "(emp, per) \<notin> lg_key ` set (fp_ledger (ax_fpe db))" for emp per adv
  proof -
    have "cell_of emp per adv y = 0" if "y \<in> set (fp_ledger (ax_fpe db))" for y
      using that \<open>(emp, per) \<notin> _\<close> by (auto simp: cell_of_def image_iff)
    then show ?thesis unfolding tot [OF that(1)] by (rule sum_list_zeros)
  qed
  with live keys show ?thesis by (simp add: ledger_live_def tot cell_of_row)
qed

definition empty_admin :: admin_db where
  "empty_admin = \<lparr>ax_fpe = empty_fpe, ax_ident = \<lparr>id_emps = [], id_next = 7, id_aliases = [], id_links = [], id_reviews = [],
     id_review_next = 1, id_audit = [], id_wbom = []\<rparr>, ax_deleted = [], ax_updated = (\<lambda>_. None)\<rparr>"

theorem admin_ledger_live_witness:
  "\<exists>db :: admin_db. fp_txns (ax_fpe db) \<noteq> [] \<and> is_deleted db 1
    \<and> distinct (map lg_key (fp_ledger (ax_fpe db)))"
proof -
  let ?q = "sample_request (Some 3) 4 T_salary"
  let ?x = "new_txn (\<lambda>s. s) (env_at 5) ?q (ax_fpe empty_admin)"
  let ?db = "empty_admin\<lparr>ax_fpe := snd (create_transaction (\<lambda>s. s) (env_at 5) ?q (ax_fpe empty_admin))\<rparr>"
  let ?del = "snd (soft_delete_transaction (env_at 9) 1 ''admin'' ?db)"
  have none: "find (\<lambda>x. tx_ref x = build_txn_ref (\<lambda>s. s) ?q (request_period ?q)) (fp_txns (ax_fpe empty_admin)) = None"
    by (simp add: empty_admin_def empty_fpe_def)
  obtain f where c: "create_transaction (\<lambda>s. s) (env_at 5) ?q (ax_fpe empty_admin) = (Inr (row_to_model True ?x), f)"
      "fp_txns f = fp_txns (ax_fpe empty_admin) @ [?x]"
    using create_new [OF db_ok_env_at none] by blast
  have x: "tx_id ?x = 1" by (simp add: new_txn_def empty_admin_def empty_fpe_def)
  have t: "fp_txns (ax_fpe ?db) = [?x]" using c by (simp add: empty_admin_def empty_fpe_def)
  have "reach admin_start admin_step empty_admin"
    by (rule reach_start) (simp add: admin_start_def fpe_start_def empty_admin_def empty_fpe_def)
  then have r: "reach admin_start admin_step ?db" by (rule reach_step) (rule engine_create, simp)
  then have r2: "reach admin_start admin_step ?del" by (rule reach_step) (rule delete, simp)
  have live: "ledger_live ?db" by (rule admin_system.reach_inv [OF r])
  have "\<not> is_deleted ?db 1" by (simp add: is_deleted_def empty_admin_def)
  moreover have "find (\<lambda>x. tx_id x = 1) (fp_txns (ax_fpe ?db)) = Some ?x" unfolding t by (simp add: x)
  ultimately have d: "is_deleted ?del 1" "fp_txns (ax_fpe ?del) = [?x]"
    using delete_done [OF live db_ok_env_at, of 1 ?x 9 "''admin''"] t by auto
  with d admin_ledger_live [OF r2] show ?thesis by (intro exI [of _ ?del]) simp
qed

text \<open>
  An edit of the category alone is not posted. Moving a payment between advance and the rest
  rewrites the row and leaves the ledger as it was, so the two no longer agree.
\<close>

theorem category_edit_drifts:
  assumes live: "ledger_live db" and ok: "db_ok e" and i: "1 \<le> i"
    and x: "find (\<lambda>x. tx_id x = i) (fp_txns (ax_fpe db)) = Some x" "\<not> is_deleted db i" "tx_employee x = Some emp" "emp \<noteq> 0"
    and c: "parse_update body = Some c" "\<not> posts_the_change c x" "tx_amount x \<noteq> 0"
  shows "\<exists>db'. edit_admin_transaction e i body No_header db = (Inr i, db')
    \<and> fp_ledger (ax_fpe db') = fp_ledger (ax_fpe db) \<and> \<not> ledger_live db'"
proof -
  let ?y = "edited_txn c x" let ?f = "snd (edit_row e c x (ax_fpe db))" let ?db' = "db\<lparr>ax_fpe := ?f\<rparr>"
  have mem: "x \<in> set (fp_txns (ax_fpe db))" "tx_id x = i" using find_Some_mem [OF x(1)] by auto
  have side: "is_advance ?y \<noteq> is_advance x" "\<not> amount_changed c x" "tx_period ?y = tx_period x"
    using c(2) by (auto simp: posts_the_change_def)
  have row: "fst (edit_row e c x (ax_fpe db)) = Inr i" "fp_ledger ?f = fp_ledger (ax_fpe db)"
    using side(2,3) by (simp_all add: edit_row_def Let_def db_ok_raises [OF ok] mem(2))
  have run: "edit_admin_transaction e i body No_header db = (Inr i, ?db')"
    using i x(1,2) c(1) row(1) by (simp add: edit_admin_transaction_def db_ok_raises [OF ok] lock_conflict_def case_prod_beta)
  have "live_total ?db' emp (tx_period x) (is_advance x)
      = live_total db emp (tx_period x) (is_advance x) - tx_amount x"
    using x(2,3) side mem(2) edited_rows [OF live mem(1), of emp "tx_period x" "is_advance x" c]
    unfolding live_total_def [of ?db'] by (simp add: edit_row_txns [OF ok] share_cong [of ?db' db]) (simp add: share_def)
  moreover have "ledger_total ?f emp (tx_period x) (is_advance x) = live_total db emp (tx_period x) (is_advance x)"
    using live x(4) by (simp add: ledger_total_def row(2) ledger_live_def)
  ultimately have "\<not> ledger_live ?db'" using c(3) x(4) unfolding ledger_live_def by fastforce
  with run row(2) show ?thesis by (intro exI [of _ ?db']) simp
qed

text \<open>
  Deleting and then reversing a payment takes it off twice. The reversal looks at the reference only,
  not at the deletion mark, and appends a live negative row.
\<close>

theorem deleted_then_reversed:
  assumes live: "ledger_live db" and ok: "db_ok e" "db_ok e2" and i: "1 \<le> i"
    and x: "find (\<lambda>x. tx_id x = i) (fp_txns (ax_fpe db)) = Some x" "\<not> is_deleted db i" "tx_employee x = Some emp"
      "\<not> tx_is_reversal x" "tx_category x \<noteq> T_other"
    and r: "\<not> has_row (\<lambda>z. tx_ref z = ''REV-'' @ tx_ref x) (fp_txns (ax_fpe db))"
  shows "\<exists>db1 f row. soft_delete_transaction e i who db = (Inr i, db1)
    \<and> reverse_transaction e2 i reason w (ax_fpe db1) = (Inr row, f) \<and> ledger_live (db1\<lparr>ax_fpe := f\<rparr>)
    \<and> live_total (db1\<lparr>ax_fpe := f\<rparr>) emp (tx_period x) (is_advance x)
       = live_total db emp (tx_period x) (is_advance x) - 2 * tx_amount x"
proof -
  obtain db1 where d: "soft_delete_transaction e i who db = (Inr i, db1)" "ledger_live db1"
      "fp_txns (ax_fpe db1) = fp_txns (ax_fpe db)"
      "live_total db1 emp (tx_period x) (is_advance x) = live_total db emp (tx_period x) (is_advance x) - tx_amount x"
    using delete_done [OF live ok(1) i x(1,2), of who] x(2,3) find_Some_mem [OF x(1)] by (auto simp: share_def)
  have o: "find (\<lambda>x. tx_id x = i) (fp_txns (ax_fpe db1)) = Some x"
    "\<not> has_row (\<lambda>z. tx_ref z = ''REV-'' @ tx_ref x) (fp_txns (ax_fpe db1))" using x(1) r by (simp_all add: d(3))
  from reverse_done [OF ok(2) o(1) x(4) o(2) x(5), of reason w] obtain rev f where
    c: "reverse_transaction e2 i reason w (ax_fpe db1) = (Inr (row_to_model True rev), f)"
      "fp_txns f = fp_txns (ax_fpe db1) @ [rev]"
    and rev: "rev = x\<lparr>tx_id := fp_next (ax_fpe db1), tx_ref := ''REV-'' @ tx_ref x, tx_amount := - tx_amount x,
            tx_text := Some (''REVERSAL: '' @ reason), tx_is_reversal := True,
            tx_reversed := Some i, tx_created_at := db_now e2, tx_by := w\<rparr>" by blast
  have "not_other i (ax_fpe db1)"
    using x(1,5) d(2) find_Some_mem [OF o(1)] unfolding not_other_def list_all_iff ledger_live_def
    by (metis distinct_key_unique)
  from live_reverse [OF d(2) ok(2) this, of reason w] c(1) have fin: "ledger_live (db1\<lparr>ax_fpe := f\<rparr>)" by simp
  have "\<not> is_deleted db1 (fp_next (ax_fpe db1))" using d(2) by (auto simp: ledger_live_def is_deleted_def)
  then have "share db1 emp (tx_period x) (is_advance x) rev = - tx_amount x"
    using x(3) by (simp add: share_def rev is_advance_def)
  then have "live_total (db1\<lparr>ax_fpe := f\<rparr>) emp (tx_period x) (is_advance x)
      = live_total db emp (tx_period x) (is_advance x) - 2 * tx_amount x"
    using d(4) by (simp add: live_total_def c(2) share_cong [of "db1\<lparr>ax_fpe := f\<rparr>" db1])
  with d(1) c(1) fin show ?thesis by (intro exI conjI)
qed

end
