(* ===== verification/Py_Regex.thy ===== *)
theory Py_Regex
  imports Phone_Numbers Complex_Main "HOL-Library.Code_Target_Nat"
begin

text \<open>
  The regular expressions of Python (\<open>re\<close>), as far as the message parsers use them. A pattern
  is a value of \<open>re\<close>: one character of a class, a test of the position that reads nothing
  (anchors, word boundaries, look-behind), concatenation, ordered choice, greedy or lazy bounded
  repetition and numbered groups. \<open>outs\<close> lists every way to match a pattern at a position in the
  order in which the backtracking matcher of Python tries them, so that its head is the match Python
  reports. \<open>search\<close>, \<open>match_here\<close>, \<open>findall\<close> and \<open>sub_all\<close> are the functions of the module.
  The Unicode tables (decimal digits, word characters, lower case) are a value of \<open>unicode\<close>;
  \<open>unicode_ok\<close> is what the documentation says of them on the scripts the program names.
\<close>

subsection \<open>Characters\<close>

record unicode =
  u_dec :: "nat \<Rightarrow> nat option"
  u_word :: "nat \<Rightarrow> bool"
  u_low :: "nat \<Rightarrow> ustring"

definition uni_digit :: "unicode \<Rightarrow> nat \<Rightarrow> bool" where
  \<comment> \<open>\<open>\d\<close>\<close>
  "uni_digit u c \<longleftrightarrow> u_dec u c \<noteq> None"

definition uni_space :: "nat \<Rightarrow> bool" where
  \<comment> \<open>\<open>\s\<close> and \<open>str.isspace\<close>: the white space of Unicode\<close>
  "uni_space c \<longleftrightarrow> 9 \<le> c \<and> c \<le> 13 \<or> 28 \<le> c \<and> c \<le> 32 \<or> c = 133 \<or> c = 160 \<or> c = 5760
     \<or> 8192 \<le> c \<and> c \<le> 8202 \<or> c = 8232 \<or> c = 8233 \<or> c = 8239 \<or> c = 8287 \<or> c = 12288"

definition ascii_letter :: "nat \<Rightarrow> bool" where
  "ascii_letter c \<longleftrightarrow> 65 \<le> c \<and> c \<le> 90 \<or> 97 \<le> c \<and> c \<le> 122"

definition ascii_lower :: "nat \<Rightarrow> nat" where
  "ascii_lower c = (if 65 \<le> c \<and> c \<le> 90 then c + 32 else c)"

definition unicode_ok :: "unicode \<Rightarrow> bool" where
  \<comment> \<open>documented: the decimal digits, word characters and lower case of ASCII, and the Bengali digits\<close>
  "unicode_ok u \<longleftrightarrow>
     (\<forall>c<128. u_dec u c = (if ascii_digit c then Some (c - 48) else None)
        \<and> u_word u c = (ascii_digit c \<or> ascii_letter c \<or> c = 95) \<and> u_low u c = [ascii_lower c])
     \<and> (\<forall>c. bengali_digit c \<longrightarrow> u_dec u c = Some (c - 2534) \<and> u_word u c \<and> u_low u c = [c])"

definition plain_unicode :: unicode where
  \<comment> \<open>the smallest tables with the documented entries\<close>
  "plain_unicode =
     \<lparr>u_dec = (\<lambda>c. if ascii_digit c then Some (c - 48) else if bengali_digit c then Some (c - 2534) else None),
      u_word = (\<lambda>c. ascii_digit c \<or> ascii_letter c \<or> c = 95 \<or> bengali_digit c), u_low = (\<lambda>c. [ascii_lower c])\<rparr>"

lemma unicode_ok_plain [simp]: "unicode_ok plain_unicode"
  by (auto simp: unicode_ok_def plain_unicode_def bengali_digit_def ascii_digit_def ascii_lower_def)

lemma plain_unicode_simps [simp]:
  "u_dec plain_unicode c = (if ascii_digit c then Some (c - 48) else if bengali_digit c then Some (c - 2534) else None)"
  "u_word plain_unicode c \<longleftrightarrow> ascii_digit c \<or> ascii_letter c \<or> c = 95 \<or> bengali_digit c"
  "u_low plain_unicode c = [ascii_lower c]"
  by (simp_all add: plain_unicode_def)

definition uni_lower :: "unicode \<Rightarrow> ustring \<Rightarrow> ustring" where
  \<comment> \<open>\<open>s.lower()\<close>\<close>
  "uni_lower u s = concat (map (u_low u) s)"

definition uni_strip :: "ustring \<Rightarrow> ustring" where
  \<comment> \<open>\<open>s.strip()\<close>\<close>
  "uni_strip s = rev (dropWhile uni_space (rev (dropWhile uni_space s)))"

definition strip_set :: "nat set \<Rightarrow> ustring \<Rightarrow> ustring" where
  \<comment> \<open>\<open>s.strip(chars)\<close>\<close>
  "strip_set C s = rev (dropWhile (\<lambda>c. c \<in> C) (rev (dropWhile (\<lambda>c. c \<in> C) s)))"

definition any_case :: "nat \<Rightarrow> nat \<Rightarrow> bool" where
  \<comment> \<open>under \<open>IGNORECASE\<close>, the characters a small Latin letter \<open>l\<close> of a pattern stands for\<close>
  "any_case l c \<longleftrightarrow> ascii_lower c = l \<or> l = 107 \<and> c = 8490 \<or> l = 115 \<and> c = 383 \<or> l = 105 \<and> (c = 304 \<or> c = 305)"

definition any_letter :: "nat \<Rightarrow> bool" where
  \<comment> \<open>\<open>[A-Za-z]\<close> under \<open>IGNORECASE\<close>\<close>
  "any_letter c \<longleftrightarrow> ascii_letter c \<or> c = 8490 \<or> c = 383 \<or> c = 304 \<or> c = 305"

subsection \<open>Patterns and the matches Python tries\<close>

datatype re =
    Chr "nat \<Rightarrow> bool"
  | Test "ustring \<Rightarrow> ustring \<Rightarrow> bool"
  | Cat re re
  | Alt re re
  | Rep bool nat "nat option" re
  | Grp nat re

record place =
  behind :: ustring
  ahead :: ustring
  caps :: "(nat \<times> ustring) list"

definition place_step :: "place \<Rightarrow> place" where
  "place_step p = p\<lparr>behind := hd (ahead p) # behind p, ahead := tl (ahead p)\<rparr>"

definition advance :: "nat \<Rightarrow> place \<Rightarrow> place" where
  "advance k p = p\<lparr>behind := rev (take k (ahead p)) @ behind p, ahead := drop k (ahead p)\<rparr>"

definition capture :: "nat \<Rightarrow> place \<Rightarrow> place \<Rightarrow> place" where
  \<comment> \<open>group \<open>i\<close> is the text between two places\<close>
  "capture i p q = q\<lparr>caps := (i, take (length (ahead p) - length (ahead q)) (ahead p)) # caps q\<rparr>"

fun loop :: "(place \<Rightarrow> place list) \<Rightarrow> bool \<Rightarrow> nat \<Rightarrow> nat \<Rightarrow> place \<Rightarrow> place list" where
  "loop f greedy lo 0 p = (if lo = 0 then [p] else [])"
| "loop f greedy lo (Suc n) p =
     (if 0 < lo then concat (map (loop f greedy (lo - 1) n) (f p))
      else if greedy then concat (map (loop f greedy 0 n) (f p)) @ [p]
      else p # concat (map (loop f greedy 0 n) (f p)))"

primrec outs :: "re \<Rightarrow> place \<Rightarrow> place list" where
  "outs (Chr P) p = (case ahead p of [] \<Rightarrow> [] | c # _ \<Rightarrow> if P c then [place_step p] else [])"
| "outs (Test P) p = (if P (behind p) (ahead p) then [p] else [])"
| "outs (Cat r s) p = concat (map (outs s) (outs r p))"
| "outs (Alt r s) p = outs r p @ outs s p"
| "outs (Rep greedy lo hi r) p =
     loop (outs r) greedy lo (case hi of None \<Rightarrow> lo + length (ahead p) | Some n \<Rightarrow> n) p"
| "outs (Grp i r) p = map (capture i p) (outs r p)"

record match =
  m_before :: ustring
  m_text :: ustring
  m_after :: ustring
  m_groups :: "(nat \<times> ustring) list"

definition m_group :: "nat \<Rightarrow> match \<Rightarrow> ustring option" where
  \<comment> \<open>\<open>m.group(i)\<close>, for \<open>i\<close> above 0\<close>
  "m_group i m = map_of (m_groups m) i"

definition match_of :: "place \<Rightarrow> place \<Rightarrow> match" where
  "match_of p q =
     \<lparr>m_before = rev (behind p), m_text = take (length (ahead p) - length (ahead q)) (ahead p),
      m_after = ahead q, m_groups = caps q\<rparr>"

definition try_at :: "re \<Rightarrow> ustring \<Rightarrow> ustring \<Rightarrow> match option" where
  \<comment> \<open>the match at one position: the first outcome\<close>
  "try_at r b s =
     (let p = \<lparr>behind = b, ahead = s, caps = []\<rparr>
      in case outs r p of [] \<Rightarrow> None | q # _ \<Rightarrow> Some (match_of p q))"

definition match_here :: "re \<Rightarrow> ustring \<Rightarrow> match option" where
  \<comment> \<open>\<open>pattern.match(s)\<close>\<close>
  "match_here r s = try_at r [] s"

fun search_from :: "re \<Rightarrow> ustring \<Rightarrow> ustring \<Rightarrow> match option" where
  "search_from r b [] = try_at r b []"
| "search_from r b (c # s) = (case try_at r b (c # s) of Some m \<Rightarrow> Some m | None \<Rightarrow> search_from r (c # b) s)"

definition search :: "re \<Rightarrow> ustring \<Rightarrow> match option" where
  \<comment> \<open>\<open>pattern.search(s)\<close>: the leftmost position that matches\<close>
  "search r s = search_from r [] s"

subsection \<open>The matches are matches\<close>

definition along :: "place \<Rightarrow> place \<Rightarrow> bool" where
  \<comment> \<open>\<open>q\<close> lies at or after \<open>p\<close> in the same text\<close>
  "along p q \<longleftrightarrow> (\<exists>w. ahead p = w @ ahead q \<and> behind q = rev w @ behind p)"

lemma along_refl [simp]: "along p p"
  by (simp add: along_def)

lemma along_trans: "along p q \<Longrightarrow> along q r \<Longrightarrow> along p r"
  unfolding along_def by (metis append.assoc rev_append)

lemma along_capture [simp]: "along p (capture i q r) = along p r"
  by (simp add: along_def capture_def)

lemma loop_along:
  assumes "\<And>p q. q \<in> set (f p) \<Longrightarrow> along p q" "q \<in> set (loop f g lo n p)"
  shows "along p q"
  using assms(2)
proof (induction n arbitrary: lo p)
  case 0
  then show ?case by (simp split: if_splits)
next
  case (Suc n)
  have "q = p \<or> (\<exists>r\<in>set (f p). \<exists>l. q \<in> set (loop f g l n r))"
    using Suc.prems by (auto split: if_splits)
  then show ?case using Suc.IH assms(1) along_trans by (metis along_refl)
qed

lemma outs_along: "q \<in> set (outs r p) \<Longrightarrow> along p q"
proof (induction r arbitrary: p q)
  case (Chr P)
  then show ?case by (cases "ahead p") (auto simp: along_def place_step_def split: if_splits)
next
  case (Cat r s)
  then obtain x where "x \<in> set (outs r p)" "q \<in> set (outs s x)" by auto
  then show ?case using Cat.IH along_trans by blast
next
  case (Rep g lo hi r)
  then show ?case using loop_along [of "outs r" q g lo _ p] by auto
qed (auto split: if_splits)

lemma match_of_text: "along p q \<Longrightarrow> m_text (match_of p q) @ m_after (match_of p q) = ahead p"
  by (auto simp: along_def match_of_def)

lemma try_at_text: "try_at r b s = Some m \<Longrightarrow> m_before m = rev b \<and> m_text m @ m_after m = s"
proof -
  assume *: "try_at r b s = Some m"
  let ?p = "\<lparr>behind = b, ahead = s, caps = []\<rparr>"
  from * obtain q qs where q: "outs r ?p = q # qs" and m: "m = match_of ?p q"
    by (auto simp: try_at_def Let_def split: list.splits)
  have "along ?p q" by (rule outs_along [of _ r]) (simp add: q)
  from match_of_text [OF this] show ?thesis by (simp add: m match_of_def)
qed

lemma search_from_text: "search_from r b s = Some m \<Longrightarrow> m_before m @ m_text m @ m_after m = rev b @ s"
proof (induction s arbitrary: b)
  case Nil
  then show ?case using try_at_text [of r b "[]" m] by simp
next
  case (Cons c s)
  then show ?case using try_at_text [of r b "c # s" m] by (auto split: option.splits)
qed

lemma search_text: "search r s = Some m \<Longrightarrow> m_before m @ m_text m @ m_after m = s"
  using search_from_text [of r "[]" s m] by (simp add: search_def)

subsection \<open>All matches\<close>

fun findall_fuel :: "nat \<Rightarrow> re \<Rightarrow> ustring \<Rightarrow> ustring \<Rightarrow> match list" where
  "findall_fuel 0 r b s = []"
| "findall_fuel (Suc n) r b s =
     (case search_from r b s of
        None \<Rightarrow> []
      | Some m \<Rightarrow>
          m # (if m_text m \<noteq> [] then findall_fuel n r (rev (m_before m @ m_text m)) (m_after m)
               else if m_after m = [] then []
               else findall_fuel n r (hd (m_after m) # rev (m_before m)) (tl (m_after m))))"

definition findall :: "re \<Rightarrow> ustring \<Rightarrow> match list" where
  \<comment> \<open>\<open>pattern.finditer(s)\<close>: each match starts where the previous one ended\<close>
  "findall r s = findall_fuel (Suc (length s)) r [] s"

fun glue :: "ustring \<Rightarrow> nat \<Rightarrow> ustring \<Rightarrow> match list \<Rightarrow> ustring" where
  \<comment> \<open>the text with every match replaced; \<open>n\<close> characters of it are done\<close>
  "glue repl n s [] = drop n s"
| "glue repl n s (m # ms) =
     drop n (m_before m) @ repl @ glue repl (length (m_before m) + length (m_text m)) s ms"

definition sub_all :: "re \<Rightarrow> ustring \<Rightarrow> ustring \<Rightarrow> ustring" where
  \<comment> \<open>\<open>pattern.sub(repl, s)\<close>, for patterns that match no empty text and a replacement without escapes\<close>
  "sub_all r repl s = glue repl 0 s (findall r s)"

subsection \<open>Short hands and how they match\<close>

abbreviation opt :: "re \<Rightarrow> re" where "opt r \<equiv> Rep True 0 (Some 1) r"
abbreviation star :: "re \<Rightarrow> re" where "star r \<equiv> Rep True 0 None r"
abbreviation plus1 :: "re \<Rightarrow> re" where "plus1 r \<equiv> Rep True 1 None r"
abbreviation times :: "nat \<Rightarrow> re \<Rightarrow> re" where "times n r \<equiv> Rep True n (Some n) r"
abbreviation between :: "nat \<Rightarrow> nat \<Rightarrow> re \<Rightarrow> re" where "between lo hi r \<equiv> Rep True lo (Some hi) r"

fun seq :: "re list \<Rightarrow> re" where
  "seq [] = Test (\<lambda>_ _. True)"
| "seq [r] = r"
| "seq (r # s # rs) = Cat r (seq (s # rs))"

fun alts :: "re list \<Rightarrow> re" where
  "alts [] = Test (\<lambda>_ _. False)"
| "alts [r] = r"
| "alts (r # s # rs) = Alt r (alts (s # rs))"

definition lit :: "string \<Rightarrow> re" where
  "lit w = seq (map (\<lambda>c. Chr (\<lambda>x. x = c)) (cp w))"

definition lit_ci :: "string \<Rightarrow> re" where
  \<comment> \<open>a literal under \<open>IGNORECASE\<close>, written in small letters\<close>
  "lit_ci w = seq (map (\<lambda>c. Chr (any_case c)) (cp w))"

definition boundary :: "unicode \<Rightarrow> re" where
  \<comment> \<open>\<open>\b\<close>\<close>
  "boundary u = Test (\<lambda>b s. (b \<noteq> [] \<and> u_word u (hd b)) \<noteq> (s \<noteq> [] \<and> u_word u (hd s)))"

definition text_start :: re where
  \<comment> \<open>\<open>^\<close>\<close>
  "text_start = Test (\<lambda>b s. b = [])"

definition line_start :: re where
  \<comment> \<open>\<open>^\<close> under \<open>MULTILINE\<close>\<close>
  "line_start = Test (\<lambda>b s. b = [] \<or> hd b = 10)"

definition text_end :: re where
  \<comment> \<open>\<open>$\<close>: the end, or before a newline at the end\<close>
  "text_end = Test (\<lambda>b s. s = [] \<or> s = [10])"

lemma advance_0 [simp]: "advance 0 p = p"
  by (simp add: advance_def)

lemma ahead_advance [simp]: "ahead (advance k p) = drop k (ahead p)"
  by (simp add: advance_def)

lemma caps_advance [simp]: "caps (advance k p) = caps p"
  by (simp add: advance_def)

lemma advance_step: "ahead p = c # s \<Longrightarrow> advance k (place_step p) = advance (Suc k) p"
  by (simp add: advance_def place_step_def)

definition run_of :: "(nat \<Rightarrow> bool) \<Rightarrow> place \<Rightarrow> nat" where
  "run_of P p = length (takeWhile P (ahead p))"

lemma run_of_step: "ahead p = c # s \<Longrightarrow> run_of P p = (if P c then Suc (run_of P (place_step p)) else 0)"
  by (simp add: run_of_def place_step_def)

lemma outs_Chr: "outs (Chr P) p = (if ahead p \<noteq> [] \<and> P (hd (ahead p)) then [place_step p] else [])"
  by (cases "ahead p") auto

lemma loop_class_greedy:
  "loop (outs (Chr P)) True lo n p = map (\<lambda>k. advance k p) (rev [lo..<Suc (min n (run_of P p))])"
proof (induction n arbitrary: lo p)
  case (Suc n)
  show ?case
  proof (cases "ahead p \<noteq> [] \<and> P (hd (ahead p))")
    case False
    then have "run_of P p = 0" by (cases "ahead p") (auto simp: run_of_def)
    moreover have "outs (Chr P) p = []" using False by (simp only: outs_Chr if_False if_True simp_thms)
    ultimately show ?thesis by (simp del: outs.simps(1))
  next
    case True
    then obtain c s where cs: "ahead p = c # s" and c: "P c" by (cases "ahead p") auto
    define m where "m = Suc (min n (run_of P (place_step p)))"
    have more: "map (\<lambda>k. advance k (place_step p)) (rev [l..<m]) = map (\<lambda>k. advance k p) (rev [Suc l..<Suc m])" for l
      by (simp add: advance_step [OF cs] rev_map map_Suc_upt [symmetric] comp_def del: map_Suc_upt upt_Suc)
    show ?thesis
      using Suc.IH [of "lo - 1" "place_step p"] Suc.IH [of 0 "place_step p"] True more [of "lo - 1"] more [of 0]
      by (cases lo)
        (simp_all add: outs_Chr run_of_step [OF cs] c m_def [symmetric] upt_conv_Cons [of 0] del: upt_Suc outs.simps(1))
  qed
qed simp

lemma loop_class_lazy:
  "loop (outs (Chr P)) False lo n p = map (\<lambda>k. advance k p) [lo..<Suc (min n (run_of P p))]"
proof (induction n arbitrary: lo p)
  case (Suc n)
  show ?case
  proof (cases "ahead p \<noteq> [] \<and> P (hd (ahead p))")
    case False
    then have "run_of P p = 0" by (cases "ahead p") (auto simp: run_of_def)
    moreover have "outs (Chr P) p = []" using False by (simp only: outs_Chr if_False if_True simp_thms)
    ultimately show ?thesis by (simp del: outs.simps(1))
  next
    case True
    then obtain c s where cs: "ahead p = c # s" and c: "P c" by (cases "ahead p") auto
    define m where "m = Suc (min n (run_of P (place_step p)))"
    have more: "map (\<lambda>k. advance k (place_step p)) [l..<m] = map (\<lambda>k. advance k p) [Suc l..<Suc m]" for l
      by (simp add: advance_step [OF cs] map_Suc_upt [symmetric] comp_def del: map_Suc_upt upt_Suc)
    show ?thesis
      using Suc.IH [of "lo - 1" "place_step p"] Suc.IH [of 0 "place_step p"] True more [of "lo - 1"] more [of 0]
      by (cases lo)
        (simp_all add: outs_Chr run_of_step [OF cs] c m_def [symmetric] upt_conv_Cons [of 0] del: upt_Suc outs.simps(1))
  qed
qed simp

lemma outs_run:
  "outs (Rep True lo None (Chr P)) p = map (\<lambda>k. advance k p) (rev [lo..<Suc (run_of P p)])"
  "outs (Rep False lo None (Chr P)) p = map (\<lambda>k. advance k p) [lo..<Suc (run_of P p)]"
  "outs (Rep True lo (Some hi) (Chr P)) p = map (\<lambda>k. advance k p) (rev [lo..<Suc (min hi (run_of P p))])"
  "outs (Rep False lo (Some hi) (Chr P)) p = map (\<lambda>k. advance k p) [lo..<Suc (min hi (run_of P p))]"
proof -
  have "run_of P p \<le> length (ahead p)" by (simp add: run_of_def length_takeWhile_le)
  then have "min (lo + length (ahead p)) (run_of P p) = run_of P p" by simp
  then show "outs (Rep True lo None (Chr P)) p = map (\<lambda>k. advance k p) (rev [lo..<Suc (run_of P p)])"
    and "outs (Rep False lo None (Chr P)) p = map (\<lambda>k. advance k p) [lo..<Suc (run_of P p)]"
    by (simp_all only: outs.simps option.case loop_class_greedy loop_class_lazy)
qed (simp_all only: outs.simps option.case loop_class_greedy loop_class_lazy)

lemma outs_opt: "outs (opt r) p = outs r p @ [p]"
proof -
  have "loop (outs r) True 0 0 = (\<lambda>q. [q])" by (simp add: fun_eq_iff)
  then show ?thesis by (simp add: numeral_eq_Suc concat_map_singleton [of id, simplified])
qed

subsection \<open>The first match\<close>

definition first :: "re \<Rightarrow> place \<Rightarrow> place option" where
  "first r p = (case outs r p of [] \<Rightarrow> None | q # _ \<Rightarrow> Some q)"

lemma try_at_first: "try_at r b s = map_option (match_of \<lparr>behind = b, ahead = s, caps = []\<rparr>) (first r \<lparr>behind = b, ahead = s, caps = []\<rparr>)"
  by (simp add: try_at_def first_def Let_def split: list.split)

lemma first_None [simp]: "first r p = None \<longleftrightarrow> outs r p = []"
  by (simp add: first_def split: list.split)

lemma first_Chr: "first (Chr P) p = (if ahead p \<noteq> [] \<and> P (hd (ahead p)) then Some (advance 1 p) else None)"
  by (cases "ahead p") (auto simp: first_def advance_def place_step_def)

lemma first_Test: "first (Test P) p = (if P (behind p) (ahead p) then Some p else None)"
  by (simp add: first_def)

lemma first_Cat: "first r p = Some q \<Longrightarrow> first s q = Some t \<Longrightarrow> first (Cat r s) p = Some t"
  by (auto simp: first_def split: list.splits)

lemma outs_Cat_Nil: "outs r p = [] \<Longrightarrow> outs (Cat r s) p = []"
  by simp

lemma first_Alt: "first (Alt r s) p = (case first r p of Some q \<Rightarrow> Some q | None \<Rightarrow> first s p)"
  by (auto simp: first_def split: list.splits)

lemma first_Alt_skip: "outs r p = [] \<Longrightarrow> first (Alt r s) p = first s p"
  by (simp add: first_def)

lemma first_Grp: "first (Grp i r) p = map_option (capture i p) (first r p)"
  by (simp add: first_def split: list.split)

lemma run_of_le: "run_of P p \<le> length (ahead p)"
  by (simp add: run_of_def length_takeWhile_le)

lemma first_run:
  "first (Rep True lo None (Chr P)) p = (if lo \<le> run_of P p then Some (advance (run_of P p) p) else None)"
  "first (Rep True lo (Some hi) (Chr P)) p = (if lo \<le> min hi (run_of P p) then Some (advance (min hi (run_of P p)) p) else None)"
  "first (Rep False lo None (Chr P)) p = (if lo \<le> run_of P p then Some (advance lo p) else None)"
  unfolding first_def outs_run
  by (simp, simp, cases "lo \<le> run_of P p") (simp_all add: upt_conv_Cons del: upt_Suc)

lemma run_of_app: "list_all P w \<Longrightarrow> ahead p = w @ s \<Longrightarrow> s = [] \<or> \<not> P (hd s) \<Longrightarrow> run_of P p = length w"
  by (cases s) (simp_all add: run_of_def list_all_iff takeWhile_append2 takeWhile_eq_all_conv [THEN iffD2])

abbreviation at_place :: "ustring \<Rightarrow> ustring \<Rightarrow> (nat \<times> ustring) list \<Rightarrow> place" where
  "at_place b s cs \<equiv> \<lparr>behind = b, ahead = s, caps = cs\<rparr>"

lemma read_char: "P c \<Longrightarrow> first (Chr P) (at_place b (c # s) cs) = Some (at_place (c # b) s cs)"
  by (simp add: first_Chr advance_def)

lemma read_run:
  assumes "list_all P w" "s = [] \<or> \<not> P (hd s)" "lo \<le> length w"
  shows "first (Rep True lo None (Chr P)) (at_place b (w @ s) cs) = Some (at_place (rev w @ b) s cs)"
  using assms run_of_app [of P w "at_place b (w @ s) cs" s] by (simp add: first_run advance_def)

lemma read_none: "s = [] \<or> \<not> P (hd s) \<Longrightarrow> first (Rep True 0 None (Chr P)) (at_place b s cs) = Some (at_place b s cs)"
  using read_run [of P "[]" s 0 b cs] by simp

lemma read_group:
  "first r (at_place b (w @ s) cs) = Some (at_place (rev w @ b) s cs) \<Longrightarrow>
    first (Grp i r) (at_place b (w @ s) cs) = Some (at_place (rev w @ b) s ((i, w) # cs))"
  by (simp add: first_Grp capture_def)

lemma search_from_skip:
  assumes "\<And>b s c. c \<in> set w \<Longrightarrow> outs r \<lparr>behind = b, ahead = c # s, caps = []\<rparr> = []"
  shows "search_from r b (w @ s) = search_from r (rev w @ b) s"
  using assms
proof (induction w arbitrary: b)
  case (Cons c w)
  have "try_at r b (c # w @ s) = None" using Cons.prems by (simp add: try_at_first)
  then show ?case using Cons by simp
qed simp

lemma search_from_here: "try_at r b s = Some m \<Longrightarrow> search_from r b s = Some m"
  by (cases s) simp_all

lemma search_from_app:
  "(\<exists>a1 c a2 m. a = a1 @ c # a2 \<and> try_at r (rev a1 @ b) (c # a2 @ s) = Some m \<and> search_from r b (a @ s) = Some m)
    \<or> search_from r b (a @ s) = search_from r (rev a @ b) s"
proof (induction a arbitrary: b)
  case (Cons c a)
  show ?case
  proof (cases "try_at r b (c # a @ s)")
    case None
    then show ?thesis using Cons.IH [of "c # b"] by simp (metis append_Cons append.assoc rev.simps(2) append_Nil)
  next
    case (Some m)
    then show ?thesis by (intro disjI1 exI [of _ "[]"] exI [of _ c] exI [of _ a] exI [of _ m]) simp
  qed
qed simp

text \<open>A match is found by \<open>findall\<close> when every match that begins before it also ends before it.\<close>
lemma findall_fuel_finds:
  assumes "\<And>a1 c a2 m. a = a1 @ c # a2 \<Longrightarrow> try_at r (rev a1 @ b) (c # a2 @ s) = Some m \<Longrightarrow>
      m_text m \<noteq> [] \<and> length (m_text m) \<le> Suc (length a2)"
    and "try_at r (rev a @ b) s = Some m0" "length (a @ s) < k"
  shows "m_text m0 \<in> m_text ` set (findall_fuel k r b (a @ s))"
  using assms
proof (induction k arbitrary: a b)
  case (Suc k)
  note here = search_from_here [OF Suc.prems(2)]
  from search_from_app [of a r b s] show ?case
  proof (elim disjE exE conjE)
    fix a1 c a2 m assume a: "a = a1 @ c # a2" and m: "try_at r (rev a1 @ b) (c # a2 @ s) = Some m" and f: "search_from r b (a @ s) = Some m"
    have "m_text m @ m_after m = c # a2 @ s" and before: "m_before m = rev b @ a1" using try_at_text [OF m] by simp_all
    moreover have len: "m_text m \<noteq> []" "length (m_text m) \<le> length (c # a2)" using Suc.prems(1) [OF a m] by simp_all
    moreover define a3 where "a3 = drop (length (m_text m)) (c # a2)"
    ultimately have t: "c # a2 = m_text m @ a3" "m_after m = a3 @ s"
      by (auto simp: append_eq_append_conv2 append_eq_Cons_conv)
    have "m_text m0 \<in> m_text ` set (findall_fuel k r (rev (m_before m @ m_text m)) (a3 @ s))"
    proof (rule Suc.IH)
      show "m_text m' \<noteq> [] \<and> length (m_text m') \<le> Suc (length x2)"
        if "a3 = x1 @ y # x2" "try_at r (rev x1 @ rev (m_before m @ m_text m)) (y # x2 @ s) = Some m'" for x1 y x2 m'
        using Suc.prems(1) [of "a1 @ m_text m @ x1" y x2 m'] that before by (simp add: a t)
      show "try_at r (rev a3 @ rev (m_before m @ m_text m)) s = Some m0" using Suc.prems(2) before by (simp add: a t)
      show "length (a3 @ s) < k" using Suc.prems(3) len by (cases "m_text m") (simp_all add: a t)
    qed
    then show ?thesis using f len by (simp add: t)
  qed (use here in simp)
qed simp

lemma findall_finds:
  assumes "\<And>a1 c a2 m. a = a1 @ c # a2 \<Longrightarrow> try_at r (rev a1) (c # a2 @ s) = Some m \<Longrightarrow>
      m_text m \<noteq> [] \<and> length (m_text m) \<le> Suc (length a2)"
    and "try_at r (rev a) s = Some m0"
  shows "m_text m0 \<in> set (map m_text (findall r (a @ s)))"
  using findall_fuel_finds [of a r "[]" s m0 "Suc (length (a @ s))"] assms by (simp add: findall_def)

subsection \<open>Numbers in text\<close>

definition digits_value :: "unicode \<Rightarrow> ustring \<Rightarrow> nat" where
  "digits_value u s = foldl (\<lambda>a c. 10 * a + (case u_dec u c of Some d \<Rightarrow> d | None \<Rightarrow> 0)) 0 s"

definition py_float :: "unicode \<Rightarrow> ustring \<Rightarrow> rat option" where
  \<comment> \<open>\<open>float(s)\<close> on plain decimal notation, as an exact number; None where it raises\<close>
  "py_float u s =
     (let t = uni_strip s;
          neg = (t \<noteq> [] \<and> hd t = 45);
          body = (if t \<noteq> [] \<and> (hd t = 45 \<or> hd t = 43) then tl t else t);
          ip = takeWhile (uni_digit u) body;
          rest = dropWhile (uni_digit u) body;
          fp = tl rest
      in if (rest = [] \<or> hd rest = 46) \<and> list_all (uni_digit u) fp \<and> ip @ fp \<noteq> []
         then Some ((if neg then - 1 else 1) * of_nat (digits_value u (ip @ fp)) / 10 ^ length fp)
         else None)"

definition ucp :: "nat \<Rightarrow> ustring" where
  \<comment> \<open>a number written in decimal\<close>
  "ucp n = cp (show_nat n)"

lemma ucp_ascii: "list_all ascii_digit (ucp n)"
  using show_nat_digits [of n] by (auto simp: ucp_def cp_def list_all_iff is_digit_def ascii_digit_def)

lemma ucp_nonempty [simp]: "ucp n \<noteq> []"
  by (simp add: ucp_def cp_def)

lemma uni_digit_ascii: "unicode_ok u \<Longrightarrow> ascii_digit c \<Longrightarrow> uni_digit u c"
  by (simp add: unicode_ok_def uni_digit_def ascii_digit_def)

lemma uni_digit_other: "unicode_ok u \<Longrightarrow> c < 128 \<Longrightarrow> uni_digit u c \<longleftrightarrow> ascii_digit c"
  by (simp add: unicode_ok_def uni_digit_def)

lemma u_dec_ascii: "unicode_ok u \<Longrightarrow> ascii_digit c \<Longrightarrow> u_dec u c = Some (c - 48)"
  by (simp add: unicode_ok_def ascii_digit_def)

lemma digits_value_snoc: "digits_value u (s @ [c]) = 10 * digits_value u s + (case u_dec u c of Some d \<Rightarrow> d | None \<Rightarrow> 0)"
  by (simp add: digits_value_def)

lemma digits_value_cp: "unicode_ok u \<Longrightarrow> \<forall>c\<in>set s. is_digit c \<Longrightarrow> digits_value u (cp s) = read_nat s"
proof (induction s rule: rev_induct)
  case Nil
  then show ?case by (simp add: digits_value_def cp_def read_nat_def)
next
  case (snoc c s)
  then show ?case
    using digits_value_snoc [of u "cp s" "of_char c"] u_dec_ascii [of u "of_char c"]
    by (simp add: cp_def is_digit_def ascii_digit_def char_digit_def)
qed

lemma digits_value_ucp: "unicode_ok u \<Longrightarrow> digits_value u (ucp n) = n"
  using digits_value_cp [of u "show_nat n"] show_nat_digits [of n] by (simp add: ucp_def)

lemma ascii_digit_no_space: "ascii_digit c \<Longrightarrow> \<not> uni_space c"
  by (simp add: ascii_digit_def uni_space_def)

lemma uni_strip_id: "s = [] \<or> \<not> uni_space (hd s) \<and> \<not> uni_space (last s) \<Longrightarrow> uni_strip s = s"
proof -
  assume "s = [] \<or> \<not> uni_space (hd s) \<and> \<not> uni_space (last s)"
  then have "dropWhile uni_space s = s" "dropWhile uni_space (rev s) = rev s"
    by (auto simp: dropWhile_eq_self_iff hd_rev)
  then show ?thesis by (simp add: uni_strip_def)
qed

lemma py_float_ucp: "unicode_ok u \<Longrightarrow> py_float u (ucp n) = Some (of_nat n)"
proof -
  assume u: "unicode_ok u"
  have d: "list_all ascii_digit (ucp n)" by (rule ucp_ascii)
  then have all: "\<forall>c\<in>set (ucp n). uni_digit u c" using u by (auto simp: list_all_iff intro: uni_digit_ascii)
  have h: "ascii_digit (hd (ucp n))" "ascii_digit (last (ucp n))" using d by (simp_all add: list_all_iff)
  then have "uni_strip (ucp n) = ucp n" "hd (ucp n) \<noteq> 45" "hd (ucp n) \<noteq> 43"
    by (auto simp: uni_strip_id ascii_digit_no_space ascii_digit_def)
  then show ?thesis using all
    by (simp add: py_float_def Let_def takeWhile_eq_all_conv [THEN iffD2] dropWhile_eq_Nil_conv [THEN iffD2] digits_value_ucp [OF u])
qed

end
