(* ===== verification/Recruitment.thy ===== *)
theory Recruitment
  imports Py_Regex
begin

text \<open>
  The recruitment funnel of \<open>modules/recruitment_flow/__init__.py\<close>: the session row of a phone
  number, the questions asked one after the other, what each answer stores, and the score of a
  finished session. The replies are named after the text constants of the code. Which of the two tables
  the database has is part of its state (\<open>rd_schema\<close>): that of migration 002, where the phone is
  unique, \<open>collection_step\<close> may be null and there is no column \<open>confirmed_phone\<close>, or that of migration 003b, which
  recreates it with \<open>collection_step\<close> declared \<open>NOT NULL\<close>, the column \<open>confirmed_phone\<close> and a unique index
  on the phones of live sessions. (The table of migration 003 has other column names; the code does not run on
  it.) A failing statement changes nothing and is only logged, as in the code.
\<close>

subsection \<open>Constants\<close>

definition INTAKE_KEYWORDS :: "ustring list" where
  "INTAKE_KEYWORDS =
     [cp ''job'', [2453, 2494, 2460], [2458, 2494, 2453, 2480, 2495], cp ''vacancy'', cp ''apply'', cp ''hire'',
      cp ''recruit'', [2472, 2495, 2479, 2492, 2507, 2455], [2453, 2494, 2460, 2503, 2480], [2458, 2494, 2439],
      cp ''interested'', [2438, 2455, 2509, 2480, 2489, 2496], [2474, 2470], [2474, 2494, 2480, 2476],
      [2472, 2503, 2476, 2503, 2472], [2460, 2479, 2492, 2503, 2472], cp ''cv'', cp ''joining'']"

definition VALID_POSITIONS :: "(string \<times> string) list" where
  "VALID_POSITIONS =
     [(''1'', ''Escort / Survey Scout''), (''2'', ''Security Guard''), (''3'', ''Supervisor''),
      (''4'', ''Operation Officer''), (''5'', ''Labor''), (''escort'', ''Escort / Survey Scout''),
      (''survey'', ''Escort / Survey Scout''), (''guard'', ''Security Guard''), (''security'', ''Security Guard''),
      (''supervisor'', ''Supervisor''), (''operation'', ''Operation Officer''), (''labor'', ''Labor'')]"

definition COLLECTION_STEPS :: "string list" where
  "COLLECTION_STEPS = [''name'', ''age'', ''area'', ''job_preference'', ''experience'', ''phone_confirm'']"

datatype reply = No_reply | STEP_QUESTION string | Age_retry | Job_retry | INTAKE_COMPLETE_MSG | ALREADY_APPLIED_MSG

subsection \<open>Reading the answers\<close>

definition uni_int :: "unicode \<Rightarrow> ustring \<Rightarrow> int" where
  \<comment> \<open>\<open>int(s)\<close> of a text of decimal digits\<close>
  "uni_int u s = foldl (\<lambda>a c. 10 * a + (case u_dec u c of Some d \<Rightarrow> int d | None \<Rightarrow> 0)) 0 s"

definition short_number :: "unicode \<Rightarrow> nat \<Rightarrow> re" where
  "short_number u n = seq [boundary u, Grp 1 (between 1 n (Chr (uni_digit u))), boundary u]"

definition parse_age :: "unicode \<Rightarrow> ustring \<Rightarrow> int option" where
  "parse_age u t =
     (case search (short_number u 3) t of
        None \<Rightarrow> None
      | Some m \<Rightarrow> let val = uni_int u (the (m_group 1 m)) in if 10 \<le> val \<and> val \<le> 80 then Some val else None)"

definition parse_job_preference :: "unicode \<Rightarrow> ustring \<Rightarrow> string option" where
  "parse_job_preference u t =
     (let norm = uni_lower u (uni_strip t)
      in map_option snd (find (\<lambda>(key, _). has_infix (cp key) norm) VALID_POSITIONS))"

definition parse_experience :: "unicode \<Rightarrow> ustring \<Rightarrow> int" where
  "parse_experience u t =
     (case search (short_number u 2) t of None \<Rightarrow> 0 | Some m \<Rightarrow> uni_int u (the (m_group 1 m)))"

definition bd_mobile :: "unicode \<Rightarrow> re" where
  "bd_mobile u = Grp 1 (seq [opt (Chr (\<lambda>c. c = 48)), Chr (\<lambda>c. c = 49), Chr (\<lambda>c. 51 \<le> c \<and> c \<le> 57), times 8 (Chr (uni_digit u))])"

definition parse_phone :: "unicode \<Rightarrow> ustring \<Rightarrow> ustring option" where
  "parse_phone u t = (case search (bd_mobile u) (filter (uni_digit u) t) of None \<Rightarrow> None | Some m \<Rightarrow> m_group 1 m)"

subsection \<open>Sessions\<close>

record rec_session =
  rs_id :: int
  rs_phone :: ustring
  rs_bridge :: string
  rs_message :: ustring
  rs_step :: "string option"
  rs_stage :: string
  rs_name :: "ustring option"
  rs_age :: "int option"
  rs_area :: "ustring option"
  rs_job :: "string option"
  rs_exp :: "int option"
  rs_confirmed :: "ustring option"
  rs_score :: "int option"
  rs_bucket :: "string option"

datatype rec_schema = Mig_002 | Mig_003b

record rec_db =
  rd_rows :: "rec_session list"
  rd_next :: int
  rd_schema :: rec_schema

definition full_text :: "ustring option \<Rightarrow> bool" where
  \<comment> \<open>a text value that is true in Python\<close>
  "full_text v \<longleftrightarrow> v \<noteq> None \<and> v \<noteq> Some []"

definition compute_score :: "rec_session \<Rightarrow> int \<times> string" where
  "compute_score r =
     (let exp = (case rs_exp r of None \<Rightarrow> 0 | Some n \<Rightarrow> n);
          a = (if exp \<ge> 6 then 60 else if exp \<ge> 3 then 40 else if exp \<ge> 1 then 20 else 0);
          b = (if rs_job r \<in> {Some ''Escort / Survey Scout'', Some ''Security Guard''} then 20 else 0);
          c = (if full_text (rs_name r) \<and> rs_age r \<noteq> None \<and> rs_age r \<noteq> Some 0 \<and> full_text (rs_area r)
                  \<and> rs_job r \<noteq> None \<and> rs_job r \<noteq> Some '''' then 20 else 0);
          score = min (a + b + c) 100
      in (score, if score \<ge> 70 then ''hot'' else if score \<ge> 40 then ''warm'' else ''cold''))"

definition get_session :: "env \<Rightarrow> ustring \<Rightarrow> rec_db \<Rightarrow> rec_session option" where
  "get_session e phone db = (if raises e 0 then None else find (\<lambda>r. rs_phone r = phone) (rd_rows db))"

definition new_session :: "rec_schema \<Rightarrow> int \<Rightarrow> ustring \<Rightarrow> ustring \<Rightarrow> string \<Rightarrow> rec_session" where
  "new_session sch i phone msg source =
     \<lparr>rs_id = i, rs_phone = phone, rs_bridge = source, rs_message = take 500 msg, rs_step = Some ''name'',
      rs_stage = ''collecting'', rs_name = None, rs_age = None, rs_area = None, rs_job = None,
      rs_exp = (case sch of Mig_002 \<Rightarrow> None | Mig_003b \<Rightarrow> Some 0),
      rs_confirmed = None, rs_score = None, rs_bucket = None\<rparr>"

definition live_stage :: "string \<Rightarrow> bool" where
  "live_stage s \<longleftrightarrow> s = ''collecting'' \<or> s = ''new''"

definition phone_taken :: "ustring \<Rightarrow> rec_db \<Rightarrow> bool" where
  \<comment> \<open>whether the unique index refuses another row of this phone\<close>
  "phone_taken phone db \<longleftrightarrow>
     has_row (\<lambda>r. rs_phone r = phone \<and> (rd_schema db = Mig_002 \<or> live_stage (rs_stage r))) (rd_rows db)"

definition create_session :: "env \<Rightarrow> ustring \<Rightarrow> ustring \<Rightarrow> string \<Rightarrow> rec_db \<Rightarrow> int option \<times> rec_db" where
  "create_session e phone msg source db =
     (if raises e 1 \<or> phone_taken phone db then (None, db)
      else (Some (rd_next db),
            db\<lparr>rd_rows := rd_rows db @ [new_session (rd_schema db) (rd_next db) phone msg source], rd_next := rd_next db + 1\<rparr>))"

definition update_session :: "env \<Rightarrow> ustring \<Rightarrow> bool \<Rightarrow> (rec_session \<Rightarrow> rec_session) \<Rightarrow> rec_db \<Rightarrow> rec_db" where
  \<comment> \<open>the third argument: whether the fields name \<open>confirmed_phone\<close>, a column migration 002 does not have; a
      null step is refused where the column is \<open>NOT NULL\<close>; a refusal is logged only\<close>
  "update_session e phone confirms f db =
     (let rows = update_where (\<lambda>r. rs_phone r = phone) f (rd_rows db)
      in if raises e 1 \<or> rd_schema db = Mig_002 \<and> confirms
            \<or> rd_schema db = Mig_003b \<and> has_row (\<lambda>r. rs_phone r = phone \<and> rs_step r = None) rows then db
         else db\<lparr>rd_rows := rows\<rparr>)"

subsection \<open>One message of the funnel\<close>

datatype action = A_ignored | A_created | A_already_applied | A_collecting | A_scored

record intake_result =
  ir_reply :: reply
  ir_action :: action
  ir_session :: "int option"

definition take_answer :: "unicode \<Rightarrow> string \<Rightarrow> ustring \<Rightarrow> reply + (rec_session \<Rightarrow> rec_session)" where
  \<comment> \<open>what the answer to a question stores, or the question asked again\<close>
  "take_answer u step t =
     (if step = ''name'' then Inr (rs_name_update (\<lambda>_. Some (take 100 (uni_strip t))))
      else if step = ''age'' then
        (case parse_age u t of Some v \<Rightarrow> Inr (rs_age_update (\<lambda>_. Some v)) | None \<Rightarrow> Inl Age_retry)
      else if step = ''area'' then Inr (rs_area_update (\<lambda>_. Some (take 100 (uni_strip t))))
      else if step = ''job_preference'' then
        (case parse_job_preference u t of Some p \<Rightarrow> Inr (rs_job_update (\<lambda>_. Some p)) | None \<Rightarrow> Inl Job_retry)
      else if step = ''experience'' then Inr (rs_exp_update (\<lambda>_. Some (parse_experience u t)))
      else if step = ''phone_confirm'' then
        (case parse_phone u t of Some p \<Rightarrow> Inr (rs_confirmed_update (\<lambda>_. Some p)) | None \<Rightarrow> Inr id)
      else Inr id)"

definition confirms_phone :: "unicode \<Rightarrow> string \<Rightarrow> ustring \<Rightarrow> bool" where
  "confirms_phone u step t \<longleftrightarrow> step = ''phone_confirm'' \<and> parse_phone u t \<noteq> None"

fun position_of :: "'a \<Rightarrow> 'a list \<Rightarrow> nat option" where
  "position_of x [] = None"
| "position_of x (y # ys) = (if x = y then Some 0 else map_option Suc (position_of x ys))"

definition next_index :: "string \<Rightarrow> nat" where
  "next_index step = (case position_of step COLLECTION_STEPS of Some i \<Rightarrow> i + 1 | None \<Rightarrow> length COLLECTION_STEPS)"

definition score_row :: "int \<times> string \<Rightarrow> rec_session \<Rightarrow> rec_session" where
  "score_row sb r = r\<lparr>rs_step := None, rs_stage := ''scored'', rs_score := Some (fst sb), rs_bucket := Some (snd sb)\<rparr>"

definition intake_message ::
  "unicode \<Rightarrow> env \<Rightarrow> ustring \<Rightarrow> ustring \<Rightarrow> string \<Rightarrow> rec_db \<Rightarrow> intake_result \<times> rec_db" where
  "intake_message u e phone0 message source db =
     (let phone = uni_strip phone0; t = uni_strip message; lower = uni_lower u t
      in case get_session e phone db of
           None \<Rightarrow>
             if \<not> list_ex (\<lambda>kw. has_infix kw lower) INTAKE_KEYWORDS
             then (\<lparr>ir_reply = No_reply, ir_action = A_ignored, ir_session = None\<rparr>, db)
             else let (sid, db') = create_session e phone t source db
                  in (\<lparr>ir_reply = STEP_QUESTION ''name'', ir_action = A_created, ir_session = sid\<rparr>, db')
         | Some s \<Rightarrow>
             if \<not> live_stage (rs_stage s)
             then (\<lparr>ir_reply = ALREADY_APPLIED_MSG, ir_action = A_already_applied, ir_session = Some (rs_id s)\<rparr>, db)
             else let step = (case rs_step s of None \<Rightarrow> ''name'' | Some st \<Rightarrow> if st = '''' then ''name'' else st)
                  in case take_answer u step t of
                       Inl again \<Rightarrow> (\<lparr>ir_reply = again, ir_action = A_collecting, ir_session = Some (rs_id s)\<rparr>, db)
                     | Inr store \<Rightarrow>
                         if next_index step < length COLLECTION_STEPS
                         then let next = COLLECTION_STEPS ! next_index step
                              in (\<lparr>ir_reply = STEP_QUESTION next, ir_action = A_collecting, ir_session = Some (rs_id s)\<rparr>,
                                  update_session e phone (confirms_phone u step t) (rs_step_update (\<lambda>_. Some next) \<circ> store) db)
                         else (\<lparr>ir_reply = INTAKE_COMPLETE_MSG, ir_action = A_scored, ir_session = Some (rs_id s)\<rparr>,
                               update_session e phone (confirms_phone u step t) (score_row (compute_score (store s)) \<circ> store) db))"

definition is_recruitment_trigger :: "unicode \<Rightarrow> ustring \<Rightarrow> bool" where
  "is_recruitment_trigger u t \<longleftrightarrow> list_ex (\<lambda>kw. has_infix kw (uni_lower u t)) INTAKE_KEYWORDS"

definition get_active_session :: "env \<Rightarrow> ustring \<Rightarrow> rec_db \<Rightarrow> rec_session option" where
  "get_active_session e phone db =
     (case get_session e phone db of Some s \<Rightarrow> if live_stage (rs_stage s) then Some s else None | None \<Rightarrow> None)"

subsection \<open>What a session holds at each step\<close>

definition answered :: "nat \<Rightarrow> rec_session \<Rightarrow> bool" where
  \<comment> \<open>the first \<open>n\<close> questions have an acceptable answer\<close>
  "answered n r \<longleftrightarrow>
     (0 < n \<longrightarrow> rs_name r \<noteq> None) \<and> (1 < n \<longrightarrow> rs_age r \<noteq> None) \<and> (2 < n \<longrightarrow> rs_area r \<noteq> None)
     \<and> (3 < n \<longrightarrow> rs_job r \<noteq> None)"

definition answers_ok :: "rec_session \<Rightarrow> bool" where
  "answers_ok r \<longleftrightarrow>
     (case rs_name r of None \<Rightarrow> True | Some n \<Rightarrow> length n \<le> 100)
     \<and> (case rs_age r of None \<Rightarrow> True | Some a \<Rightarrow> 10 \<le> a \<and> a \<le> 80)
     \<and> (case rs_job r of None \<Rightarrow> True | Some j \<Rightarrow> j \<in> snd ` set VALID_POSITIONS)"

definition session_ok :: "rec_session \<Rightarrow> bool" where
  "session_ok r \<longleftrightarrow> answers_ok r \<and>
     (case rs_step r of
        Some st \<Rightarrow> rs_stage r = ''collecting'' \<and> rs_score r = None
          \<and> (\<exists>i. position_of st COLLECTION_STEPS = Some i \<and> answered i r)
      | None \<Rightarrow> rs_stage r = ''scored'' \<and> answered 6 r
          \<and> rs_score r = Some (fst (compute_score r)) \<and> rs_bucket r = Some (snd (compute_score r)))"

definition funnel_ok :: "rec_db \<Rightarrow> bool" where
  "funnel_ok db \<longleftrightarrow> distinct (map rs_phone (rd_rows db)) \<and> (\<forall>r\<in>set (rd_rows db). session_ok r)"

lemma position_of_steps:
  "position_of st COLLECTION_STEPS = Some i \<Longrightarrow>
     st = ''name'' \<and> i = 0 \<or> st = ''age'' \<and> i = 1 \<or> st = ''area'' \<and> i = 2 \<or> st = ''job_preference'' \<and> i = 3
     \<or> st = ''experience'' \<and> i = 4 \<or> st = ''phone_confirm'' \<and> i = 5"
  by (auto simp: COLLECTION_STEPS_def split: if_splits)

lemma step_positions:
  "position_of ''name'' COLLECTION_STEPS = Some 0" "position_of ''age'' COLLECTION_STEPS = Some 1"
  "position_of ''area'' COLLECTION_STEPS = Some 2" "position_of ''job_preference'' COLLECTION_STEPS = Some 3"
  "position_of ''experience'' COLLECTION_STEPS = Some 4" "position_of ''phone_confirm'' COLLECTION_STEPS = Some 5"
  by (simp_all add: COLLECTION_STEPS_def)

lemma steps_nth:
  "COLLECTION_STEPS ! 1 = ''age''" "COLLECTION_STEPS ! Suc 0 = ''age''" "COLLECTION_STEPS ! 2 = ''area''"
  "COLLECTION_STEPS ! 3 = ''job_preference''" "COLLECTION_STEPS ! 4 = ''experience''"
  "COLLECTION_STEPS ! 5 = ''phone_confirm''" "length COLLECTION_STEPS = 6"
  by (simp_all add: COLLECTION_STEPS_def)

lemma next_indices:
  "next_index ''name'' = 1" "next_index ''age'' = 2" "next_index ''area'' = 3" "next_index ''job_preference'' = 4"
  "next_index ''experience'' = 5" "next_index ''phone_confirm'' = 6"
  by (simp_all add: next_index_def step_positions)

lemma parse_age_range: "parse_age u t = Some v \<Longrightarrow> 10 \<le> v \<and> v \<le> 80"
  by (auto simp: parse_age_def Let_def split: option.splits if_splits)

lemma parse_job_valid: "parse_job_preference u t = Some j \<Longrightarrow> j \<in> snd ` set VALID_POSITIONS"
  by (auto simp: parse_job_preference_def Let_def find_Some_iff) (metis imageI nth_mem snd_conv)

lemmas step_tables = step_positions steps_nth next_indices

lemma take_answer_forms:
  assumes "take_answer u st t = Inr f"
  obtains (name) n where "st = ''name''" "f = rs_name_update (\<lambda>_. Some n)" "length n \<le> 100"
  | (age) v where "st = ''age''" "f = rs_age_update (\<lambda>_. Some v)" "10 \<le> v" "v \<le> 80"
  | (area) x where "st = ''area''" "f = rs_area_update (\<lambda>_. Some x)"
  | (job) j where "st = ''job_preference''" "f = rs_job_update (\<lambda>_. Some j)" "j \<in> snd ` set VALID_POSITIONS"
  | (experience) n where "st = ''experience''" "f = rs_exp_update (\<lambda>_. Some n)"
  | (phone) p where "st = ''phone_confirm''" "f = rs_confirmed_update (\<lambda>_. Some p)"
  | (other) "st \<notin> {''name'', ''age'', ''area'', ''job_preference'', ''experience''}" "f = id"
  using assms parse_age_range [of u t] parse_job_valid [of u t]
  unfolding take_answer_def
  by (simp split: if_splits option.splits) (metis length_take min.cobounded2 | metis)+

lemma take_answer_keeps:
  assumes "take_answer u st t = Inr f"
  shows "rs_phone (f r) = rs_phone r" "rs_stage (f r) = rs_stage r" "rs_score (f r) = rs_score r" "rs_step (f r) = rs_step r"
  by (rule take_answer_forms [OF assms]; simp)+

lemma take_answer_ok: "take_answer u st t = Inr f \<Longrightarrow> answers_ok r \<Longrightarrow> answers_ok (f r)"
  by (erule take_answer_forms; simp add: answers_ok_def)

lemma take_answer_answered:
  assumes "take_answer u st t = Inr f" "position_of st COLLECTION_STEPS = Some i" "answered i r"
  shows "answered (Suc i) (f r)"
  using assms(3) position_of_steps [OF assms(2)]
  by (rule_tac take_answer_forms [OF assms(1)]) (auto simp: answered_def)

lemma compute_score_row [simp]: "compute_score (score_row sb r) = compute_score r"
  by (simp add: compute_score_def score_row_def)

lemma compute_score_step [simp]: "compute_score (rs_step_update g r) = compute_score r"
  by (simp add: compute_score_def)

lemma answered_step [simp]: "answered n (rs_step_update g r) = answered n r" "answered n (score_row sb r) = answered n r"
  by (simp_all add: answered_def score_row_def)

lemma answers_ok_step [simp]: "answers_ok (rs_step_update g r) = answers_ok r" "answers_ok (score_row sb r) = answers_ok r"
  by (simp_all add: answers_ok_def score_row_def)

lemma new_session_ok: "session_ok (new_session sch i p m s)"
  by (simp add: session_ok_def answers_ok_def new_session_def step_positions answered_def)

definition next_row :: "string \<Rightarrow> (rec_session \<Rightarrow> rec_session) \<Rightarrow> rec_session \<Rightarrow> rec_session \<Rightarrow> rec_session" where
  \<comment> \<open>the row an accepted answer leads to, the session read being \<open>s\<close>\<close>
  "next_row st store s =
     (if next_index st < length COLLECTION_STEPS then rs_step_update (\<lambda>_. Some (COLLECTION_STEPS ! next_index st)) \<circ> store
      else score_row (compute_score (store s)) \<circ> store)"

lemma score_row_ok: "answers_ok r \<Longrightarrow> answered 6 r \<Longrightarrow> session_ok (score_row (compute_score r) r)"
proof -
  have "rs_step (score_row sb r) = None" "rs_stage (score_row sb r) = ''scored''" "rs_score (score_row sb r) = Some (fst sb)"
    "rs_bucket (score_row sb r) = Some (snd sb)" for sb by (simp_all add: score_row_def)
  then show "answers_ok r \<Longrightarrow> answered 6 r \<Longrightarrow> session_ok (score_row (compute_score r) r)"
    by (simp add: session_ok_def)
qed

lemma step_row_ok:
  assumes "answers_ok r" "position_of st COLLECTION_STEPS = Some i" "answered i r" "rs_stage r = ''collecting''" "rs_score r = None"
  shows "session_ok (rs_step_update (\<lambda>_. Some st) r)"
  using assms by (simp add: session_ok_def)

lemma next_row_ok:
  assumes ok: "session_ok s" and st: "rs_step s = Some st" and f: "take_answer u st t = Inr f"
  shows "session_ok (next_row st f s s) \<and> rs_phone (next_row st f s s) = rs_phone s"
proof -
  obtain i where i: "position_of st COLLECTION_STEPS = Some i" "answered i s" "rs_stage s = ''collecting''" "rs_score s = None"
    using ok by (auto simp: session_ok_def st)
  have a: "answers_ok (f s)" using ok take_answer_ok [OF f] by (simp add: session_ok_def)
  note b = take_answer_answered [OF f i(1,2)]
  note k = take_answer_keeps [OF f, of s]
  show ?thesis
  proof (cases "i = 5")
    case True
    then have "next_row st f s s = score_row (compute_score (f s)) (f s)"
      using position_of_steps [OF i(1)] by (auto simp: next_row_def step_tables)
    then show ?thesis using score_row_ok [OF a] b True k by (simp add: score_row_def)
  next
    case False
    let ?st' = "COLLECTION_STEPS ! next_index st"
    have "position_of ?st' COLLECTION_STEPS = Some (Suc i) \<and> next_index st < 6"
      using position_of_steps [OF i(1)] False by (elim disjE) (simp_all add: step_tables)
    then show ?thesis using step_row_ok [OF a _ b, of ?st'] k i(3,4) by (simp add: next_row_def step_tables)
  qed
qed

lemma find_phone:
  assumes "find (\<lambda>r. rs_phone r = ph) rs = Some s"
  shows "s \<in> set rs \<and> rs_phone s = ph"
  using assms by (auto simp: find_Some_iff)

lemma distinct_phone: "distinct (map rs_phone rs) \<Longrightarrow> r \<in> set rs \<Longrightarrow> s \<in> set rs \<Longrightarrow> rs_phone r = rs_phone s \<Longrightarrow> r = s"
  by (metis distinct_map inj_onD)

definition asked_step :: "rec_session \<Rightarrow> string" where
  "asked_step s = (case rs_step s of None \<Rightarrow> ''name'' | Some st \<Rightarrow> if st = '''' then ''name'' else st)"

lemma intake_cases:
  obtains (same) "snd (intake_message u e p m src db) = db"
  | (made) "get_session e (uni_strip p) db = None"
      "snd (intake_message u e p m src db) = snd (create_session e (uni_strip p) (uni_strip m) src db)"
  | (answered) s f where "get_session e (uni_strip p) db = Some s" "live_stage (rs_stage s)"
      "take_answer u (asked_step s) (uni_strip m) = Inr f"
      "snd (intake_message u e p m src db) = update_session e (uni_strip p) (confirms_phone u (asked_step s) (uni_strip m)) (next_row (asked_step s) f s) db"
proof (cases "get_session e (uni_strip p) db")
  case None
  then show ?thesis using same made
    by (cases "list_ex (\<lambda>kw. has_infix kw (uni_lower u (uni_strip m))) INTAKE_KEYWORDS")
      (simp_all add: intake_message_def Let_def case_prod_beta)
next
  case (Some s)
  show ?thesis
  proof (cases "live_stage (rs_stage s)")
    case False
    then show ?thesis using same by (simp add: intake_message_def Let_def Some)
  next
    case True
    show ?thesis
    proof (cases "take_answer u (asked_step s) (uni_strip m)")
      case (Inl again)
      then show ?thesis using same by (simp add: intake_message_def Let_def Some True asked_step_def)
    next
      case (Inr f)
      then have "snd (intake_message u e p m src db) = update_session e (uni_strip p) (confirms_phone u (asked_step s) (uni_strip m)) (next_row (asked_step s) f s) db"
        by (simp add: intake_message_def Let_def Some True next_row_def flip: asked_step_def)
      with Some True Inr show ?thesis by (rule answered)
    qed
  qed
qed

lemma asked_step_ok: "session_ok s \<Longrightarrow> live_stage (rs_stage s) \<Longrightarrow> rs_step s = Some (asked_step s)"
  by (auto simp: session_ok_def asked_step_def live_stage_def COLLECTION_STEPS_def split: option.splits if_splits)

lemma update_session_ok:
  assumes ok: "funnel_ok db" and s: "get_session e ph db = Some s" "live_stage (rs_stage s)"
    and f: "take_answer u (asked_step s) t = Inr f"
  shows "funnel_ok (update_session e ph cf (next_row (asked_step s) f s) db)"
proof -
  have s': "s \<in> set (rd_rows db)" "rs_phone s = ph" "session_ok s"
    using s find_phone [of ph "rd_rows db" s] ok by (auto simp: get_session_def funnel_ok_def split: if_splits)
  let ?g = "next_row (asked_step s) f s"
  have g: "session_ok (?g s)" "rs_phone (?g s) = ph"
    using next_row_ok [OF s'(3) asked_step_ok [OF s'(3) s(2)] f] s'(2) by auto
  have only: "r = s" if "r \<in> set (rd_rows db)" "rs_phone r = ph" for r
    using distinct_phone ok that s'(1,2) by (metis funnel_ok_def)
  let ?rows = "update_where (\<lambda>r. rs_phone r = ph) ?g (rd_rows db)"
  have "map rs_phone ?rows = map rs_phone (rd_rows db)"
    using only g by (auto simp: update_where_def)
  moreover have "\<forall>r\<in>set ?rows. session_ok r"
    using only g ok by (auto simp: ball_update_where funnel_ok_def)
  ultimately show ?thesis using ok by (simp add: update_session_def Let_def funnel_ok_def)
qed

lemma create_session_ok:
  assumes ok: "funnel_ok db" and none: "get_session e ph db = None"
    and seen: "\<not> raises e 0"
  shows "funnel_ok (snd (create_session e ph m src db))"
proof -
  have "ph \<notin> rs_phone ` set (rd_rows db)"
    using none seen by (auto simp: get_session_def find_None_iff)
  then show ?thesis using ok by (auto simp: create_session_def funnel_ok_def new_session_ok) (auto simp: new_session_def)
qed

subsection \<open>Every run of the funnel\<close>

definition funnel_step :: "unicode \<Rightarrow> rec_db \<Rightarrow> rec_db \<Rightarrow> bool" where
  "funnel_step u db db' \<longleftrightarrow> (\<exists>e p m src. db' = snd (intake_message u e p m src db))"

definition seen_step :: "unicode \<Rightarrow> rec_db \<Rightarrow> rec_db \<Rightarrow> bool" where
  \<comment> \<open>a message whose lookup of the session does not fail; its write may\<close>
  "seen_step u db db' \<longleftrightarrow> (\<exists>e p m src. \<not> raises e 0 \<and> db' = snd (intake_message u e p m src db))"

definition no_sessions :: "rec_db \<Rightarrow> bool" where
  "no_sessions db \<longleftrightarrow> rd_rows db = []"

lemma seen_step_ok: "seen_step u db db' \<Longrightarrow> funnel_ok db \<Longrightarrow> funnel_ok db'"
proof -
  assume "seen_step u db db'" and ok: "funnel_ok db"
  then obtain e p m src where seen: "\<not> raises e 0" and db': "db' = snd (intake_message u e p m src db)"
    by (auto simp: seen_step_def)
  have "funnel_ok (snd (intake_message u e p m src db))"
  proof (cases rule: intake_cases [of u e p m src db])
    case same
    then show ?thesis using ok by simp
  next
    case made
    then show ?thesis using create_session_ok [OF ok _ seen] by simp
  next
    case (answered s f)
    then show ?thesis using update_session_ok [OF ok] by simp
  qed
  then show ?thesis by (simp add: db')
qed

interpretation funnel: invariant_system no_sessions "seen_step u" funnel_ok
  by unfold_locales (simp add: no_sessions_def funnel_ok_def, rule seen_step_ok)

text \<open>C26: the recruitment funnel keeps its sessions in order. After any sequence of messages
  whose session lookups succeed (the writes may fail at any point), no phone has two sessions, every
  unfinished session stands at one of the six questions with an acceptable answer to every earlier
  one (an age from 10 to 80, one of the listed positions), and every finished one holds the score and
  the bucket that its own answers give.\<close>
theorem recruit_sessions_ok:
  "reach no_sessions (seen_step u) db \<Longrightarrow> funnel_ok db"
  by (rule funnel.reach_inv)

definition unscored :: "rec_db \<Rightarrow> bool" where
  "unscored db \<longleftrightarrow> rd_schema db = Mig_003b \<and> (\<forall>r\<in>set (rd_rows db). rs_stage r = ''collecting'' \<and> rs_score r = None)"

lemma next_row_unscored:
  assumes f: "take_answer u st t = Inr f" and r: "rs_stage r = ''collecting''" "rs_score r = None"
    and step: "rs_step (next_row st f s r) \<noteq> None"
  shows "rs_stage (next_row st f s r) = ''collecting'' \<and> rs_score (next_row st f s r) = None"
  using take_answer_keeps [OF f, of r] r step by (auto simp: next_row_def score_row_def split: if_splits)

lemma funnel_step_unscored: "funnel_step u db db' \<Longrightarrow> unscored db \<Longrightarrow> unscored db'"
proof -
  assume "funnel_step u db db'" and un: "unscored db"
  then obtain e p m src where db': "db' = snd (intake_message u e p m src db)" by (auto simp: funnel_step_def)
  have "unscored (snd (intake_message u e p m src db))"
  proof (cases rule: intake_cases [of u e p m src db])
    case same
    then show ?thesis using un by simp
  next
    case made
    then show ?thesis using un by (auto simp: create_session_def unscored_def new_session_def)
  next
    case (answered s f)
    let ?ph = "uni_strip p" and ?g = "next_row (asked_step s) f s" and ?c = "confirms_phone u (asked_step s) (uni_strip m)"
    let ?rows = "update_where (\<lambda>r. rs_phone r = ?ph) ?g (rd_rows db)"
    show ?thesis
    proof (cases "update_session e ?ph ?c ?g db = db")
      case True
      then show ?thesis using un answered(4) by simp
    next
      case False
      then have new: "update_session e ?ph ?c ?g db = db\<lparr>rd_rows := ?rows\<rparr>"
        and st: "\<not> has_row (\<lambda>r. rs_phone r = ?ph \<and> rs_step r = None) ?rows"
        using un by (auto simp: update_session_def Let_def unscored_def split: if_splits)
      have "rs_step (?g r) \<noteq> None" if "r \<in> set (rd_rows db)" "rs_phone r = ?ph" for r
      proof -
        have "rs_phone (?g r) = ?ph"
          using that(2) take_answer_keeps(1) [OF answered(3), of r] by (simp add: next_row_def score_row_def)
        moreover have "?g r \<in> set ?rows" using that by (auto simp: set_update_where)
        ultimately show ?thesis using st by (auto simp: has_row_iff)
      qed
      then show ?thesis
        using un next_row_unscored [OF answered(3)] unfolding answered(4) new unscored_def
        by (simp add: ball_update_where)
    qed
  qed
  then show ?thesis by (simp add: db')
qed

interpretation funnel_003b: invariant_system "\<lambda>db. no_sessions db \<and> rd_schema db = Mig_003b" "funnel_step u" unscored
  by unfold_locales (simp add: no_sessions_def unscored_def, rule funnel_step_unscored)

text \<open>C27: with the schema of migration 003b no application is ever finished. The
  last step writes a null \<open>collection_step\<close>, the column refuses it and the refusal is only logged:
  whatever messages arrive and whatever statements fail, every session stays in the stage
  \<open>collecting\<close> without a score.\<close>
theorem recruit_never_scored:
  assumes "reach (\<lambda>db. no_sessions db \<and> rd_schema db = Mig_003b) (funnel_step u) db" and "r \<in> set (rd_rows db)"
  shows "rs_stage r = ''collecting'' \<and> rs_score r = None"
  using funnel_003b.reach_inv [OF assms(1)] assms(2) by (simp add: unscored_def)

subsection \<open>An applicant who answers every question\<close>

lemma get_last_session:
  assumes "rd_rows db = rows @ [r]" "rs_phone r = ph" "ph \<notin> rs_phone ` set rows" "\<not> raises e 0"
  shows "get_session e ph db = Some r"
proof -
  have "find (\<lambda>r. rs_phone r = ph) rows = None" using assms(3) by (auto simp: find_None_iff)
  then show ?thesis using assms(1,2,4) by (simp add: get_session_def find_append)
qed

lemma update_last:
  assumes rows: "rd_rows db = rows @ [r]" "rs_phone r = ph" "ph \<notin> rs_phone ` set rows" and up: "\<not> raises e 1"
    and g: "rs_phone (g r) = ph"
  shows "update_session e ph cf g db =
    (if rd_schema db = Mig_002 \<and> cf \<or> rd_schema db = Mig_003b \<and> rs_step (g r) = None then db else db\<lparr>rd_rows := rows @ [g r]\<rparr>)"
proof -
  have w: "update_where (\<lambda>q. rs_phone q = ph) g rows = rows"
    using rows(3) by (force simp: update_where_def intro!: map_idI)
  have "\<not> has_row (\<lambda>q. rs_phone q = ph \<and> rs_step q = None) rows" using rows(3) by (auto simp: has_row_iff)
  then show ?thesis using up g
    by (cases "rd_schema db"; cases "rs_step (g r)") (auto simp: update_session_def rows(1,2) w has_row_iff)
qed

lemma next_row_phone: "take_answer u st t = Inr f \<Longrightarrow> rs_phone (next_row st f s r) = rs_phone r"
  using take_answer_keeps(1) [of u st t f r] by (simp add: next_row_def score_row_def)

lemma funnel_answer:
  assumes rows: "rd_rows db = rows @ [r]" "rs_phone r = uni_strip p" "uni_strip p \<notin> rs_phone ` set rows"
    and up: "\<not> raises e 0" "\<not> raises e 1"
    and r: "rs_stage r = ''collecting''" "rs_step r = Some st" "st \<in> set COLLECTION_STEPS"
    and f: "take_answer u st (uni_strip m) = Inr f"
  shows "intake_message u e p m src db =
    (\<lparr>ir_reply = (if st = ''phone_confirm'' then INTAKE_COMPLETE_MSG else STEP_QUESTION (COLLECTION_STEPS ! next_index st)),
      ir_action = (if st = ''phone_confirm'' then A_scored else A_collecting), ir_session = Some (rs_id r)\<rparr>,
     if st = ''phone_confirm'' \<and> (rd_schema db = Mig_003b \<or> parse_phone u (uni_strip m) \<noteq> None) then db
     else db\<lparr>rd_rows := rows @ [next_row st f r r]\<rparr>)"
proof -
  have st: "asked_step r = st" using r(2,3) by (auto simp: asked_step_def COLLECTION_STEPS_def)
  have step: "rs_step (next_row st f r r) = None \<longleftrightarrow> st = ''phone_confirm''"
    using r(3) by (auto simp: next_row_def COLLECTION_STEPS_def next_index_def score_row_def)
  have "update_session e (uni_strip p) (confirms_phone u st (uni_strip m)) (next_row st f r) db
      = (if st = ''phone_confirm'' \<and> (rd_schema db = Mig_003b \<or> parse_phone u (uni_strip m) \<noteq> None) then db
         else db\<lparr>rd_rows := rows @ [next_row st f r r]\<rparr>)"
    using update_last [OF rows up(2), of "next_row st f r"] next_row_phone [OF f, of r r] rows(2) step
    by (cases "rd_schema db") (auto simp: confirms_phone_def)
  moreover have "(if next_index st < length COLLECTION_STEPS then False else True) = (st = ''phone_confirm'')"
    using r(3) by (auto simp: next_index_def COLLECTION_STEPS_def)
  ultimately show ?thesis
    using get_last_session [OF rows up(1)] f
    by (cases "st = ''phone_confirm''"; cases "rd_schema db"; cases "parse_phone u (uni_strip m)")
      (simp_all add: intake_message_def Let_def live_stage_def r(1) st next_row_def split: if_splits flip: asked_step_def)
qed

definition intake_step :: "unicode \<Rightarrow> env \<Rightarrow> ustring \<Rightarrow> string \<Rightarrow> ustring \<Rightarrow> rec_db \<Rightarrow> intake_result \<times> rec_db" where
  "intake_step u e p src m db = intake_message u e p m src db"

fun fill :: "(string \<times> (rec_session \<Rightarrow> rec_session)) list \<Rightarrow> rec_session \<Rightarrow> rec_session" where
  \<comment> \<open>the row after a list of accepted answers\<close>
  "fill [] s = s"
| "fill ((st, f) # xs) s = fill xs (next_row st f s s)"

lemma step_after:
  assumes "COLLECTION_STEPS ! i = st" "i < 6" "rs_stage s = ''collecting''" "Suc i < 6"
  shows "rs_step (next_row st f s s) = Some (COLLECTION_STEPS ! Suc i)" "next_index st = Suc i" "st \<noteq> ''phone_confirm''"
proof -
  have "i \<in> {0, 1, 2, 3, 4}" using assms(4) by auto
  then show "rs_step (next_row st f s s) = Some (COLLECTION_STEPS ! Suc i)" "next_index st = Suc i" "st \<noteq> ''phone_confirm''"
    using assms(1) by (auto simp: next_row_def next_index_def COLLECTION_STEPS_def)
qed

lemma answers_append:
  "answers step (xs @ ys) s = (fst (answers step xs s) @ fst (answers step ys (snd (answers step xs s))), snd (answers step ys (snd (answers step xs s))))"
  by (induction xs arbitrary: s) (simp_all add: Let_def case_prod_beta)

lemma answers_Cons_append:
  "answers step (x # xs @ ys) s =
     (fst (step x s) # fst (answers step xs (snd (step x s))) @ fst (answers step ys (snd (answers step xs (snd (step x s))))),
      snd (answers step ys (snd (answers step xs (snd (step x s))))))"
  by (simp add: answers_append Let_def case_prod_beta)

lemma funnel_chain:
  assumes up: "\<not> raises e 0" "\<not> raises e 1"
    and new: "uni_strip p \<notin> rs_phone ` set rows"
  shows "rd_rows db = rows @ [s] \<Longrightarrow> rs_phone s = uni_strip p \<Longrightarrow> rs_stage s = ''collecting'' \<Longrightarrow> i + length xs < 6 \<Longrightarrow>
    rs_step s = Some (COLLECTION_STEPS ! i) \<Longrightarrow> map fst xs = take (length xs) (drop i COLLECTION_STEPS) \<Longrightarrow>
    list_all2 (\<lambda>m (st, f). take_answer u st (uni_strip m) = Inr f) ms xs \<Longrightarrow>
    snd (answers (intake_step u e p src) ms db) = db\<lparr>rd_rows := rows @ [fill xs s]\<rparr>
    \<and> map ir_reply (fst (answers (intake_step u e p src) ms db)) = map STEP_QUESTION (take (length xs) (drop (Suc i) COLLECTION_STEPS))
    \<and> rs_step (fill xs s) = Some (COLLECTION_STEPS ! (i + length xs))"
proof (induction xs arbitrary: i s ms db)
  case Nil
  then show ?case by simp
next
  case (Cons x xs)
  obtain st f where x: "x = (st, f)" by (cases x)
  obtain m ms' where ms: "ms = m # ms'" using Cons.prems(7) by (auto simp: list_all2_Cons2)
  have i: "i < 6" "Suc i < 6" "Suc i + length xs < 6" using Cons.prems(4) by simp_all
  have d: "drop i COLLECTION_STEPS = COLLECTION_STEPS ! i # drop (Suc i) COLLECTION_STEPS"
    "drop (Suc i) COLLECTION_STEPS = COLLECTION_STEPS ! Suc i # drop (Suc (Suc i)) COLLECTION_STEPS"
    using i by (simp_all add: Cons_nth_drop_Suc step_tables)
  have st: "COLLECTION_STEPS ! i = st" "map fst xs = take (length xs) (drop (Suc i) COLLECTION_STEPS)"
    using Cons.prems(6) unfolding x d(1) by simp_all
  have f: "take_answer u st (uni_strip m) = Inr f" and more: "list_all2 (\<lambda>m (st, f). take_answer u st (uni_strip m) = Inr f) ms' xs"
    using Cons.prems(7) by (auto simp: ms x)
  have mem: "st \<in> set COLLECTION_STEPS" using st(1) i(1) by (metis nth_mem steps_nth(7))
  note after = step_after [OF st(1) i(1) Cons.prems(3) i(2)]
  let ?s = "next_row st f s s" and ?db = "db\<lparr>rd_rows := rows @ [next_row st f s s]\<rparr>"
  have one: "intake_step u e p src m db =
      (\<lparr>ir_reply = STEP_QUESTION (COLLECTION_STEPS ! Suc i), ir_action = A_collecting, ir_session = Some (rs_id s)\<rparr>, ?db)"
    unfolding intake_step_def
    using funnel_answer [OF Cons.prems(1,2) new up Cons.prems(3) _ mem f, of src] Cons.prems(5) st(1) after(2,3) by simp
  have "rs_phone ?s = uni_strip p" "rs_stage ?s = ''collecting''"
    using take_answer_keeps [OF f, of s] Cons.prems(2,3) after(2) i by (auto simp: next_row_def step_tables)
  from Cons.IH [of ?db ?s "Suc i" ms', OF _ this i(3) after(1) st(2) more]
  show ?case using one by (simp add: ms x d(2) Let_def case_prod_beta)
qed

text \<open>C28: what an applicant who answers gets. A new number that sends a message with a keyword
  and then its name, an age and a position the parsers accept, and anything for the other questions, is
  asked the six questions in order and told, after exactly seven messages, that the application is
  complete; one new session holds the answers. With the table of migration 002 it is scored, in the stage \<open>scored\<close>,
  exactly when no phone number can be read from the last answer: a number would go to a column this table does not
  have, and the write is refused. With the table of migration 003b the write is always refused, and
  the session stays at the last question without a score.\<close>
theorem recruit_completes:
  assumes up: "\<not> raises e 0" "\<not> raises e 1"
    and new: "uni_strip p \<notin> rs_phone ` set (rd_rows db)"
    and trigger: "is_recruitment_trigger u (uni_strip m0)"
    and age: "parse_age u (uni_strip m2) = Some a"
    and job: "parse_job_preference u (uni_strip m4) = Some j"
  shows "\<exists>s. rd_rows (snd (answers (intake_step u e p src) [m0, m1, m2, m3, m4, m5, m6] db)) = rd_rows db @ [s]
    \<and> map ir_reply (fst (answers (intake_step u e p src) [m0, m1, m2, m3, m4, m5, m6] db))
        = map STEP_QUESTION COLLECTION_STEPS @ [INTAKE_COMPLETE_MSG]
    \<and> rs_phone s = uni_strip p \<and> rs_name s = Some (take 100 (uni_strip (uni_strip m1))) \<and> rs_age s = Some a
    \<and> rs_area s = Some (take 100 (uni_strip (uni_strip m3))) \<and> rs_job s = Some j
    \<and> rs_exp s = Some (parse_experience u (uni_strip m5)) \<and> rs_confirmed s = None
    \<and> (if rd_schema db = Mig_002 \<and> parse_phone u (uni_strip m6) = None
       then rs_stage s = ''scored'' \<and> rs_step s = None
         \<and> rs_score s = Some (fst (compute_score s)) \<and> rs_bucket s = Some (snd (compute_score s))
       else rs_stage s = ''collecting'' \<and> rs_step s = Some ''phone_confirm'' \<and> rs_score s = None)"
proof -
  let ?ph = "uni_strip p" and ?rows = "rd_rows db" and ?run = "answers (intake_step u e p src)"
  define s0 where "s0 = new_session (rd_schema db) (rd_next db) ?ph (uni_strip m0) src"
  let ?xs = "[(''name'', rs_name_update (\<lambda>_. Some (take 100 (uni_strip (uni_strip m1))))), (''age'', rs_age_update (\<lambda>_. Some a)),
    (''area'', rs_area_update (\<lambda>_. Some (take 100 (uni_strip (uni_strip m3))))), (''job_preference'', rs_job_update (\<lambda>_. Some j)),
    (''experience'', rs_exp_update (\<lambda>_. Some (parse_experience u (uni_strip m5))))]"
  let ?db = "db\<lparr>rd_rows := ?rows @ [s0], rd_next := rd_next db + 1\<rparr>"
  define s5 where "s5 = s0\<lparr>rs_step := Some ''phone_confirm'', rs_name := Some (take 100 (uni_strip (uni_strip m1))),
    rs_age := Some a, rs_area := Some (take 100 (uni_strip (uni_strip m3))), rs_job := Some j,
    rs_exp := Some (parse_experience u (uni_strip m5))\<rparr>"
  have none: "get_session e ?ph db = None" using new by (force simp: get_session_def find_None_iff)
  have fresh: "\<not> phone_taken ?ph db" using new by (force simp: phone_taken_def has_row_iff)
  have first: "intake_step u e p src m0 db =
      (\<lparr>ir_reply = STEP_QUESTION ''name'', ir_action = A_created, ir_session = Some (rd_next db)\<rparr>, ?db)"
    using trigger fresh up
    by (simp add: intake_step_def intake_message_def Let_def none create_session_def s0_def is_recruitment_trigger_def)
  have fill: "fill ?xs s0 = s5"
    by (simp add: s5_def next_row_def next_indices, simp add: COLLECTION_STEPS_def s0_def new_session_def)
  let ?db5 = "?db\<lparr>rd_rows := ?rows @ [fill ?xs s0]\<rparr>"
  have five: "snd (?run [m1, m2, m3, m4, m5] ?db) = ?db5
    \<and> map ir_reply (fst (?run [m1, m2, m3, m4, m5] ?db)) = map STEP_QUESTION (take (length ?xs) (drop (Suc 0) COLLECTION_STEPS))
    \<and> rs_step (fill ?xs s0) = Some (COLLECTION_STEPS ! (0 + length ?xs))"
    using funnel_chain [OF up new, where i = "0" and xs = "?xs" and s = "s0" and db = "?db" and ms = "[m1, m2, m3, m4, m5]" and u = "u" and src = "src"]
    by (simp add: s0_def new_session_def COLLECTION_STEPS_def take_answer_def age job del: answers.simps fill.simps)
  obtain f where f: "take_answer u ''phone_confirm'' (uni_strip m6) = Inr f" and fi: "parse_phone u (uni_strip m6) = None \<Longrightarrow> f = id"
    by (cases "parse_phone u (uni_strip m6)") (simp_all add: take_answer_def)
  have s5: "rs_phone s5 = ?ph" "rs_stage s5 = ''collecting''" "rs_step s5 = Some ''phone_confirm''" "rs_score s5 = None" "rs_confirmed s5 = None"
    by (simp_all add: s5_def s0_def new_session_def)
  have last: "?run [m6] ?db5 = ([\<lparr>ir_reply = INTAKE_COMPLETE_MSG, ir_action = A_scored, ir_session = Some (rs_id s5)\<rparr>],
      if rd_schema db = Mig_003b \<or> parse_phone u (uni_strip m6) \<noteq> None then ?db5
      else ?db5\<lparr>rd_rows := ?rows @ [next_row ''phone_confirm'' f s5 s5]\<rparr>)"
    using funnel_answer [of ?db5 ?rows s5 p e "''phone_confirm''" u m6 f src, OF _ s5(1) new up s5(2,3) _ f] fill
    by (simp add: intake_step_def COLLECTION_STEPS_def)
  define s where "s = (if rd_schema db = Mig_002 \<and> parse_phone u (uni_strip m6) = None then score_row (compute_score s5) s5 else s5)"
  have sc: "next_row ''phone_confirm'' f s5 s5 = score_row (compute_score s5) s5" if "parse_phone u (uni_strip m6) = None"
    using fi [OF that] by (simp add: next_row_def step_tables)
  have run: "?run [m0, m1, m2, m3, m4, m5, m6] db
      = (\<lparr>ir_reply = STEP_QUESTION ''name'', ir_action = A_created, ir_session = Some (rd_next db)\<rparr>
           # fst (?run [m1, m2, m3, m4, m5] ?db) @ fst (?run [m6] ?db5), snd (?run [m6] ?db5))"
    using answers_Cons_append [of "intake_step u e p src" m0 "[m1, m2, m3, m4, m5]" "[m6]" db, unfolded append.simps]
    by (simp only: first prod.sel five [THEN conjunct1])
  have rows: "rd_rows (snd (?run [m6] ?db5)) = ?rows @ [s]"
    unfolding last s_def using sc fill by (cases "rd_schema db") auto
  have replies: "map ir_reply (fst (?run [m0, m1, m2, m3, m4, m5, m6] db)) = map STEP_QUESTION COLLECTION_STEPS @ [INTAKE_COMPLETE_MSG]"
    using five [THEN conjunct2, THEN conjunct1] unfolding run fst_conv last list.map map_append
    by (simp add: COLLECTION_STEPS_def del: answers.simps fill.simps)
  have table: "rd_rows (snd (?run [m0, m1, m2, m3, m4, m5, m6] db)) = ?rows @ [s]"
    unfolding run snd_conv by (rule rows)
  have "rs_phone s = uni_strip p \<and> rs_name s = Some (take 100 (uni_strip (uni_strip m1))) \<and> rs_age s = Some a
    \<and> rs_area s = Some (take 100 (uni_strip (uni_strip m3))) \<and> rs_job s = Some j
    \<and> rs_exp s = Some (parse_experience u (uni_strip m5)) \<and> rs_confirmed s = None"
    using s5(1,5) by (simp add: s_def score_row_def s5_def)
  moreover have "if rd_schema db = Mig_002 \<and> parse_phone u (uni_strip m6) = None
       then rs_stage s = ''scored'' \<and> rs_step s = None
         \<and> rs_score s = Some (fst (compute_score s)) \<and> rs_bucket s = Some (snd (compute_score s))
       else rs_stage s = ''collecting'' \<and> rs_step s = Some ''phone_confirm'' \<and> rs_score s = None"
    using s5 by (simp add: s_def) (simp add: score_row_def)
  ultimately show ?thesis using table replies by blast
qed

subsection \<open>Examples, and what the funnel does not do\<close>

definition empty_funnel :: "rec_schema \<Rightarrow> rec_db" where
  "empty_funnel sch = \<lparr>rd_rows = [], rd_next = 1, rd_schema = sch\<rparr>"

theorem recruit_completes_witness:
  "\<exists>s. rd_rows (snd (answers (intake_step plain_unicode (env_at 0) (cp ''01712345678'') ''bridge1'')
        [cp ''any job?'', cp ''Karim'', cp ''I am 25'', cp ''Dhaka'', cp ''guard'', cp ''4'', cp ''same''] (empty_funnel Mig_002))) = [s]
    \<and> rs_age s = Some 25 \<and> rs_job s = Some ''Security Guard'' \<and> rs_stage s = ''scored''"
proof -
  have f: "uni_strip (cp ''01712345678'') \<notin> rs_phone ` set (rd_rows (empty_funnel Mig_002))"
    "\<not> raises (env_at 0) 0" "\<not> raises (env_at 0) 1"
    by (simp_all add: empty_funnel_def)
  have t: "is_recruitment_trigger plain_unicode (uni_strip (cp ''any job?''))" by code_simp
  have a: "parse_age plain_unicode (uni_strip (cp ''I am 25'')) = Some 25" by code_simp
  have j: "parse_job_preference plain_unicode (uni_strip (cp ''guard'')) = Some ''Security Guard''" by code_simp
  have n: "parse_phone plain_unicode (uni_strip (cp ''same'')) = None" by code_simp
  show ?thesis
    using recruit_completes [OF f(2,3,1) t a j, of "''bridge1''" "cp ''Karim''" "cp ''Dhaka''" "cp ''4''" "cp ''same''"] n
    by (auto simp: empty_funnel_def)
qed

definition first_message :: rec_db where
  "first_message = snd (intake_message plain_unicode (env_at 0) (cp ''01712345678'') (cp ''job'') ''bridge1'' (empty_funnel Mig_003b))"

lemma first_message_row: "\<exists>r. rd_rows first_message = [r]"
proof -
  have "length (rd_rows first_message) = 1" by code_simp
  then show ?thesis by (auto simp: length_Suc_conv)
qed

lemma first_message_reach:
  "reach (\<lambda>db. no_sessions db \<and> rd_schema db = Mig_003b) (funnel_step plain_unicode) first_message"
  "reach no_sessions (seen_step plain_unicode) first_message"
proof -
  have "funnel_step plain_unicode (empty_funnel Mig_003b) first_message"
    unfolding funnel_step_def first_message_def by blast
  then show "reach (\<lambda>db. no_sessions db \<and> rd_schema db = Mig_003b) (funnel_step plain_unicode) first_message"
    by (rule reach_step [OF reach_start, rotated]) (simp add: no_sessions_def empty_funnel_def)
  have "seen_step plain_unicode (empty_funnel Mig_003b) first_message"
    unfolding seen_step_def first_message_def by (metis env_at_simps(4))
  then show "reach no_sessions (seen_step plain_unicode) first_message"
    by (rule reach_step [OF reach_start, rotated]) (simp add: no_sessions_def empty_funnel_def)
qed

theorem recruit_sessions_ok_witness: "funnel_ok first_message \<and> length (rd_rows first_message) = 1"
  using recruit_sessions_ok [OF first_message_reach(2)] first_message_row by auto

theorem recruit_never_scored_witness:
  "\<exists>r. rd_rows first_message = [r] \<and> rs_stage r = ''collecting'' \<and> rs_score r = None"
proof -
  obtain r where "rd_rows first_message = [r]" using first_message_row by blast
  with recruit_never_scored [OF first_message_reach(1), of r] show ?thesis by simp
qed

text \<open>The answer to the last question is acknowledged as complete although nothing was stored: with
  the table of migration 003b always, with that of migration 002 when the answer contains a phone number.\<close>
theorem completion_lost:
  assumes "get_session e (uni_strip p) db = Some s" "live_stage (rs_stage s)" "rs_step s = Some ''phone_confirm''"
    and "rd_schema db = Mig_003b \<or> parse_phone u (uni_strip m) \<noteq> None"
  shows "ir_reply (fst (intake_message u e p m src db)) = INTAKE_COMPLETE_MSG \<and> snd (intake_message u e p m src db) = db"
proof -
  obtain f where f: "take_answer u ''phone_confirm'' (uni_strip m) = Inr f"
    by (cases "parse_phone u (uni_strip m)") (simp_all add: take_answer_def)
  have s: "s \<in> set (rd_rows db)" "rs_phone s = uni_strip p"
    using assms(1) find_phone [of "uni_strip p" "rd_rows db" s] by (auto simp: get_session_def split: if_splits)
  let ?g = "score_row (compute_score (f s)) \<circ> f"
  have "?g s \<in> set (update_where (\<lambda>r. rs_phone r = uni_strip p) ?g (rd_rows db))" "rs_phone (?g s) = uni_strip p" "rs_step (?g s) = None"
    using s take_answer_keeps(1) [OF f, of s] by (auto simp: set_update_where score_row_def)
  then have "has_row (\<lambda>r. rs_phone r = uni_strip p \<and> rs_step r = None) (update_where (\<lambda>r. rs_phone r = uni_strip p) ?g (rd_rows db))"
    unfolding has_row_iff by blast
  then have "update_session e (uni_strip p) (confirms_phone u ''phone_confirm'' (uni_strip m)) ?g db = db"
    using assms(4) by (cases "rd_schema db") (auto simp: update_session_def Let_def confirms_phone_def)
  then show ?thesis by (simp add: intake_message_def Let_def assms f step_tables)
qed

text \<open>The question about the position asks for a number from one to five in Bengali digits; no
  such answer is accepted.\<close>
lemma bengali_choice_refused:
  "\<forall>c\<in>set [2535, 2536, 2537, 2538, 2539]. parse_job_preference plain_unicode [c] = None"
  by code_simp

end
