(* ===== verification/Payment_Ingest.thy ===== *)
theory Payment_Ingest
  imports Py_Regex Payment_Workflow
begin

text \<open>
  Payments read from messages, \<open>modules/payment_ingest/__init__.py\<close>: the patterns for the texts of
  bKash, Nagad and Rocket and for pasted notes, the shorthand of the accountant, the match of the
  employee, the staging row that makes a payment unique on its day, and the automatic payment over
  \<open>finalize_payment\<close>. The fuzzy comparison of names (rapidfuzz) and the hash are arguments; amounts
  are exact numbers where the code has floats. The draft's text is not kept.
\<close>

subsection \<open>Constants\<close>

definition AUTO_APPROVE_NAME_RATIO :: rat where "AUTO_APPROVE_NAME_RATIO = 92 / 100"
definition AUTO_APPROVE_MIN_AMOUNT :: rat where "AUTO_APPROVE_MIN_AMOUNT = 100"
definition AUTO_APPROVE_MAX_AMOUNT :: rat where "AUTO_APPROVE_MAX_AMOUNT = 50000"

subsection \<open>Numbers and patterns\<close>

definition norm_mobile :: "unicode \<Rightarrow> ustring option \<Rightarrow> ustring option" where
  "norm_mobile u raw =
     (case raw of
        None \<Rightarrow> None
      | Some s \<Rightarrow>
          (let d = filter (uni_digit u) s
           in if d = [] then None
              else let d1 = (if length d \<ge> 11 then py_suffix 11 d else d)
                   in Some (if starts [49] d1 \<and> length d1 = 10 then 48 # d1 else d1)))"

definition ws :: re where "ws = Chr uni_space"

definition amount_re :: "unicode \<Rightarrow> re" where
  \<comment> \<open>\<open>[\d,]+(?:\.\d+)?\<close>\<close>
  "amount_re u = Cat (plus1 (Chr (\<lambda>c. uni_digit u c \<or> c = 44)))
     (opt (Cat (Chr (\<lambda>c. c = 46)) (plus1 (Chr (uni_digit u)))))"

definition phone_re :: "unicode \<Rightarrow> re" where
  \<comment> \<open>\<open>\+?\d[\d\s\-]{8,20}\<close>\<close>
  "phone_re u = seq [opt (Chr (\<lambda>c. c = 43)), Chr (uni_digit u),
     between 8 20 (Chr (\<lambda>c. uni_digit u c \<or> uni_space c \<or> c = 45))]"

definition name_char :: "nat \<Rightarrow> bool" where
  "name_char c \<longleftrightarrow> any_letter c \<or> c = 32 \<or> c = 46 \<or> c = 45"

definition tk_amount :: "unicode \<Rightarrow> re" where
  \<comment> \<open>\<open>tk\.?\s*(...)\<close> with the amount as group 1\<close>
  "tk_amount u = seq [lit_ci ''tk'', opt (Chr (\<lambda>c. c = 46)), star ws, Grp 1 (amount_re u)]"

definition BKASH_RES :: "unicode \<Rightarrow> re list" where
  "BKASH_RES u =
     [seq [alts [seq [lit_ci ''cash'', star ws, lit_ci ''in''], lit_ci ''received'',
                 seq [lit_ci ''payment'', plus1 ws, lit_ci ''received'']],
           plus1 ws, tk_amount u, plus1 ws, lit_ci ''from'', plus1 ws,
           opt (seq [Grp 2 (Cat (Chr any_letter) (Rep False 1 (Some 60) (Chr name_char))), plus1 ws]),
           Grp 3 (phone_re u)],
      seq [tk_amount u, plus1 ws, opt (seq [lit_ci ''received'', plus1 ws]), lit_ci ''from'', plus1 ws,
           Grp 2 (phone_re u),
           opt (seq [plus1 (Chr (\<lambda>c. \<not> any_letter c)), Grp 3 (Cat (Chr any_letter) (between 2 60 (Chr name_char)))])]]"

definition NAGAD_RES :: "unicode \<Rightarrow> re list" where
  "NAGAD_RES u =
     [seq [lit_ci ''amount'', plus1 (Chr (\<lambda>c. c = 58 \<or> uni_space c)), tk_amount u, plus1 (Chr (\<lambda>c. \<not> uni_digit u c)),
           lit_ci ''sender'', plus1 (Chr (\<lambda>c. c = 58 \<or> uni_space c)), Grp 2 (phone_re u)]]"

definition ROCKET_RES :: "unicode \<Rightarrow> re list" where
  "ROCKET_RES u =
     [seq [lit_ci ''received'', plus1 ws, tk_amount u, plus1 ws, lit_ci ''from'', plus1 ws,
           lit_ci ''a'', opt (Chr (\<lambda>c. c = 47)), lit_ci ''c'', plus1 ws, Grp 2 (phone_re u)]]"

definition GENERIC_RE :: "unicode \<Rightarrow> re" where
  "GENERIC_RE u =
     seq [opt (alts [Cat (lit_ci ''tk'') (opt (Chr (\<lambda>c. c = 46))), Chr (\<lambda>c. c = 2547), lit_ci ''taka'']), star ws,
          Grp 1 (Cat (between 2 9 (Chr (\<lambda>c. uni_digit u c \<or> c = 44))) (opt (Cat (Chr (\<lambda>c. c = 46)) (plus1 (Chr (uni_digit u)))))),
          star ws, opt (alts [lit_ci ''taka'', lit_ci ''tk'', Chr (\<lambda>c. c = 2547)]),
          Rep False 1 (Some 40) (Chr (\<lambda>c. \<not> ascii_digit c)), Grp 2 (phone_re u)]"

definition TRX_RE :: "unicode \<Rightarrow> re" where
  "TRX_RE u = seq [boundary u, alts [lit_ci ''trx'', lit_ci ''txn'', lit_ci ''trxid'', lit_ci ''txnid''],
     star (Chr (\<lambda>c. c = 58 \<or> uni_space c)), Grp 1 (between 4 20 (Chr (\<lambda>c. any_letter c \<or> ascii_digit c)))]"

definition NAME_RE :: re where
  "NAME_RE = seq [alts [lit_ci ''from'', lit_ci ''sender''], plus1 (Chr (\<lambda>c. c = 58 \<or> uni_space c)),
     Grp 1 (Cat (Chr any_letter) (between 2 60 (Chr name_char)))]"

definition detect_method :: "unicode \<Rightarrow> ustring \<Rightarrow> string" where
  "detect_method u txt =
     (let t = uni_lower u txt
      in if has_infix (cp ''bkash'') t \<or> has_infix [2476, 2495, 2453, 2494, 2486] txt then ''bkash''
         else if has_infix (cp ''nagad'') t \<or> has_infix [2472, 2455, 2470] txt then ''nagad''
         else if has_infix (cp ''rocket'') t \<or> has_infix [2480, 2453, 2503, 2463] txt then ''rocket''
         else ''cash'')"

definition read_amount :: "unicode \<Rightarrow> ustring \<Rightarrow> rat option" where
  "read_amount u s = (case py_float u (filter (\<lambda>c. c \<noteq> 44) s) of None \<Rightarrow> None | Some v \<Rightarrow> if v > 0 then Some v else None)"

subsection \<open>Reading a payment message\<close>

record payment =
  pp_amount :: rat
  pp_mobile :: "ustring option"
  pp_name :: "ustring option"
  pp_method :: string
  pp_trxid :: "ustring option"

definition has_letter :: "ustring \<Rightarrow> bool" where
  "has_letter s \<longleftrightarrow> list_ex ascii_letter s"

fun sort_groups :: "unicode \<Rightarrow> ustring option list \<Rightarrow> ustring option \<Rightarrow> ustring option \<Rightarrow> ustring option \<times> ustring option" where
  \<comment> \<open>which group is the mobile number and which the name\<close>
  "sort_groups u [] mobile name = (mobile, name)"
| "sort_groups u (None # gs) mobile name = sort_groups u gs mobile name"
| "sort_groups u (Some g # gs) mobile name =
     (if length (filter (uni_digit u) g) \<ge> 9 \<and> mobile = None then sort_groups u gs (norm_mobile u (Some g)) name
      else if name = None \<and> has_letter g then sort_groups u gs mobile (Some (uni_strip g))
      else sort_groups u gs mobile name)"

definition try_pattern :: "unicode \<Rightarrow> ustring \<Rightarrow> string \<Rightarrow> ustring option \<Rightarrow> re \<Rightarrow> payment option" where
  \<comment> \<open>one round of the loop over the candidate patterns\<close>
  "try_pattern u txt meth trxid pat =
     (case search pat txt of
        None \<Rightarrow> None
      | Some m \<Rightarrow>
          (case read_amount u (the (m_group 1 m)) of
             None \<Rightarrow> None
           | Some amt \<Rightarrow>
               (case sort_groups u [m_group 2 m, m_group 3 m] None None of
                  (None, _) \<Rightarrow> None
                | (Some mob, name) \<Rightarrow>
                    Some \<lparr>pp_amount = amt, pp_mobile = Some mob,
                      pp_name = (if name \<noteq> None then name
                                 else (case search NAME_RE txt of None \<Rightarrow> None | Some n \<Rightarrow> map_option uni_strip (m_group 1 n))),
                      pp_method = meth, pp_trxid = trxid\<rparr>)))"

fun first_some :: "('a \<Rightarrow> 'b option) \<Rightarrow> 'a list \<Rightarrow> 'b option" where
  "first_some f [] = None"
| "first_some f (x # xs) = (case f x of Some y \<Rightarrow> Some y | None \<Rightarrow> first_some f xs)"

definition candidates :: "unicode \<Rightarrow> string \<Rightarrow> re list" where
  "candidates u meth =
     (if meth = ''bkash'' then BKASH_RES u else if meth = ''nagad'' then NAGAD_RES u
      else if meth = ''rocket'' then ROCKET_RES u else [])
     @ BKASH_RES u @ NAGAD_RES u @ ROCKET_RES u @ [GENERIC_RE u]"

definition parse_payment_sms :: "unicode \<Rightarrow> ustring \<Rightarrow> payment option" where
  "parse_payment_sms u txt =
     (if length txt < 6 then None
      else let meth = detect_method u txt;
               trxid = (case search (TRX_RE u) txt of None \<Rightarrow> None | Some m \<Rightarrow> m_group 1 m)
           in first_some (try_pattern u txt meth trxid) (candidates u meth))"

definition PAYMENT_HINTS :: "ustring list" where
  "PAYMENT_HINTS = [cp ''bkash'', cp ''nagad'', cp ''rocket'', cp ''trxid'', cp ''txnid'', cp ''cash in'',
     cp ''money received'', cp ''payment received'', cp ''tk '', [2547],
     [2463, 2494, 2453, 2494, 32, 2474, 2503, 2479, 2492, 2503, 2459, 2495]]"

definition looks_like_payment_sms :: "unicode \<Rightarrow> ustring \<Rightarrow> bool" where
  "looks_like_payment_sms u txt \<longleftrightarrow>
     txt \<noteq> [] \<and> list_ex (\<lambda>h. has_infix h (uni_lower u txt)) PAYMENT_HINTS
     \<and> search (Rep True 4 None (Chr (uni_digit u))) txt \<noteq> None"

subsection \<open>The shorthand of the accountant\<close>

definition shorthand_phone :: "unicode \<Rightarrow> re" where
  "shorthand_phone u =
     Alt (seq [opt (Chr (\<lambda>c. c = 43)), lit ''880'', opt (Chr (\<lambda>c. uni_space c \<or> c = 45)),
               Chr (uni_digit u), between 8 12 (Chr (\<lambda>c. uni_digit u c \<or> uni_space c \<or> c = 45))])
         (seq [opt (Chr (\<lambda>c. c = 48)), Chr (\<lambda>c. c = 49), Chr (\<lambda>c. 51 \<le> c \<and> c \<le> 57), times 8 (Chr (uni_digit u))])"

definition SHORTHAND_RE :: "unicode \<Rightarrow> re" where
  "SHORTHAND_RE u =
     seq [Grp 1 (shorthand_phone u), star ws, Chr (\<lambda>c. c = 40), star ws,
          Grp 2 (Chr (\<lambda>c. ascii_lower c \<in> {110, 98, 99, 114})), star ws, Chr (\<lambda>c. c = 41),
          star (Chr (\<lambda>c. uni_space c \<or> c = 44)), Grp 3 (plus1 (Chr (\<lambda>c. uni_digit u c \<or> c = 44))), star ws, lit ''/-'']"

definition SHORTHAND_METHOD :: "(ustring \<times> string) list" where
  "SHORTHAND_METHOD = [(cp ''n'', ''nagad''), (cp ''b'', ''bkash''), (cp ''c'', ''cash''), (cp ''r'', ''rocket'')]"

definition is_admin_cash_shorthand :: "unicode \<Rightarrow> ustring \<Rightarrow> bool" where
  "is_admin_cash_shorthand u txt \<longleftrightarrow> search (SHORTHAND_RE u) txt \<noteq> None"

definition parse_admin_cash_shorthand :: "unicode \<Rightarrow> ustring \<Rightarrow> payment option" where
  "parse_admin_cash_shorthand u txt =
     (case search (SHORTHAND_RE u) txt of
        None \<Rightarrow> None
      | Some m \<Rightarrow>
          (case (norm_mobile u (m_group 1 m), read_amount u (the (m_group 3 m))) of
             (Some mob, Some amt) \<Rightarrow>
               (let name = strip_set {44, 59} (uni_strip (m_before m))
                in Some \<lparr>pp_amount = amt, pp_mobile = Some mob,
                     pp_name = (if 2 \<le> length name \<and> length name \<le> 60 then Some name else None),
                     pp_method = (case map_of SHORTHAND_METHOD (uni_lower u (the (m_group 2 m))) of
                                    Some x \<Rightarrow> x | None \<Rightarrow> ''cash''),
                     pp_trxid = None\<rparr>)
           | _ \<Rightarrow> None))"

subsection \<open>The tables\<close>

record pay_emp =
  pe_id :: int
  pe_name :: "ustring option"
  pe_mobile :: "ustring option"
  pe_bkash :: "ustring option"
  pe_nagad :: "ustring option"

record staging =
  sp_id :: int
  sp_message :: "int option"
  sp_sender :: "ustring option"
  sp_name :: "ustring option"
  sp_mobile :: "ustring option"
  sp_amount :: rat
  sp_method :: string
  sp_employee :: "int option"
  sp_ratio :: rat
  sp_status :: string
  sp_key :: string
  sp_txn :: "int option"
  sp_approved_by :: "string option"

record ingest_db =
  gd_emps :: "pay_emp list"
  gd_staging :: "staging list"
  gd_next :: int
  gd_pay :: pay_db

subsection \<open>The employee\<close>

datatype match_type = M_mobile_exact | M_bkash_exact | M_nagad_exact | M_name_fuzzy | M_none

definition is_exact :: "match_type \<Rightarrow> bool" where
  \<comment> \<open>\<open>mtype.endswith("_exact")\<close>\<close>
  "is_exact m \<longleftrightarrow> m = M_mobile_exact \<or> m = M_bkash_exact \<or> m = M_nagad_exact"

definition number_ends :: "ustring \<Rightarrow> ustring option \<Rightarrow> bool" where
  \<comment> \<open>\<open>regexp_replace(col, '\D', '', 'g') LIKE '%' || mob\<close>\<close>
  "number_ends mob v = (case v of None \<Rightarrow> False | Some s \<Rightarrow> py_suffix (length mob) (filter ascii_digit s) = mob)"

definition exact_type :: "ustring \<Rightarrow> pay_emp \<Rightarrow> match_type option" where
  "exact_type mob r =
     (if number_ends mob (pe_mobile r) then Some M_mobile_exact
      else if number_ends mob (pe_bkash r) then Some M_bkash_exact
      else if number_ends mob (pe_nagad r) then Some M_nagad_exact else None)"

definition match_employee ::
  "unicode \<Rightarrow> (ustring \<Rightarrow> (int \<times> ustring) list \<Rightarrow> (rat \<times> int) option) \<Rightarrow> env \<Rightarrow> ustring option \<Rightarrow> ustring option \<Rightarrow> pay_emp list
    \<Rightarrow> (unit + int option \<times> rat \<times> match_type)" where
  \<comment> \<open>\<open>best\<close> is \<open>extractOne\<close> with its cut-off; Inl stands for an exception\<close>
  "match_employee u best e mobile name emps =
     (let mob = norm_mobile u mobile;
          exact = (case mob of None \<Rightarrow> None | Some m \<Rightarrow> find (\<lambda>r. exact_type m r \<noteq> None) emps)
      in if mob \<noteq> None \<and> raises e 0 then Inl ()
         else case exact of
           Some r \<Rightarrow> Inr (Some (pe_id r), 1, the (exact_type (the mob) r))
         | None \<Rightarrow>
             (case name of
                None \<Rightarrow> Inr (None, 0, M_none)
              | Some n \<Rightarrow>
                  if length n < 3 then Inr (None, 0, M_none)
                  else if raises e 1 then Inl ()
                  else let choices = [(pe_id r, the (pe_name r)). r \<leftarrow> emps, pe_name r \<noteq> None]
                       in if choices = [] then Inr (None, 0, M_none)
                          else (case best n choices of
                                  Some (score, i) \<Rightarrow> Inr (Some i, score / 100, M_name_fuzzy)
                                | None \<Rightarrow> Inr (None, 0, M_none))))"

subsection \<open>One payment per day\<close>

definition money_text :: "rat \<Rightarrow> string" where
  \<comment> \<open>\<open>f"{amount:.2f}"\<close> of an amount that is not negative\<close>
  "money_text a = (let c = nat (round_half_even (a * 100)) in show_nat (c div 100) @ ''.'' @ pad2 (int (c mod 100)))"

definition raw_key :: "payment \<Rightarrow> date \<Rightarrow> ustring" where
  "raw_key p day =
     cp (pp_method p) @ [124] @ (case pp_trxid p of None \<Rightarrow> [] | Some t \<Rightarrow> t) @ [124] @ cp (money_text (pp_amount p)) @ [124]
     @ (case pp_mobile p of None \<Rightarrow> [] | Some m \<Rightarrow> m) @ [124] @ cp (isoformat day)"

definition idempotency_key :: "(ustring \<Rightarrow> string) \<Rightarrow> payment \<Rightarrow> date \<Rightarrow> string" where
  "idempotency_key sha p day = take 64 (sha (raw_key p day))"

subsection \<open>The automatic payment\<close>

definition auto_draft :: "env \<Rightarrow> int \<Rightarrow> payment \<Rightarrow> pay_db \<Rightarrow> int \<times> pay_db" where
  "auto_draft e emp p db =
     (let (i, db1) = new_draft e T_auto_payment (Some emp) None None (pp_amount p) ''payment_ingest'' db
      in (i, update_draft i (\<lambda>d. d\<lparr>pd_method := Some (pp_method p)\<rparr>) db1))"

definition latest_txn :: "int \<Rightarrow> rat \<Rightarrow> string \<Rightarrow> pay_db \<Rightarrow> int option" where
  "latest_txn emp amount meth db =
     (case map ct_id (filter (\<lambda>c. ct_employee c = Some emp \<and> ct_amount c = amount \<and> ct_method c = Some meth) (pb_cash db)) of
        [] \<Rightarrow> None | is \<Rightarrow> Some (Max (set is)))"

definition bridge_to_finalize ::
  "env \<Rightarrow> env \<Rightarrow> date \<Rightarrow> int \<Rightarrow> int \<Rightarrow> payment \<Rightarrow> ingest_db \<Rightarrow> (unit + int \<times> int option) \<times> ingest_db" where
  \<comment> \<open>\<open>ef\<close> is the environment of \<open>finalize_payment\<close>, which returns its errors and raises none\<close>
  "bridge_to_finalize e ef day sid emp p db =
     (if raises e 4 \<or> find (\<lambda>r. pe_id r = emp) (gd_emps db) = None \<or> raises e 5 then (Inl (), db)
      else let (did, pay1) = auto_draft e emp p (gd_pay db);
               pay2 = snd (finalize_payment ef day did (pp_amount p) (pp_method p) pay1);
               db2 = db\<lparr>gd_pay := pay2\<rparr>
           in if raises e 6 then (Inl (), db2)
              else case latest_txn emp (pp_amount p) (pp_method p) pay2 of
                None \<Rightarrow> (Inr (did, None), db2)
              | Some t \<Rightarrow>
                  if raises e 7 then (Inl (), db2)
                  else (Inr (did, Some t),
                        db2\<lparr>gd_staging := update_where (\<lambda>r. sp_id r = sid)
                          (\<lambda>r. r\<lparr>sp_txn := Some t, sp_approved_by := Some ''auto-ingest''\<rparr>) (gd_staging db2)\<rparr>))"

subsection \<open>Ingest\<close>

datatype ingest_outcome =
    Unparsed
  | Ingest_raised
  | Duplicate_of int
  | Staged int string "(unit + int \<times> int option) option"

definition high_confidence :: "int option \<Rightarrow> rat \<Rightarrow> match_type \<Rightarrow> payment \<Rightarrow> bool" where
  "high_confidence emp ratio mt p \<longleftrightarrow>
     emp \<noteq> None \<and> (is_exact mt \<or> ratio \<ge> AUTO_APPROVE_NAME_RATIO)
     \<and> AUTO_APPROVE_MIN_AMOUNT \<le> pp_amount p \<and> pp_amount p \<le> AUTO_APPROVE_MAX_AMOUNT"

definition initial_status :: "bool \<Rightarrow> int option \<Rightarrow> rat \<Rightarrow> match_type \<Rightarrow> payment \<Rightarrow> string" where
  "initial_status auto emp ratio mt p =
     (if auto \<and> high_confidence emp ratio mt p then ''auto_approved''
      else if emp \<noteq> None \<and> emp \<noteq> Some 0 then ''pending'' else ''unmatched'')"

record ingest_call =
  ic_best :: "ustring \<Rightarrow> (int \<times> ustring) list \<Rightarrow> (rat \<times> int) option"
  ic_sha :: "ustring \<Rightarrow> string"
  ic_env :: env
  ic_fin_env :: env
  ic_day :: date
  ic_sender :: "ustring option"
  ic_message :: "int option"
  ic_auto :: bool

definition staging_row :: "ingest_call \<Rightarrow> int \<Rightarrow> payment \<Rightarrow> int option \<Rightarrow> rat \<Rightarrow> match_type \<Rightarrow> staging" where
  "staging_row c i p emp ratio mt =
     \<lparr>sp_id = i, sp_message = ic_message c, sp_sender = ic_sender c, sp_name = pp_name p, sp_mobile = pp_mobile p,
      sp_amount = pp_amount p, sp_method = pp_method p, sp_employee = emp, sp_ratio = round2 ratio,
      sp_status = initial_status (ic_auto c) emp ratio mt p, sp_key = idempotency_key (ic_sha c) p (ic_day c),
      sp_txn = None, sp_approved_by = None\<rparr>"

definition ingest_parsed :: "unicode \<Rightarrow> ingest_call \<Rightarrow> payment \<Rightarrow> ingest_db \<Rightarrow> ingest_outcome \<times> ingest_db" where
  "ingest_parsed u c p db =
     (let e = ic_env c; key = idempotency_key (ic_sha c) p (ic_day c)
      in case match_employee u (ic_best c) e (pp_mobile p) (pp_name p) (gd_emps db) of
           Inl _ \<Rightarrow> (Ingest_raised, db)
         | Inr (emp, ratio, mt) \<Rightarrow>
             if raises e 2 then (Ingest_raised, db)
             else case find (\<lambda>r. sp_key r = key) (gd_staging db) of
               Some r \<Rightarrow> (Duplicate_of (sp_id r), db)
             | None \<Rightarrow>
                 if raises e 3 then (Ingest_raised, db)
                 else let row = staging_row c (gd_next db) p emp ratio mt;
                          db1 = db\<lparr>gd_staging := gd_staging db @ [row], gd_next := gd_next db + 1\<rparr>
                      in if sp_status row = ''auto_approved''
                         then let (fin, db2) = bridge_to_finalize e (ic_fin_env c) (ic_day c) (sp_id row) (the emp) p db1
                              in (Staged (sp_id row) (sp_status row) (Some fin), db2)
                         else (Staged (sp_id row) (sp_status row) None, db1))"

definition ingest_payment_sms :: "unicode \<Rightarrow> ingest_call \<Rightarrow> ustring \<Rightarrow> ingest_db \<Rightarrow> ingest_outcome \<times> ingest_db" where
  "ingest_payment_sms u c txt db =
     (case parse_payment_sms u txt of None \<Rightarrow> (Unparsed, db) | Some p \<Rightarrow> ingest_parsed u c p db)"

definition ingest_admin_cash_entry :: "unicode \<Rightarrow> ingest_call \<Rightarrow> ustring \<Rightarrow> ingest_db \<Rightarrow> ingest_outcome \<times> ingest_db" where
  "ingest_admin_cash_entry u c txt db =
     (case parse_admin_cash_shorthand u txt of
        None \<Rightarrow> (Unparsed, db)
      | Some p \<Rightarrow> ingest_parsed u (c\<lparr>ic_message := None, ic_auto := True\<rparr>) p db)"

subsection \<open>What one call changes\<close>

definition row_core :: "staging \<Rightarrow> int \<times> string \<times> string \<times> rat \<times> int option" where
  \<comment> \<open>the columns that are never updated\<close>
  "row_core r = (sp_id r, sp_key r, sp_status r, sp_amount r, sp_employee r)"

definition draft_ids_ok :: "pay_db \<Rightarrow> bool" where
  "draft_ids_ok db \<longleftrightarrow> (\<forall>d\<in>set (pb_drafts db). df_id d < pb_next_draft db)"

lemma ingest_cases:
  obtains (same) "snd (ingest_parsed u c p db) = db"
      "fst (ingest_parsed u c p db) = Ingest_raised \<or> (\<exists>i. fst (ingest_parsed u c p db) = Duplicate_of i)"
  | (staged) emp ratio mt row db1 where
      "match_employee u (ic_best c) (ic_env c) (pp_mobile p) (pp_name p) (gd_emps db) = Inr (emp, ratio, mt)"
      "idempotency_key (ic_sha c) p (ic_day c) \<notin> sp_key ` set (gd_staging db)"
      "row = staging_row c (gd_next db) p emp ratio mt"
      "db1 = db\<lparr>gd_staging := gd_staging db @ [row], gd_next := gd_next db + 1\<rparr>"
      "snd (ingest_parsed u c p db) =
        (if sp_status row = ''auto_approved''
         then snd (bridge_to_finalize (ic_env c) (ic_fin_env c) (ic_day c) (sp_id row) (the emp) p db1) else db1)"
      "\<exists>fin. fst (ingest_parsed u c p db) = Staged (sp_id row) (sp_status row) fin"
proof (cases "match_employee u (ic_best c) (ic_env c) (pp_mobile p) (pp_name p) (gd_emps db)")
  case (Inl x)
  then show ?thesis using same by (simp add: ingest_parsed_def)
next
  case (Inr y)
  obtain emp ratio mt where y: "y = (emp, ratio, mt)" by (cases y)
  let ?key = "idempotency_key (ic_sha c) p (ic_day c)"
  let ?row = "staging_row c (gd_next db) p emp ratio mt"
  show ?thesis
  proof (cases "raises (ic_env c) 2 \<or> find (\<lambda>r. sp_key r = ?key) (gd_staging db) \<noteq> None \<or> raises (ic_env c) 3")
    case True
    then show ?thesis using same by (auto simp: ingest_parsed_def Inr y Let_def split: option.splits)
  next
    case False
    then have new: "?key \<notin> sp_key ` set (gd_staging db)" by (force simp: find_None_iff)
    show ?thesis
      by (rule staged [OF _ new refl refl]) (use False Inr y in \<open>auto simp: ingest_parsed_def Let_def case_prod_beta\<close>)
  qed
qed

lemma update_draft_cash [simp]: "pb_cash (update_draft i f db) = pb_cash db"
  by (simp add: update_draft_def)

lemma auto_draft_cash [simp]: "pb_cash (snd (auto_draft e emp p db)) = pb_cash db"
  by (simp add: auto_draft_def new_draft_def)

lemma auto_draft_found:
  assumes "draft_ids_ok db"
  shows "\<exists>d. find_draft (fst (auto_draft e emp p db)) (snd (auto_draft e emp p db)) = Some d
    \<and> df_employee d = Some emp \<and> pd_type d = T_auto_payment \<and> df_status d = D_pending \<and> pd_method d = Some (pp_method p)"
proof -
  have "find (\<lambda>d. df_id d = pb_next_draft db) (pb_drafts db) = None"
    using assms by (auto simp: draft_ids_ok_def find_None_iff)
  then have "find_draft (pb_next_draft db) (snd (new_draft e T_auto_payment (Some emp) None None (pp_amount p) ''payment_ingest'' db))
      = Some (last (pb_drafts (snd (new_draft e T_auto_payment (Some emp) None None (pp_amount p) ''payment_ingest'' db))))"
    by (simp add: find_draft_def new_draft_def find_append)
  then show ?thesis by (simp add: auto_draft_def case_prod_beta find_draft_update new_draft_def)
qed

lemma finalize_cash:
  "pb_cash (snd (finalize_payment e day i a m db)) = pb_cash db
   \<or> (\<exists>d t. find_draft i db = Some d \<and> pb_cash (snd (finalize_payment e day i a m db)) = pb_cash db @ [t]
        \<and> ct_employee t = df_employee d \<and> ct_type t = txn_type d \<and> ct_amount t = a \<and> ct_method t = Some m \<and> ct_date t = day)"
  by (auto simp: finalize_payment_def Let_def split: option.splits) (auto simp: add_cash_def)

lemma bridge_rows:
  "map row_core (gd_staging (snd (bridge_to_finalize e ef day sid emp p db))) = map row_core (gd_staging db)"
  "gd_next (snd (bridge_to_finalize e ef day sid emp p db)) = gd_next db"
  "gd_emps (snd (bridge_to_finalize e ef day sid emp p db)) = gd_emps db"
  by (auto simp: bridge_to_finalize_def Let_def case_prod_beta update_where_def row_core_def split: option.splits)

lemma bridge_cash:
  assumes "draft_ids_ok (gd_pay db)"
  shows "pb_cash (gd_pay (snd (bridge_to_finalize e ef day sid emp p db))) = pb_cash (gd_pay db)
   \<or> (\<exists>t. pb_cash (gd_pay (snd (bridge_to_finalize e ef day sid emp p db))) = pb_cash (gd_pay db) @ [t]
        \<and> ct_employee t = Some emp \<and> ct_type t = ''escort_payment'' \<and> ct_amount t = pp_amount p
        \<and> ct_method t = Some (pp_method p) \<and> ct_date t = day)"
proof -
  obtain d where d: "find_draft (fst (auto_draft e emp p (gd_pay db))) (snd (auto_draft e emp p (gd_pay db))) = Some d"
    "df_employee d = Some emp" "pd_type d = T_auto_payment"
    using auto_draft_found [OF assms] by blast
  then have ty: "txn_type d = ''escort_payment''" by (simp add: txn_type_def)
  have cash: "pb_cash (gd_pay (snd (bridge_to_finalize e ef day sid emp p db))) = pb_cash (gd_pay db)
    \<or> pb_cash (gd_pay (snd (bridge_to_finalize e ef day sid emp p db)))
      = pb_cash (snd (finalize_payment ef day (fst (auto_draft e emp p (gd_pay db))) (pp_amount p) (pp_method p) (snd (auto_draft e emp p (gd_pay db)))))"
    by (auto simp: bridge_to_finalize_def Let_def case_prod_beta split: option.splits)
  show ?thesis
    using cash finalize_cash [of ef day "fst (auto_draft e emp p (gd_pay db))" "pp_amount p" "pp_method p" "snd (auto_draft e emp p (gd_pay db))"] d ty
    by auto
qed

text \<open>C13: what the automatic payment may do. Whatever the message said and whichever
  statements fail, one ingest adds at most one cash transaction; it adds one only when the employee
  was found by an exact number or by a name with a ratio of at least 0.92 and the amount lies between
  100 and 50000, and the transaction is then for that employee, that amount and that method, and of
  the type \<open>escort_payment\<close>.\<close>
theorem auto_payment_bounds:
  assumes "draft_ids_ok (gd_pay db)"
  shows "pb_cash (gd_pay (snd (ingest_parsed u c p db))) = pb_cash (gd_pay db)
    \<or> (\<exists>emp ratio mt t. match_employee u (ic_best c) (ic_env c) (pp_mobile p) (pp_name p) (gd_emps db) = Inr (Some emp, ratio, mt)
        \<and> (is_exact mt \<or> 92 / 100 \<le> ratio) \<and> 100 \<le> pp_amount p \<and> pp_amount p \<le> 50000 \<and> ic_auto c
        \<and> pb_cash (gd_pay (snd (ingest_parsed u c p db))) = pb_cash (gd_pay db) @ [t]
        \<and> ct_employee t = Some emp \<and> ct_type t = ''escort_payment'' \<and> ct_amount t = pp_amount p
        \<and> ct_method t = Some (pp_method p) \<and> ct_date t = ic_day c)"
proof (cases rule: ingest_cases [of u c p db])
  case same
  then show ?thesis by simp
next
  case (staged emp ratio mt row db1)
  show ?thesis
  proof (cases "sp_status row = ''auto_approved''")
    case False
    then show ?thesis by (simp add: staged(4,5))
  next
    case True
    then have hc: "ic_auto c" "high_confidence emp ratio mt p"
      by (auto simp: staged(3) staging_row_def initial_status_def split: if_splits)
    then obtain i where i: "emp = Some i" by (auto simp: high_confidence_def)
    have ok: "draft_ids_ok (gd_pay db1)" using assms by (simp add: staged(4))
    have "pb_cash (gd_pay db1) = pb_cash (gd_pay db)" by (simp add: staged(4))
    then show ?thesis
      using bridge_cash [OF ok, of "ic_env c" "ic_fin_env c" "ic_day c" "sp_id row" i p] hc
      by (auto simp: staged(1,5) True i high_confidence_def AUTO_APPROVE_NAME_RATIO_def AUTO_APPROVE_MIN_AMOUNT_def
          AUTO_APPROVE_MAX_AMOUNT_def)
  qed
qed

subsection \<open>One staging row and at most one payment per key\<close>

definition ingest_step :: "unicode \<Rightarrow> ingest_db \<Rightarrow> ingest_db \<Rightarrow> bool" where
  "ingest_step u db db' \<longleftrightarrow> (\<exists>c p. db' = snd (ingest_parsed u c p db))"

definition auto_rows :: "ingest_db \<Rightarrow> nat" where
  "auto_rows db = count_where (\<lambda>r. sp_status r = ''auto_approved'') (gd_staging db)"

definition staging_ok :: "nat \<Rightarrow> ingest_db \<Rightarrow> bool" where
  \<comment> \<open>\<open>n\<close> transactions were there before the first message\<close>
  "staging_ok n db \<longleftrightarrow>
     distinct (map sp_key (gd_staging db)) \<and> (\<forall>r\<in>set (gd_staging db). sp_id r < gd_next db) \<and> distinct (map sp_id (gd_staging db))
     \<and> (\<forall>r\<in>set (gd_staging db). sp_status r = ''auto_approved'' \<longrightarrow> sp_employee r \<noteq> None \<and> 100 \<le> sp_amount r \<and> sp_amount r \<le> 50000)
     \<and> length (pb_cash (gd_pay db)) \<le> n + auto_rows db"

definition core_ok :: "(int \<times> string \<times> string \<times> rat \<times> int option) list \<Rightarrow> int \<Rightarrow> bool" where
  "core_ok rs i \<longleftrightarrow>
     distinct (map (fst \<circ> snd) rs) \<and> (\<forall>r\<in>set rs. fst r < i) \<and> distinct (map fst rs)
     \<and> (\<forall>(j, k, st, a, emp)\<in>set rs. st = ''auto_approved'' \<longrightarrow> emp \<noteq> None \<and> 100 \<le> a \<and> a \<le> 50000)"

lemma staging_ok_core:
  "staging_ok n db \<longleftrightarrow> core_ok (map row_core (gd_staging db)) (gd_next db)
     \<and> length (pb_cash (gd_pay db)) \<le> n + count_where (\<lambda>(j, k, st, a, emp). st = ''auto_approved'') (map row_core (gd_staging db))"
  by (auto simp: staging_ok_def core_ok_def row_core_def comp_def auto_rows_def count_where_def filter_map)

lemma bridge_length:
  "length (pb_cash (gd_pay (snd (bridge_to_finalize e ef day sid emp p db)))) \<le> Suc (length (pb_cash (gd_pay db)))"
proof -
  have "length (pb_cash (snd (finalize_payment ef day i a m d))) \<le> Suc (length (pb_cash d))" for i a m d
    using finalize_cash [of ef day i a m d] by auto
  from this [of "fst (auto_draft e emp p (gd_pay db))" "pp_amount p" "pp_method p" "snd (auto_draft e emp p (gd_pay db))"]
  show ?thesis by (simp add: bridge_to_finalize_def Let_def case_prod_beta split: option.splits)
qed

lemma ingest_step_ok: "ingest_step u db db' \<Longrightarrow> staging_ok n db \<Longrightarrow> staging_ok n db'"
proof -
  assume "ingest_step u db db'" and ok: "staging_ok n db"
  then obtain c p where db': "db' = snd (ingest_parsed u c p db)" by (auto simp: ingest_step_def)
  show ?thesis
  proof (cases rule: ingest_cases [of u c p db])
    case same
    then show ?thesis using ok by (simp add: db')
  next
    case (staged emp ratio mt row db1)
    have key: "sp_key row = idempotency_key (ic_sha c) p (ic_day c)" "sp_id row = gd_next db" "sp_amount row = pp_amount p"
      "sp_employee row = emp" "sp_status row = initial_status (ic_auto c) emp ratio mt p"
      by (simp_all add: staged(3) staging_row_def)
    have auto: "emp \<noteq> None \<and> 100 \<le> pp_amount p \<and> pp_amount p \<le> 50000" if "sp_status row = ''auto_approved''"
      using that by (auto simp: key(5) initial_status_def high_confidence_def AUTO_APPROVE_MIN_AMOUNT_def
          AUTO_APPROVE_MAX_AMOUNT_def split: if_splits)
    have "core_ok (map row_core (gd_staging db1)) (gd_next db1)"
      using ok staged(2) auto
      by (auto simp: staged(4) staging_ok_core core_ok_def row_core_def key comp_def image_iff dest: less_imp_neq)
    moreover have "length (pb_cash (gd_pay db')) \<le> n + count_where (\<lambda>(j, k, st, a, emp). st = ''auto_approved'') (map row_core (gd_staging db1))"
      using ok bridge_length [of "ic_env c" "ic_fin_env c" "ic_day c" "sp_id row" "the emp" p db1]
      by (auto simp: db' staged(4,5) staging_ok_core count_where_def row_core_def)
    ultimately show ?thesis
      by (simp add: staging_ok_core db' staged(5) bridge_rows split: if_splits)
  qed
qed

definition ingest_start :: "nat \<Rightarrow> ingest_db \<Rightarrow> bool" where
  "ingest_start n db \<longleftrightarrow> gd_staging db = [] \<and> length (pb_cash (gd_pay db)) = n"

interpretation ingest_system: invariant_system "ingest_start n" "ingest_step u" "staging_ok n"
  by unfold_locales (simp add: ingest_start_def staging_ok_def auto_rows_def count_where_def, rule ingest_step_ok)

lemma keys_grow:
  assumes "(ingest_step u)\<^sup>*\<^sup>* db db'"
  shows "sp_key ` set (gd_staging db) \<subseteq> sp_key ` set (gd_staging db')"
  using assms
proof (induction rule: rtranclp_induct)
  case (step x y)
  then obtain c p where y: "y = snd (ingest_parsed u c p x)" by (auto simp: ingest_step_def)
  have k: "sp_key ` set l = (fst \<circ> snd) ` set (map row_core l)" for l by (auto simp: row_core_def image_image comp_def)
  have "sp_key ` set (gd_staging x) \<subseteq> sp_key ` set (gd_staging y)"
  proof (cases rule: ingest_cases [of u c p x])
    case same
    then show ?thesis by (simp add: y)
  next
    case (staged emp ratio mt row db1)
    have "map row_core (gd_staging y) = map row_core (gd_staging x) @ [row_core row]"
      by (simp add: y staged(4,5) bridge_rows)
    then show ?thesis by (auto simp: k)
  qed
  then show ?case using step.IH by blast
qed simp

text \<open>C14: a payment is ingested once a day. Once a message was staged, every later
  message of the same day that reads to the same method, transaction id, amount and mobile number is
  answered as a duplicate (or fails at a statement) and changes nothing, whatever was ingested in
  between, whatever name it carries and however the first payment ended.\<close>
theorem payment_ingested_once:
  assumes first: "fst (ingest_parsed u c p db) = Staged i st fin"
    and later: "(ingest_step u)\<^sup>*\<^sup>* (snd (ingest_parsed u c p db)) db2"
    and same: "ic_sha c' = ic_sha c" "ic_day c' = ic_day c" "pp_method p' = pp_method p" "pp_trxid p' = pp_trxid p"
      "pp_amount p' = pp_amount p" "pp_mobile p' = pp_mobile p"
  shows "snd (ingest_parsed u c' p' db2) = db2
    \<and> (fst (ingest_parsed u c' p' db2) = Ingest_raised \<or> (\<exists>j. fst (ingest_parsed u c' p' db2) = Duplicate_of j))"
proof -
  let ?k = "idempotency_key (ic_sha c) p (ic_day c)"
  have "?k \<in> sp_key ` set (gd_staging (snd (ingest_parsed u c p db)))"
  proof (cases rule: ingest_cases [of u c p db])
    case same
    then show ?thesis using first by auto
  next
    case (staged emp ratio mt row db1)
    have "map row_core (gd_staging (snd (ingest_parsed u c p db))) = map row_core (gd_staging db) @ [row_core row]"
      by (simp add: staged(4,5) bridge_rows)
    then have "row_core row \<in> row_core ` set (gd_staging (snd (ingest_parsed u c p db)))"
      by (metis in_set_conv_decomp list.set_map)
    moreover have "sp_key row = ?k" by (simp add: staged(3) staging_row_def)
    ultimately show ?thesis by (force simp: row_core_def)
  qed
  then have old: "?k \<in> sp_key ` set (gd_staging db2)" using keys_grow [OF later] by blast
  have k': "idempotency_key (ic_sha c') p' (ic_day c') = ?k"
    by (simp add: idempotency_key_def raw_key_def same)
  show ?thesis
  proof (cases rule: ingest_cases [of u c' p' db2])
    case same
    then show ?thesis by blast
  next
    case (staged emp ratio mt row db1)
    then show ?thesis using old k' by simp
  qed
qed

text \<open>C15: the books of the ingest stay in order. In every database that ingests lead to,
  whatever fails on the way, no two staging rows have the same key, a row is marked as approved
  automatically only with an employee and an amount from 100 to 50000, and the cash transactions added
  are at most as many as the rows so marked.\<close>
theorem ingest_books_ok:
  assumes "reach (ingest_start n) (ingest_step u) db"
  shows "distinct (map sp_key (gd_staging db)) \<and> length (pb_cash (gd_pay db)) \<le> n + auto_rows db
    \<and> (\<forall>r\<in>set (gd_staging db). sp_status r = ''auto_approved'' \<longrightarrow> sp_employee r \<noteq> None \<and> 100 \<le> sp_amount r \<and> sp_amount r \<le> 50000)"
  using ingest_system.reach_inv [OF assms] by (simp add: staging_ok_def)

text \<open>A payment whose booking fails is attributed to an older one. \<open>finalize_payment\<close> reports its
  errors instead of raising them, and the row is then linked to the latest transaction of that employee,
  amount and method: here one that was there before. Nothing was paid, and the next message is a duplicate.\<close>
theorem failed_booking_links_old:
  assumes emp: "find (\<lambda>r. pe_id r = i) (gd_emps db) \<noteq> None"
    and up: "\<not> raises e 4" "\<not> raises e 5" "\<not> raises e 6" "\<not> raises e 7" and down: "raises ef 0"
    and old: "latest_txn i (pp_amount p) (pp_method p) (gd_pay db) = Some t"
    and row: "r \<in> set (gd_staging db)" "sp_id r = sid"
  shows "pb_cash (gd_pay (snd (bridge_to_finalize e ef day sid i p db))) = pb_cash (gd_pay db)
    \<and> r\<lparr>sp_txn := Some t, sp_approved_by := Some ''auto-ingest''\<rparr> \<in> set (gd_staging (snd (bridge_to_finalize e ef day sid i p db)))"
proof -
  let ?d = "auto_draft e i p (gd_pay db)"
  have same: "snd (finalize_payment ef day (fst ?d) (pp_amount p) (pp_method p) (snd ?d)) = snd ?d"
    using down by (simp add: finalize_payment_def)
  have "latest_txn i (pp_amount p) (pp_method p) (snd ?d) = Some t" using old by (simp add: latest_txn_def)
  then show ?thesis
    using emp up row by (auto simp: bridge_to_finalize_def Let_def case_prod_beta same set_update_where)
qed


subsection \<open>The shorthand is read back\<close>

definition shorthand :: "ustring \<Rightarrow> ustring \<Rightarrow> nat \<Rightarrow> nat \<Rightarrow> ustring" where
  \<comment> \<open>name, number, letter of the method and amount as the accountant writes them: \<open>Karim 01712345678(N) 305/-\<close>\<close>
  "shorthand name phone l n = name @ [32] @ phone @ [40, l, 41, 32] @ ucp n @ cp ''/-''"

definition mobile_number :: "ustring \<Rightarrow> bool" where
  "mobile_number ph \<longleftrightarrow> length ph = 11 \<and> list_all ascii_digit ph \<and> ph ! 0 = 48 \<and> ph ! 1 = 49 \<and> 51 \<le> ph ! 2"

definition plain_name :: "ustring \<Rightarrow> bool" where
  \<comment> \<open>two to sixty characters, no digit or plus sign, no white space, comma or semicolon at the ends\<close>
  "plain_name s \<longleftrightarrow> 2 \<le> length s \<and> length s \<le> 60 \<and> list_all (\<lambda>c. \<not> ascii_digit c \<and> c \<noteq> 43) s
     \<and> \<not> uni_space (hd s) \<and> \<not> uni_space (last s) \<and> hd s \<notin> {44, 59} \<and> last s \<notin> {44, 59}"

lemma seq_Cons: "rs \<noteq> [] \<Longrightarrow> seq (r # rs) = Cat r (seq rs)"
  by (cases rs) simp_all

lemma no_shorthand_start:
  assumes "\<not> ascii_digit c" "c \<noteq> 43"
  shows "outs (SHORTHAND_RE u) \<lparr>behind = b, ahead = c # s, caps = []\<rparr> = []"
proof -
  have "c \<noteq> 56" "c \<noteq> 48" "c \<noteq> 49" using assms by (auto simp: ascii_digit_def)
  then show ?thesis using assms(2)
    by (simp add: SHORTHAND_RE_def shorthand_phone_def lit_def cp_def outs_run run_of_def)
qed

lemma mobile_split:
  assumes "mobile_number ph"
  obtains c w where "ph = 48 # 49 # c # w" "51 \<le> c" "c \<le> 57" "length w = 8" "list_all ascii_digit w"
proof -
  have "length ph = 11" using assms by (simp add: mobile_number_def)
  then obtain a b c w where ph: "ph = a # b # c # w" "length w = 8"
    by (cases ph; cases "tl ph"; cases "tl (tl ph)") auto
  then show ?thesis using assms that [of c w] by (auto simp: mobile_number_def ascii_digit_def nth_Cons')
qed

lemma first_shorthand_phone:
  assumes u: "unicode_ok u" and ph: "mobile_number ph"
  shows "first (shorthand_phone u) \<lparr>behind = b, ahead = ph @ 40 # s, caps = []\<rparr>
    = Some \<lparr>behind = rev ph @ b, ahead = 40 # s, caps = []\<rparr>"
proof -
  obtain c w where p: "ph = 48 # 49 # c # w" "51 \<le> c" "c \<le> 57" "length w = 8" "list_all ascii_digit w"
    using mobile_split [OF ph] by blast
  let ?p = "\<lparr>behind = b, ahead = ph @ 40 # s, caps = []\<rparr>"
  let ?A = "seq [opt (Chr (\<lambda>c. c = 43)), lit ''880'', opt (Chr (\<lambda>c. uni_space c \<or> c = 45)),
               Chr (uni_digit u), between 8 12 (Chr (\<lambda>c. uni_digit u c \<or> uni_space c \<or> c = 45))]"
  have "outs ?A ?p = []"
    by (simp add: lit_def cp_def outs_run run_of_def p(1))
  moreover have "first (seq [opt (Chr (\<lambda>c. c = 48)), Chr (\<lambda>c. c = 49), Chr (\<lambda>c. 51 \<le> c \<and> c \<le> 57), times 8 (Chr (uni_digit u))]) ?p
      = Some (advance 8 (advance 1 (advance 1 (advance 1 ?p))))"
  proof (simp only: seq.simps, rule first_Cat [OF _ first_Cat [OF _ first_Cat]])
    show "first (opt (Chr (\<lambda>c. c = 48))) ?p = Some (advance 1 ?p)"
      by (simp add: first_run run_of_def p(1) del: outs.simps)
    show "first (Chr (\<lambda>c. c = 49)) (advance 1 ?p) = Some (advance 1 (advance 1 ?p))"
      by (simp add: first_Chr p(1))
    show "first (Chr (\<lambda>c. 51 \<le> c \<and> c \<le> 57)) (advance 1 (advance 1 ?p)) = Some (advance 1 (advance 1 (advance 1 ?p)))"
      using p(2,3) by (simp add: first_Chr p(1))
    have "list_all (uni_digit u) w" using p(5) u by (auto simp: list_all_iff intro: uni_digit_ascii)
    moreover have "\<not> uni_digit u 40" using uni_digit_other [OF u, of 40] by (simp add: ascii_digit_def)
    ultimately have "run_of (uni_digit u) (advance 1 (advance 1 (advance 1 ?p))) = 8"
      using run_of_app [of "uni_digit u" w _ "40 # s"] p(1,4) by simp
    then show "first (times 8 (Chr (uni_digit u))) (advance 1 (advance 1 (advance 1 ?p)))
        = Some (advance 8 (advance 1 (advance 1 (advance 1 ?p))))"
      by (simp add: first_run)
  qed
  ultimately have "first (shorthand_phone u) ?p = Some (advance 8 (advance 1 (advance 1 (advance 1 ?p))))"
    unfolding shorthand_phone_def by (simp only: first_Alt_skip)
  then show ?thesis by (simp add: advance_def p(1,4))
qed

lemma shorthand_match:
  assumes u: "unicode_ok u" and ph: "mobile_number ph" and l: "l \<in> {78, 110, 66, 98, 67, 99, 82, 114}"
  shows "first (SHORTHAND_RE u) (at_place b (ph @ 40 # l # 41 # 32 # ucp n @ [47, 45]) [])
    = Some (at_place (45 # 47 # rev (ucp n) @ 32 # 41 # l # 40 # rev ph @ b) [] [(3, ucp n), (2, [l]), (1, ph)])"
proof -
  let ?X = "ucp n @ [47, 45]"
  have head: "hd ?X = hd (ucp n)" by simp
  have dig: "ascii_digit (hd (ucp n))" using ucp_ascii [of n] by (simp add: list_all_iff)
  have s1: "first (Grp 1 (shorthand_phone u)) (at_place b (ph @ 40 # l # 41 # 32 # ?X) [])
      = Some (at_place (rev ph @ b) (40 # l # 41 # 32 # ?X) [(1, ph)])"
    by (rule read_group [OF first_shorthand_phone [OF u ph]])
  have s5: "first (Grp 2 (Chr (\<lambda>c. ascii_lower c \<in> {110, 98, 99, 114}))) (at_place b' ([l] @ 41 # 32 # ?X) cs)
      = Some (at_place (rev [l] @ b') (41 # 32 # ?X) ((2, [l]) # cs))" for b' cs
    by (rule read_group) (use l in \<open>auto simp: ascii_lower_def intro: read_char\<close>)
  have s8: "first (star (Chr (\<lambda>c. uni_space c \<or> c = 44))) (at_place b' ([32] @ ?X) cs) = Some (at_place (rev [32] @ b') ?X cs)" for b' cs
    by (rule read_run) (use dig in \<open>auto simp: uni_space_def ascii_digit_def\<close>)
  have digits: "list_all (\<lambda>c. uni_digit u c \<or> c = 44) (ucp n)"
    using ucp_ascii [of n] u by (auto simp: list_all_iff intro: uni_digit_ascii)
  have slash: "\<not> uni_digit u 47" using uni_digit_other [OF u, of 47] by (simp add: ascii_digit_def)
  have s9: "first (Grp 3 (plus1 (Chr (\<lambda>c. uni_digit u c \<or> c = 44)))) (at_place b' (ucp n @ [47, 45]) cs)
      = Some (at_place (rev (ucp n) @ b') [47, 45] ((3, ucp n) # cs))" for b' cs
    by (rule read_group, rule read_run [OF digits]) (use slash in \<open>auto simp: Suc_le_eq\<close>)
  have s11: "first (lit ''/-'') (at_place b' [47, 45] cs) = Some (at_place (45 # 47 # b') [] cs)" for b' cs
    by (simp add: lit_def cp_def first_def place_step_def)
  have ws: "first (star ws) (at_place b' s cs) = Some (at_place b' s cs)" if "s \<noteq> []" "\<not> uni_space (hd s)" for b' s cs
    using that by (simp add: ws_def read_none del: outs.simps)
  have sp: "\<not> uni_space 40" "\<not> uni_space 41" "\<not> uni_space 47" "\<not> uni_space l" using l by (auto simp: uni_space_def)
  show ?thesis
    unfolding SHORTHAND_RE_def seq.simps
  proof (rule first_Cat [OF s1], rule first_Cat [OF ws], simp, simp add: sp, rule first_Cat [OF read_char], simp)
    show "first (Cat (star ws) (Cat (Grp 2 (Chr (\<lambda>c. ascii_lower c \<in> {110, 98, 99, 114}))) (Cat (star ws) (Cat (Chr (\<lambda>c. c = 41))
        (Cat (star (Chr (\<lambda>c. uni_space c \<or> c = 44))) (Cat (Grp 3 (plus1 (Chr (\<lambda>c. uni_digit u c \<or> c = 44)))) (Cat (star ws) (lit ''/-''))))))))
      (at_place (40 # rev ph @ b) (l # 41 # 32 # ?X) [(1, ph)])
      = Some (at_place (45 # 47 # rev (ucp n) @ 32 # 41 # l # 40 # rev ph @ b) [] [(3, ucp n), (2, [l]), (1, ph)])"
      by (rule first_Cat [OF ws], simp, simp add: sp, rule first_Cat [OF s5 [simplified append_Cons append_Nil]],
          rule first_Cat [OF ws], simp, simp add: sp, rule first_Cat [OF read_char], simp,
          rule first_Cat [OF s8 [simplified append_Cons append_Nil]], rule first_Cat [OF s9], rule first_Cat [OF ws], simp,
          simp add: sp, simp add: s11 del: outs.simps)
  qed
qed

lemma strip_trailing: "s \<noteq> [] \<Longrightarrow> \<not> uni_space (hd s) \<Longrightarrow> \<not> uni_space (last s) \<Longrightarrow> uni_strip (s @ [32]) = s"
proof -
  assume s: "s \<noteq> []" "\<not> uni_space (hd s)" "\<not> uni_space (last s)"
  then have "dropWhile uni_space (s @ [32]) = s @ [32]" "dropWhile uni_space (rev s) = rev s"
    by (auto simp: dropWhile_eq_self_iff hd_rev)
  moreover have "uni_space 32" by (simp add: uni_space_def)
  ultimately show ?thesis by (simp add: uni_strip_def)
qed

lemma strip_set_id: "s = [] \<or> hd s \<notin> C \<and> last s \<notin> C \<Longrightarrow> strip_set C s = s"
proof -
  assume "s = [] \<or> hd s \<notin> C \<and> last s \<notin> C"
  then have "dropWhile (\<lambda>c. c \<in> C) s = s" "dropWhile (\<lambda>c. c \<in> C) (rev s) = rev s"
    by (auto simp: dropWhile_eq_self_iff hd_rev)
  then show ?thesis by (simp add: strip_set_def)
qed

text \<open>C32: the shorthand is read back. From a line \<open>name number(letter) amount/-\<close> with a
  name without digits, a Bangladesh mobile number, one of the letters N, B, C, R in either case and a
  positive whole amount, exactly that name, number and amount are read, with the method of the letter.\<close>
theorem shorthand_roundtrip:
  assumes u: "unicode_ok u" and name: "plain_name name" and ph: "mobile_number ph"
    and l: "l \<in> {78, 110, 66, 98, 67, 99, 82, 114}" and n: "0 < n"
  shows "parse_admin_cash_shorthand u (shorthand name ph l n) =
    Some \<lparr>pp_amount = of_nat n, pp_mobile = Some ph, pp_name = Some name,
      pp_method = the (map_of SHORTHAND_METHOD [ascii_lower l]), pp_trxid = None\<rparr>"
proof -
  let ?s = "ph @ 40 # l # 41 # 32 # ucp n @ [47, 45]"
  let ?caps = "[(3, ucp n), (2, [l]), (1, ph)]"
  let ?m = "\<lparr>m_before = name @ [32], m_text = ?s, m_after = [], m_groups = ?caps\<rparr>"
  have line: "shorthand name ph l n = (name @ [32]) @ ?s" by (simp add: shorthand_def cp_def)
  have "outs (SHORTHAND_RE u) (at_place b (c # s) []) = []" if "c \<in> set (name @ [32])" for b s c
    using that name by (intro no_shorthand_start) (auto simp: plain_name_def list_all_iff ascii_digit_def)
  from search_from_skip [of "name @ [32]", OF this]
  have "search (SHORTHAND_RE u) (shorthand name ph l n) = search_from (SHORTHAND_RE u) (32 # rev name) ?s"
    by (simp add: search_def line)
  also have "\<dots> = Some ?m"
    by (rule search_from_here) (simp add: try_at_first shorthand_match [OF u ph l] match_of_def)
  finally have found: "search (SHORTHAND_RE u) (shorthand name ph l n) = Some ?m" .
  have "filter (uni_digit u) ph = ph" using ph u by (auto simp: mobile_number_def list_all_iff filter_id_conv intro: uni_digit_ascii)
  then have mob: "norm_mobile u (Some ph) = Some ph" using ph by (auto simp: norm_mobile_def Let_def py_suffix_def mobile_number_def)
  have "filter (\<lambda>c. c \<noteq> 44) (ucp n) = ucp n" using ucp_ascii [of n] by (auto simp: list_all_iff filter_id_conv ascii_digit_def)
  then have amt: "read_amount u (ucp n) = Some (of_nat n)" using n by (simp add: read_amount_def py_float_ucp [OF u])
  have nm: "strip_set {44, 59} (uni_strip (name @ [32])) = name"
    using name strip_trailing [of name] strip_set_id [of name "{44, 59}"] by (cases "name = []") (auto simp: plain_name_def)
  have "l < 128" using l by auto
  then have low: "uni_lower u [l] = [ascii_lower l]" using u by (simp add: uni_lower_def unicode_ok_def)
  have "map_of SHORTHAND_METHOD [ascii_lower l] \<noteq> None" using l by (auto simp: SHORTHAND_METHOD_def ascii_lower_def cp_def)
  then obtain x where x: "map_of SHORTHAND_METHOD [ascii_lower l] = Some x" by blast
  have "2 \<le> length name \<and> length name \<le> 60" using name by (simp add: plain_name_def)
  then show ?thesis
    by (simp add: parse_admin_cash_shorthand_def found m_group_def mob amt nm low x Let_def)
qed

theorem shorthand_roundtrip_witness:
  "parse_admin_cash_shorthand plain_unicode (shorthand (cp ''Saiful op'') (cp ''01849258074'') 78 305) =
    Some \<lparr>pp_amount = 305, pp_mobile = Some (cp ''01849258074''), pp_name = Some (cp ''Saiful op''), pp_method = ''nagad'', pp_trxid = None\<rparr>"
proof -
  have "plain_name (cp ''Saiful op'')" "mobile_number (cp ''01849258074'')"
    by (simp_all add: plain_name_def mobile_number_def cp_def ascii_digit_def uni_space_def)
  from shorthand_roundtrip [OF unicode_ok_plain this, of 78 305] show ?thesis
    by (simp add: SHORTHAND_METHOD_def ascii_lower_def cp_def)
qed

subsection \<open>What a parsed payment looks like\<close>

lemma first_some_mem: "first_some f xs = Some y \<Longrightarrow> \<exists>x\<in>set xs. f x = Some y"
  by (induction xs) (auto split: option.splits)

lemma norm_mobile_digits: "norm_mobile u v = Some d \<Longrightarrow> unicode_ok u \<Longrightarrow> list_all (uni_digit u) d \<and> d \<noteq> [] \<and> length d \<le> 11"
proof -
  assume d: "norm_mobile u v = Some d" and u: "unicode_ok u"
  have z: "uni_digit u 48" by (rule uni_digit_ascii [OF u]) (simp add: ascii_digit_def)
  obtain s where s: "v = Some s" "filter (uni_digit u) s \<noteq> []" using d by (auto simp: norm_mobile_def Let_def split: option.splits if_splits)
  let ?d = "filter (uni_digit u) s"
  define e where "e = (if length ?d \<ge> 11 then py_suffix 11 ?d else ?d)"
  have "set e \<subseteq> set ?d" using set_drop_subset [of "length ?d - 11" ?d] by (simp add: e_def py_suffix_def)
  moreover have "e \<noteq> []" "length e \<le> 11" using s(2) by (auto simp: e_def py_suffix_def)
  moreover have "d = (if starts [49] e \<and> length e = 10 then 48 # e else e)"
    using d s unfolding norm_mobile_def Let_def e_def by simp
  ultimately show ?thesis using z by (auto simp: list_all_iff)
qed

lemma sort_groups_mobile:
  "sort_groups u gs mob nm = (Some m, nm') \<Longrightarrow> mob = Some m \<or> (\<exists>g. norm_mobile u (Some g) = Some m \<and> 9 \<le> length (filter (uni_digit u) g))"
  by (induction u gs mob nm rule: sort_groups.induct) (auto split: if_splits)

text \<open>what is read from a message is a payment. Whenever a text is read as a payment,
  by any of the patterns, the amount is positive, the mobile number consists of at most eleven digits
  and at least nine of them were in the text, and the method is one of the four.\<close>
theorem parsed_payment_sound:
  assumes u: "unicode_ok u" and p: "parse_payment_sms u txt = Some p"
  shows "0 < pp_amount p \<and> (\<exists>m. pp_mobile p = Some m \<and> list_all (uni_digit u) m \<and> 9 \<le> length m \<and> length m \<le> 11)
    \<and> pp_method p \<in> {''bkash'', ''nagad'', ''rocket'', ''cash''} \<and> 6 \<le> length txt"
proof -
  obtain trx pat where "6 \<le> length txt" and pat: "try_pattern u txt (detect_method u txt) trx pat = Some p"
    using p by (auto simp: parse_payment_sms_def Let_def dest!: first_some_mem split: if_splits)
  obtain m amt mob nm where m: "search pat txt = Some m" "read_amount u (the (m_group 1 m)) = Some amt"
      "sort_groups u [m_group 2 m, m_group 3 m] None None = (Some mob, nm)"
      and f: "pp_amount p = amt" "pp_mobile p = Some mob" "pp_method p = detect_method u txt"
    using pat by (auto simp: try_pattern_def split: option.splits prod.splits)
  have "0 < amt" using m(2) by (auto simp: read_amount_def split: option.splits if_splits)
  moreover obtain g where g: "norm_mobile u (Some g) = Some mob" "9 \<le> length (filter (uni_digit u) g)"
    using sort_groups_mobile [OF m(3)] by auto
  moreover have "9 \<le> length mob" using g by (auto simp: norm_mobile_def Let_def py_suffix_def split: if_splits)
  moreover have "detect_method u txt \<in> {''bkash'', ''nagad'', ''rocket'', ''cash''}" by (simp add: detect_method_def Let_def)
  ultimately show ?thesis using norm_mobile_digits [OF g(1) u] f \<open>6 \<le> length txt\<close> by auto
qed


subsection \<open>Examples\<close>

definition sample_call :: ingest_call where
  "sample_call = \<lparr>ic_best = (\<lambda>_ _. None), ic_sha = map char_of, ic_env = env_at 5, ic_fin_env = env_at 6,
     ic_day = Date 2026 5 1, ic_sender = None, ic_message = None, ic_auto = True\<rparr>"

definition sample_sms :: ustring where
  "sample_sms = cp ''bKash: received Tk 1,500.50 from 01712345678 TrxID AB12CD''"

definition sample_payment :: payment where
  "sample_payment = \<lparr>pp_amount = 3001 / 2, pp_mobile = Some (cp ''01712345678''), pp_name = None, pp_method = ''bkash'',
     pp_trxid = Some (cp ''AB12CD'')\<rparr>"

definition sample_ingest :: ingest_db where
  "sample_ingest = \<lparr>gd_emps = [\<lparr>pe_id = 4, pe_name = None, pe_mobile = Some (cp ''+880 1712-345678''), pe_bkash = None, pe_nagad = None\<rparr>],
     gd_staging = [], gd_next = 1,
     gd_pay = \<lparr>pb_staff = [], pb_programs = [], pb_drafts = [], pb_next_draft = 1, pb_cash = [], pb_next_cash = 1\<rparr>\<rparr>"

lemma sample_parsed: "parse_payment_sms plain_unicode sample_sms = Some sample_payment"
  by code_simp

theorem parsed_payment_sound_witness:
  "parse_payment_sms plain_unicode sample_sms = Some sample_payment \<and> 0 < pp_amount sample_payment"
  using parsed_payment_sound [OF unicode_ok_plain sample_parsed] sample_parsed by blast

definition after_sample :: ingest_db where
  "after_sample = snd (ingest_parsed plain_unicode sample_call sample_payment sample_ingest)"

lemma sample_outcome:
  "fst (ingest_parsed plain_unicode sample_call sample_payment sample_ingest) = Staged 1 ''auto_approved'' (Some (Inr (1, Some 1)))"
  "map ct_amount (pb_cash (gd_pay after_sample)) = [3001 / 2]" "auto_rows after_sample = 1"
  by code_simp+

theorem auto_payment_bounds_witness:
  "draft_ids_ok (gd_pay sample_ingest) \<and> length (pb_cash (gd_pay after_sample)) = 1
    \<and> (\<exists>t. pb_cash (gd_pay after_sample) = [t] \<and> ct_employee t = Some 4 \<and> ct_amount t = 3001 / 2)"
proof -
  have ok: "draft_ids_ok (gd_pay sample_ingest)" by (simp add: draft_ids_ok_def sample_ingest_def)
  have len: "length (pb_cash (gd_pay after_sample)) = 1" by code_simp
  have m: "match_employee plain_unicode (ic_best sample_call) (ic_env sample_call) (pp_mobile sample_payment) (pp_name sample_payment)
      (gd_emps sample_ingest) = Inr (Some 4, 1, M_mobile_exact)" by code_simp
  have "pb_cash (gd_pay sample_ingest) = []" "pp_amount sample_payment = 3001 / 2" by (simp_all add: sample_ingest_def sample_payment_def)
  with len auto_payment_bounds [OF ok, of plain_unicode sample_call sample_payment]
  show ?thesis using ok by (auto simp: m simp flip: after_sample_def)
qed

lemma sample_reach: "reach (ingest_start 0) (ingest_step plain_unicode) after_sample"
proof (rule reach_step [OF reach_start])
  show "ingest_start 0 sample_ingest" by (simp add: ingest_start_def sample_ingest_def)
  show "ingest_step plain_unicode sample_ingest after_sample" unfolding ingest_step_def after_sample_def by blast
qed

theorem ingest_books_ok_witness:
  "distinct (map sp_key (gd_staging after_sample)) \<and> length (pb_cash (gd_pay after_sample)) \<le> 1
    \<and> length (gd_staging after_sample) = 1"
proof -
  have "length (gd_staging after_sample) = 1" by code_simp
  then show ?thesis using ingest_books_ok [OF sample_reach] sample_outcome(3) by simp
qed

theorem payment_ingested_once_witness:
  "ingest_parsed plain_unicode sample_call sample_payment after_sample = (Duplicate_of 1, after_sample)"
proof -
  have "snd (ingest_parsed plain_unicode sample_call sample_payment after_sample) = after_sample"
    using payment_ingested_once [OF sample_outcome(1) rtranclp.rtrancl_refl refl refl refl refl refl refl]
    by (simp flip: after_sample_def)
  moreover have "fst (ingest_parsed plain_unicode sample_call sample_payment after_sample) = Duplicate_of 1"
    by code_simp
  ultimately show ?thesis by (metis prod.collapse)
qed

end
