(* ===== verification/FPE_Parser.thy ===== *)
theory FPE_Parser
  imports Py_Regex Calendar
begin

text \<open>
  The parser of the payroll engine, \<open>modules/fazle_payroll_engine/parser.py\<close>, with
  \<open>normalize_amount\<close> of \<open>normalizer.py\<close>: commands of the cashier, balance summaries, lists of escort
  payments and payments in free text, over the regular expressions of \<open>Py_Regex\<close>. Amounts are exact
  numbers: the code goes through a float and its shortest decimal text, which agree on amounts of up to
  fifteen digits. The text a result carries along is not kept.
\<close>

subsection \<open>Patterns\<close>

definition bengali :: "nat \<Rightarrow> bool" where
  \<comment> \<open>\<open>[\u0980-\u09FF]\<close>\<close>
  "bengali c \<longleftrightarrow> 2432 \<le> c \<and> c \<le> 2559"

definition name_letter :: "nat \<Rightarrow> bool" where
  "name_letter c \<longleftrightarrow> ascii_letter c \<or> bengali c"

definition one_of :: "nat list \<Rightarrow> re" where
  "one_of cs = Chr (\<lambda>c. c \<in> set cs)"

abbreviation spaces :: re where "spaces \<equiv> star (Chr uni_space)"

definition looking_at :: "re \<Rightarrow> re" where
  \<comment> \<open>\<open>(?=...)\<close>\<close>
  "looking_at r = Test (\<lambda>b s. outs r \<lparr>behind = b, ahead = s, caps = []\<rparr> \<noteq> [])"

definition RE_PHONE :: re where
  "RE_PHONE = seq [opt (seq [opt (one_of [43]), lit ''880'']), lit ''0'', Chr (\<lambda>c. 49 \<le> c \<and> c \<le> 57), times 9 (Chr ascii_digit)]"

definition RE_ID_PREFIX :: "unicode \<Rightarrow> re" where
  "RE_ID_PREFIX u =
     seq [line_start, one_of [73, 105], one_of [68, 100], spaces, one_of [58, 65306], spaces,
          Grp 1 (seq [opt (one_of [43]), between 0 2 (one_of [56]), lit ''01'', plus1 (Chr (uni_digit u))])]"

definition RE_METHOD :: re where
  "RE_METHOD =
     seq [one_of [40], spaces,
          Grp 1 (alts [one_of (cp ''BbNnCcRr''), seq [one_of (cp ''Bb''), one_of (cp ''Kk'')], Cat (one_of (cp ''Cc'')) (lit ''ash''),
                       Cat (one_of (cp ''Nn'')) (lit ''agad''), seq [one_of (cp ''Bb''), one_of (cp ''Kk''), lit ''ash''],
                       Cat (one_of (cp ''Rr'')) (lit ''ocket'')]),
          spaces, one_of [41]]"

definition amount_start :: "unicode \<Rightarrow> nat \<Rightarrow> bool" where
  "amount_start u c \<longleftrightarrow> bengali_digit c \<or> uni_digit u c"

definition slash_dash :: re where
  \<comment> \<open>a slash and a hyphen or a dash\<close>
  "slash_dash = seq [one_of [47], one_of [45, 8211]]"

definition RE_AMOUNT :: "unicode \<Rightarrow> re" where
  "RE_AMOUNT u =
     seq [star (Chr (\<lambda>c. c = 61 \<or> uni_space c)),
          Grp 1 (Cat (Chr (amount_start u)) (star (Chr (\<lambda>c. amount_start u c \<or> c = 44 \<or> c = 46)))), spaces, slash_dash]"

definition RE_BAL_DATE :: "unicode \<Rightarrow> re" where
  "RE_BAL_DATE u =
     (let d = Chr (uni_digit u)
      in seq [Grp 1 (between 1 2 d), one_of [47], Grp 2 (between 1 2 d), one_of [47], Grp 3 (between 2 4 d)])"

definition labelled_amount :: "unicode \<Rightarrow> ustring \<Rightarrow> re" where
  "labelled_amount u label =
     seq [seq (map (\<lambda>c. one_of [c]) label), spaces, plus1 (Chr (\<lambda>c. c = 61 \<or> c = 58 \<or> uni_space c)),
          Grp 1 (Cat (Chr (amount_start u)) (star (Chr (\<lambda>c. amount_start u c \<or> c = 44)))), spaces, slash_dash]"

definition RE_BAL_DUE :: "unicode \<Rightarrow> re" where "RE_BAL_DUE u = labelled_amount u [2476, 2494, 2453, 2495]"
definition RE_BAL_COLL :: "unicode \<Rightarrow> re" where "RE_BAL_COLL u = labelled_amount u [2460, 2478, 2494]"

definition RE_NAME_BEFORE_PHONE :: re where
  "RE_NAME_BEFORE_PHONE =
     seq [text_start,
          Grp 1 (Cat (Chr name_letter) (Rep False 1 (Some 50) (Chr (\<lambda>c. name_letter c \<or> uni_space c \<or> c = 46 \<or> c = 45)))),
          looking_at (seq [spaces, opt (one_of [45, 8211]), spaces,
            Alt (seq [opt (one_of [43]), between 0 2 (one_of [56]), lit ''01'']) (one_of [40])])]"

definition RE_CASH_CMD :: re where
  "RE_CASH_CMD = seq [line_start, one_of (cp ''Cc''), lit ''ash'', plus1 (Chr uni_space)]"

definition RE_INCOME_CMD :: re where
  "RE_INCOME_CMD = seq [line_start, one_of (cp ''Ii''), lit ''ncome'', plus1 (Chr uni_space)]"

definition RE_CMD_AMOUNT :: re where
  "RE_CMD_AMOUNT =
     seq [opt (seq [one_of [45, 61, 43], spaces]),
          Grp 1 (Cat (Chr ascii_digit) (Rep False 0 None (Chr (\<lambda>c. ascii_digit c \<or> c = 44 \<or> c = 46)))),
          spaces, between 0 2 (one_of [45, 47]), spaces, text_end]"

definition RE_ESCORT_LINE :: "unicode \<Rightarrow> re" where
  "RE_ESCORT_LINE u =
     seq [line_start, Grp 1 (Cat (Chr name_letter) (Rep False 0 (Some 40) (Chr (\<lambda>c. c \<noteq> 61 \<and> c \<noteq> 10)))),
          spaces, one_of [61], spaces, Grp 2 (Cat (Chr (uni_digit u)) (star (Chr (\<lambda>c. uni_digit u c \<or> c = 44)))), spaces, one_of [47]]"

definition total_word :: re where
  \<comment> \<open>\<open>(?i)tota[l]{1,2}\<close>\<close>
  "total_word = Cat (lit_ci ''tota'') (between 1 2 (Chr (any_case 108)))"

definition RE_ESCORT_TOTAL :: re where
  "RE_ESCORT_TOTAL = seq [line_start, spaces, total_word, spaces, one_of [61]]"

definition RE_SHIFT_WORD :: "unicode \<Rightarrow> re" where
  "RE_SHIFT_WORD u =
     seq [boundary u, Grp 1 (Alt (lit_ci ''night'') (lit_ci ''day'')), plus1 (Chr uni_space),
          lit_ci ''shif'', Chr (\<lambda>c. any_case 116 c \<or> any_case 121 c), boundary u]"

definition RE_SHIFT_PAREN :: re where
  "RE_SHIFT_PAREN = seq [one_of [40], spaces, Grp 1 (one_of (cp ''DNdn'')), spaces, one_of [41]]"

definition RE_ESCORT_DATE :: "unicode \<Rightarrow> re" where
  "RE_ESCORT_DATE u =
     (let d = Chr (uni_digit u)
      in seq [Grp 1 (between 1 2 d), one_of [46, 47], Grp 2 (between 1 2 d), one_of [46, 47], Grp 3 (between 2 4 d)])"

definition ID_PHONE_ANY :: "unicode \<Rightarrow> re" where
  \<comment> \<open>\<open>\+?8{0,2}01\d{9}\<close>\<close>
  "ID_PHONE_ANY u = seq [opt (one_of [43]), between 0 2 (one_of [56]), lit ''01'', times 9 (Chr (uni_digit u))]"

definition RESIDUAL_ID :: re where
  \<comment> \<open>\<open>^[Ii][Dd]\s*[::]\s*\S+\s*\<close>\<close>
  "RESIDUAL_ID =
     seq [text_start, one_of [73, 105], one_of [68, 100], spaces, one_of [58, 65306], spaces,
          plus1 (Chr (\<lambda>c. \<not> uni_space c)), spaces]"

subsection \<open>Results\<close>

record parsed_payment =
  px_id_phone :: "ustring option"
  px_name :: "ustring option"
  px_phone :: "ustring option"
  px_method :: string
  px_amount :: rat
  px_date :: "date option"
  px_conf :: rat

datatype parsed =
    P_other
  | P_payment parsed_payment
  | P_cash_command parsed_payment
  | P_income_command parsed_payment
  | P_balance "date option" "rat option" "rat option"
  | P_escort "(ustring \<times> rat) list" "string option" "date option" rat

subsection \<open>Numbers and lines\<close>

definition normalize_amount :: "unicode \<Rightarrow> ustring \<Rightarrow> rat option" where
  "normalize_amount u raw =
     (if raw = [] then None else py_float u (uni_strip (filter (\<lambda>c. c \<noteq> 44) (map BENGALI_DIGITS raw))))"

definition bd_phone :: "unicode \<Rightarrow> ustring \<Rightarrow> ustring option" where
  "bd_phone u s = normalize_bd_phone (uni_digit u) (Some s)"

definition whole :: "unicode \<Rightarrow> ustring option \<Rightarrow> int" where
  \<comment> \<open>\<open>int(m.group(i))\<close>\<close>
  "whole u s = int (digits_value u (the s))"

fun uni_split :: "ustring \<Rightarrow> ustring \<Rightarrow> ustring list" where
  \<comment> \<open>\<open>s.split()\<close>; the second text is the word read so far, reversed\<close>
  "uni_split [] acc = (if acc = [] then [] else [rev acc])"
| "uni_split (c # s) acc =
     (if uni_space c then (if acc = [] then uni_split s [] else rev acc # uni_split s []) else uni_split s (c # acc))"

definition line_break :: "nat \<Rightarrow> bool" where
  "line_break c \<longleftrightarrow> 10 \<le> c \<and> c \<le> 13 \<or> 28 \<le> c \<and> c \<le> 30 \<or> c = 133 \<or> c = 8232 \<or> c = 8233"

function split_lines :: "ustring \<Rightarrow> ustring \<Rightarrow> ustring list" where
  \<comment> \<open>\<open>s.splitlines()\<close>\<close>
  "split_lines [] acc = (if acc = [] then [] else [rev acc])"
| "split_lines (c # s) acc =
     (if line_break c then rev acc # split_lines (if c = 13 \<and> s \<noteq> [] \<and> hd s = 10 then tl s else s) []
      else split_lines s (c # acc))"
  by pat_completeness auto
termination by (relation "measure (length \<circ> fst)") auto

definition rstrip_set :: "nat set \<Rightarrow> ustring \<Rightarrow> ustring" where
  "rstrip_set C s = rev (dropWhile (\<lambda>c. c \<in> C) (rev s))"

fun replace_first :: "ustring \<Rightarrow> ustring \<Rightarrow> ustring" where
  \<comment> \<open>\<open>line.replace(old, "", 1)\<close> for a text that is not empty\<close>
  "replace_first old [] = []"
| "replace_first old (c # s) = (if starts old (c # s) then drop (length old) (c # s) else c # replace_first old s)"

definition valid_human_name :: "unicode \<Rightarrow> (nat \<Rightarrow> bool) \<Rightarrow> ustring \<Rightarrow> bool" where
  \<comment> \<open>the second argument is \<open>str.isdigit\<close> on one character\<close>
  "valid_human_name u isd name \<longleftrightarrow>
     (let s = uni_strip name; t = filter (\<lambda>c. \<not> (uni_space c \<or> c \<in> {45, 43, 40, 41, 46})) s
      in name \<noteq> [] \<and> 2 \<le> length s
         \<and> uni_lower u s \<notin> {cp ''unknown'', cp ''unnamed'', cp ''none'', cp ''n/a'', cp ''na''}
         \<and> \<not> (t \<noteq> [] \<and> list_all isd t) \<and> list_ex name_letter s)"

definition payout_table :: "(ustring \<times> string) list" where
  "payout_table =
     [(cp ''b'', ''bkash''), (cp ''bkash'', ''bkash''), (cp ''n'', ''nagad''), (cp ''nagad'', ''nagad''), (cp ''c'', ''cash''),
      (cp ''cash'', ''cash''), (cp ''r'', ''rocket''), (cp ''rocket'', ''rocket''), (cp ''bk'', ''bkash'')]"

definition payout_method_of :: "ustring \<Rightarrow> string" where
  \<comment> \<open>\<open>normalize_payout_method\<close> on the ASCII letters the pattern lets through\<close>
  "payout_method_of raw =
     (case map_of payout_table (map ascii_lower (uni_strip raw)) of Some m \<Rightarrow> m | None \<Rightarrow> ''unknown'')"

subsection \<open>Commands of the cashier\<close>

definition first_line :: "ustring \<Rightarrow> ustring" where
  "first_line txt = (case find (\<lambda>l. uni_strip l \<noteq> []) (split_lines txt []) of Some l \<Rightarrow> uni_strip l | None \<Rightarrow> txt)"

definition join_words :: "ustring list \<Rightarrow> ustring" where
  "join_words ws = concat (case ws of [] \<Rightarrow> [] | w # r \<Rightarrow> w # map (\<lambda>v. 32 # v) r)"

definition parse_command :: "unicode \<Rightarrow> (nat \<Rightarrow> bool) \<Rightarrow> (parsed_payment \<Rightarrow> parsed) \<Rightarrow> ustring \<Rightarrow> date option \<Rightarrow> parsed" where
  \<comment> \<open>\<open>_parse_cash_or_income_command\<close>\<close>
  "parse_command u isd mk txt day =
     (let tokens = uni_split (first_line txt) []
      in if length tokens < 3 then P_other
         else case bd_phone u (tokens ! 1) of
           None \<Rightarrow> P_other
         | Some phone \<Rightarrow>
             (case search RE_CMD_AMOUNT (last tokens) of
                None \<Rightarrow> P_other
              | Some m \<Rightarrow>
                  (case normalize_amount u (the (m_group 1 m)) of
                     None \<Rightarrow> P_other
                   | Some amount \<Rightarrow>
                       if amount \<le> 0 then P_other
                       else let names = butlast (drop 2 tokens);
                                name = (if names = [] then None else Some (uni_strip (join_words names)))
                            in mk \<lparr>px_id_phone = Some phone,
                                   px_name = (case name of None \<Rightarrow> None
                                      | Some n \<Rightarrow> if n \<noteq> [] \<and> \<not> valid_human_name u isd n then None else name),
                                   px_phone = Some phone, px_method = ''cash'', px_amount = amount, px_date = day, px_conf = 1\<rparr>)))"

subsection \<open>Balance summaries\<close>

definition is_balance_summary :: "unicode \<Rightarrow> ustring \<Rightarrow> bool" where
  "is_balance_summary u txt \<longleftrightarrow>
     (has_infix [2463, 2507, 2463, 2494, 2482] txt \<or> has_infix [2476, 2494, 2453, 2495] txt \<or> has_infix [2460, 2478, 2494] txt)
     \<and> search (RE_AMOUNT u) txt \<noteq> None"

definition found_amount :: "unicode \<Rightarrow> re \<Rightarrow> ustring \<Rightarrow> rat option" where
  "found_amount u r txt =
     (case search r txt of None \<Rightarrow> None | Some m \<Rightarrow> normalize_amount u (map BENGALI_DIGITS (the (m_group 1 m))))"

definition parse_balance :: "unicode \<Rightarrow> ustring \<Rightarrow> parsed" where
  "parse_balance u txt =
     (let day = (case search (RE_BAL_DATE u) txt of
                   None \<Rightarrow> None
                 | Some m \<Rightarrow> let y = whole u (m_group 3 m)
                            in mk_date (if y < 100 then y + 2000 else y) (whole u (m_group 2 m)) (whole u (m_group 1 m)))
      in P_balance day (found_amount u (RE_BAL_DUE u) txt) (found_amount u (RE_BAL_COLL u) txt))"

subsection \<open>Lists of escort payments\<close>

definition escort_lines :: "unicode \<Rightarrow> ustring \<Rightarrow> (ustring \<times> ustring) list" where
  "escort_lines u txt = map (\<lambda>m. (the (m_group 1 m), the (m_group 2 m))) (findall (RE_ESCORT_LINE u) txt)"

definition is_escort_payment :: "unicode \<Rightarrow> ustring \<Rightarrow> bool" where
  "is_escort_payment u txt \<longleftrightarrow>
     2 \<le> length (filter (\<lambda>(n, a). match_here RE_ESCORT_TOTAL (n @ [61]) = None) (escort_lines u txt))"

fun escort_entries :: "unicode \<Rightarrow> (ustring \<times> ustring) list \<Rightarrow> (ustring \<times> rat) list" where
  "escort_entries u [] = []"
| "escort_entries u ((n, a) # r) =
     (let name = strip_set {44} (uni_strip n)
      in if match_here total_word name \<noteq> None then escort_entries u r
         else case normalize_amount u a of
           None \<Rightarrow> escort_entries u r
         | Some v \<Rightarrow> if v \<le> 0 then escort_entries u r else (name, v) # escort_entries u r)"

definition escort_shift :: "unicode \<Rightarrow> ustring \<Rightarrow> string option" where
  "escort_shift u txt =
     (case search (RE_SHIFT_WORD u) txt of
        Some m \<Rightarrow> Some (if map ascii_lower (the (m_group 1 m)) = cp ''day'' then ''D'' else ''N'')
      | None \<Rightarrow>
          (case search RE_SHIFT_PAREN txt of
             None \<Rightarrow> None
           | Some m \<Rightarrow> Some (if map ascii_lower (the (m_group 1 m)) = cp ''d'' then ''D'' else ''N'')))"

definition escort_date :: "unicode \<Rightarrow> ustring \<Rightarrow> date option \<Rightarrow> date option" where
  "escort_date u txt day =
     (case search (RE_ESCORT_DATE u) txt of
        None \<Rightarrow> day
      | Some m \<Rightarrow>
          (let y = whole u (m_group 3 m); year = (if length (the (m_group 3 m)) = 4 then y else 2000 + y)
           in case mk_date year (whole u (m_group 2 m)) (whole u (m_group 1 m)) of Some d \<Rightarrow> Some d | None \<Rightarrow> day))"

definition parse_escort :: "unicode \<Rightarrow> ustring \<Rightarrow> date option \<Rightarrow> parsed" where
  "parse_escort u txt day =
     (let entries = escort_entries u (escort_lines u txt)
      in if entries = [] then P_other
         else P_escort entries (escort_shift u txt) (escort_date u txt day) (sum_list (map snd entries)))"

subsection \<open>Payments in free text\<close>

definition line_name :: "unicode \<Rightarrow> (nat \<Rightarrow> bool) \<Rightarrow> ustring \<Rightarrow> ustring option" where
  \<comment> \<open>the name a line gives, by the pattern or as what stands before the number\<close>
  "line_name u isd line0 =
     (let line = uni_strip line0
      in if length line < 3 then None
         else let by_pattern = (case match_here RE_NAME_BEFORE_PHONE line of
                                  None \<Rightarrow> None
                                | Some m \<Rightarrow> (let n = rstrip_set {45, 8211, 32} (uni_strip (the (m_group 1 m)))
                                            in if valid_human_name u isd n then Some n else None))
              in case by_pattern of
                   Some n \<Rightarrow> Some n
                 | None \<Rightarrow>
                     (case search (ID_PHONE_ANY u) line of
                        None \<Rightarrow> None
                      | Some m \<Rightarrow>
                          (let c = uni_strip (sub_all RESIDUAL_ID [] (rstrip_set {45, 8211, 32} (uni_strip (m_before m))))
                           in if valid_human_name u isd c then Some c else None)))"

fun first_name :: "(ustring \<Rightarrow> ustring option) \<Rightarrow> ustring list \<Rightarrow> ustring option" where
  "first_name f [] = None"
| "first_name f (l # ls) = (case f l of Some n \<Rightarrow> Some n | None \<Rightarrow> first_name f ls)"

definition extract_name :: "unicode \<Rightarrow> (nat \<Rightarrow> bool) \<Rightarrow> ustring \<Rightarrow> match option \<Rightarrow> ustring option" where
  "extract_name u isd txt id_match =
     (let ls = split_lines (uni_strip txt) [];
          strip_id = (\<lambda>l. case id_match of None \<Rightarrow> l
                       | Some m \<Rightarrow> if m_text m \<noteq> [] \<and> has_infix (m_text m) l then replace_first (m_text m) l else l)
      in first_name (line_name u isd) (map strip_id ls))"

definition text_phones :: "unicode \<Rightarrow> ustring \<Rightarrow> ustring list" where
  \<comment> \<open>\<open>resolved_phones\<close>, from the text with the noise between digits removed\<close>
  "text_phones u t_ascii =
     (let t = sub_all (seq [Test (\<lambda>b s. b \<noteq> [] \<and> uni_digit u (hd b)), Chr (\<lambda>c. uni_space c \<or> c = 45),
                            Test (\<lambda>b s. s \<noteq> [] \<and> uni_digit u (hd s))]) [] t_ascii
      in map the (filter (\<lambda>p. p \<noteq> None) (map (\<lambda>m. bd_phone u (m_text m)) (findall RE_PHONE t))))"

definition confidence_of :: "bool \<Rightarrow> bool \<Rightarrow> bool \<Rightarrow> bool \<Rightarrow> rat" where
  \<comment> \<open>from: a number was found, a method pattern was found, the method is known, a name was found\<close>
  "confidence_of phone tag known name =
     (let c1 = (if phone then 75 / 100 else 60 / 100);
          c2 = (if tag then max c1 (if phone then 90 / 100 else 75 / 100) else c1)
      in if \<not> name then c2
         else if phone \<and> known then 1 else if phone then max c2 (85 / 100) else max c2 (75 / 100))"

definition payment_fields :: "unicode \<Rightarrow> (nat \<Rightarrow> bool) \<Rightarrow> ustring \<Rightarrow> date option \<Rightarrow> rat \<Rightarrow> parsed_payment" where
  "payment_fields u isd txt day amount =
     (let idm = search (RE_ID_PREFIX u) txt;
          id1 = (case idm of None \<Rightarrow> None | Some m \<Rightarrow> bd_phone u (the (m_group 1 m)));
          phones = text_phones u (map BENGALI_DIGITS txt);
          phone = (if phones = [] then None else Some (last phones));
          tag = search RE_METHOD txt;
          meth = (case tag of None \<Rightarrow> ''unknown'' | Some m \<Rightarrow> payout_method_of (the (m_group 1 m)));
          name = extract_name u isd txt idm
      in \<lparr>px_id_phone = (if id1 = None then phone else id1), px_name = name, px_phone = phone, px_method = meth,
          px_amount = amount, px_date = day,
          px_conf = confidence_of (phone \<noteq> None) (tag \<noteq> None) (meth \<noteq> ''unknown'') (name \<noteq> None)\<rparr>)"

definition parse_payment :: "unicode \<Rightarrow> (nat \<Rightarrow> bool) \<Rightarrow> ustring \<Rightarrow> date option \<Rightarrow> parsed" where
  "parse_payment u isd txt day =
     (case search (RE_AMOUNT u) (map BENGALI_DIGITS txt) of
        None \<Rightarrow> P_other
      | Some m \<Rightarrow>
          (case normalize_amount u (the (m_group 1 m)) of
             None \<Rightarrow> P_other
           | Some amount \<Rightarrow> if amount \<le> 0 then P_other else P_payment (payment_fields u isd txt day amount)))"

subsection \<open>A message\<close>

definition parse_message :: "unicode \<Rightarrow> (nat \<Rightarrow> bool) \<Rightarrow> ustring option \<Rightarrow> date option \<Rightarrow> parsed" where
  "parse_message u isd txt day =
     (case txt of
        None \<Rightarrow> P_other
      | Some s \<Rightarrow>
          (let t = uni_strip s
           in if t = [] then P_other
              else if match_here RE_CASH_CMD t \<noteq> None then parse_command u isd P_cash_command t day
              else if match_here RE_INCOME_CMD t \<noteq> None then parse_command u isd P_income_command t day
              else if is_balance_summary u t then parse_balance u t
              else if is_escort_payment u t then parse_escort u t day
              else parse_payment u isd t day))"

subsection \<open>What a parsed payment looks like\<close>

definition bd_number :: "unicode \<Rightarrow> ustring \<Rightarrow> bool" where
  "bd_number u p \<longleftrightarrow> length p = 11 \<and> starts [48, 49] p \<and> list_all (uni_digit u) p"

lemma strip_country_subset: "set (strip_country d) \<subseteq> set d"
  using set_drop_subset [of 3 d] set_drop_subset [of 2 d] by (simp add: strip_country_def)

lemma bd_phone_number: "unicode_ok u \<Longrightarrow> bd_phone u s = Some p \<Longrightarrow> bd_number u p"
proof -
  assume u: "unicode_ok u" and p: "bd_phone u s = Some p"
  let ?d = "phone_digits (uni_digit u) s"
  have f: "p = add_zero (strip_country ?d)" "length p = 11" "starts [48, 49] p"
    using p by (auto simp: bd_phone_def normalize_bd_phone_def Let_def split: if_splits)
  have "uni_digit u 48" by (rule uni_digit_ascii [OF u]) (simp add: ascii_digit_def)
  moreover have "list_all (uni_digit u) (strip_country ?d)"
    using strip_country_subset [of ?d] by (auto simp: list_all_iff phone_digits_def)
  ultimately show ?thesis using f by (auto simp: bd_number_def add_zero_def)
qed

lemma text_phones_number: "unicode_ok u \<Longrightarrow> p \<in> set (text_phones u t) \<Longrightarrow> bd_number u p"
  by (auto simp: text_phones_def Let_def dest!: bd_phone_number)

lemma line_name_valid: "line_name u isd l = Some n \<Longrightarrow> valid_human_name u isd n"
  by (auto simp: line_name_def Let_def split: option.splits if_splits)

lemma first_name_from: "first_name f ls = Some n \<Longrightarrow> \<exists>l. f l = Some n"
  by (induction ls) (auto split: option.splits)

lemma extract_name_valid: "extract_name u isd t m = Some n \<Longrightarrow> valid_human_name u isd n"
  by (auto simp: extract_name_def Let_def dest!: first_name_from line_name_valid)

definition payout_names :: "string list" where
  "payout_names = [''bkash'', ''nagad'', ''cash'', ''rocket'', ''unknown'']"

lemma payout_names: "''unknown'' \<in> set payout_names"
  by (simp add: payout_names_def)

lemma payout_method_known: "payout_method_of s \<in> set payout_names"
proof (cases "map_of payout_table (map ascii_lower (uni_strip s))")
  case (Some m)
  then have "m \<in> snd ` set payout_table" by (force dest: map_of_SomeD)
  also have "snd ` set payout_table \<subseteq> set payout_names" by (simp add: payout_table_def payout_names_def)
  finally show ?thesis by (simp add: payout_method_of_def Some)
qed (simp add: payout_method_of_def payout_names)

lemma parse_payment_fields:
  "parse_payment u isd t day = P_payment p \<Longrightarrow> \<exists>a. 0 < a \<and> p = payment_fields u isd t day a
     \<and> (\<exists>m. search (RE_AMOUNT u) (map BENGALI_DIGITS t) = Some m \<and> normalize_amount u (the (m_group 1 m)) = Some a)"
  by (auto simp: parse_payment_def not_le split: option.splits if_splits)

lemma payment_fields_phone:
  "px_phone (payment_fields u isd t day a) = Some q \<Longrightarrow> q \<in> set (text_phones u (map BENGALI_DIGITS t))"
  by (simp add: payment_fields_def Let_def split: if_splits) (metis last_in_set)

lemma payment_fields_id:
  "px_id_phone (payment_fields u isd t day a) = Some q \<Longrightarrow>
     px_phone (payment_fields u isd t day a) = Some q \<or> (\<exists>s. bd_phone u s = Some q)"
  by (simp add: payment_fields_def Let_def split: if_splits option.splits) blast+

lemma payment_fields_rest:
  "px_phone (payment_fields u isd t day a) \<noteq> None \<Longrightarrow> px_id_phone (payment_fields u isd t day a) \<noteq> None"
  "px_name (payment_fields u isd t day a) = Some n \<Longrightarrow> valid_human_name u isd n"
  "px_method (payment_fields u isd t day a) \<in> set payout_names"
  "px_amount (payment_fields u isd t day a) = a" "px_date (payment_fields u isd t day a) = day"
  using payout_method_known payout_names by (auto simp: payment_fields_def Let_def extract_name_valid split: option.split)

definition prefixed_number :: "unicode \<Rightarrow> ustring \<Rightarrow> ustring option" where
  \<comment> \<open>the number an \<open>ID:\<close> prefix of the text gives\<close>
  "prefixed_number u t = (case search (RE_ID_PREFIX u) t of None \<Rightarrow> None | Some m \<Rightarrow> bd_phone u (the (m_group 1 m)))"

definition confidence_table :: "bool \<Rightarrow> bool \<Rightarrow> bool \<Rightarrow> bool \<Rightarrow> rat" where
  \<comment> \<open>the table the baselines and maxima amount to; the arguments are those of \<open>confidence_of\<close>\<close>
  "confidence_table phone tag known name =
     (if phone then (if known \<and> name then 1 else if tag then 90 / 100 else if name then 85 / 100 else 75 / 100)
      else if tag \<or> name then 75 / 100 else 60 / 100)"

lemma confidence_of_table: "(known \<longrightarrow> tag) \<Longrightarrow> confidence_of ph tag known nm = confidence_table ph tag known nm"
  by (cases ph; cases tag; cases known; cases nm; simp add: confidence_of_def confidence_table_def Let_def max_def)

lemma payment_fields_exact:
  assumes p: "p = payment_fields u isd t day a"
  shows "px_id_phone p = (if prefixed_number u t = None then px_phone p else prefixed_number u t)"
    "px_phone p = (let qs = text_phones u (map BENGALI_DIGITS t) in if qs = [] then None else Some (last qs))"
    "px_method p \<noteq> ''unknown'' \<longrightarrow> search RE_METHOD t \<noteq> None"
    "px_conf p = confidence_of (px_phone p \<noteq> None) (search RE_METHOD t \<noteq> None) (px_method p \<noteq> ''unknown'') (px_name p \<noteq> None)"
  unfolding p by (simp_all add: payment_fields_def prefixed_number_def Let_def split: option.split)

text \<open>C17: what is parsed as a payment. Whatever the text, a result of type payment has a
  positive amount, the first one of the text; its numbers have the normal form of a Bangladesh number; the number
  to pay to is the last one of the text, and the identity is the number of an ID prefix, or else the number to
  pay to; a name passes the name check; the method is one of the five, known only when a method is written; and the
  confidence is exactly the table of what was found: 1 for a number, a known method and a name, and below the
  threshold of 0.7 for the language model exactly when there is no number, no method written and no name.\<close>
theorem parsed_fields_sound:
  assumes u: "unicode_ok u" and p: "parse_message u isd (Some s) day = P_payment p"
  shows "0 < px_amount p
    \<and> (\<exists>m. search (RE_AMOUNT u) (map BENGALI_DIGITS (uni_strip s)) = Some m \<and> normalize_amount u (the (m_group 1 m)) = Some (px_amount p))
    \<and> (\<forall>q. px_phone p = Some q \<or> px_id_phone p = Some q \<longrightarrow> bd_number u q)
    \<and> px_phone p = (let qs = text_phones u (map BENGALI_DIGITS (uni_strip s)) in if qs = [] then None else Some (last qs))
    \<and> px_id_phone p = (if prefixed_number u (uni_strip s) = None then px_phone p else prefixed_number u (uni_strip s))
    \<and> (\<forall>n. px_name p = Some n \<longrightarrow> valid_human_name u isd n)
    \<and> px_method p \<in> set payout_names \<and> (px_method p \<noteq> ''unknown'' \<longrightarrow> search RE_METHOD (uni_strip s) \<noteq> None) \<and> px_date p = day
    \<and> px_conf p = confidence_table (px_phone p \<noteq> None) (search RE_METHOD (uni_strip s) \<noteq> None)
         (px_method p \<noteq> ''unknown'') (px_name p \<noteq> None)
    \<and> (px_conf p = 1 \<longleftrightarrow> px_phone p \<noteq> None \<and> px_method p \<noteq> ''unknown'' \<and> px_name p \<noteq> None)
    \<and> (px_conf p < 70 / 100 \<longleftrightarrow> px_phone p = None \<and> search RE_METHOD (uni_strip s) = None \<and> px_name p = None)"
proof -
  have no: "parse_command u isd mk t d \<noteq> P_payment p" if "\<And>x. mk x \<noteq> P_payment p" for mk t d
    using that by (simp add: parse_command_def Let_def split: option.split)
  let ?t = "uni_strip s"
  have "parse_payment u isd ?t day = P_payment p"
    using p no [of P_cash_command] no [of P_income_command]
    by (auto simp: parse_message_def parse_balance_def parse_escort_def Let_def split: if_splits)
  then obtain a where a: "0 < a" "p = payment_fields u isd ?t day a"
    and am: "\<exists>m. search (RE_AMOUNT u) (map BENGALI_DIGITS ?t) = Some m \<and> normalize_amount u (the (m_group 1 m)) = Some a"
    using parse_payment_fields by blast
  note f = payment_fields_exact [OF a(2)]
  note t = confidence_of_table [OF f(3)]
  have ph: "bd_number u q" if "px_phone p = Some q" for q
    using payment_fields_phone that a(2) text_phones_number [OF u] by metis
  have id: "bd_number u q" if "px_id_phone p = Some q" for q
    using payment_fields_id [of u isd ?t day a q] that ph a(2) bd_phone_number [OF u] by auto
  have rest: "px_name p = Some n \<longrightarrow> valid_human_name u isd n" "px_method p \<in> set payout_names" "px_amount p = a" "px_date p = day" for n
    using payment_fields_rest [of u isd ?t day a] a(2) by auto
  show ?thesis
    unfolding f(4) t using ph id rest a(1) am f(1-3)
    by (intro conjI) (simp_all add: confidence_table_def)
qed

text \<open>C31: what is parsed as a list of escort payments. The list is not empty, every amount
  in it is positive, the total is the sum of the entries (the total line of the text is never an
  entry), and a shift is day or night.\<close>
theorem parsed_escort_sound:
  assumes p: "parse_message u isd msg day = P_escort es sh d tot"
  shows "es \<noteq> [] \<and> (\<forall>(n, a)\<in>set es. 0 < a \<and> match_here total_word n = None) \<and> tot = sum_list (map snd es)
    \<and> sh \<in> {None, Some ''D'', Some ''N''}"
proof -
  have no: "parse_command u isd mk t dd \<noteq> P_escort es sh d tot" if "\<And>x. mk x \<noteq> P_escort es sh d tot" for mk t dd
    using that by (simp add: parse_command_def Let_def split: option.split)
  have no2: "parse_payment u isd t dd \<noteq> P_escort es sh d tot" for t dd
    by (simp add: parse_payment_def Let_def split: option.split)
  obtain s where s: "parse_escort u (uni_strip s) day = P_escort es sh d tot"
    using p no [of P_cash_command] no [of P_income_command] no2
    by (auto simp: parse_message_def parse_balance_def Let_def split: if_splits option.splits)
  have e: "\<forall>(n, a)\<in>set (escort_entries u l). 0 < a \<and> match_here total_word n = None" for l
    by (induction u l rule: escort_entries.induct) (auto simp: Let_def split: option.splits)
  show ?thesis using s e by (auto simp: parse_escort_def Let_def escort_shift_def split: if_splits option.splits)
qed

subsection \<open>A command of the cashier is read back\<close>

lemma first_Cat_last:
  "outs r p = qs @ [q] \<Longrightarrow> (\<forall>x\<in>set qs. outs s x = []) \<Longrightarrow> first s q = Some t \<Longrightarrow> first (Cat r s) p = Some t"
proof -
  assume o: "outs r p = qs @ [q]" and no: "\<forall>x\<in>set qs. outs s x = []" and t: "first s q = Some t"
  have "concat (map (outs s) qs) = []" using no by simp
  then have "outs (Cat r s) p = outs s q" by (simp add: o)
  then show ?thesis using t by (simp only: first_def)
qed

definition cmd_tail :: re where
  "cmd_tail = seq [spaces, between 0 2 (one_of [45, 47]), spaces, text_end]"

lemma cmd_tail_digit: "ascii_digit c \<Longrightarrow> outs cmd_tail (at_place b (c # s) cs) = []"
proof -
  assume c: "ascii_digit c"
  have r: "run_of uni_space (at_place b (c # s) cs) = 0" "run_of (\<lambda>c. c \<in> set [45, 47]) (at_place b (c # s) cs) = 0"
    using c by (auto simp: run_of_def ascii_digit_def uni_space_def)
  have o: "outs spaces (at_place b (c # s) cs) = [at_place b (c # s) cs]"
    "outs (between 0 2 (one_of [45, 47])) (at_place b (c # s) cs) = [at_place b (c # s) cs]"
    unfolding one_of_def outs_run r by simp_all
  have "outs text_end (at_place b (c # s) cs) = []" using c by (auto simp: text_end_def ascii_digit_def)
  then show ?thesis unfolding cmd_tail_def seq.simps by (simp only: outs.simps(3) o list.map concat.simps append_Nil2)
qed

lemma cmd_tail_end: "first cmd_tail (at_place b [47, 45] cs) = Some (at_place (45 # 47 # b) [] cs)"
  unfolding cmd_tail_def seq.simps
proof (rule first_Cat [OF read_none], simp add: uni_space_def)
  have "run_of (\<lambda>c. c \<in> set [45, 47]) (at_place b [47, 45] cs) = 2" by (simp add: run_of_def)
  then have "first (between 0 2 (one_of [45, 47])) (at_place b [47, 45] cs) = Some (at_place (45 # 47 # b) [] cs)"
    by (simp add: one_of_def first_run advance_def)
  then show "first (Cat (between 0 2 (one_of [45, 47])) (Cat spaces text_end)) (at_place b [47, 45] cs)
      = Some (at_place (45 # 47 # b) [] cs)"
    by (rule first_Cat) (rule first_Cat [OF read_none], simp, simp add: text_end_def first_Test)
qed

lemma outs_lazy_digits:
  assumes "list_all ascii_digit (c # w)"
  shows "outs (Cat (Chr ascii_digit) (Rep False 0 None (Chr (\<lambda>c. ascii_digit c \<or> c = 44 \<or> c = 46)))) (at_place b (c # w @ 47 # s) cs)
    = map (\<lambda>k. at_place (rev (take k w) @ c # b) (drop k w @ 47 # s) cs) [0..<Suc (length w)]"
proof -
  let ?q = "at_place (c # b) (w @ 47 # s) cs"
  have run: "run_of (\<lambda>c. ascii_digit c \<or> c = 44 \<or> c = 46) ?q = length w"
    by (rule run_of_app) (use assms in \<open>auto simp: list_all_iff ascii_digit_def\<close>)
  have "outs (Chr ascii_digit) (at_place b (c # w @ 47 # s) cs) = [?q]"
    using assms by (simp add: place_step_def)
  then have "outs (Cat (Chr ascii_digit) (Rep False 0 None (Chr (\<lambda>c. ascii_digit c \<or> c = 44 \<or> c = 46)))) (at_place b (c # w @ 47 # s) cs)
      = map (\<lambda>k. advance k ?q) [0..<Suc (length w)]"
    by (simp only: outs.simps(3) outs_run(2) run list.map concat.simps append_Nil2)
  also have "\<dots> = map (\<lambda>k. at_place (rev (take k w) @ c # b) (drop k w @ 47 # s) cs) [0..<Suc (length w)]"
    by (rule map_cong [OF refl]) (auto simp: advance_def)
  finally show ?thesis .
qed

lemma search_cmd_amount:
  assumes d: "list_all ascii_digit d" "d \<noteq> []"
  shows "\<exists>m. search RE_CMD_AMOUNT (d @ [47, 45]) = Some m \<and> m_group 1 m = Some d"
proof -
  obtain c w where cw: "d = c # w" using d(2) by (cases d) auto
  let ?p = "at_place [] (c # w @ [47, 45]) []"
  let ?G = "Cat (Chr ascii_digit) (Rep False 0 None (Chr (\<lambda>c. ascii_digit c \<or> c = 44 \<or> c = 46)))"
  let ?f = "\<lambda>k. capture 1 ?p (at_place (rev (take k w) @ [c]) (drop k w @ [47, 45]) [])"
  have c: "c \<notin> set [45, 61, 43]" using d by (auto simp: cw ascii_digit_def)
  have one: "first (opt (seq [one_of [45, 61, 43], spaces])) ?p = Some ?p"
    using c by (simp add: one_of_def first_def)
  have outs: "outs (Grp 1 ?G) ?p = map ?f [0..<length w] @ [?f (length w)]"
    using d(1) outs_lazy_digits [of c w "[]" "[45]" "[]"] by (simp add: cw comp_def del: outs.simps(1-5))
  have "outs cmd_tail (?f k) = []" if "k < length w" for k
  proof -
    have "ascii_digit (w ! k)" using d(1) that by (simp add: cw list_all_iff)
    then show ?thesis using that cmd_tail_digit [of "w ! k"] by (simp add: capture_def Cons_nth_drop_Suc [symmetric])
  qed
  then have "first (Cat (Grp 1 ?G) cmd_tail) ?p = Some (at_place (45 # 47 # rev w @ [c]) [] [(1, c # w)])"
    by (intro first_Cat_last [OF outs]) (auto simp: capture_def cmd_tail_end)
  then have "first RE_CMD_AMOUNT ?p = Some (at_place (45 # 47 # rev w @ [c]) [] [(1, c # w)])"
    unfolding RE_CMD_AMOUNT_def cmd_tail_def by (simp only: seq.simps) (rule first_Cat [OF one [simplified seq.simps]])
  then have "search RE_CMD_AMOUNT (d @ [47, 45]) = Some (match_of ?p (at_place (45 # 47 # rev w @ [c]) [] [(1, c # w)]))"
    unfolding search_def by (intro search_from_here) (simp add: try_at_first cw)
  then show ?thesis by (simp add: m_group_def match_of_def cw)
qed

definition word :: "ustring \<Rightarrow> bool" where
  "word w \<longleftrightarrow> w \<noteq> [] \<and> list_all (\<lambda>c. \<not> uni_space c) w"

lemma split_word: "list_all (\<lambda>c. \<not> uni_space c) w \<Longrightarrow> uni_split (w @ s) acc = uni_split s (rev w @ acc)"
  by (induction w arbitrary: acc) auto

lemma join_Cons: "ws \<noteq> [] \<Longrightarrow> join_words (w # ws) = w @ 32 # join_words ws"
  by (cases ws) (auto simp: join_words_def)

lemma split_join: "\<forall>w\<in>set ws. word w \<Longrightarrow> uni_split (join_words ws) [] = ws"
proof (induction ws)
  case Nil
  then show ?case by (simp add: join_words_def)
next
  case (Cons w ws)
  have w: "list_all (\<lambda>c. \<not> uni_space c) w" "w \<noteq> []" using Cons.prems by (auto simp: word_def)
  show ?case
  proof (cases "ws = []")
    case True
    then show ?thesis using w split_word [of w "[]" "[]"] by (simp add: join_words_def)
  next
    case False
    have "uni_space 32" by (simp add: uni_space_def)
    then show ?thesis using Cons w split_word [OF w(1), of "32 # join_words ws" "[]"] by (simp add: join_Cons [OF False])
  qed
qed

lemma lines_one: "list_all (\<lambda>c. \<not> line_break c) s \<Longrightarrow> split_lines s acc = (if s = [] \<and> acc = [] then [] else [rev acc @ s])"
  by (induction s arbitrary: acc) auto

lemma break_space: "line_break c \<Longrightarrow> uni_space c"
  by (auto simp: line_break_def uni_space_def)

lemma join_no_break: "\<forall>w\<in>set ws. word w \<Longrightarrow> list_all (\<lambda>c. \<not> line_break c) (join_words ws)"
proof (induction ws)
  case (Cons w ws)
  have "list_all (\<lambda>c. \<not> line_break c) w" using Cons.prems break_space by (auto simp: word_def list_all_iff)
  then show ?case using Cons by (cases "ws = []") (simp_all add: join_Cons, simp_all add: join_words_def line_break_def)
qed (simp add: join_words_def)

lemma join_ends:
  "ws \<noteq> [] \<Longrightarrow> \<forall>w\<in>set ws. word w \<Longrightarrow> join_words ws \<noteq> [] \<and> hd (join_words ws) = hd (hd ws) \<and> last (join_words ws) = last (last ws)"
proof (induction ws)
  case (Cons w ws)
  then show ?case by (cases "ws = []") (auto simp: join_Cons join_words_def word_def)
qed simp

definition cash_line :: "ustring \<Rightarrow> ustring list \<Rightarrow> nat \<Rightarrow> ustring" where
  \<comment> \<open>\<open>Cash <number> <words of the name> <amount>/-\<close>\<close>
  "cash_line phone names n = join_words ([cp ''Cash'', phone] @ names @ [ucp n @ cp ''/-''])"

lemma cash_command_starts: "match_here RE_CASH_CMD (cp ''Cash'' @ 32 # s) \<noteq> None"
proof -
  let ?p = "at_place [] (67 # 97 # 115 # 104 # 32 # s) []" and ?q = "at_place [104, 115, 97, 67] (32 # s) []"
  have "1 \<le> run_of uni_space ?q" by (simp add: run_of_def uni_space_def)
  then have sp: "first (plus1 (Chr uni_space)) ?q = Some (advance (run_of uni_space ?q) ?q)" by (simp add: first_run)
  have ash: "first (lit ''ash'') (at_place [67] (97 # 115 # 104 # 32 # s) []) = Some ?q"
    by (simp add: lit_def cp_def first_def place_step_def)
  have "first line_start ?p = Some ?p" by (simp add: line_start_def first_Test)
  moreover have "first (one_of (cp ''Cc'')) ?p = Some (at_place [67] (97 # 115 # 104 # 32 # s) [])"
    by (simp add: one_of_def cp_def first_Chr advance_def)
  ultimately have "first RE_CASH_CMD ?p = Some (advance (run_of uni_space ?q) ?q)"
    unfolding RE_CASH_CMD_def seq.simps using first_Cat first_Cat [OF ash sp] by blast
  then show ?thesis by (simp add: match_here_def try_at_first cp_def)
qed

text \<open>C19: a command of the cashier is read back. From a line
  \<open>Cash number words amount/-\<close> with a Bangladesh number, any words of a name and a positive whole amount
  the parser makes a cash command with exactly that number as identity and payee, that amount, the
  method cash, full confidence, and the name when it passes the name check.\<close>
theorem cash_command_roundtrip:
  assumes u: "unicode_ok u" and ph: "canonical_bd phone" and names: "\<forall>w\<in>set names. word w" and n: "0 < n"
  shows "parse_message u isd (Some (cash_line phone names n)) day =
    P_cash_command \<lparr>px_id_phone = Some phone,
      px_name = (if names \<noteq> [] \<and> valid_human_name u isd (join_words names) then Some (join_words names) else None),
      px_phone = Some phone, px_method = ''cash'', px_amount = of_nat n, px_date = day, px_conf = 1\<rparr>"
proof -
  let ?words = "[cp ''Cash'', phone] @ names @ [ucp n @ cp ''/-'']"
  let ?t = "cash_line phone names n"
  have dash: "cp ''/-'' = [47, 45]" "cp ''Cash'' = [67, 97, 115, 104]" by (simp_all add: cp_def)
  have digits: "list_all ascii_digit (ucp n)" by (rule ucp_ascii)
  have ph': "list_all ascii_digit phone" "length phone = 11" "starts [48, 49] phone" using ph by (auto simp: canonical_bd_def)
  have words: "\<forall>w\<in>set ?words. word w"
    using names ph'(1,2) digits ascii_digit_no_space by (auto simp: word_def dash list_all_iff uni_space_def)
  have ends: "?t \<noteq> [] \<and> hd ?t = 67 \<and> last ?t = 45"
    using join_ends [OF _ words] by (simp add: cash_line_def dash)
  then have strip: "uni_strip ?t = ?t" by (intro uni_strip_id) (auto simp: uni_space_def)
  have lines: "split_lines ?t [] = [?t]"
    using lines_one [OF join_no_break [OF words], of "[]"] ends by (simp add: cash_line_def)
  have fl: "first_line ?t = ?t" using ends by (simp add: first_line_def lines strip)
  have toks: "uni_split ?t [] = ?words" unfolding cash_line_def by (rule split_join [OF words])
  have "?t = cp ''Cash'' @ 32 # join_words (phone # names @ [ucp n @ cp ''/-''])"
    by (simp add: cash_line_def join_Cons)
  then have cmd: "match_here RE_CASH_CMD ?t \<noteq> None" using cash_command_starts by simp
  have "filter (uni_digit u) phone = phone" "map BENGALI_DIGITS phone = phone"
    using ph'(1) u by (auto simp: list_all_iff filter_id_conv BENGALI_DIGITS_def bengali_digit_def ascii_digit_def intro!: map_idI
        intro: uni_digit_ascii [unfolded ascii_digit_def])
  then have bd: "bd_phone u phone = Some phone"
    using ph' by (auto simp: bd_phone_def normalize_bd_phone_def Let_def phone_digits_def strip_country_def add_zero_def)
  obtain m where m: "search RE_CMD_AMOUNT (ucp n @ [47, 45]) = Some m" "m_group 1 m = Some (ucp n)"
    using search_cmd_amount [OF digits] by auto
  have "map BENGALI_DIGITS (ucp n) = ucp n" "filter (\<lambda>c. c \<noteq> 44) (ucp n) = ucp n"
    using digits by (auto simp: list_all_iff BENGALI_DIGITS_def bengali_digit_def ascii_digit_def filter_id_conv intro!: map_idI)
  moreover have "uni_strip (ucp n) = ucp n"
    using digits ascii_digit_no_space by (intro uni_strip_id) (auto simp: list_all_iff)
  ultimately have amt: "normalize_amount u (ucp n) = Some (of_nat n)" by (simp add: normalize_amount_def py_float_ucp [OF u])
  have nm: "uni_strip (join_words names) = join_words names \<and> join_words names \<noteq> []" if "names \<noteq> []"
  proof -
    have "word (hd names)" "word (last names)" using names that by auto
    then have "\<not> uni_space (hd (hd names))" "\<not> uni_space (last (last names))" by (auto simp: word_def list_all_iff)
    then show ?thesis using join_ends [OF that names] by (simp add: uni_strip_id)
  qed
  have "drop 2 ?words = names @ [ucp n @ cp ''/-'']" by (simp add: numeral_2_eq_2)
  then have mid: "butlast (drop 2 ?words) = names" by simp
  have "parse_message u isd (Some ?t) day = parse_command u isd P_cash_command ?t day"
    using ends cmd by (simp add: parse_message_def strip)
  also have "\<dots> = P_cash_command \<lparr>px_id_phone = Some phone,
      px_name = (if names \<noteq> [] \<and> valid_human_name u isd (join_words names) then Some (join_words names) else None),
      px_phone = Some phone, px_method = ''cash'', px_amount = of_nat n, px_date = day, px_conf = 1\<rparr>"
    unfolding parse_command_def fl toks Let_def mid using n nm by (simp add: bd dash m m(2) [simplified] amt)
  finally show ?thesis .
qed

theorem cash_command_roundtrip_witness:
  "parse_message plain_unicode ascii_digit (Some (cash_line (cp ''01712345678'') [cp ''Karim'', cp ''Uddin''] 5000)) None =
    P_cash_command \<lparr>px_id_phone = Some (cp ''01712345678''), px_name = Some (cp ''Karim Uddin''),
      px_phone = Some (cp ''01712345678''), px_method = ''cash'', px_amount = 5000, px_date = None, px_conf = 1\<rparr>"
proof -
  have a: "canonical_bd (cp ''01712345678'')" "\<forall>w\<in>set [cp ''Karim'', cp ''Uddin'']. word w"
    by (simp_all add: canonical_bd_def word_def cp_def ascii_digit_def starts_def uni_space_def)
  have j: "join_words [cp ''Karim'', cp ''Uddin''] = cp ''Karim Uddin''" by (simp add: join_words_def cp_def)
  have "valid_human_name plain_unicode ascii_digit (cp ''Karim Uddin'')" by code_simp
  then show ?thesis using cash_command_roundtrip [OF unicode_ok_plain a, of 5000 ascii_digit None] by (simp add: j)
qed

definition sample_line :: ustring where
  "sample_line = cp ''ID: 01725494969 Jakir 01849258074(N) 2,200/-''"

definition sample_list :: ustring where
  "sample_list = cp ''Zakir=150/'' @ [10] @ cp ''Babul molla =300/'' @ [10] @ cp ''Totall=450/'' @ [10] @ cp ''04/5/26 Night shift''"

lemma sample_line_parsed:
  "parse_message plain_unicode ascii_digit (Some sample_line) None =
    P_payment \<lparr>px_id_phone = Some (cp ''01725494969''), px_name = Some (cp ''Jakir''), px_phone = Some (cp ''01849258074''),
      px_method = ''nagad'', px_amount = 2200, px_date = None, px_conf = 1\<rparr>"
  by code_simp

lemma sample_list_parsed:
  "parse_message plain_unicode ascii_digit (Some sample_list) None =
    P_escort [(cp ''Zakir'', 150), (cp ''Babul molla'', 300)] (Some ''N'') (Some (Date 2026 5 4)) 450"
  by code_simp

theorem parsed_fields_sound_witness:
  "\<exists>p. parse_message plain_unicode ascii_digit (Some sample_line) None = P_payment p \<and> px_amount p = 2200
    \<and> px_conf p = 1 \<and> bd_number plain_unicode (the (px_phone p))"
proof -
  note c = parsed_fields_sound [OF unicode_ok_plain sample_line_parsed]
  have "bd_number plain_unicode (cp ''01849258074'')" by (rule c [THEN conjunct2, THEN conjunct2, THEN conjunct1, rule_format]) simp
  then show ?thesis by (intro exI conjI) (rule sample_line_parsed, simp_all)
qed

theorem parsed_escort_sound_witness:
  "parse_message plain_unicode ascii_digit (Some sample_list) None =
    P_escort [(cp ''Zakir'', 150), (cp ''Babul molla'', 300)] (Some ''N'') (Some (Date 2026 5 4)) 450
   \<and> (450 :: rat) = sum_list (map snd [(cp ''Zakir'', 150), (cp ''Babul molla'', 300)])"
  using parsed_escort_sound [OF sample_list_parsed] sample_list_parsed by blast

lemma amount_only_parsed:
  "parse_message plain_unicode ascii_digit (Some (cp ''2,200/-'')) None =
    P_payment \<lparr>px_id_phone = None, px_name = None, px_phone = None, px_method = ''unknown'', px_amount = 2200,
      px_date = None, px_conf = 6 / 10\<rparr>"
  by code_simp

text \<open>A number written with spaces and hyphens is found, but the name before it is not.\<close>
lemma formatted_number_hides_name:
  "parse_message plain_unicode ascii_digit (Some (cp ''Jakir +880 1849-258074(N) 2,200/-'')) None =
    P_payment \<lparr>px_id_phone = Some (cp ''01849258074''), px_name = None, px_phone = Some (cp ''01849258074''),
      px_method = ''nagad'', px_amount = 2200, px_date = None, px_conf = 9 / 10\<rparr>"
  by code_simp

text \<open>A message that begins with the word cash is read as a command only: when its last word is not an
  amount it is dropped, although the same text without the first word is a payment.\<close>
lemma command_swallows:
  "parse_message plain_unicode ascii_digit (Some (cp ''Cash 01712345678 Karim 5000/- paid'')) None = P_other"
  "parse_message plain_unicode ascii_digit (Some (cp ''01712345678 Karim 5000/- paid'')) None \<noteq> P_other"
  by code_simp+

subsection \<open>The loose number pattern\<close>

lemma run_of_ge: "n \<le> run_of P p \<longleftrightarrow> n \<le> length (ahead p) \<and> list_all P (take n (ahead p))"
proof -
  have "n \<le> length (takeWhile P s) \<longleftrightarrow> n \<le> length s \<and> list_all P (take n s)" for s
  proof (induction s arbitrary: n)
    case (Cons c s)
    then show ?case by (cases n) auto
  qed simp
  then show ?thesis by (simp add: run_of_def)
qed

definition phone_core :: re where
  "phone_core = seq [lit ''0'', Chr (\<lambda>c. 49 \<le> c \<and> c \<le> 57), times 9 (Chr ascii_digit)]"

lemma outs_phone_core: "outs phone_core p = (if bd_core (ahead p) then [advance 11 p] else [])"
proof (cases "\<exists>x s. ahead p = 48 # x # s \<and> 49 \<le> x \<and> x \<le> 57")
  case False
  have "\<not> bd_core (ahead p)"
  proof
    assume b: "bd_core (ahead p)"
    then obtain c x s where s: "ahead p = c # x # s" by (cases "ahead p"; cases "tl (ahead p)") (auto simp: bd_core_def)
    with b False show False by (auto simp: bd_core_def)
  qed
  moreover have "outs phone_core p = []"
    using False by (cases "ahead p"; cases "tl (ahead p)") (auto simp: phone_core_def lit_def cp_def place_step_def)
  ultimately show ?thesis by simp
next
  case True
  then obtain x s where s: "ahead p = 48 # x # s" "49 \<le> x" "x \<le> 57" by blast
  have core: "bd_core (ahead p) \<longleftrightarrow> 9 \<le> run_of ascii_digit (advance 2 p)"
    using s by (auto simp: bd_core_def run_of_ge)
  have step: "place_step (place_step p) = advance 2 p" by (simp add: place_step_def advance_def s(1) numeral_2_eq_2)
  have add: "advance 9 (advance 2 p) = advance 11 p" by (simp add: advance_def s(1) numeral_2_eq_2 eval_nat_numeral)
  have "outs phone_core p = outs (times 9 (Chr ascii_digit)) (place_step (place_step p))"
    using s by (simp add: phone_core_def lit_def cp_def place_step_def del: outs.simps(5))
  also have "\<dots> = (if bd_core (ahead p) then [advance 11 p] else [])"
    unfolding step outs_run core using add by (auto simp: min_def)
  finally show ?thesis .
qed

lemma advance_add: "b \<le> length (ahead p) \<Longrightarrow> advance a (advance b p) = advance (b + a) p"
  by (simp add: advance_def take_add) (metis add.commute)

lemma outs_codes:
  "cs \<noteq> [] \<Longrightarrow> outs (seq (map (\<lambda>c. Chr (\<lambda>x. x = c)) cs)) p = (if starts cs (ahead p) then [advance (length cs) p] else [])"
proof (induction cs arbitrary: p)
  case (Cons c cs)
  have one: "outs (Chr (\<lambda>x. x = c)) p = (if starts [c] (ahead p) then [advance 1 p] else [])" for p
    by (cases "ahead p") (auto simp: starts_def advance_def place_step_def)
  show ?case
  proof (cases "cs = []")
    case True
    then show ?thesis using one [of p] by (simp del: outs.simps(1))
  next
    case False
    then have "seq (map (\<lambda>c. Chr (\<lambda>x. x = c)) (c # cs)) = Cat (Chr (\<lambda>x. x = c)) (seq (map (\<lambda>c. Chr (\<lambda>x. x = c)) cs))"
      by (cases cs) simp_all
    then have "outs (seq (map (\<lambda>c. Chr (\<lambda>x. x = c)) (c # cs))) p =
        (if starts [c] (ahead p) then outs (seq (map (\<lambda>c. Chr (\<lambda>x. x = c)) cs)) (advance 1 p) else [])"
      using one [of p] by (simp del: outs.simps(1))
    also have "\<dots> = (if starts (c # cs) (ahead p) then [advance (length (c # cs)) p] else [])"
      using Cons.IH [OF False, of "advance 1 p"] by (cases "ahead p") (auto simp: starts_def advance_add)
    finally show ?thesis .
  qed
qed simp

lemma outs_lit: "w \<noteq> [] \<Longrightarrow> outs (lit w) p = (if starts (cp w) (ahead p) then [advance (length w) p] else [])"
  using outs_codes [of "cp w" p] by (simp add: lit_def cp_def)

lemma first_RE_PHONE:
  "first RE_PHONE p = (case bd_match (ahead p) of None \<Rightarrow> None | Some n \<Rightarrow> Some (advance n p))"
proof -
  let ?pre = "seq [opt (one_of [43]), lit ''880'']" and ?s = "ahead p"
  have plus: "outs (opt (one_of [43])) p = (if starts [43] ?s then [advance 1 p, p] else [p])"
    unfolding one_of_def outs_run by (cases ?s) (auto simp: run_of_def starts_def)
  have lit: "outs (lit ''880'') q = (if starts [56, 56, 48] (ahead q) then [advance 3 q] else [])" for q
  proof -
    have "length ''880'' = 3" "cp ''880'' = [56, 56, 48]" by (simp_all add: cp_def)
    then show ?thesis using outs_lit [of "''880''" q] by (simp only: list.distinct not_False_eq_True simp_thms)
  qed
  have pre: "outs ?pre p = (if starts [43, 56, 56, 48] ?s then [advance 4 p]
      else if starts [56, 56, 48] ?s then [advance 3 p] else [])"
  proof -
    have "outs ?pre p = (if starts [43] ?s then outs (lit ''880'') (advance 1 p) @ outs (lit ''880'') p else outs (lit ''880'') p)"
      by (simp only: seq.simps outs.simps(3) plus split: if_split) simp
    then show ?thesis by (cases ?s) (auto simp: lit starts_def advance_add)
  qed
  have o: "outs (opt ?pre) p = outs ?pre p @ [p]" by (rule outs_opt)
  have r: "outs RE_PHONE p = outs (Cat (opt ?pre) phone_core) p" by (simp add: RE_PHONE_def phone_core_def)
  have len: "starts w ?s \<Longrightarrow> length w \<le> length ?s" for w by (auto simp: starts_def dest: arg_cong [of _ _ length])
  have all: "outs RE_PHONE p = concat (map (outs phone_core) ((if starts [43, 56, 56, 48] ?s then [advance 4 p]
      else if starts [56, 56, 48] ?s then [advance 3 p] else []) @ [p]))"
    by (simp only: r outs.simps(3) o pre)
  have "\<not> (starts [43, 56, 56, 48] ?s \<and> starts [56, 56, 48] ?s)" by (cases ?s) (auto simp: starts_def)
  then show ?thesis
    unfolding first_def all bd_match_def using len [of "[43, 56, 56, 48]"] len [of "[56, 56, 48]"]
    by (auto simp: outs_phone_core advance_add)
qed

lemma findall_phones:
  "length s < n \<Longrightarrow> map m_text (findall_fuel n RE_PHONE b s) = find_phones s"
proof (induction s arbitrary: b n rule: find_phones.induct)
  case 1
  then obtain k where n: "n = Suc k" by (cases n) auto
  have "bd_match [] = None" by (simp add: bd_match_def bd_core_def starts_def)
  then show ?case by (simp add: n try_at_first first_RE_PHONE)
next
  case (2 c s)
  obtain k where n: "n = Suc k" using 2(3) by (cases n) auto
  show ?case
  proof (cases "bd_match (c # s)")
    case None
    then have "search_from RE_PHONE b (c # s) = search_from RE_PHONE (c # b) s"
      by (simp add: try_at_first first_RE_PHONE)
    then have "findall_fuel n RE_PHONE b (c # s) = findall_fuel n RE_PHONE (c # b) s" by (simp only: n findall_fuel.simps)
    then show ?thesis using 2(1) [OF None, of n "c # b"] 2(3) None by simp
  next
    case (Some j)
    then have j: "0 < j" "j \<le> length (c # s)"
      by (auto simp: bd_match_def bd_core_def starts_def split: if_splits dest!: arg_cong [of _ _ length])
    let ?m = "\<lparr>m_before = rev b, m_text = take j (c # s), m_after = drop j (c # s), m_groups = []\<rparr>"
    have "search_from RE_PHONE b (c # s) = Some ?m"
      by (rule search_from_here) (use j Some in \<open>simp add: try_at_first first_RE_PHONE match_of_def\<close>)
    moreover have "length (drop j (c # s)) < k" using 2(3) n j by simp
    ultimately show ?thesis using 2(2) [OF Some, of k] j Some by (simp add: n)
  qed
qed

text \<open>the two number finders agree. The pattern of the payroll parser, run by the
  matcher, finds in every text the same numbers in the same places as the hand-written scan that
  models the same pattern of \<open>shared/phone.py\<close>.\<close>
theorem phone_finders_agree: "map m_text (findall RE_PHONE s) = find_phones s"
  using findall_phones [of s "Suc (length s)" "[]"] by (simp add: findall_def)


end
