(* ===== verification/Social_Rules.thy ===== *)
theory Social_Rules
  imports Py_Regex
begin

text \<open>
  What the social reply engine says, \<open>modules/social_auto_reply\<close>: the classifier of messages and
  comments by keywords (\<open>classifier.py\<close>), the sets of intents (\<open>risk_flagger.py\<close>), and the reply to a
  thread (\<open>intelligent_generator.py\<close>, \<open>reply_generator.py\<close>) with the filter on what the language
  model returns. The wording of the approved replies (\<open>reply_rules.py\<close>) is an argument: a reply is put
  together from the names of its paragraphs.
\<close>

subsection \<open>The classifier\<close>

definition has_any :: "unicode \<Rightarrow> ustring \<Rightarrow> ustring list \<Rightarrow> bool" where
  "has_any u txt terms \<longleftrightarrow> (let lower = uni_lower u txt in list_ex (\<lambda>t. has_infix t lower) terms)"

definition FIRST_RULES :: "(ustring list \<times> string \<times> rat) list" where
  \<comment> \<open>the keyword tests before the one for applications, in order\<close>
  "FIRST_RULES =
     [([cp ''accountant'', [2489, 2495, 2488, 2494, 2476], cp ''cash entry'', cp ''admin cash'',
        [2453, 2509, 2479, 2494, 2486], cp ''ledger''],
       ''accountant'', 94 / 100),
      ([cp ''employee id'', cp ''employee no'', cp ''emp id'',
        [2453, 2480, 2509, 2478, 2458, 2494, 2480, 2496, 32, 2438, 2439, 2465, 2495],
        [2438, 2439, 2465, 2495, 32, 2472, 2478, 2509, 2476, 2480]],
       ''employee_id'', 94 / 100),
      ([cp ''report'', [2480, 2495, 2474, 2507, 2480, 2509, 2463], cp ''dashboard'', cp ''payroll'',
        [2476, 2503, 2468, 2472, 32, 2468, 2494, 2482, 2495, 2453, 2494]],
       ''reports_issue'', 90 / 100),
      ([cp ''escort'', cp ''mother vessel'', cp ''lighter'', cp ''roster'', cp ''program'', cp ''programme'',
        cp ''guard dibo'', cp ''guard a dibo'', [2455, 2494, 2480, 2509, 2465], [2465, 2495, 2441, 2463, 2495],
        [2460, 2494, 2489, 2494, 2460, 2503, 2480, 32, 2475, 2480, 2509, 2478]],
       ''escort_order'', 94 / 100),
      ([cp ''transaction'', cp ''trxid'', cp ''trx id'', cp ''bkash'', cp ''b-kash'', cp ''nagad'', cp ''rocket'',
        [2463, 2509, 2480, 2494, 2472, 2460, 2503, 2453, 2486, 2472], [2482, 2503, 2472, 2470, 2503, 2472]],
       ''transaction'', 94 / 100),
      ([[2476, 2503, 2468, 2472, 32, 2470, 2503, 2472], [115, 97, 108, 97, 114, 121, 32, 2470, 2503, 2472],
        [2463, 2494, 2453, 2494, 32, 2470, 2503, 2472], [112, 97, 121, 109, 101, 110, 116, 32, 2470, 2503, 2472],
        [2476, 2503, 2468, 2472, 32, 2474, 2494, 2439, 32, 2472, 2494, 2439],
        [2463, 2494, 2453, 2494, 32, 2474, 2494, 2439, 32, 2472, 2494, 2439],
        [115, 97, 108, 97, 114, 121, 32, 2489, 2479, 2492, 2472, 2495],
        [2476, 2503, 2468, 2472, 32, 2489, 2479, 2492, 2472, 2495],
        [2463, 2494, 2453, 2494, 32, 2482, 2494, 2455, 2476, 2503], [2476, 2503, 2468, 2472, 32, 2453, 2476, 2503],
        [2463, 2494, 2453, 2494, 32, 2453, 2476, 2503, 32, 2470, 2495, 2476, 2503, 2472],
        [2463, 2494, 2453, 2494, 32, 2453, 2476, 2503, 32, 2474, 2494, 2476],
        [2476, 2503, 2468, 2472, 32, 2474, 2494, 2439, 2472, 2495],
        [2463, 2494, 2453, 2494, 32, 2474, 2494, 2439, 2472, 2495],
        [2438, 2478, 2494, 2480, 32, 2476, 2503, 2468, 2472], [2438, 2478, 2494, 2480, 32, 2463, 2494, 2453, 2494],
        cp ''my salary'', [115, 97, 108, 97, 114, 121, 32, 2470, 2494, 2451],
        [2463, 2494, 2453, 2494, 32, 2458, 2494, 2439], [2476, 2503, 2468, 2472, 32, 2458, 2494, 2439]],
       ''employee_salary_complaint'', 93 / 100),
      ([[2476, 2503, 2468, 2472, 32, 2453, 2478], [115, 97, 108, 97, 114, 121, 32, 2453, 2478],
        [2453, 2478, 32, 2477, 2494, 2439], [2447, 2468, 32, 2453, 2478, 32, 2453, 2503, 2472],
        [2463, 2494, 2453, 2494, 32, 2453, 2478], [2453, 2478, 32, 2476, 2503, 2468, 2472],
        [2447, 2468, 32, 2453, 2478]],
       ''salary_objection'', 88 / 100),
      ([[2463, 2494, 2453, 2494, 32, 2474, 2494, 2439, 2472, 2495], cp ''payment'', cp ''salary issue'',
        [2476, 2503, 2468, 2472, 32, 2474, 2494, 2439, 2472, 2495], cp ''salary correction'', cp ''advance paid'',
        cp ''paid'', [2474, 2503, 2478, 2503, 2472, 2509, 2463]],
       ''payment_issue'', 92 / 100),
      ([[2477, 2497, 2527, 2494], [2475, 2503, 2453], cp ''fake'', cp ''scam'', [2471, 2494, 2472, 2509, 2470, 2494],
        [2478, 2495, 2469, 2509, 2479, 2494], cp ''fraud''],
       ''scam_allegation'', 95 / 100),
      ([[2478, 2494, 2478, 2482, 2494], [2438, 2439, 2472], cp ''legal'', cp ''court'', cp ''police'',
        [2474, 2497, 2482, 2495, 2486]],
       ''legal_issue'', 90 / 100),
      ([[2486, 2494, 2482, 2494], [2458, 2497, 2470], [2489, 2494, 2480, 2494, 2478], cp ''abuse'', cp ''threat'',
        [2478, 2494, 2480, 2476, 2507], [2478, 2503, 2480, 2503, 32, 2475, 2503, 2482], [2471, 2478, 2453, 2495]],
       ''abuse'', 90 / 100),
      ([[2437, 2477, 2495, 2479, 2507, 2455], cp ''complaint'',
        [2477, 2497, 2453, 2509, 2468, 2477, 2507, 2455, 2496],
        [2453, 2469, 2494, 2439, 32, 2453, 2494, 2460, 2503, 32, 2478, 2495, 2482, 32, 2472, 2494, 2439]],
       ''complaint'', 90 / 100),
      ([[2460, 2494, 2478, 2494, 2472, 2468], [2456, 2497, 2487],
        [2463, 2494, 2453, 2494, 32, 2482, 2494, 2455, 2503], cp ''fee'', cp ''processing'', cp ''joining fee'',
        [2454, 2480, 2458, 32, 2482, 2494, 2455, 2476, 2503]],
       ''fees'', 92 / 100),
      ([cp ''salary'', [2476, 2503, 2468, 2472], [2458, 2503, 2482, 2494, 2480, 2495], cp ''sallery''],
       ''salary'', 88 / 100),
      ([cp ''address'', cp ''location'', cp ''office'', [2453, 2507, 2469, 2494, 2527],
        [2453, 2507, 2469, 2494, 2479, 2492], [2464, 2495, 2453, 2494, 2472, 2494], cp ''koi'', cp ''kothay'',
        [2438, 2488, 2476, 2507]],
       ''location'', 90 / 100),
      ([cp ''document'', [2453, 2494, 2455, 2460], cp ''nid'',
        [2460, 2472, 2509, 2478, 32, 2472, 2495, 2476, 2472, 2509, 2471, 2472], [2459, 2476, 2495],
        cp ''required documents''],
       ''documents'', 88 / 100),
      ([[2476, 2527, 2488], [2476, 2479, 2492, 2488], cp ''age'', [2539, 2534], cp ''55'', [2539, 2539],
        [2458, 2494, 2453, 2480, 2495, 32, 2474, 2494, 2476, 2507]],
       ''age_issue'', 82 / 100),
      ([[2460, 2494, 2489, 2494, 2460, 2503, 32, 2472, 2494, 2453, 2495], cp ''ship e naki'',
        [2474, 2494, 2472, 2495, 2468, 2503], [2478, 2494, 2463, 2495, 2468, 2503],
        [2482, 2509, 2479, 2494, 2472, 2509, 2465], [2488, 2494, 2455, 2480, 2503],
        [115, 104, 105, 112, 32, 2472, 2494, 32, 111, 102, 102, 105, 99, 101], cp ''ship e'', cp ''office e''],
       ''job_details'', 93 / 100),
      ([cp ''job details'', [2453, 2494, 2460, 32, 2453, 2496], [2453, 2495, 32, 2453, 2494, 2460], cp ''job ta'',
        cp ''survey scout'', cp ''details'', [2476, 2495, 2488, 2509, 2468, 2494, 2480, 2495, 2468]],
       ''job_details'', 86 / 100),
      ([cp ''training'', [2463, 2509, 2480, 2503, 2472, 2495, 2434], [2486, 2495, 2454], cp ''experience nai'',
        [2437, 2477, 2495, 2460, 2509, 2462, 2468, 2494, 32, 2472, 2494, 2439], cp ''new''],
       ''training'', 86 / 100),
      ([cp ''join'', cp ''joining'', [2453, 2495, 2477, 2494, 2476, 2503, 32, 2460, 2527, 2503, 2472],
        [2479, 2507, 2455, 2470, 2494, 2472], [2453, 2476, 2503, 32, 2438, 2488, 2476, 2507], cp ''process'',
        [2474, 2509, 2480, 2453, 2509, 2480, 2495, 2527, 2494]],
       ''join_process'', 86 / 100),
      ([cp ''follow up'', cp ''again'', [2438, 2476, 2494, 2480], [114, 101, 112, 108, 121, 32, 2470, 2503, 2472],
        cp ''update'', [2479, 2507, 2455, 2494, 2479, 2507, 2455]],
       ''recruitment_follow_up'', 78 / 100)]"

definition INTERESTED_RULES :: "(ustring list \<times> string \<times> rat) list" where
  "INTERESTED_RULES =
     [([cp ''interested'', cp ''apply'', [2438, 2478, 2495, 32, 2453, 2480, 2468, 2503, 32, 2458, 2494, 2439],
        [106, 111, 98, 32, 2458, 2494, 2439], [2438, 2476, 2503, 2470, 2472],
        [2438, 2478, 2495, 32, 2453, 2480, 2476, 2507], [2453, 2480, 2468, 2503, 32, 2458, 2494, 2439],
        [2453, 2494, 2460, 32, 2453, 2480, 2495, 2468, 2503, 32, 2458, 2494, 2439],
        [2453, 2494, 2460, 32, 2453, 2480, 2468, 2503, 32, 2458, 2494, 2439],
        [2458, 2494, 2453, 2480, 2495, 32, 2453, 2480, 2468, 2503, 32, 2458, 2494, 2439]],
       ''interested'', 88 / 100)]"

definition GREETINGS :: "ustring list" where
  "GREETINGS =
     [cp ''assalamualaikum'', cp ''hello'', cp ''hi'', cp ''start'',
     [2438, 2488, 2488, 2494, 2482, 2494, 2478, 2497, 32, 2438, 2482, 2494, 2439, 2453, 2497, 2478],
     [2489, 2509, 2479, 2494, 2482, 2507]]"

definition GREETING_TERMS :: "ustring list" where
  "GREETING_TERMS = [[2488, 2494, 2482, 2494, 2478], cp ''hello'', cp ''hi'']"

definition EDUCATION_TERMS :: "ustring list" where
  "EDUCATION_TERMS =
     [cp ''ssc'', cp ''hsc'', cp ''s.s.c'', cp ''class'', [2453, 2509, 2482, 2494, 2488],
     [2486, 2495, 2453, 2509, 2487, 2494], [2479, 2507, 2455, 2509, 2479, 2468, 2494],
     [2437, 2472, 2494, 2480, 2509, 2488]]"

definition ADDRESS_TERMS :: "ustring list" where
  "ADDRESS_TERMS =
     [cp ''address'', [2464, 2495, 2453, 2494, 2472, 2494], [2460, 2503, 2482, 2494], [2469, 2494, 2472, 2494],
     cp ''chatt'', cp ''dhaka'', cp ''noakhali'', [2458, 2463, 2509, 2463, 2455, 2509, 2480, 2494, 2478]]"

definition AGE_RE :: "unicode \<Rightarrow> re" where
  "AGE_RE u =
     Alt (seq [boundary u,
            alts [lit ''age'', seq (map (\<lambda>c. Chr (\<lambda>x. x = c)) [2476, 2527, 2488]),
                  seq (map (\<lambda>c. Chr (\<lambda>x. x = c)) [2476, 2479, 2492, 2488])], boundary u])
         (seq [boundary u, Chr (\<lambda>c. 49 \<le> c \<and> c \<le> 54), Chr ascii_digit, boundary u])"

definition LATIN_NAME_RE :: re where
  \<comment> \<open>\<open>^[a-zA-Z .]{5,}\<close>\<close>
  "LATIN_NAME_RE = Cat text_start (Rep True 5 None (Chr (\<lambda>c. ascii_letter c \<or> c = 32 \<or> c = 46)))"

definition looks_like_applicant_info :: "unicode \<Rightarrow> ustring \<Rightarrow> bool" where
  "looks_like_applicant_info u txt \<longleftrightarrow>
     (let lower = uni_lower u txt;
          has_age = (search (AGE_RE u) lower \<noteq> None);
          has_education = list_ex (\<lambda>t. has_infix t lower) EDUCATION_TERMS;
          has_address = list_ex (\<lambda>t. has_infix t lower) ADDRESS_TERMS;
          has_name = (list_ex (\<lambda>t. has_infix t lower) [cp ''name'', [2472, 2494, 2478]]
            \<or> match_here LATIN_NAME_RE (uni_strip txt) \<noteq> None)
      in 3 \<le> length (filter (\<lambda>b. b) [has_age, has_education, has_address, has_name]))"

definition rule_hit :: "unicode \<Rightarrow> ustring \<Rightarrow> (ustring list \<times> string \<times> rat) list \<Rightarrow> (string \<times> rat) option" where
  "rule_hit u lower rules = map_option snd (find (\<lambda>(terms, _). has_any u lower terms) rules)"

definition classify_message :: "unicode \<Rightarrow> ustring \<Rightarrow> bool \<Rightarrow> string \<times> rat" where
  "classify_message u txt media =
     (let raw = uni_strip txt; lower = uni_lower u raw
      in if media \<and> raw = [] then (''media_only'', 99 / 100)
         else if raw = [] then (''unclear'', 9 / 10)
         else case rule_hit u lower FIRST_RULES of
           Some c \<Rightarrow> c
         | None \<Rightarrow>
             if looks_like_applicant_info u raw then (''applicant_info_complete'', 82 / 100)
             else case rule_hit u lower INTERESTED_RULES of
               Some c \<Rightarrow> c
             | None \<Rightarrow> if lower \<in> set GREETINGS \<or> has_any u lower GREETING_TERMS then (''greeting'', 8 / 10)
                       else (''unclear'', 45 / 100))"

definition classify_comment :: "unicode \<Rightarrow> ustring \<Rightarrow> string \<times> rat" where
  "classify_comment u txt =
     (let c = classify_message u txt False
      in if fst c \<in> {''scam_allegation'', ''complaint'', ''abuse''} then (''negative_comment'', snd c)
         else if fst c \<in> {''employee_salary_complaint'', ''payment_issue''} then (''comment_salary_redirect'', snd c)
         else c)"

definition classify_event :: "unicode \<Rightarrow> string \<Rightarrow> ustring \<Rightarrow> bool \<Rightarrow> string" where
  \<comment> \<open>by platform: \<open>_classify_event\<close> and \<open>_classify\<close>\<close>
  "classify_event u platform txt media =
     fst (if platform = ''facebook_comment'' then classify_comment u txt else classify_message u txt media)"

subsection \<open>Sets of intents\<close>

definition RISKY_INTENTS :: "string list" where
  "RISKY_INTENTS =
     [''accountant'', ''transaction'', ''employee_id'', ''reports_issue'', ''escort_order'', ''escort_client'',
     ''roster_issue'', ''internal_operations'', ''complaint'', ''payment_issue'', ''legal_issue'',
     ''scam_allegation'', ''abuse'', ''negative_comment'', ''media_only'', ''unclear'']"

definition RECRUITING_INTENTS :: "string list" where
  "RECRUITING_INTENTS =
     [''greeting'', ''interested'', ''job_details'', ''salary'', ''salary_objection'', ''location'', ''age_issue'',
     ''documents'', ''fees'', ''applicant_info_complete'', ''training'', ''join_process'', ''recruitment_follow_up'',
     ''career_growth'', ''accommodation'']"

definition ESCALATION_INTENTS :: "string list" where
  "ESCALATION_INTENTS = [''employee_salary_complaint'', ''legal_issue'', ''payment_issue'']"

definition is_recruiting_intent :: "string \<Rightarrow> bool" where
  "is_recruiting_intent i \<longleftrightarrow> i \<in> set RECRUITING_INTENTS"

definition is_escalation_intent :: "string \<Rightarrow> bool" where
  "is_escalation_intent i \<longleftrightarrow> i \<in> set ESCALATION_INTENTS"

definition risk_reason :: "string \<Rightarrow> bool \<Rightarrow> ustring \<Rightarrow> string option" where
  "risk_reason intent media txt =
     (if media \<and> uni_strip txt = [] then Some ''media_only'' else if intent \<in> set RISKY_INTENTS then Some intent else None)"

definition can_auto_send :: "string \<Rightarrow> string \<Rightarrow> ustring \<Rightarrow> bool" where
  "can_auto_send intent platform txt \<longleftrightarrow>
     risk_reason intent False txt = None \<and> platform \<in> {''messenger'', ''meta_whatsapp'', ''facebook_comment''}
     \<and> intent \<in> set RECRUITING_INTENTS"

subsection \<open>The paragraphs of a reply\<close>

datatype passage =
    WELCOME_REPLY | GREETING_TEXT | INTERESTED_REPLY | APPLICANT_INFO_RECEIVED_REPLY | SALARY_REPLY | OBJECTION_TEXT
  | LOCATION_REPLY | SHIP_CLARIFICATION_REPLY | JOB_DETAILS_REPLY | DOCUMENTS_REPLY | FEES_REPLY | AGE_ISSUE_REPLY
  | TRAINING_TEXT | FOLLOW_UP_TEXT | ACCOMMODATION_TEXT | DIFFICULTY_TEXT | CAREER_TEXT | COMMENT_INTERESTED_REPLY
  | CONTINUE_TEXT | SAME_AS_BEFORE_TEXT

definition SHIP_TERMS :: "ustring list" where
  "SHIP_TERMS = [cp ''ship'', [2460, 2494, 2489, 2494, 2460], [2488, 2494, 2455, 2480], [2474, 2494, 2472, 2495]]"

definition CLARIFY_TERMS :: "ustring list" where
  "CLARIFY_TERMS =
     [[2460, 2494, 2489, 2494, 2460, 2503, 32, 2472, 2494, 2453, 2495], cp ''ship e naki'',
     [2474, 2494, 2472, 2495, 2468, 2503], [2488, 2494, 2455, 2480, 2503],
     [115, 104, 105, 112, 32, 2472, 2494, 32, 111, 102, 102, 105, 99, 101], cp ''ship e'', cp ''office e'']"

definition generate_reply :: "unicode \<Rightarrow> string \<Rightarrow> ustring \<Rightarrow> passage option" where
  \<comment> \<open>\<open>None\<close> is the empty reply\<close>
  "generate_reply u intent txt =
     (if intent = ''greeting'' then Some WELCOME_REPLY
      else if intent = ''interested'' then Some INTERESTED_REPLY
      else if intent = ''salary'' then Some SALARY_REPLY
      else if intent = ''location'' then Some LOCATION_REPLY
      else if intent = ''age_issue'' then Some AGE_ISSUE_REPLY
      else if intent = ''documents'' then Some DOCUMENTS_REPLY
      else if intent = ''fees'' then Some FEES_REPLY
      else if intent = ''applicant_info_complete'' then Some APPLICANT_INFO_RECEIVED_REPLY
      else if intent = ''job_details''
      then Some (if list_ex (\<lambda>t. has_infix t (uni_lower u txt)) CLARIFY_TERMS then SHIP_CLARIFICATION_REPLY else JOB_DETAILS_REPLY)
      else None)"

definition generate_comment_reply :: "unicode \<Rightarrow> string \<Rightarrow> ustring \<Rightarrow> passage option" where
  "generate_comment_reply u intent txt =
     (if intent = ''interested'' then Some COMMENT_INTERESTED_REPLY
      else if intent = ''salary'' then Some SALARY_REPLY
      else if intent = ''location'' then Some LOCATION_REPLY
      else if intent = ''job_details'' then Some SHIP_CLARIFICATION_REPLY
      else generate_reply u intent txt)"

definition build_comment_decision :: "unicode \<Rightarrow> ustring \<Rightarrow> passage option \<times> string option" where
  \<comment> \<open>the reply and the reason for flagging\<close>
  "build_comment_decision u txt =
     (let intent = fst (classify_comment u txt)
      in case risk_reason intent False txt of
           Some r \<Rightarrow> (None, Some r)
         | None \<Rightarrow> if \<not> can_auto_send intent ''facebook_comment'' txt then (None, Some ''not_auto_sendable'')
                   else (generate_comment_reply u intent txt, None))"

definition FREEFORM_RULES :: "(ustring list \<times> string) list" where
  "FREEFORM_RULES =
     [([cp ''training'', [2463, 2509, 2480, 2503, 2472, 2495, 2434], [2486, 2495, 2454], cp ''experience nai'',
       [2437, 2477, 2495, 2460, 2509, 2462, 2468, 2494, 32, 2472, 2494, 2439], cp ''new''],
       ''training''),
      ([[2469, 2494, 2453, 2468, 2503], [2469, 2494, 2453, 2494], cp ''accommodation'', cp ''mess'', [2478, 2503, 2488]],
       ''accommodation''),
      ([[2453, 2487, 2509, 2463], cp ''hard'', cp ''difficult'', [2474, 2494, 2480, 2476, 2507]], ''difficulty''),
      ([cp ''promotion'', [2474, 2509, 2480, 2478, 2507, 2486, 2472], [2476, 2503, 2468, 2472, 32, 2476, 2494, 2524],
       cp ''future'', cp ''office job'', cp ''supervisor''],
       ''career_growth''),
      ([cp ''experience'', [2437, 2477, 2495, 2460, 2509, 2462, 2468, 2494]], ''experience'')]"

definition expand_freeform_intent :: "unicode \<Rightarrow> string \<Rightarrow> ustring \<Rightarrow> string" where
  "expand_freeform_intent u intent txt =
     (case find (\<lambda>(terms, _). has_any u txt terms) FREEFORM_RULES of Some (_, i) \<Rightarrow> i | None \<Rightarrow> intent)"

definition INTENT_PRIORITY :: "string list" where
  "INTENT_PRIORITY =
     [''payment_issue'', ''complaint'', ''legal_issue'', ''scam_allegation'', ''abuse'', ''fees'',
     ''applicant_info_complete'', ''interested'', ''salary'', ''salary_objection'', ''location'', ''documents'',
     ''age_issue'', ''job_details'', ''career_growth'', ''training'', ''accommodation'', ''difficulty'', ''greeting'']"

definition ordered_unique :: "string list \<Rightarrow> string list" where
  "ordered_unique intents =
     (let first = filter (\<lambda>i. i \<in> set intents) INTENT_PRIORITY
      in first @ filter (\<lambda>i. i \<notin> set first) (rev (remdups (rev intents))))"

definition SAFE_FREEFORM :: "string list" where
  "SAFE_FREEFORM = [''career_growth'', ''training'', ''accommodation'', ''difficulty'', ''experience'']"

definition thread_risk :: "(string \<times> ustring \<times> bool) list \<Rightarrow> string list \<Rightarrow> string option" where
  \<comment> \<open>for each event its class, text and media flag\<close>
  "thread_risk events intents =
     (case find (\<lambda>(c, t, m). case risk_reason c m t of None \<Rightarrow> False | Some r \<Rightarrow> r \<notin> set SAFE_FREEFORM) events of
        Some (c, t, m) \<Rightarrow> risk_reason c m t
      | None \<Rightarrow> if ''payment_issue'' \<in> set intents then Some ''payment_issue'' else None)"

definition rule_paragraphs :: "unicode \<Rightarrow> ustring \<Rightarrow> string list \<Rightarrow> string list \<Rightarrow> passage list" where
  \<comment> \<open>\<open>parts\<close> after the tests for the single intents\<close>
  "rule_paragraphs u txt intents already =
     (let new = (\<lambda>i. i \<in> set intents \<and> i \<notin> set already)
      in (if ''greeting'' \<in> set intents \<and> already = [] then [GREETING_TEXT] else [])
       @ (if new ''interested'' \<and> ''applicant_info_complete'' \<notin> set intents then [INTERESTED_REPLY] else [])
       @ (if ''applicant_info_complete'' \<in> set intents then [APPLICANT_INFO_RECEIVED_REPLY] else [])
       @ (if new ''salary'' then [SALARY_REPLY] else [])
       @ (if new ''salary_objection'' then [OBJECTION_TEXT] else [])
       @ (if new ''location'' then [LOCATION_REPLY] else [])
       @ (if new ''job_details''
          then [if list_ex (\<lambda>t. has_infix t (uni_lower u txt)) SHIP_TERMS then SHIP_CLARIFICATION_REPLY else JOB_DETAILS_REPLY]
          else [])
       @ (if new ''join_process'' then [INTERESTED_REPLY] else [])
       @ (if new ''documents'' then [DOCUMENTS_REPLY] else [])
       @ (if new ''fees'' then [FEES_REPLY] else [])
       @ (if new ''age_issue'' then [AGE_ISSUE_REPLY] else [])
       @ (if ''training'' \<in> set intents \<or> ''experience'' \<in> set intents then [TRAINING_TEXT] else [])
       @ (if new ''recruitment_follow_up'' then [FOLLOW_UP_TEXT] else [])
       @ (if ''accommodation'' \<in> set intents then [ACCOMMODATION_TEXT] else [])
       @ (if ''difficulty'' \<in> set intents then [DIFFICULTY_TEXT] else [])
       @ (if ''career_growth'' \<in> set intents then [CAREER_TEXT] else []))"

definition reply_paragraphs :: "unicode \<Rightarrow> string \<Rightarrow> ustring \<Rightarrow> string list \<Rightarrow> nat \<Rightarrow> string list \<Rightarrow> passage list" where
  \<comment> \<open>all of \<open>parts\<close>, less the empty ones; \<open>n\<close> is the length of the history\<close>
  "reply_paragraphs u platform txt intents n already =
     (let ps = rule_paragraphs u txt intents already
      in if ps \<noteq> [] then ps
         else if platform = ''facebook_comment''
         then (case generate_comment_reply u (fst (classify_comment u txt)) txt of None \<Rightarrow> [] | Some p \<Rightarrow> [p])
         else if n > 1 then [CONTINUE_TEXT]
         else (case generate_reply u (fst (classify_message u txt False)) txt of None \<Rightarrow> [] | Some p \<Rightarrow> [p]))"

fun split_blank :: "ustring \<Rightarrow> ustring \<Rightarrow> ustring list" where
  \<comment> \<open>\<open>s.split("\n\n")\<close>; the second text is the piece read so far, reversed\<close>
  "split_blank [] acc = [rev acc]"
| "split_blank [c] acc = [rev (c # acc)]"
| "split_blank (c # d # s) acc =
     (if c = 10 \<and> d = 10 then rev acc # split_blank s [] else split_blank (d # s) (c # acc))"

fun join_blank :: "ustring list \<Rightarrow> ustring" where
  "join_blank [] = []"
| "join_blank [s] = s"
| "join_blank (s # t # ts) = s @ [10, 10] @ join_blank (t # ts)"

definition para_key :: "unicode \<Rightarrow> ustring \<Rightarrow> ustring" where
  "para_key u p = take 120 (sub_all (plus1 (Chr uni_space)) [32] (uni_lower u p))"

fun keep_first :: "unicode \<Rightarrow> ustring list \<Rightarrow> ustring list \<Rightarrow> ustring list" where
  "keep_first u seen [] = []"
| "keep_first u seen (p # ps) =
     (let k = para_key u p in if k \<in> set seen then keep_first u seen ps else p # keep_first u (k # seen) ps)"

definition dedupe_paragraphs :: "unicode \<Rightarrow> ustring \<Rightarrow> ustring" where
  "dedupe_paragraphs u txt =
     join_blank (keep_first u [] (filter (\<lambda>p. p \<noteq> []) (map uni_strip (split_blank txt []))))"

definition combined_rule_reply ::
  "unicode \<Rightarrow> (passage \<Rightarrow> ustring) \<Rightarrow> string \<Rightarrow> ustring \<Rightarrow> string list \<Rightarrow> nat \<Rightarrow> string list \<Rightarrow> ustring" where
  "combined_rule_reply u wording platform txt intents n already =
     (let ps = filter (\<lambda>p. p \<noteq> []) (map wording (reply_paragraphs u platform txt intents n already));
          reply = dedupe_paragraphs u (uni_strip (join_blank ps))
      in if already \<noteq> [] \<and> reply \<noteq> [] \<and> (\<forall>i\<in>set intents. i \<noteq> ''greeting'' \<longrightarrow> i \<in> set already)
         then wording SAME_AS_BEFORE_TEXT else reply)"

lemma freeform_safe: "expand_freeform_intent u i t \<in> {i, ''training'', ''accommodation'', ''difficulty'', ''career_growth'', ''experience''}"
  by (auto simp: expand_freeform_intent_def FREEFORM_RULES_def split: option.split)

lemma filter_one: "distinct xs \<Longrightarrow> filter (\<lambda>j. j = i) xs = (if i \<in> set xs then [i] else [])"
  by (induction xs) auto

lemma ordered_unique_one: "ordered_unique [i] = [i]"
proof -
  have "distinct INTENT_PRIORITY" by code_simp
  from filter_one [OF this, of i] show ?thesis by (simp add: ordered_unique_def Let_def)
qed

lemma strip_some: "uni_strip s \<noteq> [] \<Longrightarrow> \<exists>x\<in>set s. \<not> uni_space x"
  by (auto simp: uni_strip_def dropWhile_eq_Nil_conv dest: set_dropWhileD)

lemma strip_keeps: "c \<in> set s \<Longrightarrow> \<not> uni_space c \<Longrightarrow> c \<in> set (uni_strip s)"
proof -
  have d: "c \<in> set t \<Longrightarrow> \<not> uni_space c \<Longrightarrow> c \<in> set (dropWhile uni_space t)" for t by (induction t) auto
  assume "c \<in> set s" "\<not> uni_space c"
  then show ?thesis using d [of "rev (dropWhile uni_space s)"] d [of s] by (simp add: uni_strip_def)
qed

lemma split_keeps: "c \<in> set acc \<union> set s \<Longrightarrow> \<not> uni_space c \<Longrightarrow> \<exists>p\<in>set (split_blank s acc). c \<in> set p"
proof (induction s acc rule: split_blank.induct)
  case (3 x y s acc)
  have "\<not> uni_space 10 \<Longrightarrow> False" by code_simp
  then show ?case using 3 by (cases "x = 10 \<and> y = 10") auto
qed auto

lemma join_blank_ne: "p \<in> set ps \<Longrightarrow> p \<noteq> [] \<Longrightarrow> join_blank ps \<noteq> []"
  by (induction ps rule: join_blank.induct) auto

lemma join_keeps: "p \<in> set ps \<Longrightarrow> set p \<subseteq> set (join_blank ps)"
  by (induction ps rule: join_blank.induct) auto

lemma dedupe_ne:
  assumes "c \<in> set s" "\<not> uni_space c"
  shows "dedupe_paragraphs u s \<noteq> []"
proof -
  obtain p where p: "p \<in> set (split_blank s [])" "c \<in> set p" using split_keeps [of c "[]" s] assms by auto
  let ?ps = "filter (\<lambda>p. p \<noteq> []) (map uni_strip (split_blank s []))"
  have "uni_strip p \<in> set ?ps" using p strip_keeps [OF p(2) assms(2)] by auto
  then obtain q qs where q: "?ps = q # qs" by (cases ?ps) auto
  moreover have "q \<noteq> []" using arg_cong [OF q, of set] by auto
  ultimately show ?thesis unfolding dedupe_paragraphs_def q by (intro join_blank_ne [of q]) simp_all
qed

text \<open>The first question of an applicant always has an answer.\<close>
lemma first_answer:
  assumes "\<forall>p. uni_strip (wording p) \<noteq> []" "is_recruiting_intent c"
  shows "combined_rule_reply u wording platform txt (ordered_unique [expand_freeform_intent u c t]) n [] \<noteq> []"
proof -
  let ?i = "expand_freeform_intent u c t"
  have i: "?i \<in> set RECRUITING_INTENTS \<union> {''difficulty'', ''experience''}"
    using freeform_safe [of u c t] assms(2) by (auto simp: is_recruiting_intent_def RECRUITING_INTENTS_def)
  have "rule_paragraphs u txt [?i] [] \<noteq> []"
    using i unfolding rule_paragraphs_def RECRUITING_INTENTS_def by auto
  then obtain p ps where p: "reply_paragraphs u platform txt (ordered_unique [?i]) n [] = p # ps"
    by (cases "rule_paragraphs u txt [?i] []") (auto simp: reply_paragraphs_def ordered_unique_one)
  obtain x where x: "x \<in> set (wording p)" "\<not> uni_space x" using assms(1) strip_some by blast
  have "wording p \<in> set (filter (\<lambda>p. p \<noteq> []) (map wording (p # ps)))" using x by auto
  from join_keeps [OF this] have "x \<in> set (uni_strip (join_blank (filter (\<lambda>p. p \<noteq> []) (map wording (p # ps)))))"
    using x by (intro strip_keeps) auto
  from dedupe_ne [OF this x(2), of u] show ?thesis by (simp add: combined_rule_reply_def Let_def p)
qed

subsection \<open>What the language model may add\<close>

definition POISON :: "ustring list" where
  "POISON =
     [cp ''chain_of_thought'', cp ''AI'', [2447, 2438, 2439], cp ''prompt'',
     [2465, 2503, 2463, 2494, 2476, 2503, 2488], cp ''model'', cp ''reasoning'']"

definition ALLOWED_NUMBERS :: "ustring list" where
  "ALLOWED_NUMBERS =
     [cp ''350'', cp ''1000'', cp ''3500'', cp ''10000'', cp ''12000'', cp ''15000'', cp ''18000'', cp ''01958'',
     cp ''122311'', cp ''122327'', cp ''011004669'']"

definition NUMBER_RE :: "unicode \<Rightarrow> re" where
  "NUMBER_RE u = seq [boundary u, between 3 6 (Chr (uni_digit u)), boundary u]"

definition safe_polish :: "unicode \<Rightarrow> ustring \<Rightarrow> bool" where
  "safe_polish u txt \<longleftrightarrow>
     txt \<noteq> [] \<and> length txt \<le> 1400
     \<and> \<not> has_infix [2438, 2474, 2472, 2494, 2480, 32, 2476, 2494, 2480, 2509, 2468, 2494, 32, 2474, 2503, 2479, 2492, 2503,
         2459, 2495] txt
     \<and> \<not> list_ex (\<lambda>p. has_infix (uni_lower u p) (uni_lower u txt)) POISON
     \<and> set (map m_text (findall (NUMBER_RE u) (filter (\<lambda>c. c \<noteq> 44) txt))) \<subseteq> set ALLOWED_NUMBERS"

definition final_reply :: "unicode \<Rightarrow> ustring \<Rightarrow> ustring \<Rightarrow> ustring" where
  "final_reply u rule polished = (if safe_polish u polished then polished else rule)"

lemma number_outs:
  "q \<in> set (outs (NUMBER_RE u) p) \<Longrightarrow> \<exists>k. 3 \<le> k \<and> k \<le> 6 \<and> k \<le> run_of (uni_digit u) p \<and> q = advance k p"
proof -
  assume "q \<in> set (outs (NUMBER_RE u) p)"
  then have "q \<in> set (outs (between 3 6 (Chr (uni_digit u))) p)"
    by (auto simp: NUMBER_RE_def boundary_def simp del: outs.simps(1,5) split: if_splits)
  then obtain k where "k \<in> {3..<Suc (min 6 (run_of (uni_digit u) p))}" "q = advance k p"
    unfolding outs_run by (auto simp del: upt_Suc)
  then show ?thesis by (intro exI [of _ k]) auto
qed

lemma number_match:
  assumes "try_at (NUMBER_RE u) b s = Some m"
  shows "m_text m \<noteq> [] \<and> list_all (uni_digit u) (m_text m)"
proof -
  let ?p = "\<lparr>behind = b, ahead = s, caps = []\<rparr>"
  obtain q where q: "first (NUMBER_RE u) ?p = Some q" "m = match_of ?p q" using assms by (auto simp: try_at_first)
  then have "q \<in> set (outs (NUMBER_RE u) ?p)" by (auto simp: first_def split: list.splits)
  then obtain k where k: "3 \<le> k" "k \<le> run_of (uni_digit u) ?p" "q = advance k ?p" using number_outs by blast
  then have "m_text m = take k s" "k \<le> length s" using run_of_le [of "uni_digit u" ?p] by (simp_all add: q match_of_def)
  moreover have "take k s = take k (takeWhile (uni_digit u) s)"
    using k(2) by (subst takeWhile_eq_take) (simp add: run_of_def min_def)
  ultimately show ?thesis using k(1) by (auto simp: list_all_iff dest!: in_set_takeD set_takeWhileD)
qed

lemma number_here:
  assumes "list_all (uni_digit u) d" "3 \<le> length d" "length d \<le> 6" "\<forall>c. uni_digit u c \<longrightarrow> u_word u c"
    and "b = [] \<or> \<not> u_word u (hd b)" "s = [] \<or> \<not> u_word u (hd s)"
  shows "\<exists>m. try_at (NUMBER_RE u) b (d @ s) = Some m \<and> m_text m = d"
proof -
  let ?p = "\<lparr>behind = b, ahead = d @ s, caps = []\<rparr>" and ?q = "\<lparr>behind = rev d @ b, ahead = s, caps = []\<rparr>"
  have run: "run_of (uni_digit u) ?p = length d" by (rule run_of_app [of _ d _ s]) (use assms in auto)
  have w: "d \<noteq> [] \<and> u_word u (hd d) \<and> u_word u (last d)" using assms(1,2,4) by (cases d) (auto simp: list_all_iff)
  have "first (boundary u) ?p = Some ?p" using w assms(5) by (auto simp: boundary_def first_Test)
  moreover have "first (between 3 6 (Chr (uni_digit u))) ?p = Some ?q"
    using assms(2,3) by (simp add: first_run run advance_def)
  moreover have "first (boundary u) ?q = Some ?q" using w assms(6) by (auto simp: boundary_def first_Test hd_append hd_rev)
  ultimately have "first (NUMBER_RE u) ?p = Some ?q" unfolding NUMBER_RE_def seq.simps by (intro first_Cat)
  then show ?thesis by (simp add: try_at_first match_of_def)
qed

lemma number_found:
  assumes word: "\<forall>c. uni_digit u c \<longrightarrow> u_word u c" and d: "list_all (uni_digit u) d" "3 \<le> length d" "length d \<le> 6"
    and ends: "a = [] \<or> \<not> u_word u (last a)" "b = [] \<or> \<not> u_word u (hd b)"
  shows "d \<in> set (map m_text (findall (NUMBER_RE u) (a @ d @ b)))"
proof -
  obtain m where m: "try_at (NUMBER_RE u) (rev a) (d @ b) = Some m" "m_text m = d"
    using number_here [OF d word, of "rev a" b] ends by (auto simp: hd_rev)
  have "m_text m \<in> set (map m_text (findall (NUMBER_RE u) (a @ d @ b)))"
  proof (rule findall_finds [OF _ m(1)])
    fix a1 c a2 m' assume a: "a = a1 @ c # a2" and t: "try_at (NUMBER_RE u) (rev a1) (c # a2 @ d @ b) = Some m'"
    note n = number_match [OF t]
    have e: "m_text m' @ m_after m' = (c # a2) @ d @ b" using try_at_text [OF t] by simp
    have "take (length (c # a2)) (m_text m') = c # a2" if "Suc (length a2) < length (m_text m')"
      using that arg_cong [OF e, of "take (length (c # a2))"] by simp
    then have "last a \<in> set (m_text m')" if "Suc (length a2) < length (m_text m')"
      using that last_in_set [of "c # a2"] in_set_takeD [of "last (c # a2)" "length (c # a2)" "m_text m'"] by (simp add: a)
    then show "m_text m' \<noteq> [] \<and> length (m_text m') \<le> Suc (length a2)"
      using n word ends(1) by (auto simp: list_all_iff a not_less [symmetric])
  qed
  then show ?thesis by (simp only: m(2))
qed

text \<open>C18: the filter on the language model. Whatever it returns, the reply is the rule's own or a text
  of at most 1400 characters without the words of the list in which, once commas are removed, every
  number of three to six digits that stands alone is one of the approved numbers.\<close>
theorem polish_numbers_approved:
  assumes "\<forall>c. uni_digit u c \<longrightarrow> u_word u c"
  shows "final_reply u rule polished = rule
    \<or> final_reply u rule polished = polished \<and> polished \<noteq> [] \<and> length polished \<le> 1400
      \<and> (\<forall>p\<in>set POISON. \<not> has_infix (uni_lower u p) (uni_lower u polished))
      \<and> (\<forall>a d b. filter (\<lambda>c. c \<noteq> 44) polished = a @ d @ b \<and> list_all (uni_digit u) d \<and> 3 \<le> length d \<and> length d \<le> 6
           \<and> (a = [] \<or> \<not> u_word u (last a)) \<and> (b = [] \<or> \<not> u_word u (hd b)) \<longrightarrow> d \<in> set ALLOWED_NUMBERS)"
proof (cases "safe_polish u polished")
  case False
  then show ?thesis by (simp add: final_reply_def)
next
  case True
  have "d \<in> set ALLOWED_NUMBERS"
    if "filter (\<lambda>c. c \<noteq> 44) polished = a @ d @ b" "list_all (uni_digit u) d" "3 \<le> length d" "length d \<le> 6"
      "a = [] \<or> \<not> u_word u (last a)" "b = [] \<or> \<not> u_word u (hd b)" for a d b
    using number_found [OF assms that(2-6)] True that(1) by (auto simp: safe_polish_def)
  then show ?thesis using True by (simp add: final_reply_def safe_polish_def list_ex_iff)
qed

text \<open>Longer numbers are not looked at: a sum of a million passes, also with its commas, and so does any
  telephone number; and every word with the letters ai is refused.\<close>
lemma polish_lets_millions:
  "safe_polish plain_unicode (cp ''You get 1,000,000 taka. Call 01700000000'')"
  "\<not> safe_polish plain_unicode (cp ''Training is free.'')"
  by code_simp+

theorem polish_numbers_approved_witness:
  "let t = cp ''The fee is 3,500 taka.'' in final_reply plain_unicode (cp ''Joining fee'') t = t \<and> length t \<le> 1400
     \<and> cp ''3500'' \<in> set ALLOWED_NUMBERS"
proof -
  let ?t = "cp ''The fee is 3,500 taka.''"
  have f: "final_reply plain_unicode (cp ''Joining fee'') ?t = ?t" "?t \<noteq> cp ''Joining fee''" by code_simp+
  have w: "\<forall>c. uni_digit plain_unicode c \<longrightarrow> u_word plain_unicode c" by (simp add: uni_digit_def)
  have split: "filter (\<lambda>c. c \<noteq> 44) ?t = cp ''The fee is '' @ cp ''3500'' @ cp '' taka.''"
    "list_all (uni_digit plain_unicode) (cp ''3500'')" "3 \<le> length (cp ''3500'')" "length (cp ''3500'') \<le> 6"
    "\<not> u_word plain_unicode (last (cp ''The fee is ''))" "\<not> u_word plain_unicode (hd (cp '' taka.''))" by code_simp+
  from polish_numbers_approved [OF w, of "cp ''Joining fee''" ?t] f
  have l: "length ?t \<le> 1400" and a: "\<forall>a d b. filter (\<lambda>c. c \<noteq> 44) ?t = a @ d @ b \<and> list_all (uni_digit plain_unicode) d \<and> 3 \<le> length d
      \<and> length d \<le> 6 \<and> (a = [] \<or> \<not> u_word plain_unicode (last a)) \<and> (b = [] \<or> \<not> u_word plain_unicode (hd b)) \<longrightarrow> d \<in> set ALLOWED_NUMBERS"
    by (simp_all only: simp_thms) blast+
  have "cp ''3500'' \<in> set ALLOWED_NUMBERS"
    using a [rule_format, of "cp ''The fee is ''" "cp ''3500''" "cp '' taka.''"] split by blast
  then show ?thesis using f(1) l by (simp only: Let_def simp_thms)
qed

end
