(* ===== verification/Social_Queue.thy ===== *)
theory Social_Queue
  imports Social_Rules Bridge_Client
begin

text \<open>
  The engine of automatic replies, \<open>modules/social_auto_reply\<close>: the inbox of events
  (\<open>__init__.py\<close>), the planner that answers a thread (\<open>planner_worker.py\<close>,
  \<open>conversation_history.py\<close>, \<open>plan_reply\<close>), the reply queue with its retries (\<open>send_queue.py\<close>,
  \<open>retry_queue.py\<close>), the rate limit (\<open>rate_limiter.py\<close>) and one turn of the daemon
  (\<open>daemon_worker.py\<close>, \<open>state_tracker.py\<close>) and the route that sends a reply again (\<open>routes.py\<close>). What the platforms
  accept is recorded in \<open>so_out\<close>, the rows that route puts back in \<open>so_requeued\<close>.
  The hash, the wording, the language model's answers, the answers of the platforms and the directory
  of employees are arguments; so is which statement of a call raises. Texts of errors are not kept.
  The scan of old conversations is a sequence of \<open>ingest_social_event\<close>.
\<close>

subsection \<open>Tables\<close>

datatype ev_status = V_pending | V_planning | V_queued | V_ignored | V_needs_admin | V_sent | V_blocked

record inbox_event =
  xe_id :: int
  xe_key :: string
  xe_platform :: string
  xe_type :: string
  xe_sender :: ustring
  xe_comment :: "ustring option"
  xe_text :: ustring
  xe_media :: bool
  xe_received :: time
  xe_status :: ev_status
  xe_class :: "string option"

datatype reply_status = Y_pending | Y_sending | Y_sent | Y_failed | Y_blocked | Y_dlq

record reply_row =
  ry_id :: int
  ry_event :: int
  ry_platform :: string
  ry_target :: ustring
  ry_comment :: "ustring option"
  ry_text :: ustring
  ry_intent :: string
  ry_status :: reply_status
  ry_attempts :: nat
  ry_max :: nat
  ry_next :: time
  ry_key :: string
  ry_events :: "int list"
  ry_role :: string
  ry_created :: time
  ry_sent_at :: "time option"

record sent_entry =
  sn_queue :: int
  sn_event :: int
  sn_platform :: string
  sn_target :: ustring
  sn_text :: ustring
  sn_at :: time
  sn_key :: string

record retry_entry =
  rt_queue :: int
  rt_attempts :: nat
  rt_next :: time
  rt_done :: bool

record thread_state =
  th_platform :: string
  th_target :: ustring
  th_answered :: "string list"
  th_last :: ustring

record rate_state =
  ra_next :: "time option"
  ra_last :: time
  ra_count :: nat
  ra_window :: time

record delivery =
  dv_row :: int
  dv_at :: time
  dv_platform :: string
  dv_to :: ustring
  dv_text :: ustring

record social =
  so_events :: "inbox_event list"
  so_next_event :: int
  so_replies :: "reply_row list"
  so_next_reply :: int
  so_sent :: "sent_entry list"
  so_retries :: "retry_entry list"
  so_threads :: "thread_state list"
  so_rate :: "rate_state option"
  so_paused :: bool
  so_requeued :: "int list"
  so_out :: "delivery list"

record social_config =
  sg_u :: unicode
  sg_sha :: "ustring \<Rightarrow> string"
  sg_wording :: "passage \<Rightarrow> ustring"
  sg_utf8 :: "ustring \<Rightarrow> string"
  sg_staff :: "ustring option list"
  sg_enabled :: bool
  sg_cooldown :: int
  sg_compression :: int
  sg_delay_min :: int
  sg_delay_max :: int
  sg_idle :: int
  sg_page_token :: bool
  sg_meta_token :: bool

subsection \<open>The inbox\<close>

record incoming =
  in_platform :: string
  in_type :: string
  in_sender :: ustring
  in_text :: ustring
  in_message :: "ustring option"
  in_comment :: "ustring option"
  in_media :: bool

definition nonempty :: "ustring option \<Rightarrow> ustring option" where
  "nonempty s = (if s = Some [] then None else s)"

definition event_key :: "(ustring \<Rightarrow> string) \<Rightarrow> incoming \<Rightarrow> string" where
  "event_key sha i =
     (let ext = (case nonempty (in_message i) of Some m \<Rightarrow> Some m | None \<Rightarrow> nonempty (in_comment i))
      in sha (cp (in_platform i) @ [124] @ cp (in_type i) @ [124]
           @ (case ext of Some x \<Rightarrow> x | None \<Rightarrow> in_sender i @ [124] @ take 300 (in_text i))))"

definition reply_key :: "(ustring \<Rightarrow> string) \<Rightarrow> string \<Rightarrow> ustring \<Rightarrow> int \<Rightarrow> ustring \<Rightarrow> string" where
  "reply_key sha platform target event txt =
     sha (cp platform @ [124] @ target @ [124] @ (if event = 0 then [] else cp (show_int event)) @ [124] @ take 300 txt)"

definition new_event :: "social_config \<Rightarrow> time \<Rightarrow> int \<Rightarrow> incoming \<Rightarrow> inbox_event" where
  "new_event cfg now n i =
     \<lparr>xe_id = n, xe_key = event_key (sg_sha cfg) i, xe_platform = in_platform i, xe_type = in_type i,
      xe_sender = in_sender i, xe_comment = in_comment i, xe_text = in_text i, xe_media = in_media i,
      xe_received = now, xe_status = V_pending, xe_class = None\<rparr>"

definition set_events :: "int list \<Rightarrow> (inbox_event \<Rightarrow> inbox_event) \<Rightarrow> social \<Rightarrow> social" where
  "set_events ids f so = so\<lparr>so_events := update_where (\<lambda>r. xe_id r \<in> set ids) f (so_events so)\<rparr>"

definition set_status :: "int list \<Rightarrow> ev_status \<Rightarrow> social \<Rightarrow> social" where
  "set_status ids st = set_events ids (\<lambda>r. r\<lparr>xe_status := st\<rparr>)"

definition first_status :: "string \<Rightarrow> ev_status" where
  "first_status intent =
     (if is_escalation_intent intent then V_needs_admin else if \<not> is_recruiting_intent intent then V_ignored else V_pending)"

definition ingest_social_event :: "social_config \<Rightarrow> env \<Rightarrow> incoming \<Rightarrow> social \<Rightarrow> (unit + int option) \<times> social" where
  \<comment> \<open>an id is drawn before the conflict is found\<close>
  "ingest_social_event cfg e i so =
     (if raises e 0 then (Inl (), so)
      else if has_row (\<lambda>r. xe_key r = event_key (sg_sha cfg) i) (so_events so)
      then (Inr None, so\<lparr>so_next_event := so_next_event so + 1\<rparr>)
      else let n = so_next_event so;
               so1 = so\<lparr>so_next_event := n + 1, so_events := so_events so @ [new_event cfg (db_now e) n i]\<rparr>;
               intent = fst (classify_message (sg_u cfg) (in_text i) (in_media i))
           in if raises e 1 then (Inl (), so1)
              else (Inr (Some n),
                    set_events [n] (\<lambda>r. r\<lparr>xe_class := Some intent, xe_status := first_status intent\<rparr>) so1))"

subsection \<open>Threads\<close>

definition thread_of :: "inbox_event \<Rightarrow> string \<times> ustring" where
  "thread_of r =
     (xe_platform r,
      if xe_platform r = ''facebook_comment'' then (case xe_comment r of Some c \<Rightarrow> c | None \<Rightarrow> xe_sender r) else xe_sender r)"

definition pending_threads :: "social_config \<Rightarrow> env \<Rightarrow> nat \<Rightarrow> social \<Rightarrow> (string \<times> ustring) list" where
  "pending_threads cfg e limit so =
     (let rows = filter (\<lambda>r. xe_status r = V_pending \<and> xe_received r \<le> db_now e - secs (sg_compression cfg)) (so_events so)
      in take limit (sort_key (\<lambda>t. Min (set (map xe_received (filter (\<lambda>r. thread_of r = t) rows)))) (remdups (map thread_of rows))))"

definition claimed_events :: "string \<times> ustring \<Rightarrow> social \<Rightarrow> inbox_event list" where
  "claimed_events t so = sort_key xe_received (filter (\<lambda>r. xe_status r = V_pending \<and> thread_of r = t) (so_events so))"

definition pending_events :: "string \<times> ustring \<Rightarrow> social \<Rightarrow> inbox_event list \<times> social" where
  "pending_events t so = (let rows = claimed_events t so in (rows, set_status (map xe_id rows) V_planning so))"

definition event_intent :: "social_config \<Rightarrow> inbox_event \<Rightarrow> string" where
  "event_intent cfg r = classify_event (sg_u cfg) (xe_platform r) (xe_text r) (xe_media r)"

fun refresh_classifications :: "social_config \<Rightarrow> env \<Rightarrow> nat \<Rightarrow> inbox_event list \<Rightarrow> social \<Rightarrow> bool \<times> social" where
  \<comment> \<open>False when a statement raised; the statement of the \<open>i\<close>-th event is number \<open>20 + i\<close>\<close>
  "refresh_classifications cfg e i [] so = (True, so)"
| "refresh_classifications cfg e i (r # rs) so =
     (if xe_class r = Some (event_intent cfg r) then refresh_classifications cfg e (i + 1) rs so
      else if raises e (20 + i) then (False, so)
      else refresh_classifications cfg e (i + 1) rs
             (set_events [xe_id r] (\<lambda>x. x\<lparr>xe_class := Some (event_intent cfg r)\<rparr>) so))"

definition normalize_mobile :: "unicode \<Rightarrow> ustring \<Rightarrow> ustring" where
  "normalize_mobile u raw = (let d = filter (uni_digit u) raw in if length d \<ge> 10 then py_suffix 10 d else d)"

definition find_by_mobile :: "social_config \<Rightarrow> env \<Rightarrow> ustring \<Rightarrow> unit + bool" where
  \<comment> \<open>whether an employee who is not deleted or terminated has the number\<close>
  "find_by_mobile cfg e target =
     (let d = normalize_mobile (sg_u cfg) target
      in if length d < 9 then Inr False
         else if raises e 1 then Inl ()
         else Inr (list_ex (\<lambda>m. py_suffix 10 (filter ascii_digit (case m of Some s \<Rightarrow> s | None \<Rightarrow> [])) = d) (sg_staff cfg)))"

subsection \<open>The plan of a reply\<close>

definition history_length :: "string \<times> ustring \<Rightarrow> social \<Rightarrow> nat" where
  "history_length t so =
     min 30 (count_where (\<lambda>r. thread_of r = t) (so_events so) + count_where (\<lambda>s. (sn_platform s, sn_target s) = t) (so_sent so))"

definition answered_intents :: "string \<times> ustring \<Rightarrow> social \<Rightarrow> string list" where
  "answered_intents t so =
     (case find (\<lambda>s. (th_platform s, th_target s) = t) (so_threads so) of Some s \<Rightarrow> th_answered s | None \<Rightarrow> [])"

definition update_thread_state :: "string \<times> ustring \<Rightarrow> string list \<Rightarrow> ustring \<Rightarrow> social \<Rightarrow> social" where
  "update_thread_state t intents reply so =
     (if has_row (\<lambda>s. (th_platform s, th_target s) = t) (so_threads so)
      then so\<lparr>so_threads := update_where (\<lambda>s. (th_platform s, th_target s) = t)
                (\<lambda>s. s\<lparr>th_answered := remdups (th_answered s @ intents), th_last := take 1200 reply\<rparr>) (so_threads so)\<rparr>
      else so\<lparr>so_threads := so_threads so @
                [\<lparr>th_platform = fst t, th_target = snd t, th_answered = intents, th_last = take 1200 reply\<rparr>]\<rparr>)"

fun join_lines :: "ustring list \<Rightarrow> ustring" where
  "join_lines [] = []"
| "join_lines [s] = s"
| "join_lines (s # t # ts) = s @ 10 # join_lines (t # ts)"

fun join_plus :: "string list \<Rightarrow> string" where
  "join_plus [] = ''''"
| "join_plus [s] = s"
| "join_plus (s # t # ts) = s @ CHR ''+'' # join_plus (t # ts)"

definition plan_intents :: "social_config \<Rightarrow> inbox_event list \<Rightarrow> string list" where
  "plan_intents cfg events =
     ordered_unique (map (\<lambda>r. expand_freeform_intent (sg_u cfg) (event_intent cfg r) (xe_text r)) events)"

definition plan_reply ::
  "social_config \<Rightarrow> env \<Rightarrow> ustring \<Rightarrow> string \<times> ustring \<Rightarrow> inbox_event list \<Rightarrow> social \<Rightarrow> (unit + (ustring \<times> string) option) \<times> social" where
  \<comment> \<open>the reply with its intent, or \<open>None\<close> when nothing may be sent; \<open>ai\<close> is the language model's text, empty
    when it is switched off or fails\<close>
  "plan_reply cfg e ai t events so =
     (let u = sg_u cfg;
          combined = join_lines (map (uni_strip \<circ> xe_text) (filter (\<lambda>r. xe_text r \<noteq> []) events));
          intents = plan_intents cfg events;
          already = answered_intents t so
      in if raises e 4 \<or> raises e 5 then (Inl (), so)
         else if thread_risk (map (\<lambda>r. (event_intent cfg r, xe_text r, xe_media r)) events) intents \<noteq> None then (Inr None, so)
         else let rule = combined_rule_reply u (sg_wording cfg) (fst t) combined intents (history_length t so) already
              in if rule = [] then (Inr None, so)
                 else let reply = final_reply u rule ai
                      in if raises e 6 then (Inl (), so)
                         else (Inr (Some (reply, join_plus intents)), update_thread_state t intents reply so))"

subsection \<open>The queue\<close>

definition new_reply :: "social_config \<Rightarrow> time \<Rightarrow> int \<Rightarrow> string \<times> ustring \<Rightarrow> inbox_event list \<Rightarrow> bool \<Rightarrow> ustring \<Rightarrow> string \<Rightarrow> reply_row" where
  "new_reply cfg now n t events staff txt intent =
     \<lparr>ry_id = n, ry_event = xe_id (last events), ry_platform = fst t, ry_target = snd t,
      ry_comment = (if xe_platform (hd events) = ''facebook_comment'' then xe_comment (hd events) else None),
      ry_text = txt, ry_intent = intent, ry_status = Y_pending, ry_attempts = 0, ry_max = 5, ry_next = now,
      ry_key = reply_key (sg_sha cfg) (fst t) (snd t) (xe_id (last events)) txt, ry_events = map xe_id events,
      ry_role = (if staff then ''EMPLOYEE'' else ''UNKNOWN''), ry_created = now, ry_sent_at = None\<rparr>"

definition enqueue_reply :: "env \<Rightarrow> reply_row \<Rightarrow> social \<Rightarrow> (unit + int option) \<times> social" where
  \<comment> \<open>\<open>r\<close>: the row to insert, with the next id\<close>
  "enqueue_reply e r so =
     (if raises e 9 then (Inl (), so)
      else let so1 = so\<lparr>so_next_reply := so_next_reply so + 1\<rparr>
           in if has_row (\<lambda>x. ry_key x = ry_key r) (so_replies so) then (Inr None, so1)
              else let so2 = so1\<lparr>so_replies := so_replies so @ [r]\<rparr>
                   in if raises e 10 then (Inl (), so2) else (Inr (Some (ry_id r)), set_status [ry_event r] V_queued so2))"

definition recent_dupe :: "social_config \<Rightarrow> env \<Rightarrow> ustring \<Rightarrow> string \<Rightarrow> social \<Rightarrow> bool" where
  "recent_dupe cfg e target intent so \<longleftrightarrow>
     has_row (\<lambda>x. ry_target x = target \<and> ry_intent x = intent \<and> ry_created x \<ge> db_now e - secs (60 * sg_cooldown cfg)) (so_replies so)"

datatype thread_result = TR_raised | TR_skipped | TR_planned | TR_conflict

definition ignore_events :: "env \<Rightarrow> inbox_event list \<Rightarrow> social \<Rightarrow> thread_result \<times> social" where
  "ignore_events e events so =
     (if raises e 3 then (TR_raised, so) else (TR_skipped, set_status (map xe_id events) V_ignored so))"

definition queue_plan ::
  "social_config \<Rightarrow> env \<Rightarrow> string \<times> ustring \<Rightarrow> inbox_event list \<Rightarrow> bool \<Rightarrow> ustring \<Rightarrow> string \<Rightarrow> social \<Rightarrow> thread_result \<times> social" where
  \<comment> \<open>the cooldown and the insertion\<close>
  "queue_plan cfg e t events staff txt intent so =
     (if raises e 8 then (TR_raised, so)
      else if recent_dupe cfg e (snd t) intent so then ignore_events e events so
      else case enqueue_reply e (new_reply cfg (db_now e) (so_next_reply so) t events staff txt intent) so of
             (Inl _, so1) \<Rightarrow> (TR_raised, so1)
           | (Inr None, so1) \<Rightarrow> (TR_conflict, so1)
           | (Inr (Some _), so1) \<Rightarrow>
               if raises e 11 then (TR_raised, so1) else (TR_planned, set_status (map xe_id events) V_queued so1))"

definition process_thread :: "social_config \<Rightarrow> env \<Rightarrow> ustring \<Rightarrow> string \<times> ustring \<Rightarrow> social \<Rightarrow> thread_result \<times> social" where
  \<comment> \<open>one round of the loop of \<open>process_due_threads\<close>\<close>
  "process_thread cfg e ai t so =
     (if raises e 0 then (TR_raised, so)
      else let (events, so1) = pending_events t so
           in if events = [] then (TR_skipped, so1)
              else case find_by_mobile cfg e (snd t) of
                Inl _ \<Rightarrow> (TR_raised, so1)
              | Inr staff \<Rightarrow>
                  (let (ok, so2) = refresh_classifications cfg e 0 events so1
                   in if \<not> ok then (TR_raised, so2)
                      else if \<not> list_all (\<lambda>r. is_recruiting_intent (event_intent cfg r)) events then ignore_events e events so2
                      else case plan_reply cfg e ai t events so2 of
                        (Inl _, so3) \<Rightarrow> (TR_raised, if raises e 7 then so3 else set_status (map xe_id events) V_pending so3)
                      | (Inr None, so3) \<Rightarrow> ignore_events e events so3
                      | (Inr (Some (txt, intent)), so3) \<Rightarrow> queue_plan cfg e t events staff txt intent so3))"

fun process_threads :: "social_config \<Rightarrow> ((string \<times> ustring) \<times> env \<times> ustring) list \<Rightarrow> social \<Rightarrow> bool \<times> social" where
  \<comment> \<open>each thread with the environment and the model's text of its round; False when a round raised\<close>
  "process_threads cfg [] so = (True, so)"
| "process_threads cfg ((t, e, ai) # ts) so =
     (let (k, so1) = process_thread cfg e ai t so in if k = TR_raised then (False, so1) else process_threads cfg ts so1)"

definition process_due_threads :: "social_config \<Rightarrow> env \<Rightarrow> (nat \<Rightarrow> env \<times> ustring) \<Rightarrow> nat \<Rightarrow> social \<Rightarrow> bool \<times> social" where
  "process_due_threads cfg e rounds limit so =
     (if raises e 0 then (False, so)
      else process_threads cfg (map (\<lambda>(i, t). (t, rounds i)) (enumerate 0 (pending_threads cfg e limit so))) so)"

subsection \<open>Sending\<close>

record platform_answer =
  na_status :: "nat option"
  na_denied :: bool
  na_json :: bool

datatype send_result = SR_sent | SR_denied | SR_error

definition social_send :: "social_config \<Rightarrow> platform_answer \<Rightarrow> reply_row \<Rightarrow> send_result \<times> bool" where
  \<comment> \<open>\<open>_send\<close>, and whether the platform has accepted the message: \<open>na_status\<close> is \<open>None\<close> when the request
    raises, \<open>na_denied\<close> says that the body names the missing permission, \<open>na_json\<close> that it is JSON\<close>
  "social_send cfg a r =
     (let ok = (na_status a = Some 200); accepted = (if na_json a then SR_sent else SR_error, True)
      in if ry_platform r = ''messenger''
         then (if \<not> sg_page_token cfg then (SR_denied, False)
               else if ok then accepted
               else if na_status a \<in> {Some 400, Some 403} \<and> na_denied a then (SR_denied, False) else (SR_error, False))
         else if ry_platform r = ''facebook_comment''
         then (if \<not> sg_page_token cfg then (SR_denied, False) else if ok then accepted else (SR_error, False))
         else if ry_platform r = ''meta_whatsapp''
         then (if \<not> sg_meta_token cfg then (SR_denied, False) else if ok then accepted else (SR_error, False))
         else if ry_platform r = ''bridge1'' \<or> ry_platform r = ''bridge2''
         then (case fst (send_strict (case na_status a of Some c \<Rightarrow> Http_status c | None \<Rightarrow> Transport_error)
                           (sg_utf8 cfg (ry_target r)) (sg_utf8 cfg (ry_text r))) of
                 Sent \<Rightarrow> (SR_sent, True) | _ \<Rightarrow> (SR_error, False))
         else (SR_error, False))"

definition ready :: "env \<Rightarrow> reply_row \<Rightarrow> bool" where
  "ready e r \<longleftrightarrow> ry_status r \<in> {Y_pending, Y_failed} \<and> ry_next r \<le> db_now e"

definition pick_replies :: "env \<Rightarrow> nat \<Rightarrow> social \<Rightarrow> reply_row list \<times> social" where
  \<comment> \<open>the rows as \<open>RETURNING q.*\<close> gives them\<close>
  "pick_replies e limit so =
     (let rows = take limit (sort_key ry_next (sort_key ry_created (filter (ready e) (so_replies so))))
      in (map (\<lambda>r. r\<lparr>ry_status := Y_sending\<rparr>) rows,
          so\<lparr>so_replies := update_where (\<lambda>r. ry_id r \<in> set (map ry_id rows)) (\<lambda>r. r\<lparr>ry_status := Y_sending\<rparr>) (so_replies so)\<rparr>))"

definition update_reply :: "int \<Rightarrow> (reply_row \<Rightarrow> reply_row) \<Rightarrow> social \<Rightarrow> social" where
  "update_reply i f so = so\<lparr>so_replies := update_where (\<lambda>r. ry_id r = i) f (so_replies so)\<rparr>"

definition add_retry :: "retry_entry \<Rightarrow> social \<Rightarrow> social" where
  "add_retry x so =
     so\<lparr>so_retries := (if has_row (\<lambda>r. rt_queue r = rt_queue x) (so_retries so)
        then update_where (\<lambda>r. rt_queue r = rt_queue x) (\<lambda>_. x) (so_retries so) else so_retries so @ [x])\<rparr>"

definition log_sent :: "time \<Rightarrow> reply_row \<Rightarrow> social \<Rightarrow> social" where
  "log_sent now r so =
     (if has_row (\<lambda>s. sn_key s = ry_key r) (so_sent so) then so
      else so\<lparr>so_sent := so_sent so @
        [\<lparr>sn_queue = ry_id r, sn_event = ry_event r, sn_platform = ry_platform r, sn_target = ry_target r,
          sn_text = ry_text r, sn_at = now, sn_key = ry_key r\<rparr>]\<rparr>)"

datatype row_result = RR_raised | RR_sent | RR_blocked | RR_failed

definition backoff :: "nat \<Rightarrow> time" where
  "backoff n = secs (60 * 2 ^ n)"

definition settle_failed :: "env \<Rightarrow> reply_row \<Rightarrow> social \<Rightarrow> row_result \<times> social" where
  \<comment> \<open>the handler of \<open>Exception\<close>\<close>
  "settle_failed e r so =
     (let n = ry_attempts r + 1; limit = (if ry_max r = 0 then 5 else ry_max r)
      in if raises e 3 then (RR_raised, so)
         else if n \<ge> limit then (RR_failed, update_reply (ry_id r) (\<lambda>x. x\<lparr>ry_status := Y_dlq, ry_attempts := n\<rparr>) so)
         else let so1 = update_reply (ry_id r)
                    (\<lambda>x. x\<lparr>ry_status := Y_failed, ry_attempts := n, ry_next := db_now e + backoff n\<rparr>) so
              in if raises e 4 then (RR_raised, so1)
                 else (RR_failed, add_retry \<lparr>rt_queue = ry_id r, rt_attempts = n, rt_next = db_now e + backoff n, rt_done = False\<rparr> so1))"

definition settle_sent :: "env \<Rightarrow> reply_row \<Rightarrow> social \<Rightarrow> row_result \<times> social" where
  \<comment> \<open>the statements after a send, inside the same \<open>try\<close>\<close>
  "settle_sent e r so =
     (let n = ry_attempts r + 1
      in if raises e 0 then settle_failed e r so
         else let so1 = update_reply (ry_id r) (\<lambda>x. x\<lparr>ry_status := Y_sent, ry_attempts := n, ry_sent_at := Some (db_now e)\<rparr>) so
              in if raises e 1 then settle_failed e r so1
                 else let so2 = log_sent (db_now e) r so1
                      in if raises e 2 then settle_failed e r so2 else (RR_sent, set_status (ry_events r) V_sent so2))"

definition settle_blocked :: "env \<Rightarrow> reply_row \<Rightarrow> social \<Rightarrow> row_result \<times> social" where
  \<comment> \<open>the handler of \<open>PermissionError\<close>\<close>
  "settle_blocked e r so =
     (if raises e 5 then (RR_raised, so)
      else let so1 = update_reply (ry_id r) (\<lambda>x. x\<lparr>ry_status := Y_blocked, ry_attempts := ry_attempts r + 1\<rparr>) so
           in if raises e 6 then (RR_raised, so1) else (RR_blocked, set_status (ry_events r) V_blocked so1))"

definition accept_reply :: "time \<Rightarrow> bool \<Rightarrow> reply_row \<Rightarrow> social \<Rightarrow> social" where
  \<comment> \<open>what the platform has accepted\<close>
  "accept_reply now accepted r so =
     (if \<not> accepted then so
      else so\<lparr>so_out := so_out so @
        [\<lparr>dv_row = ry_id r, dv_at = now, dv_platform = ry_platform r,
          dv_to = (if ry_platform r = ''facebook_comment'' then (case nonempty (ry_comment r) of Some c \<Rightarrow> c | None \<Rightarrow> ry_target r)
                   else ry_target r),
          dv_text = ry_text r\<rparr>]\<rparr>)"

definition process_reply :: "social_config \<Rightarrow> env \<Rightarrow> platform_answer \<Rightarrow> reply_row \<Rightarrow> social \<Rightarrow> row_result \<times> social" where
  "process_reply cfg e a r so =
     (let (k, accepted) = social_send cfg a r; so1 = accept_reply (db_now e) accepted r so
      in case k of SR_sent \<Rightarrow> settle_sent e r so1 | SR_denied \<Rightarrow> settle_blocked e r so1 | SR_error \<Rightarrow> settle_failed e r so1)"

fun process_replies :: "social_config \<Rightarrow> (reply_row \<times> env \<times> platform_answer) list \<Rightarrow> social \<Rightarrow> row_result list \<times> social" where
  "process_replies cfg [] so = ([], so)"
| "process_replies cfg ((r, e, a) # rs) so =
     (let (k, so1) = process_reply cfg e a r so
      in if k = RR_raised then ([k], so1) else let (ks, so2) = process_replies cfg rs so1 in (k # ks, so2))"

record sweep_result =
  sr_picked :: nat
  sr_sent :: nat
  sr_failed :: nat
  sr_blocked :: nat

definition reply_sweep :: "social_config \<Rightarrow> env \<Rightarrow> (int \<Rightarrow> env \<times> platform_answer) \<Rightarrow> nat \<Rightarrow> social \<Rightarrow> (unit + sweep_result) \<times> social" where
  \<comment> \<open>\<open>sweep_once\<close>; for every row its environment and the answer of its platform\<close>
  "reply_sweep cfg e turns limit so =
     (if raises e 0 then (Inl (), so)
      else let (rows, so1) = pick_replies e limit so;
               (ks, so2) = process_replies cfg (map (\<lambda>r. (r, turns (ry_id r))) rows) so1
           in (if RR_raised \<in> set ks then Inl ()
               else Inr \<lparr>sr_picked = length rows, sr_sent = count_list ks RR_sent, sr_failed = count_list ks RR_failed,
                         sr_blocked = count_list ks RR_blocked\<rparr>, so2))"

definition requeue :: "env \<Rightarrow> int \<Rightarrow> social \<Rightarrow> social" where
  "requeue e i so =
     so\<lparr>so_replies := update_where (\<lambda>r. ry_id r = i \<and> ry_status r \<in> {Y_failed, Y_blocked, Y_dlq})
          (\<lambda>r. r\<lparr>ry_status := Y_pending, ry_next := db_now e\<rparr>) (so_replies so),
        so_requeued := so_requeued so @ [i]\<rparr>"

definition social_retry ::
  "social_config \<Rightarrow> env \<Rightarrow> env \<Rightarrow> (int \<Rightarrow> env \<times> platform_answer) \<Rightarrow> int option \<Rightarrow> social \<Rightarrow> (unit + sweep_result) \<times> social" where
  "social_retry cfg e1 e2 turns qid so =
     (case qid of
        None \<Rightarrow> reply_sweep cfg e2 turns 1 so
      | Some i \<Rightarrow> if raises e1 0 then (Inl (), so) else reply_sweep cfg e2 turns 1 (requeue e1 i so))"

subsection \<open>The rate limit and the daemon\<close>

definition delay_seconds :: "social_config \<Rightarrow> int \<Rightarrow> int" where
  \<comment> \<open>\<open>random.randint\<close>, from a random number\<close>
  "delay_seconds cfg x = (let lo = sg_delay_min cfg; hi = max (sg_delay_max cfg) lo in lo + x mod (hi - lo + 1))"

definition can_send :: "env \<Rightarrow> social \<Rightarrow> bool" where
  "can_send e so \<longleftrightarrow>
     (case so_rate so of None \<Rightarrow> True | Some r \<Rightarrow> (case ra_next r of None \<Rightarrow> True | Some t \<Rightarrow> t \<le> py_now e))"

definition mark_sent :: "social_config \<Rightarrow> time \<Rightarrow> int \<Rightarrow> social \<Rightarrow> social" where
  "mark_sent cfg now delay so =
     so\<lparr>so_rate := Some (case so_rate so of
         None \<Rightarrow> \<lparr>ra_next = Some (now + secs delay), ra_last = now, ra_count = 1, ra_window = now\<rparr>
       | Some r \<Rightarrow> \<lparr>ra_next = Some (now + secs delay), ra_last = now,
                    ra_count = (if ra_window r < now - secs 3600 then 1 else ra_count r + 1),
                    ra_window = (if ra_window r < now - secs 3600 then now else ra_window r)\<rparr>)\<rparr>"

definition set_paused :: "bool \<Rightarrow> social \<Rightarrow> social" where
  "set_paused b so = so\<lparr>so_paused := b\<rparr>"

record daemon_input =
  di_env :: env
  di_rounds :: "nat \<Rightarrow> env \<times> ustring"
  di_sweep :: env
  di_turns :: "int \<Rightarrow> env \<times> platform_answer"
  di_mark :: env
  di_random :: int

definition daemon_turn :: "social_config \<Rightarrow> daemon_input \<Rightarrow> social \<Rightarrow> int \<times> social" where
  \<comment> \<open>one turn of \<open>_loop\<close> without the scan of old conversations, with the seconds it sleeps; statement 0 of
    \<open>di_env\<close> reads the pause, 1 the rate\<close>
  "daemon_turn cfg d so =
     (let e = di_env d
      in if \<not> sg_enabled cfg then (sg_idle cfg, so)
         else if raises e 0 then (30, so)
         else if so_paused so then (sg_idle cfg, so)
         else let (ok, so1) = process_due_threads cfg (fst (di_rounds d 0)) (\<lambda>i. di_rounds d (Suc i)) 10 so
              in if \<not> ok \<or> raises e 1 then (30, so1)
                 else if \<not> can_send e so1 then (5, so1)
                 else case reply_sweep cfg (di_sweep d) (di_turns d) 1 so1 of
                   (Inl _, so2) \<Rightarrow> (30, so2)
                 | (Inr k, so2) \<Rightarrow>
                     if sr_sent k > 0
                     then (if raises (di_mark d) 0 then (30, so2)
                           else let delay = delay_seconds cfg (di_random d) in (delay, mark_sent cfg (db_now (di_mark d)) delay so2))
                     else if sr_picked k > 0 then (5, so2) else (sg_idle cfg, so2))"

definition due_retries :: "env \<Rightarrow> nat \<Rightarrow> social \<Rightarrow> (retry_entry \<times> reply_row) list" where
  "due_retries e limit so =
     take limit (sort_key (\<lambda>(x, _). rt_next x)
       [(x, r). x \<leftarrow> so_retries so, \<not> rt_done x \<and> rt_next x \<le> db_now e, r \<leftarrow> so_replies so, ry_id r = rt_queue x])"

definition mark_retry_done :: "int \<Rightarrow> social \<Rightarrow> social" where
  "mark_retry_done i so = so\<lparr>so_retries := update_where (\<lambda>r. rt_queue r = i) (\<lambda>r. r\<lparr>rt_done := True\<rparr>) (so_retries so)\<rparr>"

subsection \<open>The invariant\<close>

definition answers_event :: "social_config \<Rightarrow> social \<Rightarrow> reply_row \<Rightarrow> int \<Rightarrow> bool" where
  "answers_event cfg so r i \<longleftrightarrow>
     (\<exists>x\<in>set (so_events so). xe_id x = i \<and> thread_of x = (ry_platform r, ry_target r)
        \<and> is_recruiting_intent (event_intent cfg x) \<and> xe_status x \<notin> {V_pending, V_ignored, V_needs_admin})"

definition open_reply :: "reply_row \<Rightarrow> bool" where
  "open_reply r \<longleftrightarrow> ry_status r \<in> {Y_pending, Y_sending, Y_failed}"

definition accepted_of :: "social \<Rightarrow> int \<Rightarrow> nat" where
  "accepted_of so i = count_where (\<lambda>d. dv_row d = i) (so_out so)"

definition allowance :: "social \<Rightarrow> int \<Rightarrow> nat" where
  \<comment> \<open>five attempts, and one for each time the row was put back\<close>
  "allowance so i = 5 + count_list (so_requeued so) i"

definition reply_ok :: "social_config \<Rightarrow> social \<Rightarrow> reply_row \<Rightarrow> bool" where
  "reply_ok cfg so r \<longleftrightarrow>
     ry_events r \<noteq> [] \<and> ry_max r = 5 \<and> ry_comment r \<in> {None, Some (ry_target r)}
     \<and> ry_attempts r \<le> allowance so (ry_id r) \<and> (open_reply r \<longrightarrow> ry_attempts r < allowance so (ry_id r))
     \<and> accepted_of so (ry_id r) \<le> ry_attempts r + (if ry_status r = Y_sending then 1 else 0)
     \<and> (\<forall>i\<in>set (ry_events r). answers_event cfg so r i)"

definition delivered_ok :: "social \<Rightarrow> delivery \<Rightarrow> bool" where
  "delivered_ok so d \<longleftrightarrow>
     (\<exists>r\<in>set (so_replies so). ry_id r = dv_row d \<and> dv_text d = ry_text r \<and> dv_platform d = ry_platform r
        \<and> dv_to d = ry_target r)"

definition spaced :: "social_config \<Rightarrow> reply_row \<Rightarrow> reply_row \<Rightarrow> bool" where
  "spaced cfg a b \<longleftrightarrow>
     (ry_target a = ry_target b \<and> ry_intent a = ry_intent b \<longrightarrow> ry_created a + secs (60 * sg_cooldown cfg) < ry_created b)"

definition social_inv :: "social_config \<Rightarrow> social \<Rightarrow> bool" where
  "social_inv cfg so \<longleftrightarrow>
     distinct (map xe_id (so_events so)) \<and> (\<forall>x\<in>set (so_events so). xe_id x < so_next_event so)
     \<and> distinct (map xe_key (so_events so))
     \<and> distinct (map ry_id (so_replies so)) \<and> (\<forall>r\<in>set (so_replies so). ry_id r < so_next_reply so)
     \<and> distinct (map ry_key (so_replies so)) \<and> distinct (concat (map ry_events (so_replies so)))
     \<and> sorted_wrt (spaced cfg) (so_replies so)
     \<and> (\<forall>r\<in>set (so_replies so). reply_ok cfg so r) \<and> (\<forall>d\<in>set (so_out so). delivered_ok so d)"

lemmas social_inv_defs = social_inv_def reply_ok_def delivered_ok_def answers_event_def accepted_of_def allowance_def

lemma inv_other_tables [simp]:
  "social_inv cfg (so\<lparr>so_threads := a\<rparr>) = social_inv cfg so" "social_inv cfg (so\<lparr>so_sent := b\<rparr>) = social_inv cfg so"
  "social_inv cfg (so\<lparr>so_retries := c\<rparr>) = social_inv cfg so" "social_inv cfg (so\<lparr>so_rate := d\<rparr>) = social_inv cfg so"
  "social_inv cfg (so\<lparr>so_paused := p\<rparr>) = social_inv cfg so"
  by (simp_all add: social_inv_defs)

lemma inv_log_sent [simp]: "social_inv cfg (log_sent now r so) = social_inv cfg so"
  by (simp add: log_sent_def)

lemma inv_add_retry [simp]: "social_inv cfg (add_retry x so) = social_inv cfg so"
  by (simp add: add_retry_def)

lemma inv_mark [simp]: "social_inv cfg (mark_sent cfg2 now d so) = social_inv cfg so"
  "social_inv cfg (set_paused b so) = social_inv cfg so" "social_inv cfg (mark_retry_done i so) = social_inv cfg so"
  by (simp_all add: mark_sent_def set_paused_def mark_retry_done_def)

lemma inv_thread_state [simp]: "social_inv cfg (update_thread_state t intents reply so) = social_inv cfg so"
  by (simp add: update_thread_state_def)

lemma inv_next [simp]: "social_inv cfg so \<Longrightarrow> social_inv cfg (so\<lparr>so_next_event := so_next_event so + 1\<rparr>)"
  "social_inv cfg so \<Longrightarrow> social_inv cfg (so\<lparr>so_next_reply := so_next_reply so + 1\<rparr>)"
  by (fastforce simp: social_inv_defs)+

definition same_core :: "inbox_event \<Rightarrow> inbox_event \<Rightarrow> bool" where
  "same_core x y \<longleftrightarrow> xe_id x = xe_id y \<and> xe_key x = xe_key y \<and> xe_platform x = xe_platform y \<and> xe_sender x = xe_sender y
     \<and> xe_comment x = xe_comment y \<and> xe_text x = xe_text y \<and> xe_media x = xe_media y"

lemma same_core_reads: "same_core x y \<Longrightarrow> thread_of x = thread_of y \<and> event_intent cfg x = event_intent cfg y"
  by (simp add: same_core_def thread_of_def event_intent_def split: option.split)

lemma core_reads [simp]:
  "thread_of (x\<lparr>xe_class := c\<rparr>) = thread_of x" "event_intent cfg (x\<lparr>xe_class := c\<rparr>) = event_intent cfg x"
  "thread_of (x\<lparr>xe_status := st\<rparr>) = thread_of x" "event_intent cfg (x\<lparr>xe_status := st\<rparr>) = event_intent cfg x"
  by (simp_all add: thread_of_def event_intent_def split: option.split)

lemma set_events_mem: "x \<in> set (so_events so) \<Longrightarrow> (if xe_id x \<in> set ids then f x else x) \<in> set (so_events (set_events ids f so))"
  by (auto simp: set_events_def mem_update_where)

lemma answers_set_events:
  assumes "answers_event cfg so r i" "\<And>x. same_core (f x) x"
    "\<And>x. x \<in> set (so_events so) \<Longrightarrow> xe_id x = i \<Longrightarrow> i \<in> set ids \<Longrightarrow> xe_status x \<notin> {V_pending, V_ignored, V_needs_admin} \<Longrightarrow>
      xe_status (f x) \<notin> {V_pending, V_ignored, V_needs_admin}"
  shows "answers_event cfg (set_events ids f so) r i"
proof -
  obtain x where x: "x \<in> set (so_events so)" "xe_id x = i" "thread_of x = (ry_platform r, ry_target r)"
    "is_recruiting_intent (event_intent cfg x)" "xe_status x \<notin> {V_pending, V_ignored, V_needs_admin}"
    using assms(1) by (auto simp: answers_event_def)
  let ?y = "if xe_id x \<in> set ids then f x else x"
  have "?y \<in> set (so_events (set_events ids f so))" using x(1) by (auto simp: set_events_def mem_update_where)
  moreover have "xe_id ?y = i" "thread_of ?y = thread_of x" "event_intent cfg ?y = event_intent cfg x"
    using same_core_reads [OF assms(2)] assms(2) [of x] x(2) by (auto simp: same_core_def)
  moreover have "xe_status ?y \<notin> {V_pending, V_ignored, V_needs_admin}" using assms(3) [OF x(1,2) _ x(5)] x(2,5) by auto
  ultimately show ?thesis using x(3,4) unfolding answers_event_def by (intro bexI [of _ ?y]) simp_all
qed

lemma set_events_frame [simp]:
  "so_replies (set_events ids f so) = so_replies so" "so_out (set_events ids f so) = so_out so"
  "so_next_event (set_events ids f so) = so_next_event so" "so_next_reply (set_events ids f so) = so_next_reply so"
  "so_replies (set_status ids st so) = so_replies so" "so_out (set_status ids st so) = so_out so"
  "allowance (set_events ids f so) = allowance so" "allowance (set_status ids st so) = allowance so"
  by (simp_all add: set_events_def set_status_def allowance_def fun_eq_iff)

lemma inv_set_events:
  assumes "social_inv cfg so" and core: "\<And>x. same_core (f x) x"
    and keep: "\<And>x r. x \<in> set (so_events so) \<Longrightarrow> r \<in> set (so_replies so) \<Longrightarrow> xe_id x \<in> set (ry_events r) \<Longrightarrow> xe_id x \<in> set ids \<Longrightarrow>
      xe_status x \<notin> {V_pending, V_ignored, V_needs_admin} \<Longrightarrow> xe_status (f x) \<notin> {V_pending, V_ignored, V_needs_admin}"
  shows "social_inv cfg (set_events ids f so)"
proof -
  have "map xe_id (so_events (set_events ids f so)) = map xe_id (so_events so)"
    "map xe_key (so_events (set_events ids f so)) = map xe_key (so_events so)"
    using core by (simp_all add: set_events_def map_key_update_where same_core_def)
  moreover have "\<forall>x\<in>set (so_events (set_events ids f so)). xe_id x < so_next_event so"
    using assms(1) core by (auto simp: social_inv_def set_events_def mem_update_where same_core_def)
  moreover have "reply_ok cfg (set_events ids f so) r" if r: "r \<in> set (so_replies so)" for r
  proof -
    have "reply_ok cfg so r" using assms(1) r by (simp add: social_inv_def)
    moreover have "answers_event cfg (set_events ids f so) r i" if "i \<in> set (ry_events r)" "answers_event cfg so r i" for i
      by (rule answers_set_events [OF that(2) core]) (use keep r that(1) in auto)
    ultimately show ?thesis by (simp add: reply_ok_def accepted_of_def)
  qed
  moreover have "delivered_ok (set_events ids f so) d = delivered_ok so d" for d by (simp add: delivered_ok_def)
  ultimately show ?thesis using assms(1) by (simp add: social_inv_def)
qed

lemma inv_set_status:
  assumes "social_inv cfg so" "st \<in> {V_pending, V_ignored, V_needs_admin} \<Longrightarrow> \<forall>r\<in>set (so_replies so). set (ry_events r) \<inter> set ids = {}"
  shows "social_inv cfg (set_status ids st so)"
  unfolding set_status_def by (rule inv_set_events [OF assms(1)]) (use assms(2) in \<open>auto simp: same_core_def\<close>)

lemma inv_append_event:
  assumes "social_inv cfg so" "xe_id x = so_next_event so" "xe_key x \<notin> xe_key ` set (so_events so)"
  shows "social_inv cfg (so\<lparr>so_next_event := so_next_event so + 1, so_events := so_events so @ [x]\<rparr>)"
  using assms by (fastforce simp: social_inv_defs)

lemma inv_ingest: "social_inv cfg so \<Longrightarrow> social_inv cfg (snd (ingest_social_event cfg e i so))"
proof -
  assume inv: "social_inv cfg so"
  show ?thesis
  proof (cases "raises e 0 \<or> has_row (\<lambda>r. xe_key r = event_key (sg_sha cfg) i) (so_events so)")
    case True
    then show ?thesis using inv by (auto simp: ingest_social_event_def)
  next
    case False
    let ?so1 = "so\<lparr>so_next_event := so_next_event so + 1, so_events := so_events so @ [new_event cfg (db_now e) (so_next_event so) i]\<rparr>"
    have inv1: "social_inv cfg ?so1"
      by (rule inv_append_event [OF inv]) (use False in \<open>auto simp: new_event_def has_row_iff\<close>)
    have fresh: "so_next_event so \<notin> set (ry_events r)" if "r \<in> set (so_replies so)" for r
      using inv that by (fastforce simp: social_inv_defs)
    have "social_inv cfg (set_events [so_next_event so] (\<lambda>r. r\<lparr>xe_class := c, xe_status := s\<rparr>) ?so1)" for c s
      by (rule inv_set_events [OF inv1]) (use fresh in \<open>auto simp: same_core_def\<close>)
    then show ?thesis using False inv1 by (simp add: ingest_social_event_def Let_def)
  qed
qed

subsection \<open>The planner keeps it\<close>

definition held :: "social_config \<Rightarrow> string \<times> ustring \<Rightarrow> inbox_event list \<Rightarrow> social \<Rightarrow> bool" where
  \<comment> \<open>the events a round has claimed\<close>
  "held cfg t evs so \<longleftrightarrow>
     evs \<noteq> [] \<and> distinct (map xe_id evs)
     \<and> (\<forall>r\<in>set evs. \<exists>x\<in>set (so_events so). xe_id x = xe_id r \<and> thread_of x = t
          \<and> event_intent cfg x = event_intent cfg r \<and> xe_status x = V_planning)
     \<and> (\<forall>r\<in>set (so_replies so). set (ry_events r) \<inter> xe_id ` set evs = {})
     \<and> (\<forall>r\<in>set evs. thread_of r = t)"

lemma claim_held:
  assumes inv: "social_inv cfg so" and c: "pending_events t so = (evs, so1)" "evs \<noteq> []"
  shows "social_inv cfg so1 \<and> held cfg t evs so1"
proof -
  have evs: "evs = claimed_events t so" and so1: "so1 = set_status (map xe_id evs) V_planning so"
    using c by (auto simp: pending_events_def Let_def)
  have mem: "r \<in> set evs \<longleftrightarrow> r \<in> set (so_events so) \<and> xe_status r = V_pending \<and> thread_of r = t" for r
    by (simp add: evs claimed_events_def)
  have d: "distinct (map xe_id (so_events so))" using inv by (simp add: social_inv_def)
  have "distinct (map xe_id evs)"
  proof -
    have "distinct (so_events so)" "inj_on xe_id (set (so_events so))" using d by (simp_all add: distinct_map)
    then have "distinct evs" "inj_on xe_id (set evs)" by (auto simp: evs claimed_events_def inj_on_def)
    then show ?thesis by (simp add: distinct_map)
  qed
  moreover have free: "set (ry_events r) \<inter> xe_id ` set evs = {}" if r: "r \<in> set (so_replies so)" for r
  proof -
    have "answers_event cfg so r i" if "i \<in> set (ry_events r)" for i using inv r that by (simp add: social_inv_def reply_ok_def)
    then show ?thesis using distinct_key_unique [OF d] by (auto simp: mem answers_event_def) (metis)
  qed
  moreover have "\<exists>x\<in>set (so_events so1). xe_id x = xe_id r \<and> thread_of x = t \<and> event_intent cfg x = event_intent cfg r \<and> xe_status x = V_planning"
    if r: "r \<in> set evs" for r
  proof
    show "r\<lparr>xe_status := V_planning\<rparr> \<in> set (so_events so1)"
      using r mem [of r] unfolding so1 set_status_def set_events_def
      by (auto simp: mem_update_where intro!: bexI [of _ r])
    show "xe_id (r\<lparr>xe_status := V_planning\<rparr>) = xe_id r \<and> thread_of (r\<lparr>xe_status := V_planning\<rparr>) = t
      \<and> event_intent cfg (r\<lparr>xe_status := V_planning\<rparr>) = event_intent cfg r \<and> xe_status (r\<lparr>xe_status := V_planning\<rparr>) = V_planning"
      using r by (simp add: mem)
  qed
  moreover have "social_inv cfg so1" unfolding so1 by (rule inv_set_status [OF inv]) simp
  ultimately show ?thesis using c(2) mem by (auto simp: held_def so1)
qed

lemma held_event:
  "held cfg t evs so \<Longrightarrow> r \<in> set evs \<Longrightarrow> \<exists>x\<in>set (so_events so). xe_id x = xe_id r \<and> thread_of x = t
     \<and> event_intent cfg x = event_intent cfg r \<and> xe_status x = V_planning"
  unfolding held_def by blast

lemma class_held:
  assumes "social_inv cfg so" "held cfg t evs so"
  shows "social_inv cfg (set_events ids (\<lambda>x. x\<lparr>xe_class := c\<rparr>) so) \<and> held cfg t evs (set_events ids (\<lambda>x. x\<lparr>xe_class := c\<rparr>) so)"
proof
  let ?f = "\<lambda>x :: inbox_event. x\<lparr>xe_class := c\<rparr>"
  show "social_inv cfg (set_events ids ?f so)" by (rule inv_set_events [OF assms(1)]) (simp_all add: same_core_def)
  have ev: "\<forall>r\<in>set evs. \<exists>x\<in>set (so_events (set_events ids ?f so)). xe_id x = xe_id r \<and> thread_of x = t
      \<and> event_intent cfg x = event_intent cfg r \<and> xe_status x = V_planning"
  proof
    fix r assume "r \<in> set evs"
    then obtain x where x: "x \<in> set (so_events so)" "xe_id x = xe_id r" "thread_of x = t" "event_intent cfg x = event_intent cfg r" "xe_status x = V_planning"
      using held_event [OF assms(2)] by blast
    show "\<exists>x\<in>set (so_events (set_events ids ?f so)). xe_id x = xe_id r \<and> thread_of x = t
        \<and> event_intent cfg x = event_intent cfg r \<and> xe_status x = V_planning"
      by (rule bexI [OF _ set_events_mem [OF x(1), of ids ?f]]) (use x(2-) in \<open>cases "xe_id x \<in> set ids"; simp\<close>)
  qed
  note h = assms(2) [unfolded held_def]
  from h [THEN conjunct1] h [THEN conjunct2, THEN conjunct1] h [THEN conjunct2, THEN conjunct2, THEN conjunct2, THEN conjunct1]
    h [THEN conjunct2, THEN conjunct2, THEN conjunct2, THEN conjunct2]
  show "held cfg t evs (set_events ids ?f so)" using ev unfolding held_def set_events_frame by (intro conjI)
qed

lemma refresh_held:
  "social_inv cfg so \<Longrightarrow> held cfg t evs so \<Longrightarrow>
    social_inv cfg (snd (refresh_classifications cfg e i rs so)) \<and> held cfg t evs (snd (refresh_classifications cfg e i rs so))"
  by (induction cfg e i rs so rule: refresh_classifications.induct) (auto simp: class_held)

lemma held_status:
  assumes "social_inv cfg so" "held cfg t evs so"
  shows "social_inv cfg (set_status (map xe_id evs) st so)"
  by (rule inv_set_status [OF assms(1)]) (use assms(2) in \<open>auto simp: held_def\<close>)

lemma inv_ignore: "social_inv cfg so \<Longrightarrow> held cfg t evs so \<Longrightarrow> social_inv cfg (snd (ignore_events e evs so))"
  by (simp add: ignore_events_def held_status)

lemma plan_held:
  "snd (plan_reply cfg e ai t evs so) = so \<or> (\<exists>is rep. snd (plan_reply cfg e ai t evs so) = update_thread_state t is rep so)"
  by (auto simp: plan_reply_def Let_def)

lemma held_thread_state [simp]: "held cfg t evs (update_thread_state s is rep so) = held cfg t evs so"
  by (simp add: held_def update_thread_state_def)

lemma inv_append_reply:
  assumes inv: "social_inv cfg so" and held: "held cfg t evs so"
    and rec: "\<forall>r\<in>set evs. is_recruiting_intent (event_intent cfg r)"
    and key: "ry_key r \<notin> ry_key ` set (so_replies so)"
    and r: "r = new_reply cfg (db_now e) (so_next_reply so) t evs staff txt intent"
    and fresh: "\<not> recent_dupe cfg e (snd t) intent so"
  shows "social_inv cfg (so\<lparr>so_next_reply := so_next_reply so + 1, so_replies := so_replies so @ [r]\<rparr>)"
proof -
  let ?so = "so\<lparr>so_next_reply := so_next_reply so + 1, so_replies := so_replies so @ [r]\<rparr>"
  have out: "accepted_of so (so_next_reply so) = 0"
  proof -
    have "dv_row d \<noteq> so_next_reply so" if "d \<in> set (so_out so)" for d
      using inv that by (fastforce simp: social_inv_def delivered_ok_def)
    then show ?thesis by (auto simp: accepted_of_def count_where_def filter_empty_conv)
  qed
  have disj: "xe_id x \<notin> set (ry_events a)" if "a \<in> set (so_replies so)" "x \<in> set evs" for a x
    using held that unfolding held_def by blast
  have old: "answers_event cfg ?so x i = answers_event cfg so x i" "accepted_of ?so j = accepted_of so j" for x i j
    by (simp_all add: answers_event_def accepted_of_def)
  have "answers_event cfg so r i" if i: "i \<in> set (ry_events r)" for i
  proof -
    obtain ev where ev: "ev \<in> set evs" "xe_id ev = i" using i by (auto simp: r new_reply_def)
    then obtain x where "x \<in> set (so_events so)" "xe_id x = i" "thread_of x = t" "event_intent cfg x = event_intent cfg ev" "xe_status x = V_planning"
      using held unfolding held_def by blast
    then show ?thesis using rec ev(1) by (auto simp: answers_event_def r new_reply_def)
  qed
  moreover have "evs \<noteq> []" "distinct (map xe_id evs)" using held by (simp_all add: held_def)
  moreover have "ry_comment r \<in> {None, Some (ry_target r)}"
  proof -
    have "thread_of (hd evs) = t" using held by (simp add: held_def)
    then show ?thesis by (auto simp: r new_reply_def thread_of_def split: option.splits)
  qed
  ultimately have "reply_ok cfg ?so r" using out by (simp add: reply_ok_def old) (simp add: r new_reply_def open_reply_def allowance_def)
  moreover have "reply_ok cfg ?so x" if "x \<in> set (so_replies so)" for x
    using inv that by (simp add: social_inv_def reply_ok_def old allowance_def)
  moreover have "sorted_wrt (spaced cfg) (so_replies so @ [r])"
    using inv fresh by (auto simp: social_inv_def sorted_wrt_append spaced_def recent_dupe_def has_row_iff r new_reply_def)
  moreover have "distinct (concat (map ry_events (so_replies so @ [r])))"
    using inv held disj by (auto simp: social_inv_def held_def r new_reply_def)
  moreover have "ry_id r = so_next_reply so" by (simp add: r new_reply_def)
  ultimately show ?thesis using inv key by (fastforce simp: social_inv_def delivered_ok_def)
qed

lemma inv_queue_plan:
  assumes inv: "social_inv cfg so" and held: "held cfg t evs so" and rec: "\<forall>r\<in>set evs. is_recruiting_intent (event_intent cfg r)"
  shows "social_inv cfg (snd (queue_plan cfg e t evs staff txt intent so))"
proof -
  let ?r = "new_reply cfg (db_now e) (so_next_reply so) t evs staff txt intent"
  let ?so2 = "so\<lparr>so_next_reply := so_next_reply so + 1, so_replies := so_replies so @ [?r]\<rparr>"
  have ign: "social_inv cfg (snd (ignore_events e evs so))" by (rule inv_ignore [OF inv held])
  have app: "social_inv cfg ?so2" if "\<not> has_row (\<lambda>x. ry_key x = ry_key ?r) (so_replies so)" "\<not> recent_dupe cfg e (snd t) intent so"
    by (rule inv_append_reply [OF inv held rec _ refl that(2)]) (use that(1) in \<open>auto simp: has_row_iff\<close>)
  have q: "social_inv cfg (set_status ids V_queued s)" if "social_inv cfg s" for ids s
    by (rule inv_set_status [OF that]) simp
  show ?thesis
    using inv ign app q by (simp add: queue_plan_def enqueue_reply_def Let_def split: option.split sum.split)
qed

lemma inv_process_thread: "social_inv cfg so \<Longrightarrow> social_inv cfg (snd (process_thread cfg e ai t so))"
proof -
  assume inv: "social_inv cfg so"
  obtain evs so1 where c: "pending_events t so = (evs, so1)" by fastforce
  show ?thesis
  proof (cases "raises e 0 \<or> evs = []")
    case True
    then show ?thesis using inv c
      by (auto simp: process_thread_def pending_events_def Let_def set_status_def set_events_def update_where_def)
  next
    case False
    then have h: "social_inv cfg so1" "held cfg t evs so1" using claim_held [OF inv c] by auto
    obtain ok so2 where r: "refresh_classifications cfg e 0 evs so1 = (ok, so2)" by fastforce
    have h2: "social_inv cfg so2" "held cfg t evs so2" using refresh_held [OF h, of e 0 evs] by (simp_all add: r)
    obtain p so3 where p: "plan_reply cfg e ai t evs so2 = (p, so3)" by fastforce
    have h3: "social_inv cfg so3" "held cfg t evs so3" using plan_held [of cfg e ai t evs so2] h2 by (auto simp: p)
    have "social_inv cfg (snd (queue_plan cfg e t evs staff rep i so3))" if "list_all (\<lambda>r. is_recruiting_intent (event_intent cfg r)) evs" for staff rep i
      by (rule inv_queue_plan [OF h3]) (use that in \<open>simp add: list_all_iff\<close>)
    then show ?thesis
      using False h h2 h3 c r p held_status [OF h3] inv_ignore [OF h3] inv_ignore [OF h2]
      by (auto simp: process_thread_def split: sum.split option.split prod.split)
  qed
qed

lemma inv_process_threads: "social_inv cfg so \<Longrightarrow> social_inv cfg (snd (process_threads cfg ts so))"
proof (induction cfg ts so rule: process_threads.induct)
  case (2 cfg t e ai ts so)
  obtain k so1 where p: "process_thread cfg e ai t so = (k, so1)" by fastforce
  then show ?case using 2 inv_process_thread [of cfg so e ai t] by auto
qed simp

subsection \<open>The sweep keeps it\<close>

definition sending :: "reply_row \<Rightarrow> social \<Rightarrow> bool" where
  \<comment> \<open>the row is stored as the sweep read it, and the platforms have not accepted it more often than its attempts\<close>
  "sending r so \<longleftrightarrow> r \<in> set (so_replies so) \<and> ry_status r = Y_sending \<and> accepted_of so (ry_id r) \<le> ry_attempts r"

lemma update_reply_frame [simp]:
  "so_events (update_reply i f so) = so_events so" "so_out (update_reply i f so) = so_out so"
  "so_next_event (update_reply i f so) = so_next_event so" "so_next_reply (update_reply i f so) = so_next_reply so"
  by (simp_all add: update_reply_def)

definition same_reply :: "reply_row \<Rightarrow> reply_row \<Rightarrow> bool" where
  "same_reply x y \<longleftrightarrow> ry_id x = ry_id y \<and> ry_key x = ry_key y \<and> ry_events x = ry_events y \<and> ry_platform x = ry_platform y
     \<and> ry_target x = ry_target y \<and> ry_text x = ry_text y \<and> ry_intent x = ry_intent y \<and> ry_created x = ry_created y
     \<and> ry_max x = ry_max y \<and> ry_comment x = ry_comment y"

lemma inv_map_replies:
  assumes inv: "social_inv cfg so" and same: "\<And>x. x \<in> set (so_replies so) \<Longrightarrow> same_reply (g x) x"
    and ok: "\<And>x. x \<in> set (so_replies so) \<Longrightarrow> ry_attempts (g x) \<le> allowance so (ry_id x)
       \<and> (open_reply (g x) \<longrightarrow> ry_attempts (g x) < allowance so (ry_id x) + count_list extra (ry_id x))
       \<and> accepted_of so (ry_id x) \<le> ry_attempts (g x) + (if ry_status (g x) = Y_sending then 1 else 0)"
  shows "social_inv cfg (so\<lparr>so_replies := map g (so_replies so), so_requeued := so_requeued so @ extra\<rparr>)"
proof -
  let ?so = "so\<lparr>so_replies := map g (so_replies so), so_requeued := so_requeued so @ extra\<rparr>"
  have m: "map ry_id (map g (so_replies so)) = map ry_id (so_replies so)" "map ry_key (map g (so_replies so)) = map ry_key (so_replies so)"
    "map ry_events (map g (so_replies so)) = map ry_events (so_replies so)"
    using same by (simp_all add: same_reply_def)
  have "sorted_wrt (spaced cfg) (map g (so_replies so))"
    unfolding sorted_wrt_map
    by (rule sorted_wrt_mono_rel [of "so_replies so" "spaced cfg"]) (use inv same in \<open>auto simp: social_inv_def spaced_def same_reply_def\<close>)
  moreover have "reply_ok cfg ?so (g x)" if x: "x \<in> set (so_replies so)" for x
  proof -
    have "reply_ok cfg so x" using inv x by (simp add: social_inv_def)
    then show ?thesis using ok [OF x] same [OF x] by (simp add: reply_ok_def same_reply_def answers_event_def accepted_of_def allowance_def add.assoc)
  qed
  moreover have "delivered_ok ?so d" if "d \<in> set (so_out so)" for d
  proof -
    have old: "delivered_ok so d" using inv that by (simp add: social_inv_def)
    obtain r where "r \<in> set (so_replies so)" "ry_id r = dv_row d" "dv_text d = ry_text r" "dv_platform d = ry_platform r" "dv_to d = ry_target r"
      using old unfolding delivered_ok_def by blast
    then show ?thesis using same [of r] by (auto simp: delivered_ok_def same_reply_def intro!: bexI [of _ r])
  qed
  moreover have "\<forall>r\<in>set (map g (so_replies so)). ry_id r < so_next_reply so"
    using inv same by (auto simp: social_inv_def same_reply_def)
  ultimately show ?thesis using inv m unfolding social_inv_def by (simp del: map_map)
qed

lemmas inv_map_only = inv_map_replies [where extra = "[]", simplified]

lemma update_reply_map: "update_reply i f so = so\<lparr>so_replies := map (\<lambda>x. if ry_id x = i then f x else x) (so_replies so)\<rparr>"
  by (simp add: update_reply_def update_where_def)

lemma inv_update_reply:
  assumes inv: "social_inv cfg so" and r: "r \<in> set (so_replies so)" and same: "\<And>x. same_reply (f x) x"
    and ok: "ry_attempts (f r) \<le> allowance so (ry_id r) \<and> (open_reply (f r) \<longrightarrow> ry_attempts (f r) < allowance so (ry_id r))
       \<and> accepted_of so (ry_id r) \<le> ry_attempts (f r) + (if ry_status (f r) = Y_sending then 1 else 0)"
  shows "social_inv cfg (update_reply (ry_id r) f so)"
  unfolding update_reply_map
proof (rule inv_map_only [OF inv])
  fix x assume x: "x \<in> set (so_replies so)"
  show "same_reply (if ry_id x = ry_id r then f x else x) x" using same by (simp add: same_reply_def)
  have "x = r" if "ry_id x = ry_id r" using inv x r that distinct_key_unique [of ry_id "so_replies so"] by (simp add: social_inv_def)
  moreover have "reply_ok cfg so x" using inv x by (simp add: social_inv_def)
  ultimately show "ry_attempts (if ry_id x = ry_id r then f x else x) \<le> allowance so (ry_id x)
      \<and> (open_reply (if ry_id x = ry_id r then f x else x) \<longrightarrow> ry_attempts (if ry_id x = ry_id r then f x else x) < allowance so (ry_id x))
      \<and> accepted_of so (ry_id x) \<le> ry_attempts (if ry_id x = ry_id r then f x else x)
          + (if ry_status (if ry_id x = ry_id r then f x else x) = Y_sending then 1 else 0)"
    using ok by (auto simp: reply_ok_def)
qed

lemma picked_distinct:
  assumes "distinct (map ry_id rs)"
  shows "distinct (map ry_id (take limit (sort_key ry_next (sort_key ry_created (filter P rs)))))"
  using assms by (auto simp: distinct_map inj_on_def dest!: in_set_takeD)

lemma picked_sending:
  assumes "x \<in> set rs" "x \<in> set (so_replies so)" "accepted_of so (ry_id x) \<le> ry_attempts x"
  shows "sending (x\<lparr>ry_status := Y_sending\<rparr>)
    (so\<lparr>so_replies := map (\<lambda>r. if ry_id r \<in> set (map ry_id rs) then r\<lparr>ry_status := Y_sending\<rparr> else r) (so_replies so)\<rparr>)"
proof -
  have "x\<lparr>ry_status := Y_sending\<rparr>
      \<in> (\<lambda>r. if ry_id r \<in> set (map ry_id rs) then r\<lparr>ry_status := Y_sending\<rparr> else r) ` set (so_replies so)"
    by (rule image_eqI [OF _ assms(2)]) (use assms(1) in simp)
  then show ?thesis using assms(3) by (simp add: sending_def accepted_of_def)
qed

lemma inv_pick:
  assumes inv: "social_inv cfg so" and p: "pick_replies e limit so = (rows, so1)"
  shows "social_inv cfg so1 \<and> distinct (map ry_id rows) \<and> (\<forall>r\<in>set rows. sending r so1)"
proof -
  define rs where "rs = take limit (sort_key ry_next (sort_key ry_created (filter (ready e) (so_replies so))))"
  let ?ids = "set (map ry_id rs)"
  let ?g = "\<lambda>r. if ry_id r \<in> ?ids then r\<lparr>ry_status := Y_sending\<rparr> else r"
  have so1: "so1 = so\<lparr>so_replies := map ?g (so_replies so)\<rparr>" and rows: "rows = map (\<lambda>r. r\<lparr>ry_status := Y_sending\<rparr>) rs"
    using p by (simp_all add: pick_replies_def Let_def update_where_def rs_def)
  have mem: "r \<in> set (so_replies so)" "ready e r" if "r \<in> set rs" for r
    using that by (auto simp: rs_def dest!: in_set_takeD)
  have d: "distinct (map ry_id (so_replies so))" using inv by (simp add: social_inv_def)
  have "social_inv cfg so1" unfolding so1
  proof (rule inv_map_only [OF inv])
    fix x assume x: "x \<in> set (so_replies so)"
    show "same_reply (?g x) x" by (simp add: same_reply_def)
    have ok: "reply_ok cfg so x" using inv x by (simp add: social_inv_def)
    show "ry_attempts (?g x) \<le> allowance so (ry_id x) \<and> (open_reply (?g x) \<longrightarrow> ry_attempts (?g x) < allowance so (ry_id x))
       \<and> accepted_of so (ry_id x) \<le> ry_attempts (?g x) + (if ry_status (?g x) = Y_sending then 1 else 0)"
    proof (cases "ry_id x \<in> ?ids")
      case True
      then obtain r where r: "r \<in> set rs" "ry_id x = ry_id r" by auto
      then have "ready e x" using distinct_key_unique [OF d x mem(1) [OF r(1)] r(2)] mem(2) [OF r(1)] by simp
      then have "open_reply x" "ry_status x \<noteq> Y_sending" by (auto simp: ready_def open_reply_def)
      then show ?thesis using ok True by (simp add: reply_ok_def)
    next
      case False
      then show ?thesis using ok by (simp add: reply_ok_def)
    qed
  qed
  moreover have "distinct (map ry_id rows)" using picked_distinct [OF d, of limit "ready e"] by (simp add: rows rs_def comp_def)
  moreover have "\<forall>r\<in>set rows. sending r so1"
  proof
    fix r assume "r \<in> set rows"
    then obtain x where x: "x \<in> set rs" "r = x\<lparr>ry_status := Y_sending\<rparr>" unfolding rows set_map by (elim imageE)
    have "reply_ok cfg so x" "ry_status x \<noteq> Y_sending" using inv mem [OF x(1)] by (auto simp: social_inv_def ready_def)
    then have acc: "accepted_of so (ry_id x) \<le> ry_attempts x" by (simp add: reply_ok_def)
    show "sending r so1" unfolding x(2) so1 by (rule picked_sending [OF x(1) mem(1) [OF x(1)] acc])
  qed
  ultimately show ?thesis by blast
qed

lemma accepted_frame [simp]:
  "accepted_of (update_reply i f so) j = accepted_of so j" "accepted_of (set_status ids st so) j = accepted_of so j"
  "accepted_of (add_retry x so) j = accepted_of so j" "accepted_of (log_sent now r so) j = accepted_of so j"
  by (simp_all add: accepted_of_def add_retry_def log_sent_def)

lemma requeued_frame [simp]:
  "so_requeued (update_reply i f so) = so_requeued so" "so_requeued (add_retry x so) = so_requeued so"
  "so_requeued (log_sent now r so) = so_requeued so" "so_requeued (set_status ids st so) = so_requeued so"
  "so_requeued (accept_reply now acc r so) = so_requeued so"
  by (simp_all add: update_reply_def add_retry_def log_sent_def set_status_def set_events_def accept_reply_def)

lemma allowance_accept [simp]: "allowance (accept_reply now acc r so) = allowance so"
  by (simp add: allowance_def fun_eq_iff)

lemma replies_frame [simp]:
  "so_replies (add_retry x so) = so_replies so" "so_replies (log_sent now r so) = so_replies so"
  "so_out (add_retry x so) = so_out so" "so_out (log_sent now r so) = so_out so"
  by (simp_all add: add_retry_def log_sent_def)

lemma sending_keep:
  "ry_id r \<noteq> i \<Longrightarrow> sending r so \<Longrightarrow> sending r (update_reply i f so)"
  "sending r (set_status ids st so) = sending r so" "sending r (add_retry x so) = sending r so"
  "sending r (log_sent now q so) = sending r so"
  by (auto simp: sending_def update_reply_def mem_update_where accepted_of_def)

lemma inv_settle_failed:
  assumes inv: "social_inv cfg so" and x: "x \<in> set (so_replies so)" "ry_id x = ry_id r"
    and r: "ry_max r = 5" "ry_attempts r < allowance so (ry_id r)" "accepted_of so (ry_id r) \<le> ry_attempts r + 1"
  shows "social_inv cfg (snd (settle_failed e r so))"
proof -
  have "social_inv cfg (update_reply (ry_id x) (\<lambda>y. y\<lparr>ry_status := Y_dlq, ry_attempts := ry_attempts r + 1\<rparr>) so)"
    by (rule inv_update_reply [OF inv x(1)]) (use r x(2) in \<open>simp_all add: same_reply_def open_reply_def\<close>)
  moreover have "social_inv cfg (update_reply (ry_id x) (\<lambda>y. y\<lparr>ry_status := Y_failed, ry_attempts := ry_attempts r + 1, ry_next := t\<rparr>) so)"
    if "ry_attempts r + 1 < 5" for t
    by (rule inv_update_reply [OF inv x(1)]) (use r x(2) that in \<open>simp_all add: same_reply_def open_reply_def allowance_def\<close>)
  ultimately show ?thesis using inv r(1) by (simp add: settle_failed_def Let_def x(2))
qed

lemma inv_settle_sent:
  assumes inv: "social_inv cfg so" and x: "r \<in> set (so_replies so)"
    and r: "ry_max r = 5" "ry_attempts r < allowance so (ry_id r)" "accepted_of so (ry_id r) \<le> ry_attempts r + 1"
  shows "social_inv cfg (snd (settle_sent e r so))"
proof -
  let ?f = "\<lambda>y :: reply_row. y\<lparr>ry_status := Y_sent, ry_attempts := ry_attempts r + 1, ry_sent_at := Some (db_now e)\<rparr>"
  let ?so1 = "update_reply (ry_id r) ?f so"
  have inv1: "social_inv cfg ?so1"
    by (rule inv_update_reply [OF inv x]) (use r in \<open>simp_all add: same_reply_def open_reply_def\<close>)
  have x1: "?f r \<in> set (so_replies ?so1)" using x by (auto simp: update_reply_def mem_update_where intro!: bexI [of _ r])
  have f: "social_inv cfg (snd (settle_failed e r s))"
    if "social_inv cfg s" "so_replies s = so_replies ?so1" "so_out s = so_out so" "so_requeued s = so_requeued so" for s
    by (rule inv_settle_failed [OF that(1), of "?f r"]) (use x1 r that(2-4) in \<open>simp_all add: accepted_of_def allowance_def\<close>)
  have "social_inv cfg (set_status (ry_events r) V_sent (log_sent (db_now e) r ?so1))"
    by (rule inv_set_status) (use inv1 in simp_all)
  then show ?thesis
    using f [of ?so1] f [of "log_sent (db_now e) r ?so1"] inv1 inv_settle_failed [OF inv x refl r]
    by (simp add: settle_sent_def Let_def)
qed

lemma inv_settle_blocked:
  assumes inv: "social_inv cfg so" and x: "r \<in> set (so_replies so)"
    and r: "ry_attempts r < allowance so (ry_id r)" "accepted_of so (ry_id r) \<le> ry_attempts r + 1"
  shows "social_inv cfg (snd (settle_blocked e r so))"
proof -
  let ?so1 = "update_reply (ry_id r) (\<lambda>y. y\<lparr>ry_status := Y_blocked, ry_attempts := ry_attempts r + 1\<rparr>) so"
  have inv1: "social_inv cfg ?so1"
    by (rule inv_update_reply [OF inv x]) (use r in \<open>simp_all add: same_reply_def open_reply_def\<close>)
  have "social_inv cfg (set_status (ry_events r) V_blocked ?so1)"
    by (rule inv_set_status [OF inv1]) simp
  then show ?thesis using inv inv1 by (simp add: settle_blocked_def Let_def)
qed

lemma accepted_accept:
  "accepted_of (accept_reply now acc r so) i = accepted_of so i + (if acc \<and> ry_id r = i then 1 else 0)"
  by (simp add: accept_reply_def accepted_of_def count_where_def)

lemma accept_frame [simp]:
  "so_replies (accept_reply now acc r so) = so_replies so" "so_events (accept_reply now acc r so) = so_events so"
  "so_next_event (accept_reply now acc r so) = so_next_event so" "so_next_reply (accept_reply now acc r so) = so_next_reply so"
  by (simp_all add: accept_reply_def)

lemma inv_accept:
  assumes inv: "social_inv cfg so" and s: "sending r so"
  shows "social_inv cfg (accept_reply now acc r so)"
proof -
  let ?so = "accept_reply now acc r so"
  have "reply_ok cfg ?so x" if x: "x \<in> set (so_replies so)" for x
  proof -
    have ok: "reply_ok cfg so x" using inv x by (simp add: social_inv_def)
    have ans: "answers_event cfg (accept_reply now b r so) = answers_event cfg so" for b by (simp add: answers_event_def fun_eq_iff)
    show ?thesis
    proof (cases "ry_id x = ry_id r")
      case True
      then have "x = r" using inv x s distinct_key_unique [of ry_id "so_replies so"] by (simp add: social_inv_def sending_def)
      then show ?thesis using ok s by (simp add: reply_ok_def accepted_accept sending_def ans)
    next
      case False
      then show ?thesis using ok by (simp add: reply_ok_def accepted_accept ans)
    qed
  qed
  moreover have "delivered_ok ?so d" if d: "d \<in> set (so_out ?so)" for d
  proof (cases "d \<in> set (so_out so)")
    case True
    then show ?thesis using inv by (simp add: social_inv_def delivered_ok_def)
  next
    case False
    moreover have r: "r \<in> set (so_replies so)" using s by (simp add: sending_def)
    moreover have "ry_comment r \<in> {None, Some (ry_target r)}" using inv r by (simp add: social_inv_def reply_ok_def)
    ultimately show ?thesis using d
      by (auto simp: delivered_ok_def accept_reply_def nonempty_def intro!: bexI [of _ r] split: if_splits)
  qed
  ultimately show ?thesis using inv by (simp add: social_inv_def)
qed

lemma inv_process_reply:
  assumes inv: "social_inv cfg so" and s: "sending r so"
  shows "social_inv cfg (snd (process_reply cfg e a r so))"
proof -
  obtain k acc where k: "social_send cfg a r = (k, acc)" by fastforce
  let ?so1 = "accept_reply (db_now e) acc r so"
  have r: "r \<in> set (so_replies ?so1)" "accepted_of ?so1 (ry_id r) \<le> ry_attempts r + 1" and ok: "ry_max r = 5" "ry_attempts r < allowance ?so1 (ry_id r)"
    using inv s by (auto simp: social_inv_def sending_def reply_ok_def open_reply_def accepted_accept)
  note inv1 = inv_accept [OF inv s, of "db_now e" acc]
  show ?thesis
    using inv_settle_sent [OF inv1 r(1) ok r(2), of e] inv_settle_blocked [OF inv1 r(1) ok(2) r(2), of e]
      inv_settle_failed [OF inv1 r(1) refl ok r(2), of e]
    by (cases k) (simp_all add: process_reply_def k)
qed

lemma process_reply_other:
  assumes q: "ry_id q \<noteq> ry_id r" "sending q so"
  shows "sending q (snd (process_reply cfg e a r so))"
proof -
  obtain k acc where k: "social_send cfg a r = (k, acc)" by fastforce
  have f: "sending q (snd (settle_failed e r s))" if "sending q s" for s
    using that q(1) by (simp add: settle_failed_def Let_def sending_keep)
  have st: "sending q (snd (settle_sent e r s))" if "sending q s" for s
    using that q(1) f by (simp add: settle_sent_def Let_def sending_keep)
  have bl: "sending q (snd (settle_blocked e r s))" if "sending q s" for s
    using that q(1) by (simp add: settle_blocked_def Let_def sending_keep)
  have "sending q (accept_reply (db_now e) acc r so)" using q by (simp add: sending_def accepted_accept)
  then show ?thesis using f st bl by (cases k) (simp_all add: process_reply_def k)
qed

lemma inv_process_replies:
  "social_inv cfg so \<Longrightarrow> distinct (map (ry_id \<circ> fst) rs) \<Longrightarrow> \<forall>r\<in>fst ` set rs. sending r so \<Longrightarrow>
    social_inv cfg (snd (process_replies cfg rs so))"
proof (induction cfg rs so rule: process_replies.induct)
  case (2 cfg r e a rs so)
  obtain k so1 where p: "process_reply cfg e a r so = (k, so1)" by fastforce
  have "social_inv cfg so1" using inv_process_reply [of cfg so r e a] 2(2,4) by (simp add: p)
  moreover have "sending q so1" if "q \<in> fst ` set rs" for q
    using process_reply_other [of q r so cfg e a] 2(3,4) that by (force simp: p)
  ultimately show ?case using 2 p by (auto simp: Let_def split_def)
qed simp

lemma inv_reply_sweep: "social_inv cfg so \<Longrightarrow> social_inv cfg (snd (reply_sweep cfg e turns limit so))"
proof -
  assume inv: "social_inv cfg so"
  obtain rows so1 where p: "pick_replies e limit so = (rows, so1)" by fastforce
  have "social_inv cfg (snd (process_replies cfg (map (\<lambda>r. (r, turns (ry_id r))) rows) so1))"
    by (rule inv_process_replies) (use inv_pick [OF inv p] in \<open>auto simp: comp_def\<close>)
  then show ?thesis using inv by (simp add: reply_sweep_def p split_def Let_def)
qed

lemma inv_requeue:
  assumes inv: "social_inv cfg so"
  shows "social_inv cfg (requeue e i so)"
  unfolding requeue_def update_where_def
proof (rule inv_map_replies [OF inv])
  fix x assume x: "x \<in> set (so_replies so)"
  let ?g = "\<lambda>r. if ry_id r = i \<and> ry_status r \<in> {Y_failed, Y_blocked, Y_dlq} then r\<lparr>ry_status := Y_pending, ry_next := db_now e\<rparr> else r"
  have ok: "reply_ok cfg so x" using inv x by (simp add: social_inv_def)
  show "same_reply (?g x) x" by (simp add: same_reply_def)
  show "ry_attempts (?g x) \<le> allowance so (ry_id x)
      \<and> (open_reply (?g x) \<longrightarrow> ry_attempts (?g x) < allowance so (ry_id x) + count_list [i] (ry_id x))
      \<and> accepted_of so (ry_id x) \<le> ry_attempts (?g x) + (if ry_status (?g x) = Y_sending then 1 else 0)"
    using ok by (auto simp: reply_ok_def)
qed

lemma inv_retry: "social_inv cfg so \<Longrightarrow> social_inv cfg (snd (social_retry cfg e1 e2 turns qid so))"
  by (auto simp: social_retry_def inv_reply_sweep inv_requeue split: option.split)

subsection \<open>What holds of every reachable inbox and queue\<close>

definition social_start :: "social \<Rightarrow> bool" where
  "social_start so \<longleftrightarrow> so_events so = [] \<and> so_replies so = [] \<and> so_out so = []"

inductive social_step :: "social_config \<Rightarrow> social \<Rightarrow> social \<Rightarrow> bool" for cfg where
  social_ingest: "social_step cfg so (snd (ingest_social_event cfg e i so))"
| social_thread: "social_step cfg so (snd (process_thread cfg e ai t so))"
| social_sweep: "social_step cfg so (snd (reply_sweep cfg e turns limit so))"
| social_again: "social_step cfg so (snd (social_retry cfg e1 e2 turns qid so))"
| social_mark: "social_step cfg so (mark_sent cfg now delay so)"
| social_pause: "social_step cfg so (set_paused b so)"
| social_done: "social_step cfg so (mark_retry_done i so)"

interpretation social_system: invariant_system social_start "social_step cfg" "social_inv cfg" for cfg
proof unfold_locales
  show "social_start so \<Longrightarrow> social_inv cfg so" for so by (simp add: social_start_def social_inv_def)
  show "social_step cfg so so' \<Longrightarrow> social_inv cfg so \<Longrightarrow> social_inv cfg so'" for so so'
    by (induction rule: social_step.induct) (simp_all add: inv_ingest inv_process_thread inv_reply_sweep inv_retry)
qed

lemma threads_reach: "reach social_start (social_step cfg) so \<Longrightarrow> reach social_start (social_step cfg) (snd (process_threads cfg ts so))"
proof (induction cfg ts so rule: process_threads.induct)
  case (2 cfg t e ai ts so)
  have "reach social_start (social_step cfg) (snd (process_thread cfg e ai t so))" by (rule reach_step [OF 2(2) social_thread])
  then show ?case using 2 by (auto simp: split_def Let_def prod_eq_iff)
qed simp

lemma daemon_reach:
  assumes so: "reach social_start (social_step cfg) so"
  shows "reach social_start (social_step cfg) (snd (daemon_turn cfg d so))"
proof -
  obtain ok so1 where p: "process_due_threads cfg (fst (di_rounds d 0)) (\<lambda>i. di_rounds d (Suc i)) 10 so = (ok, so1)" by fastforce
  have r1: "reach social_start (social_step cfg) so1"
    using p so threads_reach [OF so] by (auto simp: process_due_threads_def split: if_splits) (metis snd_conv)
  obtain k so2 where s: "reply_sweep cfg (di_sweep d) (di_turns d) 1 so1 = (k, so2)" by fastforce
  have r2: "reach social_start (social_step cfg) so2"
    using reach_step [OF r1 social_sweep [of cfg so1 "di_sweep d" "di_turns d" 1]] by (simp only: s snd_conv)
  have "reach social_start (social_step cfg) (mark_sent cfg now delay so2)" for now delay
    by (rule reach_step [OF r2 social_mark])
  then show ?thesis using so r1 r2 by (simp add: daemon_turn_def p s [unfolded One_nat_def] Let_def split: sum.split)
qed

text \<open>C3: who gets an automatic reply. However messages, rounds of the planner, sweeps, repeated sends of
  an operator and turns of the daemon follow each other and whichever statements fail: every message a
  platform has accepted is the text of a row of the queue and went to the target of the thread the row is
  for (the comment itself, for a comment), and each event that row answers is a
  stored message of that very thread which the classifier takes for a question of an applicant. So
  nothing that reads as a complaint, a payment issue, a legal matter or internal business is answered.\<close>
theorem replies_to_applicants_only:
  assumes "reach social_start (social_step cfg) so" and "d \<in> set (so_out so)"
  shows "\<exists>r\<in>set (so_replies so). ry_id r = dv_row d \<and> dv_text d = ry_text r
    \<and> (dv_platform d, dv_to d) = (ry_platform r, ry_target r) \<and> ry_events r \<noteq> []
    \<and> (\<forall>i\<in>set (ry_events r). \<exists>x\<in>set (so_events so). xe_id x = i \<and> thread_of x = (dv_platform d, dv_to d)
        \<and> event_intent cfg x \<in> set RECRUITING_INTENTS \<and> event_intent cfg x \<notin> set RISKY_INTENTS \<union> set ESCALATION_INTENTS)"
proof -
  have inv: "social_inv cfg so" by (rule social_system.reach_inv [OF assms(1)])
  then have "delivered_ok so d" using assms(2) by (simp add: social_inv_def)
  then obtain r where r: "r \<in> set (so_replies so)" "ry_id r = dv_row d" "dv_text d = ry_text r" "dv_platform d = ry_platform r"
    "dv_to d = ry_target r" unfolding delivered_ok_def by blast
  have ok: "reply_ok cfg so r" using inv r(1) by (simp add: social_inv_def)
  have apart: "set RECRUITING_INTENTS \<inter> (set RISKY_INTENTS \<union> set ESCALATION_INTENTS) = {}"
    by (simp add: RECRUITING_INTENTS_def RISKY_INTENTS_def ESCALATION_INTENTS_def)
  have "\<exists>x\<in>set (so_events so). xe_id x = i \<and> thread_of x = (dv_platform d, dv_to d)
      \<and> event_intent cfg x \<in> set RECRUITING_INTENTS \<and> event_intent cfg x \<notin> set RISKY_INTENTS \<union> set ESCALATION_INTENTS"
    if "i \<in> set (ry_events r)" for i
    using ok that apart unfolding reply_ok_def answers_event_def is_recruiting_intent_def r(4,5) by blast
  then show ?thesis using r ok by (intro bexI [of _ r]) (auto simp: reply_ok_def)
qed

text \<open>C4: one reply, and not too often. In every reachable state no event is answered by two rows of the
  queue, the idempotency keys are unique, a platform has accepted the text of a row at most five
  times and once more for each time an operator has put the row back (the route does not reset the
  attempts), two rows with the same target and intent were created more than the
  cooldown apart, and every turn of the daemon is such a sequence of steps.\<close>
theorem one_reply_per_event:
  assumes "reach social_start (social_step cfg) so"
  shows "distinct (concat (map ry_events (so_replies so))) \<and> distinct (map ry_key (so_replies so)) \<and> distinct (map xe_key (so_events so))
    \<and> (\<forall>r\<in>set (so_replies so). count_where (\<lambda>d. dv_row d = ry_id r) (so_out so) \<le> 5 + count_list (so_requeued so) (ry_id r))
    \<and> sorted_wrt (\<lambda>a b. ry_target a = ry_target b \<and> ry_intent a = ry_intent b \<longrightarrow>
         ry_created a + secs (60 * sg_cooldown cfg) < ry_created b) (so_replies so)
    \<and> reach social_start (social_step cfg) (snd (daemon_turn cfg d so))"
proof -
  have inv: "social_inv cfg so" by (rule social_system.reach_inv [OF assms(1)])
  have "accepted_of so (ry_id r) \<le> allowance so (ry_id r)" if "r \<in> set (so_replies so)" for r
  proof -
    have "reply_ok cfg so r" using inv that by (simp add: social_inv_def)
    then show ?thesis by (auto simp: reply_ok_def open_reply_def split: if_splits)
  qed
  moreover have "sorted_wrt (\<lambda>a b. ry_target a = ry_target b \<and> ry_intent a = ry_intent b \<longrightarrow>
      ry_created a + secs (60 * sg_cooldown cfg) < ry_created b) (so_replies so)"
    using inv by (simp add: social_inv_def spaced_def [abs_def])
  ultimately show ?thesis using inv daemon_reach [OF assms] by (simp add: social_inv_def accepted_of_def allowance_def)
qed

subsection \<open>The distance between two replies\<close>

definition timely :: "daemon_input \<Rightarrow> bool" where
  \<comment> \<open>the statements after a send succeed, the answers are JSON, and the clock does not go back within the turn\<close>
  "timely d \<longleftrightarrow>
     (\<forall>i. raises (fst (di_turns d i)) = (\<lambda>_. False) \<and> na_json (snd (di_turns d i))
        \<and> py_now (di_env d) \<le> db_now (fst (di_turns d i)) \<and> db_now (fst (di_turns d i)) \<le> db_now (di_mark d))
     \<and> \<not> raises (di_mark d) 0"

definition rated :: "social_config \<Rightarrow> social \<Rightarrow> bool" where
  "rated cfg so \<longleftrightarrow>
     sorted_wrt (\<lambda>a b. dv_at a + secs (sg_delay_min cfg) \<le> dv_at b) (so_out so)
     \<and> (\<forall>d\<in>set (so_out so). \<exists>r t. so_rate so = Some r \<and> ra_next r = Some t \<and> dv_at d + secs (sg_delay_min cfg) \<le> t)"

lemma delay_at_least: "sg_delay_min cfg \<le> delay_seconds cfg x"
  by (simp add: delay_seconds_def Let_def)

lemma frames_out_rate [simp]:
  "so_out (snd (ingest_social_event cfg e i so)) = so_out so" "so_paused (snd (ingest_social_event cfg e i so)) = so_paused so" "so_rate (snd (ingest_social_event cfg e i so)) = so_rate so"
  "so_rate (set_events ids f so) = so_rate so" "so_rate (set_status ids st so) = so_rate so"
  "so_out (update_thread_state t is rep so) = so_out so" "so_rate (update_thread_state t is rep so) = so_rate so"
  "so_rate (update_reply n g so) = so_rate so" "so_rate (add_retry x so) = so_rate so" "so_rate (log_sent now r so) = so_rate so"
  by (simp_all add: ingest_social_event_def Let_def set_events_def set_status_def update_thread_state_def update_reply_def
      add_retry_def log_sent_def)

lemma refresh_out_rate [simp]:
  "so_out (snd (refresh_classifications cfg e i rs so)) = so_out so \<and> so_rate (snd (refresh_classifications cfg e i rs so)) = so_rate so"
  by (induction cfg e i rs so rule: refresh_classifications.induct) simp_all

lemma process_thread_out_rate:
  "so_out (snd (process_thread cfg e ai t so)) = so_out so \<and> so_rate (snd (process_thread cfg e ai t so)) = so_rate so"
proof -
  obtain evs so1 where c: "pending_events t so = (evs, so1)" by fastforce
  have c1: "so_out so1 = so_out so" "so_rate so1 = so_rate so" using c by (auto simp: pending_events_def Let_def)
  obtain ok so2 where r: "refresh_classifications cfg e 0 evs so1 = (ok, so2)" by fastforce
  have r1: "so_out so2 = so_out so" "so_rate so2 = so_rate so" using refresh_out_rate [of cfg e 0 evs so1] c1 by (simp_all add: r)
  obtain p so3 where p: "plan_reply cfg e ai t evs so2 = (p, so3)" by fastforce
  have p1: "so_out so3 = so_out so" "so_rate so3 = so_rate so" using plan_held [of cfg e ai t evs so2] r1 by (auto simp: p)
  have q: "so_out (snd (queue_plan cfg e t evs staff rep i so3)) = so_out so \<and> so_rate (snd (queue_plan cfg e t evs staff rep i so3)) = so_rate so" for staff rep i
    using p1 by (simp add: queue_plan_def ignore_events_def enqueue_reply_def Let_def)
  show ?thesis
    using c1 r1 p1 q by (simp add: process_thread_def c r p ignore_events_def split: sum.split option.split prod.split)
qed

lemma threads_out_rate:
  "so_out (snd (process_threads cfg ts so)) = so_out so \<and> so_rate (snd (process_threads cfg ts so)) = so_rate so"
proof (induction cfg ts so rule: process_threads.induct)
  case (2 cfg t e ai ts so)
  obtain k so1 where "process_thread cfg e ai t so = (k, so1)" by fastforce
  then show ?case using 2 process_thread_out_rate [of cfg e ai t so] by auto
qed simp

lemma process_reply_out_rate:
  assumes "raises e = (\<lambda>_. False)" "na_json a"
  shows "so_rate (snd (process_reply cfg e a r so)) = so_rate so
    \<and> (so_out (snd (process_reply cfg e a r so)) = so_out so \<and> fst (process_reply cfg e a r so) \<noteq> RR_sent
       \<or> (\<exists>d. dv_at d = db_now e \<and> so_out (snd (process_reply cfg e a r so)) = so_out so @ [d] \<and> fst (process_reply cfg e a r so) = RR_sent))"
proof -
  obtain k acc where k: "social_send cfg a r = (k, acc)" by fastforce
  have "acc \<longleftrightarrow> k = SR_sent"
    using k assms(2) by (auto simp: social_send_def Let_def split: if_splits send_outcome.splits)
  then show ?thesis
    using assms(1) by (cases k) (auto simp: process_reply_def k settle_sent_def settle_blocked_def settle_failed_def Let_def accept_reply_def)
qed

lemma sweep_one:
  assumes a: "reply_sweep cfg e turns 1 so = (x, so2)"
  shows "\<exists>so1. so_out so1 = so_out so \<and> so_rate so1 = so_rate so \<and>
    (so2 = so1 \<and> (\<forall>c. x = Inr c \<longrightarrow> sr_sent c = 0)
     \<or> (\<exists>r k. process_reply cfg (fst (turns (ry_id r))) (snd (turns (ry_id r))) r so1 = (k, so2)
          \<and> (x = Inl () \<longleftrightarrow> k = RR_raised) \<and> (\<forall>c. x = Inr c \<longrightarrow> (sr_sent c > 0 \<longleftrightarrow> k = RR_sent))))"
proof -
  obtain rows so1 where p: "pick_replies e 1 so = (rows, so1)" by fastforce
  have so1: "so_out so1 = so_out so" "so_rate so1 = so_rate so" "length rows \<le> 1" using p by (auto simp: pick_replies_def Let_def)
  then consider "raises e 0" | "\<not> raises e 0" "rows = []" | r where "\<not> raises e 0" "rows = [r]" by (cases rows) auto
  then show ?thesis
  proof cases
    case 1
    then show ?thesis using a by (auto simp: reply_sweep_def)
  next
    case 2
    then show ?thesis using a p so1 by (auto simp: reply_sweep_def)
  next
    case (3 r)
    obtain k so3 where k: "process_reply cfg (fst (turns (ry_id r))) (snd (turns (ry_id r))) r so1 = (k, so3)" by fastforce
    obtain e1 a1 where t: "turns (ry_id r) = (e1, a1)" by fastforce
    from k have "so2 = so3 \<and> (x = Inl () \<longleftrightarrow> k = RR_raised) \<and> (\<forall>c. x = Inr c \<longrightarrow> (sr_sent c > 0 \<longleftrightarrow> k = RR_sent))"
      using a p 3 by (cases k) (auto simp: reply_sweep_def t)
    then show ?thesis using so1(1,2) k by blast
  qed
qed

lemma mark_rated:
  assumes "sorted_wrt (\<lambda>a b. dv_at a + secs (sg_delay_min cfg) \<le> dv_at b) (so_out so)"
    and "\<And>y. y \<in> set (so_out so) \<Longrightarrow> dv_at y + secs (sg_delay_min cfg) \<le> now + secs delay"
  shows "rated cfg (mark_sent cfg now delay so)"
  using assms by (cases "so_rate so") (simp_all add: rated_def mark_sent_def)

lemma sweep_rated:
  assumes d: "timely d" and r1: "rated cfg so1" and pos: "0 \<le> sg_delay_min cfg" and can: "can_send (di_env d) so1"
    and s: "reply_sweep cfg (di_sweep d) (di_turns d) 1 so1 = (x, so2)"
  shows "(\<exists>c. x = Inr c \<and> sr_sent c > 0 \<and> rated cfg (mark_sent cfg (db_now (di_mark d)) (delay_seconds cfg (di_random d)) so2))
    \<or> (\<forall>c. x = Inr c \<longrightarrow> sr_sent c = 0) \<and> rated cfg so2"
proof -
  have same: "rated cfg s" if "so_out s = so_out so1" "so_rate s = so_rate so1" for s using r1 that by (simp add: rated_def)
  obtain so3 where s3: "so_out so3 = so_out so1" "so_rate so3 = so_rate so1" and
    alt: "so2 = so3 \<and> (\<forall>c. x = Inr c \<longrightarrow> sr_sent c = 0)
     \<or> (\<exists>r k. process_reply cfg (fst (di_turns d (ry_id r))) (snd (di_turns d (ry_id r))) r so3 = (k, so2)
          \<and> (x = Inl () \<longleftrightarrow> k = RR_raised) \<and> (\<forall>c. x = Inr c \<longrightarrow> (sr_sent c > 0 \<longleftrightarrow> k = RR_sent)))"
    using sweep_one [OF s] by (elim exE conjE) (rule that)
  from alt show ?thesis
  proof (elim disjE exE conjE)
    assume "so2 = so3" "\<forall>c. x = Inr c \<longrightarrow> sr_sent c = 0"
    then show ?thesis using same [OF s3] by blast
  next
    fix r k assume k: "process_reply cfg (fst (di_turns d (ry_id r))) (snd (di_turns d (ry_id r))) r so3 = (k, so2)"
      and x: "x = Inl () \<longleftrightarrow> k = RR_raised" "\<forall>c. x = Inr c \<longrightarrow> (sr_sent c > 0 \<longleftrightarrow> k = RR_sent)"
    define e where "e = fst (di_turns d (ry_id r))"
    have t: "raises e = (\<lambda>_. False)" "na_json (snd (di_turns d (ry_id r)))" "py_now (di_env d) \<le> db_now e" "db_now e \<le> db_now (di_mark d)"
      using d by (simp_all add: timely_def e_def)
    have pr: "so_rate so2 = so_rate so3" "so_out so2 = so_out so3 \<and> k \<noteq> RR_sent \<or> (\<exists>dv. dv_at dv = db_now e \<and> so_out so2 = so_out so3 @ [dv] \<and> k = RR_sent)"
      using process_reply_out_rate [OF t(1,2), of cfg r so3] k by (simp_all add: e_def [symmetric])
    show ?thesis
    proof (cases "k = RR_sent")
      case False
      then have "rated cfg so2" using pr s3 by (intro same) auto
      moreover have "\<forall>c. x = Inr c \<longrightarrow> sr_sent c = 0" using x(2) False by simp
      ultimately show ?thesis by blast
    next
      case True
      then obtain dv where dv: "dv_at dv = db_now e" "so_out so2 = so_out so1 @ [dv]" using pr s3(1) by auto
      have old: "dv_at y + secs (sg_delay_min cfg) \<le> db_now e" if "y \<in> set (so_out so1)" for y
      proof -
        note b = bspec [OF conjunct2 [OF r1 [unfolded rated_def]] that]
        obtain q z where "so_rate so1 = Some q" "ra_next q = Some z" "dv_at y + secs (sg_delay_min cfg) \<le> z"
          using b by (elim exE conjE) (rule that)
        then show ?thesis using can t(3) by (simp add: can_send_def)
      qed
      have le: "secs (sg_delay_min cfg) \<le> secs (delay_seconds cfg (di_random d))" "0 \<le> secs (delay_seconds cfg (di_random d))"
        using delay_at_least [of cfg "di_random d"] pos by (simp_all add: secs_def)
      have "rated cfg (mark_sent cfg (db_now (di_mark d)) (delay_seconds cfg (di_random d)) so2)"
      proof (rule mark_rated)
        show "sorted_wrt (\<lambda>a b. dv_at a + secs (sg_delay_min cfg) \<le> dv_at b) (so_out so2)"
          using r1 old dv by (simp add: rated_def sorted_wrt_append)
        show "dv_at y + secs (sg_delay_min cfg) \<le> db_now (di_mark d) + secs (delay_seconds cfg (di_random d))" if "y \<in> set (so_out so2)" for y
        proof (cases "y = dv")
          case True
          then show ?thesis using t(4) dv(1) le(1) add_mono [OF t(4) le(1)] by metis
        next
          case False
          then have "dv_at y + secs (sg_delay_min cfg) \<le> db_now e" using that old [of y] dv(2) by simp
          then show ?thesis using t(4) le(2) by linarith
        qed
      qed
      moreover obtain c where "x = Inr c" using x(1) True by (cases x) auto
      ultimately show ?thesis using x(2) True by blast
    qed
  qed
qed

lemma daemon_rated:
  assumes d: "timely d" and so: "rated cfg so" and pos: "0 \<le> sg_delay_min cfg"
  shows "rated cfg (snd (daemon_turn cfg d so))"
proof -
  obtain ok so1 where p: "process_due_threads cfg (fst (di_rounds d 0)) (\<lambda>i. di_rounds d (Suc i)) 10 so = (ok, so1)" by fastforce
  have o1: "so_out so1 = so_out so" "so_rate so1 = so_rate so"
    using p threads_out_rate [of cfg _ so] by (auto simp: process_due_threads_def split: if_splits) (metis snd_conv)+
  then have r1: "rated cfg so1" using so by (simp add: rated_def)
  obtain x so2 where s: "reply_sweep cfg (di_sweep d) (di_turns d) 1 so1 = (x, so2)" by fastforce
  note m = sweep_rated [OF d r1 pos _ s]
  have "\<not> raises (di_mark d) 0" using d by (simp add: timely_def)
  then show ?thesis using m so r1 by (cases x) (auto simp: daemon_turn_def p s [unfolded One_nat_def] Let_def)
qed

inductive timely_step :: "social_config \<Rightarrow> social \<Rightarrow> social \<Rightarrow> bool" for cfg where
  timely_ingest: "timely_step cfg so (snd (ingest_social_event cfg e i so))"
| timely_turn: "timely d \<Longrightarrow> timely_step cfg so (snd (daemon_turn cfg d so))"
| timely_pause: "timely_step cfg so (set_paused b so)"

text \<open>C6: the daemon's replies keep their distance. Along any turns of the daemon whose statements after a
  send succeed and whose clock does not go back within the turn, mixed with new messages and pauses, any
  two replies a platform has accepted lie at least the
  configured delay apart, also across restarts, since the next permitted time is stored. A send repeated by
  an operator is not such a turn: its route does not ask the limit (\<open>retry_ignores_limit\<close> below), and
  neither does a second send after a failed statement (\<open>failed_bookkeeping_resends\<close>).\<close>
theorem replies_spaced:
  assumes "so_out so = []" "(timely_step cfg)\<^sup>*\<^sup>* so so'" "0 \<le> sg_delay_min cfg"
  shows "sorted_wrt (\<lambda>a b. dv_at a + secs (sg_delay_min cfg) \<le> dv_at b) (so_out so')"
proof -
  have "rated cfg so'"
    using assms(2)
  proof (induction rule: rtranclp_induct)
    case base
    then show ?case using assms(1) by (simp add: rated_def)
  next
    case (step s t)
    from step.hyps(2) step.IH show ?case
      by (cases rule: timely_step.cases) (auto simp: daemon_rated [OF _ _ assms(3)], auto simp: rated_def set_paused_def)
  qed
  then show ?thesis by (simp add: rated_def)
qed

subsection \<open>An applicant is answered\<close>

definition calm :: "env \<Rightarrow> bool" where
  "calm e \<longleftrightarrow> raises e = (\<lambda>_. False)"

lemma calm_raises [simp]: "calm e \<Longrightarrow> raises e n = False"
  by (simp add: calm_def)

definition stored_event :: "social_config \<Rightarrow> env \<Rightarrow> incoming \<Rightarrow> social \<Rightarrow> inbox_event" where
  "stored_event cfg e i so =
     (new_event cfg (db_now e) (so_next_event so) i)\<lparr>xe_class := Some (fst (classify_message (sg_u cfg) (in_text i) (in_media i)))\<rparr>"

lemma ingest_stores:
  assumes "social_inv cfg so" "calm e" "event_key (sg_sha cfg) i \<notin> xe_key ` set (so_events so)"
    and "is_recruiting_intent (fst (classify_message (sg_u cfg) (in_text i) (in_media i)))"
  shows "snd (ingest_social_event cfg e i so) =
    so\<lparr>so_next_event := so_next_event so + 1, so_events := so_events so @ [stored_event cfg e i so]\<rparr>"
proof -
  have "update_where (\<lambda>r. xe_id r = so_next_event so) f (so_events so) = so_events so" for f
    using assms(1) by (intro update_where_none) (auto simp: social_inv_def)
  moreover have "\<not> is_escalation_intent (fst (classify_message (sg_u cfg) (in_text i) (in_media i)))"
    using assms(4) by (auto simp: is_recruiting_intent_def is_escalation_intent_def RECRUITING_INTENTS_def ESCALATION_INTENTS_def)
  moreover have "\<not> has_row (\<lambda>r. xe_key r = event_key (sg_sha cfg) i) (so_events so)" using assms(3) by (auto simp: has_row_iff) (metis image_eqI)
  ultimately show ?thesis
    using assms(2,4) by (simp add: ingest_social_event_def Let_def set_events_def stored_event_def new_event_def first_status_def)
qed









lemma mark_out [simp]: "so_out (mark_sent cfg now n so) = so_out so" "so_events (mark_sent cfg now n so) = so_events so"
  by (simp_all add: mark_sent_def)




subsection \<open>A run\<close>

definition sample_social_config :: social_config where
  "sample_social_config =
     \<lparr>sg_u = plain_unicode, sg_sha = \<lambda>s. map char_of s, sg_wording = \<lambda>_. cp ''Thank you.'', sg_utf8 = \<lambda>s. map char_of s,
      sg_staff = [], sg_enabled = True, sg_cooldown = 30, sg_compression = 25, sg_delay_min = 120, sg_delay_max = 180, sg_idle = 10,
      sg_page_token = False, sg_meta_token = False\<rparr>"

definition social_empty :: social where
  "social_empty =
     \<lparr>so_events = [], so_next_event = 1, so_replies = [], so_next_reply = 1, so_sent = [], so_retries = [], so_threads = [],
      so_rate = None, so_paused = False, so_requeued = [], so_out = []\<rparr>"

definition sample_applicant :: incoming where
  "sample_applicant =
     \<lparr>in_platform = ''bridge1'', in_type = ''message'', in_sender = cp ''8801711000000'', in_text = cp ''salary?'',
      in_message = Some (cp ''m1''), in_comment = None, in_media = False\<rparr>"

definition sample_turn :: "int \<Rightarrow> daemon_input" where
  \<comment> \<open>a turn at the given second, with no failures\<close>
  "sample_turn t =
     (let e = env_at (secs t)
      in \<lparr>di_env = e, di_rounds = \<lambda>_. (e, []), di_sweep = e, di_turns = \<lambda>_. (e, \<lparr>na_status = Some 200, na_denied = False, na_json = True\<rparr>),
          di_mark = e, di_random = 0\<rparr>)"

definition sample_asked :: social where
  "sample_asked = snd (ingest_social_event sample_social_config (env_at 0) sample_applicant social_empty)"

definition sample_reply :: reply_row where
  "sample_reply =
     \<lparr>ry_id = 1, ry_event = 1, ry_platform = ''bridge1'', ry_target = cp ''8801711000000'', ry_comment = None, ry_text = cp ''Thank you.'',
      ry_intent = ''salary'', ry_status = Y_pending, ry_attempts = 0, ry_max = 5, ry_next = 0, ry_key = ''k'', ry_events = [1],
      ry_role = ''UNKNOWN'', ry_created = 0, ry_sent_at = None\<rparr>"

lemma sample_class: "fst (classify_message plain_unicode (cp ''salary?'') False) = ''salary''"
  by code_simp

lemma sample_asked_eq:
  "sample_asked = social_empty\<lparr>so_next_event := 2, so_events := [stored_event sample_social_config (env_at 0) sample_applicant social_empty]\<rparr>"
  using sample_class unfolding sample_asked_def by (subst ingest_stores)
    (simp_all add: social_inv_def social_empty_def env_at_def calm_def sample_applicant_def sample_social_config_def is_recruiting_intent_def RECRUITING_INTENTS_def)

lemma social_sample_reach: "reach social_start (social_step sample_social_config) sample_asked"
proof (rule reach_step)
  show "reach social_start (social_step sample_social_config) social_empty"
    by (rule reach_start) (simp add: social_start_def social_empty_def)
  show "social_step sample_social_config social_empty sample_asked" unfolding sample_asked_def by (rule social_ingest)
qed

lemma sample_delivered: "so_out (snd (daemon_turn sample_social_config (sample_turn 30) sample_asked)) =
  [\<lparr>dv_row = 1, dv_at = secs 30, dv_platform = ''bridge1'', dv_to = cp ''8801711000000'', dv_text = cp ''Thank you.''\<rparr>]"
  by code_simp

text \<open>A statement that fails after the platform has accepted the message sends it again: here the
  statement that marks the row as sent raises once, and the message is delivered twice.\<close>
lemma failed_bookkeeping_resends:
  "let cfg = sample_social_config; so = social_empty\<lparr>so_replies := [sample_reply]\<rparr>;
       ok = \<lparr>na_status = Some 200, na_denied = False, na_json = True\<rparr>;
       so1 = snd (reply_sweep cfg (env_at 0) (\<lambda>_. ((env_at 0)\<lparr>raises := \<lambda>n. n = 0\<rparr>, ok)) 1 so);
       so2 = snd (reply_sweep cfg (env_at (secs 120)) (\<lambda>_. (env_at (secs 120), ok)) 1 so1)
   in map ry_status (so_replies so1) = [Y_failed] \<and> map dv_text (so_out so2) = [cp ''Thank you.'', cp ''Thank you.'']"
  by code_simp

text \<open>When the statement of the handler fails as well, the row stays in \<open>sending\<close>, which no sweep picks up.\<close>
lemma stuck_sending:
  "let so1 = snd (reply_sweep sample_social_config (env_at 0)
         (\<lambda>_. ((env_at 0)\<lparr>raises := \<lambda>n. n = 3\<rparr>, \<lparr>na_status = Some 500, na_denied = False, na_json = True\<rparr>)) 1
         (social_empty\<lparr>so_replies := [sample_reply]\<rparr>))
   in map ry_status (so_replies so1) = [Y_sending] \<and> list_all (\<lambda>r. ry_status r = Y_sending \<longrightarrow> \<not> ready (env_at (secs 86400)) r) (so_replies so1)"
  by code_simp

text \<open>The route of the operator sends although the next permitted time lies an hour ahead.\<close>
lemma retry_ignores_limit:
  "let so = social_empty\<lparr>so_replies := [sample_reply],
         so_rate := Some \<lparr>ra_next = Some (secs 3600), ra_last = 0, ra_count = 1, ra_window = 0\<rparr>\<rparr>;
       ok = \<lparr>na_status = Some 200, na_denied = False, na_json = True\<rparr>
   in \<not> can_send (env_at 0) so
      \<and> map dv_text (so_out (snd (social_retry sample_social_config (env_at 0) (env_at 0) (\<lambda>_. (env_at 0, ok)) None so))) = [cp ''Thank you.'']"
  by code_simp

text \<open>A reply in the dead letters has used its five attempts; put back, it is tried a sixth time.\<close>
lemma retry_sixth_attempt:
  "let so = social_empty\<lparr>so_replies := [sample_reply\<lparr>ry_status := Y_dlq, ry_attempts := 5\<rparr>]\<rparr>;
       ok = \<lparr>na_status = Some 200, na_denied = False, na_json = True\<rparr>;
       so1 = snd (social_retry sample_social_config (env_at 0) (env_at 0) (\<lambda>_. (env_at 0, ok)) (Some 1) so)
   in map ry_attempts (so_replies so1) = [6] \<and> map dv_text (so_out so1) = [cp ''Thank you.'']"
  by code_simp

text \<open>A failing lookup of the sender leaves the claimed events in \<open>planning\<close>: the thread is not due again.\<close>
lemma stuck_planning:
  "let so1 = snd (process_thread sample_social_config ((env_at 0)\<lparr>raises := \<lambda>n. n = 1\<rparr>) [] (''bridge1'', cp ''8801711000000'') sample_asked)
   in map xe_status (so_events so1) = [V_planning] \<and> pending_threads sample_social_config (env_at (secs 86400)) 10 so1 = []"
  unfolding sample_asked_eq by code_simp

theorem replies_to_applicants_only_witness:
  "let so = snd (daemon_turn sample_social_config (sample_turn 30) sample_asked)
   in \<exists>d\<in>set (so_out so). \<exists>r\<in>set (so_replies so). ry_id r = dv_row d \<and> dv_text d = ry_text r \<and> ry_events r \<noteq> []"
proof -
  let ?so = "snd (daemon_turn sample_social_config (sample_turn 30) sample_asked)"
  obtain d where d: "d \<in> set (so_out ?so)" using sample_delivered by auto
  from replies_to_applicants_only [OF daemon_reach [OF social_sample_reach] d] have
    "\<exists>r\<in>set (so_replies ?so). ry_id r = dv_row d \<and> dv_text d = ry_text r \<and> ry_events r \<noteq> []" by (elim bexE) auto
  then show ?thesis using d unfolding Let_def by (intro bexI [of _ d])
qed

theorem one_reply_per_event_witness:
  "distinct (map ry_key (so_replies (snd (daemon_turn sample_social_config (sample_turn 30) sample_asked))))
   \<and> reach social_start (social_step sample_social_config)
       (snd (daemon_turn sample_social_config (sample_turn 60) (snd (daemon_turn sample_social_config (sample_turn 30) sample_asked))))"
  using one_reply_per_event [OF daemon_reach [OF social_sample_reach, of "sample_turn 30"], of "sample_turn 60"] by simp

theorem replies_spaced_witness:
  "sorted_wrt (\<lambda>a b. dv_at a + secs 120 \<le> dv_at b) (so_out (snd (daemon_turn sample_social_config (sample_turn 30) sample_asked)))
   \<and> so_out (snd (daemon_turn sample_social_config (sample_turn 30) sample_asked)) \<noteq> []"
proof -
  have "timely (sample_turn 30)" by (simp add: timely_def sample_turn_def Let_def env_at_def)
  then have "(timely_step sample_social_config)\<^sup>*\<^sup>* sample_asked (snd (daemon_turn sample_social_config (sample_turn 30) sample_asked))"
    by (intro r_into_rtranclp timely_step.intros)
  moreover have "so_out sample_asked = []" "sg_delay_min sample_social_config = 120"
    by (simp_all add: sample_asked_eq social_empty_def sample_social_config_def)
  ultimately show ?thesis using replies_spaced [of sample_asked sample_social_config] sample_delivered by simp
qed


end
