(* ===== verification/Spec2Isabelle.thy ===== *)
theory Spec2Isabelle
  imports Event_Bus State_Version Processing_Locks Write_Router Message_Queue Queue_Arbiter
    Runtime_Gateway Bridge_Client Bridge_Orchestrator Outbound_Queue Phone_Numbers
    Calendar Money Roster_Calc Roster_Store Payroll_Runs FPE_Accounting Payment_Drafts Payment_Workflow
    Escort_Lifecycle Payment_Correction Consistency Self_Heal Frontend_Sync Rbac Admin_Commands
    FPE_Identity FPE_Messages FPE_Pipeline FPE_Sync FPE_Review Admin_Transactions
    Recruitment Payment_Ingest FPE_Parser Social_Queue
begin

text \<open>
  \<^bold>\<open>A verification development for fazle-core.\<close>

  \<^bold>\<open>The program.\<close> fazle-core answers and records WhatsApp traffic of a security and
  escort company: messages arrive over two bridges, are queued and processed by
  workers, and end in drafts, payments, escort duties and payroll. The parts modelled
  here are the coordination layer (\<open>src/shared\<close>), the two bridges and the outbound queue
  (\<open>src/app/bridge.py\<close>, \<open>src/modules/outbound\<close>), the money core (\<open>src/modules/payroll\<close>,
  \<open>src/modules/fazle_payroll_engine/accounting.py\<close>, the pay calculation of
  \<open>src/modules/escort_roster\<close>, \<open>src/shared/draft.py\<close>, \<open>src/modules/payment_workflow\<close>,
  \<open>src/modules/escort_lifecycle\<close>, \<open>src/modules/payment_correction\<close>), and the administration
  (\<open>src/modules/rbac\<close>, the core of \<open>src/modules/admin_commands\<close>), and the payroll engine around its
  accounts: the parser, the identity of employees, the message store and its synchronisation with the
  bridges, the two workers, the review queue and the admin routes; and two ways in from the chats, the
  ingestion of payment messages and the recruitment of applicants; and the engine of automatic replies to
  applicants (\<open>src/modules/social_auto_reply\<close>).

  \<^bold>\<open>How the parts interact.\<close> A write to a business table goes through
  \<open>Write_Router\<close>: it takes the named lock (\<open>Processing_Locks\<close>), runs the writer, announces
  the change on the event bus (\<open>Event_Bus\<close>) and advances the state version
  (\<open>State_Version\<close>). Inbound messages are stored once in \<open>Message_Queue\<close> and claimed by
  workers, directly or through the leases of \<open>Queue_Arbiter\<close>; \<open>Runtime_Gateway\<close> keeps the
  registry of processes and returns the messages of a dead one to the queue. Messages
  leave over \<open>Bridge_Client\<close>, either by the failover of \<open>Bridge_Orchestrator\<close> or from
  the table of \<open>Outbound_Queue\<close>, which asks the client's circuit breaker first. Escort
  duties are paid by \<open>Roster_Calc\<close> through \<open>Payment_Drafts\<close>; monthly runs are computed
  and approved in \<open>Payroll_Runs\<close>; cash movements, reversals and the ledger are
  \<open>FPE_Accounting\<close>. \<open>Phone_Numbers\<close> is the identity of people throughout. The end of a
  duty closes its program, fills in the attendance and drafts its payment
  (\<open>Escort_Lifecycle\<close>, \<open>Payment_Workflow\<close>); the draft is paid by a command of an admin and may be
  corrected later (\<open>Payment_Correction\<close>). A command passes the suppression of repeated messages
  and the guard of \<open>Admin_Commands\<close>, which asks \<open>Rbac\<close>. In the payroll engine a message is stored by
  \<open>FPE_Messages\<close>; \<open>FPE_Pipeline\<close> reads it, validates it, finds its employee by \<open>FPE_Identity\<close> and
  books it by \<open>FPE_Accounting\<close>, whose rows the routes of \<open>Admin_Transactions\<close> correct; \<open>FPE_Sync\<close>
  fetches what the bridges have stored, and \<open>FPE_Review\<close> is where people settle what the workers left. \<open>Self_Heal\<close> watches the worker of the
  outbound queue, the bridges and the locks; \<open>Frontend_Sync\<close> tells dashboards how far they are
  behind the state version.

  \<^bold>\<open>Theories, sources, and what is shown.\<close>
  \<^item> \<open>Fazle_Prelude\<close>: clock, call environment, SQL statement forms on tables (lists of
    rows), Python string and dictionary operations, and three contracts as locales:
    \<open>invariant_system\<close> (an invariant of all reachable states), \<open>status_machine\<close> (a
    column whose final values stay) and \<open>machine_refinement\<close> (a component that answers as
    its specification along any run).
  \<^item> \<open>Event_Bus\<close> (\<open>shared/events.py\<close>): an emission schedules every matching handler once,
    and a failing handler does not stop the others.
  \<^item> \<open>State_Version\<close> (\<open>shared/state_version.py\<close>): while one store is available the version
    counts the bumps (locale \<open>version_counter\<close>, interpreted for Redis and for
    PostgreSQL); when Redis fails the version can go back.
  \<^item> \<open>Processing_Locks\<close> (\<open>shared/locks.py\<close>): the locale \<open>lock_service\<close> is what a holder may
    rely on, interpreted on the table operations; mutual exclusion in every reachable
    state in which holders release before expiry, and how a late release breaks it.
  \<^item> \<open>Write_Router\<close> (\<open>shared/write_router.py\<close>): a routed write happens completely or not
    at all, and the lock is free afterwards; contention changes nothing; keys identify
    resources.
  \<^item> \<open>Message_Queue\<close> (\<open>shared/queue.py\<close>): a message is stored once; a claim takes the
    oldest eligible messages; claims are disjoint; attempts are bounded.
  \<^item> \<open>Queue_Arbiter\<close> (\<open>shared/queue_arbiter.py\<close>): a lease excludes others until it
    expires; completed work is not leased again while failures come from holders; a
    processed pair is not processed again; the two unguarded paths (reclaim race, late
    failure) are exhibited.
  \<^item> \<open>Runtime_Gateway\<close> (\<open>shared/runtime_gateway.py\<close>): the stale sweep retires exactly the
    silent nodes and releases exactly their work; heartbeats never register a node.
  \<^item> \<open>Bridge_Client\<close> (\<open>app/bridge.py\<close>) and \<open>Bridge_Orchestrator\<close>
    (\<open>shared/bridge_orchestrator.py\<close>): the breaker's protocol; the deduplication window;
    failover or one retry item; the outage state is unreachable.
  \<^item> \<open>Outbound_Queue\<close> (\<open>modules/outbound/__init__.py\<close>): what one sweep does to every row,
    and what holds under any interleaving of several workers.
  \<^item> \<open>Phone_Numbers\<close> (\<open>shared/phone.py\<close>, \<open>modules/number_identity\<close>,
    \<open>fazle_payroll_engine/normalizer.py\<close>, \<open>app/critical_numbers.py\<close>): one normal form per
    number, matching and extraction agree with it.
  \<^item> \<open>Calendar\<close> (Python's \<open>datetime.date\<close>) and \<open>Roster_Calc\<close>
    (\<open>escort_roster/calculations.py\<close>): the counting loop equals the length of an interval
    on the line of shifts; pay is additive over split duties.
  \<^item> \<open>Roster_Store\<close> (\<open>escort_roster/db.py\<close>, \<open>escort_roster/routes.py\<close>): the roster as the image of the
    programs, one entry for each, balanced unless its conveyance was edited alone, removals that take drafts
    only, pages of the list.
  \<^item> \<open>Payroll_Runs\<close> (\<open>modules/payroll/__init__.py\<close>): the figures of a run, the approval
    state machine as \<open>status_machine\<close>, idempotent computation, what holds of every reachable
    database, audit entries that were lost included.
  \<^item> \<open>FPE_Accounting\<close> (\<open>fazle_payroll_engine/accounting.py\<close>): the ledger agrees with
    the recorded transactions, recording is idempotent in the reference, a reversal
    cancels once; what an interruption between two statements leaves behind.
  \<^item> \<open>Payment_Drafts\<close> (\<open>shared/draft.py\<close>): exact expiry and the guard against a second
    draft.
  \<^item> \<open>Money\<close> (Python's \<open>round\<close>) and \<open>Payment_Workflow\<close> (\<open>modules/payment_workflow\<close>, \<open>_cmd_paid\<close>):
    the amount of an escort draft; every payment command records one transaction.
  \<^item> \<open>Escort_Lifecycle\<close> (\<open>modules/escort_lifecycle\<close>, \<open>_cmd_release\<close>): the attendance loop ends and
    fills every day once; a release from end to end; at most one draft for a program.
  \<^item> \<open>Payment_Correction\<close> (\<open>modules/payment_correction\<close>): paying and reversing restores the total, once;
    what an interrupted reversal and an adjustment leave behind.
  \<^item> \<open>Consistency\<close> (\<open>shared/consistency.py\<close>): no update is lost among writers that read the same version.
  \<^item> \<open>Self_Heal\<close> (\<open>shared/self_heal.py\<close>): the bounds of a cycle, what it repairs, and, with the
    orchestrator, that its panic mode is unreachable.
  \<^item> \<open>Frontend_Sync\<close> (\<open>shared/frontend_sync.py\<close>): heartbeat answers and the stale sweep are exact.
  \<^item> \<open>Rbac\<close> (\<open>modules/rbac\<close>): who may run a command; a disabled admin stays out; the tables stay well
    formed; the bootstrap.
  \<^item> \<open>Admin_Commands\<close> (\<open>modules/admin_commands\<close>): the suppression cache as \<open>machine_refinement\<close> of its
    specification, the guard on every branch, how often a reply draft is sent, lists of numbers.
  \<^item> \<open>FPE_Identity\<close> (\<open>fazle_payroll_engine/employee.py\<close>, \<open>normalization.py\<close>): one active employee
    per identity phone in any interleaving, stable attribution, the two resolvers of soft links, which agree
    even when two reviewers have closed a circle of links.
  \<^item> \<open>FPE_Messages\<close> (\<open>fazle_payroll_engine/ingestion.py\<close>, \<open>validation.py\<close>): what is accepted for
    booking; amounts survive as text.
  \<^item> \<open>FPE_Pipeline\<close> (\<open>fazle_payroll_engine/workers.py\<close>, \<open>diagnostics.record_outcome\<close>): a message is
    booked at most once, and detected money ends in the accounts or in the review queue.
  \<^item> \<open>FPE_Sync\<close> (\<open>fazle_payroll_engine/historical_sync.py\<close>, \<open>checkpoint.py\<close>, \<open>gap_scan.py\<close>, \<open>replay.py\<close>):
    a message of a bridge store is archived once, repeated passes catch up with a chat, a gap scan
    leaves nothing of its window out; which messages a pass never fetches.
  \<^item> \<open>FPE_Review\<close> (\<open>fazle_payroll_engine/routes.py\<close>, \<open>reconcile.py\<close>): the life of a review row as
    \<open>status_machine\<close>, when requests come one after the other (\<open>review_call\<close>) and when they overlap
    (\<open>review_step\<close>), with the races of the second kind; what moves the reconciliation, edits of employees.
  \<^item> \<open>Admin_Transactions\<close> (\<open>modules/admin_transactions\<close>): the ledger is the function of the
    transactions that are not deleted; where an edit and a reversal break that.
  \<^item> \<open>Py_Regex\<close> (Python's \<open>re\<close>, \<open>str\<close> and \<open>float\<close>): a backtracking matcher with groups, and lemmas
    that follow its first match through a pattern.
  \<^item> \<open>FPE_Parser\<close> (\<open>fazle_payroll_engine/parser.py\<close>): what each kind of parsed message guarantees, the
    commands of the cashier are read back, the pattern of phone numbers is the scan of \<open>Phone_Numbers\<close>.
  \<^item> \<open>Payment_Ingest\<close> (\<open>modules/payment_ingest\<close>): a payment is staged once a day, the bounds of the
    automatic payment over \<open>finalize_payment\<close>, the shorthand of the accountant is read back.
  \<^item> \<open>Recruitment\<close> (\<open>modules/recruitment_flow\<close>): the sessions stay in order, what seven acceptable
    messages lead to under each of the two tables the migrations make, one of which never holds a score.
  \<^item> \<open>Social_Rules\<close> (\<open>social_auto_reply/classifier.py\<close>, \<open>risk_flagger.py\<close>, \<open>reply_generator.py\<close>,
    \<open>intelligent_generator.py\<close>): the class of a message, the paragraphs of its answer, and what the
    language model may change of it.
  \<^item> \<open>Social_Queue\<close> (the inbox, the planner, the reply queue, the rate limit and the daemon of
    \<open>social_auto_reply\<close>): only questions of applicants are answered, once, with a bounded number of attempts
    for every requeueing, at the configured distance while turns end in time, and a first question is answered by an
    undisturbed turn; what failing statements and the retry route leave behind.

  \<^bold>\<open>Modelling choices.\<close> A PostgreSQL table is the list of its rows; one SQL statement
  is atomic. The environment of a call says, for each statement on its path, whether it
  raises, and a call that raises leaves the effect of the statements before it. Where calls
  overlap in the program and that matters (leases, the outbound queue, the creation and the links of
  employees, the review queue), the read and the later write of a call are steps of their own, between which
  others may come; elsewhere a step is a whole call, and the theorem says that calls come one after the
  other. Time is counted in microseconds. Amounts are exact: \<open>Decimal\<close> and
  \<open>NUMERIC\<close> are integers in hundredths or rationals, and Python floats in payroll are
  rationals with the code's own rounding. Hash functions, the answers of HTTP services,
  the callback of a writer, settings and the Unicode tables are arguments; where a
  theorem needs something of them it is a named hypothesis. Rows locked by another
  session (\<open>SKIP LOCKED\<close>) are an argument of a claim. Recursion is on a
  list, on the remaining length of a text, or on the days left of an interval; \<open>findall\<close> alone carries
  fuel, one more than the length of the text, which is enough because every turn consumes a character.

  \<^bold>\<open>Not modelled.\<close> HTTP routes and the application's wiring, WebSocket broadcast,
  starting and cancelling of background tasks (a turn of each loop is modelled), OCR, speech and
  language model calls, the other generators of replies, reports, backups, one-off scripts. The texts sent to
  people and the classification of a chat command by its patterns are left out; the theorems
  about commands hold for every classification.

  \<^bold>\<open>What is left.\<close> The import of chat histories and the slip extractor (rules over free text), the
  polling of the bridge databases, the rules of the message router, and the helpers around them are
  not modelled; their writes go through the operations that are.
\<close>

end
